(* ===== verification/Prelude.thy ===== *)
theory Prelude
  imports Main "HOL-Library.Signed_Division" "HOL-Library.Product_Lexorder"
begin

text \<open>
  What every component shares: the state-and-error monad that stands for Go methods which read
  and write the database inside the caller's transaction and return \<open>(value, error)\<close>, its
  weakest-precondition calculus, the two loop combinators with their invariant rules, SQL tables
  as lists of rows with keyed lookups and updates, and generic facts on lists and integers.
\<close>

named_theorems wp_rules \<open>equations that push a weakest precondition through a program\<close>
named_theorems go_arith \<open>Go integer operations on the values the code reaches\<close>

section \<open>Go integers\<close>

text \<open>
  Go's division truncates towards zero (\<open>sdiv\<close>, \<open>smod\<close> of \<open>HOL-Library.Signed_Division\<close>);
  where the operands are not negative it is the mathematical one.
\<close>

lemma sdiv_nonneg [go_arith]: "0 \<le> a \<Longrightarrow> 0 \<le> b \<Longrightarrow> a sdiv b = a div (b::int)"
  by (auto simp: signed_divide_int_def sgn_if)

lemma smod_nonneg [go_arith]: "0 \<le> a \<Longrightarrow> 0 \<le> b \<Longrightarrow> a smod b = a mod (b::int)"
  by (cases "a = 0") (auto simp: signed_modulo_int_def sgn_if)

lemma div_mult_le_int: "0 < c \<Longrightarrow> p div c * c \<le> (p::int)"
  by (metis div_mult_mod_eq le_add_same_cancel1 pos_mod_sign)

lemma div_less_int: "0 < c \<Longrightarrow> p < n * c \<Longrightarrow> p div c < (n::int)"
proof (rule ccontr)
  assume "0 < c" "p < n * c" "\<not> p div c < n"
  then have "n * c \<le> p div c * c" by simp
  with \<open>0 < c\<close> \<open>p < n * c\<close> div_mult_le_int [of c p] show False by linarith
qed

definition maxInt64 :: int where "maxInt64 = 9223372036854775807"

lemma maxInt64_pos [simp]: "0 < maxInt64" "0 \<le> maxInt64"
  by (simp_all add: maxInt64_def)

section \<open>The state-and-error monad\<close>

text \<open>
  A Go method that runs inside a transaction is a function from the state to a result and the
  state it leaves: \<open>Inl e\<close> is a non-nil error, and the state is kept as it was when the method
  returned (the caller decides whether to roll it back).
\<close>

type_synonym ('s, 'e, 'a) M = "'s \<Rightarrow> ('e + 'a) \<times> 's"

definition ret :: "'a \<Rightarrow> ('s, 'e, 'a) M" where
  "ret a = (\<lambda>s. (Inr a, s))"

definition throw :: "'e \<Rightarrow> ('s, 'e, 'a) M" where
  "throw e = (\<lambda>s. (Inl e, s))"

definition bindM :: "('s, 'e, 'a) M \<Rightarrow> ('a \<Rightarrow> ('s, 'e, 'b) M) \<Rightarrow> ('s, 'e, 'b) M" where
  "bindM m f = (\<lambda>s. case m s of (Inl e, s') \<Rightarrow> (Inl e, s') | (Inr a, s') \<Rightarrow> f a s')"

definition thenM :: "('s, 'e, 'a) M \<Rightarrow> ('s, 'e, 'b) M \<Rightarrow> ('s, 'e, 'b) M" where
  "thenM m n = bindM m (\<lambda>_. n)"

definition gets :: "('s \<Rightarrow> 'a) \<Rightarrow> ('s, 'e, 'a) M" where
  "gets f = (\<lambda>s. (Inr (f s), s))"

definition modifyM :: "('s \<Rightarrow> 's) \<Rightarrow> ('s, 'e, unit) M" where
  "modifyM f = (\<lambda>s. (Inr (), f s))"

text \<open>A value-or-error computed without touching the state.\<close>

definition liftE :: "'e + 'a \<Rightarrow> ('s, 'e, 'a) M" where
  "liftE r = (\<lambda>s. (r, s))"

text \<open>An error inspected by the caller (\<open>err := f(...)\<close> and no return): the state stays.\<close>

definition tryM :: "('s, 'e, 'a) M \<Rightarrow> ('s, 'e, 'e + 'a) M" where
  "tryM m = (\<lambda>s. case m s of (r, s') \<Rightarrow> (Inr r, s'))"

text \<open>\<open>for _, x := range xs { ... }\<close>, without and with variables the body assigns.\<close>

primrec forM :: "'x list \<Rightarrow> ('x \<Rightarrow> ('s, 'e, unit) M) \<Rightarrow> ('s, 'e, unit) M" where
  "forM [] f = ret ()"
| "forM (x # xs) f = thenM (f x) (forM xs f)"

primrec foldM :: "('b \<Rightarrow> 'x \<Rightarrow> ('s, 'e, 'b) M) \<Rightarrow> 'b \<Rightarrow> 'x list \<Rightarrow> ('s, 'e, 'b) M" where
  "foldM f b [] = ret b"
| "foldM f b (x # xs) = bindM (f b x) (\<lambda>b'. foldM f b' xs)"

section \<open>Weakest preconditions\<close>

definition wp :: "('s, 'e, 'a) M \<Rightarrow> ('a \<Rightarrow> 's \<Rightarrow> bool) \<Rightarrow> ('e \<Rightarrow> 's \<Rightarrow> bool) \<Rightarrow> 's \<Rightarrow> bool" where
  "wp m Q E s \<longleftrightarrow> (case m s of (Inr a, s') \<Rightarrow> Q a s' | (Inl e, s') \<Rightarrow> E e s')"

lemma wp_ret [wp_rules]: "wp (ret a) Q E = Q a"
  by (rule ext) (simp add: wp_def ret_def)

lemma wp_throw [wp_rules]: "wp (throw e) Q E = E e"
  by (rule ext) (simp add: wp_def throw_def)

lemma wp_bindM [wp_rules]: "wp (bindM m f) Q E = wp m (\<lambda>a. wp (f a) Q E) E"
  by (rule ext) (auto simp: wp_def bindM_def split: prod.splits sum.splits)

lemma wp_thenM [wp_rules]: "wp (thenM m n) Q E = wp m (\<lambda>_. wp n Q E) E"
  by (simp add: thenM_def wp_bindM)

lemma wp_gets [wp_rules]: "wp (gets f) Q E = (\<lambda>s. Q (f s) s)"
  by (rule ext) (simp add: wp_def gets_def)

lemma wp_modifyM [wp_rules]: "wp (modifyM f) Q E = (\<lambda>s. Q () (f s))"
  by (rule ext) (simp add: wp_def modifyM_def)

lemma wp_liftE [wp_rules]:
  "wp (liftE r) Q E s = (case r of Inl e \<Rightarrow> E e s | Inr a \<Rightarrow> Q a s)"
  by (auto simp: wp_def liftE_def split: sum.splits)

lemma wp_tryM [wp_rules]:
  "wp (tryM m) Q E s = wp m (\<lambda>a. Q (Inr a)) (\<lambda>e. Q (Inl e)) s"
  by (auto simp: wp_def tryM_def split: prod.splits sum.splits)

lemma wp_if [wp_rules]: "wp (if b then m else n) Q E s = (if b then wp m Q E s else wp n Q E s)"
  by simp

lemma wp_let [wp_rules]: "wp (Let x f) Q E s = wp (f x) Q E s"
  by simp

lemma wp_case_option [wp_rules]:
  "wp (case x of None \<Rightarrow> m | Some a \<Rightarrow> n a) Q E s
   = (case x of None \<Rightarrow> wp m Q E s | Some a \<Rightarrow> wp (n a) Q E s)"
  by (cases x) auto

lemma wp_case_sum [wp_rules]:
  "wp (case x of Inl a \<Rightarrow> m a | Inr b \<Rightarrow> n b) Q E s
   = (case x of Inl a \<Rightarrow> wp (m a) Q E s | Inr b \<Rightarrow> wp (n b) Q E s)"
  by (cases x) auto

lemma wp_case_prod [wp_rules]:
  "wp (case x of (a, b) \<Rightarrow> m a b) Q E s = (case x of (a, b) \<Rightarrow> wp (m a b) Q E s)"
  by (cases x) auto

text \<open>Consequence, conjunction, and the reading of a weakest precondition on one run.\<close>

lemma wp_conseq:
  assumes "wp m Q' E' s"
    and "\<And>a s'. Q' a s' \<Longrightarrow> Q a s'" and "\<And>e s'. E' e s' \<Longrightarrow> E e s'"
  shows "wp m Q E s"
  using assms by (auto simp: wp_def split: prod.splits sum.splits)

lemma wp_conj:
  "wp m Q E s \<Longrightarrow> wp m Q' E' s \<Longrightarrow> wp m (\<lambda>a s. Q a s \<and> Q' a s) (\<lambda>e s. E e s \<and> E' e s) s"
  by (auto simp: wp_def split: prod.splits sum.splits)

lemma wp_True [simp]: "wp m (\<lambda>_ _. True) (\<lambda>_ _. True) s"
  by (auto simp: wp_def split: prod.splits sum.splits)

lemma wp_resultD: "wp m Q E s \<Longrightarrow> m s = (Inr a, s') \<Longrightarrow> Q a s'"
  by (simp add: wp_def)

lemma wp_errorD: "wp m Q E s \<Longrightarrow> m s = (Inl e, s') \<Longrightarrow> E e s'"
  by (simp add: wp_def)

text \<open>Loops: the invariant is indexed by what is still to be visited.\<close>

lemma wp_forM:
  assumes "I xs s"
    and "\<And>x ys s. I (x # ys) s \<Longrightarrow> wp (f x) (\<lambda>_. I ys) E s"
    and "\<And>s. I [] s \<Longrightarrow> Q () s"
  shows "wp (forM xs f) Q E s"
  using assms(1)
proof (induction xs arbitrary: s)
  case Nil
  then show ?case by (simp add: wp_ret assms(3))
next
  case (Cons x xs)
  have "wp (f x) (\<lambda>_. I xs) E s" using Cons.prems by (rule assms(2))
  then show ?case
    by (simp add: wp_thenM) (erule wp_conseq, rule Cons.IH, assumption+)
qed

lemma wp_foldM:
  assumes "I b xs s"
    and "\<And>b x ys s. I b (x # ys) s \<Longrightarrow> wp (f b x) (\<lambda>b'. I b' ys) E s"
    and "\<And>b s. I b [] s \<Longrightarrow> Q b s"
  shows "wp (foldM f b xs) Q E s"
  using assms(1)
proof (induction xs arbitrary: b s)
  case Nil
  then show ?case by (simp add: wp_ret assms(3))
next
  case (Cons x xs)
  have "wp (f b x) (\<lambda>b'. I b' xs) E s" using Cons.prems by (rule assms(2))
  then show ?case
    by (simp add: wp_bindM) (erule wp_conseq, rule Cons.IH, assumption+)
qed

section \<open>Transactions\<close>

text \<open>
  The caller's transaction around one method: an error rolls the tables back; \<open>undo s s'\<close> is the
  state \<open>s\<close> with what is not in the database (counters in memory) as \<open>s'\<close> left it.
\<close>

definition transact :: "('s \<Rightarrow> 's \<Rightarrow> 's) \<Rightarrow> ('s, 'e, 'a) M \<Rightarrow> ('s, 'e, 'a) M" where
  "transact undo m = (\<lambda>s. case m s of (Inr a, s') \<Rightarrow> (Inr a, s') | (Inl e, s') \<Rightarrow> (Inl e, undo s s'))"

text \<open>
  What a component promises its callers: every method keeps the invariant when it succeeds, its
  errors are expected ones, and a rollback keeps the invariant. Then every sequence of calls does.
\<close>

locale transactional =
  fixes call :: "'c \<Rightarrow> ('s, 'e, 'a) M" and undo :: "'s \<Rightarrow> 's \<Rightarrow> 's"
    and inv :: "'s \<Rightarrow> bool" and expected :: "'e \<Rightarrow> bool" and valid :: "'c \<Rightarrow> bool"
  assumes keeps: "inv s \<Longrightarrow> valid c \<Longrightarrow> wp (call c) (\<lambda>_. inv) (\<lambda>e _. expected e) s"
    and undoes: "inv s \<Longrightarrow> inv (undo s s')"
begin

lemma inv_transact: "inv s \<Longrightarrow> valid c \<Longrightarrow> inv (snd (transact undo (call c) s))"
  using keeps [of s c] undoes by (auto simp: transact_def wp_def split: prod.splits sum.splits)

lemma expected_transact: "inv s \<Longrightarrow> valid c \<Longrightarrow> fst (transact undo (call c) s) = Inl e \<Longrightarrow> expected e"
  using keeps [of s c] by (auto simp: transact_def wp_def split: prod.splits sum.splits)

lemma inv_runs: "inv s \<Longrightarrow> list_all valid cs \<Longrightarrow> inv (foldl (\<lambda>s c. snd (transact undo (call c) s)) s cs)"
  by (induction cs arbitrary: s) (auto intro: inv_transact)

end

section \<open>SQL tables\<close>

text \<open>
  A table is the list of its rows in insertion (rowid) order. \<open>upd P f\<close> is
  \<open>UPDATE ... SET f WHERE P\<close>, \<open>List.find\<close> a point read, \<open>filter\<close> a \<open>SELECT ... WHERE\<close>.
\<close>

definition upd :: "('r \<Rightarrow> bool) \<Rightarrow> ('r \<Rightarrow> 'r) \<Rightarrow> 'r list \<Rightarrow> 'r list" where
  "upd P f = map (\<lambda>x. if P x then f x else x)"

text \<open>\<open>INSERT ... ON CONFLICT DO UPDATE\<close>: update the matching row, or append a new one.\<close>

definition upsert :: "('r \<Rightarrow> bool) \<Rightarrow> ('r \<Rightarrow> 'r) \<Rightarrow> 'r \<Rightarrow> 'r list \<Rightarrow> 'r list" where
  "upsert P f r xs = (if list_ex P xs then upd P f xs else xs @ [r])"

lemma upd_Nil [simp]: "upd P f [] = []"
  by (simp add: upd_def)

lemma upd_Cons [simp]: "upd P f (x # xs) = (if P x then f x else x) # upd P f xs"
  by (simp add: upd_def)

lemma upd_append [simp]: "upd P f (xs @ ys) = upd P f xs @ upd P f ys"
  by (simp add: upd_def)

lemma length_upd [simp]: "length (upd P f xs) = length xs"
  by (simp add: upd_def)

lemma in_upd: "y \<in> set (upd P f xs) \<longleftrightarrow> (\<exists>x\<in>set xs. y = (if P x then f x else x))"
  by (auto simp: upd_def)

lemma in_upd_other: "x \<in> set xs \<Longrightarrow> \<not> P x \<Longrightarrow> x \<in> set (upd P f xs)"
  unfolding in_upd by metis

lemma in_updE:
  assumes "y \<in> set (upd P f xs)"
  obtains x where "x \<in> set xs" "P x" "y = f x" | "y \<in> set xs" "\<not> P y"
  using assms by (auto simp: in_upd split: if_splits)

lemma map_upd: "(\<And>x. P x \<Longrightarrow> g (f x) = g x) \<Longrightarrow> map g (upd P f xs) = map g xs"
  by (auto simp: upd_def)

lemma upd_id: "(\<And>x. x \<in> set xs \<Longrightarrow> P x \<Longrightarrow> f x = x) \<Longrightarrow> upd P f xs = xs"
  by (induction xs) auto

lemma find_upd:
  assumes "\<And>x. p (f x) = p x"
  shows "find p (upd P f xs) = map_option (\<lambda>x. if P x then f x else x) (find p xs)"
  using assms by (induction xs) auto

lemma find_append: "find P (xs @ ys) = (case find P xs of Some x \<Rightarrow> Some x | None \<Rightarrow> find P ys)"
  by (induction xs) auto

lemma find_SomeD: "find P xs = Some x \<Longrightarrow> x \<in> set xs \<and> P x"
  by (induction xs) (auto split: if_splits)

lemma find_NoneD: "find P xs = None \<Longrightarrow> x \<in> set xs \<Longrightarrow> \<not> P x"
  by (auto simp: find_None_iff)

section \<open>Sums over lists\<close>

lemma sum_list_nonneg_int:
  fixes f :: "'a \<Rightarrow> int"
  shows "(\<And>x. x \<in> set xs \<Longrightarrow> 0 \<le> f x) \<Longrightarrow> 0 \<le> sum_list (map f xs)"
  by (induction xs) auto

lemma sum_list_zero: "(\<And>x. x \<in> set xs \<Longrightarrow> f x = 0) \<Longrightarrow> sum_list (map f xs) = (0::int)"
  by (induction xs) auto

lemma sum_list_member_le_int:
  fixes f :: "'a \<Rightarrow> int"
  assumes "\<And>x. x \<in> set xs \<Longrightarrow> 0 \<le> f x" "x \<in> set xs"
  shows "f x \<le> sum_list (map f xs)"
  using assms
proof (induction xs)
  case Nil
  then show ?case by simp
next
  case (Cons y ys)
  have "0 \<le> sum_list (map f ys)" using Cons.prems(1) by (intro sum_list_nonneg_int) simp
  moreover have "0 \<le> f y" using Cons.prems(1) by simp
  moreover have "x = y \<or> f x \<le> sum_list (map f ys)" using Cons by auto
  ultimately show ?case by auto
qed

lemma sum_list_filter_split:
  fixes f :: "'a \<Rightarrow> int"
  shows "sum_list (map f (filter P xs)) + sum_list (map f (filter (\<lambda>x. \<not> P x) xs)) = sum_list (map f xs)"
  by (induction xs) auto

lemma sum_list_sort_key: "sum_list (map f (sort_key k xs)) = (sum_list (map f xs) :: int)"
proof -
  have ins: "sum_list (map f (insort_key k x ys)) = f x + sum_list (map f ys)" for x ys
    by (induction ys) auto
  show ?thesis by (induction xs) (simp_all add: ins)
qed

section \<open>Keyed tables\<close>

text \<open>
  A table with a primary key: at most one row per key, so a point read finds exactly the row of
  that key and an update of one key changes one row.
\<close>

locale keyed_table =
  fixes key :: "'r \<Rightarrow> 'k"
begin

lemma row_eq: "distinct (map key xs) \<Longrightarrow> x \<in> set xs \<Longrightarrow> y \<in> set xs \<Longrightarrow> key x = key y \<Longrightarrow> x = y"
  by (auto simp: distinct_map inj_on_def)

lemma find_none: "find (\<lambda>x. key x = k) xs = None \<longleftrightarrow> k \<notin> key ` set xs"
  by (auto simp: find_None_iff)

lemma find_row:
  assumes "distinct (map key xs)" "x \<in> set xs"
  shows "find (\<lambda>y. key y = key x) xs = Some x"
proof -
  obtain y where y: "find (\<lambda>y. key y = key x) xs = Some y"
    using assms(2) by (metis (full_types) find_none imageI option.exhaust)
  then have "y \<in> set xs" "key y = key x" by (auto dest: find_SomeD)
  with assms y show ?thesis by (metis row_eq)
qed

lemma filter_row: "distinct (map key xs) \<Longrightarrow> x \<in> set xs \<Longrightarrow> filter (\<lambda>y. key y = key x) xs = [x]"
proof (induction xs)
  case (Cons y ys)
  then have "filter (\<lambda>z. key z = key y) ys = []" by (auto simp: filter_empty_conv image_iff)
  with Cons show ?case by auto
qed simp

lemma distinct_insert:
  "distinct (map key (xs @ [x])) \<longleftrightarrow> distinct (map key xs) \<and> find (\<lambda>y. key y = key x) xs = None"
  by (auto simp: find_none)

lemma distinct_upd: "(\<And>x. key (f x) = key x) \<Longrightarrow> distinct (map key (upd P f xs)) = distinct (map key xs)"
  by (simp add: map_upd)

lemma find_upd_row:
  "(\<And>x. key (f x) = key x)
   \<Longrightarrow> find (\<lambda>x. key x = k) (upd P f xs)
     = map_option (\<lambda>x. if P x then f x else x) (find (\<lambda>x. key x = k) xs)"
  by (simp add: find_upd)

lemma sum_delete_row:
  fixes g :: "'r \<Rightarrow> int"
  assumes "distinct (map key xs)" "x \<in> set xs"
  shows "sum_list (map g (filter (\<lambda>y. key y \<noteq> key x) xs)) = sum_list (map g xs) - g x"
  using sum_list_filter_split [of g "\<lambda>y. key y \<noteq> key x" xs] filter_row [OF assms] by simp

lemma sum_upd_row:
  fixes g :: "'r \<Rightarrow> int"
  assumes "distinct (map key xs)" "x \<in> set xs"
  shows "sum_list (map g (upd (\<lambda>y. key y = key x) f xs)) = sum_list (map g xs) - g x + g (f x)"
  using assms
proof (induction xs)
  case Nil
  then show ?case by simp
next
  case (Cons y ys)
  have "upd (\<lambda>z. key z = key x) f ys = ys" if "key y = key x"
    using Cons.prems(1) that by (intro upd_id) (auto simp: image_iff)
  then show ?case
    using Cons by auto
qed

end

section \<open>Decimal text\<close>

text \<open>\<open>strconv.FormatInt(n, 10)\<close>, and \<open>%d\<close> of \<open>fmt\<close>.\<close>

definition decimal_digit :: "nat \<Rightarrow> char" where
  "decimal_digit d = char_of (48 + d)"

fun nat_decimal :: "nat \<Rightarrow> string" where
  "nat_decimal n = (if n < 10 then [decimal_digit n] else nat_decimal (n div 10) @ [decimal_digit (n mod 10)])"

declare nat_decimal.simps [simp del]

definition itoa :: "int \<Rightarrow> string" where
  "itoa n = (if n < 0 then CHR ''-'' # nat_decimal (nat (- n)) else nat_decimal (nat n))"

end
