(* ===== verification/Ledger_Arith.thy ===== *)
theory Ledger_Arith
  imports Prelude "HOL-Library.Word"
begin

text \<open>
  The integer helpers of \<open>internal/ledger/ledger.go\<close>. Amounts are \<open>int64\<close> in the code and
  mathematical integers here; the one place where 64 bits matter is the 128-bit product of
  \<open>mulDiv\<close> and \<open>mulDivCeil\<close>, whose halves, quotient and increment are written out at their
  width. \<open>mulDiv64\<close> is the same routine on machine words.
\<close>

definition clamp :: "int \<Rightarrow> int \<Rightarrow> int \<Rightarrow> int" where
  "clamp v lo hi = max lo (min v hi)"

definition mod_go :: "int \<Rightarrow> int \<Rightarrow> int" where
  "mod_go a b = ((a smod b) + b) smod b"

text \<open>\<open>bits.Mul64\<close> gives the two halves of the product, \<open>bits.Div64\<close> needs \<open>hi < c\<close>.\<close>

definition mulDiv :: "int \<Rightarrow> int \<Rightarrow> int \<Rightarrow> int" where
  "mulDiv a b c =
     (if a \<le> 0 \<or> b \<le> 0 \<or> c \<le> 0 then 0
      else let hi = (a * b) div 2 ^ 64; lo = (a * b) mod 2 ^ 64 in
        if hi \<ge> c then maxInt64
        else let q = (hi * 2 ^ 64 + lo) div c in
          if q > maxInt64 then maxInt64 else q)"

definition mulDivCeil :: "int \<Rightarrow> int \<Rightarrow> int \<Rightarrow> int" where
  "mulDivCeil a b c =
     (if a \<le> 0 \<or> b \<le> 0 \<or> c \<le> 0 then 0
      else let hi = (a * b) div 2 ^ 64; lo = (a * b) mod 2 ^ 64 in
        if hi \<ge> c then maxInt64
        else let q = (hi * 2 ^ 64 + lo) div c; r = (hi * 2 ^ 64 + lo) mod c;
                 q' = (if r > 0 then (q + 1) mod 2 ^ 64 else q) in
          if q' > maxInt64 then maxInt64 else q')"

text \<open>The same on 64-bit words: \<open>bits.Mul64\<close>, \<open>bits.Div64\<close> and the routine over them.\<close>

definition bits_Mul64 :: "64 word \<Rightarrow> 64 word \<Rightarrow> 64 word \<times> 64 word" where
  "bits_Mul64 x y = (word_of_int ((uint x * uint y) div 2 ^ 64), x * y)"

definition bits_Div64 :: "64 word \<Rightarrow> 64 word \<Rightarrow> 64 word \<Rightarrow> 64 word \<times> 64 word" where
  "bits_Div64 hi lo y =
     (word_of_int ((uint hi * 2 ^ 64 + uint lo) div uint y),
      word_of_int ((uint hi * 2 ^ 64 + uint lo) mod uint y))"

definition mulDiv64 :: "64 word \<Rightarrow> 64 word \<Rightarrow> 64 word \<Rightarrow> 64 word" where
  "mulDiv64 a b c =
     (if sint a \<le> 0 \<or> sint b \<le> 0 \<or> sint c \<le> 0 then 0
      else let (hi, lo) = bits_Mul64 a b in
        if uint hi \<ge> uint c then word_of_int maxInt64
        else let (q, _) = bits_Div64 hi lo c in
          if uint q > maxInt64 then word_of_int maxInt64 else q)"

section \<open>What they compute\<close>

lemma clamp_bounds: "lo \<le> hi \<Longrightarrow> lo \<le> clamp v lo hi \<and> clamp v lo hi \<le> hi"
  by (auto simp: clamp_def)

lemma hi_lo_product: "((a * b) div 2 ^ 64) * 2 ^ 64 + (a * b) mod 2 ^ 64 = (a * b :: int)"
  by (rule div_mult_mod_eq)

lemma hi_ge_quotient:
  assumes "0 < c" "0 \<le> p" "c \<le> p div 2 ^ 64"
  shows "2 ^ 64 \<le> p div (c :: int)"
proof -
  have "c * 2 ^ 64 \<le> p div 2 ^ 64 * 2 ^ 64" using assms by simp
  also have "\<dots> \<le> p" by (rule div_mult_le_int) simp
  finally have "(c * 2 ^ 64) div c \<le> p div c" using assms(1) by (rule zdiv_mono1)
  then show ?thesis using assms(1) by simp
qed

lemma mulDiv_eq:
  "mulDiv a b c = (if a \<le> 0 \<or> b \<le> 0 \<or> c \<le> 0 then 0 else min maxInt64 (a * b div c))"
proof (cases "a \<le> 0 \<or> b \<le> 0 \<or> c \<le> 0")
  case False
  then have "0 < c" "0 \<le> a * b" by auto
  then have "maxInt64 < a * b div c" if "c \<le> a * b div 2 ^ 64"
    using hi_ge_quotient [OF _ _ that] by (simp add: maxInt64_def)
  then show ?thesis
    using False by (auto simp: mulDiv_def Let_def hi_lo_product min_def)
qed (simp add: mulDiv_def)

lemma mulDiv_nonneg [simp]: "0 \<le> mulDiv a b c"
  by (auto simp: mulDiv_eq pos_imp_zdiv_nonneg_iff)

lemma mulDiv_le: "0 \<le> a \<Longrightarrow> b \<le> c \<Longrightarrow> mulDiv a b c \<le> a"
proof -
  assume "0 \<le> a" "b \<le> c"
  then have "0 < c \<Longrightarrow> a * b div c \<le> a * c div c"
    by (intro zdiv_mono1 mult_left_mono) auto
  then show ?thesis
    using \<open>0 \<le> a\<close> by (auto simp: mulDiv_eq min_def)
qed

lemma mulDiv_mono: "a \<le> a' \<Longrightarrow> b \<le> b' \<Longrightarrow> mulDiv a b c \<le> mulDiv a' b' c"
proof -
  assume "a \<le> a'" "b \<le> b'"
  then have "0 < a \<Longrightarrow> 0 < b \<Longrightarrow> 0 < c \<Longrightarrow> a * b div c \<le> a' * b' div c"
    by (intro zdiv_mono1 mult_mono) auto
  then show ?thesis
    using \<open>a \<le> a'\<close> \<open>b \<le> b'\<close>
    by (cases "0 < c") (auto simp: mulDiv_eq min_def pos_imp_zdiv_nonneg_iff)
qed

text \<open>The rounded-up quotient, saturating, wherever the increment does not wrap.\<close>

lemma ceil_div: "0 < c \<Longrightarrow> - ((- p) div c) = p div c + (if p mod c > 0 then 1 else 0)" for p c :: int
  using zdiv_zminus1_eq_if [of c p] pos_mod_sign [of c p] by (auto simp: less_le)

lemma mulDivCeil_eq:
  assumes "a * b div c < 2 ^ 64 - 1 \<or> 2 ^ 64 \<le> a * b div c"
  shows "mulDivCeil a b c
    = (if a \<le> 0 \<or> b \<le> 0 \<or> c \<le> 0 then 0 else min maxInt64 (- ((- (a * b)) div c)))"
proof (cases "a \<le> 0 \<or> b \<le> 0 \<or> c \<le> 0")
  case False
  then have c: "0 < c" "0 \<le> a * b" by auto
  then have q0: "0 \<le> a * b div c" by (simp add: pos_imp_zdiv_nonneg_iff)
  have big: "2 ^ 64 \<le> a * b div c" if "c \<le> a * b div 2 ^ 64"
    using hi_ge_quotient [OF c that] .
  have small: "a * b div c < 2 ^ 64 - 1" if "\<not> c \<le> a * b div 2 ^ 64"
  proof (rule ccontr)
    assume "\<not> a * b div c < 2 ^ 64 - 1"
    with assms have "2 ^ 64 * c \<le> a * b div c * c" using c by simp
    also have "\<dots> \<le> a * b" using c by (intro div_mult_le_int)
    finally have "2 ^ 64 * c div 2 ^ 64 \<le> a * b div 2 ^ 64" by (rule zdiv_mono1) simp
    with that show False by simp
  qed
  show ?thesis
  proof (cases "c \<le> a * b div 2 ^ 64")
    case True
    with big [OF True] False c show ?thesis
      by (simp add: mulDivCeil_def Let_def ceil_div maxInt64_def)
  next
    case hi: False
    with small [OF hi] False c q0 show ?thesis
      by (simp add: mulDivCeil_def Let_def hi_lo_product ceil_div min_def maxInt64_def)
  qed
qed (simp add: mulDivCeil_def)

lemma mulDivCeil_nonneg [simp]: "0 \<le> mulDivCeil a b c"
  by (auto simp: mulDivCeil_def Let_def pos_imp_zdiv_nonneg_iff)

text \<open>The routine on machine words computes \<open>mulDiv\<close> of the signed values.\<close>

lemma sint_pos_uint: "0 < sint (x :: 64 word) \<Longrightarrow> uint x = sint x"
  using sint_lt [of x] by (simp add: uint_sint take_bit_int_eq_self)

lemma mulDiv64_eq: "uint (mulDiv64 a b c) = mulDiv (sint a) (sint b) (sint c)"
proof (cases "sint a \<le> 0 \<or> sint b \<le> 0 \<or> sint c \<le> 0")
  case True
  then show ?thesis by (auto simp: mulDiv64_def mulDiv_def)
next
  case False
  then have eqs [symmetric]: "uint a = sint a" "uint b = sint b" "uint c = sint c"
    by (auto simp: sint_pos_uint)
  with False have c: "0 < uint c" by linarith
  have "uint a * uint b < 2 ^ 64 * 2 ^ 64"
    by (intro mult_strict_mono) (use uint_lt2p [of a] uint_lt2p [of b] in auto)
  then have "uint a * uint b div 2 ^ 64 < 2 ^ 64"
    by (intro div_less_int) simp_all
  then have hi: "uint (fst (bits_Mul64 a b)) = uint a * uint b div 2 ^ 64"
    and lo: "uint (snd (bits_Mul64 a b)) = uint a * uint b mod 2 ^ 64"
    by (simp_all add: bits_Mul64_def uint_word_of_int pos_imp_zdiv_nonneg_iff uint_word_ariths)
  have q: "uint (fst (bits_Div64 h l c)) = (uint h * 2 ^ 64 + uint l) div uint c"
    if "uint h < uint c" for h l
  proof -
    have "uint h * 2 ^ 64 + uint l < (uint h + 1) * 2 ^ 64" using uint_lt2p [of l] by (simp add: algebra_simps)
    also have "\<dots> \<le> 2 ^ 64 * uint c" using that by simp
    finally have "(uint h * 2 ^ 64 + uint l) div uint c < 2 ^ 64"
      using c by (intro div_less_int)
    then show ?thesis
      using c by (simp add: bits_Div64_def uint_word_of_int pos_imp_zdiv_nonneg_iff)
  qed
  show ?thesis
    using False hi lo q [of "fst (bits_Mul64 a b)" "snd (bits_Mul64 a b)"]
    by (auto simp: mulDiv64_def mulDiv_def eqs Let_def case_prod_unfold uint_word_of_int maxInt64_def)
qed

end
