(* ===== verification/Allowance.thy ===== *)
theory Allowance
  imports Ledger_Arith
begin

text \<open>
  The types the ledger shares with the board, the services and the trust module
  (\<open>internal/allowance/allowance.go\<close>): resources, buckets, bands, subjects, standings, levers,
  and the one error type a refusal is. Go's \<open>Querier\<close> and the three interfaces \<open>Classifier\<close>,
  \<open>LeverSource\<close> and \<open>ParamsSource\<close> become functions in the ledger's configuration.
\<close>

section \<open>Resources, buckets, bands\<close>

text \<open>\<open>type Resource string\<close>: the three known resources, and any other name.\<close>

datatype Resource = PostBytes | MemoryBytes | Credit | OtherResource string

datatype Bucket = Free | Granted | Earned | Paid

type_synonym Band = nat

definition BandAnonymous :: Band where "BandAnonymous = 0"
definition BandSigned :: Band where "BandSigned = 1"
definition BandProven :: Band where "BandProven = 2"
definition BandTrusted :: Band where "BandTrusted = 3"

lemmas band_defs = BandAnonymous_def BandSigned_def BandProven_def BandTrusted_def

definition BandNames :: "string list" where
  "BandNames = [''anonymous'', ''signed'', ''proven'', ''trusted'']"

definition Band_Name :: "Band \<Rightarrow> string" where
  "Band_Name b = (if b < length BandNames then BandNames ! b else ''band '' @ itoa (int b))"

definition ParseBand :: "string \<Rightarrow> Band option" where
  "ParseBand name = find (\<lambda>i. BandNames ! i = name) [0 ..< length BandNames]"

section \<open>Subjects, standing, levers\<close>

record Subject =
  s_ID :: string
  s_Client :: string
  s_KeyID :: string
  s_Signed :: bool
  s_Hosted :: bool
  s_Credential :: string

record Standing =
  st_Band :: Band
  st_Cents :: int
  st_ShareCents :: int
  st_Root :: string
  st_NewKey :: bool
  st_Source :: string
  st_Reason :: string

record Levers =
  lv_SignedOnly :: bool
  lv_ProvenOnly :: bool
  lv_FreezeTransfers :: bool
  lv_PauseNewKeys :: bool
  lv_SignedServices :: bool
  lv_PauseNewKeysSince :: int
  lv_AnonymousSharePPM :: int
  lv_BudgetCutPPM :: "Resource \<Rightarrow> int option"
  lv_Version :: int

text \<open>
  A refusal (\<open>allowance.Err\<close>). \<open>Details\<close>, a value of any type that the ledger never sets, is
  left out.
\<close>

record Err =
  e_Code :: string
  e_RetryAfter :: int
  e_NextOpenAt :: int
  e_Sent :: int
  e_Limit :: int
  e_SpendLimit :: string
  e_SpendLimitValue :: int
  e_Resource :: "Resource option"
  e_Band :: Band
  e_PricingURL :: string
  e_Message :: string

definition err_code :: "string \<Rightarrow> Err" where
  "err_code code = \<lparr>e_Code = code, e_RetryAfter = 0, e_NextOpenAt = 0, e_Sent = 0, e_Limit = 0,
     e_SpendLimit = [], e_SpendLimitValue = 0, e_Resource = None, e_Band = 0,
     e_PricingURL = [], e_Message = []\<rparr>"

definition NextDay :: "int \<Rightarrow> int" where
  "NextDay now = now - now smod 86400 + 86400"

definition NextHour :: "int \<Rightarrow> int" where
  "NextHour now = now - now smod 3600 + 3600"

definition Until :: "string \<Rightarrow> int \<Rightarrow> int \<Rightarrow> Err" where
  "Until code nxt now = (err_code code)\<lparr>e_RetryAfter := max (nxt - now) 1, e_NextOpenAt := nxt\<rparr>"

section \<open>Facts\<close>

lemma ParseBand_Name: "b \<le> BandTrusted \<Longrightarrow> ParseBand (Band_Name b) = Some b"
proof -
  assume "b \<le> BandTrusted"
  then consider "b = 0" | "b = 1" | "b = 2" | "b = 3" by (fastforce simp: band_defs)
  then show ?thesis by cases (simp_all add: ParseBand_def Band_Name_def BandNames_def upt_rec)
qed

lemma ParseBand_SomeD: "ParseBand n = Some b \<Longrightarrow> b \<le> BandTrusted \<and> Band_Name b = n"
  by (auto simp: ParseBand_def Band_Name_def BandNames_def upt_rec band_defs split: if_splits)

text \<open>A refusal that lifts at midnight or on the hour says so: the time is later, on the boundary.\<close>

lemma NextDay_props: "0 \<le> now \<Longrightarrow> now < NextDay now \<and> NextDay now \<le> now + 86400 \<and> 86400 dvd NextDay now"
  unfolding NextDay_def by (simp add: go_arith)

lemma NextHour_props: "0 \<le> now \<Longrightarrow> now < NextHour now \<and> NextHour now \<le> now + 3600 \<and> 3600 dvd NextHour now"
  unfolding NextHour_def by (simp add: go_arith)

lemma Until_retry: "0 \<le> now \<Longrightarrow> now + e_RetryAfter (Until c (NextDay now) now) = NextDay now"
  using NextDay_props [of now] by (simp add: Until_def err_code_def)

end
