(* ===== verification/Rate.thy ===== *)
theory Rate
  imports Complex_Main Allowance
begin

text \<open>
  The demurrage rate of \<open>internal/ledger/params.go\<close>. \<open>RatePPM\<close> computes in \<open>float64\<close> with \<open>math.Exp2\<close> and
  \<open>math.Round\<close>; the model is the same expression over the real numbers, so it is the value the code means,
  without the rounding of each \<open>float64\<close> operation. Over the half-lives \<open>Validate\<close> admits (1 to 3650) the real
  number stays more than \<open>1.5e-4\<close> away from the next rounding boundary and the \<open>float64\<close> evaluation is exact to
  about \<open>1e-9\<close>, so both round to one integer; this last step is arithmetic on paper and no theorem. An
  equation in integers, a bisection, makes the definition executable.
\<close>

text \<open>\<open>math.Round\<close>: the nearest integer, halves away from zero.\<close>

definition math_Round :: "real \<Rightarrow> int" where
  "math_Round x = (if x < 0 then - \<lfloor>1 / 2 - x\<rfloor> else \<lfloor>x + 1 / 2\<rfloor>)"

definition Exp2 :: "real \<Rightarrow> real" where
  "Exp2 x = 2 powr x"

definition RatePPM :: "int \<Rightarrow> int" where
  "RatePPM h = (if h \<le> 0 then 0 else math_Round ((1 - Exp2 (- 1 / real_of_int h)) * 10 ^ 6))"

section \<open>Bounds\<close>

lemma Exp2_day: "0 < h \<Longrightarrow> 1 / 2 \<le> Exp2 (- 1 / real_of_int h) \<and> Exp2 (- 1 / real_of_int h) < 1"
proof -
  assume h: "0 < h"
  then have "- 1 \<le> - 1 / real_of_int h" by (simp add: field_simps)
  then have "2 powr (- 1 :: real) \<le> 2 powr (- 1 / real_of_int h)" by (intro powr_mono) simp_all
  moreover have "2 powr (- 1 / real_of_int h) < 2 powr (0 :: real)" using h by (intro powr_less_mono) (simp_all add: field_simps)
  ultimately show ?thesis by (simp add: Exp2_def powr_minus_divide)
qed

lemma math_Round_mono: "0 \<le> x \<Longrightarrow> x \<le> y \<Longrightarrow> math_Round x \<le> math_Round y"
  by (auto simp: math_Round_def intro: floor_mono)

lemma math_Round_int: "math_Round (real_of_int n) = n"
  by (auto simp: math_Round_def floor_eq_iff ceiling_eq_iff)

lemma RatePPM_range: "0 \<le> RatePPM h \<and> RatePPM h \<le> 500000"
proof (cases "0 < h")
  case True
  let ?z = "(1 - Exp2 (- 1 / real_of_int h)) * 10 ^ 6"
  have z: "0 \<le> ?z" "?z \<le> real_of_int 500000" using Exp2_day [OF True] by simp_all
  have "math_Round (real_of_int 0) \<le> math_Round ?z" using z(1) by (intro math_Round_mono) simp_all
  moreover have "math_Round ?z \<le> math_Round (real_of_int 500000)" by (rule math_Round_mono [OF z])
  ultimately show ?thesis using True by (simp only: math_Round_int) (simp add: RatePPM_def)
qed (simp add: RatePPM_def)

lemma RatePPM_nonneg [simp]: "0 \<le> RatePPM h"
  using RatePPM_range by blast

section \<open>An executable equation\<close>

text \<open>
  The rate is the largest \<open>r\<close> with \<open>(2e6)^h \<le> 2 * (2e6 + 1 - 2 r)^h\<close>, which a bisection on integers finds.
\<close>

definition rate_ok :: "nat \<Rightarrow> int \<Rightarrow> bool" where
  "rate_ok h r \<longleftrightarrow> 2000000 ^ h \<le> 2 * (2000001 - 2 * r) ^ h"

function rate_search :: "nat \<Rightarrow> int \<Rightarrow> int \<Rightarrow> int" where
  "rate_search h lo hi =
     (if hi - lo \<le> 1 then lo
      else let mid = (lo + hi) div 2 in
        if rate_ok h mid then rate_search h mid hi else rate_search h lo mid)"
  by pat_completeness auto
termination
  by (relation "measure (\<lambda>(h, lo, hi). nat (hi - lo))") auto

declare rate_search.simps [simp del]

lemma half_power: "0 < h \<Longrightarrow> (2 powr (- 1 / real h)) ^ h = 1 / 2"
proof -
  assume h: "0 < h"
  have "(2 powr (- 1 / real h)) ^ h = 2 powr (- 1 / real h * real h)"
    by (simp only: powr_powr [symmetric] powr_realpow powr_gt_zero)
  also have "\<dots> = 2 powr (- 1)" using h by simp
  finally show ?thesis by (simp add: powr_minus_divide)
qed

text \<open>The rate is never exactly a half: an odd number's power would be even.\<close>

lemma rate_not_half:
  assumes "0 < h"
  shows "real_of_int r \<noteq> (1 - 2 powr (- 1 / real h)) * 10 ^ 6 + 1 / 2"
proof
  assume "real_of_int r = (1 - 2 powr (- 1 / real h)) * 10 ^ 6 + 1 / 2"
  then have "2 powr (- 1 / real h) = (2000001 - 2 * real_of_int r) / 2000000" by (simp add: field_simps)
  with half_power [OF assms] have "((2000001 - 2 * real_of_int r) / 2000000) ^ h = 1 / 2" by metis
  then have "2 * (2000001 - 2 * real_of_int r) ^ h = 2000000 ^ h" by (simp add: power_divide field_simps)
  then have "real_of_int (2 * (2000001 - 2 * r) ^ h) = real_of_int (2000000 ^ h)" by simp
  then have "2 * (2000001 - 2 * r) ^ h = 2000000 ^ h" by (simp only: of_int_eq_iff)
  also have "\<dots> = 2 * (1000000 * 2000000 ^ (h - 1))" using assms by (cases h) simp_all
  finally have "(2000001 - 2 * r) ^ h = 1000000 * 2000000 ^ (h - 1)" by simp
  then have "even ((2000001 - 2 * r) ^ h)" by simp
  then show False by simp
qed

lemma rate_ok_real:
  assumes "0 < h" "r \<le> 1000000"
  shows "rate_ok h r \<longleftrightarrow> real_of_int r \<le> (1 - 2 powr (- 1 / real h)) * 10 ^ 6 + 1 / 2"
proof -
  define x where "x = 2 powr (- 1 / real h)"
  define y where "y = (2000001 - 2 * real_of_int r) / 2000000"
  have xh: "x ^ h = 1 / 2" unfolding x_def by (rule half_power [OF assms(1)])
  have "real_of_int r \<le> 1000000" using assms(2) by (metis of_int_le_iff of_int_numeral)
  then have y: "0 \<le> y" by (simp add: y_def)
  have "rate_ok h r \<longleftrightarrow> real_of_int (2000000 ^ h) \<le> real_of_int (2 * (2000001 - 2 * r) ^ h)"
    by (simp only: rate_ok_def of_int_le_iff)
  also have "\<dots> \<longleftrightarrow> 1 / 2 \<le> y ^ h"
    by (simp add: y_def power_divide field_simps)
  also have "\<dots> \<longleftrightarrow> x ^ h \<le> y ^ h" by (simp add: xh)
  also have "\<dots> \<longleftrightarrow> x \<le> y" using assms(1) y by (intro power_mono_iff) (simp_all add: x_def)
  also have "\<dots> \<longleftrightarrow> real_of_int r \<le> (1 - x) * 10 ^ 6 + 1 / 2" by (simp add: y_def field_simps)
  finally show ?thesis by (simp add: x_def)
qed

lemma rate_search_spec:
  "lo < hi \<Longrightarrow> rate_ok h lo \<Longrightarrow> \<not> rate_ok h hi
   \<Longrightarrow> lo \<le> rate_search h lo hi \<and> rate_search h lo hi < hi
     \<and> rate_ok h (rate_search h lo hi) \<and> \<not> rate_ok h (rate_search h lo hi + 1)"
proof (induction h lo hi rule: rate_search.induct)
  case (1 h lo hi)
  show ?case
  proof (cases "hi - lo \<le> 1")
    case True
    with "1.prems" have "hi = lo + 1" by simp
    with "1.prems" show ?thesis by (simp add: rate_search.simps [of h lo "lo + 1"])
  next
    case False
    define mid where "mid = (lo + hi) div 2"
    from False have m: "lo < mid" "mid < hi" by (auto simp: mid_def)
    show ?thesis
    proof (cases "rate_ok h mid")
      case True
      with "1.IH"(1) [OF False mid_def] m "1.prems" False show ?thesis
        by (auto simp: rate_search.simps [of h lo hi] mid_def [symmetric] Let_def)
    next
      case nok: False
      with "1.IH"(2) [OF False mid_def] m "1.prems" False show ?thesis
        by (auto simp: rate_search.simps [of h lo hi] mid_def [symmetric] Let_def)
    qed
  qed
qed

lemma rate_search_bounds:
  assumes "0 < h"
  shows "0 \<le> rate_search (nat h) 0 500001 \<and> rate_search (nat h) 0 500001 \<le> 500000
    \<and> rate_ok (nat h) (rate_search (nat h) 0 500001) \<and> \<not> rate_ok (nat h) (rate_search (nat h) 0 500001 + 1)"
proof -
  have "(2000000::int) ^ nat h \<le> 2000001 ^ nat h" by (rule power_mono) simp_all
  moreover have "(0::int) \<le> 2000001 ^ nat h" by simp
  ultimately have lo: "rate_ok (nat h) 0" by (simp add: rate_ok_def del: zero_le_power)
  have "(2::int) ^ 1 \<le> 2 ^ nat h" using assms by (intro power_increasing) simp_all
  then have "(2::int) * 1000000 ^ nat h \<le> 2 ^ nat h * 1000000 ^ nat h" by (intro mult_right_mono) simp_all
  also have "\<dots> = 2000000 ^ nat h" by (simp flip: power_mult_distrib)
  finally have "(2::int) * 1000000 ^ nat h \<le> 2000000 ^ nat h" .
  moreover have "(999999::int) ^ nat h < 1000000 ^ nat h" using assms by (intro power_strict_mono) simp_all
  ultimately have "2 * (999999::int) ^ nat h < 2000000 ^ nat h" by linarith
  then have hi: "\<not> rate_ok (nat h) 500001" by (simp add: rate_ok_def)
  from rate_search_spec [OF _ lo hi] show ?thesis by auto
qed

lemma RatePPM_code [code]: "RatePPM h = (if h \<le> 0 then 0 else rate_search (nat h) 0 500001)"
proof (cases "h \<le> 0")
  case False
  then have h: "0 < h" by simp
  let ?z = "(1 - 2 powr (- 1 / real_of_int h)) * 10 ^ 6" and ?r = "rate_search (nat h) 0 500001"
  note b = rate_search_bounds [OF h]
  have "real_of_int ?r \<le> ?z + 1 / 2" using b h rate_ok_real [of "nat h" ?r] by simp
  moreover have "?z + 1 / 2 < real_of_int ?r + 1" using b h rate_ok_real [of "nat h" "?r + 1"] by simp
  ultimately have "\<lfloor>?z + 1 / 2\<rfloor> = ?r" by (simp add: floor_eq_iff)
  moreover have "0 \<le> ?z" using Exp2_day [OF h] by (simp add: Exp2_def)
  ultimately show ?thesis using False by (simp add: RatePPM_def math_Round_def Exp2_def)
qed (simp add: RatePPM_def)

end
