(* ===== verification/Params.thy ===== *)
theory Params
  imports Rate
begin

text \<open>
  The versioned parameters of \<open>internal/ledger/params.go\<close>: the share-rule parameters of a
  resource, the whole allowance body with its validation, the compiled-in defaults, the
  conversion of a schema 1 body, and the store of versions. A body is modelled as its decoded
  value: the JSON text and its strict decoder are not modelled, and an error is the key it names.
\<close>

definition maxUnits :: int where "maxUnits = 2 ^ 42"
definition ppm :: int where "ppm = 1000000"
definition maxHalfLife :: int where "maxHalfLife = 3650"

lemma ppm_pos [simp]: "0 < ppm" "0 \<le> ppm" "ppm \<noteq> 0"
  by (simp_all add: ppm_def)

section \<open>The parameter records\<close>

record ResourceParams =
  rp_Unit :: string
  rp_Budget :: int
  rp_SpendCeiling :: int
  rp_GrantSharePPM :: int
  rp_FloorSlicePPM :: int
  rp_Floor :: int
  rp_Cap :: int
  rp_AnonymousSharePPM :: int
  rp_SpillStart :: int
  rp_SpillInterval :: int
  rp_TransferFee :: int
  rp_InboundCap :: int
  rp_NewKeyFloor :: int
  rp_ClientSharePPM :: int

text \<open>A Go map with at most one entry per key is an association list with distinct keys.\<close>

record AllowanceParams =
  ap_Schema :: int
  ap_Resources :: "(Resource \<times> ResourceParams) list"
  ap_ClaimExpiryDays :: int
  ap_ClaimHalfLifeDays :: int
  ap_ClaimRatePPM :: int
  ap_GrantedHalfLifeDays :: int
  ap_GrantedRatePPM :: int
  ap_EarnedHalfLifeDays :: int
  ap_EarnedRatePPM :: int
  ap_Dust :: int
  ap_TransferableFree :: bool
  ap_PaidTransferable :: bool
  ap_TransferDelay :: int
  ap_DormantDays :: int
  ap_SpikeX :: int
  ap_SpikeFloor :: int
  ap_TrustResetDays :: int

definition KnownResources :: "(Resource \<times> string) list" where
  "KnownResources = [(PostBytes, ''byte''), (MemoryBytes, ''byte''), (Credit, ''credit'')]"

section \<open>Validation\<close>

definition inPPM :: "int \<Rightarrow> bool" where
  "inPPM v \<longleftrightarrow> 0 \<le> v \<and> v \<le> ppm"

text \<open>\<open>ResourceParams.validate\<close>: the key of the first bound that fails.\<close>

definition rp_validate :: "ResourceParams \<Rightarrow> string \<Rightarrow> string option" where
  "rp_validate rp unit =
     (if rp_Unit rp \<noteq> unit then Some ''unit''
      else if rp_Budget rp < 0 \<or> rp_Budget rp > maxUnits then Some ''budget''
      else if rp_SpendCeiling rp < rp_Budget rp \<or> rp_SpendCeiling rp > 8 * rp_Budget rp
        then Some ''spend_ceiling''
      else if \<not> inPPM (rp_GrantSharePPM rp) then Some ''grant_share_ppm''
      else if \<not> inPPM (rp_FloorSlicePPM rp) then Some ''floor_slice_ppm''
      else if \<not> inPPM (rp_AnonymousSharePPM rp) then Some ''anonymous_share_ppm''
      else if rp_Cap rp < 0 \<or> rp_Cap rp > maxUnits then Some ''cap''
      else if rp_Floor rp < 0 \<or> rp_Floor rp > rp_Cap rp then Some ''floor''
      else if rp_SpillStart rp < 0 \<or> rp_SpillStart rp > 86399 then Some ''spill_start''
      else if rp_SpillInterval rp < 60 \<or> rp_SpillInterval rp > 86400 then Some ''spill_interval''
      else if rp_TransferFee rp < 0 \<or> rp_TransferFee rp > maxUnits then Some ''transfer_fee''
      else if rp_InboundCap rp < 0 \<or> rp_InboundCap rp > maxUnits then Some ''inbound_cap''
      else if rp_NewKeyFloor rp < 0 \<or> rp_NewKeyFloor rp > maxUnits then Some ''new_key_floor''
      else if rp_ClientSharePPM rp < 1 \<or> rp_ClientSharePPM rp > ppm then Some ''client_share_ppm''
      else None)"

text \<open>The first error of a list of checks.\<close>

primrec first_error :: "string option list \<Rightarrow> string option" where
  "first_error [] = None"
| "first_error (x # xs) = (case x of None \<Rightarrow> first_error xs | Some e \<Rightarrow> Some e)"

definition range_check :: "string \<times> int \<times> int \<times> int \<Rightarrow> string option" where
  "range_check = (\<lambda>(name, v, lo, hi). if v < lo \<or> v > hi then Some name else None)"

definition Validate :: "AllowanceParams \<Rightarrow> string option" where
  "Validate p =
     (if ap_Schema p \<noteq> 2 then Some ''schema''
      else if length (ap_Resources p) \<noteq> length KnownResources then Some ''resources''
      else case first_error (map (\<lambda>(r, unit).
             case map_of (ap_Resources p) r of
               None \<Rightarrow> Some ''resources'' | Some rp \<Rightarrow> rp_validate rp unit) KnownResources) of
        Some e \<Rightarrow> Some e
      | None \<Rightarrow>
        (case first_error (map range_check
           [(''claim_expiry_days'', ap_ClaimExpiryDays p, 0, 30),
            (''claim_half_life_days'', ap_ClaimHalfLifeDays p, 0, maxHalfLife),
            (''granted_half_life_days'', ap_GrantedHalfLifeDays p, 1, maxHalfLife),
            (''earned_half_life_days'', ap_EarnedHalfLifeDays p, 1, maxHalfLife),
            (''dust'', ap_Dust p, 0, 2 ^ 20),
            (''transfer_delay'', ap_TransferDelay p, 0, 30 * 86400),
            (''dormant_days'', ap_DormantDays p, 1, maxHalfLife),
            (''spike_x'', ap_SpikeX p, 1, 1000),
            (''spike_floor'', ap_SpikeFloor p, 1, 1000000),
            (''trust_reset_days'', ap_TrustResetDays p, 0, maxHalfLife)]) of
           Some e \<Rightarrow> Some e
         | None \<Rightarrow>
           first_error (map (\<lambda>(name, h, r). if r \<noteq> RatePPM h then Some name else None)
             [(''claim_rate_ppm'', ap_ClaimHalfLifeDays p, ap_ClaimRatePPM p),
              (''granted_rate_ppm'', ap_GrantedHalfLifeDays p, ap_GrantedRatePPM p),
              (''earned_rate_ppm'', ap_EarnedHalfLifeDays p, ap_EarnedRatePPM p)])))"

section \<open>The compiled-in defaults\<close>

definition defaultFloorSlicePPM :: int where "defaultFloorSlicePPM = 250000"

definition DefaultAllowanceParams :: AllowanceParams where
  "DefaultAllowanceParams =
     (let mib = 2 ^ 20;
        post = \<lparr>rp_Unit = ''byte'', rp_Budget = 128 * mib, rp_SpendCeiling = 256 * mib,
          rp_GrantSharePPM = 0, rp_FloorSlicePPM = defaultFloorSlicePPM, rp_Floor = 4 * mib,
          rp_Cap = 16 * mib, rp_AnonymousSharePPM = ppm, rp_SpillStart = 3600,
          rp_SpillInterval = 3600, rp_TransferFee = 256, rp_InboundCap = 128 * mib,
          rp_NewKeyFloor = 0, rp_ClientSharePPM = ppm\<rparr>;
        memory = \<lparr>rp_Unit = ''byte'', rp_Budget = 32 * mib, rp_SpendCeiling = 64 * mib,
          rp_GrantSharePPM = 0, rp_FloorSlicePPM = defaultFloorSlicePPM, rp_Floor = 256 * 2 ^ 10,
          rp_Cap = 4 * mib, rp_AnonymousSharePPM = 250000, rp_SpillStart = 3600,
          rp_SpillInterval = 3600, rp_TransferFee = 256, rp_InboundCap = 32 * mib,
          rp_NewKeyFloor = 0, rp_ClientSharePPM = ppm\<rparr>;
        credit = \<lparr>rp_Unit = ''credit'', rp_Budget = 3200000, rp_SpendCeiling = 3200000,
          rp_GrantSharePPM = 0, rp_FloorSlicePPM = defaultFloorSlicePPM, rp_Floor = 8000,
          rp_Cap = 400000, rp_AnonymousSharePPM = 100000, rp_SpillStart = 3600,
          rp_SpillInterval = 3600, rp_TransferFee = 1, rp_InboundCap = 3200000,
          rp_NewKeyFloor = 0, rp_ClientSharePPM = ppm\<rparr>
      in \<lparr>ap_Schema = 2,
          ap_Resources = [(PostBytes, post), (MemoryBytes, memory), (Credit, credit)],
          ap_ClaimExpiryDays = 0, ap_ClaimHalfLifeDays = 0, ap_ClaimRatePPM = 0,
          ap_GrantedHalfLifeDays = 14, ap_GrantedRatePPM = RatePPM 14,
          ap_EarnedHalfLifeDays = 30, ap_EarnedRatePPM = RatePPM 30,
          ap_Dust = 64, ap_TransferableFree = True, ap_PaidTransferable = True,
          ap_TransferDelay = 48 * 3600, ap_DormantDays = 30, ap_SpikeX = 4, ap_SpikeFloor = 8,
          ap_TrustResetDays = 30\<rparr>)"

section \<open>Schema 1 bodies\<close>

record resourceParamsV1 =
  r1_Unit :: string
  r1_Budget :: int
  r1_SpendCeiling :: int
  r1_GrantSharePPM :: int
  r1_Cap :: "int list"
  r1_Floor :: "int list"
  r1_RootCap :: "int list"
  r1_ReserveMinPPM :: "int list"
  r1_HeadroomPct :: "int list"
  r1_ShareMaxPPM :: "int list"
  r1_Borrow :: "bool list"
  r1_SpillStart :: int
  r1_SpillInterval :: int
  r1_TransferFee :: int
  r1_InboundCap :: int
  r1_NewKeyFloor :: int
  r1_ClientSharePPM :: int

record allowanceParamsV1 =
  v1_Schema :: int
  v1_Resources :: "(Resource \<times> resourceParamsV1) list"
  v1_ClaimExpiryDays :: int
  v1_ClaimHalfLifeDays :: int
  v1_ClaimRatePPM :: int
  v1_GrantedHalfLifeDays :: int
  v1_GrantedRatePPM :: int
  v1_EarnedHalfLifeDays :: int
  v1_EarnedRatePPM :: int
  v1_Dust :: int
  v1_TransferableFreeTiers :: "int list"
  v1_PaidTransferable :: bool
  v1_TransferDelay :: int
  v1_DormantDays :: int
  v1_SpikeX :: int
  v1_SpikeFloor :: int
  v1_TrustResetDays :: int

definition convert_resource :: "resourceParamsV1 \<Rightarrow> ResourceParams option" where
  "convert_resource v =
     (if length (r1_Cap v) \<noteq> 4 \<or> length (r1_Floor v) \<noteq> 4 \<or> length (r1_ShareMaxPPM v) \<noteq> 4 then None
      else Some \<lparr>rp_Unit = r1_Unit v, rp_Budget = r1_Budget v, rp_SpendCeiling = r1_SpendCeiling v,
        rp_GrantSharePPM = r1_GrantSharePPM v, rp_FloorSlicePPM = defaultFloorSlicePPM,
        rp_Floor = max (r1_Floor v ! 2) (r1_Cap v ! 2),
        rp_Cap = max (max (r1_Cap v ! 0) (r1_Cap v ! 1)) (max (r1_Cap v ! 2) (r1_Cap v ! 3)),
        rp_AnonymousSharePPM = (if r1_Cap v ! 3 = 0 then 0 else r1_ShareMaxPPM v ! 3),
        rp_SpillStart = r1_SpillStart v, rp_SpillInterval = r1_SpillInterval v,
        rp_TransferFee = r1_TransferFee v, rp_InboundCap = r1_InboundCap v,
        rp_NewKeyFloor = r1_NewKeyFloor v, rp_ClientSharePPM = r1_ClientSharePPM v\<rparr>)"

primrec convert_resources ::
    "(Resource \<times> resourceParamsV1) list \<Rightarrow> (Resource \<times> ResourceParams) list option" where
  "convert_resources [] = Some []"
| "convert_resources (x # xs) =
     (case convert_resource (snd x) of None \<Rightarrow> None
      | Some rp \<Rightarrow> map_option (\<lambda>l. (fst x, rp) # l) (convert_resources xs))"

definition convert :: "allowanceParamsV1 \<Rightarrow> AllowanceParams option" where
  "convert v =
     (case convert_resources (v1_Resources v) of None \<Rightarrow> None
      | Some rs \<Rightarrow> Some \<lparr>ap_Schema = 2, ap_Resources = rs,
          ap_ClaimExpiryDays = v1_ClaimExpiryDays v, ap_ClaimHalfLifeDays = v1_ClaimHalfLifeDays v,
          ap_ClaimRatePPM = v1_ClaimRatePPM v, ap_GrantedHalfLifeDays = v1_GrantedHalfLifeDays v,
          ap_GrantedRatePPM = v1_GrantedRatePPM v, ap_EarnedHalfLifeDays = v1_EarnedHalfLifeDays v,
          ap_EarnedRatePPM = v1_EarnedRatePPM v, ap_Dust = v1_Dust v,
          ap_TransferableFree =
            (length (v1_TransferableFreeTiers v) = 4
             \<and> list_all (\<lambda>(i, t). t = int i + 1) (enumerate 0 (v1_TransferableFreeTiers v))),
          ap_PaidTransferable = v1_PaidTransferable v, ap_TransferDelay = v1_TransferDelay v,
          ap_DormantDays = v1_DormantDays v, ap_SpikeX = v1_SpikeX v,
          ap_SpikeFloor = v1_SpikeFloor v, ap_TrustResetDays = v1_TrustResetDays v\<rparr>)"

text \<open>A decoded body: schema 2, schema 1, or text the strict decoder refuses.\<close>

datatype body = BodyV2 AllowanceParams | BodyV1 allowanceParamsV1 | BodyMalformed

definition ParseAllowanceParamsSet :: "body \<Rightarrow> string + AllowanceParams" where
  "ParseAllowanceParamsSet b =
     (case b of BodyV2 p \<Rightarrow> (case Validate p of None \<Rightarrow> Inr p | Some e \<Rightarrow> Inl e)
      | _ \<Rightarrow> Inl ''body'')"

definition ParseAllowanceParams :: "body \<Rightarrow> string + AllowanceParams" where
  "ParseAllowanceParams b =
     (case b of
        BodyV1 v \<Rightarrow> (case convert v of None \<Rightarrow> Inl ''resources''
          | Some p \<Rightarrow> (case Validate p of None \<Rightarrow> Inr p | Some e \<Rightarrow> Inl e))
      | _ \<Rightarrow> ParseAllowanceParamsSet b)"

lemma RatePPM_le_ppm [simp]: "RatePPM h \<le> ppm"
  using RatePPM_range [of h] by (simp add: ppm_def)

section \<open>What validation guarantees\<close>

definition rp_ok :: "ResourceParams \<Rightarrow> bool" where
  "rp_ok rp \<longleftrightarrow> 0 \<le> rp_Budget rp \<and> rp_Budget rp \<le> maxUnits
     \<and> rp_Budget rp \<le> rp_SpendCeiling rp \<and> rp_SpendCeiling rp \<le> 8 * rp_Budget rp
     \<and> inPPM (rp_GrantSharePPM rp) \<and> inPPM (rp_FloorSlicePPM rp) \<and> inPPM (rp_AnonymousSharePPM rp)
     \<and> 0 \<le> rp_Cap rp \<and> rp_Cap rp \<le> maxUnits \<and> 0 \<le> rp_Floor rp \<and> rp_Floor rp \<le> rp_Cap rp
     \<and> 0 \<le> rp_SpillStart rp \<and> rp_SpillStart rp < 86400
     \<and> 60 \<le> rp_SpillInterval rp \<and> rp_SpillInterval rp \<le> 86400
     \<and> 0 \<le> rp_TransferFee rp \<and> rp_TransferFee rp \<le> maxUnits
     \<and> 0 \<le> rp_InboundCap rp \<and> rp_InboundCap rp \<le> maxUnits
     \<and> 0 \<le> rp_NewKeyFloor rp \<and> 1 \<le> rp_ClientSharePPM rp \<and> rp_ClientSharePPM rp \<le> ppm"

lemma rp_validate_ok: "rp_validate rp u = None \<longleftrightarrow> rp_Unit rp = u \<and> rp_NewKeyFloor rp \<le> maxUnits \<and> rp_ok rp"
  unfolding rp_validate_def rp_ok_def by (auto split: if_splits)

lemma first_error_None: "first_error xs = None \<longleftrightarrow> (\<forall>x\<in>set xs. x = None)"
  by (induction xs) (auto split: option.splits)

lemma Validate_resource:
  assumes "Validate p = None" "map_of (ap_Resources p) r = Some rp"
  shows "rp_ok rp"
proof -
  let ?rs = "ap_Resources p"
  have all: "\<forall>(k, unit)\<in>set KnownResources. \<exists>rp. map_of ?rs k = Some rp \<and> rp_validate rp unit = None"
    and len: "length ?rs = length KnownResources"
    using assms(1) by (auto simp: Validate_def first_error_None split: if_splits option.splits)
  have sub: "fst ` set KnownResources \<subseteq> fst ` set ?rs"
    using all by (force dest: map_of_SomeD)
  have "card (fst ` set KnownResources) = 3" by (simp add: KnownResources_def)
  moreover have "card (fst ` set ?rs) \<le> 3"
    using len card_length [of "map fst ?rs"] by (simp add: KnownResources_def)
  ultimately have "fst ` set ?rs = fst ` set KnownResources"
    using sub by (intro card_seteq [symmetric]) auto
  with assms(2) obtain u where "(r, u) \<in> set KnownResources"
    by (force dest: map_of_SomeD)
  with all assms(2) show ?thesis by (force simp: rp_validate_ok)
qed

lemma ParseAllowanceParams_valid: "ParseAllowanceParams b = Inr p \<Longrightarrow> Validate p = None"
  by (auto simp: ParseAllowanceParams_def ParseAllowanceParamsSet_def split: body.splits option.splits)

definition ap_ok :: "AllowanceParams \<Rightarrow> bool" where
  "ap_ok p \<longleftrightarrow> (\<forall>r rp. map_of (ap_Resources p) r = Some rp \<longrightarrow> rp_ok rp)
     \<and> 0 \<le> ap_ClaimExpiryDays p \<and> 0 \<le> ap_ClaimHalfLifeDays p \<and> 1 \<le> ap_GrantedHalfLifeDays p
     \<and> 1 \<le> ap_EarnedHalfLifeDays p \<and> 0 \<le> ap_Dust p \<and> 0 \<le> ap_TransferDelay p
     \<and> 1 \<le> ap_DormantDays p \<and> 1 \<le> ap_SpikeX p \<and> 1 \<le> ap_SpikeFloor p \<and> 0 \<le> ap_TrustResetDays p"

lemma Validate_ap_ok: "Validate p = None \<Longrightarrow> ap_ok p"
  unfolding ap_ok_def
  by (auto dest: Validate_resource)
    (auto simp: Validate_def first_error_None range_check_def split: if_splits option.splits)

end
