(* ===== verification/Params_Store.thy ===== *)
theory Params_Store
  imports Params
begin

text \<open>
  The versioned parameter table (\<open>ParamsStore\<close> of \<open>internal/ledger/params.go\<close>): namespaces with
  a compiled-in version, the selector of the version in effect, point reads, the listing and the
  append of a new version. Bodies are of any type \<open>'b\<close>; \<open>sha\<close> stands for the hex SHA-256 of a
  body's text.
\<close>

record 'b Namespace =
  ns_Version :: int
  ns_Body :: 'b
  ns_Validate :: "('b \<Rightarrow> string option) option"

record 'b params_row =
  pr_namespace :: string
  pr_version :: int
  pr_body :: 'b
  pr_sha256 :: string
  pr_effective_at :: int
  pr_created_at :: int
  pr_actor :: string
  pr_reason :: string

record 'b ParamsVersion =
  pv_Namespace :: string
  pv_Version :: int
  pv_Body :: "'b option"
  pv_SHA256 :: string
  pv_EffectiveAt :: int
  pv_CreatedAt :: int
  pv_Reason :: string
  pv_CompiledIn :: bool

text \<open>Overrides first, then what the packages registered.\<close>

definition ns_namespace :: "(string \<Rightarrow> 'b Namespace option) \<Rightarrow> (string \<Rightarrow> 'b Namespace option)
    \<Rightarrow> string \<Rightarrow> 'b Namespace option" where
  "ns_namespace overrides registered name =
     (case overrides name of Some ns \<Rightarrow> Some ns | None \<Rightarrow> registered name)"

definition compiledIn :: "('b \<Rightarrow> string) \<Rightarrow> string \<Rightarrow> 'b Namespace \<Rightarrow> bool \<Rightarrow> 'b ParamsVersion" where
  "compiledIn sha name ns withBody =
     \<lparr>pv_Namespace = name, pv_Version = ns_Version ns,
      pv_Body = (if withBody then Some (ns_Body ns) else None), pv_SHA256 = sha (ns_Body ns),
      pv_EffectiveAt = 0, pv_CreatedAt = 0, pv_Reason = ''compiled-in defaults'', pv_CompiledIn = True\<rparr>"

definition stored_version :: "bool \<Rightarrow> 'b params_row \<Rightarrow> 'b ParamsVersion" where
  "stored_version withBody r =
     \<lparr>pv_Namespace = pr_namespace r, pv_Version = pr_version r,
      pv_Body = (if withBody then Some (pr_body r) else None), pv_SHA256 = pr_sha256 r,
      pv_EffectiveAt = pr_effective_at r, pv_CreatedAt = pr_created_at r, pv_Reason = pr_reason r,
      pv_CompiledIn = False\<rparr>"

text \<open>\<open>ORDER BY version DESC LIMIT 1\<close>.\<close>

definition newest :: "'b params_row list \<Rightarrow> 'b params_row option" where
  "newest rows = (case sort_key (\<lambda>r. - pr_version r) rows of [] \<Rightarrow> None | r # _ \<Rightarrow> Some r)"

definition Current :: "('b \<Rightarrow> string) \<Rightarrow> 'b Namespace option \<Rightarrow> 'b params_row list
    \<Rightarrow> string \<Rightarrow> int \<Rightarrow> 'b ParamsVersion" where
  "Current sha ns rows name now =
     (case newest (filter (\<lambda>r. pr_namespace r = name \<and> pr_effective_at r \<le> now) rows) of
        None \<Rightarrow> (case ns of
            None \<Rightarrow> \<lparr>pv_Namespace = name, pv_Version = 0, pv_Body = None, pv_SHA256 = [],
              pv_EffectiveAt = 0, pv_CreatedAt = 0, pv_Reason = [], pv_CompiledIn = False\<rparr>
          | Some n \<Rightarrow> compiledIn sha name n True)
      | Some r \<Rightarrow> (case ns of
            None \<Rightarrow> stored_version True r
          | Some n \<Rightarrow> if pr_version r < ns_Version n then compiledIn sha name n True
                     else stored_version True r))"

datatype params_error = UnknownNamespace | VersionNotFound | BadReason | NoValidator | Invalid string

definition Get :: "('b \<Rightarrow> string) \<Rightarrow> 'b Namespace option \<Rightarrow> 'b params_row list
    \<Rightarrow> string \<Rightarrow> int \<Rightarrow> int \<Rightarrow> params_error + 'b ParamsVersion" where
  "Get sha ns rows name version now =
     (case ns of None \<Rightarrow> Inl UnknownNamespace
      | Some n \<Rightarrow>
        if version < 0 then Inr (Current sha ns rows name now)
        else case find (\<lambda>r. pr_namespace r = name \<and> pr_version r = version) rows of
            Some r \<Rightarrow> Inr (stored_version True r)
          | None \<Rightarrow> if version = ns_Version n then Inr (compiledIn sha name n True)
                    else Inl VersionNotFound)"

definition List_versions :: "('b \<Rightarrow> string) \<Rightarrow> 'b Namespace option \<Rightarrow> 'b params_row list
    \<Rightarrow> string \<Rightarrow> params_error + 'b ParamsVersion list" where
  "List_versions sha ns rows name =
     (case ns of None \<Rightarrow> Inl UnknownNamespace
      | Some n \<Rightarrow>
        Inr (sort_key (\<lambda>v. - pv_Version v)
          (map (stored_version False)
             (take 100 (sort_key (\<lambda>r. - pr_version r) (filter (\<lambda>r. pr_namespace r = name) rows)))
           @ [compiledIn sha name n False])))"

definition next_version :: "'b Namespace \<Rightarrow> 'b params_row list \<Rightarrow> string \<Rightarrow> int" where
  "next_version n rows name =
     (let version = ns_Version n + 1 in
      case newest (filter (\<lambda>r. pr_namespace r = name) rows) of
        None \<Rightarrow> version
      | Some latest \<Rightarrow> if pr_version latest \<ge> version then pr_version latest + 1 else version)"

definition Set_version :: "('b \<Rightarrow> string) \<Rightarrow> 'b Namespace option \<Rightarrow> 'b params_row list
    \<Rightarrow> string \<Rightarrow> 'b \<Rightarrow> string \<Rightarrow> string \<Rightarrow> int \<Rightarrow> int
    \<Rightarrow> (params_error + int) \<times> 'b params_row list" where
  "Set_version sha ns rows name body actor reason effective now =
     (case ns of None \<Rightarrow> (Inl UnknownNamespace, rows)
      | Some n \<Rightarrow>
        if reason = [] \<or> length reason > 512 then (Inl BadReason, rows)
        else let effective' = (if effective < now then now else effective) in
          case ns_Validate n of None \<Rightarrow> (Inl NoValidator, rows)
          | Some validate \<Rightarrow>
            (case validate body of Some e \<Rightarrow> (Inl (Invalid e), rows)
             | None \<Rightarrow>
               let version = next_version n rows name in
               (Inr version, rows @ [\<lparr>pr_namespace = name, pr_version = version, pr_body = body,
                  pr_sha256 = sha body, pr_effective_at = effective', pr_created_at = now,
                  pr_actor = actor, pr_reason = reason\<rparr>])))"

section \<open>The newest version\<close>

lemma newest_None: "newest rows = None \<longleftrightarrow> rows = []"
  by (auto simp: newest_def split: list.splits dest: arg_cong [where f = length])

lemma newest_max:
  assumes "newest rows = Some r"
  shows "r \<in> set rows" "\<forall>x\<in>set rows. pr_version x \<le> pr_version r"
proof -
  obtain t where t: "sort_key (\<lambda>r. - pr_version r) rows = r # t"
    using assms by (auto simp: newest_def split: list.splits)
  have "set (r # t) = set rows" by (metis t set_sort)
  then show "r \<in> set rows" by auto
  have "sorted (map (\<lambda>r. - pr_version r) (r # t))" by (metis t sorted_sort_key)
  with \<open>set (r # t) = set rows\<close> show "\<forall>x\<in>set rows. pr_version x \<le> pr_version r" by auto
qed

lemma newest_append_greater:
  assumes "\<forall>x\<in>set rows. pr_version x < pr_version r"
  shows "newest (rows @ [r]) = Some r"
proof -
  obtain m where m: "newest (rows @ [r]) = Some m" by (cases "newest (rows @ [r])") (auto simp: newest_None)
  from newest_max [OF m] assms have "m = r" by (auto simp: not_le [symmetric])
  with m show ?thesis by simp
qed

lemma next_version_greater:
  "ns_Version n < next_version n rows name"
  "r \<in> set rows \<Longrightarrow> pr_namespace r = name \<Longrightarrow> pr_version r < next_version n rows name"
proof -
  show "ns_Version n < next_version n rows name"
    by (auto simp: next_version_def Let_def split: option.splits)
  assume "r \<in> set rows" "pr_namespace r = name"
  then obtain m where m: "newest (filter (\<lambda>r. pr_namespace r = name) rows) = Some m"
    by (cases "newest (filter (\<lambda>r. pr_namespace r = name) rows)") (auto simp: newest_None filter_empty_conv)
  with newest_max(2) [OF m] \<open>r \<in> set rows\<close> \<open>pr_namespace r = name\<close>
  have "pr_version r \<le> pr_version m" by simp
  with m show "pr_version r < next_version n rows name"
    by (auto simp: next_version_def Let_def)
qed

lemma Set_version_InrD:
  assumes "Set_version sha ns rows name body actor reason effective now = (Inr v, rows')"
  obtains n where "ns = Some n" "v = next_version n rows name"
    "rows' = rows @ [\<lparr>pr_namespace = name, pr_version = v, pr_body = body, pr_sha256 = sha body,
       pr_effective_at = max effective now, pr_created_at = now, pr_actor = actor, pr_reason = reason\<rparr>]"
  using assms by (auto simp: Set_version_def Let_def max_def split: option.splits if_splits)

text \<open>
  publishing parameters appends and never edits. When \<open>Set\<close> accepts a body it becomes the
  version in effect from \<open>max effective now\<close> on, whatever was stored or compiled in; before that
  moment the version in effect is what it was; and every other version reads as it did.
\<close>

theorem params_set_appends:
  assumes "Set_version sha ns rows name body actor reason effective now = (Inr v, rows')"
  shows "(max effective now \<le> t \<longrightarrow> pv_Version (Current sha ns rows' name t) = v
            \<and> pv_Body (Current sha ns rows' name t) = Some body)
    \<and> (t < max effective now \<longrightarrow> Current sha ns rows' name t = Current sha ns rows name t)
    \<and> (0 \<le> w \<and> w \<noteq> v \<longrightarrow> Get sha ns rows' name w t = Get sha ns rows name w t)"
proof -
  obtain n where n: "ns = Some n" "v = next_version n rows name" and r':
    "rows' = rows @ [\<lparr>pr_namespace = name, pr_version = v, pr_body = body, pr_sha256 = sha body,
       pr_effective_at = max effective now, pr_created_at = now, pr_actor = actor, pr_reason = reason\<rparr>]"
    using assms by (rule Set_version_InrD)
  note gr = next_version_greater [where n = n and rows = rows and name = name]
  have "pv_Version (Current sha ns rows' name t) = v \<and> pv_Body (Current sha ns rows' name t) = Some body"
    if "max effective now \<le> t"
    using that gr n by (simp add: Current_def r' newest_append_greater stored_version_def)
  moreover have "Current sha ns rows' name t = Current sha ns rows name t" if "t < max effective now"
    using that by (auto simp: Current_def r')
  moreover have "Get sha ns rows' name w t = Get sha ns rows name w t" if "0 \<le> w" "w \<noteq> v"
    using that by (auto simp: Get_def r' find_append split: option.splits)
  ultimately show ?thesis by blast
qed

end
