(* ===== verification/Pools.thy ===== *)
theory Pools
  imports Params
begin

text \<open>
  The daily share rule, the pure part of \<open>internal/ledger/pools.go\<close>: a day's budget cut into a
  grant, a floor and a standing slice; opening and adjusting a day; drawing water from a slice and
  lending the other's; a subject's entitlement. The array \<open>Slices [3]pool\<close> is three fields read
  and written by index.
\<close>

section \<open>Slices and days\<close>

datatype slice = sliceGrant | sliceFloor | sliceStanding

record pool =
  Size :: int
  Claimed :: int
  Lent :: int
  Borrowed :: int
  Claimants :: int
  Weight :: int
  Expected :: int

definition pool0 :: pool where
  "pool0 = \<lparr>Size = 0, Claimed = 0, Lent = 0, Borrowed = 0, Claimants = 0, Weight = 0, Expected = 0\<rparr>"

record dayState =
  d_Resource :: Resource
  d_Day :: int
  d_Budget :: int
  d_BudgetEffective :: int
  d_Unallocated :: int
  d_SpentNonpaid :: int
  d_SpentPaid :: int
  d_OpenedAt :: int
  d_ParamsVersion :: int
  d_Grant :: pool
  d_Floor :: pool
  d_Standing :: pool
  d_Anon :: pool
  d_legacy :: bool

fun Slices :: "dayState \<Rightarrow> slice \<Rightarrow> pool" where
  "Slices d sliceGrant = d_Grant d"
| "Slices d sliceFloor = d_Floor d"
| "Slices d sliceStanding = d_Standing d"

fun setSlice :: "slice \<Rightarrow> (pool \<Rightarrow> pool) \<Rightarrow> dayState \<Rightarrow> dayState" where
  "setSlice sliceGrant f d = d\<lparr>d_Grant := f (d_Grant d)\<rparr>"
| "setSlice sliceFloor f d = d\<lparr>d_Floor := f (d_Floor d)\<rparr>"
| "setSlice sliceStanding f d = d\<lparr>d_Standing := f (d_Standing d)\<rparr>"

definition SliceNames :: "slice \<Rightarrow> string" where
  "SliceNames s = (case s of sliceGrant \<Rightarrow> ''grant'' | sliceFloor \<Rightarrow> ''floor'' | sliceStanding \<Rightarrow> ''standing'')"

definition originGrant :: int where "originGrant = 0"
definition originFloor :: int where "originFloor = 1"
definition originStanding :: int where "originStanding = 2"
definition originAnonymous :: int where "originAnonymous = 4"

lemmas origin_defs = originGrant_def originFloor_def originStanding_def originAnonymous_def

definition sliceOf :: "int \<Rightarrow> slice" where
  "sliceOf origin = (if origin = originStanding then sliceStanding else sliceFloor)"

text \<open>\<open>sliceFloor + sliceStanding - s\<close>: the code only asks it of the floor and standing slices.\<close>

definition other :: "slice \<Rightarrow> slice" where
  "other s = (if s = sliceFloor then sliceStanding else sliceFloor)"

definition avail :: "pool \<Rightarrow> int" where
  "avail p = Size p - Claimed p - Lent p"

definition allocated :: "dayState \<Rightarrow> int" where
  "allocated d = Size (d_Grant d) + Size (d_Floor d) + Size (d_Standing d)"

section \<open>Opening and adjusting a day\<close>

definition effectiveBudget :: "ResourceParams \<Rightarrow> Resource \<Rightarrow> Levers \<Rightarrow> int" where
  "effectiveBudget rp r lv =
     (case lv_BudgetCutPPM lv r of None \<Rightarrow> rp_Budget rp
      | Some c \<Rightarrow> rp_Budget rp - mulDiv (rp_Budget rp) (clamp c 0 ppm) ppm)"

definition sliceSizes :: "int \<Rightarrow> ResourceParams \<Rightarrow> slice \<Rightarrow> int" where
  "sliceSizes be rp =
     (let grant = min be (mulDiv be (rp_GrantSharePPM rp) ppm); rest = be - grant;
          floor = mulDiv rest (rp_FloorSlicePPM rp) ppm
      in (\<lambda>s. case s of sliceGrant \<Rightarrow> grant | sliceFloor \<Rightarrow> floor | sliceStanding \<Rightarrow> rest - floor))"

definition anonymousOff :: "Resource \<Rightarrow> Levers \<Rightarrow> bool" where
  "anonymousOff r lv \<longleftrightarrow> lv_SignedOnly lv \<or> lv_ProvenOnly lv \<or> lv_SignedServices lv \<and> r = Credit"

definition eligible :: "Resource \<Rightarrow> ResourceParams \<Rightarrow> Levers \<Rightarrow> Standing \<Rightarrow> bool" where
  "eligible r rp lv st \<longleftrightarrow>
     (if st_Band st = BandAnonymous \<and> (anonymousOff r lv \<or> rp_AnonymousSharePPM rp = 0) then False
      else \<not> lv_ProvenOnly lv \<or> st_Band st \<ge> BandProven)"

definition anonReleaseStart :: int where "anonReleaseStart = 4"

definition anonReleased :: "dayState \<Rightarrow> ResourceParams \<Rightarrow> int \<Rightarrow> int \<Rightarrow> int" where
  "anonReleased d rp limit now =
     (if rp_AnonymousSharePPM rp \<ge> ppm then limit
      else let hours = clamp ((now - d_Day d * 86400) sdiv 3600) 0 24 in
        min limit (mulDiv limit (anonReleaseStart + hours) 24))"

definition anonRoom :: "dayState \<Rightarrow> ResourceParams \<Rightarrow> Levers \<Rightarrow> int \<Rightarrow> int \<times> bool" where
  "anonRoom d rp lv now =
     (if anonymousOff (d_Resource d) lv then (0, False)
      else let share = (if lv_AnonymousSharePPM lv \<ge> 0
                        then min (rp_AnonymousSharePPM rp) (clamp (lv_AnonymousSharePPM lv) 0 ppm)
                        else rp_AnonymousSharePPM rp);
               limit = mulDiv (d_BudgetEffective d) share ppm;
               released = anonReleased d rp limit now
           in (max 0 (released - Claimed (d_Anon d)), released < limit))"

definition smooth :: "int \<Rightarrow> int \<Rightarrow> int" where
  "smooth expected claimed = max claimed ((expected + claimed) sdiv 2)"

definition computeOpen :: "Resource \<Rightarrow> int \<Rightarrow> ResourceParams \<Rightarrow> Levers \<Rightarrow> dayState option \<Rightarrow> int \<Rightarrow> int \<Rightarrow> dayState" where
  "computeOpen r day rp lv prev version now =
     (let be = effectiveBudget rp r lv;
          fexp = (case prev of None \<Rightarrow> 0 | Some p \<Rightarrow> smooth (Expected (d_Floor p)) (Claimants (d_Floor p)));
          sexp = (case prev of None \<Rightarrow> 0 | Some p \<Rightarrow> smooth (Expected (d_Standing p)) (Weight (d_Standing p)));
          d = \<lparr>d_Resource = r, d_Day = day, d_Budget = rp_Budget rp, d_BudgetEffective = be,
               d_Unallocated = 0, d_SpentNonpaid = 0, d_SpentPaid = 0, d_OpenedAt = now,
               d_ParamsVersion = version,
               d_Grant = pool0\<lparr>Size := sliceSizes be rp sliceGrant\<rparr>,
               d_Floor = pool0\<lparr>Expected := fexp, Size := sliceSizes be rp sliceFloor\<rparr>,
               d_Standing = pool0\<lparr>Expected := sexp, Size := sliceSizes be rp sliceStanding\<rparr>,
               d_Anon = pool0, d_legacy = False\<rparr>
      in d\<lparr>d_Unallocated := d_Budget d - allocated d\<rparr>)"

text \<open>The three loops of \<open>adjust\<close>: within its size, within the effective budget, refilled.\<close>

definition adjust_limit :: "(slice \<Rightarrow> int) \<Rightarrow> dayState \<Rightarrow> slice \<Rightarrow> dayState" where
  "adjust_limit limit d s =
     (let over = Size (Slices d s) - limit s in
      if over > 0 then setSlice s (\<lambda>p. p\<lparr>Size := Size p - min over (max 0 (avail p))\<rparr>) d else d)"

definition adjust_shrink :: "dayState \<times> int \<Rightarrow> slice \<Rightarrow> dayState \<times> int" where
  "adjust_shrink = (\<lambda>(d, need) s.
     if need > 0 then let x = min need (max 0 (avail (Slices d s))) in
       (setSlice s (\<lambda>p. p\<lparr>Size := Size p - x\<rparr>) d, need - x)
     else (d, need))"

definition adjust_grow :: "(slice \<Rightarrow> int) \<Rightarrow> dayState \<times> int \<Rightarrow> slice \<Rightarrow> dayState \<times> int" where
  "adjust_grow limit = (\<lambda>(d, room) s.
     let x = min room (max 0 (limit s - Size (Slices d s))) in
       (setSlice s (\<lambda>p. p\<lparr>Size := Size p + x\<rparr>) d, room - x))"

definition adjust :: "dayState \<Rightarrow> ResourceParams \<Rightarrow> Levers \<Rightarrow> dayState" where
  "adjust d rp lv =
     (let be = effectiveBudget rp (d_Resource d) lv;
          d1 = d\<lparr>d_Budget := rp_Budget rp, d_BudgetEffective := be\<rparr>;
          limit = sliceSizes be rp;
          d2 = foldl (adjust_limit limit) d1 [sliceGrant, sliceFloor, sliceStanding];
          need = allocated d2 - be;
          d3 = (if need > 0 then fst (foldl adjust_shrink (d2, need) [sliceStanding, sliceFloor, sliceGrant]) else d2);
          room = be - allocated d3;
          d4 = (if room > 0 then fst (foldl (adjust_grow limit) (d3, room) [sliceGrant, sliceFloor, sliceStanding]) else d3)
      in d4\<lparr>d_Unallocated := d_Budget d4 - allocated d4\<rparr>)"

section \<open>Spilling, lending, drawing\<close>

definition spillPPM :: "int \<Rightarrow> ResourceParams \<Rightarrow> int \<Rightarrow> int" where
  "spillPPM day rp now0 =
     (let dayEnd = (day + 1) * 86400; now = (if now0 \<ge> dayEnd then dayEnd - 1 else now0);
          start = day * 86400 + rp_SpillStart rp
      in if now < start then 0
         else let k = start + (now - start) sdiv rp_SpillInterval rp * rp_SpillInterval rp
           in (k - day * 86400) * ppm sdiv 86400)"

definition lendable :: "dayState \<Rightarrow> ResourceParams \<Rightarrow> slice \<Rightarrow> int \<Rightarrow> int" where
  "lendable d rp s now =
     (let p = Slices d s;
          keep = mulDivCeil (max 0 (Size p - Claimed p)) (ppm - spillPPM (d_Day d) rp now) ppm
      in max 0 (avail p - keep))"

definition draw :: "dayState \<Rightarrow> ResourceParams \<Rightarrow> int \<Rightarrow> int \<Rightarrow> int \<Rightarrow> int \<times> dayState" where
  "draw d rp origin want now =
     (if want \<le> 0 then (0, d)
      else let s = sliceOf origin;
               own = min want (max 0 (avail (Slices d s)));
               d1 = setSlice s (\<lambda>p. p\<lparr>Claimed := Claimed p + own\<rparr>) d;
               (got, d2) =
                 (if own < want then
                    let u = other s; x = min (want - own) (lendable d1 rp u now) in
                    (own + x, setSlice s (\<lambda>p. p\<lparr>Borrowed := Borrowed p + x\<rparr>)
                       (setSlice u (\<lambda>p. p\<lparr>Lent := Lent p + x\<rparr>) d1))
                  else (own, d1))
           in (got, if origin = originAnonymous
                    then d2\<lparr>d_Anon := (d_Anon d2)\<lparr>Claimed := Claimed (d_Anon d2) + got\<rparr>\<rparr> else d2))"

definition drawable :: "dayState \<Rightarrow> ResourceParams \<Rightarrow> int \<Rightarrow> int \<Rightarrow> int" where
  "drawable d rp origin now =
     (let s = sliceOf origin in max 0 (avail (Slices d s)) + lendable d rp (other s) now)"

definition undraw :: "dayState \<Rightarrow> int \<Rightarrow> int \<Rightarrow> dayState" where
  "undraw d origin x =
     (let s = sliceOf origin; u = other s;
          back = min x (min (Borrowed (Slices d s)) (Lent (Slices d u)));
          d1 = setSlice s (\<lambda>p. p\<lparr>Borrowed := Borrowed p - back\<rparr>)
                 (setSlice u (\<lambda>p. p\<lparr>Lent := Lent p - back\<rparr>) d);
          own = min (x - back) (Claimed (Slices d1 s));
          d2 = setSlice s (\<lambda>p. p\<lparr>Claimed := Claimed p - own\<rparr>) d1
      in if origin = originAnonymous
         then d2\<lparr>d_Anon := (d_Anon d2)\<lparr>Claimed := Claimed (d_Anon d2) - min (back + own) (Claimed (d_Anon d2))\<rparr>\<rparr>
         else d2)"

section \<open>Entitlements\<close>

record rootDay =
  rd_Claims :: int
  rd_Standing :: int

definition entitlement :: "dayState \<Rightarrow> ResourceParams \<Rightarrow> Levers \<Rightarrow> Standing \<Rightarrow> rootDay \<Rightarrow> int \<times> int" where
  "entitlement d rp lv st rd =
     (if \<not> eligible (d_Resource d) rp lv st then (0, 0)
      else let fs = d_Floor d;
               floor = min (rp_Floor rp) (min (rp_Cap rp)
                 (max (max 0 (Size fs) sdiv max 1 (max (Expected fs) (Claimants fs + 1))) (avail fs)));
               standing =
                 (if st_ShareCents st > 0 then
                    let ss = d_Standing d;
                        w = (if rd_Claims rd = 0 then Weight ss + st_ShareCents st else Weight ss);
                        share = mulDiv (max 0 (Size ss)) (st_ShareCents st) (max w (max (Expected ss) (st_ShareCents st)))
                    in max 0 (min (share - rd_Standing rd) (rp_Cap rp - floor))
                  else 0)
           in if st_NewKey st \<and> lv_PauseNewKeys lv then
                let total = min (floor + standing) (rp_NewKeyFloor rp); floor' = min floor total
                in (floor', total - floor')
              else (floor, standing))"

section \<open>Well-formed days\<close>

text \<open>
  A slice is never overdrawn; what one slice lent the other borrowed; the grant slice neither lends
  nor borrows; and the slices with the unallocated rest make up the budget.
\<close>

definition pool_ok :: "pool \<Rightarrow> bool" where
  "pool_ok p \<longleftrightarrow> 0 \<le> Claimed p \<and> 0 \<le> Lent p \<and> 0 \<le> Borrowed p \<and> 0 \<le> avail p"

definition lending_ok :: "dayState \<Rightarrow> bool" where
  "lending_ok d \<longleftrightarrow> Lent (d_Floor d) = Borrowed (d_Standing d) \<and> Lent (d_Standing d) = Borrowed (d_Floor d)
     \<and> Lent (d_Grant d) = 0 \<and> Borrowed (d_Grant d) = 0"

definition day_ok :: "dayState \<Rightarrow> bool" where
  "day_ok d \<longleftrightarrow> pool_ok (d_Grant d) \<and> pool_ok (d_Floor d) \<and> pool_ok (d_Standing d)
     \<and> lending_ok d \<and> 0 \<le> Claimed (d_Anon d) \<and> allocated d + d_Unallocated d = d_Budget d"

lemmas day_ok_defs = day_ok_def pool_ok_def lending_ok_def avail_def allocated_def

text \<open>The water left for free spends, and what the floor and standing slices gave.\<close>

definition water :: "dayState \<Rightarrow> int" where
  "water d = avail (d_Floor d) + avail (d_Standing d)"

definition drawn :: "dayState \<Rightarrow> int" where
  "drawn d = Claimed (d_Floor d) + Lent (d_Floor d) + Claimed (d_Standing d) + Lent (d_Standing d)"

lemma other_simps [simp]: "other sliceFloor = sliceStanding" "other sliceStanding = sliceFloor"
  by (simp_all add: other_def)

lemma other_cases: "sliceOf origin = sliceFloor \<and> other (sliceOf origin) = sliceStanding
   \<or> sliceOf origin = sliceStanding \<and> other (sliceOf origin) = sliceFloor"
  by (simp add: sliceOf_def other_def)

lemma setSlice_frame [simp]:
  "d_Resource (setSlice s f d) = d_Resource d" "d_Day (setSlice s f d) = d_Day d"
  "d_Budget (setSlice s f d) = d_Budget d" "d_BudgetEffective (setSlice s f d) = d_BudgetEffective d"
  "d_Unallocated (setSlice s f d) = d_Unallocated d" "d_SpentNonpaid (setSlice s f d) = d_SpentNonpaid d"
  "d_SpentPaid (setSlice s f d) = d_SpentPaid d" "d_OpenedAt (setSlice s f d) = d_OpenedAt d"
  "d_ParamsVersion (setSlice s f d) = d_ParamsVersion d" "d_Anon (setSlice s f d) = d_Anon d"
  "d_legacy (setSlice s f d) = d_legacy d"
  by (cases s; simp)+

section \<open>Drawing\<close>

lemma lendable_bounds: "0 \<le> lendable d rp s now \<and> lendable d rp s now \<le> max 0 (avail (Slices d s))"
proof -
  let ?p = "Slices d s"
  have "0 \<le> mulDivCeil (max 0 (Size ?p - Claimed ?p)) (ppm - spillPPM (d_Day d) rp now) ppm"
    by (rule mulDivCeil_nonneg)
  then show ?thesis unfolding lendable_def Let_def by linarith
qed

lemma drawable_le_water: "day_ok d \<Longrightarrow> drawable d rp origin now \<le> water d"
  using other_cases [of origin] lendable_bounds [of d rp "other (sliceOf origin)" now]
  by (auto simp: drawable_def Let_def water_def day_ok_def pool_ok_def)

lemma lendable_cong:
  "Slices d s = Slices d' s \<Longrightarrow> d_Day d = d_Day d' \<Longrightarrow> lendable d rp s now = lendable d' rp s now"
  by (simp add: lendable_def)

text \<open>What a draw does to the day, once the units from each slice are known.\<close>

definition take_water :: "int \<Rightarrow> int \<Rightarrow> int \<Rightarrow> dayState \<Rightarrow> dayState" where
  "take_water origin own x d =
     (let s = sliceOf origin;
          d2 = setSlice s (\<lambda>p. p\<lparr>Claimed := Claimed p + own, Borrowed := Borrowed p + x\<rparr>)
                 (setSlice (other s) (\<lambda>p. p\<lparr>Lent := Lent p + x\<rparr>) d)
      in if origin = originAnonymous
         then d2\<lparr>d_Anon := (d_Anon d2)\<lparr>Claimed := Claimed (d_Anon d2) + (own + x)\<rparr>\<rparr> else d2)"

lemma pool_add_0 [simp]: "p\<lparr>Lent := Lent p + 0\<rparr> = (p::pool)" "p\<lparr>Borrowed := Borrowed p + 0\<rparr> = (p::pool)"
  by simp_all

lemma take_water_frame [simp]:
  "d_Resource (take_water origin own x d) = d_Resource d" "d_Day (take_water origin own x d) = d_Day d"
  "d_Budget (take_water origin own x d) = d_Budget d"
  "d_BudgetEffective (take_water origin own x d) = d_BudgetEffective d"
  "d_Unallocated (take_water origin own x d) = d_Unallocated d"
  "d_SpentNonpaid (take_water origin own x d) = d_SpentNonpaid d"
  "d_SpentPaid (take_water origin own x d) = d_SpentPaid d"
  "d_legacy (take_water origin own x d) = d_legacy d"
  "d_OpenedAt (take_water origin own x d) = d_OpenedAt d"
  "d_ParamsVersion (take_water origin own x d) = d_ParamsVersion d"
  by (simp_all add: take_water_def Let_def)

lemma draw_eq:
  fixes d rp origin want now
  assumes "0 < want"
  defines "s \<equiv> sliceOf origin"
  defines "own \<equiv> min want (max 0 (avail (Slices d s)))"
  defines "x \<equiv> min (want - own) (lendable d rp (other s) now)"
  shows "draw d rp origin want now = (own + x, take_water origin own x d)"
proof -
  have L: "lendable (setSlice s (\<lambda>p. p\<lparr>Claimed := Claimed p + own\<rparr>) d) rp (other s) now
      = lendable d rp (other s) now"
    by (rule lendable_cong) (use other_cases [of origin] in \<open>auto simp: s_def\<close>)
  have z: "x = 0" if "\<not> own < want"
    using that lendable_bounds [of d rp "other s" now] by (simp add: x_def own_def)
  show ?thesis
  proof (cases "own < want")
    case True
    then show ?thesis
      using assms(1) other_cases [of origin] L
      by (auto simp: draw_def take_water_def Let_def own_def [symmetric] s_def [symmetric] x_def [symmetric]
          fold_congs)
  next
    case False
    with z have "x = 0" by simp
    with False show ?thesis
      using assms(1) other_cases [of origin]
      by (auto simp: draw_def take_water_def Let_def own_def [symmetric] s_def [symmetric])
  qed
qed

lemma take_water_ok:
  assumes "day_ok d" and "0 \<le> own" "0 \<le> x"
    and "own \<le> max 0 (avail (Slices d (sliceOf origin)))"
    and "x \<le> max 0 (avail (Slices d (other (sliceOf origin))))"
  shows "day_ok (take_water origin own x d) \<and> water (take_water origin own x d) = water d - (own + x)
     \<and> drawn (take_water origin own x d) = drawn d + (own + x)
     \<and> Claimed (d_Anon (take_water origin own x d))
       = Claimed (d_Anon d) + (if origin = originAnonymous then own + x else 0)
     \<and> d_Grant (take_water origin own x d) = d_Grant d"
  using other_cases [of origin]
proof (elim disjE)
  assume "sliceOf origin = sliceFloor \<and> other (sliceOf origin) = sliceStanding"
  with assms show ?thesis
    by (simp add: take_water_def Let_def water_def drawn_def day_ok_defs)
next
  assume "sliceOf origin = sliceStanding \<and> other (sliceOf origin) = sliceFloor"
  with assms show ?thesis
    by (simp add: take_water_def Let_def water_def drawn_def day_ok_defs)
qed

text \<open>
  A draw takes what was asked or everything drawable, whichever is less; the day stays well
  formed (no slice overdrawn, lendings matched by borrowings) and the water falls by exactly what
  the draw returned.
\<close>

lemma draw_spec:
  assumes "day_ok d" and "draw d rp origin want now = (got, d')"
  shows "got = min (max 0 want) (drawable d rp origin now) \<and> day_ok d' \<and> water d' = water d - got
    \<and> drawn d' = drawn d + got
    \<and> Claimed (d_Anon d') = Claimed (d_Anon d) + (if origin = originAnonymous then got else 0)
    \<and> d_Grant d' = d_Grant d"
proof (cases "0 < want")
  case True
  define own where "own = min want (max 0 (avail (Slices d (sliceOf origin))))"
  define x where "x = min (want - own) (lendable d rp (other (sliceOf origin)) now)"
  have D: "got = own + x" "d' = take_water origin own x d"
    using draw_eq [OF True, of d rp origin now] assms(2) by (simp_all add: own_def x_def)
  have l: "0 \<le> lendable d rp (other (sliceOf origin)) now"
    "lendable d rp (other (sliceOf origin)) now \<le> max 0 (avail (Slices d (other (sliceOf origin))))"
    using lendable_bounds by auto
  have b: "0 \<le> own" "0 \<le> x" "own \<le> max 0 (avail (Slices d (sliceOf origin)))"
    "x \<le> max 0 (avail (Slices d (other (sliceOf origin))))"
    using True l by (auto simp: own_def x_def)
  have "got = min (max 0 want) (drawable d rp origin now)"
    using True l unfolding D(1) x_def own_def drawable_def Let_def by linarith
  with take_water_ok [OF assms(1) b] show ?thesis by (simp add: D)
next
  case False
  have "0 \<le> drawable d rp origin now"
    using lendable_bounds [of d rp "other (sliceOf origin)" now] by (simp add: drawable_def Let_def)
  with False assms show ?thesis by (auto simp: draw_def)
qed

lemma draw_frame:
  assumes "draw d rp origin want now = (got, d')"
  shows "d_Budget d' = d_Budget d" "d_BudgetEffective d' = d_BudgetEffective d" "d_Day d' = d_Day d"
    "d_Resource d' = d_Resource d" "d_SpentNonpaid d' = d_SpentNonpaid d" "d_SpentPaid d' = d_SpentPaid d"
    "d_legacy d' = d_legacy d" "d_OpenedAt d' = d_OpenedAt d" "d_ParamsVersion d' = d_ParamsVersion d"
proof -
  obtain own x where "d' = take_water origin own x d \<or> d' = d"
    using assms draw_eq [of want d rp origin now] by (cases "0 < want") (auto simp: draw_def)
  then show "d_Budget d' = d_Budget d" "d_BudgetEffective d' = d_BudgetEffective d" "d_Day d' = d_Day d"
    "d_Resource d' = d_Resource d" "d_SpentNonpaid d' = d_SpentNonpaid d" "d_SpentPaid d' = d_SpentPaid d"
    "d_legacy d' = d_legacy d" "d_OpenedAt d' = d_OpenedAt d" "d_ParamsVersion d' = d_ParamsVersion d"
    by auto
qed

lemma draw_bounds: "day_ok d \<Longrightarrow> draw d rp origin want now = (got, d') \<Longrightarrow> 0 \<le> got \<and> got \<le> max 0 want"
  using draw_spec [of d rp origin want now got d'] lendable_bounds [of d rp "other (sliceOf origin)" now]
  by (auto simp: drawable_def Let_def)

section \<open>Giving water back\<close>

definition give_water :: "int \<Rightarrow> int \<Rightarrow> int \<Rightarrow> int \<Rightarrow> dayState \<Rightarrow> dayState" where
  "give_water origin bk own anon d =
     (let s = sliceOf origin;
          d2 = setSlice s (\<lambda>p. p\<lparr>Borrowed := Borrowed p - bk, Claimed := Claimed p - own\<rparr>)
                 (setSlice (other s) (\<lambda>p. p\<lparr>Lent := Lent p - bk\<rparr>) d)
      in if origin = originAnonymous
         then d2\<lparr>d_Anon := (d_Anon d2)\<lparr>Claimed := Claimed (d_Anon d2) - anon\<rparr>\<rparr> else d2)"

lemma give_water_ok:
  assumes "day_ok d" and "0 \<le> bk" "0 \<le> own" "0 \<le> anon"
    and "bk \<le> Borrowed (Slices d (sliceOf origin))" "own \<le> Claimed (Slices d (sliceOf origin))"
    and "anon \<le> Claimed (d_Anon d)"
  shows "day_ok (give_water origin bk own anon d)
     \<and> water (give_water origin bk own anon d) = water d + (bk + own)
     \<and> Claimed (d_Anon (give_water origin bk own anon d)) \<le> Claimed (d_Anon d)
     \<and> d_Grant (give_water origin bk own anon d) = d_Grant d"
  using other_cases [of origin]
proof (elim disjE)
  assume "sliceOf origin = sliceFloor \<and> other (sliceOf origin) = sliceStanding"
  with assms show ?thesis
    by (simp add: give_water_def Let_def water_def day_ok_defs)
next
  assume "sliceOf origin = sliceStanding \<and> other (sliceOf origin) = sliceFloor"
  with assms show ?thesis
    by (simp add: give_water_def Let_def water_def day_ok_defs)
qed

lemma undraw_eq:
  fixes d origin x
  defines "s \<equiv> sliceOf origin"
  defines "bk \<equiv> min x (min (Borrowed (Slices d s)) (Lent (Slices d (other s))))"
  defines "own \<equiv> min (x - bk) (Claimed (Slices d s))"
  shows "undraw d origin x = give_water origin bk own (min (bk + own) (Claimed (d_Anon d))) d"
proof -
  define d1 where "d1 = setSlice s (\<lambda>p. p\<lparr>Borrowed := Borrowed p - bk\<rparr>)
                 (setSlice (other s) (\<lambda>p. p\<lparr>Lent := Lent p - bk\<rparr>) d)"
  have c: "Claimed (Slices d1 s) = Claimed (Slices d s)"
    using other_cases [of origin] by (auto simp: d1_def s_def)
  have "setSlice s (\<lambda>p. p\<lparr>Claimed := Claimed p - own\<rparr>) d1
      = setSlice s (\<lambda>p. p\<lparr>Borrowed := Borrowed p - bk, Claimed := Claimed p - own\<rparr>)
          (setSlice (other s) (\<lambda>p. p\<lparr>Lent := Lent p - bk\<rparr>) d)"
    using other_cases [of origin] by (auto simp: d1_def s_def)
  then show ?thesis
    unfolding undraw_def give_water_def Let_def s_def [symmetric] bk_def [symmetric] d1_def [symmetric] c
      own_def [symmetric] by (simp add: d1_def)
qed

text \<open>
  Giving back units a day's slices did give (a hold released, a spend refunded) returns exactly
  them to the water: borrowed units to their lender, the rest to the subject's own slice.
\<close>

lemma undraw_spec:
  assumes "day_ok d" "0 \<le> x"
  shows "day_ok (undraw d origin x)
    \<and> water (undraw d origin x)
       = water d + min x (Borrowed (Slices d (sliceOf origin)) + Claimed (Slices d (sliceOf origin)))
    \<and> Claimed (d_Anon (undraw d origin x)) \<le> Claimed (d_Anon d)
    \<and> d_Grant (undraw d origin x) = d_Grant d"
proof -
  let ?s = "sliceOf origin"
  have L: "Lent (Slices d (other ?s)) = Borrowed (Slices d ?s)"
    and n: "0 \<le> Borrowed (Slices d ?s)" "0 \<le> Claimed (Slices d ?s)" "0 \<le> Claimed (d_Anon d)"
    using assms(1) other_cases [of origin] by (auto simp: day_ok_defs)
  define bk where "bk = min x (Borrowed (Slices d ?s))"
  define own where "own = min (x - bk) (Claimed (Slices d ?s))"
  have u: "undraw d origin x = give_water origin bk own (min (bk + own) (Claimed (d_Anon d))) d"
    using undraw_eq [of d origin x] by (simp add: L own_def bk_def)
  have b: "0 \<le> bk" "0 \<le> own" "0 \<le> min (bk + own) (Claimed (d_Anon d))" "bk \<le> Borrowed (Slices d ?s)"
    "own \<le> Claimed (Slices d ?s)" "min (bk + own) (Claimed (d_Anon d)) \<le> Claimed (d_Anon d)"
    using assms(2) n unfolding own_def bk_def by linarith+
  have "bk + own = min x (Borrowed (Slices d ?s) + Claimed (Slices d ?s))"
    using n assms(2) unfolding own_def bk_def by linarith
  with give_water_ok [OF assms(1) b(1-3) b(4-6)] show ?thesis by (simp add: u)
qed

lemma undraw_frame [simp]:
  "d_Budget (undraw d origin x) = d_Budget d" "d_BudgetEffective (undraw d origin x) = d_BudgetEffective d"
  "d_Day (undraw d origin x) = d_Day d" "d_Resource (undraw d origin x) = d_Resource d"
  "d_SpentNonpaid (undraw d origin x) = d_SpentNonpaid d" "d_SpentPaid (undraw d origin x) = d_SpentPaid d"
  "d_legacy (undraw d origin x) = d_legacy d" "d_OpenedAt (undraw d origin x) = d_OpenedAt d"
  "d_ParamsVersion (undraw d origin x) = d_ParamsVersion d"
  by (simp_all add: undraw_def Let_def)

section \<open>Sizes\<close>

text \<open>
  The effective budget lies between zero and the budget, and the three slice sizes are
  non-negative and add up to it exactly: cutting the day neither loses nor invents a unit.
\<close>

lemma sliceSizes_partition:
  assumes "rp_ok rp"
  shows "0 \<le> effectiveBudget rp r lv \<and> effectiveBudget rp r lv \<le> rp_Budget rp
    \<and> (\<forall>s. 0 \<le> sliceSizes (effectiveBudget rp r lv) rp s)
    \<and> sliceSizes (effectiveBudget rp r lv) rp sliceGrant + sliceSizes (effectiveBudget rp r lv) rp sliceFloor
      + sliceSizes (effectiveBudget rp r lv) rp sliceStanding = effectiveBudget rp r lv"
proof -
  have b: "0 \<le> rp_Budget rp" using assms by (simp add: rp_ok_def)
  have "mulDiv (rp_Budget rp) (clamp c 0 ppm) ppm \<le> rp_Budget rp" for c
    using b by (intro mulDiv_le) (auto simp: clamp_def ppm_def)
  with b have e: "0 \<le> effectiveBudget rp r lv" "effectiveBudget rp r lv \<le> rp_Budget rp"
    by (auto simp: effectiveBudget_def split: option.splits)
  define g where "g = min (effectiveBudget rp r lv) (mulDiv (effectiveBudget rp r lv) (rp_GrantSharePPM rp) ppm)"
  have g: "0 \<le> g" "g \<le> effectiveBudget rp r lv"
    using e by (simp_all add: g_def)
  have "mulDiv (effectiveBudget rp r lv - g) (rp_FloorSlicePPM rp) ppm \<le> effectiveBudget rp r lv - g"
    using assms g by (intro mulDiv_le) (auto simp: rp_ok_def inPPM_def)
  with e g show ?thesis
    by (auto simp: sliceSizes_def Let_def g_def [symmetric] split: slice.splits)
qed

lemma day_ok_open: "rp_ok rp \<Longrightarrow> day_ok (computeOpen r day rp lv prev version now)"
  using sliceSizes_partition [of rp r lv]
  by (simp add: computeOpen_def Let_def day_ok_defs pool0_def)

section \<open>Adjusting\<close>

definition slices_ok :: "dayState \<Rightarrow> bool" where
  "slices_ok d \<longleftrightarrow> pool_ok (d_Grant d) \<and> pool_ok (d_Floor d) \<and> pool_ok (d_Standing d)
     \<and> lending_ok d \<and> 0 \<le> Claimed (d_Anon d)"

lemma day_ok_slices: "day_ok d \<longleftrightarrow> slices_ok d \<and> allocated d + d_Unallocated d = d_Budget d"
  by (auto simp: day_ok_def slices_ok_def)

text \<open>Two days that differ in the sizes of their slices and the budget only.\<close>

definition same_draws :: "dayState \<Rightarrow> dayState \<Rightarrow> bool" where
  "same_draws d d' \<longleftrightarrow> (\<forall>s. \<exists>n. Slices d' s = (Slices d s)\<lparr>Size := n\<rparr>)
     \<and> d_Anon d' = d_Anon d \<and> d_Resource d' = d_Resource d \<and> d_Day d' = d_Day d
     \<and> d_SpentNonpaid d' = d_SpentNonpaid d \<and> d_SpentPaid d' = d_SpentPaid d
     \<and> d_OpenedAt d' = d_OpenedAt d \<and> d_ParamsVersion d' = d_ParamsVersion d \<and> d_legacy d' = d_legacy d"

lemma pool_size_id [simp]: "\<exists>n. p = p\<lparr>Size := n\<rparr>" for p :: pool
  by (rule exI [of _ "Size p"]) simp

lemma Slices_cong [simp]:
  "Slices (d\<lparr>d_Budget := b\<rparr>) s = Slices d s" "Slices (d\<lparr>d_BudgetEffective := b\<rparr>) s = Slices d s"
  "Slices (d\<lparr>d_Unallocated := b\<rparr>) s = Slices d s"
  by (cases s; simp)+

lemma same_draws_trans: "same_draws d e \<Longrightarrow> same_draws e f \<Longrightarrow> same_draws d f"
  unfolding same_draws_def by (metis (no_types, lifting) pool.ext_inject pool.surjective pool.update_convs(1))

lemma same_draws_refl [simp]: "same_draws d d"
  unfolding same_draws_def by (metis pool.surjective pool.update_convs(1))

lemma Slices_setSlice: "Slices (setSlice s f d) t = (if s = t then f (Slices d t) else Slices d t)"
  by (cases s; cases t) auto

lemma slices_ok_size:
  assumes "slices_ok d" and "\<And>s. \<exists>n. Slices d' s = (Slices d s)\<lparr>Size := n\<rparr>"
    and "\<And>s. 0 \<le> avail (Slices d' s)" and "d_Anon d' = d_Anon d"
  shows "slices_ok d'"
  using assms(1,3,4) assms(2) [of sliceGrant] assms(2) [of sliceFloor] assms(2) [of sliceStanding]
    assms(3) [of sliceGrant] assms(3) [of sliceFloor] assms(3) [of sliceStanding]
  by (auto simp: slices_ok_def pool_ok_def lending_ok_def)

text \<open>One step of the adjustment: one slice resized, never below what was drawn from it.\<close>

definition resized :: "dayState \<Rightarrow> dayState \<Rightarrow> bool" where
  "resized d d' \<longleftrightarrow> same_draws d d' \<and> (slices_ok d \<longrightarrow> slices_ok d') \<and> d_Budget d' = d_Budget d
     \<and> d_BudgetEffective d' = d_BudgetEffective d"

lemma resized_refl [simp]: "resized d d" by (simp add: resized_def)

lemma resized_trans: "resized d e \<Longrightarrow> resized e f \<Longrightarrow> resized d f"
  by (auto simp: resized_def intro: same_draws_trans)

lemma slices_ok_avail: "slices_ok d \<Longrightarrow> 0 \<le> avail (Slices d s)"
  by (cases s) (auto simp: slices_ok_def pool_ok_def)

lemma resize_step:
  assumes "slices_ok d \<Longrightarrow> k (Slices d s) \<le> avail (Slices d s)"
  shows "resized d (setSlice s (\<lambda>p. p\<lparr>Size := Size p - k p\<rparr>) d)"
proof -
  let ?d = "setSlice s (\<lambda>p. p\<lparr>Size := Size p - k p\<rparr>) d"
  have e: "\<exists>n. Slices ?d t = (Slices d t)\<lparr>Size := n\<rparr>" for t
    by (auto simp: Slices_setSlice intro: exI [of _ "Size (Slices d t)"])
  have "slices_ok ?d" if "slices_ok d"
    by (rule slices_ok_size [OF that e])
      (use assms [OF that] slices_ok_avail [OF that] in \<open>auto simp: Slices_setSlice avail_def\<close>)
  with e show ?thesis by (simp add: resized_def same_draws_def)
qed

lemma resized_limit: "resized d (adjust_limit limit d s)"
  by (auto simp: adjust_limit_def Let_def intro!: resize_step dest: slices_ok_avail [of d s])

lemma resized_shrink: "resized d (fst (adjust_shrink (d, need) s))"
  by (auto simp: adjust_shrink_def Let_def intro!: resize_step dest: slices_ok_avail [of d s])

lemma resized_grow: "0 \<le> room \<Longrightarrow> resized d (fst (adjust_grow limit (d, room) s))"
  using resize_step [of d "\<lambda>_. - min room (max 0 (limit s - Size (Slices d s)))" s] slices_ok_avail [of d s]
  by (cases "slices_ok d") (auto simp: adjust_grow_def Let_def)

lemma allocated_setSlice:
  "allocated (setSlice s (\<lambda>p. p\<lparr>Size := Size p + k p\<rparr>) d) = allocated d + k (Slices d s)"
  by (cases s) (auto simp: allocated_def)

lemma allocated_shrink:
  "allocated (fst (adjust_shrink (d, need) s)) = allocated d - (need - snd (adjust_shrink (d, need) s))
   \<and> (0 < snd (adjust_shrink (d, need) s) \<longrightarrow> avail (Slices (fst (adjust_shrink (d, need) s)) s) \<le> 0)"
  using allocated_setSlice [of s "\<lambda>_. - min need (max 0 (avail (Slices d s)))" d]
  by (auto simp: adjust_shrink_def Let_def Slices_setSlice avail_def)

lemma allocated_grow:
  "allocated (fst (adjust_grow limit (d, room) s)) = allocated d + (room - snd (adjust_grow limit (d, room) s))
   \<and> (0 \<le> room \<longrightarrow> 0 \<le> snd (adjust_grow limit (d, room) s))"
  using allocated_setSlice [of s "\<lambda>_. min room (max 0 (limit s - Size (Slices d s)))" d]
  by (auto simp: adjust_grow_def Let_def)

lemma shrink_rest:
  "0 \<le> need \<Longrightarrow> 0 \<le> snd (adjust_shrink (d, need) s) \<and> snd (adjust_shrink (d, need) s) \<le> need"
  by (simp add: adjust_shrink_def Let_def)

lemma shrink_keep: "s \<noteq> t \<Longrightarrow> Slices (fst (adjust_shrink (d, need) s)) t = Slices d t"
  by (simp add: adjust_shrink_def Let_def Slices_setSlice)

lemma shrink_all:
  fixes d need
  defines "r \<equiv> foldl adjust_shrink (d, need) [sliceStanding, sliceFloor, sliceGrant]"
  assumes "0 < need"
  shows "resized d (fst r)" and "allocated (fst r) = allocated d - (need - snd r)" and "0 \<le> snd r"
    and "0 < snd r \<Longrightarrow> avail (Slices (fst r) s) \<le> 0"
proof -
  obtain e1 n1 where 1: "adjust_shrink (d, need) sliceStanding = (e1, n1)" by fastforce
  obtain e2 n2 where 2: "adjust_shrink (e1, n1) sliceFloor = (e2, n2)" by fastforce
  obtain e3 n3 where 3: "adjust_shrink (e2, n2) sliceGrant = (e3, n3)" by fastforce
  have r: "r = (e3, n3)" by (simp add: r_def 1 2 3)
  show "resized d (fst r)"
    using resized_shrink [of d need sliceStanding] resized_shrink [of e1 n1 sliceFloor]
      resized_shrink [of e2 n2 sliceGrant] by (auto simp: r 1 2 3 intro: resized_trans)
  show "allocated (fst r) = allocated d - (need - snd r)"
    using allocated_shrink [of d need sliceStanding] allocated_shrink [of e1 n1 sliceFloor]
      allocated_shrink [of e2 n2 sliceGrant] by (simp add: r 1 2 3)
  have n: "0 \<le> n1" "0 \<le> n2" "0 \<le> n3" "n3 \<le> n2" "n2 \<le> n1"
    using assms(2) shrink_rest [of need d sliceStanding] shrink_rest [of n1 e1 sliceFloor]
      shrink_rest [of n2 e2 sliceGrant] by (simp_all add: 1 2 3)
  from n(3) show "0 \<le> snd r" by (simp add: r)
  have keep: "d_Standing e3 = d_Standing e1" "d_Floor e3 = d_Floor e2"
    using shrink_keep [of sliceFloor sliceStanding e1 n1] shrink_keep [of sliceGrant sliceStanding e2 n2]
      shrink_keep [of sliceGrant sliceFloor e2 n2] by (simp_all add: 2 3)
  show "avail (Slices (fst r) s) \<le> 0" if "0 < snd r"
    using that n keep allocated_shrink [of d need sliceStanding] allocated_shrink [of e1 n1 sliceFloor]
      allocated_shrink [of e2 n2 sliceGrant] by (cases s) (simp_all add: r 1 2 3)
qed

lemma grow_all:
  fixes d room limit
  defines "r \<equiv> foldl (adjust_grow limit) (d, room) [sliceGrant, sliceFloor, sliceStanding]"
  assumes "0 < room"
  shows "resized d (fst r)" and "allocated (fst r) = allocated d + (room - snd r)" and "0 \<le> snd r"
proof -
  obtain e1 n1 where 1: "adjust_grow limit (d, room) sliceGrant = (e1, n1)" by fastforce
  obtain e2 n2 where 2: "adjust_grow limit (e1, n1) sliceFloor = (e2, n2)" by fastforce
  obtain e3 n3 where 3: "adjust_grow limit (e2, n2) sliceStanding = (e3, n3)" by fastforce
  have r: "r = (e3, n3)" by (simp add: r_def 1 2 3)
  note a = allocated_grow [of limit d room sliceGrant] allocated_grow [of limit e1 n1 sliceFloor]
      allocated_grow [of limit e2 n2 sliceStanding]
  have n: "0 \<le> n1" "0 \<le> n2" "0 \<le> n3" using a assms(2) by (simp_all add: 1 2 3)
  show "resized d (fst r)"
    using assms(2) n resized_grow [of room d limit sliceGrant] resized_grow [of n1 e1 limit sliceFloor]
      resized_grow [of n2 e2 limit sliceStanding] by (auto simp: r 1 2 3 intro: resized_trans)
  show "allocated (fst r) = allocated d + (room - snd r)" "0 \<le> snd r"
    using a n by (simp_all add: r 1 2 3)
qed

text \<open>What the slices of a day gave, the grant slice included.\<close>

definition used :: "dayState \<Rightarrow> int" where
  "used d = (\<Sum>s\<leftarrow>[sliceGrant, sliceFloor, sliceStanding]. Claimed (Slices d s) + Lent (Slices d s))"

lemma same_draws_used: "same_draws d d' \<Longrightarrow> used d' = used d"
proof -
  assume "same_draws d d'"
  then have "\<exists>n. Slices d' s = (Slices d s)\<lparr>Size := n\<rparr>" for s by (simp add: same_draws_def)
  then have "Claimed (Slices d' s) + Lent (Slices d' s) = Claimed (Slices d s) + Lent (Slices d s)" for s
    by (metis pool.ext_inject pool.surjective pool.update_convs(1))
  then show ?thesis by (simp only: used_def list.map)
qed

text \<open>
  Adjusting a day to new parameters or levers touches sizes and the budget only; nothing drawn
  is lost, no slice is cut below what was drawn from it, and the slices fit the new effective
  budget unless more than it had already been given.
\<close>

lemma adjust_spec:
  assumes "slices_ok d"
  shows "day_ok (adjust d rp lv) \<and> same_draws d (adjust d rp lv)
    \<and> d_Budget (adjust d rp lv) = rp_Budget rp
    \<and> d_BudgetEffective (adjust d rp lv) = effectiveBudget rp (d_Resource d) lv
    \<and> allocated (adjust d rp lv) \<le> max (effectiveBudget rp (d_Resource d) lv) (used d)"
proof -
  define be where "be = effectiveBudget rp (d_Resource d) lv"
  define d1 where "d1 = d\<lparr>d_Budget := rp_Budget rp, d_BudgetEffective := be\<rparr>"
  define d2 where "d2 = foldl (adjust_limit (sliceSizes be rp)) d1 [sliceGrant, sliceFloor, sliceStanding]"
  define r3 where "r3 = foldl adjust_shrink (d2, allocated d2 - be) [sliceStanding, sliceFloor, sliceGrant]"
  define d3 where "d3 = (if allocated d2 - be > 0 then fst r3 else d2)"
  define r4 where "r4 = foldl (adjust_grow (sliceSizes be rp)) (d3, be - allocated d3)
    [sliceGrant, sliceFloor, sliceStanding]"
  define d4 where "d4 = (if be - allocated d3 > 0 then fst r4 else d3)"
  have A: "adjust d rp lv = d4\<lparr>d_Unallocated := d_Budget d4 - allocated d4\<rparr>"
    by (simp add: adjust_def Let_def be_def d1_def d2_def r3_def d3_def r4_def d4_def)
  have s1: "same_draws d d1" "slices_ok d1"
    using assms by (simp_all add: same_draws_def slices_ok_def lending_ok_def d1_def)
  have 12: "resized d1 d2"
    using resized_trans [OF resized_trans [OF resized_limit resized_limit] resized_limit] by (simp add: d2_def)
  have 23: "resized d2 d3" using shrink_all(1) by (simp add: d3_def r3_def)
  have 34: "resized d3 d4" using grow_all(1) by (simp add: d4_def r4_def)
  have 14: "resized d1 d4" using 12 23 34 by (blast intro: resized_trans)
  have s4: "slices_ok d4" using 14 s1 by (simp add: resized_def)
  have u3: "used d3 = used d"
    using 12 23 s1 by (auto simp: resized_def dest!: same_draws_used)
  have a3: "allocated d3 \<le> max be (used d)"
  proof (cases "0 < snd r3 \<and> allocated d2 - be > 0")
    case True
    then have "avail (Slices d3 s) \<le> 0" for s
      using shrink_all(4) [of "allocated d2 - be" d2] by (simp add: d3_def r3_def)
    from this [of sliceGrant] this [of sliceFloor] this [of sliceStanding]
    have "allocated d3 \<le> used d3" by (simp add: allocated_def used_def avail_def)
    then show ?thesis using u3 by simp
  next
    case False
    then show ?thesis
      using shrink_all(2,3) [of "allocated d2 - be" d2] by (auto simp: d3_def r3_def)
  qed
  have "allocated d4 \<le> max be (used d)"
    using a3 grow_all(2,3) [of "be - allocated d3" "sliceSizes be rp" d3] by (auto simp: d4_def r4_def)
  moreover have "same_draws d d4" using 14 s1 by (auto simp: resized_def intro: same_draws_trans)
  moreover have "d_Budget d4 = rp_Budget rp" "d_BudgetEffective d4 = be"
    using 14 by (simp_all add: resized_def d1_def)
  ultimately show ?thesis using s4
    by (auto simp: A be_def [symmetric] day_ok_slices slices_ok_def lending_ok_def same_draws_def allocated_def)
qed

section \<open>Spilling\<close>

lemma spill_step: "0 < i \<Longrightarrow> 0 \<le> (x::int) \<Longrightarrow> 0 \<le> x div i * i \<and> x div i * i \<le> x"
  by (simp add: div_mult_le_int pos_imp_zdiv_nonneg_iff)

text \<open>
  The spilled share of a day is zero until spill_start, lies in 0..100 \% whatever the clock,
  and never falls as time passes; so a slice lends nothing at midnight and never takes back what
  it may lend.
\<close>

lemma spillPPM_spec:
  assumes "rp_ok rp"
  shows "(now < day * 86400 + rp_SpillStart rp \<longrightarrow> spillPPM day rp now = 0)
    \<and> 0 \<le> spillPPM day rp now \<and> spillPPM day rp now < ppm
    \<and> (now \<le> now' \<longrightarrow> spillPPM day rp now \<le> spillPPM day rp now')"
proof -
  let ?st = "rp_SpillStart rp" and ?i = "rp_SpillInterval rp"
  have st: "0 \<le> ?st" "?st < 86400" "0 < ?i" using assms by (auto simp: rp_ok_def)
  define n where "n t = min t ((day + 1) * 86400 - 1) - (day * 86400 + ?st)" for t
  define f where "f x = (?st + x div ?i * ?i) * ppm div 86400" for x
  have F: "spillPPM day rp t = (if n t < 0 then 0 else f (n t))" for t
  proof (cases "n t < 0")
    case True
    then show ?thesis using st by (auto simp: spillPPM_def Let_def n_def)
  next
    case False
    define t' where "t' = (if t \<ge> (day + 1) * 86400 then (day + 1) * 86400 - 1 else t)"
    have t': "t' - (day * 86400 + ?st) = n t" "\<not> t' < day * 86400 + ?st"
      using False by (auto simp: t'_def n_def)
    have q: "0 \<le> n t div ?i * ?i" using spill_step [of ?i "n t"] False st by simp
    have "spillPPM day rp t = (day * 86400 + ?st + n t sdiv ?i * ?i - day * 86400) * ppm sdiv 86400"
      unfolding spillPPM_def Let_def t'_def [symmetric] using t' by simp
    also have "n t sdiv ?i = n t div ?i" using False st by (intro sdiv_nonneg) auto
    also have "(day * 86400 + ?st + n t div ?i * ?i - day * 86400) * ppm sdiv 86400 = f (n t)"
      unfolding f_def using q st by (subst sdiv_nonneg) (auto simp: ppm_def)
    finally show ?thesis using False by simp
  qed
  have fpos: "0 \<le> f x" if "0 \<le> x" for x
    using spill_step [of ?i x] that st by (auto simp: f_def ppm_def pos_imp_zdiv_nonneg_iff)
  have fmono: "f x \<le> f y" if "x \<le> y" for x y
    unfolding f_def using that st by (intro zdiv_mono1 mult_right_mono) (auto simp: ppm_def intro: zdiv_mono1)
  have fmax: "f x < ppm" if "0 \<le> x" "x < 86400 - ?st" for x
    unfolding f_def using spill_step [of ?i x] that st by (intro div_less_int) (auto simp: ppm_def)
  have nmax: "n t < 86400 - ?st" for t by (simp add: n_def)
  have "n now \<le> n now'" if "now \<le> now'" using that by (simp add: n_def)
  then show ?thesis
    using fpos [of "n now"] fpos [of "n now'"] fmax [of "n now"] nmax [of now] fmono [of "n now" "n now'"] st
    unfolding F by (auto simp: ppm_def n_def)
qed

text \<open>
  Before the first spill boundary a slice lends nothing, so spends of one slice cannot drain
  the other before its claimants arrive.
\<close>

lemma lendable_before_spill:
  assumes "rp_ok rp" "day_ok d" "now < d_Day d * 86400 + rp_SpillStart rp"
    and "Size (Slices d s) \<le> maxUnits"
  shows "lendable d rp s now = 0 \<and> (s = other (sliceOf origin)
    \<longrightarrow> drawable d rp origin now = max 0 (avail (Slices d (sliceOf origin))))"
proof -
  let ?p = "Slices d s" and ?n = "Size (Slices d s) - Claimed (Slices d s)"
  have p: "pool_ok ?p" using assms(2) by (cases s) (simp_all add: day_ok_def)
  then have n: "0 \<le> ?n" "?n \<le> maxUnits" using assms(4) by (auto simp: pool_ok_def avail_def)
  have sp: "spillPPM (d_Day d) rp now = 0" using spillPPM_spec [OF assms(1)] assms(3) by blast
  have d: "?n * ppm div ppm = ?n" "- (- (?n * ppm) div ppm) = ?n"
    by (simp_all add: ppm_def)
  have "mulDivCeil ?n ppm ppm = ?n"
    using n by (subst mulDivCeil_eq) (auto simp: d maxUnits_def maxInt64_def ppm_def)
  then have "lendable d rp s now = 0"
    using p n by (auto simp: lendable_def Let_def sp pool_ok_def avail_def)
  then show ?thesis by (auto simp: drawable_def Let_def)
qed

section \<open>Entitlements\<close>

text \<open>
  An entitlement is never negative, its floor part is at most the floor, the two parts together
  at most the cap, and the standing part at most the standing slice; a subject the levers exclude
  gets nothing, and a new key under pause-new-keys at most the new-key floor.
\<close>

lemma entitlement_bounds:
  assumes "rp_ok rp" "day_ok d" "0 \<le> rd_Standing rt"
  shows "0 \<le> fst (entitlement d rp lv st rt) \<and> fst (entitlement d rp lv st rt) \<le> rp_Floor rp
    \<and> 0 \<le> snd (entitlement d rp lv st rt) \<and> snd (entitlement d rp lv st rt) \<le> Size (d_Standing d)
    \<and> fst (entitlement d rp lv st rt) + snd (entitlement d rp lv st rt) \<le> rp_Cap rp
    \<and> (\<not> eligible (d_Resource d) rp lv st \<longrightarrow> entitlement d rp lv st rt = (0, 0))
    \<and> (st_NewKey st \<and> lv_PauseNewKeys lv
       \<longrightarrow> fst (entitlement d rp lv st rt) + snd (entitlement d rp lv st rt) \<le> rp_NewKeyFloor rp)"
proof (cases "eligible (d_Resource d) rp lv st")
  case False
  with assms show ?thesis by (auto simp: entitlement_def rp_ok_def day_ok_def pool_ok_def avail_def)
next
  case True
  let ?fs = "d_Floor d" and ?ss = "d_Standing d" and ?c = "st_ShareCents st"
  have size: "0 \<le> Size ?ss" "0 \<le> Size ?fs" using assms(2) by (auto simp: day_ok_def pool_ok_def avail_def)
  define a where "a = max (max 0 (Size ?fs) sdiv max 1 (max (Expected ?fs) (Claimants ?fs + 1))) (avail ?fs)"
  define f where "f = min (rp_Floor rp) (min (rp_Cap rp) a)"
  have a: "0 \<le> a" using assms(2) by (simp add: a_def le_max_iff_disj day_ok_def pool_ok_def)
  have f: "0 \<le> f" "f \<le> rp_Floor rp" "f \<le> rp_Cap rp" using a assms(1) by (auto simp: f_def rp_ok_def)
  define w where "w = (if rd_Claims rt = 0 then Weight ?ss + ?c else Weight ?ss)"
  define sh where "sh = mulDiv (max 0 (Size ?ss)) ?c (max w (max (Expected ?ss) ?c))"
  have sh: "sh \<le> Size ?ss" using mulDiv_le [of "max 0 (Size ?ss)" ?c] size by (simp add: sh_def)
  define st' where "st' = (if ?c > 0 then max 0 (min (sh - rd_Standing rt) (rp_Cap rp - f)) else 0)"
  have s: "0 \<le> st'" "st' \<le> Size ?ss" "f + st' \<le> rp_Cap rp"
    using sh size f assms(3) by (auto simp: st'_def)
  have E: "entitlement d rp lv st rt = (if st_NewKey st \<and> lv_PauseNewKeys lv then
      let total = min (f + st') (rp_NewKeyFloor rp) in (min f total, total - min f total) else (f, st'))"
    unfolding entitlement_def Let_def a_def f_def w_def sh_def st'_def
    by (simp only: True not_True_eq_False if_False)
  have "0 \<le> rp_NewKeyFloor rp" using assms(1) by (simp add: rp_ok_def)
  with True f s show ?thesis unfolding E Let_def by auto
qed

end
