(* ===== verification/Store.thy ===== *)
theory Store
  imports Pools "HOL-Library.List_Lexorder" "HOL-Library.Char_ord"
begin

text \<open>
  The ledger's state and its SQL primitives (\<open>internal/ledger/schema.go\<close>, \<open>ledger.go\<close>): one record
  whose fields are the tables of the schema, each the list of its rows in insertion order, with
  the \<open>AUTOINCREMENT\<close> counters; the operation object \<open>*op\<close> that the methods of one call mutate; and the
  refusal counts kept in memory. \<open>CHECK\<close> and uniqueness constraints are checked by the statements
  that could violate them. Columns with a \<open>CHECK(... IN ...)\<close> are datatypes. A \<open>SELECT\<close> with no
  \<open>ORDER BY\<close> reads rows in insertion order.
\<close>

section \<open>Rows\<close>

record Ref =
  ref_Service :: string
  ref_Op :: string
  ref_Method :: string
  ref_PublicRef :: string

definition Ref0 :: Ref where
  "Ref0 = \<lparr>ref_Service = [], ref_Op = [], ref_Method = [], ref_PublicRef = []\<rparr>"

datatype lot_state = lot_live | lot_spent | lot_expired

text \<open>\<open>ledger_lots\<close>, and the struct \<open>lot\<close> (which leaves out resource, state and creation time).\<close>

record lot =
  l_ID :: int
  l_Account :: string
  l_Resource :: Resource
  l_Bucket :: Bucket
  l_Origin :: int
  l_OriginAccount :: string
  l_Hops :: int
  l_IssuedDay :: int
  l_ExpiresAt :: int
  l_HalfLife :: int
  l_DecayedDay :: int
  l_Initial :: int
  l_Remaining :: int
  l_Held :: int
  l_State :: lot_state
  l_CreatedAt :: int

datatype kind = k_claim | k_grant | k_earn | k_topup | k_spend | k_reserve | k_commit | k_refund
  | k_transfer_out | k_transfer_in | k_fee | k_expire | k_decay | k_forfeit | k_dividend | k_spill
  | k_lever | k_shadow

record entry =
  je_Seq :: int
  je_Day :: int
  je_Now :: int
  je_Kind :: kind
  je_Account :: string
  je_Counter :: string
  je_Resource :: Resource
  je_Bucket :: "Bucket option"
  je_LotID :: int
  je_Amount :: int
  je_HoldID :: string
  je_Ref :: Ref
  je_Version :: int
  je_Detail :: string

datatype hold_state = h_held | h_committed | h_refunded | h_expired

record holdRow =
  h_ID :: string
  h_Account :: string
  h_Resource :: Resource
  h_Max :: int
  h_Used :: int
  h_State :: hold_state
  h_RequestKey :: string
  h_Service :: string
  h_Method :: string
  h_CreatedAt :: int
  h_ExpiresAt :: int

record partRow =
  hp_Hold :: string
  hp_Lot :: int
  hp_Units :: int

datatype transfer_state = t_pending | t_done | t_cancelled

record transferRow =
  t_ID :: string
  t_From :: string
  t_To :: string
  t_Resource :: Resource
  t_Amount :: int
  t_Fee :: int
  t_HoldID :: string
  t_State :: transfer_state
  t_CreatedAt :: int
  t_ExecuteAt :: int
  t_DoneAt :: int
  t_CancelledBy :: string

record Breaker =
  b_Seq :: int
  b_Account :: string
  b_Reason :: string
  b_CancelKey :: string
  b_StartedAt :: int
  b_TransferUntil :: int
  b_TrustUntil :: int

record dayRow =
  dr_Resource :: Resource
  dr_Day :: int
  dr_Budget :: int
  dr_BudgetEffective :: int
  dr_Unallocated :: int
  dr_SpentNonpaid :: int
  dr_SpentPaid :: int
  dr_OpenedAt :: int
  dr_ParamsVersion :: int

text \<open>\<open>allowance_pools\<close>; \<open>want\<close> and \<open>expected_units\<close> are always written 0 and never read.\<close>

record poolRow =
  pr_Resource :: Resource
  pr_Day :: int
  pr_Tier :: int
  pr_SpillIn :: int
  pr_SpillOut :: int
  pr_Pool :: pool

record claimRow =
  c_Resource :: Resource
  c_Day :: int
  c_Subject :: string
  c_Band :: Band
  c_Standing :: int
  c_Root :: string
  c_Entitlement :: int
  c_Granted :: int
  c_Source :: string
  c_LotID :: int
  c_CreatedAt :: int

record clientRow =
  cl_Resource :: Resource
  cl_Day :: int
  cl_Subject :: string
  cl_Client :: string
  cl_Spent :: int

record usageRow =
  u_Resource :: Resource
  u_Day :: int
  u_Subject :: string
  u_Spent :: int
  u_Incoming :: int
  u_Outgoing :: int

record SpendLimit =
  sl_Credential :: string
  sl_Account :: string
  sl_PerDay :: "int option"
  sl_PerCall :: "int option"
  sl_ExpiresAt :: int
  sl_SetAt :: int
  sl_SetBy :: string

record limitUsage =
  lu_Credential :: string
  lu_Day :: int
  lu_Spent :: int

record limitHold =
  lh_Hold :: string
  lh_Credential :: string
  lh_Day :: int

record holdShare =
  hs_Hold :: string
  hs_Credential :: string
  hs_Day :: int
  hs_Units :: int

text \<open>The operation object; a nil map is \<open>None\<close>.\<close>

record op =
  o_p :: AllowanceParams
  o_version :: int
  o_rp :: ResourceParams
  o_lv :: Levers
  o_r :: Resource
  o_day :: int
  o_now :: int
  o_d :: dayState
  o_orig :: dayState
  o_hourBound :: bool
  o_noShareLot :: bool
  o_noShareBand :: Band
  o_spent :: "(Bucket \<Rightarrow> int) option"

section \<open>The state\<close>

record led =
  days :: "dayRow list"
  pools :: "poolRow list"
  claims :: "claimRow list"
  client_spend :: "clientRow list"
  usage :: "usageRow list"
  lots :: "lot list"
  lots_seq :: int
  entries :: "entry list"
  entries_seq :: int
  holds :: "holdRow list"
  hold_parts :: "partRow list"
  transfers :: "transferRow list"
  breakers :: "Breaker list"
  breakers_seq :: int
  spend_limits :: "SpendLimit list"
  limit_usage :: "limitUsage list"
  limit_holds :: "limitHold list"
  limit_hold_shares :: "holdShare list"
  lop :: op
  refusals :: "((int \<times> Resource \<times> string) \<times> int) list"

text \<open>
  Errors: a refusal (\<open>*allowance.Err\<close>), another error by its message, \<open>ErrNotFound\<close>, and a statement
  that failed a \<open>CHECK\<close> or a uniqueness constraint.
\<close>

datatype lerr = Refuse Err | Internal string | NotFound string | SqlCheck | SqlUnique

type_synonym 'a LM = "(led, lerr, 'a) M"

definition refuse :: "string \<Rightarrow> lerr" where
  "refuse code = Refuse (err_code code)"

definition refuseDay :: "string \<Rightarrow> int \<Rightarrow> lerr" where
  "refuseDay code now = Refuse (Until code (NextDay now) now)"

definition isRefusal :: "lerr \<Rightarrow> bool" where
  "isRefusal e = (case e of Refuse _ \<Rightarrow> True | _ \<Rightarrow> False)"

section \<open>Configuration\<close>

text \<open>
  What the ledger is wired to: the parameter source, the levers, the classifier and the digest are
  functions (their own reads of the database are not the ledger's). \<open>None\<close> is a nil interface.
\<close>

record Config =
  cf_Classifier :: "(Subject \<Rightarrow> int \<Rightarrow> string + Standing) option"
  cf_Levers :: "(int \<Rightarrow> string + Levers) option"
  cf_Params :: "int \<Rightarrow> string + (int \<times> body)"
  cf_Deposits :: "string list"
  cf_sha256 :: "string \<Rightarrow> string"

text \<open>An error of one of them is passed on.\<close>

definition liftS :: "string + 'a \<Rightarrow> 'a LM" where
  "liftS r = (case r of Inl e \<Rightarrow> throw (Internal e) | Inr a \<Rightarrow> ret a)"

lemma wp_liftS [wp_rules]: "wp (liftS r) Q E s = (case r of Inl e \<Rightarrow> E (Internal e) s | Inr a \<Rightarrow> Q a s)"
  by (simp add: liftS_def wp_rules split: sum.splits)

definition DefaultClassifier :: "Subject \<Rightarrow> int \<Rightarrow> string + Standing" where
  "DefaultClassifier s now =
     (if s_Signed s then
        Inr \<lparr>st_Band = BandSigned, st_Cents = 0, st_ShareCents = 0, st_Root = s_ID s, st_NewKey = False,
             st_Source = ''none'', st_Reason = ''A signed account.''\<rparr>
      else
        Inr \<lparr>st_Band = BandAnonymous, st_Cents = 0, st_ShareCents = 0, st_Root = s_ID s, st_NewKey = False,
             st_Source = ''none'', st_Reason = ''An anonymous caller, one subject per network.''\<rparr>)"

definition noLevers :: Levers where
  "noLevers = \<lparr>lv_SignedOnly = False, lv_ProvenOnly = False, lv_FreezeTransfers = False,
     lv_PauseNewKeys = False, lv_SignedServices = False, lv_PauseNewKeysSince = 0,
     lv_AnonymousSharePPM = -1, lv_BudgetCutPPM = (\<lambda>_. None), lv_Version = 0\<rparr>"

definition HoldsPerAccount :: nat where "HoldsPerAccount = 2"
definition HoldsTotal :: nat where "HoldsTotal = 64"
definition TransfersPendingMax :: nat where "TransfersPendingMax = 8"
definition LotsPerAccount :: nat where "LotsPerAccount = 64"
definition SweepMax :: int where "SweepMax = 500"
definition JournalPageMax :: int where "JournalPageMax = 100"
definition journalScanMax :: nat where "journalScanMax = 2000"
definition DepositHoldsPerAccount :: nat where "DepositHoldsPerAccount = 1000"
definition liveLotsMax :: nat where "liveLotsMax = 2 * LotsPerAccount"

text \<open>
  The parsed parameters in effect. The source keeps a cache of parsed bodies keyed by their digest,
  which returns what parsing the body again would.
\<close>

definition params :: "Config \<Rightarrow> int \<Rightarrow> (AllowanceParams \<times> int) LM" where
  "params cf now =
     bindM (liftS (cf_Params cf now)) (\<lambda>(version, body).
       case ParseAllowanceParams body of
         Inl e \<Rightarrow> throw (Internal e)
       | Inr p \<Rightarrow> ret (p, version))"

definition levers :: "Config \<Rightarrow> int \<Rightarrow> Levers LM" where
  "levers cf now = (case cf_Levers cf of None \<Rightarrow> ret noLevers | Some lv \<Rightarrow> liftS (lv now))"

definition normalise :: "Subject \<Rightarrow> Standing \<Rightarrow> Standing" where
  "normalise s st =
     (let st1 = (if \<not> s_Signed s \<or> s_Hosted s then st\<lparr>st_Band := BandAnonymous, st_ShareCents := 0\<rparr>
                 else if st_Band st = BandAnonymous \<or> st_Band st > BandTrusted then st\<lparr>st_Band := BandSigned\<rparr>
                 else st);
          st2 = st1\<lparr>st_Cents := max 0 (st_Cents st1), st_ShareCents := clamp (st_ShareCents st1) 0 maxUnits\<rparr>
      in if st_Root st2 = [] then st2\<lparr>st_Root := s_ID s\<rparr> else st2)"

definition classify :: "Config \<Rightarrow> Subject \<Rightarrow> int \<Rightarrow> Standing LM" where
  "classify cf s now =
     bindM (liftS (case cf_Classifier cf of None \<Rightarrow> DefaultClassifier s now | Some f \<Rightarrow> f s now))
       (\<lambda>st. ret (normalise s st))"

definition resource :: "AllowanceParams \<Rightarrow> Resource \<Rightarrow> ResourceParams LM" where
  "resource p r = (case map_of (ap_Resources p) r of None \<Rightarrow> throw (refuse ''invalid_resource'') | Some rp \<Rightarrow> ret rp)"

section \<open>Identifiers\<close>

definition hex_digit :: "nat \<Rightarrow> char" where
  "hex_digit n = (if n < 10 then char_of (48 + n) else char_of (87 + n))"

definition hex :: "string \<Rightarrow> string" where
  "hex bs = concat (map (\<lambda>b. [hex_digit (of_char b div 16), hex_digit (of_char b mod 16)]) bs)"

definition nul :: string where "nul = [char_of (0::nat)]"

definition holdID :: "Config \<Rightarrow> string \<Rightarrow> string \<Rightarrow> string" where
  "holdID cf account requestKey = hex (take 16 (cf_sha256 cf (''hold'' @ nul @ account @ nul @ requestKey)))"

definition transferID :: "Config \<Rightarrow> string \<Rightarrow> string \<Rightarrow> string" where
  "transferID cf account requestKey = hex (take 16 (cf_sha256 cf (''transfer'' @ nul @ account @ nul @ requestKey)))"

definition day_of :: "int \<Rightarrow> int" where
  "day_of now = now sdiv 86400"

section \<open>Statements\<close>

text \<open>\<open>CHECK(remaining >= 0)\<close> and \<open>CHECK(held >= 0 AND held <= remaining)\<close>.\<close>

definition lot_check :: "lot \<Rightarrow> bool" where
  "lot_check x \<longleftrightarrow> 0 \<le> l_Remaining x \<and> 0 \<le> l_Held x \<and> l_Held x \<le> l_Remaining x"

definition updateLots :: "(lot \<Rightarrow> bool) \<Rightarrow> (lot \<Rightarrow> lot) \<Rightarrow> unit LM" where
  "updateLots P f = (\<lambda>s. if list_all lot_check (upd P f (lots s))
     then (Inr (), s\<lparr>lots := upd P f (lots s)\<rparr>) else (Inl SqlCheck, s))"

text \<open>\<open>INSERT INTO ledger_lots\<close>: the row gets the next id.\<close>

definition appendLot :: "lot \<Rightarrow> int LM" where
  "appendLot x = (\<lambda>s. let x' = x\<lparr>l_ID := lots_seq s + 1\<rparr> in
     if lot_check x' then (Inr (lots_seq s + 1), s\<lparr>lots := lots s @ [x'], lots_seq := lots_seq s + 1\<rparr>)
     else (Inl SqlCheck, s))"

definition unique_insert :: "bool \<Rightarrow> (led \<Rightarrow> led) \<Rightarrow> unit LM" where
  "unique_insert dup f = (if dup then throw SqlUnique else modifyM f)"

definition insertHold :: "holdRow \<Rightarrow> unit LM" where
  "insertHold h = bindM (gets holds) (\<lambda>hs.
     unique_insert (list_ex (\<lambda>x. h_ID x = h_ID h \<or> h_Account x = h_Account h \<and> h_RequestKey x = h_RequestKey h) hs)
       (\<lambda>s. s\<lparr>holds := holds s @ [h]\<rparr>))"

definition insertPart :: "partRow \<Rightarrow> unit LM" where
  "insertPart p = bindM (gets hold_parts) (\<lambda>ps.
     unique_insert (list_ex (\<lambda>x. hp_Hold x = hp_Hold p \<and> hp_Lot x = hp_Lot p) ps)
       (\<lambda>s. s\<lparr>hold_parts := hold_parts s @ [p]\<rparr>))"

definition insertTransfer :: "transferRow \<Rightarrow> unit LM" where
  "insertTransfer t = bindM (gets transfers) (\<lambda>ts.
     unique_insert (list_ex (\<lambda>x. t_ID x = t_ID t) ts) (\<lambda>s. s\<lparr>transfers := transfers s @ [t]\<rparr>))"

definition insertClaim :: "claimRow \<Rightarrow> unit LM" where
  "insertClaim c = bindM (gets claims) (\<lambda>cs.
     unique_insert (list_ex (\<lambda>x. c_Resource x = c_Resource c \<and> c_Day x = c_Day c \<and> c_Subject x = c_Subject c) cs)
       (\<lambda>s. s\<lparr>claims := claims s @ [c]\<rparr>))"

definition updateHold :: "string \<Rightarrow> (holdRow \<Rightarrow> holdRow) \<Rightarrow> unit LM" where
  "updateHold i f = modifyM (\<lambda>s. s\<lparr>holds := upd (\<lambda>h. h_ID h = i) f (holds s)\<rparr>)"

definition updateTransfer :: "string \<Rightarrow> (transferRow \<Rightarrow> transferRow) \<Rightarrow> unit LM" where
  "updateTransfer i f = modifyM (\<lambda>s. s\<lparr>transfers := upd (\<lambda>t. t_ID t = i) f (transfers s)\<rparr>)"

definition modifyOp :: "(op \<Rightarrow> op) \<Rightarrow> unit LM" where
  "modifyOp f = modifyM (\<lambda>s. s\<lparr>lop := f (lop s)\<rparr>)"

lemma wp_updateLots [wp_rules]:
  "wp (updateLots P f) Q E s = (if list_all lot_check (upd P f (lots s))
     then Q () (s\<lparr>lots := upd P f (lots s)\<rparr>) else E SqlCheck s)"
  by (simp add: wp_def updateLots_def)

lemma wp_appendLot [wp_rules]:
  "wp (appendLot x) Q E s = (if lot_check x
     then Q (lots_seq s + 1) (s\<lparr>lots := lots s @ [x\<lparr>l_ID := lots_seq s + 1\<rparr>], lots_seq := lots_seq s + 1\<rparr>)
     else E SqlCheck s)"
  by (simp add: wp_def appendLot_def Let_def lot_check_def)

lemma wp_unique_insert [wp_rules]:
  "wp (unique_insert dup f) Q E s = (if dup then E SqlUnique s else Q () (f s))"
  by (simp add: unique_insert_def wp_rules)

lemmas stmt_defs = insertHold_def insertPart_def insertTransfer_def insertClaim_def updateHold_def
  updateTransfer_def modifyOp_def

end
