(* ===== verification/Days.thy ===== *)
theory Days
  imports Store
begin

text \<open>
  A day's water in the database (\<open>internal/ledger/pools.go\<close>, from \<open>legacyShare\<close> on): reading a day
  and its pool rows, with the fold of a day opened before the share rule; inserting and saving it;
  the claims of a day; a subject's share with the transition floor.
\<close>

section \<open>Reading a day\<close>

definition pool_at :: "led \<Rightarrow> Resource \<Rightarrow> int \<Rightarrow> int \<Rightarrow> poolRow option" where
  "pool_at s r day row = find (\<lambda>p. (pr_Resource p, pr_Day p, pr_Tier p) = (r, day, row)) (pools s)"

text \<open>The scanned pool: \<open>p.Size += in - out\<close>. The array \<open>raw [5]pool\<close> starts at zero pools.\<close>

definition raw_pool :: "led \<Rightarrow> Resource \<Rightarrow> int \<Rightarrow> int \<Rightarrow> pool" where
  "raw_pool s r day row = (case pool_at s r day row of None \<Rightarrow> pool0
     | Some p \<Rightarrow> (pr_Pool p)\<lparr>Size := Size (pr_Pool p) + (pr_SpillIn p - pr_SpillOut p)\<rparr>)"

definition day_at :: "led \<Rightarrow> Resource \<Rightarrow> int \<Rightarrow> dayRow option" where
  "day_at s r day = find (\<lambda>d. (dr_Resource d, dr_Day d) = (r, day)) (days s)"

definition bad_pool_row :: "led \<Rightarrow> Resource \<Rightarrow> int \<Rightarrow> bool" where
  "bad_pool_row s r day \<longleftrightarrow>
     list_ex (\<lambda>p. pr_Resource p = r \<and> pr_Day p = day \<and> (pr_Tier p < 0 \<or> pr_Tier p > 4)) (pools s)"

definition day_of_row :: "dayRow \<Rightarrow> dayState" where
  "day_of_row w = \<lparr>d_Resource = dr_Resource w, d_Day = dr_Day w, d_Budget = dr_Budget w,
     d_BudgetEffective = dr_BudgetEffective w, d_Unallocated = dr_Unallocated w,
     d_SpentNonpaid = dr_SpentNonpaid w, d_SpentPaid = dr_SpentPaid w, d_OpenedAt = dr_OpenedAt w,
     d_ParamsVersion = dr_ParamsVersion w, d_Grant = pool0, d_Floor = pool0, d_Standing = pool0,
     d_Anon = pool0, d_legacy = False\<rparr>"

definition fold_legacy :: "(int \<Rightarrow> pool) \<Rightarrow> dayState \<Rightarrow> dayState" where
  "fold_legacy raw d = d\<lparr>d_legacy := True,
     d_Grant := pool0\<lparr>Size := Size (raw 0), Claimed := Claimed (raw 0)\<rparr>,
     d_Standing := pool0\<lparr>Size := (\<Sum>i\<leftarrow>[1, 2, 3, 4]. Size (raw i)),
        Claimed := (\<Sum>i\<leftarrow>[1, 2, 3, 4]. Claimed (raw i) + Lent (raw i))\<rparr>,
     d_Anon := pool0\<lparr>Claimed := Claimed (raw 4)\<rparr>\<rparr>"

text \<open>
  The rows of one day are at most one per tier (the primary key, with tiers 0--4), so the ordered
  scan with \<open>LIMIT 5\<close> is a point read per tier.
\<close>

definition day_load :: "led \<Rightarrow> Resource \<Rightarrow> int \<Rightarrow> lerr + dayState option" where
  "day_load s r day =
     (case day_at s r day of
        None \<Rightarrow> Inr None
      | Some w \<Rightarrow>
        if bad_pool_row s r day then Inl (Internal ''pool row'')
        else let d = day_of_row w; raw = raw_pool s r day in
          if pool_at s r day 4 = None then
            Inr (Some (d\<lparr>d_Grant := raw 0, d_Floor := raw 1, d_Standing := raw 2, d_Anon := raw 3\<rparr>))
          else Inr (Some (fold_legacy raw d)))"

definition loadDay :: "Resource \<Rightarrow> int \<Rightarrow> dayState option LM" where
  "loadDay r day = bindM (gets (\<lambda>s. day_load s r day)) liftE"

definition previousDay :: "Resource \<Rightarrow> int \<Rightarrow> dayState option LM" where
  "previousDay r day =
     bindM (gets (\<lambda>s. map dr_Day (filter (\<lambda>d. dr_Resource d = r \<and> dr_Day d < day) (days s)))) (\<lambda>ds.
       if ds = [] then ret None else loadDay r (Max (set ds)))"

section \<open>Writing a day\<close>

definition poolRows :: "dayState \<Rightarrow> (int \<times> pool) list" where
  "poolRows d = [(0, d_Grant d), (1, d_Floor d), (2, d_Standing d), (3, d_Anon d)]"

definition pool_row :: "dayState \<Rightarrow> int \<Rightarrow> pool \<Rightarrow> poolRow" where
  "pool_row d row p = \<lparr>pr_Resource = d_Resource d, pr_Day = d_Day d, pr_Tier = row, pr_SpillIn = 0,
     pr_SpillOut = 0, pr_Pool = p\<rparr>"

definition insertPool :: "dayState \<Rightarrow> int \<Rightarrow> pool \<Rightarrow> unit LM" where
  "insertPool d row p =
     bindM (gets (\<lambda>s. pool_at s (d_Resource d) (d_Day d) row \<noteq> None)) (\<lambda>dup.
       unique_insert dup (\<lambda>s. s\<lparr>pools := pools s @ [pool_row d row p]\<rparr>))"

definition row_of_day :: "dayState \<Rightarrow> dayRow" where
  "row_of_day d = \<lparr>dr_Resource = d_Resource d, dr_Day = d_Day d, dr_Budget = d_Budget d,
     dr_BudgetEffective = d_BudgetEffective d, dr_Unallocated = d_Unallocated d,
     dr_SpentNonpaid = d_SpentNonpaid d, dr_SpentPaid = d_SpentPaid d, dr_OpenedAt = d_OpenedAt d,
     dr_ParamsVersion = d_ParamsVersion d\<rparr>"

definition insertDay :: "dayState \<Rightarrow> unit LM" where
  "insertDay d =
     bindM (gets (\<lambda>s. day_at s (d_Resource d) (d_Day d) \<noteq> None)) (\<lambda>dup.
       thenM (unique_insert dup (\<lambda>s. s\<lparr>days := days s @ [row_of_day d]\<rparr>))
         (forM (poolRows d) (\<lambda>(row, p). insertPool d row p)))"

text \<open>\<open>saveDay\<close> returns what it leaves in \<open>*d\<close> and \<open>*orig\<close>.\<close>

definition saveDay :: "dayState \<Rightarrow> dayState \<Rightarrow> (dayState \<times> dayState) LM" where
  "saveDay d orig =
     (if d = orig then ret (d, orig)
      else thenM (modifyM (\<lambda>s. s\<lparr>days := upd (\<lambda>w. (dr_Resource w, dr_Day w) = (d_Resource d, d_Day d))
          (\<lambda>w. w\<lparr>dr_Budget := d_Budget d, dr_BudgetEffective := d_BudgetEffective d,
             dr_Unallocated := d_Unallocated d, dr_SpentNonpaid := d_SpentNonpaid d,
             dr_SpentPaid := d_SpentPaid d\<rparr>) (days s)\<rparr>))
       (if d_legacy orig then
          thenM (modifyM (\<lambda>s. s\<lparr>pools := filter (\<lambda>p. (pr_Resource p, pr_Day p) \<noteq> (d_Resource d, d_Day d)) (pools s)\<rparr>))
            (thenM (forM (poolRows d) (\<lambda>(row, p). insertPool d row p))
              (ret (d\<lparr>d_legacy := False\<rparr>, d\<lparr>d_legacy := False\<rparr>)))
        else
          thenM (forM (zip (poolRows d) (poolRows orig)) (\<lambda>((row, p), (_, was)).
              if p = was then ret () else modifyM (\<lambda>s. s\<lparr>pools :=
                upd (\<lambda>w. (pr_Resource w, pr_Day w, pr_Tier w) = (d_Resource d, d_Day d, row))
                  (\<lambda>w. w\<lparr>pr_Pool := p\<rparr>) (pools s)\<rparr>)))
            (ret (d, d))))"

section \<open>Claims\<close>

definition claim_parts :: "claimRow \<Rightarrow> ResourceParams \<Rightarrow> int \<times> int" where
  "claim_parts c rp = (let total = min (c_Granted c) (rp_Cap rp); standing = clamp (c_Standing c) 0 total
     in (total - standing, standing))"

definition loadClaim :: "Resource \<Rightarrow> int \<Rightarrow> string \<Rightarrow> claimRow option LM" where
  "loadClaim r day subject =
     gets (\<lambda>s. map_option (\<lambda>c. if c_Band c > BandTrusted then c\<lparr>c_Band := BandAnonymous\<rparr> else c)
       (find (\<lambda>c. (c_Resource c, c_Day c, c_Subject c) = (r, day, subject)) (claims s)))"

definition loadRootDay :: "Resource \<Rightarrow> int \<Rightarrow> string \<Rightarrow> rootDay LM" where
  "loadRootDay r day rt =
     gets (\<lambda>s. let cs = filter (\<lambda>c. (c_Resource c, c_Day c, c_Root c) = (r, day, rt)) (claims s) in
       \<lparr>rd_Claims = int (length cs), rd_Standing = (\<Sum>c\<leftarrow>cs. c_Standing c)\<rparr>)"

definition freeExpiry :: "AllowanceParams \<Rightarrow> int \<Rightarrow> int \<times> int" where
  "freeExpiry p day = ((day + 1 + ap_ClaimExpiryDays p) * 86400, ap_ClaimHalfLifeDays p)"

section \<open>The transition floor\<close>

definition TransitionFloorDays :: int where "TransitionFloorDays = 60"

definition legacyShare :: "Resource \<Rightarrow> int \<Rightarrow> string \<Rightarrow> int LM" where
  "legacyShare r day subject =
     gets (\<lambda>s. let es = map c_Entitlement (filter (\<lambda>c. c_Resource c = r \<and> c_Subject c = subject
           \<and> c_Day c \<ge> day - TransitionFloorDays \<and> c_Day c < day \<and> pool_at s (c_Resource c) (c_Day c) 4 \<noteq> None) (claims s))
       in if es = [] then 0 else Max (set es))"

record Share =
  sh_Floor :: int
  sh_Standing :: int
  sh_Rule :: int
  sh_Legacy :: int

definition share :: "dayState \<Rightarrow> ResourceParams \<Rightarrow> Levers \<Rightarrow> Standing \<Rightarrow> rootDay \<Rightarrow> string \<Rightarrow> Share LM" where
  "share d rp lv st rd subject =
     (let (floor, standing) = entitlement d rp lv st rd;
          sh = \<lparr>sh_Floor = floor, sh_Standing = standing, sh_Rule = floor + standing, sh_Legacy = 0\<rparr>
      in if st_Band st = BandAnonymous \<or> \<not> eligible (d_Resource d) rp lv st \<or> st_NewKey st \<and> lv_PauseNewKeys lv
         then ret sh
         else bindM (legacyShare (d_Resource d) (d_Day d) subject) (\<lambda>legacy.
           let sh1 = sh\<lparr>sh_Legacy := min legacy (rp_Cap rp)\<rparr> in
           ret (if sh_Legacy sh1 > sh_Rule sh1 then sh1\<lparr>sh_Floor := sh_Legacy sh1 - sh_Standing sh1\<rparr> else sh1)))"

text \<open>The day an operation would work on, without writing: opened in memory if it has not been.\<close>

definition prospectiveDay :: "Resource \<Rightarrow> int \<Rightarrow> ResourceParams \<Rightarrow> Levers \<Rightarrow> int \<Rightarrow> int \<Rightarrow> dayState LM" where
  "prospectiveDay r day rp lv version now =
     bindM (loadDay r day) (\<lambda>d. case d of
        Some d \<Rightarrow> ret d
      | None \<Rightarrow> bindM (previousDay r day) (\<lambda>prev. ret (computeOpen r day rp lv prev version now)))"

definition ProspectiveShare :: "Config \<Rightarrow> Resource \<Rightarrow> Standing \<Rightarrow> string \<Rightarrow> int \<Rightarrow> Share LM" where
  "ProspectiveShare cf r st subject now =
     bindM (params cf now) (\<lambda>(p, version).
     bindM (resource p r) (\<lambda>rp.
     bindM (levers cf now) (\<lambda>lv.
     bindM (prospectiveDay r (day_of now) rp lv version now) (\<lambda>d0.
     let d = adjust d0 rp lv in
     bindM (loadRootDay r (day_of now) (st_Root st)) (\<lambda>rd.
     share d rp lv st rd subject)))))"

end
