(* ===== verification/Lots.thy ===== *)
theory Lots
  imports Days
begin

text \<open>
  Lots, the journal and the daily totals (\<open>internal/ledger/spend.go\<close>, up to \<open>Usage\<close>): reading an
  account's live lots in spend order, planning a take, inserting, crediting and debiting a lot, and
  the append of a journal line.
\<close>

section \<open>Spend order and plans\<close>

definition spendable :: "lot \<Rightarrow> int" where
  "spendable x = l_Remaining x - l_Held x"

definition bucket_rank :: "Bucket \<Rightarrow> int" where
  "bucket_rank b = (case b of Free \<Rightarrow> 0 | Granted \<Rightarrow> 1 | Earned \<Rightarrow> 2 | Paid \<Rightarrow> 3)"

definition spendOrder :: "lot \<Rightarrow> int \<times> int \<times> int \<times> int \<times> int" where
  "spendOrder x = (bucket_rank (l_Bucket x),
     if l_ExpiresAt x = 0 then maxInt64 else l_ExpiresAt x,
     if l_HalfLife x = 0 then maxInt64 else l_HalfLife x, l_IssuedDay x, l_ID x)"

definition is_live :: "string \<Rightarrow> Resource \<Rightarrow> lot \<Rightarrow> bool" where
  "is_live account r x \<longleftrightarrow> l_Account x = account \<and> l_Resource x = r \<and> l_State x = lot_live"

definition liveLots :: "string \<Rightarrow> Resource \<Rightarrow> int \<Rightarrow> lot list LM" where
  "liveLots account r now = gets (\<lambda>s. take liveLotsMax (sort_key spendOrder
     (filter (\<lambda>x. is_live account r x \<and> (l_ExpiresAt x = 0 \<or> l_ExpiresAt x > now)) (lots s))))"

record part =
  p_Lot :: lot
  p_Take :: int

fun plan_from :: "lot list \<Rightarrow> int \<Rightarrow> (lot \<Rightarrow> bool) \<Rightarrow> int \<Rightarrow> part list \<times> int" where
  "plan_from [] units ok got = ([], got)"
| "plan_from (x # xs) units ok got =
     (if got \<ge> units then ([], got)
      else if \<not> ok x then plan_from xs units ok got
      else let tk = min (units - got) (spendable x) in
        if tk > 0 then
          let (ps, n) = plan_from xs units ok (got + tk) in (\<lparr>p_Lot = x, p_Take = tk\<rparr> # ps, n)
        else plan_from xs units ok got)"

definition plan :: "lot list \<Rightarrow> int \<Rightarrow> (lot \<Rightarrow> bool) \<Rightarrow> part list \<times> int" where
  "plan ls units ok = plan_from ls units ok 0"

definition nonpaid :: "part list \<Rightarrow> int" where
  "nonpaid parts = (\<Sum>p\<leftarrow>parts. if l_Bucket (p_Lot p) \<noteq> Paid then p_Take p else 0)"

section \<open>Writing lots\<close>

definition insertLot :: "Resource \<Rightarrow> lot \<Rightarrow> int \<Rightarrow> int LM" where
  "insertLot r x now = appendLot (x\<lparr>l_Resource := r, l_Held := 0, l_State := lot_live, l_CreatedAt := now\<rparr>)"

text \<open>The lots a credit may merge into, oldest first.\<close>

definition mergeable :: "Resource \<Rightarrow> lot \<Rightarrow> lot \<Rightarrow> bool" where
  "mergeable r x y \<longleftrightarrow> is_live (l_Account x) r y \<and> l_Bucket y = l_Bucket x \<and> l_Origin y = l_Origin x
     \<and> (if l_OriginAccount x \<noteq> l_Account x then l_OriginAccount y \<noteq> l_Account x else l_OriginAccount y = l_Account x)
     \<and> l_IssuedDay y = l_IssuedDay x \<and> l_ExpiresAt y = l_ExpiresAt x \<and> l_HalfLife y = l_HalfLife x
     \<and> l_DecayedDay y = l_DecayedDay x"

definition creditLot :: "Resource \<Rightarrow> lot \<Rightarrow> int \<Rightarrow> int LM" where
  "creditLot r x now =
     bindM (gets (\<lambda>s. sort_key l_ID (filter (mergeable r x) (lots s)))) (\<lambda>ys.
       case ys of
         y # _ \<Rightarrow> thenM (updateLots (\<lambda>z. l_ID z = l_ID y)
             (\<lambda>z. z\<lparr>l_Remaining := l_Remaining z + l_Remaining x, l_Initial := l_Initial z + l_Remaining x,
                l_Hops := max (l_Hops z) (l_Hops x)\<rparr>)) (ret (l_ID y))
       | [] \<Rightarrow> bindM (gets (\<lambda>s. length (filter (is_live (l_Account x) r) (lots s)))) (\<lambda>n.
           if n \<ge> LotsPerAccount then throw (refuse ''recipient_limit'') else insertLot r x now))"

text \<open>\<open>SET held=held-released, remaining=remaining-gone, state=...\<close>\<close>

definition take_row :: "int \<Rightarrow> int \<Rightarrow> int \<Rightarrow> lot \<Rightarrow> lot" where
  "take_row tk released lost x =
     (let gone = tk + lost in
      x\<lparr>l_Held := l_Held x - released, l_Remaining := l_Remaining x - gone,
        l_State := (if l_Remaining x - gone = 0 then (if lost > 0 then lot_expired else lot_spent) else l_State x)\<rparr>)"

definition takeFrom :: "int \<Rightarrow> int \<Rightarrow> int \<Rightarrow> int \<Rightarrow> unit LM" where
  "takeFrom i tk released lost = updateLots (\<lambda>x. l_ID x = i) (take_row tk released lost)"

definition holdOf :: "int \<Rightarrow> int \<Rightarrow> unit LM" where
  "holdOf i units = updateLots (\<lambda>x. l_ID x = i) (\<lambda>x. x\<lparr>l_Held := l_Held x + units\<rparr>)"

section \<open>The journal\<close>

definition entry0 :: "int \<Rightarrow> int \<Rightarrow> kind \<Rightarrow> string \<Rightarrow> Resource \<Rightarrow> int \<Rightarrow> int \<Rightarrow> entry" where
  "entry0 day now k account r amount version =
     \<lparr>je_Seq = 0, je_Day = day, je_Now = now, je_Kind = k, je_Account = account, je_Counter = [],
      je_Resource = r, je_Bucket = None, je_LotID = 0, je_Amount = amount, je_HoldID = [], je_Ref = Ref0,
      je_Version = version, je_Detail = []\<rparr>"

text \<open>\<open>opOf\<close>: the operation column joins the operation and the method.\<close>

definition opOf :: "Ref \<Rightarrow> string" where
  "opOf r = (if ref_Method r \<noteq> [] then ref_Op r @ '':'' @ ref_Method r else ref_Op r)"

definition journal :: "entry \<Rightarrow> unit LM" where
  "journal e = modifyM (\<lambda>s. s\<lparr>entries := entries s @ [e\<lparr>je_Seq := entries_seq s + 1,
       je_Ref := (je_Ref e)\<lparr>ref_Op := opOf (je_Ref e), ref_Method := []\<rparr>\<rparr>], entries_seq := entries_seq s + 1\<rparr>)"

section \<open>Daily totals\<close>

definition usage_key :: "usageRow \<Rightarrow> Resource \<times> int \<times> string" where
  "usage_key u = (u_Resource u, u_Day u, u_Subject u)"

definition addUsage :: "Resource \<Rightarrow> int \<Rightarrow> string \<Rightarrow> int \<Rightarrow> int \<Rightarrow> int \<Rightarrow> unit LM" where
  "addUsage r day subject sp inc out =
     (if sp = 0 \<and> inc = 0 \<and> out = 0 then ret ()
      else modifyM (\<lambda>s. s\<lparr>usage := upsert (\<lambda>u. usage_key u = (r, day, subject))
        (\<lambda>u. u\<lparr>u_Spent := u_Spent u + sp, u_Incoming := u_Incoming u + inc, u_Outgoing := u_Outgoing u + out\<rparr>)
        \<lparr>u_Resource = r, u_Day = day, u_Subject = subject, u_Spent = sp, u_Incoming = inc, u_Outgoing = out\<rparr>
        (usage s)\<rparr>))"

definition usage_of :: "led \<Rightarrow> Resource \<Rightarrow> int \<Rightarrow> string \<Rightarrow> int \<times> int \<times> int" where
  "usage_of s r day subject = (case find (\<lambda>u. usage_key u = (r, day, subject)) (usage s) of
     None \<Rightarrow> (0, 0, 0) | Some u \<Rightarrow> (u_Spent u, u_Incoming u, u_Outgoing u))"

definition loadUsage :: "Resource \<Rightarrow> int \<Rightarrow> string \<Rightarrow> (int \<times> int \<times> int) LM" where
  "loadUsage r day subject = gets (\<lambda>s. usage_of s r day subject)"

definition Usage :: "string \<Rightarrow> Resource \<Rightarrow> int \<Rightarrow> int \<Rightarrow> (int \<times> int \<times> int \<times> int) list LM" where
  "Usage subject r n now =
     (let n' = clamp n 1 31; today = day_of now in
      gets (\<lambda>s. map (\<lambda>u. (u_Day u, u_Spent u, u_Incoming u, u_Outgoing u))
        (take 31 (sort_key (\<lambda>u. - u_Day u)
          (filter (\<lambda>u. u_Resource u = r \<and> u_Subject u = subject \<and> u_Day u > today - n' \<and> u_Day u \<le> today) (usage s))))))"

end
