(* ===== verification/Lot_Inv.thy ===== *)
theory Lot_Inv
  imports Lots
begin

text \<open>
  The conservation invariant of lots and journal, and how each statement on one lot keeps it: for
  every lot the journal's credits are what was issued, its debits what is gone, and its held units
  the open hold parts on it.
\<close>

section \<open>Keyed tables\<close>

interpretation lot_table: keyed_table l_ID .

interpretation hold_table: keyed_table h_ID .

interpretation transfer_table: keyed_table t_ID .

section \<open>What the journal says of a lot\<close>

definition credit_kinds :: "kind set" where
  "credit_kinds = {k_claim, k_grant, k_earn, k_topup, k_transfer_in}"

definition debit_kinds :: "kind set" where
  "debit_kinds = {k_spend, k_commit, k_fee, k_transfer_out, k_expire, k_decay, k_forfeit}"

definition credits :: "int \<Rightarrow> entry list \<Rightarrow> int" where
  "credits i es = (\<Sum>e\<leftarrow>es. if je_LotID e = i \<and> je_Kind e \<in> credit_kinds then je_Amount e else 0)"

definition debits :: "int \<Rightarrow> entry list \<Rightarrow> int" where
  "debits i es = (\<Sum>e\<leftarrow>es. if je_LotID e = i \<and> je_Kind e \<in> debit_kinds then je_Amount e else 0)"

lemma credits_append [simp]: "credits i (es @ fs) = credits i es + credits i fs"
  by (simp add: credits_def)

lemma debits_append [simp]: "debits i (es @ fs) = debits i es + debits i fs"
  by (simp add: debits_def)

lemma credits_Nil [simp]: "credits i [] = 0" by (simp add: credits_def)

lemma debits_Nil [simp]: "debits i [] = 0" by (simp add: debits_def)

lemma credits_Cons [simp]:
  "credits i (e # es) = (if je_LotID e = i \<and> je_Kind e \<in> credit_kinds then je_Amount e else 0) + credits i es"
  by (simp add: credits_def)

lemma debits_Cons [simp]:
  "debits i (e # es) = (if je_LotID e = i \<and> je_Kind e \<in> debit_kinds then je_Amount e else 0) + debits i es"
  by (simp add: debits_def)

text \<open>Lines that move units in or out of lots, and lines that do not.\<close>

definition neutral :: "entry list \<Rightarrow> bool" where
  "neutral es \<longleftrightarrow> (\<forall>e\<in>set es. je_Kind e \<notin> credit_kinds \<and> je_Kind e \<notin> debit_kinds)"

lemma neutral_credits: "neutral es \<Longrightarrow> credits i es = 0 \<and> debits i es = 0"
  by (induction es) (auto simp: neutral_def)

lemma credits_fresh: "(\<And>e. e \<in> set es \<Longrightarrow> je_LotID e \<noteq> i) \<Longrightarrow> credits i es = 0 \<and> debits i es = 0"
  by (induction es) auto

section \<open>The invariant\<close>

definition lot_ok :: "lot \<Rightarrow> bool" where
  "lot_ok x \<longleftrightarrow> lot_check x \<and> l_Remaining x \<le> l_Initial x \<and> (l_State x = lot_live \<longleftrightarrow> 0 < l_Remaining x)
     \<and> (l_Bucket x = Paid \<longrightarrow> l_HalfLife x = 0 \<and> l_ExpiresAt x = 0)"

definition lot_bal :: "(int \<Rightarrow> int) \<Rightarrow> entry list \<Rightarrow> lot \<Rightarrow> bool" where
  "lot_bal H es x \<longleftrightarrow> lot_ok x \<and> l_Held x = H (l_ID x) \<and> credits (l_ID x) es = l_Initial x
     \<and> debits (l_ID x) es = l_Initial x - l_Remaining x"

text \<open>\<open>H\<close> is what each lot should have held: the open hold parts, less what a running loop already released.\<close>

definition lots_ok :: "(int \<Rightarrow> int) \<Rightarrow> lot list \<Rightarrow> int \<Rightarrow> entry list \<Rightarrow> bool" where
  "lots_ok H ls n es \<longleftrightarrow> 0 \<le> n \<and> distinct (map l_ID ls) \<and> (\<forall>x\<in>set ls. 1 \<le> l_ID x \<and> l_ID x \<le> n)
     \<and> (\<forall>e\<in>set es. je_LotID e \<le> n) \<and> (\<forall>x\<in>set ls. lot_bal H es x)"

lemma lots_ok_check: "lots_ok H ls n es \<Longrightarrow> list_all lot_check ls"
  by (auto simp: lots_ok_def lot_bal_def lot_ok_def list_all_iff)

lemma lots_okD: "lots_ok H ls n es \<Longrightarrow> x \<in> set ls \<Longrightarrow> lot_bal H es x \<and> 1 \<le> l_ID x \<and> l_ID x \<le> n"
  by (simp add: lots_ok_def)

lemma lots_ok_unique: "lots_ok H ls n es \<Longrightarrow> x \<in> set ls \<Longrightarrow> y \<in> set ls \<Longrightarrow> l_ID x = l_ID y \<Longrightarrow> x = y"
  by (auto simp: lots_ok_def intro: lot_table.row_eq)

lemma lots_ok_H: "(\<And>x. x \<in> set ls \<Longrightarrow> H (l_ID x) = H' (l_ID x)) \<Longrightarrow> lots_ok H ls n es = lots_ok H' ls n es"
  by (auto simp: lots_ok_def lot_bal_def)

lemma lots_ok_neutral:
  "neutral fs \<Longrightarrow> (\<forall>e\<in>set fs. je_LotID e \<le> n) \<Longrightarrow> lots_ok H ls n es \<Longrightarrow> lots_ok H ls n (es @ fs)"
  by (auto simp: lots_ok_def lot_bal_def neutral_credits)

text \<open>One lot changed, with the lines that say so.\<close>

lemma lots_ok_update:
  assumes ok: "lots_ok H ls n es" and x: "x \<in> set ls"
    and key: "l_ID (f x) = l_ID x"
    and new: "\<And>j. j \<noteq> l_ID x \<Longrightarrow> credits j fs = 0 \<and> debits j fs = 0" "\<forall>e\<in>set fs. je_LotID e \<le> n"
    and fx: "lot_bal (H(l_ID x := h)) (es @ fs) (f x)"
  shows "lots_ok (H(l_ID x := h)) (upd (\<lambda>y. l_ID y = l_ID x) f ls) n (es @ fs)"
proof -
  have only: "y = x" if "y \<in> set ls" "l_ID y = l_ID x" for y
    using lots_ok_unique [OF ok that(1) x that(2)] .
  have upd: "upd (\<lambda>y. l_ID y = l_ID x) f ls = map (\<lambda>y. if y = x then f x else y) ls"
    using only by (auto simp: upd_def)
  have ids: "map l_ID (map (\<lambda>y. if y = x then f x else y) ls) = map l_ID ls"
    using key by (induction ls) auto
  have bal: "lot_bal (H(l_ID x := h)) (es @ fs) y" if "y \<in> set ls" "y \<noteq> x" for y
  proof -
    have "l_ID y \<noteq> l_ID x" using only that by blast
    then show ?thesis using lots_okD [OF ok that(1)] new(1) [of "l_ID y"] by (simp add: lot_bal_def)
  qed
  show ?thesis
    unfolding lots_ok_def upd ids using ok new(2) fx key x bal by (auto simp: lots_ok_def)
qed

text \<open>A new lot with its first lines.\<close>

lemma lots_ok_append:
  assumes ok: "lots_ok H ls n es" and key: "l_ID x = n + 1" and h: "H (n + 1) = 0"
    and x: "lot_ok x" "l_Held x = 0" "credits (n + 1) fs = l_Initial x" "debits (n + 1) fs = l_Initial x - l_Remaining x"
    and new: "\<And>j. j \<noteq> n + 1 \<Longrightarrow> credits j fs = 0 \<and> debits j fs = 0" "\<forall>e\<in>set fs. je_LotID e \<le> n + 1"
  shows "lots_ok H (ls @ [x]) (n + 1) (es @ fs)"
proof -
  have le: "je_LotID e \<le> n" if "e \<in> set es" for e using ok that by (simp add: lots_ok_def)
  have 0: "credits (n + 1) es = 0 \<and> debits (n + 1) es = 0"
    by (rule credits_fresh) (use le in force)
  have "lot_bal H (es @ fs) y \<and> 1 \<le> l_ID y \<and> l_ID y \<le> n" if "y \<in> set ls" for y
    using lots_okD [OF ok that] new(1) [of "l_ID y"] by (simp add: lot_bal_def)
  moreover have "lot_bal H (es @ fs) x" using x 0 h key by (simp add: lot_bal_def)
  moreover have "distinct (map l_ID (ls @ [x]))"
    using ok key by (force simp: lots_ok_def)
  ultimately show ?thesis
    using ok key new(2) le by (fastforce simp: lots_ok_def)
qed

section \<open>Taking from a lot\<close>

lemma lots_ok_take:
  assumes ok: "lots_ok H ls n es" and x: "x \<in> set ls"
    and amounts: "0 \<le> tk" "0 \<le> lost" "0 \<le> released" "released \<le> H (l_ID x)"
      "tk + lost \<le> spendable x + released" "0 < l_Remaining x"
    and new: "credits (l_ID x) fs = 0" "debits (l_ID x) fs = tk + lost"
      "\<And>j. j \<noteq> l_ID x \<Longrightarrow> credits j fs = 0 \<and> debits j fs = 0" "\<forall>e\<in>set fs. je_LotID e \<le> n"
  shows "lots_ok (H(l_ID x := H (l_ID x) - released)) (upd (\<lambda>y. l_ID y = l_ID x) (take_row tk released lost) ls) n (es @ fs)"
proof (rule lots_ok_update [OF ok x])
  have "lot_bal H es x" using lots_okD [OF ok x] by simp
  then show "lot_bal (H(l_ID x := H (l_ID x) - released)) (es @ fs) (take_row tk released lost x)"
    using amounts new by (auto simp: lot_bal_def lot_ok_def lot_check_def take_row_def Let_def spendable_def)
qed (use new in \<open>auto simp: take_row_def Let_def\<close>)

lemma take_check:
  assumes "lots_ok H ls n es" "x \<in> set ls"
    and "0 \<le> tk" "0 \<le> lost" "0 \<le> released" "released \<le> H (l_ID x)" "tk + lost \<le> spendable x + released"
  shows "list_all lot_check (upd (\<lambda>y. l_ID y = l_ID x) (take_row tk released lost) ls)"
proof -
  have "lot_check (take_row tk released lost x)"
    using lots_okD [OF assms(1,2)] assms(3-) by (auto simp: lot_bal_def lot_ok_def lot_check_def take_row_def Let_def spendable_def)
  then show ?thesis
    using lots_ok_check [OF assms(1)] lots_ok_unique [OF assms(1) _ assms(2)]
    by (fastforce simp: list_all_iff in_upd)
qed

text \<open>\<open>takeFrom\<close> never trips a \<open>CHECK\<close> when the lot has the units.\<close>

lemma wp_takeFrom:
  assumes "lots_ok H (lots s) n es" "x \<in> set (lots s)" "l_ID x = i"
    and "0 \<le> tk" "0 \<le> lost" "0 \<le> released" "released \<le> H i" "tk + lost \<le> spendable x + released"
    and "Q () (s\<lparr>lots := upd (\<lambda>y. l_ID y = i) (take_row tk released lost) (lots s)\<rparr>)"
  shows "wp (takeFrom i tk released lost) Q E s"
  using take_check [OF assms(1,2,4-6)] assms(3,7-9) by (simp add: takeFrom_def wp_rules)

section \<open>Holding units of a lot\<close>

lemma lots_ok_hold:
  assumes ok: "lots_ok H ls n es" and x: "x \<in> set ls"
    and amounts: "- H (l_ID x) \<le> k" "k \<le> spendable x"
    and new: "neutral fs" "\<forall>e\<in>set fs. je_LotID e \<le> n"
  shows "lots_ok (H(l_ID x := H (l_ID x) + k)) (upd (\<lambda>y. l_ID y = l_ID x) (\<lambda>y. y\<lparr>l_Held := l_Held y + k\<rparr>) ls) n (es @ fs)"
proof (rule lots_ok_update [OF ok x])
  have "lot_bal H es x" using lots_okD [OF ok x] by simp
  then show "lot_bal (H(l_ID x := H (l_ID x) + k)) (es @ fs) (x\<lparr>l_Held := l_Held x + k\<rparr>)"
    using amounts neutral_credits [OF new(1)] by (auto simp: lot_bal_def lot_ok_def lot_check_def spendable_def)
qed (use new neutral_credits [OF new(1)] in auto)

lemma wp_holdOf:
  assumes "lots_ok H (lots s) n es" "x \<in> set (lots s)" "l_ID x = i" "- H i \<le> k" "k \<le> spendable x"
    and "Q () (s\<lparr>lots := upd (\<lambda>y. l_ID y = i) (\<lambda>y. y\<lparr>l_Held := l_Held y + k\<rparr>) (lots s)\<rparr>)"
  shows "wp (holdOf i k) Q E s"
proof -
  have "list_all lot_check (upd (\<lambda>y. l_ID y = l_ID x) (\<lambda>y. y\<lparr>l_Held := l_Held y + k\<rparr>) (lots s))"
    using lots_ok_hold [OF assms(1,2), of k "[]"] assms(3-5)
    by (intro lots_ok_check) (auto simp: neutral_def)
  with assms(3,6) show ?thesis by (simp add: holdOf_def wp_rules)
qed

section \<open>Crediting a lot\<close>

text \<open>The columns of a lot that no statement changes.\<close>

definition same_lot :: "lot \<Rightarrow> lot \<Rightarrow> bool" where
  "same_lot x y \<longleftrightarrow> l_ID y = l_ID x \<and> l_Account y = l_Account x \<and> l_Resource y = l_Resource x \<and> l_Bucket y = l_Bucket x
     \<and> l_Origin y = l_Origin x \<and> l_ExpiresAt y = l_ExpiresAt x \<and> l_HalfLife y = l_HalfLife x"

definition kept :: "lot list \<Rightarrow> lot list \<Rightarrow> bool" where
  "kept ls ls' \<longleftrightarrow> (\<forall>x\<in>set ls. \<exists>y\<in>set ls'. same_lot x y)"

definition grown :: "lot list \<Rightarrow> lot list \<Rightarrow> bool" where
  "grown ls ls' \<longleftrightarrow> (\<forall>x\<in>set ls. \<exists>y\<in>set ls'. same_lot x y \<and> spendable x \<le> spendable y)"

lemma same_lot_refl [simp]: "same_lot x x" by (simp add: same_lot_def)

lemma same_lot_trans: "same_lot x y \<Longrightarrow> same_lot y z \<Longrightarrow> same_lot x z" by (simp add: same_lot_def)

lemma kept_refl [simp]: "kept ls ls" by (auto simp: kept_def intro: same_lot_refl)

lemma kept_trans: "kept a b \<Longrightarrow> kept b c \<Longrightarrow> kept a c"
  unfolding kept_def by (meson same_lot_trans)

lemma grown_kept: "grown a b \<Longrightarrow> kept a b" by (auto simp: grown_def kept_def)

lemma kept_upd: "(\<And>x. P x \<Longrightarrow> same_lot x (f x)) \<Longrightarrow> kept ls (upd P f ls)"
  unfolding kept_def by (metis in_upd same_lot_refl)

lemma kept_append [simp]: "kept ls (ls @ xs)" by (auto simp: kept_def intro: same_lot_refl)

lemma kept_take [simp]: "kept ls (upd (\<lambda>y. l_ID y = i) (take_row tk released lost) ls)"
  by (rule kept_upd) (simp add: same_lot_def take_row_def Let_def)

lemma kept_hold [simp]: "kept ls (upd (\<lambda>y. l_ID y = i) (\<lambda>y. y\<lparr>l_Held := l_Held y + k\<rparr>) ls)"
  by (rule kept_upd) (simp add: same_lot_def)

text \<open>What a credited lot's journal line must add up to.\<close>

definition credit_line :: "int \<Rightarrow> int \<Rightarrow> int \<Rightarrow> entry list \<Rightarrow> bool" where
  "credit_line i amount n fs \<longleftrightarrow> credits i fs = amount \<and> debits i fs = 0
     \<and> (\<forall>j. j \<noteq> i \<longrightarrow> credits j fs = 0 \<and> debits j fs = 0) \<and> (\<forall>e\<in>set fs. je_LotID e \<le> n)"

definition new_lot_ok :: "lot \<Rightarrow> bool" where
  "new_lot_ok x \<longleftrightarrow> 0 < l_Remaining x \<and> l_Initial x = l_Remaining x
     \<and> (l_Bucket x = Paid \<longrightarrow> l_HalfLife x = 0 \<and> l_ExpiresAt x = 0)"

definition fresh_held :: "(int \<Rightarrow> int) \<Rightarrow> int \<Rightarrow> bool" where
  "fresh_held H n \<longleftrightarrow> (\<forall>i. n < i \<longrightarrow> H i = 0)"

text \<open>The outcome of a credit: some lot \<open>i\<close> grew by the amount, once its line is written.\<close>

definition credited :: "(int \<Rightarrow> int) \<Rightarrow> lot list \<Rightarrow> int \<Rightarrow> entry list \<Rightarrow> int \<Rightarrow> int \<Rightarrow> lot list \<Rightarrow> int \<Rightarrow> bool" where
  "credited H ls n es i amount ls' n' \<longleftrightarrow> n \<le> n' \<and> 1 \<le> i \<and> i \<le> n' \<and> grown ls ls'
     \<and> (\<forall>fs. credit_line i amount n' fs \<longrightarrow> lots_ok H ls' n' (es @ fs))"

lemma credited_insert:
  assumes ok: "lots_ok H ls n es" and "fresh_held H n" and x: "new_lot_ok x"
  shows "credited H ls n es (n + 1) (l_Remaining x)
    (ls @ [x\<lparr>l_Resource := r, l_Held := 0, l_State := lot_live, l_CreatedAt := now, l_ID := n + 1\<rparr>]) (n + 1)"
proof -
  let ?x = "x\<lparr>l_Resource := r, l_Held := 0, l_State := lot_live, l_CreatedAt := now, l_ID := n + 1\<rparr>"
  have "lots_ok H (ls @ [?x]) (n + 1) (es @ fs)" if "credit_line (n + 1) (l_Remaining x) (n + 1) fs" for fs
    by (rule lots_ok_append [OF ok])
      (use that x assms(2) in \<open>auto simp: credit_line_def new_lot_ok_def lot_ok_def lot_check_def fresh_held_def\<close>)
  moreover have "0 \<le> n" using ok by (simp add: lots_ok_def)
  ultimately show ?thesis by (auto simp: credited_def grown_def intro: same_lot_refl)
qed

definition merge_row :: "lot \<Rightarrow> lot \<Rightarrow> lot" where
  "merge_row x z = z\<lparr>l_Remaining := l_Remaining z + l_Remaining x, l_Initial := l_Initial z + l_Remaining x,
     l_Hops := max (l_Hops z) (l_Hops x)\<rparr>"

lemma credited_merge:
  assumes ok: "lots_ok H ls n es" and y: "y \<in> set ls" "l_State y = lot_live" and x: "new_lot_ok x"
  shows "credited H ls n es (l_ID y) (l_Remaining x) (upd (\<lambda>z. l_ID z = l_ID y) (merge_row x) ls) n"
proof -
  have b: "lot_bal H es y" "1 \<le> l_ID y" "l_ID y \<le> n" using lots_okD [OF ok y(1)] by auto
  have "lots_ok H (upd (\<lambda>z. l_ID z = l_ID y) (merge_row x) ls) n (es @ fs)"
    if "credit_line (l_ID y) (l_Remaining x) n fs" for fs
  proof -
    have "lot_bal H (es @ fs) (merge_row x y)"
      using b x y(2) that by (auto simp: merge_row_def lot_bal_def lot_ok_def lot_check_def new_lot_ok_def credit_line_def)
    then show ?thesis
      using lots_ok_update [OF ok y(1), of "merge_row x" fs "H (l_ID y)"] that
      by (simp add: credit_line_def merge_row_def)
  qed
  moreover have "grown ls (upd (\<lambda>z. l_ID z = l_ID y) (merge_row x) ls)"
    unfolding grown_def
  proof
    fix z assume z: "z \<in> set ls"
    let ?z = "if l_ID z = l_ID y then merge_row x z else z"
    have "?z \<in> set (upd (\<lambda>z. l_ID z = l_ID y) (merge_row x) ls)" using z by (auto simp: in_upd)
    moreover have "same_lot z ?z \<and> spendable z \<le> spendable ?z"
      using x by (simp add: same_lot_def merge_row_def spendable_def new_lot_ok_def)
    ultimately show "\<exists>w\<in>set (upd (\<lambda>z. l_ID z = l_ID y) (merge_row x) ls). same_lot z w \<and> spendable z \<le> spendable w"
      by blast
  qed
  ultimately show ?thesis using b by (simp add: credited_def)
qed

lemma wp_insertLot:
  assumes "lots_ok H (lots s) (lots_seq s) es" "fresh_held H (lots_seq s)" "new_lot_ok x"
    and "\<And>i ls' n'. credited H (lots s) (lots_seq s) es i (l_Remaining x) ls' n' \<Longrightarrow> Q i (s\<lparr>lots := ls', lots_seq := n'\<rparr>)"
  shows "wp (insertLot r x now) Q E s"
  using assms(3) assms(4) [OF credited_insert [OF assms(1-3)]]
  by (simp add: insertLot_def wp_rules lot_check_def new_lot_ok_def)

lemma credited_check:
  assumes "credited H ls n es i amount ls' n'" shows "list_all lot_check ls'"
proof -
  have "credit_line i amount n' [(entry0 0 0 k_claim [] Credit amount 0)\<lparr>je_LotID := i\<rparr>]"
    using assms by (simp add: credit_line_def entry0_def credit_kinds_def debit_kinds_def credited_def)
  then show ?thesis using assms by (auto simp: credited_def dest: lots_ok_check)
qed

lemma wp_creditLot:
  assumes ok: "lots_ok H (lots s) (lots_seq s) es" and "fresh_held H (lots_seq s)" and x: "new_lot_ok x"
    and Q: "\<And>i ls' n'. credited H (lots s) (lots_seq s) es i (l_Remaining x) ls' n' \<Longrightarrow> Q i (s\<lparr>lots := ls', lots_seq := n'\<rparr>)"
    and E: "E (refuse ''recipient_limit'') s"
  shows "wp (creditLot r x now) Q E s"
proof (cases "sort_key l_ID (filter (mergeable r x) (lots s))")
  case Nil
  then show ?thesis
    using wp_insertLot [where Q = Q and E = E and r = r and now = now, OF assms(1-3)] Q E
    by (simp add: creditLot_def wp_rules)
next
  case (Cons y ys)
  then have "y \<in> set (sort_key l_ID (filter (mergeable r x) (lots s)))" by (metis list.set_intros(1))
  then have y: "y \<in> set (lots s)" "l_State y = lot_live" by (auto simp: mergeable_def is_live_def)
  note C = credited_merge [OF ok y x]
  have "wp (updateLots (\<lambda>z. l_ID z = l_ID y) (merge_row x)) (\<lambda>_. Q (l_ID y)) E s"
    using credited_check [OF C] Q [OF C] by (simp add: wp_rules)
  then show ?thesis using Cons by (simp add: creditLot_def wp_rules merge_row_def [abs_def])
qed

end
