(* ===== verification/Days_Inv.thy ===== *)
theory Days_Inv
  imports Days
begin

text \<open>
  The day tables: reading, inserting and saving a day round-trip. A day that was inserted or saved
  reads back as it was written, and no other day changes.
\<close>

definition pool_key :: "poolRow \<Rightarrow> Resource \<times> int \<times> int" where
  "pool_key p = (pr_Resource p, pr_Day p, pr_Tier p)"

definition day_key :: "dayRow \<Rightarrow> Resource \<times> int" where
  "day_key d = (dr_Resource d, dr_Day d)"

interpretation pool_table: keyed_table pool_key .

interpretation day_table: keyed_table day_key .

lemma pool_at_key: "pool_at s r day row = find (\<lambda>p. pool_key p = (r, day, row)) (pools s)"
  by (simp add: pool_at_def pool_key_def)

lemma day_at_key: "day_at s r day = find (\<lambda>d. day_key d = (r, day)) (days s)"
  by (simp add: day_at_def day_key_def)

section \<open>Well-formed tables\<close>

text \<open>
  An opened day has its four pool rows, or five written before the share rule; only the latter
  have spills; pool rows belong to opened days.
\<close>

definition pools_full :: "led \<Rightarrow> Resource \<Rightarrow> int \<Rightarrow> bool" where
  "pools_full s r day \<longleftrightarrow> (\<forall>row\<in>{0, 1, 2, 3}. \<exists>p. pool_at s r day row = Some p
     \<and> (pool_at s r day 4 = None \<longrightarrow> pr_SpillIn p = 0 \<and> pr_SpillOut p = 0))"

definition tables_ok :: "led \<Rightarrow> bool" where
  "tables_ok s \<longleftrightarrow> (\<forall>p\<in>set (pools s). 0 \<le> pr_Tier p \<and> pr_Tier p \<le> 4 \<and> day_at s (pr_Resource p) (pr_Day p) \<noteq> None)
     \<and> (\<forall>r day. day_at s r day \<noteq> None \<longrightarrow> pools_full s r day)"

lemma tables_ok_bad: "tables_ok s \<Longrightarrow> \<not> bad_pool_row s r day"
  by (auto simp: tables_ok_def bad_pool_row_def list_ex_iff)

lemma tables_ok_unopened: "tables_ok s \<Longrightarrow> day_at s r day = None \<Longrightarrow> pool_at s r day row = None"
  by (auto simp: tables_ok_def pool_at_def find_None_iff)

text \<open>What a day reads back as, from its row and its pool rows.\<close>

lemma day_load_cong:
  assumes "day_at s' r day = day_at s r day" "\<And>row. pool_at s' r day row = pool_at s r day row"
    and "tables_ok s" "tables_ok s'"
  shows "day_load s' r day = day_load s r day"
proof -
  have "raw_pool s' r day = raw_pool s r day" by (rule ext) (simp add: raw_pool_def assms(2))
  then show ?thesis
    using assms(1,2) tables_ok_bad [OF assms(3)] tables_ok_bad [OF assms(4)]
    by (cases "day_at s r day") (simp_all add: day_load_def)
qed

text \<open>A day whose rows hold the slices of \<open>d\<close>.\<close>

definition written :: "led \<Rightarrow> dayState \<Rightarrow> bool" where
  "written s d \<longleftrightarrow> day_at s (d_Resource d) (d_Day d) = Some (row_of_day d)
     \<and> pool_at s (d_Resource d) (d_Day d) 4 = None
     \<and> (\<forall>(row, p)\<in>set (poolRows d). pool_at s (d_Resource d) (d_Day d) row = Some (pool_row d row p))"

lemma written_load:
  assumes "tables_ok s" "written s d" "\<not> d_legacy d"
  shows "day_load s (d_Resource d) (d_Day d) = Inr (Some d)"
proof -
  let ?raw = "raw_pool s (d_Resource d) (d_Day d)"
  have raw: "?raw 0 = d_Grant d" "?raw 1 = d_Floor d" "?raw 2 = d_Standing d" "?raw 3 = d_Anon d"
    using assms(2) by (simp_all add: written_def poolRows_def raw_pool_def pool_row_def)
  show ?thesis
    using assms tables_ok_bad [OF assms(1), of "d_Resource d" "d_Day d"]
    by (simp add: day_load_def written_def raw Let_def day_of_row_def row_of_day_def)
qed

section \<open>Inserting a day\<close>

definition rows_of :: "dayState \<Rightarrow> poolRow list" where
  "rows_of d = map (\<lambda>(row, p). pool_row d row p) (poolRows d)"

lemma rows_of_key: "p \<in> set (rows_of d) \<Longrightarrow> pr_Resource p = d_Resource d \<and> pr_Day p = d_Day d \<and> 0 \<le> pr_Tier p \<and> pr_Tier p \<le> 3"
  by (auto simp: rows_of_def poolRows_def pool_row_def)

lemma find_rows_of:
  "find (\<lambda>p. pool_key p = (r, day, row)) (rows_of d)
   = (if (r, day) = (d_Resource d, d_Day d) then map_option (pool_row d row) (map_of (poolRows d) row) else None)"
  by (simp add: rows_of_def poolRows_def pool_row_def pool_key_def)

lemma forM_insertPool:
  assumes "\<And>row. row \<in> {0, 1, 2, 3} \<Longrightarrow> pool_at s (d_Resource d) (d_Day d) row = None"
    and "Q () (s\<lparr>pools := pools s @ rows_of d\<rparr>)"
  shows "wp (forM (poolRows d) (\<lambda>(row, p). insertPool d row p)) Q E s"
  using assms
  by (simp add: poolRows_def insertPool_def wp_rules rows_of_def pool_at_key find_append pool_row_def pool_key_def)

lemma pools_full_cong:
  "(\<And>row. pool_at s' r day row = pool_at s r day row) \<Longrightarrow> pools_full s' r day = pools_full s r day"
  by (simp add: pools_full_def)

lemma pools_full_written: "written s d \<Longrightarrow> pools_full s (d_Resource d) (d_Day d)"
  by (simp add: written_def pools_full_def poolRows_def pool_row_def)

text \<open>Replacing the rows of one day by those of \<open>d\<close>.\<close>

lemma tables_ok_replace:
  assumes ok: "tables_ok s" and w: "written s' d"
    and other: "\<And>r day. (r, day) \<noteq> (d_Resource d, d_Day d) \<Longrightarrow> day_at s' r day = day_at s r day
        \<and> (\<forall>row. pool_at s' r day row = pool_at s r day row)"
    and rows: "\<And>p. p \<in> set (pools s') \<Longrightarrow> p \<in> set (pools s) \<and> (pr_Resource p, pr_Day p) \<noteq> (d_Resource d, d_Day d)
        \<or> (pr_Resource p, pr_Day p) = (d_Resource d, d_Day d) \<and> 0 \<le> pr_Tier p \<and> pr_Tier p \<le> 4"
  shows "tables_ok s'"
  unfolding tables_ok_def
proof (intro conjI ballI allI impI)
  have here: "day_at s' (d_Resource d) (d_Day d) \<noteq> None" using w by (simp add: written_def)
  fix p assume "p \<in> set (pools s')"
  from rows [OF this] show "0 \<le> pr_Tier p" "pr_Tier p \<le> 4" "day_at s' (pr_Resource p) (pr_Day p) \<noteq> None"
    using ok other [of "pr_Resource p" "pr_Day p"] here by (auto simp: tables_ok_def)
next
  fix r day assume "day_at s' r day \<noteq> None"
  then show "pools_full s' r day"
  proof (cases "(r, day) = (d_Resource d, d_Day d)")
    case True
    then show ?thesis using pools_full_written [OF w] by simp
  next
    case False
    with \<open>day_at s' r day \<noteq> None\<close> other [OF False] ok show ?thesis
      by (simp add: tables_ok_def pools_full_cong [of s' r day s])
  qed
qed

lemma load_replace:
  assumes ok: "tables_ok s" "tables_ok s'" and w: "written s' d" "\<not> d_legacy d"
    and other: "\<And>r day. (r, day) \<noteq> (d_Resource d, d_Day d) \<Longrightarrow> day_at s' r day = day_at s r day
        \<and> (\<forall>row. pool_at s' r day row = pool_at s r day row)"
  shows "day_load s' r day = (if (r, day) = (d_Resource d, d_Day d) then Inr (Some d) else day_load s r day)"
  using written_load [OF ok(2) w] day_load_cong [OF _ _ ok, of r day] other [of r day] by auto

text \<open>The relation between the tables before and after day \<open>d\<close> was written.\<close>

definition day_written :: "led \<Rightarrow> led \<Rightarrow> dayState \<Rightarrow> bool" where
  "day_written s s' d \<longleftrightarrow> tables_ok s' \<and> (\<forall>r day. day_load s' r day
     = (if (r, day) = (d_Resource d, d_Day d) then Inr (Some d) else day_load s r day))"

lemma insertDay_written:
  assumes ok: "tables_ok s" and new: "day_at s (d_Resource d) (d_Day d) = None" and l: "\<not> d_legacy d"
    and s': "s' = s\<lparr>days := days s @ [row_of_day d], pools := pools s @ rows_of d\<rparr>"
  shows "day_written s s' d"
proof -
  have none: "pool_at s (d_Resource d) (d_Day d) row = None" for row
    by (rule tables_ok_unopened [OF ok new])
  have day: "day_at s' r day = (if (r, day) = (d_Resource d, d_Day d) then Some (row_of_day d) else day_at s r day)" for r day
    using new by (auto simp: day_at_key s' find_append day_key_def row_of_day_def split: option.splits)
  have pool: "pool_at s' r day row = (if (r, day) = (d_Resource d, d_Day d)
      then map_option (pool_row d row) (map_of (poolRows d) row) else pool_at s r day row)" for r day row
    using none [of row] by (auto simp: pool_at_key s' find_append find_rows_of split: option.splits)
  have w: "written s' d"
    by (auto simp: written_def day pool poolRows_def)
  have o: "(r, day) \<noteq> (d_Resource d, d_Day d) \<Longrightarrow> day_at s' r day = day_at s r day
        \<and> (\<forall>row. pool_at s' r day row = pool_at s r day row)" for r day
    by (auto simp: day pool)
  have "tables_ok s'"
  proof (rule tables_ok_replace [OF ok w o])
    fix p assume "p \<in> set (pools s')"
    then consider "p \<in> set (pools s)" | "p \<in> set (rows_of d)" by (auto simp: s')
    then show "p \<in> set (pools s) \<and> (pr_Resource p, pr_Day p) \<noteq> (d_Resource d, d_Day d)
        \<or> (pr_Resource p, pr_Day p) = (d_Resource d, d_Day d) \<and> 0 \<le> pr_Tier p \<and> pr_Tier p \<le> 4"
      using rows_of_key [of p d] ok new by cases (auto simp: tables_ok_def)
  qed auto
  with load_replace [OF ok this w l o] show ?thesis by (simp add: day_written_def)
qed

lemma wp_insertDay:
  assumes ok: "tables_ok s" and new: "day_at s (d_Resource d) (d_Day d) = None" and l: "\<not> d_legacy d"
    and Q: "\<And>ds ps. day_written s (s\<lparr>days := ds, pools := ps\<rparr>) d \<Longrightarrow> Q () (s\<lparr>days := ds, pools := ps\<rparr>)"
  shows "wp (insertDay d) Q E s"
proof -
  let ?s = "s\<lparr>days := days s @ [row_of_day d]\<rparr>"
  have "pool_at ?s (d_Resource d) (d_Day d) row = None" for row
    using tables_ok_unopened [OF ok new] by (simp add: pool_at_def)
  then have "wp (forM (poolRows d) (\<lambda>(row, p). insertPool d row p)) Q E ?s"
    using Q [OF insertDay_written [OF ok new l refl]] by (intro forM_insertPool) simp_all
  with new show ?thesis by (simp add: insertDay_def wp_rules)
qed

section \<open>Saving a day\<close>

text \<open>What the loaded day says of the rows behind it.\<close>

lemma day_load_rows:
  assumes "tables_ok s" "day_load s r day = Inr (Some d)"
  shows "\<exists>w. day_at s r day = Some w \<and> dr_OpenedAt w = d_OpenedAt d \<and> dr_ParamsVersion w = d_ParamsVersion d"
    and "d_Resource d = r" "d_Day d = day" "d_legacy d \<longleftrightarrow> pool_at s r day 4 \<noteq> None"
    and "\<not> d_legacy d \<Longrightarrow> written s d"
proof -
  obtain w where w: "day_at s r day = Some w" and bad: "\<not> bad_pool_row s r day"
    using assms(2) by (auto simp: day_load_def split: option.splits if_splits)
  have k: "dr_Resource w = r" "dr_Day w = day" using w find_SomeD [of _ "days s" w] by (auto simp: day_at_def)
  have D: "d = (if pool_at s r day 4 = None
      then (day_of_row w)\<lparr>d_Grant := raw_pool s r day 0, d_Floor := raw_pool s r day 1,
         d_Standing := raw_pool s r day 2, d_Anon := raw_pool s r day 3\<rparr>
      else fold_legacy (raw_pool s r day) (day_of_row w))"
    using assms(2) w bad by (auto simp: day_load_def Let_def split: if_splits)
  show "\<exists>w. day_at s r day = Some w \<and> dr_OpenedAt w = d_OpenedAt d \<and> dr_ParamsVersion w = d_ParamsVersion d"
    using w by (auto simp: D day_of_row_def fold_legacy_def)
  show key: "d_Resource d = r" "d_Day d = day" using k by (auto simp: D day_of_row_def fold_legacy_def)
  show "d_legacy d \<longleftrightarrow> pool_at s r day 4 \<noteq> None" by (auto simp: D day_of_row_def fold_legacy_def)
  show "written s d" if "\<not> d_legacy d"
  proof -
    have 4: "pool_at s r day 4 = None" using that by (auto simp: D fold_legacy_def split: if_splits)
    have full: "pools_full s r day" using assms(1) w by (simp add: tables_ok_def)
    have "pool_at s r day row = Some (pool_row d row (raw_pool s r day row))" if row: "row \<in> {0, 1, 2, 3}" for row
    proof -
      obtain p where p: "pool_at s r day row = Some p" "pr_SpillIn p = 0" "pr_SpillOut p = 0"
        using full 4 row by (auto simp: pools_full_def)
      have "pr_Resource p = r" "pr_Day p = day" "pr_Tier p = row"
        using p(1) find_SomeD [of _ "pools s" p] by (auto simp: pool_at_def)
      with p key show ?thesis by (simp add: raw_pool_def pool_row_def)
    qed
    then show ?thesis
      using w 4 k by (auto simp: written_def key poolRows_def D day_of_row_def row_of_day_def pool_row_def)
  qed
qed

definition save_row :: "dayState \<Rightarrow> dayRow \<Rightarrow> dayRow" where
  "save_row d w = w\<lparr>dr_Budget := d_Budget d, dr_BudgetEffective := d_BudgetEffective d,
     dr_Unallocated := d_Unallocated d, dr_SpentNonpaid := d_SpentNonpaid d, dr_SpentPaid := d_SpentPaid d\<rparr>"

definition save_pool :: "dayState \<Rightarrow> int \<Rightarrow> pool \<Rightarrow> poolRow list \<Rightarrow> poolRow list" where
  "save_pool d row p ps = upd (\<lambda>w. (pr_Resource w, pr_Day w, pr_Tier w) = (d_Resource d, d_Day d, row)) (\<lambda>w. w\<lparr>pr_Pool := p\<rparr>) ps"

lemma day_at_save:
  "day_at (s\<lparr>days := upd (\<lambda>w. (dr_Resource w, dr_Day w) = (d_Resource d, d_Day d)) (save_row d) (days s), pools := ps\<rparr>) r day
   = (if (r, day) = (d_Resource d, d_Day d) then map_option (save_row d) (day_at s r day) else day_at s r day)"
proof -
  let ?P = "\<lambda>w. (dr_Resource w, dr_Day w) = (r, day)"
  have F: "find ?P (upd (\<lambda>w. (dr_Resource w, dr_Day w) = (d_Resource d, d_Day d)) (save_row d) (days s))
      = map_option (\<lambda>w. if (dr_Resource w, dr_Day w) = (d_Resource d, d_Day d) then save_row d w else w) (find ?P (days s))"
    by (rule find_upd) (simp add: save_row_def)
  show ?thesis
  proof (cases "find ?P (days s)")
    case (Some a)
    then have "?P a" using find_SomeD by fastforce
    with F Some show ?thesis by (auto simp: day_at_def)
  qed (use F in \<open>auto simp: day_at_def\<close>)
qed

text \<open>Saving pool by pool, skipping the pools that did not change, writes every pool.\<close>

lemma save_pool_find:
  "find (\<lambda>p. pool_key p = (r, day, row')) (save_pool d row p ps)
   = (if (r, day, row') = (d_Resource d, d_Day d, row)
      then map_option (\<lambda>w. w\<lparr>pr_Pool := p\<rparr>) (find (\<lambda>p. pool_key p = (r, day, row')) ps)
      else find (\<lambda>p. pool_key p = (r, day, row')) ps)"
proof -
  let ?P = "\<lambda>w. pool_key w = (r, day, row')"
  have F: "find ?P (save_pool d row p ps)
      = map_option (\<lambda>w. if (pr_Resource w, pr_Day w, pr_Tier w) = (d_Resource d, d_Day d, row) then w\<lparr>pr_Pool := p\<rparr> else w) (find ?P ps)"
    unfolding save_pool_def by (rule find_upd) (simp add: pool_key_def)
  show ?thesis
  proof (cases "find ?P ps")
    case (Some a)
    then have "?P a" using find_SomeD by fastforce
    with F Some show ?thesis by (auto simp: pool_key_def)
  qed (use F in auto)
qed

definition save_all :: "dayState \<Rightarrow> poolRow list \<Rightarrow> poolRow list" where
  "save_all d ps = foldl (\<lambda>ps (row, p). save_pool d row p ps) ps (poolRows d)"

lemma save_all_find:
  "find (\<lambda>p. pool_key p = (r, day, row)) (save_all d ps)
   = (if (r, day) = (d_Resource d, d_Day d) then
        (case map_of (poolRows d) row of Some p \<Rightarrow> map_option (\<lambda>w. w\<lparr>pr_Pool := p\<rparr>) (find (\<lambda>p. pool_key p = (r, day, row)) ps)
         | None \<Rightarrow> find (\<lambda>p. pool_key p = (r, day, row)) ps)
      else find (\<lambda>p. pool_key p = (r, day, row)) ps)"
  by (auto simp: save_all_def poolRows_def save_pool_find)

lemma day_at_days: "days s' = days s \<Longrightarrow> day_at s' r day = day_at s r day"
  by (simp add: day_at_def)

text \<open>A saved day: its own row and pools hold \<open>d\<close>, everything else is as before.\<close>

lemma save_written:
  assumes ok: "tables_ok s" and ld: "day_load s (d_Resource d) (d_Day d) = Inr (Some orig)"
    and same: "d_OpenedAt d = d_OpenedAt orig" "d_ParamsVersion d = d_ParamsVersion orig" and l: "\<not> d_legacy d"
    and pool: "\<And>r day row. find (\<lambda>p. pool_key p = (r, day, row)) ps
        = (if (r, day) = (d_Resource d, d_Day d) then map_option (pool_row d row) (map_of (poolRows d) row) else pool_at s r day row)"
    and rows: "\<And>p. p \<in> set ps \<Longrightarrow> p \<in> set (pools s) \<and> (pr_Resource p, pr_Day p) \<noteq> (d_Resource d, d_Day d)
        \<or> (pr_Resource p, pr_Day p) = (d_Resource d, d_Day d) \<and> 0 \<le> pr_Tier p \<and> pr_Tier p \<le> 4"
    and s': "s' = s\<lparr>days := upd (\<lambda>w. (dr_Resource w, dr_Day w) = (d_Resource d, d_Day d)) (save_row d) (days s), pools := ps\<rparr>"
  shows "day_written s s' d"
proof -
  obtain w where w: "day_at s (d_Resource d) (d_Day d) = Some w" "dr_OpenedAt w = d_OpenedAt orig" "dr_ParamsVersion w = d_ParamsVersion orig"
    using day_load_rows(1) [OF ok ld] by auto
  have k: "dr_Resource w = d_Resource d" "dr_Day w = d_Day d" using w(1) find_SomeD [of _ "days s" w] by (auto simp: day_at_def)
  have row: "save_row d w = row_of_day d" using w k same by (simp add: save_row_def row_of_day_def)
  have day: "day_at s' r day = (if (r, day) = (d_Resource d, d_Day d) then Some (row_of_day d) else day_at s r day)" for r day
    unfolding s' day_at_save using w(1) row by auto
  have pl: "pool_at s' r day row = (if (r, day) = (d_Resource d, d_Day d)
      then map_option (pool_row d row) (map_of (poolRows d) row) else pool_at s r day row)" for r day row
    using pool [of r day row] by (simp add: pool_at_key s')
  have wr: "written s' d" by (auto simp: written_def day pl poolRows_def)
  have o: "(r, day) \<noteq> (d_Resource d, d_Day d) \<Longrightarrow> day_at s' r day = day_at s r day
        \<and> (\<forall>row. pool_at s' r day row = pool_at s r day row)" for r day
    by (auto simp: day pl)
  have "tables_ok s'"
    by (rule tables_ok_replace [OF ok wr o]) (use rows in \<open>auto simp: s'\<close>)
  with load_replace [OF ok this wr l o] show ?thesis by (simp add: day_written_def)
qed

lemma find_filter_key:
  "find (\<lambda>p. pool_key p = (r, day, row)) (filter (\<lambda>p. (pr_Resource p, pr_Day p) \<noteq> (r', day')) ps)
   = (if (r, day) = (r', day') then None else find (\<lambda>p. pool_key p = (r, day, row)) ps)"
  by (induction ps) (auto simp: pool_key_def)

lemma saved_legacy_pools:
  fixes d s
  defines "ps \<equiv> filter (\<lambda>p. (pr_Resource p, pr_Day p) \<noteq> (d_Resource d, d_Day d)) (pools s) @ rows_of d"
  shows "find (\<lambda>p. pool_key p = (r, day, row)) ps
        = (if (r, day) = (d_Resource d, d_Day d) then map_option (pool_row d row) (map_of (poolRows d) row) else pool_at s r day row)"
  unfolding ps_def find_append find_filter_key find_rows_of pool_at_key
  by (auto split: option.splits)

lemma saved_pools:
  assumes "written s orig" "d_Resource d = d_Resource orig" "d_Day d = d_Day orig"
  shows "find (\<lambda>p. pool_key p = (r, day, row)) (save_all d (pools s))
        = (if (r, day) = (d_Resource d, d_Day d)
           then (case map_of (poolRows d) row of Some p \<Rightarrow> Some (pool_row d row p) | None \<Rightarrow> pool_at s r day row)
           else pool_at s r day row)"
proof -
  have "pool_at s (d_Resource d) (d_Day d) row' = Some (pool_row orig row' p)" if "(row', p) \<in> set (poolRows orig)" for row' p
    using assms that by (auto simp: written_def)
  then show ?thesis
    unfolding save_all_find pool_at_key [symmetric] using assms(2,3)
    by (auto simp: poolRows_def pool_row_def)
qed

text \<open>The pool-by-pool loop, with its skips.\<close>

lemma save_pool_same:
  assumes "\<And>w. w \<in> set ps \<Longrightarrow> (pr_Resource w, pr_Day w, pr_Tier w) = (d_Resource d, d_Day d, row) \<Longrightarrow> pr_Pool w = p"
  shows "save_pool d row p ps = ps"
  unfolding save_pool_def using assms by (intro upd_id) simp

definition save_loop :: "dayState \<Rightarrow> dayState \<Rightarrow> poolRow list \<Rightarrow> poolRow list" where
  "save_loop d orig ps = foldl (\<lambda>ps ((row, p), (_, was)). if p = was then ps else save_pool d row p ps) ps
     (zip (poolRows d) (poolRows orig))"

lemma save_loop_find:
  assumes "written s orig" "d_Resource d = d_Resource orig" "d_Day d = d_Day orig"
  shows "find (\<lambda>p. pool_key p = (r, day, row)) (save_loop d orig (pools s))
    = find (\<lambda>p. pool_key p = (r, day, row)) (save_all d (pools s))"
proof -
  have at: "find (\<lambda>p. pool_key p = (d_Resource d, d_Day d, row')) (pools s) = Some (pool_row orig row' p)"
    if "(row', p) \<in> set (poolRows orig)" for row' p
    using assms that by (auto simp: written_def pool_at_key)
  have sk: "find (\<lambda>p. pool_key p = (r, day, row)) (if p = was then ps else save_pool d row' p ps)
      = (if p = was then find (\<lambda>p. pool_key p = (r, day, row)) ps
         else find (\<lambda>p. pool_key p = (r, day, row)) (save_pool d row' p ps))" for p was row' ps by simp
  note sf = save_all_find save_loop_def poolRows_def save_pool_find sk pool_row_def
  show ?thesis
  proof (cases "(r, day) = (d_Resource d, d_Day d)")
    case True
    consider "row = 0" | "row = 1" | "row = 2" | "row = 3" | "row \<notin> {0, 1, 2, 3}" by auto
    then show ?thesis
      using True at [of 0 "d_Grant orig"] at [of 1 "d_Floor orig"] at [of 2 "d_Standing orig"] at [of 3 "d_Anon orig"]
      by cases (simp_all add: sf)
  next
    case False
    then show ?thesis by (auto simp: sf)
  qed
qed

text \<open>The loop keeps the keys, and the rows of other days.\<close>

definition same_rows :: "dayState \<Rightarrow> poolRow list \<Rightarrow> poolRow list \<Rightarrow> bool" where
  "same_rows d ps ps' \<longleftrightarrow> (\<forall>p\<in>set ps'. \<exists>q\<in>set ps. pool_key q = pool_key p
     \<and> ((pr_Resource p, pr_Day p) \<noteq> (d_Resource d, d_Day d) \<longrightarrow> q = p))"

lemma same_rows_refl: "same_rows d ps ps" by (auto simp: same_rows_def)

lemma same_rows_trans: "same_rows d ps ps' \<Longrightarrow> same_rows d ps' ps'' \<Longrightarrow> same_rows d ps ps''"
  unfolding same_rows_def by (metis)

lemma same_rows_step: "same_rows d ps (if b then ps else save_pool d row p ps)"
  unfolding same_rows_def save_pool_def pool_key_def by (auto simp: in_upd; force)

lemma same_rows_foldl:
  "same_rows d ps (foldl (\<lambda>ps ((row, p), (_, was)). if p = was then ps else save_pool d row p ps) ps xs)"
proof (induction xs arbitrary: ps)
  case (Cons x xs)
  obtain row p i was where x: "x = ((row, p), (i, was))" by (metis surj_pair)
  from same_rows_trans [OF same_rows_step Cons.IH] show ?case by (simp add: x split del: if_split)
qed (simp add: same_rows_refl)

lemma same_rows_loop: "same_rows d ps (save_loop d orig ps)"
  unfolding save_loop_def by (rule same_rows_foldl)

lemma wp_save_loop:
  "wp (forM xs (\<lambda>((row, p), (_, was)). if p = was then ret () else modifyM (\<lambda>s. s\<lparr>pools :=
      upd (\<lambda>w. (pr_Resource w, pr_Day w, pr_Tier w) = (d_Resource d, d_Day d, row)) (\<lambda>w. w\<lparr>pr_Pool := p\<rparr>) (pools s)\<rparr>))) Q E s
   = Q () (s\<lparr>pools := foldl (\<lambda>ps ((row, p), (_, was)). if p = was then ps else save_pool d row p ps) (pools s) xs\<rparr>)"
proof (induction xs arbitrary: s)
  case (Cons x xs)
  obtain row p i was where x: "x = ((row, p), (i, was))" by (metis surj_pair)
  show ?case by (cases "p = was") (simp_all add: x wp_rules Cons.IH save_pool_def)
qed (simp add: wp_rules)

lemma wp_saveDay:
  assumes ok: "tables_ok s" and ld: "day_load s (d_Resource d) (d_Day d) = Inr (Some orig)"
    and same: "d_OpenedAt d = d_OpenedAt orig" "d_ParamsVersion d = d_ParamsVersion orig" "d_legacy d = d_legacy orig"
    and Q: "\<And>ds ps d'. d' = d \<or> d' = d\<lparr>d_legacy := False\<rparr> \<Longrightarrow> day_written s (s\<lparr>days := ds, pools := ps\<rparr>) d'
      \<Longrightarrow> Q (d', d') (s\<lparr>days := ds, pools := ps\<rparr>)"
  shows "wp (saveDay d orig) Q E s"
proof (cases "d = orig")
  case True
  have "day_written s (s\<lparr>days := days s, pools := pools s\<rparr>) d"
    using ok ld True by (auto simp: day_written_def)
  from Q [OF _ this] True show ?thesis by (simp add: saveDay_def wp_rules)
next
  case False
  have key: "d_Resource orig = d_Resource d" "d_Day orig = d_Day d" using day_load_rows(2,3) [OF ok ld] by auto
  define ds where "ds = upd (\<lambda>w. (dr_Resource w, dr_Day w) = (d_Resource d, d_Day d)) (save_row d) (days s)"
  show ?thesis
  proof (cases "d_legacy orig")
    case True
    let ?d = "d\<lparr>d_legacy := False\<rparr>"
    define ps where "ps = filter (\<lambda>p. (pr_Resource p, pr_Day p) \<noteq> (d_Resource d, d_Day d)) (pools s) @ rows_of d"
    have R: "rows_of ?d = rows_of d" "save_row ?d = save_row d"
      by (simp_all add: rows_of_def poolRows_def pool_row_def save_row_def fun_eq_iff)
    have "day_written s (s\<lparr>days := ds, pools := ps\<rparr>) ?d"
    proof (rule save_written [OF ok, where ps = ps])
      show "find (\<lambda>p. pool_key p = (r, day, row)) ps = (if (r, day) = (d_Resource ?d, d_Day ?d)
          then map_option (pool_row ?d row) (map_of (poolRows ?d) row) else pool_at s r day row)" for r day row
        using saved_legacy_pools [of r day row ?d s] by (simp add: ps_def R)
      fix p assume "p \<in> set ps"
      then show "p \<in> set (pools s) \<and> (pr_Resource p, pr_Day p) \<noteq> (d_Resource ?d, d_Day ?d)
          \<or> (pr_Resource p, pr_Day p) = (d_Resource ?d, d_Day ?d) \<and> 0 \<le> pr_Tier p \<and> pr_Tier p \<le> 4"
        using rows_of_key [of p d] by (auto simp: ps_def)
    qed (use ld same in \<open>auto simp: ds_def R\<close>)
    then have W: "Q (?d, ?d) (s\<lparr>days := ds, pools := ps\<rparr>)" by (intro Q) auto
    have "wp (forM (poolRows d) (\<lambda>(row, p). insertPool d row p)) (\<lambda>_. Q (?d, ?d)) E
      (s\<lparr>days := ds, pools := filter (\<lambda>p. (pr_Resource p, pr_Day p) \<noteq> (d_Resource d, d_Day d)) (pools s)\<rparr>)"
      using W by (intro forM_insertPool) (auto simp: ps_def pool_at_def find_None_iff)
    with False True show ?thesis by (simp add: saveDay_def wp_rules ds_def save_row_def [abs_def])
  next
    case l: False
    have w: "written s orig" using day_load_rows(5) [OF ok ld l] .
    define ps where "ps = save_loop d orig (pools s)"
    have 4: "pool_at s (d_Resource d) (d_Day d) row = None" if "row = 4" for row
      using w that key by (simp add: written_def)
    have "day_written s (s\<lparr>days := ds, pools := ps\<rparr>) d"
    proof (rule save_written [OF ok ld same(1,2), where ps = ps])
      have five: "pool_at s (d_Resource d) (d_Day d) row = None" if "map_of (poolRows d) row = None" for row
      proof (rule ccontr)
        assume "pool_at s (d_Resource d) (d_Day d) row \<noteq> None"
        then obtain p where p: "p \<in> set (pools s)" "pr_Tier p = row"
          by (auto simp: pool_at_def dest: find_SomeD)
        then have "0 \<le> row" "row \<le> 4" using ok by (auto simp: tables_ok_def)
        then have "row \<in> {0, 1, 2, 3, 4}" by auto
        with that 4 \<open>pool_at s (d_Resource d) (d_Day d) row \<noteq> None\<close> show False by (auto simp: poolRows_def)
      qed
      show "find (\<lambda>p. pool_key p = (r, day, row)) ps = (if (r, day) = (d_Resource d, d_Day d)
          then map_option (pool_row d row) (map_of (poolRows d) row) else pool_at s r day row)" for r day row
        unfolding ps_def save_loop_find [OF w key [symmetric]] saved_pools [OF w key [symmetric]]
        using five [of row] by (auto split: option.splits)
      fix p assume "p \<in> set ps"
      then obtain q where "q \<in> set (pools s)" "pool_key q = pool_key p"
        "(pr_Resource p, pr_Day p) \<noteq> (d_Resource d, d_Day d) \<longrightarrow> q = p"
        using same_rows_loop [of d "pools s" orig] by (auto simp: same_rows_def ps_def)
      then show "p \<in> set (pools s) \<and> (pr_Resource p, pr_Day p) \<noteq> (d_Resource d, d_Day d)
          \<or> (pr_Resource p, pr_Day p) = (d_Resource d, d_Day d) \<and> 0 \<le> pr_Tier p \<and> pr_Tier p \<le> 4"
        using ok by (auto simp: tables_ok_def pool_key_def)
    qed (use same l in \<open>auto simp: ds_def\<close>)
    then have "Q (d, d) (s\<lparr>days := ds, pools := ps\<rparr>)" by (intro Q) auto
    moreover have "wp (saveDay d orig) Q E s = Q (d, d) (s\<lparr>days := ds, pools := ps\<rparr>)"
      using False l unfolding saveDay_def
      by (simp add: wp_thenM wp_modifyM wp_ret wp_save_loop ds_def save_row_def [abs_def] ps_def save_loop_def)
    ultimately show ?thesis by simp
  qed
qed

end
