(* ===== verification/Spend_Limits.thy ===== *)
theory Spend_Limits
  imports Lots
begin

text \<open>
  Spend limits per credential (\<open>internal/ledger/limits.go\<close>): setting and reading a limit, the check
  before a spend, the count of a spend, and what a settled or joined hold gives back.
\<close>

definition SpendLimitMax :: int where "SpendLimitMax = maxUnits"

definition Limited :: "SpendLimit \<Rightarrow> bool" where
  "Limited l \<longleftrightarrow> sl_PerDay l \<noteq> None \<or> sl_PerCall l \<noteq> None \<or> sl_ExpiresAt l \<noteq> 0"

definition SetSpendLimit :: "SpendLimit \<Rightarrow> int \<Rightarrow> unit LM" where
  "SetSpendLimit l now =
     (if sl_Credential l = [] \<or> sl_Account l = [] then throw (Internal ''a spend limit needs a credential and an account'')
      else if list_ex (\<lambda>v. case v of None \<Rightarrow> False | Some n \<Rightarrow> n < 0 \<or> n > SpendLimitMax) [sl_PerDay l, sl_PerCall l]
        then throw (refuse ''invalid_amount'')
      else if sl_ExpiresAt l < 0 then throw (refuse ''invalid_amount'')
      else modifyM (\<lambda>s. s\<lparr>spend_limits := upsert (\<lambda>x. sl_Credential x = sl_Credential l)
        (\<lambda>x. if sl_Account x = sl_Account l
             then x\<lparr>sl_PerDay := sl_PerDay l, sl_PerCall := sl_PerCall l, sl_ExpiresAt := sl_ExpiresAt l,
                    sl_SetAt := now, sl_SetBy := sl_SetBy l\<rparr> else x)
        (l\<lparr>sl_SetAt := now\<rparr>) (spend_limits s)\<rparr>))"

definition loadSpendLimit :: "string \<Rightarrow> SpendLimit option LM" where
  "loadSpendLimit credential = gets (\<lambda>s. find (\<lambda>l. sl_Credential l = credential) (spend_limits s))"

definition spent_by :: "led \<Rightarrow> string \<Rightarrow> int \<Rightarrow> int" where
  "spent_by s credential day = (case find (\<lambda>u. (lu_Credential u, lu_Day u) = (credential, day)) (limit_usage s) of
     None \<Rightarrow> 0 | Some u \<Rightarrow> lu_Spent u)"

definition credentialSpent :: "string \<Rightarrow> int \<Rightarrow> int LM" where
  "credentialSpent credential day = gets (\<lambda>s. spent_by s credential day)"

record SpendLimitStatus =
  ss_Limit :: SpendLimit
  ss_Set :: bool
  ss_SpentToday :: int
  ss_Remaining :: "int option"
  ss_ResetsAt :: int

definition SpendLimitOf :: "string \<Rightarrow> string \<Rightarrow> int \<Rightarrow> SpendLimitStatus LM" where
  "SpendLimitOf account credential now =
     (let day = day_of now in
      bindM (loadSpendLimit credential) (\<lambda>l.
      bindM (credentialSpent credential day) (\<lambda>n.
        let (sl, isset) = (case l of
              Some x \<Rightarrow> if sl_Account x = account then (x, True)
                else (\<lparr>sl_Credential = credential, sl_Account = account, sl_PerDay = None, sl_PerCall = None,
                       sl_ExpiresAt = 0, sl_SetAt = 0, sl_SetBy = []\<rparr>, False)
            | None \<Rightarrow> (\<lparr>sl_Credential = credential, sl_Account = account, sl_PerDay = None, sl_PerCall = None,
                       sl_ExpiresAt = 0, sl_SetAt = 0, sl_SetBy = []\<rparr>, False))
        in ret \<lparr>ss_Limit = sl, ss_Set = isset, ss_SpentToday = n,
             ss_Remaining = map_option (\<lambda>d. max 0 (d - n)) (sl_PerDay sl), ss_ResetsAt = (day + 1) * 86400\<rparr>)))"

definition CredentialLimited :: "string \<Rightarrow> bool LM" where
  "CredentialLimited credential =
     (if credential = [] then ret False
      else bindM (loadSpendLimit credential) (\<lambda>l. ret (case l of None \<Rightarrow> False | Some x \<Rightarrow> Limited x)))"

definition spendLimitRefusal :: "string \<Rightarrow> int \<Rightarrow> int \<Rightarrow> lerr" where
  "spendLimitRefusal which value now =
     (let e = (err_code ''spend_limit'')\<lparr>e_SpendLimit := which, e_SpendLimitValue := value\<rparr> in
      Refuse (if which = ''per_day''
        then e\<lparr>e_NextOpenAt := NextDay now, e_RetryAfter := NextDay now - now\<rparr> else e))"

definition credentialCheck :: "Subject \<Rightarrow> int \<Rightarrow> unit LM" where
  "credentialCheck sb units =
     bindM (gets lop) (\<lambda>p.
     if s_Credential sb = [] \<or> o_r p \<noteq> Credit \<or> units \<le> 0 then ret ()
     else bindM (loadSpendLimit (s_Credential sb)) (\<lambda>l. case l of
         None \<Rightarrow> ret ()
       | Some sl \<Rightarrow>
         if sl_Account sl \<noteq> s_ID sb then ret ()
         else if sl_ExpiresAt sl \<noteq> 0 \<and> o_now p \<ge> sl_ExpiresAt sl then throw (spendLimitRefusal ''expired'' 0 (o_now p))
         else if (case sl_PerCall sl of None \<Rightarrow> False | Some c \<Rightarrow> units > c)
           then throw (spendLimitRefusal ''per_call'' (the (sl_PerCall sl)) (o_now p))
         else (case sl_PerDay sl of
             None \<Rightarrow> ret ()
           | Some d \<Rightarrow> bindM (credentialSpent (s_Credential sb) (o_day p)) (\<lambda>n.
               if n + units > d then throw (spendLimitRefusal ''per_day'' d (o_now p)) else ret ()))))"

definition addLimitUsage :: "string \<Rightarrow> int \<Rightarrow> int \<Rightarrow> unit LM" where
  "addLimitUsage credential day units =
     modifyM (\<lambda>s. s\<lparr>limit_usage := upsert (\<lambda>u. (lu_Credential u, lu_Day u) = (credential, day))
       (\<lambda>u. u\<lparr>lu_Spent := lu_Spent u + units\<rparr>)
       \<lparr>lu_Credential = credential, lu_Day = day, lu_Spent = units\<rparr> (limit_usage s)\<rparr>)"

definition credentialRecord :: "Subject \<Rightarrow> int \<Rightarrow> string \<Rightarrow> unit LM" where
  "credentialRecord sb units hold_id =
     bindM (gets lop) (\<lambda>p.
     if s_Credential sb = [] \<or> o_r p \<noteq> Credit \<or> units \<le> 0 then ret ()
     else thenM (addLimitUsage (s_Credential sb) (o_day p) units)
       (if hold_id = [] then ret ()
        else modifyM (\<lambda>s. s\<lparr>limit_holds := upsert (\<lambda>h. lh_Hold h = hold_id) (\<lambda>h. h)
          \<lparr>lh_Hold = hold_id, lh_Credential = s_Credential sb, lh_Day = o_day p\<rparr> (limit_holds s)\<rparr>)))"

definition giveBack :: "string \<Rightarrow> int \<Rightarrow> int \<Rightarrow> unit LM" where
  "giveBack credential day units =
     modifyM (\<lambda>s. s\<lparr>limit_usage := upd (\<lambda>u. (lu_Credential u, lu_Day u) = (credential, day))
       (\<lambda>u. u\<lparr>lu_Spent := max 0 (lu_Spent u - units)\<rparr>) (limit_usage s)\<rparr>)"

definition holdShares :: "string \<Rightarrow> holdShare list LM" where
  "holdShares hold_id = gets (\<lambda>s. sort_key (\<lambda>h. (- hs_Day h, hs_Credential h))
     (filter (\<lambda>h. hs_Hold h = hold_id \<and> hs_Units h > 0) (limit_hold_shares s)))"

definition holdCredential :: "string \<Rightarrow> limitHold option LM" where
  "holdCredential hold_id = gets (\<lambda>s. find (\<lambda>h. lh_Hold h = hold_id) (limit_holds s))"

text \<open>The loop returns what is left to give back; \<open>units = 0\<close> ends it early.\<close>

definition release_share :: "string \<Rightarrow> int \<Rightarrow> holdShare \<Rightarrow> int LM" where
  "release_share hold_id units sh =
     (if units = 0 then ret 0
      else let bk = min (hs_Units sh) units in
        thenM (giveBack (hs_Credential sh) (hs_Day sh) bk)
       (thenM (modifyM (\<lambda>s. s\<lparr>limit_hold_shares :=
            upd (\<lambda>h. hs_Hold h = hold_id \<and> hs_Credential h = hs_Credential sh \<and> hs_Day h = hs_Day sh)
              (\<lambda>h. h\<lparr>hs_Units := hs_Units h - bk\<rparr>) (limit_hold_shares s)\<rparr>))
         (ret (units - bk))))"

definition credentialRelease :: "string \<Rightarrow> int \<Rightarrow> unit LM" where
  "credentialRelease hold_id units =
     (if units \<le> 0 then ret ()
      else bindM (holdShares hold_id) (\<lambda>shares.
        bindM (foldM (release_share hold_id) units shares) (\<lambda>left.
        if left = 0 then ret ()
        else bindM (holdCredential hold_id) (\<lambda>h. case h of
            None \<Rightarrow> ret ()
          | Some x \<Rightarrow> giveBack (lh_Credential x) (lh_Day x) left))))"

definition join_add :: "string \<Rightarrow> limitHold option \<Rightarrow> string \<Rightarrow> int \<Rightarrow> int \<Rightarrow> unit LM" where
  "join_add dst dstOwn cred day n =
     (if n \<le> 0 \<or> (case dstOwn of None \<Rightarrow> cred = [] \<and> day = -1 | Some o' \<Rightarrow> cred = lh_Credential o' \<and> day = lh_Day o')
      then ret ()
      else modifyM (\<lambda>s. s\<lparr>limit_hold_shares :=
        upsert (\<lambda>h. hs_Hold h = dst \<and> hs_Credential h = cred \<and> hs_Day h = day)
          (\<lambda>h. h\<lparr>hs_Units := hs_Units h + n\<rparr>)
          \<lparr>hs_Hold = dst, hs_Credential = cred, hs_Day = day, hs_Units = n\<rparr> (limit_hold_shares s)\<rparr>))"

definition credentialJoin :: "string \<Rightarrow> string \<Rightarrow> int \<Rightarrow> unit LM" where
  "credentialJoin src dst units =
     bindM (holdShares src) (\<lambda>shares.
     bindM (holdCredential src) (\<lambda>own.
     bindM (holdCredential dst) (\<lambda>dstOwn.
     bindM (foldM (\<lambda>left sh. let n = min (hs_Units sh) left in
         thenM (join_add dst dstOwn (hs_Credential sh) (hs_Day sh) n) (ret (left - n))) units shares) (\<lambda>left.
     thenM (modifyM (\<lambda>s. s\<lparr>limit_hold_shares := upd (\<lambda>h. hs_Hold h = src) (\<lambda>h. h\<lparr>hs_Units := 0\<rparr>) (limit_hold_shares s)\<rparr>))
     (case own of None \<Rightarrow> ret () | Some x \<Rightarrow> join_add dst dstOwn (lh_Credential x) (lh_Day x) left)))))"

section \<open>Account-change breakers\<close>

text \<open>
  The account-change breaker (\<open>internal/ledger/transfers.go\<close>, up to \<open>transferBreaker\<close>).
\<close>

definition tripBreaker :: "AllowanceParams \<Rightarrow> string \<Rightarrow> string \<Rightarrow> string \<Rightarrow> int \<Rightarrow> unit LM" where
  "tripBreaker p account reason cancelKey now =
     bindM (gets (\<lambda>s. list_ex (\<lambda>b. b_Account b = account \<and> b_TrustUntil b \<ge> now \<and> b_Reason b = reason
         \<and> b_CancelKey b = cancelKey \<and> b_StartedAt b = now) (breakers s))) (\<lambda>dup.
     if dup then ret ()
     else modifyM (\<lambda>s. s\<lparr>breakers := breakers s @ [\<lparr>b_Seq = breakers_seq s + 1, b_Account = account,
       b_Reason = reason, b_CancelKey = cancelKey, b_StartedAt = now,
       b_TransferUntil = now + ap_TransferDelay p, b_TrustUntil = now + ap_TrustResetDays p * 86400\<rparr>],
       breakers_seq := breakers_seq s + 1\<rparr>))"

definition TripBreaker :: "Config \<Rightarrow> string \<Rightarrow> string \<Rightarrow> string \<Rightarrow> int \<Rightarrow> unit LM" where
  "TripBreaker cf account reason cancelKey now =
     bindM (params cf now) (\<lambda>(p, _). tripBreaker p account reason cancelKey now)"

definition ActiveBreaker :: "string \<Rightarrow> int \<Rightarrow> Breaker option LM" where
  "ActiveBreaker account now =
     gets (\<lambda>s. case sort_key (\<lambda>b. - b_Seq b)
         (filter (\<lambda>b. b_Account b = account \<and> (b_TrustUntil b > now \<or> b_TransferUntil b > now)) (breakers s)) of
       [] \<Rightarrow> None | b # _ \<Rightarrow> Some b)"

definition in_breaker :: "led \<Rightarrow> string \<Rightarrow> int \<Rightarrow> bool" where
  "in_breaker s account now \<longleftrightarrow> list_ex (\<lambda>b. b_Account b = account \<and> b_TransferUntil b > now) (breakers s)"

definition transferBreaker :: "string \<Rightarrow> int \<Rightarrow> bool LM" where
  "transferBreaker account now = gets (\<lambda>s. in_breaker s account now)"

end
