(* ===== verification/Spend.thy ===== *)
theory Spend
  imports Spend_Limits
begin

text \<open>
  The rest of \<open>internal/ledger/spend.go\<close>: the operation object and its prelude, the implicit claim,
  planning a spend over the day's water, the debit, \<open>Spend\<close>, \<open>Balance\<close> and minting; with the
  refusal counters of \<open>refusals.go\<close> that \<open>Spend\<close> and \<open>Reserve\<close> note.
\<close>

section \<open>Refusal counts\<close>

definition RefusalCodes :: "string list" where
  "RefusalCodes = [''quota_exhausted'', ''global_quota_exhausted'', ''no_share'']"

definition refusalsMax :: nat where "refusalsMax = 4096"

definition countRefusal :: "int \<times> Resource \<times> string \<Rightarrow> int
    \<Rightarrow> ((int \<times> Resource \<times> string) \<times> int) list \<Rightarrow> ((int \<times> Resource \<times> string) \<times> int) list" where
  "countRefusal k n m =
     (if map_of m k \<noteq> None then map (\<lambda>(k', v). if k' = k then (k', v + n) else (k', v)) m
      else if length m < refusalsMax then m @ [(k, n)] else m)"

definition noteRefusal :: "int \<Rightarrow> Resource \<Rightarrow> lerr \<Rightarrow> unit LM" where
  "noteRefusal day r e =
     (case e of
        Refuse x \<Rightarrow> if e_Code x \<in> set RefusalCodes
          then modifyM (\<lambda>s. s\<lparr>refusals := countRefusal (day, r, e_Code x) 1 (refusals s)\<rparr>) else ret ()
      | _ \<Rightarrow> ret ())"

section \<open>The operation\<close>

definition op_entry :: "op \<Rightarrow> kind \<Rightarrow> string \<Rightarrow> int \<Rightarrow> entry" where
  "op_entry p k account amount = entry0 (o_day p) (o_now p) k account (o_r p) amount (o_version p)"

text \<open>\<open>open\<close>, in three parts: the day read or opened, the operation object, the adjusted slices journalled.\<close>

definition open_day :: "Resource \<Rightarrow> int \<Rightarrow> ResourceParams \<Rightarrow> Levers \<Rightarrow> int \<Rightarrow> int \<Rightarrow> dayState LM" where
  "open_day r day rp lv version now =
     bindM (loadDay r day) (\<lambda>d. case d of
         Some d \<Rightarrow> ret d
       | None \<Rightarrow> bindM (previousDay r day) (\<lambda>prev.
           let d = computeOpen r day rp lv prev version now in thenM (insertDay d) (ret d)))"

definition new_op :: "AllowanceParams \<Rightarrow> int \<Rightarrow> ResourceParams \<Rightarrow> Levers \<Rightarrow> Resource \<Rightarrow> int \<Rightarrow> dayState \<Rightarrow> op" where
  "new_op p version rp lv r now d =
     \<lparr>o_p = p, o_version = version, o_rp = rp, o_lv = lv, o_r = r, o_day = day_of now, o_now = now,
      o_d = adjust d rp lv, o_orig = d, o_hourBound = False, o_noShareLot = False, o_noShareBand = 0, o_spent = None\<rparr>"

definition adjust_note :: "dayState \<Rightarrow> string" where
  "adjust_note d = ''slices adjusted: budget '' @ itoa (d_Budget d) @ '', effective '' @ itoa (d_BudgetEffective d)
     @ '', unallocated '' @ itoa (d_Unallocated d)"

definition start_op :: "op \<Rightarrow> unit LM" where
  "start_op q =
     thenM (modifyOp (\<lambda>_. q))
       (if o_d q \<noteq> o_orig q
        then journal ((op_entry q k_lever [] (d_BudgetEffective (o_d q)))\<lparr>je_Detail := adjust_note (o_d q)\<rparr>)
        else ret ())"

definition open_op :: "Config \<Rightarrow> Resource \<Rightarrow> int \<Rightarrow> unit LM" where
  "open_op cf r now =
     bindM (params cf now) (\<lambda>(p, version).
     bindM (resource p r) (\<lambda>rp.
     bindM (levers cf now) (\<lambda>lv.
     bindM (open_day r (day_of now) rp lv version now) (\<lambda>d.
     start_op (new_op p version rp lv r now d)))))"

definition save :: "unit LM" where
  "save = bindM (gets lop) (\<lambda>p. bindM (saveDay (o_d p) (o_orig p)) (\<lambda>(d, orig).
     modifyOp (\<lambda>q. q\<lparr>o_d := d, o_orig := orig\<rparr>)))"

section \<open>The implicit claim\<close>

definition dormantCheck :: "string \<Rightarrow> unit LM" where
  "dormantCheck account =
     bindM (gets lop) (\<lambda>p.
     bindM (gets (\<lambda>s. map c_Day (filter (\<lambda>c. c_Resource c = o_r p \<and> c_Subject c = account \<and> c_Day c < o_day p) (claims s)))) (\<lambda>ds.
     if ds = [] \<or> o_day p - Max (set ds) \<le> ap_DormantDays (o_p p) then ret ()
     else tripBreaker (o_p p) account ''dormant'' [] (o_now p)))"

text \<open>What the claim does to the day: counts of claimants and the standing slice's weight.\<close>

definition claim_day :: "op \<Rightarrow> Standing \<Rightarrow> rootDay \<Rightarrow> int \<Rightarrow> dayState \<Rightarrow> dayState" where
  "claim_day p st rd standing d =
     (let d1 = (if eligible (o_r p) (o_rp p) (o_lv p) st then
            let d' = setSlice sliceFloor (\<lambda>q. q\<lparr>Claimants := Claimants q + 1\<rparr>) d in
            if st_ShareCents st > 0 \<and> rd_Claims rd = 0
            then setSlice sliceStanding (\<lambda>q. q\<lparr>Weight := Weight q + st_ShareCents st\<rparr>) d' else d'
          else d);
          d2 = (if st_Band st = BandAnonymous then d1\<lparr>d_Anon := (d_Anon d1)\<lparr>Claimants := Claimants (d_Anon d1) + 1\<rparr>\<rparr> else d1)
      in if standing > 0 then setSlice sliceStanding (\<lambda>q. q\<lparr>Claimants := Claimants q + 1\<rparr>) d2 else d2)"

definition claim_origin :: "Standing \<Rightarrow> int \<Rightarrow> int" where
  "claim_origin st standing = (if st_Band st = BandAnonymous then originAnonymous
     else if standing > 0 then originStanding else originFloor)"

definition claim_lot :: "op \<Rightarrow> string \<Rightarrow> int \<Rightarrow> int \<Rightarrow> lot" where
  "claim_lot p subject origin ent =
     (let (exp, hl) = freeExpiry (o_p p) (o_day p) in
      \<lparr>l_ID = 0, l_Account = subject, l_Resource = o_r p, l_Bucket = Free, l_Origin = origin,
       l_OriginAccount = subject, l_Hops = 0, l_IssuedDay = o_day p, l_ExpiresAt = exp, l_HalfLife = hl,
       l_DecayedDay = o_day p, l_Initial = ent, l_Remaining = ent, l_Held = 0, l_State = lot_live,
       l_CreatedAt = o_now p\<rparr>)"

definition claim_note :: "Standing \<Rightarrow> int \<Rightarrow> int \<Rightarrow> string" where
  "claim_note st flr standing = Band_Name (st_Band st) @ '', floor '' @ itoa flr @ '', standing '' @ itoa standing"

definition record_claim :: "op \<Rightarrow> Subject \<Rightarrow> Standing \<Rightarrow> int \<Rightarrow> int \<Rightarrow> int \<Rightarrow> claimRow LM" where
  "record_claim p sb st flr standing lot_id =
     (let ent = flr + standing;
          c = \<lparr>c_Resource = o_r p, c_Day = o_day p, c_Subject = s_ID sb, c_Band = st_Band st,
               c_Standing = standing, c_Root = st_Root st, c_Entitlement = ent, c_Granted = ent,
               c_Source = st_Source st, c_LotID = lot_id, c_CreatedAt = o_now p\<rparr> in
      thenM (insertClaim c)
     (thenM (journal ((op_entry p k_claim (s_ID sb) ent)\<lparr>je_Bucket := Some Free, je_LotID := lot_id,
         je_Detail := claim_note st flr standing\<rparr>))
     (thenM (if s_Signed sb then dormantCheck (s_ID sb) else ret ())
      (ret c))))"

definition new_claim :: "op \<Rightarrow> Subject \<Rightarrow> Standing \<Rightarrow> rootDay \<Rightarrow> Share \<Rightarrow> claimRow LM" where
  "new_claim p sb st rd sh =
     (let flr = sh_Floor sh; standing = sh_Standing sh; ent = flr + standing in
      thenM (modifyOp (\<lambda>q. q\<lparr>o_d := claim_day p st rd standing (o_d q)\<rparr>))
     (bindM (if ent > 0 then insertLot (o_r p) (claim_lot p (s_ID sb) (claim_origin st standing) ent) (o_now p) else ret 0)
        (record_claim p sb st flr standing)))"

definition claim :: "Config \<Rightarrow> Subject \<Rightarrow> claimRow LM" where
  "claim cf sb =
     bindM (gets lop) (\<lambda>p.
     bindM (loadClaim (o_r p) (o_day p) (s_ID sb)) (\<lambda>c0. case c0 of
       Some c \<Rightarrow> ret c
     | None \<Rightarrow>
       bindM (classify cf sb (o_now p)) (\<lambda>st.
       bindM (loadRootDay (o_r p) (o_day p) (st_Root st)) (\<lambda>rd.
       bindM (share (o_d p) (o_rp p) (o_lv p) st rd (s_ID sb)) (\<lambda>sh.
       new_claim p sb st rd sh)))))"

section \<open>Planning a spend\<close>

definition cap_lot :: "claimRow \<Rightarrow> int \<Rightarrow> lot \<Rightarrow> lot" where
  "cap_lot c limit x =
     (let allowed = max 0 (limit - (l_Initial x - l_Remaining x)) in
      if l_ID x = c_LotID c \<and> spendable x > allowed then x\<lparr>l_Held := l_Remaining x - allowed\<rparr> else x)"

definition capOwn :: "ResourceParams \<Rightarrow> lot list \<Rightarrow> claimRow \<Rightarrow> lot list" where
  "capOwn rp ls c = (if c_LotID c = 0 then ls else map (cap_lot c (min (c_Entitlement c) (rp_Cap rp))) ls)"

definition noShare :: "op \<Rightarrow> Band \<Rightarrow> bool" where
  "noShare p b \<longleftrightarrow> rp_Cap (o_rp p) = 0 \<or> b = BandAnonymous \<and> rp_AnonymousSharePPM (o_rp p) = 0"

definition noShareOrigin :: "op \<Rightarrow> int \<Rightarrow> bool" where
  "noShareOrigin p x \<longleftrightarrow> rp_Cap (o_rp p) = 0 \<or> x = originAnonymous \<and> rp_AnonymousSharePPM (o_rp p) = 0"

definition band_only :: "Band \<Rightarrow> Standing" where
  "band_only b = \<lparr>st_Band = b, st_Cents = 0, st_ShareCents = 0, st_Root = [], st_NewKey = False, st_Source = [], st_Reason = []\<rparr>"

definition shortCode :: "op \<Rightarrow> string \<Rightarrow> claimRow \<Rightarrow> string" where
  "shortCode p short c =
     (if short = ''quota_exhausted'' \<and> noShare p (c_Band c) then ''no_share''
      else if short \<noteq> ''quota_exhausted'' \<or> c_Granted c \<noteq> 0 then short
      else if \<not> eligible (o_r p) (o_rp p) (o_lv p) (band_only (c_Band c)) then short
      else ''global_quota_exhausted'')"

definition refusal :: "op \<Rightarrow> string \<Rightarrow> claimRow \<Rightarrow> lerr" where
  "refusal p short c =
     (let code = shortCode p short c in
      if code = ''no_share'' then
        Refuse ((err_code code)\<lparr>e_Resource := Some (o_r p),
          e_Band := (if \<not> noShare p (c_Band c) \<and> o_noShareLot p then o_noShareBand p else c_Band c)\<rparr>)
      else if code = ''global_quota_exhausted'' \<and> o_hourBound p
        then Refuse (Until code (NextHour (o_now p)) (o_now p))
      else refuseDay code (o_now p))"

text \<open>
  The loop of \<open>planSpend\<close>: the day's copy, the units so far, the flags it sets, and the parts in
  reverse. One step is one lot.
\<close>

record planst =
  ps_d :: dayState
  ps_got :: int
  ps_dry :: bool
  ps_hour :: bool
  ps_noLot :: bool
  ps_noBand :: Band
  ps_parts :: "part list"

definition free_room :: "op \<Rightarrow> dayState \<Rightarrow> int \<Rightarrow> int \<times> bool" where
  "free_room p d origin =
     (let can = drawable d (o_rp p) origin (o_now p) in
      if origin = originAnonymous then
        let (room, byHour) = anonRoom d (o_rp p) (o_lv p) (o_now p) in
        if room < can then (room, byHour) else (can, False)
      else (can, False))"

definition plan_lot :: "op \<Rightarrow> int \<Rightarrow> (lot \<Rightarrow> bool) \<Rightarrow> planst \<Rightarrow> lot \<Rightarrow> planst" where
  "plan_lot p units ok z x =
     (if ps_got z \<ge> units \<or> \<not> ok x then z
      else let tk = min (units - ps_got z) (spendable x) in
        if tk \<le> 0 then z
        else if l_Bucket x = Free then
          let (can, hourly) = free_room p (ps_d z) (l_Origin x);
              z1 = (if can < tk then
                      if can = 0 \<and> noShareOrigin p (l_Origin x)
                      then z\<lparr>ps_noLot := True, ps_noBand := (if l_Origin x = originAnonymous then BandAnonymous else BandSigned)\<rparr>
                      else z\<lparr>ps_dry := True, ps_hour := ps_hour z \<or> hourly\<rparr>
                    else z);
              tk' = min tk can
          in if tk' \<le> 0 then z1
             else z1\<lparr>ps_d := snd (draw (ps_d z) (o_rp p) (l_Origin x) tk' (o_now p)),
                     ps_parts := ps_parts z @ [\<lparr>p_Lot = x, p_Take = tk'\<rparr>], ps_got := ps_got z + tk'\<rparr>
        else z\<lparr>ps_parts := ps_parts z @ [\<lparr>p_Lot = x, p_Take = tk\<rparr>], ps_got := ps_got z + tk\<rparr>)"

definition plan0 :: "op \<Rightarrow> planst" where
  "plan0 p = \<lparr>ps_d = o_d p, ps_got = 0, ps_dry = False, ps_hour = False, ps_noLot = False,
     ps_noBand = o_noShareBand p, ps_parts = []\<rparr>"

definition planSpend :: "lot list \<Rightarrow> int \<Rightarrow> (lot \<Rightarrow> bool) \<Rightarrow> (string + part list \<times> dayState) LM" where
  "planSpend ls units ok =
     bindM (gets lop) (\<lambda>p.
     let z = foldl (plan_lot p units ok) (plan0 p) ls in
     thenM (modifyOp (\<lambda>q. q\<lparr>o_hourBound := ps_hour z, o_noShareLot := ps_noLot z, o_noShareBand := ps_noBand z\<rparr>))
       (ret (if ps_got z < units then
               Inl (if ps_dry z then ''global_quota_exhausted'' else if ps_noLot z then ''no_share'' else ''quota_exhausted'')
             else Inr (ps_parts z, ps_d z))))"

section \<open>Expiry of the subject's own lots\<close>

definition expireLot :: "Resource \<Rightarrow> string \<Rightarrow> int \<Rightarrow> Bucket \<Rightarrow> int \<Rightarrow> int \<Rightarrow> int \<Rightarrow> unit LM" where
  "expireLot r account i b amount version now =
     thenM (updateLots (\<lambda>x. l_ID x = i)
         (\<lambda>x. x\<lparr>l_Remaining := l_Held x, l_State := (if l_Held x = 0 then lot_expired else l_State x)\<rparr>))
       (journal ((entry0 (day_of now) now k_expire account r amount version)\<lparr>je_Bucket := Some b, je_LotID := i\<rparr>))"

definition due_lot :: "int \<Rightarrow> lot \<Rightarrow> bool" where
  "due_lot now x \<longleftrightarrow> l_State x = lot_live \<and> l_ExpiresAt x > 0 \<and> l_ExpiresAt x \<le> now \<and> l_Remaining x > l_Held x"

definition sweepOwn :: "string \<Rightarrow> unit LM" where
  "sweepOwn account =
     bindM (gets lop) (\<lambda>p.
     bindM (gets (\<lambda>s. take LotsPerAccount (filter (\<lambda>x. l_Account x = account \<and> l_Resource x = o_r p \<and> due_lot (o_now p) x) (lots s)))) (\<lambda>due.
     forM due (\<lambda>x. expireLot (o_r p) account (l_ID x) (l_Bucket x) (spendable x) (o_version p) (o_now p))))"

section \<open>Debits\<close>

definition clientSpend :: "Subject \<Rightarrow> claimRow \<Rightarrow> int \<Rightarrow> unit LM" where
  "clientSpend sb c units =
     bindM (gets lop) (\<lambda>p.
     if s_Client sb = [] \<or> rp_ClientSharePPM (o_rp p) \<ge> ppm then ret ()
     else let k = (o_r p, o_day p, s_ID sb, s_Client sb) in
       bindM (gets (\<lambda>s. case find (\<lambda>x. (cl_Resource x, cl_Day x, cl_Subject x, cl_Client x) = k) (client_spend s) of
           None \<Rightarrow> 0 | Some x \<Rightarrow> cl_Spent x)) (\<lambda>n.
       if n + units > mulDiv (c_Entitlement c) (rp_ClientSharePPM (o_rp p)) ppm
       then throw (refuseDay ''quota_exhausted'' (o_now p))
       else modifyM (\<lambda>s. s\<lparr>client_spend := upsert (\<lambda>x. (cl_Resource x, cl_Day x, cl_Subject x, cl_Client x) = k)
         (\<lambda>x. x\<lparr>cl_Spent := cl_Spent x + units\<rparr>)
         \<lparr>cl_Resource = o_r p, cl_Day = o_day p, cl_Subject = s_ID sb, cl_Client = s_Client sb, cl_Spent = units\<rparr>
         (client_spend s)\<rparr>)))"

text \<open>The day after a spend of \<open>units\<close> whose parts took \<open>np\<close> units that are not paid.\<close>

definition spend_day :: "dayState \<Rightarrow> int \<Rightarrow> int \<Rightarrow> dayState" where
  "spend_day d np units = d\<lparr>d_SpentNonpaid := d_SpentNonpaid d + np, d_SpentPaid := d_SpentPaid d + (units - np)\<rparr>"

definition debit_part :: "op \<Rightarrow> Subject \<Rightarrow> kind \<Rightarrow> Ref \<Rightarrow> part \<Rightarrow> unit LM" where
  "debit_part p sb k ref q =
     thenM (takeFrom (l_ID (p_Lot q)) (p_Take q) 0 0)
    (thenM (if k = k_spend then modifyOp (\<lambda>o'. o'\<lparr>o_spent := Some ((the (o_spent o'))
          (l_Bucket (p_Lot q) := the (o_spent o') (l_Bucket (p_Lot q)) + p_Take q))\<rparr>) else ret ())
     (journal ((op_entry p k (s_ID sb) (p_Take q))\<lparr>je_Bucket := Some (l_Bucket (p_Lot q)),
        je_LotID := l_ID (p_Lot q), je_Ref := ref\<rparr>)))"

text \<open>The writes of a debit, once its plan stands.\<close>

definition debit_write :: "op \<Rightarrow> Subject \<Rightarrow> claimRow \<Rightarrow> int \<Rightarrow> kind \<Rightarrow> Ref \<Rightarrow> part list \<Rightarrow> dayState \<Rightarrow> unit LM" where
  "debit_write p sb c units k ref parts d =
     thenM (if k \<noteq> k_fee then credentialCheck sb units else ret ())
    (thenM (clientSpend sb c units)
    (thenM (if k \<noteq> k_fee then credentialRecord sb units [] else ret ())
    (thenM (if k = k_spend then modifyOp (\<lambda>q. q\<lparr>o_spent := Some (\<lambda>_. 0)\<rparr>) else ret ())
    (thenM (forM parts (debit_part p sb k ref))
    (thenM (modifyOp (\<lambda>q. q\<lparr>o_d := spend_day d (nonpaid parts) units\<rparr>))
      (addUsage (o_r p) (o_day p) (s_ID sb) units 0 0))))))"

definition debit :: "Subject \<Rightarrow> claimRow \<Rightarrow> int \<Rightarrow> kind \<Rightarrow> Ref \<Rightarrow> unit LM" where
  "debit sb c units k ref =
     (if units = 0 then ret ()
      else bindM (gets lop) (\<lambda>p.
      bindM (liveLots (s_ID sb) (o_r p) (o_now p)) (\<lambda>ls.
      bindM (planSpend (capOwn (o_rp p) ls c) units (\<lambda>_. True)) (\<lambda>res. case res of
        Inl short \<Rightarrow> bindM (gets lop) (\<lambda>q. throw (refusal q short c))
      | Inr (parts, d) \<Rightarrow>
        if d_SpentNonpaid (o_d p) + nonpaid parts > rp_SpendCeiling (o_rp p)
        then throw (refuseDay ''global_quota_exhausted'' (o_now p))
        else debit_write p sb c units k ref parts d))))"

record Receipt =
  r_HoldID :: string
  r_Resource :: Resource
  r_Used :: int
  r_Refunded :: int
  r_ParamsVersion :: int
  r_ByBucket :: "(Bucket \<Rightarrow> int) option"

text \<open>
  How an operation ends: an error that is not a refusal is returned at once; otherwise the day is
  saved, then the result or the refusal is returned.
\<close>

definition finish :: "'a LM \<Rightarrow> (lerr + 'a \<Rightarrow> 'b LM) \<Rightarrow> 'b LM" where
  "finish m k = bindM (tryM m) (\<lambda>res.
     if (case res of Inl e \<Rightarrow> \<not> isRefusal e | Inr _ \<Rightarrow> False) then throw (projl res) else thenM save (k res))"

definition Spend :: "Config \<Rightarrow> Subject \<Rightarrow> Resource \<Rightarrow> int \<Rightarrow> Ref \<Rightarrow> int \<Rightarrow> Receipt LM" where
  "Spend cf sb r units ref now =
     (if units < 0 \<or> units > maxUnits then throw (refuse ''invalid_amount'')
      else if s_ID sb = [] then throw (Internal ''spend without a subject'')
      else
        thenM (open_op cf r now)
       (thenM (sweepOwn (s_ID sb))
       (bindM (claim cf sb) (\<lambda>c.
        finish (debit sb c units k_spend ref) (\<lambda>res.
          bindM (gets lop) (\<lambda>p. case res of
             Inl e \<Rightarrow> thenM (noteRefusal (o_day p) r e) (throw e)
           | Inr _ \<Rightarrow> ret \<lparr>r_HoldID = [], r_Resource = r, r_Used = units, r_Refunded = 0,
               r_ParamsVersion = o_version p, r_ByBucket = o_spent p\<rparr>))))))"

section \<open>Balance\<close>

record Balance =
  bal_Resource :: Resource
  bal_Standing :: Standing
  bal_Entitlement :: int
  bal_FloorPart :: int
  bal_StandingPart :: int
  bal_Used :: int
  bal_Incoming :: int
  bal_Outgoing :: int
  bal_Remaining :: int
  bal_ByBucket :: "Bucket \<Rightarrow> int"
  bal_ResetsAt :: int
  bal_ParamsVersion :: int
  bal_Prospective :: bool

definition by_bucket :: "lot list \<Rightarrow> Bucket \<Rightarrow> int" where
  "by_bucket ls b = (\<Sum>x\<leftarrow>ls. if l_Bucket x = b then spendable x else 0)"

definition Balance_of :: "Config \<Rightarrow> Subject \<Rightarrow> Resource \<Rightarrow> int \<Rightarrow> Balance LM" where
  "Balance_of cf sb r now =
     bindM (params cf now) (\<lambda>(p, version).
     bindM (resource p r) (\<lambda>rp.
     let day = day_of now in
     bindM (loadClaim r day (s_ID sb)) (\<lambda>c0.
     bindM (case c0 of
         Some c \<Rightarrow> bindM (tryM (classify cf sb now)) (\<lambda>res.
           let base = (band_only (c_Band c))\<lparr>st_Root := c_Root c, st_Source := c_Source c\<rparr>;
               st = (case res of Inr st \<Rightarrow> if st_Band st = c_Band c
                        then base\<lparr>st_Cents := st_Cents st, st_ShareCents := st_ShareCents st, st_Reason := st_Reason st\<rparr>
                        else base
                      | Inl _ \<Rightarrow> base);
               (fl, sd) = claim_parts c rp
           in ret (st, fl, sd))
       | None \<Rightarrow> bindM (classify cf sb now) (\<lambda>st.
           bindM (ProspectiveShare cf r st (s_ID sb) now) (\<lambda>sh. ret (st, sh_Floor sh, sh_Standing sh)))) (\<lambda>(st, fl, sd).
     bindM (liveLots (s_ID sb) r now) (\<lambda>ls0.
     let ls = (case c0 of Some c \<Rightarrow> capOwn rp ls0 c | None \<Rightarrow> ls0);
         ent = fl + sd; prosp = (c0 = None); extra = (if prosp \<and> ent > 0 then ent else 0) in
     bindM (loadUsage r day (s_ID sb)) (\<lambda>(us, inc, out).
     ret \<lparr>bal_Resource = r, bal_Standing = st, bal_Entitlement = ent, bal_FloorPart = fl, bal_StandingPart = sd,
          bal_Used = us, bal_Incoming = inc, bal_Outgoing = out,
          bal_Remaining = (\<Sum>x\<leftarrow>ls. spendable x) + extra,
          bal_ByBucket = (by_bucket ls)(Free := by_bucket ls Free + extra),
          bal_ResetsAt = (day + 1) * 86400, bal_ParamsVersion = version, bal_Prospective = prosp\<rparr>))))))"

section \<open>Minting\<close>

definition mint_lot :: "op \<Rightarrow> string \<Rightarrow> Bucket \<Rightarrow> int \<Rightarrow> lot" where
  "mint_lot p account b units =
     \<lparr>l_ID = 0, l_Account = account, l_Resource = o_r p, l_Bucket = b, l_Origin = originGrant,
      l_OriginAccount = account, l_Hops = 0, l_IssuedDay = o_day p, l_ExpiresAt = 0,
      l_HalfLife = (case b of Granted \<Rightarrow> ap_GrantedHalfLifeDays (o_p p) | Earned \<Rightarrow> ap_EarnedHalfLifeDays (o_p p) | _ \<Rightarrow> 0),
      l_DecayedDay = o_day p, l_Initial = units, l_Remaining = units, l_Held = 0, l_State = lot_live,
      l_CreatedAt = o_now p\<rparr>"

definition mint_kind :: "Bucket \<Rightarrow> kind" where
  "mint_kind b = (case b of Granted \<Rightarrow> k_grant | Earned \<Rightarrow> k_earn | _ \<Rightarrow> k_topup)"

text \<open>The credit, or with \<open>force\<close> a lot of its own when the account has no lot slot left.\<close>

definition mint_credit :: "Resource \<Rightarrow> lot \<Rightarrow> bool \<Rightarrow> int \<Rightarrow> int LM" where
  "mint_credit r x force now =
     bindM (tryM (creditLot r x now)) (\<lambda>res. case res of
         Inl e \<Rightarrow> (case e of
             Refuse a \<Rightarrow> if force \<and> e_Code a = ''recipient_limit'' then insertLot r x now else throw e
           | _ \<Rightarrow> throw e)
       | Inr i \<Rightarrow> ret i)"

definition mint_draws :: "Bucket \<Rightarrow> bool" where
  "mint_draws b \<longleftrightarrow> b = Granted \<or> b = Earned"

definition mint_body :: "op \<Rightarrow> string \<Rightarrow> Resource \<Rightarrow> Bucket \<Rightarrow> int \<Rightarrow> string \<Rightarrow> Ref \<Rightarrow> bool \<Rightarrow> string \<Rightarrow> int \<Rightarrow> int LM" where
  "mint_body p account r b units reason ref force hold now =
     (if mint_draws b \<and> avail (d_Grant (o_d p)) < units then thenM save (throw (refuse ''global_quota_exhausted''))
      else
        thenM (if mint_draws b then modifyOp (\<lambda>q. q\<lparr>o_d := setSlice sliceGrant (\<lambda>w. w\<lparr>Claimed := Claimed w + units\<rparr>) (o_d q)\<rparr>) else ret ())
       (bindM (mint_credit r (mint_lot p account b units) force now) (\<lambda>i.
        thenM (journal ((op_entry p (mint_kind b) account units)\<lparr>je_Bucket := Some b, je_LotID := i,
            je_Detail := reason, je_Ref := ref, je_HoldID := hold\<rparr>))
       (thenM save (ret i)))))"

definition mint :: "Config \<Rightarrow> string \<Rightarrow> Resource \<Rightarrow> Bucket \<Rightarrow> int \<Rightarrow> string \<Rightarrow> Ref \<Rightarrow> bool \<Rightarrow> string \<Rightarrow> int \<Rightarrow> int LM" where
  "mint cf account r b units reason ref force hold now =
     (if units \<le> 0 \<or> units > maxUnits \<or> b \<notin> {Granted, Earned, Paid} then throw (refuse ''invalid_amount'')
      else if account = [] \<or> reason = [] \<or> length reason > 512 then throw (Internal ''mint needs an account and a public reason'')
      else thenM (open_op cf r now) (bindM (gets lop) (\<lambda>p. mint_body p account r b units reason ref force hold now)))"

definition MintRef :: "Config \<Rightarrow> string \<Rightarrow> Resource \<Rightarrow> Bucket \<Rightarrow> int \<Rightarrow> string \<Rightarrow> Ref \<Rightarrow> int \<Rightarrow> unit LM" where
  "MintRef cf account r b units reason ref now =
     thenM (mint cf account r b units reason ref False [] now) (ret ())"

definition Mint :: "Config \<Rightarrow> string \<Rightarrow> Resource \<Rightarrow> Bucket \<Rightarrow> int \<Rightarrow> string \<Rightarrow> int \<Rightarrow> unit LM" where
  "Mint cf account r b units reason now = MintRef cf account r b units reason Ref0 now"

definition TopUp :: "Config \<Rightarrow> string \<Rightarrow> Resource \<Rightarrow> int \<Rightarrow> string \<Rightarrow> Ref \<Rightarrow> int \<Rightarrow> int LM" where
  "TopUp cf account r units reason ref now = mint cf account r Paid units reason ref True [] now"

end
