(* ===== verification/Holds.thy ===== *)
theory Holds
  imports Spend
begin

text \<open>
  Metering for remote and asynchronous calls (\<open>internal/ledger/holds.go\<close>): reserving units, settling a
  hold by commit, refund or lapse, and reimbursing a settled one.
\<close>

definition ledgerService :: string where "ledgerService = ''ledger''"

definition escrowMethod :: string where "escrowMethod = ''escrow''"

record Hold =
  hd_ID :: string
  hd_Account :: string
  hd_Resource :: Resource
  hd_Max :: int
  hd_ExpiresAt :: int
  hd_State :: hold_state

definition hold_of_row :: "holdRow \<Rightarrow> Hold" where
  "hold_of_row h = \<lparr>hd_ID = h_ID h, hd_Account = h_Account h, hd_Resource = h_Resource h, hd_Max = h_Max h,
     hd_ExpiresAt = h_ExpiresAt h, hd_State = h_State h\<rparr>"

definition hold_at :: "led \<Rightarrow> string \<Rightarrow> holdRow option" where
  "hold_at s i = find (\<lambda>h. h_ID h = i) (holds s)"

definition loadHoldRow :: "string \<Rightarrow> holdRow option LM" where
  "loadHoldRow i = gets (\<lambda>s. hold_at s i)"

definition loadHold :: "string \<Rightarrow> Hold option LM" where
  "loadHold i = bindM (loadHoldRow i) (\<lambda>h. ret (map_option hold_of_row h))"

definition GetHold :: "string \<Rightarrow> Hold option LM" where
  "GetHold i = loadHold i"

text \<open>A hold part joined with its lot.\<close>

record holdPart =
  q_LotID :: int
  q_Units :: int
  q_ExpiresAt :: int
  q_Origin :: int
  q_Bucket :: Bucket

definition joined_parts :: "led \<Rightarrow> string \<Rightarrow> (partRow \<times> lot) list" where
  "joined_parts s i = sort_key (\<lambda>(_, x). spendOrder x)
     (concat (map (\<lambda>p. map (Pair p) (filter (\<lambda>x. l_ID x = hp_Lot p) (lots s)))
        (filter (\<lambda>p. hp_Hold p = i) (hold_parts s))))"

definition part_of_row :: "partRow \<times> lot \<Rightarrow> holdPart" where
  "part_of_row = (\<lambda>(p, x). \<lparr>q_LotID = hp_Lot p, q_Units = hp_Units p, q_ExpiresAt = l_ExpiresAt x,
     q_Origin = l_Origin x, q_Bucket = l_Bucket x\<rparr>)"

definition loadHoldParts :: "string \<Rightarrow> holdPart list LM" where
  "loadHoldParts i =
     bindM (gets (\<lambda>s. map part_of_row (take (liveLotsMax + 1) (joined_parts s i)))) (\<lambda>out.
       if length out > liveLotsMax then throw (Internal ''hold has too many parts'') else ret out)"

section \<open>Reserve\<close>

definition hold_part :: "op \<Rightarrow> string \<Rightarrow> string \<Rightarrow> Ref \<Rightarrow> part \<Rightarrow> unit LM" where
  "hold_part p account i ref q =
     thenM (holdOf (l_ID (p_Lot q)) (p_Take q))
    (thenM (insertPart \<lparr>hp_Hold = i, hp_Lot = l_ID (p_Lot q), hp_Units = p_Take q\<rparr>)
     (journal ((op_entry p k_reserve account (p_Take q))\<lparr>je_Bucket := Some (l_Bucket (p_Lot q)),
        je_LotID := l_ID (p_Lot q), je_HoldID := i, je_Ref := ref\<rparr>)))"

definition holdParts :: "op \<Rightarrow> string \<Rightarrow> string \<Rightarrow> part list \<Rightarrow> Ref \<Rightarrow> unit LM" where
  "holdParts p account i parts ref = forM parts (hold_part p account i ref)"

definition hold_row :: "Hold \<Rightarrow> op \<Rightarrow> string \<Rightarrow> string \<Rightarrow> string \<Rightarrow> holdRow" where
  "hold_row h p requestKey service method =
     \<lparr>h_ID = hd_ID h, h_Account = hd_Account h, h_Resource = o_r p, h_Max = hd_Max h, h_Used = 0, h_State = h_held,
      h_RequestKey = requestKey, h_Service = service, h_Method = method, h_CreatedAt = o_now p,
      h_ExpiresAt = hd_ExpiresAt h\<rparr>"

definition hold_write :: "op \<Rightarrow> Subject \<Rightarrow> claimRow \<Rightarrow> Hold \<Rightarrow> string \<Rightarrow> Ref \<Rightarrow> part list \<Rightarrow> dayState \<Rightarrow> unit LM" where
  "hold_write p sb c h requestKey ref parts d =
     thenM (credentialCheck sb (hd_Max h))
    (thenM (clientSpend sb c (hd_Max h))
    (thenM (credentialRecord sb (hd_Max h) (hd_ID h))
    (thenM (insertHold (hold_row h p requestKey (ref_Service ref) (ref_Method ref)))
    (thenM (holdParts p (s_ID sb) (hd_ID h) parts ref)
    (thenM (modifyOp (\<lambda>q. q\<lparr>o_d := spend_day d (nonpaid parts) (hd_Max h)\<rparr>))
      (addUsage (o_r p) (o_day p) (s_ID sb) (hd_Max h) 0 0))))))"

definition hold :: "Subject \<Rightarrow> claimRow \<Rightarrow> Hold \<Rightarrow> string \<Rightarrow> Ref \<Rightarrow> unit LM" where
  "hold sb c h requestKey ref =
     bindM (gets lop) (\<lambda>p.
     bindM (liveLots (s_ID sb) (o_r p) (o_now p)) (\<lambda>ls.
     bindM (planSpend (capOwn (o_rp p) ls c) (hd_Max h) (\<lambda>_. True)) (\<lambda>res. case res of
       Inl short \<Rightarrow> bindM (gets lop) (\<lambda>q. throw (refusal q short c))
     | Inr (parts, d) \<Rightarrow>
       if d_SpentNonpaid (o_d p) + nonpaid parts > rp_SpendCeiling (o_rp p)
       then throw (refuseDay ''global_quota_exhausted'' (o_now p))
       else hold_write p sb c h requestKey ref parts d)))"

definition open_holds :: "led \<Rightarrow> (holdRow \<Rightarrow> bool) \<Rightarrow> nat" where
  "open_holds s P = length (filter (\<lambda>h. h_State h = h_held \<and> P h) (holds s))"

definition hold_limit_hit :: "Config \<Rightarrow> string \<Rightarrow> string \<Rightarrow> led \<Rightarrow> bool" where
  "hold_limit_hit cf account service s \<longleftrightarrow>
     (if service \<in> set (cf_Deposits cf)
      then open_holds s (\<lambda>h. h_Account h = account \<and> h_Service h = service) \<ge> DepositHoldsPerAccount
      else open_holds s (\<lambda>h. h_Service h \<notin> set (ledgerService # cf_Deposits cf)) \<ge> HoldsTotal
         \<or> open_holds s (\<lambda>h. h_Service h \<notin> set (ledgerService # cf_Deposits cf) \<and> h_Account h = account) \<ge> HoldsPerAccount)"

text \<open>
  \<open>Reserve\<close> may return a hold with an error (the hold of an earlier call with the same key); the
  model keeps the error, which is all the callers act on.
\<close>

definition Reserve :: "Config \<Rightarrow> Subject \<Rightarrow> Resource \<Rightarrow> int \<Rightarrow> string \<Rightarrow> Ref \<Rightarrow> int \<Rightarrow> int \<Rightarrow> Hold LM" where
  "Reserve cf sb r mx requestKey ref ttl now =
     (if mx \<le> 0 \<or> mx > maxUnits then throw (refuse ''invalid_amount'')
      else if s_ID sb = [] \<or> requestKey = [] \<or> length requestKey > 256 \<or> ttl < 1 \<or> ttl > 86400
           \<or> ref_Service ref = ledgerService
        then throw (Internal ''reserve needs a subject, a request key, a ttl and a service'')
      else let i = holdID cf (s_ID sb) requestKey in
        bindM (loadHold i) (\<lambda>h0. case h0 of
          Some h \<Rightarrow> if hd_State h = h_held
            then throw (Refuse ((err_code ''request_in_flight'')\<lparr>e_RetryAfter := clamp (hd_ExpiresAt h - now) 1 86400\<rparr>))
            else throw (refuse ''hold_not_held'')
        | None \<Rightarrow>
          bindM (gets (hold_limit_hit cf (s_ID sb) (ref_Service ref))) (\<lambda>over.
          if over then throw (refuse ''hold_limit'')
          else
            thenM (open_op cf r now)
           (thenM (sweepOwn (s_ID sb))
           (bindM (claim cf sb) (\<lambda>c.
            let h = \<lparr>hd_ID = i, hd_Account = s_ID sb, hd_Resource = r, hd_Max = mx, hd_ExpiresAt = now + ttl, hd_State = h_held\<rparr> in
            finish (hold sb c h requestKey ref) (\<lambda>res.
              bindM (gets lop) (\<lambda>p. case res of
                 Inl e \<Rightarrow> thenM (noteRefusal (o_day p) r e) (throw e)
               | Inr _ \<Rightarrow> ret h))))))))"

section \<open>Settling\<close>

text \<open>What the loop of \<open>settle\<close> accumulates; the array \<open>backFree [5]int64\<close> is a function.\<close>

record settled =
  z_left :: int
  z_byBucket :: "Bucket \<Rightarrow> int"
  z_backNonpaid :: int
  z_backPaid :: int
  z_backFree :: "int \<Rightarrow> int"

definition settled0 :: "int \<Rightarrow> settled" where
  "settled0 n = \<lparr>z_left = n, z_byBucket = (\<lambda>_. 0), z_backNonpaid = 0, z_backPaid = 0, z_backFree = (\<lambda>_. 0)\<rparr>"

definition journal_nz :: "entry \<Rightarrow> unit LM" where
  "journal_nz e = (if je_Amount e = 0 then ret () else journal e)"

definition settle_part :: "holdRow \<Rightarrow> string \<Rightarrow> int \<Rightarrow> int \<Rightarrow> settled \<Rightarrow> holdPart \<Rightarrow> settled LM" where
  "settle_part h detail version now z p =
     (let tk = min (q_Units p) (z_left z);
          bk = q_Units p - tk;
          lost = (if q_ExpiresAt p \<noteq> 0 \<and> q_ExpiresAt p \<le> now then bk else 0);
          line = (\<lambda>k amount. (entry0 (day_of now) now k (h_Account h) (h_Resource h) amount version)
             \<lparr>je_Bucket := Some (q_Bucket p), je_LotID := q_LotID p, je_HoldID := h_ID h,
              je_Ref := Ref0\<lparr>ref_Service := h_Service h, ref_Method := h_Method h\<rparr>, je_Detail := detail\<rparr>)
      in thenM (takeFrom (q_LotID p) tk (q_Units p) lost)
        (thenM (journal_nz (line k_commit tk))
        (thenM (journal_nz (line k_refund (bk - lost)))
        (thenM (journal_nz (line k_expire lost))
        (ret \<lparr>z_left = z_left z - tk,
              z_byBucket = (if tk > 0 then (z_byBucket z)(q_Bucket p := z_byBucket z (q_Bucket p) + tk) else z_byBucket z),
              z_backNonpaid = (if q_Bucket p = Paid then z_backNonpaid z else z_backNonpaid z + bk),
              z_backPaid = (if q_Bucket p = Paid then z_backPaid z + bk else z_backPaid z),
              z_backFree = (if q_Bucket p = Free \<and> 1 \<le> q_Origin p \<and> q_Origin p \<le> 4
                 then (z_backFree z)(q_Origin p := z_backFree z (q_Origin p) + bk) else z_backFree z)\<rparr>)))))"

definition undrawDay :: "Resource \<Rightarrow> int \<Rightarrow> (int \<Rightarrow> int) \<Rightarrow> unit LM" where
  "undrawDay r day bk =
     (if \<forall>i\<in>set [0, 1, 2, 3, 4]. bk i = 0 then ret ()
      else bindM (loadDay r day) (\<lambda>d. case d of
          None \<Rightarrow> ret ()
        | Some d \<Rightarrow> thenM (saveDay (foldl (\<lambda>d i. undraw d i (bk i)) d [1, 2, 3, 4]) d) (ret ())))"

text \<open>
  On a hold that is settled already the code returns, beside the refusal, a receipt of how it ended
  (as \<open>CancelTransfer\<close> returns the transfer); a result of the model is a value or an error, so the
  model keeps the refusal.
\<close>

text \<open>What \<open>settle\<close> writes after its loop: the day the hold was made gets its units back, the row is closed.\<close>

definition settle_write :: "string \<Rightarrow> int \<Rightarrow> hold_state \<Rightarrow> holdRow \<Rightarrow> int \<Rightarrow> settled \<Rightarrow> Receipt LM" where
  "settle_write i us final h version z =
     (let made = day_of (h_CreatedAt h); bk = z_backNonpaid z + z_backPaid z in
      thenM (undrawDay (h_Resource h) made (z_backFree z))
     (thenM (if bk > 0 then
          thenM (modifyM (\<lambda>s. s\<lparr>days := upd (\<lambda>w. (dr_Resource w, dr_Day w) = (h_Resource h, made))
              (\<lambda>w. w\<lparr>dr_SpentNonpaid := dr_SpentNonpaid w - z_backNonpaid z, dr_SpentPaid := dr_SpentPaid w - z_backPaid z\<rparr>) (days s)\<rparr>))
         (thenM (addUsage (h_Resource h) made (h_Account h) (- bk) 0 0)
          (credentialRelease i bk))
        else ret ())
     (thenM (updateHold i (\<lambda>x. x\<lparr>h_State := final, h_Used := us\<rparr>))
      (ret \<lparr>r_HoldID = i, r_Resource = h_Resource h, r_Used = us, r_Refunded = h_Max h - us,
            r_ParamsVersion = version, r_ByBucket = Some (z_byBucket z)\<rparr>))))"

definition settle :: "Config \<Rightarrow> string \<Rightarrow> int \<Rightarrow> hold_state \<Rightarrow> string \<Rightarrow> int \<Rightarrow> Receipt LM" where
  "settle cf i us final detail now =
     bindM (loadHoldRow i) (\<lambda>h0. case h0 of
       None \<Rightarrow> throw (NotFound i)
     | Some h \<Rightarrow>
       if h_State h \<noteq> h_held then throw (refuse ''hold_not_held'')
       else if h_Service h = ledgerService then throw (Internal ''a transfer's hold is settled by the transfer'')
       else if us < 0 \<or> us > h_Max h then throw (refuse ''invalid_amount'')
       else
         bindM (params cf now) (\<lambda>(_, version).
         bindM (loadHoldParts i) (\<lambda>parts.
         bindM (foldM (settle_part h detail version now) (settled0 us) parts)
           (settle_write i us final h version))))"

definition Commit :: "Config \<Rightarrow> string \<Rightarrow> int \<Rightarrow> int \<Rightarrow> Receipt LM" where
  "Commit cf i us now = settle cf i us h_committed [] now"

definition Refund :: "Config \<Rightarrow> string \<Rightarrow> string \<Rightarrow> int \<Rightarrow> unit LM" where
  "Refund cf i reason now = thenM (settle cf i 0 h_refunded reason now) (ret ())"

section \<open>Reimbursing\<close>

definition ReimburseOp :: string where "ReimburseOp = ''reimburse''"

fun take_buckets :: "int \<Rightarrow> holdPart list \<Rightarrow> (Bucket \<Rightarrow> int) \<Rightarrow> Bucket \<Rightarrow> int" where
  "take_buckets left [] out = out"
| "take_buckets left (p # ps) out =
     (let tk = min (q_Units p) left in
      take_buckets (left - tk) ps (if tk > 0 then out(q_Bucket p := out (q_Bucket p) + tk) else out))"

definition HoldSpent :: "string \<Rightarrow> (Bucket \<Rightarrow> int) option LM" where
  "HoldSpent i =
     bindM (loadHoldRow i) (\<lambda>h0. case h0 of
       None \<Rightarrow> ret None
     | Some h \<Rightarrow> if h_State h \<noteq> h_committed \<and> h_State h \<noteq> h_expired then ret None
       else bindM (loadHoldParts i) (\<lambda>parts. ret (Some (take_buckets (h_Used h) parts (\<lambda>_. 0)))))"

definition back_buckets :: "(Bucket \<Rightarrow> int) \<Rightarrow> Bucket \<Rightarrow> int" where
  "back_buckets sp b = (case b of Paid \<Rightarrow> sp Paid | Earned \<Rightarrow> sp Earned | Granted \<Rightarrow> sp Granted + sp Free | Free \<Rightarrow> 0)"

definition Reimburse :: "Config \<Rightarrow> string \<Rightarrow> string \<Rightarrow> int \<Rightarrow> int LM" where
  "Reimburse cf i reason now =
     bindM (loadHoldRow i) (\<lambda>h0. case h0 of
       None \<Rightarrow> throw (NotFound i)
     | Some h \<Rightarrow>
       if h_Service h = ledgerService then throw (Internal ''a transfer's hold is settled by the transfer'')
       else if reason = [] \<or> length reason > 512 then throw (Internal ''reimburse needs a public reason'')
       else bindM (gets (\<lambda>s. list_ex (\<lambda>e. je_Account e = h_Account h \<and> je_HoldID e = i
             \<and> je_Kind e \<in> {k_grant, k_earn, k_topup} \<and> ref_Op (je_Ref e) = ReimburseOp) (entries s))) (\<lambda>done.
         if done then ret 0
         else bindM (HoldSpent i) (\<lambda>sp0. case sp0 of
             None \<Rightarrow> ret 0
           | Some sp \<Rightarrow> foldM (\<lambda>total b. let n = back_buckets sp b in
               if n > 0 then thenM (mint cf (h_Account h) (h_Resource h) b n reason
                   (Ref0\<lparr>ref_Service := h_Service h, ref_Op := ReimburseOp\<rparr>) True i now) (ret (total + n))
               else ret total) 0 [Granted, Earned, Paid])))"

end
