(* ===== verification/Transfers.thy ===== *)
theory Transfers
  imports Holds
begin

text \<open>
  Transfers (\<open>internal/ledger/transfers.go\<close>): moving units between accounts at once, or, with an active
  breaker, as a pending transfer that holds them until it executes or is cancelled.
\<close>

record Transfer =
  tr_ID :: string
  tr_From :: string
  tr_To :: string
  tr_Resource :: Resource
  tr_Amount :: int
  tr_Fee :: int
  tr_State :: transfer_state
  tr_CreatedAt :: int
  tr_ExecuteAt :: int
  tr_ExpiresAt :: int
  tr_ByBucket :: "Bucket \<Rightarrow> int"

section \<open>The spike breaker\<close>

text \<open>
  Plain transfers per day over the last 30 days: a payout (a transfer whose hold is an escrow) is
  left out. \<open>GROUP BY\<close> day with \<open>LIMIT 31\<close> and \<open>created_at >= (day-30)*86400\<close> reads one count per day.
\<close>

definition is_payout :: "led \<Rightarrow> transferRow \<Rightarrow> bool" where
  "is_payout s t \<longleftrightarrow> list_ex (\<lambda>h. h_ID h = t_HoldID t \<and> h_Service h = ledgerService \<and> h_Method h = escrowMethod) (holds s)"

definition plain_count :: "led \<Rightarrow> string \<Rightarrow> int \<Rightarrow> int \<Rightarrow> int" where
  "plain_count s account day d = int (length (filter (\<lambda>t. t_From t = account \<and> t_CreatedAt t \<ge> (day - 30) * 86400
     \<and> day_of (t_CreatedAt t) = d \<and> \<not> is_payout s t) (transfers s)))"

definition spike :: "AllowanceParams \<Rightarrow> string \<Rightarrow> int \<Rightarrow> int \<Rightarrow> unit LM" where
  "spike p account day now =
     bindM (gets (\<lambda>s. (plain_count s account day day, sort (map (\<lambda>i. plain_count s account day (day - 1 - i)) (map int [0..<30]))))) (\<lambda>(today, counts).
     let median = (counts ! 14 + counts ! 15) sdiv 2 in
     if today + 1 > max (ap_SpikeX p * median) (ap_SpikeFloor p)
     then tripBreaker p account ''spike'' [] now else ret ())"

definition transferable :: "AllowanceParams \<Rightarrow> lot \<Rightarrow> bool" where
  "transferable p x = (case l_Bucket x of Free \<Rightarrow> ap_TransferableFree p | Paid \<Rightarrow> ap_PaidTransferable p | _ \<Rightarrow> True)"

section \<open>Pending limit\<close>

definition approxDuration :: "int \<Rightarrow> string" where
  "approxDuration seconds = (if seconds \<ge> 3600 then itoa ((seconds + 1800) sdiv 3600) @ '' h''
     else itoa (max ((seconds + 59) sdiv 60) 1) @ '' min'')"

definition pendingLimit :: "op \<Rightarrow> string \<Rightarrow> unit LM" where
  "pendingLimit p account =
     bindM (gets (\<lambda>s. filter (\<lambda>t. t_From t = account \<and> t_State t = t_pending
         \<and> t_CreatedAt t \<ge> o_now p - ap_TransferDelay (o_p p) - 86400
         \<and> list_ex (\<lambda>h. h_ID h = t_HoldID t \<and> h_Method h \<noteq> escrowMethod) (holds s)) (transfers s))) (\<lambda>ts.
     if length ts < TransfersPendingMax then ret ()
     else let nxt = Min (set (map t_ExecuteAt ts)); wait = max (nxt - o_now p) 60 in
       throw (Refuse ((err_code ''hold_limit'')\<lparr>e_RetryAfter := wait, e_NextOpenAt := o_now p + wait,
         e_Message := ''You have '' @ itoa (int (length ts)) @ '' transfers pending, the most at once (transfers_pending); while your account-change breaker is on, each waits ''
           @ approxDuration (ap_TransferDelay (o_p p)) @ ''. The next executes in about '' @ approxDuration wait
           @ '' (retry_after); retry then, or cancel one with allowance.transfer.cancel.''\<rparr>)))"

section \<open>Moving units\<close>

definition moved_lot :: "string \<Rightarrow> part \<Rightarrow> lot" where
  "moved_lot to p = (p_Lot p)\<lparr>l_Account := to, l_Hops := l_Hops (p_Lot p) + 1, l_Initial := p_Take p,
     l_Remaining := p_Take p, l_Held := 0\<rparr>"

definition move_part :: "Resource \<Rightarrow> int \<Rightarrow> string \<Rightarrow> string \<Rightarrow> string \<Rightarrow> bool \<Rightarrow> string \<Rightarrow> int
    \<Rightarrow> int \<times> (Bucket \<Rightarrow> int) \<Rightarrow> part \<Rightarrow> (int \<times> (Bucket \<Rightarrow> int)) LM" where
  "move_part r version from to i was_held opn now = (\<lambda>(moved, byBucket) p.
     let x = p_Lot p; tk = p_Take p; released = (if was_held then tk else 0);
         ref = Ref0\<lparr>ref_Service := ledgerService, ref_Op := opn, ref_PublicRef := i\<rparr>;
         line = (\<lambda>k account counter lot_id. (entry0 (day_of now) now k account r tk version)
            \<lparr>je_Counter := counter, je_Bucket := Some (l_Bucket x), je_LotID := lot_id, je_Ref := ref\<rparr>)
     in if l_ExpiresAt x \<noteq> 0 \<and> l_ExpiresAt x \<le> now then
          thenM (takeFrom (l_ID x) 0 released tk)
         (thenM (journal (line k_expire from [] (l_ID x)))
          (ret (moved, byBucket)))
        else
          thenM (takeFrom (l_ID x) tk released 0)
         (bindM (creditLot r (moved_lot to p) now) (\<lambda>lot_id.
          thenM (journal (line k_transfer_out from to (l_ID x)))
         (thenM (journal (line k_transfer_in to from lot_id))
          (ret (moved + tk, byBucket(l_Bucket x := byBucket (l_Bucket x) + tk)))))))"

definition moveParts :: "Resource \<Rightarrow> int \<Rightarrow> string \<Rightarrow> string \<Rightarrow> string \<Rightarrow> part list \<Rightarrow> bool \<Rightarrow> string \<Rightarrow> int
    \<Rightarrow> (int \<times> (Bucket \<Rightarrow> int)) LM" where
  "moveParts r version from to i parts was_held opn now =
     foldM (move_part r version from to i was_held opn now) (0, \<lambda>_. 0) parts"

definition heldParts :: "holdPart list \<Rightarrow> part list LM" where
  "heldParts hp = foldM (\<lambda>ps p. bindM (gets (\<lambda>s. find (\<lambda>x. l_ID x = q_LotID p) (lots s))) (\<lambda>x0. case x0 of
       None \<Rightarrow> throw (Internal ''lot of a transfer'')
     | Some x \<Rightarrow> ret (ps @ [\<lparr>p_Lot = x, p_Take = q_Units p\<rparr>]))) [] hp"

section \<open>Reading a transfer\<close>

definition transfer_at :: "led \<Rightarrow> string \<Rightarrow> transferRow option" where
  "transfer_at s i = find (\<lambda>t. t_ID t = i) (transfers s)"

definition transfer_of_row :: "led \<Rightarrow> transferRow \<Rightarrow> Transfer" where
  "transfer_of_row s t =
     (let day = (if t_State t = t_done then day_of (t_DoneAt t) else day_of (t_CreatedAt t));
          k = (if t_State t = t_done then k_transfer_out else k_reserve);
          es = filter (\<lambda>e. je_Day e = day \<and> je_Kind e = k \<and> ref_PublicRef (je_Ref e) = t_ID t \<and> je_Account e = t_From t) (entries s)
      in \<lparr>tr_ID = t_ID t, tr_From = t_From t, tr_To = t_To t, tr_Resource = t_Resource t, tr_Amount = t_Amount t,
          tr_Fee = t_Fee t, tr_State = t_State t, tr_CreatedAt = t_CreatedAt t, tr_ExecuteAt = t_ExecuteAt t,
          tr_ExpiresAt = 0, tr_ByBucket = (\<lambda>b. \<Sum>e\<leftarrow>es. if je_Bucket e = Some b then je_Amount e else 0)\<rparr>)"

definition loadTransfer :: "string \<Rightarrow> Transfer option LM" where
  "loadTransfer i = gets (\<lambda>s. map_option (transfer_of_row s) (transfer_at s i))"

definition GetTransfer :: "string \<Rightarrow> Transfer LM" where
  "GetTransfer i = bindM (loadTransfer i) (\<lambda>t. case t of None \<Rightarrow> throw (refuse ''transfer_not_found'') | Some t \<Rightarrow> ret t)"

text \<open>\<open>SELECT hold_id FROM ledger_transfers WHERE id=?\<close>, \<open>sql.ErrNoRows\<close> when there is none.\<close>

definition transferHold :: "string \<Rightarrow> string LM" where
  "transferHold i = bindM (gets (\<lambda>s. transfer_at s i)) (\<lambda>t. case t of None \<Rightarrow> throw (Internal ''sql: no rows'') | Some t \<Rightarrow> ret (t_HoldID t))"

section \<open>Transfer\<close>

text \<open>The bucket mix and the earliest expiry of a plan's parts.\<close>

definition parts_buckets :: "part list \<Rightarrow> Bucket \<Rightarrow> int" where
  "parts_buckets ps b = (\<Sum>p\<leftarrow>ps. if l_Bucket (p_Lot p) = b then p_Take p else 0)"

definition earlier :: "int \<Rightarrow> int \<Rightarrow> int" where
  "earlier a e = (if e \<noteq> 0 \<and> (a = 0 \<or> e < a) then e else a)"

text \<open>What \<open>transfer\<close> writes once the parts are planned and the breaker is known.\<close>

definition transfer_write :: "Config \<Rightarrow> op \<Rightarrow> Subject \<Rightarrow> string \<Rightarrow> int \<Rightarrow> string \<Rightarrow> string \<Rightarrow> part list \<Rightarrow> bool \<Rightarrow> Transfer LM" where
  "transfer_write cf p0 from to amount i requestKey parts pend =
     (let ref = Ref0\<lparr>ref_Service := ledgerService, ref_Op := ''allowance.transfer'', ref_PublicRef := i\<rparr>;
          fee = rp_TransferFee (o_rp p0); now = o_now p0;
          exec = (if pend then now + ap_TransferDelay (o_p p0) else now);
          hold_id = (if pend then holdID cf (s_ID from) (''transfer:'' @ requestKey) else []);
          t = \<lparr>tr_ID = i, tr_From = s_ID from, tr_To = to, tr_Resource = o_r p0, tr_Amount = amount, tr_Fee = fee,
               tr_State = (if pend then t_pending else t_done), tr_CreatedAt = now, tr_ExecuteAt = exec,
               tr_ExpiresAt = foldl earlier 0 (map (\<lambda>q. l_ExpiresAt (p_Lot q)) parts), tr_ByBucket = parts_buckets parts\<rparr> in
      thenM (if pend then
          thenM (pendingLimit p0 (s_ID from))
         (thenM (insertHold \<lparr>h_ID = hold_id, h_Account = s_ID from, h_Resource = o_r p0, h_Max = amount, h_Used = 0,
             h_State = h_held, h_RequestKey = ''transfer:'' @ requestKey, h_Service = ledgerService,
             h_Method = ''transfer'', h_CreatedAt = now, h_ExpiresAt = exec\<rparr>)
           (holdParts p0 (s_ID from) hold_id parts ref))
        else thenM (moveParts (o_r p0) (o_version p0) (s_ID from) to i parts False ''allowance.transfer'' now) (ret ()))
     (thenM (insertTransfer \<lparr>t_ID = i, t_From = s_ID from, t_To = to, t_Resource = o_r p0, t_Amount = amount,
         t_Fee = fee, t_HoldID = hold_id, t_State = tr_State t, t_CreatedAt = now, t_ExecuteAt = exec,
         t_DoneAt = (if pend then 0 else now), t_CancelledBy = []\<rparr>)
     (thenM (addUsage (o_r p0) (o_day p0) (s_ID from) 0 0 amount)
     (thenM (credentialRecord from fee [])
     (thenM (credentialRecord from amount hold_id)
     (thenM (addUsage (o_r p0) (o_day p0) to 0 amount 0)
      (ret t)))))))"

definition transfer :: "Config \<Rightarrow> Subject \<Rightarrow> string \<Rightarrow> int \<Rightarrow> string \<Rightarrow> string \<Rightarrow> Transfer LM" where
  "transfer cf from to amount i requestKey =
     bindM (gets lop) (\<lambda>p0.
     thenM (sweepOwn (s_ID from))
    (bindM (claim cf from) (\<lambda>c.
     let ref = Ref0\<lparr>ref_Service := ledgerService, ref_Op := ''allowance.transfer'', ref_PublicRef := i\<rparr>;
         fee = rp_TransferFee (o_rp p0); now = o_now p0 in
     thenM (credentialCheck from (amount + fee))
    (thenM (debit from c fee k_fee ref)
    (bindM (liveLots (s_ID from) (o_r p0) now) (\<lambda>ls0.
     let ls = capOwn (o_rp p0) ls0 c; (parts, got) = plan ls amount (transferable (o_p p0)) in
     if got < amount then
       if snd (plan ls amount (\<lambda>_. True)) \<ge> amount then throw (refuse ''not_transferable'')
       else throw (refuseDay ''quota_exhausted'' now)
     else
     bindM (loadUsage (o_r p0) (o_day p0) to) (\<lambda>(_, inc, _).
     if inc + amount > rp_InboundCap (o_rp p0) then throw (refuseDay ''recipient_limit'' now)
     else
     thenM (spike (o_p p0) (s_ID from) (o_day p0) now)
    (bindM (transferBreaker (s_ID from) now) (transfer_write cf p0 from to amount i requestKey parts)))))))))"

text \<open>
  \<open>Transfer\<close> saves the day whether or not the transfer was refused, then returns the transfer or the
  refusal.
\<close>

definition Transfer_units :: "Config \<Rightarrow> Subject \<Rightarrow> string \<Rightarrow> Resource \<Rightarrow> int \<Rightarrow> string \<Rightarrow> int \<Rightarrow> Transfer LM" where
  "Transfer_units cf from to r amount requestKey now =
     (if \<not> s_Signed from \<or> s_ID from = [] \<or> to = [] \<or> requestKey = []
        then throw (Internal ''a transfer needs a signed sender, a recipient and a request key'')
      else if to = s_ID from then throw (refuse ''self_transfer'')
      else let i = transferID cf (s_ID from) requestKey in
        bindM (loadTransfer i) (\<lambda>t0. case t0 of
          Some t \<Rightarrow> ret t
        | None \<Rightarrow>
          thenM (open_op cf r now)
         (bindM (gets lop) (\<lambda>p.
          if amount \<le> 0 \<or> amount > maxUnits \<or> rp_Budget (o_rp p) > 0 \<and> amount > rp_Budget (o_rp p)
            then throw (refuse ''invalid_amount'')
          else if lv_FreezeTransfers (o_lv p) then throw (refuse ''transfers_frozen'')
          else finish (transfer cf from to amount i requestKey) liftE))))"

section \<open>Ending a pending transfer\<close>

text \<open>Gives a hold's parts back to their lots, journalled as refunds.\<close>

definition unhold_part :: "(holdPart \<Rightarrow> entry) \<Rightarrow> holdPart \<Rightarrow> unit LM" where
  "unhold_part line p = thenM (holdOf (q_LotID p) (- q_Units p)) (journal (line p))"

definition release :: "Config \<Rightarrow> Transfer \<Rightarrow> transfer_state \<Rightarrow> string \<Rightarrow> int \<Rightarrow> unit LM" where
  "release cf t state actor now =
     bindM (params cf now) (\<lambda>(_, version).
     bindM (transferHold (tr_ID t)) (\<lambda>hold_id.
     bindM (loadHoldParts hold_id) (\<lambda>parts.
     thenM (forM parts (unhold_part (\<lambda>p. (entry0 (day_of now) now k_refund (tr_From t) (tr_Resource t) (q_Units p) version)
        \<lparr>je_Counter := tr_To t, je_Bucket := Some (q_Bucket p), je_LotID := q_LotID p, je_HoldID := hold_id,
         je_Ref := Ref0\<lparr>ref_Service := ledgerService, ref_Op := ''allowance.transfer.cancel'', ref_PublicRef := tr_ID t\<rparr>\<rparr>)))
    (thenM (updateHold hold_id (\<lambda>h. h\<lparr>h_State := h_refunded\<rparr>))
    (thenM (updateTransfer (tr_ID t) (\<lambda>x. x\<lparr>t_State := state, t_CancelledBy := actor, t_DoneAt := now\<rparr>))
    (thenM (addUsage (tr_Resource t) (day_of (tr_CreatedAt t)) (tr_From t) 0 0 (- tr_Amount t))
    (thenM (credentialRelease hold_id (tr_Amount t))
      (addUsage (tr_Resource t) (day_of (tr_CreatedAt t)) (tr_To t) 0 (- tr_Amount t) 0))))))))"

definition CancelTransfer :: "Config \<Rightarrow> string \<Rightarrow> string \<Rightarrow> int \<Rightarrow> Transfer LM" where
  "CancelTransfer cf i actor now =
     bindM (loadTransfer i) (\<lambda>t0. case t0 of
       None \<Rightarrow> throw (refuse ''transfer_not_found'')
     | Some t \<Rightarrow>
       if tr_State t \<noteq> t_pending then throw (refuse ''transfer_not_pending'')
       else if now \<ge> tr_ExecuteAt t then throw (refuse ''transfer_due'')
       else thenM (release cf t t_cancelled actor now) (ret (t\<lparr>tr_State := t_cancelled\<rparr>)))"

definition execute :: "Config \<Rightarrow> Transfer \<Rightarrow> int \<Rightarrow> unit LM" where
  "execute cf t now =
     bindM (params cf now) (\<lambda>(_, version).
     bindM (transferHold (tr_ID t)) (\<lambda>hold_id.
     bindM (loadHoldParts hold_id) (\<lambda>hp.
     bindM (heldParts hp) (\<lambda>parts.
     bindM (loadHoldRow hold_id) (\<lambda>h0. case h0 of
       None \<Rightarrow> throw (Internal ''sql: no rows'')
     | Some h \<Rightarrow>
       bindM (moveParts (tr_Resource t) version (tr_From t) (tr_To t) (tr_ID t) parts True
           (if h_Method h = escrowMethod then ''work_reward'' else ''allowance.transfer'') now) (\<lambda>(moved, _).
       thenM (updateHold hold_id (\<lambda>h. h\<lparr>h_State := h_committed, h_Used := moved\<rparr>))
         (updateTransfer (tr_ID t) (\<lambda>x. x\<lparr>t_State := t_done, t_DoneAt := now\<rparr>))))))))"

definition RotatedKeyMayCancel :: "string \<Rightarrow> string \<Rightarrow> int \<Rightarrow> bool LM" where
  "RotatedKeyMayCancel i key now =
     bindM (loadTransfer i) (\<lambda>t0. case t0 of
       None \<Rightarrow> ret False
     | Some t \<Rightarrow>
       if tr_State t \<noteq> t_pending \<or> key = [] \<or> now \<ge> tr_ExecuteAt t then ret False
       else gets (\<lambda>s. list_ex (\<lambda>b. b_Account b = tr_From t \<and> b_Reason b = ''agent.rotate'' \<and> b_CancelKey b = key
          \<and> b_StartedAt b \<le> tr_CreatedAt t \<and> b_TransferUntil b > tr_CreatedAt t) (breakers s)))"

end
