(* ===== verification/Escrow.thy ===== *)
theory Escrow
  imports Transfers
begin

text \<open>
  Escrows (\<open>internal/ledger/escrow.go\<close>, \<open>escrow_split.go\<close>): units held for a recipient named later,
  paid as a transfer, released, split off and joined.
\<close>

definition EscrowMax :: int where "EscrowMax = maxUnits"

definition escrowRef :: "string \<Rightarrow> string \<Rightarrow> Ref" where
  "escrowRef opn i = Ref0\<lparr>ref_Service := ledgerService, ref_Op := opn, ref_PublicRef := i\<rparr>"

definition escrowKeys :: "Config \<Rightarrow> string \<Rightarrow> string \<Rightarrow> string \<times> string" where
  "escrowKeys cf account requestKey =
     (holdID cf account (''escrow:'' @ requestKey), transferID cf account (''escrow:'' @ requestKey))"

definition lasting :: "AllowanceParams \<Rightarrow> int \<Rightarrow> lot \<Rightarrow> bool" where
  "lasting p until x \<longleftrightarrow> transferable p x \<and> (l_ExpiresAt x = 0 \<or> l_ExpiresAt x > until)"

definition escrow :: "Config \<Rightarrow> Subject \<Rightarrow> Hold \<Rightarrow> string \<Rightarrow> string \<Rightarrow> unit LM" where
  "escrow cf from h requestKey transfer_id =
     bindM (gets lop) (\<lambda>p0.
     thenM (sweepOwn (s_ID from))
    (bindM (claim cf from) (\<lambda>c.
     let ref = escrowRef ''work_reward'' transfer_id; fee = rp_TransferFee (o_rp p0); now = o_now p0 in
     thenM (credentialCheck from (hd_Max h + fee))
    (thenM (debit from c fee k_fee ref)
    (bindM (liveLots (s_ID from) (o_r p0) now) (\<lambda>ls0.
     let ls = capOwn (o_rp p0) ls0 c; (parts, got) = plan ls (hd_Max h) (lasting (o_p p0) (hd_ExpiresAt h)) in
     if got < hd_Max h then
       if snd (plan ls (hd_Max h) (\<lambda>_. True)) \<ge> hd_Max h then throw (refuse ''not_transferable'')
       else throw (refuseDay ''quota_exhausted'' now)
     else
     thenM (insertHold (hold_row h p0 (''escrow:'' @ requestKey) ledgerService escrowMethod))
    (thenM (holdParts p0 (s_ID from) (hd_ID h) parts ref)
    (thenM (credentialRecord from fee [])
      (credentialRecord from (hd_Max h) (hd_ID h))))))))))"

definition Escrow_units :: "Config \<Rightarrow> Subject \<Rightarrow> Resource \<Rightarrow> int \<Rightarrow> string \<Rightarrow> int \<Rightarrow> int \<Rightarrow> (Hold \<times> int) LM" where
  "Escrow_units cf from r amount requestKey until now =
     (if \<not> s_Signed from \<or> s_ID from = [] \<or> requestKey = [] \<or> length requestKey > 256 \<or> until \<le> now
        then throw (Internal ''an escrow needs a signed account, a request key and an end after now'')
      else let (i, transfer_id) = escrowKeys cf (s_ID from) requestKey in
        bindM (loadHold i) (\<lambda>h0. case h0 of
          Some h \<Rightarrow> ret (h, 0)
        | None \<Rightarrow>
          thenM (open_op cf r now)
         (bindM (gets lop) (\<lambda>p.
          if amount \<le> 0 \<or> amount > EscrowMax \<or> rp_Budget (o_rp p) > 0 \<and> amount > rp_Budget (o_rp p)
            then throw (refuse ''invalid_amount'')
          else if lv_FreezeTransfers (o_lv p) then throw (refuse ''transfers_frozen'')
          else let h = \<lparr>hd_ID = i, hd_Account = s_ID from, hd_Resource = r, hd_Max = amount, hd_ExpiresAt = until, hd_State = h_held\<rparr> in
            finish (escrow cf from h requestKey transfer_id)
              (\<lambda>res. case res of Inl e \<Rightarrow> throw e | Inr _ \<Rightarrow> ret (h, rp_TransferFee (o_rp p)))))))"

text \<open>An escrow's hold row and its transfer id (from the hold's own request key).\<close>

definition loadEscrow :: "Config \<Rightarrow> string \<Rightarrow> (holdRow \<times> string) LM" where
  "loadEscrow cf i =
     bindM (loadHoldRow i) (\<lambda>h0. case h0 of
       None \<Rightarrow> throw (NotFound i)
     | Some h \<Rightarrow> if h_Service h \<noteq> ledgerService \<or> h_Method h \<noteq> escrowMethod then throw (NotFound i)
       else ret (h, transferID cf (h_Account h) (h_RequestKey h)))"

section \<open>Paying and releasing\<close>

definition escrowPay :: "Hold \<Rightarrow> string \<Rightarrow> string \<Rightarrow> Transfer LM" where
  "escrowPay h to i =
     bindM (gets lop) (\<lambda>p.
     let now = o_now p in
     bindM (loadUsage (o_r p) (o_day p) to) (\<lambda>(_, inc, _).
     if inc + hd_Max h > rp_InboundCap (o_rp p) then throw (refuseDay ''recipient_limit'' now)
     else
     bindM (transferBreaker (hd_Account h) now) (\<lambda>brk.
     let pend = (brk \<or> lv_FreezeTransfers (o_lv p));
         exec = (if pend \<and> \<not> lv_FreezeTransfers (o_lv p) then now + ap_TransferDelay (o_p p) else now) in
     bindM (loadHoldParts (hd_ID h)) (\<lambda>hp.
     thenM (if pend then updateHold (hd_ID h) (\<lambda>x. x\<lparr>h_ExpiresAt := exec\<rparr>)
       else bindM (heldParts hp) (\<lambda>parts.
         bindM (moveParts (o_r p) (o_version p) (hd_Account h) to i parts True ''work_reward'' now) (\<lambda>(moved, _).
         updateHold (hd_ID h) (\<lambda>x. x\<lparr>h_State := h_committed, h_Used := moved\<rparr>))))
    (thenM (insertTransfer \<lparr>t_ID = i, t_From = hd_Account h, t_To = to, t_Resource = o_r p, t_Amount = hd_Max h,
        t_Fee = 0, t_HoldID = hd_ID h, t_State = (if pend then t_pending else t_done), t_CreatedAt = now,
        t_ExecuteAt = exec, t_DoneAt = (if pend then 0 else now), t_CancelledBy = []\<rparr>)
    (thenM (addUsage (o_r p) (o_day p) (hd_Account h) 0 0 (hd_Max h))
    (thenM (addUsage (o_r p) (o_day p) to 0 (hd_Max h) 0)
     (ret \<lparr>tr_ID = i, tr_From = hd_Account h, tr_To = to, tr_Resource = o_r p, tr_Amount = hd_Max h, tr_Fee = 0,
         tr_State = (if pend then t_pending else t_done), tr_CreatedAt = now, tr_ExecuteAt = exec,
         tr_ExpiresAt = foldl earlier 0 (map q_ExpiresAt hp),
         tr_ByBucket = (\<lambda>b. \<Sum>q\<leftarrow>hp. if q_Bucket q = b then q_Units q else 0)\<rparr>))))))))"

definition EscrowPay :: "Config \<Rightarrow> string \<Rightarrow> string \<Rightarrow> int \<Rightarrow> Transfer LM" where
  "EscrowPay cf hold_id to now =
     bindM (loadEscrow cf hold_id) (\<lambda>(h, i).
     bindM (loadTransfer i) (\<lambda>t0. case t0 of
       Some t \<Rightarrow> ret t
     | None \<Rightarrow>
       if h_State h \<noteq> h_held then throw (refuse ''hold_not_held'')
       else if to = [] \<or> to = h_Account h then throw (refuse ''self_transfer'')
       else
         thenM (open_op cf (h_Resource h) now)
        (finish (escrowPay (hold_of_row h) to i) liftE)))"

definition EscrowRelease :: "Config \<Rightarrow> string \<Rightarrow> string \<Rightarrow> int \<Rightarrow> unit LM" where
  "EscrowRelease cf hold_id reason now =
     bindM (loadEscrow cf hold_id) (\<lambda>(h, i).
     if h_State h \<noteq> h_held then throw (refuse ''hold_not_held'')
     else bindM (loadTransfer i) (\<lambda>t0. case t0 of
       Some t \<Rightarrow> throw (refuse ''hold_not_held'')
     | None \<Rightarrow>
       bindM (params cf now) (\<lambda>(_, version).
       bindM (loadHoldParts hold_id) (\<lambda>parts.
       thenM (forM parts (unhold_part (\<lambda>p. (entry0 (day_of now) now k_refund (h_Account h) (h_Resource h) (q_Units p) version)
          \<lparr>je_Bucket := Some (q_Bucket p), je_LotID := q_LotID p, je_HoldID := hold_id,
           je_Ref := escrowRef ''work_reward_release'' i, je_Detail := reason\<rparr>)))
      (thenM (updateHold hold_id (\<lambda>x. x\<lparr>h_State := h_refunded\<rparr>))
        (credentialRelease hold_id (h_Max h)))))))"

record EscrowStatus =
  es_HoldID :: string
  es_HoldState :: hold_state
  es_Amount :: int
  es_CreatedAt :: int
  es_Transfer :: "(string \<times> transfer_state \<times> string \<times> int \<times> int) option"

definition EscrowHoldID :: "Config \<Rightarrow> string \<Rightarrow> string \<Rightarrow> string" where
  "EscrowHoldID cf account requestKey = fst (escrowKeys cf account requestKey)"

definition GetEscrow :: "Config \<Rightarrow> string \<Rightarrow> string \<Rightarrow> EscrowStatus option LM" where
  "GetEscrow cf account requestKey =
     (let (i, transfer_id) = escrowKeys cf account requestKey in
      bindM (loadHoldRow i) (\<lambda>h0. case h0 of
        None \<Rightarrow> ret None
      | Some h \<Rightarrow> if h_Service h \<noteq> ledgerService \<or> h_Method h \<noteq> escrowMethod then ret None
        else bindM (gets (\<lambda>s. transfer_at s transfer_id)) (\<lambda>t.
          ret (Some \<lparr>es_HoldID = i, es_HoldState = h_State h, es_Amount = h_Max h, es_CreatedAt = h_CreatedAt h,
            es_Transfer = map_option (\<lambda>t. (t_ID t, t_State t, t_To t, t_CreatedAt t, t_ExecuteAt t)) t\<rparr>))))"

section \<open>Splitting and joining\<close>

definition delete_part :: "string \<Rightarrow> int \<Rightarrow> unit LM" where
  "delete_part i lot_id = modifyM (\<lambda>s. s\<lparr>hold_parts := filter (\<lambda>p. \<not> (hp_Hold p = i \<and> hp_Lot p = lot_id)) (hold_parts s)\<rparr>)"

definition reduce_part :: "string \<Rightarrow> int \<Rightarrow> int \<Rightarrow> unit LM" where
  "reduce_part i lot_id n = modifyM (\<lambda>s. s\<lparr>hold_parts := upd (\<lambda>p. hp_Hold p = i \<and> hp_Lot p = lot_id)
     (\<lambda>p. p\<lparr>hp_Units := hp_Units p - n\<rparr>) (hold_parts s)\<rparr>)"

definition add_part :: "string \<Rightarrow> int \<Rightarrow> int \<Rightarrow> unit LM" where
  "add_part i lot_id n = modifyM (\<lambda>s. s\<lparr>hold_parts := upsert (\<lambda>p. hp_Hold p = i \<and> hp_Lot p = lot_id)
     (\<lambda>p. p\<lparr>hp_Units := hp_Units p + n\<rparr>) \<lparr>hp_Hold = i, hp_Lot = lot_id, hp_Units = n\<rparr> (hold_parts s)\<rparr>)"

definition move_escrow_part :: "Hold \<Rightarrow> Hold \<Rightarrow> int \<Rightarrow> int \<Rightarrow> int \<Rightarrow> holdPart \<Rightarrow> int LM" where
  "move_escrow_part src dst version now left p =
     (if left = 0 then ret 0
      else let tk = min (q_Units p) left;
               line = (\<lambda>k i other_id. (entry0 (day_of now) now k (hd_Account src) (hd_Resource src) tk version)
                  \<lparr>je_Bucket := Some (q_Bucket p), je_LotID := q_LotID p, je_HoldID := i,
                   je_Ref := escrowRef ''escrow_split'' other_id, je_Detail := ''escrow split''\<rparr>) in
        thenM (if tk = q_Units p then delete_part (hd_ID src) (q_LotID p) else reduce_part (hd_ID src) (q_LotID p) tk)
       (thenM (add_part (hd_ID dst) (q_LotID p) tk)
       (thenM (journal (line k_refund (hd_ID src) (hd_ID dst)))
       (thenM (journal (line k_reserve (hd_ID dst) (hd_ID src)))
        (ret (left - tk))))))"

definition moveEscrow :: "Config \<Rightarrow> Hold \<Rightarrow> Hold \<Rightarrow> int \<Rightarrow> int \<Rightarrow> unit LM" where
  "moveEscrow cf src dst amount now =
     bindM (params cf now) (\<lambda>(_, version).
     bindM (loadHoldParts (hd_ID src)) (\<lambda>parts.
     bindM (foldM (move_escrow_part src dst version now) amount parts) (\<lambda>left.
     if left \<noteq> 0 then throw (Internal ''escrow parts do not cover its units'')
     else thenM (updateHold (hd_ID src) (\<lambda>h. h\<lparr>h_Max := h_Max h - amount\<rparr>))
       (updateHold (hd_ID dst) (\<lambda>h. h\<lparr>h_Max := h_Max h + amount\<rparr>)))))"

text \<open>The new escrow keeps the credential of the one it is split from: \<open>INSERT ... SELECT\<close>.\<close>

definition copyCredential :: "string \<Rightarrow> string \<Rightarrow> unit LM" where
  "copyCredential src i = modifyM (\<lambda>s. case find (\<lambda>x. lh_Hold x = src) (limit_holds s) of
       None \<Rightarrow> s
     | Some x \<Rightarrow> s\<lparr>limit_holds := upsert (\<lambda>y. lh_Hold y = i) (\<lambda>y. y)
         \<lparr>lh_Hold = i, lh_Credential = lh_Credential x, lh_Day = lh_Day x\<rparr> (limit_holds s)\<rparr>)"

definition split_write :: "Config \<Rightarrow> holdRow \<Rightarrow> holdRow \<Rightarrow> Hold \<Rightarrow> int \<Rightarrow> int \<Rightarrow> Hold LM" where
  "split_write cf src row h amount now =
     thenM (insertHold row)
    (thenM (copyCredential (h_ID src) (h_ID row))
    (thenM (moveEscrow cf (hold_of_row src) h amount now)
     (ret h)))"

definition EscrowSplit :: "Config \<Rightarrow> string \<Rightarrow> int \<Rightarrow> string \<Rightarrow> int \<Rightarrow> int \<Rightarrow> Hold LM" where
  "EscrowSplit cf hold_id amount requestKey until0 now =
     bindM (loadEscrow cf hold_id) (\<lambda>(src, _).
     if requestKey = [] \<or> length requestKey > 256 \<or> until0 \<le> now
       then throw (Internal ''an escrow split needs a request key and an end after now'')
     else let i = fst (escrowKeys cf (h_Account src) requestKey) in
       bindM (loadHold i) (\<lambda>h0. case h0 of
         Some h \<Rightarrow> if hd_State h \<noteq> h_held then throw (refuse ''hold_not_held'') else ret h
       | None \<Rightarrow>
         if h_State src \<noteq> h_held then throw (refuse ''hold_not_held'')
         else if amount \<le> 0 \<or> amount > h_Max src then throw (refuse ''invalid_amount'')
         else let until = (if until0 > h_ExpiresAt src then h_ExpiresAt src else until0) in
           split_write cf src
             \<lparr>h_ID = i, h_Account = h_Account src, h_Resource = h_Resource src, h_Max = 0, h_Used = 0,
              h_State = h_held, h_RequestKey = ''escrow:'' @ requestKey, h_Service = ledgerService,
              h_Method = escrowMethod, h_CreatedAt = now, h_ExpiresAt = until\<rparr>
             \<lparr>hd_ID = i, hd_Account = h_Account src, hd_Resource = h_Resource src, hd_Max = amount,
              hd_ExpiresAt = until, hd_State = h_held\<rparr> amount now))"

definition EscrowJoin :: "Config \<Rightarrow> string \<Rightarrow> string \<Rightarrow> int \<Rightarrow> unit LM" where
  "EscrowJoin cf hold_id into_id now =
     bindM (loadEscrow cf hold_id) (\<lambda>(src, _).
     bindM (loadEscrow cf into_id) (\<lambda>(dst, _).
     if h_State src \<noteq> h_held \<or> h_State dst \<noteq> h_held \<or> hold_id = into_id then throw (refuse ''hold_not_held'')
     else if h_Account src \<noteq> h_Account dst \<or> h_Resource src \<noteq> h_Resource dst then throw (refuse ''invalid_amount'')
     else bindM (loadHoldParts hold_id) (\<lambda>parts.
       if list_ex (\<lambda>p. q_ExpiresAt p \<noteq> 0 \<and> q_ExpiresAt p \<le> h_ExpiresAt dst) parts then throw (refuse ''not_transferable'')
       else bindM (gets (\<lambda>s. card (set (map hp_Lot (filter (\<lambda>p. hp_Hold p \<in> {hold_id, into_id}) (hold_parts s)))))) (\<lambda>n.
         if n > liveLotsMax then throw (refuse ''too_many_parts'')
         else
           thenM (moveEscrow cf (hold_of_row src) (hold_of_row dst) (h_Max src) now)
          (thenM (credentialJoin hold_id into_id (h_Max src))
            (updateHold hold_id (\<lambda>h. h\<lparr>h_State := h_refunded\<rparr>)))))))"

end
