(* ===== verification/Sweep.thy ===== *)
theory Sweep
  imports Escrow
begin

text \<open>
  The sweeper (\<open>internal/ledger/sweep.go\<close>): due lots expire, lapsed holds settle, due transfers
  execute, lots decay; and the refusal counts the board takes (\<open>refusals.go\<close>).
\<close>

section \<open>Due transfers\<close>

text \<open>
  \<open>execute\<close> runs in a savepoint: an error restores the database (the operation object and the
  refusal counts are memory, which \<open>execute\<close> does not touch).
\<close>

definition executeDue :: "Config \<Rightarrow> string \<Rightarrow> int \<Rightarrow> unit LM" where
  "executeDue cf i now =
     bindM (loadTransfer i) (\<lambda>t0. case t0 of
       None \<Rightarrow> ret ()
     | Some t \<Rightarrow> if tr_State t \<noteq> t_pending then ret ()
       else (\<lambda>s. case execute cf t now s of
           (Inr _, s') \<Rightarrow> (Inr (), s')
         | (Inl e, _) \<Rightarrow> (case e of
               Refuse x \<Rightarrow> release cf t t_cancelled (''ledger:'' @ e_Code x) now s
             | _ \<Rightarrow> (Inl e, s))))"

section \<open>Demurrage\<close>

text \<open>The loop over whole days: at most \<open>n\<close> of them, each taking its share of what is left.\<close>

fun decay_days :: "nat \<Rightarrow> int \<Rightarrow> int \<Rightarrow> int" where
  "decay_days 0 rate free = free"
| "decay_days (Suc n) rate free = decay_days n rate (free - mulDiv free rate ppm)"

definition decay_steps :: "lot \<Rightarrow> int \<Rightarrow> nat" where
  "decay_steps x today = nat (min (today - l_DecayedDay x) (8 * l_HalfLife x + 1))"

definition decay :: "AllowanceParams \<Rightarrow> Resource \<Rightarrow> lot \<Rightarrow> int \<Rightarrow> int \<Rightarrow> int \<Rightarrow> unit LM" where
  "decay p r x version today now =
     (let rate = RatePPM (l_HalfLife x);
          kept = decay_days (decay_steps x today) rate (spendable x);
          lost = spendable x - kept;
          expired = (if kept < ap_Dust p \<or> today - l_IssuedDay x \<ge> 8 * l_HalfLife x then kept else 0);
          gone = lost + expired;
          line = (\<lambda>k amount. (entry0 (day_of now) now k (l_Account x) r amount version)
             \<lparr>je_Bucket := Some (l_Bucket x), je_LotID := l_ID x,
              je_Detail := ''half-life '' @ itoa (l_HalfLife x) @ '' days''\<rparr>)
      in thenM (updateLots (\<lambda>y. l_ID y = l_ID x)
            (\<lambda>y. y\<lparr>l_Remaining := l_Remaining y - gone, l_DecayedDay := today,
               l_State := (if l_Remaining y - gone = 0 then lot_expired else l_State y)\<rparr>))
        (thenM (journal_nz (line k_decay lost))
          (journal_nz (line k_expire expired))))"

section \<open>The sweep\<close>

definition count_each :: "'x list \<Rightarrow> ('x \<Rightarrow> unit LM) \<Rightarrow> nat \<Rightarrow> nat LM" where
  "count_each xs f n = foldM (\<lambda>n x. thenM (f x) (ret (n + 1))) n xs"

text \<open>The flag is whether the sweep goes on: a hold row that is not there ends it with the count so far.\<close>

definition settle_due :: "Config \<Rightarrow> int \<Rightarrow> bool \<times> nat \<Rightarrow> string \<Rightarrow> (bool \<times> nat) LM" where
  "settle_due cf now = (\<lambda>(on, n) i.
     if \<not> on then ret (on, n)
     else bindM (loadHoldRow i) (\<lambda>h0. case h0 of
       None \<Rightarrow> ret (False, n)
     | Some h \<Rightarrow>
       thenM (if h_Service h \<in> set (cf_Deposits cf) then settle cf i 0 h_refunded ''lapsed'' now
              else settle cf i (h_Max h) h_expired ''unknown'' now) (ret (True, n + 1))))"

definition Sweep :: "Config \<Rightarrow> int \<Rightarrow> int \<Rightarrow> nat LM" where
  "Sweep cf now limit0 =
     (let limit = nat (clamp limit0 1 SweepMax); today = day_of now in
      bindM (params cf now) (\<lambda>(p, version).
      bindM (gets (\<lambda>s. take limit (filter (due_lot now) (lots s)))) (\<lambda>due.
      bindM (count_each due (\<lambda>x. expireLot (l_Resource x) (l_Account x) (l_ID x) (l_Bucket x) (spendable x) version now) 0) (\<lambda>n1.
      bindM (gets (\<lambda>s. map h_ID (take limit (filter (\<lambda>h. h_State h = h_held \<and> h_ExpiresAt h \<le> now \<and> h_Service h \<noteq> ledgerService) (holds s))))) (\<lambda>hs.
      bindM (foldM (settle_due cf now) (True, n1) hs) (\<lambda>(on, n2).
      if \<not> on then ret n2 else
      bindM (levers cf now) (\<lambda>lv.
      bindM (if lv_FreezeTransfers lv then ret n2
         else bindM (gets (\<lambda>s. map t_ID (take limit (sort_key t_ExecuteAt
               (filter (\<lambda>t. t_State t = t_pending \<and> t_ExecuteAt t \<le> now) (transfers s)))))) (\<lambda>ts.
           count_each ts (\<lambda>i. executeDue cf i now) n2)) (\<lambda>n3.
      bindM (gets (\<lambda>s. take limit (filter (\<lambda>x. l_State x = lot_live \<and> l_HalfLife x > 0 \<and> l_DecayedDay x < today) (lots s)))) (\<lambda>dec.
      count_each dec (\<lambda>x. decay p (l_Resource x) x version today now) n3)))))))))"

section \<open>Refusal counts\<close>

definition Resource_Name :: "Resource \<Rightarrow> string" where
  "Resource_Name r = (case r of PostBytes \<Rightarrow> ''post_bytes'' | MemoryBytes \<Rightarrow> ''memory_bytes'' | Credit \<Rightarrow> ''credit''
     | OtherResource n \<Rightarrow> n)"

definition TakeRefusals :: "((int \<times> Resource \<times> string) \<times> int) list LM" where
  "TakeRefusals =
     bindM (gets refusals) (\<lambda>m.
     thenM (modifyM (\<lambda>s. s\<lparr>refusals := []\<rparr>))
       (ret (sort_key (\<lambda>((day, r, code), _). (day, Resource_Name r, code)) m)))"

definition PutBackRefusals :: "((int \<times> Resource \<times> string) \<times> int) list \<Rightarrow> unit LM" where
  "PutBackRefusals xs = modifyM (\<lambda>s. s\<lparr>refusals := foldl (\<lambda>m (k, n). countRefusal k n m) (refusals s) xs\<rparr>)"

end
