(* ===== verification/Journal.thy ===== *)
theory Journal
  imports Sweep
begin

text \<open>
  The public journal and the share-rule statistics (\<open>internal/ledger/journal.go\<close>).
\<close>

definition anon_prefix :: string where "anon_prefix = ''anon:''"

definition is_anon :: "string \<Rightarrow> bool" where
  "is_anon account \<longleftrightarrow> take (length anon_prefix) account = anon_prefix"

text \<open>\<open>account LIKE 'anon:%'\<close>: SQLite's \<open>LIKE\<close> ignores the case of ASCII letters.\<close>

definition ascii_lower :: "char \<Rightarrow> char" where
  "ascii_lower c = (let n = (of_char c :: nat) in if 65 \<le> n \<and> n \<le> 90 then char_of (n + 32) else c)"

definition like_anon :: "string \<Rightarrow> bool" where
  "like_anon account \<longleftrightarrow> map ascii_lower (take (length anon_prefix) account) = anon_prefix"

text \<open>\<open>ORDER BY seq DESC\<close>: the table is in sequence order, so the newest lines are the last.\<close>

definition newest_first :: "entry list \<Rightarrow> entry list" where
  "newest_first es = sort_key (\<lambda>e. - je_Seq e) es"

record JournalQuery =
  jq_Account :: string
  jq_Before :: int
  jq_Limit :: int

definition scan_window :: "entry list \<Rightarrow> int \<Rightarrow> entry list" where
  "scan_window es before = take journalScanMax (newest_first (filter (\<lambda>e. je_Seq e < before) es))"

definition Journal_page :: "JournalQuery \<Rightarrow> (entry list \<times> int) LM" where
  "Journal_page q =
     (let limit = (if jq_Limit q \<le> 0 \<or> jq_Limit q > JournalPageMax then JournalPageMax else jq_Limit q);
          before = (if jq_Before q \<le> 0 then maxInt64 else jq_Before q)
      in if is_anon (jq_Account q) then ret ([], 0)
         else bindM (gets entries) (\<lambda>es.
           let out = (if jq_Account q \<noteq> [] then
                   take (nat limit) (newest_first (filter (\<lambda>e. je_Account e = jq_Account q \<and> je_Seq e < before) es))
                 else take (nat limit) (filter (\<lambda>e. \<not> like_anon (je_Account e)) (scan_window es before)));
               nxt = (if int (length out) = limit then je_Seq (last out)
                      else if jq_Account q = [] \<and> length (scan_window es before) = journalScanMax
                        then je_Seq (last (scan_window es before))
                      else 0)
           in ret (out, nxt)))"

definition RecordShadow :: "Config \<Rightarrow> string \<Rightarrow> Resource \<Rightarrow> int \<Rightarrow> string \<Rightarrow> string \<Rightarrow> int \<Rightarrow> unit LM" where
  "RecordShadow cf account r amount opn detail now =
     bindM (params cf now) (\<lambda>(_, version).
       journal ((entry0 (day_of now) now k_shadow account r amount version)
         \<lparr>je_Ref := Ref0\<lparr>ref_Service := ''board'', ref_Op := opn\<rparr>, je_Detail := detail\<rparr>))"

section \<open>Statistics\<close>

record SliceStats =
  sst_Slice :: string
  sst_Pool :: pool

record DayStats =
  ds_Resource :: Resource
  ds_Day :: int
  ds_Budget :: int
  ds_BudgetEffective :: int
  ds_Unallocated :: int
  ds_Spent :: int
  ds_SpentPaid :: int
  ds_ParamsVersion :: int
  ds_Slices :: "SliceStats list"
  ds_AnonymousDrawn :: int
  ds_AnonymousClaimants :: int
  ds_Buckets :: "Bucket \<Rightarrow> int"

record ServiceStats =
  sv_Service :: string
  sv_Resource :: Resource
  sv_Bucket :: "Bucket option"
  sv_Anonymous :: bool
  sv_Units :: int
  sv_Calls :: int

record TransferStats =
  ts_Resource :: Resource
  ts_Count :: int
  ts_Volume :: int
  ts_Pending :: int
  ts_LargestRecipientSharePPM :: int

record Stats =
  st_Days :: "DayStats list"
  st_Services :: "ServiceStats list"
  st_Transfers :: TransferStats

definition spending :: "entry \<Rightarrow> bool" where
  "spending e \<longleftrightarrow> je_Kind e \<in> {k_spend, k_commit, k_fee}"

definition bucketsInUse :: "entry list \<Rightarrow> int \<Rightarrow> Resource \<Rightarrow> Bucket \<Rightarrow> int" where
  "bucketsInUse es day r b =
     (\<Sum>e\<leftarrow>filter (\<lambda>e. je_Day e = day \<and> spending e \<and> je_Resource e = r \<and> je_Bucket e = Some b) es. je_Amount e)"

definition day_stats :: "entry list \<Rightarrow> dayState \<Rightarrow> DayStats" where
  "day_stats es d =
     \<lparr>ds_Resource = d_Resource d, ds_Day = d_Day d, ds_Budget = d_Budget d, ds_BudgetEffective = d_BudgetEffective d,
      ds_Unallocated = d_Unallocated d, ds_Spent = d_SpentNonpaid d + d_SpentPaid d, ds_SpentPaid = d_SpentPaid d,
      ds_ParamsVersion = d_ParamsVersion d,
      ds_Slices = (if d_legacy d then [] else map (\<lambda>sl. \<lparr>sst_Slice = SliceNames sl, sst_Pool = Slices d sl\<rparr>) [sliceGrant, sliceFloor, sliceStanding]),
      ds_AnonymousDrawn = (if d_legacy d then 0 else Claimed (d_Anon d)),
      ds_AnonymousClaimants = (if d_legacy d then 0 else Claimants (d_Anon d)),
      ds_Buckets = bucketsInUse es (d_Day d) (d_Resource d)\<rparr>"

text \<open>\<open>GROUP BY service, resource, bucket, anon\<close>: one row per group, in order of first appearance.\<close>

definition service_key :: "entry \<Rightarrow> string \<times> Resource \<times> Bucket option \<times> bool" where
  "service_key e = (ref_Service (je_Ref e), je_Resource e, je_Bucket e, like_anon (je_Account e))"

definition service_stats :: "entry list \<Rightarrow> int \<Rightarrow> ServiceStats list" where
  "service_stats es today =
     (let xs = filter (\<lambda>e. je_Day e = today \<and> spending e) es;
          row = (\<lambda>(sv, r, b, an). let g = filter (\<lambda>e. service_key e = (sv, r, b, an)) xs in
             \<lparr>sv_Service = sv, sv_Resource = r, sv_Bucket = b, sv_Anonymous = an,
              sv_Units = (\<Sum>e\<leftarrow>g. je_Amount e), sv_Calls = int (length g)\<rparr>)
      in take 64 (sort_key (\<lambda>v. - sv_Units v) (map row (remdups (map service_key xs)))))"

definition transfer_stats :: "transferRow list \<Rightarrow> int \<Rightarrow> int \<Rightarrow> TransferStats" where
  "transfer_stats ts today budget =
     (let today_ts = filter (\<lambda>t. t_CreatedAt t \<ge> today * 86400 \<and> t_CreatedAt t < (today + 1) * 86400 \<and> t_Resource t = PostBytes) ts;
          counted = filter (\<lambda>t. t_State t \<noteq> t_cancelled) today_ts;
          totals = map (\<lambda>a. \<Sum>t\<leftarrow>filter (\<lambda>t. t_To t = a) counted. t_Amount t) (map t_To counted);
          top = (if totals = [] then 0 else Max (set totals))
      in \<lparr>ts_Resource = PostBytes, ts_Count = int (length today_ts), ts_Volume = (\<Sum>t\<leftarrow>today_ts. t_Amount t),
          ts_Pending = int (length (filter (\<lambda>t. t_State t = t_pending) today_ts)),
          ts_LargestRecipientSharePPM = (if budget > 0 then mulDiv top ppm budget else 0)\<rparr>)"

definition Stats0 :: Stats where
  "Stats0 = \<lparr>st_Days = [], st_Services = [], st_Transfers = \<lparr>ts_Resource = OtherResource [], ts_Count = 0, ts_Volume = 0,
     ts_Pending = 0, ts_LargestRecipientSharePPM = 0\<rparr>\<rparr>"

text \<open>A day listed but not found ends the read with the zero value (\<open>return Stats{}, err\<close> with a nil error).\<close>

definition Stats_of :: "int \<Rightarrow> int \<Rightarrow> Stats LM" where
  "Stats_of n now =
     (let n' = clamp n 1 31; today = day_of now; from = today - n' + 1 in
      bindM (gets (\<lambda>s. take 128 (sort_key (\<lambda>w. (- dr_Day w, Resource_Name (dr_Resource w)))
          (filter (\<lambda>w. dr_Day w \<ge> from \<and> dr_Day w \<le> today) (days s))))) (\<lambda>ws.
      bindM (foldM (\<lambda>acc w. case acc of
           None \<Rightarrow> ret None
         | Some ds \<Rightarrow> bindM (loadDay (dr_Resource w) (dr_Day w)) (\<lambda>d. ret (map_option (\<lambda>d. ds @ [d]) d))) (Some []) ws) (\<lambda>acc.
      case acc of None \<Rightarrow> ret Stats0 | Some ds \<Rightarrow>
      bindM (gets entries) (\<lambda>es.
      bindM (gets transfers) (\<lambda>ts.
      let budget = foldl (\<lambda>b d. if d_Resource d = PostBytes \<and> d_Day d = today then d_Budget d else b) 0 ds in
      ret \<lparr>st_Days = map (day_stats es) ds, st_Services = service_stats es today,
           st_Transfers = transfer_stats ts today budget\<rparr>)))))"

end
