(* ===== verification/Ledger_Inv.thy ===== *)
theory Ledger_Inv
  imports Lot_Inv Days_Inv Journal
begin

text \<open>
  The ledger's invariant: lots balanced by the journal and by open hold parts, holds covered by
  their parts, pending transfers backed by their own hold, days well formed. And the frame facts
  that let one statement's proof ignore the other tables.
\<close>

section \<open>Holds and their parts\<close>

definition open_hold :: "holdRow list \<Rightarrow> string \<Rightarrow> bool" where
  "open_hold hs i \<longleftrightarrow> (\<exists>h\<in>set hs. h_ID h = i \<and> h_State h = h_held)"

definition heldsum :: "holdRow list \<Rightarrow> partRow list \<Rightarrow> int \<Rightarrow> int" where
  "heldsum hs ps i = (\<Sum>p\<leftarrow>ps. if hp_Lot p = i \<and> open_hold hs (hp_Hold p) then hp_Units p else 0)"

definition partsum :: "partRow list \<Rightarrow> string \<Rightarrow> int" where
  "partsum ps h = (\<Sum>p\<leftarrow>ps. if hp_Hold p = h then hp_Units p else 0)"

definition part_key :: "partRow \<Rightarrow> string \<times> int" where
  "part_key p = (hp_Hold p, hp_Lot p)"

interpretation part_table: keyed_table part_key .

definition part_ok :: "lot list \<Rightarrow> holdRow list \<Rightarrow> partRow \<Rightarrow> bool" where
  "part_ok ls hs p \<longleftrightarrow> 0 < hp_Units p \<and> (\<exists>h\<in>set hs. h_ID h = hp_Hold p
     \<and> (\<exists>x\<in>set ls. l_ID x = hp_Lot p \<and> l_Account x = h_Account h \<and> l_Resource x = h_Resource h))"

definition hold_ok :: "string set \<Rightarrow> partRow list \<Rightarrow> holdRow \<Rightarrow> bool" where
  "hold_ok ex ps h \<longleftrightarrow> 0 \<le> h_Used h \<and> (h_ID h \<notin> ex \<longrightarrow> h_Used h \<le> h_Max h \<and> partsum ps (h_ID h) = h_Max h)
     \<and> (h_State h = h_held \<longrightarrow> h_Used h = 0)"

text \<open>\<open>ex\<close> are the holds a running operation is building or moving.\<close>

definition holds_ok :: "string set \<Rightarrow> lot list \<Rightarrow> holdRow list \<Rightarrow> partRow list \<Rightarrow> bool" where
  "holds_ok ex ls hs ps \<longleftrightarrow> distinct (map h_ID hs) \<and> distinct (map part_key ps)
     \<and> (\<forall>p\<in>set ps. part_ok ls hs p) \<and> (\<forall>h\<in>set hs. hold_ok ex ps h)"

section \<open>Pending transfers\<close>

definition pend_ok :: "Config \<Rightarrow> holdRow list \<Rightarrow> partRow list \<Rightarrow> transferRow \<Rightarrow> bool" where
  "pend_ok cf hs ps t \<longleftrightarrow> (\<exists>h\<in>set hs. h_ID h = t_HoldID t \<and> h_Service h = ledgerService \<and> h_Account h = t_From t
     \<and> h_Resource h = t_Resource t
     \<and> (h_State h = h_held \<or> (\<forall>p\<in>set ps. hp_Hold p \<noteq> h_ID h))
     \<and> (h_Method h = escrowMethod \<longrightarrow> t_ID t = transferID cf (h_Account h) (h_RequestKey h))
     \<and> (h_Method h \<noteq> escrowMethod \<longrightarrow> h_State h = h_held \<and> h_Max h = t_Amount t))"

definition transfers_ok :: "Config \<Rightarrow> holdRow list \<Rightarrow> partRow list \<Rightarrow> transferRow list \<Rightarrow> bool" where
  "transfers_ok cf hs ps ts \<longleftrightarrow> distinct (map t_ID ts)
     \<and> (\<forall>t\<in>set ts. t_State t = t_pending \<longrightarrow> pend_ok cf hs ps t)
     \<and> (\<forall>t\<in>set ts. \<forall>u\<in>set ts. t_State t = t_pending \<longrightarrow> u \<noteq> t \<longrightarrow> t_HoldID u = t_HoldID t \<longrightarrow> t_State u \<noteq> t_pending)"

section \<open>Days\<close>

definition days_ok :: "led \<Rightarrow> bool" where
  "days_ok s \<longleftrightarrow> tables_ok s \<and> (\<forall>r day d. day_load s r day = Inr (Some d) \<longrightarrow> slices_ok d)"

section \<open>The whole\<close>

definition linv :: "Config \<Rightarrow> led \<Rightarrow> bool" where
  "linv cf s \<longleftrightarrow> days_ok s
     \<and> lots_ok (heldsum (holds s) (hold_parts s)) (lots s) (lots_seq s) (entries s)
     \<and> holds_ok {} (lots s) (holds s) (hold_parts s)
     \<and> transfers_ok cf (holds s) (hold_parts s) (transfers s)"

text \<open>The operation object of a running call.\<close>

definition op_ok :: "led \<Rightarrow> bool" where
  "op_ok s \<longleftrightarrow> (let p = lop s in rp_ok (o_rp p) \<and> ap_ok (o_p p) \<and> day_ok (o_d p)
     \<and> d_Resource (o_d p) = o_r p \<and> d_Day (o_d p) = o_day p
     \<and> day_load s (o_r p) (o_day p) = Inr (Some (o_orig p))
     \<and> d_OpenedAt (o_d p) = d_OpenedAt (o_orig p) \<and> d_ParamsVersion (o_d p) = d_ParamsVersion (o_orig p)
     \<and> d_legacy (o_d p) = d_legacy (o_orig p))"

definition same_op :: "op \<Rightarrow> op \<Rightarrow> bool" where
  "same_op p q \<longleftrightarrow> o_p q = o_p p \<and> o_version q = o_version p \<and> o_rp q = o_rp p \<and> o_lv q = o_lv p
     \<and> o_r q = o_r p \<and> o_day q = o_day p \<and> o_now q = o_now p"

lemma same_op_refl [simp]: "same_op p p" by (simp add: same_op_def)

definition good :: "Config \<Rightarrow> op \<Rightarrow> led \<Rightarrow> bool" where
  "good cf p s \<longleftrightarrow> linv cf s \<and> op_ok s \<and> same_op p (lop s)"

section \<open>Errors\<close>

text \<open>No statement of the ledger violates a \<open>CHECK\<close>.\<close>

definition safe :: "lerr \<Rightarrow> bool" where
  "safe e \<longleftrightarrow> e \<noteq> SqlCheck"

abbreviation safeE :: "lerr \<Rightarrow> led \<Rightarrow> bool" where
  "safeE \<equiv> \<lambda>e _. safe e"

lemma safe_simps [simp]:
  "safe (Refuse x)" "safe (Internal m)" "safe (NotFound m)" "safe SqlUnique" "\<not> safe SqlCheck"
  "safe (refuse c)" "safe (refuseDay c now)" "safe (spendLimitRefusal w v now)" "safe (refusal p short cl)"
  by (simp_all add: safe_def refuse_def refuseDay_def spendLimitRefusal_def refusal_def Let_def)

section \<open>Frames\<close>

lemma day_load_tables:
  assumes "days s' = days s" "pools s' = pools s"
  shows "day_load s' r day = day_load s r day"
proof -
  have "pool_at s' = pool_at s" using assms by (simp add: pool_at_def fun_eq_iff)
  then have "raw_pool s' = raw_pool s" by (simp add: raw_pool_def [abs_def])
  then show ?thesis
    using assms \<open>pool_at s' = pool_at s\<close> by (simp add: day_load_def day_at_def bad_pool_row_def cong: if_cong option.case_cong)
qed

lemma day_load_frame [simp]:
  "day_load (s\<lparr>claims := x1\<rparr>) r day = day_load s r day" "day_load (s\<lparr>client_spend := x2\<rparr>) r day = day_load s r day"
  "day_load (s\<lparr>usage := x3\<rparr>) r day = day_load s r day" "day_load (s\<lparr>lots := x4\<rparr>) r day = day_load s r day"
  "day_load (s\<lparr>lots_seq := x5\<rparr>) r day = day_load s r day" "day_load (s\<lparr>entries := x6\<rparr>) r day = day_load s r day"
  "day_load (s\<lparr>entries_seq := x7\<rparr>) r day = day_load s r day" "day_load (s\<lparr>holds := x8\<rparr>) r day = day_load s r day"
  "day_load (s\<lparr>hold_parts := x9\<rparr>) r day = day_load s r day" "day_load (s\<lparr>transfers := x10\<rparr>) r day = day_load s r day"
  "day_load (s\<lparr>breakers := x11\<rparr>) r day = day_load s r day" "day_load (s\<lparr>breakers_seq := x12\<rparr>) r day = day_load s r day"
  "day_load (s\<lparr>spend_limits := x13\<rparr>) r day = day_load s r day" "day_load (s\<lparr>limit_usage := x14\<rparr>) r day = day_load s r day"
  "day_load (s\<lparr>limit_holds := x15\<rparr>) r day = day_load s r day" "day_load (s\<lparr>limit_hold_shares := x16\<rparr>) r day = day_load s r day"
  "day_load (s\<lparr>lop := x17\<rparr>) r day = day_load s r day" "day_load (s\<lparr>refusals := x18\<rparr>) r day = day_load s r day"
  by (rule day_load_tables; simp)+

lemma tables_ok_cong: "days s' = days s \<Longrightarrow> pools s' = pools s \<Longrightarrow> tables_ok s' = tables_ok s"
  by (simp add: tables_ok_def pools_full_def pool_at_def day_at_def)

lemma tables_ok_frame [simp]:
  "tables_ok (s\<lparr>claims := x1\<rparr>) = tables_ok s" "tables_ok (s\<lparr>client_spend := x2\<rparr>) = tables_ok s"
  "tables_ok (s\<lparr>usage := x3\<rparr>) = tables_ok s" "tables_ok (s\<lparr>lots := x4\<rparr>) = tables_ok s"
  "tables_ok (s\<lparr>lots_seq := x5\<rparr>) = tables_ok s" "tables_ok (s\<lparr>entries := x6\<rparr>) = tables_ok s"
  "tables_ok (s\<lparr>entries_seq := x7\<rparr>) = tables_ok s" "tables_ok (s\<lparr>holds := x8\<rparr>) = tables_ok s"
  "tables_ok (s\<lparr>hold_parts := x9\<rparr>) = tables_ok s" "tables_ok (s\<lparr>transfers := x10\<rparr>) = tables_ok s"
  "tables_ok (s\<lparr>breakers := x11\<rparr>) = tables_ok s" "tables_ok (s\<lparr>breakers_seq := x12\<rparr>) = tables_ok s"
  "tables_ok (s\<lparr>spend_limits := x13\<rparr>) = tables_ok s" "tables_ok (s\<lparr>limit_usage := x14\<rparr>) = tables_ok s"
  "tables_ok (s\<lparr>limit_holds := x15\<rparr>) = tables_ok s" "tables_ok (s\<lparr>limit_hold_shares := x16\<rparr>) = tables_ok s"
  "tables_ok (s\<lparr>lop := x17\<rparr>) = tables_ok s" "tables_ok (s\<lparr>refusals := x18\<rparr>) = tables_ok s"
  by (rule tables_ok_cong; simp)+


lemma lots_ok_kept_parts:
  "kept ls ls' \<Longrightarrow> part_ok ls hs p \<Longrightarrow> part_ok ls' hs p"
  unfolding part_ok_def kept_def same_lot_def by metis

lemma holds_ok_kept: "kept ls ls' \<Longrightarrow> holds_ok ex ls hs ps \<Longrightarrow> holds_ok ex ls' hs ps"
  by (auto simp: holds_ok_def intro: lots_ok_kept_parts)

lemma heldsum_fresh:
  assumes "holds_ok ex ls hs ps" "\<forall>x\<in>set ls. l_ID x \<le> n"
  shows "fresh_held (heldsum hs ps) n"
proof -
  have "hp_Lot p \<le> n" if "p \<in> set ps" for p
    using assms that unfolding holds_ok_def part_ok_def by metis
  then have "heldsum hs ps i = 0" if "n < i" for i
    using that unfolding heldsum_def by (intro sum_list_zero) force
  then show ?thesis by (simp add: fresh_held_def)
qed

lemma linv_fresh: "linv cf s \<Longrightarrow> fresh_held (heldsum (holds s) (hold_parts s)) (lots_seq s)"
  by (rule heldsum_fresh [of "{}" "lots s"]) (auto simp: linv_def lots_ok_def)

end
