(* ===== verification/Spend_Inv.thy ===== *)
theory Spend_Inv
  imports Ledger_Inv
begin

text \<open>
  Spending keeps the ledger's invariant: the prelude of every operation, the implicit claim, the
  plan over lots and the day's water, the debit and minting.
\<close>

section \<open>Reads\<close>

lemma wp_params:
  assumes "\<And>p version. ap_ok p \<Longrightarrow> Q (p, version) s" "\<And>m. E (Internal m) s"
  shows "wp (params cf now) Q E s"
  using assms ParseAllowanceParams_valid Validate_ap_ok
  by (auto simp: params_def wp_rules split: sum.splits prod.splits)

lemma wp_resource:
  assumes "ap_ok p" "\<And>rp. rp_ok rp \<Longrightarrow> Q rp s" "\<And>c. E (refuse c) s"
  shows "wp (resource p r) Q E s"
  using assms by (auto simp: resource_def wp_rules ap_ok_def split: option.splits)

lemma wp_levers:
  assumes "\<And>lv. Q lv s" "\<And>m. E (Internal m) s"
  shows "wp (levers cf now) Q E s"
  using assms by (auto simp: levers_def wp_rules split: option.splits sum.splits)

lemma day_load_error: "tables_ok s \<Longrightarrow> day_load s r day \<noteq> Inl e"
  using tables_ok_bad [of s r day] by (auto simp: day_load_def Let_def split: option.splits)

lemma wp_loadDay:
  assumes "days_ok s" and "day_load s r day = Inr None \<Longrightarrow> Q None s"
    and "\<And>d. day_load s r day = Inr (Some d) \<Longrightarrow> slices_ok d \<Longrightarrow> d_Resource d = r \<Longrightarrow> d_Day d = day \<Longrightarrow> Q (Some d) s"
  shows "wp (loadDay r day) Q E s"
  using assms day_load_error [of s r day] day_load_rows(2,3) [of s r day]
  by (auto simp: loadDay_def wp_rules days_ok_def split: sum.splits option.splits)
    (metis old.sum.exhaust option.exhaust)

lemma wp_previousDay:
  assumes "days_ok s" and "\<And>d. Q d s"
  shows "wp (previousDay r day) Q E s"
  using assms by (auto simp: previousDay_def wp_rules intro!: wp_loadDay)

lemma day_load_None: "tables_ok s \<Longrightarrow> day_load s r day = Inr None \<longleftrightarrow> day_at s r day = None"
  using tables_ok_bad [of s r day] by (auto simp: day_load_def Let_def split: option.splits)

section \<open>The prelude\<close>

text \<open>A day written to the tables keeps them well formed.\<close>

lemma days_ok_written:
  assumes "days_ok s" "day_written s s' d" "slices_ok d" shows "days_ok s'"
  using assms by (auto simp: days_ok_def day_written_def)

lemma day_ok_slices_ok: "day_ok d \<Longrightarrow> slices_ok d" by (simp add: day_ok_slices)

text \<open>A journal line of a kind that moves no units.\<close>

lemma linv_days: "linv cf s \<Longrightarrow> days_ok s" by (simp add: linv_def)

lemma days_ok_core [simp]:
  "days_ok (s\<lparr>claims := x1\<rparr>) = days_ok s" "days_ok (s\<lparr>client_spend := x2\<rparr>) = days_ok s"
  "days_ok (s\<lparr>usage := x3\<rparr>) = days_ok s" "days_ok (s\<lparr>lots := x4\<rparr>) = days_ok s"
  "days_ok (s\<lparr>lots_seq := x5\<rparr>) = days_ok s" "days_ok (s\<lparr>entries := x6\<rparr>) = days_ok s"
  "days_ok (s\<lparr>entries_seq := x7\<rparr>) = days_ok s" "days_ok (s\<lparr>holds := x8\<rparr>) = days_ok s"
  "days_ok (s\<lparr>hold_parts := x9\<rparr>) = days_ok s" "days_ok (s\<lparr>transfers := x10\<rparr>) = days_ok s"
  "days_ok (s\<lparr>breakers := x11\<rparr>) = days_ok s" "days_ok (s\<lparr>breakers_seq := x12\<rparr>) = days_ok s"
  "days_ok (s\<lparr>spend_limits := x13\<rparr>) = days_ok s" "days_ok (s\<lparr>limit_usage := x14\<rparr>) = days_ok s"
  "days_ok (s\<lparr>limit_holds := x15\<rparr>) = days_ok s" "days_ok (s\<lparr>limit_hold_shares := x16\<rparr>) = days_ok s"
  "days_ok (s\<lparr>lop := x17\<rparr>) = days_ok s" "days_ok (s\<lparr>refusals := x18\<rparr>) = days_ok s"
  by (simp_all add: days_ok_def)

lemma linv_days_tables:
  "linv cf s \<Longrightarrow> days_ok (s\<lparr>days := ds, pools := ps\<rparr>) \<Longrightarrow> linv cf (s\<lparr>days := ds, pools := ps\<rparr>)"
  by (simp add: linv_def)

lemma journal_lever:
  assumes "linv cf s" "op_ok s" "je_Kind e = k_lever" "je_LotID e = 0"
  shows "wp (journal e) (\<lambda>_ s'. linv cf s' \<and> op_ok s' \<and> lop s' = lop s) safeE s"
proof -
  have "lots_ok (heldsum (holds s) (hold_parts s)) (lots s) (lots_seq s) (entries s @ [e'])"
    if "je_Kind e' = k_lever" "je_LotID e' = 0" for e'
    using assms(1) that by (intro lots_ok_neutral) (auto simp: linv_def neutral_def credit_kinds_def debit_kinds_def lots_ok_def)
  then show ?thesis using assms by (simp add: journal_def wp_rules linv_def op_ok_def Let_def)
qed

definition opened :: "Config \<Rightarrow> Resource \<Rightarrow> int \<Rightarrow> led \<Rightarrow> bool" where
  "opened cf r now s \<longleftrightarrow> linv cf s \<and> op_ok s \<and> o_r (lop s) = r \<and> o_now (lop s) = now \<and> o_day (lop s) = day_of now"

lemma start_op_linv:
  assumes "linv cf s" "ap_ok p" "rp_ok rp" "day_load s r (day_of now) = Inr (Some d)"
  shows "wp (start_op (new_op p version rp lv r now d)) (\<lambda>_. opened cf r now) safeE s"
proof -
  have k: "slices_ok d" "d_Resource d = r" "d_Day d = day_of now"
    using assms(1,4) day_load_rows(2,3) [of s r "day_of now" d] by (auto simp: linv_def days_ok_def)
  define q where "q = new_op p version rp lv r now d"
  have g: "linv cf (s\<lparr>lop := q\<rparr>)" "op_ok (s\<lparr>lop := q\<rparr>)"
    using assms k adjust_spec [OF k(1), of rp lv] by (simp_all add: linv_def op_ok_def q_def new_op_def same_draws_def)
  have o: "o_r q = r" "o_now q = now" "o_day q = day_of now" by (simp_all add: q_def new_op_def)
  have j: "wp (journal ((op_entry q k_lever [] n)\<lparr>je_Detail := m\<rparr>)) (\<lambda>_. opened cf r now) safeE (s\<lparr>lop := q\<rparr>)" for n m
    by (rule wp_conseq [OF journal_lever [OF g]]) (auto simp: opened_def o op_entry_def entry0_def)
  show ?thesis
    unfolding start_op_def q_def [symmetric]
    using g o j by (simp add: wp_rules modifyOp_def opened_def)
qed

lemma computeOpen_frame [simp]:
  "d_Resource (computeOpen r day rp lv prev version now) = r" "d_Day (computeOpen r day rp lv prev version now) = day"
  "d_legacy (computeOpen r day rp lv prev version now) = False"
  by (simp_all add: computeOpen_def Let_def)

lemma open_day_linv:
  assumes i: "linv cf s" and rp: "rp_ok rp"
  shows "wp (open_day r day rp lv version now) (\<lambda>d s'. linv cf s' \<and> day_load s' r day = Inr (Some d)) safeE s"
proof -
  have d: "days_ok s" using i by (rule linv_days)
  let ?Q = "\<lambda>d s'. linv cf s' \<and> day_load s' r day = Inr (Some d)"
  have new: "wp (insertDay dd) (\<lambda>_. ?Q dd) safeE s"
    if n: "day_load s r day = Inr None" and dd: "dd = computeOpen r day rp lv prev version now" for prev dd
  proof (rule wp_insertDay)
    show "tables_ok s" using d by (simp add: days_ok_def)
    show "day_at s (d_Resource dd) (d_Day dd) = None" using n d by (simp add: dd day_load_None days_ok_def)
    show "\<not> d_legacy dd" by (simp add: dd)
    fix ds ps assume w: "day_written s (s\<lparr>days := ds, pools := ps\<rparr>) dd"
    have "slices_ok dd" using day_ok_open [OF rp] by (simp add: dd day_ok_slices)
    from days_ok_written [OF d w this] i w
    show "?Q dd (s\<lparr>days := ds, pools := ps\<rparr>)"
      by (auto simp: day_written_def dd intro: linv_days_tables)
  qed
  show ?thesis
    unfolding open_day_def wp_bindM
    by (rule wp_loadDay [OF d]) (use i in \<open>auto simp: wp_rules intro!: wp_previousDay [OF d] new\<close>)
qed

lemma open_op_linv:
  assumes "linv cf s"
  shows "wp (open_op cf r now) (\<lambda>_. opened cf r now) safeE s"
  unfolding open_op_def wp_bindM
proof (rule wp_params, unfold case_prod_conv wp_bindM)
  fix p version assume p: "ap_ok p"
  show "wp (resource p r) (\<lambda>rp. wp (levers cf now) (\<lambda>lv. wp (open_day r (day_of now) rp lv version now)
      (\<lambda>d. wp (start_op (new_op p version rp lv r now d)) (\<lambda>_. opened cf r now) safeE) safeE) safeE) safeE s"
    by (rule wp_resource [OF p]; (rule wp_levers)?; simp?)
      (rule wp_conseq [OF open_day_linv [OF assms]], auto intro: start_op_linv p)
qed simp

section \<open>Expiring lots\<close>

text \<open>Operations that leave the operation object and the day tables alone.\<close>

definition same_day :: "led \<Rightarrow> led \<Rightarrow> bool" where
  "same_day s s' \<longleftrightarrow> lop s' = lop s \<and> days s' = days s \<and> pools s' = pools s"

lemma same_day_refl [simp]: "same_day s s" by (simp add: same_day_def)

lemma op_ok_same_day: "same_day s s' \<Longrightarrow> op_ok s' = op_ok s"
  using day_load_tables [of s' s] by (simp add: op_ok_def same_day_def)

lemma good_same_day: "good cf p s \<Longrightarrow> same_day s s' \<Longrightarrow> linv cf s' \<Longrightarrow> good cf p s'"
  using op_ok_same_day [of s s'] by (simp add: good_def same_day_def)

definition expire_row :: "lot \<Rightarrow> lot" where
  "expire_row x = x\<lparr>l_Remaining := l_Held x, l_State := (if l_Held x = 0 then lot_expired else l_State x)\<rparr>"

lemma kept_expire [simp]: "kept ls (upd P expire_row ls)"
  by (rule kept_upd) (simp add: same_lot_def expire_row_def)

lemma lots_ok_expire:
  assumes ok: "lots_ok H ls n es" and x: "x \<in> set ls" "0 < spendable x"
    and e: "je_LotID e = l_ID x" "je_Kind e = k_expire" "je_Amount e = spendable x"
  shows "lots_ok H (upd (\<lambda>y. l_ID y = l_ID x) expire_row ls) n (es @ [e])"
proof -
  have b: "lot_bal H es x" "l_ID x \<le> n" using lots_okD [OF ok x(1)] by auto
  have "lot_bal H (es @ [e]) (expire_row x)"
    using b x(2) e by (auto simp: lot_bal_def lot_ok_def lot_check_def expire_row_def spendable_def credit_kinds_def debit_kinds_def)
  then show ?thesis
    using lots_ok_update [OF ok x(1), of expire_row "[e]" "H (l_ID x)"] e b by (simp add: expire_row_def)
qed

text \<open>A list of lots of the table, still as they were read.\<close>

definition pending_lots :: "Config \<Rightarrow> led \<Rightarrow> lot list \<Rightarrow> led \<Rightarrow> bool" where
  "pending_lots cf s0 ys s \<longleftrightarrow> linv cf s \<and> same_day s0 s \<and> distinct (map l_ID ys) \<and> set ys \<subseteq> set (lots s)"

lemma pending_lots_upd:
  "l_ID x \<notin> l_ID ` set ys \<Longrightarrow> set ys \<subseteq> set ls \<Longrightarrow> set ys \<subseteq> set (upd (\<lambda>z. l_ID z = l_ID x) f ls)"
  unfolding subset_iff in_upd by (metis (mono_tags, lifting) imageI)

lemma expireLot_step:
  assumes "pending_lots cf s0 (x # ys) s" "0 < spendable x"
  shows "wp (expireLot r account (l_ID x) b (spendable x) version now) (\<lambda>_. pending_lots cf s0 ys) safeE s"
proof -
  have i: "linv cf s" and x: "x \<in> set (lots s)" using assms(1) by (auto simp: pending_lots_def)
  let ?H = "heldsum (holds s) (hold_parts s)" and ?ls = "upd (\<lambda>y. l_ID y = l_ID x) expire_row (lots s)"
  have L: "lots_ok ?H ?ls (lots_seq s) (entries s @ [e])"
    if "je_LotID e = l_ID x" "je_Kind e = k_expire" "je_Amount e = spendable x" for e
    using i x assms(2) that by (intro lots_ok_expire) (auto simp: linv_def)
  have c: "list_all lot_check ?ls"
    by (rule lots_ok_check, rule L [of "(entry0 0 0 k_expire [] Credit (spendable x) 0)\<lparr>je_LotID := l_ID x\<rparr>"])
      (simp_all add: entry0_def)
  have h: "holds_ok {} ?ls (holds s) (hold_parts s)"
    using i holds_ok_kept [OF kept_expire] by (auto simp: linv_def)
  have sub: "set ys \<subseteq> set ?ls" using assms(1) by (intro pending_lots_upd) (auto simp: pending_lots_def)
  show ?thesis
    using assms(1) c h i sub
    by (simp add: expireLot_def wp_rules journal_def pending_lots_def linv_def same_day_def L entry0_def
        expire_row_def [abs_def, symmetric])
qed

lemma sweepOwn_good:
  assumes "good cf p s"
  shows "wp (sweepOwn account) (\<lambda>_. good cf p) safeE s"
proof -
  let ?due = "take LotsPerAccount (filter (\<lambda>x. l_Account x = account \<and> l_Resource x = o_r (lop s) \<and> due_lot (o_now (lop s)) x) (lots s))"
  have i: "linv cf s" using assms by (simp add: good_def)
  have dist: "distinct (map l_ID ?due)"
    using i by (auto simp: linv_def lots_ok_def take_map [symmetric] distinct_map_filter)
  have sub: "set ?due \<subseteq> set (lots s)" by (auto dest: in_set_takeD)
  have pos: "0 < spendable x" if "x \<in> set ?due" for x
    using in_set_takeD [OF that] by (auto simp: due_lot_def spendable_def)
  have "wp (forM ?due (\<lambda>x. expireLot (o_r (lop s)) account (l_ID x) (l_Bucket x) (spendable x) (o_version (lop s)) (o_now (lop s))))
      (\<lambda>_. good cf p) safeE s"
  proof (rule wp_forM [where I = "\<lambda>ys s'. pending_lots cf s ys s' \<and> (\<forall>y\<in>set ys. 0 < spendable y)"])
    show "pending_lots cf s ?due s \<and> (\<forall>y\<in>set ?due. 0 < spendable y)"
      using i dist sub pos by (simp add: pending_lots_def)
    show "good cf p s'" if "pending_lots cf s [] s' \<and> (\<forall>y\<in>set []. 0 < spendable y)" for s'
      using that assms by (auto simp: pending_lots_def intro: good_same_day)
    fix x ys s' assume "pending_lots cf s (x # ys) s' \<and> (\<forall>y\<in>set (x # ys). 0 < spendable y)"
    then show "wp (expireLot (o_r (lop s)) account (l_ID x) (l_Bucket x) (spendable x) (o_version (lop s)) (o_now (lop s)))
       (\<lambda>_ s'. pending_lots cf s ys s' \<and> (\<forall>y\<in>set ys. 0 < spendable y)) safeE s'"
      by (intro wp_conseq [OF expireLot_step]) auto
  qed
  then show ?thesis by (simp add: sweepOwn_def wp_rules)
qed

section \<open>The claim\<close>

lemma wp_classify:
  assumes "\<And>st. Q (normalise sb st) s" "\<And>m. E (Internal m) s"
  shows "wp (classify cf sb now) Q E s"
  using assms by (auto simp: classify_def wp_rules split: sum.splits)

lemma wp_share:
  assumes "\<And>sh. Q sh s" shows "wp (share d rp lv st rd subject) Q E s"
  using assms by (auto simp: share_def Let_def wp_rules legacyShare_def split: prod.splits)

lemma wp_tripBreaker:
  assumes "\<And>bs n. Q () (s\<lparr>breakers := bs, breakers_seq := n\<rparr>)"
  shows "wp (tripBreaker p account reason cancelKey now) Q E s"
  using assms [where bs = "breakers s" and n = "breakers_seq s"] assms by (simp add: tripBreaker_def wp_rules)

lemma wp_dormantCheck:
  assumes "\<And>bs n. Q () (s\<lparr>breakers := bs, breakers_seq := n\<rparr>)"
  shows "wp (dormantCheck account) Q E s"
  using assms [where bs = "breakers s" and n = "breakers_seq s"] assms
  by (auto simp: dormantCheck_def wp_rules intro!: wp_tripBreaker)

lemma claim_day_ok: "day_ok d \<Longrightarrow> day_ok (claim_day p st rd standing d)"
  by (simp add: claim_day_def Let_def day_ok_defs)

lemma claim_day_frame [simp]:
  "d_Resource (claim_day p st rd standing d) = d_Resource d" "d_Day (claim_day p st rd standing d) = d_Day d"
  "d_OpenedAt (claim_day p st rd standing d) = d_OpenedAt d" "d_legacy (claim_day p st rd standing d) = d_legacy d"
  "d_ParamsVersion (claim_day p st rd standing d) = d_ParamsVersion d"
  by (simp_all add: claim_day_def Let_def)

lemma good_op_d:
  assumes "good cf p s" "day_ok d" "d_Resource d = d_Resource (o_d (lop s))" "d_Day d = d_Day (o_d (lop s))"
    "d_OpenedAt d = d_OpenedAt (o_d (lop s))" "d_ParamsVersion d = d_ParamsVersion (o_d (lop s))"
    "d_legacy d = d_legacy (o_d (lop s))"
  shows "good cf p (s\<lparr>lop := (lop s)\<lparr>o_d := d\<rparr>\<rparr>)"
  using assms by (auto simp: good_def linv_def op_ok_def same_op_def Let_def)

text \<open>The parts of the state the invariant reads; every other table is free.\<close>

definition goodv :: "Config \<Rightarrow> op \<Rightarrow> dayRow list \<Rightarrow> poolRow list \<Rightarrow> lot list \<Rightarrow> int \<Rightarrow> entry list
    \<Rightarrow> holdRow list \<Rightarrow> partRow list \<Rightarrow> transferRow list \<Rightarrow> op \<Rightarrow> bool" where
  "goodv cf p ds ps ls n es hs hps ts q \<longleftrightarrow>
     good cf p \<lparr>days = ds, pools = ps, claims = [], client_spend = [], usage = [], lots = ls, lots_seq = n,
       entries = es, entries_seq = 0, holds = hs, hold_parts = hps, transfers = ts, breakers = [], breakers_seq = 0,
       spend_limits = [], limit_usage = [], limit_holds = [], limit_hold_shares = [], lop = q, refusals = []\<rparr>"

lemma days_ok_tables: "days s' = days s \<Longrightarrow> pools s' = pools s \<Longrightarrow> days_ok s' = days_ok s"
  using tables_ok_cong [of s' s] day_load_tables [of s' s] by (simp add: days_ok_def)

lemma good_view:
  "good cf p s = goodv cf p (days s) (pools s) (lots s) (lots_seq s) (entries s) (holds s) (hold_parts s) (transfers s) (lop s)"
  proof -
  define s' where "s' = \<lparr>days = days s, pools = pools s, claims = [], client_spend = [], usage = [], lots = lots s, lots_seq = lots_seq s,
       entries = entries s, entries_seq = 0, holds = holds s, hold_parts = hold_parts s, transfers = transfers s, breakers = [], breakers_seq = 0,
       spend_limits = [], limit_usage = [], limit_holds = [], limit_hold_shares = [], lop = lop s, refusals = []\<rparr>"
  have "good cf p s = good cf p s'"
    using days_ok_tables [of s' s] day_load_tables [of s' s] by (simp add: s'_def good_def linv_def op_ok_def Let_def)
  then show ?thesis by (simp add: goodv_def s'_def)
qed

lemma good_set_lop:
  assumes "good cf p s" "same_op (lop s) q" "o_d q = o_d (lop s)" "o_orig q = o_orig (lop s)"
  shows "good cf p (s\<lparr>lop := q\<rparr>)"
  using assms by (auto simp: good_def linv_def op_ok_def same_op_def Let_def)

text \<open>A credited lot with its journal line.\<close>

lemma good_credited:
  assumes g: "good cf p s" and c: "credited (heldsum (holds s) (hold_parts s)) (lots s) (lots_seq s) (entries s) i amount ls' n'"
    and l: "credit_line i amount n' fs"
  shows "good cf p (s\<lparr>lots := ls', lots_seq := n', entries := entries s @ fs\<rparr>)"
proof -
  have "lots_ok (heldsum (holds s) (hold_parts s)) ls' n' (entries s @ fs)" "kept (lots s) ls'"
    using c l by (auto simp: credited_def intro: grown_kept)
  with g show ?thesis
    using holds_ok_kept [of "lots s" ls'] by (simp add: good_def linv_def op_ok_def)
qed

lemma credit_line_single:
  "je_LotID e = i \<Longrightarrow> je_Kind e \<in> credit_kinds \<Longrightarrow> je_Amount e = amount \<Longrightarrow> i \<le> n \<Longrightarrow> credit_line i amount n [e]"
  by (auto simp: credit_line_def credit_kinds_def debit_kinds_def)

lemma good_neutral:
  assumes "good cf p s" "neutral fs" "\<forall>e\<in>set fs. je_LotID e \<le> lots_seq s"
  shows "good cf p (s\<lparr>entries := entries s @ fs\<rparr>)"
  using assms lots_ok_neutral by (simp add: good_def linv_def op_ok_def)

lemma good_null_line:
  assumes "good cf p s" "je_LotID e = 0"
  shows "good cf p (s\<lparr>entries := entries s @ [e]\<rparr>)"
proof -
  have "lots_ok H ls n (es @ [e])" if "lots_ok H ls n es" for H ls n es
    using that assms(2) by (fastforce simp: lots_ok_def lot_bal_def)
  then show ?thesis using assms(1) by (simp add: good_def linv_def op_ok_def)
qed

lemma new_claim_lot: "0 < ent \<Longrightarrow> new_lot_ok (claim_lot p subject origin ent) \<and> l_Remaining (claim_lot p subject origin ent) = ent"
  by (auto simp: new_lot_ok_def claim_lot_def Let_def split: prod.splits)

lemma wp_insertClaim:
  assumes "\<And>cs. Q () (s\<lparr>claims := cs\<rparr>)" "E SqlUnique s" shows "wp (insertClaim c) Q E s"
  using assms by (simp add: insertClaim_def wp_rules)

lemma record_claim_good:
  assumes "\<And>e. je_LotID e = lot_id \<Longrightarrow> je_Kind e = k_claim \<Longrightarrow> je_Amount e = flr + standing
      \<Longrightarrow> good cf p (s\<lparr>entries := entries s @ [e]\<rparr>)"
  shows "wp (record_claim q sb st flr standing lot_id) (\<lambda>_. good cf p) safeE s"
  unfolding record_claim_def Let_def wp_thenM
  using assms
  by (intro wp_insertClaim) (auto simp: wp_rules journal_def op_entry_def entry0_def good_view intro!: wp_dormantCheck)

lemma new_claim_good:
  assumes g: "good cf p s"
  shows "wp (new_claim q sb st rd sh) (\<lambda>_. good cf p) safeE s"
proof -
  define ent where "ent = sh_Floor sh + sh_Standing sh"
  let ?s = "s\<lparr>lop := (lop s)\<lparr>o_d := claim_day q st rd (sh_Standing sh) (o_d (lop s))\<rparr>\<rparr>"
  let ?x = "claim_lot q (s_ID sb) (claim_origin st (sh_Standing sh)) ent"
  let ?Q = "\<lambda>lot_id. wp (record_claim q sb st (sh_Floor sh) (sh_Standing sh) lot_id) (\<lambda>_. good cf p) safeE"
  have g': "good cf p ?s" using g by (intro good_op_d) (auto simp: good_def op_ok_def claim_day_ok Let_def)
  have "wp (insertLot (o_r q) ?x (o_now q)) ?Q safeE ?s" if "0 < ent"
  proof (rule wp_insertLot)
    show "lots_ok (heldsum (holds ?s) (hold_parts ?s)) (lots ?s) (lots_seq ?s) (entries ?s)"
      using g' by (simp add: good_def linv_def)
    show "fresh_held (heldsum (holds ?s) (hold_parts ?s)) (lots_seq ?s)"
      using linv_fresh [of cf ?s] g' by (simp add: good_def)
    show "new_lot_ok ?x" using new_claim_lot [OF that] by simp
    fix i ls' n'
    assume c: "credited (heldsum (holds ?s) (hold_parts ?s)) (lots ?s) (lots_seq ?s) (entries ?s) i (l_Remaining ?x) ls' n'"
    have "good cf p (?s\<lparr>lots := ls', lots_seq := n', entries := entries ?s @ [e]\<rparr>)"
      if "je_LotID e = i" "je_Kind e = k_claim" "je_Amount e = ent" for e
      using c that new_claim_lot [OF \<open>0 < ent\<close>]
      by (intro good_credited [OF g' c] credit_line_single) (auto simp: credit_kinds_def credited_def)
    then show "?Q i (?s\<lparr>lots := ls', lots_seq := n'\<rparr>)"
      by (intro record_claim_good) (simp add: ent_def)
  qed
  moreover have "?Q 0 ?s" by (rule record_claim_good) (simp add: good_null_line [OF g', simplified])
  ultimately show ?thesis
    by (simp add: new_claim_def Let_def wp_rules modifyOp_def ent_def [symmetric])
qed

lemma claim_good:
  assumes g: "good cf p s"
  shows "wp (claim cf sb) (\<lambda>_. good cf p) safeE s"
  unfolding claim_def
  by (auto simp: wp_rules loadClaim_def loadRootDay_def g split: option.split
      intro!: wp_classify wp_share new_claim_good [OF g])

section \<open>Saving\<close>

lemma wp_insertPools_any: "wp (forM xs (\<lambda>(row, p). insertPool d row p)) (\<lambda>_ _. True) safeE s"
  by (rule wp_forM [where I = "\<lambda>_ _. True"]) (auto simp: insertPool_def wp_rules split: prod.splits)

lemma wp_saveDay_any: "wp (saveDay d orig) (\<lambda>_ _. True) safeE s"
  by (cases "d = orig"; cases "d_legacy orig")
    (simp_all add: saveDay_def wp_thenM wp_modifyM wp_ret wp_save_loop wp_insertPools_any)

lemma wp_save_any: "wp save (\<lambda>_ _. True) safeE s"
  by (auto simp: save_def wp_rules modifyOp_def intro: wp_conseq [OF wp_saveDay_any])

lemma slices_ok_legacy [simp]: "slices_ok (d\<lparr>d_legacy := b\<rparr>) = slices_ok d" "day_ok (d\<lparr>d_legacy := b\<rparr>) = day_ok d"
  by (simp_all add: slices_ok_def day_ok_def lending_ok_def allocated_def)

lemma save_good:
  assumes g: "good cf p s"
  shows "wp save (\<lambda>_. good cf p) safeE s"
  unfolding save_def wp_bindM wp_gets
proof (rule wp_saveDay)
  let ?d = "o_d (lop s)" and ?o = "o_orig (lop s)"
  have o: "op_ok s" and i: "linv cf s" using g by (auto simp: good_def)
  show "tables_ok s" using i by (simp add: linv_def days_ok_def)
  show "day_load s (d_Resource ?d) (d_Day ?d) = Inr (Some ?o)" "d_OpenedAt ?d = d_OpenedAt ?o"
    "d_ParamsVersion ?d = d_ParamsVersion ?o" "d_legacy ?d = d_legacy ?o"
    using o by (simp_all add: op_ok_def Let_def)
  fix ds ps d' assume d': "d' = ?d \<or> d' = ?d\<lparr>d_legacy := False\<rparr>" and w: "day_written s (s\<lparr>days := ds, pools := ps\<rparr>) d'"
  have f: "day_ok d'" "d_Resource d' = d_Resource ?d" "d_Day d' = d_Day ?d"
    using d' o by (auto simp: op_ok_def Let_def)
  have "days_ok (s\<lparr>days := ds, pools := ps\<rparr>)"
    using days_ok_written [OF _ w] i f by (simp add: linv_def day_ok_slices)
  moreover have "day_load (s\<lparr>days := ds, pools := ps\<rparr>) (d_Resource ?d) (d_Day ?d) = Inr (Some d')"
    using w f by (simp add: day_written_def)
  ultimately have "good cf p (s\<lparr>days := ds, pools := ps, lop := (lop s)\<lparr>o_d := d', o_orig := d'\<rparr>\<rparr>)"
    using g f by (auto simp: good_def linv_def op_ok_def same_op_def Let_def)
  then show "wp (case (d', d') of (d, orig) \<Rightarrow> modifyOp (\<lambda>q. q\<lparr>o_d := d, o_orig := orig\<rparr>)) (\<lambda>_. good cf p) safeE
        (s\<lparr>days := ds, pools := ps\<rparr>)"
    by (simp add: wp_rules modifyOp_def)
qed

section \<open>Plans\<close>

text \<open>A plan's parts: distinct lots of the table, each giving at most what it has to spend.\<close>

definition parts_of :: "string \<Rightarrow> Resource \<Rightarrow> lot list \<Rightarrow> part list \<Rightarrow> bool" where
  "parts_of account r ls parts \<longleftrightarrow> distinct (map (\<lambda>q. l_ID (p_Lot q)) parts)
     \<and> (\<forall>q\<in>set parts. 0 < p_Take q \<and> (\<exists>x\<in>set ls. same_lot x (p_Lot q) \<and> l_Account x = account \<and> l_Resource x = r
        \<and> p_Take q \<le> spendable x))"

text \<open>The lots a plan reads: the account's live lots, a claim lot possibly capped in memory.\<close>

definition planned :: "string \<Rightarrow> Resource \<Rightarrow> lot list \<Rightarrow> lot list \<Rightarrow> bool" where
  "planned account r ls xs \<longleftrightarrow> distinct (map l_ID xs)
     \<and> (\<forall>y\<in>set xs. \<exists>x\<in>set ls. same_lot x y \<and> l_Account x = account \<and> l_Resource x = r \<and> spendable y \<le> spendable x)"

lemma planned_live:
  assumes "distinct (map l_ID ls)"
  shows "planned account r ls (take n (sort_key spendOrder (filter (\<lambda>x. is_live account r x \<and> P x) ls)))"
proof -
  let ?xs = "sort_key spendOrder (filter (\<lambda>x. is_live account r x \<and> P x) ls)"
  have "distinct (map l_ID (filter (\<lambda>x. is_live account r x \<and> P x) ls))" using assms by (rule distinct_map_filter)
  then have "distinct (map l_ID ?xs)" by (simp add: distinct_map)
  then have "distinct (map l_ID (take n ?xs))" by (simp add: take_map [symmetric])
  then show ?thesis
    by (auto simp: planned_def is_live_def dest!: in_set_takeD intro!: bexI same_lot_refl)
qed

lemma planned_cap:
  assumes "planned account r ls xs" shows "planned account r ls (capOwn rp xs c)"
proof (cases "c_LotID c = 0")
  case False
  have c: "same_lot y (cap_lot c l y) \<and> spendable (cap_lot c l y) \<le> spendable y" for y l
    by (simp add: cap_lot_def Let_def same_lot_def spendable_def)
  have m: "map l_ID (map (cap_lot c l) xs) = map l_ID xs" for l
    using c by (simp add: same_lot_def)
  have "distinct (map l_ID (capOwn rp xs c))"
    using assms False by (simp add: planned_def capOwn_def m del: map_map)
  moreover have "\<exists>x\<in>set ls. same_lot x (cap_lot c l y) \<and> l_Account x = account \<and> l_Resource x = r \<and> spendable (cap_lot c l y) \<le> spendable x"
    if "y \<in> set xs" for y l
    using assms that c [of y l] unfolding planned_def by (meson order_trans same_lot_trans)
  ultimately show ?thesis using False by (auto simp: planned_def capOwn_def)
qed (use assms in \<open>simp add: capOwn_def\<close>)

definition free_units :: "part list \<Rightarrow> int" where
  "free_units parts = (\<Sum>q\<leftarrow>parts. if l_Bucket (p_Lot q) = Free then p_Take q else 0)"

definition taken :: "part list \<Rightarrow> int" where
  "taken parts = (\<Sum>q\<leftarrow>parts. p_Take q)"

definition same_meta :: "dayState \<Rightarrow> dayState \<Rightarrow> bool" where
  "same_meta d d' \<longleftrightarrow> d_Resource d' = d_Resource d \<and> d_Day d' = d_Day d \<and> d_OpenedAt d' = d_OpenedAt d
     \<and> d_ParamsVersion d' = d_ParamsVersion d \<and> d_legacy d' = d_legacy d \<and> d_SpentNonpaid d' = d_SpentNonpaid d
     \<and> d_SpentPaid d' = d_SpentPaid d \<and> d_Budget d' = d_Budget d"

lemma same_meta_refl [simp]: "same_meta d d" by (simp add: same_meta_def)

definition plan_ok :: "op \<Rightarrow> int \<Rightarrow> string \<Rightarrow> Resource \<Rightarrow> lot list \<Rightarrow> lot list \<Rightarrow> planst \<Rightarrow> bool" where
  "plan_ok p units account r ls seen z \<longleftrightarrow> parts_of account r ls (ps_parts z)
     \<and> (\<lambda>q. l_ID (p_Lot q)) ` set (ps_parts z) \<subseteq> l_ID ` set seen
     \<and> ps_got z = taken (ps_parts z) \<and> 0 \<le> ps_got z \<and> ps_got z \<le> units
     \<and> day_ok (ps_d z) \<and> same_meta (o_d p) (ps_d z)
     \<and> water (ps_d z) = water (o_d p) - free_units (ps_parts z)"

lemma free_room_le: "fst (free_room p d origin) \<le> drawable d (o_rp p) origin (o_now p)"
  by (auto simp: free_room_def Let_def split: prod.splits)

lemma draw_exact:
  assumes "day_ok d" "0 < tk" "tk \<le> drawable d rp origin now"
  shows "day_ok (snd (draw d rp origin tk now)) \<and> water (snd (draw d rp origin tk now)) = water d - tk
    \<and> same_meta d (snd (draw d rp origin tk now))"
proof -
  obtain got d' where D: "draw d rp origin tk now = (got, d')" by fastforce
  show ?thesis
    using draw_spec [OF assms(1) D] draw_frame [OF D] assms(2,3) by (simp add: D same_meta_def)
qed

text \<open>Adding one part to the plan.\<close>

lemma plan_ok_add:
  assumes z: "plan_ok p units account r ls seen z" and y: "y \<notin> l_ID ` set seen" "y = l_ID x"
    and x: "\<exists>w\<in>set ls. same_lot w x \<and> l_Account w = account \<and> l_Resource w = r \<and> spendable x \<le> spendable w"
    and t: "0 < tk" "tk \<le> units - ps_got z" "tk \<le> spendable x"
    and d: "day_ok d" "same_meta (ps_d z) d" "water d = water (ps_d z) - (if l_Bucket x = Free then tk else 0)"
  shows "plan_ok p units account r ls (seen @ [x])
    (z'\<lparr>ps_d := d, ps_parts := ps_parts z @ [\<lparr>p_Lot = x, p_Take = tk\<rparr>], ps_got := ps_got z + tk\<rparr>)"
proof -
  obtain w where w: "w \<in> set ls" "same_lot w x" "l_Account w = account" "l_Resource w = r" "spendable x \<le> spendable w"
    using x by blast
  have "y \<notin> (\<lambda>q. l_ID (p_Lot q)) ` set (ps_parts z)" using z y(1) by (auto simp: plan_ok_def)
  then have P: "parts_of account r ls (ps_parts z @ [\<lparr>p_Lot = x, p_Take = tk\<rparr>])"
    using z w t y(2) by (auto simp: plan_ok_def parts_of_def intro!: bexI [of _ w])
  show ?thesis
    using z P t d unfolding plan_ok_def
    by (auto simp: taken_def free_units_def same_meta_def)
qed

lemma plan_ok_seen: "plan_ok p units account r ls seen z \<Longrightarrow> plan_ok p units account r ls (seen @ [x]) z"
  by (auto simp: plan_ok_def)

lemma plan_ok_flags:
  "plan_ok p units account r ls seen (z\<lparr>ps_noLot := a, ps_noBand := b\<rparr>) = plan_ok p units account r ls seen z"
  "plan_ok p units account r ls seen (z\<lparr>ps_dry := a, ps_hour := c\<rparr>) = plan_ok p units account r ls seen z"
  by (simp_all add: plan_ok_def)

lemma plan_lot_ok:
  assumes z: "plan_ok p units account r ls seen z" and y: "l_ID x \<notin> l_ID ` set seen"
    and x: "\<exists>w\<in>set ls. same_lot w x \<and> l_Account w = account \<and> l_Resource w = r \<and> spendable x \<le> spendable w"
  shows "plan_ok p units account r ls (seen @ [x]) (plan_lot p units ok z x)"
proof (cases "ps_got z \<ge> units \<or> \<not> ok x \<or> min (units - ps_got z) (spendable x) \<le> 0")
  case True
  then show ?thesis using plan_ok_seen [OF z] by (auto simp: plan_lot_def Let_def)
next
  case False
  define tk where "tk = min (units - ps_got z) (spendable x)"
  have tk: "0 < tk" "tk \<le> units - ps_got z" "tk \<le> spendable x" using False by (auto simp: tk_def)
  have zd: "day_ok (ps_d z)" using z by (simp add: plan_ok_def)
  show ?thesis
  proof (cases "l_Bucket x = Free")
    case fr: True
    obtain can hourly where c: "free_room p (ps_d z) (l_Origin x) = (can, hourly)" by fastforce
    define z1 where "z1 = (if can < tk then
                      if can = 0 \<and> noShareOrigin p (l_Origin x)
                      then z\<lparr>ps_noLot := True, ps_noBand := (if l_Origin x = originAnonymous then BandAnonymous else BandSigned)\<rparr>
                      else z\<lparr>ps_dry := True, ps_hour := ps_hour z \<or> hourly\<rparr>
                    else z)"
    have E: "plan_lot p units ok z x = (if min tk can \<le> 0 then z1
             else z1\<lparr>ps_d := snd (draw (ps_d z) (o_rp p) (l_Origin x) (min tk can) (o_now p)),
                     ps_parts := ps_parts z @ [\<lparr>p_Lot = x, p_Take = min tk can\<rparr>], ps_got := ps_got z + min tk can\<rparr>)"
      unfolding plan_lot_def Let_def tk_def [symmetric] c case_prod_conv z1_def [symmetric]
      using False fr by (simp add: tk_def)
    have z1: "plan_ok p units account r ls (seen @ [x]) z1"
      using plan_ok_seen [OF z] by (simp add: z1_def plan_ok_flags)
    have "plan_ok p units account r ls (seen @ [x]) (plan_lot p units ok z x)" if pos: "0 < min tk can"
    proof -
      have le: "min tk can \<le> drawable (ps_d z) (o_rp p) (l_Origin x) (o_now p)"
        using free_room_le [of p "ps_d z" "l_Origin x"] by (simp add: c)
      note D = draw_exact [OF zd pos le]
      have "plan_ok p units account r ls (seen @ [x]) (z1\<lparr>ps_d := snd (draw (ps_d z) (o_rp p) (l_Origin x) (min tk can) (o_now p)),
                     ps_parts := ps_parts z @ [\<lparr>p_Lot = x, p_Take = min tk can\<rparr>], ps_got := ps_got z + min tk can\<rparr>)"
        by (rule plan_ok_add [OF z y refl x pos]) (use tk D fr in auto)
      then show ?thesis using pos by (auto simp: E min_le_iff_disj)
    qed
    moreover have "plan_lot p units ok z x = z1" if "min tk can \<le> 0" using that by (simp only: E if_True)
    ultimately show ?thesis using z1 by (cases "0 < min tk can") (simp_all only: not_less)
  next
    case False2: False
    have "plan_lot p units ok z x = z\<lparr>ps_d := ps_d z, ps_parts := ps_parts z @ [\<lparr>p_Lot = x, p_Take = tk\<rparr>], ps_got := ps_got z + tk\<rparr>"
      unfolding plan_lot_def Let_def tk_def [symmetric] using False False2 by (simp add: tk_def)
    moreover have "plan_ok p units account r ls (seen @ [x]) (z\<lparr>ps_d := ps_d z, ps_parts := ps_parts z @ [\<lparr>p_Lot = x, p_Take = tk\<rparr>], ps_got := ps_got z + tk\<rparr>)"
      by (rule plan_ok_add [OF z y refl x]) (use tk zd False2 in auto)
    ultimately show ?thesis by simp
  qed
qed

lemma plan_foldl_ok:
  assumes "plan_ok p units account r ls seen z" "planned account r ls xs" "l_ID ` set seen \<inter> l_ID ` set xs = {}"
  shows "plan_ok p units account r ls (seen @ xs) (foldl (plan_lot p units ok) z xs)"
  using assms
proof (induction xs arbitrary: seen z)
  case (Cons x xs)
  have "plan_ok p units account r ls (seen @ [x]) (plan_lot p units ok z x)"
    using Cons.prems by (intro plan_lot_ok) (auto simp: planned_def)
  moreover have "planned account r ls xs" "l_ID ` set (seen @ [x]) \<inter> l_ID ` set xs = {}"
    using Cons.prems by (auto simp: planned_def)
  ultimately have "plan_ok p units account r ls ((seen @ [x]) @ xs) (foldl (plan_lot p units ok) (plan_lot p units ok z x) xs)"
    by (rule Cons.IH)
  then show ?case by simp
qed simp

text \<open>
  A plan that covers a spend takes exactly the units asked, from distinct lots that have them,
  and draws exactly its free units from the day's water; the day stays well formed.
\<close>

lemma planSpend_exact:
  assumes "0 \<le> units" "day_ok (o_d p)" "planned account r ls xs"
    and "z = foldl (plan_lot p units ok) (plan0 p) xs" "units \<le> ps_got z"
  shows "parts_of account r ls (ps_parts z) \<and> taken (ps_parts z) = units \<and> day_ok (ps_d z)
    \<and> same_meta (o_d p) (ps_d z) \<and> water (ps_d z) = water (o_d p) - free_units (ps_parts z)"
proof -
  have "plan_ok p units account r ls [] (plan0 p)"
    using assms(1,2) by (simp add: plan_ok_def plan0_def parts_of_def taken_def free_units_def)
  from plan_foldl_ok [OF this assms(3)] have "plan_ok p units account r ls xs z" by (simp add: assms(4))
  with assms(5) show ?thesis by (auto simp: plan_ok_def)
qed

lemma wp_planSpend:
  assumes "0 \<le> units" "day_ok (o_d (lop s))" "planned account r (lots s) xs"
    and fail: "\<And>q short. same_op (lop s) q \<Longrightarrow> o_d q = o_d (lop s) \<Longrightarrow> o_orig q = o_orig (lop s) \<Longrightarrow> Q (Inl short) (s\<lparr>lop := q\<rparr>)"
    and good: "\<And>q parts d. same_op (lop s) q \<Longrightarrow> o_d q = o_d (lop s) \<Longrightarrow> o_orig q = o_orig (lop s)
      \<Longrightarrow> parts_of account r (lots s) parts \<Longrightarrow> taken parts = units \<Longrightarrow> day_ok d \<Longrightarrow> same_meta (o_d (lop s)) d
      \<Longrightarrow> water d = water (o_d (lop s)) - free_units parts \<Longrightarrow> Q (Inr (parts, d)) (s\<lparr>lop := q\<rparr>)"
  shows "wp (planSpend xs units ok) Q E s"
proof -
  define z where "z = foldl (plan_lot (lop s) units ok) (plan0 (lop s)) xs"
  define q where "q = (lop s)\<lparr>o_hourBound := ps_hour z, o_noShareLot := ps_noLot z, o_noShareBand := ps_noBand z\<rparr>"
  have q: "same_op (lop s) q" "o_d q = o_d (lop s)" "o_orig q = o_orig (lop s)" by (simp_all add: q_def same_op_def)
  have "Q (Inr (ps_parts z, ps_d z)) (s\<lparr>lop := q\<rparr>)" if "\<not> ps_got z < units"
    using planSpend_exact [OF assms(1-3) z_def] that by (intro good [OF q]) auto
  then show ?thesis
    unfolding planSpend_def Let_def
    by (simp add: wp_rules modifyOp_def z_def [symmetric] q_def [symmetric] fail [OF q])
qed

section \<open>Debits\<close>

lemma wp_credentialCheck:
  assumes "Q () s" "\<And>w v n. E (spendLimitRefusal w v n) s"
  shows "wp (credentialCheck sb units) Q E s"
  using assms by (auto simp: credentialCheck_def wp_rules loadSpendLimit_def credentialSpent_def split: option.splits)

lemma wp_credentialRecord:
  assumes "\<And>a b. Q () (s\<lparr>limit_usage := a, limit_holds := b\<rparr>)"
  shows "wp (credentialRecord sb units i) Q E s"
  using assms [where a = "limit_usage s" and b = "limit_holds s"] assms [where b = "limit_holds s"] assms
  by (auto simp: credentialRecord_def wp_rules addLimitUsage_def)

lemma wp_clientSpend:
  assumes "\<And>a. Q () (s\<lparr>client_spend := a\<rparr>)" "\<And>n. E (refuseDay ''quota_exhausted'' n) s"
  shows "wp (clientSpend sb c units) Q E s"
  using assms assms(1) [of "client_spend s"] by (auto simp: clientSpend_def wp_rules Let_def)

lemma wp_addUsage:
  assumes "\<And>a. Q () (s\<lparr>usage := a\<rparr>)"
  shows "wp (addUsage r day subject sp inc out) Q E s"
  using assms assms [of "usage s"] by (auto simp: addUsage_def wp_rules)

lemma wp_liveLots:
  assumes "distinct (map l_ID (lots s))" "\<And>xs. planned account r (lots s) xs \<Longrightarrow> Q xs s"
  shows "wp (liveLots account r now) Q E s"
  using assms(2) [OF planned_live [OF assms(1), of account r liveLotsMax]] by (simp add: liveLots_def wp_rules)

text \<open>Taking one part of a plan, with its journal line.\<close>

lemma parts_of_kept:
  assumes "parts_of account r ls (q # qs)" "l_ID x = l_ID (p_Lot q)"
  shows "parts_of account r (upd (\<lambda>y. l_ID y = l_ID x) f ls) qs"
  unfolding parts_of_def
proof (intro conjI ballI)
  show "distinct (map (\<lambda>q. l_ID (p_Lot q)) qs)" using assms(1) by (simp add: parts_of_def)
  fix w assume w: "w \<in> set qs"
  show "0 < p_Take w" using assms(1) w by (simp add: parts_of_def)
  have "l_ID (p_Lot w) \<in> (\<lambda>q. l_ID (p_Lot q)) ` set qs" using w by blast
  then have ne: "l_ID (p_Lot w) \<noteq> l_ID x" using assms by (auto simp only: parts_of_def list.map distinct.simps set_map)
  obtain y where y: "y \<in> set ls" "same_lot y (p_Lot w)" "l_Account y = account" "l_Resource y = r" "p_Take w \<le> spendable y"
    using assms(1) w unfolding parts_of_def by (metis list.set_intros(2))
  have "y \<in> set (upd (\<lambda>y. l_ID y = l_ID x) f ls)"
    using y(1,2) ne unfolding in_upd by (metis same_lot_def)
  with y show "\<exists>x\<in>set (upd (\<lambda>y. l_ID y = l_ID x) f ls). same_lot x (p_Lot w) \<and> l_Account x = account \<and> l_Resource x = r \<and> p_Take w \<le> spendable x"
    by blast
qed

text \<open>Parts still to be taken, while the operation's day is \<open>d\<close>.\<close>

definition taking :: "Config \<Rightarrow> op \<Rightarrow> string \<Rightarrow> Resource \<Rightarrow> dayState \<Rightarrow> part list \<Rightarrow> led \<Rightarrow> bool" where
  "taking cf p account r d qs s \<longleftrightarrow> good cf p s \<and> parts_of account r (lots s) qs \<and> o_d (lop s) = d"

lemma debit_part_good:
  assumes t: "taking cf p account r d (q # qs) s" and k: "k \<in> {k_spend, k_fee}"
  shows "wp (debit_part p' sb k ref q) (\<lambda>_. taking cf p account r d qs) safeE s"
proof -
  have g: "good cf p s" using t by (simp add: taking_def)
  let ?H = "heldsum (holds s) (hold_parts s)"
  have ok: "lots_ok ?H (lots s) (lots_seq s) (entries s)" using g by (simp add: good_def linv_def)
  obtain x where x: "x \<in> set (lots s)" "l_ID x = l_ID (p_Lot q)" "p_Take q \<le> spendable x" "0 < p_Take q"
    using t by (auto simp: taking_def parts_of_def same_lot_def)
  have b: "lot_bal ?H (entries s) x" "l_ID x \<le> lots_seq s" using lots_okD [OF ok x(1)] by auto
  then have r: "0 < l_Remaining x" "0 \<le> ?H (l_ID x)"
    using x by (auto simp: lot_bal_def lot_ok_def lot_check_def spendable_def)
  let ?ls = "upd (\<lambda>y. l_ID y = l_ID x) (take_row (p_Take q) 0 0) (lots s)"
  have L: "lots_ok ?H ?ls (lots_seq s) (entries s @ [e])"
    if "je_LotID e = l_ID x" "je_Kind e = k" "je_Amount e = p_Take q" for e
    using lots_ok_take [OF ok x(1), of "p_Take q" 0 0 "[e]"] that k x r b
    by (auto simp: credit_kinds_def debit_kinds_def)
  have h: "holds_ok {} ?ls (holds s) (hold_parts s)"
    using g holds_ok_kept [OF kept_take] by (auto simp: good_def linv_def)
  have T0: "good cf p (s\<lparr>lots := ?ls, entries := entries s @ [e]\<rparr>)"
    if "je_LotID e = l_ID x" "je_Kind e = k" "je_Amount e = p_Take q" for e
    using g L [OF that] h by (simp add: good_def linv_def op_ok_def)
  have T: "taking cf p account r d qs (s\<lparr>lots := ?ls, lop := (lop s)\<lparr>o_spent := z\<rparr>, entries := entries s @ [e], entries_seq := n\<rparr>)"
    "taking cf p account r d qs (s\<lparr>lots := ?ls, entries := entries s @ [e], entries_seq := n\<rparr>)"
    if "je_LotID e = l_ID x" "je_Kind e = k" "je_Amount e = p_Take q" for e n z
    using T0 [OF that] good_set_lop [OF T0 [OF that], of "(lop s)\<lparr>o_spent := z\<rparr>"] t x(2) parts_of_kept [of account r "lots s" q qs x]
    by (simp_all add: taking_def good_view same_op_def)
  show ?thesis
    unfolding debit_part_def wp_thenM
    by (rule wp_takeFrom [OF ok x(1,2)])
      (use x r T in \<open>auto simp: wp_rules journal_def modifyOp_def op_entry_def entry0_def simp flip: x(2)\<close>)
qed

lemma forM_debit_good:
  assumes "taking cf p account r d parts s" "k \<in> {k_spend, k_fee}"
  shows "wp (forM parts (debit_part p' sb k ref)) (\<lambda>_ s'. good cf p s' \<and> o_d (lop s') = d) safeE s"
  by (rule wp_forM [where I = "taking cf p account r d"])
    (use assms debit_part_good [OF _ assms(2)] in \<open>auto simp: taking_def\<close>)

text \<open>Ending a debit: the day's copy becomes the day, with the units counted.\<close>

lemma spend_day_ok: "day_ok d \<Longrightarrow> day_ok (spend_day d np units)"
  by (simp add: spend_day_def day_ok_defs)

lemma good_spend_day:
  assumes "good cf p s" "day_ok d" "same_meta (o_d (lop s)) d"
  shows "good cf p (s\<lparr>lop := (lop s)\<lparr>o_d := spend_day d np units\<rparr>\<rparr>)"
  using assms(2,3) by (intro good_op_d [OF assms(1)]) (auto simp: spend_day_def day_ok_defs same_meta_def)

lemma debit_write_good:
  assumes t: "taking cf p (s_ID sb) r d0 parts s" and k: "k \<in> {k_spend, k_fee}"
    and d: "day_ok d" "same_meta d0 d"
  shows "wp (debit_write p' sb c units k ref parts d) (\<lambda>_. good cf p) safeE s"
proof -
  have loop: "wp (forM parts (debit_part p' sb k ref)) (\<lambda>_. wp (thenM (modifyOp (\<lambda>q. q\<lparr>o_d := spend_day d (nonpaid parts) units\<rparr>))
      (addUsage (o_r p') (o_day p') (s_ID sb) units 0 0)) (\<lambda>_. good cf p) safeE) safeE s'"
    if "taking cf p (s_ID sb) r d0 parts s'" "k \<in> {k_spend, k_fee}" for s' k
  proof (rule wp_conseq [OF forM_debit_good [OF that]])
    fix s' assume "good cf p s' \<and> o_d (lop s') = d0"
    then have "good cf p (s'\<lparr>lop := (lop s')\<lparr>o_d := spend_day d (nonpaid parts) units\<rparr>\<rparr>)"
      using d by (intro good_spend_day) auto
    then show "wp (thenM (modifyOp (\<lambda>q. q\<lparr>o_d := spend_day d (nonpaid parts) units\<rparr>))
      (addUsage (o_r p') (o_day p') (s_ID sb) units 0 0)) (\<lambda>_. good cf p) safeE s'"
      by (auto simp: wp_rules modifyOp_def good_view intro!: wp_addUsage)
  qed simp
  have T: "taking cf p (s_ID sb) r d0 parts (s\<lparr>client_spend := a, limit_usage := b, limit_holds := e, lop := (lop s)\<lparr>o_spent := z\<rparr>\<rparr>)"
    "taking cf p (s_ID sb) r d0 parts (s\<lparr>client_spend := a, limit_usage := b, limit_holds := e\<rparr>)"
    "taking cf p (s_ID sb) r d0 parts (s\<lparr>client_spend := a, lop := (lop s)\<lparr>o_spent := z\<rparr>\<rparr>)"
    "taking cf p (s_ID sb) r d0 parts (s\<lparr>client_spend := a\<rparr>)" for a b e z
    using t good_set_lop [of cf p s "(lop s)\<lparr>o_spent := z\<rparr>"]
    by (auto simp: taking_def good_view same_op_def)
  show ?thesis
    unfolding debit_write_def wp_thenM
    using k by (auto simp: wp_rules modifyOp_def intro!: wp_credentialCheck wp_clientSpend wp_credentialRecord loop [unfolded wp_thenM modifyOp_def wp_modifyM] T)
qed

lemma debit_good:
  assumes g: "good cf p s" and k: "k \<in> {k_spend, k_fee}" and u: "0 \<le> units"
  shows "wp (debit sb c units k ref) (\<lambda>_. good cf p) safeE s"
proof (cases "units = 0")
  case True
  then show ?thesis using g by (simp add: debit_def wp_rules)
next
  case False
  have dist: "distinct (map l_ID (lots s))" and day: "day_ok (o_d (lop s))"
    using g by (auto simp: good_def linv_def lots_ok_def op_ok_def Let_def)
  have "wp (planSpend (capOwn (o_rp (lop s)) ls c) units (\<lambda>_. True)) (\<lambda>res. wp (case res of
        Inl short \<Rightarrow> bindM (gets lop) (\<lambda>q. throw (refusal q short c))
      | Inr (parts, d) \<Rightarrow>
        if d_SpentNonpaid (o_d (lop s)) + nonpaid parts > rp_SpendCeiling (o_rp (lop s))
        then throw (refuseDay ''global_quota_exhausted'' (o_now (lop s)))
        else debit_write (lop s) sb c units k ref parts d) (\<lambda>_. good cf p) safeE) safeE s"
    if "planned (s_ID sb) (o_r (lop s)) (lots s) ls" for ls
  proof (rule wp_planSpend [OF u day planned_cap [OF that]], goal_cases)
    case (1 q short)
    then show ?case by (simp add: wp_rules)
  next
    case (2 q parts d)
    then have "taking cf p (s_ID sb) (o_r (lop s)) (o_d (lop s)) parts (s\<lparr>lop := q\<rparr>)"
      using good_set_lop [OF g] by (simp add: taking_def)
    from debit_write_good [OF this k 2(6,7)] show ?case by (simp add: wp_rules)
  qed
  then show ?thesis
    using False by (auto simp: debit_def wp_rules intro!: wp_liveLots [OF dist])
qed

section \<open>Spend\<close>

lemma opened_good: "opened cf r now s \<Longrightarrow> good cf (lop s) s"
  by (simp add: opened_def good_def)

lemma good_linv: "good cf p s \<Longrightarrow> linv cf s" by (simp add: good_def)

lemma save_then:
  "good cf p s \<Longrightarrow> (\<And>s'. good cf p s' \<Longrightarrow> wp m Q safeE s') \<Longrightarrow> wp (thenM save m) Q safeE s"
  unfolding wp_thenM by (rule wp_conseq [OF save_good])

lemma save_any_then: "(\<And>s'. wp m Q safeE s') \<Longrightarrow> wp (thenM save m) Q safeE s"
  unfolding wp_thenM by (rule wp_conseq [OF wp_save_any])

lemma wp_noteRefusal:
  assumes "\<And>x. Q () (s\<lparr>refusals := x\<rparr>)" shows "wp (noteRefusal day r e) Q E s"
  using assms assms [of "refusals s"] by (auto simp: noteRefusal_def wp_rules split: lerr.splits)

text \<open>
  The common end of an operation: a failure that is not a refusal is returned at once, anything
  else after saving the day.
\<close>

lemma wp_finish:
  assumes m: "wp m (\<lambda>_. good cf p) safeE s"
    and ok: "\<And>a s'. good cf p s' \<Longrightarrow> wp (k (Inr a)) (\<lambda>_. linv cf) safeE s'"
    and err: "\<And>e s'. safe e \<Longrightarrow> wp (k (Inl e)) (\<lambda>_. linv cf) safeE s'"
  shows "wp (finish m k) (\<lambda>_. linv cf) safeE s"
  unfolding finish_def wp_bindM wp_tryM
proof (rule wp_conseq [OF m])
  fix a s' assume "good cf p s'"
  then show "wp (if (case Inr a of Inl e \<Rightarrow> \<not> isRefusal e | Inr _ \<Rightarrow> False) then throw (projl (Inr a)) else thenM save (k (Inr a)))
      (\<lambda>_. linv cf) safeE s'"
    using save_then [OF _ ok] by simp
next
  fix e s' assume "safe e"
  then show "wp (if (case Inl e of Inl e \<Rightarrow> \<not> isRefusal e | Inr _ \<Rightarrow> False) then throw (projl (Inl e)) else thenM save (k (Inl e)))
      (\<lambda>_. linv cf) safeE s'"
    using save_any_then [OF err] by (simp add: wp_rules)
qed

lemma note_tail:
  "safe e \<Longrightarrow> wp (bindM (gets lop) (\<lambda>p. thenM (noteRefusal (o_day p) r e) (throw e))) Q safeE s"
  by (auto simp: wp_rules intro!: wp_noteRefusal)

text \<open>The prelude of a spend: the day opened, due lots swept, the claim made.\<close>

lemma wp_prelude:
  assumes "linv cf s" "\<And>c s' p. good cf p s' \<Longrightarrow> o_r p = r \<Longrightarrow> o_now p = now \<Longrightarrow> wp (m c) Q safeE s'"
  shows "wp (thenM (open_op cf r now) (thenM (sweepOwn (s_ID sb)) (bindM (claim cf sb) m))) Q safeE s"
  unfolding wp_thenM wp_bindM
proof (rule wp_conseq [OF open_op_linv [OF assms(1)]])
  fix s1 assume "opened cf r now s1"
  then have g: "good cf (lop s1) s1" "o_r (lop s1) = r" "o_now (lop s1) = now" by (auto simp: opened_good opened_def)
  show "wp (sweepOwn (s_ID sb)) (\<lambda>_. wp (claim cf sb) (\<lambda>a. wp (m a) Q safeE) safeE) safeE s1"
    by (rule wp_conseq [OF sweepOwn_good [OF g(1)]]; (rule wp_conseq [OF claim_good])?) (use assms(2) g in auto)
qed simp

lemma Spend_linv:
  assumes "linv cf s" shows "wp (Spend cf sb r units ref now) (\<lambda>_. linv cf) safeE s"
  unfolding Spend_def
  by (auto simp: wp_if wp_throw intro!: wp_prelude [OF assms] wp_finish [OF debit_good] note_tail)
    (auto simp: wp_rules good_linv)

section \<open>Minting\<close>

lemma new_mint_lot:
  "0 < units \<Longrightarrow> new_lot_ok (mint_lot p account b units) \<and> l_Remaining (mint_lot p account b units) = units"
  by (simp add: new_lot_ok_def mint_lot_def)

lemma wp_mint_credit:
  assumes g: "good cf p s" and x: "new_lot_ok x"
    and Q: "\<And>i ls' n'. credited (heldsum (holds s) (hold_parts s)) (lots s) (lots_seq s) (entries s) i (l_Remaining x) ls' n'
      \<Longrightarrow> Q i (s\<lparr>lots := ls', lots_seq := n'\<rparr>)"
  shows "wp (mint_credit r x force now) Q safeE s"
proof -
  have ok: "lots_ok (heldsum (holds s) (hold_parts s)) (lots s) (lots_seq s) (entries s)" using g by (simp add: good_def linv_def)
  note fresh = linv_fresh [OF good_linv [OF g]]
  have ins: "wp (insertLot r x now) Q safeE s" by (rule wp_insertLot [OF ok fresh x]) (rule Q)
  show ?thesis
    unfolding mint_credit_def wp_bindM wp_tryM
  proof (rule wp_creditLot [OF ok fresh x])
    show "wp (case Inl (refuse ''recipient_limit'') of
         Inl e \<Rightarrow> (case e of
             Refuse a \<Rightarrow> if force \<and> e_Code a = ''recipient_limit'' then insertLot r x now else throw e
           | _ \<Rightarrow> throw e)
       | Inr i \<Rightarrow> ret i) Q safeE s"
      using ins by (auto simp: refuse_def wp_rules)
  qed (simp add: wp_rules Q)
qed

lemma mint_draw_ok:
  "day_ok d \<Longrightarrow> 0 \<le> units \<Longrightarrow> units \<le> avail (d_Grant d) \<Longrightarrow> day_ok (setSlice sliceGrant (\<lambda>w. w\<lparr>Claimed := Claimed w + units\<rparr>) d)"
  by (simp add: day_ok_defs)

lemma mint_tail:
  assumes g: "good cf p s" and u: "0 < units"
  shows "wp (bindM (mint_credit r (mint_lot q account b units) force now) (\<lambda>i.
          thenM (journal ((op_entry q (mint_kind b) account units)\<lparr>je_Bucket := Some b, je_LotID := i,
              je_Detail := reason, je_Ref := ref, je_HoldID := hid\<rparr>))
         (thenM save (ret i)))) (\<lambda>_. linv cf) safeE s"
  unfolding wp_bindM
proof (rule wp_mint_credit [OF g])
  show "new_lot_ok (mint_lot q account b units)" using new_mint_lot [OF u] by simp
  fix i ls' n'
  assume c: "credited (heldsum (holds s) (hold_parts s)) (lots s) (lots_seq s) (entries s) i (l_Remaining (mint_lot q account b units)) ls' n'"
  have "good cf p (s\<lparr>lots := ls', lots_seq := n', entries := entries s @ [e], entries_seq := n\<rparr>)"
    if "je_LotID e = i" "je_Kind e = mint_kind b" "je_Amount e = units" for e n
  proof -
    have "credit_line i (l_Remaining (mint_lot q account b units)) n' [e]"
      using that c new_mint_lot [OF u] by (intro credit_line_single) (auto simp: mint_kind_def credit_kinds_def credited_def split: Bucket.splits)
    from good_credited [OF g c this] show ?thesis by (simp add: good_view)
  qed
  then show "wp (thenM (journal ((op_entry q (mint_kind b) account units)\<lparr>je_Bucket := Some b, je_LotID := i,
              je_Detail := reason, je_Ref := ref, je_HoldID := hid\<rparr>)) (thenM save (ret i))) (\<lambda>_. linv cf) safeE
        (s\<lparr>lots := ls', lots_seq := n'\<rparr>)"
    unfolding wp_thenM journal_def wp_modifyM
    by (intro wp_conseq [OF save_good [of cf p]]) (auto simp: op_entry_def entry0_def wp_rules good_linv)
qed

lemma mint_body_linv:
  assumes g: "good cf (lop s) s" and u: "0 < units"
  shows "wp (mint_body (lop s) account r b units reason ref force hid now) (\<lambda>_. linv cf) safeE s"
proof -
  have d: "day_ok (o_d (lop s))" using g by (simp add: good_def op_ok_def Let_def)
  have g2: "good cf (lop s) (s\<lparr>lop := (lop s)\<lparr>o_d := setSlice sliceGrant (\<lambda>w. w\<lparr>Claimed := Claimed w + units\<rparr>) (o_d (lop s))\<rparr>\<rparr>)"
    if "\<not> avail (d_Grant (o_d (lop s))) < units"
    using that u d by (intro good_op_d [OF g] mint_draw_ok) auto
  show ?thesis
    using mint_tail [OF g u] mint_tail [OF g2 u]
    by (auto simp: mint_body_def wp_if wp_thenM [of "if _ then _ else _"] wp_thenM [of "modifyOp _"] wp_thenM [of "ret _"]
        wp_ret modifyOp_def wp_modifyM wp_throw intro!: save_any_then)
qed

lemma mint_linv:
  assumes "linv cf s" shows "wp (mint cf account r b units reason ref force hid now) (\<lambda>_. linv cf) safeE s"
  by (auto simp: mint_def wp_if wp_throw wp_thenM wp_bindM wp_gets
      intro!: wp_conseq [OF open_op_linv [OF assms]] mint_body_linv opened_good)

end
