(* ===== verification/Holds_Inv.thy ===== *)
theory Holds_Inv
  imports Spend_Inv
begin

text \<open>
  Reserving, settling and reimbursing keep the invariant: a new hold's parts are exactly its
  maximum, and settling returns or spends exactly them.
\<close>

section \<open>The invariant while a hold is being built\<close>

definition linvx :: "Config \<Rightarrow> string set \<Rightarrow> led \<Rightarrow> bool" where
  "linvx cf ex s \<longleftrightarrow> days_ok s
     \<and> lots_ok (heldsum (holds s) (hold_parts s)) (lots s) (lots_seq s) (entries s)
     \<and> holds_ok ex (lots s) (holds s) (hold_parts s)
     \<and> transfers_ok cf (holds s) (hold_parts s) (transfers s)"

lemma linv_linvx: "linv cf s = linvx cf {} s"
  by (simp add: linv_def linvx_def)

lemma heldsum_append: "heldsum hs (ps @ qs) i = heldsum hs ps i + heldsum hs qs i"
  by (simp add: heldsum_def)

lemma partsum_append [simp]: "partsum (ps @ qs) h = partsum ps h + partsum qs h"
  by (simp add: partsum_def)

lemma heldsum_add:
  "open_hold hs (hp_Hold p) \<Longrightarrow> heldsum hs (ps @ [p]) = (heldsum hs ps)(hp_Lot p := heldsum hs ps (hp_Lot p) + hp_Units p)"
  by (auto simp: heldsum_append heldsum_def)

lemma open_hold_insert: "i \<noteq> h_ID h \<Longrightarrow> open_hold (hs @ [h]) i = open_hold hs i"
  by (auto simp: open_hold_def)

lemma heldsum_insert:
  assumes "\<forall>p\<in>set ps. hp_Hold p \<noteq> h_ID h"
  shows "heldsum (hs @ [h]) ps = heldsum hs ps"
proof
  fix i
  have "map (\<lambda>p. if hp_Lot p = i \<and> open_hold (hs @ [h]) (hp_Hold p) then hp_Units p else 0) ps
      = map (\<lambda>p. if hp_Lot p = i \<and> open_hold hs (hp_Hold p) then hp_Units p else 0) ps"
    using assms open_hold_insert by (intro map_cong) auto
  then show "heldsum (hs @ [h]) ps i = heldsum hs ps i" unfolding heldsum_def by (rule arg_cong)
qed

lemma parts_exist: "holds_ok ex ls hs ps \<Longrightarrow> p \<in> set ps \<Longrightarrow> hp_Hold p \<in> h_ID ` set hs"
  unfolding holds_ok_def part_ok_def by (metis imageI)

lemma partsum_none: "\<forall>p\<in>set ps. hp_Hold p \<noteq> i \<Longrightarrow> partsum ps i = 0"
  unfolding partsum_def by (intro sum_list_zero) auto

lemma partsum_nonneg: "holds_ok ex ls hs ps \<Longrightarrow> 0 \<le> partsum ps i"
  unfolding partsum_def by (intro sum_list_nonneg_int) (auto simp: holds_ok_def part_ok_def)

lemma set_append_sub: "set xs \<subseteq> set (xs @ ys)" by simp

lemma pend_ok_more: "set hs \<subseteq> set hs' \<Longrightarrow> pend_ok cf hs ps t \<Longrightarrow> pend_ok cf hs' ps t"
  unfolding pend_ok_def by blast

lemma transfers_ok_mono:
  "transfers_ok cf hs ps ts \<Longrightarrow> (\<And>t. pend_ok cf hs ps t \<Longrightarrow> pend_ok cf hs' ps' t) \<Longrightarrow> transfers_ok cf hs' ps' ts"
  unfolding transfers_ok_def by blast

lemma part_ok_more: "set hs \<subseteq> set hs' \<Longrightarrow> part_ok ls hs p \<Longrightarrow> part_ok ls hs' p"
  unfolding part_ok_def by blast

lemma hold_ok_more: "ex \<subseteq> ex' \<Longrightarrow> hold_ok ex ps h \<Longrightarrow> hold_ok ex' ps h"
  by (auto simp: hold_ok_def)

section \<open>A new hold\<close>

lemma linvx_insertHold:
  assumes i: "linv cf s" and new: "\<not> list_ex (\<lambda>x. h_ID x = h_ID h \<or> P x) (holds s)"
    and h: "h_State h = h_held" "h_Used h = 0"
  shows "linvx cf {h_ID h} (s\<lparr>holds := holds s @ [h]\<rparr>)"
proof -
  have fresh: "h_ID h \<notin> h_ID ` set (holds s)" using new by (auto simp: list_ex_iff)
  have ok: "holds_ok {} (lots s) (holds s) (hold_parts s)" using i by (simp add: linv_def)
  have no: "\<forall>p\<in>set (hold_parts s). hp_Hold p \<noteq> h_ID h" using parts_exist [OF ok] fresh by metis
  have "holds_ok {h_ID h} (lots s) (holds s @ [h]) (hold_parts s)"
    using ok fresh h hold_ok_more [of "{}" "{h_ID h}"] part_ok_more [of "holds s" "holds s @ [h]" "lots s", OF set_append_sub]
    unfolding holds_ok_def by (auto simp: hold_ok_def [of _ _ h])
  moreover have "transfers_ok cf (holds s @ [h]) (hold_parts s) (transfers s)"
  proof (rule transfers_ok_mono)
    show "transfers_ok cf (holds s) (hold_parts s) (transfers s)" using i by (simp add: linv_def)
  qed (rule pend_ok_more [OF set_append_sub])
  ultimately show ?thesis
    using i heldsum_insert [OF no] by (simp add: linv_def linvx_def)
qed

lemma transfers_ok_add_part:
  assumes t: "transfers_ok cf hs ps ts" and d: "distinct (map h_ID hs)" and o: "open_hold hs (hp_Hold p)"
  shows "transfers_ok cf hs (ps @ [p]) ts"
proof -
  have "pend_ok cf hs (ps @ [p]) x" if "pend_ok cf hs ps x" for x
  proof -
    obtain h where h: "h \<in> set hs" "h_ID h = t_HoldID x" "h_Service h = ledgerService" "h_Account h = t_From x"
      "h_Resource h = t_Resource x" "h_State h = h_held \<or> (\<forall>p\<in>set ps. hp_Hold p \<noteq> h_ID h)"
      "h_Method h = escrowMethod \<longrightarrow> t_ID x = transferID cf (h_Account h) (h_RequestKey h)"
      "h_Method h \<noteq> escrowMethod \<longrightarrow> h_State h = h_held \<and> h_Max h = t_Amount x"
      using \<open>pend_ok cf hs ps x\<close> unfolding pend_ok_def by blast
    have "h_State h = h_held" if "hp_Hold p = h_ID h"
      using o that h(1) hold_table.row_eq [OF d] by (auto simp: open_hold_def)
    then have "h_State h = h_held \<or> (\<forall>x\<in>set (ps @ [p]). hp_Hold x \<noteq> h_ID h)" using h(6) by auto
    then show ?thesis using h unfolding pend_ok_def by blast
  qed
  then show ?thesis using t transfers_ok_mono by blast
qed

text \<open>The loop of \<open>holdParts\<close>: the parts still to be held, and what the hold is still short of.\<close>

definition building :: "Config \<Rightarrow> led \<Rightarrow> holdRow \<Rightarrow> part list \<Rightarrow> led \<Rightarrow> bool" where
  "building cf s0 h qs s \<longleftrightarrow> linvx cf {h_ID h} s \<and> same_day s0 s \<and> transfers s = transfers s0
     \<and> h \<in> set (holds s) \<and> h_State h = h_held \<and> h_Used h = 0 \<and> parts_of (h_Account h) (h_Resource h) (lots s) qs
     \<and> (\<forall>p\<in>set (hold_parts s). hp_Hold p = h_ID h \<longrightarrow> hp_Lot p \<notin> (\<lambda>q. l_ID (p_Lot q)) ` set qs)
     \<and> partsum (hold_parts s) (h_ID h) + taken qs = h_Max h"

lemma building_start:
  assumes i: "linv cf s" and new: "\<not> list_ex (\<lambda>x. h_ID x = h_ID h \<or> P x) (holds s)"
    and h: "h_State h = h_held" "h_Used h = 0" and parts: "parts_of (h_Account h) (h_Resource h) (lots s) qs" "taken qs = h_Max h"
  shows "building cf s h qs (s\<lparr>holds := holds s @ [h]\<rparr>)"
proof -
  have fresh: "h_ID h \<notin> h_ID ` set (holds s)" using new by (auto simp: list_ex_iff)
  have no: "\<forall>p\<in>set (hold_parts s). hp_Hold p \<noteq> h_ID h"
    using parts_exist [of "{}" "lots s" "holds s" "hold_parts s"] i fresh unfolding linv_def by metis
  show ?thesis
    using linvx_insertHold [OF i new h] parts h no partsum_none [OF no]
    by (auto simp: building_def same_day_def)
qed

lemma hold_part_building:
  assumes b: "building cf s0 h (q # qs) s" and i: "i = h_ID h"
  shows "wp (hold_part p account i ref q) (\<lambda>_. building cf s0 h qs) safeE s"
proof -
  let ?H = "heldsum (holds s) (hold_parts s)" and ?j = "l_ID (p_Lot q)" and ?k = "p_Take q"
  let ?p = "\<lparr>hp_Hold = h_ID h, hp_Lot = l_ID (p_Lot q), hp_Units = p_Take q\<rparr>"
  let ?ls = "upd (\<lambda>y. l_ID y = ?j) (\<lambda>y. y\<lparr>l_Held := l_Held y + ?k\<rparr>) (lots s)"
  have v: "linvx cf {h_ID h} s" and h: "h \<in> set (holds s)" "h_State h = h_held" using b by (auto simp: building_def)
  have ok: "lots_ok ?H (lots s) (lots_seq s) (entries s)" using v by (simp add: linvx_def)
  obtain x where x: "x \<in> set (lots s)" "l_ID x = ?j" "l_Account x = h_Account h" "l_Resource x = h_Resource h" "?k \<le> spendable x" "0 < ?k"
    using b by (auto simp: building_def parts_of_def same_lot_def)
  have op: "open_hold (holds s) (h_ID h)" using h by (auto simp: open_hold_def)
  have H0: "0 \<le> ?H ?j" using lots_okD [OF ok x(1)] x(2) by (auto simp: lot_bal_def lot_ok_def lot_check_def)
  have newkey: "\<not> list_ex (\<lambda>y. hp_Hold y = h_ID h \<and> hp_Lot y = ?j) (hold_parts s)"
    using b by (auto simp: building_def list_ex_iff)
  have L: "lots_ok (heldsum (holds s) (hold_parts s @ [?p])) ?ls (lots_seq s) (entries s @ [e])"
    if "je_LotID e = ?j" "je_Kind e = k_reserve" for e
    using lots_ok_hold [OF ok x(1), of ?k "[e]"] x H0 lots_okD [OF ok x(1)] that op
    by (simp add: heldsum_add neutral_def credit_kinds_def debit_kinds_def)
  have hok: "holds_ok {h_ID h} (lots s) (holds s) (hold_parts s)" using v by (simp add: linvx_def)
  have pok: "part_ok (lots s) (holds s) ?p" unfolding part_ok_def using h x by auto
  have hold': "hold_ok {h_ID h} (hold_parts s @ [?p]) y" if "hold_ok {h_ID h} (hold_parts s) y" for y
    using that by (auto simp: hold_ok_def partsum_def)
  have "holds_ok {h_ID h} (lots s) (holds s) (hold_parts s @ [?p])"
    using hok newkey pok hold' unfolding holds_ok_def by (auto simp: part_key_def list_ex_iff)
  then have hok': "holds_ok {h_ID h} ?ls (holds s) (hold_parts s @ [?p])" by (rule holds_ok_kept [OF kept_hold])
  have tok: "transfers_ok cf (holds s) (hold_parts s @ [?p]) (transfers s)"
    using v hok op by (intro transfers_ok_add_part) (auto simp: linvx_def holds_ok_def)
  have po: "parts_of (h_Account h) (h_Resource h) ?ls qs"
    using b x(2) parts_of_kept [of "h_Account h" "h_Resource h" "lots s" q qs x] by (simp add: building_def)
  have fr: "\<forall>p\<in>set (hold_parts s @ [?p]). hp_Hold p = h_ID h \<longrightarrow> hp_Lot p \<notin> (\<lambda>q. l_ID (p_Lot q)) ` set qs"
    using b by (auto simp: building_def parts_of_def)
  have sm: "partsum (hold_parts s @ [?p]) (h_ID h) + taken qs = h_Max h" using b by (simp add: building_def partsum_def taken_def)
  have fin: "building cf s0 h qs (s\<lparr>lots := ?ls, hold_parts := hold_parts s @ [?p], entries := entries s @ [e], entries_seq := n\<rparr>)"
    if "je_LotID e = ?j" "je_Kind e = k_reserve" for e n
    using b v L [OF that] hok' tok po fr sm by (simp add: building_def linvx_def same_day_def)
  show ?thesis
    unfolding hold_part_def wp_thenM
    by (rule wp_holdOf [OF ok x(1,2)])
      (use x H0 newkey fin in \<open>auto simp: i wp_rules insertPart_def journal_def op_entry_def entry0_def\<close>)
qed

definition built :: "Config \<Rightarrow> led \<Rightarrow> holdRow \<Rightarrow> led \<Rightarrow> bool" where
  "built cf s0 h s \<longleftrightarrow> linv cf s \<and> same_day s0 s \<and> transfers s = transfers s0 \<and> h \<in> set (holds s)"

lemma building_done:
  assumes "building cf s0 h [] s" shows "built cf s0 h s"
proof -
  have v: "linvx cf {h_ID h} s" and m: "partsum (hold_parts s) (h_ID h) = h_Max h"
    and h: "h \<in> set (holds s)" "h_State h = h_held" "h_Used h = 0"
    using assms by (auto simp: building_def taken_def)
  have d: "distinct (map h_ID (holds s))" and hk: "hold_ok {h_ID h} (hold_parts s) h"
    using v h by (auto simp: linvx_def holds_ok_def)
  have "0 \<le> h_Max h" using partsum_nonneg v m unfolding linvx_def by metis
  have "hold_ok {} (hold_parts s) y" if y: "y \<in> set (holds s)" "hold_ok {h_ID h} (hold_parts s) y" for y
  proof (cases "h_ID y = h_ID h")
    case True
    then have "y = h" using hold_table.row_eq [OF d y(1) h(1)] by simp
    then show ?thesis using hk h m \<open>0 \<le> h_Max h\<close> by (simp add: hold_ok_def)
  qed (use y in \<open>simp add: hold_ok_def\<close>)
  then have "holds_ok {} (lots s) (holds s) (hold_parts s)" using v unfolding linvx_def holds_ok_def by blast
  then show ?thesis using v assms by (simp add: linv_def linvx_def building_def built_def)
qed

lemma holdParts_linv:
  assumes "building cf s0 h parts s" "i = h_ID h"
  shows "wp (holdParts p account i parts ref) (\<lambda>_. built cf s0 h) safeE s"
  unfolding holdParts_def
  by (rule wp_forM [where I = "building cf s0 h"])
    (use assms building_done in \<open>auto intro: hold_part_building\<close>)

lemma new_hold_linv:
  assumes i: "linv cf s" and h: "h_State h = h_held" "h_Used h = 0"
    and parts: "parts_of (h_Account h) (h_Resource h) (lots s) parts" "taken parts = h_Max h"
    and Q: "\<And>s'. built cf s h s' \<Longrightarrow> h_ID h \<notin> h_ID ` set (holds s) \<Longrightarrow> wp m Q safeE s'"
  shows "wp (insertHold h) (\<lambda>_. wp (holdParts p account (h_ID h) parts ref) (\<lambda>_. wp m Q safeE) safeE) safeE s"
proof -
  have "wp (holdParts p account (h_ID h) parts ref) (\<lambda>_. wp m Q safeE) safeE (s\<lparr>holds := holds s @ [h]\<rparr>)"
    if new: "\<not> list_ex (\<lambda>x. h_ID x = h_ID h \<or> h_Account x = h_Account h \<and> h_RequestKey x = h_RequestKey h) (holds s)"
  proof (rule wp_conseq [OF holdParts_linv])
    show "building cf s h parts (s\<lparr>holds := holds s @ [h]\<rparr>)" by (rule building_start [OF i new h parts])
    show "wp m Q safeE s'" if "built cf s h s'" for s' by (rule Q [OF that]) (use new in \<open>auto simp: list_ex_iff\<close>)
  qed auto
  then show ?thesis by (simp add: insertHold_def wp_rules)
qed

section \<open>Reserve\<close>

lemma built_good: "good cf p s \<Longrightarrow> built cf s h s' \<Longrightarrow> good cf p s' \<and> o_d (lop s') = o_d (lop s)"
  using good_same_day [of cf p s s'] by (auto simp: built_def same_day_def)

lemma hold_write_good:
  assumes g: "good cf p s" and h: "hd_Account h = s_ID sb" and d: "day_ok d" "same_meta (o_d (lop s)) d"
    and parts: "parts_of (s_ID sb) (o_r q) (lots s) parts" "taken parts = hd_Max h"
  shows "wp (hold_write q sb c h requestKey ref parts d) (\<lambda>_. good cf p) safeE s"
proof -
  let ?m = "thenM (modifyOp (\<lambda>q. q\<lparr>o_d := spend_day d (nonpaid parts) (hd_Max h)\<rparr>)) (addUsage (o_r q) (o_day q) (s_ID sb) (hd_Max h) 0 0)"
  let ?h = "hold_row h q requestKey (ref_Service ref) (ref_Method ref)"
  have loop: "wp (insertHold ?h) (\<lambda>_. wp (holdParts q (s_ID sb) (hd_ID h) parts ref) (\<lambda>_. wp ?m (\<lambda>_. good cf p) safeE) safeE) safeE s'"
    if g': "good cf p s'" and l: "lots s' = lots s" "o_d (lop s') = o_d (lop s)" for s'
  proof -
    have "wp ?m (\<lambda>_. good cf p) safeE s2" if b: "built cf s' ?h s2" for s2
    proof -
      have "good cf p (s2\<lparr>lop := (lop s2)\<lparr>o_d := spend_day d (nonpaid parts) (hd_Max h)\<rparr>\<rparr>)"
        using built_good [OF g' b] d l by (intro good_spend_day) auto
      then show ?thesis by (auto simp: wp_rules modifyOp_def good_view intro!: wp_addUsage)
    qed
    then show ?thesis
      using new_hold_linv [where h = ?h and m = ?m, OF good_linv [OF g'], of parts "\<lambda>_. good cf p" q "s_ID sb" ref] parts h l
      by (simp add: hold_row_def)
  qed
  show ?thesis
    unfolding hold_write_def wp_thenM
    by (auto intro!: wp_credentialCheck wp_clientSpend wp_credentialRecord loop [unfolded wp_thenM]) (use g in \<open>simp_all add: good_view\<close>)
qed

lemma hold_good:
  assumes g: "good cf p s" and h: "hd_Account h = s_ID sb" "0 \<le> hd_Max h"
  shows "wp (hold sb c h requestKey ref) (\<lambda>_. good cf p) safeE s"
proof -
  have dist: "distinct (map l_ID (lots s))" and day: "day_ok (o_d (lop s))"
    using g by (auto simp: good_def linv_def lots_ok_def op_ok_def Let_def)
  have "wp (planSpend (capOwn (o_rp (lop s)) ls c) (hd_Max h) (\<lambda>_. True)) (\<lambda>res. wp (case res of
        Inl short \<Rightarrow> bindM (gets lop) (\<lambda>q. throw (refusal q short c))
      | Inr (parts, d) \<Rightarrow>
        if d_SpentNonpaid (o_d (lop s)) + nonpaid parts > rp_SpendCeiling (o_rp (lop s))
        then throw (refuseDay ''global_quota_exhausted'' (o_now (lop s)))
        else hold_write (lop s) sb c h requestKey ref parts d) (\<lambda>_. good cf p) safeE) safeE s"
    if "planned (s_ID sb) (o_r (lop s)) (lots s) ls" for ls
  proof (rule wp_planSpend [OF h(2) day planned_cap [OF that]], goal_cases)
    case (1 q short)
    then show ?case by (simp add: wp_rules)
  next
    case (2 q parts d)
    have "good cf p (s\<lparr>lop := q\<rparr>)" using good_set_lop [OF g] 2 by simp
    from hold_write_good [OF this h(1) 2(6), of "lop s" parts c requestKey ref] 2
    show ?case by (simp add: wp_rules)
  qed
  then show ?thesis
    by (auto simp: hold_def wp_rules intro!: wp_liveLots [OF dist])
qed

lemma Reserve_linv:
  assumes "linv cf s" shows "wp (Reserve cf sb r mx requestKey ref ttl now) (\<lambda>_. linv cf) safeE s"
proof -
  let ?h = "\<lparr>hd_ID = holdID cf (s_ID sb) requestKey, hd_Account = s_ID sb, hd_Resource = r, hd_Max = mx, hd_ExpiresAt = now + ttl, hd_State = h_held\<rparr>"
  have run: "wp (thenM (open_op cf r now) (thenM (sweepOwn (s_ID sb)) (bindM (claim cf sb) (\<lambda>c.
      finish (hold sb c ?h requestKey ref) (\<lambda>res. bindM (gets lop) (\<lambda>p. case res of
                 Inl e \<Rightarrow> thenM (noteRefusal (o_day p) r e) (throw e)
               | Inr _ \<Rightarrow> ret ?h)))))) (\<lambda>_. linv cf) safeE s" if "0 < mx"
    by (rule wp_prelude [OF assms], rule wp_finish [OF hold_good])
      (use that in \<open>auto simp: wp_rules good_linv intro!: wp_noteRefusal\<close>)
  show ?thesis
    unfolding Reserve_def Let_def loadHold_def loadHoldRow_def
    using run by (auto simp: wp_if wp_throw wp_bindM wp_gets wp_ret wp_case_option split: option.splits)
qed

end
