(* ===== verification/Settle_Inv.thy ===== *)
theory Settle_Inv
  imports Holds_Inv
begin

text \<open>
  Ending a hold keeps the invariant: its parts are read as they were written, a loop releases them
  one by one, and closing the hold's row makes the held units of every lot the open parts again.
  Settling, committing, refunding and reimbursing are instances.
\<close>

section \<open>The core of the invariant\<close>

definition core :: "Config \<Rightarrow> lot list \<Rightarrow> int \<Rightarrow> entry list \<Rightarrow> holdRow list \<Rightarrow> partRow list \<Rightarrow> transferRow list \<Rightarrow> bool" where
  "core cf ls n es hs ps ts \<longleftrightarrow> lots_ok (heldsum hs ps) ls n es \<and> holds_ok {} ls hs ps \<and> transfers_ok cf hs ps ts"

lemma linv_core:
  "linv cf s = (days_ok s \<and> core cf (lots s) (lots_seq s) (entries s) (holds s) (hold_parts s) (transfers s))"
  by (simp add: linv_def core_def)

section \<open>Reading the parts of a hold\<close>

definition rsum :: "(int \<times> int) list \<Rightarrow> int \<Rightarrow> int" where
  "rsum rem j = (\<Sum>(l, u)\<leftarrow>rem. if l = j then u else 0)"

lemma rsum_simps [simp]: "rsum [] j = 0" "rsum ((l, u) # rem) j = (if l = j then u else 0) + rsum rem j"
  by (simp_all add: rsum_def)

definition rem_of :: "holdPart list \<Rightarrow> (int \<times> int) list" where
  "rem_of parts = map (\<lambda>q. (q_LotID q, q_Units q)) parts"

definition all_units :: "holdPart list \<Rightarrow> int" where
  "all_units parts = (\<Sum>q\<leftarrow>parts. q_Units q)"

definition part_of_lot :: "holdRow list \<Rightarrow> lot list \<Rightarrow> string \<Rightarrow> holdPart \<Rightarrow> bool" where
  "part_of_lot hs ls i q \<longleftrightarrow> 0 < q_Units q \<and> (\<exists>x\<in>set ls. l_ID x = q_LotID q \<and> l_ExpiresAt x = q_ExpiresAt q
     \<and> l_Bucket x = q_Bucket q \<and> l_Origin x = q_Origin q
     \<and> (\<exists>h\<in>set hs. h_ID h = i \<and> l_Account x = h_Account h \<and> l_Resource x = h_Resource h))"

definition parts_read :: "led \<Rightarrow> string \<Rightarrow> holdPart list \<Rightarrow> bool" where
  "parts_read s i parts \<longleftrightarrow> (\<forall>j. rsum (rem_of parts) j = (\<Sum>p\<leftarrow>hold_parts s. if hp_Hold p = i \<and> hp_Lot p = j then hp_Units p else 0))
     \<and> all_units parts = partsum (hold_parts s) i \<and> distinct (map q_LotID parts)
     \<and> (\<forall>q\<in>set parts. part_of_lot (holds s) (lots s) i q \<and> \<lparr>hp_Hold = i, hp_Lot = q_LotID q, hp_Units = q_Units q\<rparr> \<in> set (hold_parts s))"

definition joined :: "led \<Rightarrow> string \<Rightarrow> (partRow \<times> lot) list" where
  "joined s i = concat (map (\<lambda>p. map (Pair p) (filter (\<lambda>x. l_ID x = hp_Lot p) (lots s))) (filter (\<lambda>p. hp_Hold p = i) (hold_parts s)))"

lemma joined_fst:
  assumes "linv cf s" shows "map fst (joined s i) = filter (\<lambda>p. hp_Hold p = i) (hold_parts s)"
proof -
  have one: "\<exists>x. filter (\<lambda>x. l_ID x = hp_Lot p) (lots s) = [x]" if p: "p \<in> set (hold_parts s)" for p
  proof -
    obtain x where "x \<in> set (lots s)" "l_ID x = hp_Lot p"
      using assms p unfolding linv_def holds_ok_def part_ok_def by metis
    then show ?thesis using lot_table.filter_row [of "lots s" x] assms by (auto simp: linv_def lots_ok_def)
  qed
  have "map fst (concat (map (\<lambda>p. map (Pair p) (filter (\<lambda>x. l_ID x = hp_Lot p) (lots s))) ps)) = ps"
    if "set ps \<subseteq> set (hold_parts s)" for ps
    using that by (induction ps) (use one in force)+
  then show ?thesis by (simp add: joined_def)
qed

lemma joined_in: "(p, x) \<in> set (joined s i) \<Longrightarrow> p \<in> set (hold_parts s) \<and> hp_Hold p = i \<and> x \<in> set (lots s) \<and> l_ID x = hp_Lot p"
  by (auto simp: joined_def)

lemma joined_sum:
  assumes "linv cf s"
  shows "sum_list (map (\<lambda>(p, x). f p) (joined s i)) = (\<Sum>p\<leftarrow>hold_parts s. if hp_Hold p = i then (f p :: int) else 0)"
proof -
  have "sum_list (map (\<lambda>(p, x). f p) (joined s i)) = sum_list (map f (map fst (joined s i)))" by (simp add: case_prod_unfold comp_def)
  also have "\<dots> = (\<Sum>p\<leftarrow>hold_parts s. if hp_Hold p = i then f p else 0)"
    unfolding joined_fst [OF assms] by (rule sum_list_map_filter')
  finally show ?thesis .
qed

lemma parts_read_joined:
  assumes "linv cf s"
  shows "parts_read s i (map part_of_row (sort_key (\<lambda>(_, x). spendOrder x) (joined s i)))"
proof -
  let ?J = "sort_key (\<lambda>(_, x). spendOrder x) (joined s i)"
  have "rsum (rem_of (map part_of_row ?J)) j = (\<Sum>p\<leftarrow>hold_parts s. if hp_Hold p = i \<and> hp_Lot p = j then hp_Units p else 0)" for j
  proof -
    have "rsum (rem_of (map part_of_row ?J)) j = sum_list (map (\<lambda>(p, x). if hp_Lot p = j then hp_Units p else 0) ?J)"
      by (simp add: rsum_def rem_of_def part_of_row_def comp_def case_prod_unfold cong: if_cong)
    also have "\<dots> = (\<Sum>p\<leftarrow>hold_parts s. if hp_Hold p = i then (if hp_Lot p = j then hp_Units p else 0) else 0)"
      unfolding sum_list_sort_key by (rule joined_sum [OF assms])
    also have "\<dots> = (\<Sum>p\<leftarrow>hold_parts s. if hp_Hold p = i \<and> hp_Lot p = j then hp_Units p else 0)"
      by (rule arg_cong [where f = sum_list]) simp
    finally show ?thesis .
  qed
  moreover have "all_units (map part_of_row ?J) = partsum (hold_parts s) i"
  proof -
    have "all_units (map part_of_row ?J) = sum_list (map (\<lambda>(p, x). hp_Units p) ?J)"
      by (simp add: all_units_def part_of_row_def comp_def case_prod_unfold)
    then show ?thesis unfolding sum_list_sort_key joined_sum [OF assms] partsum_def .
  qed
  moreover have "distinct (map q_LotID (map part_of_row ?J))"
  proof -
    have "distinct (map hp_Lot (filter (\<lambda>p. hp_Hold p = i) (hold_parts s)))"
      using assms unfolding linv_def holds_ok_def distinct_map by (auto simp: inj_on_def part_key_def)
    then have "distinct (map hp_Lot (map fst (joined s i)))" by (simp only: joined_fst [OF assms])
    then have "distinct (map (\<lambda>z. hp_Lot (fst z)) ?J)" by (simp add: distinct_map comp_def)
    then show ?thesis by (simp add: part_of_row_def comp_def case_prod_unfold)
  qed
  moreover have "part_of_lot (holds s) (lots s) i (part_of_row z) \<and> \<lparr>hp_Hold = i, hp_Lot = q_LotID (part_of_row z), hp_Units = q_Units (part_of_row z)\<rparr> \<in> set (hold_parts s)"
    if z: "z \<in> set (joined s i)" for z
  proof -
    obtain p x where zz: "z = (p, x)" by fastforce
    then have p: "p \<in> set (hold_parts s)" "hp_Hold p = i" "x \<in> set (lots s)" "l_ID x = hp_Lot p" using joined_in z by auto
    then have ok: "part_ok (lots s) (holds s) p" using assms by (simp add: linv_def holds_ok_def)
    then obtain h y where y: "0 < hp_Units p" "h \<in> set (holds s)" "h_ID h = hp_Hold p" "y \<in> set (lots s)" "l_ID y = hp_Lot p"
      "l_Account y = h_Account h" "l_Resource y = h_Resource h" by (auto simp: part_ok_def)
    have "y = x" using assms p y by (intro lots_ok_unique [of _ "lots s" _ _ y x]) (auto simp: linv_def)
    moreover have "\<lparr>hp_Hold = hp_Hold p, hp_Lot = hp_Lot p, hp_Units = hp_Units p\<rparr> \<in> set (hold_parts s)"
    proof -
      have "\<lparr>hp_Hold = hp_Hold p, hp_Lot = hp_Lot p, hp_Units = hp_Units p\<rparr> = p" by (cases p) simp
      then show ?thesis using p(1) by metis
    qed
    ultimately show ?thesis using p y by (auto simp: zz part_of_row_def part_of_lot_def)
  qed
  ultimately show ?thesis by (simp add: parts_read_def)
qed

lemma wp_loadHoldParts:
  assumes "linv cf s" "\<And>parts. parts_read s i parts \<Longrightarrow> Q parts s" "\<And>m. E (Internal m) s"
  shows "wp (loadHoldParts i) Q E s"
proof -
  let ?J = "sort_key (\<lambda>(_, x). spendOrder x) (joined s i)"
  have "take (liveLotsMax + 1) ?J = ?J" if "\<not> length (take (liveLotsMax + 1) ?J) > liveLotsMax"
    using that by simp
  then show ?thesis
    using assms(2) [OF parts_read_joined [OF assms(1)]] assms(3)
    by (auto simp: loadHoldParts_def wp_rules joined_parts_def joined_def [symmetric])
qed

section \<open>Closing a hold\<close>

text \<open>What the open holds other than \<open>i\<close> hold of a lot.\<close>

definition heldsum_but :: "string \<Rightarrow> holdRow list \<Rightarrow> partRow list \<Rightarrow> int \<Rightarrow> int" where
  "heldsum_but i hs ps j = (\<Sum>p\<leftarrow>ps. if hp_Lot p = j \<and> open_hold hs (hp_Hold p) \<and> hp_Hold p \<noteq> i then hp_Units p else 0)"

lemma heldsum_split:
  assumes "open_hold hs i \<or> (\<forall>p\<in>set ps. hp_Hold p \<noteq> i)"
  shows "heldsum hs ps j = heldsum_but i hs ps j + (\<Sum>p\<leftarrow>ps. if hp_Hold p = i \<and> hp_Lot p = j then hp_Units p else 0)"
  using assms by (induction ps) (auto simp: heldsum_def heldsum_but_def)

lemma heldsum_closed:
  assumes "\<And>h. h_ID (f h) = h_ID h" "\<And>h. h_State (f h) \<noteq> h_held"
  shows "heldsum (upd (\<lambda>h. h_ID h = i) f hs) ps = heldsum_but i hs ps"
proof -
  have "open_hold (upd (\<lambda>h. h_ID h = i) f hs) k \<longleftrightarrow> open_hold hs k \<and> k \<noteq> i" for k
    unfolding open_hold_def Bex_def in_upd using assms by metis
  then show ?thesis by (simp add: fun_eq_iff heldsum_def heldsum_but_def)
qed

text \<open>A loop that ends hold \<open>i\<close>: \<open>rem\<close> are the parts it has not released yet.\<close>

definition closing :: "Config \<Rightarrow> led \<Rightarrow> string \<Rightarrow> (int \<times> int) list \<Rightarrow> led \<Rightarrow> bool" where
  "closing cf s0 i rem s \<longleftrightarrow> linv cf s0 \<and> same_day s0 s \<and> holds s = holds s0 \<and> hold_parts s = hold_parts s0 \<and> transfers s = transfers s0
     \<and> kept (lots s0) (lots s)
     \<and> (\<forall>(l, u)\<in>set rem. 0 < u \<and> (\<exists>x\<in>set (lots s0). l_ID x = l))
     \<and> lots_ok (\<lambda>j. heldsum_but i (holds s0) (hold_parts s0) j + rsum rem j) (lots s) (lots_seq s) (entries s)"

lemma closing_start:
  assumes "linv cf s" "open_hold (holds s) i \<or> (\<forall>p\<in>set (hold_parts s). hp_Hold p \<noteq> i)" "parts_read s i parts"
  shows "closing cf s i (rem_of parts) s"
proof -
  have "heldsum (holds s) (hold_parts s) = (\<lambda>j. heldsum_but i (holds s) (hold_parts s) j + rsum (rem_of parts) j)"
    using assms(3) heldsum_split [OF assms(2)] by (simp add: fun_eq_iff parts_read_def)
  then show ?thesis
    using assms by (auto simp: closing_def linv_def parts_read_def part_of_lot_def rem_of_def)
qed

lemma heldsum_but_nonneg: "holds_ok ex ls hs ps \<Longrightarrow> 0 \<le> heldsum_but i hs ps j"
  unfolding heldsum_but_def by (intro sum_list_nonneg_int) (auto simp: holds_ok_def part_ok_def)

lemma rsum_nonneg: "\<forall>(l, u)\<in>set rem. 0 < u \<Longrightarrow> 0 \<le> rsum rem j"
  by (induction rem) auto

lemma closing_lot:
  assumes "closing cf s0 i ((l, u) # rem) s"
  obtains x where "x \<in> set (lots s)" "l_ID x = l" "0 < u"
    "u \<le> heldsum_but i (holds s0) (hold_parts s0) l + rsum ((l, u) # rem) l"
    "u \<le> l_Held x" "0 < l_Remaining x" "0 \<le> spendable x"
proof -
  let ?H = "\<lambda>j. heldsum_but i (holds s0) (hold_parts s0) j + rsum ((l, u) # rem) j"
  have h: "holds_ok {} (lots s0) (holds s0) (hold_parts s0)" and rm: "0 < u" "\<forall>(l, u)\<in>set rem. 0 < u"
    using assms by (auto simp: closing_def linv_def)
  have b: "u \<le> ?H l" using heldsum_but_nonneg [OF h, of i l] rsum_nonneg [OF rm(2), of l] by simp
  obtain x0 where "x0 \<in> set (lots s0)" "l_ID x0 = l" using assms by (auto simp: closing_def)
  then obtain x where x: "x \<in> set (lots s)" "l_ID x = l"
    using assms unfolding closing_def kept_def same_lot_def by metis
  have "lot_bal ?H (entries s) x" using assms lots_okD x(1) unfolding closing_def by blast
  then have "l_Held x = ?H l" "lot_ok x" using x(2) by (auto simp: lot_bal_def)
  with b x rm(1) show ?thesis by (intro that [of x]) (auto simp: lot_ok_def lot_check_def spendable_def)
qed

text \<open>Releasing one part: some of it taken, some lost, the rest spendable again.\<close>

lemma wp_close_take:
  assumes c: "closing cf s0 i ((l, u) # rem) s" and amounts: "0 \<le> tk" "0 \<le> lost" "tk + lost \<le> u"
    and Q: "\<And>ls'. l \<le> lots_seq s \<Longrightarrow> kept (lots s0) ls' \<Longrightarrow>
       (\<And>fs. credits l fs = 0 \<Longrightarrow> debits l fs = tk + lost \<Longrightarrow> (\<And>j. j \<noteq> l \<Longrightarrow> credits j fs = 0 \<and> debits j fs = 0)
         \<Longrightarrow> \<forall>e\<in>set fs. je_LotID e \<le> lots_seq s
         \<Longrightarrow> lots_ok (\<lambda>j. heldsum_but i (holds s0) (hold_parts s0) j + rsum rem j) ls' (lots_seq s) (entries s @ fs))
       \<Longrightarrow> Q () (s\<lparr>lots := ls'\<rparr>)"
  shows "wp (takeFrom l tk u lost) Q E s"
proof -
  let ?H = "\<lambda>j. heldsum_but i (holds s0) (hold_parts s0) j + rsum ((l, u) # rem) j"
  let ?H' = "\<lambda>j. heldsum_but i (holds s0) (hold_parts s0) j + rsum rem j"
  have ok: "lots_ok ?H (lots s) (lots_seq s) (entries s)" using c by (simp add: closing_def)
  from c obtain x where x: "x \<in> set (lots s)" "l_ID x = l" "0 < u" "u \<le> ?H l" "u \<le> l_Held x" "0 < l_Remaining x" "0 \<le> spendable x"
    by (rule closing_lot)
  have H: "?H(l := ?H l - u) = ?H'" by (auto simp: fun_eq_iff)
  have n: "l \<le> lots_seq s" using lots_okD [OF ok x(1)] x(2) by simp
  let ?ls = "upd (\<lambda>y. l_ID y = l) (take_row tk u lost) (lots s)"
  have L: "lots_ok ?H' ?ls (lots_seq s) (entries s @ fs)"
    if "credits l fs = 0" "debits l fs = tk + lost" "\<And>j. j \<noteq> l \<Longrightarrow> credits j fs = 0 \<and> debits j fs = 0" "\<forall>e\<in>set fs. je_LotID e \<le> lots_seq s" for fs
    using lots_ok_take [OF ok x(1), of tk lost u fs] that x amounts H by simp
  have k: "kept (lots s0) ?ls" using c kept_trans [OF _ kept_take] by (auto simp: closing_def)
  show ?thesis
    by (rule wp_takeFrom [OF ok x(1,2) amounts(1,2)]) (use x amounts n L k in \<open>auto intro!: Q\<close>)
qed

lemma wp_close_unhold:
  assumes c: "closing cf s0 i ((l, u) # rem) s" and e: "\<And>n. je_LotID e = l" "je_Kind e = k_refund"
  shows "wp (thenM (holdOf l (- u)) (journal e)) (\<lambda>_. closing cf s0 i rem) safeE s"
proof -
  let ?H = "\<lambda>j. heldsum_but i (holds s0) (hold_parts s0) j + rsum ((l, u) # rem) j"
  let ?H' = "\<lambda>j. heldsum_but i (holds s0) (hold_parts s0) j + rsum rem j"
  have ok: "lots_ok ?H (lots s) (lots_seq s) (entries s)" using c by (simp add: closing_def)
  from c obtain x where x: "x \<in> set (lots s)" "l_ID x = l" "0 < u" "u \<le> ?H l" "u \<le> l_Held x" "0 < l_Remaining x" "0 \<le> spendable x"
    by (rule closing_lot)
  have H: "?H(l := ?H l - u) = ?H'" by (auto simp: fun_eq_iff)
  have n: "l \<le> lots_seq s" using lots_okD [OF ok x(1)] x(2) by simp
  let ?ls = "upd (\<lambda>y. l_ID y = l) (\<lambda>y. y\<lparr>l_Held := l_Held y + - u\<rparr>) (lots s)"
  have L: "lots_ok ?H' ?ls (lots_seq s) (entries s @ [f])" if "je_LotID f = l" "je_Kind f = k_refund" for f
    using lots_ok_hold [OF ok x(1), of "- u" "[f]"] that x n H
    by (simp add: neutral_def credit_kinds_def debit_kinds_def)
  have k: "kept (lots s0) ?ls" using c kept_trans [OF _ kept_hold] unfolding closing_def by blast
  show ?thesis
    unfolding wp_thenM
    by (rule wp_holdOf [OF ok x(1,2)])
      (use x c L k e in \<open>simp_all add: closing_def wp_rules journal_def same_day_def\<close>)
qed

text \<open>The row closed, and no pending transfer left on it.\<close>

definition closes :: "(holdRow \<Rightarrow> holdRow) \<Rightarrow> bool" where
  "closes f \<longleftrightarrow> (\<forall>h. h_ID (f h) = h_ID h \<and> h_Account (f h) = h_Account h \<and> h_Resource (f h) = h_Resource h
     \<and> h_Max (f h) = h_Max h \<and> h_State (f h) \<noteq> h_held)"

definition settled_transfers :: "led \<Rightarrow> string \<Rightarrow> transferRow list \<Rightarrow> bool" where
  "settled_transfers s i ts \<longleftrightarrow> distinct (map t_ID ts)
     \<and> (\<forall>t\<in>set ts. t_State t = t_pending \<longrightarrow> t \<in> set (transfers s) \<and> t_HoldID t \<noteq> i)"

lemma holds_ok_closed:
  assumes h: "holds_ok {} ls hs ps" and f: "closes f"
    and u: "\<forall>h\<in>set hs. h_ID h = i \<longrightarrow> 0 \<le> h_Used (f h) \<and> h_Used (f h) \<le> h_Max h"
  shows "holds_ok {} ls (upd (\<lambda>h. h_ID h = i) f hs) ps"
proof -
  let ?hs = "upd (\<lambda>h. h_ID h = i) f hs"
  have row: "\<exists>h'\<in>set ?hs. h_ID h' = h_ID h \<and> h_Account h' = h_Account h \<and> h_Resource h' = h_Resource h" if "h \<in> set hs" for h
    using that f unfolding closes_def Bex_def in_upd by metis
  have "part_ok ls ?hs p" if "p \<in> set ps" for p
    using h row that unfolding holds_ok_def part_ok_def by metis
  moreover have "hold_ok {} ps y" if y: "y \<in> set ?hs" for y
    using y
  proof (rule in_updE)
    fix x assume "x \<in> set hs" "h_ID x = i" "y = f x"
    then show ?thesis using h u f by (auto simp: holds_ok_def hold_ok_def closes_def)
  qed (use h in \<open>simp add: holds_ok_def\<close>)
  moreover have "map h_ID ?hs = map h_ID hs" using f by (intro map_upd) (simp add: closes_def)
  ultimately show ?thesis using h by (simp add: holds_ok_def)
qed

lemma transfers_ok_closed:
  assumes t: "transfers_ok cf (holds s) ps (transfers s)" and ts: "settled_transfers s i ts"
  shows "transfers_ok cf (upd (\<lambda>h. h_ID h = i) f (holds s)) ps ts"
proof -
  have "pend_ok cf (upd (\<lambda>h. h_ID h = i) f (holds s)) ps x" if "x \<in> set ts" "t_State x = t_pending" for x
  proof -
    have x: "pend_ok cf (holds s) ps x" "t_HoldID x \<noteq> i" using t ts that by (auto simp: transfers_ok_def settled_transfers_def)
    then show ?thesis unfolding pend_ok_def using in_upd_other [of _ "holds s" "\<lambda>h. h_ID h = i" f] by metis
  qed
  moreover have "t_State y \<noteq> t_pending" if "x \<in> set ts" "y \<in> set ts" "t_State x = t_pending" "y \<noteq> x" "t_HoldID y = t_HoldID x" for x y
    using t ts that unfolding transfers_ok_def settled_transfers_def by blast
  ultimately show ?thesis using ts unfolding transfers_ok_def settled_transfers_def by blast
qed

lemma close_core:
  assumes c: "closing cf s0 i [] s" and f: "closes f"
    and u: "\<forall>h\<in>set (holds s0). h_ID h = i \<longrightarrow> 0 \<le> h_Used (f h) \<and> h_Used (f h) \<le> h_Max h"
    and ts: "settled_transfers s0 i ts"
  shows "core cf (lots s) (lots_seq s) (entries s) (upd (\<lambda>h. h_ID h = i) f (holds s0)) (hold_parts s0) ts"
proof -
  have k: "kept (lots s0) (lots s)" and i: "linv cf s0"
    and L: "lots_ok (heldsum_but i (holds s0) (hold_parts s0)) (lots s) (lots_seq s) (entries s)"
    using c by (simp_all add: closing_def)
  have "heldsum (upd (\<lambda>h. h_ID h = i) f (holds s0)) (hold_parts s0) = heldsum_but i (holds s0) (hold_parts s0)"
    using f by (intro heldsum_closed) (auto simp: closes_def)
  then show ?thesis
    using L holds_ok_closed [OF holds_ok_kept [OF k] f u] transfers_ok_closed [OF _ ts] i by (simp add: core_def linv_def)
qed

text \<open>A hold of a service has no transfer; nor has an escrow whose transfer id is not taken.\<close>

lemma settled_service:
  assumes i: "linv cf s" and h: "h \<in> set (holds s)" "h_Service h \<noteq> ledgerService"
  shows "settled_transfers s (h_ID h) (transfers s)"
proof -
  have "t_HoldID t \<noteq> h_ID h" if "t \<in> set (transfers s)" "t_State t = t_pending" for t
  proof
    assume e: "t_HoldID t = h_ID h"
    have "pend_ok cf (holds s) (hold_parts s) t" using i that by (simp add: linv_def transfers_ok_def)
    then obtain h' where "h' \<in> set (holds s)" "h_ID h' = h_ID h" "h_Service h' = ledgerService" using e by (auto simp: pend_ok_def)
    moreover have "distinct (map h_ID (holds s))" using i by (simp add: linv_def holds_ok_def)
    ultimately show False using hold_table.row_eq h by metis
  qed
  then show ?thesis using i by (auto simp: settled_transfers_def linv_def transfers_ok_def)
qed

lemma settled_escrow:
  assumes i: "linv cf s" and h: "h \<in> set (holds s)" "h_Method h = escrowMethod"
    and none: "transferID cf (h_Account h) (h_RequestKey h) \<notin> t_ID ` set (transfers s)"
  shows "settled_transfers s (h_ID h) (transfers s)"
proof -
  have "t_HoldID t \<noteq> h_ID h" if t: "t \<in> set (transfers s)" "t_State t = t_pending" for t
  proof
    assume e: "t_HoldID t = h_ID h"
    have "pend_ok cf (holds s) (hold_parts s) t" using i t by (simp add: linv_def transfers_ok_def)
    then obtain h' where h': "h' \<in> set (holds s)" "h_ID h' = h_ID h"
      "h_Method h' = escrowMethod \<longrightarrow> t_ID t = transferID cf (h_Account h') (h_RequestKey h')" using e by (auto simp: pend_ok_def)
    moreover have "distinct (map h_ID (holds s))" using i by (simp add: linv_def holds_ok_def)
    ultimately have "h' = h" using hold_table.row_eq h by metis
    then show False using h' h none t by (metis imageI)
  qed
  then show ?thesis using i by (auto simp: settled_transfers_def linv_def transfers_ok_def)
qed

section \<open>Journal lines of one lot\<close>

definition debited :: "int \<Rightarrow> int \<Rightarrow> int \<Rightarrow> entry list \<Rightarrow> entry list \<Rightarrow> bool" where
  "debited l n d es es' \<longleftrightarrow> (\<exists>fs. es' = es @ fs \<and> credits l fs = 0 \<and> debits l fs = d
     \<and> (\<forall>j. j \<noteq> l \<longrightarrow> credits j fs = 0 \<and> debits j fs = 0) \<and> (\<forall>e\<in>set fs. je_LotID e \<le> n))"

lemma debited_refl [simp]: "debited l n 0 es es" by (auto simp: debited_def)

lemma wp_journal_nz:
  assumes d: "debited l n d es (entries s)" and e: "je_LotID e = l" "je_Kind e \<notin> credit_kinds" "l \<le> n"
    and d': "d' = (if je_Kind e \<in> debit_kinds then d + je_Amount e else d)"
    and Q: "\<And>es' k. debited l n d' es es' \<Longrightarrow> Q () (s\<lparr>entries := es', entries_seq := k\<rparr>)"
  shows "wp (journal_nz e) Q E s"
proof (cases "je_Amount e = 0")
  case True
  then have "debited l n d' es (entries s)" using d d' by simp
  from Q [OF this, of "entries_seq s"] show ?thesis using True by (simp add: journal_nz_def wp_rules)
next
  case False
  have "debited l n d' es (entries s @ [e'])"
    if "je_LotID e' = je_LotID e" "je_Kind e' = je_Kind e" "je_Amount e' = je_Amount e" for e'
  proof -
    obtain fs where fs: "entries s = es @ fs" "credits l fs = 0" "debits l fs = d"
      "\<forall>j. j \<noteq> l \<longrightarrow> credits j fs = 0 \<and> debits j fs = 0" "\<forall>e\<in>set fs. je_LotID e \<le> n"
      using d by (auto simp: debited_def)
    show ?thesis unfolding debited_def by (rule exI [of _ "fs @ [e']"]) (use fs e d' that in auto)
  qed
  then show ?thesis using False Q by (simp add: journal_nz_def wp_rules journal_def)
qed

lemma wp_settle_lines:
  assumes line: "\<And>k a. je_LotID (line k a) = l" "\<And>k a. je_Kind (line k a) = k" "\<And>k a. je_Amount (line k a) = a" and n: "l \<le> n"
    and Q: "\<And>es' m. debited l n (tk + lost) (entries s) es' \<Longrightarrow> Q () (s\<lparr>entries := es', entries_seq := m\<rparr>)"
  shows "wp (journal_nz (line k_commit tk)) (\<lambda>_. wp (journal_nz (line k_refund b)) (\<lambda>_. wp (journal_nz (line k_expire lost)) Q E) E) E s"
proof -
  note J = wp_journal_nz [where l = l and n = n and es = "entries s" and E = E, OF _ _ _ n refl]
  have x: "wp (journal_nz (line k_expire lost)) Q E (s\<lparr>entries := es, entries_seq := m\<rparr>)" if "debited l n tk (entries s) es" for es m
    by (rule J [where d = tk]) (use that Q line in \<open>auto simp: credit_kinds_def debit_kinds_def\<close>)
  have r: "wp (journal_nz (line k_refund b)) (\<lambda>_. wp (journal_nz (line k_expire lost)) Q E) E (s\<lparr>entries := es, entries_seq := m\<rparr>)"
    if "debited l n tk (entries s) es" for es m
    by (rule J [where d = tk]) (use that x line in \<open>auto simp: credit_kinds_def debit_kinds_def\<close>)
  show ?thesis
    by (rule J [where d = 0]) (use r line in \<open>auto simp: credit_kinds_def debit_kinds_def\<close>)
qed

section \<open>Settling\<close>

definition bucket_sum :: "(Bucket \<Rightarrow> int) \<Rightarrow> int" where
  "bucket_sum f = f Free + f Granted + f Earned + f Paid"

lemma bucket_sum_upd [simp]: "bucket_sum (f(b := f b + n)) = bucket_sum f + n"
  by (cases b) (simp_all add: bucket_sum_def)

definition settling :: "Config \<Rightarrow> led \<Rightarrow> string \<Rightarrow> int \<Rightarrow> settled \<Rightarrow> holdPart list \<Rightarrow> led \<Rightarrow> bool" where
  "settling cf s0 i us z ps s \<longleftrightarrow> closing cf s0 i (rem_of ps) s \<and> 0 \<le> z_left z \<and> z_left z \<le> all_units ps
     \<and> (\<forall>k. 0 \<le> z_backFree z k) \<and> bucket_sum (z_byBucket z) = us - z_left z"

lemma rem_of_Cons [simp]: "rem_of (p # ps) = (q_LotID p, q_Units p) # rem_of ps" by (simp add: rem_of_def)

lemma settle_part_step:
  assumes st: "settling cf s0 i us z (p # ps) s"
  shows "wp (settle_part h detail version now z p) (\<lambda>z'. settling cf s0 i us z' ps) safeE s"
proof -
  define tk where "tk = min (q_Units p) (z_left z)"
  define lost where "lost = (if q_ExpiresAt p \<noteq> 0 \<and> q_ExpiresAt p \<le> now then q_Units p - tk else 0)"
  have c: "closing cf s0 i ((q_LotID p, q_Units p) # rem_of ps) s" using st by (simp add: settling_def)
  have u: "0 < q_Units p" using c by (auto simp: closing_def)
  have a: "0 \<le> tk" "0 \<le> lost" "tk + lost \<le> q_Units p" using st u by (auto simp: tk_def lost_def settling_def)
  let ?z = "\<lparr>z_left = z_left z - tk,
              z_byBucket = (if tk > 0 then (z_byBucket z)(q_Bucket p := z_byBucket z (q_Bucket p) + tk) else z_byBucket z),
              z_backNonpaid = (if q_Bucket p = Paid then z_backNonpaid z else z_backNonpaid z + (q_Units p - tk)),
              z_backPaid = (if q_Bucket p = Paid then z_backPaid z + (q_Units p - tk) else z_backPaid z),
              z_backFree = (if q_Bucket p = Free \<and> 1 \<le> q_Origin p \<and> q_Origin p \<le> 4
                 then (z_backFree z)(q_Origin p := z_backFree z (q_Origin p) + (q_Units p - tk)) else z_backFree z)\<rparr>"
  have fin: "settling cf s0 i us ?z ps s'" if "closing cf s0 i (rem_of ps) s'" for s'
  proof -
    have "all_units (p # ps) = q_Units p + all_units ps" by (simp add: all_units_def)
    moreover have "0 \<le> all_units ps"
      unfolding all_units_def using c by (intro sum_list_nonneg_int) (force simp: closing_def rem_of_def)
    moreover have "bucket_sum (z_byBucket ?z) = us - z_left ?z" "\<forall>k. 0 \<le> z_backFree ?z k"
      using st a(1) by (auto simp: settling_def tk_def)
    ultimately show ?thesis using st that by (auto simp: settling_def tk_def)
  qed
  show ?thesis
    unfolding settle_part_def Let_def tk_def [symmetric] lost_def [symmetric] wp_thenM wp_ret
  proof (rule wp_close_take [OF c a])
    fix ls' assume n: "q_LotID p \<le> lots_seq s" and k: "kept (lots s0) ls'" and
      L: "\<And>fs. credits (q_LotID p) fs = 0 \<Longrightarrow> debits (q_LotID p) fs = tk + lost
         \<Longrightarrow> (\<And>j. j \<noteq> q_LotID p \<Longrightarrow> credits j fs = 0 \<and> debits j fs = 0)
         \<Longrightarrow> \<forall>e\<in>set fs. je_LotID e \<le> lots_seq s
         \<Longrightarrow> lots_ok (\<lambda>j. heldsum_but i (holds s0) (hold_parts s0) j + rsum (rem_of ps) j) ls' (lots_seq s) (entries s @ fs)"
    have F: "settling cf s0 i us ?z ps (s\<lparr>lots := ls', entries := es', entries_seq := m\<rparr>)"
      if "debited (q_LotID p) (lots_seq s) (tk + lost) (entries s) es'" for es' m
    proof (rule fin)
      have "lots_ok (\<lambda>j. heldsum_but i (holds s0) (hold_parts s0) j + rsum (rem_of ps) j) ls' (lots_seq s) es'"
        using that L by (auto simp: debited_def)
      then show "closing cf s0 i (rem_of ps) (s\<lparr>lots := ls', entries := es', entries_seq := m\<rparr>)"
        using c k by (auto simp: closing_def same_day_def)
    qed
    let ?line = "\<lambda>k amount. (entry0 (day_of now) now k (h_Account h) (h_Resource h) amount version)
             \<lparr>je_Bucket := Some (q_Bucket p), je_LotID := q_LotID p, je_HoldID := h_ID h,
              je_Ref := Ref0\<lparr>ref_Service := h_Service h, ref_Method := h_Method h\<rparr>, je_Detail := detail\<rparr>"
    show "wp (journal_nz (?line k_commit tk)) (\<lambda>_. wp (journal_nz (?line k_refund (q_Units p - tk - lost)))
        (\<lambda>_. wp (journal_nz (?line k_expire lost)) (\<lambda>_. settling cf s0 i us ?z ps) safeE) safeE) safeE (s\<lparr>lots := ls'\<rparr>)"
    proof (rule wp_settle_lines [where line = ?line])
      show "settling cf s0 i us ?z ps (s\<lparr>lots := ls'\<rparr>\<lparr>entries := es', entries_seq := m\<rparr>)"
        if "debited (q_LotID p) (lots_seq s) (tk + lost) (entries (s\<lparr>lots := ls'\<rparr>)) es'" for es' m
        by (rule F) (use that in simp)
    qed (use n in \<open>simp_all add: entry0_def\<close>)
  qed
qed

lemma settle_loop:
  assumes i: "linv cf s" and h: "h \<in> set (holds s)" "h_State h = h_held" and p: "parts_read s (h_ID h) parts"
    and u: "0 \<le> us" "us \<le> h_Max h"
    and Q: "\<And>z s'. closing cf s (h_ID h) [] s' \<Longrightarrow> (\<forall>k. 0 \<le> z_backFree z k) \<Longrightarrow> bucket_sum (z_byBucket z) = us \<Longrightarrow> Q z s'"
  shows "wp (foldM (settle_part h detail version now) (settled0 us) parts) Q safeE s"
proof (rule wp_foldM [where I = "settling cf s (h_ID h) us"])
  have "partsum (hold_parts s) (h_ID h) = h_Max h" using i h by (auto simp: linv_def holds_ok_def hold_ok_def)
  then show "settling cf s (h_ID h) us (settled0 us) parts s"
    using closing_start [OF i _ p] h p u by (auto simp: settling_def settled0_def open_hold_def bucket_sum_def parts_read_def)
  show "Q z s'" if "settling cf s (h_ID h) us z [] s'" for z s'
    using that by (intro Q) (auto simp: settling_def all_units_def rem_of_def)
qed (rule settle_part_step)

lemma undraw_slices:
  assumes d: "slices_ok d" and x: "0 \<le> x" shows "slices_ok (undraw d origin x)"
proof -
  let ?s = "sliceOf origin"
  have L: "Lent (Slices d (other ?s)) = Borrowed (Slices d ?s)"
    and n: "0 \<le> Borrowed (Slices d ?s)" "0 \<le> Claimed (Slices d ?s)" "0 \<le> Claimed (d_Anon d)"
    using d other_cases [of origin] by (auto simp: slices_ok_def pool_ok_def lending_ok_def)
  define bk where "bk = min x (Borrowed (Slices d ?s))"
  define own where "own = min (x - bk) (Claimed (Slices d ?s))"
  have u: "undraw d origin x = give_water origin bk own (min (bk + own) (Claimed (d_Anon d))) d"
    using undraw_eq [of d origin x] by (simp add: L own_def bk_def)
  have b: "0 \<le> bk" "0 \<le> own" "bk \<le> Borrowed (Slices d ?s)" "own \<le> Claimed (Slices d ?s)" "0 \<le> min (bk + own) (Claimed (d_Anon d))"
    "min (bk + own) (Claimed (d_Anon d)) \<le> Claimed (d_Anon d)"
    using x n unfolding own_def bk_def by linarith+
  show ?thesis
    unfolding u using other_cases [of origin]
  proof (elim disjE)
    assume "?s = sliceFloor \<and> other ?s = sliceStanding"
    with d b show "slices_ok (give_water origin bk own (min (bk + own) (Claimed (d_Anon d))) d)"
      by (simp add: give_water_def Let_def slices_ok_def pool_ok_def lending_ok_def avail_def)
  next
    assume "?s = sliceStanding \<and> other ?s = sliceFloor"
    with d b show "slices_ok (give_water origin bk own (min (bk + own) (Claimed (d_Anon d))) d)"
      by (simp add: give_water_def Let_def slices_ok_def pool_ok_def lending_ok_def avail_def)
  qed
qed

lemma wp_undrawDay:
  assumes d: "days_ok s" and b: "\<forall>k. 0 \<le> bk k"
    and Q: "\<And>ds ps. days_ok (s\<lparr>days := ds, pools := ps\<rparr>) \<Longrightarrow> Q () (s\<lparr>days := ds, pools := ps\<rparr>)"
  shows "wp (undrawDay r day bk) Q E s"
proof -
  let ?u = "\<lambda>d. foldl (\<lambda>d i. undraw d i (bk i)) d [1, 2, 3, 4]"
  have none: "Q () s" using Q [where ds = "days s" and ps = "pools s"] d by simp
  have save: "wp (saveDay (?u d) d) (\<lambda>_. Q ()) E s" if l: "day_load s r day = Inr (Some d)" and sl: "slices_ok d" and k: "d_Resource d = r" "d_Day d = day" for d
  proof (rule wp_saveDay)
    show "tables_ok s" using assms(1) by (simp add: days_ok_def)
    show "day_load s (d_Resource (?u d)) (d_Day (?u d)) = Inr (Some d)" using l k by simp
    have "slices_ok (?u d)" using sl b by (simp add: undraw_slices)
    then show "Q () (s\<lparr>days := ds, pools := ps\<rparr>)"
      if "d' = ?u d \<or> d' = (?u d)\<lparr>d_legacy := False\<rparr>" "day_written s (s\<lparr>days := ds, pools := ps\<rparr>) d'" for ds ps d'
      using that(1) by (intro Q days_ok_written [OF assms(1) that(2)]) auto
  qed simp_all
  show ?thesis
    unfolding undrawDay_def
    using none save by (auto simp: wp_rules intro!: wp_loadDay [OF d])
qed

lemma wp_credentialRelease:
  assumes "\<And>a b. Q () (s\<lparr>limit_usage := a, limit_hold_shares := b\<rparr>)"
  shows "wp (credentialRelease i n) Q E s"
proof -
  have fold: "wp (foldM (release_share i) m shs) (\<lambda>_ s'. \<exists>a b. s' = s\<lparr>limit_usage := a, limit_hold_shares := b\<rparr>) E s" for m shs
  proof (rule wp_foldM [where I = "\<lambda>_ _ s'. \<exists>a b. s' = s\<lparr>limit_usage := a, limit_hold_shares := b\<rparr>"])
    show "\<exists>a b. s = s\<lparr>limit_usage := a, limit_hold_shares := b\<rparr>"
      by (intro exI [of _ "limit_usage s"] exI [of _ "limit_hold_shares s"]) simp
    fix m sh s' and ys :: "holdShare list" assume "\<exists>a b. s' = s\<lparr>limit_usage := a, limit_hold_shares := b\<rparr>"
    then show "wp (release_share i m sh) (\<lambda>_ s'. \<exists>a b. s' = s\<lparr>limit_usage := a, limit_hold_shares := b\<rparr>) E s'"
      by (auto simp: release_share_def giveBack_def wp_rules) blast+
  qed
  have comm: "s\<lparr>limit_hold_shares := b, limit_usage := a\<rparr> = s\<lparr>limit_usage := a, limit_hold_shares := b\<rparr>" for a b by simp
  show ?thesis
    unfolding credentialRelease_def holdShares_def holdCredential_def giveBack_def
    using assms [where a = "limit_usage s" and b = "limit_hold_shares s"] assms
    by (auto simp: wp_rules comm split: option.splits intro!: wp_conseq [OF fold])
qed

text \<open>Changing the spent columns of a day.\<close>

lemma days_ok_spent:
  assumes d: "days_ok s" and g: "\<And>w. dr_Resource (g w) = dr_Resource w" "\<And>w. dr_Day (g w) = dr_Day w"
  shows "days_ok (s\<lparr>days := upd P g (days s)\<rparr>)"
proof -
  let ?s = "s\<lparr>days := upd P g (days s)\<rparr>"
  have at: "day_at ?s r day = map_option (\<lambda>w. if P w then g w else w) (day_at s r day)" for r day
    by (simp add: day_at_def find_upd g)
  have pl: "pool_at ?s r day row = pool_at s r day row" for r day row by (simp add: pool_at_def)
  have tb: "tables_ok ?s" using d by (simp add: days_ok_def tables_ok_def at pools_full_def pl)
  have raw: "raw_pool ?s r day = raw_pool s r day" for r day by (rule ext) (simp add: raw_pool_def pl)
  have bad: "bad_pool_row ?s r day = bad_pool_row s r day" for r day by (simp add: bad_pool_row_def)
  have "slices_ok d'" if ld: "day_load ?s r day = Inr (Some d')" for r day d'
  proof -
    obtain w where w: "day_at s r day = Some w" using ld by (auto simp: day_load_def at split: option.splits)
    have ok: "slices_ok d0" if "day_load s r day = Inr (Some d0)" for d0 using d that by (auto simp: days_ok_def)
    show ?thesis
      using ld ok w by (auto simp: day_load_def at raw pl bad Let_def fold_legacy_def day_of_row_def slices_ok_def lending_ok_def split: if_splits)
  qed
  then show ?thesis using tb by (simp add: days_ok_def)
qed

section \<open>Commit and refund\<close>

definition settled_to :: "Config \<Rightarrow> string \<Rightarrow> int \<Rightarrow> hold_state \<Rightarrow> led \<Rightarrow> Receipt \<Rightarrow> led \<Rightarrow> bool" where
  "settled_to cf j us final s rc s' \<longleftrightarrow> linv cf s' \<and> (\<exists>h. hold_at s j = Some h \<and> h_State h = h_held \<and> h_Service h \<noteq> ledgerService
     \<and> 0 \<le> us \<and> us \<le> h_Max h \<and> hold_at s' j = Some (h\<lparr>h_State := final, h_Used := us\<rparr>)
     \<and> r_Used rc = us \<and> r_Refunded rc = h_Max h - us \<and> (\<exists>f. r_ByBucket rc = Some f \<and> bucket_sum f = us))"

lemma settle_spec:
  assumes i: "linv cf s" and f: "final \<noteq> h_held"
  shows "wp (settle cf j us final detail now) (settled_to cf j us final s) safeE s"
proof (cases "hold_at s j")
  case None
  then show ?thesis by (simp add: settle_def loadHoldRow_def wp_rules)
next
  case (Some h)
  then have h: "h \<in> set (holds s)" "h_ID h = j" by (auto simp: hold_at_def dest: find_SomeD)
  have wr: "wp (settle_write j us final h version z) (settled_to cf j us final s) safeE s1"
    if c: "closing cf s j [] s1" and z: "\<forall>k. 0 \<le> z_backFree z k" "bucket_sum (z_byBucket z) = us"
      and sv: "h_Service h \<noteq> ledgerService" "h_State h = h_held" and u: "0 \<le> us" "us \<le> h_Max h"
    for s1 z version
  proof -
    let ?f = "\<lambda>x. x\<lparr>h_State := final, h_Used := us\<rparr>"
    have K: "core cf (lots s1) (lots_seq s1) (entries s1) (upd (\<lambda>h. h_ID h = j) ?f (holds s)) (hold_parts s) (transfers s)"
    proof (rule close_core [OF c])
      show "closes ?f" using f by (simp add: closes_def)
      have "x = h" if "x \<in> set (holds s)" "h_ID x = j" for x
        using hold_table.row_eq [of "holds s" x h] i h that by (simp add: linv_def holds_ok_def)
      then show "\<forall>x\<in>set (holds s). h_ID x = j \<longrightarrow> 0 \<le> h_Used (?f x) \<and> h_Used (?f x) \<le> h_Max x" using u by auto
      show "settled_transfers s j (transfers s)" using settled_service [OF i h(1) sv(1)] h(2) by simp
    qed
    have s1: "days_ok s1" "holds s1 = holds s" "hold_parts s1 = hold_parts s" "transfers s1 = transfers s"
      using c i days_ok_tables [of s1 s] by (auto simp: closing_def same_day_def linv_def)
    have fin: "settled_to cf j us final s \<lparr>r_HoldID = j, r_Resource = h_Resource h, r_Used = us, r_Refunded = h_Max h - us,
            r_ParamsVersion = version, r_ByBucket = Some (z_byBucket z)\<rparr> s'"
      if "days_ok s'" "core cf (lots s') (lots_seq s') (entries s') (holds s') (hold_parts s') (transfers s')"
        "holds s' = upd (\<lambda>h. h_ID h = j) ?f (holds s)" for s'
      using that Some h(2) z(2) sv u unfolding settled_to_def by (simp add: linv_core hold_at_def find_upd)
    show ?thesis
      unfolding settle_write_def Let_def wp_thenM
    proof (rule wp_undrawDay [OF s1(1) z(1)])
      fix ds ps assume dok: "days_ok (s1\<lparr>days := ds, pools := ps\<rparr>)"
      let ?g = "\<lambda>w. w\<lparr>dr_SpentNonpaid := dr_SpentNonpaid w - z_backNonpaid z, dr_SpentPaid := dr_SpentPaid w - z_backPaid z\<rparr>"
      have dok': "days_ok (s1\<lparr>pools := ps, days := upd P ?g ds\<rparr>)" for P
        using days_ok_spent [OF dok, of ?g P] by simp
      show "wp (if z_backNonpaid z + z_backPaid z > 0 then
          thenM (modifyM (\<lambda>s. s\<lparr>days := upd (\<lambda>w. (dr_Resource w, dr_Day w) = (h_Resource h, day_of (h_CreatedAt h))) ?g (days s)\<rparr>))
         (thenM (addUsage (h_Resource h) (day_of (h_CreatedAt h)) (h_Account h) (- (z_backNonpaid z + z_backPaid z)) 0 0)
          (credentialRelease j (z_backNonpaid z + z_backPaid z)))
        else ret ()) (\<lambda>_. wp (updateHold j ?f) (\<lambda>_. wp (ret \<lparr>r_HoldID = j, r_Resource = h_Resource h, r_Used = us, r_Refunded = h_Max h - us,
            r_ParamsVersion = version, r_ByBucket = Some (z_byBucket z)\<rparr>) (settled_to cf j us final s) safeE) safeE) safeE (s1\<lparr>days := ds, pools := ps\<rparr>)"
        using dok dok' K s1
        by (auto simp: wp_if wp_thenM wp_modifyM wp_ret updateHold_def intro!: wp_addUsage wp_credentialRelease fin)
    qed
  qed
  have loop: "wp (foldM (settle_part h detail version now) (settled0 us) parts) (\<lambda>z. wp (settle_write j us final h version z) (settled_to cf j us final s) safeE) safeE s"
    if "parts_read s j parts" "h_State h = h_held" "h_Service h \<noteq> ledgerService" "0 \<le> us" "us \<le> h_Max h" for parts version
    by (rule settle_loop [OF i h(1)]) (use that h(2) wr in simp_all)
  show ?thesis
    unfolding settle_def loadHoldRow_def wp_bindM wp_gets Some option.case
    using loop by (auto simp: wp_if wp_throw wp_bindM intro!: wp_params wp_loadHoldParts [OF i])
qed

lemma settle_linv:
  assumes "linv cf s" "final \<noteq> h_held" shows "wp (settle cf j us final detail now) (\<lambda>_. linv cf) safeE s"
  by (rule wp_conseq [OF settle_spec [OF assms]]) (auto simp: settled_to_def)

lemma Commit_linv: "linv cf s \<Longrightarrow> wp (Commit cf i us now) (\<lambda>_. linv cf) safeE s"
  unfolding Commit_def by (rule settle_linv) simp_all

lemma Refund_linv: "linv cf s \<Longrightarrow> wp (Refund cf i reason now) (\<lambda>_. linv cf) safeE s"
  unfolding Refund_def wp_thenM by (rule wp_conseq [OF settle_linv]) (simp_all add: wp_rules)

section \<open>Reimbursing\<close>

lemma wp_HoldSpent:
  assumes "linv cf s" "\<And>x. Q x s" "\<And>m. E (Internal m) s" shows "wp (HoldSpent i) Q E s"
  using assms(2,3) by (auto simp: HoldSpent_def loadHoldRow_def wp_rules split: option.splits intro!: wp_loadHoldParts [OF assms(1)])

lemma Reimburse_linv:
  assumes i: "linv cf s" shows "wp (Reimburse cf j reason now) (\<lambda>_. linv cf) safeE s"
proof -
  have loop: "wp (foldM (\<lambda>total b. let n = back_buckets sp b in
               if n > 0 then thenM (mint cf account r b n reason ref True j now) (ret (total + n))
               else ret total) (0::int) bs) (\<lambda>_. linv cf) safeE s" for sp account r ref bs
    by (rule wp_foldM [where I = "\<lambda>_ _. linv cf"])
      (auto simp: i Let_def wp_if wp_ret wp_thenM intro!: mint_linv)
  show ?thesis
    unfolding Reimburse_def loadHoldRow_def
    using loop i by (auto simp: wp_if wp_throw wp_bindM wp_gets wp_ret simp del: foldM.simps split: option.splits intro!: wp_HoldSpent [OF i])
qed

end
