(* ===== verification/Transfers_Inv.thy ===== *)
theory Transfers_Inv
  imports Settle_Inv
begin

text \<open>
  Transfers keep the invariant: a part moved to another account leaves its lot and arrives in one
  with the same units, whether it was held or not; a pending transfer's hold ends with it.
\<close>

section \<open>Moving one part\<close>

text \<open>The lots other than \<open>l\<close> only grew.\<close>

definition grown_but :: "int \<Rightarrow> lot list \<Rightarrow> lot list \<Rightarrow> bool" where
  "grown_but l ls ls' \<longleftrightarrow> kept ls ls' \<and> (\<forall>x\<in>set ls. l_ID x \<noteq> l \<longrightarrow> (\<exists>y\<in>set ls'. same_lot x y \<and> spendable x \<le> spendable y))"

lemma grown_but_take: "grown_but l ls (upd (\<lambda>y. l_ID y = l) (take_row tk released lost) ls)"
proof -
  have "\<exists>y\<in>set (upd (\<lambda>y. l_ID y = l) (take_row tk released lost) ls). same_lot x y \<and> spendable x \<le> spendable y"
    if "x \<in> set ls" "l_ID x \<noteq> l" for x
    using in_upd_other [OF that(1), of "\<lambda>y. l_ID y = l"] that(2) by (intro bexI [of _ x]) auto
  then show ?thesis by (simp add: grown_but_def)
qed

lemma grown_but_trans:
  assumes "grown_but l a b" "grown b c" shows "grown_but l a c"
proof -
  have "\<exists>y\<in>set c. same_lot x y \<and> spendable x \<le> spendable y" if "x \<in> set a" "l_ID x \<noteq> l" for x
    using assms that unfolding grown_but_def grown_def by (meson order_trans same_lot_trans)
  moreover have "kept a c" using assms kept_trans grown_kept unfolding grown_but_def by blast
  ultimately show ?thesis by (simp add: grown_but_def)
qed

lemma moved_lot_ok:
  assumes "lot_ok x" "same_lot x (p_Lot q)" "0 < p_Take q"
  shows "new_lot_ok (moved_lot to q) \<and> l_Remaining (moved_lot to q) = p_Take q"
  using assms by (simp add: new_lot_ok_def moved_lot_def lot_ok_def same_lot_def)

lemma wp_move_part:
  assumes ok: "lots_ok H (lots s) (lots_seq s) (entries s)" and x: "x \<in> set (lots s)" "same_lot x (p_Lot q)" "0 < p_Take q"
    and rel: "released = (if was_held then p_Take q else 0)" "released \<le> H (l_ID x)" "p_Take q \<le> spendable x + released"
    and H': "H' = H(l_ID x := H (l_ID x) - released)" "fresh_held H' (lots_seq s)"
    and Q: "\<And>ls' n' es' k m' b'. lots_ok H' ls' n' es' \<Longrightarrow> grown_but (l_ID x) (lots s) ls' \<Longrightarrow> lots_seq s \<le> n' \<Longrightarrow> m \<le> m' \<Longrightarrow> m' \<le> m + p_Take q
      \<Longrightarrow> Q (m', b') (s\<lparr>lots := ls', lots_seq := n', entries := es', entries_seq := k\<rparr>)"
  shows "wp (move_part r version from to i was_held opn now (m, b) q) Q safeE s"
proof -
  let ?l = "l_ID x" and ?t = "p_Take q"
  have id: "l_ID (p_Lot q) = ?l" using x(2) by (simp add: same_lot_def)
  have bal: "lot_bal H (entries s) x" "?l \<le> lots_seq s" using lots_okD [OF ok x(1)] by auto
  then have lo: "lot_ok x" by (simp add: lot_bal_def)
  have R: "0 \<le> released" "0 < l_Remaining x"
    using rel x(3) bal by (auto simp: lot_bal_def lot_ok_def lot_check_def spendable_def)
  have L: "lots_ok H' (upd (\<lambda>y. l_ID y = ?l) (take_row tk released lost) (lots s)) (lots_seq s) (entries s @ [e])"
    if "tk + lost = ?t" "0 \<le> tk" "0 \<le> lost" "je_LotID e = ?l" "je_Kind e \<in> debit_kinds - credit_kinds" "je_Amount e = ?t" for tk lost e
    unfolding H'(1) using lots_ok_take [OF ok x(1), of tk lost released "[e]"] that R rel bal by auto
  let ?ref = "Ref0\<lparr>ref_Service := ledgerService, ref_Op := opn, ref_PublicRef := i\<rparr>"
  let ?line = "\<lambda>k account counter lot_id. (entry0 (day_of now) now k account r ?t version)
            \<lparr>je_Counter := counter, je_Bucket := Some (l_Bucket (p_Lot q)), je_LotID := lot_id, je_Ref := ?ref\<rparr>"
  show ?thesis
  proof (cases "l_ExpiresAt (p_Lot q) \<noteq> 0 \<and> l_ExpiresAt (p_Lot q) \<le> now")
    case True
    let ?ls = "upd (\<lambda>y. l_ID y = ?l) (take_row 0 released ?t) (lots s)"
    have "wp (takeFrom ?l 0 released ?t) (\<lambda>_. wp (thenM (journal (?line k_expire from [] ?l)) (ret (m, b))) Q safeE) safeE s"
    proof (rule wp_takeFrom [OF ok x(1) refl])
      have "Q (m, b) (s\<lparr>lots := ?ls, lots_seq := lots_seq s, entries := entries s @ [e], entries_seq := k\<rparr>)"
        if "je_LotID e = ?l" "je_Kind e = k_expire" "je_Amount e = ?t" for e k
        using that x(3) by (intro Q L grown_but_take) (auto simp: debit_kinds_def credit_kinds_def)
      then show "wp (thenM (journal (?line k_expire from [] ?l)) (ret (m, b))) Q safeE (s\<lparr>lots := ?ls\<rparr>)"
        by (simp add: wp_rules journal_def entry0_def)
    qed (use R rel x(3) in auto)
    then show ?thesis using True by (simp add: move_part_def Let_def rel(1) [symmetric] id wp_thenM)
  next
    case False
    let ?ls = "upd (\<lambda>y. l_ID y = ?l) (take_row ?t released 0) (lots s)"
    let ?out = "(?line k_transfer_out from to ?l)\<lparr>je_Seq := entries_seq s + 1, je_Ref := ?ref\<lparr>ref_Op := opOf ?ref, ref_Method := []\<rparr>\<rparr>"
    have ok1: "lots_ok H' ?ls (lots_seq s) (entries s @ [?out])"
      using x(3) by (intro L) (auto simp: entry0_def debit_kinds_def credit_kinds_def)
    let ?rest = "\<lambda>lot_id. thenM (journal (?line k_transfer_out from to ?l)) (thenM (journal (?line k_transfer_in to from lot_id))
          (ret (m + ?t, b(l_Bucket (p_Lot q) := b (l_Bucket (p_Lot q)) + ?t))))"
    have "wp (takeFrom ?l ?t released 0) (\<lambda>_. wp (creditLot r (moved_lot to q) now) (\<lambda>j. wp (?rest j) Q safeE) safeE) safeE s"
    proof (rule wp_takeFrom [OF ok x(1) refl])
      show "wp (creditLot r (moved_lot to q) now) (\<lambda>j. wp (?rest j) Q safeE) safeE (s\<lparr>lots := ?ls\<rparr>)"
      proof (rule wp_creditLot [where H = H' and es = "entries s @ [?out]"])
        fix j ls' n'
        assume "credited H' (lots (s\<lparr>lots := ?ls\<rparr>)) (lots_seq (s\<lparr>lots := ?ls\<rparr>)) (entries s @ [?out]) j (l_Remaining (moved_lot to q)) ls' n'"
        then have cr: "credited H' ?ls (lots_seq s) (entries s @ [?out]) j ?t ls' n'"
          using moved_lot_ok [OF lo x(2,3)] by simp
        have "Q (m + ?t, b') (s\<lparr>lots := ls', lots_seq := n', entries := (entries s @ [?out]) @ [e], entries_seq := k\<rparr>)"
          if "je_LotID e = j" "je_Kind e = k_transfer_in" "je_Amount e = ?t" for e k b'
        proof (rule Q)
          have "credit_line j ?t n' [e]" using that cr by (intro credit_line_single) (auto simp: credit_kinds_def credited_def)
          then show "lots_ok H' ls' n' ((entries s @ [?out]) @ [e])" using cr by (auto simp: credited_def)
          show "grown_but ?l (lots s) ls'" using cr grown_but_trans [OF grown_but_take] by (auto simp: credited_def)
          show "lots_seq s \<le> n'" using cr by (simp add: credited_def)
        qed (use x(3) in auto)
        then show "wp (?rest j) Q safeE (s\<lparr>lots := ?ls\<rparr>\<lparr>lots := ls', lots_seq := n'\<rparr>)"
          by (simp add: wp_rules journal_def entry0_def)
      qed (use ok1 H'(2) moved_lot_ok [OF lo x(2,3)] in simp_all)
    qed (use R rel x(3) in auto)
    then show ?thesis unfolding move_part_def Let_def case_prod_conv if_not_P [OF False] by (simp add: rel(1) [symmetric] id wp_thenM wp_bindM)
  qed
qed

section \<open>Moving held parts\<close>

definition rem_parts :: "part list \<Rightarrow> (int \<times> int) list" where
  "rem_parts ps = map (\<lambda>p. (l_ID (p_Lot p), p_Take p)) ps"

lemma same_lot_sym: "same_lot x y \<Longrightarrow> same_lot y x" by (simp add: same_lot_def)

lemma closing_fresh:
  assumes c: "closing cf s0 i (lu # rem) s"
  shows "fresh_held (\<lambda>j. heldsum_but i (holds s0) (hold_parts s0) j + rsum rem j) (lots_seq s)"
proof -
  have le: "l_ID x \<le> lots_seq s" if x: "x \<in> set (lots s0)" for x
  proof -
    obtain y where "y \<in> set (lots s)" "l_ID y = l_ID x" using c x unfolding closing_def kept_def same_lot_def by metis
    then show ?thesis using c lots_okD unfolding closing_def by metis
  qed
  have p: "hp_Lot p \<le> lots_seq s" if "p \<in> set (hold_parts s0)" for p
    using c that le unfolding closing_def linv_def holds_ok_def part_ok_def by metis
  have r: "l \<le> lots_seq s" if "(l, u) \<in> set rem" for l u using c that le by (force simp: closing_def)
  have "heldsum_but i (holds s0) (hold_parts s0) j = 0" if "lots_seq s < j" for j
    using that p unfolding heldsum_but_def by (intro sum_list_zero) force
  moreover have "rsum rem j = 0" if "lots_seq s < j" for j
    using that r unfolding rsum_def by (intro sum_list_zero) force
  ultimately show ?thesis by (simp add: fresh_held_def)
qed

definition moving :: "Config \<Rightarrow> led \<Rightarrow> string \<Rightarrow> int \<Rightarrow> int \<times> (Bucket \<Rightarrow> int) \<Rightarrow> part list \<Rightarrow> led \<Rightarrow> bool" where
  "moving cf s0 i tot mb ps s \<longleftrightarrow> closing cf s0 i (rem_parts ps) s \<and> 0 \<le> fst mb \<and> fst mb + taken ps \<le> tot
     \<and> (\<forall>p\<in>set ps. \<exists>x\<in>set (lots s0). same_lot x (p_Lot p))"

lemma move_held_step:
  assumes m: "moving cf s0 i tot mb (q # ps) s"
  shows "wp (move_part r version from to tid True opn now mb q) (\<lambda>mb'. moving cf s0 i tot mb' ps) safeE s"
proof -
  let ?l = "l_ID (p_Lot q)" and ?u = "p_Take q"
  let ?H = "\<lambda>j. heldsum_but i (holds s0) (hold_parts s0) j + rsum ((?l, ?u) # rem_parts ps) j"
  let ?H' = "\<lambda>j. heldsum_but i (holds s0) (hold_parts s0) j + rsum (rem_parts ps) j"
  obtain n b where mb: "mb = (n, b)" by fastforce
  have c: "closing cf s0 i ((?l, ?u) # rem_parts ps) s" using m by (simp add: moving_def rem_parts_def)
  have ok: "lots_ok ?H (lots s) (lots_seq s) (entries s)" using c by (simp add: closing_def)
  from c obtain x where x: "x \<in> set (lots s)" "l_ID x = ?l" "0 < ?u" "?u \<le> ?H ?l" "?u \<le> l_Held x" "0 < l_Remaining x" "0 \<le> spendable x"
    by (rule closing_lot)
  obtain x0 where x0: "x0 \<in> set (lots s0)" "same_lot x0 (p_Lot q)" using m by (auto simp: moving_def)
  obtain y where y: "y \<in> set (lots s)" "same_lot x0 y" using c x0(1) unfolding closing_def kept_def by metis
  have "y = x" using lots_ok_unique [OF ok y(1) x(1)] y(2) x0(2) x(2) by (simp add: same_lot_def)
  then have sx: "same_lot x (p_Lot q)" using same_lot_trans [OF same_lot_sym [OF y(2)] x0(2)] by simp
  show ?thesis
    unfolding mb
  proof (rule wp_move_part [OF ok x(1) sx x(3) refl])
    show "?H' = ?H(l_ID x := ?H (l_ID x) - (if True then ?u else 0))" using x(2) by (auto simp: fun_eq_iff)
    show "fresh_held ?H' (lots_seq s)" by (rule closing_fresh [OF c])
    fix ls' n' es' k m' b'
    assume a: "lots_ok ?H' ls' n' es'" "grown_but (l_ID x) (lots s) ls'" "lots_seq s \<le> n'" "n \<le> m'" "m' \<le> n + ?u"
    have "kept (lots s0) ls'" using c a(2) kept_trans by (auto simp: closing_def grown_but_def)
    then show "moving cf s0 i tot (m', b') ps (s\<lparr>lots := ls', lots_seq := n', entries := es', entries_seq := k\<rparr>)"
      using m a c by (auto simp: moving_def closing_def same_day_def mb taken_def)
  qed (use x in auto)
qed

lemma moveParts_held:
  assumes "closing cf s0 i (rem_parts ps) s" "\<forall>p\<in>set ps. \<exists>x\<in>set (lots s0). same_lot x (p_Lot p)"
    and Q: "\<And>m b s'. closing cf s0 i [] s' \<Longrightarrow> 0 \<le> m \<Longrightarrow> m \<le> taken ps \<Longrightarrow> Q (m, b) s'"
  shows "wp (moveParts r version from to tid ps True opn now) Q safeE s"
  unfolding moveParts_def
proof (rule wp_foldM [where I = "moving cf s0 i (taken ps)"])
  show "moving cf s0 i (taken ps) (0, \<lambda>_. 0) ps s" using assms by (simp add: moving_def)
  show "Q mb s'" if "moving cf s0 i (taken ps) mb [] s'" for mb s'
    using that Q [of s' "fst mb" "snd mb"] by (simp add: moving_def rem_parts_def taken_def)
qed (rule move_held_step)

text \<open>The parts of a hold as a plan.\<close>

lemma wp_heldParts:
  assumes i: "linv cf s" and p: "parts_read s j hp"
    and Q: "\<And>parts. rem_parts parts = rem_of hp \<Longrightarrow> \<forall>p\<in>set parts. p_Lot p \<in> set (lots s) \<Longrightarrow> taken parts = all_units hp \<Longrightarrow> Q parts s"
  shows "wp (heldParts hp) Q E s"
  unfolding heldParts_def
proof (rule wp_foldM [where I = "\<lambda>ps qs s'. s' = s \<and> rem_parts ps @ rem_of qs = rem_of hp \<and> (\<forall>p\<in>set ps. p_Lot p \<in> set (lots s))
    \<and> taken ps + all_units qs = all_units hp \<and> set qs \<subseteq> set hp"])
  show "s = s \<and> rem_parts [] @ rem_of hp = rem_of hp \<and> (\<forall>p\<in>set []. p_Lot p \<in> set (lots s))
    \<and> taken [] + all_units hp = all_units hp \<and> set hp \<subseteq> set hp" by (simp add: rem_parts_def taken_def)
next
  fix ps q qs s'
  assume I: "s' = s \<and> rem_parts ps @ rem_of (q # qs) = rem_of hp \<and> (\<forall>p\<in>set ps. p_Lot p \<in> set (lots s))
    \<and> taken ps + all_units (q # qs) = all_units hp \<and> set (q # qs) \<subseteq> set hp"
  then have "part_of_lot (holds s) (lots s) j q" using p by (simp add: parts_read_def)
  then obtain x where x: "x \<in> set (lots s)" "l_ID x = q_LotID q" by (auto simp: part_of_lot_def)
  have f: "find (\<lambda>y. l_ID y = q_LotID q) (lots s) = Some x"
    using lot_table.find_row [of "lots s" x] i x by (simp add: linv_def lots_ok_def)
  show "wp (bindM (gets (\<lambda>s. find (\<lambda>x. l_ID x = q_LotID q) (lots s))) (\<lambda>x0. case x0 of
       None \<Rightarrow> throw (Internal ''lot of a transfer'')
     | Some x \<Rightarrow> ret (ps @ [\<lparr>p_Lot = x, p_Take = q_Units q\<rparr>]))) (\<lambda>ps s'. s' = s \<and> rem_parts ps @ rem_of qs = rem_of hp
     \<and> (\<forall>p\<in>set ps. p_Lot p \<in> set (lots s)) \<and> taken ps + all_units qs = all_units hp \<and> set qs \<subseteq> set hp) E s'"
    using I f x by (auto simp: wp_rules rem_parts_def taken_def all_units_def)
qed (use Q in \<open>auto simp: all_units_def rem_of_def\<close>)

section \<open>Ending a pending transfer\<close>

lemma pending_hold:
  assumes i: "linv cf s" and t: "t \<in> set (transfers s)" "t_State t = t_pending"
  obtains h where "h \<in> set (holds s)" "h_ID h = t_HoldID t" "open_hold (holds s) (t_HoldID t) \<or> (\<forall>p\<in>set (hold_parts s). hp_Hold p \<noteq> t_HoldID t)"
proof -
  have "pend_ok cf (holds s) (hold_parts s) t" using i t by (simp add: linv_def transfers_ok_def)
  then show ?thesis using that by (auto simp: pend_ok_def open_hold_def)
qed

lemma settled_pending:
  assumes i: "linv cf s" and t: "t \<in> set (transfers s)" "t_State t = t_pending"
    and f: "\<And>x. t_ID (f x) = t_ID x" "\<And>x. t_State (f x) \<noteq> t_pending"
  shows "settled_transfers s (t_HoldID t) (upd (\<lambda>x. t_ID x = t_ID t) f (transfers s))"
proof -
  have ok: "transfers_ok cf (holds s) (hold_parts s) (transfers s)" using i by (simp add: linv_def)
  have "x \<in> set (transfers s) \<and> t_HoldID x \<noteq> t_HoldID t"
    if x: "x \<in> set (upd (\<lambda>x. t_ID x = t_ID t) f (transfers s))" "t_State x = t_pending" for x
    using x(1)
  proof (rule in_updE)
    fix y assume "x = f y"
    then show ?thesis using f(2) x(2) by simp
  next
    assume y: "x \<in> set (transfers s)" "t_ID x \<noteq> t_ID t"
    then have "x \<noteq> t" by auto
    then show ?thesis using ok t x(2) y(1) unfolding transfers_ok_def by metis
  qed
  moreover have "map t_ID (upd (\<lambda>x. t_ID x = t_ID t) f (transfers s)) = map t_ID (transfers s)" by (rule map_upd) (simp add: f)
  ultimately show ?thesis using ok by (simp add: settled_transfers_def transfers_ok_def)
qed

lemma wp_transferHold:
  assumes "transfer_at s i = Some t" "Q (t_HoldID t) s" shows "wp (transferHold i) Q E s"
  using assms by (simp add: transferHold_def wp_rules)

lemma unhold_loop:
  assumes c: "closing cf s0 i (rem_of parts) s" and line: "\<And>p. je_LotID (line p) = q_LotID p" "\<And>p. je_Kind (line p) = k_refund"
    and Q: "\<And>s'. closing cf s0 i [] s' \<Longrightarrow> Q () s'"
  shows "wp (forM parts (unhold_part line)) Q safeE s"
  by (rule wp_forM [where I = "\<lambda>ps. closing cf s0 i (rem_of ps)"])
    (use assms in \<open>auto simp: unhold_part_def rem_of_def intro: wp_close_unhold\<close>)

lemma closing_days: "closing cf s0 i rem s \<Longrightarrow> days_ok s"
  using days_ok_tables [of s s0] by (auto simp: closing_def same_day_def linv_def)

lemma closing_tables: "closing cf s0 i rem s \<Longrightarrow> holds s = holds s0 \<and> hold_parts s = hold_parts s0 \<and> transfers s = transfers s0"
  by (simp add: closing_def)

lemma used_bounds: "linv cf s \<Longrightarrow> h \<in> set (holds s) \<Longrightarrow> 0 \<le> h_Used h \<and> h_Used h \<le> h_Max h \<and> partsum (hold_parts s) (h_ID h) = h_Max h"
  by (auto simp: linv_def holds_ok_def hold_ok_def)

lemma hold_row_unique: "linv cf s \<Longrightarrow> h \<in> set (holds s) \<Longrightarrow> h' \<in> set (holds s) \<Longrightarrow> h_ID h = h_ID h' \<Longrightarrow> h = h'"
  by (rule hold_table.row_eq [of "holds s"]) (auto simp: linv_def holds_ok_def)

lemma release_linv:
  assumes i: "linv cf s" and at: "transfer_at s (tr_ID t) = Some row" "t_State row = t_pending" and st: "state \<noteq> t_pending"
  shows "wp (release cf t state actor now) (\<lambda>_. linv cf) safeE s"
proof -
  have row: "row \<in> set (transfers s)" "t_ID row = tr_ID t" using at by (auto simp: transfer_at_def dest: find_SomeD)
  let ?j = "t_HoldID row"
  from i row(1) at(2) obtain h where o: "open_hold (holds s) ?j \<or> (\<forall>p\<in>set (hold_parts s). hp_Hold p \<noteq> ?j)"
    by (rule pending_hold)
  let ?f = "\<lambda>h. h\<lparr>h_State := h_refunded\<rparr>" and ?g = "\<lambda>x. x\<lparr>t_State := state, t_CancelledBy := actor, t_DoneAt := now\<rparr>"
  have K: "core cf (lots s1) (lots_seq s1) (entries s1) (upd (\<lambda>h. h_ID h = ?j) ?f (holds s)) (hold_parts s) (upd (\<lambda>x. t_ID x = tr_ID t) ?g (transfers s))"
    if c: "closing cf s ?j [] s1" for s1
    by (rule close_core [OF c])
      (use used_bounds [OF i] settled_pending [OF i row(1) at(2), of ?g] st row(2) in \<open>auto simp: closes_def\<close>)
  show ?thesis
    unfolding release_def wp_bindM
    by (auto simp: wp_bindM wp_thenM updateHold_def updateTransfer_def wp_modifyM linv_core K closing_days closing_tables entry0_def
        intro!: wp_params wp_transferHold [OF at(1)] wp_loadHoldParts [OF i] unhold_loop [OF closing_start [OF i o]] wp_addUsage wp_credentialRelease)
qed

lemma execute_linv:
  assumes i: "linv cf s" and at: "transfer_at s (tr_ID t) = Some row" "t_State row = t_pending"
  shows "wp (execute cf t now) (\<lambda>_. linv cf) safeE s"
proof -
  have row: "row \<in> set (transfers s)" "t_ID row = tr_ID t" using at by (auto simp: transfer_at_def dest: find_SomeD)
  let ?j = "t_HoldID row"
  from i row(1) at(2) obtain h where h: "h \<in> set (holds s)" "h_ID h = ?j"
    and o: "open_hold (holds s) ?j \<or> (\<forall>p\<in>set (hold_parts s). hp_Hold p \<noteq> ?j)"
    by (rule pending_hold)
  let ?f = "\<lambda>m h. h\<lparr>h_State := h_committed, h_Used := m\<rparr>" and ?g = "\<lambda>x. x\<lparr>t_State := t_done, t_DoneAt := now\<rparr>"
  have mx: "\<forall>h\<in>set (holds s). h_ID h = ?j \<longrightarrow> partsum (hold_parts s) ?j = h_Max h" using used_bounds [OF i] by metis
  have K: "core cf (lots s1) (lots_seq s1) (entries s1) (upd (\<lambda>h. h_ID h = ?j) (?f m) (holds s)) (hold_parts s) (upd (\<lambda>x. t_ID x = tr_ID t) ?g (transfers s))"
    if c: "closing cf s ?j [] s1" and m: "0 \<le> m" "m \<le> partsum (hold_parts s) ?j" for s1 m
    by (rule close_core [OF c])
      (use mx settled_pending [OF i row(1) at(2), of ?g] m row(2) in \<open>auto simp: closes_def\<close>)
  have mv: "wp (moveParts r version src dst tid parts True opn now) (\<lambda>mb s1. case mb of (m, _) \<Rightarrow> wp (thenM (updateHold ?j (?f m)) (updateTransfer (tr_ID t) ?g)) (\<lambda>_. linv cf) safeE s1) safeE s"
    if p: "parts_read s ?j hp" and q: "rem_parts parts = rem_of hp" "\<forall>p\<in>set parts. p_Lot p \<in> set (lots s)" "taken parts = all_units hp"
    for r version src dst tid parts opn hp
  proof (rule moveParts_held [of cf s ?j])
    show "closing cf s ?j (rem_parts parts) s" using closing_start [OF i o p] q(1) by simp
    show "\<forall>p\<in>set parts. \<exists>x\<in>set (lots s). same_lot x (p_Lot p)" using q(2) same_lot_refl by blast
    fix m b s1 assume c: "closing cf s ?j [] s1" and m: "0 \<le> m" "m \<le> taken parts"
    have "m \<le> partsum (hold_parts s) ?j" using m(2) q(3) p by (simp add: parts_read_def)
    with K [OF c m(1)] closing_days [OF c] closing_tables [OF c]
    show "case (m, b) of (m, _) \<Rightarrow> wp (thenM (updateHold ?j (?f m)) (updateTransfer (tr_ID t) ?g)) (\<lambda>_. linv cf) safeE s1"
      by (simp add: updateHold_def updateTransfer_def wp_rules linv_core)
  qed
  show ?thesis
    unfolding execute_def wp_bindM loadHoldRow_def
    using mv by (auto simp: wp_bindM wp_gets wp_throw case_prod_unfold split: option.splits
        intro!: wp_params wp_transferHold [OF at(1)] wp_loadHoldParts [OF i] wp_heldParts [OF i])
qed

lemma loadTransfer_row: "map_option (transfer_of_row s) (transfer_at s i) = Some t
  \<Longrightarrow> \<exists>row. transfer_at s i = Some row \<and> t_ID row = i \<and> tr_ID t = i \<and> tr_State t = t_State row"
  by (auto simp: transfer_of_row_def transfer_at_def Let_def dest: find_SomeD)

lemma CancelTransfer_linv:
  assumes i: "linv cf s" shows "wp (CancelTransfer cf j actor now) (\<lambda>_. linv cf) safeE s"
proof -
  have "wp (release cf t t_cancelled actor now) (\<lambda>_. linv cf) safeE s"
    if "map_option (transfer_of_row s) (transfer_at s j) = Some t" "tr_State t = t_pending" for t
    using loadTransfer_row [OF that(1)] that(2) by (auto intro: release_linv [OF i])
  then show ?thesis
    unfolding CancelTransfer_def loadTransfer_def by (auto simp: wp_rules split: option.splits)
qed

section \<open>Moving parts that are not held\<close>

lemma parts_of_grown:
  assumes p: "parts_of account r ls (q # qs)" and g: "grown_but (l_ID (p_Lot q)) ls ls'"
  shows "parts_of account r ls' qs"
proof -
  have "\<exists>y\<in>set ls'. same_lot y (p_Lot w) \<and> l_Account y = account \<and> l_Resource y = r \<and> p_Take w \<le> spendable y" if w: "w \<in> set qs" for w
  proof -
    obtain x where x: "x \<in> set ls" "same_lot x (p_Lot w)" "l_Account x = account" "l_Resource x = r" "p_Take w \<le> spendable x"
      using p w by (auto simp: parts_of_def)
    have "l_ID x \<noteq> l_ID (p_Lot q)" using p w x(2) by (auto simp: parts_of_def same_lot_def image_iff)
    then obtain y where "y \<in> set ls'" "same_lot x y" "spendable x \<le> spendable y" using g x(1) unfolding grown_but_def by blast
    then show ?thesis using x by (intro bexI [of _ y]) (auto simp: same_lot_def)
  qed
  then show ?thesis using p by (auto simp: parts_of_def)
qed

definition shifting :: "Config \<Rightarrow> led \<Rightarrow> string \<Rightarrow> Resource \<Rightarrow> part list \<Rightarrow> led \<Rightarrow> bool" where
  "shifting cf s0 account r qs s \<longleftrightarrow> linv cf s \<and> same_day s0 s \<and> transfers s = transfers s0 \<and> parts_of account r (lots s) qs"

lemma move_free_step:
  assumes m: "shifting cf s0 account r (q # qs) s"
  shows "wp (move_part r version from to tid False opn now mb q) (\<lambda>_. shifting cf s0 account r qs) safeE s"
proof -
  obtain n b where mb: "mb = (n, b)" by fastforce
  let ?H = "heldsum (holds s) (hold_parts s)"
  have i: "linv cf s" using m by (simp add: shifting_def)
  have ok: "lots_ok ?H (lots s) (lots_seq s) (entries s)" using i by (simp add: linv_def)
  obtain x where x: "x \<in> set (lots s)" "same_lot x (p_Lot q)" "0 < p_Take q" "p_Take q \<le> spendable x"
    using m by (auto simp: shifting_def parts_of_def)
  have id: "l_ID x = l_ID (p_Lot q)" using x(2) by (simp add: same_lot_def)
  have H0: "0 \<le> ?H (l_ID x)" using lots_okD [OF ok x(1)] by (auto simp: lot_bal_def lot_ok_def lot_check_def)
  show ?thesis
    unfolding mb
  proof (rule wp_move_part [OF ok x(1-3) refl, where H' = ?H])
    fix ls' n' es' k m' b'
    assume a: "lots_ok ?H ls' n' es'" "grown_but (l_ID x) (lots s) ls'"
    have "holds_ok {} ls' (holds s) (hold_parts s)" using a(2) i holds_ok_kept by (auto simp: grown_but_def linv_def)
    then show "shifting cf s0 account r qs (s\<lparr>lots := ls', lots_seq := n', entries := es', entries_seq := k\<rparr>)"
      using m a parts_of_grown [of account r "lots s" q qs ls'] id by (auto simp: shifting_def same_day_def linv_def)
  qed (use x H0 linv_fresh [OF i] in auto)
qed

lemma moveParts_free:
  assumes "linv cf s" "parts_of account r (lots s) parts"
  shows "wp (moveParts r version from to tid parts False opn now) (\<lambda>_ s'. linv cf s' \<and> same_day s s' \<and> transfers s' = transfers s) safeE s"
  unfolding moveParts_def
  by (rule wp_foldM [where I = "\<lambda>_. shifting cf s account r"]) (use assms move_free_step in \<open>auto simp: shifting_def\<close>)

section \<open>Plans without water\<close>

lemma plan_from_spec:
  assumes "planned account r ls xs" "plan_from xs units ok got = (parts, n)"
  shows "parts_of account r ls parts \<and> (\<lambda>q. l_ID (p_Lot q)) ` set parts \<subseteq> l_ID ` set xs \<and> n = got + taken parts \<and> (got \<le> units \<longrightarrow> n \<le> units)"
  using assms
proof (induction xs arbitrary: got parts n)
  case Nil
  then show ?case by (simp add: parts_of_def taken_def)
next
  case (Cons x xs)
  have p: "planned account r ls xs" using Cons.prems(1) by (auto simp: planned_def)
  obtain w where w: "w \<in> set ls" "same_lot w x" "l_Account w = account" "l_Resource w = r" "spendable x \<le> spendable w"
    using Cons.prems(1) by (auto simp: planned_def)
  have new: "l_ID x \<notin> l_ID ` set xs" using Cons.prems(1) by (auto simp: planned_def)
  define tk where "tk = min (units - got) (spendable x)"
  consider "units \<le> got" | "got < units" "\<not> ok x \<or> tk \<le> 0" | "got < units" "ok x" "0 < tk" by linarith
  then show ?case
  proof cases
    case 1
    then show ?thesis using Cons.prems(2) by (simp add: parts_of_def taken_def)
  next
    case 2
    then have "plan_from xs units ok got = (parts, n)" using Cons.prems(2) by (auto simp: tk_def Let_def split: if_splits)
    from Cons.IH [OF p this] show ?thesis by auto
  next
    case 3
    obtain ps where ps: "plan_from xs units ok (got + tk) = (ps, n)" "parts = \<lparr>p_Lot = x, p_Take = tk\<rparr> # ps"
      using Cons.prems(2) 3 by (auto simp: tk_def [symmetric] Let_def split: prod.splits)
    note I = Cons.IH [OF p ps(1)]
    have "parts_of account r ls parts" using I w new 3 by (auto simp: ps(2) parts_of_def tk_def image_subset_iff)
    then show ?thesis using I 3 by (auto simp: ps(2) taken_def tk_def)
  qed
qed

lemma plan_spec:
  assumes "planned account r ls xs" "plan xs units ok = (parts, got)" "0 \<le> units"
  shows "parts_of account r ls parts \<and> taken parts = got \<and> got \<le> units"
  using plan_from_spec [of account r ls xs units ok 0 parts got] assms by (simp add: plan_def)

section \<open>Transfer\<close>

text \<open>The common start of a transfer and an escrow: due lots swept, the claim, the fee, the live lots.\<close>

lemma fee_prelude:
  assumes g: "good cf p s" and fee: "0 \<le> fee"
    and m: "\<And>c ls s'. good cf p s' \<Longrightarrow> planned (s_ID sb) r (lots s') ls \<Longrightarrow> wp (m c ls) Q safeE s'"
  shows "wp (sweepOwn (s_ID sb)) (\<lambda>_. wp (claim cf sb) (\<lambda>c. wp (credentialCheck sb (n c)) (\<lambda>_. wp (debit sb c fee k_fee ref) (\<lambda>_.
      wp (liveLots (s_ID sb) r now) (\<lambda>ls. wp (m c ls) Q safeE) safeE) safeE) safeE) safeE) safeE s"
proof -
  have live: "wp (liveLots (s_ID sb) r now) (\<lambda>ls. wp (m c ls) Q safeE) safeE s'" if "good cf p s'" for s' c
    using m [OF that] that by (intro wp_liveLots) (auto simp: good_def linv_def lots_ok_def)
  have deb: "wp (credentialCheck sb (n c)) (\<lambda>_. wp (debit sb c fee k_fee ref) (\<lambda>_. wp (liveLots (s_ID sb) r now) (\<lambda>ls. wp (m c ls) Q safeE) safeE) safeE) safeE s'"
    if "good cf p s'" for s' c
    by (intro wp_credentialCheck wp_conseq [OF debit_good [OF that _ fee]]) (auto intro: live)
  show ?thesis
    by (rule wp_conseq [OF sweepOwn_good [OF g]], rule wp_conseq [OF claim_good]) (auto intro: deb)
qed

lemma wp_spike:
  assumes "\<And>bs n. Q () (s\<lparr>breakers := bs, breakers_seq := n\<rparr>)" shows "wp (spike p account day now) Q E s"
  using assms [where bs = "breakers s" and n = "breakers_seq s"] assms
  by (auto simp: spike_def wp_rules Let_def intro!: wp_tripBreaker)

lemma wp_pendingLimit: "Q () s \<Longrightarrow> wp (pendingLimit p account) Q safeE s"
  by (auto simp: pendingLimit_def wp_rules Let_def)

lemma good_insertTransfer:
  assumes g: "good cf p s" and new: "t_ID t \<notin> t_ID ` set (transfers s)"
    and pend: "t_State t = t_pending \<Longrightarrow> pend_ok cf (holds s) (hold_parts s) t
      \<and> (\<forall>u\<in>set (transfers s). t_State u = t_pending \<longrightarrow> t_HoldID u \<noteq> t_HoldID t)"
  shows "good cf p (s\<lparr>transfers := transfers s @ [t]\<rparr>)"
proof -
  have ok: "transfers_ok cf (holds s) (hold_parts s) (transfers s)" using g by (simp add: good_def linv_def)
  have "transfers_ok cf (holds s) (hold_parts s) (transfers s @ [t])"
    unfolding transfers_ok_def
  proof (intro conjI)
    show "distinct (map t_ID (transfers s @ [t]))" using ok new by (simp add: transfers_ok_def)
    show "\<forall>t\<in>set (transfers s @ [t]). t_State t = t_pending \<longrightarrow> pend_ok cf (holds s) (hold_parts s) t"
      using ok pend by (simp add: transfers_ok_def)
    have "t_State y \<noteq> t_pending" if "x \<in> set (transfers s @ [t])" "y \<in> set (transfers s @ [t])" "t_State x = t_pending" "y \<noteq> x" "t_HoldID y = t_HoldID x" for x y
    proof (cases "x = t \<or> y = t")
      case True
      then show ?thesis using that pend by auto
    next
      case False
      then have "x \<in> set (transfers s)" "y \<in> set (transfers s)" using that(1,2) by auto
      with ok that(3-) show ?thesis unfolding transfers_ok_def by blast
    qed
    then show "\<forall>x\<in>set (transfers s @ [t]). \<forall>u\<in>set (transfers s @ [t]). t_State x = t_pending \<longrightarrow> u \<noteq> x \<longrightarrow> t_HoldID u = t_HoldID x \<longrightarrow> t_State u \<noteq> t_pending"
      by blast
  qed
  then show ?thesis using g by (simp add: good_def linv_def op_ok_def)
qed

lemma wp_insertTransfer:
  assumes "t_ID t \<notin> t_ID ` set (transfers s) \<Longrightarrow> Q () (s\<lparr>transfers := transfers s @ [t]\<rparr>)" "E SqlUnique s"
  shows "wp (insertTransfer t) Q E s"
proof -
  have "list_ex (\<lambda>x. t_ID x = t_ID t) (transfers s) \<longleftrightarrow> t_ID t \<in> t_ID ` set (transfers s)"
    unfolding list_ex_iff image_iff by metis
  then show ?thesis using assms by (simp add: insertTransfer_def wp_rules)
qed

lemma pending_holds: "linv cf s \<Longrightarrow> t \<in> set (transfers s) \<Longrightarrow> t_State t = t_pending \<Longrightarrow> t_HoldID t \<in> h_ID ` set (holds s)"
  by (erule (2) pending_hold) (metis imageI)

lemma transfer_write_good:
  assumes g: "good cf p s" and parts: "parts_of (s_ID sb) (o_r p0) (lots s) parts" "taken parts = amount"
  shows "wp (transfer_write cf p0 sb to amount i requestKey parts pend) (\<lambda>_. good cf p) safeE s"
proof -
  let ?hold_id = "if pend then holdID cf (s_ID sb) (''transfer:'' @ requestKey) else []"
  let ?tail = "\<lambda>t tr. thenM (insertTransfer t)
     (thenM (addUsage (o_r p0) (o_day p0) (s_ID sb) 0 0 amount)
     (thenM (credentialRecord sb (rp_TransferFee (o_rp p0)) [])
     (thenM (credentialRecord sb amount ?hold_id)
     (thenM (addUsage (o_r p0) (o_day p0) to 0 amount 0) (ret tr)))))"
  have tail: "wp (?tail t tr) (\<lambda>_. good cf p) safeE s'"
    if g': "good cf p s'" and t: "t_State t = t_pending \<Longrightarrow> pend_ok cf (holds s') (hold_parts s') t
      \<and> (\<forall>u\<in>set (transfers s'). t_State u = t_pending \<longrightarrow> t_HoldID u \<noteq> t_HoldID t)" for s' t tr
    unfolding wp_thenM wp_ret
    by (auto intro!: wp_insertTransfer wp_addUsage wp_credentialRecord)
      (use good_insertTransfer [OF g' _ t] in \<open>simp_all add: good_view\<close>)
  show ?thesis
  proof (cases pend)
    case True
    let ?h = "\<lparr>h_ID = ?hold_id, h_Account = s_ID sb, h_Resource = o_r p0, h_Max = amount, h_Used = 0,
             h_State = h_held, h_RequestKey = ''transfer:'' @ requestKey, h_Service = ledgerService,
             h_Method = ''transfer'', h_CreatedAt = o_now p0, h_ExpiresAt = o_now p0 + ap_TransferDelay (o_p p0)\<rparr>"
    have ins: "wp (insertHold ?h) (\<lambda>_. wp (holdParts p0 (s_ID sb) (h_ID ?h) parts ref) (\<lambda>_. wp (?tail t tr) (\<lambda>_. good cf p) safeE) safeE) safeE s"
      if t: "t_HoldID t = ?hold_id" "t_From t = s_ID sb" "t_Resource t = o_r p0" "t_Amount t = amount" for ref t tr
    proof (rule new_hold_linv [OF good_linv [OF g]])
      fix s' assume b: "built cf s ?h s'" and f: "h_ID ?h \<notin> h_ID ` set (holds s)"
      have "pend_ok cf (holds s') (hold_parts s') t"
        unfolding pend_ok_def by (rule bexI [of _ ?h]) (use b t in \<open>simp_all add: built_def escrowMethod_def\<close>)
      moreover have "t_HoldID u \<noteq> t_HoldID t" if "u \<in> set (transfers s')" "t_State u = t_pending" for u
      proof -
        have "u \<in> set (transfers s)" using that(1) b by (simp add: built_def)
        then have "t_HoldID u \<in> h_ID ` set (holds s)" using that(2) by (rule pending_holds [OF good_linv [OF g]])
        moreover have "h_ID ?h = t_HoldID t" using t(1) by simp
        ultimately show ?thesis using f by metis
      qed
      ultimately show "wp (?tail t tr) (\<lambda>_. good cf p) safeE s'" using built_good [OF g b] by (intro tail) auto
    qed (use parts in simp_all)
    show ?thesis
      unfolding transfer_write_def Let_def wp_thenM if_P [OF True]
      by (intro wp_pendingLimit ins [unfolded wp_thenM if_P [OF True] holdRow.select_convs]) simp_all
  next
    case False
    have "wp (moveParts (o_r p0) v (s_ID sb) to i parts False opn now) (\<lambda>_. wp (?tail t tr) (\<lambda>_. good cf p) safeE) safeE s"
      if "t_State t = t_done" for v opn now t tr
    proof (rule wp_conseq [OF moveParts_free [OF good_linv [OF g] parts(1)]])
      fix s' assume "linv cf s' \<and> same_day s s' \<and> transfers s' = transfers s"
      then have "good cf p s'" using good_same_day [OF g] by simp
      then show "wp (?tail t tr) (\<lambda>_. good cf p) safeE s'" by (rule tail) (simp add: that)
    qed simp
    then show ?thesis using False by (simp add: transfer_write_def Let_def wp_thenM wp_ret)
  qed
qed

lemma op_fee: "good cf p s \<Longrightarrow> 0 \<le> rp_TransferFee (o_rp (lop s))"
  by (simp add: good_def op_ok_def Let_def rp_ok_def)

lemma good_breakers: "good cf p s \<Longrightarrow> good cf p (s\<lparr>breakers := bs, breakers_seq := n\<rparr>)"
  by (simp add: good_view)

lemma transfer_good:
  assumes g: "good cf p s" and amount: "0 \<le> amount"
  shows "wp (transfer cf sb to amount i requestKey) (\<lambda>_. good cf p) safeE s"
proof -
  have body: "wp (let ls = capOwn (o_rp (lop s)) ls0 c; (parts, got) = plan ls amount (transferable (o_p (lop s))) in
     if got < amount then
       if snd (plan ls amount (\<lambda>_. True)) \<ge> amount then throw (refuse ''not_transferable'')
       else throw (refuseDay ''quota_exhausted'' (o_now (lop s)))
     else
     bindM (loadUsage (o_r (lop s)) (o_day (lop s)) to) (\<lambda>(_, inc, _).
     if inc + amount > rp_InboundCap (o_rp (lop s)) then throw (refuseDay ''recipient_limit'' (o_now (lop s)))
     else
     thenM (spike (o_p (lop s)) (s_ID sb) (o_day (lop s)) (o_now (lop s)))
    (bindM (transferBreaker (s_ID sb) (o_now (lop s))) (transfer_write cf (lop s) sb to amount i requestKey parts))))
      (\<lambda>_. good cf p) safeE s'"
    if g': "good cf p s'" and pl: "planned (s_ID sb) (o_r (lop s)) (lots s') ls0" for c ls0 s'
  proof -
    obtain parts got where P: "plan (capOwn (o_rp (lop s)) ls0 c) amount (transferable (o_p (lop s))) = (parts, got)" by fastforce
    note S = plan_spec [OF planned_cap [OF pl] P amount]
    have "wp (transfer_write cf (lop s) sb to amount i requestKey parts pend) (\<lambda>_. good cf p) safeE (s'\<lparr>breakers := bs, breakers_seq := n\<rparr>)"
      if "\<not> got < amount" for pend bs n
      using S that by (intro transfer_write_good good_breakers g') auto
    then show ?thesis
      unfolding P Let_def case_prod_conv
      by (auto simp: wp_if wp_throw wp_bindM wp_thenM loadUsage_def wp_gets transferBreaker_def case_prod_unfold intro!: wp_spike)
  qed
  show ?thesis
    unfolding transfer_def Let_def wp_bindM wp_thenM wp_gets
    by (rule fee_prelude [OF g op_fee [OF g]]) (rule body [unfolded Let_def])
qed

lemma Transfer_linv:
  assumes i: "linv cf s" shows "wp (Transfer_units cf sb to r amount requestKey now) (\<lambda>_. linv cf) safeE s"
proof -
  have "wp (finish (transfer cf sb to amount j requestKey) liftE) (\<lambda>_. linv cf) safeE s'" if "opened cf r now s'" "0 < amount" for s' j
    by (rule wp_finish [OF transfer_good [OF opened_good]]) (use that in \<open>auto simp: wp_rules good_linv\<close>)
  then show ?thesis
    unfolding Transfer_units_def Let_def loadTransfer_def
    using i by (auto simp: wp_if wp_throw wp_bindM wp_thenM wp_gets wp_ret split: option.splits intro!: wp_conseq [OF open_op_linv [OF i]])
qed

end
