(* ===== verification/Escrow_Inv.thy ===== *)
theory Escrow_Inv
  imports Transfers_Inv
begin

text \<open>
  Escrows keep the invariant: holding, paying, releasing, and moving part of one escrow to another.
\<close>

section \<open>What opening a day leaves alone\<close>

definition same_holds :: "led \<Rightarrow> led \<Rightarrow> bool" where
  "same_holds s s' \<longleftrightarrow> holds s' = holds s \<and> hold_parts s' = hold_parts s \<and> transfers s' = transfers s \<and> lots s' = lots s"

lemma same_holds_insertPools: "wp (forM xs (\<lambda>(row, p). insertPool d row p)) (\<lambda>_. same_holds s0) (\<lambda>_. same_holds s0) s" if "same_holds s0 s"
  by (rule wp_forM [where I = "\<lambda>_. same_holds s0"]) (use that in \<open>auto simp: insertPool_def wp_rules same_holds_def\<close>)

lemma open_op_frame: "wp (open_op cf r now) (\<lambda>_. same_holds s) (\<lambda>_. same_holds s) s"
proof -
  have ins: "wp (insertDay d) (\<lambda>_. same_holds s) (\<lambda>_. same_holds s) s" for d
    unfolding insertDay_def by (auto simp: wp_rules same_holds_def intro!: wp_conseq [OF same_holds_insertPools [of s]])
  have st: "wp (start_op q) (\<lambda>_. same_holds s) (\<lambda>_. same_holds s) s'" if "same_holds s s'" for q s'
    using that by (simp add: start_op_def wp_rules modifyOp_def journal_def same_holds_def)
  have self: "same_holds s s" by (simp add: same_holds_def)
  have od: "wp (open_day r day rp lv version now) (\<lambda>_. same_holds s) (\<lambda>_. same_holds s) s" for day rp lv version
    unfolding open_day_def previousDay_def loadDay_def Let_def
    by (auto simp: wp_rules self ins split: sum.splits option.splits)
  show ?thesis
    unfolding open_op_def params_def resource_def levers_def
    by (auto simp: wp_rules self split: sum.splits option.splits prod.splits intro!: wp_conseq [OF od] st)
qed

section \<open>Making an escrow\<close>

lemma escrow_good:
  assumes g: "good cf p s" and h: "hd_Account h = s_ID sb" "0 \<le> hd_Max h"
  shows "wp (escrow cf sb h requestKey tid) (\<lambda>_. good cf p) safeE s"
proof -
  let ?tail = "thenM (credentialRecord sb (rp_TransferFee (o_rp (lop s))) []) (credentialRecord sb (hd_Max h) (hd_ID h))"
  have body: "wp (let ls = capOwn (o_rp (lop s)) ls0 c; (parts, got) = plan ls (hd_Max h) (lasting (o_p (lop s)) (hd_ExpiresAt h)) in
     if got < hd_Max h then
       if snd (plan ls (hd_Max h) (\<lambda>_. True)) \<ge> hd_Max h then throw (refuse ''not_transferable'')
       else throw (refuseDay ''quota_exhausted'' (o_now (lop s)))
     else
     thenM (insertHold (hold_row h (lop s) (''escrow:'' @ requestKey) ledgerService escrowMethod))
    (thenM (holdParts (lop s) (s_ID sb) (hd_ID h) parts (escrowRef ''work_reward'' tid)) ?tail)) (\<lambda>_. good cf p) safeE s'"
    if g': "good cf p s'" and pl: "planned (s_ID sb) (o_r (lop s)) (lots s') ls0" for c ls0 s'
  proof -
    obtain parts got where P: "plan (capOwn (o_rp (lop s)) ls0 c) (hd_Max h) (lasting (o_p (lop s)) (hd_ExpiresAt h)) = (parts, got)" by fastforce
    note S = plan_spec [OF planned_cap [OF pl] P h(2)]
    let ?h = "hold_row h (lop s) (''escrow:'' @ requestKey) ledgerService escrowMethod"
    have "wp ?tail (\<lambda>_. good cf p) safeE s2" if "built cf s' ?h s2" for s2
      using built_good [OF g' that] by (auto simp: wp_thenM good_view intro!: wp_credentialRecord)
    then have "wp (insertHold ?h) (\<lambda>_. wp (holdParts (lop s) (s_ID sb) (h_ID ?h) parts (escrowRef ''work_reward'' tid)) (\<lambda>_. wp ?tail (\<lambda>_. good cf p) safeE) safeE) safeE s'"
      if "\<not> got < hd_Max h"
      using S that h(1) by (intro new_hold_linv [OF good_linv [OF g']]) (auto simp: hold_row_def)
    then show ?thesis
      unfolding P Let_def case_prod_conv by (auto simp: wp_if wp_throw wp_thenM hold_row_def)
  qed
  show ?thesis
    unfolding escrow_def Let_def wp_bindM wp_thenM wp_gets
    by (rule fee_prelude [OF g op_fee [OF g]]) (use body in \<open>simp add: Let_def wp_thenM\<close>)
qed

lemma Escrow_linv:
  assumes i: "linv cf s" shows "wp (Escrow_units cf sb r amount requestKey until now) (\<lambda>_. linv cf) safeE s"
proof -
  have fin: "wp (finish (escrow cf sb h requestKey tid) (\<lambda>res. case res of Inl e \<Rightarrow> throw e | Inr _ \<Rightarrow> ret (h, fee))) (\<lambda>_. linv cf) safeE s'"
    if "opened cf r now s'" "hd_Account h = s_ID sb" "0 < hd_Max h" for s' h tid fee
    by (rule wp_finish [OF escrow_good [OF opened_good]]) (use that in \<open>auto simp: wp_rules good_linv\<close>)
  show ?thesis
    unfolding Escrow_units_def Let_def loadHold_def loadHoldRow_def
    using i by (auto simp: wp_if wp_throw wp_bindM wp_thenM wp_gets wp_ret case_prod_unfold split: option.splits
        intro!: wp_conseq [OF open_op_linv [OF i]] fin)
qed

section \<open>Releasing and paying\<close>

lemma loadEscrow_row:
  assumes "\<And>h. h \<in> set (holds s) \<Longrightarrow> h_ID h = j \<Longrightarrow> h_Service h = ledgerService \<Longrightarrow> h_Method h = escrowMethod
      \<Longrightarrow> hold_at s j = Some h \<Longrightarrow> Q (h, transferID cf (h_Account h) (h_RequestKey h)) s" "E (NotFound j) s"
  shows "wp (loadEscrow cf j) Q E s"
  using assms by (auto simp: loadEscrow_def loadHoldRow_def wp_rules hold_at_def split: option.splits dest: find_SomeD)

lemma no_transfer: "map_option (transfer_of_row s) (transfer_at s i) = None \<Longrightarrow> i \<notin> t_ID ` set (transfers s)"
  by (auto simp: transfer_at_def find_None_iff)

lemma EscrowRelease_linv:
  assumes i: "linv cf s" shows "wp (EscrowRelease cf j reason now) (\<lambda>_. linv cf) safeE s"
proof -
  let ?f = "\<lambda>x. x\<lparr>h_State := h_refunded\<rparr>"
  have K: "core cf (lots s1) (lots_seq s1) (entries s1) (upd (\<lambda>h. h_ID h = j) ?f (holds s)) (hold_parts s) (transfers s)"
    if c: "closing cf s j [] s1" and h: "h \<in> set (holds s)" "h_ID h = j" "h_Method h = escrowMethod"
      and n: "transferID cf (h_Account h) (h_RequestKey h) \<notin> t_ID ` set (transfers s)" for s1 h
    by (rule close_core [OF c])
      (use used_bounds [OF i] settled_escrow [OF i h(1,3) n] h(2) in \<open>auto simp: closes_def\<close>)
  have loop: "wp (forM parts (unhold_part line)) (\<lambda>_. wp (thenM (updateHold j ?f) (credentialRelease j m)) (\<lambda>_. linv cf) safeE) safeE s"
    if h: "h \<in> set (holds s)" "h_ID h = j" "h_Method h = escrowMethod" "h_State h = h_held"
      and n: "transferID cf (h_Account h) (h_RequestKey h) \<notin> t_ID ` set (transfers s)" and p: "parts_read s j parts"
      and l: "\<And>p. je_LotID (line p) = q_LotID p" "\<And>p. je_Kind (line p) = k_refund" for h parts line m
  proof (rule unhold_loop [OF closing_start [OF i _ p] l])
    show "open_hold (holds s) j \<or> (\<forall>p\<in>set (hold_parts s). hp_Hold p \<noteq> j)" using h by (auto simp: open_hold_def)
    fix s1 assume c: "closing cf s j [] s1"
    show "wp (thenM (updateHold j ?f) (credentialRelease j m)) (\<lambda>_. linv cf) safeE s1"
      using K [OF c h(1-3) n] closing_days [OF c] closing_tables [OF c]
      by (simp add: wp_thenM updateHold_def wp_modifyM) (rule wp_credentialRelease, simp add: linv_core)
  qed
  show ?thesis
    unfolding EscrowRelease_def wp_bindM
  proof (rule loadEscrow_row, goal_cases)
    case (1 h)
    show ?case
      by (auto simp: wp_if wp_throw wp_bindM wp_thenM [of "forM _ _"] loadTransfer_def wp_gets entry0_def split: option.splits
        intro!: wp_params wp_loadHoldParts [OF i] loop [OF 1(1,2,4)] no_transfer)
  qed simp
qed

text \<open>Rows of holds changed in place: the columns the invariant reads stay, or the hold has no parts.\<close>

definition same_row :: "partRow list \<Rightarrow> holdRow \<Rightarrow> holdRow \<Rightarrow> bool" where
  "same_row ps h h' \<longleftrightarrow> h_ID h' = h_ID h \<and> h_Account h' = h_Account h \<and> h_Resource h' = h_Resource h \<and> h_Service h' = h_Service h
     \<and> h_Method h' = h_Method h \<and> h_RequestKey h' = h_RequestKey h
     \<and> (h_State h' = h_State h \<or> (\<forall>p\<in>set ps. hp_Hold p \<noteq> h_ID h))
     \<and> (h_Method h \<noteq> escrowMethod \<longrightarrow> h_State h' = h_State h \<and> h_Max h' = h_Max h)"

lemma linv_rows:
  assumes i: "linvx cf ex s" and f: "\<And>h. h \<in> set (holds s) \<Longrightarrow> same_row (hold_parts s) h (f h) \<and> hold_ok {} (hold_parts s) (f h)"
  shows "linv cf (s\<lparr>holds := map f (holds s)\<rparr>)"
proof -
  let ?hs = "map f (holds s)"
  have h: "holds_ok ex (lots s) (holds s) (hold_parts s)" and t: "transfers_ok cf (holds s) (hold_parts s) (transfers s)"
    using i by (auto simp: linvx_def)
  have op: "open_hold ?hs (hp_Hold p) = open_hold (holds s) (hp_Hold p)" if p: "p \<in> set (hold_parts s)" for p
  proof -
    have "h_ID (f x) = hp_Hold p \<and> h_State (f x) = h_held \<longleftrightarrow> h_ID x = hp_Hold p \<and> h_State x = h_held" if "x \<in> set (holds s)" for x
      using f [OF that] p unfolding same_row_def by metis
    then show ?thesis unfolding open_hold_def by auto
  qed
  have H: "heldsum ?hs (hold_parts s) = heldsum (holds s) (hold_parts s)"
    unfolding heldsum_def using op by (auto intro!: ext arg_cong [where f = sum_list] map_cong)
  have "part_ok (lots s) ?hs p" if p: "part_ok (lots s) (holds s) p" for p
  proof -
    obtain x where x: "0 < hp_Units p" "x \<in> set (holds s)" "h_ID x = hp_Hold p"
      "\<exists>y\<in>set (lots s). l_ID y = hp_Lot p \<and> l_Account y = h_Account x \<and> l_Resource y = h_Resource x"
      using p by (auto simp: part_ok_def)
    have "f x \<in> set ?hs" using x by simp
    with x f [OF x(2)] show ?thesis unfolding part_ok_def same_row_def by metis
  qed
  moreover have ids: "map h_ID ?hs = map h_ID (holds s)" using f by (simp add: same_row_def)
  ultimately have "holds_ok {} (lots s) ?hs (hold_parts s)" using h f unfolding holds_ok_def ids by auto
  moreover have "transfers_ok cf ?hs (hold_parts s) (transfers s)"
  proof (rule transfers_ok_mono [OF t])
    fix t assume "pend_ok cf (holds s) (hold_parts s) t"
    then obtain x where x: "x \<in> set (holds s)" "h_ID x = t_HoldID t" "h_Service x = ledgerService" "h_Account x = t_From t" "h_Resource x = t_Resource t"
      "h_State x = h_held \<or> (\<forall>p\<in>set (hold_parts s). hp_Hold p \<noteq> h_ID x)"
      "h_Method x = escrowMethod \<longrightarrow> t_ID t = transferID cf (h_Account x) (h_RequestKey x)"
      "h_Method x \<noteq> escrowMethod \<longrightarrow> h_State x = h_held \<and> h_Max x = t_Amount t" unfolding pend_ok_def by blast
    have "f x \<in> set ?hs" using x by simp
    with x f [OF x(1)] show "pend_ok cf ?hs (hold_parts s) t"
      unfolding pend_ok_def same_row_def by (intro bexI [of _ "f x"]) auto
  qed
  ultimately show ?thesis using i by (simp add: linv_def linvx_def H)
qed

lemma expires_linv:
  assumes i: "linv cf s" shows "linv cf (s\<lparr>holds := upd (\<lambda>h. h_ID h = j) (\<lambda>x. x\<lparr>h_ExpiresAt := e\<rparr>) (holds s)\<rparr>)"
  unfolding upd_def
  by (rule linv_rows [where ex = "{}"]) (use i in \<open>auto simp: linv_linvx [symmetric] same_row_def linv_def holds_ok_def hold_ok_def\<close>)

lemma escrow_unpaid:
  assumes i: "linv cf s" and h: "h \<in> set (holds s)" "h_Method h = escrowMethod"
    and n: "transferID cf (h_Account h) (h_RequestKey h) \<notin> t_ID ` set (transfers s)"
    and u: "u \<in> set (transfers s)" "t_State u = t_pending"
  shows "t_HoldID u \<noteq> h_ID h"
  using settled_escrow [OF i h n] u by (simp add: settled_transfers_def)

lemma escrow_paid_good:
  assumes g: "good cf p s" and h: "h \<in> set (holds s)" "h_State h = h_held" "h_Method h = escrowMethod"
    and n: "transferID cf (h_Account h) (h_RequestKey h) \<notin> t_ID ` set (transfers s)" and hp: "parts_read s (h_ID h) hp"
  shows "wp (bindM (heldParts hp) (\<lambda>parts. bindM (moveParts r version from to tid parts True opn now) (\<lambda>(moved, _).
         updateHold (h_ID h) (\<lambda>x. x\<lparr>h_State := h_committed, h_Used := moved\<rparr>)))) (\<lambda>_ s'. good cf p s' \<and> transfers s' = transfers s) safeE s"
proof -
  have i: "linv cf s" using g by (rule good_linv)
  let ?f = "\<lambda>m x. x\<lparr>h_State := h_committed, h_Used := m\<rparr>"
  have mx: "\<forall>x\<in>set (holds s). h_ID x = h_ID h \<longrightarrow> partsum (hold_parts s) (h_ID h) = h_Max x" using used_bounds [OF i] by metis
  have K: "core cf (lots s1) (lots_seq s1) (entries s1) (upd (\<lambda>x. h_ID x = h_ID h) (?f m) (holds s)) (hold_parts s) (transfers s)"
    if c: "closing cf s (h_ID h) [] s1" and m: "0 \<le> m" "m \<le> partsum (hold_parts s) (h_ID h)" for s1 m
    by (rule close_core [OF c]) (use mx settled_escrow [OF i h(1,3) n] m in \<open>auto simp: closes_def\<close>)
  have mv: "wp (moveParts r version from to tid parts True opn now) (\<lambda>mb s1. case mb of (m, _) \<Rightarrow>
      wp (updateHold (h_ID h) (?f m)) (\<lambda>_ s'. good cf p s' \<and> transfers s' = transfers s) safeE s1) safeE s"
    if q: "rem_parts parts = rem_of hp" "\<forall>p\<in>set parts. p_Lot p \<in> set (lots s)" "taken parts = all_units hp" for parts
  proof (rule moveParts_held [of cf s "h_ID h"])
    show "closing cf s (h_ID h) (rem_parts parts) s"
      using closing_start [OF i _ hp] h q(1) by (auto simp: open_hold_def)
    show "\<forall>p\<in>set parts. \<exists>x\<in>set (lots s). same_lot x (p_Lot p)" using q(2) same_lot_refl by blast
    fix m b s1 assume c: "closing cf s (h_ID h) [] s1" and m: "0 \<le> m" "m \<le> taken parts"
    let ?s = "s1\<lparr>holds := upd (\<lambda>x. h_ID x = h_ID h) (?f m) (holds s)\<rparr>"
    have "m \<le> partsum (hold_parts s) (h_ID h)" using m(2) q(3) hp by (simp add: parts_read_def)
    with K [OF c m(1)] closing_days [OF c] closing_tables [OF c] have "linv cf ?s" by (simp add: linv_core)
    moreover have "same_day s ?s" using c by (simp add: closing_def same_day_def)
    ultimately have "good cf p ?s" using good_same_day [OF g] by simp
    then show "case (m, b) of (m, _) \<Rightarrow> wp (updateHold (h_ID h) (?f m)) (\<lambda>_ s'. good cf p s' \<and> transfers s' = transfers s) safeE s1"
      using closing_tables [OF c] by (simp add: updateHold_def wp_rules)
  qed
  show ?thesis
    unfolding wp_bindM by (rule wp_heldParts [OF i hp]) (use mv in \<open>simp add: wp_bindM case_prod_unfold\<close>)
qed

lemma escrow_pending_good:
  fixes e :: int
  assumes g: "good cf p s" and h: "h \<in> set (holds s)" "h_State h = h_held" "h_Method h = escrowMethod" "h_Service h = ledgerService"
    and n: "transferID cf (h_Account h) (h_RequestKey h) \<notin> t_ID ` set (transfers s)"
    and t: "t_ID t = transferID cf (h_Account h) (h_RequestKey h)" "t_HoldID t = h_ID h" "t_From t = h_Account h" "t_Resource t = h_Resource h"
  defines "s' \<equiv> s\<lparr>holds := upd (\<lambda>x. h_ID x = h_ID h) (\<lambda>x. x\<lparr>h_ExpiresAt := e\<rparr>) (holds s)\<rparr>"
  shows "good cf p s' \<and> pend_ok cf (holds s') (hold_parts s') t
    \<and> (\<forall>u\<in>set (transfers s'). t_State u = t_pending \<longrightarrow> t_HoldID u \<noteq> t_HoldID t)"
proof -
  have i: "linv cf s" using g by (rule good_linv)
  have "good cf p s'" by (rule good_same_day [OF g]) (use expires_linv [OF i] in \<open>simp_all add: s'_def same_day_def\<close>)
  moreover have "h\<lparr>h_ExpiresAt := e\<rparr> \<in> set (holds s')" unfolding s'_def using h(1) by (auto simp: in_upd)
  then have "pend_ok cf (holds s') (hold_parts s') t"
    unfolding pend_ok_def by (rule bexI [rotated]) (use h t in auto)
  moreover have "t_HoldID u \<noteq> t_HoldID t" if "u \<in> set (transfers s')" "t_State u = t_pending" for u
    using escrow_unpaid [OF i h(1,3) n] that t(2) by (simp add: s'_def)
  ultimately show ?thesis by blast
qed

lemma escrowPay_good:
  assumes g: "good cf p s" and h: "h \<in> set (holds s)" "h_State h = h_held" "h_Method h = escrowMethod" "h_Service h = ledgerService"
    and n: "transferID cf (h_Account h) (h_RequestKey h) \<notin> t_ID ` set (transfers s)" and r: "o_r (lop s) = h_Resource h"
  shows "wp (escrowPay (hold_of_row h) to (transferID cf (h_Account h) (h_RequestKey h))) (\<lambda>_. good cf p) safeE s"
proof -
  let ?i = "transferID cf (h_Account h) (h_RequestKey h)"
  let ?tail = "\<lambda>t tr a1 d1 a2. thenM (insertTransfer t) (thenM (addUsage (o_r (lop s)) d1 a1 0 0 (h_Max h)) (thenM (addUsage (o_r (lop s)) d1 a2 0 (h_Max h) 0) (ret tr)))"
  have tail: "wp (?tail t tr a1 d1 a2) (\<lambda>_. good cf p) safeE s'"
    if g': "good cf p s'" and t: "t_State t = t_pending \<Longrightarrow> pend_ok cf (holds s') (hold_parts s') t
      \<and> (\<forall>u\<in>set (transfers s'). t_State u = t_pending \<longrightarrow> t_HoldID u \<noteq> t_HoldID t)" for s' t tr a1 d1 a2
    unfolding wp_thenM wp_ret
    by (auto intro!: wp_insertTransfer wp_addUsage) (use good_insertTransfer [OF g' _ t] in \<open>simp_all add: good_view\<close>)
  have pend: "wp (updateHold (h_ID h) (\<lambda>x. x\<lparr>h_ExpiresAt := e\<rparr>)) (\<lambda>_. wp (?tail t tr a1 d1 a2) (\<lambda>_. good cf p) safeE) safeE s"
    if "t_ID t = ?i" "t_HoldID t = h_ID h" "t_From t = h_Account h" "t_Resource t = o_r (lop s)" for e t tr a1 d1 a2
    using escrow_pending_good [OF g h n, of t e] that r unfolding updateHold_def wp_modifyM by (intro tail) simp_all
  have paid: "wp (bindM (heldParts hp) (\<lambda>parts. bindM (moveParts rr version (h_Account h) to tid parts True opn now) (\<lambda>(moved, _).
         updateHold (h_ID h) (\<lambda>x. x\<lparr>h_State := h_committed, h_Used := moved\<rparr>)))) (\<lambda>_. wp (?tail t tr a1 d1 a2) (\<lambda>_. good cf p) safeE) safeE s"
    if "parts_read s (h_ID h) hp" "t_State t = t_done" for rr version tid opn now hp t tr a1 d1 a2
    by (rule wp_conseq [OF escrow_paid_good [OF g h(1-3) n that(1)]]) (auto intro!: tail simp: that(2))
  show ?thesis
    unfolding escrowPay_def loadUsage_def transferBreaker_def hold_of_row_def Hold.select_convs
    by (auto simp: wp_bindM wp_gets wp_if wp_throw Let_def wp_thenM [of "if _ then _ else _"] wp_thenM [of "updateHold _ _"] wp_thenM [of "bindM _ _"]
        split: prod.splits intro!: wp_loadHoldParts [OF good_linv [OF g]] pend paid [unfolded wp_bindM])
qed

lemma EscrowPay_linv:
  assumes i: "linv cf s" shows "wp (EscrowPay cf j to now) (\<lambda>_. linv cf) safeE s"
proof -
  have fin: "wp (thenM (open_op cf (h_Resource h) now) (finish (escrowPay (hold_of_row h) to (transferID cf (h_Account h) (h_RequestKey h))) liftE)) (\<lambda>_. linv cf) safeE s"
    if h: "h \<in> set (holds s)" "h_Service h = ledgerService" "h_Method h = escrowMethod" "h_State h = h_held"
      and n: "transferID cf (h_Account h) (h_RequestKey h) \<notin> t_ID ` set (transfers s)" for h
    unfolding wp_thenM
  proof (rule wp_conseq [OF wp_conj [OF open_op_linv [OF i] open_op_frame]])
    fix s' assume a: "opened cf (h_Resource h) now s' \<and> same_holds s s'"
    then have "wp (escrowPay (hold_of_row h) to (transferID cf (h_Account h) (h_RequestKey h))) (\<lambda>_. good cf (lop s')) safeE s'"
      using h n by (intro escrowPay_good opened_good) (auto simp: same_holds_def opened_def)
    then show "wp (finish (escrowPay (hold_of_row h) to (transferID cf (h_Account h) (h_RequestKey h))) liftE) (\<lambda>_. linv cf) safeE s'"
      by (rule wp_finish) (auto simp: wp_rules good_linv)
  qed simp
  show ?thesis
    unfolding EscrowPay_def wp_bindM
  proof (rule loadEscrow_row, goal_cases)
    case (1 h)
    show ?case
      by (auto simp: wp_if wp_throw wp_bindM wp_ret loadTransfer_def wp_gets i split: option.splits
        intro!: fin [OF 1(1,3,4)] no_transfer)
  qed simp
qed

section \<open>Moving parts between two open holds\<close>

definition psum :: "(string \<Rightarrow> int \<Rightarrow> bool) \<Rightarrow> partRow list \<Rightarrow> int" where
  "psum P ps = (\<Sum>p\<leftarrow>ps. if P (hp_Hold p) (hp_Lot p) then hp_Units p else 0)"

lemma heldsum_psum: "heldsum hs ps j = psum (\<lambda>i l. l = j \<and> open_hold hs i) ps"
  by (simp add: heldsum_def psum_def)

lemma partsum_psum: "partsum ps h = psum (\<lambda>i l. i = h) ps"
  by (simp add: partsum_def psum_def)

definition take_part :: "string \<Rightarrow> int \<Rightarrow> int \<Rightarrow> int \<Rightarrow> partRow list \<Rightarrow> partRow list" where
  "take_part i l tk u ps = (if tk = u then filter (\<lambda>p. \<not> (hp_Hold p = i \<and> hp_Lot p = l)) ps
     else upd (\<lambda>p. hp_Hold p = i \<and> hp_Lot p = l) (\<lambda>p. p\<lparr>hp_Units := hp_Units p - tk\<rparr>) ps)"

definition put_part :: "string \<Rightarrow> int \<Rightarrow> int \<Rightarrow> partRow list \<Rightarrow> partRow list" where
  "put_part i l n ps = upsert (\<lambda>p. hp_Hold p = i \<and> hp_Lot p = l) (\<lambda>p. p\<lparr>hp_Units := hp_Units p + n\<rparr>)
     \<lparr>hp_Hold = i, hp_Lot = l, hp_Units = n\<rparr> ps"

lemma psum_take:
  assumes d: "distinct (map part_key ps)" and x: "\<lparr>hp_Hold = i, hp_Lot = l, hp_Units = u\<rparr> \<in> set ps"
  shows "psum P (take_part i l tk u ps) = psum P ps - (if P i l then tk else 0)"
proof -
  let ?x = "\<lparr>hp_Hold = i, hp_Lot = l, hp_Units = u\<rparr>" and ?g = "\<lambda>p. if P (hp_Hold p) (hp_Lot p) then hp_Units p else 0"
  have k: "(\<lambda>p. part_key p = part_key ?x) = (\<lambda>p. hp_Hold p = i \<and> hp_Lot p = l)"
    "(\<lambda>p. part_key p \<noteq> part_key ?x) = (\<lambda>p. \<not> (hp_Hold p = i \<and> hp_Lot p = l))" by (auto simp: part_key_def fun_eq_iff)
  show ?thesis
    using part_table.sum_delete_row [OF d x, of ?g] part_table.sum_upd_row [OF d x, of ?g "\<lambda>p. p\<lparr>hp_Units := hp_Units p - tk\<rparr>"]
    unfolding k by (simp add: take_part_def psum_def)
qed

lemma psum_put:
  assumes d: "distinct (map part_key ps)"
  shows "psum P (put_part i l n ps) = psum P ps + (if P i l then n else 0)"
proof (cases "list_ex (\<lambda>p. hp_Hold p = i \<and> hp_Lot p = l) ps")
  case True
  then obtain x where x: "x \<in> set ps" "hp_Hold x = i" "hp_Lot x = l" by (auto simp: list_ex_iff)
  have k: "(\<lambda>p. part_key p = part_key x) = (\<lambda>p. hp_Hold p = i \<and> hp_Lot p = l)" using x by (auto simp: part_key_def fun_eq_iff)
  show ?thesis
    using part_table.sum_upd_row [OF d x(1), of "\<lambda>p. if P (hp_Hold p) (hp_Lot p) then hp_Units p else 0" "\<lambda>p. p\<lparr>hp_Units := hp_Units p + n\<rparr>"]
    unfolding k using True x by (simp add: put_part_def upsert_def psum_def)
qed (simp add: put_part_def upsert_def psum_def)

lemma take_part_keys: "distinct (map part_key ps) \<Longrightarrow> distinct (map part_key (take_part i l tk u ps))"
  by (simp add: take_part_def distinct_map_filter map_upd part_key_def)

lemma put_part_keys: "distinct (map part_key ps) \<Longrightarrow> distinct (map part_key (put_part i l n ps))"
  by (auto simp: put_part_def upsert_def map_upd part_key_def list_ex_iff)

lemma take_part_other: "p \<in> set ps \<Longrightarrow> (hp_Hold p, hp_Lot p) \<noteq> (i, l) \<Longrightarrow> p \<in> set (take_part i l tk u ps)"
  by (auto simp: take_part_def intro: in_upd_other)

lemma put_part_other: "p \<in> set ps \<Longrightarrow> (hp_Hold p, hp_Lot p) \<noteq> (i, l) \<Longrightarrow> p \<in> set (put_part i l n ps)"
  by (auto simp: put_part_def upsert_def intro: in_upd_other)

lemma part_ok_units: "part_ok ls hs p \<Longrightarrow> 0 < n \<Longrightarrow> part_ok ls hs (p\<lparr>hp_Units := n\<rparr>)"
  by (auto simp: part_ok_def)

lemma take_part_ok:
  assumes d: "distinct (map part_key ps)" and x: "\<lparr>hp_Hold = i, hp_Lot = l, hp_Units = u\<rparr> \<in> set ps" and tk: "tk \<le> u"
    and ok: "\<forall>p\<in>set ps. part_ok ls hs p" and y: "y \<in> set (take_part i l tk u ps)"
  shows "part_ok ls hs y \<and> (\<exists>p\<in>set ps. hp_Hold p = hp_Hold y)"
proof (cases "tk = u")
  case True
  then show ?thesis using y ok by (auto simp: take_part_def)
next
  case False
  then have "y \<in> set (upd (\<lambda>p. hp_Hold p = i \<and> hp_Lot p = l) (\<lambda>p. p\<lparr>hp_Units := hp_Units p - tk\<rparr>) ps)" using y by (simp add: take_part_def)
  then show ?thesis
  proof (rule in_updE)
    fix p assume p: "p \<in> set ps" "hp_Hold p = i \<and> hp_Lot p = l" "y = p\<lparr>hp_Units := hp_Units p - tk\<rparr>"
    then have "p = \<lparr>hp_Hold = i, hp_Lot = l, hp_Units = u\<rparr>" using part_table.row_eq [OF d p(1) x] by (simp add: part_key_def)
    then show ?thesis using p ok False tk part_ok_units [of ls hs p "u - tk"] by (intro conjI bexI [OF _ p(1)]) auto
  qed (use ok in auto)
qed

lemma put_part_ok:
  assumes ok: "\<forall>p\<in>set ps. part_ok ls hs p" and n: "0 < n" and new: "part_ok ls hs \<lparr>hp_Hold = i, hp_Lot = l, hp_Units = n\<rparr>"
    and y: "y \<in> set (put_part i l n ps)"
  shows "part_ok ls hs y \<and> (hp_Hold y = i \<or> (\<exists>p\<in>set ps. hp_Hold p = hp_Hold y))"
proof (cases "list_ex (\<lambda>p. hp_Hold p = i \<and> hp_Lot p = l) ps")
  case True
  then have "y \<in> set (upd (\<lambda>p. hp_Hold p = i \<and> hp_Lot p = l) (\<lambda>p. p\<lparr>hp_Units := hp_Units p + n\<rparr>) ps)" using y by (simp add: put_part_def upsert_def)
  then show ?thesis
  proof (rule in_updE)
    fix p assume p: "p \<in> set ps" "hp_Hold p = i \<and> hp_Lot p = l" "y = p\<lparr>hp_Units := hp_Units p + n\<rparr>"
    then have "part_ok ls hs p" using ok by simp
    then show ?thesis using p n part_ok_units [of ls hs p "hp_Units p + n"] by (auto simp: part_ok_def)
  qed (use ok in auto)
next
  case False
  then show ?thesis using y ok new by (auto simp: put_part_def upsert_def)
qed

lemma transfers_ok_parts:
  assumes t: "transfers_ok cf hs ps ts" and d: "distinct (map h_ID hs)"
    and p: "\<And>y. y \<in> set ps' \<Longrightarrow> open_hold hs (hp_Hold y) \<or> (\<exists>p\<in>set ps. hp_Hold p = hp_Hold y)"
  shows "transfers_ok cf hs ps' ts"
proof (rule transfers_ok_mono [OF t])
  fix x assume "pend_ok cf hs ps x"
  then obtain h where h: "h \<in> set hs" "h_ID h = t_HoldID x" "h_Service h = ledgerService" "h_Account h = t_From x"
    "h_Resource h = t_Resource x" "h_State h = h_held \<or> (\<forall>p\<in>set ps. hp_Hold p \<noteq> h_ID h)"
    "h_Method h = escrowMethod \<longrightarrow> t_ID x = transferID cf (h_Account h) (h_RequestKey h)"
    "h_Method h \<noteq> escrowMethod \<longrightarrow> h_State h = h_held \<and> h_Max h = t_Amount x" unfolding pend_ok_def by blast
  have "h_State h = h_held" if "open_hold hs (h_ID h)" using that h(1) hold_table.row_eq [OF d] unfolding open_hold_def by metis
  then have "h_State h = h_held \<or> (\<forall>y\<in>set ps'. hp_Hold y \<noteq> h_ID h)" using h(6) p by metis
  then show "pend_ok cf hs ps' x" using h unfolding pend_ok_def by blast
qed

text \<open>The loop of \<open>moveEscrow\<close>: \<open>left\<close> units still to move from \<open>src\<close> to \<open>dst\<close>.\<close>

definition swapping :: "Config \<Rightarrow> led \<Rightarrow> holdRow \<Rightarrow> holdRow \<Rightarrow> int \<Rightarrow> int \<Rightarrow> holdPart list \<Rightarrow> led \<Rightarrow> bool" where
  "swapping cf s0 src dst amount left qs s \<longleftrightarrow> linvx cf {h_ID src, h_ID dst} s \<and> holds s = holds s0 \<and> transfers s = transfers s0
     \<and> distinct (map q_LotID qs) \<and> (\<forall>q\<in>set qs. 0 < q_Units q \<and> \<lparr>hp_Hold = h_ID src, hp_Lot = q_LotID q, hp_Units = q_Units q\<rparr> \<in> set (hold_parts s))
     \<and> 0 \<le> left \<and> partsum (hold_parts s) (h_ID src) = h_Max src - (amount - left)
     \<and> partsum (hold_parts s) (h_ID dst) = h_Max dst + (amount - left)"

definition two_escrows :: "led \<Rightarrow> holdRow \<Rightarrow> holdRow \<Rightarrow> bool" where
  "two_escrows s src dst \<longleftrightarrow> src \<in> set (holds s) \<and> dst \<in> set (holds s) \<and> h_State src = h_held \<and> h_State dst = h_held
     \<and> h_Account src = h_Account dst \<and> h_Resource src = h_Resource dst \<and> h_ID src \<noteq> h_ID dst
     \<and> h_Method src = escrowMethod \<and> h_Method dst = escrowMethod"

lemma swap_parts_ok:
  fixes tk :: int
  assumes b: "swapping cf s0 src dst amount left (q # qs) s" and e: "two_escrows s0 src dst" and tk: "0 < tk" "tk \<le> q_Units q"
  defines "ps \<equiv> put_part (h_ID dst) (q_LotID q) tk (take_part (h_ID src) (q_LotID q) tk (q_Units q) (hold_parts s))"
  shows "heldsum (holds s) ps = heldsum (holds s) (hold_parts s)" "holds_ok {h_ID src, h_ID dst} (lots s) (holds s) ps"
    "transfers_ok cf (holds s) ps (transfers s)"
    "partsum ps (h_ID src) = partsum (hold_parts s) (h_ID src) - tk" "partsum ps (h_ID dst) = partsum (hold_parts s) (h_ID dst) + tk"
    "\<forall>w\<in>set qs. \<lparr>hp_Hold = h_ID src, hp_Lot = q_LotID w, hp_Units = q_Units w\<rparr> \<in> set ps"
proof -
  let ?x = "\<lparr>hp_Hold = h_ID src, hp_Lot = q_LotID q, hp_Units = q_Units q\<rparr>"
  have v: "holds_ok {h_ID src, h_ID dst} (lots s) (holds s) (hold_parts s)" "transfers_ok cf (holds s) (hold_parts s) (transfers s)"
    and x: "?x \<in> set (hold_parts s)" and hs: "src \<in> set (holds s)" "dst \<in> set (holds s)"
    using b e by (auto simp: swapping_def linvx_def two_escrows_def)
  have d: "distinct (map part_key (hold_parts s))" and pk: "\<forall>p\<in>set (hold_parts s). part_ok (lots s) (holds s) p"
    and dh: "distinct (map h_ID (holds s))" and hk: "\<forall>h\<in>set (holds s). hold_ok {h_ID src, h_ID dst} (hold_parts s) h"
    using v(1) by (auto simp: holds_ok_def)
  have op: "open_hold (holds s) (h_ID src)" "open_hold (holds s) (h_ID dst)" using e hs by (auto simp: open_hold_def two_escrows_def)
  have ne: "h_ID src \<noteq> h_ID dst" using e by (simp add: two_escrows_def)
  have S: "psum P ps = psum P (hold_parts s) - (if P (h_ID src) (q_LotID q) then tk else 0) + (if P (h_ID dst) (q_LotID q) then tk else 0)" for P
    unfolding ps_def by (simp add: psum_put [OF take_part_keys [OF d]] psum_take [OF d x])
  show "heldsum (holds s) ps = heldsum (holds s) (hold_parts s)" using op by (simp add: fun_eq_iff heldsum_psum S)
  show "partsum ps (h_ID src) = partsum (hold_parts s) (h_ID src) - tk" "partsum ps (h_ID dst) = partsum (hold_parts s) (h_ID dst) + tk"
    using ne by (simp_all add: partsum_psum S)
  have other: "partsum ps j = partsum (hold_parts s) j" if "j \<noteq> h_ID src" "j \<noteq> h_ID dst" for j using that by (auto simp: partsum_psum S)
  have T: "\<forall>y\<in>set (take_part (h_ID src) (q_LotID q) tk (q_Units q) (hold_parts s)). part_ok (lots s) (holds s) y \<and> (\<exists>p\<in>set (hold_parts s). hp_Hold p = hp_Hold y)"
    using take_part_ok [OF d x tk(2) pk] by blast
  obtain h z where z: "h \<in> set (holds s)" "h_ID h = h_ID src" "z \<in> set (lots s)" "l_ID z = q_LotID q" "l_Account z = h_Account h" "l_Resource z = h_Resource h"
    using pk x by (force simp: part_ok_def)
  have "h = src" using hold_table.row_eq [OF dh z(1) hs(1) z(2)] .
  then have new: "part_ok (lots s) (holds s) \<lparr>hp_Hold = h_ID dst, hp_Lot = q_LotID q, hp_Units = tk\<rparr>"
    unfolding part_ok_def using z e hs(2) tk(1) by (auto simp: two_escrows_def)
  have U: "part_ok (lots s) (holds s) y \<and> (open_hold (holds s) (hp_Hold y) \<or> (\<exists>p\<in>set (hold_parts s). hp_Hold p = hp_Hold y))" if y: "y \<in> set ps" for y
    using put_part_ok [OF _ tk(1) new y [unfolded ps_def]] T op(2) by metis
  show "transfers_ok cf (holds s) ps (transfers s)" by (rule transfers_ok_parts [OF v(2) dh]) (use U in blast)
  have "hold_ok {h_ID src, h_ID dst} ps h" if "h \<in> set (holds s)" for h
    using hk that other [of "h_ID h"] by (auto simp: hold_ok_def)
  then show "holds_ok {h_ID src, h_ID dst} (lots s) (holds s) ps"
    using U dh put_part_keys [OF take_part_keys [OF d]] by (auto simp: holds_ok_def ps_def)
  show "\<forall>w\<in>set qs. \<lparr>hp_Hold = h_ID src, hp_Lot = q_LotID w, hp_Units = q_Units w\<rparr> \<in> set ps"
    using b ne unfolding ps_def by (auto simp: swapping_def image_iff intro!: put_part_other take_part_other)
qed

lemma move_escrow_step:
  assumes b: "swapping cf s0 src dst amount left (q # qs) s" and e: "two_escrows s0 src dst"
    and S: "hd_ID S = h_ID src" and D: "hd_ID D = h_ID dst"
  shows "wp (move_escrow_part S D version now left q) (\<lambda>left'. swapping cf s0 src dst amount left' qs) safeE s"
proof (cases "left = 0")
  case True
  then show ?thesis using b by (simp add: move_escrow_part_def wp_rules swapping_def)
next
  case False
  define tk where "tk = min (q_Units q) left"
  have tk: "0 < tk" "tk \<le> q_Units q" "tk \<le> left" using b False by (auto simp: swapping_def tk_def)
  let ?ps = "put_part (h_ID dst) (q_LotID q) tk (take_part (h_ID src) (q_LotID q) tk (q_Units q) (hold_parts s))"
  note P = swap_parts_ok [OF b e tk(1,2)]
  have v: "linvx cf {h_ID src, h_ID dst} s" using b by (simp add: swapping_def)
  have n: "q_LotID q \<le> lots_seq s"
  proof -
    have "\<lparr>hp_Hold = h_ID src, hp_Lot = q_LotID q, hp_Units = q_Units q\<rparr> \<in> set (hold_parts s)" using b by (simp add: swapping_def)
    then obtain x where "x \<in> set (lots s)" "l_ID x = q_LotID q" using v by (force simp: linvx_def holds_ok_def part_ok_def)
    then show ?thesis using v lots_okD unfolding linvx_def by metis
  qed
  have F: "swapping cf s0 src dst amount (left - tk) qs (s\<lparr>hold_parts := ?ps, entries := entries s @ [e1, e2], entries_seq := k\<rparr>)"
    if "je_LotID e1 = q_LotID q" "je_Kind e1 = k_refund" "je_LotID e2 = q_LotID q" "je_Kind e2 = k_reserve" for e1 e2 k
  proof -
    have "lots_ok (heldsum (holds s) ?ps) (lots s) (lots_seq s) (entries s @ [e1, e2])"
      unfolding P(1) using v n that by (intro lots_ok_neutral) (auto simp: linvx_def neutral_def credit_kinds_def debit_kinds_def)
    then show ?thesis using b P tk by (auto simp: swapping_def linvx_def)
  qed
  show ?thesis
    using False F unfolding move_escrow_part_def Let_def tk_def [symmetric] S D
    by (auto simp: wp_rules journal_def entry0_def delete_part_def reduce_part_def add_part_def put_part_def take_part_def)
qed

lemma moveEscrow_linv:
  assumes i: "linv cf s" and e: "two_escrows s src dst" and a: "0 \<le> amount"
    and S: "hd_ID S = h_ID src" and D: "hd_ID D = h_ID dst"
  shows "wp (moveEscrow cf S D amount now) (\<lambda>_ s'. linv cf s' \<and> partsum (hold_parts s') (h_ID src) = h_Max src - amount
    \<and> (\<forall>h\<in>set (holds s'). h_ID h = h_ID src \<longrightarrow> h_Method h = escrowMethod)) safeE s"
proof -
  let ?Q = "\<lambda>_ s'. linv cf s' \<and> partsum (hold_parts s') (h_ID src) = h_Max src - amount
    \<and> (\<forall>h\<in>set (holds s'). h_ID h = h_ID src \<longrightarrow> h_Method h = escrowMethod)"
  have hs: "src \<in> set (holds s)" "dst \<in> set (holds s)" "h_ID src \<noteq> h_ID dst" and me: "h_Method src = escrowMethod" "h_Method dst = escrowMethod"
    using e by (auto simp: two_escrows_def)
  have start: "swapping cf s src dst amount amount parts s" if "parts_read s (h_ID src) parts" for parts
  proof -
    have "holds_ok {h_ID src, h_ID dst} (lots s) (holds s) (hold_parts s)"
      using i hold_ok_more [of "{}" "{h_ID src, h_ID dst}" "hold_parts s"] by (auto simp: linv_def holds_ok_def)
    then show ?thesis using i that a used_bounds [OF i] hs by (auto simp: swapping_def parts_read_def part_of_lot_def linv_def linvx_def)
  qed
  have fin: "wp (thenM (updateHold (h_ID src) (\<lambda>h. h\<lparr>h_Max := h_Max h - amount\<rparr>)) (updateHold (h_ID dst) (\<lambda>h. h\<lparr>h_Max := h_Max h + amount\<rparr>))) ?Q safeE s1"
    if w: "swapping cf s src dst amount 0 [] s1" for s1
  proof -
    let ?f = "\<lambda>h. if h_ID h = h_ID src then h\<lparr>h_Max := h_Max h - amount\<rparr> else if h_ID h = h_ID dst then h\<lparr>h_Max := h_Max h + amount\<rparr> else h"
    have v: "linvx cf {h_ID src, h_ID dst} s1" and h1: "holds s1 = holds s"
      and sums: "partsum (hold_parts s1) (h_ID src) = h_Max src - amount" "partsum (hold_parts s1) (h_ID dst) = h_Max dst + amount"
      using w by (auto simp: swapping_def)
    have nn: "0 \<le> partsum (hold_parts s1) j" for j using partsum_nonneg v unfolding linvx_def by metis
    have U: "h_Used src = 0" "h_Used dst = 0" using i e by (auto simp: two_escrows_def linv_def holds_ok_def hold_ok_def)
    have "linv cf (s1\<lparr>holds := map ?f (holds s1)\<rparr>)"
    proof (rule linv_rows [OF v])
      fix h assume h: "h \<in> set (holds s1)"
      have ok: "hold_ok {h_ID src, h_ID dst} (hold_parts s1) h" using v h by (simp add: linvx_def holds_ok_def)
      have row: "h = src \<or> h = dst \<or> h_ID h \<noteq> h_ID src \<and> h_ID h \<noteq> h_ID dst"
        using hold_row_unique [OF i _ hs(1), of h] hold_row_unique [OF i _ hs(2), of h] h h1 by auto
      moreover have "hold_ok {} (hold_parts s1) (?f src)" "hold_ok {} (hold_parts s1) (?f dst)"
        using sums U nn [of "h_ID src"] nn [of "h_ID dst"] hs(3) by (simp_all add: hold_ok_def)
      moreover have "hold_ok {} (hold_parts s1) h" if "h_ID h \<noteq> h_ID src" "h_ID h \<noteq> h_ID dst" using ok that by (simp add: hold_ok_def)
      ultimately have "hold_ok {} (hold_parts s1) (?f h)" by (elim disjE) (auto split: if_splits)
      moreover have "h_Method h \<noteq> escrowMethod \<longrightarrow> h_ID h \<noteq> h_ID src \<and> h_ID h \<noteq> h_ID dst" using row me by auto
      ultimately show "same_row (hold_parts s1) h (?f h) \<and> hold_ok {} (hold_parts s1) (?f h)" by (simp add: same_row_def)
    qed
    moreover have "h_Method h = escrowMethod" if hx: "h \<in> set (map ?f (holds s1))" "h_ID h = h_ID src" for h
    proof -
      obtain x where x: "x \<in> set (holds s)" "h = ?f x" using hx(1) unfolding h1 set_map by blast
      then have "h_ID x = h_ID src" using hx(2) hs(3) by (auto split: if_splits)
      then show ?thesis using hold_row_unique [OF i x(1) hs(1)] x(2) me(1) by simp
    qed
    moreover have "upd (\<lambda>h. h_ID h = h_ID dst) (\<lambda>h. h\<lparr>h_Max := h_Max h + amount\<rparr>) (upd (\<lambda>h. h_ID h = h_ID src) (\<lambda>h. h\<lparr>h_Max := h_Max h - amount\<rparr>) hl) = map ?f hl" for hl :: "holdRow list"
      using hs(3) by (induction hl) (auto simp: upd_def)
    ultimately have "?Q () (s1\<lparr>holds := map ?f (holds s1)\<rparr>)"
      and "upd (\<lambda>h. h_ID h = h_ID dst) (\<lambda>h. h\<lparr>h_Max := h_Max h + amount\<rparr>) (upd (\<lambda>h. h_ID h = h_ID src) (\<lambda>h. h\<lparr>h_Max := h_Max h - amount\<rparr>) (holds s1)) = map ?f (holds s1)"
      using sums by (auto simp del: set_map)
    then show ?thesis by (simp add: updateHold_def wp_rules del: set_map)
  qed
  have loop: "wp (foldM (move_escrow_part S D version now) amount parts) (\<lambda>left. wp (if left \<noteq> 0 then throw (Internal ''escrow parts do not cover its units'')
     else thenM (updateHold (h_ID src) (\<lambda>h. h\<lparr>h_Max := h_Max h - amount\<rparr>)) (updateHold (h_ID dst) (\<lambda>h. h\<lparr>h_Max := h_Max h + amount\<rparr>))) ?Q safeE) safeE s"
    if "parts_read s (h_ID src) parts" for version parts
    by (rule wp_foldM [where I = "swapping cf s src dst amount"])
      (use start [OF that] move_escrow_step [OF _ e S D] fin in \<open>auto simp: wp_if wp_throw\<close>)
  show ?thesis
    unfolding moveEscrow_def S D wp_bindM
    by (rule wp_params) (auto simp: wp_bindM intro!: wp_loadHoldParts [OF i] loop)
qed

section \<open>Split and join\<close>

lemma new_empty_hold:
  assumes i: "linv cf s" and new: "\<not> list_ex (\<lambda>x. h_ID x = h_ID h \<or> P x) (holds s)"
    and h: "h_State h = h_held" "h_Used h = 0" "h_Max h = 0"
  shows "linv cf (s\<lparr>holds := holds s @ [h]\<rparr>)"
  using building_done [OF building_start [OF i new h(1,2), of "[]"]] h(3) by (simp add: parts_of_def taken_def built_def)

lemma linv_limits [simp]: "linv cf (s\<lparr>limit_holds := a\<rparr>) = linv cf s" by (simp add: linv_core)

lemma split_write_linv:
  assumes i: "linv cf s" and src: "src \<in> set (holds s)" "h_State src = h_held" "h_Method src = escrowMethod" and a: "0 \<le> amount"
    and r: "h_State r = h_held" "h_Used r = 0" "h_Max r = 0" "h_Account r = h_Account src" "h_Resource r = h_Resource src" "h_Method r = escrowMethod"
    and D: "hd_ID h = h_ID r"
  shows "wp (split_write cf src r h amount now) (\<lambda>_. linv cf) safeE s"
proof -
  have mv: "wp (moveEscrow cf (hold_of_row src) h amount now) (\<lambda>_. wp (ret h) (\<lambda>_. linv cf) safeE) safeE s'"
    if new: "\<not> list_ex (\<lambda>x. h_ID x = h_ID r \<or> h_Account x = h_Account r \<and> h_RequestKey x = h_RequestKey r) (holds s)"
      and s': "linv cf s'" "holds s' = holds s @ [r]" for s'
  proof -
    have "h_ID src \<noteq> h_ID r" using new src(1) by (auto simp: list_ex_iff)
    then have e: "two_escrows s' src r" using src r s'(2) by (simp add: two_escrows_def)
    show ?thesis
      by (rule wp_conseq [OF moveEscrow_linv [OF s'(1) e a _ D]]) (auto simp: wp_rules hold_of_row_def)
  qed
  show ?thesis
    unfolding split_write_def insertHold_def copyCredential_def wp_thenM wp_bindM wp_gets wp_unique_insert wp_modifyM
    using new_empty_hold [OF i _ r(1-3)] mv by (auto split: option.splits)
qed

lemma EscrowSplit_linv:
  assumes i: "linv cf s" shows "wp (EscrowSplit cf j amount requestKey until0 now) (\<lambda>_. linv cf) safeE s"
  unfolding EscrowSplit_def wp_bindM
proof (rule loadEscrow_row, goal_cases)
  case (1 src)
  show ?case
    unfolding case_prod_conv Let_def loadHold_def loadHoldRow_def
    by (auto simp: i wp_if wp_throw wp_bindM wp_ret wp_gets split: option.splits intro!: split_write_linv [OF i 1(1)] 1(4))
qed simp

lemma wp_join_add:
  assumes "\<And>b. Q () (s\<lparr>limit_hold_shares := b\<rparr>)" shows "wp (join_add dst dstOwn cred day n) Q E s"
  using assms assms [of "limit_hold_shares s"] by (simp add: join_add_def wp_rules)

lemma wp_credentialJoin:
  assumes "\<And>b. Q () (s\<lparr>limit_hold_shares := b\<rparr>)" shows "wp (credentialJoin src dst units) Q E s"
proof -
  have fold: "wp (foldM (\<lambda>left sh. let n = min (hs_Units sh) left in thenM (join_add dst dstOwn (hs_Credential sh) (hs_Day sh) n) (ret (left - n))) m shs)
      (\<lambda>_ s'. \<exists>b. s' = s\<lparr>limit_hold_shares := b\<rparr>) E s" for m shs dstOwn
  proof (rule wp_foldM [where I = "\<lambda>_ _ s'. \<exists>b. s' = s\<lparr>limit_hold_shares := b\<rparr>"])
    show "\<exists>b. s = s\<lparr>limit_hold_shares := b\<rparr>" by (intro exI [of _ "limit_hold_shares s"]) simp
  qed (auto simp: Let_def wp_bindM wp_thenM wp_ret intro!: wp_join_add)
  show ?thesis
    unfolding credentialJoin_def holdShares_def holdCredential_def wp_bindM wp_gets
    by (rule wp_conseq [OF fold]) (auto simp: wp_rules assms split: option.splits intro!: wp_join_add)
qed

lemma partsum_zero:
  assumes h: "holds_ok ex ls hs ps" and z: "partsum ps i = 0" and p: "p \<in> set ps" shows "hp_Hold p \<noteq> i"
proof
  assume e: "hp_Hold p = i"
  have "(if hp_Hold p = i then hp_Units p else 0) \<le> partsum ps i"
    unfolding partsum_def using h p by (intro sum_list_member_le_int) (auto simp: holds_ok_def part_ok_def)
  moreover have "0 < hp_Units p" using h p by (simp add: holds_ok_def part_ok_def)
  ultimately show False using z e by simp
qed

lemma empty_hold_refunded:
  assumes i: "linv cf s" and z: "partsum (hold_parts s) j = 0" and m: "\<forall>h\<in>set (holds s). h_ID h = j \<longrightarrow> h_Method h = escrowMethod"
  shows "linv cf (s\<lparr>holds := upd (\<lambda>h. h_ID h = j) (\<lambda>h. h\<lparr>h_State := h_refunded\<rparr>) (holds s)\<rparr>)"
  unfolding upd_def
proof (rule linv_rows [where ex = "{}"])
  show "linvx cf {} s" using i by (simp add: linv_linvx)
  fix h assume h: "h \<in> set (holds s)"
  have ok: "holds_ok {} (lots s) (holds s) (hold_parts s)" using i by (simp add: linv_def)
  have hk: "hold_ok {} (hold_parts s) h" using ok h by (simp add: holds_ok_def)
  show "same_row (hold_parts s) h (if h_ID h = j then h\<lparr>h_State := h_refunded\<rparr> else h)
      \<and> hold_ok {} (hold_parts s) (if h_ID h = j then h\<lparr>h_State := h_refunded\<rparr> else h)"
    using hk partsum_zero [OF ok z] m h by (auto simp: same_row_def hold_ok_def)
qed

lemma linv_shares [simp]: "linv cf (s\<lparr>limit_hold_shares := a\<rparr>) = linv cf s" by (simp add: linv_core)

lemma EscrowJoin_linv:
  assumes i: "linv cf s" shows "wp (EscrowJoin cf j k now) (\<lambda>_. linv cf) safeE s"
proof -
  have mv: "wp (thenM (moveEscrow cf (hold_of_row src) (hold_of_row dst) (h_Max src) now)
          (thenM (credentialJoin j k (h_Max src)) (updateHold j (\<lambda>h. h\<lparr>h_State := h_refunded\<rparr>)))) (\<lambda>_. linv cf) safeE s"
    if e: "two_escrows s src dst" and j: "h_ID src = j" for src dst
  proof -
    have a: "0 \<le> h_Max src" using used_bounds [OF i, of src] e by (auto simp: two_escrows_def)
    show ?thesis
      unfolding wp_thenM
      by (rule wp_conseq [OF moveEscrow_linv [OF i e a]])
        (use j in \<open>auto simp: hold_of_row_def updateHold_def wp_rules intro!: wp_credentialJoin empty_hold_refunded\<close>)
  qed
  have dst: "wp (loadEscrow cf k) (\<lambda>a. wp (case a of (dst, _) \<Rightarrow>
     if h_State src \<noteq> h_held \<or> h_State dst \<noteq> h_held \<or> j = k then throw (refuse ''hold_not_held'')
     else if h_Account src \<noteq> h_Account dst \<or> h_Resource src \<noteq> h_Resource dst then throw (refuse ''invalid_amount'')
     else bindM (loadHoldParts j) (\<lambda>parts.
       if list_ex (\<lambda>p. q_ExpiresAt p \<noteq> 0 \<and> q_ExpiresAt p \<le> h_ExpiresAt dst) parts then throw (refuse ''not_transferable'')
       else bindM (gets (\<lambda>s. card (set (map hp_Lot (filter (\<lambda>p. hp_Hold p \<in> {j, k}) (hold_parts s)))))) (\<lambda>n.
         if n > liveLotsMax then throw (refuse ''too_many_parts'')
         else
           thenM (moveEscrow cf (hold_of_row src) (hold_of_row dst) (h_Max src) now)
          (thenM (credentialJoin j k (h_Max src))
            (updateHold j (\<lambda>h. h\<lparr>h_State := h_refunded\<rparr>)))))) (\<lambda>_. linv cf) safeE) safeE s"
    if src: "src \<in> set (holds s)" "h_ID src = j" "h_Method src = escrowMethod" for src
  proof (rule loadEscrow_row, goal_cases)
    case (1 dst)
    have te: "two_escrows s src dst" if "h_State src = h_held" "h_State dst = h_held" "j \<noteq> k" "h_Account src = h_Account dst" "h_Resource src = h_Resource dst"
      using that src 1 by (simp add: two_escrows_def)
    show ?case
      by (auto simp: wp_if wp_throw wp_bindM wp_gets intro!: wp_loadHoldParts [OF i] mv te src(2))
  qed simp
  show ?thesis
    unfolding EscrowJoin_def wp_bindM
  proof (rule loadEscrow_row, goal_cases)
    case (1 src)
    show ?case unfolding case_prod_conv wp_bindM by (rule dst [OF 1(1,2,4)])
  qed simp
qed

end
