(* ===== verification/Sweep_Inv.thy ===== *)
theory Sweep_Inv
  imports Escrow_Inv Sweep
begin

text \<open>
  The sweeper keeps the invariant: expiry, lapsed holds, due transfers (executed, or cancelled when
  the recipient has no room) and demurrage, which takes at least nothing and at most what is
  spendable.
\<close>

section \<open>Demurrage\<close>

lemma rate_ppm: "RatePPM h \<le> ppm"
  by simp

lemma decay_days_bounds:
  assumes "rate \<le> ppm" "0 \<le> free" shows "0 \<le> decay_days n rate free \<and> decay_days n rate free \<le> free"
  using assms(2)
proof (induction n arbitrary: free)
  case (Suc n)
  have "0 \<le> mulDiv free rate ppm" "mulDiv free rate ppm \<le> free"
    using mulDiv_le [OF Suc.prems assms(1)] by auto
  moreover from this have "0 \<le> decay_days n rate (free - mulDiv free rate ppm) \<and> decay_days n rate (free - mulDiv free rate ppm) \<le> free - mulDiv free rate ppm"
    by (intro Suc.IH) simp
  ultimately show ?case unfolding decay_days.simps by linarith
qed simp

definition decay_row :: "int \<Rightarrow> int \<Rightarrow> lot \<Rightarrow> lot" where
  "decay_row gone today y = y\<lparr>l_Remaining := l_Remaining y - gone, l_DecayedDay := today,
     l_State := (if l_Remaining y - gone = 0 then lot_expired else l_State y)\<rparr>"

lemma kept_decay [simp]: "kept ls (upd P (decay_row gone today) ls)"
  by (rule kept_upd) (simp add: same_lot_def decay_row_def)

lemma lots_ok_decay:
  assumes ok: "lots_ok H ls n es" and x: "x \<in> set ls" "l_State x = lot_live" and g: "0 \<le> gone" "gone \<le> spendable x"
    and d: "debited (l_ID x) n gone es es'"
  shows "lots_ok H (upd (\<lambda>y. l_ID y = l_ID x) (decay_row gone today) ls) n es'"
proof -
  obtain fs where fs: "es' = es @ fs" "credits (l_ID x) fs = 0" "debits (l_ID x) fs = gone"
    "\<forall>j. j \<noteq> l_ID x \<longrightarrow> credits j fs = 0 \<and> debits j fs = 0" "\<forall>e\<in>set fs. je_LotID e \<le> n"
    using d by (auto simp: debited_def)
  have b: "lot_bal H es x" using lots_okD [OF ok x(1)] by simp
  have "lot_bal H (es @ fs) (decay_row gone today x)"
    using b x(2) g fs(2,3) by (auto simp: lot_bal_def lot_ok_def lot_check_def decay_row_def spendable_def)
  then show ?thesis
    using lots_ok_update [OF ok x(1), of "decay_row gone today" fs "H (l_ID x)"] fs by (simp add: decay_row_def)
qed

lemma decay_step:
  assumes p: "pending_lots cf s0 (x # ys) s" and x: "l_State x = lot_live"
  shows "wp (decay ap r x version today now) (\<lambda>_. pending_lots cf s0 ys) safeE s"
proof -
  define dk where "dk = decay_days (decay_steps x today) (RatePPM (l_HalfLife x)) (spendable x)"
  define lost where "lost = spendable x - dk"
  define expired where "expired = (if dk < ap_Dust ap \<or> today - l_IssuedDay x \<ge> 8 * l_HalfLife x then dk else 0)"
  have i: "linv cf s" and xs: "x \<in> set (lots s)" using p by (auto simp: pending_lots_def)
  let ?H = "heldsum (holds s) (hold_parts s)" and ?ls = "upd (\<lambda>y. l_ID y = l_ID x) (decay_row (lost + expired) today) (lots s)"
  have ok: "lots_ok ?H (lots s) (lots_seq s) (entries s)" using i by (simp add: linv_def)
  have b: "lot_bal ?H (entries s) x" "l_ID x \<le> lots_seq s" using lots_okD [OF ok xs] by auto
  have sp: "0 \<le> spendable x" using b by (auto simp: lot_bal_def lot_ok_def lot_check_def spendable_def)
  have dk: "0 \<le> dk" "dk \<le> spendable x" using decay_days_bounds [OF rate_ppm sp] by (auto simp: dk_def)
  have g: "0 \<le> lost + expired" "lost + expired \<le> spendable x" using dk by (auto simp: lost_def expired_def)
  note L = lots_ok_decay [OF ok xs x g]
  have D: "debited (l_ID x) (lots_seq s) (lost + expired) (entries s) (entries s @ [(entry0 0 0 k_expire [] Credit (lost + expired) 0)\<lparr>je_LotID := l_ID x\<rparr>])"
    unfolding debited_def using b(2) by (intro exI [of _ "[(entry0 0 0 k_expire [] Credit (lost + expired) 0)\<lparr>je_LotID := l_ID x\<rparr>]"])
      (auto simp: entry0_def credit_kinds_def debit_kinds_def)
  have c: "list_all lot_check ?ls" using lots_ok_check [OF L [OF D]] .
  have F: "pending_lots cf s0 ys (s\<lparr>lots := ?ls, entries := es', entries_seq := k\<rparr>)"
    if "debited (l_ID x) (lots_seq s) (lost + expired) (entries s) es'" for es' k
  proof -
    have "holds_ok {} ?ls (holds s) (hold_parts s)" using i holds_ok_kept [OF kept_decay] by (auto simp: linv_def)
    moreover have "set ys \<subseteq> set ?ls" using p by (intro pending_lots_upd) (auto simp: pending_lots_def)
    ultimately show ?thesis using L [OF that, of today] p i by (auto simp: pending_lots_def linv_def same_day_def)
  qed
  let ?line = "\<lambda>k amount. (entry0 (day_of now) now k (l_Account x) r amount version)
             \<lparr>je_Bucket := Some (l_Bucket x), je_LotID := l_ID x, je_Detail := ''half-life '' @ itoa (l_HalfLife x) @ '' days''\<rparr>"
  note J = wp_journal_nz [where l = "l_ID x" and n = "lots_seq s" and es = "entries s" and E = safeE, OF _ _ _ b(2) refl]
  have x2: "wp (journal_nz (?line k_expire expired)) (\<lambda>_. pending_lots cf s0 ys) safeE (s\<lparr>lots := ?ls, entries := es, entries_seq := m\<rparr>)"
    if "debited (l_ID x) (lots_seq s) lost (entries s) es" for es m
    by (rule J [where d = lost]) (use that F in \<open>simp_all add: entry0_def credit_kinds_def debit_kinds_def\<close>)
  have x1: "wp (journal_nz (?line k_decay lost)) (\<lambda>_. wp (journal_nz (?line k_expire expired)) (\<lambda>_. pending_lots cf s0 ys) safeE) safeE (s\<lparr>lots := ?ls\<rparr>)"
    by (rule J [where d = 0]) (use x2 in \<open>simp_all add: entry0_def credit_kinds_def debit_kinds_def\<close>)
  show ?thesis
    unfolding decay_def Let_def dk_def [symmetric] lost_def [symmetric] expired_def [symmetric] wp_thenM wp_updateLots
    using c x1 by (simp add: decay_row_def [abs_def])
qed

section \<open>Due transfers and lapsed holds\<close>

lemma executeDue_linv:
  assumes i: "linv cf s" shows "wp (executeDue cf j now) (\<lambda>_. linv cf) safeE s"
proof (cases "transfer_at s j")
  case None
  then show ?thesis using i by (simp add: executeDue_def loadTransfer_def wp_rules)
next
  case (Some row)
  let ?t = "transfer_of_row s row"
  have row: "map_option (transfer_of_row s) (transfer_at s j) = Some ?t" using Some by simp
  note R = loadTransfer_row [OF row]
  show ?thesis
  proof (cases "tr_State ?t = t_pending")
    case False
    then show ?thesis using i Some by (simp add: executeDue_def loadTransfer_def wp_rules)
  next
    case True
    have at: "transfer_at s (tr_ID ?t) = Some row" "t_State row = t_pending" using R Some True by auto
    have ex: "wp (execute cf ?t now) (\<lambda>_. linv cf) safeE s" using i at by (rule execute_linv)
    have rl: "wp (release cf ?t t_cancelled a now) (\<lambda>_. linv cf) safeE s" for a using i at by (rule release_linv) simp
    show ?thesis
      using ex i Some True unfolding executeDue_def loadTransfer_def wp_bindM wp_gets
      by (auto simp: wp_def split: prod.splits sum.splits lerr.splits dest: wp_errorD [OF rl] wp_resultD [OF rl])
  qed
qed

lemma settle_due_linv:
  assumes "linv cf s" shows "wp (settle_due cf now z j) (\<lambda>_. linv cf) safeE s"
  unfolding settle_due_def loadHoldRow_def
  by (cases z) (auto simp: assms wp_if wp_bindM wp_thenM wp_gets wp_ret split: option.splits intro!: settle_linv)

section \<open>The sweep\<close>

lemma count_each_linv:
  assumes "linv cf s" "\<And>x s. linv cf s \<Longrightarrow> wp (f x) (\<lambda>_. linv cf) safeE s"
  shows "wp (count_each xs f n) (\<lambda>_. linv cf) safeE s"
  unfolding count_each_def
  by (rule wp_foldM [where I = "\<lambda>_ _. linv cf"]) (use assms in \<open>auto simp: wp_thenM wp_ret\<close>)

lemma count_each_lots:
  assumes i: "linv cf s" and xs: "xs = take m (filter P (lots s))"
    and f: "\<And>x ys s'. pending_lots cf s (x # ys) s' \<Longrightarrow> P x \<Longrightarrow> wp (f x) (\<lambda>_. pending_lots cf s ys) safeE s'"
  shows "wp (count_each xs f n) (\<lambda>_. linv cf) safeE s"
  unfolding count_each_def
proof (rule wp_foldM [where I = "\<lambda>_ ys s'. pending_lots cf s ys s' \<and> (\<forall>y\<in>set ys. P y)"])
  have "distinct (map l_ID xs)" using i by (auto simp: xs linv_def lots_ok_def take_map [symmetric] distinct_map_filter)
  moreover have "set xs \<subseteq> set (lots s)" "\<forall>y\<in>set xs. P y" by (auto simp: xs dest: in_set_takeD)
  ultimately show "pending_lots cf s xs s \<and> (\<forall>y\<in>set xs. P y)" using i by (simp add: pending_lots_def)
next
  fix m x ys s' assume "pending_lots cf s (x # ys) s' \<and> (\<forall>y\<in>set (x # ys). P y)"
  then show "wp (thenM (f x) (ret (m + 1))) (\<lambda>_ s'. pending_lots cf s ys s' \<and> (\<forall>y\<in>set ys. P y)) safeE s'"
    unfolding wp_thenM by (intro wp_conseq [OF f [of x ys]]) (auto simp: wp_ret)
qed (auto simp: pending_lots_def)

lemma Sweep_linv:
  assumes i: "linv cf s" shows "wp (Sweep cf now limit0) (\<lambda>_. linv cf) safeE s"
proof -
  define m where "m = nat (clamp limit0 1 SweepMax)"
  have e: "wp (count_each (take m (filter (due_lot now) (lots s1))) (\<lambda>x. expireLot (l_Resource x) (l_Account x) (l_ID x) (l_Bucket x) (spendable x) version now) 0) (\<lambda>_. linv cf) safeE s1"
    if "linv cf s1" for s1 version
    by (rule count_each_lots [OF that refl]) (auto simp: due_lot_def spendable_def intro: expireLot_step [unfolded spendable_def])
  have d: "wp (count_each (take m (filter (\<lambda>x. l_State x = lot_live \<and> l_HalfLife x > 0 \<and> l_DecayedDay x < today) (lots s1)))
      (\<lambda>x. decay p (l_Resource x) x version today now) n) (\<lambda>_. linv cf) safeE s1" if "linv cf s1" for s1 p version today n
    by (rule count_each_lots [OF that refl]) (auto intro: decay_step)
  have h: "wp (foldM (settle_due cf now) z hs) (\<lambda>_. linv cf) safeE s1" if "linv cf s1" for s1 z hs
    by (rule wp_foldM [where I = "\<lambda>_ _. linv cf"]) (use that settle_due_linv in auto)
  have t: "wp (count_each ts (\<lambda>j. executeDue cf j now) n) (\<lambda>_. linv cf) safeE s1" if "linv cf s1" for s1 n ts
    by (rule count_each_linv [OF that executeDue_linv])
  show ?thesis
    unfolding Sweep_def Let_def m_def [symmetric] wp_bindM wp_gets
    apply (rule wp_params)
     apply (simp only: case_prod_conv wp_bindM wp_gets)
     apply (rule wp_conseq [OF e [OF i]])
      apply (rule wp_conseq [OF h], assumption)
       apply (simp only: wp_case_prod wp_if wp_ret split: prod.splits if_splits, intro conjI allI impI)
        apply (assumption | simp only: wp_bindM)+
       apply (rule wp_levers)
        apply (auto simp: wp_if wp_ret wp_bindM wp_gets intro!: wp_conseq [OF t] d)
    done
qed

end
