(* ===== verification/Ledger_Run.thy ===== *)
theory Ledger_Run
  imports Sweep_Inv Journal
begin

text \<open>
  The ledger as a system: every method that writes, each in its caller's transaction, in any order,
  with any parameters, levers and classifier at each call. The invariant holds in every reachable
  state, so no method ever violates a \<open>CHECK\<close>, and what the journal says of a lot is what the lot has.
\<close>

section \<open>Calls\<close>

datatype call =
    cSpend Subject Resource int Ref int
  | cMintRef string Resource Bucket int string Ref int
  | cTopUp string Resource int string Ref int
  | cReserve Subject Resource int string Ref int int
  | cCommit string int int
  | cRefund string string int
  | cReimburse string string int
  | cTransfer Subject string Resource int string int
  | cCancelTransfer string string int
  | cEscrow Subject Resource int string int int
  | cEscrowPay string string int
  | cEscrowRelease string string int
  | cEscrowSplit string int string int int
  | cEscrowJoin string string int
  | cSweep int int
  | cSetSpendLimit SpendLimit int
  | cTripBreaker string string string int
  | cRecordShadow string Resource int string string int
  | cTakeRefusals
  | cPutBackRefusals "((int \<times> Resource \<times> string) \<times> int) list"

definition skipM :: "'a LM \<Rightarrow> unit LM" where
  "skipM m = thenM m (ret ())"

fun run_call :: "Config \<Rightarrow> call \<Rightarrow> unit LM" where
  "run_call cf (cSpend sb r units ref now) = skipM (Spend cf sb r units ref now)"
| "run_call cf (cMintRef account r b units reason ref now) = MintRef cf account r b units reason ref now"
| "run_call cf (cTopUp account r units reason ref now) = skipM (TopUp cf account r units reason ref now)"
| "run_call cf (cReserve sb r mx key ref ttl now) = skipM (Reserve cf sb r mx key ref ttl now)"
| "run_call cf (cCommit i us now) = skipM (Commit cf i us now)"
| "run_call cf (cRefund i reason now) = Refund cf i reason now"
| "run_call cf (cReimburse i reason now) = skipM (Reimburse cf i reason now)"
| "run_call cf (cTransfer sb to r amount key now) = skipM (Transfer_units cf sb to r amount key now)"
| "run_call cf (cCancelTransfer i actor now) = skipM (CancelTransfer cf i actor now)"
| "run_call cf (cEscrow sb r amount key until now) = skipM (Escrow_units cf sb r amount key until now)"
| "run_call cf (cEscrowPay i to now) = skipM (EscrowPay cf i to now)"
| "run_call cf (cEscrowRelease i reason now) = EscrowRelease cf i reason now"
| "run_call cf (cEscrowSplit i amount key until now) = skipM (EscrowSplit cf i amount key until now)"
| "run_call cf (cEscrowJoin i into now) = EscrowJoin cf i into now"
| "run_call cf (cSweep now limit) = skipM (Sweep cf now limit)"
| "run_call cf (cSetSpendLimit l now) = SetSpendLimit l now"
| "run_call cf (cTripBreaker account reason key now) = TripBreaker cf account reason key now"
| "run_call cf (cRecordShadow account r amount opn detail now) = RecordShadow cf account r amount opn detail now"
| "run_call cf cTakeRefusals = skipM TakeRefusals"
| "run_call cf (cPutBackRefusals xs) = PutBackRefusals xs"

text \<open>The refusal counts are kept in memory: a rollback does not undo them.\<close>

definition rollback :: "led \<Rightarrow> led \<Rightarrow> led" where
  "rollback s s' = s\<lparr>refusals := refusals s'\<rparr>"

text \<open>A ledger with the migrated schema and no rows; the operation object is not read before it is set.\<close>

definition led0 :: "op \<Rightarrow> led" where
  "led0 p = \<lparr>days = [], pools = [], claims = [], client_spend = [], usage = [], lots = [], lots_seq = 0,
     entries = [], entries_seq = 0, holds = [], hold_parts = [], transfers = [], breakers = [], breakers_seq = 0,
     spend_limits = [], limit_usage = [], limit_holds = [], limit_hold_shares = [], lop = p, refusals = []\<rparr>"

inductive reachable :: "(string \<Rightarrow> string) \<Rightarrow> led \<Rightarrow> bool" for digest where
  start: "reachable digest (led0 p)"
| step: "reachable digest s \<Longrightarrow> cf_sha256 cf = digest \<Longrightarrow> reachable digest (snd (transact rollback (run_call cf c) s))"

section \<open>Every call keeps the invariant\<close>

lemma wp_skipM: "wp m (\<lambda>_. linv cf) safeE s \<Longrightarrow> wp (skipM m) (\<lambda>_. linv cf) safeE s"
  by (simp add: skipM_def wp_thenM wp_ret)

lemma linv_frame:
  "linv cf (s\<lparr>spend_limits := a\<rparr>) = linv cf s" "linv cf (s\<lparr>breakers := b, breakers_seq := n\<rparr>) = linv cf s"
  "linv cf (s\<lparr>refusals := x\<rparr>) = linv cf s"
  by (simp_all add: linv_core)

lemma RecordShadow_linv:
  assumes "linv cf s" shows "wp (RecordShadow cf account r amount opn detail now) (\<lambda>_. linv cf) safeE s"
proof -
  have "lots_ok (heldsum (holds s) (hold_parts s)) (lots s) (lots_seq s) (entries s @ [e])" if "je_Kind e = k_shadow" "je_LotID e = 0" for e
    using assms that by (intro lots_ok_neutral) (auto simp: linv_def neutral_def credit_kinds_def debit_kinds_def lots_ok_def)
  then show ?thesis
    unfolding RecordShadow_def wp_bindM using assms
    by (auto simp: journal_def wp_rules linv_core core_def entry0_def intro!: wp_params)
qed

lemma SetSpendLimit_linv: "linv cf s \<Longrightarrow> wp (SetSpendLimit l now) (\<lambda>_. linv cf) safeE s"
  by (simp add: SetSpendLimit_def wp_rules linv_frame)

lemma TripBreaker_linv: "linv cf s \<Longrightarrow> wp (TripBreaker cf account reason key now) (\<lambda>_. linv cf) safeE s"
  by (auto simp: TripBreaker_def wp_bindM linv_frame intro!: wp_params wp_tripBreaker)

lemma run_call_linv:
  assumes "linv cf s" shows "wp (run_call cf c) (\<lambda>_. linv cf) safeE s"
proof (cases c)
  case (cMintRef account r b units reason ref now)
  then show ?thesis using mint_linv [OF assms] by (simp add: MintRef_def wp_thenM wp_ret)
next
  case (cTopUp account r units reason ref now)
  then show ?thesis using mint_linv [OF assms] by (simp add: TopUp_def wp_skipM)
qed (use assms in \<open>simp_all add: wp_skipM Spend_linv Reserve_linv Commit_linv Refund_linv Reimburse_linv Transfer_linv CancelTransfer_linv
    Escrow_linv EscrowPay_linv EscrowRelease_linv EscrowSplit_linv EscrowJoin_linv Sweep_linv SetSpendLimit_linv TripBreaker_linv RecordShadow_linv
    skipM_def TakeRefusals_def PutBackRefusals_def wp_rules linv_frame\<close>)

text \<open>The invariant reads the configuration's digest only.\<close>

lemma linv_digest: "cf_sha256 cf = cf_sha256 cf' \<Longrightarrow> linv cf s = linv cf' s"
  by (simp add: linv_def transfers_ok_def pend_ok_def transferID_def)

definition digest_config :: "(string \<Rightarrow> string) \<Rightarrow> Config" where
  "digest_config digest = \<lparr>cf_Classifier = None, cf_Levers = None, cf_Params = (\<lambda>_. Inl []), cf_Deposits = [], cf_sha256 = digest\<rparr>"

text \<open>A call is made with a configuration; the configurations of one ledger share the digest.\<close>

definition run_with :: "Config \<times> call \<Rightarrow> unit LM" where
  "run_with = (\<lambda>(cf, c). run_call cf c)"

interpretation ledger_sys: transactional run_with rollback "linv (digest_config digest)" safe "\<lambda>(cf, c). cf_sha256 cf = digest" for digest
proof unfold_locales
  fix s and k :: "Config \<times> call"
  assume s: "linv (digest_config digest) s" and k: "case k of (cf, c) \<Rightarrow> cf_sha256 cf = digest"
  obtain cf c where e: "k = (cf, c)" by fastforce
  have d: "linv (digest_config digest) = linv cf"
    by (rule ext, rule linv_digest) (use k in \<open>simp add: e digest_config_def\<close>)
  show "wp (run_with k) (\<lambda>_. linv (digest_config digest)) safeE s"
    using run_call_linv [of cf s c] s by (simp add: e run_with_def d)
qed (simp add: rollback_def linv_frame)

lemma linv_led0: "linv cf (led0 p)"
proof -
  have "day_at (led0 p) r day = None" for r day by (simp add: day_at_def led0_def)
  then show ?thesis
    by (simp add: linv_def days_ok_def tables_ok_def led0_def day_load_def lots_ok_def holds_ok_def transfers_ok_def)
qed

lemma reachable_linv: "reachable digest s \<Longrightarrow> linv (digest_config digest) s"
proof (induction rule: reachable.induct)
  case (start p)
  then show ?case by (rule linv_led0)
next
  case (step s cf c)
  from ledger_sys.inv_transact [OF step.IH, of "(cf, c)"] step.hyps(2) show ?case by (simp add: run_with_def)
qed

end
