(* ===== verification/Scenario.thy ===== *)
theory Scenario
  imports Ledger_Run
begin

text \<open>
  A worked run. The rules that execute a ledger method on a concrete state by simplification, and
  one account's history on them: a top-up, a reserve and its commit, an escrow, a transfer. The
  states they lead to are where the theorems about the ledger are applied.
\<close>

section \<open>Executing a method\<close>

named_theorems run_rules \<open>equations that execute a method on a state\<close>
named_theorems run_cong \<open>congruences that keep the simplifier out of what is not reached yet\<close>

lemma run_congs [run_cong]:
  "s = s' \<Longrightarrow> bindM m f s = bindM m f s'" "s = s' \<Longrightarrow> thenM m n s = thenM m n s'" "s = s' \<Longrightarrow> tryM m s = tryM m s'"
  "s = s' \<Longrightarrow> finish m k s = finish m k s'" "s = s' \<Longrightarrow> transact u m s = transact u m s'" "s = s' \<Longrightarrow> skipM m s = skipM m s'"
  "s = s' \<Longrightarrow> xs = xs' \<Longrightarrow> forM xs g s = forM xs' g s'"
  "s = s' \<Longrightarrow> xs = xs' \<Longrightarrow> b = b' \<Longrightarrow> foldM h b xs s = foldM h b' xs' s'"
  "s = s' \<Longrightarrow> gets p s = gets p s'" "s = s' \<Longrightarrow> modifyM q s = modifyM q s'"
  by simp_all

lemma branch_congs [run_cong]:
  "b = b' \<Longrightarrow> (if b then m else n) s = (if b' then m else n) s" "x = x' \<Longrightarrow> case_option m f x s = case_option m f x' s"
  "z = z' \<Longrightarrow> case_prod g z s = case_prod g z' s" "y = y' \<Longrightarrow> case_sum h k y s = case_sum h k y' s"
  "l = l' \<Longrightarrow> case_list m q l s = case_list m q l' s" "e = e' \<Longrightarrow> case_lerr e1 e2 e3 e4 e5 e s = case_lerr e1 e2 e3 e4 e5 e' s"
  "Let v w s = Let v w s"
  by simp_all

lemma run_simps [run_rules]:
  "bindM m f s = (case m s of (Inl e, s') \<Rightarrow> (Inl e, s') | (Inr a, s') \<Rightarrow> f a s')"
  "thenM m n s = (case m s of (Inl e, s') \<Rightarrow> (Inl e, s') | (Inr a, s') \<Rightarrow> n s')"
  "ret c s = (Inr c, s)" "throw e s = (Inl e, s)" "gets g s = (Inr (g s), s)" "modifyM h s = (Inr (), h s)"
  "liftE r s = (r, s)" "tryM m s = (case m s of (r, s') \<Rightarrow> (Inr r, s'))" "skipM m s = thenM m (ret ()) s"
  "finish m k s = (case m s of (Inl e, s') \<Rightarrow> if isRefusal e then thenM save (k (Inl e)) s' else (Inl e, s')
     | (Inr a, s') \<Rightarrow> thenM save (k (Inr a)) s')"
  "transact u m s = (case m s of (Inr a, s') \<Rightarrow> (Inr a, s') | (Inl e, s') \<Rightarrow> (Inl e, u s s'))"
  "liftS x s = (case x of Inl e \<Rightarrow> (Inl (Internal e), s) | Inr a \<Rightarrow> (Inr a, s))"
  "unique_insert dup w s = (if dup then (Inl SqlUnique, s) else (Inr (), w s))" "Let v l s = l v s"
  "forM [] p s = (Inr (), s)" "forM (x # xs) p s = thenM (p x) (forM xs p) s"
  "foldM q b [] s = (Inr b, s)" "foldM q b (y # ys) s = bindM (q b y) (\<lambda>b'. foldM q b' ys) s"
  by (auto simp: bindM_def thenM_def ret_def throw_def gets_def modifyM_def liftE_def tryM_def finish_def skipM_def
    transact_def liftS_def unique_insert_def split: prod.splits sum.splits)

text \<open>The definitions a run unfolds, by component.\<close>

lemmas run_store = updateLots_def appendLot_def lot_check_def insertHold_def insertPart_def insertTransfer_def
  insertClaim_def updateHold_def updateTransfer_def modifyOp_def upd_def upsert_def classify_def DefaultClassifier_def
  normalise_def band_defs clamp_def day_of_def go_arith maxUnits_def ppm_def
lemmas run_lots = spendable_def liveLots_def is_live_def liveLotsMax_def LotsPerAccount_def insertLot_def creditLot_def
  mergeable_def takeFrom_def take_row_def holdOf_def journal_def entry0_def opOf_def addUsage_def loadUsage_def usage_of_def
  usage_key_def nonpaid_def Ref0_def plan_def
lemmas run_spend = sweepOwn_def due_lot_def claim_def loadClaim_def loadRootDay_def share_def eligible_def anonymousOff_def
  legacyShare_def new_claim_def record_claim_def op_entry_def dormantCheck_def claim_day_def capOwn_def planSpend_def
  plan0_def plan_lot_def credentialCheck_def clientSpend_def credentialRecord_def spend_day_def save_def saveDay_def debit_def
lemmas run_mint = mint_def mint_body_def mint_draws_def mint_credit_def mint_lot_def mint_kind_def TopUp_def
lemmas run_holds = Reserve_def loadHold_def loadHoldRow_def hold_at_def hold_of_row_def hold_limit_hit_def open_holds_def HoldsTotal_def
  HoldsPerAccount_def ledgerService_def hold_def hold_write_def holdParts_def hold_part_def hold_row_def

section \<open>The configuration\<close>

text \<open>
  No budget, so every unit is a paid one; the digest is the identity, under which the ids of the run
  differ.
\<close>

definition demo_rp :: "string \<Rightarrow> ResourceParams" where
  "demo_rp u = \<lparr>rp_Unit = u, rp_Budget = 0, rp_SpendCeiling = 0, rp_GrantSharePPM = 0, rp_FloorSlicePPM = 0,
     rp_Floor = 0, rp_Cap = 0, rp_AnonymousSharePPM = 0, rp_SpillStart = 0, rp_SpillInterval = 60, rp_TransferFee = 0,
     rp_InboundCap = 1000, rp_NewKeyFloor = 0, rp_ClientSharePPM = 1000000\<rparr>"

definition demo_params :: AllowanceParams where
  "demo_params = DefaultAllowanceParams\<lparr>ap_Resources := [(PostBytes, demo_rp ''byte''), (MemoryBytes, demo_rp ''byte''),
     (Credit, demo_rp ''credit'')]\<rparr>"

definition demo_cf :: Config where
  "demo_cf = \<lparr>cf_Classifier = None, cf_Levers = None, cf_Params = (\<lambda>_. Inr (7, BodyV2 demo_params)),
     cf_Deposits = [''postage''], cf_sha256 = id\<rparr>"

lemma demo_valid: "Validate demo_params = None"
  by (simp add: Validate_def demo_params_def demo_rp_def DefaultAllowanceParams_def Let_def KnownResources_def
    rp_validate_def inPPM_def range_check_def maxUnits_def ppm_def maxHalfLife_def RatePPM_def)

lemma demo_params_run [run_rules]: "params demo_cf now s = (Inr (demo_params, 7), s)"
  by (simp add: params_def demo_cf_def run_rules ParseAllowanceParams_def ParseAllowanceParamsSet_def demo_valid)

lemma demo_resource [run_rules]: "resource demo_params Credit s = (Inr (demo_rp ''credit''), s)"
  by (simp add: resource_def run_rules demo_params_def)

lemma demo_levers [run_rules]: "levers demo_cf now s = (Inr noLevers, s)"
  by (simp add: levers_def demo_cf_def run_rules)

lemma demo_cf_sel [run_rules]: "cf_Deposits demo_cf = [''postage'']" "cf_Classifier demo_cf = None" "cf_sha256 demo_cf = id"
  by (simp_all add: demo_cf_def)

lemma demo_params_sel [run_rules]: "ap_PaidTransferable demo_params" "ap_TransferDelay demo_params = 172800"
  "ap_SpikeX demo_params = 4" "ap_SpikeFloor demo_params = 8" "ap_TrustResetDays demo_params = 30"
  by (simp_all add: demo_params_def DefaultAllowanceParams_def)

lemma demo_rp_sel [run_rules]: "rp_Budget (demo_rp u) = 0" "rp_SpendCeiling (demo_rp u) = 0" "rp_Cap (demo_rp u) = 0"
  "rp_Floor (demo_rp u) = 0" "rp_AnonymousSharePPM (demo_rp u) = 0" "rp_TransferFee (demo_rp u) = 0"
  "rp_InboundCap (demo_rp u) = 1000" "rp_NewKeyFloor (demo_rp u) = 0" "rp_ClientSharePPM (demo_rp u) = 1000000"
  by (simp_all add: demo_rp_def)

lemma noLevers_sel [run_rules]: "\<not> lv_SignedOnly noLevers" "\<not> lv_ProvenOnly noLevers" "\<not> lv_FreezeTransfers noLevers"
  "\<not> lv_PauseNewKeys noLevers" "\<not> lv_SignedServices noLevers"
  by (simp_all add: noLevers_def)

section \<open>The day\<close>

definition demo_day :: dayState where
  "demo_day = \<lparr>d_Resource = Credit, d_Day = 0, d_Budget = 0, d_BudgetEffective = 0, d_Unallocated = 0, d_SpentNonpaid = 0,
     d_SpentPaid = 0, d_OpenedAt = 1000, d_ParamsVersion = 7, d_Grant = pool0, d_Floor = pool0, d_Standing = pool0,
     d_Anon = pool0, d_legacy = False\<rparr>"

lemmas demo_day_defs = demo_day_def demo_rp_def noLevers_def Let_def effectiveBudget_def sliceSizes_def mulDiv_def
  allocated_def pool0_def

lemma demo_open [run_rules]: "computeOpen Credit 0 (demo_rp ''credit'') noLevers None 7 1000 = demo_day"
  by (simp add: computeOpen_def demo_day_defs)

lemma demo_adjust [run_rules]: "adjust demo_day (demo_rp ''credit'') noLevers = demo_day"
  by (simp add: adjust_def adjust_limit_def demo_day_defs)

lemma demo_entitlement [run_rules]: "entitlement demo_day (demo_rp ''credit'') noLevers st rd = (0, 0)"
  by (auto simp: entitlement_def demo_day_defs avail_def)

lemma demo_day_sel [run_rules]: "d_Resource demo_day = Credit" "d_Day demo_day = 0" "d_Grant demo_day = pool0"
  "d_Floor demo_day = pool0" "d_Standing demo_day = pool0" "d_Anon demo_day = pool0" "\<not> d_legacy demo_day"
  "d_SpentNonpaid demo_day = 0" "d_SpentPaid demo_day = 0" "d_Budget demo_day = 0" "d_BudgetEffective demo_day = 0"
  "d_Unallocated demo_day = 0" "d_OpenedAt demo_day = 1000" "d_ParamsVersion demo_day = 7" "Claimants pool0 = 0"
  by (simp_all add: demo_day_def pool0_def)

lemma demo_day_changed [run_rules]: "demo_day\<lparr>d_Floor := f, d_SpentPaid := n\<rparr> = demo_day \<longleftrightarrow> f = pool0 \<and> n = 0"
  "pool0\<lparr>Claimants := k\<rparr> = pool0 \<longleftrightarrow> k = 0" "demo_day\<lparr>d_Floor := f\<rparr> = demo_day \<longleftrightarrow> f = pool0"
  by (auto simp: demo_day_def pool0_def)

definition demo_op :: op where
  "demo_op = new_op demo_params 7 (demo_rp ''credit'') noLevers Credit 1000 demo_day"

lemma demo_op_fold [run_rules]: "new_op demo_params 7 (demo_rp ''credit'') noLevers Credit 1000 demo_day = demo_op"
  by (simp add: demo_op_def)

lemma demo_op_sel [run_rules]: "o_d demo_op = demo_day" "o_orig demo_op = demo_day" "o_r demo_op = Credit"
  "o_day demo_op = 0" "o_now demo_op = 1000" "o_version demo_op = 7" "o_p demo_op = demo_params"
  "o_rp demo_op = demo_rp ''credit''" "o_lv demo_op = noLevers"
  by (simp_all add: demo_op_def new_op_def demo_adjust day_of_def go_arith)

section \<open>A top-up\<close>

definition demo_opened :: "op \<Rightarrow> led" where
  "demo_opened p = (led0 p)\<lparr>days := [row_of_day demo_day], pools := rows_of demo_day, lop := demo_op\<rparr>"

lemma run_open: "open_op demo_cf Credit 1000 (led0 p) = (Inr (), demo_opened p)"
  by (simp cong: run_cong add: run_rules run_store open_op_def open_day_def loadDay_def day_load_def day_at_def led0_def
    previousDay_def insertDay_def insertPool_def poolRows_def pool_at_def start_op_def pool_row_def demo_opened_def rows_of_def)

definition demo_lot :: "int \<Rightarrow> lot" where
  "demo_lot hl = \<lparr>l_ID = 1, l_Account = ''a'', l_Resource = Credit, l_Bucket = Paid, l_Origin = originGrant, l_OriginAccount = ''a'',
     l_Hops = 0, l_IssuedDay = 0, l_ExpiresAt = 0, l_HalfLife = 0, l_DecayedDay = 0, l_Initial = 1000, l_Remaining = 1000,
     l_Held = hl, l_State = lot_live, l_CreatedAt = 1000\<rparr>"

definition demo_line :: entry where
  "demo_line = (entry0 0 1000 k_topup ''a'' Credit 1000 7)\<lparr>je_Seq := 1, je_Bucket := Some Paid, je_LotID := 1, je_Detail := ''paid''\<rparr>"

definition demo_topped :: "op \<Rightarrow> led" where
  "demo_topped p = (demo_opened p)\<lparr>lots := [demo_lot 0], lots_seq := 1, entries := [demo_line], entries_seq := 1\<rparr>"

lemma run_topup: "TopUp demo_cf ''a'' Credit 1000 ''paid'' Ref0 1000 (led0 p) = (Inr 1, demo_topped p)"
  by (simp cong: run_cong add: run_rules run_mint run_open [unfolded led0_def demo_opened_def] run_store run_lots
    demo_topped_def demo_opened_def demo_lot_def demo_line_def led0_def save_def saveDay_def op_entry_def)

lemma run_reopen [run_rules]:
  assumes "days s = [row_of_day demo_day]" "pools s = rows_of demo_day"
  shows "open_op demo_cf Credit 1000 s = (Inr (), s\<lparr>lop := demo_op\<rparr>)"
proof -
  have "day_load s Credit 0 = Inr (Some demo_day)"
    using assms by (simp add: day_load_def day_at_def bad_pool_row_def pool_at_def rows_of_def poolRows_def row_of_day_def
      demo_day_def day_of_row_def raw_pool_def pool_row_def Let_def pool0_def)
  then show ?thesis
    by (simp cong: run_cong add: run_rules run_store open_op_def open_day_def loadDay_def start_op_def)
qed

section \<open>A reserve and its commit\<close>

definition demo_subject :: Subject where
  "demo_subject = \<lparr>s_ID = ''a'', s_Client = [], s_KeyID = ''a'', s_Signed = True, s_Hosted = False, s_Credential = []\<rparr>"

definition demo_hold :: string where "demo_hold = holdID demo_cf ''a'' ''k''"

definition demo_held :: Hold where
  "demo_held = \<lparr>hd_ID = demo_hold, hd_Account = ''a'', hd_Resource = Credit, hd_Max = 100, hd_ExpiresAt = 1060, hd_State = h_held\<rparr>"

definition demo_hold_row :: "hold_state \<Rightarrow> int \<Rightarrow> holdRow" where
  "demo_hold_row st n = \<lparr>h_ID = demo_hold, h_Account = ''a'', h_Resource = Credit, h_Max = 100, h_Used = n, h_State = st,
     h_RequestKey = ''k'', h_Service = ''svc'', h_Method = [], h_CreatedAt = 1000, h_ExpiresAt = 1060\<rparr>"

definition demo_claim :: claimRow where
  "demo_claim = \<lparr>c_Resource = Credit, c_Day = 0, c_Subject = ''a'', c_Band = BandSigned, c_Standing = 0, c_Root = ''a'',
     c_Entitlement = 0, c_Granted = 0, c_Source = ''none'', c_LotID = 0, c_CreatedAt = 1000\<rparr>"

definition demo_usage :: "int \<Rightarrow> usageRow" where
  "demo_usage n = \<lparr>u_Resource = Credit, u_Day = 0, u_Subject = ''a'', u_Spent = n, u_Incoming = 0, u_Outgoing = 0\<rparr>"

definition demo_claim_line :: entry where
  "demo_claim_line = (entry0 0 1000 k_claim ''a'' Credit 0 7)\<lparr>je_Seq := 2, je_Bucket := Some Free,
     je_Detail := claim_note (projr (DefaultClassifier demo_subject 0)) 0 0\<rparr>"

definition demo_hold_line :: "int \<Rightarrow> kind \<Rightarrow> int \<Rightarrow> int \<Rightarrow> entry" where
  "demo_hold_line sq k n t = (entry0 0 t k ''a'' Credit n 7)\<lparr>je_Seq := sq, je_Bucket := Some Paid, je_LotID := 1, je_HoldID := demo_hold,
     je_Ref := Ref0\<lparr>ref_Service := ''svc''\<rparr>\<rparr>"

definition demo_day_spent :: "int \<Rightarrow> dayState" where
  "demo_day_spent n = demo_day\<lparr>d_Floor := pool0\<lparr>Claimants := 1\<rparr>, d_SpentPaid := n\<rparr>"

definition demo_reserved :: "op \<Rightarrow> led" where
  "demo_reserved p = (demo_topped p)\<lparr>days := [row_of_day (demo_day_spent 100)], pools := rows_of (demo_day_spent 100),
     claims := [demo_claim], usage := [demo_usage 100], lots := [demo_lot 100],
     entries := [demo_line, demo_claim_line, demo_hold_line 3 k_reserve 100 1000], entries_seq := 3,
     holds := [demo_hold_row h_held 0], hold_parts := [\<lparr>hp_Hold = demo_hold, hp_Lot = 1, hp_Units = 100\<rparr>],
     lop := demo_op\<lparr>o_hourBound := False, o_noShareLot := False, o_d := demo_day_spent 100, o_orig := demo_day_spent 100\<rparr>\<rparr>"

lemmas run_states = demo_topped_def demo_opened_def led0_def demo_lot_def demo_line_def demo_subject_def demo_reserved_def
  demo_held_def demo_hold_row_def demo_claim_def demo_usage_def demo_claim_line_def demo_hold_line_def demo_day_spent_def
lemmas run_days = row_of_day_def rows_of_def poolRows_def pool_row_def

lemma run_reserve:
  "Reserve demo_cf demo_subject Credit 100 ''k'' (Ref0\<lparr>ref_Service := ''svc''\<rparr>) 60 1000 (demo_topped p) = (Inr demo_held, demo_reserved p)"
  by (simp cong: run_cong add: run_rules run_states run_store run_lots run_spend run_holds run_days demo_hold_def [symmetric] Let_def)

definition demo_committed :: "op \<Rightarrow> led" where
  "demo_committed p = (demo_reserved p)\<lparr>days := [row_of_day (demo_day_spent 60)], usage := [demo_usage 60],
     lots := [(demo_lot 0)\<lparr>l_Remaining := 940\<rparr>],
     entries := entries (demo_reserved p) @ [demo_hold_line 4 k_commit 60 1010, demo_hold_line 5 k_refund 40 1010], entries_seq := 5,
     holds := [demo_hold_row h_committed 60]\<rparr>"

definition demo_receipt :: Receipt where
  "demo_receipt = \<lparr>r_HoldID = demo_hold, r_Resource = Credit, r_Used = 60, r_Refunded = 40, r_ParamsVersion = 7,
     r_ByBucket = Some (\<lambda>b. if b = Paid then 60 else 0)\<rparr>"

lemma run_commit: "Commit demo_cf demo_hold 60 1010 (demo_reserved p) = (Inr demo_receipt, demo_committed p)"
  by (simp cong: run_cong add: run_rules run_states run_store run_lots run_days Commit_def settle_def loadHoldRow_def hold_at_def
    loadHoldParts_def joined_parts_def part_of_row_def settle_part_def settled0_def settle_write_def undrawDay_def journal_nz_def
    credentialRelease_def holdShares_def holdCredential_def ledgerService_def demo_committed_def demo_receipt_def Let_def fun_eq_iff)

section \<open>A transfer\<close>

text \<open>No transfer before: the spike breaker sees thirty days of none.\<close>

lemma run_spike [run_rules]: "transfers s = [] \<Longrightarrow> spike demo_params account day now s = (Inr (), s)"
proof -
  assume "transfers s = []"
  then have c: "plain_count s account day d = 0" for d by (simp add: plain_count_def)
  have "sort (replicate n (0::int)) = replicate n 0" for n by (intro sorted_sort_id) (simp add: sorted_replicate)
  then show ?thesis
    by (simp cong: run_cong add: spike_def c run_rules map_replicate_const Let_def)
qed

lemmas run_transfers = Transfer_units_def loadTransfer_def transfer_at_def transfer_def transferable_def transfer_write_def
  transferBreaker_def in_breaker_def moveParts_def move_part_def moved_lot_def earlier_def Let_def

lemma run_transfer: "\<exists>t s'. Transfer_units demo_cf demo_subject ''b'' Credit 200 ''t'' 1000 (demo_topped p) = (Inr t, s')"
  by (simp cong: run_cong add: run_rules run_states run_store run_lots run_spend run_days run_transfers)

section \<open>The states are reachable\<close>

lemma reachable_run:
  assumes "reachable id s" "run_call demo_cf c s = (Inr (), s')" shows "reachable id s'"
  using reachable.step [OF assms(1), of demo_cf c] assms(2) by (simp add: demo_cf_sel transact_def)

lemma reachable_topped: "reachable id (demo_topped p)"
  by (rule reachable_run [OF reachable.start, of "cTopUp ''a'' Credit 1000 ''paid'' Ref0 1000" p])
    (simp add: run_rules run_topup)

lemma reachable_reserved: "reachable id (demo_reserved p)"
  by (rule reachable_run [OF reachable_topped [of p], of "cReserve demo_subject Credit 100 ''k'' (Ref0\<lparr>ref_Service := ''svc''\<rparr>) 60 1000"])
    (simp add: run_rules run_reserve)

lemma reachable_committed: "reachable id (demo_committed p)"
  by (rule reachable_run [OF reachable_reserved [of p], of "cCommit demo_hold 60 1010"]) (simp add: run_rules run_commit)

section \<open>A transfer behind a breaker\<close>

definition demo_tripped :: "op \<Rightarrow> led" where
  "demo_tripped p = (demo_topped p)\<lparr>breakers := [\<lparr>b_Seq = 1, b_Account = ''a'', b_Reason = ''agent.rotate'', b_CancelKey = ''old'',
     b_StartedAt = 1000, b_TransferUntil = 173800, b_TrustUntil = 2593000\<rparr>], breakers_seq := 1\<rparr>"

lemma run_trip: "TripBreaker demo_cf ''a'' ''agent.rotate'' ''old'' 1000 (demo_topped p) = (Inr (), demo_tripped p)"
  by (simp cong: run_cong add: run_rules run_states TripBreaker_def tripBreaker_def demo_tripped_def)

definition demo_day_claimed :: dayState where
  "demo_day_claimed = demo_day\<lparr>d_Floor := pool0\<lparr>Claimants := 1\<rparr>\<rparr>"

text \<open>The account after its claim, with \<open>n\<close> units held under \<open>i\<close> for the operation \<open>opn\<close> on \<open>public\<close>.\<close>

definition demo_holding :: "led \<Rightarrow> int \<Rightarrow> string \<Rightarrow> string \<Rightarrow> string \<Rightarrow> string \<Rightarrow> string \<Rightarrow> int \<Rightarrow> led" where
  "demo_holding s n i public opn key method expires = s\<lparr>days := [row_of_day demo_day_claimed], pools := rows_of demo_day_claimed,
     claims := [demo_claim], lots := [demo_lot n],
     entries := [demo_line, demo_claim_line, (entry0 0 1000 k_reserve ''a'' Credit n 7)\<lparr>je_Seq := 3, je_Bucket := Some Paid, je_LotID := 1,
       je_HoldID := i, je_Ref := Ref0\<lparr>ref_Service := ledgerService, ref_Op := opn, ref_PublicRef := public\<rparr>\<rparr>], entries_seq := 3,
     holds := [\<lparr>h_ID = i, h_Account = ''a'', h_Resource = Credit, h_Max = n, h_Used = 0, h_State = h_held, h_RequestKey = key,
       h_Service = ledgerService, h_Method = method, h_CreatedAt = 1000, h_ExpiresAt = expires\<rparr>],
     hold_parts := [\<lparr>hp_Hold = i, hp_Lot = 1, hp_Units = n\<rparr>],
     lop := demo_op\<lparr>o_d := demo_day_claimed, o_orig := demo_day_claimed\<rparr>\<rparr>"

definition demo_pending_row :: transferRow where
  "demo_pending_row = \<lparr>t_ID = transferID demo_cf ''a'' ''t'', t_From = ''a'', t_To = ''b'', t_Resource = Credit, t_Amount = 200,
     t_Fee = 0, t_HoldID = holdID demo_cf ''a'' ''transfer:t'', t_State = t_pending, t_CreatedAt = 1000, t_ExecuteAt = 173800,
     t_DoneAt = 0, t_CancelledBy = []\<rparr>"

definition demo_pending :: "op \<Rightarrow> led" where
  "demo_pending p = (demo_holding (demo_tripped p) 200 (holdID demo_cf ''a'' ''transfer:t'') (transferID demo_cf ''a'' ''t'')
       ''allowance.transfer'' ''transfer:t'' ''transfer'' 173800)
     \<lparr>usage := [(demo_usage 0)\<lparr>u_Outgoing := 200\<rparr>, (demo_usage 0)\<lparr>u_Subject := ''b'', u_Incoming := 200\<rparr>], transfers := [demo_pending_row]\<rparr>"

lemmas run_holding = demo_holding_def demo_day_claimed_def

lemma run_pending:
  "\<exists>t. Transfer_units demo_cf demo_subject ''b'' Credit 200 ''t'' 1000 (demo_tripped p) = (Inr t, demo_pending p) \<and> tr_State t = t_pending"
  by (simp cong: run_cong add: run_rules run_states run_store run_lots run_spend run_holds run_days run_transfers pendingLimit_def
    TransfersPendingMax_def demo_tripped_def demo_pending_def demo_pending_row_def run_holding)

lemma reachable_tripped: "reachable id (demo_tripped p)"
  by (rule reachable_run [OF reachable_topped [of p], of "cTripBreaker ''a'' ''agent.rotate'' ''old'' 1000"])
    (simp add: run_rules run_trip)

lemma reachable_pending: "reachable id (demo_pending p)"
  using run_pending [of p]
  by (auto intro!: reachable_run [OF reachable_tripped [of p], of "cTransfer demo_subject ''b'' Credit 200 ''t'' 1000"] simp: run_rules)

section \<open>More runs\<close>

text \<open>
  More runs of the ledger from the topped-up account: spends, a spend under a limit, a due transfer, an
  escrow held, paid and split.
\<close>

lemmas run_all = run_rules run_states run_store run_lots run_spend run_holds run_days

section \<open>Spends\<close>

lemma run_spend_100: "\<exists>rc s'. Spend demo_cf demo_subject Credit 100 Ref0 1000 (demo_topped p) = (Inr rc, s')"
  by (simp cong: run_cong add: run_all Spend_def debit_def debit_write_def debit_part_def)

lemma run_spend_refused: "\<exists>e s'. Spend demo_cf demo_subject Credit 5000 Ref0 1000 (demo_topped p) = (Inl (Refuse e), s')"
  by (simp cong: run_cong add: run_all Spend_def debit_def debit_write_def debit_part_def refusal_def shortCode_def noShare_def refuseDay_def
    noteRefusal_def RefusalCodes_def err_code_def countRefusal_def refusalsMax_def)

definition demo_limit :: SpendLimit where
  "demo_limit = \<lparr>sl_Credential = ''cr'', sl_Account = ''a'', sl_PerDay = Some 150, sl_PerCall = Some 120, sl_ExpiresAt = 0, sl_SetAt = 900, sl_SetBy = ''a''\<rparr>"

definition demo_limited :: "op \<Rightarrow> led" where
  "demo_limited p = (demo_topped p)\<lparr>spend_limits := [demo_limit]\<rparr>"

lemma run_limit: "SetSpendLimit demo_limit 900 (demo_topped p) = (Inr (), demo_limited p)"
  by (simp cong: run_cong add: run_rules SetSpendLimit_def demo_limit_def SpendLimitMax_def maxUnits_def demo_limited_def
    demo_topped_def demo_opened_def led0_def upsert_def)

lemma reachable_limited: "reachable id (demo_limited p)"
  by (rule reachable_run [OF reachable_topped [of p], of "cSetSpendLimit demo_limit 900"]) (simp add: run_rules run_limit)

lemma run_spend_limited:
  "\<exists>rc s'. Spend demo_cf (demo_subject\<lparr>s_Credential := ''cr''\<rparr>) Credit 100 Ref0 1000 (demo_limited p) = (Inr rc, s')"
  by (simp cong: run_cong add: run_all Spend_def debit_def debit_write_def debit_part_def demo_limited_def demo_limit_def
    loadSpendLimit_def credentialSpent_def spent_by_def addLimitUsage_def upsert_def)

section \<open>A due transfer\<close>

lemma run_due: "\<exists>s'. executeDue demo_cf (transferID demo_cf ''a'' ''t'') 173800 (demo_pending p) = (Inr (), s')"
  by (simp cong: run_cong add: run_rules run_store run_lots executeDue_def execute_def loadTransfer_def transfer_at_def transferHold_def
      loadHoldParts_def joined_parts_def part_of_row_def heldParts_def loadHoldRow_def hold_at_def moveParts_def move_part_def moved_lot_def
      Let_def demo_pending_def run_holding demo_pending_row_def demo_lot_def transfer_of_row_def escrowMethod_def)

section \<open>An escrow\<close>

definition demo_escrow_id :: string where "demo_escrow_id = holdID demo_cf ''a'' ''escrow:job''"

definition demo_escrowed :: "op \<Rightarrow> led" where
  "demo_escrowed p = demo_holding (demo_topped p) 300 demo_escrow_id (transferID demo_cf ''a'' ''escrow:job'')
     ''work_reward'' ''escrow:job'' escrowMethod 5000"

lemmas run_escrows = Escrow_units_def escrowKeys_def escrow_def EscrowMax_def lasting_def transferable_def escrowRef_def
  run_holding demo_escrowed_def demo_escrow_id_def

lemma run_escrow: "\<exists>h. Escrow_units demo_cf demo_subject Credit 300 ''job'' 5000 1000 (demo_topped p) = (Inr h, demo_escrowed p)"
  by (simp cong: run_cong add: run_all run_escrows Let_def)

lemma reachable_escrowed: "reachable id (demo_escrowed p)"
  using run_escrow [of p]
  by (auto intro!: reachable_run [OF reachable_topped [of p], of "cEscrow demo_subject Credit 300 ''job'' 5000 1000"] simp: run_rules)

lemma demo_adjust_claimed: "adjust demo_day_claimed (demo_rp ''credit'') noLevers = demo_day_claimed"
  by (simp add: adjust_def adjust_limit_def demo_day_claimed_def demo_day_defs)

lemma run_reopen_claimed:
  assumes "days s = [row_of_day demo_day_claimed]" "pools s = rows_of demo_day_claimed"
  shows "open_op demo_cf Credit 1000 s = (Inr (), s\<lparr>lop := demo_op\<lparr>o_d := demo_day_claimed, o_orig := demo_day_claimed\<rparr>\<rparr>)"
proof -
  have "day_load s Credit 0 = Inr (Some demo_day_claimed)"
    using assms by (simp add: day_load_def day_at_def bad_pool_row_def pool_at_def rows_of_def poolRows_def row_of_day_def
      demo_day_claimed_def demo_day_def day_of_row_def raw_pool_def pool_row_def Let_def pool0_def)
  moreover have "new_op demo_params 7 (demo_rp ''credit'') noLevers Credit 1000 demo_day_claimed
      = demo_op\<lparr>o_d := demo_day_claimed, o_orig := demo_day_claimed\<rparr>"
    by (simp add: new_op_def demo_op_def demo_adjust_claimed)
  ultimately show ?thesis
    by (simp cong: run_cong add: run_rules run_store open_op_def open_day_def loadDay_def start_op_def)
qed

lemmas run_escrow_parts = loadEscrow_def loadHoldParts_def joined_parts_def part_of_row_def heldParts_def loadHoldRow_def loadHold_def
  hold_at_def hold_of_row_def moveParts_def move_part_def moved_lot_def loadTransfer_def transfer_at_def transferBreaker_def in_breaker_def

lemma run_pay: "\<exists>t s'. EscrowPay demo_cf demo_escrow_id ''b'' 1000 (demo_escrowed p) = (Inr t, s')"
  by (simp cong: run_cong add: run_all run_escrow_parts run_reopen_claimed EscrowPay_def escrowPay_def run_holding demo_escrowed_def Let_def)

lemma run_split: "\<exists>h s'. EscrowSplit demo_cf demo_escrow_id 120 ''part'' 4000 1500 (demo_escrowed p) = (Inr h, s')"
  by (simp cong: run_cong add: run_all run_escrow_parts EscrowSplit_def escrowKeys_def split_write_def copyCredential_def moveEscrow_def
    move_escrow_part_def reduce_part_def add_part_def upsert_def escrowRef_def run_holding demo_escrowed_def demo_escrow_id_def Let_def)

end
