(* ===== verification/Basic_Props.thy ===== *)
theory Basic_Props
  imports Params_Store Scenario
begin

text \<open>
  Properties of the pure parts: the scaled division, bands, parameters and their store, refusal counts,
  limits as they are set and read.
\<close>

section \<open>Arithmetic\<close>

text \<open>
  C38: the scaled division on 64-bit words, with its 128-bit intermediate product, computes the
  mathematical quotient of the signed operands, saturating at the largest \<open>int64\<close>, and zero when an
  operand is not positive.
\<close>

theorem mulDiv_words:
  "uint (mulDiv64 a b c) = (if sint a \<le> 0 \<or> sint b \<le> 0 \<or> sint c \<le> 0 then 0
     else min (2 ^ 63 - 1) (sint a * sint b div sint c))"
  by (simp add: mulDiv64_eq mulDiv_eq maxInt64_def)

text \<open>
  the rounded-up scaled division gives the ceiling of the quotient, saturating, whenever the
  second operand is at most the third, as in every call of the ledger (a share in parts per million).
  It does not saturate everywhere: the increment wraps to zero at \<open>2 ^ 62 + 1\<close>, \<open>2 ^ 63 - 2\<close>, \<open>2 ^ 61\<close>.
\<close>

theorem mulDivCeil_ceiling:
  assumes "0 < a" "a \<le> maxInt64" "0 < b" "b \<le> c"
  shows "mulDivCeil a b c = - ((- (a * b)) div c) \<and> mulDivCeil a b c \<le> a
    \<and> mulDivCeil (2 ^ 62 + 1) (2 ^ 63 - 2) (2 ^ 61) = 0"
proof -
  have c: "0 < c" using assms by simp
  have "a * b div c \<le> a * c div c" using assms c by (intro zdiv_mono1 mult_left_mono) auto
  then have q: "a * b div c \<le> a" using c by simp
  then have "a * b div c < 2 ^ 64 - 1" using assms(2) by (simp add: maxInt64_def)
  then have "mulDivCeil a b c = min maxInt64 (- ((- (a * b)) div c))"
    using mulDivCeil_eq [of a b c] assms c by simp
  moreover have "- ((- (a * b)) div c) \<le> a"
  proof -
    have "- (a * c) \<le> - (a * b)" using assms by simp
    then have "- (a * c) div c \<le> - (a * b) div c" using c by (intro zdiv_mono1) auto
    moreover have "- (a * c) div c = - a" using c by (metis mult_minus_left nonzero_mult_div_cancel_right less_irrefl)
    ultimately show ?thesis by linarith
  qed
  ultimately show ?thesis using assms(2) by (simp add: mulDivCeil_def maxInt64_def)
qed

section \<open>Bands\<close>

text \<open>Printing a band and parsing it back gives the band, and a name that parses is the one printed.\<close>

theorem band_round_trip:
  "(b \<le> BandTrusted \<longrightarrow> ParseBand (Band_Name b) = Some b) \<and> (ParseBand n = Some b' \<longrightarrow> Band_Name b' = n)"
  using ParseBand_Name ParseBand_SomeD by blast

section \<open>Parameters\<close>

text \<open>
  A body the store accepts is safe to compute with: every resource of parsed parameters, converted
  from the old schema or not, satisfies the bounds the arithmetic relies on.
\<close>

theorem parsed_params_ok:
  assumes "ParseAllowanceParams bd = Inr p" "map_of (ap_Resources p) r = Some rp"
  shows "Validate p = None \<and> rp_ok rp"
  using assms Validate_resource by (auto simp: ParseAllowanceParams_def ParseAllowanceParamsSet_def split: body.splits option.splits)

text \<open>The compiled-in parameters are valid.\<close>

theorem default_params_valid: "Validate DefaultAllowanceParams = None"
  by (simp add: Validate_def DefaultAllowanceParams_def Let_def KnownResources_def rp_validate_def inPPM_def range_check_def
    maxUnits_def ppm_def maxHalfLife_def defaultFloorSlicePPM_def RatePPM_def)

end
