(* ===== verification/Day_Props.thy ===== *)
theory Day_Props
  imports Spend_Inv
begin

text \<open>
  The water of one day: what a draw takes and a return gives back, how a day is cut and adjusted, when a
  slice may lend, what a subject is entitled to, what a plan takes. The instances are on a day of
  1000 units.
\<close>

definition spring_rp :: ResourceParams where
  "spring_rp = \<lparr>rp_Unit = ''credit'', rp_Budget = 1000, rp_SpendCeiling = 1000, rp_GrantSharePPM = 100000,
     rp_FloorSlicePPM = 250000, rp_Floor = 50, rp_Cap = 300, rp_AnonymousSharePPM = 500000, rp_SpillStart = 3600,
     rp_SpillInterval = 600, rp_TransferFee = 0, rp_InboundCap = 1000, rp_NewKeyFloor = 5, rp_ClientSharePPM = 1000000\<rparr>"

definition spring_day :: dayState where
  "spring_day = computeOpen Credit 0 spring_rp noLevers None 7 0"

lemma spring_ok: "rp_ok spring_rp" "day_ok spring_day"
proof -
  show "rp_ok spring_rp" by (simp add: rp_ok_def spring_rp_def maxUnits_def ppm_def inPPM_def)
  then show "day_ok spring_day" unfolding spring_day_def by (rule day_ok_open)
qed

lemma spring_pools: "d_Floor spring_day = pool0\<lparr>Size := 225\<rparr>" "d_Standing spring_day = pool0\<lparr>Size := 675\<rparr>"
  "d_Day spring_day = 0" "d_Resource spring_day = Credit"
proof -
  have be: "effectiveBudget spring_rp Credit noLevers = 1000"
    by (simp add: effectiveBudget_def spring_rp_def noLevers_def)
  have sz: "sliceSizes 1000 spring_rp sliceFloor = 225" "sliceSizes 1000 spring_rp sliceStanding = 675"
    by (simp_all add: sliceSizes_def spring_rp_def mulDiv_eq ppm_def maxInt64_def Let_def)
  show "d_Floor spring_day = pool0\<lparr>Size := 225\<rparr>" "d_Standing spring_day = pool0\<lparr>Size := 675\<rparr>"
    "d_Day spring_day = 0" "d_Resource spring_day = Credit"
    by (simp_all add: spring_day_def computeOpen_def Let_def be sz pool0_def)
qed

section \<open>Drawing\<close>

text \<open>
  A draw takes what was asked or everything the subject may draw, whichever is less; the day stays
  well formed (no slice overdrawn, lendings matched by borrowings) and the water falls by exactly what
  the draw returned.
\<close>

theorem draw_takes:
  assumes "day_ok d" "draw d rp origin want now = (got, d')"
  shows "got = min (max 0 want) (drawable d rp origin now) \<and> day_ok d' \<and> water d' = water d - got \<and> drawn d' = drawn d + got"
  using draw_spec [OF assms] by simp

lemma take_water_slice:
  "Claimed (Slices (take_water origin own x d) (sliceOf origin)) = Claimed (Slices d (sliceOf origin)) + own"
  "Borrowed (Slices (take_water origin own x d) (sliceOf origin)) = Borrowed (Slices d (sliceOf origin)) + x"
  using other_cases [of origin] by (auto simp: take_water_def Let_def)

text \<open>
  giving back what was drawn restores the day's water and the units its slices gave, exactly:
  borrowed units return to their lender, the rest to the subject's own slice.
\<close>

theorem draw_undraw:
  assumes "day_ok d" "draw d rp origin want now = (got, d')"
  shows "water (undraw d' origin got) = water d \<and> day_ok (undraw d' origin got)"
proof -
  note sp = draw_spec [OF assms]
  have n: "0 \<le> got" using sp lendable_bounds [of d rp "other (sliceOf origin)" now] by (simp add: drawable_def Let_def)
  have "got \<le> Borrowed (Slices d' (sliceOf origin)) + Claimed (Slices d' (sliceOf origin))"
  proof (cases "0 < want")
    case True
    have "0 \<le> Borrowed (Slices d (sliceOf origin)) + Claimed (Slices d (sliceOf origin))"
      using assms(1) other_cases [of origin] by (auto simp: day_ok_defs)
    moreover obtain own x where "got = own + x" "d' = take_water origin own x d"
      using assms(2) draw_eq [OF True, of d rp origin now] by (metis prod.inject)
    ultimately show ?thesis using take_water_slice [of origin own x d] by simp
  next
    case False
    then show ?thesis using assms other_cases [of origin] by (auto simp: draw_def day_ok_defs)
  qed
  then show ?thesis using undraw_spec [of d' got origin] sp n by simp
qed

section \<open>Sizes\<close>

text \<open>
  The effective budget lies between zero and the budget, and the three slice sizes are
  non-negative and add up to it exactly: cutting the day neither loses nor invents a unit.
\<close>

theorem slices_partition:
  assumes "rp_ok rp"
  shows "0 \<le> effectiveBudget rp r lv \<and> effectiveBudget rp r lv \<le> rp_Budget rp
    \<and> (\<forall>s. 0 \<le> sliceSizes (effectiveBudget rp r lv) rp s)
    \<and> sliceSizes (effectiveBudget rp r lv) rp sliceGrant + sliceSizes (effectiveBudget rp r lv) rp sliceFloor
      + sliceSizes (effectiveBudget rp r lv) rp sliceStanding = effectiveBudget rp r lv"
  using sliceSizes_partition [OF assms] by blast

text \<open>
  adjusting a day to new parameters or levers touches sizes and the budget only; nothing drawn
  is lost, no slice is cut below what was drawn from it, and the slices fit the new effective
  budget unless more than it had already been given.
\<close>

theorem adjust_keeps_draws:
  assumes "slices_ok d"
  shows "day_ok (adjust d rp lv) \<and> same_draws d (adjust d rp lv)
    \<and> d_BudgetEffective (adjust d rp lv) = effectiveBudget rp (d_Resource d) lv
    \<and> allocated (adjust d rp lv) \<le> max (effectiveBudget rp (d_Resource d) lv) (used d)"
  using adjust_spec [OF assms] by blast

section \<open>Lending\<close>

text \<open>
  The share of a slice that may be lent is zero until the spill starts, always below 100 \%, and
  never falls as time passes; before the spill starts a slice lends nothing, so spends of one slice
  cannot drain the other before its claimants arrive.
\<close>

theorem spill_schedule:
  assumes "rp_ok rp" "day_ok d" "Size (Slices d s) \<le> maxUnits"
  shows "0 \<le> spillPPM day rp now \<and> spillPPM day rp now < ppm
    \<and> (now \<le> now' \<longrightarrow> spillPPM day rp now \<le> spillPPM day rp now')
    \<and> (now < d_Day d * 86400 + rp_SpillStart rp \<longrightarrow> spillPPM (d_Day d) rp now = 0 \<and> lendable d rp s now = 0)"
  using spillPPM_spec [OF assms(1)] lendable_before_spill [OF assms(1,2) _ assms(3)] by blast

section \<open>Entitlements\<close>

text \<open>
  an entitlement is never negative, its floor part is at most the floor, the two parts together
  at most the cap, and the standing part at most the standing slice; a subject the levers exclude
  gets nothing, and a new key under pause-new-keys at most the new-key floor.
\<close>

theorem entitlement_capped:
  assumes "rp_ok rp" "day_ok d" "0 \<le> rd_Standing rt"
  shows "0 \<le> fst (entitlement d rp lv st rt) \<and> fst (entitlement d rp lv st rt) \<le> rp_Floor rp
    \<and> 0 \<le> snd (entitlement d rp lv st rt) \<and> snd (entitlement d rp lv st rt) \<le> Size (d_Standing d)
    \<and> fst (entitlement d rp lv st rt) + snd (entitlement d rp lv st rt) \<le> rp_Cap rp
    \<and> (\<not> eligible (d_Resource d) rp lv st \<longrightarrow> entitlement d rp lv st rt = (0, 0))
    \<and> (st_NewKey st \<and> lv_PauseNewKeys lv
       \<longrightarrow> fst (entitlement d rp lv st rt) + snd (entitlement d rp lv st rt) \<le> rp_NewKeyFloor rp)"
  using entitlement_bounds [OF assms] by blast

end
