(* ===== verification/Frames.thy ===== *)
theory Frames
  imports Ledger_Run
begin

text \<open>
  What the ledger's operations leave alone. A relation between the state before and after that is
  reflexive, transitive and blind to the tables an operation writes holds across the operation. The
  locales say which tables a relation is blind to, from the ones every spend writes to all of them;
  their instances are the frame facts of the client proofs: an unchanged table, an append-only journal.
\<close>

named_theorems frame_rules \<open>programs that stay inside a relation on states\<close>

definition inside :: "('s \<Rightarrow> 's \<Rightarrow> bool) \<Rightarrow> ('s, 'e, 'a) M \<Rightarrow> bool" where
  "inside R m \<longleftrightarrow> (\<forall>s. R s (snd (m s)))"

lemma within_run: "inside R m \<Longrightarrow> m s = (r, s') \<Longrightarrow> R s s'"
  unfolding inside_def by (metis snd_conv)

lemma within_wp: "inside R m \<Longrightarrow> wp m (\<lambda>_. R s) (\<lambda>_. R s) s"
  by (auto simp: inside_def wp_def split: prod.splits sum.splits) (metis snd_conv)+

section \<open>Relations kept by the control structure\<close>

locale step_rel =
  fixes R :: "'s \<Rightarrow> 's \<Rightarrow> bool"
  assumes R_refl: "R s s" and R_trans: "R s t \<Longrightarrow> R t u \<Longrightarrow> R s u"
begin

lemma within_pure [frame_rules]:
  "inside R (ret a)" "inside R (throw e)" "inside R (gets f)" "inside R (liftE r)"
  by (simp_all add: inside_def ret_def throw_def gets_def liftE_def R_refl)

lemma within_modify: "(\<And>s. R s (f s)) \<Longrightarrow> inside R (modifyM f)"
  by (simp add: inside_def modifyM_def)

lemma within_bind [frame_rules]: "inside R m \<Longrightarrow> (\<And>a. inside R (f a)) \<Longrightarrow> inside R (bindM m f)"
  unfolding inside_def bindM_def by (auto split: prod.splits sum.splits) (metis R_trans snd_conv)+

lemma within_then [frame_rules]: "inside R m \<Longrightarrow> inside R n \<Longrightarrow> inside R (thenM m n)"
  unfolding thenM_def by (rule within_bind)

lemma within_try [frame_rules]: "inside R m \<Longrightarrow> inside R (tryM m)"
  by (auto simp: inside_def tryM_def split: prod.splits) (metis snd_conv)

lemma within_if [frame_rules]: "inside R m \<Longrightarrow> inside R n \<Longrightarrow> inside R (if b then m else n)"
  by simp

lemma within_let [frame_rules]: "inside R (f x) \<Longrightarrow> inside R (Let x f)"
  by simp

lemma within_option [frame_rules]: "inside R m \<Longrightarrow> (\<And>a. inside R (n a)) \<Longrightarrow> inside R (case x of None \<Rightarrow> m | Some a \<Rightarrow> n a)"
  by (cases x) auto

lemma within_sum [frame_rules]: "(\<And>a. inside R (m a)) \<Longrightarrow> (\<And>b. inside R (n b)) \<Longrightarrow> inside R (case x of Inl a \<Rightarrow> m a | Inr b \<Rightarrow> n b)"
  by (cases x) auto

lemma within_prod [frame_rules]: "(\<And>a b. inside R (m a b)) \<Longrightarrow> inside R (case x of (a, b) \<Rightarrow> m a b)"
  by (cases x) auto

lemma within_prod2 [frame_rules]: "(\<And>a b. inside R (m a b y)) \<Longrightarrow> inside R ((case x of (a, b) \<Rightarrow> m a b) y)"
  by (cases x) auto

lemma within_list [frame_rules]: "inside R m \<Longrightarrow> (\<And>y ys. inside R (n y ys)) \<Longrightarrow> inside R (case x of [] \<Rightarrow> m | y # ys \<Rightarrow> n y ys)"
  by (cases x) auto

lemma within_err [frame_rules]:
  "(\<And>x. inside R (a x)) \<Longrightarrow> (\<And>x. inside R (b x)) \<Longrightarrow> (\<And>x. inside R (c x)) \<Longrightarrow> inside R d \<Longrightarrow> inside R g
   \<Longrightarrow> inside R (case e of Refuse x \<Rightarrow> a x | Internal x \<Rightarrow> b x | NotFound x \<Rightarrow> c x | SqlCheck \<Rightarrow> d | SqlUnique \<Rightarrow> g)"
  by (cases e) auto

lemma within_for [frame_rules]: "(\<And>x. inside R (f x)) \<Longrightarrow> inside R (forM xs f)"
  by (induction xs) (auto intro: within_pure within_then)

lemma within_fold [frame_rules]: "(\<And>b x. inside R (f b x)) \<Longrightarrow> inside R (foldM f b xs)"
  by (induction xs arbitrary: b) (auto intro: within_pure within_bind)

end

section \<open>Relations blind to the tables of a spend\<close>

lemmas line_kinds = entry0_def op_entry_def mint_kind_def

locale spend_frame = step_rel R for R :: "led \<Rightarrow> led \<Rightarrow> bool" +
  assumes R_days: "R s (s\<lparr>days := ds\<rparr>)" and R_pools: "R s (s\<lparr>pools := ps\<rparr>)"
    and R_claims: "R s (s\<lparr>claims := cs\<rparr>)" and R_client: "R s (s\<lparr>client_spend := xs\<rparr>)"
    and R_usage: "R s (s\<lparr>usage := us\<rparr>)" and R_lots: "R s (s\<lparr>lots := ls\<rparr>)"
    and R_appended: "R s (s\<lparr>lots := ls, lots_seq := n\<rparr>)"
    and R_breakers: "R s (s\<lparr>breakers := bs, breakers_seq := n\<rparr>)" and R_lop: "R s (s\<lparr>lop := p\<rparr>)"
    and R_refusals: "R s (s\<lparr>refusals := rs\<rparr>)" and R_line: "je_Kind e \<noteq> k_spend \<Longrightarrow> R s (snd (journal e s))"
begin

lemma frame_journal [frame_rules]: "je_Kind e \<noteq> k_spend \<Longrightarrow> inside R (journal e)"
  by (simp add: inside_def R_line)

lemma frame_statements [frame_rules]:
  "inside R (updateLots P g)" "inside R (appendLot x)" "inside R (modifyOp h)" "inside R (liftS r)"
  by (auto simp: inside_def updateLots_def appendLot_def modifyOp_def modifyM_def liftS_def throw_def ret_def Let_def
    R_lots R_appended R_lop R_refl split: sum.splits)

lemma frame_unique: "(\<And>s. R s (f s)) \<Longrightarrow> inside R (unique_insert dup f)"
  unfolding unique_insert_def by (intro frame_rules within_modify)

lemma frame_wiring [frame_rules]:
  "inside R (params cf now)" "inside R (resource p r)" "inside R (levers cf now)" "inside R (classify cf sb now)"
  unfolding params_def resource_def levers_def classify_def by (intro frame_rules)+

lemma frame_days [frame_rules]:
  "inside R (loadDay r day)" "inside R (previousDay r day)" "inside R (insertPool d row q)" "inside R (saveDay d orig)"
  unfolding loadDay_def previousDay_def insertPool_def saveDay_def
  by (intro frame_rules frame_unique within_modify R_days R_pools)+

lemma frame_insertDay [frame_rules]: "inside R (insertDay d)"
  unfolding insertDay_def by (intro frame_rules frame_unique R_days)

lemma frame_open [frame_rules]: "inside R (open_op cf r now)"
  unfolding open_op_def open_day_def start_op_def by (intro frame_rules) (simp add: line_kinds)

lemma frame_save [frame_rules]: "inside R save"
  unfolding save_def by (intro frame_rules)

lemma frame_lots [frame_rules]:
  "inside R (liveLots account r now)" "inside R (insertLot r x now)" "inside R (takeFrom i tk released lost)" "inside R (holdOf i n)"
  "inside R (addUsage r day subject a b c)" "inside R (loadUsage r day subject)"
  unfolding liveLots_def insertLot_def takeFrom_def holdOf_def addUsage_def loadUsage_def
  by (intro frame_rules within_modify R_usage)+

lemma frame_creditLot [frame_rules]: "inside R (creditLot r x now)"
  unfolding creditLot_def by (intro frame_rules)

lemma frame_journal_nz [frame_rules]: "je_Kind e \<noteq> k_spend \<Longrightarrow> inside R (journal_nz e)"
  unfolding journal_nz_def by (intro frame_rules)

lemma frame_expire [frame_rules]: "inside R (expireLot r account i b amount version now)"
  unfolding expireLot_def by (intro frame_rules) (simp add: line_kinds)

lemma frame_sweepOwn [frame_rules]: "inside R (sweepOwn account)"
  unfolding sweepOwn_def by (intro frame_rules)

lemma frame_breakers [frame_rules]: "inside R (tripBreaker p account reason key now)" "inside R (transferBreaker account now)"
  unfolding tripBreaker_def transferBreaker_def by (intro frame_rules within_modify R_breakers)+

lemma frame_claim [frame_rules]: "inside R (claim cf sb)"
  unfolding claim_def loadClaim_def loadRootDay_def share_def legacyShare_def new_claim_def record_claim_def insertClaim_def
    dormantCheck_def
  by (intro frame_rules frame_unique within_modify R_claims) (simp add: line_kinds)

lemma frame_plan [frame_rules]: "inside R (planSpend ls units ok)" "inside R (clientSpend sb c units)"
  unfolding planSpend_def clientSpend_def by (intro frame_rules within_modify R_client)+

lemma frame_finish [frame_rules]: "inside R m \<Longrightarrow> (\<And>res. inside R (k res)) \<Longrightarrow> inside R (finish m k)"
  unfolding finish_def by (intro frame_rules)

lemma frame_check [frame_rules]:
  "inside R (loadSpendLimit credential)" "inside R (credentialSpent credential day)" "inside R (credentialCheck sb units)"
  "inside R (holdShares i)" "inside R (holdCredential i)"
  unfolding loadSpendLimit_def credentialSpent_def credentialCheck_def holdShares_def holdCredential_def by (intro frame_rules)+

lemma frame_refusals [frame_rules]: "inside R (noteRefusal day r e)" "inside R TakeRefusals" "inside R (PutBackRefusals xs)"
  unfolding noteRefusal_def TakeRefusals_def PutBackRefusals_def by (intro frame_rules within_modify R_refusals)+

lemma frame_mint [frame_rules]: "inside R (mint cf account r b units reason ref force hold_id now)"
  unfolding mint_def mint_body_def mint_credit_def by (intro frame_rules) (simp add: line_kinds split: Bucket.splits)

lemma frame_reads [frame_rules]:
  "inside R (loadHoldRow i)" "inside R (loadHold i)" "inside R (loadHoldParts i)" "inside R (HoldSpent i)" "inside R (loadTransfer i)"
  "inside R (transferHold i)" "inside R (heldParts hp)" "inside R (loadEscrow cf i)"
  unfolding loadHoldRow_def loadHold_def loadHoldParts_def HoldSpent_def loadTransfer_def transferHold_def heldParts_def loadEscrow_def
  by (intro frame_rules)+

lemma frame_moves [frame_rules]:
  "inside R (moveParts r version from to i parts was_held opn now)" "inside R (spike p account day now)" "inside R (pendingLimit q account)"
  "(\<And>q. je_Kind (line q) \<noteq> k_spend) \<Longrightarrow> inside R (unhold_part line hp)" "inside R (settle_part h detail version now z hp)" "inside R (undrawDay r day bk)"
  unfolding moveParts_def move_part_def spike_def pendingLimit_def unhold_part_def settle_part_def undrawDay_def
  by (intro frame_rules; simp add: line_kinds)+

lemma frame_decay [frame_rules]: "inside R (decay p r x version today now)"
  unfolding decay_def by (intro frame_rules) (simp_all add: line_kinds)

end

section \<open>Relations blind to the limit tables too\<close>

locale limit_frame = spend_frame +
  assumes R_limit_usage: "R s (s\<lparr>limit_usage := lu\<rparr>)" and R_limit_holds: "R s (s\<lparr>limit_holds := lh\<rparr>)"
    and R_shares: "R s (s\<lparr>limit_hold_shares := hs\<rparr>)"
begin

lemma frame_limits [frame_rules]:
  "inside R (addLimitUsage credential day units)" "inside R (giveBack credential day units)" "inside R (release_share i units sh)"
  "inside R (join_add dst own cred day n)"
  unfolding addLimitUsage_def giveBack_def release_share_def join_add_def
  by (intro frame_rules within_modify R_limit_usage R_shares)+

lemma frame_credential [frame_rules]:
  "inside R (credentialRecord sb units i)" "inside R (credentialRelease i units)" "inside R (credentialJoin src dst units)"
  unfolding credentialRecord_def credentialRelease_def credentialJoin_def
  by (intro frame_rules within_modify R_limit_holds R_shares)+

lemma frame_copy [frame_rules]: "inside R (copyCredential src i)"
  unfolding copyCredential_def by (rule within_modify) (simp add: R_refl R_limit_holds split: option.splits)

end

section \<open>Relations blind to spend lines too\<close>

locale debit_frame = limit_frame +
  assumes R_journal: "R s (snd (journal e s))"
begin

lemma frame_any_line: "inside R (journal e)"
  by (simp add: inside_def R_journal)

lemma frame_debit [frame_rules]: "inside R (debit sb c units k ref)"
  unfolding debit_def debit_write_def debit_part_def by (rule frame_any_line frame_rules)+

end

section \<open>Relations blind to hold parts too\<close>

locale parts_frame = debit_frame +
  assumes R_parts: "R s (s\<lparr>hold_parts := ps\<rparr>)"
begin

lemma frame_insertPart [frame_rules]: "inside R (insertPart q)"
  unfolding insertPart_def by (intro frame_rules frame_unique R_parts)

lemma frame_holdParts [frame_rules]: "inside R (holdParts p account i parts ref)"
  unfolding holdParts_def hold_part_def by (rule frame_any_line frame_rules)+

end

section \<open>Relations blind to every table but the journal\<close>

locale ledger_frame = parts_frame +
  assumes R_holds: "R s (s\<lparr>holds := hs\<rparr>)"
    and R_transfers: "R s (s\<lparr>transfers := ts\<rparr>)" and R_spend_limits: "R s (s\<lparr>spend_limits := sl\<rparr>)"
begin

lemma frame_inserts [frame_rules]:
  "inside R (insertHold h)" "inside R (insertTransfer t)" "inside R (updateHold i f)" "inside R (updateTransfer i g)"
  unfolding insertHold_def insertTransfer_def updateHold_def updateTransfer_def
  by (intro frame_rules frame_unique within_modify R_holds R_transfers)+

lemma frame_spends [frame_rules]: "inside R (Spend cf sb r units ref now)" "inside R (Reserve cf sb r mx key ref ttl now)"
  unfolding Spend_def Reserve_def hold_def hold_write_def by (intro frame_rules)+

lemma frame_settle [frame_rules]: "inside R (settle cf i us final detail now)" "inside R (Reimburse cf i reason now)"
  unfolding settle_def settle_write_def Reimburse_def by (intro frame_rules within_modify R_days)+

lemma frame_transfers [frame_rules]:
  "inside R (Transfer_units cf from to r amount key now)" "inside R (release cf t state actor now)" "inside R (execute cf t now)"
  unfolding Transfer_units_def transfer_def transfer_write_def release_def execute_def by (intro frame_rules; simp add: line_kinds)+

lemma frame_escrow [frame_rules]:
  "inside R (Escrow_units cf from r amount key until now)" "inside R (EscrowPay cf i to now)" "inside R (EscrowRelease cf i reason now)"
  unfolding Escrow_units_def escrow_def EscrowPay_def escrowPay_def EscrowRelease_def by (intro frame_rules; simp add: line_kinds)+

lemma frame_moveEscrow [frame_rules]: "inside R (moveEscrow cf src dst amount now)"
  unfolding moveEscrow_def move_escrow_part_def delete_part_def reduce_part_def add_part_def
  by (rule frame_any_line frame_rules within_modify R_parts)+

lemma frame_split_join [frame_rules]: "inside R (EscrowSplit cf i amount key until now)" "inside R (EscrowJoin cf i into now)"
  unfolding EscrowSplit_def split_write_def EscrowJoin_def by (intro frame_rules)+

lemma frame_executeDue [frame_rules]: "inside R (executeDue cf i now)"
proof -
  have "inside R (\<lambda>s. case execute cf t now s of (Inr _, s') \<Rightarrow> (Inr (), s')
      | (Inl e, _) \<Rightarrow> (case e of Refuse x \<Rightarrow> release cf t t_cancelled (''ledger:'' @ e_Code x) now s | _ \<Rightarrow> (Inl e, s)))" for t
    using frame_transfers(2,3) unfolding inside_def
    by (auto simp: R_refl split: prod.splits sum.splits lerr.splits) (metis snd_conv)
  then show ?thesis unfolding executeDue_def by (intro frame_rules)
qed

lemma frame_sweep [frame_rules]: "inside R (Sweep cf now limit)"
  unfolding Sweep_def count_each_def settle_due_def by (intro frame_rules)

lemma frame_simple [frame_rules]:
  "inside R (MintRef cf account r b units reason ref now)" "inside R (TopUp cf account r units reason ref now)"
  "inside R (Commit cf i us now)" "inside R (Refund cf i reason now)" "inside R (CancelTransfer cf i actor now)"
  "inside R (SetSpendLimit l now)" "inside R (TripBreaker cf account reason key now)" "inside R (RecordShadow cf account r amount opn detail now)"
  unfolding MintRef_def TopUp_def Commit_def Refund_def CancelTransfer_def SetSpendLimit_def TripBreaker_def RecordShadow_def
  by (intro frame_rules within_modify R_spend_limits; simp add: line_kinds)+

lemma frame_call: "inside R (run_call cf c)"
  by (cases c; simp only: run_call.simps skipM_def; intro frame_rules)

end

section \<open>Instances\<close>

lemma frame_wp:
  assumes "inside R m" "\<And>a s'. R s s' \<Longrightarrow> Q a s'" "\<And>e s'. R s s' \<Longrightarrow> E e s'" shows "wp m Q E s"
  using within_wp [OF assms(1), of s] by (rule wp_conseq) (auto intro: assms(2,3))

abbreviation keeps :: "(led \<Rightarrow> 'v) \<Rightarrow> led \<Rightarrow> led \<Rightarrow> bool" where
  "keeps f \<equiv> \<lambda>s s'. f s' = f s"

interpretation keep_holds: parts_frame "keeps holds"
  by unfold_locales (simp_all add: journal_def modifyM_def)

interpretation keep_transfers: parts_frame "keeps transfers"
  by unfold_locales (simp_all add: journal_def modifyM_def)

interpretation keep_limits: spend_frame "keeps (\<lambda>s. (spend_limits s, limit_usage s))"
  by unfold_locales (simp_all add: journal_def modifyM_def)

text \<open>The units of spend lines.\<close>

definition spent_units :: "entry list \<Rightarrow> int" where
  "spent_units es = (\<Sum>e\<leftarrow>es. if je_Kind e = k_spend then je_Amount e else 0)"

interpretation keep_spent: limit_frame "keeps (\<lambda>s. spent_units (entries s))"
  by unfold_locales (simp_all add: journal_def modifyM_def spent_units_def)

text \<open>The journal only grows, and its lines are numbered without a gap.\<close>

definition journal_extends :: "led \<Rightarrow> led \<Rightarrow> bool" where
  "journal_extends s s' \<longleftrightarrow> (\<exists>es. entries s' = entries s @ es)"

definition numbered :: "led \<Rightarrow> bool" where
  "numbered s \<longleftrightarrow> entries_seq s = int (length (entries s)) \<and> map je_Seq (entries s) = map int [1..<length (entries s) + 1]"

interpretation journal_grows: ledger_frame journal_extends
  by unfold_locales (auto simp: journal_extends_def journal_def modifyM_def)

interpretation journal_numbers: ledger_frame "\<lambda>s s'. numbered s \<longrightarrow> numbered s'"
  by unfold_locales (auto simp: numbered_def journal_def modifyM_def)

end
