(* ===== verification/Retries.thy ===== *)
theory Retries
  imports Frames
begin

text \<open>
  Retried requests: what a successful call leaves under its request key, so that the same call again
  finds it and changes nothing.
\<close>

named_theorems end_rules \<open>programs whose success leaves a condition true\<close>

section \<open>What a success leaves true\<close>

definition ends :: "('a \<Rightarrow> 's \<Rightarrow> bool) \<Rightarrow> ('s, 'e, 'a) M \<Rightarrow> bool" where
  "ends Q m \<longleftrightarrow> (\<forall>s a s'. m s = (Inr a, s') \<longrightarrow> Q a s')"

abbreviation stable :: "('s \<Rightarrow> bool) \<Rightarrow> ('s, 'e, 'a) M \<Rightarrow> bool" where
  "stable P \<equiv> inside (\<lambda>s s'. P s \<longrightarrow> P s')"

lemma endsD: "ends Q m \<Longrightarrow> m s = (Inr a, s') \<Longrightarrow> Q a s'"
  by (simp add: ends_def)

lemma ends_throw [end_rules]: "ends Q (throw e)"
  by (simp add: ends_def throw_def)

lemma ends_ret: "(\<And>s. Q a s) \<Longrightarrow> ends Q (ret a)"
  by (simp add: ends_def ret_def)

lemma ends_bind [end_rules]: "(\<And>a. ends Q (f a)) \<Longrightarrow> ends Q (bindM m f)"
  by (auto simp: ends_def bindM_def split: prod.splits sum.splits)

lemma ends_then [end_rules]: "ends Q n \<Longrightarrow> ends Q (thenM m n)"
  unfolding thenM_def by (rule ends_bind)

lemma ends_bind_left:
  assumes "ends (\<lambda>_. P) m" "\<And>a. stable P (f a)" shows "ends (\<lambda>_. P) (bindM m f)"
  using assms unfolding ends_def inside_def bindM_def by (auto split: prod.splits sum.splits) (metis snd_conv)

lemma ends_then_left: "ends (\<lambda>_. P) m \<Longrightarrow> stable P n \<Longrightarrow> ends (\<lambda>_. P) (thenM m n)"
  unfolding thenM_def by (rule ends_bind_left)

lemma ends_value: "ends (\<lambda>a _. a = v) m \<Longrightarrow> ends (\<lambda>_. Q v) m \<Longrightarrow> ends Q m"
  unfolding ends_def by metis

lemma ends_if [end_rules]: "ends Q m \<Longrightarrow> ends Q n \<Longrightarrow> ends Q (if b then m else n)"
  by simp

lemma ends_let [end_rules]: "ends Q (f x) \<Longrightarrow> ends Q (Let x f)"
  by simp

lemma ends_option [end_rules]: "ends Q m \<Longrightarrow> (\<And>a. ends Q (n a)) \<Longrightarrow> ends Q (case x of None \<Rightarrow> m | Some a \<Rightarrow> n a)"
  by (cases x) auto

lemma ends_sum [end_rules]: "(\<And>a. ends Q (m a)) \<Longrightarrow> (\<And>b. ends Q (n b)) \<Longrightarrow> ends Q (case x of Inl a \<Rightarrow> m a | Inr b \<Rightarrow> n b)"
  by (cases x) auto

lemma ends_Inl: "ends Q (m a) \<Longrightarrow> ends Q (case Inl a of Inl a \<Rightarrow> m a | Inr b \<Rightarrow> n b)"
  by simp

lemma ends_prod [end_rules]: "(\<And>a b. ends Q (m a b)) \<Longrightarrow> ends Q (case x of (a, b) \<Rightarrow> m a b)"
  by (cases x) auto

lemma ends_finish:
  assumes "ends (\<lambda>_. P) m" "stable P save" "\<And>a. stable P (k (Inr a))" "\<And>e. ends (\<lambda>_. P) (k (Inl e))"
  shows "ends (\<lambda>_. P) (finish m k)"
  unfolding ends_def
proof (intro allI impI)
  fix s a s' assume run: "finish m k s = (Inr a, s')"
  obtain res s1 where m: "m s = (res, s1)" by fastforce
  show "P s'"
  proof (cases res)
    case (Inl e)
    then have "thenM save (k (Inl e)) s1 = (Inr a, s')"
      using run m by (auto simp: finish_def bindM_def tryM_def throw_def split: if_splits)
    then show ?thesis using ends_then [OF assms(4)] by (rule endsD [rotated])
  next
    case (Inr b)
    then have r: "thenM save (k (Inr b)) s1 = (Inr a, s')" and "P s1"
      using run m assms(1) by (auto simp: finish_def bindM_def tryM_def ends_def)
    then obtain c s2 where "save s1 = (Inr c, s2)" "k (Inr b) s2 = (Inr a, s')"
      by (auto simp: thenM_def bindM_def split: prod.splits sum.splits)
    with \<open>P s1\<close> show ?thesis using within_run [OF assms(2)] within_run [OF assms(3)] by blast
  qed
qed

lemma ends_finish_value:
  assumes "ends Q m" "\<And>a. stable (Q a) save" shows "ends Q (finish m liftE)"
  unfolding ends_def
proof (intro allI impI)
  fix s a s' assume run: "finish m liftE s = (Inr a, s')"
  then obtain s1 c where "m s = (Inr a, s1)" "save s1 = (Inr c, s')"
    by (auto simp: finish_def bindM_def thenM_def tryM_def throw_def liftE_def split: prod.splits sum.splits if_splits)
  then show "Q a s'" using endsD [OF assms(1)] within_run [OF assms(2)] by blast
qed

lemma wp_finish_any:
  assumes "wp m Q' (\<lambda>_ _. True) s"
    and "\<And>a s'. Q' a s' \<Longrightarrow> wp (thenM save (k (Inr a))) Q (\<lambda>_ _. True) s'"
    and "\<And>e s'. wp (k (Inl e)) Q (\<lambda>_ _. True) s'"
  shows "wp (finish m k) Q (\<lambda>_ _. True) s"
proof -
  have "wp (thenM save (k (Inl e))) Q (\<lambda>_ _. True) s'" for e s'
    unfolding wp_thenM by (rule wp_conseq [OF wp_True]) (use assms(3) in auto)
  then show ?thesis
    unfolding finish_def wp_bindM wp_tryM by (intro wp_conseq [OF assms(1)]) (use assms(2) in \<open>auto simp: wp_throw\<close>)
qed

section \<open>Rows that were added\<close>

definition added_hold :: "string \<Rightarrow> (holdRow \<Rightarrow> bool) \<Rightarrow> led \<Rightarrow> bool" where
  "added_hold i P s \<longleftrightarrow> (\<exists>h. hold_at s i = Some h \<and> P h)"

definition added_transfer :: "string \<Rightarrow> (transferRow \<Rightarrow> bool) \<Rightarrow> led \<Rightarrow> bool" where
  "added_transfer i P s \<longleftrightarrow> (\<exists>t. transfer_at s i = Some t \<and> P t)"

lemma insert_added_hold:
  "insertHold h s = (Inr a, s') \<Longrightarrow> P h \<Longrightarrow> added_hold (h_ID h) P s'"
  by (auto simp: insertHold_def bindM_def gets_def unique_insert_def throw_def modifyM_def added_hold_def hold_at_def find_append
    list_ex_iff split: option.splits if_splits dest!: find_SomeD)

lemma insert_added_transfer:
  "insertTransfer t s = (Inr a, s') \<Longrightarrow> P t \<Longrightarrow> added_transfer (t_ID t) P s'"
  by (auto simp: insertTransfer_def bindM_def gets_def unique_insert_def throw_def modifyM_def added_transfer_def transfer_at_def find_append
    list_ex_iff split: option.splits if_splits dest!: find_SomeD)

interpretation added_hold_stays: parts_frame "\<lambda>s s'. added_hold i P s \<longrightarrow> added_hold i P s'" for i P
  by unfold_locales (auto simp: added_hold_def hold_at_def journal_def modifyM_def)

interpretation added_transfer_stays: parts_frame "\<lambda>s s'. added_transfer i P s \<longrightarrow> added_transfer i P s'" for i P
  by unfold_locales (auto simp: added_transfer_def transfer_at_def journal_def modifyM_def)

section \<open>Reserve\<close>

lemma insertHold_ends: "P h \<Longrightarrow> h_ID h = i \<Longrightarrow> ends (\<lambda>_. added_hold i P) (insertHold h)"
  using insert_added_hold by (fastforce simp: ends_def)

lemma insertTransfer_ends: "P t \<Longrightarrow> t_ID t = i \<Longrightarrow> ends (\<lambda>_. added_transfer i P) (insertTransfer t)"
  using insert_added_transfer by (fastforce simp: ends_def)

lemma hold_ends:
  assumes "hd_ID h = i" "\<And>p key service method. P (hold_row h p key service method)"
  shows "ends (\<lambda>_. added_hold i P) (hold sb c h key ref)"
  unfolding hold_def hold_write_def
  by (rule ends_then_left [OF insertHold_ends] end_rules frame_rules assms | (simp add: assms hold_row_def; fail))+

lemma Reserve_ends:
  "ends (\<lambda>_. added_hold (holdID cf (s_ID sb) key) (\<lambda>h. h_State h = h_held \<and> h_ExpiresAt h = now + ttl)) (Reserve cf sb r mx key ref ttl now)"
  unfolding Reserve_def
  by (rule ends_finish [OF hold_ends] ends_Inl end_rules frame_rules | (simp add: hold_row_def; fail))+

section \<open>Transfers\<close>

definition row_of :: "Transfer \<Rightarrow> transferRow \<Rightarrow> bool" where
  "row_of t x \<longleftrightarrow> t_ID x = tr_ID t \<and> t_From x = tr_From t \<and> t_To x = tr_To t \<and> t_Amount x = tr_Amount t \<and> t_State x = tr_State t"

abbreviation stored :: "string \<Rightarrow> Transfer \<Rightarrow> led \<Rightarrow> bool" where
  "stored i t \<equiv> added_transfer i (row_of t)"

lemma transfer_write_ends: "ends (stored i) (transfer_write cf p from to amount i key parts pend)"
  unfolding transfer_write_def Let_def
  by (rule ends_value, ((rule end_rules ends_ret refl)+)[1])
    (rule ends_then_left [OF insertTransfer_ends] end_rules frame_rules | (simp add: row_of_def; fail))+

lemma transfer_ends: "ends (stored i) (transfer cf from to amount i key)"
  unfolding transfer_def by (rule transfer_write_ends end_rules)+

lemma escrowPay_ends: "ends (stored i) (escrowPay h to i)"
  unfolding escrowPay_def Let_def
  by ((rule ends_bind ends_prod ends_if ends_throw)+, rule ends_value, ((rule end_rules ends_ret refl)+)[1])
    (rule ends_then_left [OF insertTransfer_ends] end_rules frame_rules | (simp add: row_of_def; fail))+

end
