(* ===== verification/Ledger_Props.thy ===== *)
theory Ledger_Props
  imports Retries Scenario
begin

text \<open>
  What holds of the ledger after any sequence of calls: conservation of units, covered holds, backed
  transfers, well-formed days, an append-only gapless journal; each with an instance on the run of
  \<open>Scenario\<close>.
\<close>

section \<open>Conservation\<close>

text \<open>
  C1: in every reachable state each lot is balanced. Its remaining units lie between its held units
  and what was issued; the journal's credits on the lot add up to what was issued, its debits to what
  is gone; and its held units are exactly the parts that open holds have on it.
\<close>

theorem lots_balanced:
  assumes "reachable digest s" "x \<in> set (lots s)"
  shows "0 \<le> l_Held x \<and> l_Held x \<le> l_Remaining x \<and> l_Remaining x \<le> l_Initial x
    \<and> credits (l_ID x) (entries s) = l_Initial x
    \<and> debits (l_ID x) (entries s) = l_Initial x - l_Remaining x
    \<and> l_Held x = heldsum (holds s) (hold_parts s) (l_ID x)"
  using reachable_linv [OF assms(1)] assms(2)
  by (auto simp: linv_def lots_ok_def lot_bal_def lot_ok_def lot_check_def)

theorem lots_balanced_witness:
  "\<exists>s x. reachable id s \<and> x \<in> set (lots s) \<and> l_Remaining x = 940 \<and> debits (l_ID x) (entries s) = 60 \<and> credits (l_ID x) (entries s) = 1000"
proof -
  let ?s = "demo_committed demo_op" and ?x = "(demo_lot 0)\<lparr>l_Remaining := 940\<rparr>"
  have x: "?x \<in> set (lots ?s)" by (simp add: demo_committed_def)
  from lots_balanced [OF reachable_committed x] have "credits 1 (entries ?s) = 1000" "debits 1 (entries ?s) = 60"
    by (simp_all add: demo_lot_def)
  then show ?thesis
    by (intro exI [of _ ?s] exI [of _ ?x]) (use x in \<open>simp add: reachable_committed demo_lot_def\<close>)
qed

text \<open>
  C2: no call of the ledger, made in a reachable state, ever runs a statement that violates a
  \<open>CHECK\<close> of the schema (a negative balance, more held than remains).
\<close>

theorem no_check_violated:
  assumes "reachable (cf_sha256 cf) s" shows "fst (run_call cf c s) \<noteq> Inl SqlCheck"
proof -
  have "wp (run_with (cf, c)) (\<lambda>_ _. True) safeE s"
    by (rule wp_conseq [OF ledger_sys.keeps [OF reachable_linv [OF assms]]]) simp_all
  then show ?thesis by (auto simp: run_with_def wp_def safe_def split: prod.splits sum.splits)
qed

theorem no_check_violated_witness:
  "reachable (cf_sha256 demo_cf) (demo_reserved demo_op) \<and> fst (run_call demo_cf (cSpend demo_subject Credit 900 Ref0 1000) (demo_reserved demo_op)) \<noteq> Inl SqlCheck"
  using no_check_violated [of demo_cf "demo_reserved demo_op" "cSpend demo_subject Credit 900 Ref0 1000"] reachable_reserved
  by (simp add: demo_cf_sel)

text \<open>
  C3: in every reachable state a hold is covered: its parts add up to its maximum, it has used at most
  that, an open hold has used nothing yet, and every part is units of a lot of the hold's own account and resource.
\<close>

theorem holds_covered:
  assumes "reachable digest s" "h \<in> set (holds s)"
  shows "partsum (hold_parts s) (h_ID h) = h_Max h \<and> 0 \<le> h_Used h \<and> h_Used h \<le> h_Max h
    \<and> (h_State h = h_held \<longrightarrow> h_Used h = 0)
    \<and> (\<forall>p\<in>set (hold_parts s). hp_Hold p = h_ID h \<longrightarrow> 0 < hp_Units p
        \<and> (\<exists>x\<in>set (lots s). l_ID x = hp_Lot p \<and> l_Account x = h_Account h \<and> l_Resource x = h_Resource h))"
proof -
  have ok: "holds_ok {} (lots s) (holds s) (hold_parts s)" using reachable_linv [OF assms(1)] by (simp add: linv_def)
  have "\<exists>x\<in>set (lots s). l_ID x = hp_Lot p \<and> l_Account x = h_Account h \<and> l_Resource x = h_Resource h"
    if "p \<in> set (hold_parts s)" "hp_Hold p = h_ID h" for p
    using ok that assms(2) hold_table.row_eq unfolding holds_ok_def part_ok_def by metis
  then show ?thesis using ok assms(2) by (auto simp: holds_ok_def hold_ok_def part_ok_def)
qed

theorem holds_covered_witness:
  "reachable id (demo_reserved demo_op) \<and> demo_hold_row h_held 0 \<in> set (holds (demo_reserved demo_op))
   \<and> partsum (hold_parts (demo_reserved demo_op)) demo_hold = 100"
  using holds_covered [OF reachable_reserved [of demo_op], of "demo_hold_row h_held 0"] reachable_reserved
  by (simp add: demo_reserved_def demo_hold_row_def)

text \<open>
  C23: in every reachable state a pending transfer has a hold of its own on the sender's units of its
  resource, which no other pending transfer shares. The hold of a transfer is open and its parts add up to
  the amount of the transfer. The hold of a payment out of an escrow is the escrow, which other operations
  may change while the payment is pending: its parts add up to its maximum while it is open, and if it has
  been joined into another it has no part left, so that the payment has nothing behind it.
\<close>

theorem pending_backed:
  assumes "reachable digest s" "t \<in> set (transfers s)" "t_State t = t_pending"
  shows "(\<exists>h\<in>set (holds s). h_ID h = t_HoldID t \<and> h_Service h = ledgerService \<and> h_Account h = t_From t \<and> h_Resource h = t_Resource t
      \<and> (if h_Method h = escrowMethod
         then h_State h = h_held \<and> partsum (hold_parts s) (h_ID h) = h_Max h \<or> h_State h \<noteq> h_held \<and> (\<forall>p\<in>set (hold_parts s). hp_Hold p \<noteq> h_ID h)
         else h_State h = h_held \<and> partsum (hold_parts s) (h_ID h) = t_Amount t))
    \<and> (\<forall>u\<in>set (transfers s). t_State u = t_pending \<and> t_HoldID u = t_HoldID t \<longrightarrow> u = t)"
proof
  have inv: "linv (digest_config digest) s" by (rule reachable_linv [OF assms(1)])
  then have "pend_ok (digest_config digest) (holds s) (hold_parts s) t" using assms(2,3) by (simp add: linv_def transfers_ok_def)
  then obtain h where h: "h \<in> set (holds s)" "h_ID h = t_HoldID t" "h_Service h = ledgerService" "h_Account h = t_From t" "h_Resource h = t_Resource t"
    "h_State h = h_held \<or> (\<forall>p\<in>set (hold_parts s). hp_Hold p \<noteq> h_ID h)" "h_Method h \<noteq> escrowMethod \<longrightarrow> h_State h = h_held \<and> h_Max h = t_Amount t"
    unfolding pend_ok_def by blast
  moreover from inv h(1) have "partsum (hold_parts s) (h_ID h) = h_Max h" by (simp add: linv_def holds_ok_def hold_ok_def)
  ultimately show "\<exists>h\<in>set (holds s). h_ID h = t_HoldID t \<and> h_Service h = ledgerService \<and> h_Account h = t_From t \<and> h_Resource h = t_Resource t
      \<and> (if h_Method h = escrowMethod
         then h_State h = h_held \<and> partsum (hold_parts s) (h_ID h) = h_Max h \<or> h_State h \<noteq> h_held \<and> (\<forall>p\<in>set (hold_parts s). hp_Hold p \<noteq> h_ID h)
         else h_State h = h_held \<and> partsum (hold_parts s) (h_ID h) = t_Amount t)"
    by (intro bexI [of _ h]) auto
  show "\<forall>u\<in>set (transfers s). t_State u = t_pending \<and> t_HoldID u = t_HoldID t \<longrightarrow> u = t"
    using inv assms(2,3) unfolding linv_def transfers_ok_def by blast
qed

theorem pending_backed_witness:
  "reachable id (demo_pending demo_op) \<and> demo_pending_row \<in> set (transfers (demo_pending demo_op))
   \<and> (\<exists>h\<in>set (holds (demo_pending demo_op)). h_ID h = t_HoldID demo_pending_row \<and> h_Account h = ''a'')
   \<and> partsum (hold_parts (demo_pending demo_op)) (t_HoldID demo_pending_row) = 200"
proof -
  have t: "demo_pending_row \<in> set (transfers (demo_pending demo_op))" "t_State demo_pending_row = t_pending" "t_From demo_pending_row = ''a''"
    by (simp_all add: demo_pending_def demo_pending_row_def)
  have a: "t_Amount demo_pending_row = 200" by (simp add: demo_pending_row_def)
  have "h_Method h \<noteq> escrowMethod" if "h \<in> set (holds (demo_pending demo_op))" for h
    using that by (simp add: demo_pending_def demo_holding_def escrowMethod_def)
  with pending_backed [OF reachable_pending t(1,2)] t a show ?thesis by (auto simp: reachable_pending)
qed

text \<open>
  C25: paid units keep: in every reachable state a paid lot has no expiry and no half-life, so at no
  time does it fall due for expiry or for decay.
\<close>

theorem paid_forever:
  assumes "reachable digest s" "x \<in> set (lots s)" "l_Bucket x = Paid"
  shows "\<not> due_lot now x \<and> l_HalfLife x = 0 \<and> l_ExpiresAt x = 0"
  using reachable_linv [OF assms(1)] assms(2,3)
  by (auto simp: linv_def lots_ok_def lot_bal_def lot_ok_def due_lot_def spendable_def)

theorem paid_forever_witness:
  "reachable id (demo_reserved demo_op) \<and> demo_lot 100 \<in> set (lots (demo_reserved demo_op)) \<and> \<not> due_lot 9000000000 (demo_lot 100)"
proof -
  have x: "demo_lot 100 \<in> set (lots (demo_reserved demo_op))" "l_Bucket (demo_lot 100) = Paid"
    by (simp_all add: demo_reserved_def demo_lot_def)
  from paid_forever [OF reachable_reserved x, of 9000000000] x show ?thesis by (simp add: reachable_reserved)
qed

section \<open>Days\<close>

text \<open>
  C24: in every reachable state every day can be read, and the day read is well formed: no slice gave
  more than it has, and what one slice borrowed the other lent.
\<close>

theorem days_wellformed:
  assumes "reachable digest s"
  shows "\<exists>d. day_load s r day = Inr d \<and> (\<forall>x. d = Some x \<longrightarrow> slices_ok x)"
proof -
  have d: "days_ok s" using reachable_linv [OF assms] by (simp add: linv_def)
  then have "\<exists>d. day_load s r day = Inr d" using day_load_error [of s r day] by (cases "day_load s r day") (auto simp: days_ok_def)
  then show ?thesis using d by (auto simp: days_ok_def)
qed

theorem days_wellformed_witness:
  "reachable id (demo_committed demo_op) \<and> (\<exists>d. day_load (demo_committed demo_op) Credit 0 = Inr d)"
  using days_wellformed [OF reachable_committed [of demo_op], of Credit 0] reachable_committed by auto

section \<open>The journal\<close>

text \<open>
  C26: the journal is append-only: whatever a call does, and whether or not it is rolled back, the lines
  before it are still there, unchanged and in the same order.
\<close>

theorem journal_append_only: "\<exists>es. entries (snd (transact rollback (run_call cf c) s)) = entries s @ es"
proof -
  have "journal_extends s (snd (run_call cf c s))" using journal_grows.frame_call [of cf c] by (simp add: inside_def)
  then show ?thesis
    by (auto simp: transact_def rollback_def journal_extends_def split: prod.splits sum.splits)
qed

text \<open>in every reachable state the journal's sequence numbers are 1, 2, 3, ... without a gap.\<close>

theorem journal_gapless:
  assumes "reachable digest s" shows "map je_Seq (entries s) = map int [1..<length (entries s) + 1]"
proof -
  have "numbered s" using assms
  proof (induction rule: reachable.induct)
    case (start p)
    then show ?case by (simp add: numbered_def led0_def)
  next
    case (step s cf c)
    have "numbered s \<longrightarrow> numbered (snd (run_call cf c s))" using journal_numbers.frame_call [of cf c] by (simp add: inside_def)
    with step.IH show ?case by (auto simp: transact_def rollback_def numbered_def split: prod.splits sum.splits)
  qed
  then show ?thesis by (simp add: numbered_def)
qed

end
