(* ===== verification/Spend_Spec.thy ===== *)
theory Spend_Spec
  imports Retries
begin

text \<open>
  What a spend does to the journal: a success writes spend lines for exactly the units asked, and its
  receipt divides them among buckets; a refusal writes none.
\<close>

section \<open>Plans\<close>

lemma plan_lot_taken:
  "ps_got z = taken (ps_parts z) \<and> ps_got z \<le> units
   \<Longrightarrow> ps_got (plan_lot p units ok z x) = taken (ps_parts (plan_lot p units ok z x)) \<and> ps_got (plan_lot p units ok z x) \<le> units"
  by (cases "free_room p (ps_d z) (l_Origin x)") (simp add: plan_lot_def Let_def taken_def min_def)

lemma plan_foldl_taken:
  "ps_got z = taken (ps_parts z) \<and> ps_got z \<le> units
   \<Longrightarrow> ps_got (foldl (plan_lot p units ok) z xs) = taken (ps_parts (foldl (plan_lot p units ok) z xs))
     \<and> ps_got (foldl (plan_lot p units ok) z xs) \<le> units"
proof (induction xs arbitrary: z)
  case (Cons x xs)
  from Cons.IH [OF plan_lot_taken [OF Cons.prems, of p ok x]] show ?case by simp
qed simp

lemma wp_planSpend_taken:
  assumes "0 \<le> units"
    and "\<And>q code. same_op (lop s) q \<Longrightarrow> Q (Inl code) (s\<lparr>lop := q\<rparr>)"
    and "\<And>q parts d. same_op (lop s) q \<Longrightarrow> taken parts = units \<Longrightarrow> Q (Inr (parts, d)) (s\<lparr>lop := q\<rparr>)"
  shows "wp (planSpend xs units ok) Q E s"
proof -
  let ?z = "foldl (plan_lot (lop s) units ok) (plan0 (lop s)) xs"
  have "ps_got ?z = taken (ps_parts ?z) \<and> ps_got ?z \<le> units"
    by (rule plan_foldl_taken) (simp add: plan0_def taken_def assms(1))
  then show ?thesis
    using assms(2,3) by (auto simp: planSpend_def wp_rules modifyOp_def Let_def same_op_def)
qed

section \<open>Debits\<close>

definition spent_so_far :: "int \<Rightarrow> int \<Rightarrow> led \<Rightarrow> bool" where
  "spent_so_far n0 n s \<longleftrightarrow> spent_units (entries s) = n0 + n \<and> (\<exists>f. o_spent (lop s) = Some f \<and> bucket_sum f = n)"

lemma debit_part_spent:
  assumes "spent_so_far n0 n s"
  shows "wp (debit_part p sb k_spend ref q) (\<lambda>_. spent_so_far n0 (n + p_Take q)) (\<lambda>e _. \<not> isRefusal e) s"
  using assms
  by (auto simp: debit_part_def takeFrom_def wp_rules modifyOp_def journal_def spent_so_far_def spent_units_def op_entry_def entry0_def
    isRefusal_def)

lemma debit_loop_spent:
  "spent_so_far n0 n s \<Longrightarrow> wp (forM parts (debit_part p sb k_spend ref)) (\<lambda>_. spent_so_far n0 (n + taken parts)) (\<lambda>e _. \<not> isRefusal e) s"
proof (induction parts arbitrary: n s)
  case Nil
  then show ?case by (simp add: wp_rules taken_def)
next
  case (Cons q qs)
  from Cons.IH [of "n + p_Take q"] have "\<And>s'. spent_so_far n0 (n + p_Take q) s' \<Longrightarrow>
      wp (forM qs (debit_part p sb k_spend ref)) (\<lambda>_. spent_so_far n0 (n + taken (q # qs))) (\<lambda>e _. \<not> isRefusal e) s'"
    by (simp add: taken_def add.assoc)
  with debit_part_spent [OF Cons.prems] show ?case
    unfolding forM.simps wp_thenM by (rule wp_conseq) auto
qed

text \<open>The tables and the receipt's buckets across the writes that are not debits.\<close>

interpretation keep_lop: step_rel "keeps lop"
  by unfold_locales simp_all

lemma saveDay_lop: "inside (keeps lop) (saveDay d orig)"
  unfolding saveDay_def insertPool_def unique_insert_def by (rule frame_rules keep_lop.within_modify | simp)+

lemma insertPools_no_refusal: "wp (forM xs (\<lambda>(row, q). insertPool d row q)) (\<lambda>_ _. True) (\<lambda>e _. \<not> isRefusal e) s"
  by (rule wp_forM [where I = "\<lambda>_ _. True"]) (auto simp: insertPool_def wp_rules isRefusal_def)

lemma saveDay_no_refusal: "wp (saveDay d orig) (\<lambda>_ _. True) (\<lambda>e _. \<not> isRefusal e) s"
  by (cases "d = orig"; cases "d_legacy orig")
    (simp_all add: saveDay_def wp_thenM wp_modifyM wp_ret wp_save_loop insertPools_no_refusal)

lemma save_spent:
  assumes "spent_units (entries s) = n" "o_spent (lop s) = f"
  shows "wp save (\<lambda>_ s'. spent_units (entries s') = n \<and> o_spent (lop s') = f) (\<lambda>e _. \<not> isRefusal e) s"
proof -
  have "wp (saveDay (o_d (lop s)) (o_orig (lop s))) (\<lambda>_ s'. spent_units (entries s') = n \<and> o_spent (lop s') = f) (\<lambda>e _. \<not> isRefusal e) s"
    by (rule wp_conseq [OF wp_conj [OF saveDay_no_refusal wp_conj [OF within_wp [OF keep_spent.frame_days(4)] within_wp [OF saveDay_lop]]]])
      (simp_all add: assms)
  then show ?thesis
    by (auto simp: save_def wp_rules modifyOp_def elim!: wp_conseq)
qed

definition debited_units :: "int \<Rightarrow> int \<Rightarrow> led \<Rightarrow> bool" where
  "debited_units n0 units s \<longleftrightarrow> spent_units (entries s) = n0 + units
     \<and> (0 < units \<longrightarrow> (\<exists>f. o_spent (lop s) = Some f \<and> bucket_sum f = units))"

abbreviation unspent :: "int \<Rightarrow> lerr \<Rightarrow> led \<Rightarrow> bool" where
  "unspent n0 \<equiv> \<lambda>e s. isRefusal e \<longrightarrow> spent_units (entries s) = n0"

lemma frame_unspent:
  assumes "inside (keeps (\<lambda>s. spent_units (entries s))) m" "spent_units (entries s) = n0"
    "\<And>a s'. spent_units (entries s') = n0 \<Longrightarrow> Q a s'"
  shows "wp m Q (unspent n0) s"
  by (rule frame_wp [OF assms(1)]) (simp_all add: assms(2,3))

lemma debit_write_spent:
  assumes "spent_units (entries s) = n0" "taken parts = units" "0 < units"
  shows "wp (debit_write p sb c units k_spend ref parts d) (\<lambda>_. debited_units n0 units) (unspent n0) s"
proof -
  have tail: "wp (forM parts (debit_part p sb k_spend ref)) (\<lambda>_ s. wp (addUsage r day sid units 0 0)
      (\<lambda>_. debited_units n0 units) (unspent n0) (s\<lparr>lop := g (lop s)\<rparr>)) (unspent n0) s'"
    if "spent_units (entries s') = n0" "o_spent (lop s') = Some (\<lambda>_. 0)" "\<And>q. o_spent (g q) = o_spent q" for s' g r day sid
    by (rule wp_conseq [OF debit_loop_spent [of n0 0]])
      (use that assms in \<open>auto simp: spent_so_far_def debited_units_def bucket_sum_def modifyOp_def addUsage_def wp_rules\<close>)
  have k: "k_spend \<noteq> k_fee" by simp
  show ?thesis
    unfolding debit_write_def wp_thenM if_P [OF k] if_P [OF refl]
    by (intro frame_unspent [OF keep_spent.frame_check(3)] frame_unspent [OF keep_spent.frame_plan(2)]
        frame_unspent [OF keep_spent.frame_credential(1)] assms(1))
      (simp_all add: wp_modifyM modifyOp_def tail)
qed

lemma debit_spent:
  assumes "spent_units (entries s) = n0" "0 \<le> units"
  shows "wp (debit sb c units k_spend ref) (\<lambda>_. debited_units n0 units) (unspent n0) s"
proof (cases "units = 0")
  case True
  then show ?thesis using assms by (simp add: debit_def wp_rules debited_units_def)
next
  case False
  then have u: "0 < units" using assms(2) by simp
  then show ?thesis
    using assms u
    by (auto simp: debit_def wp_bindM wp_gets wp_if wp_throw liveLots_def split: prod.splits
        intro!: wp_planSpend_taken debit_write_spent)
qed

section \<open>Spend\<close>

definition spend_done :: "int \<Rightarrow> int \<Rightarrow> Receipt \<Rightarrow> led \<Rightarrow> bool" where
  "spend_done n0 units rc s \<longleftrightarrow> spent_units (entries s) = n0 + units \<and> r_Used rc = units
     \<and> (0 < units \<longrightarrow> (\<exists>f. r_ByBucket rc = Some f \<and> bucket_sum f = units))"

lemma noteRefusal_spent: "wp (noteRefusal day r e) Q E s = Q () (snd (noteRefusal day r e s))"
  by (auto simp: wp_def noteRefusal_def ret_def modifyM_def split: lerr.splits)

lemma Spend_spent:
  assumes "0 \<le> units"
  shows "wp (Spend cf sb r units ref now) (spend_done (spent_units (entries s)) units) (unspent (spent_units (entries s))) s"
proof -
  let ?n = "spent_units (entries s)"
  let ?k = "\<lambda>res. bindM (gets lop) (\<lambda>p. case res of Inl e \<Rightarrow> thenM (noteRefusal (o_day p) r e) (throw e)
       | Inr x \<Rightarrow> ret \<lparr>r_HoldID = [], r_Resource = r, r_Used = units, r_Refunded = 0, r_ParamsVersion = o_version p, r_ByBucket = o_spent p\<rparr>)"
  have ok: "wp (thenM save (?k (Inr ()))) (spend_done ?n units) (unspent ?n) s'" if "debited_units ?n units s'" for s'
    unfolding wp_thenM
    by (rule wp_conseq [OF save_spent [OF refl refl]]) (use that in \<open>auto simp: wp_rules debited_units_def spend_done_def\<close>)
  have err: "wp (thenM save (?k (Inl e))) (spend_done ?n units) (unspent ?n) s'" if "spent_units (entries s') = ?n" for s' e
    unfolding wp_thenM
    by (rule wp_conseq [OF save_spent [OF refl refl]])
      (use that keep_spent.frame_refusals(1) in \<open>auto simp: wp_rules noteRefusal_spent inside_def\<close>)
  have fin: "wp (finish (debit sb c units k_spend ref) ?k) (spend_done ?n units) (unspent ?n) s'"
    if "spent_units (entries s') = ?n" for s' c
    unfolding finish_def wp_bindM wp_tryM
    by (rule wp_conseq [OF debit_spent [OF that assms]]) (use ok err in \<open>auto simp: wp_throw\<close>)
  show ?thesis
    unfolding Spend_def
    by (auto simp: wp_if wp_throw wp_thenM wp_bindM intro!: frame_unspent [OF keep_spent.frame_open]
      frame_unspent [OF keep_spent.frame_sweepOwn] frame_unspent [OF keep_spent.frame_claim] fin)
qed

section \<open>Limits\<close>

text \<open>
  A spend under a credential's limit: what the check before the debit admits is what the count after it
  shows, so a day's limit is never exceeded.
\<close>

section \<open>Counting\<close>

lemma spent_by_add:
  "spent_by (s\<lparr>limit_usage := upsert (\<lambda>u. (lu_Credential u, lu_Day u) = (cr, day)) (\<lambda>u. u\<lparr>lu_Spent := lu_Spent u + n\<rparr>)
     \<lparr>lu_Credential = cr, lu_Day = day, lu_Spent = n\<rparr> (limit_usage s)\<rparr>) cr day = spent_by s cr day + n"
proof (cases "find (\<lambda>u. (lu_Credential u, lu_Day u) = (cr, day)) (limit_usage s)")
  case None
  then have "\<not> list_ex (\<lambda>u. (lu_Credential u, lu_Day u) = (cr, day)) (limit_usage s)" by (simp add: list_ex_iff find_None_iff)
  with None show ?thesis by (simp add: spent_by_def upsert_def find_append)
next
  case (Some u)
  then have "list_ex (\<lambda>u. (lu_Credential u, lu_Day u) = (cr, day)) (limit_usage s)" and k: "lu_Credential u = cr" "lu_Day u = day"
    by (auto simp: list_ex_iff dest: find_SomeD)
  then show ?thesis using Some by (simp add: spent_by_def upsert_def find_upd)
qed

definition within_limit :: "SpendLimit \<Rightarrow> int \<Rightarrow> int \<Rightarrow> int \<Rightarrow> bool" where
  "within_limit sl before units now \<longleftrightarrow> (sl_ExpiresAt sl = 0 \<or> now < sl_ExpiresAt sl)
     \<and> (\<forall>n. sl_PerCall sl = Some n \<longrightarrow> units \<le> n) \<and> (\<forall>n. sl_PerDay sl = Some n \<longrightarrow> before + units \<le> n)"

text \<open>A view of the state the limits depend on.\<close>

definition limit_view :: "string \<Rightarrow> Resource \<Rightarrow> int \<Rightarrow> led \<Rightarrow> led \<Rightarrow> bool" where
  "limit_view cr r now s0 s \<longleftrightarrow> spend_limits s = spend_limits s0 \<and> limit_usage s = limit_usage s0
     \<and> o_r (lop s) = r \<and> o_now (lop s) = now \<and> o_day (lop s) = day_of now"

lemma credentialCheck_limit:
  assumes "limit_view cr Credit now s0 s" "find (\<lambda>l. sl_Credential l = cr) (spend_limits s0) = Some sl" "sl_Account sl = s_ID sb"
    "s_Credential sb = cr" "cr \<noteq> []" "0 < units"
  shows "wp (credentialCheck sb units) (\<lambda>_ s'. s' = s \<and> within_limit sl (spent_by s0 cr (day_of now)) units now) (\<lambda>_ _. True) s"
  using assms
  by (auto simp: credentialCheck_def wp_rules loadSpendLimit_def credentialSpent_def limit_view_def within_limit_def spent_by_def
    split: option.splits)

lemma credentialRecord_limit:
  assumes "limit_view cr Credit now s0 s" "s_Credential sb = cr" "cr \<noteq> []" "0 < units"
  shows "wp (credentialRecord sb units []) (\<lambda>_ s'. spent_by s' cr (day_of now) = spent_by s0 cr (day_of now) + units) E s"
proof -
  have "spent_by s cr day = spent_by s0 cr day" for day using assms(1) by (simp add: limit_view_def spent_by_def)
  then show ?thesis
    using assms spent_by_add [of cr "day_of now" units s]
    by (simp add: credentialRecord_def addLimitUsage_def wp_rules limit_view_def)
qed

section \<open>The debit\<close>

lemma keep_limits_line: "inside (keeps (\<lambda>s. (spend_limits s, limit_usage s))) (journal e)"
  by (simp add: inside_def journal_def modifyM_def)

lemma debit_part_limits: "inside (keeps (\<lambda>s. (spend_limits s, limit_usage s))) (debit_part p sb k ref q)"
  unfolding debit_part_def by (rule keep_limits_line frame_rules)+

lemma keeps_spent_by: "keeps (\<lambda>s. (spend_limits s, limit_usage s)) s s' \<Longrightarrow> spent_by s' cr day = spent_by s cr day"
  by (simp add: spent_by_def)

lemma debit_write_limit:
  assumes v: "limit_view cr Credit now s0 s" and l: "find (\<lambda>l. sl_Credential l = cr) (spend_limits s0) = Some sl" "sl_Account sl = s_ID sb"
    and c: "s_Credential sb = cr" "cr \<noteq> []" "0 < units"
  shows "wp (debit_write p sb cl units k_spend ref parts d) (\<lambda>_ s'. within_limit sl (spent_by s0 cr (day_of now)) units now
     \<and> spent_by s' cr (day_of now) = spent_by s0 cr (day_of now) + units) (\<lambda>_ _. True) s"
proof -
  let ?n = "spent_by s0 cr (day_of now) + units"
  let ?rest = "thenM (if k_spend = k_spend then modifyOp (\<lambda>q. q\<lparr>o_spent := Some (\<lambda>_. 0)\<rparr>) else ret ())
    (thenM (forM parts (debit_part p sb k_spend ref))
    (thenM (modifyOp (\<lambda>q. q\<lparr>o_d := spend_day d (nonpaid parts) units\<rparr>))
      (addUsage (o_r p) (o_day p) (s_ID sb) units 0 0)))"
  have rest: "wp ?rest (\<lambda>_ s''. spent_by s'' cr (day_of now) = ?n) (\<lambda>_ _. True) s'" if "spent_by s' cr (day_of now) = ?n" for s'
  proof (rule frame_wp)
    show "inside (keeps (\<lambda>s. (spend_limits s, limit_usage s))) ?rest" by (rule debit_part_limits frame_rules)+
    fix s'' assume "keeps (\<lambda>s. (spend_limits s, limit_usage s)) s' s''"
    then show "spent_by s'' cr (day_of now) = ?n" using keeps_spent_by that by metis
  qed simp
  have cs: "wp (clientSpend sb cl units) (\<lambda>_. limit_view cr Credit now s0) (\<lambda>_ _. True) s"
    using v by (auto simp: clientSpend_def wp_rules limit_view_def Let_def)
  have main: "wp (thenM (clientSpend sb cl units) (thenM (credentialRecord sb units []) ?rest))
      (\<lambda>_ s''. spent_by s'' cr (day_of now) = ?n) (\<lambda>_ _. True) s"
    unfolding wp_thenM [of "clientSpend sb cl units"] wp_thenM [of "credentialRecord sb units []"]
    by (rule wp_conseq [OF cs], rule wp_conseq [OF credentialRecord_limit [OF _ c]]) (use rest in simp_all)
  have k: "k_spend \<noteq> k_fee" by simp
  show ?thesis
    unfolding debit_write_def if_P [OF k] wp_thenM [of "credentialCheck sb units"]
    by (rule wp_conseq [OF credentialCheck_limit [OF v l c]]) (use wp_conseq [OF main] in auto)
qed

lemma debit_limit:
  assumes "limit_view cr Credit now s0 s" "find (\<lambda>l. sl_Credential l = cr) (spend_limits s0) = Some sl" "sl_Account sl = s_ID sb"
    "s_Credential sb = cr" "cr \<noteq> []" "0 < units"
  shows "wp (debit sb cl units k_spend ref) (\<lambda>_ s'. within_limit sl (spent_by s0 cr (day_of now)) units now
     \<and> spent_by s' cr (day_of now) = spent_by s0 cr (day_of now) + units) (\<lambda>_ _. True) s"
proof -
  have "limit_view cr Credit now s0 (s\<lparr>lop := q\<rparr>)" if "same_op (lop s) q" for q
    using assms(1) that by (simp add: limit_view_def same_op_def)
  then show ?thesis
    using assms by (auto simp: debit_def wp_bindM wp_gets wp_if wp_throw liveLots_def split: prod.splits
        intro!: wp_planSpend_taken debit_write_limit)
qed

section \<open>The spend\<close>

lemma prelude_view:
  assumes "linv cf s"
  shows "wp (thenM (open_op cf r now) (thenM (sweepOwn account) (claim cf sb))) (\<lambda>_. limit_view cr r now s) (\<lambda>_ _. True) s"
  unfolding wp_thenM
proof (rule wp_conseq [OF wp_conj [OF open_op_linv [OF assms] within_wp [OF keep_limits.frame_open]]])
  fix s1 assume o: "opened cf r now s1 \<and> keeps (\<lambda>s. (spend_limits s, limit_usage s)) s s1"
  then have g: "good cf (lop s1) s1" using opened_good by blast
  show "wp (sweepOwn account) (\<lambda>_. wp (claim cf sb) (\<lambda>_. limit_view cr r now s) (\<lambda>_ _. True)) (\<lambda>_ _. True) s1"
  proof (rule wp_conseq [OF wp_conj [OF sweepOwn_good [OF g] within_wp [OF keep_limits.frame_sweepOwn]]])
    fix s2 assume h: "good cf (lop s1) s2 \<and> keeps (\<lambda>s. (spend_limits s, limit_usage s)) s1 s2"
    then have h': "good cf (lop s1) s2" by blast
    show "wp (claim cf sb) (\<lambda>_. limit_view cr r now s) (\<lambda>_ _. True) s2"
      by (rule wp_conseq [OF wp_conj [OF claim_good [OF h'] within_wp [OF keep_limits.frame_claim]]])
        (use o h in \<open>auto simp: limit_view_def good_def same_op_def opened_def\<close>)
  qed simp
qed simp

lemma Spend_limit:
  assumes i: "linv cf s" and l: "find (\<lambda>l. sl_Credential l = cr) (spend_limits s) = Some sl" "sl_Account sl = s_ID sb"
    and c: "s_Credential sb = cr" "cr \<noteq> []" "0 < units"
  shows "wp (Spend cf sb Credit units ref now) (\<lambda>_ s'. within_limit sl (spent_by s cr (day_of now)) units now
     \<and> spent_by s' cr (day_of now) = spent_by s cr (day_of now) + units) (\<lambda>_ _. True) s"
proof -
  let ?P = "\<lambda>s'. within_limit sl (spent_by s cr (day_of now)) units now \<and> spent_by s' cr (day_of now) = spent_by s cr (day_of now) + units"
  let ?k = "\<lambda>res :: lerr + unit. bindM (gets lop) (\<lambda>p. case res of Inl e \<Rightarrow> thenM (noteRefusal (o_day p) Credit e) (throw e)
       | Inr x \<Rightarrow> ret \<lparr>r_HoldID = [], r_Resource = Credit, r_Used = units, r_Refunded = 0, r_ParamsVersion = o_version p, r_ByBucket = o_spent p\<rparr>)"
  have ok: "wp (thenM save (?k (Inr a))) (\<lambda>_. ?P) (\<lambda>_ _. True) s'" if "?P s'" for a s'
  proof (rule frame_wp)
    show "inside (keeps (\<lambda>s. (spend_limits s, limit_usage s))) (thenM save (?k (Inr a)))" by (rule frame_rules)+
    fix s'' rc assume "keeps (\<lambda>s. (spend_limits s, limit_usage s)) s' s''"
    then show "?P s''" using keeps_spent_by that by metis
  qed simp
  have err: "wp (?k (Inl e)) (\<lambda>_. ?P) (\<lambda>_ _. True) s'" for e s' by (simp add: wp_rules noteRefusal_spent)
  have fin: "wp (finish (debit sb cl units k_spend ref) ?k) (\<lambda>_. ?P) (\<lambda>_ _. True) s'" if "limit_view cr Credit now s s'" for s' cl
    by (rule wp_finish_any [OF debit_limit [OF that l c]]) (rule ok err, assumption?)+
  have "wp (thenM (open_op cf Credit now) (thenM (sweepOwn (s_ID sb)) (bindM (claim cf sb) (\<lambda>cl. finish (debit sb cl units k_spend ref) ?k))))
      (\<lambda>_. ?P) (\<lambda>_ _. True) s"
    using wp_conseq [OF prelude_view [OF i, of Credit now "s_ID sb" sb cr], of "\<lambda>cl. wp (finish (debit sb cl units k_spend ref) ?k) (\<lambda>_. ?P) (\<lambda>_ _. True)" "\<lambda>_ _. True"] fin
    by (simp add: wp_thenM wp_bindM)
  then show ?thesis by (simp add: Spend_def wp_if wp_throw)
qed

end
