(* ===== verification/Settle_Spec.thy ===== *)
theory Settle_Spec
  imports Retries
begin

text \<open>
  What \<open>settle\<close> (\<open>internal/ledger/holds.go\<close>) does to the lots of a hold, in full: used units are spent in the
  lots' spend order; what a lot's part has left returns to the lot, unless the lot has expired meanwhile.
\<close>

section \<open>The specification\<close>

text \<open>
  Of a hold's units: how many are in a lot, how many in the lots spent before it, and so how many of the
  lot's are spent when \<open>us\<close> are.
\<close>

definition part_units :: "led \<Rightarrow> string \<Rightarrow> lot \<Rightarrow> int" where
  "part_units s i x = (\<Sum>p\<leftarrow>hold_parts s. if hp_Hold p = i \<and> hp_Lot p = l_ID x then hp_Units p else 0)"

definition earlier_units :: "led \<Rightarrow> string \<Rightarrow> lot \<Rightarrow> int" where
  "earlier_units s i x = (\<Sum>p\<leftarrow>hold_parts s.
     if hp_Hold p = i \<and> (\<exists>y\<in>set (lots s). l_ID y = hp_Lot p \<and> spendOrder y < spendOrder x) then hp_Units p else 0)"

definition part_spent :: "led \<Rightarrow> string \<Rightarrow> int \<Rightarrow> lot \<Rightarrow> int" where
  "part_spent s i us x = min (part_units s i x) (max 0 (us - earlier_units s i x))"

definition expired_at :: "int \<Rightarrow> lot \<Rightarrow> bool" where
  "expired_at now x \<longleftrightarrow> l_ExpiresAt x \<noteq> 0 \<and> l_ExpiresAt x \<le> now"

definition settled_lot :: "led \<Rightarrow> string \<Rightarrow> int \<Rightarrow> int \<Rightarrow> lot \<Rightarrow> lot \<Rightarrow> bool" where
  "settled_lot s i us now x x' \<longleftrightarrow> l_ID x' = l_ID x \<and> l_Held x' = l_Held x - part_units s i x
     \<and> l_Remaining x' = l_Remaining x - part_spent s i us x - (if expired_at now x then part_units s i x - part_spent s i us x else 0)
     \<and> spendable x' = spendable x + (if expired_at now x then 0 else part_units s i x - part_spent s i us x)"

section \<open>The loop\<close>

definition part_take :: "int \<Rightarrow> holdPart \<Rightarrow> int" where
  "part_take left p = min (q_Units p) left"

definition part_lost :: "int \<Rightarrow> int \<Rightarrow> holdPart \<Rightarrow> int" where
  "part_lost now left p = (if q_ExpiresAt p \<noteq> 0 \<and> q_ExpiresAt p \<le> now then q_Units p - part_take left p else 0)"

primrec settle_row :: "int \<Rightarrow> int \<Rightarrow> holdPart list \<Rightarrow> lot \<Rightarrow> lot" where
  "settle_row now left [] x = x"
| "settle_row now left (p # ps) x = settle_row now (left - part_take left p) ps
     (if l_ID x = q_LotID p then take_row (part_take left p) (q_Units p) (part_lost now left p) x else x)"

lemma journal_nz_lots: "wp (journal_nz e) (\<lambda>_ s'. lots s' = lots s) (\<lambda>_ _. True) s"
  by (simp add: journal_nz_def journal_def wp_rules)

lemma settle_part_lots:
  "wp (settle_part h detail version now z p) (\<lambda>z' s'. z_left z' = z_left z - part_take (z_left z) p
     \<and> lots s' = upd (\<lambda>x. l_ID x = q_LotID p) (take_row (part_take (z_left z) p) (q_Units p) (part_lost now (z_left z) p)) (lots s)) (\<lambda>_ _. True) s"
  unfolding settle_part_def Let_def part_take_def [symmetric] part_lost_def [symmetric] wp_thenM wp_ret
  by (simp add: takeFrom_def updateLots_def wp_def journal_nz_def journal_def ret_def modifyM_def split: prod.splits sum.splits)

lemma map_settle_row: "map (settle_row now left (p # ps)) ls = map (settle_row now (left - part_take left p) ps)
    (upd (\<lambda>x. l_ID x = q_LotID p) (take_row (part_take left p) (q_Units p) (part_lost now left p)) ls)"
  by (simp add: upd_def)

lemma settle_loop_lots:
  "wp (foldM (settle_part h detail version now) z ps) (\<lambda>_ s'. lots s' = map (settle_row now (z_left z) ps) (lots s)) (\<lambda>_ _. True) s"
proof (rule wp_foldM [where I = "\<lambda>z' ps' s'. map (settle_row now (z_left z') ps') (lots s') = map (settle_row now (z_left z) ps) (lots s)"])
  fix z' :: settled and p ps' and s' :: led
  assume "map (settle_row now (z_left z') (p # ps')) (lots s') = map (settle_row now (z_left z) ps) (lots s)"
  then show "wp (settle_part h detail version now z' p) (\<lambda>z'' s''. map (settle_row now (z_left z'') ps') (lots s'') = map (settle_row now (z_left z) ps) (lots s)) (\<lambda>_ _. True) s'"
    by (intro wp_conseq [OF settle_part_lots]) (simp_all add: map_settle_row del: settle_row.simps)
qed (simp_all add: map_idI [of _ "settle_row now _ []"])

text \<open>What comes after the loop leaves the lots alone.\<close>

interpretation settled_lots: step_rel "keeps lots"
  by unfold_locales simp_all

lemma keep_lots_modify: "(\<And>s. lots (f s) = lots s) \<Longrightarrow> inside (keeps lots) (modifyM f)"
  by (rule settled_lots.within_modify)

lemma undrawDay_lots: "inside (keeps lots) (undrawDay r day bk)"
  unfolding undrawDay_def loadDay_def saveDay_def insertPool_def unique_insert_def
  by (intro frame_rules keep_lots_modify) simp_all

lemma settle_write_lots: "inside (keeps lots) (settle_write i us final h version z)"
  unfolding settle_write_def addUsage_def credentialRelease_def release_share_def giveBack_def holdShares_def holdCredential_def updateHold_def
  by (intro frame_rules keep_lots_modify undrawDay_lots) simp_all

lemma settle_lots:
  assumes "settle cf i us final detail now s = (Inr rc, s')"
  shows "lots s' = map (settle_row now us (map part_of_row (joined_parts s i))) (lots s)"
proof -
  let ?Q = "\<lambda>_ s'. lots s' = map (settle_row now us (map part_of_row (joined_parts s i))) (lots s)"
  have par: "wp (params cf now) Q (\<lambda>_ _. True) s" if "\<And>x. Q x s" for Q
    using that by (intro wp_params) simp_all
  have loop: "wp (foldM (settle_part h detail version now) (settled0 us) ps) (\<lambda>z. wp (settle_write i us final h version z) ?Q (\<lambda>_ _. True)) (\<lambda>_ _. True) s"
    if "ps = map part_of_row (joined_parts s i)" for h version ps
    by (rule wp_conseq [OF settle_loop_lots]) (use that in \<open>auto simp: settled0_def intro!: frame_wp [OF settle_write_lots]\<close>)
  have "wp (settle cf i us final detail now) ?Q (\<lambda>_ _. True) s"
    unfolding settle_def loadHoldRow_def loadHoldParts_def
    using loop by (auto simp: wp_if wp_throw wp_bindM wp_gets wp_ret split: option.split intro!: par)
  then show ?thesis using assms by (simp add: wp_def)
qed

section \<open>One lot\<close>

lemma take_row_ID [simp]: "l_ID (take_row a b c x) = l_ID x"
  by (simp add: take_row_def Let_def)

lemma settle_row_other: "l_ID x \<notin> q_LotID ` set ps \<Longrightarrow> settle_row now left ps x = x"
  by (induction ps arbitrary: left) auto

lemma settle_row_part:
  assumes "l_ID x = q_LotID p" "l_ID x \<notin> q_LotID ` set as" "l_ID x \<notin> q_LotID ` set bs" "0 \<le> left" "\<forall>q\<in>set as. 0 \<le> q_Units q"
    "left' = max 0 (left - all_units as)"
  shows "settle_row now left (as @ p # bs) x = take_row (part_take left' p) (q_Units p) (part_lost now left' p) x"
  using assms(2,4-)
proof (induction as arbitrary: left)
  case (Cons q as)
  have "max 0 (left - part_take left q - all_units as) = max 0 (left - all_units (q # as))"
  proof (cases "q_Units q \<le> left")
    case False
    have "0 \<le> all_units as" unfolding all_units_def by (rule sum_list_nonneg) (use Cons.prems in auto)
    with False show ?thesis by (simp add: part_take_def all_units_def)
  qed (simp add: part_take_def all_units_def)
  moreover have "0 \<le> left - part_take left q" by (simp add: part_take_def)
  ultimately show ?case using Cons.IH [of "left - part_take left q"] Cons.prems by simp
qed (use assms in \<open>simp add: all_units_def settle_row_other\<close>)

lemma spendOrder_ID: "spendOrder x = spendOrder y \<Longrightarrow> l_ID x = l_ID y"
  by (simp add: spendOrder_def)

lemma joined_parts_joined: "joined_parts s i = sort_key (\<lambda>(_, x). spendOrder x) (joined s i)"
  by (simp add: joined_parts_def joined_def)

lemma sum_map_zero: "(\<And>z. z \<in> set zs \<Longrightarrow> f z = (0 :: int)) \<Longrightarrow> sum_list (map f zs) = 0"
  by (induction zs) auto

text \<open>What stands before a lot in the order the loop reads is what is in the lots spent before it.\<close>

lemma earlier_read:
  assumes i: "linv cf s" and J: "joined_parts s i = as @ (p, x) # bs"
  shows "all_units (map part_of_row as) = earlier_units s i x"
proof -
  let ?k = "\<lambda>(q :: partRow, y). spendOrder y" and ?b = "\<lambda>(q, y). if spendOrder y < spendOrder x then hp_Units q else 0"
  have sorted: "sorted (map ?k (as @ (p, x) # bs))" using J [symmetric] by (simp add: joined_parts_joined)
  have mem: "q \<in> set (hold_parts s) \<and> hp_Hold q = i \<and> y \<in> set (lots s) \<and> l_ID y = hp_Lot q" if "(q, y) \<in> set (as @ (p, x) # bs)" for q y
    using that joined_in [of q y s i] unfolding J [symmetric] by (simp add: joined_parts_joined)
  have "distinct (map q_LotID (map part_of_row (as @ (p, x) # bs)))"
    using parts_read_joined [OF i, of i] unfolding joined_parts_joined [symmetric] J parts_read_def by blast
  then have ne: "hp_Lot q \<noteq> hp_Lot p" if "(q, y) \<in> set as \<union> set bs" for q y using that by (force simp: part_of_row_def)
  have order: "\<forall>z\<in>set as. ?k z \<le> spendOrder x" "\<forall>z\<in>set bs. spendOrder x \<le> ?k z"
    using sorted by (simp_all add: sorted_append)
  have less: "spendOrder y < spendOrder x" if "(q, y) \<in> set as" for q y
  proof -
    have "spendOrder y \<le> spendOrder x" using bspec [OF order(1) that] by simp
    moreover have "l_ID y \<noteq> l_ID x" using ne [of q y] mem [of q y] mem [of p x] that by simp
    then have "spendOrder y \<noteq> spendOrder x" using spendOrder_ID by blast
    ultimately show ?thesis by (rule order.not_eq_order_implies_strict [rotated])
  qed
  have more: "\<not> spendOrder y < spendOrder x" if "(q, y) \<in> set bs" for q y using bspec [OF order(2) that] by simp
  have "all_units (map part_of_row as) = sum_list (map ?b as)"
    unfolding all_units_def using less by (auto simp: part_of_row_def intro!: arg_cong [of _ _ sum_list])
  also have "\<dots> = sum_list (map ?b (as @ (p, x) # bs))" using sum_map_zero [of bs ?b] more by auto
  also have "\<dots> = sum_list (map ?b (joined s i))" unfolding J [symmetric] joined_parts_joined by (rule sum_list_sort_key)
  also have "\<dots> = sum_list (map (\<lambda>(q, y). if \<exists>y\<in>set (lots s). l_ID y = hp_Lot q \<and> spendOrder y < spendOrder x then hp_Units q else 0) (joined s i))"
  proof (intro arg_cong [of _ _ sum_list] map_cong refl)
    fix z assume "z \<in> set (joined s i)"
    moreover obtain q y where z: "z = (q, y)" by fastforce
    ultimately have y: "y \<in> set (lots s)" "l_ID y = hp_Lot q" using joined_in by auto
    have "y' = y" if "y' \<in> set (lots s)" "l_ID y' = hp_Lot q" for y'
      using i y that by (intro lots_ok_unique [of _ "lots s" _ _ y' y]) (auto simp: linv_def)
    then have "(\<exists>y'\<in>set (lots s). l_ID y' = hp_Lot q \<and> spendOrder y' < spendOrder x) \<longleftrightarrow> spendOrder y < spendOrder x" using y by blast
    then show "?b z = (case z of (q, y) \<Rightarrow> if \<exists>y\<in>set (lots s). l_ID y = hp_Lot q \<and> spendOrder y < spendOrder x then hp_Units q else 0)"
      unfolding z prod.case by (simp only:)
  qed
  also have "\<dots> = earlier_units s i x" unfolding joined_sum [OF i] earlier_units_def by (intro arg_cong [of _ _ sum_list] map_cong) auto
  finally show ?thesis .
qed

lemma settle_row_spec:
  assumes i: "linv cf s" and x: "x \<in> set (lots s)" and u: "0 \<le> us"
  shows "settled_lot s i us now x (settle_row now us (map part_of_row (joined_parts s i)) x)"
proof -
  let ?J = "joined_parts s i"
  have pr: "parts_read s i (map part_of_row ?J)" using parts_read_joined [OF i] by (simp add: joined_parts_joined)
  have units: "part_units s i x = rsum (rem_of (map part_of_row ?J)) (l_ID x)" using pr by (simp add: parts_read_def part_units_def)
  show ?thesis
  proof (cases "l_ID x \<in> q_LotID ` set (map part_of_row ?J)")
    case False
    then have "q_LotID (part_of_row z) \<noteq> l_ID x" if "z \<in> set ?J" for z using that by (metis imageI set_map)
    then have "part_units s i x = 0" unfolding units rsum_def rem_of_def map_map by (intro sum_map_zero) simp
    with False show ?thesis by (simp add: settle_row_other settled_lot_def part_spent_def)
  next
    case True
    then obtain p y where py: "(p, y) \<in> set ?J" "hp_Lot p = l_ID x" by (auto simp: part_of_row_def)
    then have "y = x" using joined_in [of p y s i] i x lots_ok_unique [of _ "lots s" _ _ y x] by (auto simp: joined_parts_joined linv_def)
    with py obtain as bs where J: "?J = as @ (p, x) # bs" by (metis split_list)
    let ?p = "part_of_row (p, x)" and ?as = "map part_of_row as" and ?bs = "map part_of_row bs"
    have parts: "map part_of_row ?J = ?as @ ?p # ?bs" by (simp add: J)
    have d: "distinct (map q_LotID (?as @ ?p # ?bs))" and pos: "\<forall>q\<in>set (?as @ ?p # ?bs). 0 < q_Units q"
      using pr unfolding parts_read_def parts by (blast, auto simp: part_of_lot_def)
    have id: "l_ID x = q_LotID ?p" using py(2) by (simp add: part_of_row_def)
    have ne: "l_ID x \<notin> q_LotID ` set ?as" "l_ID x \<notin> q_LotID ` set ?bs" using d unfolding id by (simp_all add: image_image)
    have pu: "part_units s i x = q_Units ?p"
      using ne id by (simp add: units J rsum_def rem_of_def image_iff) (subst (1 2) sum_map_zero; force)
    define left where "left = max 0 (us - earlier_units s i x)"
    have "settle_row now us (map part_of_row ?J) x = take_row (part_take left ?p) (q_Units ?p) (part_lost now left ?p) x"
      unfolding J list.map map_append left_def earlier_read [OF i J, symmetric]
      by (rule settle_row_part) (use id ne u pos in \<open>auto intro: less_imp_le\<close>)
    moreover have "part_take left ?p = part_spent s i us x" by (simp add: part_take_def part_spent_def pu left_def)
    moreover have "part_lost now left ?p = (if expired_at now x then part_units s i x - part_spent s i us x else 0)"
      using calculation(2) by (simp add: part_lost_def expired_at_def pu part_of_row_def)
    ultimately show ?thesis by (simp add: settled_lot_def pu take_row_def Let_def spendable_def)
  qed
qed

lemma settle_settles:
  assumes "linv cf s" "settle cf i us final detail now s = (Inr rc, s')" "0 \<le> us"
  shows "list_all2 (settled_lot s i us now) (lots s) (lots s')"
  unfolding settle_lots [OF assms(2)] list_all2_map2 using settle_row_spec [OF assms(1) _ assms(3)]
  by (auto simp: list_all2_conv_all_nth)

end
