(* ===== verification/Call_Props.thy ===== *)
theory Call_Props
  imports Spend_Spec Settle_Spec Scenario
begin

text \<open>
  What one call does: settling a hold and what it returns, retried requests, limits. Each property has
  an instance on the run of \<open>Scenario\<close>.
\<close>

section \<open>Holds\<close>

text \<open>
  C29: a commit that succeeds was of an open hold and for at most its units; it closes the hold with
  exactly the units used, and the receipt's buckets add up to the units used. Each lot is released of the
  units the hold had in it; the units used are taken from the lots in spend order, and what a lot's part
  has left is spendable again, except that the units left in a lot that has expired meanwhile are gone.
\<close>

theorem commit_settles:
  assumes "reachable (cf_sha256 cf) s" "Commit cf i us now s = (Inr rc, s')"
  shows "\<exists>h f. hold_at s i = Some h \<and> h_State h = h_held \<and> h_Service h \<noteq> ledgerService \<and> 0 \<le> us \<and> us \<le> h_Max h
    \<and> hold_at s' i = Some (h\<lparr>h_State := h_committed, h_Used := us\<rparr>)
    \<and> r_Used rc = us \<and> r_Refunded rc = h_Max h - us \<and> r_ByBucket rc = Some f \<and> (\<Sum>b\<leftarrow>[Free, Granted, Earned, Paid]. f b) = us
    \<and> list_all2 (\<lambda>x x'. l_ID x' = l_ID x \<and> l_Held x' = l_Held x - part_units s i x
        \<and> l_Remaining x' = l_Remaining x - part_spent s i us x - (if expired_at now x then part_units s i x - part_spent s i us x else 0)
        \<and> spendable x' = spendable x + (if expired_at now x then 0 else part_units s i x - part_spent s i us x)) (lots s) (lots s')"
proof -
  have inv: "linv cf s" using reachable_linv [OF assms(1)] linv_digest [of "digest_config (cf_sha256 cf)" cf s] by (simp add: digest_config_def)
  from wp_resultD [OF settle_spec [OF inv, of h_committed i us "[]" now]] assms(2)
  have "settled_to cf i us h_committed s rc s'" by (simp add: Commit_def)
  moreover from this settle_settles [OF inv, of i us h_committed "[]" now rc s'] assms(2)
  have "list_all2 (settled_lot s i us now) (lots s) (lots s')" by (auto simp: Commit_def settled_to_def)
  ultimately show ?thesis by (auto simp: settled_to_def bucket_sum_def settled_lot_def [abs_def])
qed

theorem commit_settles_witness:
  "\<exists>s'. reachable (cf_sha256 demo_cf) (demo_reserved demo_op) \<and> Commit demo_cf demo_hold 60 1010 (demo_reserved demo_op) = (Inr demo_receipt, s')
    \<and> r_Used demo_receipt = 60 \<and> r_Refunded demo_receipt = 40 \<and> map spendable (lots (demo_reserved demo_op)) = [900] \<and> map spendable (lots s') = [940]"
proof -
  let ?s = "demo_reserved demo_op"
  have lot: "lots ?s = [demo_lot 100]" and parts: "hold_parts ?s = [\<lparr>hp_Hold = demo_hold, hp_Lot = 1, hp_Units = 100\<rparr>]" by (simp_all add: demo_reserved_def)
  have u: "part_units ?s demo_hold (demo_lot 100) = 100" "part_spent ?s demo_hold 60 (demo_lot 100) = 60"
    by (simp_all add: part_spent_def part_units_def earlier_units_def parts lot demo_lot_def)
  have e: "\<not> expired_at 1010 (demo_lot 100)" "spendable (demo_lot 100) = 900" by (simp_all add: expired_at_def spendable_def demo_lot_def)
  have "reachable (cf_sha256 demo_cf) ?s" by (simp add: demo_cf_sel reachable_reserved)
  from commit_settles [OF this run_commit] have "map spendable (lots (demo_committed demo_op)) = [940]"
    unfolding lot by (auto simp: list_all2_Cons1 u e)
  then show ?thesis using lot e by (auto simp: run_commit demo_cf_sel reachable_reserved demo_receipt_def)
qed

text \<open>
  a hold is settled once. After a commit, committing or refunding the hold again, for any amount
  and at any time, is refused and changes nothing.
\<close>

theorem settled_once:
  assumes "reachable (cf_sha256 cf) s" "Commit cf i us now s = (Inr rc, s')"
  shows "Commit cf i us' now' s' = (Inl (refuse ''hold_not_held''), s') \<and> Refund cf i reason now' s' = (Inl (refuse ''hold_not_held''), s')"
proof -
  have "linv cf s" using reachable_linv [OF assms(1)] linv_digest [of "digest_config (cf_sha256 cf)" cf s] by (simp add: digest_config_def)
  from wp_resultD [OF settle_spec [OF this, of h_committed i us "[]" now]] assms(2)
  obtain h where "hold_at s' i = Some (h\<lparr>h_State := h_committed, h_Used := us\<rparr>)" by (auto simp: Commit_def settled_to_def)
  then show ?thesis
    by (simp add: Commit_def Refund_def settle_def loadHoldRow_def bindM_def thenM_def gets_def throw_def)
qed

section \<open>Retries\<close>

text \<open>
  C30: a reserve retried with the same account and request key, whatever else differs, does not hold units
  twice: it is refused as in flight, with the time the first hold has left, and changes nothing.
\<close>

theorem reserve_retry:
  assumes "Reserve cf sb r mx key ref ttl now s = (Inr h, s')"
    and "0 < mx'" "mx' \<le> maxUnits" "1 \<le> ttl'" "ttl' \<le> 86400" "ref_Service ref' \<noteq> ledgerService"
  shows "Reserve cf sb r' mx' key ref' ttl' now' s'
    = (Inl (Refuse ((err_code ''request_in_flight'')\<lparr>e_RetryAfter := clamp (now + ttl - now') 1 86400\<rparr>)), s')"
proof -
  have sb: "s_ID sb \<noteq> []" "key \<noteq> []" "length key \<le> 256"
    using assms(1) by (auto simp: Reserve_def throw_def Let_def split: if_splits)
  from endsD [OF Reserve_ends assms(1)]
  obtain row where "hold_at s' (holdID cf (s_ID sb) key) = Some row" "h_State row = h_held" "h_ExpiresAt row = now + ttl"
    by (auto simp: added_hold_def)
  then show ?thesis
    using sb assms(2-)
    by (simp add: Reserve_def Let_def loadHold_def loadHoldRow_def bindM_def gets_def ret_def throw_def hold_of_row_def)
qed

theorem reserve_retry_witness:
  "Reserve demo_cf demo_subject Credit 100 ''k'' (Ref0\<lparr>ref_Service := ''svc''\<rparr>) 60 1000 (demo_topped demo_op) = (Inr demo_held, demo_reserved demo_op)
   \<and> Reserve demo_cf demo_subject Credit 100 ''k'' (Ref0\<lparr>ref_Service := ''svc''\<rparr>) 60 1020 (demo_reserved demo_op)
     = (Inl (Refuse ((err_code ''request_in_flight'')\<lparr>e_RetryAfter := 40\<rparr>)), demo_reserved demo_op)"
  using reserve_retry [OF run_reserve, of 100 60 "Ref0\<lparr>ref_Service := ''svc''\<rparr>" Credit 1020 demo_op]
  by (simp add: run_reserve maxUnits_def ledgerService_def clamp_def)

text \<open>
  a transfer retried with the same sender and request key moves nothing again: it returns the transfer
  already made, to the first recipient and of the first amount, and changes nothing.
\<close>

theorem transfer_retry:
  assumes "Transfer_units cf from to r amount key now s = (Inr t, s')" "to' \<noteq> []" "to' \<noteq> s_ID from"
  shows "\<exists>t'. Transfer_units cf from to' r' amount' key now' s' = (Inr t', s') \<and> tr_ID t' = tr_ID t \<and> tr_From t' = tr_From t
    \<and> tr_To t' = tr_To t \<and> tr_Amount t' = tr_Amount t \<and> tr_State t' = tr_State t"
proof -
  let ?i = "transferID cf (s_ID from) key"
  have ok: "s_Signed from" "s_ID from \<noteq> []" "key \<noteq> []"
    using assms(1) by (auto simp: Transfer_units_def throw_def split: if_splits)
  have "\<exists>x. transfer_at s' ?i = Some x \<and> row_of t x"
  proof (cases "transfer_at s ?i")
    case (Some x)
    then have "t_ID x = ?i" by (auto simp: transfer_at_def dest: find_SomeD)
    then show ?thesis
      using assms(1) Some by (auto simp: Transfer_units_def Let_def loadTransfer_def bindM_def gets_def ret_def throw_def
        transfer_of_row_def row_of_def split: if_splits)
  next
    case None
    have e: "ends (stored ?i) (thenM (open_op cf r now) (bindM (gets lop) (\<lambda>p.
          if amount \<le> 0 \<or> amount > maxUnits \<or> rp_Budget (o_rp p) > 0 \<and> amount > rp_Budget (o_rp p) then throw (refuse ''invalid_amount'')
          else if lv_FreezeTransfers (o_lv p) then throw (refuse ''transfers_frozen'')
          else finish (transfer cf from to amount ?i key) liftE)))"
      by (rule ends_finish_value [OF transfer_ends] end_rules frame_rules)+
    have "stored ?i t s'"
      by (rule endsD [OF e, of s]) (use assms(1) None in \<open>auto simp: Transfer_units_def Let_def loadTransfer_def bindM_def gets_def throw_def
        split: if_splits\<close>)
    then show ?thesis by (simp add: added_transfer_def)
  qed
  then show ?thesis
    using ok assms(2,3) by (auto simp: Transfer_units_def Let_def loadTransfer_def bindM_def gets_def ret_def transfer_of_row_def row_of_def)
qed

section \<open>Plans\<close>

text \<open>
  a plan that covers a spend takes exactly the units asked, from distinct lots of the account that
  have them to spend, and draws exactly its free units from the day's water; the day stays well formed.
\<close>

theorem plan_exact:
  assumes "0 \<le> units" "day_ok (o_d (lop s))" "planned account r (lots s) xs"
    and "planSpend xs units ok s = (Inr (Inr (parts, d)), s')"
  shows "parts_of account r (lots s) parts \<and> taken parts = units \<and> day_ok d \<and> water d = water (o_d (lop s)) - free_units parts"
proof -
  let ?z = "foldl (plan_lot (lop s) units ok) (plan0 (lop s)) xs"
  have "units \<le> ps_got ?z" "parts = ps_parts ?z" "d = ps_d ?z"
    using assms(4) by (auto simp: planSpend_def bindM_def thenM_def gets_def ret_def modifyOp_def modifyM_def Let_def split: if_splits)
  with planSpend_exact [OF assms(1-3) refl] show ?thesis by simp
qed

section \<open>Spends\<close>

text \<open>
  C31: a spend that succeeds debits exactly the units asked: the lines it adds to the journal hold spend
  lines of that many units, and its receipt divides them among the buckets they came from.
\<close>

theorem spend_exact:
  assumes "Spend cf sb r units ref now s = (Inr rc, s')"
  shows "0 \<le> units \<and> spent_units (entries s') = spent_units (entries s) + units \<and> r_Used rc = units
    \<and> (0 < units \<longrightarrow> (\<exists>f. r_ByBucket rc = Some f \<and> (\<Sum>b\<leftarrow>[Free, Granted, Earned, Paid]. f b) = units))"
proof -
  have "0 \<le> units" using assms by (auto simp: Spend_def throw_def split: if_splits)
  with wp_resultD [OF Spend_spent assms] show ?thesis by (auto simp: spend_done_def bucket_sum_def)
qed

theorem spend_exact_witness:
  "\<exists>rc s'. Spend demo_cf demo_subject Credit 100 Ref0 1000 (demo_topped demo_op) = (Inr rc, s') \<and> r_Used rc = 100 \<and> spent_units (entries s') = 100"
proof -
  obtain rc s' where r: "Spend demo_cf demo_subject Credit 100 Ref0 1000 (demo_topped demo_op) = (Inr rc, s')"
    using run_spend_100 by blast
  from spend_exact [OF r] r show ?thesis
    by (auto simp: demo_topped_def demo_line_def spent_units_def entry0_def)
qed

text \<open>A spend that is refused debits nothing: it adds no spend line to the journal.\<close>

theorem spend_refused:
  assumes "Spend cf sb r units ref now s = (Inl (Refuse e), s')"
  shows "spent_units (entries s') = spent_units (entries s)"
proof (cases "units < 0")
  case True
  then show ?thesis using assms by (auto simp: Spend_def throw_def)
next
  case False
  then have "0 \<le> units" by simp
  from wp_errorD [OF Spend_spent [OF this] assms] show ?thesis by (simp add: isRefusal_def)
qed

text \<open>
  C32: a spend through a limited credential keeps its limit: it succeeds only before the limit expires,
  within the per-call limit and within what the day has left, and the day's count grows by exactly the
  units spent, so it never exceeds the per-day limit.
\<close>

theorem spend_limit_kept:
  assumes "reachable (cf_sha256 cf) s" "Spend cf sb Credit units ref now s = (Inr rc, s')" "0 < units"
    and "find (\<lambda>l. sl_Credential l = s_Credential sb) (spend_limits s) = Some sl" "sl_Account sl = s_ID sb" "s_Credential sb \<noteq> []"
  shows "(sl_ExpiresAt sl = 0 \<or> now < sl_ExpiresAt sl) \<and> (\<forall>n. sl_PerCall sl = Some n \<longrightarrow> units \<le> n)
    \<and> spent_by s' (s_Credential sb) (day_of now) = spent_by s (s_Credential sb) (day_of now) + units
    \<and> (\<forall>n. sl_PerDay sl = Some n \<longrightarrow> spent_by s' (s_Credential sb) (day_of now) \<le> n)"
proof -
  have "linv cf s" using reachable_linv [OF assms(1)] linv_digest [of "digest_config (cf_sha256 cf)" cf s] by (simp add: digest_config_def)
  from wp_resultD [OF Spend_limit [OF this assms(4,5) refl assms(6,3)] assms(2)] show ?thesis
    by (simp add: within_limit_def)
qed

theorem spend_limit_kept_witness:
  "\<exists>rc s'. Spend demo_cf (demo_subject\<lparr>s_Credential := ''cr''\<rparr>) Credit 100 Ref0 1000 (demo_limited demo_op) = (Inr rc, s') \<and> spent_by s' ''cr'' 0 = 100"
proof -
  let ?sb = "demo_subject\<lparr>s_Credential := ''cr''\<rparr>"
  obtain rc s' where r: "Spend demo_cf ?sb Credit 100 Ref0 1000 (demo_limited demo_op) = (Inr rc, s')" using run_spend_limited by blast
  have h: "reachable (cf_sha256 demo_cf) (demo_limited demo_op)" by (simp add: demo_cf_sel reachable_limited)
  have f: "find (\<lambda>l. sl_Credential l = s_Credential ?sb) (spend_limits (demo_limited demo_op)) = Some demo_limit"
    "sl_Account demo_limit = s_ID ?sb" "s_Credential ?sb \<noteq> []"
    by (simp_all add: demo_limited_def demo_limit_def demo_subject_def)
  have "spent_by (demo_limited demo_op) ''cr'' 0 = 0"
    by (simp add: spent_by_def demo_limited_def demo_topped_def demo_opened_def led0_def)
  with spend_limit_kept [OF h r _ f] r show ?thesis by (auto simp: day_of_def go_arith)
qed

end
