(* ===== verification/Flow_Spec.thy ===== *)
theory Flow_Spec
  imports Retries
begin

text \<open>
  What transfers and escrows do to the rows they are about: a due transfer ends, a paid escrow stays
  paid, splitting and joining move parts of holds and no lot; and the reads that change nothing.
\<close>

lemma frame_then_wp:
  assumes "inside R m" "\<And>s'. R s s' \<Longrightarrow> wp n Q (\<lambda>_ _. True) s'" shows "wp (thenM m n) Q (\<lambda>_ _. True) s"
  unfolding wp_thenM by (rule frame_wp [OF assms(1)]) (use assms(2) in auto)

lemma frame_bind_wp:
  assumes "inside R m" "\<And>a s'. R s s' \<Longrightarrow> wp (f a) Q (\<lambda>_ _. True) s'" shows "wp (bindM m f) Q (\<lambda>_ _. True) s"
  unfolding wp_bindM by (rule frame_wp [OF assms(1)]) (use assms(2) in auto)

section \<open>Due transfers\<close>

definition ended :: "string \<Rightarrow> led \<Rightarrow> bool" where
  "ended i s \<longleftrightarrow> (\<exists>t. transfer_at s i = Some t \<and> t_State t \<noteq> t_pending)"

lemma updateTransfer_ended:
  assumes "transfer_at s i = Some t" "\<And>x. t_ID (f x) = t_ID x" "\<And>x. t_State (f x) \<noteq> t_pending"
  shows "wp (updateTransfer i f) (\<lambda>_. ended i) E s"
proof -
  have "t_ID t = i" using assms(1) by (auto simp: transfer_at_def dest: find_SomeD)
  then show ?thesis
    using assms find_upd [of "\<lambda>t. t_ID t = i" f "\<lambda>t. t_ID t = i" "transfers s"]
    by (simp add: updateTransfer_def wp_rules ended_def transfer_at_def)
qed

lemma ended_stays: "keeps transfers s s' \<Longrightarrow> ended i s' = ended i s"
  by (simp add: ended_def transfer_at_def)

interpretation ended_frame: parts_frame "\<lambda>s s'. ended i s \<longrightarrow> ended i s'" for i
  by unfold_locales (auto simp: ended_def transfer_at_def journal_def modifyM_def)

interpretation transfer_row_frame: parts_frame "keeps (\<lambda>s. transfer_at s i)" for i
  by unfold_locales (auto simp: transfer_at_def journal_def modifyM_def)

lemma updateHold_transfers: "inside (keeps (\<lambda>s. transfer_at s i)) (updateHold j f)"
  unfolding updateHold_def by (rule transfer_row_frame.within_modify) (simp add: transfer_at_def)

lemma wp_ends_in: "wp m (\<lambda>_. P) (\<lambda>_ _. True) s \<Longrightarrow> stable P n \<Longrightarrow> wp (thenM m n) (\<lambda>_. P) (\<lambda>_ _. True) s"
  unfolding wp_thenM by (erule wp_conseq) (rule frame_wp, assumption, auto)

lemma execute_ended:
  assumes "transfer_at s (tr_ID t) = Some x"
  shows "wp (execute cf t now) (\<lambda>_. ended (tr_ID t)) (\<lambda>_ _. True) s"
proof -
  let ?R = "keeps (\<lambda>s. transfer_at s (tr_ID t))"
  have fin: "wp (updateTransfer (tr_ID t) (\<lambda>x. x\<lparr>t_State := t_done, t_DoneAt := now\<rparr>)) (\<lambda>_. ended (tr_ID t)) (\<lambda>_ _. True) s'"
    if "transfer_at s' (tr_ID t) = Some x" for s'
    using that by (rule updateTransfer_ended) simp_all
  show ?thesis
    unfolding execute_def case_prod_unfold
    by (rule frame_bind_wp [of ?R], rule frame_rules)+
      (auto simp: wp_throw assms split: option.splits intro!: frame_bind_wp [of ?R, OF transfer_row_frame.frame_moves(1)]
        frame_then_wp [of ?R, OF updateHold_transfers] fin)
qed

lemma release_ended:
  assumes "transfer_at s (tr_ID t) = Some x" "state \<noteq> t_pending"
  shows "wp (release cf t state actor now) (\<lambda>_. ended (tr_ID t)) (\<lambda>_ _. True) s"
proof -
  let ?R = "keeps (\<lambda>s. transfer_at s (tr_ID t))"
  have fin: "wp (thenM (updateTransfer (tr_ID t) (\<lambda>x. x\<lparr>t_State := state, t_CancelledBy := actor, t_DoneAt := now\<rparr>))
      (thenM (addUsage r day a 0 0 n) (thenM (credentialRelease h m) (addUsage r day' b 0 n' 0)))) (\<lambda>_. ended (tr_ID t)) (\<lambda>_ _. True) s'"
    if "transfer_at s' (tr_ID t) = Some x" for s' r day a n h m day' b n'
    by (rule wp_ends_in, rule updateTransfer_ended [OF that], simp, simp add: assms(2)) (rule frame_rules)+
  show ?thesis
    unfolding release_def case_prod_unfold
    by (rule frame_bind_wp [of ?R], rule frame_rules)+
      (auto simp: assms line_kinds intro!: frame_then_wp [of ?R] frame_rules updateHold_transfers fin)
qed

lemma executeDue_ended:
  assumes "transfer_at s i = Some x" shows "wp (executeDue cf i now) (\<lambda>_. ended i) (\<lambda>_ _. True) s"
proof -
  have i: "t_ID x = i" using assms by (auto simp: transfer_at_def dest: find_SomeD)
  let ?t = "transfer_of_row s x"
  have t: "tr_ID ?t = i" "tr_State ?t = t_State x" by (simp_all add: transfer_of_row_def Let_def i)
  show ?thesis
  proof (cases "t_State x = t_pending")
    case False
    then show ?thesis using assms t by (auto simp: executeDue_def loadTransfer_def wp_rules ended_def)
  next
    case True
    have row: "transfer_at s (tr_ID ?t) = Some x" using assms t by simp
    have ex: "ended i s'" if "execute cf ?t now s = (Inr a, s')" for a s'
      using wp_resultD [OF execute_ended [OF row] that] t by simp
    have rel: "ended i s'" if "release cf ?t t_cancelled actor now s = (Inr a, s')" for actor a s'
      using wp_resultD [OF release_ended [OF row] that] t by simp
    show ?thesis
      using assms t True ex rel
      by (auto simp: executeDue_def loadTransfer_def bindM_def gets_def wp_def simp del: append_Cons split: prod.splits sum.splits lerr.splits)
  qed
qed

section \<open>Escrows\<close>

text \<open>What of a hold never changes.\<close>

definition hold_ident :: "holdRow \<Rightarrow> string \<times> string \<times> string \<times> string \<times> string \<times> Resource" where
  "hold_ident h = (h_ID h, h_Account h, h_Service h, h_Method h, h_RequestKey h, h_Resource h)"

abbreviation idents :: "led \<Rightarrow> (string \<times> string \<times> string \<times> string \<times> string \<times> Resource) list" where
  "idents s \<equiv> map hold_ident (holds s)"

interpretation keep_idents: parts_frame "keeps idents"
  by unfold_locales (simp_all add: journal_def modifyM_def)

lemma updateHold_idents: "(\<And>h. hold_ident (f h) = hold_ident h) \<Longrightarrow> inside (keeps idents) (updateHold i f)"
  unfolding updateHold_def by (rule keep_idents.within_modify) (simp add: map_upd)

lemma insertTransfer_idents: "inside (keeps idents) (insertTransfer t)"
  unfolding insertTransfer_def by (intro frame_rules keep_idents.frame_unique) simp

lemma EscrowPay_idents: "inside (keeps idents) (EscrowPay cf i to now)"
  unfolding EscrowPay_def escrowPay_def
  by (intro frame_rules updateHold_idents insertTransfer_idents) (simp_all add: hold_ident_def)

lemma find_ident:
  assumes "map hold_ident hs' = map hold_ident hs"
  shows "map_option hold_ident (find (\<lambda>h. h_ID h = i) hs') = map_option hold_ident (find (\<lambda>h. h_ID h = i) hs)"
  using assms
proof (induction hs arbitrary: hs')
  case (Cons h hs)
  then obtain h' t where hs': "hs' = h' # t" and e: "hold_ident h' = hold_ident h" and m: "map hold_ident t = map hold_ident hs"
    by (cases hs') simp_all
  from e have "h_ID h' = h_ID h" by (simp add: hold_ident_def)
  then show ?case using Cons.IH [OF m] e by (simp add: hs')
qed simp

lemma loadEscrow_same:
  assumes "keeps idents s s'" "loadEscrow cf i s = (Inr (h, tid), s)"
  obtains h' where "loadEscrow cf i s' = (Inr (h', tid), s')" "hold_ident h' = hold_ident h"
proof -
  have at: "hold_at s i = Some h" and h: "h_Service h = ledgerService" "h_Method h = escrowMethod" "tid = transferID cf (h_Account h) (h_RequestKey h)"
    using assms(2) by (auto simp: loadEscrow_def loadHoldRow_def bindM_def gets_def throw_def ret_def split: option.splits if_splits)
  obtain h' where at': "hold_at s' i = Some h'" and e: "hold_ident h' = hold_ident h"
    using find_ident [OF assms(1), of i] at by (auto simp: hold_at_def)
  have "h_Service h' = ledgerService" "h_Method h' = escrowMethod" "tid = transferID cf (h_Account h') (h_RequestKey h')"
    using e h by (simp_all add: hold_ident_def)
  then have "loadEscrow cf i s' = (Inr (h', tid), s')"
    using at' by (simp add: loadEscrow_def loadHoldRow_def bindM_def gets_def ret_def)
  then show ?thesis using e by (rule that)
qed

section \<open>Lots across a split or a join\<close>

interpretation keep_lots: step_rel "keeps (\<lambda>s. (lots s, lots_seq s))"
  by unfold_locales simp_all

lemmas escrow_moves = moveEscrow_def move_escrow_part_def delete_part_def reduce_part_def add_part_def journal_def updateHold_def
  params_def liftS_def loadHoldParts_def loadEscrow_def loadHoldRow_def loadHold_def insertHold_def unique_insert_def
  copyCredential_def credentialJoin_def join_add_def holdShares_def holdCredential_def

lemma split_join_lots:
  "inside (keeps (\<lambda>s. (lots s, lots_seq s))) (EscrowSplit cf i amount key until now)"
  "inside (keeps (\<lambda>s. (lots s, lots_seq s))) (EscrowJoin cf i into now)"
  unfolding EscrowSplit_def split_write_def EscrowJoin_def escrow_moves
  by (rule frame_rules keep_lots.within_modify | (simp split: option.splits; fail))+

section \<open>Reads\<close>

interpretation keep_all: step_rel "keeps (\<lambda>s. s)"
  by unfold_locales simp_all

lemmas read_defs = params_def resource_def levers_def classify_def liftS_def loadDay_def previousDay_def loadClaim_def loadRootDay_def
  share_def legacyShare_def prospectiveDay_def ProspectiveShare_def liveLots_def loadUsage_def

lemma reads_pure:
  "inside (keeps (\<lambda>s. s)) (Balance_of cf sb r now)" "inside (keeps (\<lambda>s. s)) (ProspectiveShare cf r st subject now)"
  "inside (keeps (\<lambda>s. s)) (Journal_page q)" "inside (keeps (\<lambda>s. s)) (Stats_of n now)"
  unfolding Balance_of_def Journal_page_def Stats_of_def read_defs by (rule frame_rules)+

section \<open>A split\<close>

lemma move_escrow_part_holds: "inside (keeps holds) (move_escrow_part src dst version now left q)"
  unfolding move_escrow_part_def delete_part_def reduce_part_def add_part_def
  by (rule keep_holds.frame_any_line frame_rules keep_holds.within_modify | (simp; fail))+

lemma moveEscrow_holds:
  "wp (moveEscrow cf src dst amount now) (\<lambda>_ s'. holds s' = upd (\<lambda>h. h_ID h = hd_ID dst) (\<lambda>h. h\<lparr>h_Max := h_Max h + amount\<rparr>)
     (upd (\<lambda>h. h_ID h = hd_ID src) (\<lambda>h. h\<lparr>h_Max := h_Max h - amount\<rparr>) (holds s))) (\<lambda>_ _. True) s"
proof -
  have fin: "wp (if left \<noteq> 0 then throw (Internal e) else thenM (updateHold (hd_ID src) (\<lambda>h. h\<lparr>h_Max := h_Max h - amount\<rparr>))
       (updateHold (hd_ID dst) (\<lambda>h. h\<lparr>h_Max := h_Max h + amount\<rparr>)))
      (\<lambda>_ s'. holds s' = upd (\<lambda>h. h_ID h = hd_ID dst) (\<lambda>h. h\<lparr>h_Max := h_Max h + amount\<rparr>)
        (upd (\<lambda>h. h_ID h = hd_ID src) (\<lambda>h. h\<lparr>h_Max := h_Max h - amount\<rparr>) (holds s))) (\<lambda>_ _. True) s'"
    if "holds s' = holds s" for left e s'
    using that by (simp add: updateHold_def wp_rules)
  show ?thesis
    unfolding moveEscrow_def case_prod_unfold
    by (rule frame_bind_wp [of "keeps holds"], rule frame_rules move_escrow_part_holds,
        (rule frame_rules move_escrow_part_holds)?)+ (simp add: fin)
qed

definition split_row :: "Config \<Rightarrow> holdRow \<Rightarrow> string \<Rightarrow> int \<Rightarrow> int \<Rightarrow> int \<Rightarrow> holdRow" where
  "split_row cf src key mx until now = \<lparr>h_ID = fst (escrowKeys cf (h_Account src) key), h_Account = h_Account src, h_Resource = h_Resource src,
     h_Max = mx, h_Used = 0, h_State = h_held, h_RequestKey = ''escrow:'' @ key, h_Service = ledgerService, h_Method = escrowMethod,
     h_CreatedAt = now, h_ExpiresAt = min until (h_ExpiresAt src)\<rparr>"

lemma EscrowSplit_holds:
  assumes src: "hold_at s i = Some src" and new: "hold_at s (fst (escrowKeys cf (h_Account src) key)) = None"
  shows "wp (EscrowSplit cf i amount key until now) (\<lambda>_ s'. 0 < amount \<and> amount \<le> h_Max src \<and> h_State src = h_held
      \<and> hold_at s' i = Some (src\<lparr>h_Max := h_Max src - amount\<rparr>)
      \<and> hold_at s' (fst (escrowKeys cf (h_Account src) key)) = Some (split_row cf src key amount until now)) (\<lambda>_ _. True) s"
proof -
  let ?j = "fst (escrowKeys cf (h_Account src) key)"
  let ?row = "split_row cf src key 0 until now"
  have i: "h_ID src = i" using src by (auto simp: hold_at_def dest: find_SomeD)
  have ij: "i \<noteq> ?j" using src new by auto
  let ?hs = "upd (\<lambda>h. h_ID h = ?j) (\<lambda>h. h\<lparr>h_Max := h_Max h + amount\<rparr>) (upd (\<lambda>h. h_ID h = i) (\<lambda>h. h\<lparr>h_Max := h_Max h - amount\<rparr>) (holds s @ [?row]))"
  have res: "hold_at s' i = Some (src\<lparr>h_Max := h_Max src - amount\<rparr>) \<and> hold_at s' ?j = Some (split_row cf src key amount until now)"
    if "holds s' = ?hs" for s'
    using src new i ij unfolding hold_at_def that
    by (simp add: find_upd find_append split_row_def)
  have wr: "wp (split_write cf src ?row h amount now) (\<lambda>_ s'. holds s' = ?hs) (\<lambda>_ _. True) s"
    if "hd_ID h = ?j" for h
  proof -
    have "wp (copyCredential (h_ID src) ?j) (\<lambda>_. wp (moveEscrow cf (hold_of_row src) h amount now) (\<lambda>_ s'. holds s' = ?hs) (\<lambda>_ _. True)) (\<lambda>_ _. True)
        (s\<lparr>holds := holds s @ [?row]\<rparr>)"
      by (rule frame_wp [OF keep_holds.frame_copy], rule wp_conseq [OF moveEscrow_holds]) (simp_all add: that i hold_of_row_def)
    then show ?thesis
      by (auto simp: split_write_def insertHold_def wp_rules split_row_def elim!: wp_conseq)
  qed
  have row: "\<lparr>h_ID = ?j, h_Account = h_Account src, h_Resource = h_Resource src, h_Max = 0, h_Used = 0, h_State = h_held,
      h_RequestKey = ''escrow:'' @ key, h_Service = ledgerService, h_Method = escrowMethod, h_CreatedAt = now,
      h_ExpiresAt = (if until > h_ExpiresAt src then h_ExpiresAt src else until)\<rparr> = ?row"
    by (simp add: split_row_def min_def)
  have fin: "wp (split_write cf src ?row h amount now) (\<lambda>_ s'. hold_at s' i = Some (src\<lparr>h_Max := h_Max src - amount\<rparr>)
      \<and> hold_at s' ?j = Some (split_row cf src key amount until now)) (\<lambda>_ _. True) s"
    if "hd_ID h = ?j" for h
    by (rule wp_conseq [OF wr]) (use that res in auto)
  show ?thesis
    unfolding EscrowSplit_def loadEscrow_def loadHoldRow_def loadHold_def
    by (simp add: wp_rules src new Let_def row fin del: append_Cons)
qed

section \<open>Reserve\<close>

lemma Reserve_adds:
  "wp (Reserve cf sb r mx key ref ttl now) (\<lambda>_ s'. \<not> hold_limit_hit cf (s_ID sb) (ref_Service ref) s \<and> (\<exists>h. holds s' = holds s @ [h]
     \<and> h_Account h = s_ID sb \<and> h_Service h = ref_Service ref \<and> h_Max h = mx \<and> h_State h = h_held)) (\<lambda>_ _. True) s"
proof -
  let ?P = "\<lambda>h. h_Account h = s_ID sb \<and> h_Service h = ref_Service ref \<and> h_Max h = mx \<and> h_State h = h_held"
  let ?A = "\<lambda>s'. \<exists>h. holds s' = holds s @ [h] \<and> ?P h"
  have stay: "stable ?A m" if "inside (keeps holds) m" for m :: "'a LM"
    using that by (auto simp: inside_def)
  have hw: "wp (hold_write p sb c h key ref parts d) (\<lambda>_. ?A) (\<lambda>_ _. True) s'"
    if "holds s' = holds s" "hd_Account h = s_ID sb" "hd_Max h = mx" for p c h parts d s'
  proof -
    have ins: "wp (insertHold (hold_row h p key (ref_Service ref) (ref_Method ref))) (\<lambda>_. ?A) (\<lambda>_ _. True) s''"
      if "holds s'' = holds s" for s''
      using that \<open>hd_Account h = s_ID sb\<close> \<open>hd_Max h = mx\<close> by (auto simp: insertHold_def wp_rules hold_row_def)
    show ?thesis
      unfolding hold_write_def
      by (rule frame_then_wp [of "keeps holds"], rule frame_rules)+
        (rule wp_ends_in, rule ins, simp add: that(1), rule stay, (rule frame_rules)+)
  qed
  have pr: "wp (hold sb c h key ref) (\<lambda>_. ?A) (\<lambda>_ _. True) s'"
    if "holds s' = holds s" "hd_Account h = s_ID sb" "hd_Max h = mx" for c h s'
    unfolding hold_def
    by (rule frame_bind_wp [of "keeps holds"], rule frame_rules)+
      (auto simp: wp_rules that intro!: hw split: sum.splits prod.splits)
  let ?h = "\<lparr>hd_ID = holdID cf (s_ID sb) key, hd_Account = s_ID sb, hd_Resource = r, hd_Max = mx, hd_ExpiresAt = now + ttl, hd_State = h_held\<rparr>"
  let ?k = "\<lambda>res :: lerr + unit. bindM (gets lop) (\<lambda>p. case res of Inl e \<Rightarrow> thenM (noteRefusal (o_day p) r e) (throw e) | Inr _ \<Rightarrow> ret ?h)"
  have ok: "wp (thenM save (?k (Inr a))) (\<lambda>_. ?A) (\<lambda>_ _. True) s'" if "?A s'" for a s'
    by (rule frame_wp [of "keeps holds"], (rule frame_rules)+) (use that in auto)
  have err: "wp (?k (Inl e)) (\<lambda>_. ?A) (\<lambda>_ _. True) s'" for e s'
    by (auto simp: wp_rules intro!: wp_noteRefusal)
  have fin: "wp (finish (hold sb c ?h key ref) ?k) (\<lambda>_. ?A) (\<lambda>_ _. True) s'" if "holds s' = holds s" for c s'
    by (rule wp_finish_any [OF pr [OF that]]) (simp, simp, rule ok, assumption, rule err)
  have main: "wp (thenM (open_op cf r now) (thenM (sweepOwn (s_ID sb)) (bindM (claim cf sb) (\<lambda>c. finish (hold sb c ?h key ref) ?k))))
      (\<lambda>_. ?A) (\<lambda>_ _. True) s"
    by ((rule frame_then_wp [of "keeps holds"] frame_bind_wp [of "keeps holds"], rule frame_rules)+, rule fin, simp)
  show ?thesis
    unfolding Reserve_def loadHold_def loadHoldRow_def Let_def
    using main by (simp add: wp_rules split: option.splits)
qed

end
