(* ===== verification/Flow_Props.thy ===== *)
theory Flow_Props
  imports Flow_Spec Scenario
begin

text \<open>
  Transfers, escrows and reads: how a pending transfer ends, what a retried payment and a split do,
  which calls change nothing, what a journal page shows.
\<close>

section \<open>Transfers\<close>

text \<open>
  C37: when the sweeper succeeds on a due transfer, the transfer has ended, done or cancelled: a
  transfer it could not execute is not left pending to be tried for ever.
\<close>

theorem due_transfer_ends:
  assumes "transfer_at s i = Some t" "executeDue cf i now s = (Inr u, s')"
  shows "\<exists>t'. transfer_at s' i = Some t' \<and> t_State t' \<noteq> t_pending"
  using wp_resultD [OF executeDue_ended [OF assms(1)] assms(2)] by (simp add: ended_def)

theorem due_transfer_ends_witness:
  "\<exists>s' t'. executeDue demo_cf (transferID demo_cf ''a'' ''t'') 173800 (demo_pending demo_op) = (Inr (), s')
    \<and> transfer_at s' (transferID demo_cf ''a'' ''t'') = Some t' \<and> t_State t' \<noteq> t_pending"
proof -
  obtain s' where r: "executeDue demo_cf (transferID demo_cf ''a'' ''t'') 173800 (demo_pending demo_op) = (Inr (), s')"
    using run_due by blast
  have "transfer_at (demo_pending demo_op) (transferID demo_cf ''a'' ''t'') = Some demo_pending_row"
    by (simp add: transfer_at_def demo_pending_def demo_pending_row_def)
  from due_transfer_ends [OF this r] r show ?thesis by auto
qed

text \<open>
  cancelling succeeds only on a pending transfer that is not yet due, and ends it; an unknown, an
  ended and a due transfer are each refused under their own code, and nothing changes.
\<close>

theorem cancel_only_pending:
  "(CancelTransfer cf i actor now s = (Inr c, s')
     \<longrightarrow> (\<exists>t. transfer_at s i = Some t \<and> t_State t = t_pending \<and> now < t_ExecuteAt t) \<and> ended i s' \<and> tr_State c = t_cancelled)
   \<and> (transfer_at s i = None \<longrightarrow> CancelTransfer cf i actor now s = (Inl (refuse ''transfer_not_found''), s))
   \<and> (transfer_at s i = Some t \<and> t_State t \<noteq> t_pending \<longrightarrow> CancelTransfer cf i actor now s = (Inl (refuse ''transfer_not_pending''), s))
   \<and> (transfer_at s i = Some t \<and> t_State t = t_pending \<and> t_ExecuteAt t \<le> now \<longrightarrow> CancelTransfer cf i actor now s = (Inl (refuse ''transfer_due''), s))"
proof -
  have sel: "tr_State (transfer_of_row s x) = t_State x" "tr_ExecuteAt (transfer_of_row s x) = t_ExecuteAt x" "tr_ID (transfer_of_row s x) = t_ID x" for x
    by (simp_all add: transfer_of_row_def Let_def)
  have ok: "(\<exists>t. transfer_at s i = Some t \<and> t_State t = t_pending \<and> now < t_ExecuteAt t) \<and> ended i s' \<and> tr_State c = t_cancelled"
    if r: "CancelTransfer cf i actor now s = (Inr c, s')"
  proof -
    from r obtain x where x: "transfer_at s i = Some x" "t_State x = t_pending" "now < t_ExecuteAt x" "tr_State c = t_cancelled"
      and rel: "release cf (transfer_of_row s x) t_cancelled actor now s = (Inr (), s')"
      by (auto simp: CancelTransfer_def loadTransfer_def bindM_def thenM_def gets_def throw_def ret_def sel
        split: option.splits if_splits prod.splits sum.splits)
    have i: "t_ID x = i" using x(1) by (auto simp: transfer_at_def dest: find_SomeD)
    with x(1) have row: "transfer_at s (tr_ID (transfer_of_row s x)) = Some x" by (simp add: sel)
    from wp_resultD [OF release_ended [OF row] rel] i have "ended i s'" by (simp add: sel)
    with x show ?thesis by blast
  qed
  then show ?thesis
    by (auto simp: CancelTransfer_def loadTransfer_def bindM_def gets_def throw_def sel)
qed

section \<open>Escrows\<close>

text \<open>
  an escrow is paid once: paying it again, to anyone and at any time, returns the first payment and
  changes nothing.
\<close>

theorem escrow_pay_retry:
  assumes "EscrowPay cf i to now s = (Inr t, s')"
  shows "\<exists>t'. EscrowPay cf i to' now' s' = (Inr t', s') \<and> tr_ID t' = tr_ID t \<and> tr_To t' = tr_To t \<and> tr_Amount t' = tr_Amount t
    \<and> tr_State t' = tr_State t"
proof -
  obtain h tid where e: "loadEscrow cf i s = (Inr (h, tid), s)"
    using assms by (auto simp: EscrowPay_def bindM_def loadEscrow_def loadHoldRow_def gets_def throw_def ret_def split: option.splits if_splits)
  obtain h' where e': "loadEscrow cf i s' = (Inr (h', tid), s')"
    using loadEscrow_same [OF within_run [OF EscrowPay_idents assms] e] by blast
  have "\<exists>x. transfer_at s' tid = Some x \<and> row_of t x"
  proof (cases "transfer_at s tid")
    case (Some x)
    then show ?thesis
      using assms e by (auto simp: EscrowPay_def bindM_def loadTransfer_def gets_def ret_def transfer_of_row_def Let_def row_of_def)
  next
    case None
    have "ends (stored tid) (thenM (open_op cf (h_Resource h) now) (finish (escrowPay (hold_of_row h) to tid) liftE))"
      by (rule ends_finish_value [OF escrowPay_ends] end_rules frame_rules)+
    from endsD [OF this, of s t s'] show ?thesis
      using assms e None by (auto simp: EscrowPay_def bindM_def loadTransfer_def gets_def throw_def added_transfer_def split: if_splits)
  qed
  then show ?thesis
    using e' by (auto simp: EscrowPay_def bindM_def loadTransfer_def gets_def ret_def transfer_of_row_def Let_def row_of_def)
qed

text \<open>
  splitting an open escrow moves exactly the amount asked to a new escrow of the same account, which
  ends no later than the first, and takes it off the first; no lot changes.
\<close>

theorem escrow_split_exact:
  assumes "EscrowSplit cf i amount key until now s = (Inr h, s')" "hold_at s i = Some src"
    and "hold_at s (fst (escrowKeys cf (h_Account src) key)) = None"
  shows "0 < amount \<and> amount \<le> h_Max src \<and> h_State src = h_held \<and> hold_at s' i = Some (src\<lparr>h_Max := h_Max src - amount\<rparr>)
    \<and> (\<exists>x. hold_at s' (fst (escrowKeys cf (h_Account src) key)) = Some x \<and> h_Account x = h_Account src \<and> h_Max x = amount
        \<and> h_State x = h_held \<and> h_ExpiresAt x \<le> h_ExpiresAt src)
    \<and> lots s' = lots s"
  using wp_resultD [OF EscrowSplit_holds [OF assms(2,3)] assms(1)] within_run [OF split_join_lots(1) assms(1)]
  by (auto simp: split_row_def)

section \<open>Reserves\<close>

text \<open>
  A reserve for a service that is no deposit succeeds only while the account has fewer than
  \<open>HoldsPerAccount\<close> such holds open and all accounts together fewer than \<open>HoldsTotal\<close>; after it
  both counts are still within their bounds.
\<close>

theorem reserve_within_limit:
  assumes "Reserve cf sb r mx key ref ttl now s = (Inr h, s')" "ref_Service ref \<notin> set (cf_Deposits cf)"
  shows "open_holds s' (\<lambda>h. h_Service h \<notin> set (ledgerService # cf_Deposits cf) \<and> h_Account h = s_ID sb) \<le> HoldsPerAccount
    \<and> open_holds s' (\<lambda>h. h_Service h \<notin> set (ledgerService # cf_Deposits cf)) \<le> HoldsTotal"
  using wp_resultD [OF Reserve_adds assms(1)] assms(2) by (auto simp: open_holds_def hold_limit_hit_def)

section \<open>Reads\<close>

lemma is_anon_like: "is_anon a \<Longrightarrow> like_anon a"
  by (simp add: is_anon_def like_anon_def anon_prefix_def ascii_lower_def)

text \<open>Balances, prospective shares, journal pages and statistics are reads: they change nothing, whatever they return.\<close>

theorem reads_change_nothing:
  "snd (Balance_of cf sb r now s) = s \<and> snd (ProspectiveShare cf r st subject now s) = s \<and> snd (Journal_page q s) = s \<and> snd (Stats_of n now s) = s"
  using reads_pure by (simp add: inside_def)

lemma newest_first_sorted: "sorted (map (\<lambda>e. - je_Seq e) (take n (newest_first es)))"
  unfolding newest_first_def take_map [symmetric] by (rule sorted_wrt_take) (rule sorted_sort_key)

lemma filtered_sorted: "sorted (map f es) \<Longrightarrow> sorted (map f (take n (filter P es)))"
  unfolding take_map [symmetric] by (rule sorted_wrt_take, rule sorted_filter)

lemma demo_page:
  "Journal_page \<lparr>jq_Account = [], jq_Before = 5, jq_Limit = 2\<rparr> (demo_committed p)
    = (Inr ([demo_hold_line 4 k_commit 60 1010, demo_hold_line 3 k_reserve 100 1000], 3), demo_committed p)"
  by (simp add: Journal_page_def Let_def ret_def bindM_def gets_def is_anon_def anon_prefix_def JournalPageMax_def scan_window_def
      newest_first_def demo_committed_def demo_reserved_def demo_line_def demo_claim_line_def demo_hold_line_def entry0_def
      journalScanMax_def like_anon_def ascii_lower_def)

text \<open>
  a page of the public journal never shows a line of an anonymous subject, has at most
  \<open>JournalPageMax\<close> lines, all of them lines of the journal before the cursor, and runs from the newest
  back.
\<close>

theorem journal_page_public:
  assumes "Journal_page q s = (Inr (out, nxt), s')"
  shows "(\<forall>e\<in>set out. \<not> is_anon (je_Account e) \<and> e \<in> set (entries s) \<and> (0 < jq_Before q \<longrightarrow> je_Seq e < jq_Before q)
      \<and> (jq_Account q \<noteq> [] \<longrightarrow> je_Account e = jq_Account q))
    \<and> int (length out) \<le> JournalPageMax \<and> sorted (map (\<lambda>e. - je_Seq e) out)"
proof -
  let ?before = "if jq_Before q \<le> 0 then maxInt64 else jq_Before q"
  let ?limit = "if jq_Limit q \<le> 0 \<or> jq_Limit q > JournalPageMax then JournalPageMax else jq_Limit q"
  show ?thesis
  proof (cases "is_anon (jq_Account q)")
    case True
    then show ?thesis using assms by (simp add: Journal_page_def Let_def ret_def JournalPageMax_def)
  next
    case False
    then have out: "out = (if jq_Account q \<noteq> [] then
          take (nat ?limit) (newest_first (filter (\<lambda>e. je_Account e = jq_Account q \<and> je_Seq e < ?before) (entries s)))
        else take (nat ?limit) (filter (\<lambda>e. \<not> like_anon (je_Account e)) (scan_window (entries s) ?before)))"
      using assms by (auto simp: Journal_page_def Let_def ret_def bindM_def gets_def simp del: if_split_asm)
    obtain n b where n: "int n \<le> JournalPageMax" and b: "0 < jq_Before q \<longrightarrow> b = jq_Before q"
      and outs: "jq_Account q \<noteq> [] \<longrightarrow> out = take n (newest_first (filter (\<lambda>e. je_Account e = jq_Account q \<and> je_Seq e < b) (entries s)))"
        "jq_Account q = [] \<longrightarrow> out = take n (filter (\<lambda>e. \<not> like_anon (je_Account e)) (scan_window (entries s) b))"
      using that [of "nat ?limit" ?before] out by (auto simp: JournalPageMax_def simp del: if_split_asm)
    have "int (length out) \<le> JournalPageMax" using n outs by (cases "jq_Account q = []") auto
    moreover have "sorted (map (\<lambda>e. - je_Seq e) out)"
      using outs by (cases "jq_Account q = []") (simp_all add: scan_window_def newest_first_sorted filtered_sorted)
    moreover have "\<forall>e\<in>set out. \<not> is_anon (je_Account e) \<and> e \<in> set (entries s) \<and> je_Seq e < b
        \<and> (jq_Account q \<noteq> [] \<longrightarrow> je_Account e = jq_Account q)"
      using outs False by (cases "jq_Account q = []") (auto simp: scan_window_def newest_first_def dest!: in_set_takeD dest: is_anon_like)
    ultimately show ?thesis using b by blast
  qed
qed

end
