(* ===== verification/Merkle.thy ===== *)
theory Merkle
  imports Main
begin

text \<open>
  RFC 6962 as a specification: the tree hash of a list of leaf hashes, the audit path of a leaf and
  the consistency proof of a prefix, all by the recursion of the RFC, over any function \<open>nd\<close> that
  hashes two nodes into one. The lemmas give each of them level by level: joining adjacent nodes and
  carrying an odd last node up (\<open>pairup\<close>) keeps the tree hash, and takes one step off a path. The
  verifiers of \<open>Tlog\<close> climb the tree in those steps.
\<close>

section \<open>Powers of two\<close>

text \<open>\<open>bits.Len64\<close>: the bits needed to write a number.\<close>

fun Len64 :: "nat \<Rightarrow> nat" where
  "Len64 x = (if x = 0 then 0 else Suc (Len64 (x div 2)))"

declare Len64.simps [simp del]

lemma Len64_0 [simp]: "Len64 0 = 0"
  by (simp add: Len64.simps)

lemma Len64_bounds: "0 < x \<Longrightarrow> 2 ^ (Len64 x - 1) \<le> x \<and> x < 2 ^ Len64 x \<and> 0 < Len64 x"
proof (induction x rule: Len64.induct)
  case (1 x)
  show ?case
  proof (cases "x = 1")
    case True
    then show ?thesis by (simp add: Len64.simps)
  next
    case False
    with 1 have IH: "2 ^ (Len64 (x div 2) - 1) \<le> x div 2" "x div 2 < 2 ^ Len64 (x div 2)" "0 < Len64 (x div 2)" by auto
    then obtain n where "Len64 (x div 2) = Suc n" by (auto dest: gr0_implies_Suc)
    with IH 1(2) show ?thesis by (simp add: Len64.simps [of x]) linarith
  qed
qed

definition largestPow2Below :: "nat \<Rightarrow> nat" where
  "largestPow2Below n = 2 ^ (Len64 (n - 1) - 1)"

lemma pow2_below: "1 < n \<Longrightarrow> largestPow2Below n < n \<and> n \<le> 2 * largestPow2Below n"
proof -
  assume n: "1 < n"
  then obtain j where j: "Len64 (n - 1) = Suc j" using Len64_bounds [of "n - 1"] by (auto dest: gr0_implies_Suc)
  have "2 ^ j \<le> n - 1" "n - 1 < 2 * 2 ^ j" using n Len64_bounds [of "n - 1"] j by auto
  moreover have "largestPow2Below n = 2 ^ j" unfolding largestPow2Below_def j by simp
  ultimately show ?thesis using n by linarith
qed

lemma pow2_below_less [simp]: "Suc 0 < n \<Longrightarrow> largestPow2Below n < n"
  using pow2_below [of n] by simp

lemma pow2_below_pos [simp]: "0 < largestPow2Below n"
  by (simp add: largestPow2Below_def)

lemma pow2_between: "2 ^ i < n \<Longrightarrow> n \<le> 2 * 2 ^ j \<Longrightarrow> i \<le> (j::nat)" for n :: nat
proof (rule ccontr)
  assume a: "2 ^ i < n" "n \<le> 2 * 2 ^ j" "\<not> i \<le> j"
  then have "(2::nat) ^ Suc j \<le> 2 ^ i" by (intro power_increasing) auto
  with a show False by simp
qed

lemma pow2_below_unique: "2 ^ i < n \<Longrightarrow> n \<le> 2 * 2 ^ i \<Longrightarrow> largestPow2Below n = 2 ^ i"
proof -
  assume a: "2 ^ i < n" "n \<le> 2 * 2 ^ i"
  have "0 < (2::nat) ^ i" by simp
  with a have "1 < n" by linarith
  define j where "j = Len64 (n - 1) - 1"
  have j: "largestPow2Below n = 2 ^ j" by (simp add: largestPow2Below_def j_def)
  with pow2_below [OF \<open>1 < n\<close>] have "2 ^ j < n" "n \<le> 2 * 2 ^ j" by auto
  with a have "i = j" using pow2_between [of i n j] pow2_between [of j n i] by simp
  with j show ?thesis by simp
qed

lemma pow2_below_half:
  assumes "2 < n"
  shows "even (largestPow2Below n) \<and> largestPow2Below ((n + 1) div 2) = largestPow2Below n div 2"
proof -
  have b: "largestPow2Below n < n" "n \<le> 2 * largestPow2Below n" using pow2_below [of n] assms by auto
  define j where "j = Len64 (n - 1) - 1"
  have k: "largestPow2Below n = 2 ^ j" by (simp add: largestPow2Below_def j_def)
  with b assms have "j \<noteq> 0" by (intro notI) simp
  then obtain i where i: "j = Suc i" by (cases j) auto
  with k b have "2 ^ i < (n + 1) div 2" "(n + 1) div 2 \<le> 2 * 2 ^ i" by auto
  from pow2_below_unique [OF this] k i show ?thesis by simp
qed

section \<open>The tree\<close>

function mth :: "('h \<Rightarrow> 'h \<Rightarrow> 'h) \<Rightarrow> 'h list \<Rightarrow> 'h" where
  "mth nd xs = (if length xs \<le> 1 then hd xs
     else let k = largestPow2Below (length xs) in nd (mth nd (take k xs)) (mth nd (drop k xs)))"
  by pat_completeness auto
termination
  by (relation "measure (\<lambda>(nd, xs). length xs)") (auto simp: not_le min_def intro!: diff_less)

declare mth.simps [simp del]

lemma mth_one [simp]: "mth nd [x] = x"
  by (simp add: mth.simps)

lemma pow2_below_two [simp]: "largestPow2Below (Suc (Suc 0)) = 1"
  using pow2_below_unique [of 0 2] by (simp add: numeral_2_eq_2)

lemma mth_two: "mth nd [x, y] = nd x y"
  by (simp add: mth.simps [of nd "[x, y]"])

lemma mth_split: "1 < length xs \<Longrightarrow>
  mth nd xs = nd (mth nd (take (largestPow2Below (length xs)) xs)) (mth nd (drop (largestPow2Below (length xs)) xs))"
  by (simp add: mth.simps [of nd xs] Let_def)

text \<open>The pairs of hashes that are hashed when the tree is computed.\<close>

function mth_pairs :: "('h \<Rightarrow> 'h \<Rightarrow> 'h) \<Rightarrow> 'h list \<Rightarrow> ('h \<times> 'h) list" where
  "mth_pairs nd xs = (if length xs \<le> 1 then []
     else let k = largestPow2Below (length xs) in
       (mth nd (take k xs), mth nd (drop k xs)) # mth_pairs nd (take k xs) @ mth_pairs nd (drop k xs))"
  by pat_completeness auto
termination
  by (relation "measure (\<lambda>(nd, xs). length xs)") (auto simp: not_le min_def intro!: diff_less)

declare mth_pairs.simps [simp del]

function mpath :: "('h \<Rightarrow> 'h \<Rightarrow> 'h) \<Rightarrow> nat \<Rightarrow> 'h list \<Rightarrow> 'h list" where
  "mpath nd m xs = (if length xs \<le> 1 then []
     else let k = largestPow2Below (length xs) in
       if m < k then mpath nd m (take k xs) @ [mth nd (drop k xs)]
       else mpath nd (m - k) (drop k xs) @ [mth nd (take k xs)])"
  by pat_completeness auto
termination
  by (relation "measure (\<lambda>(nd, m, xs). length xs)") (auto simp: not_le min_def intro!: diff_less)

declare mpath.simps [simp del]

function mproof :: "('h \<Rightarrow> 'h \<Rightarrow> 'h) \<Rightarrow> nat \<Rightarrow> 'h list \<Rightarrow> bool \<Rightarrow> 'h list" where
  "mproof nd m xs complete = (if m \<ge> length xs then if complete then [] else [mth nd xs]
     else if length xs \<le> 1 then []
     else let k = largestPow2Below (length xs) in
       if m \<le> k then mproof nd m (take k xs) complete @ [mth nd (drop k xs)]
       else mproof nd (m - k) (drop k xs) False @ [mth nd (take k xs)])"
  by pat_completeness auto
termination
  by (relation "measure (\<lambda>(nd, m, xs, c). length xs)") (auto simp: not_le min_def intro!: diff_less)

declare mproof.simps [simp del]

section \<open>Level by level\<close>

fun pairup :: "('h \<Rightarrow> 'h \<Rightarrow> 'h) \<Rightarrow> 'h list \<Rightarrow> 'h list" where
  "pairup nd (x # y # zs) = nd x y # pairup nd zs"
| "pairup nd xs = xs"

lemma length_pairup [simp]: "length (pairup nd xs) = (length xs + 1) div 2"
  by (induction nd xs rule: pairup.induct) auto

lemma pairup_append: "even (length xs) \<Longrightarrow> pairup nd (xs @ ys) = pairup nd xs @ pairup nd ys"
  by (induction nd xs rule: pairup.induct) auto

lemma pairup_nth: "2 * i + 1 < length xs \<Longrightarrow> pairup nd xs ! i = nd (xs ! (2 * i)) (xs ! (2 * i + 1))"
  by (induction nd xs arbitrary: i rule: pairup.induct) (auto simp: nth_Cons split: nat.splits)

lemma pairup_last: "2 * i + 1 = length xs \<Longrightarrow> pairup nd xs ! i = xs ! (2 * i)"
  by (induction nd xs arbitrary: i rule: pairup.induct) (auto simp: nth_Cons split: nat.splits)

lemma pairup_take: "even k \<Longrightarrow> k \<le> length xs \<Longrightarrow> take (k div 2) (pairup nd xs) = pairup nd (take k xs)"
  using pairup_append [of "take k xs" nd "drop k xs"] by (simp add: min_def)

lemma pairup_drop: "even k \<Longrightarrow> k \<le> length xs \<Longrightarrow> drop (k div 2) (pairup nd xs) = pairup nd (drop k xs)"
  using pairup_append [of "take k xs" nd "drop k xs"] by (simp add: min_def)

text \<open>A tree of one or two leaves, or one whose halves the statement holds of, the left of even size.\<close>

lemma tree_cases [consumes 1]:
  assumes "0 < length xs"
  obtains (One) x where "xs = [x]" | (Two) x y where "xs = [x, y]"
  | (Split) k where "2 < length xs" "largestPow2Below (length xs) = k" "even k" "0 < k" "k < length xs"
    "largestPow2Below ((length xs + 1) div 2) = k div 2" "length xs - k \<le> k"
proof (cases "2 < length xs")
  case True
  then show ?thesis using Split [of "largestPow2Below (length xs)"] pow2_below_half [of "length xs"] pow2_below [of "length xs"] by simp
next
  case False
  with assms show ?thesis using One Two by (cases xs; cases "tl xs") (auto simp: Suc_le_eq)
qed

lemma mth_pairup: "xs \<noteq> [] \<Longrightarrow> mth nd (pairup nd xs) = mth nd xs"
proof (induction xs rule: length_induct)
  case (1 xs)
  then have "0 < length xs" by simp
  then show ?case
  proof (cases rule: tree_cases)
    case (Split k)
    have "mth nd (pairup nd xs) = nd (mth nd (pairup nd (take k xs))) (mth nd (pairup nd (drop k xs)))"
      using Split by (subst mth_split) (simp_all add: pairup_take pairup_drop)
    moreover have "mth nd (pairup nd (take k xs)) = mth nd (take k xs)" "mth nd (pairup nd (drop k xs)) = mth nd (drop k xs)"
      using 1 Split by simp_all
    ultimately show ?thesis using Split by (simp add: mth_split [of xs])
  qed (simp_all add: mth_two)
qed

text \<open>What the first level hashes.\<close>

fun level_pairs :: "'h list \<Rightarrow> ('h \<times> 'h) list" where
  "level_pairs (x # y # zs) = (x, y) # level_pairs zs"
| "level_pairs xs = []"

lemma level_pairs_append: "even (length xs) \<Longrightarrow> level_pairs (xs @ ys) = level_pairs xs @ level_pairs ys"
  by (induction xs rule: level_pairs.induct) auto

lemma level_pairs_mem: "2 * i + 1 < length xs \<Longrightarrow> (xs ! (2 * i), xs ! (2 * i + 1)) \<in> set (level_pairs xs)"
proof (induction xs arbitrary: i rule: level_pairs.induct)
  case (1 x y zs)
  then show ?case by (cases i) auto
qed simp_all

lemma mth_pairs_split: "1 < length xs \<Longrightarrow> largestPow2Below (length xs) = k \<Longrightarrow> set (mth_pairs nd xs) =
   insert (mth nd (take k xs), mth nd (drop k xs)) (set (mth_pairs nd (take k xs)) \<union> set (mth_pairs nd (drop k xs)))"
  by (subst mth_pairs.simps) (simp add: Let_def)

lemma mth_pairs_one [simp]: "mth_pairs nd [x] = []"
  by (simp add: mth_pairs.simps)

lemma mth_pairs_up: "xs \<noteq> [] \<Longrightarrow> set (mth_pairs nd xs) = set (level_pairs xs) \<union> set (mth_pairs nd (pairup nd xs))"
proof (induction xs rule: length_induct)
  case (1 xs)
  then have "0 < length xs" by simp
  then show ?case
  proof (cases rule: tree_cases)
    case (Two x y)
    then show ?thesis by (simp add: mth_pairs_split)
  next
    case (Split k)
    have ne: "take k xs \<noteq> []" "drop k xs \<noteq> []" using Split by auto
    have "set (mth_pairs nd (pairup nd xs)) = insert (mth nd (take k xs), mth nd (drop k xs))
        (set (mth_pairs nd (pairup nd (take k xs))) \<union> set (mth_pairs nd (pairup nd (drop k xs))))"
      using Split ne by (subst mth_pairs_split [where k = "k div 2"]) (simp_all add: pairup_take pairup_drop mth_pairup)
    moreover have "set (level_pairs xs) = set (level_pairs (take k xs)) \<union> set (level_pairs (drop k xs))"
      using Split level_pairs_append [of "take k xs" "drop k xs"] by simp
    moreover have "set (mth_pairs nd (take k xs)) = set (level_pairs (take k xs)) \<union> set (mth_pairs nd (pairup nd (take k xs)))"
      "set (mth_pairs nd (drop k xs)) = set (level_pairs (drop k xs)) \<union> set (mth_pairs nd (pairup nd (drop k xs)))"
      using 1 Split ne by simp_all
    moreover note mth_pairs_split [of xs k nd]
    ultimately show ?thesis using Split by auto
  qed (simp_all)
qed

section \<open>Paths, level by level\<close>

lemma mpath_one [simp]: "mpath nd m [x] = []"
  by (simp add: mpath.simps)

lemma mpath_split: "1 < length xs \<Longrightarrow> largestPow2Below (length xs) = k \<Longrightarrow> mpath nd m xs =
   (if m < k then mpath nd m (take k xs) @ [mth nd (drop k xs)] else mpath nd (m - k) (drop k xs) @ [mth nd (take k xs)])"
  by (subst mpath.simps) (simp add: Let_def)

text \<open>The sibling of a leaf on the first level; an odd last leaf has none.\<close>

definition sibling :: "nat \<Rightarrow> 'h list \<Rightarrow> 'h list" where
  "sibling m xs = (if odd m then [xs ! (m - 1)] else if m + 1 < length xs then [xs ! (m + 1)] else [])"

lemma sibling_take: "even k \<Longrightarrow> k \<le> length xs \<Longrightarrow> m < k \<Longrightarrow> sibling m (take k xs) = sibling m xs"
proof -
  assume a: "even k" "k \<le> length xs" "m < k"
  then have "even m \<Longrightarrow> m + 1 < k" by (metis Suc_eq_plus1 Suc_leI even_Suc le_neq_implies_less)
  with a show ?thesis by (auto simp: sibling_def)
qed

lemma sibling_drop: "even k \<Longrightarrow> k \<le> m \<Longrightarrow> m < length xs \<Longrightarrow> sibling (m - k) (drop k xs) = sibling m xs"
proof -
  assume a: "even k" "k \<le> m" "m < length xs"
  then have "odd m \<Longrightarrow> k < m" by (metis le_neq_implies_less)
  moreover have "odd (m - k) = odd m" using a by simp
  ultimately show ?thesis using a by (auto simp: sibling_def Suc_diff_le)
qed

lemma mpath_up: "m < length xs \<Longrightarrow> 1 < length xs \<Longrightarrow> mpath nd m xs = sibling m xs @ mpath nd (m div 2) (pairup nd xs)"
proof (induction xs arbitrary: m rule: length_induct)
  case (1 xs)
  then have "0 < length xs" by linarith
  then show ?case
  proof (cases rule: tree_cases)
    case (Two x y)
    then show ?thesis using 1(2) by (auto simp: mpath_split [of "[x, y]" 1] sibling_def less_Suc_eq)
  next
    case (Split k)
    have k2: "1 < k" using Split by (metis Suc_lessI even_Suc One_nat_def even_zero)
    have ne: "take k xs \<noteq> []" "drop k xs \<noteq> []" using Split by auto
    have up: "mpath nd (m div 2) (pairup nd xs) = (if m div 2 < k div 2
        then mpath nd (m div 2) (pairup nd (take k xs)) @ [mth nd (drop k xs)]
        else mpath nd (m div 2 - k div 2) (pairup nd (drop k xs)) @ [mth nd (take k xs)])"
      using Split ne by (subst mpath_split [where k = "k div 2"]) (simp_all add: pairup_take pairup_drop mth_pairup)
    show ?thesis
    proof (cases "m < k")
      case True
      then have "m div 2 < k div 2" using Split(3) by (metis div_less_dividend dvd_mult_div_cancel less_mult_imp_div_less mult.commute)
      moreover have "mpath nd m (take k xs) = sibling m (take k xs) @ mpath nd (m div 2) (pairup nd (take k xs))"
        using 1(1) True Split k2 by simp
      ultimately show ?thesis using True Split up by (simp add: mpath_split [of xs k] sibling_take)
    next
      case False
      then have "\<not> m div 2 < k div 2" using div_le_mono [of k m 2] by simp
      moreover have "mpath nd (m - k) (drop k xs) = sibling (m - k) (drop k xs) @ mpath nd ((m - k) div 2) (pairup nd (drop k xs))"
      proof (cases "length xs - k = 1")
        case True
        then obtain z where "drop k xs = [z]" by (metis One_nat_def length_0_conv length_Suc_conv length_drop)
        moreover have "m = k" using False True 1(2) by simp
        ultimately show ?thesis by (simp add: sibling_def)
      next
        case long: False
        then show ?thesis using 1(1,2) False Split by simp
      qed
      moreover have "(m - k) div 2 = m div 2 - k div 2" using Split(3) by (auto elim!: evenE)
      ultimately show ?thesis using False Split 1(2) up by (simp add: mpath_split [of xs k] sibling_drop)
    qed
  qed (use 1 in simp)
qed

lemma mproof_split: "m < length xs \<Longrightarrow> 1 < length xs \<Longrightarrow> largestPow2Below (length xs) = k \<Longrightarrow> mproof nd m xs c =
   (if m \<le> k then mproof nd m (take k xs) c @ [mth nd (drop k xs)] else mproof nd (m - k) (drop k xs) False @ [mth nd (take k xs)])"
  by (subst mproof.simps) (simp add: Let_def)

lemma mproof_all: "m = length xs \<Longrightarrow> mproof nd m xs c = (if c then [] else [mth nd xs])"
  by (simp add: mproof.simps)

lemma mproof_even: "even m \<Longrightarrow> 0 < m \<Longrightarrow> m \<le> length xs \<Longrightarrow> mproof nd m xs c = mproof nd (m div 2) (pairup nd xs) c"
proof (induction xs arbitrary: m c rule: length_induct)
  case (1 xs)
  have ne0: "xs \<noteq> []" using 1 by auto
  show ?case
  proof (cases "m = length xs")
    case True
    then have "m div 2 = length (pairup nd xs)" using 1(2) by simp
    with True ne0 show ?thesis by (simp add: mproof_all mth_pairup)
  next
    case False
    with 1 have m: "m < length xs" by simp
    from ne0 have "0 < length xs" by simp
    then show ?thesis
    proof (cases rule: tree_cases)
      case (Two x y)
      then show ?thesis using m 1(2,3) by (auto simp: less_Suc_eq)
    next
      case (Split k)
      have ne: "take k xs \<noteq> []" "drop k xs \<noteq> []" using Split by auto
      have up: "mproof nd (m div 2) (pairup nd xs) c = (if m div 2 \<le> k div 2
          then mproof nd (m div 2) (pairup nd (take k xs)) c @ [mth nd (drop k xs)]
          else mproof nd (m div 2 - k div 2) (pairup nd (drop k xs)) False @ [mth nd (take k xs)])"
        using Split ne m 1(2) by (subst mproof_split [where k = "k div 2"]) (auto simp add: pairup_take pairup_drop mth_pairup elim!: evenE)
      have half: "m div 2 \<le> k div 2 \<longleftrightarrow> m \<le> k" "m div 2 - k div 2 = (m - k) div 2" using Split(3) 1(2) by (auto elim!: evenE)
      show ?thesis
      proof (cases "m \<le> k")
        case True
        have "mproof nd m (take k xs) c = mproof nd (m div 2) (pairup nd (take k xs)) c" using 1 True Split by simp
        then show ?thesis using True Split m up half by (simp add: mproof_split [of m xs k])
      next
        case False
        have "mproof nd (m - k) (drop k xs) False = mproof nd ((m - k) div 2) (pairup nd (drop k xs)) False" using 1 False Split by simp
        then show ?thesis using False Split m up half by (simp add: mproof_split [of m xs k])
      qed
    qed (use m 1 in simp)
  qed
qed

lemma mproof_odd: "odd m \<Longrightarrow> m < length xs \<Longrightarrow> mproof nd m xs c = (if m = 1 \<and> c then [] else [xs ! (m - 1)]) @ mpath nd (m - 1) xs"
proof (induction xs arbitrary: m c rule: length_induct)
  case (1 xs)
  then have "0 < length xs" by linarith
  then show ?case
  proof (cases rule: tree_cases)
    case (Two x y)
    then have "m = 1" using 1(2,3) by (auto simp: less_Suc_eq)
    with Two show ?thesis by (simp add: mproof_split [of "Suc 0" "[x, y]" 1] mpath_split [of "[x, y]" 1] mproof_all)
  next
    case (Split k)
    show ?thesis
    proof (cases "m < k")
      case True
      then have "mproof nd m (take k xs) c = (if m = 1 \<and> c then [] else [take k xs ! (m - 1)]) @ mpath nd (m - 1) (take k xs)"
        using 1 Split by simp
      moreover have "mproof nd m xs c = mproof nd m (take k xs) c @ [mth nd (drop k xs)]"
        using True Split 1(3) by (subst mproof_split [of m xs k]) auto
      moreover have "mpath nd (m - 1) xs = mpath nd (m - 1) (take k xs) @ [mth nd (drop k xs)]"
        using True Split by (subst mpath_split [of xs k]) auto
      ultimately show ?thesis using True Split(5) by simp
    next
      case False
      then have km: "k < m" using Split(3) 1(2) by (metis nat_neq_iff)
      then have "mproof nd (m - k) (drop k xs) False = [drop k xs ! (m - k - 1)] @ mpath nd (m - k - 1) (drop k xs)"
        using 1 Split by simp
      moreover have i: "m - k - 1 = m - 1 - k" "\<not> m - 1 < k" "k + (m - 1 - k) = m - 1" "m \<noteq> 1" using km Split by auto
      moreover have "mproof nd m xs c = mproof nd (m - k) (drop k xs) False @ [mth nd (take k xs)]"
        using km Split 1(3) by (subst mproof_split [of m xs k]) auto
      moreover have "mpath nd (m - 1) xs = mpath nd (m - 1 - k) (drop k xs) @ [mth nd (take k xs)]"
        using i Split by (subst mpath_split [of xs k]) auto
      ultimately show ?thesis using km Split(5) 1(3) by simp
    qed
  qed (use 1 in auto)
qed

end
