(* ===== verification/Tlog.thy ===== *)
theory Tlog
  imports Merkle "HOL-Library.Word"
begin

text \<open>
  The transparency log's arithmetic (\<open>internal/tlog/tlog.go\<close>) and the two functions of the board that
  keep its tables (\<open>internal/board/transparency.go\<close>): the hashes an append stores, tree heads, inclusion
  and consistency proofs over stored subtree hashes, and the two verifiers. SHA-256 is a parameter
  \<open>sha256\<close>. An index is an \<open>int\<close> where the code checks its sign and a \<open>nat\<close> past that check; indexes
  stay below the size of the log, so 64 bits hold every one.
\<close>

unbundle bit_operations_syntax

section \<open>Hashes\<close>

type_synonym Hash = string

datatype tlerr = Negative_index | Empty_subtree | Unaligned_subtree | Negative_size
  | Not_in_tree int int | No_consistency int int | ErrProof | Read_error nat nat | Malformed_stored

type_synonym HashReader = "nat \<Rightarrow> nat \<Rightarrow> tlerr + Hash"

definition LeafHash :: "(string \<Rightarrow> Hash) \<Rightarrow> string \<Rightarrow> Hash" where
  "LeafHash sha256 bytes = sha256 (CHR 0x00 # bytes)"

definition NodeHash :: "(string \<Rightarrow> Hash) \<Rightarrow> Hash \<Rightarrow> Hash \<Rightarrow> Hash" where
  "NodeHash sha256 left right = sha256 (CHR 0x01 # left @ right)"

definition EmptyRoot :: "(string \<Rightarrow> Hash) \<Rightarrow> Hash" where
  "EmptyRoot sha256 = sha256 []"

record StoredHash =
  sh_Level :: nat
  sh_Index :: nat
  sh_Hash :: Hash

section \<open>Appending\<close>

fun append_loop :: "(string \<Rightarrow> Hash) \<Rightarrow> HashReader \<Rightarrow> nat \<Rightarrow> nat \<Rightarrow> Hash \<Rightarrow> StoredHash list \<Rightarrow> tlerr + StoredHash list" where
  "append_loop sha256 read level i h out =
     (if i AND 1 = 1 then
        case read level (i - 1) of
          Inl e \<Rightarrow> Inl e
        | Inr left \<Rightarrow> let h' = NodeHash sha256 left h in
            append_loop sha256 read (level + 1) (i div 2) h' (out @ [\<lparr>sh_Level = level + 1, sh_Index = i div 2, sh_Hash = h'\<rparr>])
      else Inr out)"

declare append_loop.simps [simp del]

definition AppendHashes :: "(string \<Rightarrow> Hash) \<Rightarrow> int \<Rightarrow> Hash \<Rightarrow> HashReader \<Rightarrow> tlerr + StoredHash list" where
  "AppendHashes sha256 index leaf read =
     (if index < 0 then Inl Negative_index
      else append_loop sha256 read 0 (nat index) leaf [\<lparr>sh_Level = 0, sh_Index = nat index, sh_Hash = leaf\<rparr>])"

section \<open>Tree heads\<close>

text \<open>\<open>bits.TrailingZeros64\<close>.\<close>

fun TrailingZeros64 :: "nat \<Rightarrow> nat" where
  "TrailingZeros64 x = (if x = 0 then 64 else if odd x then 0 else Suc (TrailingZeros64 (x div 2)))"

declare TrailingZeros64.simps [simp del]

function subtree :: "(string \<Rightarrow> Hash) \<Rightarrow> HashReader \<Rightarrow> nat \<Rightarrow> nat \<Rightarrow> tlerr + Hash" where
  "subtree sha256 read lo hi =
     (let n = hi - lo in
      if n \<le> 0 then Inl Empty_subtree
      else if n AND (n - 1) = 0 then
        let level = TrailingZeros64 n in
        if lo AND (n - 1) \<noteq> 0 then Inl Unaligned_subtree
        else read level (drop_bit level lo)
      else let k = largestPow2Below n in
        case subtree sha256 read lo (lo + k) of
          Inl e \<Rightarrow> Inl e
        | Inr left \<Rightarrow> (case subtree sha256 read (lo + k) hi of
            Inl e \<Rightarrow> Inl e
          | Inr right \<Rightarrow> Inr (NodeHash sha256 left right)))"
  by pat_completeness auto
termination
proof (relation "measure (\<lambda>(sha256, read, lo, hi). hi - lo)")
  have two: "0 < n \<Longrightarrow> n AND (n - 1) \<noteq> 0 \<Longrightarrow> 1 < n" for n :: nat by (cases "n = 1") auto
  show "((sha256, read, lo, lo + k), sha256, read, lo, hi) \<in> measure (\<lambda>(sha256, read, lo, hi). hi - lo)"
    if "n = hi - lo" "\<not> n \<le> 0" "n AND (n - 1) \<noteq> 0" "k = largestPow2Below n" for sha256 read lo hi n k
    using that two [of n] pow2_below [of n] by auto
  show "((sha256, read, lo + k, hi), sha256, read, lo, hi) \<in> measure (\<lambda>(sha256, read, lo, hi). hi - lo)"
    if "n = hi - lo" "\<not> n \<le> 0" "n AND (n - 1) \<noteq> 0" "k = largestPow2Below n" for sha256 read lo hi n k
    using that diff_less [OF pow2_below_pos, of n n] by simp
qed simp

declare subtree.simps [simp del]

definition TreeHash :: "(string \<Rightarrow> Hash) \<Rightarrow> int \<Rightarrow> HashReader \<Rightarrow> tlerr + Hash" where
  "TreeHash sha256 n read =
     (if n < 0 then Inl Negative_size
      else if n = 0 then Inr (EmptyRoot sha256)
      else subtree sha256 read 0 (nat n))"

section \<open>Proofs\<close>

text \<open>
  The local functions \<open>walk\<close> append to a shared slice; here they return what they append. A failed
  read ends them with the error, and the caller then drops the slice. Their ranges are never empty,
  and \<open>0 < m \<le> hi - lo\<close> in the second; the guards \<open>hi - lo \<le> 1\<close> make the recursion end on every argument.
\<close>

function inclusion_walk :: "(string \<Rightarrow> Hash) \<Rightarrow> HashReader \<Rightarrow> nat \<Rightarrow> nat \<Rightarrow> nat \<Rightarrow> tlerr + Hash list" where
  "inclusion_walk sha256 read m lo hi =
     (if hi - lo \<le> 1 then Inr []
      else let k = largestPow2Below (hi - lo) in
        if m < k then
          case inclusion_walk sha256 read m lo (lo + k) of
            Inl e \<Rightarrow> Inl e
          | Inr pf \<Rightarrow> (case subtree sha256 read (lo + k) hi of Inl e \<Rightarrow> Inl e | Inr h \<Rightarrow> Inr (pf @ [h]))
        else
          case inclusion_walk sha256 read (m - k) (lo + k) hi of
            Inl e \<Rightarrow> Inl e
          | Inr pf \<Rightarrow> (case subtree sha256 read lo (lo + k) of Inl e \<Rightarrow> Inl e | Inr h \<Rightarrow> Inr (pf @ [h])))"
  by pat_completeness auto
termination
  by (relation "measure (\<lambda>(sha256, read, m, lo, hi). hi - lo)") (auto simp: not_le diff_less_mono2)

declare inclusion_walk.simps [simp del]

definition InclusionProof :: "(string \<Rightarrow> Hash) \<Rightarrow> int \<Rightarrow> int \<Rightarrow> HashReader \<Rightarrow> tlerr + Hash list" where
  "InclusionProof sha256 index n read =
     (if index < 0 \<or> index \<ge> n then Inl (Not_in_tree index n)
      else inclusion_walk sha256 read (nat index) 0 (nat n))"

function consistency_walk :: "(string \<Rightarrow> Hash) \<Rightarrow> HashReader \<Rightarrow> nat \<Rightarrow> nat \<Rightarrow> nat \<Rightarrow> bool \<Rightarrow> tlerr + Hash list" where
  "consistency_walk sha256 read m lo hi complete =
     (if m = hi - lo then
        if complete then Inr []
        else (case subtree sha256 read lo hi of Inl e \<Rightarrow> Inl e | Inr h \<Rightarrow> Inr [h])
      else if hi - lo \<le> 1 then Inr []
      else let k = largestPow2Below (hi - lo) in
        if m \<le> k then
          case consistency_walk sha256 read m lo (lo + k) complete of
            Inl e \<Rightarrow> Inl e
          | Inr pf \<Rightarrow> (case subtree sha256 read (lo + k) hi of Inl e \<Rightarrow> Inl e | Inr h \<Rightarrow> Inr (pf @ [h]))
        else
          case consistency_walk sha256 read (m - k) (lo + k) hi False of
            Inl e \<Rightarrow> Inl e
          | Inr pf \<Rightarrow> (case subtree sha256 read lo (lo + k) of Inl e \<Rightarrow> Inl e | Inr h \<Rightarrow> Inr (pf @ [h])))"
  by pat_completeness auto
termination
  by (relation "measure (\<lambda>(sha256, read, m, lo, hi, complete). hi - lo)") (auto simp: not_le diff_less_mono2)

declare consistency_walk.simps [simp del]

definition ConsistencyProof :: "(string \<Rightarrow> Hash) \<Rightarrow> int \<Rightarrow> int \<Rightarrow> HashReader \<Rightarrow> tlerr + Hash list" where
  "ConsistencyProof sha256 m n read =
     (if m < 0 \<or> m > n then Inl (No_consistency m n)
      else if m = 0 \<or> m = n then Inr []
      else consistency_walk sha256 read (nat m) 0 (nat n) True)"

section \<open>Verifiers\<close>

text \<open>\<open>for fn&1 == 0 && fn != 0 { fn >>= 1; sn >>= 1 }\<close>\<close>

fun skip_even :: "nat \<Rightarrow> nat \<Rightarrow> nat \<times> nat" where
  "skip_even fn sn = (if fn AND 1 = 0 \<and> fn \<noteq> 0 then skip_even (fn div 2) (sn div 2) else (fn, sn))"

declare skip_even.simps [simp del]

fun inclusion_loop :: "(string \<Rightarrow> Hash) \<Rightarrow> nat \<Rightarrow> nat \<Rightarrow> Hash \<Rightarrow> Hash list \<Rightarrow> (nat \<times> Hash) option" where
  "inclusion_loop sha256 fn sn r [] = Some (sn, r)"
| "inclusion_loop sha256 fn sn r (p # ps) =
     (if sn = 0 then None
      else if fn AND 1 = 1 \<or> fn = sn then
        let (fn', sn') = skip_even fn sn in
        inclusion_loop sha256 (fn' div 2) (sn' div 2) (NodeHash sha256 p r) ps
      else inclusion_loop sha256 (fn div 2) (sn div 2) (NodeHash sha256 r p) ps)"

definition VerifyInclusion :: "(string \<Rightarrow> Hash) \<Rightarrow> int \<Rightarrow> int \<Rightarrow> Hash \<Rightarrow> Hash list \<Rightarrow> Hash \<Rightarrow> tlerr + unit" where
  "VerifyInclusion sha256 index n leaf pf root =
     (if index < 0 \<or> index \<ge> n then Inl ErrProof
      else case inclusion_loop sha256 (nat index) (nat (n - 1)) leaf pf of
          None \<Rightarrow> Inl ErrProof
        | Some (sn, r) \<Rightarrow> if sn \<noteq> 0 \<or> r \<noteq> root then Inl ErrProof else Inr ())"

text \<open>\<open>for fn&1 == 1 { fn >>= 1; sn >>= 1 }\<close>\<close>

fun skip_odd :: "nat \<Rightarrow> nat \<Rightarrow> nat \<times> nat" where
  "skip_odd fn sn = (if fn AND 1 = 1 then skip_odd (fn div 2) (sn div 2) else (fn, sn))"

declare skip_odd.simps [simp del]

fun consistency_loop :: "(string \<Rightarrow> Hash) \<Rightarrow> nat \<Rightarrow> nat \<Rightarrow> Hash \<Rightarrow> Hash \<Rightarrow> Hash list \<Rightarrow> (nat \<times> Hash \<times> Hash) option" where
  "consistency_loop sha256 fn sn fr sr [] = Some (sn, fr, sr)"
| "consistency_loop sha256 fn sn fr sr (c # cs) =
     (if sn = 0 then None
      else if fn AND 1 = 1 \<or> fn = sn then
        let (fn', sn') = skip_even fn sn in
        consistency_loop sha256 (fn' div 2) (sn' div 2) (NodeHash sha256 c fr) (NodeHash sha256 c sr) cs
      else consistency_loop sha256 (fn div 2) (sn div 2) fr (NodeHash sha256 sr c) cs)"

definition VerifyConsistency :: "(string \<Rightarrow> Hash) \<Rightarrow> int \<Rightarrow> int \<Rightarrow> Hash list \<Rightarrow> Hash \<Rightarrow> Hash \<Rightarrow> tlerr + unit" where
  "VerifyConsistency sha256 m n pf rootM rootN =
     (if m < 0 \<or> m > n then Inl ErrProof
      else if m = n then if pf \<noteq> [] \<or> rootM \<noteq> rootN then Inl ErrProof else Inr ()
      else if m = 0 then if pf \<noteq> [] \<or> rootM \<noteq> EmptyRoot sha256 then Inl ErrProof else Inr ()
      else if pf = [] then Inl ErrProof
      else let pf' = (if nat m AND (nat m - 1) = 0 then rootM # pf else pf);
               (fn, sn) = skip_odd (nat (m - 1)) (nat (n - 1))
        in case consistency_loop sha256 fn sn (hd pf') (hd pf') (tl pf') of
             None \<Rightarrow> Inl ErrProof
           | Some (sn', fr, sr) \<Rightarrow> if sn' \<noteq> 0 \<or> fr \<noteq> rootM \<or> sr \<noteq> rootN then Inl ErrProof else Inr ())"

end
