(* ===== verification/B64.thy ===== *)
theory B64
  imports Main
begin

text \<open>
  The one base64 rule (\<open>internal/b64/b64.go\<close>) over a model of Go's \<open>encoding/base64\<close>: the encoder of
  the padded standard and the unpadded URL alphabet, and the strict decoder, which skips line breaks,
  asks for the padding the encoding has and for zero trailing bits. Bytes are characters.
\<close>

section \<open>The standard library\<close>

record Encoding =
  enc_alphabet :: string
  enc_pad :: bool

definition alphanum :: string where
  "alphanum = ''ABCDEFGHIJKLMNOPQRSTUVWXYZabcdefghijklmnopqrstuvwxyz0123456789''"

definition StdEncoding :: Encoding where
  "StdEncoding = \<lparr>enc_alphabet = alphanum @ ''+/'', enc_pad = True\<rparr>"

definition RawURLEncoding :: Encoding where
  "RawURLEncoding = \<lparr>enc_alphabet = alphanum @ ''-_'', enc_pad = False\<rparr>"

definition byte :: "char \<Rightarrow> nat" where
  "byte c = of_char c"

lemma byte_less [simp]: "byte c < 256"
  by (simp add: byte_def)

lemma char_of_byte [simp]: "char_of (byte c) = c"
  by (simp add: byte_def)

definition sextet :: "Encoding \<Rightarrow> nat \<Rightarrow> char" where
  "sextet enc n = enc_alphabet enc ! n"

fun EncodeToString :: "Encoding \<Rightarrow> string \<Rightarrow> string" where
  "EncodeToString enc [] = []"
| "EncodeToString enc [a] =
     [sextet enc (byte a div 4), sextet enc (byte a mod 4 * 16)] @ (if enc_pad enc then ''=='' else [])"
| "EncodeToString enc [a, b] =
     [sextet enc (byte a div 4), sextet enc (byte a mod 4 * 16 + byte b div 16), sextet enc (byte b mod 16 * 4)]
       @ (if enc_pad enc then ''='' else [])"
| "EncodeToString enc (a # b # c # xs) =
     [sextet enc (byte a div 4), sextet enc (byte a mod 4 * 16 + byte b div 16),
      sextet enc (byte b mod 16 * 4 + byte c div 64), sextet enc (byte c mod 64)] @ EncodeToString enc xs"

text \<open>\<open>decodeMap\<close>: the value of a character of the alphabet.\<close>

fun index_of :: "'a \<Rightarrow> 'a list \<Rightarrow> nat option" where
  "index_of x [] = None"
| "index_of x (y # ys) = (if x = y then Some 0 else map_option Suc (index_of x ys))"

definition decodeMap :: "Encoding \<Rightarrow> char \<Rightarrow> nat option" where
  "decodeMap enc c = index_of c (enc_alphabet enc)"

text \<open>
  \<open>decodeQuantum\<close>: four, three or two values become three, two or one bytes; in the strict mode the
  bits that are left over must be zero.
\<close>

definition quantum4 :: "nat \<Rightarrow> nat \<Rightarrow> nat \<Rightarrow> nat \<Rightarrow> string" where
  "quantum4 p q r s = (let val = p * 2 ^ 18 + q * 2 ^ 12 + r * 2 ^ 6 + s in
     [char_of (val div 2 ^ 16 mod 256), char_of (val div 2 ^ 8 mod 256), char_of (val mod 256)])"

definition quantum3 :: "nat \<Rightarrow> nat \<Rightarrow> nat \<Rightarrow> string option" where
  "quantum3 p q r = (let val = p * 2 ^ 18 + q * 2 ^ 12 + r * 2 ^ 6 in
     if val mod 256 \<noteq> 0 then None else Some [char_of (val div 2 ^ 16 mod 256), char_of (val div 2 ^ 8 mod 256)])"

definition quantum2 :: "nat \<Rightarrow> nat \<Rightarrow> string option" where
  "quantum2 p q = (let val = p * 2 ^ 18 + q * 2 ^ 12 in
     if val mod 2 ^ 16 \<noteq> 0 then None else Some [char_of (val div 2 ^ 16 mod 256)])"

definition decode3 :: "Encoding \<Rightarrow> char \<Rightarrow> char \<Rightarrow> char \<Rightarrow> string option" where
  "decode3 enc a b c = (case (decodeMap enc a, decodeMap enc b, decodeMap enc c) of
     (Some p, Some q, Some r) \<Rightarrow> quantum3 p q r | _ \<Rightarrow> None)"

definition decode2 :: "Encoding \<Rightarrow> char \<Rightarrow> char \<Rightarrow> string option" where
  "decode2 enc a b = (case (decodeMap enc a, decodeMap enc b) of (Some p, Some q) \<Rightarrow> quantum2 p q | _ \<Rightarrow> None)"

fun decode_quanta :: "Encoding \<Rightarrow> string \<Rightarrow> string option" where
  "decode_quanta enc [] = Some []"
| "decode_quanta enc [a] = None"
| "decode_quanta enc [a, b] = (if enc_pad enc then None else decode2 enc a b)"
| "decode_quanta enc [a, b, c] = (if enc_pad enc then None else decode3 enc a b c)"
| "decode_quanta enc (a # b # c # d # xs) =
     (case (decodeMap enc a, decodeMap enc b, decodeMap enc c, decodeMap enc d) of
        (Some p, Some q, Some r, Some s) \<Rightarrow> map_option (\<lambda>out. quantum4 p q r s @ out) (decode_quanta enc xs)
      | _ \<Rightarrow> if enc_pad enc \<and> xs = [] \<and> d = CHR ''='' then
               if c = CHR ''='' then decode2 enc a b else decode3 enc a b c
             else None)"

definition strict_DecodeString :: "Encoding \<Rightarrow> string \<Rightarrow> string option" where
  "strict_DecodeString enc s = decode_quanta enc (filter (\<lambda>c. c \<noteq> CHR 0x0A \<and> c \<noteq> CHR 0x0D) s)"

section \<open>The canonical decoder\<close>

datatype b64err = ErrURL | ErrStd | Wrong_length

definition b64_decode :: "Encoding \<Rightarrow> string \<Rightarrow> b64err \<Rightarrow> b64err + string" where
  "b64_decode enc s refused =
     (case strict_DecodeString enc s of
        None \<Rightarrow> Inl refused
      | Some raw \<Rightarrow> if EncodeToString enc raw \<noteq> s then Inl refused else Inr raw)"

definition URL :: "string \<Rightarrow> b64err + string" where
  "URL s = b64_decode RawURLEncoding s ErrURL"

definition Std :: "string \<Rightarrow> b64err + string" where
  "Std s = b64_decode StdEncoding s ErrStd"

definition URLSize :: "string \<Rightarrow> nat \<Rightarrow> b64err + string" where
  "URLSize s n = (case URL s of Inl e \<Rightarrow> Inl e | Inr raw \<Rightarrow> if length raw \<noteq> n then Inl Wrong_length else Inr raw)"

section \<open>What is encoded is decoded\<close>

definition good_encoding :: "Encoding \<Rightarrow> bool" where
  "good_encoding enc \<longleftrightarrow> length (enc_alphabet enc) = 64 \<and> distinct (enc_alphabet enc)
     \<and> set (enc_alphabet enc) \<inter> {CHR ''='', CHR 0x0A, CHR 0x0D, CHR 0x20} = {}"

lemma index_of_nth: "distinct xs \<Longrightarrow> n < length xs \<Longrightarrow> index_of (xs ! n) xs = Some n"
  by (induction xs arbitrary: n) (auto simp: nth_Cons split: nat.splits)

lemma index_of_None: "index_of x xs = None \<longleftrightarrow> x \<notin> set xs"
  by (induction xs) auto

lemma good_encodings [simp]: "good_encoding StdEncoding" "good_encoding RawURLEncoding"
  by (simp_all add: good_encoding_def StdEncoding_def RawURLEncoding_def alphanum_def)

lemma decodeMap_sextet [simp]: "good_encoding enc \<Longrightarrow> n < 64 \<Longrightarrow> decodeMap enc (sextet enc n) = Some n"
  by (simp add: good_encoding_def decodeMap_def sextet_def index_of_nth)

lemma decodeMap_pad [simp]: "good_encoding enc \<Longrightarrow> decodeMap enc CHR ''='' = None"
  by (simp add: good_encoding_def decodeMap_def index_of_None)

lemma mod_bounds: "byte a mod 4 \<le> 3" "byte a mod 16 \<le> 15" "byte a div 4 \<le> 63" "byte a div 16 \<le> 15" "byte a div 64 \<le> 3"
  "byte a mod 64 \<le> 63"
  using byte_less [of a] by (simp_all add: less_Suc_eq_le [symmetric] less_mult_imp_div_less)

lemma sextet_bounds [simp]: "byte a div 4 < 64" "byte a mod 4 * 16 + byte b div 16 < 64" "byte a mod 4 * 16 < 64"
  "byte b mod 16 * 4 + byte c div 64 < 64" "byte b mod 16 * 4 < 64" "byte c mod 64 < 64"
  using mod_bounds [of a] mod_bounds [of b] mod_bounds [of c] by linarith+

lemma sextet_not_pad [simp]: "good_encoding enc \<Longrightarrow> n < 64 \<Longrightarrow> sextet enc n \<noteq> CHR ''=''"
  using decodeMap_sextet [of enc n] decodeMap_pad [of enc] by (metis option.distinct(1))

lemma byte_mod: "byte c mod 256 = byte c"
  by simp

text \<open>Bytes as digits to the base 256.\<close>

lemma digit [simp]: "(x * 256 + byte c) div 256 = x" "(x * 256 + byte c) mod 256 = byte c"
  by simp_all

lemma digits: "v div 2 ^ 8 = v div 256" "v div 2 ^ 16 = v div 256 div 256" for v :: nat
  by (simp_all add: div_mult2_eq [symmetric])

lemma pows: "(2::nat) ^ 18 = 262144" "(2::nat) ^ 12 = 4096" "(2::nat) ^ 6 = 64"
  by simp_all

lemma regroup: "p * 4 + q = A \<Longrightarrow> r * 16 + s = B \<Longrightarrow> t * 64 + u = C \<Longrightarrow>
    p * 262144 + (q * 16 + r) * 4096 + (s * 4 + t) * 64 + u = (A * 256 + B) * 256 + (C::nat)"
  by auto

lemma quantum4_back:
  "quantum4 (byte a div 4) (byte a mod 4 * 16 + byte b div 16) (byte b mod 16 * 4 + byte c div 64) (byte c mod 64) = [a, b, c]"
proof -
  let ?v = "byte a div 4 * 2 ^ 18 + (byte a mod 4 * 16 + byte b div 16) * 2 ^ 12 + (byte b mod 16 * 4 + byte c div 64) * 2 ^ 6 + byte c mod 64"
  have "?v = (byte a * 256 + byte b) * 256 + byte c"
    unfolding pows by (rule regroup) simp_all
  then show ?thesis unfolding quantum4_def Let_def digits by (simp only: digit char_of_byte byte_mod)
qed

lemma quantum3_back: "quantum3 (byte a div 4) (byte a mod 4 * 16 + byte b div 16) (byte b mod 16 * 4) = Some [a, b]"
proof -
  let ?v = "byte a div 4 * 2 ^ 18 + (byte a mod 4 * 16 + byte b div 16) * 2 ^ 12 + (byte b mod 16 * 4) * 2 ^ 6"
  have "?v = (byte a * 256 + byte b) * 256"
    unfolding pows using regroup [of "byte a div 4" "byte a mod 4" "byte a" "byte b div 16" "byte b mod 16" "byte b" 0 0 0] by simp
  then show ?thesis unfolding quantum3_def Let_def digits by (simp del: power_numeral)
qed

lemma quantum2_back: "quantum2 (byte a div 4) (byte a mod 4 * 16) = Some [a]"
proof -
  have "byte a div 4 * 2 ^ 18 + byte a mod 4 * 16 * 2 ^ 12 = byte a * 65536"
    unfolding pows using div_mult_mod_eq [of "byte a" 4] by linarith
  then show ?thesis by (simp add: quantum2_def Let_def)
qed

lemma decode_quanta_encode: "good_encoding enc \<Longrightarrow> decode_quanta enc (EncodeToString enc raw) = Some raw"
  by (induction enc raw rule: EncodeToString.induct)
    (simp_all add: decode2_def decode3_def quantum2_back quantum3_back quantum4_back)

lemma sextet_mem: "good_encoding enc \<Longrightarrow> n < 64 \<Longrightarrow> sextet enc n \<in> set (enc_alphabet enc)"
  by (simp add: good_encoding_def sextet_def)

lemma encoded_chars: "good_encoding enc \<Longrightarrow> set (EncodeToString enc raw) \<subseteq> insert (CHR ''='') (set (enc_alphabet enc))"
  by (induction enc raw rule: EncodeToString.induct) (auto simp: sextet_mem)

lemma encoded_plain:
  assumes "good_encoding enc" "c \<in> set (EncodeToString enc raw)"
  shows "c \<noteq> CHR 0x0A" "c \<noteq> CHR 0x0D" "c \<noteq> CHR 0x20"
  using encoded_chars [OF assms(1), of raw] assms by (auto simp: good_encoding_def)

lemma b64_decode_encode: "good_encoding enc \<Longrightarrow> b64_decode enc (EncodeToString enc raw) e = Inr raw"
proof -
  assume g: "good_encoding enc"
  have "filter (\<lambda>c. c \<noteq> CHR 0x0A \<and> c \<noteq> CHR 0x0D) (EncodeToString enc raw) = EncodeToString enc raw"
    using encoded_plain [OF g] by (auto simp: filter_id_conv)
  then show ?thesis using decode_quanta_encode [OF g] by (simp add: b64_decode_def strict_DecodeString_def)
qed

lemma b64_decode_only: "b64_decode enc s e = Inr raw \<Longrightarrow> s = EncodeToString enc raw"
  by (auto simp: b64_decode_def split: option.splits if_splits)

lemma Std_iff: "Std s = Inr raw \<longleftrightarrow> s = EncodeToString StdEncoding raw"
  using b64_decode_encode [of StdEncoding] b64_decode_only by (auto simp: Std_def)

end
