(* ===== verification/Go_Text.thy ===== *)
theory Go_Text
  imports B64
begin

text \<open>
  What the signed notes use of Go's text packages: UTF-8 decoding and white space (\<open>unicode/utf8\<close>,
  \<open>unicode\<close>), cutting and splitting (\<open>strings\<close>, \<open>bytes\<close>), decimal and hexadecimal numbers
  (\<open>strconv\<close>, \<open>fmt\<close>). A string is its bytes.
\<close>

section \<open>Runes\<close>

definition RuneError :: nat where "RuneError = 65533"

text \<open>\<open>utf8.DecodeRuneInString\<close>: the first rune and the bytes it takes; \<open>(RuneError, 1)\<close> for a byte that starts none.\<close>

definition in_range :: "char \<Rightarrow> nat \<Rightarrow> nat \<Rightarrow> bool" where
  "in_range b lo hi \<longleftrightarrow> lo \<le> byte b \<and> byte b \<le> hi"

definition tail6 :: "char \<Rightarrow> nat" where
  "tail6 b = byte b - 128"

fun decode_rune :: "string \<Rightarrow> nat \<times> nat" where
  "decode_rune [] = (RuneError, 0)"
| "decode_rune (b0 # rest) =
     (let x = byte b0 in
      if x < 128 then (x, 1)
      else if 194 \<le> x \<and> x \<le> 223 then
        (case rest of b1 # _ \<Rightarrow> if in_range b1 128 191 then ((x - 192) * 64 + tail6 b1, 2) else (RuneError, 1) | _ \<Rightarrow> (RuneError, 1))
      else if 224 \<le> x \<and> x \<le> 239 then
        (case rest of b1 # b2 # _ \<Rightarrow>
           if in_range b1 (if x = 224 then 160 else 128) (if x = 237 then 159 else 191) \<and> in_range b2 128 191
           then ((x - 224) * 4096 + tail6 b1 * 64 + tail6 b2, 3) else (RuneError, 1)
         | _ \<Rightarrow> (RuneError, 1))
      else if 240 \<le> x \<and> x \<le> 244 then
        (case rest of b1 # b2 # b3 # _ \<Rightarrow>
           if in_range b1 (if x = 240 then 144 else 128) (if x = 244 then 143 else 191) \<and> in_range b2 128 191 \<and> in_range b3 128 191
           then ((x - 240) * 262144 + tail6 b1 * 4096 + tail6 b2 * 64 + tail6 b3, 4) else (RuneError, 1)
         | _ \<Rightarrow> (RuneError, 1))
      else (RuneError, 1))"

lemma decode_rune_size: "s \<noteq> [] \<Longrightarrow> 0 < snd (decode_rune s) \<and> snd (decode_rune s) \<le> length s"
  by (cases s) (auto simp: Let_def split: list.splits)

text \<open>A loop over the runes of a string that stops at the first one refused.\<close>

function all_runes :: "(nat \<Rightarrow> nat \<Rightarrow> bool) \<Rightarrow> string \<Rightarrow> bool" where
  "all_runes ok s = (if s = [] then True
     else let (r, size) = decode_rune s in ok r size \<and> all_runes ok (drop size s))"
  by pat_completeness auto
termination
  by (relation "measure (\<lambda>(ok, s). length s)") (auto dest!: decode_rune_size simp: prod_eq_iff)

declare all_runes.simps [simp del]

definition ValidString :: "string \<Rightarrow> bool" where
  "ValidString = all_runes (\<lambda>r size. \<not> (r = RuneError \<and> size = 1))"

definition IsSpace :: "nat \<Rightarrow> bool" where
  "IsSpace r \<longleftrightarrow> r \<in> set [9, 10, 11, 12, 13, 32, 133, 160, 5760, 8232, 8233, 8239, 8287, 12288] \<or> 8192 \<le> r \<and> r \<le> 8202"

text \<open>\<open>strings.IndexFunc(s, unicode.IsSpace) < 0\<close>\<close>

definition no_space :: "string \<Rightarrow> bool" where
  "no_space = all_runes (\<lambda>r size. \<not> IsSpace r)"

lemma all_runes_Nil [simp]: "all_runes ok []"
  by (simp add: all_runes.simps)

lemma all_runes_ascii: "byte c < 128 \<Longrightarrow> all_runes ok (c # s) \<longleftrightarrow> ok (byte c) 1 \<and> all_runes ok s"
  by (subst all_runes.simps) simp

lemma bytes4 [case_names Nil One Two Three More]:
  obtains "s = []" | a where "s = [a]" | a b where "s = [a, b]" | a b c where "s = [a, b, c]" | a b c d w where "s = a # b # c # d # w"
  by (metis list.exhaust)

text \<open>A rune that is there stays the same when bytes follow.\<close>

lemma decode_rune_append: "s \<noteq> [] \<Longrightarrow> decode_rune s \<noteq> (RuneError, 1) \<Longrightarrow> decode_rune (s @ t) = decode_rune s"
  by (cases s rule: bytes4) (auto simp: Let_def RuneError_def split: if_splits)

lemma all_runes_append:
  assumes "\<not> ok RuneError 1" "all_runes ok s"
  shows "all_runes ok (s @ t) \<longleftrightarrow> all_runes ok t"
  using assms(2)
proof (induction s rule: length_induct)
  case (1 s)
  show ?case
  proof (cases "s = []")
    case False
    obtain r n where d: "decode_rune s = (r, n)" by (cases "decode_rune s")
    have n: "0 < n" "n \<le> length s" using decode_rune_size [OF False] d by auto
    have s: "ok r n" "all_runes ok (drop n s)" using 1(2) False d by (simp_all add: all_runes.simps [of ok s])
    then have "decode_rune (s @ t) = (r, n)" using decode_rune_append [OF False] d assms(1) by fastforce
    then have "all_runes ok (s @ t) \<longleftrightarrow> all_runes ok (drop n s @ t)" using False s(1) n by (simp add: all_runes.simps [of ok "s @ t"])
    moreover have "all_runes ok (drop n s @ t) \<longleftrightarrow> all_runes ok t" using 1(1) s(2) n False by simp
    ultimately show ?thesis by simp
  qed simp
qed

lemma all_runes_ascii_all: "\<forall>c\<in>set s. byte c < 128 \<and> ok (byte c) 1 \<Longrightarrow> all_runes ok s"
  by (induction s) (auto simp: all_runes_ascii)

text \<open>Every byte below 128 is a rune of its own, so a loop over the runes meets it.\<close>

lemma all_runes_mono:
  assumes "\<And>r n. ok r n \<Longrightarrow> ok' r n" "all_runes ok s"
  shows "all_runes ok' s"
  using assms(2)
proof (induction s rule: length_induct)
  case (1 s)
  show ?case
  proof (cases "s = []")
    case False
    obtain r n where d: "decode_rune s = (r, n)" by (cases "decode_rune s")
    have n: "0 < n" "n \<le> length s" using decode_rune_size [OF False] d by auto
    have s: "ok r n" "all_runes ok (drop n s)" using 1(2) False d by (simp_all add: all_runes.simps [of ok s])
    then have "all_runes ok' (drop n s)" using 1(1) n False by simp
    then show ?thesis using assms(1) s(1) d by (subst all_runes.simps) simp
  qed simp
qed

lemma all_runes_mem:
  assumes "all_runes ok s" "c \<in> set s" "byte c < 128"
  shows "ok (byte c) 1"
  using assms
proof (induction s rule: length_induct)
  case (1 s)
  have ne: "s \<noteq> []" using 1(3) by auto
  obtain r n where d: "decode_rune s = (r, n)" by (cases "decode_rune s")
  have n: "0 < n" "n \<le> length s" using decode_rune_size [OF ne] d by auto
  have ok: "ok r n" "all_runes ok (drop n s)" using 1(2) ne d by (simp_all add: all_runes.simps [of ok s])
  show ?case
  proof (cases "c \<in> set (drop n s)")
    case True
    moreover have "length (drop n s) < length s" using n ne by simp
    ultimately show ?thesis using 1(1,4) ok(2) by blast
  next
    case False
    then have mem: "c \<in> set (take n s)" using 1(3) by (metis Un_iff append_take_drop_id set_append)
    have "r = byte c \<and> n = 1"
      using mem d 1(4) by (cases s rule: bytes4) (auto simp: Let_def in_range_def split: if_splits)
    then show ?thesis using ok by auto
  qed
qed

section \<open>Cutting and splitting\<close>

definition Cut :: "char \<Rightarrow> string \<Rightarrow> string \<times> string \<times> bool" where
  "Cut c s = (case dropWhile (\<lambda>x. x \<noteq> c) s of [] \<Rightarrow> (s, [], False) | _ # after \<Rightarrow> (takeWhile (\<lambda>x. x \<noteq> c) s, after, True))"

lemma Cut_append [simp]: "c \<notin> set a \<Longrightarrow> Cut c (a @ c # b) = (a, b, True)"
proof -
  assume a: "c \<notin> set a"
  then have "dropWhile (\<lambda>x. x \<noteq> c) (a @ c # b) = c # b" "takeWhile (\<lambda>x. x \<noteq> c) (a @ c # b) = a"
    by (induction a) auto
  then show ?thesis by (simp add: Cut_def)
qed

lemma Cut_found: "Cut c s = (a, b, True) \<Longrightarrow> s = a @ c # b \<and> c \<notin> set a"
proof -
  assume "Cut c s = (a, b, True)"
  then obtain x xs where d: "dropWhile (\<lambda>x. x \<noteq> c) s = x # xs" and ab: "a = takeWhile (\<lambda>x. x \<noteq> c) s" "b = xs"
    by (auto simp: Cut_def split: list.splits)
  have "x = c" using d hd_dropWhile [of "\<lambda>x. x \<noteq> c" s] by simp
  then have "s = a @ c # b" using takeWhile_dropWhile_id [of "\<lambda>x. x \<noteq> c" s] unfolding d ab by simp
  moreover have "c \<notin> set a" using ab by (auto dest: set_takeWhileD)
  ultimately show ?thesis ..
qed

text \<open>\<open>strings.Split\<close> and \<open>strings.SplitN\<close> at a one-byte separator.\<close>

fun Split :: "char \<Rightarrow> string \<Rightarrow> string list" where
  "Split c [] = [[]]"
| "Split c (x # xs) = (if x = c then [] # Split c xs else (x # hd (Split c xs)) # tl (Split c xs))"

lemma Split_ne [simp]: "Split c s \<noteq> []"
  by (cases s) auto

lemma Split_append [simp]: "c \<notin> set a \<Longrightarrow> Split c (a @ c # b) = a # Split c b"
  by (induction a) auto

lemma Split_plain: "c \<notin> set a \<Longrightarrow> Split c a = [a]"
  by (induction a) auto

lemma Split_lines: "x \<in> set (Split c s) \<Longrightarrow> c \<notin> set x"
proof (induction s arbitrary: x)
  case (Cons y ys)
  have "hd (Split c ys) \<in> set (Split c ys)" "set (tl (Split c ys)) \<subseteq> set (Split c ys)" by (auto intro: list.set_sel)
  with Cons show ?case by (auto split: if_splits)
qed simp

fun join :: "char \<Rightarrow> string list \<Rightarrow> string" where
  "join c [] = []"
| "join c [x] = x"
| "join c (x # y # zs) = x @ c # join c (y # zs)"

lemma join_Cons: "xs \<noteq> [] \<Longrightarrow> join c (x # xs) = x @ c # join c xs"
  by (cases xs) auto

lemma join_hd: "xs \<noteq> [] \<Longrightarrow> join c ((x # hd xs) # tl xs) = x # join c xs"
  by (cases xs; cases "tl xs") auto

lemma join_Split [simp]: "join c (Split c s) = s"
  by (induction s) (auto simp: join_Cons join_hd)

fun SplitN :: "char \<Rightarrow> string \<Rightarrow> nat \<Rightarrow> string list" where
  "SplitN c s 0 = []"
| "SplitN c s (Suc 0) = [s]"
| "SplitN c s (Suc (Suc n)) = (case Cut c s of (a, b, found) \<Rightarrow> if found then a # SplitN c b (Suc n) else [s])"

definition CutPrefix :: "string \<Rightarrow> string \<Rightarrow> string option" where
  "CutPrefix p s = (if take (length p) s = p then Some (drop (length p) s) else None)"

lemma CutPrefix_append [simp]: "CutPrefix p (p @ s) = Some s"
  by (simp add: CutPrefix_def)

lemma CutPrefix_Some: "CutPrefix p s = Some r \<Longrightarrow> s = p @ r"
  by (auto simp: CutPrefix_def split: if_splits) (metis append_take_drop_id)

text \<open>\<open>bytes.LastIndex\<close>: the last place a pattern stands at.\<close>

definition LastIndex :: "string \<Rightarrow> string \<Rightarrow> nat option" where
  "LastIndex s p = find (\<lambda>i. take (length p) (drop i s) = p) (rev [0..<length s])"

section \<open>Numbers\<close>

definition digit_char :: "nat \<Rightarrow> char" where
  "digit_char n = (if n < 10 then char_of (48 + n) else char_of (87 + n))"

text \<open>\<open>hex.EncodeToString\<close>\<close>

definition hex_EncodeToString :: "string \<Rightarrow> string" where
  "hex_EncodeToString s = concat (map (\<lambda>c. [digit_char (byte c div 16), digit_char (byte c mod 16)]) s)"

fun format_nat :: "nat \<Rightarrow> nat \<Rightarrow> string" where
  "format_nat base n = (if base < 2 \<or> n < base then [digit_char n] else format_nat base (n div base) @ [digit_char (n mod base)])"

declare format_nat.simps [simp del]

text \<open>\<open>strconv.FormatInt(n, 10)\<close>\<close>

definition FormatInt :: "int \<Rightarrow> string" where
  "FormatInt n = (if n < 0 then CHR ''-'' # format_nat 10 (nat (- n)) else format_nat 10 (nat n))"

text \<open>The value of a digit in either case.\<close>

definition digit_val :: "char \<Rightarrow> nat option" where
  "digit_val c = (let x = byte c in
     if 48 \<le> x \<and> x \<le> 57 then Some (x - 48)
     else if 97 \<le> x \<and> x \<le> 122 then Some (x - 87)
     else if 65 \<le> x \<and> x \<le> 90 then Some (x - 55)
     else None)"

fun parse_digits :: "nat \<Rightarrow> nat \<Rightarrow> string \<Rightarrow> nat option" where
  "parse_digits base n [] = Some n"
| "parse_digits base n (c # cs) = (case digit_val c of
       None \<Rightarrow> None
     | Some d \<Rightarrow> if d \<ge> base then None else parse_digits base (n * base + d) cs)"

text \<open>\<open>strconv.ParseUint(s, base, bits)\<close> for a base that is not 0: digits only, within the size.\<close>

definition ParseUint :: "string \<Rightarrow> nat \<Rightarrow> nat \<Rightarrow> nat option" where
  "ParseUint s base bits = (if s = [] then None else case parse_digits base 0 s of
       None \<Rightarrow> None | Some n \<Rightarrow> if n < 2 ^ bits then Some n else None)"

text \<open>\<open>strconv.ParseInt(s, 10, 64)\<close>: a sign and digits.\<close>

definition ParseInt :: "string \<Rightarrow> int option" where
  "ParseInt s = (case s of
       [] \<Rightarrow> None
     | c # cs \<Rightarrow>
       if c = CHR ''-'' then (case ParseUint cs 10 64 of Some n \<Rightarrow> if n \<le> 2 ^ 63 then Some (- int n) else None | None \<Rightarrow> None)
       else (case ParseUint (if c = CHR ''+'' then cs else s) 10 64 of Some n \<Rightarrow> if n < 2 ^ 63 then Some (int n) else None | None \<Rightarrow> None))"

text \<open>\<open>%08x\<close>\<close>

definition hex8 :: "nat \<Rightarrow> string" where
  "hex8 n = (let h = format_nat 16 n in replicate (8 - length h) (CHR ''0'') @ h)"

section \<open>Printing and parsing a number\<close>

lemma byte_char_of: "n < 256 \<Longrightarrow> byte (char_of n) = n"
  by (simp add: byte_def)

lemma digit_val_char [simp]: "n < 16 \<Longrightarrow> digit_val (digit_char n) = Some n"
  by (auto simp: digit_val_def digit_char_def Let_def byte_char_of)

lemma parse_digits_append: "parse_digits base n (xs @ ys) = (case parse_digits base n xs of None \<Rightarrow> None | Some m \<Rightarrow> parse_digits base m ys)"
  by (induction xs arbitrary: n) (auto split: option.splits)

lemma format_nat_ne [simp]: "format_nat base n \<noteq> []"
  by (subst format_nat.simps) simp

lemma parse_format: "2 \<le> base \<Longrightarrow> base \<le> 16 \<Longrightarrow> parse_digits base 0 (format_nat base n) = Some n"
proof (induction base n rule: format_nat.induct)
  case (1 base n)
  show ?case
  proof (cases "n < base")
    case True
    then show ?thesis using 1(2,3) by (simp add: format_nat.simps [of base n])
  next
    case False
    have m: "n mod base < base" "n mod base < 16" using 1(2,3) mod_less_divisor [of base n] by linarith+
    have nb: "\<not> base \<le> n mod base" using m(1) by linarith
    show ?thesis using False 1 digit_val_char [OF m(2)] by (subst format_nat.simps) (simp add: parse_digits_append nb)
  qed
qed

lemma digit_char_range: "n < 16 \<Longrightarrow> byte (digit_char n) \<in> {48..57} \<union> {97..102}"
  by (auto simp: digit_char_def byte_char_of)

lemma format_nat_chars: "2 \<le> base \<Longrightarrow> base \<le> 16 \<Longrightarrow> c \<in> set (format_nat base n) \<Longrightarrow> byte c \<in> {48..57} \<union> {97..102}"
proof (induction base n rule: format_nat.induct)
  case (1 base n)
  have "\<not> n < base \<Longrightarrow> n mod base < 16" using 1(2,3) mod_less_divisor [of base n] by linarith
  then show ?case using 1 digit_char_range by (auto simp: format_nat.simps [of base n] split: if_splits)
qed

text \<open>A character whose byte is that of a digit or small letter.\<close>

lemma plain_char: "byte c \<in> {48..57} \<union> {97..102} \<Longrightarrow>
    c \<noteq> CHR ''-'' \<and> c \<noteq> CHR ''+'' \<and> c \<noteq> CHR 0x0A \<and> c \<noteq> CHR '' '' \<and> 32 < byte c \<and> byte c < 128"
  by (auto simp: byte_def)

lemma ParseInt_FormatInt: "0 \<le> n \<Longrightarrow> n < 2 ^ 63 \<Longrightarrow> ParseInt (FormatInt n) = Some n"
proof -
  assume n: "0 \<le> n" "n < 2 ^ 63"
  let ?s = "format_nat 10 (nat n)"
  obtain c cs where s: "?s = c # cs" by (cases ?s) auto
  then have "c \<noteq> CHR ''-''" "c \<noteq> CHR ''+''" using plain_char [OF format_nat_chars [of 10 c "nat n"]] by auto
  moreover have "ParseUint ?s 10 64 = Some (nat n)" using n by (simp add: ParseUint_def parse_format)
  moreover have "nat n < 2 ^ 63" using n by (simp add: nat_less_iff)
  ultimately show ?thesis using n s by (simp add: ParseInt_def FormatInt_def)
qed

lemma ParseInt_bound: "ParseInt s = Some n \<Longrightarrow> n < 2 ^ 63"
  by (auto simp: ParseInt_def split: list.splits if_splits option.splits)

lemma FormatInt_chars: "0 \<le> n \<Longrightarrow> c \<in> set (FormatInt n) \<Longrightarrow> c \<noteq> CHR 0x0A \<and> c \<noteq> CHR '' '' \<and> 32 < byte c \<and> byte c < 128"
  using plain_char [OF format_nat_chars [of 10 c "nat n"]] by (simp add: FormatInt_def)

lemma FormatInt_ne [simp]: "FormatInt n \<noteq> []"
  by (simp add: FormatInt_def)

lemma format_nat_length: "2 \<le> base \<Longrightarrow> n < base ^ k \<Longrightarrow> 0 < k \<Longrightarrow> length (format_nat base n) \<le> k"
proof (induction base n arbitrary: k rule: format_nat.induct)
  case (1 base n)
  show ?case
  proof (cases "n < base")
    case True
    then show ?thesis using 1(4) by (simp add: format_nat.simps [of base n])
  next
    case False
    then have "1 < k" using 1(2-4) by (metis One_nat_def Suc_lessI power_one_right)
    then obtain j where j: "k = Suc j" "0 < j" by (cases k) auto
    have "n div base < base ^ j" using 1(3) j by (simp add: less_mult_imp_div_less mult.commute)
    then have "length (format_nat base (n div base)) \<le> j" using 1 False j by simp
    then show ?thesis using False 1(2) j by (subst format_nat.simps) simp
  qed
qed

lemma hex8_length: "n < 2 ^ 32 \<Longrightarrow> length (hex8 n) = 8"
  using format_nat_length [of 16 n 8] by (simp add: hex8_def Let_def)

lemma parse_digits_zeros: "2 \<le> base \<Longrightarrow> parse_digits base 0 (replicate k (CHR ''0'') @ s) = parse_digits base 0 s"
  by (induction k) (auto simp: digit_val_def byte_def)

lemma ParseUint_hex8: "n < 2 ^ 32 \<Longrightarrow> ParseUint (hex8 n) 16 32 = Some n"
  by (simp add: ParseUint_def hex8_def Let_def parse_digits_zeros parse_format)

lemma hex8_chars: "c \<in> set (hex8 n) \<Longrightarrow> c \<noteq> CHR ''+''"
  using plain_char [OF format_nat_chars [of 16 c n]] by (auto simp: hex8_def Let_def split: if_splits)

end
