(* ===== verification/Note.thy ===== *)
theory Note
  imports Go_Text Tlog
begin

text \<open>
  Signed notes, checkpoints and inclusion promises (\<open>internal/tlog/note.go\<close>). SHA-256 and Ed25519
  are parameters, collected in one record; \<open>crypto_ok\<close> states what is relied on: the sizes of
  hashes, keys and signatures, and that a signature verifies under the signer's public key.
\<close>

record Crypto =
  cr_sha256 :: "string \<Rightarrow> string"
  cr_public :: "string \<Rightarrow> string"
  cr_sign :: "string \<Rightarrow> string \<Rightarrow> string"
  cr_verify :: "string \<Rightarrow> string \<Rightarrow> string \<Rightarrow> bool"

definition PublicKeySize :: nat where "PublicKeySize = 32"

definition PrivateKeySize :: nat where "PrivateKeySize = 64"

definition crypto_ok :: "Crypto \<Rightarrow> bool" where
  "crypto_ok cr \<longleftrightarrow> (\<forall>x. length (cr_sha256 cr x) = 32)
     \<and> (\<forall>k. length k = PrivateKeySize \<longrightarrow> length (cr_public cr k) = PublicKeySize)
     \<and> (\<forall>k m. length k = PrivateKeySize \<longrightarrow> length (cr_sign cr k m) = 64 \<and> cr_verify cr (cr_public cr k) m (cr_sign cr k m))"

datatype note_err = Invalid_signer | Invalid_text | Malformed_key | Key_hash_mismatch | Malformed_note | Malformed_line
  | Invalid_signature | Not_signed | Malformed_checkpoint | Malformed_size | Malformed_root | Malformed_promise | Malformed_hash

section \<open>Names, texts and key hashes\<close>

definition algEd25519 :: char where "algEd25519 = CHR 0x01"

text \<open>\<open>binary.BigEndian.Uint32\<close> and \<open>PutUint32\<close>.\<close>

definition be_Uint32 :: "string \<Rightarrow> nat" where
  "be_Uint32 s = ((byte (s ! 0) * 256 + byte (s ! 1)) * 256 + byte (s ! 2)) * 256 + byte (s ! 3)"

definition be_PutUint32 :: "nat \<Rightarrow> string" where
  "be_PutUint32 n = [char_of (n div 2 ^ 24 mod 256), char_of (n div 2 ^ 16 mod 256), char_of (n div 2 ^ 8 mod 256), char_of (n mod 256)]"

definition noteKeyHash :: "Crypto \<Rightarrow> string \<Rightarrow> string \<Rightarrow> nat" where
  "noteKeyHash cr name pub = be_Uint32 (cr_sha256 cr (name @ [CHR 0x0A] @ [algEd25519] @ pub))"

definition validNoteName :: "string \<Rightarrow> bool" where
  "validNoteName name \<longleftrightarrow> name \<noteq> [] \<and> ValidString name \<and> no_space name \<and> CHR ''+'' \<notin> set name"

definition validNoteText :: "string \<Rightarrow> bool" where
  "validNoteText = all_runes (\<lambda>r n. \<not> (r < 32 \<and> r \<noteq> 10 \<or> r = RuneError \<and> n = 1))"

section \<open>Signers and verifier keys\<close>

record NoteSigner =
  ns_name :: string
  ns_hash :: nat
  ns_key :: string

definition NewNoteSigner :: "Crypto \<Rightarrow> string \<Rightarrow> string \<Rightarrow> note_err + NoteSigner" where
  "NewNoteSigner cr name key =
     (if \<not> validNoteName name \<or> length key \<noteq> PrivateKeySize then Inl Invalid_signer
      else Inr \<lparr>ns_name = name, ns_hash = noteKeyHash cr name (cr_public cr key), ns_key = key\<rparr>)"

definition signer_PublicKey :: "Crypto \<Rightarrow> NoteSigner \<Rightarrow> string" where
  "signer_PublicKey cr s = cr_public cr (ns_key s)"

definition VerifierKey :: "Crypto \<Rightarrow> string \<Rightarrow> string \<Rightarrow> string" where
  "VerifierKey cr name pub = name @ ''+'' @ hex8 (noteKeyHash cr name pub) @ ''+'' @ EncodeToString StdEncoding (algEd25519 # pub)"

definition signer_VerifierKey :: "Crypto \<Rightarrow> NoteSigner \<Rightarrow> string" where
  "signer_VerifierKey cr s = VerifierKey cr (ns_name s) (signer_PublicKey cr s)"

text \<open>The em dash and space a signature line starts with.\<close>

definition sig_mark :: string where
  "sig_mark = [CHR 0xE2, CHR 0x80, CHR 0x94, CHR 0x20]"

definition Sign :: "Crypto \<Rightarrow> NoteSigner \<Rightarrow> string \<Rightarrow> note_err + string" where
  "Sign cr s txt =
     (if \<not> (txt \<noteq> [] \<and> last txt = CHR 0x0A) \<or> \<not> validNoteText txt then Inl Invalid_text
      else let sig = cr_sign cr (ns_key s) txt in
        Inr (txt @ [CHR 0x0A] @ sig_mark @ ns_name s @ '' '' @ EncodeToString StdEncoding (be_PutUint32 (ns_hash s) @ sig) @ [CHR 0x0A]))"

definition ParseVerifierKey :: "Crypto \<Rightarrow> string \<Rightarrow> note_err + (string \<times> string)" where
  "ParseVerifierKey cr vkey =
     (case Cut (CHR ''+'') vkey of (name, rest, ok1) \<Rightarrow>
      case Cut (CHR ''+'') rest of (hash16, key64, ok2) \<Rightarrow>
      case (ParseUint hash16 16 32, Std key64) of
        (Some hash, Inr key) \<Rightarrow>
          if \<not> ok1 \<or> \<not> ok2 \<or> length hash16 \<noteq> 8 \<or> \<not> validNoteName name \<or> length key \<noteq> 1 + PublicKeySize \<or> key ! 0 \<noteq> algEd25519
            then Inl Malformed_key
          else let pub = drop 1 key in
            if hash \<noteq> noteKeyHash cr name pub then Inl Key_hash_mismatch else Inr (name, pub)
      | _ \<Rightarrow> Inl Malformed_key)"

section \<open>Opening a note\<close>

fun open_lines :: "Crypto \<Rightarrow> string \<Rightarrow> string \<Rightarrow> string \<Rightarrow> bool \<Rightarrow> string list \<Rightarrow> note_err + bool" where
  "open_lines cr name pub txt verified [] = Inr verified"
| "open_lines cr name pub txt verified (line # lines) =
     (case CutPrefix sig_mark line of
        None \<Rightarrow> Inl Malformed_line
      | Some rest \<Rightarrow> (case Cut (CHR '' '') rest of (signer, encoded, _) \<Rightarrow>
          case Std encoded of
            Inl _ \<Rightarrow> Inl Malformed_line
          | Inr raw \<Rightarrow>
            if length raw < 5 \<or> \<not> validNoteName signer then Inl Malformed_line
            else if signer \<noteq> name \<or> be_Uint32 raw \<noteq> noteKeyHash cr name pub then open_lines cr name pub txt verified lines
            else if \<not> cr_verify cr pub txt (drop 4 raw) then Inl Invalid_signature
            else open_lines cr name pub txt True lines))"

definition OpenNote :: "Crypto \<Rightarrow> string \<Rightarrow> string \<Rightarrow> note_err + string" where
  "OpenNote cr note vkey =
     (case ParseVerifierKey cr vkey of
        Inl e \<Rightarrow> Inl e
      | Inr (name, pub) \<Rightarrow>
        if length note > 2 ^ 20 \<or> \<not> ValidString note \<or> \<not> validNoteText note then Inl Malformed_note
        else case LastIndex note [CHR 0x0A, CHR 0x0A] of
          None \<Rightarrow> Inl Malformed_note
        | Some split \<Rightarrow>
          let txt = take (split + 1) note; sigs = drop (split + 2) note in
          if sigs = [] \<or> last sigs \<noteq> CHR 0x0A then Inl Malformed_note
          else case open_lines cr name pub txt False (Split (CHR 0x0A) (butlast sigs)) of
            Inl e \<Rightarrow> Inl e
          | Inr verified \<Rightarrow> if verified then Inr txt else Inl Not_signed)"

section \<open>Checkpoints\<close>

record Checkpoint =
  cp_Origin :: string
  cp_Size :: int
  cp_Root :: Hash

definition Checkpoint_String :: "Checkpoint \<Rightarrow> string" where
  "Checkpoint_String c = cp_Origin c @ [CHR 0x0A] @ FormatInt (cp_Size c) @ [CHR 0x0A] @ EncodeToString StdEncoding (cp_Root c) @ [CHR 0x0A]"

definition ParseCheckpoint :: "string \<Rightarrow> note_err + Checkpoint" where
  "ParseCheckpoint txt =
     (let lines = SplitN (CHR 0x0A) txt 4 in
      if length lines < 4 \<or> lines ! 0 = [] then Inl Malformed_checkpoint
      else case ParseInt (lines ! 1) of
        None \<Rightarrow> Inl Malformed_size
      | Some n \<Rightarrow>
        if n < 0 \<or> FormatInt n \<noteq> lines ! 1 then Inl Malformed_size
        else case Std (lines ! 2) of
          Inl _ \<Rightarrow> Inl Malformed_root
        | Inr root \<Rightarrow> if length root \<noteq> 32 then Inl Malformed_root
            else Inr \<lparr>cp_Origin = lines ! 0, cp_Size = n, cp_Root = root\<rparr>)"

section \<open>Promises\<close>

definition PromiseType :: string where "PromiseType = ''promise/v1''"

record Promise =
  pr_Origin :: string
  pr_Index :: int
  pr_Leaf :: Hash
  pr_Kind :: string
  pr_ID :: string
  pr_Received :: int
  pr_MergeBy :: int

definition Promise_lines :: "Promise \<Rightarrow> string list" where
  "Promise_lines p = [pr_Origin p, PromiseType, ''index '' @ FormatInt (pr_Index p),
     ''leaf '' @ EncodeToString StdEncoding (pr_Leaf p), ''kind '' @ pr_Kind p, ''id '' @ pr_ID p,
     ''received '' @ FormatInt (pr_Received p), ''merge-by '' @ FormatInt (pr_MergeBy p)]"

definition Promise_String :: "Promise \<Rightarrow> string" where
  "Promise_String p = concat (map (\<lambda>l. l @ [CHR 0x0A]) (Promise_lines p))"

definition promise_field :: "string list \<Rightarrow> nat \<Rightarrow> string \<Rightarrow> string option" where
  "promise_field lines i name = (case CutPrefix (name @ '' '') (lines ! i) of
       None \<Rightarrow> None | Some v \<Rightarrow> if v \<noteq> [] \<and> no_space v then Some v else None)"

definition promise_number :: "string list \<Rightarrow> nat \<Rightarrow> string \<Rightarrow> int option" where
  "promise_number lines i name = (case promise_field lines i name of
       None \<Rightarrow> None
     | Some v \<Rightarrow> (case ParseInt v of None \<Rightarrow> None | Some n \<Rightarrow> if n \<ge> 0 \<and> FormatInt n = v then Some n else None))"

definition promise_leaf :: "string list \<Rightarrow> Hash option" where
  "promise_leaf lines = (case promise_field lines 3 ''leaf'' of
       None \<Rightarrow> None
     | Some v \<Rightarrow> (case Std v of Inl _ \<Rightarrow> None | Inr raw \<Rightarrow> if length raw = 32 then Some raw else None))"

definition ParsePromise :: "string \<Rightarrow> note_err + Promise" where
  "ParsePromise txt =
     (let lines = Split (CHR 0x0A) txt in
      if length lines \<noteq> 9 \<or> lines ! 8 \<noteq> [] \<or> \<not> validNoteName (lines ! 0) \<or> lines ! 1 \<noteq> PromiseType then Inl Malformed_promise
      else case (promise_number lines 2 ''index'', promise_leaf lines, promise_field lines 4 ''kind'', promise_field lines 5 ''id'',
                 promise_number lines 6 ''received'', promise_number lines 7 ''merge-by'') of
        (Some index, Some leaf, Some kd, Some i, Some rcv, Some mrg) \<Rightarrow>
          if mrg < rcv then Inl Malformed_promise
          else Inr \<lparr>pr_Origin = lines ! 0, pr_Index = index, pr_Leaf = leaf, pr_Kind = kd, pr_ID = i, pr_Received = rcv, pr_MergeBy = mrg\<rparr>
      | _ \<Rightarrow> Inl Malformed_promise)"

text \<open>\<open>hex.DecodeString\<close>: pairs of digits in either case.\<close>

fun hex_DecodeString :: "string \<Rightarrow> string option" where
  "hex_DecodeString [] = Some []"
| "hex_DecodeString [a] = None"
| "hex_DecodeString (a # b # xs) = (case (digit_val a, digit_val b) of
       (Some p, Some q) \<Rightarrow> if p < 16 \<and> q < 16 then map_option (\<lambda>r. char_of (p * 16 + q) # r) (hex_DecodeString xs) else None
     | _ \<Rightarrow> None)"

definition ParseHash :: "string \<Rightarrow> note_err + Hash" where
  "ParseHash s =
     (case (if length s = 64 then hex_DecodeString s else (case Std s of Inl _ \<Rightarrow> None | Inr raw \<Rightarrow> Some raw)) of
        None \<Rightarrow> Inl Malformed_hash
      | Some raw \<Rightarrow> if length raw \<noteq> 32 then Inl Malformed_hash else Inr raw)"

end
