(* ===== verification/Log.thy ===== *)
theory Log
  imports Prelude Tlog Note
begin

text \<open>
  The board's transparency log over \<open>tlog\<close> (\<open>internal/board/transparency.go\<close>): its three append-only
  tables, the reader of stored hashes, the append of a leaf, the signing of a checkpoint once the log
  has caught up, and the reads that serve checkpoints, inclusion and consistency proofs and pages of
  leaves. The bytes of a leaf (its JSON) are an argument of the append.
\<close>

record leafRow =
  lf_idx :: int
  lf_kind :: string
  lf_subject :: string
  lf_ref :: string
  lf_data :: string
  lf_created_at :: int

record checkpointRow =
  ck_size :: int
  ck_root :: Hash
  ck_note :: string
  ck_created_at :: int

record log_db =
  tlog_leaves :: "leafRow list"
  tlog_hashes :: "StoredHash list"
  tlog_checkpoints :: "checkpointRow list"

datatype logerr = Tlog_error tlerr | Note_error note_err | Constraint string | Problem int string | No_rows

type_synonym 'a LogM = "(log_db, logerr, 'a) M"

definition LogPageMax :: int where "LogPageMax = 256"

section \<open>Appending\<close>

definition txHashReader :: "log_db \<Rightarrow> HashReader" where
  "txHashReader db level index =
     (case find (\<lambda>w. sh_Level w = level \<and> sh_Index w = index) (tlog_hashes db) of
        None \<Rightarrow> Inl (Read_error level index)
      | Some w \<Rightarrow> if length (sh_Hash w) \<noteq> 32 then Inl Malformed_stored else Inr (sh_Hash w))"

text \<open>The \<open>INSERT\<close>s, under the primary keys of the tables.\<close>

definition insertLeafRow :: "leafRow \<Rightarrow> unit LogM" where
  "insertLeafRow row = bindM (gets tlog_leaves) (\<lambda>rows.
     if list_ex (\<lambda>w. lf_idx w = lf_idx row) rows then throw (Constraint ''tlog_leaves.idx'')
     else modifyM (\<lambda>db. db\<lparr>tlog_leaves := tlog_leaves db @ [row]\<rparr>))"

definition insertHashRow :: "StoredHash \<Rightarrow> unit LogM" where
  "insertHashRow h = bindM (gets tlog_hashes) (\<lambda>rows.
     if list_ex (\<lambda>w. sh_Level w = sh_Level h \<and> sh_Index w = sh_Index h) rows then throw (Constraint ''tlog_hashes.level, tlog_hashes.idx'')
     else modifyM (\<lambda>db. db\<lparr>tlog_hashes := tlog_hashes db @ [h]\<rparr>))"

definition insertCheckpointRow :: "checkpointRow \<Rightarrow> unit LogM" where
  "insertCheckpointRow row = bindM (gets tlog_checkpoints) (\<lambda>rows.
     if list_ex (\<lambda>w. ck_size w = ck_size row) rows then throw (Constraint ''tlog_checkpoints.size'')
     else modifyM (\<lambda>db. db\<lparr>tlog_checkpoints := tlog_checkpoints db @ [row]\<rparr>))"

definition log_result :: "tlerr + 'a \<Rightarrow> 'a LogM" where
  "log_result r = (case r of Inl e \<Rightarrow> throw (Tlog_error e) | Inr a \<Rightarrow> ret a)"

definition appendLeaf :: "(string \<Rightarrow> Hash) \<Rightarrow> int \<Rightarrow> string \<Rightarrow> string \<Rightarrow> string \<Rightarrow> string \<Rightarrow> int \<Rightarrow> int LogM" where
  "appendLeaf sha256 n leaf_kind leaf_bytes subject ref at =
     bindM (gets txHashReader) (\<lambda>read.
     bindM (log_result (AppendHashes sha256 n (LeafHash sha256 leaf_bytes) read)) (\<lambda>stored.
     thenM (insertLeafRow \<lparr>lf_idx = n, lf_kind = leaf_kind, lf_subject = subject, lf_ref = ref, lf_data = leaf_bytes, lf_created_at = at\<rparr>)
    (thenM (forM stored insertHashRow)
     (ret (n + 1)))))"

section \<open>Checkpoints\<close>

text \<open>\<open>SELECT coalesce(max(idx)+1,0) FROM tlog_leaves\<close>, and the largest size signed.\<close>

definition tree_size :: "log_db \<Rightarrow> int" where
  "tree_size db = (if tlog_leaves db = [] then 0 else Max (set (map lf_idx (tlog_leaves db))) + 1)"

definition last_signed :: "log_db \<Rightarrow> int" where
  "last_signed db = (if tlog_checkpoints db = [] then 0 else Max (set (map ck_size (tlog_checkpoints db))))"

text \<open>\<open>SignCheckpoint\<close> after its catch-up, inside the same transaction.\<close>

definition SignCheckpoint :: "Crypto \<Rightarrow> NoteSigner \<Rightarrow> string \<Rightarrow> int \<Rightarrow> bool LogM" where
  "SignCheckpoint cr signer origin now =
     bindM (gets (\<lambda>db. db)) (\<lambda>db.
     let n = tree_size db in
     if tlog_checkpoints db \<noteq> [] \<and> n = last_signed db then ret False
     else bindM (log_result (TreeHash (cr_sha256 cr) n (txHashReader db))) (\<lambda>root.
       case Sign cr signer (Checkpoint_String \<lparr>cp_Origin = origin, cp_Size = n, cp_Root = root\<rparr>) of
         Inl e \<Rightarrow> throw (Note_error e)
       | Inr sn \<Rightarrow>
         thenM (insertCheckpointRow \<lparr>ck_size = n, ck_root = root, ck_note = sn, ck_created_at = now\<rparr>)
          (ret True)))"

record LogCheckpoint =
  lc_Origin :: string
  lc_Size :: int
  lc_Root :: string
  lc_RootHex :: string
  lc_CreatedAt :: int
  lc_Note :: string
  lc_VerifierKey :: string
  lc_PublicKey :: string

definition checkpointFrom :: "Crypto \<Rightarrow> NoteSigner \<Rightarrow> string \<Rightarrow> checkpointRow \<Rightarrow> LogCheckpoint" where
  "checkpointFrom cr signer origin w =
     \<lparr>lc_Origin = origin, lc_Size = ck_size w, lc_Root = EncodeToString StdEncoding (ck_root w), lc_RootHex = hex_EncodeToString (ck_root w),
      lc_CreatedAt = ck_created_at w, lc_Note = ck_note w, lc_VerifierKey = signer_VerifierKey cr signer,
      lc_PublicKey = EncodeToString RawURLEncoding (signer_PublicKey cr signer)\<rparr>"

definition ReadLogCheckpoint :: "Crypto \<Rightarrow> NoteSigner \<Rightarrow> string \<Rightarrow> int \<Rightarrow> LogCheckpoint LogM" where
  "ReadLogCheckpoint cr signer origin n =
     bindM (gets tlog_checkpoints) (\<lambda>rows.
     if n \<ge> 0 then (case find (\<lambda>w. ck_size w = n) rows of
         None \<Rightarrow> throw (Problem 404 ''not_found'')
       | Some w \<Rightarrow> ret (checkpointFrom cr signer origin w))
     else (case sort_key (\<lambda>w. - ck_size w) rows of
         [] \<Rightarrow> throw (Problem 503 ''no_checkpoint'')
       | w # _ \<Rightarrow> ret (checkpointFrom cr signer origin w)))"

section \<open>Proofs and leaves\<close>

record LogEntry =
  le_Index :: int
  le_Kind :: string
  le_Data :: string
  le_Hash :: string

definition newLogEntry :: "(string \<Rightarrow> Hash) \<Rightarrow> int \<Rightarrow> string \<Rightarrow> string \<Rightarrow> LogEntry" where
  "newLogEntry sha256 index kind data =
     \<lparr>le_Index = index, le_Kind = kind, le_Data = data, le_Hash = EncodeToString StdEncoding (LeafHash sha256 data)\<rparr>"

record LogInclusion =
  li_Leaf :: LogEntry
  li_TreeSize :: int
  li_Proof :: "string list"
  li_Checkpoint :: LogCheckpoint

definition encodeHashes :: "Hash list \<Rightarrow> string list" where
  "encodeHashes hs = map (EncodeToString StdEncoding) hs"

definition inclusion :: "(string \<Rightarrow> Hash) \<Rightarrow> int \<Rightarrow> LogCheckpoint \<Rightarrow> bool \<Rightarrow> LogInclusion LogM" where
  "inclusion sha256 index cp withPath =
     (if index < 0 \<or> index \<ge> lc_Size cp then throw (Problem 404 ''not_found'')
      else bindM (gets (\<lambda>db. db)) (\<lambda>db.
        case find (\<lambda>w. lf_idx w = index) (tlog_leaves db) of
          None \<Rightarrow> throw No_rows
        | Some w \<Rightarrow>
          let out = \<lparr>li_Leaf = newLogEntry sha256 index (lf_kind w) (lf_data w), li_TreeSize = lc_Size cp, li_Proof = [], li_Checkpoint = cp\<rparr> in
          if \<not> withPath then ret out
          else bindM (log_result (InclusionProof sha256 index (lc_Size cp) (txHashReader db))) (\<lambda>pf.
            ret (out\<lparr>li_Proof := encodeHashes pf\<rparr>))))"

record LogConsistency =
  lg_From :: LogCheckpoint
  lg_To :: LogCheckpoint
  lg_Proof :: "string list"

definition ReadLogConsistency :: "Crypto \<Rightarrow> NoteSigner \<Rightarrow> string \<Rightarrow> int \<Rightarrow> int \<Rightarrow> LogConsistency LogM" where
  "ReadLogConsistency cr signer origin from to =
     bindM (ReadLogCheckpoint cr signer origin to) (\<lambda>b.
     bindM (ReadLogCheckpoint cr signer origin from) (\<lambda>a.
     if lc_Size a > lc_Size b then throw (Problem 400 ''invalid_request'')
     else bindM (gets txHashReader) (\<lambda>read.
       bindM (log_result (ConsistencyProof (cr_sha256 cr) (lc_Size a) (lc_Size b) read)) (\<lambda>pf.
         ret \<lparr>lg_From = a, lg_To = b, lg_Proof = encodeHashes pf\<rparr>))))"

definition ReadLogLeaves :: "(string \<Rightarrow> Hash) \<Rightarrow> int \<Rightarrow> int \<Rightarrow> (LogEntry list \<times> int) LogM" where
  "ReadLogLeaves sha256 start stop =
     bindM (gets (\<lambda>db. db)) (\<lambda>db.
     if start < 0 \<or> stop \<ge> 0 \<and> stop < start then throw (Problem 400 ''invalid_request'')
     else let e = (if stop < 0 \<or> stop > start + LogPageMax then start + LogPageMax else stop) in
       ret (map (\<lambda>w. newLogEntry sha256 (lf_idx w) (lf_kind w) (lf_data w))
              (sort_key lf_idx (filter (\<lambda>w. start \<le> lf_idx w \<and> lf_idx w < e) (tlog_leaves db))), tree_size db))"

end
