(* ===== verification/Tlog_Verify.thy ===== *)
theory Tlog_Verify
  imports Tlog
begin

text \<open>
  What the verifiers of \<open>Tlog\<close> accept: each turn of their loops is one level of the tree, so the path
  of a leaf is accepted, and nothing but the leaf and its path is, unless two different pairs of hashes
  that were hashed have the same hash.
\<close>

lemma and_one [simp]: "n AND Suc 0 = Suc 0 \<longleftrightarrow> odd n" "n AND Suc 0 = 0 \<longleftrightarrow> even n" for n :: nat
  using and_one_eq [of n] by (auto simp: odd_iff_mod_2_eq_one)

declare and_Suc_0_eq [simp del]

section \<open>One turn is one level\<close>

lemma skip_even_odd [simp]: "odd fn \<Longrightarrow> skip_even fn sn = (fn, sn)"
  by (subst skip_even.simps) simp

lemma skip_even_even: "even fn \<Longrightarrow> fn \<noteq> 0 \<Longrightarrow> skip_even fn sn = skip_even (fn div 2) (sn div 2)"
  by (subst skip_even.simps) simp

lemma half_pos: "even fn \<Longrightarrow> fn \<noteq> 0 \<Longrightarrow> 0 < fn div (2::nat)"
  by (auto elim!: evenE)

text \<open>An odd last node is carried up without a turn.\<close>

lemma inclusion_loop_carry:
  "even fn \<Longrightarrow> fn \<noteq> 0 \<Longrightarrow> inclusion_loop sha256 fn fn r (p # ps) = inclusion_loop sha256 (fn div 2) (fn div 2) r (p # ps)"
  using half_pos [of fn] by (simp add: skip_even_even)

lemma consistency_loop_carry:
  "even fn \<Longrightarrow> fn \<noteq> 0 \<Longrightarrow> consistency_loop sha256 fn fn fr sr (p # ps) = consistency_loop sha256 (fn div 2) (fn div 2) fr sr (p # ps)"
  using half_pos [of fn] by (simp add: skip_even_even)

text \<open>The second hash of the consistency loop is the hash of the inclusion loop.\<close>

lemma consistency_loop_inclusion:
  "inclusion_loop sha256 fn sn sr ps = map_option (\<lambda>(n, fr, sr). (n, sr)) (consistency_loop sha256 fn sn fr sr ps)"
  by (induction ps arbitrary: fn sn fr sr) (simp_all split: prod.split)

text \<open>The pairs of hashes the verifier hashes.\<close>

fun inclusion_pairs :: "(string \<Rightarrow> Hash) \<Rightarrow> nat \<Rightarrow> nat \<Rightarrow> Hash \<Rightarrow> Hash list \<Rightarrow> (Hash \<times> Hash) list" where
  "inclusion_pairs sha256 fn sn r [] = []"
| "inclusion_pairs sha256 fn sn r (p # ps) =
     (if sn = 0 then []
      else if odd fn \<or> fn = sn then
        let (fn', sn') = skip_even fn sn in (p, r) # inclusion_pairs sha256 (fn' div 2) (sn' div 2) (NodeHash sha256 p r) ps
      else (r, p) # inclusion_pairs sha256 (fn div 2) (sn div 2) (NodeHash sha256 r p) ps)"

lemma inclusion_pairs_carry:
  "even fn \<Longrightarrow> fn \<noteq> 0 \<Longrightarrow> inclusion_pairs sha256 fn fn r (p # ps) = inclusion_pairs sha256 (fn div 2) (fn div 2) r (p # ps)"
  using half_pos [of fn] by (simp add: skip_even_even)

section \<open>Nothing else is accepted\<close>

definition no_collision :: "(string \<Rightarrow> Hash) \<Rightarrow> (Hash \<times> Hash) set \<Rightarrow> bool" where
  "no_collision sha256 P \<longleftrightarrow> inj_on (\<lambda>(l, r). NodeHash sha256 l r) P"

lemma no_collisionD: "no_collision sha256 P \<Longrightarrow> NodeHash sha256 a b = NodeHash sha256 c d \<Longrightarrow> (a, b) \<in> P \<Longrightarrow> (c, d) \<in> P \<Longrightarrow> a = c \<and> b = d"
  unfolding no_collision_def inj_on_def by auto

lemma no_collision_mono: "no_collision sha256 P \<Longrightarrow> Q \<subseteq> P \<Longrightarrow> no_collision sha256 Q"
  unfolding no_collision_def by (rule inj_on_subset)

lemma pairup_shorter: "length xs = Suc sn \<Longrightarrow> length (pairup nd xs) = Suc (sn div 2)"
  by simp

lemma inclusion_sound:
  assumes "length xs = Suc sn" "fn \<le> sn" "inclusion_loop sha256 fn sn r ps = Some (0, mth (NodeHash sha256) xs)"
    and "no_collision sha256 (set (mth_pairs (NodeHash sha256) xs) \<union> set (inclusion_pairs sha256 fn sn r ps))"
  shows "r = xs ! fn \<and> ps = mpath (NodeHash sha256) fn xs"
  using assms
proof (induction "length xs" arbitrary: xs fn sn r ps rule: less_induct)
  case less
  let ?nd = "NodeHash sha256"
  let ?up = "pairup ?nd xs"
  have ne: "xs \<noteq> []" using less(2) by auto
  have up: "length ?up = Suc (sn div 2)" "mth ?nd ?up = mth ?nd xs" using less(2) ne by (simp_all add: mth_pairup)
  have pairs: "set (mth_pairs ?nd xs) = set (level_pairs xs) \<union> set (mth_pairs ?nd ?up)" by (rule mth_pairs_up [OF ne])
  show ?case
  proof (cases "sn = 0")
    case True
    then obtain x where "xs = [x]" using less(2) by (auto simp: length_Suc_conv)
    with True less(3,4) show ?thesis by (cases ps) auto
  next
    case False
    then have path: "mpath ?nd fn xs = sibling fn xs @ mpath ?nd (fn div 2) ?up" using less(2,3) by (intro mpath_up) auto
    from False less(4) obtain p qs where ps: "ps = p # qs" by (cases ps) auto
    have shorter: "length ?up < length xs" "fn div 2 \<le> sn div 2" using False up(1) less(2,3) by (auto intro: div_le_mono)
    show ?thesis
    proof (cases "odd fn")
      case True
      then have i: "2 * (fn div 2) = fn - 1" "2 * (fn div 2) + 1 = fn" by (auto elim!: oddE)
      have IH: "?nd p r = ?up ! (fn div 2) \<and> qs = mpath ?nd (fn div 2) ?up"
        by (rule less(1) [OF shorter(1) up(1) shorter(2)])
          (use less(4,5) ps False True up(2) pairs in \<open>auto elim: no_collision_mono\<close>)
      then have "?nd p r = ?nd (xs ! (fn - 1)) (xs ! fn)" using pairup_nth [of "fn div 2" xs] i less(2,3) by simp
      moreover have "(xs ! (fn - 1), xs ! fn) \<in> set (level_pairs xs)" using level_pairs_mem [of "fn div 2" xs] i less(2,3) by simp
      ultimately have "p = xs ! (fn - 1) \<and> r = xs ! fn"
        using no_collisionD [OF less(5), of p r "xs ! (fn - 1)" "xs ! fn"] pairs ps False True by simp
      with IH path ps True show ?thesis by (simp add: sibling_def)
    next
      case even: False
      then have i: "2 * (fn div 2) = fn" by simp
      show ?thesis
      proof (cases "fn = sn")
        case True
        have "r = ?up ! (fn div 2) \<and> ps = mpath ?nd (fn div 2) ?up"
          by (rule less(1) [OF shorter(1) up(1) shorter(2)])
            (use less(4,5) ps False True even up(2) pairs inclusion_loop_carry [of fn sha256 r p qs] inclusion_pairs_carry [of fn sha256 r p qs]
             in \<open>auto elim: no_collision_mono simp del: inclusion_loop.simps inclusion_pairs.simps\<close>)
        then show ?thesis using True path even i less(2) pairup_last [of "fn div 2" xs] by (simp add: sibling_def)
      next
        case lt: False
        have IH: "?nd r p = ?up ! (fn div 2) \<and> qs = mpath ?nd (fn div 2) ?up"
          by (rule less(1) [OF shorter(1) up(1) shorter(2)])
            (use less(4,5) ps False lt even up(2) pairs in \<open>auto elim: no_collision_mono\<close>)
        then have "?nd r p = ?nd (xs ! fn) (xs ! (fn + 1))" using pairup_nth [of "fn div 2" xs] i lt less(2,3) by simp
        moreover have "(xs ! fn, xs ! (fn + 1)) \<in> set (level_pairs xs)" using level_pairs_mem [of "fn div 2" xs] i lt less(2,3) by simp
        ultimately have "r = xs ! fn \<and> p = xs ! (fn + 1)"
          using no_collisionD [OF less(5), of r p "xs ! fn" "xs ! (fn + 1)"] pairs ps False even lt by simp
        with IH path ps even lt less(2,3) show ?thesis by (simp add: sibling_def)
      qed
    qed
  qed
qed

section \<open>The path of a leaf is accepted\<close>

lemma prefix_up_odd:
  "odd fn \<Longrightarrow> fn < length xs \<Longrightarrow> pairup nd (take fn xs @ [fr]) = take (fn div 2) (pairup nd xs) @ [nd (xs ! (fn - 1)) fr]"
proof -
  assume a: "odd fn" "fn < length xs"
  then obtain j where j: "fn = Suc (2 * j)" by (auto elim!: oddE)
  have "take fn xs @ [fr] = take (2 * j) xs @ [xs ! (2 * j), fr]" using a j by (simp add: take_Suc_conv_app_nth)
  then show ?thesis using a j pairup_take [of "2 * j" xs nd] by (simp add: pairup_append)
qed

lemma prefix_up_even:
  "even fn \<Longrightarrow> fn < length xs \<Longrightarrow> pairup nd (take fn xs @ [fr]) = take (fn div 2) (pairup nd xs) @ [fr]"
  by (simp add: pairup_append pairup_take)

lemma consistency_complete:
  assumes "length xs = Suc sn" "fn \<le> sn"
  shows "consistency_loop sha256 fn sn fr (xs ! fn) (mpath (NodeHash sha256) fn xs)
    = Some (0, mth (NodeHash sha256) (take fn xs @ [fr]), mth (NodeHash sha256) xs)"
  using assms
proof (induction "length xs" arbitrary: xs fn sn fr rule: less_induct)
  case less
  let ?nd = "NodeHash sha256"
  let ?up = "pairup ?nd xs"
  have ne: "xs \<noteq> []" using less(2) by auto
  have up: "length ?up = Suc (sn div 2)" "mth ?nd ?up = mth ?nd xs" using less(2) ne by (simp_all add: mth_pairup)
  have pre: "mth ?nd (take fn xs @ [fr]) = mth ?nd (pairup ?nd (take fn xs @ [fr]))" by (simp add: mth_pairup)
  show ?case
  proof (cases "sn = 0")
    case True
    then obtain x where "xs = [x]" using less(2) by (auto simp: length_Suc_conv)
    with True less(3) show ?thesis by simp
  next
    case False
    then have path: "mpath ?nd fn xs = sibling fn xs @ mpath ?nd (fn div 2) ?up" using less(2,3) by (intro mpath_up) auto
    have shorter: "length ?up < length xs" "fn div 2 \<le> sn div 2" using False up(1) less(2,3) by (auto intro: div_le_mono)
    note IH = less(1) [OF shorter(1) up(1) shorter(2), unfolded up(2)]
    show ?thesis
    proof (cases "odd fn")
      case True
      then have i: "2 * (fn div 2) = fn - 1" "2 * (fn div 2) + 1 = fn" by (auto elim!: oddE)
      have "?up ! (fn div 2) = ?nd (xs ! (fn - 1)) (xs ! fn)" using pairup_nth [of "fn div 2" xs] i less(2,3) by simp
      with True False path pre IH [of "?nd (xs ! (fn - 1)) fr"] less(2,3) show ?thesis by (simp add: sibling_def prefix_up_odd)
    next
      case even: False
      then have i: "2 * (fn div 2) = fn" by simp
      show ?thesis
      proof (cases "fn = sn")
        case True
        then have "?up ! (fn div 2) = xs ! fn" using pairup_last [of "fn div 2" xs] i less(2) by simp
        with True even path pre IH [of fr] less(2) have I: "consistency_loop sha256 (fn div 2) (fn div 2) fr (xs ! fn) (mpath ?nd fn xs)
            = Some (0, mth ?nd (take fn xs @ [fr]), mth ?nd xs)" by (simp add: sibling_def prefix_up_even)
        obtain p qs where "mpath ?nd fn xs = p # qs"
          using I half_pos [of fn] even True False by (cases "mpath ?nd fn xs") auto
        with I consistency_loop_carry [of fn sha256 fr "xs ! fn" p qs] even True False show ?thesis by simp
      next
        case lt: False
        have "?up ! (fn div 2) = ?nd (xs ! fn) (xs ! (fn + 1))" using pairup_nth [of "fn div 2" xs] i lt less(2,3) by simp
        with even lt False path pre IH [of fr] less(2,3) show ?thesis by (simp add: sibling_def prefix_up_even)
      qed
    qed
  qed
qed

end
