(* ===== verification/Tlog_Store.thy ===== *)
theory Tlog_Store
  imports Tlog_Verify
begin

text \<open>
  The stored subtree hashes against the tree: a reader that returns the hash of every complete aligned
  subtree of the leaves gives tree heads, paths and consistency proofs of every prefix, and an append
  stores what makes it such a reader for one leaf more.
\<close>

section \<open>Powers of two and alignment\<close>

lemma pow2_test: "0 < n \<Longrightarrow> n AND (n - 1) = 0 \<longleftrightarrow> n = 2 ^ TrailingZeros64 n" for n :: nat
proof (induction n rule: TrailingZeros64.induct)
  case (1 n)
  show ?case
  proof (cases "odd n")
    case True
    then obtain j where j: "n = 2 * j + 1" by (auto elim!: oddE)
    have "n AND (n - 1) = 2 * j" unfolding j by (subst and_rec) simp
    moreover have "TrailingZeros64 n = 0" using True 1(2) by (simp add: TrailingZeros64.simps [of n])
    ultimately show ?thesis using j by simp
  next
    case False
    then obtain j where j: "n = 2 * j" by (auto elim!: evenE)
    with 1(2) have "0 < j" by simp
    then obtain i where i: "j = Suc i" by (cases j) auto
    have "n AND (n - 1) = 2 * (j AND (j - 1))" unfolding j i by (subst and_rec) simp
    moreover have "j AND (j - 1) = 0 \<longleftrightarrow> j = 2 ^ TrailingZeros64 j" using 1 False j \<open>0 < j\<close> by simp
    moreover have "TrailingZeros64 n = Suc (TrailingZeros64 j)" unfolding j using \<open>0 < j\<close> by (subst TrailingZeros64.simps) simp
    ultimately show ?thesis using j by simp
  qed
qed

lemma TrailingZeros64_pow [simp]: "TrailingZeros64 (2 ^ l) = l"
  by (induction l) (simp_all add: TrailingZeros64.simps)

lemma low_bits: "lo AND (2 ^ l - Suc 0) = lo mod 2 ^ l" for lo :: nat
  by (simp only: take_bit_eq_mod [symmetric] take_bit_eq_mask mask_eq_exp_minus_1 One_nat_def)

text \<open>The start of a range is a multiple of every power of two up to the size of the range.\<close>

definition aligned :: "nat \<Rightarrow> nat \<Rightarrow> bool" where
  "aligned lo n \<longleftrightarrow> (\<forall>l. 2 ^ l \<le> n \<longrightarrow> 2 ^ l dvd lo)"

lemma aligned_zero [simp]: "aligned 0 n"
  by (simp add: aligned_def)

lemma aligned_split: "aligned lo n \<Longrightarrow> 1 < n \<Longrightarrow> k = largestPow2Below n \<Longrightarrow> aligned lo k \<and> aligned (lo + k) (n - k)"
proof -
  assume a: "aligned lo n" "1 < n" "k = largestPow2Below n"
  obtain j where j: "k = 2 ^ j" using a(3) by (simp add: largestPow2Below_def)
  have b: "k < n" "n \<le> 2 * k" using pow2_below [OF a(2)] a(3) by auto
  have "aligned lo k" using a(1) b by (auto simp: aligned_def)
  moreover have "2 ^ l dvd lo + k" if "2 ^ l \<le> n - k" for l
  proof -
    have "2 ^ l \<le> k" using that b by linarith
    then have "l \<le> j" by (simp add: j)
    then have "2 ^ l dvd k" by (simp add: j le_imp_power_dvd)
    moreover have "2 ^ l dvd lo" using a(1) that by (simp add: aligned_def)
    ultimately show ?thesis by simp
  qed
  ultimately show ?thesis by (simp add: aligned_def)
qed

section \<open>Readers of a tree\<close>

definition range_of :: "nat \<Rightarrow> nat \<Rightarrow> 'a list \<Rightarrow> 'a list" where
  "range_of lo hi xs = take (hi - lo) (drop lo xs)"

lemma range_of_length [simp]: "hi \<le> length xs \<Longrightarrow> length (range_of lo hi xs) = hi - lo"
  by (simp add: range_of_def)

lemma range_of_take: "lo + k \<le> hi \<Longrightarrow> take k (range_of lo hi xs) = range_of lo (lo + k) xs"
  by (simp add: range_of_def min_def)

lemma range_of_drop: "lo + k \<le> hi \<Longrightarrow> drop k (range_of lo hi xs) = range_of (lo + k) hi xs"
  by (simp add: range_of_def drop_take add.commute)

lemma range_of_all [simp]: "range_of 0 n xs = take n xs"
  by (simp add: range_of_def)

definition reader_ok :: "(string \<Rightarrow> Hash) \<Rightarrow> HashReader \<Rightarrow> Hash list \<Rightarrow> bool" where
  "reader_ok sha256 read xs \<longleftrightarrow>
     (\<forall>l i. (i + 1) * 2 ^ l \<le> length xs \<longrightarrow> read l i = Inr (mth (NodeHash sha256) (range_of (i * 2 ^ l) ((i + 1) * 2 ^ l) xs)))"

lemma subtree_ok:
  assumes "reader_ok sha256 read xs" "lo < hi" "hi \<le> length xs" "aligned lo (hi - lo)"
  shows "subtree sha256 read lo hi = Inr (mth (NodeHash sha256) (range_of lo hi xs))"
  using assms
proof (induction sha256 read lo hi rule: subtree.induct)
  case (1 sha256 read lo hi)
  define n where "n = hi - lo"
  have n: "0 < n" using 1(4) by (simp add: n_def)
  show ?case
  proof (cases "n AND (n - 1) = 0")
    case True
    define l where "l = TrailingZeros64 n"
    have nl: "n = 2 ^ l" using True pow2_test [OF n] by (simp add: l_def)
    have "2 ^ l dvd lo" using 1(6) nl by (simp add: aligned_def n_def)
    then obtain i where i: "lo = i * 2 ^ l" by (metis dvd_div_mult_self)
    have hi: "hi = (i + 1) * 2 ^ l" using i nl 1(4) by (simp add: n_def)
    have "subtree sha256 read lo hi = read l i"
      using True n i unfolding subtree.simps [of sha256 read lo hi] n_def [symmetric]
      by (simp add: Let_def l_def [symmetric] drop_bit_eq_div) (simp add: nl low_bits)
    then show ?thesis using 1(3,5) hi i by (simp add: reader_ok_def)
  next
    case False
    then have n1: "1 < n" using n by (cases "n = 1") auto
    define k where "k = largestPow2Below n"
    have k: "0 < k" "k < n" using pow2_below [OF n1] by (simp_all add: k_def)
    have hi: "lo + k \<le> hi" "lo + k < hi" using k by (auto simp: n_def)
    have al: "aligned lo k" "aligned (lo + k) (hi - (lo + k))" using aligned_split [OF 1(6) [folded n_def] n1 k_def] by (simp_all add: n_def)
    have "subtree sha256 read lo (lo + k) = Inr (mth (NodeHash sha256) (range_of lo (lo + k) xs))"
      by (rule 1(1) [OF n_def _ False k_def]) (use n k al hi 1(3,5) in auto)
    moreover have "subtree sha256 read (lo + k) hi = Inr (mth (NodeHash sha256) (range_of (lo + k) hi xs))"
      by (rule 1(2) [OF n_def _ False k_def]) (use n k al hi 1(3,5) calculation in auto)
    moreover have "mth (NodeHash sha256) (range_of lo hi xs)
        = NodeHash sha256 (mth (NodeHash sha256) (range_of lo (lo + k) xs)) (mth (NodeHash sha256) (range_of (lo + k) hi xs))"
      using n1 1(5) hi by (subst mth_split) (simp_all add: range_of_take range_of_drop k_def flip: n_def)
    ultimately show ?thesis
      using False n unfolding subtree.simps [of sha256 read lo hi] n_def [symmetric] by (simp add: Let_def flip: k_def)
  qed
qed

lemma inclusion_walk_ok:
  assumes "reader_ok sha256 read xs" "lo < hi" "hi \<le> length xs" "aligned lo (hi - lo)" "m < hi - lo"
  shows "inclusion_walk sha256 read m lo hi = Inr (mpath (NodeHash sha256) m (range_of lo hi xs))"
  using assms
proof (induction "hi - lo" arbitrary: m lo hi rule: less_induct)
  case less
  define n where "n = hi - lo"
  show ?case
  proof (cases "n = 1")
    case True
    then show ?thesis using less(4) by (simp add: inclusion_walk.simps mpath.simps n_def)
  next
    case False
    with less(3) have n1: "1 < n" by (simp add: n_def)
    define k where "k = largestPow2Below n"
    have k: "0 < k" "k < n" using pow2_below [OF n1] by (simp_all add: k_def)
    have hi: "lo + k \<le> hi" "lo + k < hi" "hi - (lo + k) < hi - lo" "k < hi - lo" using k by (auto simp: n_def)
    have al: "aligned lo k" "aligned (lo + k) (hi - (lo + k))" using aligned_split [OF less(5) [folded n_def] n1 k_def] by (simp_all add: n_def)
    have sub: "subtree sha256 read lo (lo + k) = Inr (mth (NodeHash sha256) (range_of lo (lo + k) xs))"
      "subtree sha256 read (lo + k) hi = Inr (mth (NodeHash sha256) (range_of (lo + k) hi xs))"
      using subtree_ok [OF less(2), of lo "lo + k"] subtree_ok [OF less(2), of "lo + k" hi] k al hi less(4) by auto
    have len: "length (range_of lo hi xs) = n" using less(4) by (simp add: n_def)
    have path: "mpath (NodeHash sha256) m (range_of lo hi xs) = (if m < k
       then mpath (NodeHash sha256) m (range_of lo (lo + k) xs) @ [mth (NodeHash sha256) (range_of (lo + k) hi xs)]
       else mpath (NodeHash sha256) (m - k) (range_of (lo + k) hi xs) @ [mth (NodeHash sha256) (range_of lo (lo + k) xs)])"
      using n1 hi k_def by (subst mpath_split [where k = k]) (simp_all add: len range_of_take range_of_drop)
    show ?thesis
    proof (cases "m < k")
      case True
      have "inclusion_walk sha256 read m lo (lo + k) = Inr (mpath (NodeHash sha256) m (range_of lo (lo + k) xs))"
        using less(1) [of "lo + k" lo m] True k al hi less(2,4) by simp
      then show ?thesis using True n1 sub path
        unfolding inclusion_walk.simps [of sha256 read m lo hi] n_def [symmetric] by (simp add: Let_def flip: k_def)
    next
      case False
      have "inclusion_walk sha256 read (m - k) (lo + k) hi = Inr (mpath (NodeHash sha256) (m - k) (range_of (lo + k) hi xs))"
        using less(1) [of hi "lo + k" "m - k"] False k al hi less(2,4,6) by (simp add: less_diff_conv2 le_diff_conv)
      then show ?thesis using False n1 sub path
        unfolding inclusion_walk.simps [of sha256 read m lo hi] n_def [symmetric] by (simp add: Let_def flip: k_def)
    qed
  qed
qed

lemma consistency_walk_ok:
  assumes "reader_ok sha256 read xs" "lo < hi" "hi \<le> length xs" "aligned lo (hi - lo)" "0 < m" "m \<le> hi - lo"
  shows "consistency_walk sha256 read m lo hi c = Inr (mproof (NodeHash sha256) m (range_of lo hi xs) c)"
  using assms
proof (induction "hi - lo" arbitrary: m lo hi c rule: less_induct)
  case less
  define n where "n = hi - lo"
  have len: "length (range_of lo hi xs) = n" using less(4) by (simp add: n_def)
  show ?case
  proof (cases "m = n")
    case True
    then show ?thesis using subtree_ok [OF less(2-5)] len
      unfolding consistency_walk.simps [of sha256 read m lo hi] n_def [symmetric] by (simp add: mproof_all)
  next
    case False
    with less(6,7) have n1: "1 < n" and m: "m < n" by (simp_all add: n_def)
    define k where "k = largestPow2Below n"
    have k: "0 < k" "k < n" using pow2_below [OF n1] by (simp_all add: k_def)
    have hi: "lo + k \<le> hi" "lo + k < hi" "hi - (lo + k) < hi - lo" "k < hi - lo" using k by (auto simp: n_def)
    have al: "aligned lo k" "aligned (lo + k) (hi - (lo + k))" using aligned_split [OF less(5) [folded n_def] n1 k_def] by (simp_all add: n_def)
    have sub: "subtree sha256 read lo (lo + k) = Inr (mth (NodeHash sha256) (range_of lo (lo + k) xs))"
      "subtree sha256 read (lo + k) hi = Inr (mth (NodeHash sha256) (range_of (lo + k) hi xs))"
      using subtree_ok [OF less(2), of lo "lo + k"] subtree_ok [OF less(2), of "lo + k" hi] k al hi less(4) by auto
    have path: "mproof (NodeHash sha256) m (range_of lo hi xs) c = (if m \<le> k
       then mproof (NodeHash sha256) m (range_of lo (lo + k) xs) c @ [mth (NodeHash sha256) (range_of (lo + k) hi xs)]
       else mproof (NodeHash sha256) (m - k) (range_of (lo + k) hi xs) False @ [mth (NodeHash sha256) (range_of lo (lo + k) xs)])"
      using n1 m hi k_def by (subst mproof_split [where k = k]) (simp_all add: len range_of_take range_of_drop)
    show ?thesis
    proof (cases "m \<le> k")
      case True
      have "consistency_walk sha256 read m lo (lo + k) c = Inr (mproof (NodeHash sha256) m (range_of lo (lo + k) xs) c)"
        using less(1) [of "lo + k" lo m c] True k al hi less(2,4,6) by (simp add: less_diff_conv2 le_diff_conv)
      then show ?thesis using True False m n1 sub path
        unfolding consistency_walk.simps [of sha256 read m lo hi] n_def [symmetric] by (simp add: Let_def flip: k_def)
    next
      case gt: False
      have "consistency_walk sha256 read (m - k) (lo + k) hi False = Inr (mproof (NodeHash sha256) (m - k) (range_of (lo + k) hi xs) False)"
        using less(1) [of hi "lo + k" "m - k" False] gt k al hi less(2,4,7) by (simp add: le_diff_conv)
      then show ?thesis using gt False m n1 sub path
        unfolding consistency_walk.simps [of sha256 read m lo hi] n_def [symmetric] by (simp add: Let_def flip: k_def)
    qed
  qed
qed

section \<open>Appending a leaf\<close>

text \<open>The hash of a complete subtree that ends at the last of the leaves.\<close>

definition last_subtree :: "(string \<Rightarrow> Hash) \<Rightarrow> Hash list \<Rightarrow> nat \<Rightarrow> nat \<Rightarrow> Hash \<Rightarrow> bool" where
  "last_subtree sha256 ys l i h \<longleftrightarrow> (i + 1) * 2 ^ l = length ys \<and> h = mth (NodeHash sha256) (range_of (i * 2 ^ l) ((i + 1) * 2 ^ l) ys)"

lemma last_subtree_up:
  assumes "reader_ok sha256 read xs" "last_subtree sha256 (xs @ [leaf]) l i h" "odd i"
  shows "\<exists>left. read l (i - 1) = Inr left \<and> last_subtree sha256 (xs @ [leaf]) (Suc l) (i div 2) (NodeHash sha256 left h)"
proof -
  let ?nd = "NodeHash sha256" and ?ys = "xs @ [leaf]"
  from assms(3) obtain j where j: "i = Suc (2 * j)" by (auto elim!: oddE)
  have e: "(2 * j + 2) * 2 ^ l = Suc (length xs)" using assms(2) j by (simp add: last_subtree_def)
  have p: "0 < (2::nat) ^ l" by simp
  have "(2 * j + 2) * 2 ^ l = (2 * j + 1) * 2 ^ l + (2::nat) ^ l" by (simp add: algebra_simps)
  with e p have lo: "(2 * j + 1) * 2 ^ l \<le> length xs" by linarith
  have "read l (i - 1) = Inr (mth ?nd (range_of ((2 * j) * 2 ^ l) ((2 * j + 1) * 2 ^ l) xs))"
    using assms(1) lo j by (simp add: reader_ok_def)
  moreover have "range_of ((2 * j) * 2 ^ l) ((2 * j + 1) * 2 ^ l) xs = range_of ((2 * j) * 2 ^ l) ((2 * j + 1) * 2 ^ l) ?ys"
    using lo by (simp add: range_of_def algebra_simps)
  moreover have "mth ?nd (range_of ((2 * j) * 2 ^ l) ((2 * j + 2) * 2 ^ l) ?ys)
      = ?nd (mth ?nd (range_of ((2 * j) * 2 ^ l) ((2 * j + 1) * 2 ^ l) ?ys)) (mth ?nd (range_of ((2 * j + 1) * 2 ^ l) ((2 * j + 2) * 2 ^ l) ?ys))"
  proof -
    let ?r = "range_of ((2 * j) * 2 ^ l) ((2 * j + 2) * 2 ^ l) ?ys"
    have len: "length ?r = 2 * 2 ^ l" using e by (simp add: algebra_simps)
    then have k: "largestPow2Below (length ?r) = 2 ^ l" using p by (simp add: pow2_below_unique)
    have "1 < length ?r" using len p by linarith
    from mth_split [OF this, of ?nd] show ?thesis unfolding k
      by (subst (asm) range_of_take, simp add: algebra_simps) (subst (asm) range_of_drop, simp_all add: algebra_simps)
  qed
  ultimately show ?thesis using assms(2) e j by (simp add: last_subtree_def algebra_simps)
qed

lemma append_loop_ok:
  assumes "reader_ok sha256 read xs" "last_subtree sha256 (xs @ [leaf]) level i h"
  shows "\<exists>new. append_loop sha256 read level i h out = Inr (out @ new)
    \<and> (\<forall>e\<in>set new. level < sh_Level e \<and> last_subtree sha256 (xs @ [leaf]) (sh_Level e) (sh_Index e) (sh_Hash e))
    \<and> (\<forall>l j. level < l \<and> (j + 1) * 2 ^ l = length (xs @ [leaf]) \<longrightarrow> (\<exists>e\<in>set new. sh_Level e = l \<and> sh_Index e = j))
    \<and> distinct (map sh_Level new)"
  using assms(2)
proof (induction i arbitrary: level h out rule: less_induct)
  case (less i)
  show ?case
  proof (cases "odd i")
    case True
    obtain left where left: "read level (i - 1) = Inr left" "last_subtree sha256 (xs @ [leaf]) (Suc level) (i div 2) (NodeHash sha256 left h)"
      using last_subtree_up [OF assms(1) less(2) True] by blast
    define e where "e = \<lparr>sh_Level = Suc level, sh_Index = i div 2, sh_Hash = NodeHash sha256 left h\<rparr>"
    have "i div 2 < i" using True by (auto elim!: oddE)
    from less(1) [OF this left(2), of "out @ [e]"] obtain new where
      new: "append_loop sha256 read (Suc level) (i div 2) (NodeHash sha256 left h) (out @ [e]) = Inr (out @ [e] @ new)"
        "\<forall>e\<in>set new. Suc level < sh_Level e \<and> last_subtree sha256 (xs @ [leaf]) (sh_Level e) (sh_Index e) (sh_Hash e)"
        "\<forall>l j. Suc level < l \<and> (j + 1) * 2 ^ l = length (xs @ [leaf]) \<longrightarrow> (\<exists>e\<in>set new. sh_Level e = l \<and> sh_Index e = j)"
        "distinct (map sh_Level new)" by auto
    have "\<exists>x\<in>set (e # new). sh_Level x = l \<and> sh_Index x = j" if l: "level < l" "(j + 1) * 2 ^ l = length (xs @ [leaf])" for l j
    proof (cases "l = Suc level")
      case True
      then have "(j + 1) * 2 ^ Suc level = (i div 2 + 1) * 2 ^ Suc level" using l left(2) by (simp add: last_subtree_def)
      then have "j = i div 2" by (simp del: power_Suc)
      then show ?thesis using True by (simp add: e_def)
    next
      case False
      with l have "Suc level < l" by simp
      with new(3) l(2) show ?thesis by auto
    qed
    then show ?thesis using True left new
      by (intro exI [of _ "e # new"]) (auto simp: append_loop.simps [of sha256 read level i] e_def)
  next
    case False
    have "\<not> (level < l \<and> (j + 1) * 2 ^ l = length (xs @ [leaf]))" for l j
    proof (rule notI, elim conjE)
      assume a: "level < l" "(j + 1) * 2 ^ l = length (xs @ [leaf])"
      then obtain d where "l = level + Suc d" by (metis add_Suc_right less_iff_Suc_add)
      with a(2) less(2) have "(j + 1) * 2 ^ Suc d * 2 ^ level = (i + 1) * 2 ^ level" by (simp add: last_subtree_def power_add algebra_simps)
      then have "(j + 1) * 2 ^ Suc d = i + 1" by (simp only: mult_cancel2) simp
      then have "even (i + 1)" by (metis dvd_mult dvd_triv_left power_Suc)
      with False show False by simp
    qed
    then show ?thesis using False by (intro exI [of _ "[]"]) (simp add: append_loop.simps [of sha256 read level i])
  qed
qed

lemma AppendHashes_ok:
  assumes "reader_ok sha256 read xs"
  shows "\<exists>out. AppendHashes sha256 (int (length xs)) leaf read = Inr out
    \<and> (\<forall>e\<in>set out. last_subtree sha256 (xs @ [leaf]) (sh_Level e) (sh_Index e) (sh_Hash e))
    \<and> (\<forall>l j. (j + 1) * 2 ^ l = length (xs @ [leaf]) \<longrightarrow> (\<exists>e\<in>set out. sh_Level e = l \<and> sh_Index e = j))
    \<and> distinct (map sh_Level out)"
proof -
  let ?e = "\<lparr>sh_Level = 0, sh_Index = length xs, sh_Hash = leaf\<rparr>"
  have first: "last_subtree sha256 (xs @ [leaf]) 0 (length xs) leaf" by (simp add: last_subtree_def range_of_def)
  from append_loop_ok [OF assms first, of "[?e]"] obtain new where
    new: "append_loop sha256 read 0 (length xs) leaf [?e] = Inr (?e # new)"
      "\<forall>e\<in>set new. 0 < sh_Level e \<and> last_subtree sha256 (xs @ [leaf]) (sh_Level e) (sh_Index e) (sh_Hash e)"
      "\<forall>l j. 0 < l \<and> (j + 1) * 2 ^ l = length (xs @ [leaf]) \<longrightarrow> (\<exists>e\<in>set new. sh_Level e = l \<and> sh_Index e = j)"
      "distinct (map sh_Level new)" by auto
  have "\<exists>e\<in>set (?e # new). sh_Level e = l \<and> sh_Index e = j" if "(j + 1) * 2 ^ l = length (xs @ [leaf])" for l j
    using new(3) that by (cases "l = 0") auto
  then show ?thesis using new first by (intro exI [of _ "?e # new"]) (auto simp: AppendHashes_def)
qed

end
