(* ===== verification/Note_Spec.thy ===== *)
theory Note_Spec
  imports Note
begin

text \<open>
  The texts of \<open>Note\<close> and their parsers are inverse: verifier keys, signed notes, checkpoints and
  promises.
\<close>

section \<open>Key hashes and verifier keys\<close>

lemma be_Uint32_less: "be_Uint32 s < 2 ^ 32"
proof -
  have b: "byte c \<le> 255" for c using byte_less [of c] by linarith
  have "be_Uint32 s \<le> ((255 * 256 + 255) * 256 + 255) * 256 + 255"
    unfolding be_Uint32_def by (intro add_mono mult_right_mono b) auto
  then show ?thesis by simp
qed

lemma noteKeyHash_less: "noteKeyHash cr name pub < 2 ^ 32"
  by (simp add: noteKeyHash_def be_Uint32_less del: power_numeral)

lemma be_Uint32_Put: "n < 2 ^ 32 \<Longrightarrow> be_Uint32 (be_PutUint32 n @ s) = n"
proof -
  assume n: "n < 2 ^ 32"
  have m: "byte (char_of k) = k mod 256" for k :: nat by (simp add: byte_def)
  have d: "n div 2 ^ 16 = n div 256 div 256" "n div 2 ^ 24 = n div 256 div 256 div 256" "n div 2 ^ 8 = n div 256"
    by (simp_all add: div_mult2_eq [symmetric])
  have "n div 256 div 256 div 256 < 256" using n by (simp add: less_mult_imp_div_less div_mult2_eq [symmetric])
  then have top: "n div 256 div 256 div 256 mod 256 = n div 256 div 256 div 256" by simp
  have "be_Uint32 (be_PutUint32 n @ s) = ((n div 256 div 256 div 256 * 256 + n div 256 div 256 mod 256) * 256 + n div 256 mod 256) * 256 + n mod 256"
    unfolding be_Uint32_def be_PutUint32_def d by (simp only: append.simps nth_Cons_0 nth_Cons_numeral One_nat_def nth_Cons_Suc diff_numeral_simps numeral_2_eq_2 numeral_3_eq_3 m mod_mod_trivial top)
  then show ?thesis by (simp only: div_mult_mod_eq)
qed

lemma be_PutUint32_length [simp]: "length (be_PutUint32 n) = 4"
  by (simp add: be_PutUint32_def)

lemma name_chars:
  assumes "validNoteName name" "c \<in> set name"
  shows "c \<noteq> CHR 0x0A" "c \<noteq> CHR '' ''" "c \<noteq> CHR ''+''"
proof -
  have "byte c < 128 \<Longrightarrow> \<not> IsSpace (byte c)"
    using all_runes_mem [of "\<lambda>r n. \<not> IsSpace r" name c] assms by (auto simp: validNoteName_def no_space_def)
  then show "c \<noteq> CHR 0x0A" "c \<noteq> CHR '' ''" by (auto simp: IsSpace_def byte_def)
  show "c \<noteq> CHR ''+''" using assms by (auto simp: validNoteName_def)
qed

lemma ParseVerifierKey_back:
  assumes "validNoteName name" "length pub = PublicKeySize"
  shows "ParseVerifierKey cr (VerifierKey cr name pub) = Inr (name, pub)"
proof -
  let ?h = "noteKeyHash cr name pub"
  let ?k = "EncodeToString StdEncoding (algEd25519 # pub)"
  have "Cut (CHR ''+'') (name @ CHR ''+'' # hex8 ?h @ CHR ''+'' # ?k) = (name, hex8 ?h @ CHR ''+'' # ?k, True)"
    using name_chars(3) [OF assms(1)] by (intro Cut_append) blast
  moreover have "Cut (CHR ''+'') (hex8 ?h @ CHR ''+'' # ?k) = (hex8 ?h, ?k, True)"
    using hex8_chars by (intro Cut_append) blast
  moreover have "Std ?k = Inr (algEd25519 # pub)" by (simp add: Std_iff)
  ultimately show ?thesis using assms noteKeyHash_less [of cr name pub]
    by (simp add: ParseVerifierKey_def VerifierKey_def ParseUint_hex8 hex8_length)
qed

section \<open>Signed notes\<close>

lemma find_rev_upt: "i < n \<Longrightarrow> P i \<Longrightarrow> (\<And>j. i < j \<Longrightarrow> j < n \<Longrightarrow> \<not> P j) \<Longrightarrow> find P (rev [0..<n]) = Some i"
proof (induction n)
  case (Suc n)
  show ?case
  proof (cases "i = n")
    case False
    then have "\<not> P n" using Suc.prems by simp
    then show ?thesis using Suc False by simp
  qed (use Suc in simp)
qed simp

lemma take2: "take (Suc (Suc 0)) (drop j s) = [a, b] \<Longrightarrow> Suc j < length s \<and> s ! j = a \<and> s ! Suc j = b"
proof -
  assume a: "take (Suc (Suc 0)) (drop j s) = [a, b]"
  then obtain t where t: "drop j s = a # b # t" by (cases "drop j s"; cases "tl (drop j s)") auto
  then have "Suc j < length s" by (metis One_nat_def Suc_eq_plus1 add_lessD1 drop_eq_Nil drop_drop drop0 drop_Suc_Cons leI list.discI plus_1_eq_Suc)
  moreover have "s ! j = a" "s ! Suc j = b" using t by (metis nth_via_drop, metis drop_Suc_Cons drop0 nth_via_drop drop_drop plus_1_eq_Suc One_nat_def)
  ultimately show ?thesis by simp
qed

lemma LastIndex_note:
  assumes "c \<notin> set line" "line \<noteq> []"
  shows "LastIndex (t @ [c] @ [c] @ line @ [c]) [c, c] = Some (length t)"
  unfolding LastIndex_def
proof (rule find_rev_upt)
  let ?s = "t @ [c] @ [c] @ line @ [c]"
  show "\<not> take (length [c, c]) (drop j ?s) = [c, c]" if j: "length t < j" "j < length ?s" for j
  proof
    assume "take (length [c, c]) (drop j ?s) = [c, c]"
    then have n: "Suc j < length ?s" "?s ! j = c" "?s ! Suc j = c" using take2 [of j ?s c c] by auto
    show False
    proof (cases "j = length t + 1")
      case True
      then have "?s ! Suc j = line ! 0" using assms(2) by (simp add: nth_append)
      with n(3) assms show False by (metis length_greater_0_conv nth_mem)
    next
      case False
      define i where "i = j - (length t + 2)"
      have i: "i < length line" "j = length t + 2 + i" using n(1) j False by (auto simp: i_def)
      then have "?s ! j = line ! i" by (simp add: nth_append)
      with n(2) i(1) assms(1) show False by auto
    qed
  qed
qed (use assms in auto)

definition sig_line :: "Crypto \<Rightarrow> NoteSigner \<Rightarrow> string \<Rightarrow> string" where
  "sig_line cr s txt = sig_mark @ ns_name s @ CHR '' '' # EncodeToString StdEncoding (be_PutUint32 (ns_hash s) @ cr_sign cr (ns_key s) txt)"

lemma encoded_ascii: "c \<in> set (EncodeToString StdEncoding raw) \<Longrightarrow> 32 < byte c \<and> byte c < 128"
proof -
  assume "c \<in> set (EncodeToString StdEncoding raw)"
  then have "c \<in> insert (CHR ''='') (set (enc_alphabet StdEncoding))" using encoded_chars [of StdEncoding raw] by auto
  moreover have "\<forall>c\<in>insert (CHR ''='') (set (enc_alphabet StdEncoding)). 32 < byte c \<and> byte c < 128"
    by (simp add: StdEncoding_def alphanum_def byte_def)
  ultimately show ?thesis by blast
qed

lemma note_text_append: "validNoteText a \<Longrightarrow> validNoteText (a @ b) \<longleftrightarrow> validNoteText b"
  unfolding validNoteText_def by (rule all_runes_append) auto

lemma note_text_ascii: "\<forall>c\<in>set s. 32 \<le> byte c \<and> byte c < 128 \<Longrightarrow> validNoteText s"
  unfolding validNoteText_def by (rule all_runes_ascii_all) (auto simp: RuneError_def)

lemma note_text_valid: "validNoteText s \<Longrightarrow> ValidString s"
  unfolding validNoteText_def ValidString_def by (erule all_runes_mono [rotated]) auto

lemma sig_line_facts:
  assumes "validNoteName (ns_name s)"
  shows "CHR 0x0A \<notin> set (sig_line cr s txt)" "sig_line cr s txt \<noteq> []"
    and "validNoteText (ns_name s) \<Longrightarrow> validNoteText (sig_line cr s txt @ [CHR 0x0A])"
proof -
  let ?e = "EncodeToString StdEncoding (be_PutUint32 (ns_hash s) @ cr_sign cr (ns_key s) txt)"
  show "CHR 0x0A \<notin> set (sig_line cr s txt)"
    using name_chars(1) [OF assms, of "CHR 0x0A"] encoded_plain(1) [OF good_encodings(1), of "CHR 0x0A"] by (auto simp: sig_line_def sig_mark_def)
  show "sig_line cr s txt \<noteq> []" by (simp add: sig_line_def sig_mark_def)
  assume n: "validNoteText (ns_name s)"
  have m: "validNoteText sig_mark"
    by (simp add: validNoteText_def sig_mark_def all_runes.simps [of _ "CHR 0xE2 # _"] all_runes_ascii Let_def byte_def in_range_def tail6_def RuneError_def)
  have "32 \<le> byte c \<and> byte c < 128" if "c \<in> set (CHR '' '' # ?e)" for c
    using that encoded_ascii [of c "be_PutUint32 (ns_hash s) @ cr_sign cr (ns_key s) txt"] by (auto simp: byte_def)
  then have e: "validNoteText (CHR '' '' # ?e)" by (intro note_text_ascii) blast
  have "validNoteText [CHR 0x0A]" by (simp add: validNoteText_def all_runes_ascii byte_def RuneError_def)
  then have "validNoteText (sig_mark @ ns_name s @ (CHR '' '' # ?e) @ [CHR 0x0A])" using m n e by (simp only: note_text_append)
  then show "validNoteText (sig_line cr s txt @ [CHR 0x0A])" by (simp add: sig_line_def)
qed

lemma OpenNote_Sign:
  assumes "crypto_ok cr" "NewNoteSigner cr name key = Inr s" "Sign cr s txt = Inr note" "validNoteText name" "length note \<le> 2 ^ 20"
  shows "OpenNote cr note (signer_VerifierKey cr s) = Inr txt"
proof -
  let ?nl = "CHR 0x0A" and ?pub = "cr_public cr key"
  have name: "validNoteName name" and key: "length key = PrivateKeySize"
    and s: "s = \<lparr>ns_name = name, ns_hash = noteKeyHash cr name ?pub, ns_key = key\<rparr>"
    using assms(2) by (auto simp: NewNoteSigner_def split: if_splits)
  have tx: "txt \<noteq> []" "last txt = ?nl" "validNoteText txt" and nt: "note = txt @ [?nl] @ sig_line cr s txt @ [?nl]"
    using assms(3) by (auto simp: Sign_def Let_def sig_line_def split: if_splits)
  obtain t where t: "txt = t @ [?nl]" using tx by (metis append_butlast_last_id)
  have line: "?nl \<notin> set (sig_line cr s txt)" "sig_line cr s txt \<noteq> []" "validNoteText (sig_line cr s txt @ [?nl])"
    using sig_line_facts [of s cr "txt"] name assms(4) s by auto
  have "LastIndex note [?nl, ?nl] = Some (length t)" using LastIndex_note [OF line(1,2), of t] nt t by simp
  moreover have "validNoteText [?nl]" by (simp add: validNoteText_def all_runes_ascii byte_def RuneError_def)
  with tx(3) line(3) have "validNoteText note" by (simp only: nt note_text_append)
  moreover have "ParseVerifierKey cr (signer_VerifierKey cr s) = Inr (name, ?pub)"
    using ParseVerifierKey_back [OF name, of ?pub cr] assms(1) key s by (simp add: signer_VerifierKey_def signer_PublicKey_def crypto_ok_def)
  moreover have "open_lines cr name ?pub txt False [sig_line cr s txt] = Inr True"
  proof -
    let ?raw = "be_PutUint32 (ns_hash s) @ cr_sign cr key txt"
    have "Cut (CHR '' '') (name @ CHR '' '' # EncodeToString StdEncoding ?raw) = (name, EncodeToString StdEncoding ?raw, True)"
      using name_chars(2) [OF name] by (intro Cut_append) blast
    moreover have "Std (EncodeToString StdEncoding ?raw) = Inr ?raw" by (simp add: Std_iff)
    moreover have "length (cr_sign cr key txt) = 64" "cr_verify cr ?pub txt (cr_sign cr key txt)" using assms(1) key by (auto simp: crypto_ok_def)
    ultimately show ?thesis using name s be_Uint32_Put [OF noteKeyHash_less] by (simp add: sig_line_def)
  qed
  moreover have "Split ?nl (sig_line cr s txt) = [sig_line cr s txt]" by (rule Split_plain [OF line(1)])
  ultimately show ?thesis using assms(5) note_text_valid [of "note"] t nt by (simp add: OpenNote_def Let_def)
qed

section \<open>Checkpoints\<close>

lemma SplitN_4: "SplitN c s 4 = (case Cut c s of (a, b, f) \<Rightarrow> if f then a # (case Cut c b of (a, b', f) \<Rightarrow>
    if f then a # (case Cut c b' of (a, b'', f) \<Rightarrow> if f then [a, b''] else [b']) else [b]) else [s])"
  by (simp add: numeral_eq_Suc split: prod.split)

lemma ParseCheckpoint_back:
  assumes "cp_Origin c \<noteq> []" "CHR 0x0A \<notin> set (cp_Origin c)" "0 \<le> cp_Size c" "cp_Size c < 2 ^ 63" "length (cp_Root c) = 32"
  shows "ParseCheckpoint (Checkpoint_String c @ ext) = Inr c"
proof -
  let ?nl = "CHR 0x0A"
  let ?n = "FormatInt (cp_Size c)" and ?r = "EncodeToString StdEncoding (cp_Root c)"
  have nl: "?nl \<notin> set ?n" "?nl \<notin> set ?r"
    using FormatInt_chars [OF assms(3), of ?nl] encoded_plain(1) [OF good_encodings(1), of ?nl] by auto
  have "Checkpoint_String c @ ext = cp_Origin c @ ?nl # ?n @ ?nl # ?r @ ?nl # ext" by (simp add: Checkpoint_String_def)
  then have "SplitN ?nl (Checkpoint_String c @ ext) 4 = [cp_Origin c, ?n, ?r, ext]"
    using assms(2) nl by (simp add: SplitN_4)
  moreover have "Std ?r = Inr (cp_Root c)" by (simp add: Std_iff)
  moreover have "ParseInt ?n = Some (cp_Size c)" using assms(3,4) by (rule ParseInt_FormatInt)
  ultimately show ?thesis using assms by (simp add: ParseCheckpoint_def)
qed

lemma SplitN_4_lines: "length (SplitN c s 4) \<ge> 4 \<Longrightarrow> \<exists>l0 l1 l2 ext. SplitN c s 4 = [l0, l1, l2, ext] \<and> s = l0 @ c # l1 @ c # l2 @ c # ext \<and> c \<notin> set l0 \<and> c \<notin> set l1"
proof -
  assume a: "length (SplitN c s 4) \<ge> 4"
  obtain l0 s1 f0 where c0: "Cut c s = (l0, s1, f0)" by (cases "Cut c s")
  obtain l1 s2 f1 where c1: "Cut c s1 = (l1, s2, f1)" by (cases "Cut c s1")
  obtain l2 s3 f2 where c2: "Cut c s2 = (l2, s3, f2)" by (cases "Cut c s2")
  have "f0 \<and> f1 \<and> f2" using a c0 c1 c2 by (auto simp: SplitN_4 split: if_splits)
  with c0 c1 c2 Cut_found [of c s l0 s1] Cut_found [of c s1 l1 s2] Cut_found [of c s2 l2 s3] show ?thesis by (simp add: SplitN_4)
qed

lemma ParseCheckpoint_only: "ParseCheckpoint s = Inr c \<Longrightarrow> (\<exists>ext. s = Checkpoint_String c @ ext) \<and> cp_Origin c \<noteq> []
    \<and> CHR 0x0A \<notin> set (cp_Origin c) \<and> 0 \<le> cp_Size c \<and> cp_Size c < 2 ^ 63 \<and> length (cp_Root c) = 32"
proof -
  assume a: "ParseCheckpoint s = Inr c"
  then have "length (SplitN (CHR 0x0A) s 4) \<ge> 4" by (auto simp: ParseCheckpoint_def Let_def split: if_splits)
  then obtain l0 l1 l2 ext where l: "SplitN (CHR 0x0A) s 4 = [l0, l1, l2, ext]" "s = l0 @ CHR 0x0A # l1 @ CHR 0x0A # l2 @ CHR 0x0A # ext" "CHR 0x0A \<notin> set l0"
    using SplitN_4_lines by blast
  from a l show ?thesis
    by (auto simp: ParseCheckpoint_def Let_def Checkpoint_String_def Std_iff dest: ParseInt_bound split: if_splits option.splits sum.splits)
qed

section \<open>Promises\<close>

definition promise_ok :: "Promise \<Rightarrow> bool" where
  "promise_ok p \<longleftrightarrow> validNoteName (pr_Origin p) \<and> 0 \<le> pr_Index p \<and> pr_Index p < 2 ^ 63 \<and> length (pr_Leaf p) = 32
     \<and> pr_Kind p \<noteq> [] \<and> no_space (pr_Kind p) \<and> pr_ID p \<noteq> [] \<and> no_space (pr_ID p)
     \<and> 0 \<le> pr_Received p \<and> pr_Received p \<le> pr_MergeBy p \<and> pr_MergeBy p < 2 ^ 63"

lemma no_space_nl: "no_space v \<Longrightarrow> CHR 0x0A \<notin> set v"
  using all_runes_mem [of "\<lambda>r n. \<not> IsSpace r" v "CHR 0x0A"] by (auto simp: no_space_def IsSpace_def byte_def)

lemma no_space_ascii: "\<forall>c\<in>set v. 32 < byte c \<and> byte c < 128 \<Longrightarrow> no_space v"
  unfolding no_space_def by (rule all_runes_ascii_all) (auto simp: IsSpace_def)

lemma FormatInt_no_space: "0 \<le> n \<Longrightarrow> no_space (FormatInt n)"
  using FormatInt_chars by (intro no_space_ascii) blast

lemma encoded_no_space: "no_space (EncodeToString StdEncoding raw)"
  using encoded_ascii by (intro no_space_ascii) blast

lemma encoded_ne: "raw \<noteq> [] \<Longrightarrow> EncodeToString enc raw \<noteq> []"
  by (cases "(enc, raw)" rule: EncodeToString.cases) auto

lemma promise_field_iff: "promise_field lines i name = Some v \<longleftrightarrow> lines ! i = name @ '' '' @ v \<and> v \<noteq> [] \<and> no_space v"
proof
  assume "promise_field lines i name = Some v"
  then have "CutPrefix (name @ '' '') (lines ! i) = Some v" "v \<noteq> []" "no_space v"
    by (auto simp: promise_field_def split: option.splits if_splits)
  then show "lines ! i = name @ '' '' @ v \<and> v \<noteq> [] \<and> no_space v" using CutPrefix_Some [of "name @ '' ''" "lines ! i" v] by simp
next
  assume a: "lines ! i = name @ '' '' @ v \<and> v \<noteq> [] \<and> no_space v"
  then have "CutPrefix (name @ '' '') (lines ! i) = Some v" using CutPrefix_append [of "name @ '' ''" v] by simp
  with a show "promise_field lines i name = Some v" by (simp add: promise_field_def)
qed

lemma promise_number_iff: "promise_number lines i name = Some n \<longleftrightarrow> lines ! i = name @ '' '' @ FormatInt n \<and> 0 \<le> n \<and> ParseInt (FormatInt n) = Some n"
proof
  assume "promise_number lines i name = Some n"
  then obtain v where "promise_field lines i name = Some v" "ParseInt v = Some n" "0 \<le> n" "FormatInt n = v"
    by (auto simp: promise_number_def split: option.splits if_splits)
  then show "lines ! i = name @ '' '' @ FormatInt n \<and> 0 \<le> n \<and> ParseInt (FormatInt n) = Some n" by (simp add: promise_field_iff)
next
  assume a: "lines ! i = name @ '' '' @ FormatInt n \<and> 0 \<le> n \<and> ParseInt (FormatInt n) = Some n"
  then have "promise_field lines i name = Some (FormatInt n)" using FormatInt_no_space [of n] by (simp add: promise_field_iff)
  with a show "promise_number lines i name = Some n" by (simp add: promise_number_def)
qed

lemma promise_leaf_iff: "promise_leaf lines = Some h \<longleftrightarrow> lines ! 3 = ''leaf '' @ EncodeToString StdEncoding h \<and> length h = 32"
proof
  assume "promise_leaf lines = Some h"
  then show "lines ! 3 = ''leaf '' @ EncodeToString StdEncoding h \<and> length h = 32"
    by (auto simp: promise_leaf_def Std_iff promise_field_iff split: option.splits sum.splits if_splits)
next
  assume a: "lines ! 3 = ''leaf '' @ EncodeToString StdEncoding h \<and> length h = 32"
  then have "h \<noteq> []" by auto
  with a have "promise_field lines 3 ''leaf'' = Some (EncodeToString StdEncoding h)"
    using encoded_no_space [of h] encoded_ne [of h StdEncoding] by (simp add: promise_field_iff)
  moreover have "Std (EncodeToString StdEncoding h) = Inr h" by (simp add: Std_iff)
  ultimately show "promise_leaf lines = Some h" using a by (simp add: promise_leaf_def)
qed

lemma Split_9:
  assumes "\<forall>l\<in>set ls. c \<notin> set l"
  shows "Split c (concat (map (\<lambda>l. l @ [c]) ls)) = ls @ [[]]"
  using assms by (induction ls) auto

lemma join_last: "join c (ls @ [[]]) = concat (map (\<lambda>l. l @ [c]) ls)"
  by (induction ls rule: induct_list012) (auto simp: join_Cons)

lemma ParsePromise_back: "promise_ok p \<Longrightarrow> ParsePromise (Promise_String p) = Inr p"
proof -
  assume p: "promise_ok p"
  let ?ls = "Promise_lines p"
  have "CHR 0x0A \<notin> set (FormatInt n)" if "0 \<le> n" for n using FormatInt_chars [OF that, of "CHR 0x0A"] by auto
  then have "\<forall>l\<in>set ?ls. CHR 0x0A \<notin> set l"
    using p name_chars(1) [of "pr_Origin p" "CHR 0x0A"] no_space_nl [of "pr_Kind p"] no_space_nl [of "pr_ID p"]
      no_space_nl [OF encoded_no_space [of "pr_Leaf p"]]
    by (auto simp: Promise_lines_def promise_ok_def PromiseType_def)
  then have "Split (CHR 0x0A) (Promise_String p) = ?ls @ [[]]" unfolding Promise_String_def by (rule Split_9)
  moreover have "promise_number (?ls @ [[]]) 2 ''index'' = Some (pr_Index p)" "promise_number (?ls @ [[]]) 6 ''received'' = Some (pr_Received p)"
    "promise_number (?ls @ [[]]) 7 ''merge-by'' = Some (pr_MergeBy p)"
    using p by (simp_all add: promise_number_iff Promise_lines_def promise_ok_def ParseInt_FormatInt)
  moreover have "promise_field (?ls @ [[]]) 4 ''kind'' = Some (pr_Kind p)" "promise_field (?ls @ [[]]) 5 ''id'' = Some (pr_ID p)"
    using p by (simp_all add: promise_field_iff Promise_lines_def promise_ok_def)
  moreover have "promise_leaf (?ls @ [[]]) = Some (pr_Leaf p)" using p by (simp add: promise_leaf_iff Promise_lines_def promise_ok_def)
  ultimately show ?thesis using p by (simp add: ParsePromise_def Let_def promise_ok_def Promise_lines_def)
qed

lemma ParsePromise_only: "ParsePromise s = Inr p \<Longrightarrow> s = Promise_String p \<and> promise_ok p"
proof -
  assume a: "ParsePromise s = Inr p"
  let ?ls = "Split (CHR 0x0A) s"
  have l: "length ?ls = 9" "?ls ! 8 = []" "?ls ! 1 = PromiseType" "?ls ! 0 = pr_Origin p" "validNoteName (?ls ! 0)"
    and f: "promise_number ?ls 2 ''index'' = Some (pr_Index p)" "promise_leaf ?ls = Some (pr_Leaf p)" "promise_field ?ls 4 ''kind'' = Some (pr_Kind p)"
      "promise_field ?ls 5 ''id'' = Some (pr_ID p)" "promise_number ?ls 6 ''received'' = Some (pr_Received p)"
      "promise_number ?ls 7 ''merge-by'' = Some (pr_MergeBy p)" "pr_Received p \<le> pr_MergeBy p"
    using a by (auto simp: ParsePromise_def Let_def split: if_splits option.splits)
  have nine: "[0..<9] = [0, 1, 2, 3, 4, 5, 6, 7, 8::nat]" by code_simp
  have "?ls = map (\<lambda>i. ?ls ! i) [0..<9]" using l(1) by (metis map_nth)
  also have "\<dots> = Promise_lines p @ [[]]"
    unfolding nine using l f by (simp add: promise_number_iff promise_field_iff promise_leaf_iff Promise_lines_def)
  finally have "s = join (CHR 0x0A) (Promise_lines p @ [[]])" using join_Split [of "CHR 0x0A" s] by simp
  moreover have "promise_ok p" using l(4,5) f by (auto simp: promise_ok_def promise_number_iff promise_field_iff promise_leaf_iff dest: ParseInt_bound)
  ultimately show ?thesis by (simp add: join_last Promise_String_def)
qed

text \<open>A promise is no checkpoint: its second line is no number.\<close>

lemma promise_no_checkpoint: "ParsePromise s = Inr p \<Longrightarrow> \<exists>e. ParseCheckpoint s = Inl e"
proof (rule ccontr)
  assume a: "ParsePromise s = Inr p" and "\<nexists>e. ParseCheckpoint s = Inl e"
  then obtain c where c: "ParseCheckpoint s = Inr c" by (cases "ParseCheckpoint s") auto
  then have "length (SplitN (CHR 0x0A) s 4) \<ge> 4" by (auto simp: ParseCheckpoint_def Let_def split: if_splits)
  then obtain l0 l1 l2 ext where l: "SplitN (CHR 0x0A) s 4 = [l0, l1, l2, ext]" "s = l0 @ CHR 0x0A # l1 @ CHR 0x0A # l2 @ CHR 0x0A # ext"
      "CHR 0x0A \<notin> set l0" "CHR 0x0A \<notin> set l1" using SplitN_4_lines by blast
  then have "Split (CHR 0x0A) s ! 1 = l1" by simp
  moreover have "Split (CHR 0x0A) s ! 1 = PromiseType" using a by (auto simp: ParsePromise_def Let_def split: if_splits)
  moreover have "ParseInt l1 \<noteq> None" using c l(1) by (auto simp: ParseCheckpoint_def Let_def split: option.splits if_splits)
  moreover have "ParseInt PromiseType = None" by (simp add: PromiseType_def ParseInt_def ParseUint_def digit_val_def byte_def Let_def)
  ultimately show False by simp
qed

section \<open>What an opened note says\<close>

lemma open_lines_verified:
  "open_lines cr name pub t False lines = Inr True \<Longrightarrow> \<exists>line\<in>set lines. \<exists>raw. line = sig_mark @ name @ CHR '' '' # EncodeToString StdEncoding raw
     \<and> be_Uint32 raw = noteKeyHash cr name pub \<and> cr_verify cr pub t (drop 4 raw)"
proof (induction lines)
  case (Cons line lines)
  show ?case
  proof (cases "open_lines cr name pub t False lines = Inr True")
    case False
    from Cons.prems obtain rest signer encoded f raw where r: "CutPrefix sig_mark line = Some rest" "Cut (CHR '' '') rest = (signer, encoded, f)"
        "Std encoded = Inr raw" "length raw \<ge> 5"
      by (auto split: option.splits sum.splits prod.splits if_splits)
    with Cons.prems False have s: "signer = name" "be_Uint32 raw = noteKeyHash cr name pub" "cr_verify cr pub t (drop 4 raw)"
      by (auto split: if_splits)
    have "encoded \<noteq> []" using r(3,4) by (auto simp: Std_def b64_decode_def strict_DecodeString_def)
    then have "f" using r(2) by (auto simp: Cut_def split: list.splits)
    then have "line = sig_mark @ name @ CHR '' '' # encoded" using CutPrefix_Some [OF r(1)] Cut_found [of "CHR '' ''" rest signer encoded] r(2) s(1) by simp
    with s r(3) show ?thesis by (intro bexI [of _ line] exI [of _ raw]) (auto simp: Std_iff)
  qed (use Cons.IH in auto)
qed simp

lemma find_rev_Some: "find P (rev xs) = Some i \<Longrightarrow> P i"
  by (auto simp: find_Some_iff)

lemma OpenNote_says:
  assumes "OpenNote cr note vkey = Inr t"
  shows "\<exists>name pub raw rest. ParseVerifierKey cr vkey = Inr (name, pub) \<and> note = t @ [CHR 0x0A] @ rest
    \<and> sig_mark @ name @ CHR '' '' # EncodeToString StdEncoding raw \<in> set (Split (CHR 0x0A) (butlast rest)) \<and> cr_verify cr pub t (drop 4 raw)"
proof -
  let ?nl = "CHR 0x0A"
  from assms obtain name pub split where k: "ParseVerifierKey cr vkey = Inr (name, pub)" "LastIndex note [?nl, ?nl] = Some split"
      "t = take (split + 1) note" "open_lines cr name pub t False (Split ?nl (butlast (drop (split + 2) note))) = Inr True"
    by (auto simp: OpenNote_def Let_def split: sum.splits prod.splits if_splits option.splits)
  have "take (length [?nl, ?nl]) (drop split note) = [?nl, ?nl]" using k(2) unfolding LastIndex_def by (rule find_rev_Some)
  then have "Suc split < length note" "note ! Suc split = ?nl" using take2 [of split "note" ?nl ?nl] by (auto simp: numeral_2_eq_2)
  then have "note = t @ [?nl] @ drop (split + 2) note" using k(3) id_take_nth_drop [of "Suc split" "note"] by simp
  with k open_lines_verified [OF k(4)] show ?thesis by blast
qed

lemma encoded_length: "length (EncodeToString StdEncoding raw) = 4 * ((length raw + 2) div 3)"
proof (induction StdEncoding raw rule: EncodeToString.induct)
  case (4 a b c xs)
  have "(length xs + 5) div 3 = Suc ((length xs + 2) div 3)" by presburger
  then show ?case using 4 by (simp add: add.commute)
qed (simp_all add: StdEncoding_def)

end
