(* ===== verification/Log_Inv.thy ===== *)
theory Log_Inv
  imports Log Tlog_Store Note_Spec
begin

text \<open>
  The invariant of the transparency log's tables: the leaves are numbered from zero, the stored hashes
  are exactly those of the complete aligned subtrees, and every signed checkpoint is the tree head of
  its leaves. Appending and signing keep it and cannot fail on a constraint or a missing hash.
\<close>

definition leaf_hashes :: "(string \<Rightarrow> Hash) \<Rightarrow> log_db \<Rightarrow> Hash list" where
  "leaf_hashes sha256 db = map (\<lambda>w. LeafHash sha256 (lf_data w)) (tlog_leaves db)"

definition tree_head :: "(string \<Rightarrow> Hash) \<Rightarrow> Hash list \<Rightarrow> Hash" where
  "tree_head sha256 xs = (if xs = [] then EmptyRoot sha256 else mth (NodeHash sha256) xs)"

definition hash_at :: "nat \<Rightarrow> nat \<Rightarrow> StoredHash list \<Rightarrow> StoredHash option" where
  "hash_at l i rows = find (\<lambda>w. sh_Level w = l \<and> sh_Index w = i) rows"

definition stored_ok :: "(string \<Rightarrow> Hash) \<Rightarrow> StoredHash list \<Rightarrow> Hash list \<Rightarrow> bool" where
  "stored_ok sha256 rows xs \<longleftrightarrow> (\<forall>l i. hash_at l i rows = (if (i + 1) * 2 ^ l \<le> length xs
     then Some \<lparr>sh_Level = l, sh_Index = i, sh_Hash = mth (NodeHash sha256) (range_of (i * 2 ^ l) ((i + 1) * 2 ^ l) xs)\<rparr> else None))"

definition checkpoint_ok :: "Crypto \<Rightarrow> NoteSigner \<Rightarrow> string \<Rightarrow> Hash list \<Rightarrow> checkpointRow \<Rightarrow> bool" where
  "checkpoint_ok cr signer origin xs w \<longleftrightarrow> 0 \<le> ck_size w \<and> ck_size w \<le> int (length xs)
     \<and> ck_root w = tree_head (cr_sha256 cr) (take (nat (ck_size w)) xs)
     \<and> Sign cr signer (Checkpoint_String \<lparr>cp_Origin = origin, cp_Size = ck_size w, cp_Root = ck_root w\<rparr>) = Inr (ck_note w)"

definition log_ok :: "Crypto \<Rightarrow> NoteSigner \<Rightarrow> string \<Rightarrow> log_db \<Rightarrow> bool" where
  "log_ok cr signer origin db \<longleftrightarrow> map lf_idx (tlog_leaves db) = map int [0..<length (tlog_leaves db)]
     \<and> stored_ok (cr_sha256 cr) (tlog_hashes db) (leaf_hashes (cr_sha256 cr) db)
     \<and> (\<forall>w\<in>set (tlog_checkpoints db). checkpoint_ok cr signer origin (leaf_hashes (cr_sha256 cr) db) w)
     \<and> distinct (map ck_size (tlog_checkpoints db))"

section \<open>Reading stored hashes\<close>

lemma mth_length: "xs \<noteq> [] \<Longrightarrow> \<forall>x\<in>set xs. length x = 32 \<Longrightarrow> \<forall>x. length (sha256 x) = 32 \<Longrightarrow> length (mth (NodeHash sha256) xs) = 32"
  by (cases "length xs \<le> 1") (auto simp: mth.simps [of _ xs] Let_def NodeHash_def)

lemma reader_of_store:
  assumes "stored_ok sha256 (tlog_hashes db) xs" "\<forall>x\<in>set xs. length x = 32" "\<forall>x. length (sha256 x) = 32"
  shows "reader_ok sha256 (txHashReader db) xs"
  unfolding reader_ok_def
proof (intro allI impI)
  fix l i assume le: "(i + 1) * 2 ^ l \<le> length xs"
  let ?r = "range_of (i * 2 ^ l) ((i + 1) * 2 ^ l) xs"
  have "length ?r = 2 ^ l" using le by simp
  then have "?r \<noteq> []" by auto
  moreover have "set ?r \<subseteq> set xs" by (auto simp: range_of_def dest: in_set_takeD in_set_dropD)
  ultimately have "length (mth (NodeHash sha256) ?r) = 32" using assms(2,3) by (intro mth_length) auto
  then show "txHashReader db l i = Inr (mth (NodeHash sha256) ?r)"
    using assms(1) le by (simp add: stored_ok_def hash_at_def txHashReader_def)
qed

lemma log_reader:
  assumes "crypto_ok cr" "log_ok cr signer origin db"
  shows "reader_ok (cr_sha256 cr) (txHashReader db) (leaf_hashes (cr_sha256 cr) db)"
  using assms by (intro reader_of_store) (auto simp: log_ok_def crypto_ok_def leaf_hashes_def LeafHash_def)

lemma take_range: "n \<le> length xs \<Longrightarrow> 0 < n \<Longrightarrow> subtree sha256 read 0 n = Inr (mth (NodeHash sha256) (take n xs))"
  if "reader_ok sha256 read xs"
  using subtree_ok [OF that, of 0 n] by simp

lemma TreeHash_ok:
  assumes "reader_ok sha256 read xs" "0 \<le> n" "n \<le> int (length xs)"
  shows "TreeHash sha256 n read = Inr (tree_head sha256 (take (nat n) xs))"
proof (cases "n = 0")
  case False
  then show ?thesis using assms take_range [OF assms(1), of "nat n"] by (auto simp: TreeHash_def tree_head_def)
qed (simp add: TreeHash_def tree_head_def)

section \<open>Appending\<close>

lemma insert_hashes:
  assumes "\<forall>h\<in>set hs. hash_at (sh_Level h) (sh_Index h) (tlog_hashes db) = None" "distinct (map sh_Level hs)"
  shows "wp (forM hs insertHashRow) (\<lambda>_ db'. db' = db\<lparr>tlog_hashes := tlog_hashes db @ hs\<rparr>) (\<lambda>_ _. False) db"
  using assms
proof (induction hs arbitrary: db)
  case (Cons h hs)
  let ?db = "db\<lparr>tlog_hashes := tlog_hashes db @ [h]\<rparr>"
  have new: "\<not> list_ex (\<lambda>w. sh_Level w = sh_Level h \<and> sh_Index w = sh_Index h) (tlog_hashes db)"
    using Cons.prems(1) by (auto simp: hash_at_def find_None_iff list_ex_iff)
  have "\<forall>g\<in>set hs. hash_at (sh_Level g) (sh_Index g) (tlog_hashes ?db) = None"
    using Cons.prems by (auto simp: hash_at_def find_None_iff)
  from Cons.IH [OF this] have "wp (forM hs insertHashRow) (\<lambda>_ db'. db' = ?db\<lparr>tlog_hashes := tlog_hashes ?db @ hs\<rparr>) (\<lambda>_ _. False) ?db"
    using Cons.prems(2) by simp
  moreover have "wp (insertHashRow h) Q E db = Q () ?db" for Q E using new by (simp add: insertHashRow_def wp_rules)
  ultimately show ?case by (simp add: wp_rules)
qed (simp add: wp_rules)

lemma stored_append:
  assumes rows: "stored_ok sha256 rows xs"
    and out: "\<forall>e\<in>set out. last_subtree sha256 (xs @ [leaf]) (sh_Level e) (sh_Index e) (sh_Hash e)"
      "\<forall>l j. (j + 1) * 2 ^ l = length (xs @ [leaf]) \<longrightarrow> (\<exists>e\<in>set out. sh_Level e = l \<and> sh_Index e = j)"
  shows "stored_ok sha256 (rows @ out) (xs @ [leaf])"
  unfolding stored_ok_def
proof (intro allI)
  fix l i
  let ?e = "\<lambda>ys. \<lparr>sh_Level = l, sh_Index = i, sh_Hash = mth (NodeHash sha256) (range_of (i * 2 ^ l) ((i + 1) * 2 ^ l) ys)\<rparr>"
  have old: "hash_at l i rows = (if (i + 1) * 2 ^ l \<le> length xs then Some (?e xs) else None)" using rows by (simp add: stored_ok_def)
  have mem: "e \<in> set out \<Longrightarrow> sh_Level e = l \<Longrightarrow> sh_Index e = i \<Longrightarrow> (i + 1) * 2 ^ l = Suc (length xs) \<and> e = ?e (xs @ [leaf])" for e
    using out(1) by (cases e) (auto simp: last_subtree_def)
  show "hash_at l i (rows @ out) = (if (i + 1) * 2 ^ l \<le> length (xs @ [leaf]) then Some (?e (xs @ [leaf])) else None)"
  proof (cases "(i + 1) * 2 ^ l \<le> length xs")
    case True
    have "range_of (i * 2 ^ l) ((i + 1) * 2 ^ l) (xs @ [leaf]) = range_of (i * 2 ^ l) ((i + 1) * 2 ^ l) xs"
      using True by (simp add: range_of_def)
    then show ?thesis using True old by (simp add: hash_at_def find_append)
  next
    case False
    then have new: "hash_at l i (rows @ out) = hash_at l i out" using old by (simp add: hash_at_def find_append)
    show ?thesis
    proof (cases "(i + 1) * 2 ^ l = Suc (length xs)")
      case True
      with out(2) have "\<exists>e\<in>set out. sh_Level e = l \<and> sh_Index e = i" by (simp del: add_Suc_right)
      then have "hash_at l i out \<noteq> None" by (auto simp: hash_at_def find_None_iff)
      then obtain e' where e': "hash_at l i out = Some e'" by auto
      then have "e' \<in> set out" "sh_Level e' = l" "sh_Index e' = i" by (auto simp: hash_at_def find_Some_iff)
      then have "e' = ?e (xs @ [leaf])" using mem by blast
      with True e' new show ?thesis by simp
    next
      case neq: False
      then have "hash_at l i out = None" using mem by (auto simp: hash_at_def find_None_iff)
      with neq False new show ?thesis by simp
    qed
  qed
qed

lemma checkpoint_append: "checkpoint_ok cr signer origin xs w \<Longrightarrow> checkpoint_ok cr signer origin (xs @ ys) w"
  by (auto simp: checkpoint_ok_def)

lemma appendLeaf_keeps:
  assumes "crypto_ok cr" "log_ok cr signer origin db" "n = int (length (tlog_leaves db))"
  shows "wp (appendLeaf (cr_sha256 cr) n kd bytes subject ref at)
    (\<lambda>n' db'. n' = n + 1 \<and> log_ok cr signer origin db' \<and> tlog_checkpoints db' = tlog_checkpoints db
       \<and> tlog_leaves db' = tlog_leaves db @ [\<lparr>lf_idx = n, lf_kind = kd, lf_subject = subject, lf_ref = ref, lf_data = bytes, lf_created_at = at\<rparr>])
    (\<lambda>_ _. False) db"
proof -
  let ?sha = "cr_sha256 cr" and ?xs = "leaf_hashes (cr_sha256 cr) db" and ?leaf = "LeafHash (cr_sha256 cr) bytes"
  let ?row = "\<lparr>lf_idx = n, lf_kind = kd, lf_subject = subject, lf_ref = ref, lf_data = bytes, lf_created_at = at\<rparr>"
  have n: "n = int (length ?xs)" using assms(3) by (simp add: leaf_hashes_def)
  from AppendHashes_ok [OF log_reader [OF assms(1,2)], of ?leaf] obtain out where out: "AppendHashes ?sha n ?leaf (txHashReader db) = Inr out"
      "\<forall>e\<in>set out. last_subtree ?sha (?xs @ [?leaf]) (sh_Level e) (sh_Index e) (sh_Hash e)"
      "\<forall>l j. (j + 1) * 2 ^ l = length (?xs @ [?leaf]) \<longrightarrow> (\<exists>e\<in>set out. sh_Level e = l \<and> sh_Index e = j)" "distinct (map sh_Level out)"
    using n by blast
  have rows: "stored_ok ?sha (tlog_hashes db) ?xs" using assms(2) by (simp add: log_ok_def)
  let ?db1 = "db\<lparr>tlog_leaves := tlog_leaves db @ [?row]\<rparr>"
  let ?db2 = "?db1\<lparr>tlog_hashes := tlog_hashes db @ out\<rparr>"
  have "lf_idx w < n" if "w \<in> set (tlog_leaves db)" for w
  proof -
    have "lf_idx w \<in> set (map lf_idx (tlog_leaves db))" using that by simp
    then have "lf_idx w \<in> set (map int [0..<length (tlog_leaves db)])" using assms(2) by (simp only: log_ok_def)
    then show ?thesis using assms(3) by auto
  qed
  then have fresh: "\<not> list_ex (\<lambda>w. lf_idx w = n) (tlog_leaves db)" by (auto simp: list_ex_iff)
  have "\<forall>h\<in>set out. hash_at (sh_Level h) (sh_Index h) (tlog_hashes ?db1) = None"
    using out(2) rows by (auto simp: stored_ok_def last_subtree_def)
  from insert_hashes [OF this out(4)]
  have loop: "wp (forM out insertHashRow) (\<lambda>_ db'. db' = ?db2) (\<lambda>_ _. False) ?db1" by simp
  have xs2: "leaf_hashes ?sha ?db2 = ?xs @ [?leaf]" by (simp add: leaf_hashes_def)
  have "log_ok cr signer origin ?db2"
    using assms(2,3) stored_append [OF rows out(2,3)] xs2 by (auto simp: log_ok_def checkpoint_append)
  then have fin: "wp (ret (n + 1)) (\<lambda>n' db'. n' = n + 1 \<and> log_ok cr signer origin db' \<and> tlog_checkpoints db' = tlog_checkpoints db
       \<and> tlog_leaves db' = tlog_leaves db @ [?row]) (\<lambda>_ _. False) ?db2" by (simp add: wp_rules)
  show ?thesis
    by (simp add: appendLeaf_def insertLeafRow_def log_result_def wp_rules out(1) fresh)
      (rule wp_conseq [OF loop], use fin in \<open>simp_all add: wp_rules\<close>)
qed

section \<open>Signing\<close>

lemma log_size: "log_ok cr signer origin db \<Longrightarrow> tree_size db = int (length (tlog_leaves db))"
proof -
  assume a: "log_ok cr signer origin db"
  show ?thesis
  proof (cases "tlog_leaves db = []")
    case False
    define n where "n = length (tlog_leaves db) - 1"
    have n: "length (tlog_leaves db) = Suc n" using False by (simp add: n_def)
    have "map lf_idx (tlog_leaves db) = map int [0..<Suc n]" using a n by (simp add: log_ok_def)
    then have "set (map lf_idx (tlog_leaves db)) = int ` {0..<Suc n}" by (simp only: set_map set_upt)
    also have "Max \<dots> = int n" by (intro Max_eqI) auto
    finally show ?thesis using False n by (simp add: tree_size_def)
  qed (simp add: tree_size_def)
qed

lemma signed_le:
  assumes "log_ok cr signer origin db" "w \<in> set (tlog_checkpoints db)"
  shows "ck_size w \<le> last_signed db \<and> last_signed db \<le> tree_size db"
proof -
  have "last_signed db \<in> set (map ck_size (tlog_checkpoints db))" using assms(2) by (auto simp: last_signed_def intro!: Max_in)
  then obtain v where "v \<in> set (tlog_checkpoints db)" "last_signed db = ck_size v" by auto
  then have "last_signed db \<le> tree_size db" using assms(1) log_size [OF assms(1)] by (auto simp: log_ok_def checkpoint_ok_def leaf_hashes_def)
  moreover have "ck_size w \<le> last_signed db" using assms(2) by (auto simp: last_signed_def)
  ultimately show ?thesis by simp
qed

text \<open>
  Signing adds the tree head of all leaves unless it is signed already. A name or origin that makes no
  valid note text is refused.
\<close>

lemma SignCheckpoint_keeps:
  assumes "crypto_ok cr" "log_ok cr signer origin db"
  shows "wp (SignCheckpoint cr signer origin now)
    (\<lambda>b db'. log_ok cr signer origin db' \<and> tlog_leaves db' = tlog_leaves db
       \<and> (\<exists>w\<in>set (tlog_checkpoints db'). ck_size w = int (length (tlog_leaves db)))
       \<and> (\<exists>new. tlog_checkpoints db' = tlog_checkpoints db @ new))
    (\<lambda>e _. e = Note_error Invalid_text) db"
proof -
  let ?sha = "cr_sha256 cr" and ?xs = "leaf_hashes (cr_sha256 cr) db"
  let ?n = "int (length (tlog_leaves db))"
  let ?root = "tree_head ?sha ?xs"
  let ?txt = "Checkpoint_String \<lparr>cp_Origin = origin, cp_Size = ?n, cp_Root = ?root\<rparr>"
  have len: "length ?xs = length (tlog_leaves db)" by (simp add: leaf_hashes_def)
  have th: "TreeHash ?sha ?n (txHashReader db) = Inr ?root"
    using TreeHash_ok [OF log_reader [OF assms], of ?n] len by simp
  have sz: "tree_size db = ?n" by (rule log_size [OF assms(2)])
  show ?thesis
  proof (cases "tlog_checkpoints db \<noteq> [] \<and> ?n = last_signed db")
    case True
    then have "last_signed db \<in> set (map ck_size (tlog_checkpoints db))" by (auto simp: last_signed_def intro!: Max_in)
    then have "\<exists>w\<in>set (tlog_checkpoints db). ck_size w = ?n" using True by auto
    with True assms(2) sz show ?thesis by (simp add: SignCheckpoint_def wp_rules)
  next
    case False
    then have unsigned: "(tlog_checkpoints db \<noteq> [] \<and> ?n = last_signed db) = False" by blast
    have fresh: "\<not> list_ex (\<lambda>w. ck_size w = ?n) (tlog_checkpoints db)"
      using False signed_le [OF assms(2)] sz by (fastforce simp: list_ex_iff)
    show ?thesis
    proof (cases "Sign cr signer ?txt")
      case (Inl e)
      then have "e = Invalid_text" by (auto simp: Sign_def Let_def split: if_splits)
      with Inl sz th unsigned show ?thesis by (simp only: SignCheckpoint_def log_result_def wp_rules Let_def if_False sum.simps)
    next
      case (Inr sn)
      let ?w = "\<lparr>ck_size = ?n, ck_root = ?root, ck_note = sn, ck_created_at = now\<rparr>"
      have "checkpoint_ok cr signer origin ?xs ?w" using Inr len by (simp add: checkpoint_ok_def)
      moreover have "?n \<notin> ck_size ` set (tlog_checkpoints db)" using fresh by (auto simp: list_ex_iff)
      ultimately have "log_ok cr signer origin (db\<lparr>tlog_checkpoints := tlog_checkpoints db @ [?w]\<rparr>)"
        using assms(2) by (auto simp: log_ok_def leaf_hashes_def)
      with Inr fresh sz th unsigned show ?thesis by (auto simp: SignCheckpoint_def log_result_def insertCheckpointRow_def wp_rules)
    qed
  qed
qed

section \<open>Runs\<close>

datatype log_call = Append_leaf string string string string int | Sign_checkpoint int

text \<open>An append is made at the size of the tree, as the catch-up does.\<close>

primrec run_call :: "Crypto \<Rightarrow> NoteSigner \<Rightarrow> string \<Rightarrow> log_call \<Rightarrow> unit LogM" where
  "run_call cr signer origin (Append_leaf kd bytes subject ref at) =
     bindM (gets tree_size) (\<lambda>n. thenM (appendLeaf (cr_sha256 cr) n kd bytes subject ref at) (ret ()))"
| "run_call cr signer origin (Sign_checkpoint now) = thenM (SignCheckpoint cr signer origin now) (ret ())"

definition log0 :: log_db where
  "log0 = \<lparr>tlog_leaves = [], tlog_hashes = [], tlog_checkpoints = []\<rparr>"

definition run_log :: "Crypto \<Rightarrow> NoteSigner \<Rightarrow> string \<Rightarrow> log_call list \<Rightarrow> log_db" where
  "run_log cr signer origin cs = foldl (\<lambda>db c. snd (transact (\<lambda>s _. s) (run_call cr signer origin c) db)) log0 cs"

lemma log_call_keeps:
  assumes "crypto_ok cr" "log_ok cr signer origin db"
  shows "wp (run_call cr signer origin c)
    (\<lambda>_ db'. log_ok cr signer origin db' \<and> (\<exists>new. tlog_leaves db' = tlog_leaves db @ new) \<and> (\<exists>new. tlog_checkpoints db' = tlog_checkpoints db @ new))
    (\<lambda>e _. e = Note_error Invalid_text) db"
proof (cases c)
  case (Append_leaf kd bytes subject ref at)
  show ?thesis unfolding Append_leaf run_call.simps wp_rules log_size [OF assms(2)]
    by (rule wp_conseq [OF appendLeaf_keeps [OF assms refl]]) (auto simp: wp_rules)
next
  case (Sign_checkpoint now)
  show ?thesis unfolding Sign_checkpoint run_call.simps wp_rules
    by (rule wp_conseq [OF SignCheckpoint_keeps [OF assms]]) (auto simp: wp_rules)
qed

interpretation log_tx: transactional "run_call cr signer origin" "\<lambda>s _. s" "\<lambda>db. crypto_ok cr \<longrightarrow> log_ok cr signer origin db"
  "\<lambda>e. crypto_ok cr \<longrightarrow> e = Note_error Invalid_text" "\<lambda>_. True"
  for cr signer origin
proof unfold_locales
  fix db c assume "crypto_ok cr \<longrightarrow> log_ok cr signer origin db"
  then show "wp (run_call cr signer origin c) (\<lambda>_ db. crypto_ok cr \<longrightarrow> log_ok cr signer origin db) (\<lambda>e _. crypto_ok cr \<longrightarrow> e = Note_error Invalid_text) db"
    by (cases "crypto_ok cr") (auto intro: wp_conseq [OF log_call_keeps])
qed

lemma log0_ok: "log_ok cr signer origin log0"
  by (simp add: log_ok_def log0_def stored_ok_def leaf_hashes_def hash_at_def)

lemma run_log_ok: "crypto_ok cr \<Longrightarrow> log_ok cr signer origin (run_log cr signer origin cs)"
  using log_tx.inv_runs [of cr signer origin log0 cs] log0_ok by (simp add: run_log_def list_all_iff)

end
