(* ===== verification/Log_Spec.thy ===== *)
theory Log_Spec
  imports Log_Inv
begin

text \<open>
  The proofs the log serves against its verifiers: they verify, and what verifies is in the tree, in
  terms of \<open>tree_head\<close> and the specification of \<open>Merkle\<close>.
\<close>

declare and_Suc_0_eq [simp del]

section \<open>Inclusion\<close>

lemma inclusion_complete:
  assumes "length xs = Suc sn" "fn \<le> sn"
  shows "inclusion_loop sha256 fn sn (xs ! fn) (mpath (NodeHash sha256) fn xs) = Some (0, mth (NodeHash sha256) xs)"
  using consistency_loop_inclusion [of sha256 fn sn "xs ! fn" _ undefined] consistency_complete [OF assms] by simp

lemma verify_inclusion:
  assumes "0 \<le> i" "i < n" "n \<le> int (length xs)"
  shows "VerifyInclusion sha256 i n (xs ! nat i) (mpath (NodeHash sha256) (nat i) (take (nat n) xs)) (tree_head sha256 (take (nat n) xs)) = Inr ()"
proof -
  let ?ys = "take (nat n) xs"
  have "length ?ys = Suc (nat (n - 1))" "nat i \<le> nat (n - 1)" "?ys ! nat i = xs ! nat i" "?ys \<noteq> []" using assms by auto
  then show ?thesis using inclusion_complete [of ?ys "nat (n - 1)" "nat i" sha256] assms by (simp add: VerifyInclusion_def tree_head_def)
qed

lemma find_indexed:
  assumes "map lf_idx rows = map int [0..<length rows]" "0 \<le> i" "i < int (length rows)"
  shows "find (\<lambda>v. lf_idx v = i) rows = Some (rows ! nat i)"
proof -
  have idx: "lf_idx (rows ! k) = int k" if "k < length rows" for k
    using that assms(1) by (metis add_0 length_map map_nth nth_map nth_upt length_upt diff_zero)
  have "lf_idx (rows ! nat i) = i" "\<forall>j<nat i. lf_idx (rows ! j) \<noteq> i" using idx assms(2,3) by auto
  then show ?thesis using assms(2,3) unfolding find_Some_iff by (intro exI [of _ "nat i"]) simp
qed

lemma find_distinct: "distinct (map f rows) \<Longrightarrow> v \<in> set rows \<Longrightarrow> find (\<lambda>w. f w = f v) rows = Some v"
  by (induction rows) auto

section \<open>Consistency\<close>

lemma mpath_ne: "1 < length xs \<Longrightarrow> mpath nd m xs \<noteq> []"
  by (subst mpath_split [OF _ refl]) auto

text \<open>
  Halving an even old size: the level on which it is odd, where the proof is the path of the last old
  node, with that node in front unless it is the whole old tree.
\<close>

lemma odd_level:
  assumes "0 < m" "m < length ys" "skip_odd (m - 1) (length ys - 1) = (fn, sn)"
  shows "\<exists>zs. length zs = Suc sn \<and> fn < sn \<and> mth nd zs = mth nd ys \<and> mth nd (take (Suc fn) zs) = mth nd (take m ys)
    \<and> mproof nd m ys True = (if fn = 0 then [] else [zs ! fn]) @ mpath nd fn zs
    \<and> (fn = 0 \<longleftrightarrow> m AND (m - 1) = 0) \<and> set (mth_pairs nd zs) \<subseteq> set (mth_pairs nd ys)"
  using assms
proof (induction m arbitrary: ys rule: less_induct)
  case (less m)
  show ?case
  proof (cases "odd m")
    case True
    then obtain j where j: "m = 2 * j + 1" by (auto elim!: oddE)
    have "m AND (m - 1) = 2 * j" unfolding j by (subst and_rec) simp
    moreover have "(fn, sn) = (m - 1, length ys - 1)" using less(4) True less(2) by (simp add: skip_odd.simps)
    moreover have "mproof nd m ys True = (if m = 1 then [] else [ys ! (m - 1)]) @ mpath nd (m - 1) ys" using mproof_odd [OF True less(3)] by simp
    ultimately show ?thesis using less(2,3) j by (intro exI [of _ ys]) auto
  next
    case False
    then have half: "0 < m div 2" "m div 2 < m" "m div 2 < (length ys + 1) div 2" using less(2,3) by (auto elim!: evenE)
    have ne: "ys \<noteq> []" "take m ys \<noteq> []" using less(2,3) by auto
    have i: "(m - 1) div 2 = m div 2 - 1" "odd (m - 1)" using False less(2) by (auto elim!: evenE)
    have "skip_odd (m - 1) (length ys - 1) = skip_odd (m div 2 - 1) ((length ys - 1) div 2)" using i by (subst skip_odd.simps) simp
    moreover have "(length ys - 1) div 2 = length (pairup nd ys) - 1" using ne by (cases ys) auto
    ultimately have sk: "skip_odd (m div 2 - 1) (length (pairup nd ys) - 1) = (fn, sn)" using less(4) by simp
    have "m div 2 < length (pairup nd ys)" using half by simp
    from less(1) [OF half(2,1) this sk] obtain zs where zs: "length zs = Suc sn" "fn < sn" "mth nd zs = mth nd (pairup nd ys)"
      "mth nd (take (Suc fn) zs) = mth nd (take (m div 2) (pairup nd ys))"
      "mproof nd (m div 2) (pairup nd ys) True = (if fn = 0 then [] else [zs ! fn]) @ mpath nd fn zs"
      "fn = 0 \<longleftrightarrow> m div 2 AND (m div 2 - 1) = 0" "set (mth_pairs nd zs) \<subseteq> set (mth_pairs nd (pairup nd ys))" by (elim exE conjE) (rule that)
    have "m AND (m - 1) = 2 * (m div 2 AND (m div 2 - 1))"
      using and_rec [of m "m - 1"] False less(2) i by (simp flip: i(1))
    moreover have "take (m div 2) (pairup nd ys) = pairup nd (take m ys)" using False less(3) by (simp add: pairup_take)
    moreover have "mproof nd m ys True = mproof nd (m div 2) (pairup nd ys) True" using False less(2,3) by (intro mproof_even) auto
    ultimately show ?thesis using zs mth_pairs_up [OF ne(1), of nd] ne by (intro exI [of _ zs]) (auto simp: mth_pairup)
  qed
qed

lemma take_snoc: "fn < length zs \<Longrightarrow> take fn zs @ [zs ! fn] = take (Suc fn) zs"
  by (simp add: take_Suc_conv_app_nth)

lemma verify_consistency:
  assumes "0 \<le> m" "m \<le> n" "n \<le> int (length xs)"
  shows "VerifyConsistency sha256 m n (if m = 0 \<or> m = n then [] else mproof (NodeHash sha256) (nat m) (take (nat n) xs) True)
    (tree_head sha256 (take (nat m) xs)) (tree_head sha256 (take (nat n) xs)) = Inr ()"
proof (cases "m = 0 \<or> m = n")
  case True
  then show ?thesis using assms by (auto simp: VerifyConsistency_def tree_head_def)
next
  case False
  let ?nd = "NodeHash sha256" and ?ys = "take (nat n) xs"
  obtain fn sn where sk: "skip_odd (nat m - 1) (length ?ys - 1) = (fn, sn)" by (cases "skip_odd (nat m - 1) (length ?ys - 1)")
  from odd_level [OF _ _ sk, of ?nd] False assms obtain zs where zs: "length zs = Suc sn" "fn < sn" "mth ?nd zs = mth ?nd ?ys"
      "mth ?nd (take (Suc fn) zs) = mth ?nd (take (nat m) ?ys)" "mproof ?nd (nat m) ?ys True = (if fn = 0 then [] else [zs ! fn]) @ mpath ?nd fn zs"
      "fn = 0 \<longleftrightarrow> nat m AND (nat m - 1) = 0" by auto
  have rm: "tree_head sha256 (take (nat m) xs) = mth ?nd (take (Suc fn) zs)" "tree_head sha256 ?ys = mth ?nd zs"
    using zs False assms by (auto simp: tree_head_def min_def)
  have loop: "consistency_loop sha256 fn sn (zs ! fn) (zs ! fn) (mpath ?nd fn zs) = Some (0, mth ?nd (take (Suc fn) zs), mth ?nd zs)"
    using consistency_complete [of zs sn fn sha256 "zs ! fn"] zs(1,2) take_snoc [of fn zs] by simp
  have "mpath ?nd fn zs \<noteq> []" using zs(1,2) by (intro mpath_ne) auto
  moreover have "take (Suc 0) zs = [zs ! 0]" using zs(1) by (cases zs) auto
  moreover have "nat (m - 1) = nat m - 1" "nat (n - 1) = length ?ys - 1" using False assms by auto
  ultimately show ?thesis using False assms zs sk loop rm by (auto simp: VerifyConsistency_def Let_def)
qed

text \<open>The pairs the consistency verifier hashes for the new root.\<close>

definition consistency_pairs :: "(string \<Rightarrow> Hash) \<Rightarrow> int \<Rightarrow> int \<Rightarrow> Hash list \<Rightarrow> Hash \<Rightarrow> (Hash \<times> Hash) list" where
  "consistency_pairs sha256 m n pf rootM =
     (let pf' = (if nat m AND (nat m - 1) = 0 then rootM # pf else pf); (fn, sn) = skip_odd (nat (m - 1)) (nat (n - 1))
      in inclusion_pairs sha256 fn sn (hd pf') (tl pf'))"

lemma consistency_sound:
  assumes "VerifyConsistency sha256 m n pf rootM (tree_head sha256 xs) = Inr ()" "n = int (length xs)"
    and "no_collision sha256 (set (mth_pairs (NodeHash sha256) xs) \<union> set (consistency_pairs sha256 m n pf rootM))"
  shows "0 \<le> m \<and> m \<le> n \<and> rootM = tree_head sha256 (take (nat m) xs)"
proof (cases "m = n \<or> m = 0")
  case True
  then show ?thesis using assms(1,2) by (auto simp: VerifyConsistency_def tree_head_def split: if_splits)
next
  case False
  let ?nd = "NodeHash sha256"
  have m: "0 < m" "m < n" "pf \<noteq> []" using False assms(1) by (auto simp: VerifyConsistency_def split: if_splits)
  let ?pf = "if nat m AND (nat m - 1) = 0 then rootM # pf else pf"
  obtain fn sn where sk: "skip_odd (nat m - 1) (length xs - 1) = (fn, sn)" by (cases "skip_odd (nat m - 1) (length xs - 1)")
  have "0 < nat m" "nat m < length xs" using m assms(2) by auto
  from odd_level [OF this sk, of ?nd] obtain zs where zs: "length zs = Suc sn" "fn < sn" "mth ?nd zs = mth ?nd xs"
      "mth ?nd (take (Suc fn) zs) = mth ?nd (take (nat m) xs)" "set (mth_pairs ?nd zs) \<subseteq> set (mth_pairs ?nd xs)" by auto
  have n: "nat (m - 1) = nat m - 1" "nat (n - 1) = length xs - 1" "xs \<noteq> []" using m assms(2) by auto
  have run: "consistency_loop sha256 fn sn (hd ?pf) (hd ?pf) (tl ?pf) = Some (0, rootM, mth ?nd zs)"
    using assms(1) m n sk zs(3) by (auto simp: VerifyConsistency_def Let_def tree_head_def split: if_splits option.splits)
  have "inclusion_loop sha256 fn sn (hd ?pf) (tl ?pf) = Some (0, mth ?nd zs)"
    unfolding consistency_loop_inclusion [of sha256 fn sn "hd ?pf" "tl ?pf" "hd ?pf"] run by simp
  moreover have "no_collision sha256 (set (mth_pairs ?nd zs) \<union> set (inclusion_pairs sha256 fn sn (hd ?pf) (tl ?pf)))"
    using assms(3) zs(5) sk n by (elim no_collision_mono) (auto simp: consistency_pairs_def Let_def)
  ultimately have h: "hd ?pf = zs ! fn" "tl ?pf = mpath ?nd fn zs" using inclusion_sound [OF zs(1), of fn sha256 "hd ?pf" "tl ?pf"] zs(2) by auto
  have "rootM = mth ?nd (take (Suc fn) zs)"
    using run consistency_complete [OF zs(1), of fn sha256 "zs ! fn"] zs(1,2) take_snoc [of fn zs] unfolding h by simp
  then show ?thesis using zs(4) m n by (simp add: tree_head_def)
qed

section \<open>Runs of the log\<close>

lemma checkpoint_signs:
  assumes "validNoteText origin" "0 \<le> n"
  shows "\<exists>sn. Sign cr signer (Checkpoint_String \<lparr>cp_Origin = origin, cp_Size = n, cp_Root = root\<rparr>) = Inr sn"
proof -
  have nl: "validNoteText [CHR 0x0A]" by (simp add: validNoteText_def all_runes_ascii byte_def RuneError_def)
  have "validNoteText (FormatInt n)" using FormatInt_chars [OF assms(2)] by (intro note_text_ascii) (auto intro: less_imp_le)
  moreover have "validNoteText (EncodeToString StdEncoding root)" using encoded_ascii by (intro note_text_ascii) (auto intro: less_imp_le)
  ultimately have "validNoteText (Checkpoint_String \<lparr>cp_Origin = origin, cp_Size = n, cp_Root = root\<rparr>)"
    unfolding Checkpoint_String_def using assms(1) nl by (simp only: note_text_append Checkpoint.simps)
  then show ?thesis by (simp add: Sign_def Let_def Checkpoint_String_def)
qed

text \<open>The state after one more call: an append always succeeds, and so does signing under a valid origin.\<close>

lemma run_log_snoc: "run_log cr signer origin (cs @ [c]) = snd (transact (\<lambda>s _. s) (run_call cr signer origin c) (run_log cr signer origin cs))"
  by (simp add: run_log_def)

lemma transact_result: "wp m Q (\<lambda>_ _. False) s \<Longrightarrow> \<exists>a s'. m s = (Inr a, s') \<and> Q a s' \<and> snd (transact undo m s) = s'"
  by (auto simp: wp_def transact_def split: prod.splits sum.splits)

lemma run_append:
  assumes "crypto_ok cr"
  shows "map lf_data (tlog_leaves (run_log cr signer origin (cs @ [Append_leaf kd bytes subject ref at])))
    = map lf_data (tlog_leaves (run_log cr signer origin cs)) @ [bytes]
    \<and> tlog_checkpoints (run_log cr signer origin (cs @ [Append_leaf kd bytes subject ref at])) = tlog_checkpoints (run_log cr signer origin cs)"
proof -
  let ?db = "run_log cr signer origin cs"
  have ok: "log_ok cr signer origin ?db" by (rule run_log_ok [OF assms])
  have "wp (run_call cr signer origin (Append_leaf kd bytes subject ref at))
      (\<lambda>_ db'. map lf_data (tlog_leaves db') = map lf_data (tlog_leaves ?db) @ [bytes] \<and> tlog_checkpoints db' = tlog_checkpoints ?db) (\<lambda>_ _. False) ?db"
    unfolding run_call.simps wp_rules log_size [OF ok]
    by (rule wp_conseq [OF appendLeaf_keeps [OF assms ok refl]]) (auto simp: wp_rules)
  from transact_result [OF this, of "\<lambda>s _. s"] show ?thesis by (auto simp: run_log_snoc)
qed

lemma run_sign:
  assumes "crypto_ok cr" "validNoteText origin"
  shows "\<exists>w\<in>set (tlog_checkpoints (run_log cr signer origin (cs @ [Sign_checkpoint now]))). ck_size w = int (length (tlog_leaves (run_log cr signer origin cs)))"
    and "tlog_leaves (run_log cr signer origin (cs @ [Sign_checkpoint now])) = tlog_leaves (run_log cr signer origin cs)"
proof -
  let ?db = "run_log cr signer origin cs"
  have ok: "log_ok cr signer origin ?db" by (rule run_log_ok [OF assms(1)])
  have "fst (SignCheckpoint cr signer origin now ?db) \<noteq> Inl (Note_error Invalid_text)"
    using checkpoint_signs [OF assms(2), of "tree_size ?db" cr signer] log_size [OF ok]
    by (auto simp: SignCheckpoint_def insertCheckpointRow_def log_result_def bindM_def thenM_def gets_def ret_def throw_def modifyM_def Let_def
        split: sum.splits if_splits prod.splits) (metis Inl_Inr_False)+
  then have "wp (run_call cr signer origin (Sign_checkpoint now)) (\<lambda>_ db'. tlog_leaves db' = tlog_leaves ?db
      \<and> (\<exists>w\<in>set (tlog_checkpoints db'). ck_size w = int (length (tlog_leaves ?db)))) (\<lambda>_ _. False) ?db"
    using SignCheckpoint_keeps [OF assms(1) ok, of now]
    by (auto simp: wp_def thenM_def bindM_def ret_def split: prod.splits sum.splits)
  from transact_result [OF this, of "\<lambda>s _. s"] show "\<exists>w\<in>set (tlog_checkpoints (run_log cr signer origin (cs @ [Sign_checkpoint now]))). ck_size w = int (length (tlog_leaves ?db))"
    and "tlog_leaves (run_log cr signer origin (cs @ [Sign_checkpoint now])) = tlog_leaves ?db" by (auto simp: run_log_snoc)
qed

text \<open>Later calls only add.\<close>

lemma run_log_grows:
  assumes "crypto_ok cr"
  shows "\<exists>new. tlog_leaves (run_log cr signer origin (cs @ ds)) = tlog_leaves (run_log cr signer origin cs) @ new"
    and "\<exists>new. tlog_checkpoints (run_log cr signer origin (cs @ ds)) = tlog_checkpoints (run_log cr signer origin cs) @ new"
proof (induction ds rule: rev_induct)
  case (snoc d ds)
  let ?db = "run_log cr signer origin (cs @ ds)"
  have step: "(\<exists>new. tlog_leaves (run_log cr signer origin (cs @ ds @ [d])) = tlog_leaves ?db @ new)
      \<and> (\<exists>new. tlog_checkpoints (run_log cr signer origin (cs @ ds @ [d])) = tlog_checkpoints ?db @ new)"
    using log_call_keeps [OF assms run_log_ok [OF assms, of signer origin "cs @ ds"], of d] run_log_snoc [of cr signer origin "cs @ ds" d]
    by (auto simp: wp_def transact_def split: prod.splits sum.splits)
  case 1
  show ?case using step snoc(1) by fastforce
  case 2
  show ?case using step snoc(2) by fastforce
qed auto

end
