(* ===== verification/Log_Props.thy ===== *)
theory Log_Props
  imports Log_Spec
begin

text \<open>
  What the transparency log promises: heads, inclusion and consistency, and the texts it signs. The
  witnesses run it on a toy digest and signature that have the sizes of the real ones.
\<close>

section \<open>A log to run on\<close>

definition toy_sha256 :: "string \<Rightarrow> string" where
  "toy_sha256 s = take 32 (rev s @ replicate 32 (CHR 0x00))"

definition toy :: Crypto where
  "toy = \<lparr>cr_sha256 = toy_sha256, cr_public = take 32, cr_sign = (\<lambda>k m. take 32 k @ toy_sha256 m),
     cr_verify = (\<lambda>pub m s. s = pub @ toy_sha256 m)\<rparr>"

definition toy_key :: string where
  "toy_key = replicate 64 (CHR ''k'')"

definition toy_signer :: NoteSigner where
  "toy_signer = \<lparr>ns_name = ''log'', ns_hash = noteKeyHash toy ''log'' (take 32 toy_key), ns_key = toy_key\<rparr>"

lemma toy_sha_length [simp]: "length (toy_sha256 s) = 32"
  by (simp add: toy_sha256_def min_def)

lemma toy_ok: "crypto_ok toy"
  by (simp add: crypto_ok_def toy_def PrivateKeySize_def PublicKeySize_def)

lemma toy_sha [simp]: "cr_sha256 toy = toy_sha256"
  by (simp add: toy_def)

lemma toy_text: "validNoteText ''log''"
  by (simp add: validNoteText_def all_runes_ascii byte_def RuneError_def)

lemma toy_signs: "NewNoteSigner toy ''log'' toy_key = Inr toy_signer"
  by (simp add: NewNoteSigner_def toy_signer_def validNoteName_def ValidString_def no_space_def all_runes_ascii byte_def IsSpace_def
      RuneError_def toy_key_def PrivateKeySize_def toy_def)

text \<open>Two leaves, a checkpoint, and a third leaf.\<close>

abbreviation toy_first :: "log_call list" where
  "toy_first \<equiv> [Append_leaf ''k'' ''A'' [] [] 1, Append_leaf ''k'' ''B'' [] [] 2, Sign_checkpoint 3]"

lemma toy_run:
  "map lf_data (tlog_leaves (run_log toy toy_signer ''log'' toy_first)) = [''A'', ''B'']"
  "\<exists>w\<in>set (tlog_checkpoints (run_log toy toy_signer ''log'' toy_first)). ck_size w = 2"
proof -
  let ?r = "run_log toy toy_signer ''log''"
  let ?a = "Append_leaf ''k'' ''A'' [] [] 1" and ?b = "Append_leaf ''k'' ''B'' [] [] 2"
  have "map lf_data (tlog_leaves (?r [])) = []" by (simp add: run_log_def log0_def)
  then have ab: "map lf_data (tlog_leaves (?r [?a, ?b])) = [''A'', ''B'']"
    using run_append [OF toy_ok, of toy_signer "''log''" "[]" "''k''" "''A''" "[]" "[]" 1] run_append [OF toy_ok, of toy_signer "''log''" "[?a]" "''k''" "''B''" "[]" "[]" 2]
    by simp
  then have "length (tlog_leaves (?r [?a, ?b])) = 2" by (metis length_map length_Cons list.size(3) numeral_2_eq_2)
  then show "\<exists>w\<in>set (tlog_checkpoints (?r toy_first)). ck_size w = 2"
    using run_sign(1) [OF toy_ok toy_text, of toy_signer "[?a, ?b]" 3] by simp
  show "map lf_data (tlog_leaves (?r toy_first)) = [''A'', ''B'']"
    using run_sign(2) [OF toy_ok toy_text, of toy_signer "[?a, ?b]" 3] ab by simp
qed

text \<open>The tree of three leaves under the identity as a digest.\<close>

lemma abc_tree:
  "mth (NodeHash (\<lambda>s. s)) [''a'', ''b'', ''c''] = CHR 0x01 # (CHR 0x01 # ''ab'') @ ''c''"
  "mth_pairs (NodeHash (\<lambda>s. s)) [''a'', ''b'', ''c''] = [(CHR 0x01 # ''ab'', ''c''), (''a'', ''b'')]"
proof -
  have three: "largestPow2Below (Suc (Suc (Suc 0))) = 2" using pow2_below_unique [of 1 3] by (simp add: eval_nat_numeral)
  show "mth (NodeHash (\<lambda>s. s)) [''a'', ''b'', ''c''] = CHR 0x01 # (CHR 0x01 # ''ab'') @ ''c''"
    by (simp add: mth.simps [of _ "[_, _, _]"] three mth_two NodeHash_def)
  show "mth_pairs (NodeHash (\<lambda>s. s)) [''a'', ''b'', ''c''] = [(CHR 0x01 # ''ab'', ''c''), (''a'', ''b'')]"
    by (simp add: mth_pairs.simps [of _ "[_, _, _]"] mth_pairs.simps [of _ "[_, _]"] three mth_two NodeHash_def)
qed

lemma abc_free: "no_collision (\<lambda>s. s) {(''a'', ''b''), (CHR 0x01 # ''ab'', ''c''), (''a'', ''b'')}" "no_collision (\<lambda>s. s) {(''a'', ''b''), (CHR 0x01 # ''ab'', ''c'')}" "no_collision (\<lambda>s. s) {(CHR 0x01 # ''ab'', ''c''), (''a'', ''b'')}"
  by (simp_all add: no_collision_def inj_on_def NodeHash_def)

lemma abc_skip: "skip_odd (Suc 0) 2 = (0, 1)"
  by (simp add: skip_odd.simps [of "Suc 0" 2] skip_odd.simps [of 0 "Suc 0"])

section \<open>Heads\<close>

lemma tree_head_length:
  assumes "crypto_ok cr"
  shows "length (tree_head (cr_sha256 cr) (take n (leaf_hashes (cr_sha256 cr) db))) = 32"
proof (cases "take n (leaf_hashes (cr_sha256 cr) db) = []")
  case False
  have "length x = 32" if "x \<in> set (take n (leaf_hashes (cr_sha256 cr) db))" for x
    using in_set_takeD [OF that] assms by (auto simp: leaf_hashes_def LeafHash_def crypto_ok_def)
  then show ?thesis using False mth_length [OF False] assms by (simp add: tree_head_def crypto_ok_def)
qed (use assms in \<open>simp add: tree_head_def EmptyRoot_def crypto_ok_def\<close>)

text \<open>
  C4: a checkpoint stays true: whatever is appended and signed after it, its root is the tree head of
  the first leaves of the log, as many as its size, and its note is the signature of exactly that origin,
  size and root. The note opens under the verifier key of a signer \<open>NewNoteSigner\<close> made, if the signer's
  name has no control characters and the note is no longer than a mebibyte, and what it opens to parses
  back to exactly that head, if the origin is one line that is not empty and the size fits 64 bits.
\<close>

theorem signed_heads:
  assumes "crypto_ok cr" "w \<in> set (tlog_checkpoints (run_log cr signer origin cs))"
  shows "0 \<le> ck_size w
    \<and> ck_root w = tree_head (cr_sha256 cr) (take (nat (ck_size w)) (leaf_hashes (cr_sha256 cr) (run_log cr signer origin (cs @ ds))))
    \<and> Sign cr signer (Checkpoint_String \<lparr>cp_Origin = origin, cp_Size = ck_size w, cp_Root = ck_root w\<rparr>) = Inr (ck_note w)
    \<and> (\<forall>name key. NewNoteSigner cr name key = Inr signer \<and> validNoteText name \<and> length (ck_note w) \<le> 2 ^ 20
         \<and> origin \<noteq> [] \<and> CHR 0x0A \<notin> set origin \<and> ck_size w < 2 ^ 63 \<longrightarrow>
         (\<exists>txt. OpenNote cr (ck_note w) (signer_VerifierKey cr signer) = Inr txt
           \<and> ParseCheckpoint txt = Inr \<lparr>cp_Origin = origin, cp_Size = ck_size w, cp_Root = ck_root w\<rparr>))"
proof (intro conjI allI impI)
  let ?c = "\<lparr>cp_Origin = origin, cp_Size = ck_size w, cp_Root = ck_root w\<rparr>"
  have "w \<in> set (tlog_checkpoints (run_log cr signer origin (cs @ ds)))" using assms run_log_grows(2) [OF assms(1), of signer origin cs ds] by auto
  then show size: "0 \<le> ck_size w"
    and root: "ck_root w = tree_head (cr_sha256 cr) (take (nat (ck_size w)) (leaf_hashes (cr_sha256 cr) (run_log cr signer origin (cs @ ds))))"
    and signed: "Sign cr signer (Checkpoint_String ?c) = Inr (ck_note w)"
    using run_log_ok [OF assms(1), of signer origin "cs @ ds"] by (auto simp: log_ok_def checkpoint_ok_def)
  fix name key
  assume h: "NewNoteSigner cr name key = Inr signer \<and> validNoteText name \<and> length (ck_note w) \<le> 2 ^ 20
         \<and> origin \<noteq> [] \<and> CHR 0x0A \<notin> set origin \<and> ck_size w < 2 ^ 63"
  have "OpenNote cr (ck_note w) (signer_VerifierKey cr signer) = Inr (Checkpoint_String ?c)"
    using h by (intro OpenNote_Sign [OF assms(1) _ signed]) auto
  moreover have "ParseCheckpoint (Checkpoint_String ?c) = Inr ?c"
    using h size tree_head_length [OF assms(1)] root ParseCheckpoint_back [of ?c "[]"] by simp
  ultimately show "\<exists>txt. OpenNote cr (ck_note w) (signer_VerifierKey cr signer) = Inr txt \<and> ParseCheckpoint txt = Inr ?c" by blast
qed

lemma toy_note_length: "length (sig_line toy toy_signer m) = 100"
  by (simp add: sig_line_def encoded_length sig_mark_def toy_signer_def toy_def toy_key_def)

lemma Sign_sig_line: "Sign cr s txt = Inr sn \<Longrightarrow> sn = txt @ [CHR 0x0A] @ sig_line cr s txt @ [CHR 0x0A]"
  by (auto simp: Sign_def sig_line_def Let_def split: if_splits)

lemma decimal_two: "FormatInt 2 = ''2''"
  by (simp add: FormatInt_def format_nat.simps [of 10 2] digit_char_def char_of_eq_iff)

theorem signed_heads_witness:
  "\<exists>w :: checkpointRow. ck_size w = 2 \<and> ck_root w = tree_head toy_sha256 (take 2 (leaf_hashes toy_sha256 (run_log toy toy_signer ''log'' (toy_first @ [Append_leaf ''k'' ''C'' [] [] 4]))))
    \<and> (\<exists>txt. OpenNote toy (ck_note w) (signer_VerifierKey toy toy_signer) = Inr txt \<and> ParseCheckpoint txt = Inr \<lparr>cp_Origin = ''log'', cp_Size = 2, cp_Root = ck_root w\<rparr>)"
proof -
  obtain w where w: "w \<in> set (tlog_checkpoints (run_log toy toy_signer ''log'' toy_first))" "ck_size w = 2" using toy_run(2) by blast
  note heads = signed_heads [OF toy_ok w(1), of "[Append_leaf ''k'' ''C'' [] [] 4]", unfolded w(2)]
  have "length (ck_root w) = 32" using heads tree_head_length [OF toy_ok] by (metis (no_types))
  moreover have "ck_note w = Checkpoint_String \<lparr>cp_Origin = ''log'', cp_Size = 2, cp_Root = ck_root w\<rparr> @ [CHR 0x0A]
      @ sig_line toy toy_signer (Checkpoint_String \<lparr>cp_Origin = ''log'', cp_Size = 2, cp_Root = ck_root w\<rparr>) @ [CHR 0x0A]"
    using heads by (intro Sign_sig_line) blast
  ultimately have "length (ck_note w) \<le> 2 ^ 20" by (simp add: toy_note_length Checkpoint_String_def encoded_length decimal_two)
  then have "\<exists>txt. OpenNote toy (ck_note w) (signer_VerifierKey toy toy_signer) = Inr txt \<and> ParseCheckpoint txt = Inr \<lparr>cp_Origin = ''log'', cp_Size = 2, cp_Root = ck_root w\<rparr>"
    using heads toy_signs toy_text by fastforce
  then show ?thesis using heads w(2) by (intro exI [of _ w]) simp
qed

text \<open>
  C27: the log cannot get stuck: an append never violates a key, never misses a stored hash and adds
  exactly its leaf; signing under an origin that is valid text leaves a checkpoint of all leaves.
\<close>

theorem log_progress:
  assumes "crypto_ok cr" "validNoteText origin"
  shows "map lf_data (tlog_leaves (run_log cr signer origin (cs @ [Append_leaf kd bytes subject ref at])))
      = map lf_data (tlog_leaves (run_log cr signer origin cs)) @ [bytes]
    \<and> (\<exists>w. w \<in> set (tlog_checkpoints (run_log cr signer origin (cs @ [Sign_checkpoint now])))
         \<and> ck_size w = int (length (tlog_leaves (run_log cr signer origin cs))))"
  using run_append [OF assms(1)] run_sign(1) [OF assms] by blast

theorem log_progress_witness:
  "\<exists>w. w \<in> set (tlog_checkpoints (run_log toy toy_signer ''log'' (toy_first @ [Sign_checkpoint 9]))) \<and> ck_size w = 2"
proof -
  have "length (tlog_leaves (run_log toy toy_signer ''log'' toy_first)) = 2" using toy_run(1) by (metis length_map length_Cons list.size(3) numeral_2_eq_2)
  then show ?thesis using log_progress [OF toy_ok toy_text, of toy_signer toy_first] by (metis of_nat_numeral)
qed

section \<open>Proofs\<close>

text \<open>
  C5: the inclusion proof the log serves for a leaf against any checkpoint it has signed verifies: the
  read succeeds, and the decoded path passes the verifier with the leaf's hash and the checkpoint's root.
\<close>

theorem inclusion_served:
  assumes "crypto_ok cr" "w \<in> set (tlog_checkpoints (run_log cr signer origin cs))" "0 \<le> i" "i < ck_size w"
  shows "\<exists>out pf. inclusion (cr_sha256 cr) i (checkpointFrom cr signer origin w) True (run_log cr signer origin cs) = (Inr out, run_log cr signer origin cs)
    \<and> li_Proof out = encodeHashes pf
    \<and> li_Leaf out = newLogEntry (cr_sha256 cr) i (lf_kind (tlog_leaves (run_log cr signer origin cs) ! nat i)) (lf_data (tlog_leaves (run_log cr signer origin cs) ! nat i))
    \<and> VerifyInclusion (cr_sha256 cr) i (ck_size w) (LeafHash (cr_sha256 cr) (le_Data (li_Leaf out))) pf (ck_root w) = Inr ()"
proof -
  let ?db = "run_log cr signer origin cs" and ?sha = "cr_sha256 cr"
  let ?xs = "leaf_hashes ?sha ?db" and ?n = "nat (ck_size w)"
  have ok: "log_ok cr signer origin ?db" by (rule run_log_ok [OF assms(1)])
  then have w: "ck_size w \<le> int (length ?xs)" "ck_root w = tree_head ?sha (take ?n ?xs)"
    using assms(2) by (auto simp: log_ok_def checkpoint_ok_def)
  have len: "length ?xs = length (tlog_leaves ?db)" by (simp add: leaf_hashes_def)
  let ?row = "tlog_leaves ?db ! nat i"
  have row: "find (\<lambda>v. lf_idx v = i) (tlog_leaves ?db) = Some ?row"
    by (rule find_indexed) (use ok assms w(1) len in \<open>auto simp: log_ok_def\<close>)
  let ?pf = "mpath (NodeHash ?sha) (nat i) (take ?n ?xs)"
  have "InclusionProof ?sha i (ck_size w) (txHashReader ?db) = Inr ?pf"
    using inclusion_walk_ok [OF log_reader [OF assms(1) ok], of 0 ?n "nat i"] assms w(1) by (simp add: InclusionProof_def)
  moreover have "?xs ! nat i = LeafHash ?sha (lf_data ?row)" using assms w(1) len by (simp add: leaf_hashes_def)
  moreover have "VerifyInclusion ?sha i (ck_size w) (?xs ! nat i) ?pf (ck_root w) = Inr ()"
    unfolding w(2) by (rule verify_inclusion) (use assms w(1) in auto)
  ultimately show ?thesis using assms row
    by (intro exI [of _ "\<lparr>li_Leaf = newLogEntry ?sha i (lf_kind ?row) (lf_data ?row), li_TreeSize = ck_size w, li_Proof = encodeHashes ?pf,
        li_Checkpoint = checkpointFrom cr signer origin w\<rparr>"] exI [of _ ?pf])
      (simp add: inclusion_def checkpointFrom_def log_result_def bindM_def gets_def ret_def newLogEntry_def)
qed

theorem inclusion_served_witness:
  "\<exists>(out :: LogInclusion) pf. li_Proof out = encodeHashes pf \<and> le_Data (li_Leaf out) = ''B'' \<and> (\<exists>root. VerifyInclusion toy_sha256 1 2 (LeafHash toy_sha256 ''B'') pf root = Inr ())"
proof -
  let ?db = "run_log toy toy_signer ''log'' toy_first"
  obtain w where w: "w \<in> set (tlog_checkpoints ?db)" "ck_size w = 2" using toy_run(2) by blast
  have "length (tlog_leaves ?db) = 2" using toy_run(1) by (metis length_map length_Cons list.size(3) numeral_2_eq_2)
  then have "lf_data (tlog_leaves ?db ! 1) = ''B''" using toy_run(1) nth_map [of 1 "tlog_leaves ?db" lf_data] by simp
  with inclusion_served [OF toy_ok w(1), of 1] w(2) obtain out :: LogInclusion and pf where "li_Proof out = encodeHashes pf" "le_Data (li_Leaf out) = ''B''"
      "VerifyInclusion toy_sha256 1 2 (LeafHash toy_sha256 ''B'') pf (ck_root w) = Inr ()" by (auto simp: newLogEntry_def)
  then show ?thesis by (intro exI [of _ out] exI [of _ pf]) blast
qed

text \<open>
  C6: the consistency proof the log serves between any two checkpoints it has signed, the smaller
  first, verifies against their roots.
\<close>

theorem consistency_served:
  assumes "crypto_ok cr" "a \<in> set (tlog_checkpoints (run_log cr signer origin cs))" "b \<in> set (tlog_checkpoints (run_log cr signer origin cs))"
    and "ck_size a \<le> ck_size b"
  shows "\<exists>out pf. ReadLogConsistency cr signer origin (ck_size a) (ck_size b) (run_log cr signer origin cs) = (Inr out, run_log cr signer origin cs)
    \<and> lg_Proof out = encodeHashes pf \<and> lg_From out = checkpointFrom cr signer origin a \<and> lg_To out = checkpointFrom cr signer origin b
    \<and> VerifyConsistency (cr_sha256 cr) (ck_size a) (ck_size b) pf (ck_root a) (ck_root b) = Inr ()"
proof -
  let ?db = "run_log cr signer origin cs" and ?sha = "cr_sha256 cr"
  let ?xs = "leaf_hashes ?sha ?db" and ?m = "ck_size a" and ?n = "ck_size b"
  have ok: "log_ok cr signer origin ?db" by (rule run_log_ok [OF assms(1)])
  then have ab: "0 \<le> ?m" "?n \<le> int (length ?xs)" "ck_root a = tree_head ?sha (take (nat ?m) ?xs)" "ck_root b = tree_head ?sha (take (nat ?n) ?xs)"
      "distinct (map ck_size (tlog_checkpoints ?db))"
    using assms(2,3) by (auto simp: log_ok_def checkpoint_ok_def)
  have found: "find (\<lambda>w. ck_size w = ck_size v) (tlog_checkpoints ?db) = Some v" if "v \<in> set (tlog_checkpoints ?db)" for v
    using ab(5) that by (rule find_distinct)
  let ?pf = "if ?m = 0 \<or> ?m = ?n then [] else mproof (NodeHash ?sha) (nat ?m) (take (nat ?n) ?xs) True"
  have "ConsistencyProof ?sha ?m ?n (txHashReader ?db) = Inr ?pf"
    using consistency_walk_ok [OF log_reader [OF assms(1) ok], of 0 "nat ?n" "nat ?m" True] assms(4) ab by (auto simp: ConsistencyProof_def)
  moreover have "VerifyConsistency ?sha ?m ?n ?pf (ck_root a) (ck_root b) = Inr ()"
    unfolding ab(3,4) using ab(1,2) assms(4) by (intro verify_consistency) auto
  ultimately show ?thesis using found [OF assms(2)] found [OF assms(3)] ab(1) assms(4)
    by (intro exI [of _ "\<lparr>lg_From = checkpointFrom cr signer origin a, lg_To = checkpointFrom cr signer origin b, lg_Proof = encodeHashes ?pf\<rparr>"] exI [of _ ?pf])
      (simp add: ReadLogConsistency_def ReadLogCheckpoint_def log_result_def checkpointFrom_def bindM_def gets_def ret_def)
qed

theorem consistency_served_witness:
  "\<exists>(a :: checkpointRow) (b :: checkpointRow) pf. ck_size a = 2 \<and> ck_size b = 3 \<and> VerifyConsistency toy_sha256 2 3 pf (ck_root a) (ck_root b) = Inr ()"
proof -
  let ?c = "Append_leaf ''k'' ''C'' [] [] 4" and ?r = "run_log toy toy_signer ''log''"
  have "map lf_data (tlog_leaves (?r (toy_first @ [?c]))) = [''A'', ''B'', ''C'']" using run_append [OF toy_ok, of toy_signer "''log''" toy_first] toy_run(1) by simp
  then have "length (tlog_leaves (?r (toy_first @ [?c]))) = 3" by (metis length_map length_Cons list.size(3) numeral_3_eq_3)
  then obtain b where b: "b \<in> set (tlog_checkpoints (?r ((toy_first @ [?c]) @ [Sign_checkpoint 5])))" "ck_size b = 3"
    using run_sign(1) [OF toy_ok toy_text, of toy_signer "toy_first @ [?c]" 5] by fastforce
  obtain a where a: "a \<in> set (tlog_checkpoints (?r toy_first))" "ck_size a = 2" using toy_run(2) by blast
  then have "a \<in> set (tlog_checkpoints (?r ((toy_first @ [?c]) @ [Sign_checkpoint 5])))"
    using run_log_grows(2) [OF toy_ok, of toy_signer "''log''" toy_first "[?c, Sign_checkpoint 5]"] by auto
  from consistency_served [OF toy_ok this b(1)] a(2) b(2) show ?thesis by auto
qed

text \<open>
  C7: only leaves of the tree have inclusion proofs: if the verifier accepts a hash at an index against
  the head of some leaves, it is the hash of the leaf there and the proof is its audit path, unless two
  different pairs of hashes, hashed in the tree or by the verifier, have the same hash.
\<close>

theorem inclusion_only_leaves:
  assumes "VerifyInclusion sha256 i (int (length xs)) leaf pf (tree_head sha256 xs) = Inr ()"
    and "no_collision sha256 (set (mth_pairs (NodeHash sha256) xs) \<union> set (inclusion_pairs sha256 (nat i) (length xs - 1) leaf pf))"
  shows "0 \<le> i \<and> i < int (length xs) \<and> leaf = xs ! nat i \<and> pf = mpath (NodeHash sha256) (nat i) xs"
proof -
  have i: "0 \<le> i" "i < int (length xs)" using assms(1) by (auto simp: VerifyInclusion_def split: if_splits)
  then obtain sn where sn: "length xs = Suc sn" by (cases "length xs") auto
  have "inclusion_loop sha256 (nat i) sn leaf pf = Some (0, mth (NodeHash sha256) xs)"
    using assms(1) i sn by (auto simp: VerifyInclusion_def tree_head_def split: if_splits option.splits)
  then show ?thesis using inclusion_sound [OF sn, of "nat i" sha256 leaf pf] assms(2) i sn by simp
qed

theorem inclusion_only_leaves_witness:
  "''b'' = [''a'', ''b'', ''c''] ! 1 \<and> [''a'', ''c''] = mpath (NodeHash (\<lambda>s. s)) 1 [''a'', ''b'', ''c'']"
  using inclusion_only_leaves [of "\<lambda>s. s" 1 "[''a'', ''b'', ''c'']" "''b''" "[''a'', ''c'']"]
  by (simp add: VerifyInclusion_def tree_head_def abc_tree abc_free NodeHash_def)

text \<open>
  C8: consistency proofs prove prefixes: if the verifier accepts an old root against the head of some
  leaves, the old root is the head of their first leaves, as many as the old size, unless two different
  pairs of hashes, hashed in the tree or by the verifier, have the same hash.
\<close>

theorem consistency_only_prefixes:
  assumes "VerifyConsistency sha256 m (int (length xs)) pf rootM (tree_head sha256 xs) = Inr ()"
    and "no_collision sha256 (set (mth_pairs (NodeHash sha256) xs) \<union> set (consistency_pairs sha256 m (int (length xs)) pf rootM))"
  shows "0 \<le> m \<and> m \<le> int (length xs) \<and> rootM = tree_head sha256 (take (nat m) xs)"
  using consistency_sound [OF assms(1) refl assms(2)] .

theorem consistency_only_prefixes_witness:
  "NodeHash (\<lambda>s. s) ''a'' ''b'' = tree_head (\<lambda>s. s) (take 2 [''a'', ''b'', ''c''])"
  using consistency_only_prefixes [of "\<lambda>s. s" 2 "[''a'', ''b'', ''c'']" "[''c'']" "NodeHash (\<lambda>s. s) ''a'' ''b''"]
  by (simp add: VerifyConsistency_def consistency_pairs_def tree_head_def abc_tree abc_free abc_skip NodeHash_def)

section \<open>Texts\<close>

text \<open>What the texts of the log promise: encodings, checkpoints, promises and signed notes.\<close>

text \<open>
  a value decodes only when it is exactly the canonical encoding of its bytes, in both alphabets:
  every byte string has one encoding, and it decodes to it.
\<close>

theorem b64_canonical:
  "(Std s = Inr raw \<longleftrightarrow> s = EncodeToString StdEncoding raw) \<and> (URL s = Inr raw \<longleftrightarrow> s = EncodeToString RawURLEncoding raw)"
  using b64_decode_encode [of StdEncoding] b64_decode_encode [of RawURLEncoding] b64_decode_only by (auto simp: Std_def URL_def)

text \<open>
  C40: a text parses as a checkpoint exactly when it starts with the body of that checkpoint, whose
  origin is one line, whose size is not negative and fits 64 bits and whose root has 32 bytes.
\<close>

theorem checkpoint_round_trip:
  "ParseCheckpoint s = Inr c \<longleftrightarrow> (\<exists>ext. s = Checkpoint_String c @ ext) \<and> cp_Origin c \<noteq> [] \<and> CHR 0x0A \<notin> set (cp_Origin c)
     \<and> 0 \<le> cp_Size c \<and> cp_Size c < 2 ^ 63 \<and> length (cp_Root c) = 32"
  using ParseCheckpoint_only [of s c] ParseCheckpoint_back [of c] by blast

text \<open>
  C39: a text parses as a promise exactly when it is the body of that promise, and then it is no
  checkpoint: the two notes one key signs cannot be taken for each other.
\<close>

theorem promise_round_trip:
  "(ParsePromise s = Inr p \<longleftrightarrow> s = Promise_String p \<and> promise_ok p) \<and> \<not> (\<exists>q c. ParsePromise s = Inr q \<and> ParseCheckpoint s = Inr c)"
  using ParsePromise_only [of s p] ParsePromise_back [of p] promise_no_checkpoint [of s] by fastforce

text \<open>
  what a signer signs opens under its verifier key, with the text that was signed, if the signer's
  name has no control characters and the note is no longer than a mebibyte.
\<close>

theorem note_round_trip:
  assumes "crypto_ok cr" "NewNoteSigner cr name key = Inr s" "Sign cr s t = Inr sn" "validNoteText name" "length sn \<le> 2 ^ 20"
  shows "OpenNote cr sn (signer_VerifierKey cr s) = Inr t"
  by (rule OpenNote_Sign [OF assms])

lemma toy_note: "Sign toy toy_signer [CHR ''x'', CHR 0x0A] = Inr ([CHR ''x'', CHR 0x0A, CHR 0x0A] @ sig_line toy toy_signer [CHR ''x'', CHR 0x0A] @ [CHR 0x0A])"
  by (simp add: Sign_def sig_line_def validNoteText_def all_runes_ascii byte_def RuneError_def)

text \<open>
  C28: a note opens only under a signature: the text returned is the note's text, and one of the note's
  signature lines carries the name of the key and a signature of exactly that text that verifies.
\<close>

theorem note_only_signed:
  assumes "OpenNote cr sn vkey = Inr t"
  shows "\<exists>name pub raw rest. ParseVerifierKey cr vkey = Inr (name, pub) \<and> sn = t @ [CHR 0x0A] @ rest
    \<and> sig_mark @ name @ CHR '' '' # EncodeToString StdEncoding raw \<in> set (Split (CHR 0x0A) (butlast rest)) \<and> cr_verify cr pub t (drop 4 raw)"
  by (rule OpenNote_says [OF assms])

theorem note_only_signed_witness:
  "\<exists>name pub. ParseVerifierKey toy (signer_VerifierKey toy toy_signer) = Inr (name, pub)"
proof -
  have "OpenNote toy ([CHR ''x'', CHR 0x0A, CHR 0x0A] @ sig_line toy toy_signer [CHR ''x'', CHR 0x0A] @ [CHR 0x0A]) (signer_VerifierKey toy toy_signer) = Inr [CHR ''x'', CHR 0x0A]"
    by (rule OpenNote_Sign [OF toy_ok toy_signs toy_note toy_text]) (simp add: toy_note_length)
  from note_only_signed [OF this] show ?thesis by blast
qed

end
