(* ===== verification/Maxflow.thy ===== *)
theory Maxflow
  imports Prelude "HOL-Library.Word"
begin

text \<open>
  The max-flow network of a trust run (\<open>internal/trust/flow.go\<close>): Dinic's algorithm over integer
  capacities with a bound on the edges it may examine. The state is the network; \<open>ctx\<close> tells at which
  counts of examined edges the run's context is found done. The scratch slices \<open>queue\<close> and \<open>path\<close>
  are values passed along. The two loops that need not end for every network, the augmentations of one
  phase and the phases, are partial functions.
\<close>

unbundle bit_operations_syntax

record network =
  nw_adj :: "nat list list"
  nw_to :: "nat list"
  nw_cap :: "int list"
  nw_work :: int
  nw_maxWork :: int
  nw_level :: "int list"
  nw_it :: "nat list"

datatype flow_err = ErrWorkExceeded

type_synonym 'a NetM = "(network, flow_err, 'a) M"

definition newNetwork :: "nat \<Rightarrow> int \<Rightarrow> int \<Rightarrow> network" where
  "newNetwork n maxWork wrk = \<lparr>nw_adj = replicate n [], nw_to = [], nw_cap = [], nw_work = wrk, nw_maxWork = maxWork,
     nw_level = replicate n 0, nw_it = replicate n 0\<rparr>"

definition add_edge :: "network \<Rightarrow> nat \<Rightarrow> nat \<Rightarrow> int \<Rightarrow> nat \<times> network" where
  "add_edge g u v c =
     (let i = length (nw_to g);
          adj1 = (nw_adj g)[u := nw_adj g ! u @ [i]]
      in (i, g\<lparr>nw_to := nw_to g @ [v, u], nw_cap := nw_cap g @ [c, 0], nw_adj := adj1[v := adj1 ! v @ [i + 1]]\<rparr>))"

text \<open>\<open>e^1\<close>: edges and their reverses are numbered in pairs.\<close>

definition rev_edge :: "nat \<Rightarrow> nat" where
  "rev_edge e = e XOR 1"

definition flowOn :: "network \<Rightarrow> nat \<Rightarrow> int" where
  "flowOn g e = nw_cap g ! rev_edge e"

definition tick :: "(int \<Rightarrow> bool) \<Rightarrow> unit NetM" where
  "tick ctx =
     thenM (modifyM (\<lambda>g. g\<lparr>nw_work := nw_work g + 1\<rparr>))
    (bindM (gets (\<lambda>g. g)) (\<lambda>g.
     if nw_work g > nw_maxWork g then throw ErrWorkExceeded
     else if nw_work g AND 0xffff = 0 \<and> ctx (nw_work g) then throw ErrWorkExceeded
     else ret ()))"

section \<open>Levels\<close>

primrec scan :: "(int \<Rightarrow> bool) \<Rightarrow> nat \<Rightarrow> nat list \<Rightarrow> nat list \<Rightarrow> nat list NetM" where
  "scan ctx u [] q = ret q"
| "scan ctx u (e # es) q =
     thenM (tick ctx)
    (bindM (gets (\<lambda>g. g)) (\<lambda>g.
     let v = nw_to g ! e in
     if nw_cap g ! e > 0 \<and> nw_level g ! v < 0 then
       thenM (modifyM (\<lambda>g. g\<lparr>nw_level := (nw_level g)[v := nw_level g ! u + 1]\<rparr>)) (scan ctx u es (q @ [v]))
     else scan ctx u es q))"

lemma tick_run:
  "tick ctx g = (r, g') \<Longrightarrow> g' = g\<lparr>nw_work := nw_work g + 1\<rparr> \<and> (r = Inr () \<longrightarrow> nw_work g' \<le> nw_maxWork g)"
  by (auto simp: tick_def thenM_def bindM_def modifyM_def gets_def throw_def ret_def split: if_splits)

lemma scan_work:
  "scan ctx u es q g = (Inr q', g') \<Longrightarrow> nw_maxWork g' = nw_maxWork g \<and> nw_adj g' = nw_adj g \<and> nw_work g' = nw_work g + int (length es)
     \<and> (es \<noteq> [] \<longrightarrow> nw_work g' \<le> nw_maxWork g) \<and> (es = [] \<longrightarrow> q' = q \<and> g' = g)"
proof (induction es arbitrary: q g)
  case (Cons e es)
  obtain r g1 where t: "tick ctx g = (r, g1)" by (cases "tick ctx g")
  with Cons.prems have r: "r = Inr ()" by (auto simp: thenM_def bindM_def split: sum.splits)
  with t tick_run [OF t] have g1: "g1 = g\<lparr>nw_work := nw_work g + 1\<rparr>" "nw_work g + 1 \<le> nw_maxWork g" by auto
  from Cons.prems t r obtain q1 g2 where s: "scan ctx u es q1 g2 = (Inr q', g')" "nw_work g2 = nw_work g + 1" "nw_maxWork g2 = nw_maxWork g" "nw_adj g2 = nw_adj g"
    by (auto simp: thenM_def bindM_def gets_def modifyM_def Let_def g1(1) split: if_splits)
  from Cons.IH [OF s(1)] s(2-4) g1(2) show ?case by (cases "es = []") auto
qed (simp add: ret_def)

lemma scan_shrinks:
  "scan ctx u es q g = (Inr q', g') \<Longrightarrow> nat (nw_maxWork g' + 1 - nw_work g') < nat (nw_maxWork g + 1 - nw_work g) \<or> g' = g \<and> q' = q"
  using scan_work [of ctx u es q g q' g'] by (cases "es = []") auto

function bfs_loop :: "(int \<Rightarrow> bool) \<Rightarrow> nat list \<Rightarrow> unit NetM" where
  "bfs_loop ctx [] g = (Inr (), g)"
| "bfs_loop ctx (u # q) g =
     (case scan ctx u (nw_adj g ! u) q g of
        (Inl e, g') \<Rightarrow> (Inl e, g')
      | (Inr q', g') \<Rightarrow> bfs_loop ctx q' g')"
  by pat_completeness auto
termination
  by (relation "measures [\<lambda>(ctx, q, g). nat (nw_maxWork g + 1 - nw_work g), \<lambda>(ctx, q, g). length q]")
    (auto dest!: scan_shrinks [OF sym])

declare bfs_loop.simps [simp del]

definition bfs :: "(int \<Rightarrow> bool) \<Rightarrow> nat \<Rightarrow> unit NetM" where
  "bfs ctx s = thenM (modifyM (\<lambda>g. g\<lparr>nw_level := (replicate (length (nw_level g)) (- 1))[s := 0]\<rparr>)) (bfs_loop ctx [s])"

section \<open>One augmenting path\<close>

text \<open>The first edge of a node from its pointer on that has room and leads one level up.\<close>

function advance :: "(int \<Rightarrow> bool) \<Rightarrow> nat \<Rightarrow> nat option NetM" where
  "advance ctx u g =
     (if nw_it g ! u < length (nw_adj g ! u) then
        case tick ctx g of
          (Inl err, g') \<Rightarrow> (Inl err, g')
        | (Inr _, g') \<Rightarrow>
          let e = nw_adj g' ! u ! (nw_it g' ! u); v = nw_to g' ! e in
          if nw_cap g' ! e > 0 \<and> nw_level g' ! v = nw_level g' ! u + 1 then (Inr (Some e), g')
          else advance ctx u (g'\<lparr>nw_it := (nw_it g')[u := nw_it g' ! u + 1]\<rparr>)
      else (Inr None, g))"
  by pat_completeness auto
termination
  by (relation "measure (\<lambda>(ctx, u, g). nat (nw_maxWork g + 1 - nw_work g))") (auto dest!: tick_run [OF sym])

declare advance.simps [simp del]

definition bottleneck :: "int list \<Rightarrow> nat list \<Rightarrow> int" where
  "bottleneck cs path = foldl (\<lambda>f e. min f (cs ! e)) (2 ^ 62) path"

definition push_edge :: "int \<Rightarrow> int list \<Rightarrow> nat \<Rightarrow> int list" where
  "push_edge f cs e = (let cs1 = cs[e := cs ! e - f] in cs1[rev_edge e := cs1 ! rev_edge e + f])"

definition push_path :: "nat list \<Rightarrow> int NetM" where
  "push_path path = bindM (gets nw_cap) (\<lambda>cs.
     let f = bottleneck cs path in
     thenM (modifyM (\<lambda>g. g\<lparr>nw_cap := foldl (push_edge f) (nw_cap g) path\<rparr>)) (ret f))"

lemma advance_work:
  "advance ctx u g = (Inr r, g') \<Longrightarrow> nw_maxWork g' = nw_maxWork g \<and> nw_work g \<le> nw_work g'
     \<and> (r \<noteq> None \<longrightarrow> nw_work g < nw_work g' \<and> nw_work g' \<le> nw_maxWork g)"
proof (induction ctx u g arbitrary: r rule: advance.induct)
  case (1 ctx u g)
  show ?case
  proof (cases "nw_it g ! u < length (nw_adj g ! u)")
    case True
    obtain rt g1 where t: "tick ctx g = (rt, g1)" by (cases "tick ctx g")
    with 1(2) True have rt: "rt = Inr ()" by (subst (asm) advance.simps) (auto split: sum.splits)
    from tick_run [OF t] rt have g1: "g1 = g\<lparr>nw_work := nw_work g + 1\<rparr>" "nw_work g + 1 \<le> nw_maxWork g" by auto
    let ?e = "nw_adj g1 ! u ! (nw_it g1 ! u)" and ?g2 = "g1\<lparr>nw_it := (nw_it g1)[u := nw_it g1 ! u + 1]\<rparr>"
    show ?thesis
    proof (cases "nw_cap g1 ! ?e > 0 \<and> nw_level g1 ! (nw_to g1 ! ?e) = nw_level g1 ! u + 1")
      case good: True
      then have "r = Some ?e \<and> g' = g1" using 1(2) True t rt by (subst (asm) advance.simps) (auto simp: Let_def)
      then show ?thesis using g1 by simp
    next
      case bad: False
      then have "advance ctx u ?g2 = (Inr r, g')" using 1(2) True t rt by (subst (asm) advance.simps) (auto simp: Let_def split: if_splits)
      from 1(1) [OF True t [symmetric] rt refl refl bad this] g1 show ?thesis by auto
    qed
  next
    case False
    then show ?thesis using 1(2) by (subst (asm) advance.simps) simp
  qed
qed

lemma advance_shrinks:
  "advance ctx u g = (Inr r, g') \<Longrightarrow> nat (nw_maxWork g' + 1 - nw_work g') < nat (nw_maxWork g + 1 - nw_work g)
     \<or> r = None \<and> nw_maxWork g' + 1 - nw_work g' \<le> nw_maxWork g + 1 - nw_work g"
  using advance_work [of ctx u g r g'] by (cases r) auto

function search :: "(int \<Rightarrow> bool) \<Rightarrow> nat \<Rightarrow> nat \<Rightarrow> nat list \<Rightarrow> int NetM" where
  "search ctx t u path g =
     (if u = t then push_path path g
      else case advance ctx u g of
          (Inl err, g') \<Rightarrow> (Inl err, g')
        | (Inr (Some e), g') \<Rightarrow> search ctx t (nw_to g' ! e) (path @ [e]) g'
        | (Inr None, g') \<Rightarrow>
          if path = [] then (Inr 0, g')
          else let e = last path; u' = nw_to g' ! rev_edge e in
            search ctx t u' (butlast path) (g'\<lparr>nw_it := (nw_it g')[u' := nw_it g' ! u' + 1]\<rparr>))"
  by pat_completeness auto
termination
  by (relation "measures [\<lambda>(ctx, t, u, path, g). nat (nw_maxWork g + 1 - nw_work g), \<lambda>(ctx, t, u, path, g). length path]")
    (auto dest!: advance_shrinks [OF sym])

declare search.simps [simp del]

definition augment :: "(int \<Rightarrow> bool) \<Rightarrow> nat \<Rightarrow> nat \<Rightarrow> int NetM" where
  "augment ctx s t = search ctx t s []"

section \<open>Phases\<close>

partial_function (option) augment_all :: "(int \<Rightarrow> bool) \<Rightarrow> nat \<Rightarrow> nat \<Rightarrow> network \<Rightarrow> ((flow_err + unit) \<times> network) option" where
  "augment_all ctx s t g =
     (case augment ctx s t g of
        (Inl e, g') \<Rightarrow> Some (Inl e, g')
      | (Inr f, g') \<Rightarrow> if f = 0 then Some (Inr (), g') else augment_all ctx s t g')"

partial_function (option) maxflow :: "(int \<Rightarrow> bool) \<Rightarrow> nat \<Rightarrow> nat \<Rightarrow> network \<Rightarrow> ((flow_err + unit) \<times> network) option" where
  "maxflow ctx s t g =
     (case bfs ctx s g of
        (Inl e, g') \<Rightarrow> Some (Inl e, g')
      | (Inr _, g') \<Rightarrow>
        if nw_level g' ! t < 0 then Some (Inr (), g')
        else Option.bind (augment_all ctx s t (g'\<lparr>nw_it := replicate (length (nw_it g')) 0\<rparr>)) (\<lambda>(r, g2).
          case r of Inl e \<Rightarrow> Some (Inl e, g2) | Inr _ \<Rightarrow> maxflow ctx s t g2))"

end
