(* ===== verification/Maxflow_Spec.thy ===== *)
theory Maxflow_Spec
  imports Maxflow
begin

text \<open>
  What \<open>Maxflow\<close> computes. A flow is a function on edges, its value on a reverse edge the negative of
  that on the edge; the flow of a network is what its capacities have lost. An augmentation keeps it a
  flow, the levels of the last phase are a cut without room, and no flow exceeds a cut.
\<close>

section \<open>Flows\<close>

definition tail :: "nat list \<Rightarrow> nat \<Rightarrow> nat" where
  "tail es e = es ! (rev_edge e)"

definition out_of :: "nat list \<Rightarrow> (nat \<Rightarrow> int) \<Rightarrow> nat \<Rightarrow> int" where
  "out_of es f v = (\<Sum>e | e < length es \<and> tail es e = v. f e)"

definition is_flow :: "nat list \<Rightarrow> int list \<Rightarrow> nat \<Rightarrow> nat \<Rightarrow> (nat \<Rightarrow> int) \<Rightarrow> bool" where
  "is_flow es cs s t f \<longleftrightarrow> (\<forall>e<length es. f e \<le> cs ! e \<and> f (rev_edge e) = - f e) \<and> (\<forall>v. v \<noteq> s \<and> v \<noteq> t \<longrightarrow> out_of es f v = 0)"

definition net_ok :: "nat \<Rightarrow> network \<Rightarrow> bool" where
  "net_ok n g \<longleftrightarrow> length (nw_adj g) = n \<and> length (nw_level g) = n \<and> length (nw_it g) = n \<and> length (nw_cap g) = length (nw_to g)
     \<and> even (length (nw_to g)) \<and> (\<forall>e<length (nw_to g). nw_to g ! e < n)
     \<and> (\<forall>u<n. \<forall>e\<in>set (nw_adj g ! u). e < length (nw_to g) \<and> tail (nw_to g) e = u)
     \<and> (\<forall>e<length (nw_to g). e \<in> set (nw_adj g ! tail (nw_to g) e))"

lemma rev_edge_cases: "rev_edge e = (if even e then e + 1 else e - 1)"
  by (simp add: rev_edge_def xor_Suc_0_eq)

lemma rev_edge_twice [simp]: "rev_edge (rev_edge e) = e"
  by (auto simp: rev_edge_cases elim!: oddE)

lemma rev_edge_neq [simp]: "rev_edge e \<noteq> e" "e \<noteq> rev_edge e"
  by (auto simp: rev_edge_cases elim!: oddE)

lemma rev_edge_less: "even m \<Longrightarrow> rev_edge e < m \<longleftrightarrow> e < m"
  unfolding rev_edge_cases by (cases "even e") (auto elim!: evenE oddE)

lemma rev_edge_eq_iff: "rev_edge x = e \<longleftrightarrow> x = rev_edge e"
  by (metis rev_edge_twice)

section \<open>No flow exceeds a cut\<close>

lemma sum_antisym:
  fixes f :: "nat \<Rightarrow> int"
  assumes "even m" "\<forall>e<m. f (rev_edge e) = - f e"
  shows "(\<Sum>e | e < m \<and> P e \<and> P (rev_edge e). f e) = 0"
proof -
  let ?A = "{e. e < m \<and> P e \<and> P (rev_edge e)}"
  have "(\<Sum>e\<in>?A. f e) = (\<Sum>e\<in>?A. f (rev_edge e))"
    by (rule sum.reindex_bij_witness [of _ "rev_edge" "rev_edge"]) (use assms(1) in \<open>auto simp: rev_edge_less\<close>)
  also have "\<dots> = (\<Sum>e\<in>?A. - f e)" using assms(2) by (intro sum.cong) auto
  finally show ?thesis by (simp add: sum_negf)
qed

lemma flow_across:
  assumes "is_flow es cs s t f" "even (length es)" "finite S" "s \<in> S" "t \<notin> S"
  shows "out_of es f s = (\<Sum>e | e < length es \<and> tail es e \<in> S \<and> es ! e \<notin> S. f e)"
proof -
  let ?m = "length es"
  have head: "tail es (rev_edge e) = es ! e" for e unfolding tail_def by simp
  have "out_of es f s = (\<Sum>v\<in>S. out_of es f v)"
  proof -
    have "(\<Sum>v\<in>S - {s}. out_of es f v) = 0" using assms(1,5) by (intro sum.neutral ballI) (auto simp: is_flow_def)
    then show ?thesis using sum.remove [OF assms(3,4), of "out_of es f"] by simp
  qed
  also have "\<dots> = (\<Sum>e | e < ?m \<and> tail es e \<in> S. f e)"
    unfolding out_of_def by (subst sum.UNION_disjoint [symmetric]) (use assms(3) in \<open>auto intro: sum.cong\<close>)
  also have "{e. e < ?m \<and> tail es e \<in> S} = {e. e < ?m \<and> tail es e \<in> S \<and> es ! e \<notin> S} \<union> {e. e < ?m \<and> tail es e \<in> S \<and> tail es (rev_edge e) \<in> S}"
    by (auto simp: head)
  also have "(\<Sum>e\<in>\<dots>. f e) = (\<Sum>e | e < ?m \<and> tail es e \<in> S \<and> es ! e \<notin> S. f e) + (\<Sum>e | e < ?m \<and> tail es e \<in> S \<and> tail es (rev_edge e) \<in> S. f e)"
    by (rule sum.union_disjoint) (auto simp: head)
  also have "(\<Sum>e | e < ?m \<and> tail es e \<in> S \<and> tail es (rev_edge e) \<in> S. f e) = 0"
    using assms(1,2) by (intro sum_antisym) (auto simp: is_flow_def)
  finally show ?thesis by simp
qed

lemma cut_is_max:
  assumes "is_flow es cs s t f" "is_flow es cs s t f'" "even (length es)" "finite S" "s \<in> S" "t \<notin> S"
    and "\<And>e. e < length es \<Longrightarrow> tail es e \<in> S \<Longrightarrow> es ! e \<notin> S \<Longrightarrow> f e = cs ! e"
  shows "out_of es f' s \<le> out_of es f s"
proof -
  have "out_of es f' s = (\<Sum>e | e < length es \<and> tail es e \<in> S \<and> es ! e \<notin> S. f' e)" using assms by (intro flow_across)
  also have "\<dots> \<le> (\<Sum>e | e < length es \<and> tail es e \<in> S \<and> es ! e \<notin> S. f e)" using assms(2,7) by (intro sum_mono) (auto simp: is_flow_def)
  also have "\<dots> = out_of es f s" using assms by (intro flow_across [symmetric])
  finally show ?thesis .
qed

section \<open>Pushing along a path\<close>

fun walk :: "nat list \<Rightarrow> nat \<Rightarrow> nat list \<Rightarrow> nat \<Rightarrow> bool" where
  "walk es s [] t \<longleftrightarrow> s = t"
| "walk es s (e # p) t \<longleftrightarrow> tail es e = s \<and> walk es (es ! e) p t"

lemma walk_append: "walk es s (p @ q) t \<longleftrightarrow> (\<exists>v. walk es s p v \<and> walk es v q t)"
  by (induction p arbitrary: s) auto

lemma push_edge_length [simp]: "length (push_edge f cs e) = length cs"
  by (simp add: push_edge_def Let_def)

lemma push_edge_nth: "even (length cs) \<Longrightarrow> e < length cs \<Longrightarrow> x < length cs \<Longrightarrow>
    push_edge f cs e ! x = cs ! x - (if x = e then f else 0) + (if rev_edge x = e then f else 0)"
  by (auto simp: push_edge_def Let_def nth_list_update rev_edge_less rev_edge_eq_iff)

lemma push_path_length [simp]: "length (foldl (push_edge f) cs p) = length cs"
  by (induction p arbitrary: cs) auto

lemma push_path_nth:
  assumes "even (length cs)" "\<forall>e\<in>set p. e < length cs" "x < length cs"
  shows "foldl (push_edge f) cs p ! x = cs ! x - f * int (count_list p x) + f * int (count_list p (rev_edge x))"
  using assms
proof (induction p arbitrary: cs)
  case (Cons e p)
  then show ?case by (auto simp: push_edge_nth algebra_simps)
qed simp

lemma edges_finite: "finite {x. x < m \<and> P x}" for m :: nat
  by (rule finite_subset [of _ "{..<m}"]) auto

lemma count_distinct: "distinct p \<Longrightarrow> x \<in> set p \<Longrightarrow> count_list p x = 1"
  by (induction p) (auto simp: count_list_0_iff)

lemma sum_count: "\<forall>e\<in>set p. e < (m::nat) \<Longrightarrow> (\<Sum>x | x < m \<and> P x. int (count_list p x)) = int (length (filter P p))"
proof (induction p)
  case (Cons e p)
  have "(\<Sum>x | x < m \<and> P x. int (count_list (e # p) x)) = (\<Sum>x | x < m \<and> P x. int (count_list p x)) + (\<Sum>x | x < m \<and> P x. if e = x then 1 else 0)"
    by (subst sum.distrib [symmetric]) (auto intro: sum.cong)
  also have "(\<Sum>x | x < m \<and> P x. if e = x then 1 else 0) = (if P e then 1 else (0::int))" 
    using Cons.prems by (subst sum.delta' [OF edges_finite]) auto
  finally show ?case using Cons by simp
qed simp

lemma sum_count_rev:
  assumes "even m" "\<forall>e\<in>set p. e < m"
  shows "(\<Sum>x | x < m \<and> P x. int (count_list p (rev_edge x))) = int (length (filter (\<lambda>e. P (rev_edge e)) p))"
proof -
  have "(\<Sum>x | x < m \<and> P x. int (count_list p (rev_edge x))) = (\<Sum>x | x < m \<and> P (rev_edge x). int (count_list p x))"
    by (rule sum.reindex_bij_witness [of _ "rev_edge" "rev_edge"]) (use assms(1) in \<open>auto simp: rev_edge_less\<close>)
  then show ?thesis using sum_count [OF assms(2)] by simp
qed

lemma walk_balance:
  "walk es s p t \<Longrightarrow> int (length (filter (\<lambda>e. tail es e = v) p)) - int (length (filter (\<lambda>e. es ! e = v) p)) = of_bool (v = s) - of_bool (v = t)"
proof (induction p arbitrary: s)
  case (Cons e p)
  then have "walk es (es ! e) p t" "tail es e = s" by auto
  from Cons.IH [OF this(1)] this(2) show ?case by (auto split: if_splits)
qed simp

lemma out_of_push:
  assumes "even (length es)" "length cs = length es" "\<forall>e\<in>set p. e < length es" "walk es s p t"
  shows "out_of es (\<lambda>e. c0 ! e - foldl (push_edge f) cs p ! e) v = out_of es (\<lambda>e. c0 ! e - cs ! e) v + f * (of_bool (v = s) - of_bool (v = t))"
proof -
  let ?T = "{e. e < length es \<and> tail es e = v}"
  have head: "tail es (rev_edge e) = es ! e" for e unfolding tail_def by simp
  have "out_of es (\<lambda>e. c0 ! e - foldl (push_edge f) cs p ! e) v
      = (\<Sum>e\<in>?T. (c0 ! e - cs ! e) + (f * int (count_list p e) - f * int (count_list p (rev_edge e))))"
    unfolding out_of_def using assms(1-3) by (intro sum.cong) (auto simp: push_path_nth)
  also have "\<dots> = out_of es (\<lambda>e. c0 ! e - cs ! e) v + (f * (\<Sum>e\<in>?T. int (count_list p e)) - f * (\<Sum>e\<in>?T. int (count_list p (rev_edge e))))"
    unfolding out_of_def by (simp add: sum.distrib sum_subtractf sum_distrib_left)
  also have "(\<Sum>e\<in>?T. int (count_list p e)) = int (length (filter (\<lambda>e. tail es e = v) p))" using sum_count [OF assms(3)] by simp
  also have "(\<Sum>e\<in>?T. int (count_list p (rev_edge e))) = int (length (filter (\<lambda>e. es ! e = v) p))"
    using sum_count_rev [OF assms(1,3), of "\<lambda>e. tail es e = v"] by (simp add: head)
  also have "f * int (length (filter (\<lambda>e. tail es e = v) p)) - f * int (length (filter (\<lambda>e. es ! e = v) p)) = f * (of_bool (v = s) - of_bool (v = t))"
    using walk_balance [OF assms(4), of v] by (simp add: right_diff_distrib [symmetric] del: of_bool_eq)
  finally show ?thesis by simp
qed

section \<open>The flow of a network\<close>

text \<open>What a run keeps of the network it started from: shape, room and the flow on it.\<close>

definition flow_of :: "int list \<Rightarrow> int list \<Rightarrow> nat \<Rightarrow> int" where
  "flow_of c0 cs e = c0 ! e - cs ! e"

definition runs_from :: "nat \<Rightarrow> nat \<Rightarrow> nat \<Rightarrow> network \<Rightarrow> network \<Rightarrow> bool" where
  "runs_from n s t g0 g \<longleftrightarrow> net_ok n g \<and> nw_to g = nw_to g0 \<and> nw_maxWork g = nw_maxWork g0
     \<and> (\<forall>e<length (nw_to g). 0 \<le> nw_cap g ! e) \<and> is_flow (nw_to g) (nw_cap g0) s t (flow_of (nw_cap g0) (nw_cap g))"

lemma runs_from_scratch:
  "length l = length (nw_level g) \<Longrightarrow> runs_from n s t g0 (g\<lparr>nw_level := l\<rparr>) = runs_from n s t g0 g"
  "length i = length (nw_it g) \<Longrightarrow> runs_from n s t g0 (g\<lparr>nw_it := i\<rparr>) = runs_from n s t g0 g"
  by (simp_all add: runs_from_def net_ok_def)

lemma runs_from_refl:
  assumes "net_ok n g" "\<forall>e<length (nw_to g). 0 \<le> nw_cap g ! e"
  shows "runs_from n s t g g"
proof -
  have "flow_of (nw_cap g) (nw_cap g) = (\<lambda>e. 0)" by (simp add: flow_of_def fun_eq_iff)
  then show ?thesis using assms by (simp add: runs_from_def is_flow_def out_of_def)
qed

text \<open>A path of edges with room, each one level up.\<close>

definition path_ok :: "network \<Rightarrow> nat \<Rightarrow> nat list \<Rightarrow> nat \<Rightarrow> bool" where
  "path_ok g s p u \<longleftrightarrow> walk (nw_to g) s p u
     \<and> (\<forall>e\<in>set p. e < length (nw_to g) \<and> 0 < nw_cap g ! e \<and> nw_level g ! (nw_to g ! e) = nw_level g ! tail (nw_to g) e + 1)"

lemma path_levels: "path_ok g s p u \<Longrightarrow> i < length p \<Longrightarrow> nw_level g ! tail (nw_to g) (p ! i) = nw_level g ! s + int i"
proof (induction p arbitrary: s i)
  case (Cons e p)
  then have "path_ok g (nw_to g ! e) p u" by (simp add: path_ok_def)
  with Cons show ?case by (cases i) (auto simp: path_ok_def)
qed simp

lemma path_distinct: "path_ok g s p u \<Longrightarrow> distinct p"
  unfolding distinct_conv_nth by (metis add_left_cancel of_nat_eq_iff path_levels)

lemma bottleneck_le: "bottleneck cs p \<le> 2 ^ 62 \<and> (\<forall>e\<in>set p. bottleneck cs p \<le> cs ! e) \<and> ((\<forall>e\<in>set p. 0 < cs ! e) \<longrightarrow> 0 < bottleneck cs p)"
proof -
  have "foldl (\<lambda>f e. min f (cs ! e)) a p \<le> a \<and> (\<forall>e\<in>set p. foldl (\<lambda>f e. min f (cs ! e)) a p \<le> cs ! e)
      \<and> (0 < a \<longrightarrow> (\<forall>e\<in>set p. 0 < cs ! e) \<longrightarrow> 0 < foldl (\<lambda>f e. min f (cs ! e)) a p)" for a :: int
  proof (induction p arbitrary: a)
    case (Cons e p)
    from Cons.IH [of "min a (cs ! e)"] show ?case by auto
  qed simp
  from this [of "2 ^ 62"] show ?thesis unfolding bottleneck_def by simp
qed

text \<open>Edges were only examined within the bound.\<close>

definition paid :: "network \<Rightarrow> network \<Rightarrow> bool" where
  "paid g g' \<longleftrightarrow> nw_maxWork g' = nw_maxWork g \<and> nw_work g \<le> nw_work g' \<and> (nw_work g < nw_work g' \<longrightarrow> nw_work g' \<le> nw_maxWork g)"

lemma paid_refl [simp]: "paid g g"
  by (simp add: paid_def)

lemma paid_trans: "paid g g' \<Longrightarrow> paid g' g'' \<Longrightarrow> paid g g''"
  by (auto simp: paid_def)

lemma paid_work: "paid g g' \<Longrightarrow> nw_work g \<le> nw_work g'"
  by (simp add: paid_def)

lemma paid_tick: "tick ctx g = (Inr (), g') \<Longrightarrow> paid g g' \<and> nw_work g < nw_work g'"
  using tick_run [of ctx g "Inr ()" g'] by (auto simp: paid_def)

lemma paid_shrinks: "paid g g' \<Longrightarrow> nw_work g < nw_work g' \<Longrightarrow> nat (nw_maxWork g' + 1 - nw_work g') < nat (nw_maxWork g + 1 - nw_work g)"
  by (auto simp: paid_def)

lemma push_keeps:
  assumes "runs_from n s t g0 g" "path_ok g s p t" "push_path p g = (Inr f, g')"
  shows "runs_from n s t g0 g' \<and> 0 < f \<and> paid g g'"
proof -
  let ?es = "nw_to g" and ?cs = "nw_cap g"
  let ?cs' = "foldl (push_edge f) ?cs p"
  have f: "f = bottleneck ?cs p" and g': "g' = g\<lparr>nw_cap := ?cs'\<rparr>"
    using assms(3) by (auto simp: push_path_def bindM_def thenM_def gets_def modifyM_def ret_def Let_def)
  have ok: "net_ok n g" and len: "length ?cs = length ?es" "even (length ?es)" using assms(1) by (auto simp: runs_from_def net_ok_def)
  have p: "\<forall>e\<in>set p. e < length ?es" "\<forall>e\<in>set p. 0 < ?cs ! e" "walk ?es s p t" using assms(2) by (auto simp: path_ok_def)
  have fb: "0 < f" "\<forall>e\<in>set p. f \<le> ?cs ! e" using bottleneck_le [of ?cs p] p(2) f by auto
  have nth: "?cs' ! x = ?cs ! x - f * int (count_list p x) + f * int (count_list p (rev_edge x))" if "x < length ?es" for x
    using that p(1) len by (intro push_path_nth) auto
  have room: "0 \<le> ?cs' ! x" if x: "x < length ?es" for x
  proof -
    have "f * int (count_list p x) \<le> ?cs ! x"
    proof (cases "x \<in> set p")
      case True
      then have "count_list p x = 1" using path_distinct [OF assms(2)] by (rule count_distinct [rotated])
      then show ?thesis using fb(2) True by simp
    next
      case False
      then have "count_list p x = 0" by (rule count_list_0_iff [THEN iffD2])
      then show ?thesis using assms(1) x by (simp add: runs_from_def)
    qed
    moreover have "0 \<le> f * int (count_list p (rev_edge x))" using fb(1) by simp
    ultimately show ?thesis using nth [OF x] by linarith
  qed
  let ?F = "flow_of (nw_cap g0) ?cs" and ?F' = "flow_of (nw_cap g0) ?cs'"
  have F: "is_flow ?es (nw_cap g0) s t ?F" using assms(1) unfolding runs_from_def by blast
  have "?F' e \<le> nw_cap g0 ! e" if "e < length ?es" for e using room [OF that] by (simp add: flow_of_def)
  moreover have "?F' (rev_edge e) = - ?F' e" if e: "e < length ?es" for e
  proof -
    have "?F (rev_edge e) = - ?F e" using F e by (auto simp: is_flow_def)
    moreover have "rev_edge e < length ?es" using e len(2) by (simp add: rev_edge_less)
    ultimately show ?thesis using nth [OF e] nth [of "rev_edge e"] by (simp add: flow_of_def)
  qed
  moreover have "out_of ?es ?F' v = 0" if "v \<noteq> s" "v \<noteq> t" for v
    using out_of_push [OF len(2,1) p(1,3), of "nw_cap g0" f v] F that unfolding flow_of_def [abs_def] by (simp add: is_flow_def)
  ultimately have "is_flow ?es (nw_cap g0) s t ?F'" by (simp add: is_flow_def)
  moreover have "net_ok n g'" using ok unfolding g' net_ok_def by simp
  ultimately show ?thesis using assms(1) room fb(1) g' by (simp add: runs_from_def paid_def)
qed

section \<open>Searching a path\<close>

text \<open>A search moves pointers and counts work; the network it searches stays.\<close>

definition same_net :: "network \<Rightarrow> network \<Rightarrow> bool" where
  "same_net g g' \<longleftrightarrow> nw_adj g' = nw_adj g \<and> nw_to g' = nw_to g \<and> nw_cap g' = nw_cap g
     \<and> nw_level g' = nw_level g \<and> length (nw_it g') = length (nw_it g) \<and> paid g g'"

lemma same_net_refl [simp]: "same_net g g"
  by (simp add: same_net_def)

lemma same_net_trans: "same_net g g' \<Longrightarrow> same_net g' g'' \<Longrightarrow> same_net g g''"
  by (auto simp: same_net_def intro: paid_trans)

lemma same_netD:
  assumes "same_net g g'"
  shows "nw_adj g' = nw_adj g" "nw_to g' = nw_to g" "nw_cap g' = nw_cap g" "nw_maxWork g' = nw_maxWork g" "nw_level g' = nw_level g"
    "length (nw_it g') = length (nw_it g)" "paid g g'"
  using assms by (simp_all add: same_net_def paid_def)

lemma same_net_runs: "same_net g g' \<Longrightarrow> runs_from n s t g0 g \<Longrightarrow> runs_from n s t g0 g'"
  by (auto simp: runs_from_def net_ok_def same_netD)

lemma same_net_path: "same_net g g' \<Longrightarrow> path_ok g' s p u = path_ok g s p u"
  by (simp add: path_ok_def same_netD)

lemma same_net_it: "same_net g (g\<lparr>nw_it := (nw_it g)[u := i]\<rparr>)"
  by (simp add: same_net_def paid_def)

lemma advance_net:
  "advance ctx u g = (Inr r, g') \<Longrightarrow> same_net g g' \<and> (\<forall>e. r = Some e \<longrightarrow> e \<in> set (nw_adj g ! u) \<and> 0 < nw_cap g ! e
     \<and> nw_level g ! (nw_to g ! e) = nw_level g ! u + 1 \<and> nw_work g < nw_work g')"
proof (induction ctx u g arbitrary: r rule: advance.induct)
  case (1 ctx u g)
  show ?case
  proof (cases "nw_it g ! u < length (nw_adj g ! u)")
    case True
    obtain rt g1 where t: "tick ctx g = (rt, g1)" by (cases "tick ctx g")
    with 1(2) True have rt: "rt = Inr ()" by (subst (asm) advance.simps) (auto split: sum.splits)
    have g1: "g1 = g\<lparr>nw_work := nw_work g + 1\<rparr>" using tick_run [OF t] by simp
    then have s1: "same_net g g1" using paid_tick [of ctx g g1] t rt by (simp add: same_net_def)
    let ?e = "nw_adj g1 ! u ! (nw_it g1 ! u)" and ?g2 = "g1\<lparr>nw_it := (nw_it g1)[u := nw_it g1 ! u + 1]\<rparr>"
    show ?thesis
    proof (cases "nw_cap g1 ! ?e > 0 \<and> nw_level g1 ! (nw_to g1 ! ?e) = nw_level g1 ! u + 1")
      case good: True
      then have "r = Some ?e \<and> g' = g1" using 1(2) True t rt by (subst (asm) advance.simps) (auto simp: Let_def)
      then show ?thesis using g1 good True s1 by auto
    next
      case bad: False
      then have "advance ctx u ?g2 = (Inr r, g')" using 1(2) True t rt by (subst (asm) advance.simps) (auto simp: Let_def split: if_splits)
      from 1(1) [OF True t [symmetric] rt refl refl bad this] g1 s1 same_net_trans [OF s1 same_net_trans [OF same_net_it]] show ?thesis by fastforce
    qed
  next
    case False
    then show ?thesis using 1(2) by (subst (asm) advance.simps) simp
  qed
qed

lemma path_extend:
  assumes "runs_from n s t g0 g" "path_ok g s p u" "u < n" "e \<in> set (nw_adj g ! u)" "0 < nw_cap g ! e" "nw_level g ! (nw_to g ! e) = nw_level g ! u + 1"
  shows "path_ok g s (p @ [e]) (nw_to g ! e) \<and> nw_to g ! e < n"
proof -
  have "e < length (nw_to g)" "tail (nw_to g) e = u" "nw_to g ! e < n" using assms(1,3,4) by (auto simp: runs_from_def net_ok_def)
  then show ?thesis using assms by (auto simp: path_ok_def walk_append)
qed

lemma path_back: "path_ok g s p u \<Longrightarrow> p \<noteq> [] \<Longrightarrow> path_ok g s (butlast p) (nw_to g ! rev_edge (last p))"
  by (cases p rule: rev_cases) (auto simp: path_ok_def walk_append tail_def)

lemma search_keeps:
  assumes "runs_from n s t g0 g" "path_ok g s p u" "u < n" "s < n" "search ctx t u p g = (Inr f, g')"
  shows "runs_from n s t g0 g' \<and> paid g g' \<and> (f \<noteq> 0 \<longrightarrow> 0 < f \<and> (s \<noteq> t \<longrightarrow> p \<noteq> [] \<or> nw_work g < nw_work g'))"
  using assms(1-3,5)
proof (induction ctx t u p g rule: search.induct)
  case (1 ctx t u p g)
  show ?case
  proof (cases "u = t")
    case True
    then have "push_path p g = (Inr f, g')" using 1(6) by (subst (asm) search.simps) simp
    moreover have "s \<noteq> t \<longrightarrow> p \<noteq> []" using 1(4) True by (auto simp: path_ok_def)
    ultimately show ?thesis using push_keeps [OF 1(3), of p f g'] 1(4) True by auto
  next
    case False
    obtain r g1 where a: "advance ctx u g = (r, g1)" by (cases "advance ctx u g")
    with False 1(6) obtain ro where r: "r = Inr ro" by (subst (asm) search.simps) (auto split: sum.splits)
    have net: "same_net g g1" using advance_net [of ctx u g ro g1] a r by simp
    have runs: "runs_from n s t g0 g1" by (rule same_net_runs [OF net 1(3)])
    have path: "path_ok g1 s p u" using same_net_path [OF net] 1(4) by simp
    show ?thesis
    proof (cases ro)
      case (Some e)
      have e: "e \<in> set (nw_adj g1 ! u)" "0 < nw_cap g1 ! e" "nw_level g1 ! (nw_to g1 ! e) = nw_level g1 ! u + 1" "nw_work g < nw_work g1"
        using advance_net [of ctx u g ro g1] a r Some net by (auto simp: same_netD)
      have "search ctx t (nw_to g1 ! e) (p @ [e]) g1 = (Inr f, g')" using 1(6) False a r Some by (subst (asm) search.simps) simp
      from 1(2) [OF False a [symmetric] r Some runs _ _ this] path_extend [OF runs path 1(5) e(1-3)]
      have "runs_from n s t g0 g'" "paid g1 g'" "f \<noteq> 0 \<longrightarrow> 0 < f" by auto
      then show ?thesis using e(4) same_netD(7) [OF net] paid_work [of g1 g'] by (auto intro: paid_trans)
    next
      case None
      show ?thesis
      proof (cases "p = []")
        case True
        then have "f = 0 \<and> g' = g1" using 1(6) False a r None by (subst (asm) search.simps) auto
        then show ?thesis using runs same_netD(7) [OF net] by simp
      next
        case ne: False
        define u' where "u' = nw_to g1 ! rev_edge (last p)"
        let ?g2 = "g1\<lparr>nw_it := (nw_it g1)[u' := nw_it g1 ! u' + 1]\<rparr>"
        have prev: "search ctx t u' (butlast p) ?g2 = (Inr f, g')"
          using 1(6) False a r None ne by (subst (asm) search.simps) (simp add: Let_def u'_def)
        have n2: "same_net g1 ?g2" by (rule same_net_it)
        have "last p < length (nw_to g1)" using path ne by (simp add: path_ok_def)
        then have "u' < n" using runs by (auto simp: u'_def runs_from_def net_ok_def rev_edge_less)
        moreover have "path_ok ?g2 s (butlast p) u'" using path_back [OF path ne] same_net_path [OF n2] by (simp add: u'_def)
        ultimately show ?thesis
          using 1(1) [OF False a [symmetric] r None ne refl u'_def same_net_runs [OF n2 runs] _ _ prev] paid_trans [OF same_netD(7) [OF net] paid_trans [OF same_netD(7) [OF n2]]] ne by auto
      qed
    qed
  qed
qed

section \<open>Levels\<close>

text \<open>A breadth-first search sets levels: none is taken back, and one is set only at a price.\<close>

definition lifts :: "nat \<Rightarrow> network \<Rightarrow> network \<Rightarrow> bool" where
  "lifts n g g' \<longleftrightarrow> nw_adj g' = nw_adj g \<and> nw_to g' = nw_to g \<and> nw_cap g' = nw_cap g \<and> nw_it g' = nw_it g
     \<and> length (nw_level g') = length (nw_level g) \<and> paid g g' \<and> (nw_work g' = nw_work g \<longrightarrow> nw_level g' = nw_level g)
     \<and> (\<forall>v<n. 0 \<le> nw_level g ! v \<longrightarrow> 0 \<le> nw_level g' ! v)"

lemma lifts_refl [simp]: "lifts n g g"
  by (simp add: lifts_def)

lemma lifts_trans: "lifts n g g' \<Longrightarrow> lifts n g' g'' \<Longrightarrow> lifts n g g''"
  unfolding lifts_def by (metis order_antisym paid_trans paid_work)

lemma liftsD:
  assumes "lifts n g g'"
  shows "nw_adj g' = nw_adj g" "nw_to g' = nw_to g" "nw_cap g' = nw_cap g" "nw_it g' = nw_it g" "length (nw_level g') = length (nw_level g)"
    "paid g g'" "nw_work g' = nw_work g \<Longrightarrow> nw_level g' = nw_level g" "v < n \<Longrightarrow> 0 \<le> nw_level g ! v \<Longrightarrow> 0 \<le> nw_level g' ! v"
  using assms by (simp_all add: lifts_def)

lemma scan_lifts:
  assumes "scan ctx u es q g = (Inr q', g')" "\<forall>e\<in>set es. nw_to g ! e < n" "length (nw_level g) = n" "u < n" "0 \<le> nw_level g ! u"
  shows "lifts n g g' \<and> set q \<subseteq> set q' \<and> (\<forall>v\<in>set q'. v \<in> set q \<or> v < n \<and> 0 \<le> nw_level g' ! v)
     \<and> (\<forall>v<n. 0 \<le> nw_level g' ! v \<longrightarrow> 0 \<le> nw_level g ! v \<or> v \<in> set q') \<and> (\<forall>e\<in>set es. 0 < nw_cap g ! e \<longrightarrow> 0 \<le> nw_level g' ! (nw_to g ! e))"
  using assms
proof (induction es arbitrary: q g)
  case (Cons e es)
  obtain r g1 where t: "tick ctx g = (r, g1)" by (cases "tick ctx g")
  with Cons.prems(1) have r: "r = Inr ()" by (auto simp: thenM_def bindM_def split: sum.splits)
  have g1: "g1 = g\<lparr>nw_work := nw_work g + 1\<rparr>" "paid g g1" using tick_run [OF t] paid_tick [of ctx g g1] t r by auto
  let ?v = "nw_to g ! e"
  show ?case
  proof (cases "nw_cap g ! e > 0 \<and> nw_level g ! ?v < 0")
    case True
    let ?g2 = "g1\<lparr>nw_level := (nw_level g1)[?v := nw_level g1 ! u + 1]\<rparr>"
    have s: "scan ctx u es (q @ [?v]) ?g2 = (Inr q', g')"
      using Cons.prems(1) t r True by (simp add: thenM_def bindM_def gets_def modifyM_def Let_def g1(1))
    have v: "?v < n" "?v \<noteq> u" using Cons.prems True by auto
    have l: "lifts n g ?g2" using g1 Cons.prems(3,5) True v by (auto simp: lifts_def paid_def nth_list_update)
    have lv: "0 \<le> nw_level ?g2 ! ?v" "\<forall>w<n. 0 \<le> nw_level ?g2 ! w \<longrightarrow> 0 \<le> nw_level g ! w \<or> w = ?v"
      using Cons.prems(3,5) v by (auto simp: g1(1) nth_list_update)
    have "nw_to ?g2 = nw_to g" "nw_cap ?g2 = nw_cap g" "length (nw_level ?g2) = n" "0 \<le> nw_level ?g2 ! u"
      using Cons.prems(3,5) v by (simp_all add: g1(1))
    then have ih: "lifts n ?g2 g' \<and> set (q @ [?v]) \<subseteq> set q' \<and> (\<forall>w\<in>set q'. w \<in> set (q @ [?v]) \<or> w < n \<and> 0 \<le> nw_level g' ! w)
        \<and> (\<forall>w<n. 0 \<le> nw_level g' ! w \<longrightarrow> 0 \<le> nw_level ?g2 ! w \<or> w \<in> set q') \<and> (\<forall>e\<in>set es. 0 < nw_cap g ! e \<longrightarrow> 0 \<le> nw_level g' ! (nw_to g ! e))"
      using Cons.IH [OF s] Cons.prems(2,4) by simp
    then have "0 \<le> nw_level g' ! ?v" using liftsD(8) lv(1) v(1) by blast
    with ih lv l v(1) show ?thesis by (auto intro: lifts_trans)
  next
    case False
    have s: "scan ctx u es q g1 = (Inr q', g')"
      using Cons.prems(1) t r False by (auto simp: thenM_def bindM_def gets_def Let_def g1(1) split: if_splits)
    have l: "lifts n g g1" using g1 by (auto simp: lifts_def)
    have ih: "lifts n g1 g' \<and> set q \<subseteq> set q' \<and> (\<forall>w\<in>set q'. w \<in> set q \<or> w < n \<and> 0 \<le> nw_level g' ! w)
        \<and> (\<forall>w<n. 0 \<le> nw_level g' ! w \<longrightarrow> 0 \<le> nw_level g ! w \<or> w \<in> set q') \<and> (\<forall>e\<in>set es. 0 < nw_cap g ! e \<longrightarrow> 0 \<le> nw_level g' ! (nw_to g ! e))"
      using Cons.IH [OF s] Cons.prems(2-5) by (simp add: g1(1))
    moreover have "0 \<le> nw_level g' ! ?v" if "0 < nw_cap g ! e"
    proof -
      have "0 \<le> nw_level g1 ! ?v" "?v < n" using that False Cons.prems(2) by (auto simp: g1(1))
      then show ?thesis using ih liftsD(8) by blast
    qed
    ultimately show ?thesis using l by (auto intro: lifts_trans)
  qed
qed (simp add: ret_def)

text \<open>A levelled node is still queued or all its edges with room lead to levelled nodes.\<close>

definition bfs_ok :: "nat \<Rightarrow> nat list \<Rightarrow> network \<Rightarrow> bool" where
  "bfs_ok n q g \<longleftrightarrow> (\<forall>u\<in>set q. u < n \<and> 0 \<le> nw_level g ! u)
     \<and> (\<forall>u<n. 0 \<le> nw_level g ! u \<longrightarrow> u \<notin> set q \<longrightarrow> (\<forall>e\<in>set (nw_adj g ! u). 0 < nw_cap g ! e \<longrightarrow> 0 \<le> nw_level g ! (nw_to g ! e)))"

lemma lifts_net_ok: "lifts n g g' \<Longrightarrow> net_ok n g \<Longrightarrow> net_ok n g'"
  by (simp add: net_ok_def liftsD(1-5) [of n g g'])

lemma bfs_step:
  assumes "scan ctx u (nw_adj g ! u) q g = (Inr q', g')" "net_ok n g" "bfs_ok n (u # q) g"
  shows "lifts n g g' \<and> bfs_ok n q' g'"
proof -
  have u: "u < n" "0 \<le> nw_level g ! u" and to: "\<forall>w<n. \<forall>e\<in>set (nw_adj g ! w). nw_to g ! e < n" and len: "length (nw_level g) = n"
    using assms(2,3) by (auto simp: net_ok_def bfs_ok_def)
  have sc: "lifts n g g'" "set q \<subseteq> set q'" "\<forall>v\<in>set q'. v \<in> set q \<or> v < n \<and> 0 \<le> nw_level g' ! v"
     "\<forall>v<n. 0 \<le> nw_level g' ! v \<longrightarrow> 0 \<le> nw_level g ! v \<or> v \<in> set q'" "\<forall>e\<in>set (nw_adj g ! u). 0 < nw_cap g ! e \<longrightarrow> 0 \<le> nw_level g' ! (nw_to g ! e)"
    using scan_lifts [OF assms(1), of n] u to len by auto
  have "0 \<le> nw_level g' ! (nw_to g ! e)"
    if w: "w < n" "0 \<le> nw_level g' ! w" "w \<notin> set q'" and e: "e \<in> set (nw_adj g ! w)" "0 < nw_cap g ! e" for w e
  proof (cases "w = u")
    case False
    then have "0 \<le> nw_level g ! (nw_to g ! e)" using w e sc(2,4) assms(3) by (auto simp: bfs_ok_def)
    then show ?thesis using liftsD(8) [OF sc(1)] to w(1) e(1) by blast
  qed (use sc(5) e in simp)
  moreover have "v < n \<and> 0 \<le> nw_level g' ! v" if "v \<in> set q'" for v
    using sc(3) that assms(3) liftsD(8) [OF sc(1)] by (auto simp: bfs_ok_def)
  ultimately show ?thesis using sc(1) by (auto simp: bfs_ok_def liftsD)
qed

lemma bfs_loop_ok:
  "bfs_loop ctx q g = (Inr (), g') \<Longrightarrow> net_ok n g \<Longrightarrow> bfs_ok n q g \<Longrightarrow> lifts n g g' \<and> bfs_ok n [] g'"
proof (induction ctx q g rule: bfs_loop.induct)
  case (2 ctx u q g)
  obtain r g1 where s: "scan ctx u (nw_adj g ! u) q g = (r, g1)" by (cases "scan ctx u (nw_adj g ! u) q g")
  with 2(2) obtain q1 where r: "r = Inr q1" by (auto simp: bfs_loop.simps split: sum.splits)
  with s 2(2) have "bfs_loop ctx q1 g1 = (Inr (), g')" by (simp add: bfs_loop.simps)
  moreover have st: "lifts n g g1 \<and> bfs_ok n q1 g1" using bfs_step [OF _ 2(3,4)] s r by simp
  ultimately show ?case using 2(1) [OF s [symmetric] r] lifts_net_ok 2(3) by (blast intro: lifts_trans)
qed (simp add: bfs_loop.simps)

text \<open>After a search, the levelled nodes are closed under edges with room.\<close>

lemma bfs_ok_start:
  assumes "bfs ctx s g = (Inr (), g')" "runs_from n s t g0 g" "s < n" "t < n" "s \<noteq> t"
  shows "runs_from n s t g0 g' \<and> paid g g' \<and> 0 \<le> nw_level g' ! s \<and> bfs_ok n [] g' \<and> (0 \<le> nw_level g' ! t \<longrightarrow> nw_work g < nw_work g')"
proof -
  let ?g1 = "g\<lparr>nw_level := (replicate (length (nw_level g)) (- 1))[s := 0]\<rparr>"
  have len: "length (nw_level g) = n" using assms(2) by (simp add: runs_from_def net_ok_def)
  have run: "bfs_loop ctx [s] ?g1 = (Inr (), g')" using assms(1) by (simp add: bfs_def thenM_def bindM_def modifyM_def)
  have r1: "runs_from n s t g0 ?g1" using assms(2) by (simp add: runs_from_scratch)
  then have ok: "net_ok n ?g1" by (simp add: runs_from_def)
  moreover have "bfs_ok n [s] ?g1" using assms(3) len by (auto simp: bfs_ok_def nth_list_update split: if_splits)
  ultimately have l: "lifts n ?g1 g'" "bfs_ok n [] g'" using bfs_loop_ok [OF run] by auto
  have "runs_from n s t g0 g'" using r1 liftsD(1-6) [OF l(1)] lifts_net_ok [OF l(1) ok] by (auto simp: runs_from_def paid_def)
  moreover have "paid g g'" using liftsD(6) [OF l(1)] by (simp add: paid_def)
  moreover have "0 \<le> nw_level g' ! s" using liftsD(8) [OF l(1) assms(3)] assms(3) len by simp
  moreover have "nw_work g < nw_work g'" if "0 \<le> nw_level g' ! t"
  proof -
    have "nw_level g' \<noteq> nw_level ?g1" using that assms(4,5) len by auto
    then show ?thesis using liftsD(7) [OF l(1)] \<open>paid g g'\<close> paid_work [of g g'] by fastforce
  qed
  ultimately show ?thesis using l(2) by blast
qed

section \<open>Only the bound or the context stops a run\<close>

definition stopped :: "(int \<Rightarrow> bool) \<Rightarrow> int \<Rightarrow> network \<Rightarrow> bool" where
  "stopped ctx mw g \<longleftrightarrow> nw_maxWork g = mw \<and> (mw < nw_work g \<or> ctx (nw_work g))"

lemma tick_stopped: "tick ctx g = (Inl e, g') \<Longrightarrow> stopped ctx (nw_maxWork g) g'"
  by (auto simp: stopped_def tick_def thenM_def bindM_def modifyM_def gets_def throw_def ret_def split: if_splits)

lemma scan_stopped: "scan ctx u es q g = (Inl e, g') \<Longrightarrow> stopped ctx (nw_maxWork g) g'"
proof (induction es arbitrary: q g)
  case (Cons x es)
  obtain r g1 where "tick ctx g = (r, g1)" by (cases "tick ctx g")
  with Cons tick_run [of ctx g r g1] show ?case
    by (cases r) (fastforce simp: thenM_def bindM_def gets_def modifyM_def Let_def dest: tick_stopped split: if_splits)+
qed (simp add: ret_def)

lemma bfs_loop_stopped: "bfs_loop ctx q g = (Inl e, g') \<Longrightarrow> stopped ctx (nw_maxWork g) g'"
proof (induction ctx q g rule: bfs_loop.induct)
  case (2 ctx u q g)
  obtain r g1 where s: "scan ctx u (nw_adj g ! u) q g = (r, g1)" by (cases "scan ctx u (nw_adj g ! u) q g")
  show ?case
  proof (cases r)
    case (Inl e1)
    with s 2(2) have "g' = g1" by (simp add: bfs_loop.simps)
    then show ?thesis using scan_stopped s Inl by blast
  next
    case (Inr q1)
    with s 2(2) have "bfs_loop ctx q1 g1 = (Inl e, g')" by (simp add: bfs_loop.simps)
    from 2(1) [OF s [symmetric] Inr this] show ?thesis using scan_work s Inr by simp
  qed
qed (simp add: bfs_loop.simps)

lemma advance_stopped: "advance ctx u g = (Inl e, g') \<Longrightarrow> stopped ctx (nw_maxWork g) g'"
proof (induction ctx u g rule: advance.induct)
  case (1 ctx u g)
  then have more: "nw_it g ! u < length (nw_adj g ! u)" by (subst (asm) (2) advance.simps) (auto split: if_splits)
  obtain r g1 where t: "tick ctx g = (r, g1)" by (cases "tick ctx g")
  show ?case
  proof (cases r)
    case (Inl e1)
    then have "g' = g1" using 1(2) more t by (subst (asm) advance.simps) simp
    then show ?thesis using tick_stopped t Inl by blast
  next
    case (Inr x)
    let ?e = "nw_adj g1 ! u ! (nw_it g1 ! u)" and ?g2 = "g1\<lparr>nw_it := (nw_it g1)[u := nw_it g1 ! u + 1]\<rparr>"
    have bad: "\<not> (nw_cap g1 ! ?e > 0 \<and> nw_level g1 ! (nw_to g1 ! ?e) = nw_level g1 ! u + 1)"
      using 1(2) more t Inr by (subst (asm) advance.simps) (auto simp: Let_def)
    then have "advance ctx u ?g2 = (Inl e, g')" using 1(2) more t Inr by (subst (asm) advance.simps) (auto simp: Let_def split: if_splits)
    from 1(1) [OF more t [symmetric] Inr refl refl bad this] show ?thesis using tick_run [OF t] by simp
  qed
qed

lemma search_stopped: "search ctx t u p g = (Inl e, g') \<Longrightarrow> stopped ctx (nw_maxWork g) g'"
proof (induction ctx t u p g rule: search.induct)
  case (1 ctx t u p g)
  have ut: "u \<noteq> t" using 1(3) by (subst (asm) search.simps) (auto simp: push_path_def bindM_def thenM_def gets_def modifyM_def ret_def Let_def)
  obtain r g1 where a: "advance ctx u g = (r, g1)" by (cases "advance ctx u g")
  show ?case
  proof (cases r)
    case (Inl e1)
    then have "g' = g1" using 1(3) ut a by (subst (asm) search.simps) simp
    then show ?thesis using advance_stopped a Inl by blast
  next
    case r: (Inr x)
    then have mw: "nw_maxWork g1 = nw_maxWork g" using advance_work a by simp
    show ?thesis
    proof (cases x)
      case None
      then have ne: "p \<noteq> []" using 1(3) ut a r by (subst (asm) search.simps) auto
      let ?u = "nw_to g1 ! rev_edge (last p)"
      have "search ctx t ?u (butlast p) (g1\<lparr>nw_it := (nw_it g1)[?u := nw_it g1 ! ?u + 1]\<rparr>) = (Inl e, g')"
        using 1(3) ut a r None ne by (subst (asm) search.simps) (simp add: Let_def)
      from 1(1) [OF ut a [symmetric] r None ne refl refl this] show ?thesis using mw by simp
    next
      case (Some i)
      have "search ctx t (nw_to g1 ! i) (p @ [i]) g1 = (Inl e, g')" using 1(3) ut a r Some by (subst (asm) search.simps) simp
      from 1(2) [OF ut a [symmetric] r Some this] show ?thesis using mw by simp
    qed
  qed
qed

section \<open>The phases end\<close>

lemma augment_keeps:
  assumes "augment ctx s t g = (Inr f, g')" "runs_from n s t g0 g" "s < n" "s \<noteq> t"
  shows "runs_from n s t g0 g' \<and> paid g g' \<and> (f \<noteq> 0 \<longrightarrow> nw_work g < nw_work g')"
proof -
  have "path_ok g s [] s" by (simp add: path_ok_def)
  from search_keeps [OF assms(2) this assms(3,3)] assms(1,4) show ?thesis by (auto simp: augment_def)
qed

lemma augment_all_ends:
  assumes "runs_from n s t g0 g" "s < n" "s \<noteq> t"
  shows "\<exists>r g'. augment_all ctx s t g = Some (r, g') \<and> (r = Inr () \<longrightarrow> runs_from n s t g0 g' \<and> paid g g') \<and> (r \<noteq> Inr () \<longrightarrow> stopped ctx (nw_maxWork g) g')"
  using assms(1)
proof (induction "nat (nw_maxWork g + 1 - nw_work g)" arbitrary: g rule: less_induct)
  case less
  obtain r g1 where a: "augment ctx s t g = (r, g1)" by (cases "augment ctx s t g")
  show ?case
  proof (cases r)
    case (Inl e)
    with a search_stopped [of ctx t s "[]" g] show ?thesis by (subst augment_all.simps) (auto simp: augment_def)
  next
    case (Inr f)
    from augment_keeps [OF _ less(2) assms(2,3)] a Inr have k: "runs_from n s t g0 g1" "paid g g1" "f \<noteq> 0 \<longrightarrow> nw_work g < nw_work g1" by auto
    show ?thesis
    proof (cases "f = 0")
      case True
      with a Inr k show ?thesis by (subst augment_all.simps) simp
    next
      case False
      from less(1) [OF paid_shrinks [OF k(2)] k(1)] k(3) False obtain r' g' where
        "augment_all ctx s t g1 = Some (r', g')" "r' = Inr () \<longrightarrow> runs_from n s t g0 g' \<and> paid g1 g'" "r' \<noteq> Inr () \<longrightarrow> stopped ctx (nw_maxWork g1) g'" by auto
      with a Inr False k(2) show ?thesis by (subst augment_all.simps) (auto intro: paid_trans simp: paid_def)
    qed
  qed
qed

lemma maxflow_ends:
  assumes "runs_from n s t g0 g" "s < n" "t < n" "s \<noteq> t"
  shows "\<exists>r g'. maxflow ctx s t g = Some (r, g') \<and> (r = Inr () \<longrightarrow> runs_from n s t g0 g' \<and> bfs_ok n [] g' \<and> 0 \<le> nw_level g' ! s \<and> nw_level g' ! t < 0)
    \<and> (r \<noteq> Inr () \<longrightarrow> stopped ctx (nw_maxWork g) g')"
  using assms(1)
proof (induction "nat (nw_maxWork g + 1 - nw_work g)" arbitrary: g rule: less_induct)
  case less
  obtain r g1 where b: "bfs ctx s g = (r, g1)" by (cases "bfs ctx s g")
  show ?case
  proof (cases r)
    case (Inl e)
    have "stopped ctx (nw_maxWork g) g1"
      using bfs_loop_stopped [of ctx "[s]" "g\<lparr>nw_level := (replicate (length (nw_level g)) (- 1))[s := 0]\<rparr>" e g1] b Inl
      by (simp add: bfs_def thenM_def bindM_def modifyM_def)
    with b Inl show ?thesis by (subst maxflow.simps) simp
  next
    case (Inr u)
    from bfs_ok_start [OF _ less(2) assms(2-4)] b Inr have k: "runs_from n s t g0 g1" "paid g g1" "0 \<le> nw_level g1 ! s" "bfs_ok n [] g1"
      "0 \<le> nw_level g1 ! t \<longrightarrow> nw_work g < nw_work g1" by auto
    show ?thesis
    proof (cases "nw_level g1 ! t < 0")
      case True
      with b Inr k show ?thesis by (subst maxflow.simps) simp
    next
      case False
      let ?g2 = "g1\<lparr>nw_it := replicate (length (nw_it g1)) 0\<rparr>"
      have g2: "runs_from n s t g0 ?g2" "paid g1 ?g2" using k(1) by (simp_all add: runs_from_scratch paid_def)
      from augment_all_ends [OF g2(1) assms(2,4)] obtain r3 g3 where
        a: "augment_all ctx s t ?g2 = Some (r3, g3)" "r3 = Inr () \<longrightarrow> runs_from n s t g0 g3 \<and> paid ?g2 g3" "r3 \<noteq> Inr () \<longrightarrow> stopped ctx (nw_maxWork ?g2) g3" by blast
      show ?thesis
      proof (cases r3)
        case (Inl e)
        moreover have "nw_maxWork g1 = nw_maxWork g" using k(2) by (simp add: paid_def)
        ultimately show ?thesis using a b Inr False by (subst maxflow.simps) simp
      next
        case r3: (Inr u3)
        then have g3: "runs_from n s t g0 g3" "paid g1 g3" using a(2) g2(2) paid_trans by auto
        then have p: "paid g g3" "nw_work g < nw_work g3" using k False paid_trans [OF k(2)] paid_work [of g1 g3] by auto
        have "maxflow ctx s t g = maxflow ctx s t g3" using a b Inr False r3 by (subst maxflow.simps) simp
        moreover have "nw_maxWork g3 = nw_maxWork g" using p(1) by (simp add: paid_def)
        ultimately show ?thesis using less(1) [OF paid_shrinks [OF p] g3(1)] by simp
      qed
    qed
  qed
qed

section \<open>The flow is maximal\<close>

lemma maxflow_flow:
  assumes "runs_from n s t g g" "s < n" "t < n" "s \<noteq> t" "maxflow ctx s t g = Some (Inr (), g')"
  shows "is_flow (nw_to g) (nw_cap g) s t (flow_of (nw_cap g) (nw_cap g'))
    \<and> (is_flow (nw_to g) (nw_cap g) s t f \<longrightarrow> out_of (nw_to g) f s \<le> out_of (nw_to g) (flow_of (nw_cap g) (nw_cap g')) s)"
proof -
  let ?es = "nw_to g" and ?S = "{v. v < n \<and> 0 \<le> nw_level g' ! v}"
  have k: "runs_from n s t g g'" "bfs_ok n [] g'" "0 \<le> nw_level g' ! s" "nw_level g' ! t < 0"
    using maxflow_ends [OF assms(1-4), of ctx] assms(5) by auto
  have es: "nw_to g' = ?es" "is_flow ?es (nw_cap g) s t (flow_of (nw_cap g) (nw_cap g'))" "even (length ?es)"
    using k(1) by (auto simp: runs_from_def net_ok_def)
  have cut: "flow_of (nw_cap g) (nw_cap g') e = nw_cap g ! e" if e: "e < length ?es" "tail ?es e \<in> ?S" "?es ! e \<notin> ?S" for e
  proof -
    have e': "e \<in> set (nw_adj g' ! tail ?es e)" "?es ! e < n" "0 \<le> nw_cap g' ! e" using k(1) e(1) es(1) by (auto simp: runs_from_def net_ok_def)
    have "0 < nw_cap g' ! e \<longrightarrow> 0 \<le> nw_level g' ! (?es ! e)" using k(2) e(2) es(1) e'(1) unfolding bfs_ok_def by fastforce
    then show ?thesis using e(3) e'(2,3) by (simp add: flow_of_def)
  qed
  have "out_of ?es f s \<le> out_of ?es (flow_of (nw_cap g) (nw_cap g')) s" if "is_flow ?es (nw_cap g) s t f"
    by (rule cut_is_max [OF es(2) that es(3), of ?S]) (use k(3,4) assms(2) cut in auto)
  with es(2) show ?thesis by blast
qed

section \<open>Networks are built edge by edge\<close>

definition build :: "nat \<Rightarrow> int \<Rightarrow> int \<Rightarrow> (nat \<times> nat \<times> int) list \<Rightarrow> network" where
  "build n maxWork wrk xs = fold (\<lambda>(u, v, c) g. snd (add_edge g u v c)) xs (newNetwork n maxWork wrk)"

definition built :: "nat \<Rightarrow> network \<Rightarrow> bool" where
  "built n g \<longleftrightarrow> net_ok n g \<and> (\<forall>e<length (nw_to g). 0 \<le> nw_cap g ! e \<and> (odd e \<longrightarrow> nw_cap g ! e = 0))"

lemma built_new: "built n (newNetwork n maxWork wrk)"
  by (simp add: built_def net_ok_def newNetwork_def)

lemma tail_append: "even (length es) \<Longrightarrow> e < length es \<Longrightarrow> tail (es @ es') e = tail es e"
  by (simp add: tail_def nth_append rev_edge_less)

lemma built_add:
  assumes "built n g" "u < n" "v < n" "0 \<le> c"
  shows "built n (snd (add_edge g u v c))"
proof -
  let ?m = "length (nw_to g)" and ?g' = "snd (add_edge g u v c)"
  have ok: "length (nw_adj g) = n" "length (nw_cap g) = ?m" "even ?m" "\<forall>e<?m. nw_to g ! e < n"
    "\<And>w e. w < n \<Longrightarrow> e \<in> set (nw_adj g ! w) \<Longrightarrow> e < ?m \<and> tail (nw_to g) e = w" "\<forall>e<?m. e \<in> set (nw_adj g ! tail (nw_to g) e)"
    "\<forall>e<?m. 0 \<le> nw_cap g ! e \<and> (odd e \<longrightarrow> nw_cap g ! e = 0)"
    using assms(1) by (auto simp: built_def net_ok_def)
  have to': "nw_to ?g' = nw_to g @ [v, u]" and cap': "nw_cap ?g' = nw_cap g @ [c, 0]" by (simp_all add: add_edge_def Let_def)
  have adj': "set (nw_adj ?g' ! w) = set (nw_adj g ! w) \<union> (if w = u then {?m} else {}) \<union> (if w = v then {?m + 1} else {})" if "w < n" for w
    using that assms(2,3) ok(1) by (auto simp: add_edge_def Let_def nth_list_update)
  have tails: "tail (nw_to ?g') ?m = u" "tail (nw_to ?g') (?m + 1) = v" "e < ?m \<Longrightarrow> tail (nw_to ?g') e = tail (nw_to g) e" for e
    using ok(3) by (simp_all add: to' tail_append) (simp_all add: tail_def rev_edge_cases nth_append)
  have cases: "e < ?m \<or> e = ?m \<or> e = ?m + 1" if "e < length (nw_to ?g')" for e using that by (auto simp: to')
  have "e < length (nw_to ?g') \<and> tail (nw_to ?g') e = w" if w: "w < n" "e \<in> set (nw_adj ?g' ! w)" for w e
    using ok(5) [OF w(1), of e] w adj' [OF w(1)] tails by (auto simp: to' split: if_splits)
  moreover have "e \<in> set (nw_adj ?g' ! tail (nw_to ?g') e)" if e: "e < length (nw_to ?g')" for e
  proof -
    have "tail (nw_to g) e < n" if "e < ?m" using ok(3,4) that by (simp add: tail_def rev_edge_less)
    then show ?thesis using cases [OF e] tails adj' ok(6) assms(2,3) by auto
  qed
  moreover have "nw_to ?g' ! e < n \<and> 0 \<le> nw_cap ?g' ! e \<and> (odd e \<longrightarrow> nw_cap ?g' ! e = 0)" if e: "e < length (nw_to ?g')" for e
    using cases [OF e] ok(2-4,7) assms(2-4) by (auto simp: to' cap' nth_append)
  moreover have "length (nw_adj ?g') = n" "length (nw_level ?g') = n" "length (nw_it ?g') = n" "length (nw_cap ?g') = length (nw_to ?g')" "even (length (nw_to ?g'))"
    using assms(1) by (auto simp: add_edge_def Let_def built_def net_ok_def)
  ultimately show ?thesis unfolding built_def net_ok_def by blast
qed

lemma built_build:
  assumes "\<forall>(u, v, c)\<in>set xs. u < n \<and> v < n \<and> 0 \<le> c"
  shows "built n (build n maxWork wrk xs)"
proof -
  have "built n (fold (\<lambda>(u, v, c) g. snd (add_edge g u v c)) xs g)" if "built n g" for g
    using assms that by (induction xs arbitrary: g) (auto simp: built_add)
  then show ?thesis by (simp add: build_def built_new)
qed

lemma build_simps [simp]:
  "build n mw w [] = newNetwork n mw w" "build n mw w (xs @ [(u, v, c)]) = snd (add_edge (build n mw w xs) u v c)"
  by (simp_all add: build_def)

lemma build_fields: "nw_maxWork (build n mw w xs) = mw" "nw_work (build n mw w xs) = w"
  by (induction xs rule: rev_induct) (auto simp: newNetwork_def add_edge_def Let_def)

lemma built_runs: "built n g \<Longrightarrow> runs_from n s t g g"
  by (rule runs_from_refl) (auto simp: built_def)

lemma flow_on:
  assumes "built n g" "is_flow (nw_to g) (nw_cap g) s t (flow_of (nw_cap g) (nw_cap g'))" "e < length (nw_to g)" "even e"
  shows "flowOn g' e = flow_of (nw_cap g) (nw_cap g') e"
proof -
  have "even (length (nw_to g))" using assms(1) by (simp add: built_def net_ok_def)
  then have "rev_edge e < length (nw_to g)" "odd (rev_edge e)" using assms(3,4) by (simp_all add: rev_edge_less) (simp add: rev_edge_cases)
  then have "nw_cap g ! rev_edge e = 0" using assms(1) by (simp add: built_def)
  moreover have "flow_of (nw_cap g) (nw_cap g') (rev_edge e) = - flow_of (nw_cap g) (nw_cap g') e" using assms(2,3) by (simp add: is_flow_def)
  ultimately show ?thesis by (simp add: flowOn_def flow_of_def)
qed

section \<open>What the trust run relies on\<close>

text \<open>What the trust run relies on of its max-flow.\<close>

text \<open>
  C18: A max-flow over a network built by newNetwork and add always returns, from distinct source and sink.
  It returns an error only past the bound on examined edges, or where the context is done.
\<close>

theorem maxflow_terminates:
  assumes "\<forall>(u, v, c)\<in>set xs. u < n \<and> v < n \<and> 0 \<le> c" "s < n" "t < n" "s \<noteq> t"
  shows "\<exists>r g'. maxflow ctx s t (build n maxWork wrk xs) = Some (r, g')
    \<and> (r = Inl ErrWorkExceeded \<longrightarrow> maxWork < nw_work g' \<or> ctx (nw_work g'))"
  using maxflow_ends [OF built_runs [OF built_build [OF assms(1)]] assms(2-4), of ctx] by (fastforce simp: stopped_def build_fields)

theorem maxflow_terminates_witness:
  "\<exists>r g'. maxflow (\<lambda>_. False) 0 2 (build 3 40 0 [(0, 1, 5), (1, 2, 3), (0, 2, 4)]) = Some (r, g')
    \<and> (r = Inl ErrWorkExceeded \<longrightarrow> 40 < nw_work g')"
  using maxflow_terminates [of "[(0, 1, 5), (1, 2, 3), (0, 2, 4)]" 3 0 2 "\<lambda>_. False" 40 0] by simp

text \<open>
  C17: A max-flow that returns without error leaves a flow of the network it was given, within every
  capacity and balanced at every node but source and sink. No other flow carries more out of the
  source, and flowOn reads it off the reverse edges.
\<close>

theorem maxflow_maximal:
  assumes "\<forall>(u, v, c)\<in>set xs. u < n \<and> v < n \<and> 0 \<le> c" "s < n" "t < n" "s \<noteq> t"
    and "g = build n maxWork wrk xs" "maxflow ctx s t g = Some (Inr (), g')"
  shows "is_flow (nw_to g) (nw_cap g) s t (flow_of (nw_cap g) (nw_cap g'))
    \<and> (\<forall>f. is_flow (nw_to g) (nw_cap g) s t f \<longrightarrow> out_of (nw_to g) f s \<le> out_of (nw_to g) (flow_of (nw_cap g) (nw_cap g')) s)
    \<and> (\<forall>e<length (nw_to g). even e \<longrightarrow> flowOn g' e = flow_of (nw_cap g) (nw_cap g') e)"
proof -
  have b: "built n g" using built_build [OF assms(1)] assms(5) by simp
  from maxflow_flow [OF built_runs [OF b] assms(2-4,6)] flow_on [OF b, of s t g'] show ?thesis by simp
qed

lemmas net_run = bfs_loop.simps advance.simps search.simps bfs_def augment_def tick_def thenM_def bindM_def gets_def modifyM_def ret_def throw_def
  push_path_def bottleneck_def push_edge_def rev_edge_cases build_def newNetwork_def add_edge_def Let_def

text \<open>One edge of five: the first phase fills it, the second finds no way.\<close>

lemma small_run:
  "maxflow (\<lambda>_. False) 0 1 (build 2 40 0 [(0, 1, 5)])
   = Some (Inr (), \<lparr>nw_adj = [[0], [1]], nw_to = [1, 0], nw_cap = [0, 5], nw_work = 5, nw_maxWork = 40, nw_level = [0, -1], nw_it = [1, 0]\<rparr>)"
  by (subst maxflow.simps, simp add: net_run, subst augment_all.simps, simp add: net_run, subst augment_all.simps, simp add: net_run,
      subst maxflow.simps, simp add: net_run numeral_2_eq_2)

theorem maxflow_maximal_witness:
  "\<exists>g g'. maxflow (\<lambda>_. False) 0 1 g = Some (Inr (), g') \<and> flow_of (nw_cap g) (nw_cap g') 0 = 5
    \<and> is_flow (nw_to g) (nw_cap g) 0 1 (flow_of (nw_cap g) (nw_cap g')) \<and> flowOn g' 0 = 5"
proof -
  let ?g = "build 2 40 0 [(0, 1, 5)]"
  obtain g' where g': "maxflow (\<lambda>_. False) 0 1 ?g = Some (Inr (), g')" "nw_cap g' = [0, 5]" using small_run by simp
  have "is_flow (nw_to ?g) (nw_cap ?g) 0 1 (flow_of (nw_cap ?g) (nw_cap g'))"
    using maxflow_maximal [OF _ _ _ _ refl g'(1)] by simp
  moreover have "flow_of (nw_cap ?g) (nw_cap g') 0 = 5" "flowOn g' 0 = 5" by (simp_all add: g'(2) flow_of_def flowOn_def net_run)
  ultimately show ?thesis using g'(1) by blast
qed

end
