(* ===== verification/Judge.thy ===== *)
theory Judge
  imports Ledger_Arith
begin

text \<open>
  The judgement package (\<open>internal/judge/judge.go\<close>): what an act says on the scale from 0 to 100, its
  weight, the standing-weighted median with its prior, and the gain of a judgement against a later
  consensus. Amounts are \<open>int64\<close> values as integers; \<open>satAdd\<close> writes out the wrap-around it tests for.
\<close>

section \<open>The scale and the acts\<close>

definition Min_x :: int where "Min_x = 0"

definition Max_x :: int where "Max_x = 100"

definition Neutral :: int where "Neutral = 50"

definition PriorWeight :: int where "PriorWeight = 2"

definition ThinBelow :: int where "ThinBelow = PriorWeight + 1"

definition VouchDefault :: int where "VouchDefault = 80"

definition VouchScoreMin :: int where "VouchScoreMin = 51"

definition WorkAcceptDefault :: int where "WorkAcceptDefault = 75"

definition Up :: int where "Up = Max_x"

definition Down :: int where "Down = Min_x"

definition VerdictX :: "string \<Rightarrow> int option" where
  "VerdictX = map_of [(''good'', 80), (''mixed'', 50), (''bad'', 20), (''unusable'', 0)]"

definition EvidenceWeightPPM :: "string \<Rightarrow> int option" where
  "EvidenceWeightPPM = map_of [(''paid_use'', 1000000), (''work'', 1000000), (''observed'', 400000), (''free_use'', 300000), (''opinion'', 200000)]"

definition RelationshipFactorPPM :: "string \<Rightarrow> int option" where
  "RelationshipFactorPPM = map_of [(''owner'', 0), (''affiliate'', 0), (''paid'', 0), (''competitor'', 500000), (''outside_source'', 0), (''lab'', 0)]"

record Judgement =
  jd_ID :: string
  jd_Act :: string
  jd_Author :: string
  jd_Root :: string
  jd_Subject :: string
  jd_X :: int
  jd_Coarse :: bool
  jd_Evidence :: string
  jd_Relationship :: string
  jd_At :: int

definition AgentSubject :: "string \<Rightarrow> string" where
  "AgentSubject account = ''agent:'' @ account"

definition PostSubject :: "string \<Rightarrow> string" where
  "PostSubject ident = ''post:'' @ ident"

definition ClaimSubject :: "string \<Rightarrow> string \<Rightarrow> string" where
  "ClaimSubject agent claim = ''claim:'' @ agent @ '':'' @ claim"

definition ReviewSubject :: "string \<Rightarrow> string \<Rightarrow> string \<Rightarrow> string" where
  "ReviewSubject typ key ident = (if typ = ''agent'' then AgentSubject key else ''subject:'' @ ident)"

definition OwnSubject :: "string \<Rightarrow> string list \<Rightarrow> (string \<Rightarrow> string) \<Rightarrow> bool" where
  "OwnSubject author owners rootOf = (let root = rootOf author in list_ex (\<lambda>w. w = author \<or> rootOf w = root) owners)"

definition Side :: "int \<Rightarrow> int" where
  "Side x = (if x > Neutral then Up else if x < Neutral then Down else Neutral)"

definition MedianX :: "Judgement \<Rightarrow> int" where
  "MedianX j = (if jd_Coarse j then Side (jd_X j) else jd_X j)"

definition EdgePPM :: "Judgement \<Rightarrow> int \<Rightarrow> int" where
  "EdgePPM j coarseX =
     (let x = (if jd_Coarse j \<and> jd_X j > Neutral then coarseX else jd_X j) in
      if x \<le> Neutral then 0 else (min x Max_x - Neutral) * 1000000 sdiv Neutral)"

definition clamp_x :: "int \<Rightarrow> int" where
  "clamp_x x = min Max_x (max Min_x x)"

definition FromReview :: "string \<Rightarrow> int \<Rightarrow> int \<Rightarrow> int option" where
  "FromReview verdict score good =
     (if verdict = ''unverified'' then None
      else if score \<ge> 0 then Some (clamp_x score)
      else if good \<ge> 0 then Some (clamp_x good)
      else VerdictX verdict)"

definition FromVouch :: "int \<Rightarrow> int \<Rightarrow> (int \<times> bool) option" where
  "FromVouch v score =
     (if v \<noteq> 1 then None
      else if score > 0 then Some (min Max_x (max VouchScoreMin score), False)
      else Some (VouchDefault, True))"

definition FromVote :: "int \<Rightarrow> int option" where
  "FromVote v = (if v = 1 then Some Up else if v = - 1 then Some Down else None)"

definition FromWorkAccept :: "int \<Rightarrow> int \<times> bool" where
  "FromWorkAccept rating = (if rating \<ge> 0 then (clamp_x rating, False) else (WorkAcceptDefault, True))"

definition FromWitness :: "bool \<Rightarrow> int" where
  "FromWitness verified = (if verified then Up else Down)"

section \<open>Weights\<close>

definition EvidencePPM :: "string \<Rightarrow> int" where
  "EvidencePPM cls = (case EvidenceWeightPPM cls of Some w \<Rightarrow> w | None \<Rightarrow> 0)"

definition RelationshipPPM :: "string \<Rightarrow> int" where
  "RelationshipPPM rel = (case RelationshipFactorPPM rel of Some f \<Rightarrow> f | None \<Rightarrow> 1000000)"

definition MulDiv :: "int \<Rightarrow> int \<Rightarrow> int \<Rightarrow> int" where
  "MulDiv a b c =
     (if a \<le> 0 \<or> b \<le> 0 \<or> c \<le> 0 then 0
      else let hi = (a * b) div 2 ^ 64; lo = (a * b) mod 2 ^ 64 in
        if hi \<ge> c then 2 ^ 63 - 1
        else let q = (hi * 2 ^ 64 + lo) div c in
          if q > 2 ^ 63 - 1 then 2 ^ 63 - 1 else q)"

text \<open>A sum of \<open>int64\<close> values as the machine has it, and the addition that tests for the wrap.\<close>

definition wrap64 :: "int \<Rightarrow> int" where
  "wrap64 x = (x + 2 ^ 63) mod 2 ^ 64 - 2 ^ 63"

definition satAdd :: "int \<Rightarrow> int \<Rightarrow> int" where
  "satAdd a b = (let s = wrap64 (a + b) in if s \<ge> a then s else 2 ^ 63 - 1)"

definition Weight :: "int \<Rightarrow> int \<Rightarrow> int \<Rightarrow> int \<Rightarrow> int" where
  "Weight evidencePPM vPPM relationshipPPM decayPPM =
     (let w = MulDiv (max 0 evidencePPM) (max 0 vPPM) 1000000;
          w2 = MulDiv w (max 0 relationshipPPM) 1000000
      in MulDiv w2 (max 0 decayPPM) 1000000)"

section \<open>The median\<close>

record Point =
  pt_X :: int
  pt_W :: int

record judge_Params =
  jp_PriorWeight :: int
  jp_ThinBelow :: int

definition Default_judge :: judge_Params where
  "Default_judge = \<lparr>jp_PriorWeight = PriorWeight, jp_ThinBelow = ThinBelow\<rparr>"

definition priorOf :: "judge_Params \<Rightarrow> int \<Rightarrow> int \<Rightarrow> int" where
  "priorOf p w n = (if n \<le> 0 then 0 else MulDiv w (max 0 (jp_PriorWeight p)) n)"

definition weigh :: "Point list \<Rightarrow> int" where
  "weigh points = foldl (\<lambda>w q. if pt_W q > 0 then satAdd w (pt_W q) else w) 0 points"

definition PriorPPM :: "judge_Params \<Rightarrow> Point list \<Rightarrow> int" where
  "PriorPPM p points = priorOf p (weigh points) (int (length (filter (\<lambda>q. pt_W q > 0) points)))"

text \<open>
  The points that count, the prior among them: those with weight, their values on the scale. With none
  the neutral value alone is left.
\<close>

definition counted :: "Point list \<Rightarrow> int \<Rightarrow> Point list" where
  "counted points priorPPM =
     (let pts = map (\<lambda>q. \<lparr>pt_X = clamp_x (pt_X q), pt_W = pt_W q\<rparr>) (filter (\<lambda>q. pt_W q > 0) points) in
      if priorPPM > 0 \<or> pts = [] then pts @ [\<lparr>pt_X = Neutral, pt_W = max 1 priorPPM\<rparr>] else pts)"

definition merge_step :: "Point list \<Rightarrow> Point \<Rightarrow> Point list" where
  "merge_step merged q =
     (if pt_X (last merged) = pt_X q then butlast merged @ [(last merged)\<lparr>pt_W := satAdd (pt_W (last merged)) (pt_W q)\<rparr>]
      else merged @ [q])"

definition merge_points :: "Point list \<Rightarrow> Point list" where
  "merge_points pts = foldl merge_step (take 1 pts) (drop 1 pts)"

definition total_weight :: "Point list \<Rightarrow> int" where
  "total_weight merged = foldl (\<lambda>t q. satAdd t (pt_W q)) 0 merged"

fun median_loop :: "int \<Rightarrow> int \<Rightarrow> Point list \<Rightarrow> int" where
  "median_loop tot cum [] = Neutral"
| "median_loop tot cum (q # qs) =
     (let cum' = satAdd cum (pt_W q); twice = satAdd cum' cum' in
      if twice > tot \<or> twice = tot \<and> qs = [] then pt_X q
      else if twice = tot then (pt_X q + pt_X (hd qs)) sdiv 2
      else median_loop tot cum' qs)"

definition median :: "Point list \<Rightarrow> int \<Rightarrow> int" where
  "median points priorPPM =
     (let merged = merge_points (sort_key pt_X (counted points priorPPM)) in median_loop (total_weight merged) 0 merged)"

definition Consensus :: "judge_Params \<Rightarrow> Point list \<Rightarrow> int" where
  "Consensus p points = median points (PriorPPM p points)"

definition Score_of :: "judge_Params \<Rightarrow> Point list \<Rightarrow> int" where
  "Score_of p current = Consensus p current"

definition ScoreGrouped :: "judge_Params \<Rightarrow> Point list \<Rightarrow> int \<Rightarrow> int" where
  "ScoreGrouped p groups n = median groups (priorOf p (weigh groups) n)"

definition Thin :: "judge_Params \<Rightarrow> int \<Rightarrow> bool" where
  "Thin p weighted = (weighted < jp_ThinBelow p)"

definition Outcome :: "Point list \<Rightarrow> int" where
  "Outcome points = median points 0"

section \<open>Gains\<close>

definition Gain :: "int \<Rightarrow> int \<Rightarrow> int \<Rightarrow> bool \<Rightarrow> int" where
  "Gain x c0 cT coarse =
     (let x = clamp_x x; c0 = clamp_x c0; cT = clamp_x cT in
      if coarse then sgn (Side x - c0) * (cT - c0) * 1000000 sdiv (Max_x - Min_x)
      else (\<bar>c0 - cT\<bar> - \<bar>x - cT\<bar>) * 1000000 sdiv (Max_x - Min_x))"

lemmas scale_defs = Min_x_def Max_x_def Neutral_def Up_def Down_def

section \<open>Sums and products\<close>

lemma MulDiv_mulDiv: "MulDiv a b c = mulDiv a b c"
proof -
  have "(2::int) ^ 63 - 1 = maxInt64" by (simp add: maxInt64_def)
  then show ?thesis unfolding MulDiv_def mulDiv_def by (simp only:)
qed

lemma wrap64_small: "- (2 ^ 63) \<le> x \<Longrightarrow> x < 2 ^ 63 \<Longrightarrow> wrap64 x = x"
  by (simp add: wrap64_def)

lemma wrap64_over: "2 ^ 63 \<le> x \<Longrightarrow> x < 2 ^ 64 \<Longrightarrow> wrap64 x = x - 2 ^ 64"
  unfolding wrap64_def by (subst mod_pos_geq) simp_all

lemma satAdd_eq:
  assumes "0 \<le> a" "a \<le> maxInt64" "0 \<le> b" "b \<le> maxInt64"
  shows "satAdd a b = min maxInt64 (a + b)"
proof (cases "a + b \<le> maxInt64")
  case True
  with assms have "wrap64 (a + b) = a + b" by (intro wrap64_small) (simp_all add: maxInt64_def)
  then show ?thesis using True assms by (simp add: satAdd_def Let_def maxInt64_def)
next
  case False
  with assms have "wrap64 (a + b) = a + b - 2 ^ 64" by (intro wrap64_over) (simp_all add: maxInt64_def)
  then show ?thesis using False assms by (simp add: satAdd_def Let_def maxInt64_def)
qed

lemma satAdd_range: "0 \<le> a \<Longrightarrow> a \<le> maxInt64 \<Longrightarrow> 0 \<le> b \<Longrightarrow> b \<le> maxInt64 \<Longrightarrow> 0 \<le> satAdd a b \<and> satAdd a b \<le> maxInt64 \<and> a \<le> satAdd a b"
  by (simp add: satAdd_eq)

end
