(* ===== verification/Judge_Spec.thy ===== *)
theory Judge_Spec
  imports Judge "HOL-Library.Multiset"
begin

text \<open>
  What the median computes: the merged list carries the weight of every value once, in ascending
  order and whatever order the sort left equal values in; the loop stops at the value where half of the
  weight is reached.
\<close>

section \<open>Weight on a set of values\<close>

definition weight_on :: "(int \<Rightarrow> bool) \<Rightarrow> Point list \<Rightarrow> int" where
  "weight_on P pts = sum_list (map pt_W (filter (\<lambda>q. P (pt_X q)) pts))"

definition weight_of :: "Point list \<Rightarrow> int" where
  "weight_of pts = sum_list (map pt_W pts)"

definition weights_ok :: "Point list \<Rightarrow> bool" where
  "weights_ok pts \<longleftrightarrow> (\<forall>q\<in>set pts. 0 < pt_W q) \<and> weight_of pts \<le> maxInt64"

lemma weight_on_simps [simp]:
  "weight_on P [] = 0" "weight_on P (q # qs) = (if P (pt_X q) then pt_W q else 0) + weight_on P qs"
  "weight_on P (xs @ ys) = weight_on P xs + weight_on P ys"
  by (simp_all add: weight_on_def)

lemma weight_of_simps [simp]: "weight_of [] = 0" "weight_of (q # qs) = pt_W q + weight_of qs" "weight_of (xs @ ys) = weight_of xs + weight_of ys"
  by (simp_all add: weight_of_def)

lemma weight_nonneg: "\<forall>q\<in>set pts. 0 < pt_W q \<Longrightarrow> 0 \<le> weight_of pts"
  by (induction pts) auto

lemma weight_on_nonneg: "\<forall>q\<in>set pts. 0 < pt_W q \<Longrightarrow> 0 \<le> weight_on P pts"
  by (induction pts) auto

lemma weight_on_mono: "\<forall>q\<in>set pts. 0 < pt_W q \<Longrightarrow> (\<And>x. P x \<Longrightarrow> Q x) \<Longrightarrow> weight_on P pts \<le> weight_on Q pts"
  by (induction pts) auto

lemma weight_on_all: "\<forall>q\<in>set pts. P (pt_X q) \<Longrightarrow> weight_on P pts = weight_of pts"
  by (induction pts) auto

lemma weight_on_none: "\<forall>q\<in>set pts. \<not> P (pt_X q) \<Longrightarrow> weight_on P pts = 0"
  by (induction pts) auto

lemma weight_sides:
  "\<forall>p\<in>set xs. pt_X p < c \<Longrightarrow> weight_on (\<lambda>x. x < c) xs = weight_of xs" "\<forall>p\<in>set xs. pt_X p \<le> c \<Longrightarrow> weight_on (\<lambda>x. c < x) xs = 0"
  "\<forall>p\<in>set xs. c < pt_X p \<Longrightarrow> weight_on (\<lambda>x. c < x) xs = weight_of xs" "\<forall>p\<in>set xs. c \<le> pt_X p \<Longrightarrow> weight_on (\<lambda>x. x < c) xs = 0"
  by (induction xs) auto

lemma weight_on_split: "weight_on P pts + weight_on (\<lambda>x. \<not> P x) pts = weight_of pts"
  by (induction pts) auto

lemma weight_on_sort: "weight_on P (sort_key f pts) = weight_on P pts"
proof -
  have "mset (map pt_W (filter (\<lambda>q. P (pt_X q)) (sort_key f pts))) = mset (map pt_W (filter (\<lambda>q. P (pt_X q)) pts))" by simp
  then show ?thesis unfolding weight_on_def by (metis sum_mset_sum_list)
qed

lemma weight_of_sort: "weight_of (sort_key f pts) = weight_of pts"
  using weight_on_sort [of "\<lambda>_. True" f pts] by (simp add: weight_on_all)

section \<open>Merging\<close>

definition merges :: "Point list \<Rightarrow> Point list \<Rightarrow> bool" where
  "merges pts merged \<longleftrightarrow> sorted_wrt (<) (map pt_X merged) \<and> weights_ok merged \<and> weight_of merged = weight_of pts \<and> (\<forall>P. weight_on P merged = weight_on P pts)
     \<and> (merged = [] \<longleftrightarrow> pts = []) \<and> set (map pt_X merged) = set (map pt_X pts)"

lemma merges_step:
  assumes m: "merges xs ms" and ne: "ms \<noteq> []" and le: "pt_X (last ms) \<le> pt_X q" and q: "0 < pt_W q" "weight_of xs + pt_W q \<le> maxInt64"
  shows "merges (xs @ [q]) (merge_step ms q) \<and> merge_step ms q \<noteq> [] \<and> pt_X (last (merge_step ms q)) = pt_X q"
proof -
  obtain ps l where ms: "ms = ps @ [l]" using ne by (cases ms rule: rev_cases) auto
  have k: "sorted_wrt (<) (map pt_X ps @ [pt_X l])" "\<forall>w\<in>set (ps @ [l]). 0 < pt_W w" "weight_of ps + pt_W l = weight_of xs"
      "\<And>P. weight_on P ms = weight_on P xs" "set (map pt_X ms) = set (map pt_X xs)"
    using m by (auto simp: merges_def weights_ok_def ms)
  have nn: "0 \<le> weight_of ps" using k(2) by (intro weight_nonneg) auto
  show ?thesis
  proof (cases "pt_X l = pt_X q")
    case True
    have "satAdd (pt_W l) (pt_W q) = pt_W l + pt_W q" using k(2,3) q nn by (subst satAdd_eq) (auto simp: maxInt64_def)
    then have st: "merge_step ms q = ps @ [l\<lparr>pt_W := pt_W l + pt_W q\<rparr>]" using True by (simp add: merge_step_def ms)
    have "weight_on P (merge_step ms q) = weight_on P (xs @ [q])" for P
      unfolding st using k(4) [of P, symmetric] True by (simp add: ms)
    moreover have "weights_ok (merge_step ms q)" using k(2,3) q by (auto simp: weights_ok_def st)
    moreover have "weight_of (merge_step ms q) = weight_of (xs @ [q])" using k(3) by (simp add: st)
    moreover have "set (map pt_X (merge_step ms q)) = set (map pt_X (xs @ [q]))" unfolding st using k(5) True by (auto simp: ms)
    ultimately show ?thesis using k(1) True by (auto simp: merges_def st)
  next
    case False
    then have st: "merge_step ms q = ms @ [q]" by (simp add: merge_step_def ms)
    have lt: "pt_X l < pt_X q" using le False by (simp add: ms)
    have "sorted_wrt (<) (map pt_X (ms @ [q]))" using k(1) lt by (fastforce simp: ms sorted_wrt_append)
    moreover have "weight_on P (ms @ [q]) = weight_on P (xs @ [q])" for P using k(4) by simp
    moreover have "weights_ok (ms @ [q])" "weight_of (ms @ [q]) = weight_of (xs @ [q])" using k(2,3) q by (auto simp: weights_ok_def ms)
    moreover have "set (map pt_X (ms @ [q])) = set (map pt_X (xs @ [q]))" using k(5) by auto
    ultimately show ?thesis by (simp add: merges_def st)
  qed
qed

lemma merges_fold:
  assumes "merges xs ms" "ms \<noteq> []" "\<forall>q\<in>set qs. pt_X (last ms) \<le> pt_X q" "sorted (map pt_X qs)" "\<forall>q\<in>set qs. 0 < pt_W q" "weight_of (xs @ qs) \<le> maxInt64"
  shows "merges (xs @ qs) (foldl merge_step ms qs)"
  using assms
proof (induction qs arbitrary: xs ms)
  case (Cons q qs)
  have "0 \<le> weight_of qs" using Cons.prems(5) by (intro weight_nonneg) auto
  then have "merges (xs @ [q]) (merge_step ms q) \<and> merge_step ms q \<noteq> [] \<and> pt_X (last (merge_step ms q)) = pt_X q"
    using Cons.prems by (intro merges_step) auto
  then show ?case using Cons.IH [of "xs @ [q]" "merge_step ms q"] Cons.prems(4-6) by auto
qed simp

lemma merge_points_merges:
  assumes "weights_ok pts" "sorted (map pt_X pts)"
  shows "merges pts (merge_points pts)"
proof (cases pts)
  case (Cons q qs)
  have w: "0 < pt_W q" "\<forall>x\<in>set qs. 0 < pt_W x" "pt_W q + weight_of qs \<le> maxInt64" using assms(1) by (auto simp: weights_ok_def Cons)
  then have "merges [q] [q]" using weight_nonneg [of qs] by (simp add: merges_def weights_ok_def)
  from merges_fold [OF this, of qs] w assms(2) show ?thesis by (simp add: merge_points_def Cons)
qed (simp add: merges_def merge_points_def weights_ok_def)

text \<open>\<open>sort.Slice\<close> is not stable; two strictly ascending lists with the same weight on every value are equal.\<close>

lemma strict_unique:
  assumes "sorted_wrt (<) (map pt_X xs)" "sorted_wrt (<) (map pt_X ys)" "set (map pt_X xs) = set (map pt_X ys)" "\<And>P. weight_on P xs = weight_on P ys"
  shows "xs = (ys :: Point list)"
  using assms
proof (induction xs arbitrary: ys)
  case (Cons x xs)
  then obtain y ys' where ys: "ys = y # ys'" by (cases ys) auto
  have "\<forall>z\<in>set (map pt_X xs). pt_X x < z" "\<forall>z\<in>set (map pt_X ys'). pt_X y < z" "pt_X x \<in> insert (pt_X y) (set (map pt_X ys'))" "pt_X y \<in> insert (pt_X x) (set (map pt_X xs))"
    using Cons.prems(1-3) by (auto simp: ys)
  then have X: "pt_X x = pt_X y" by force
  have nx: "weight_on (\<lambda>v. v = pt_X x) xs = 0" "weight_on (\<lambda>v. v = pt_X x) ys' = 0"
    by (rule weight_on_none, use Cons.prems(1,2) X in \<open>auto simp: ys\<close>)+
  have W: "pt_W x = pt_W y" using Cons.prems(4) [of "\<lambda>v. v = pt_X x"] nx X by (simp add: ys)
  have "set (map pt_X xs) = set (map pt_X ys')"
  proof -
    have "pt_X x \<notin> set (map pt_X xs)" "pt_X y \<notin> set (map pt_X ys')" using Cons.prems(1,2) by (auto simp: ys)
    then show ?thesis using Cons.prems(3) X insert_ident [of "pt_X x" "pt_X ` set xs" "pt_X ` set ys'"] by (simp add: ys)
  qed
  moreover have "weight_on P xs = weight_on P ys'" for P using Cons.prems(4) [of P] X W by (auto simp: ys split: if_splits)
  ultimately have "xs = ys'" using Cons.IH [of ys'] Cons.prems(1,2) by (simp add: ys)
  then show ?case using X W by (simp add: ys)
qed simp

lemma merge_any_sort:
  assumes "weights_ok pts" "mset ys = mset pts" "sorted (map pt_X ys)"
  shows "merge_points ys = merge_points (sort_key pt_X pts)"
proof -
  have wo: "weight_on P ys = weight_on P (sort_key pt_X pts)" for P
  proof -
    have "mset (map pt_W (filter (\<lambda>q. P (pt_X q)) ys)) = mset (map pt_W (filter (\<lambda>q. P (pt_X q)) (sort_key pt_X pts)))" using assms(2) by simp
    then show ?thesis unfolding weight_on_def by (metis sum_mset_sum_list)
  qed
  have st: "set ys = set pts" using assms(2) by (metis set_mset_mset)
  have "weight_of ys = weight_of pts" using wo [of "\<lambda>_. True"] by (simp add: weight_on_all weight_of_sort)
  then have "merges ys (merge_points ys)" using assms st by (intro merge_points_merges) (auto simp: weights_ok_def)
  moreover have "merges (sort_key pt_X pts) (merge_points (sort_key pt_X pts))"
    using assms(1) by (intro merge_points_merges) (auto simp: weights_ok_def weight_of_sort)
  ultimately show ?thesis unfolding merges_def using wo st by (intro strict_unique) auto
qed

section \<open>The loop\<close>

lemma total_weight_eq: "weights_ok pts \<Longrightarrow> total_weight pts = weight_of pts"
proof -
  have "foldl (\<lambda>t q. satAdd t (pt_W q)) a pts = a + weight_of pts" if "0 \<le> a" "\<forall>q\<in>set pts. 0 < pt_W q" "a + weight_of pts \<le> maxInt64" for a
    using that
  proof (induction pts arbitrary: a)
    case (Cons q qs)
    have "0 \<le> weight_of qs" using Cons.prems(2) by (intro weight_nonneg) auto
    then have "satAdd a (pt_W q) = a + pt_W q" using Cons.prems by (subst satAdd_eq) auto
    then show ?case using Cons.IH [of "a + pt_W q"] Cons.prems by simp
  qed simp
  then show "weights_ok pts \<Longrightarrow> total_weight pts = weight_of pts" by (simp add: total_weight_def weights_ok_def)
qed

text \<open>The value the loop returns leaves at most half of the weight on either side.\<close>

lemma median_loop_halves:
  assumes "sorted_wrt (<) (map pt_X (ps @ qs))" "\<forall>q\<in>set (ps @ qs). 0 < pt_W q \<and> 0 \<le> pt_X q" "weight_of (ps @ qs) = tot" "tot < maxInt64" "2 * weight_of ps < tot"
  shows "2 * weight_on (\<lambda>x. x < median_loop tot (weight_of ps) qs) (ps @ qs) \<le> tot
    \<and> 2 * weight_on (\<lambda>x. median_loop tot (weight_of ps) qs < x) (ps @ qs) \<le> tot
    \<and> (\<exists>p\<in>set (ps @ qs). \<exists>q\<in>set (ps @ qs). pt_X p \<le> median_loop tot (weight_of ps) qs \<and> median_loop tot (weight_of ps) qs \<le> pt_X q)"
  using assms
proof (induction qs arbitrary: ps)
  case Nil
  then show ?case using weight_nonneg [of ps] by simp
next
  case (Cons q qs)
  let ?c = "weight_of ps + pt_W q"
  have nn: "0 \<le> weight_of ps" "0 \<le> weight_of qs" using Cons.prems(2) by (auto intro!: weight_nonneg)
  have c: "satAdd (weight_of ps) (pt_W q) = ?c" using Cons.prems nn by (subst satAdd_eq) auto
  have tw: "satAdd ?c ?c = min maxInt64 (2 * ?c)" using Cons.prems nn by (subst satAdd_eq) auto
  have lo: "\<forall>p\<in>set ps. pt_X p < pt_X q" and hi: "\<forall>p\<in>set qs. pt_X q < pt_X p"
    using Cons.prems(1) by (auto simp: sorted_wrt_append)
  show ?case
  proof (cases "2 * ?c > tot \<or> 2 * ?c = tot \<and> qs = []")
    case True
    then have r: "median_loop tot (weight_of ps) (q # qs) = pt_X q" using Cons.prems(4) by (auto simp: Let_def c tw)
    have "weight_on (\<lambda>x. x < pt_X q) (ps @ q # qs) = weight_of ps" "weight_on (\<lambda>x. pt_X q < x) (ps @ q # qs) = weight_of qs"
      using lo hi by (simp_all add: weight_sides less_imp_le)
    then show ?thesis unfolding r using Cons.prems(3,5) True by (auto intro!: bexI [of _ q])
  next
    case no: False
    show ?thesis
    proof (cases "2 * ?c = tot")
      case True
      then obtain n qs' where qs: "qs = n # qs'" using no by (cases qs) auto
      let ?m = "(pt_X q + pt_X n) sdiv 2"
      have r: "median_loop tot (weight_of ps) (q # qs) = ?m" using Cons.prems(4) True no by (auto simp: Let_def c tw qs)
      have qn: "pt_X q < pt_X n" using hi by (simp add: qs)
      have m: "pt_X q \<le> ?m" "?m < pt_X n" using qn Cons.prems(2) by (simp_all add: sdiv_nonneg qs)
      have "weight_on (\<lambda>x. x < ?m) (ps @ q # qs) \<le> weight_on (\<lambda>x. x < pt_X n) (ps @ q # qs)"
        using Cons.prems(2) m(2) by (intro weight_on_mono) auto
      moreover have "weight_on (\<lambda>x. x < pt_X n) (ps @ q # qs) = ?c"
      proof -
        have "\<forall>p\<in>set ps. pt_X p < pt_X n" using lo qn by force
        moreover have "\<forall>p\<in>set qs'. pt_X n \<le> pt_X p" using Cons.prems(1) by (auto simp: qs sorted_wrt_append)
        ultimately show ?thesis using qn by (simp add: weight_sides qs)
      qed
      moreover have "weight_on (\<lambda>x. ?m < x) (ps @ q # qs) \<le> weight_on (\<lambda>x. pt_X q < x) (ps @ q # qs)"
        using Cons.prems(2) m(1) by (intro weight_on_mono) auto
      moreover have "weight_on (\<lambda>x. pt_X q < x) (ps @ q # qs) = weight_of qs"
        using lo hi by (simp add: weight_sides less_imp_le)
      moreover have "\<exists>a\<in>set (ps @ q # qs). \<exists>b\<in>set (ps @ q # qs). pt_X a \<le> ?m \<and> ?m \<le> pt_X b"
        by (rule bexI [of _ q], rule bexI [of _ n]) (use m in \<open>auto simp: qs\<close>)
      ultimately show ?thesis unfolding r using True Cons.prems(3) by auto
    next
      case False
      then have less: "2 * ?c < tot" using no by auto
      have r: "median_loop tot (weight_of ps) (q # qs) = median_loop tot (weight_of (ps @ [q])) qs"
        using Cons.prems(4) less by (auto simp: Let_def c tw)
      from Cons.IH [of "ps @ [q]"] Cons.prems less show ?thesis unfolding r by simp
    qed
  qed
qed

section \<open>The consensus\<close>

text \<open>Points as the callers make them: \<open>int64\<close> weights whose sum stays below the saturation.\<close>

definition points_ok :: "Point list \<Rightarrow> int \<Rightarrow> bool" where
  "points_ok points priorPPM \<longleftrightarrow> weight_of (counted points priorPPM) < maxInt64"

lemma clamp_x_range: "0 \<le> clamp_x x \<and> clamp_x x \<le> 100"
  by (simp add: clamp_x_def scale_defs)

lemma counted_ok: "q \<in> set (counted points priorPPM) \<Longrightarrow> 0 < pt_W q \<and> 0 \<le> pt_X q \<and> pt_X q \<le> 100"
  using clamp_x_range by (auto simp: counted_def Let_def scale_defs split: if_splits)

lemma counted_ne: "counted points priorPPM \<noteq> []"
  by (simp add: counted_def Let_def)

lemma median_halves:
  assumes "points_ok points priorPPM"
  defines "m \<equiv> median points priorPPM" and "pts \<equiv> counted points priorPPM"
  shows "2 * weight_on (\<lambda>x. x < m) pts \<le> weight_of pts" "2 * weight_on (\<lambda>x. m < x) pts \<le> weight_of pts" "0 \<le> m" "m \<le> 100"
proof -
  let ?s = "sort_key pt_X pts" and ?m = "merge_points (sort_key pt_X pts)"
  have w: "weights_ok ?s" using assms(1) counted_ok by (auto simp: weights_ok_def points_ok_def weight_of_sort pts_def)
  have mg: "merges ?s ?m" using merge_points_merges [OF w] by simp
  then have k: "sorted_wrt (<) (map pt_X ?m)" "weights_ok ?m" "weight_of ?m = weight_of pts" "\<And>P. weight_on P ?m = weight_on P pts" "set (map pt_X ?m) = set (map pt_X pts)"
    by (auto simp: merges_def weight_of_sort weight_on_sort)
  have ne: "?m \<noteq> []" using mg counted_ne by (auto simp: merges_def pts_def)
  have rng: "\<forall>q\<in>set ?m. 0 < pt_W q \<and> 0 \<le> pt_X q \<and> pt_X q \<le> 100"
  proof
    fix q assume q: "q \<in> set ?m"
    then have "pt_X q \<in> set (map pt_X pts)" using k(5) by auto
    then show "0 < pt_W q \<and> 0 \<le> pt_X q \<and> pt_X q \<le> 100" using counted_ok k(2) q by (auto simp: pts_def weights_ok_def)
  qed
  have pos: "0 < weight_of ?m" using ne rng weight_nonneg [of "tl ?m"] by (cases ?m) auto
  have m: "m = median_loop (weight_of ?m) (weight_of []) ?m" using total_weight_eq [OF k(2)] by (simp add: m_def median_def Let_def pts_def)
  have "weight_of ?m < maxInt64" using assms(1) k(3) by (simp add: points_ok_def pts_def)
  from median_loop_halves [of "[]" ?m "weight_of ?m", OF _ _ _ this] k(1) rng pos
  have h: "2 * weight_on (\<lambda>x. x < m) ?m \<le> weight_of ?m" "2 * weight_on (\<lambda>x. m < x) ?m \<le> weight_of ?m"
    "\<exists>p\<in>set ?m. \<exists>q\<in>set ?m. pt_X p \<le> m \<and> m \<le> pt_X q" by (simp_all add: m)
  then show "2 * weight_on (\<lambda>x. x < m) pts \<le> weight_of pts" "2 * weight_on (\<lambda>x. m < x) pts \<le> weight_of pts" by (simp_all add: k)
  from h(3) rng show "0 \<le> m" "m \<le> 100" by force+
qed

lemma median_majority:
  assumes "points_ok points priorPPM" "weight_of (counted points priorPPM) < 2 * weight_on (\<lambda>x. lo \<le> x \<and> x \<le> hi) (counted points priorPPM)"
  shows "lo \<le> median points priorPPM \<and> median points priorPPM \<le> hi"
proof -
  let ?m = "median points priorPPM" and ?pts = "counted points priorPPM"
  have pos: "\<forall>q\<in>set ?pts. 0 < pt_W q" using counted_ok by blast
  show ?thesis
  proof (rule ccontr)
    assume "\<not> ?thesis"
    then consider "?m < lo" | "hi < ?m" by linarith
    then show False
    proof cases
      case 1
      then have "weight_on (\<lambda>x. lo \<le> x \<and> x \<le> hi) ?pts \<le> weight_on (\<lambda>x. ?m < x) ?pts" using pos by (intro weight_on_mono) auto
      then show False using median_halves(2) [OF assms(1)] assms(2) by linarith
    next
      case 2
      then have "weight_on (\<lambda>x. lo \<le> x \<and> x \<le> hi) ?pts \<le> weight_on (\<lambda>x. x < ?m) ?pts" using pos by (intro weight_on_mono) auto
      then show False using median_halves(1) [OF assms(1)] assms(2) by linarith
    qed
  qed
qed

section \<open>Gains\<close>

lemma Gain_exact: "Gain x c0 cT False = 10000 * (\<bar>clamp_x c0 - clamp_x cT\<bar> - \<bar>clamp_x x - clamp_x cT\<bar>)"
  by (simp add: Gain_def Let_def scale_defs signed_divide_int_def sgn_if)

lemma Gain_coarse: "Gain x c0 cT True = 10000 * (sgn (Side (clamp_x x) - clamp_x c0) * (clamp_x cT - clamp_x c0))"
  by (simp add: Gain_def Let_def scale_defs signed_divide_int_def sgn_if)

lemma Gain_range: "\<bar>Gain x c0 cT coarse\<bar> \<le> 1000000"
proof (cases coarse)
  case True
  then show ?thesis using clamp_x_range [of c0] clamp_x_range [of cT] by (auto simp: Gain_coarse sgn_if)
next
  case False
  have "\<bar>\<bar>clamp_x c0 - clamp_x cT\<bar> - \<bar>clamp_x x - clamp_x cT\<bar>\<bar> \<le> 100"
    using clamp_x_range [of x] clamp_x_range [of c0] clamp_x_range [of cT] by linarith
  then have "\<bar>Gain x c0 cT False\<bar> \<le> 1000000" unfolding Gain_exact abs_mult by simp
  with False show ?thesis by simp
qed

section \<open>Weights\<close>

lemma Weight_bounds:
  assumes "v \<le> 1000000" "r \<le> 1000000" "d \<le> 1000000"
  shows "0 \<le> Weight e v r d \<and> Weight e v r d \<le> max 0 e"
proof -
  let ?a = "mulDiv (max 0 e) (max 0 v) 1000000"
  let ?b = "mulDiv ?a (max 0 r) 1000000"
  have "mulDiv ?b (max 0 d) 1000000 \<le> ?b" "?b \<le> ?a" "?a \<le> max 0 e" using assms by (intro mulDiv_le; simp)+
  then show ?thesis by (simp add: Weight_def Let_def MulDiv_mulDiv)
qed

end
