(* ===== verification/Judge_Props.thy ===== *)
theory Judge_Props
  imports Judge_Spec
begin

text \<open>What every reputation surface relies on of the consensus and of the gains.\<close>

text \<open>
  C19: the consensus is a weighted median of the judgements and the prior, and no minority moves it. At
  most half of the weight lies below it and at most half above. Where values between two bounds hold
  more than half of the weight, the consensus lies between them, whatever the other judges say.
\<close>

theorem consensus_resists:
  assumes "points_ok points (PriorPPM p points)"
  defines "c \<equiv> Consensus p points" and "pts \<equiv> counted points (PriorPPM p points)"
  shows "2 * weight_on (\<lambda>x. x < c) pts \<le> weight_of pts \<and> 2 * weight_on (\<lambda>x. c < x) pts \<le> weight_of pts \<and> 0 \<le> c \<and> c \<le> 100
    \<and> (\<forall>lo hi. weight_of pts < 2 * weight_on (\<lambda>x. lo \<le> x \<and> x \<le> hi) pts \<longrightarrow> lo \<le> c \<and> c \<le> hi)"
  using median_halves [OF assms(1)] median_majority [OF assms(1)] unfolding c_def pts_def Consensus_def by blast

definition three_judges :: "Point list" where
  "three_judges = [\<lparr>pt_X = 90, pt_W = 500000\<rparr>, \<lparr>pt_X = 80, pt_W = 400000\<rparr>, \<lparr>pt_X = 0, pt_W = 300000\<rparr>]"

lemma three_judges_prior: "PriorPPM Default_judge three_judges = 800000"
  by (simp add: three_judges_def PriorPPM_def priorOf_def weigh_def Default_judge_def PriorWeight_def satAdd_eq maxInt64_def MulDiv_mulDiv mulDiv_eq)

lemma three_judges_counted:
  "counted three_judges 800000 = [\<lparr>pt_X = 90, pt_W = 500000\<rparr>, \<lparr>pt_X = 80, pt_W = 400000\<rparr>, \<lparr>pt_X = 0, pt_W = 300000\<rparr>, \<lparr>pt_X = 50, pt_W = 800000\<rparr>]"
  by (simp add: three_judges_def counted_def clamp_x_def scale_defs)

theorem consensus_resists_witness:
  "50 \<le> Consensus Default_judge three_judges \<and> Consensus Default_judge three_judges \<le> 90"
proof -
  have "points_ok three_judges (PriorPPM Default_judge three_judges)"
    by (simp add: points_ok_def three_judges_prior three_judges_counted maxInt64_def)
  from consensus_resists [OF this] have
    "weight_of (counted three_judges 800000) < 2 * weight_on (\<lambda>x. 50 \<le> x \<and> x \<le> 90) (counted three_judges 800000)
      \<Longrightarrow> 50 \<le> Consensus Default_judge three_judges \<and> Consensus Default_judge three_judges \<le> 90"
    unfolding three_judges_prior by blast
  then show ?thesis by (simp add: three_judges_counted)
qed

lemma extend_perm: "mset a = mset b \<Longrightarrow> mset (if c \<or> a = [] then a @ [z] else a) = mset (if c \<or> b = [] then b @ [z] else b)"
  by (cases a; cases b) auto

text \<open>
  the median does not depend on the order of the judgements, nor on the order in which the sort,
  which is not stable, leaves equal values: any ascending arrangement of the counted points gives it.
\<close>

theorem median_any_order:
  assumes "points_ok points prior" "mset points' = mset points" "mset ys = mset (counted points' prior)" "sorted (map pt_X ys)"
  shows "median_loop (total_weight (merge_points ys)) 0 (merge_points ys) = median points prior"
proof -
  let ?pts = "counted points prior"
  let ?f = "\<lambda>q. \<lparr>pt_X = clamp_x (pt_X q), pt_W = pt_W q\<rparr>" and ?P = "\<lambda>q. pt_W q > 0"
  have eq: "mset (map ?f (filter ?P points')) = mset (map ?f (filter ?P points))" using assms(2) by simp
  then have "mset (counted points' prior) = mset ?pts" unfolding counted_def Let_def by (rule extend_perm)
  then have "mset ys = mset ?pts" using assms(3) by simp
  moreover have "weights_ok ?pts" using assms(1) counted_ok by (auto simp: weights_ok_def points_ok_def)
  ultimately have "merge_points ys = merge_points (sort_key pt_X ?pts)" using assms(4) by (intro merge_any_sort)
  then show ?thesis by (simp add: median_def Let_def)
qed

text \<open>
  a numeric judgement gains most by naming the later consensus. Saying the consensus it entered at
  gains nothing; what it gains it gains by being nearer, and the gain stays within minus one and one.
\<close>

theorem gain_truthful:
  "Gain x c0 cT False \<le> Gain cT c0 cT False \<and> Gain c0 c0 cT False = 0 \<and> \<bar>Gain x c0 cT coarse\<bar> \<le> 1000000
    \<and> (0 < Gain x c0 cT False \<longleftrightarrow> \<bar>clamp_x x - clamp_x cT\<bar> < \<bar>clamp_x c0 - clamp_x cT\<bar>)"
  using Gain_range by (auto simp: Gain_exact)

end
