(* ===== verification/Trust_Standing.thy ===== *)
theory Trust_Standing
  imports Judge Allowance Merkle Go_Text
begin

text \<open>
  The readings of a standing every consumer shares (\<open>internal/trust/standing.go\<close>): its band, its vote
  weight \<open>v(s)\<close> over the integer square root, the milestones above it and its texts; and the decay
  curves and the parameter record of \<open>params.go\<close>. \<open>StandingScore\<close>, a displayed
  logarithm in floating point, is not modelled. A map of the parameters is an association list.
\<close>

record ProofPrice =
  pr_Forge :: int
  pr_Rent :: int
  pr_Curve :: string
  pr_HalfLifeDays :: int
  pr_DayFactorPPM :: int
  pr_Assess :: string
  pr_UnitsPerCent :: int
  pr_AgeCents :: int
  pr_RankCents :: int
  pr_FallbackCents :: int

record Detectors =
  de_Version :: int
  de_FunnelK :: int
  de_FunnelDays :: int
  de_FunnelSpendPPM :: int
  de_RingMin :: int
  de_RingInsidePPM :: int

record Penalty =
  pe_BaseDays :: int
  pe_DurationFactor :: int
  pe_BackerFactor :: int
  pe_EscalationDays :: int
  pe_BackerEdgeDays :: int
  pe_MaxLevel :: int

record trust_Params =
  tp_Version :: int
  tp_Schema :: int
  tp_CollateralUnit :: string
  tp_GraceDays :: int
  tp_DormantHalfLifeDays :: int
  tp_DormantDayFactorPPM :: int
  tp_HalfLifeDays :: int
  tp_DayFactorPPM :: int
  tp_EvidenceWeightPPM :: "(string \<times> int) list"
  tp_UnitCents :: int
  tp_MinJudges :: int
  tp_Theta2Cents :: int
  tp_VFloorCents :: int
  tp_CRefCents :: int
  tp_NodeCapCents :: int
  tp_V0PPM :: int
  tp_PassSharePPM :: int
  tp_BreakerTrustDays :: "(string \<times> int) list"
  tp_Proofs :: "(string \<times> ProofPrice) list"
  tp_DomainSuffixes :: "string list"
  tp_ProofFreshDays :: int
  tp_DayPriceCents :: int
  tp_TimeCapCents :: int
  tp_CoarseX :: int
  tp_ActEvidence :: "(string \<times> string) list"
  tp_Detectors :: Detectors
  tp_Penalty :: Penalty
  tp_WindowDays :: int
  tp_NMax :: int
  tp_MaxWork :: int
  tp_MaxSeconds :: int

section \<open>Curves\<close>

text \<open>\<open>decayTable.at\<close>: one whole day at a time, rounded down; the table memoises these values.\<close>

definition decay_ppm :: "int \<Rightarrow> int \<Rightarrow> int" where
  "decay_ppm factor days = (if days \<le> 0 then 1000000 else ((\<lambda>v. v * factor sdiv 1000000) ^^ nat (min days 3650)) 1000000)"

definition ramp :: "int \<Rightarrow> int \<Rightarrow> int" where
  "ramp factor days = 1000000 - decay_ppm factor days"

section \<open>Bands\<close>

definition Band_of :: "trust_Params \<Rightarrow> int \<Rightarrow> Band" where
  "Band_of p cents = (if cents \<ge> tp_NodeCapCents p then BandTrusted else if cents \<ge> tp_Theta2Cents p then BandProven else BandSigned)"

definition BandFloorCents :: "trust_Params \<Rightarrow> Band \<Rightarrow> int" where
  "BandFloorCents p b = (if b = BandTrusted then tp_NodeCapCents p else if b = BandProven then tp_Theta2Cents p else 0)"

record Milestone =
  ms_Name :: string
  ms_Cents :: int
  ms_GapCents :: int

definition next_band_from :: "trust_Params \<Rightarrow> int \<Rightarrow> Band list \<Rightarrow> Milestone option" where
  "next_band_from p cents bs = map_option (\<lambda>b. \<lparr>ms_Name = Band_Name b, ms_Cents = BandFloorCents p b, ms_GapCents = BandFloorCents p b - max cents 0\<rparr>)
     (find (\<lambda>b. cents < BandFloorCents p b) bs)"

definition NextBand :: "trust_Params \<Rightarrow> int \<Rightarrow> Milestone option" where
  "NextBand p cents = next_band_from p cents [BandProven, BandTrusted]"

definition LadderCents :: "int list" where "LadderCents = [100, 300]"

definition NextLadderTier :: "int \<Rightarrow> Milestone option" where
  "NextLadderTier cents = map_option (\<lambda>i. \<lparr>ms_Name = ''tier '' @ FormatInt (int i + 1), ms_Cents = LadderCents ! i, ms_GapCents = LadderCents ! i - max cents 0\<rparr>)
     (find (\<lambda>i. cents < LadderCents ! i) [0..<length LadderCents])"

section \<open>Vote weights\<close>

text \<open>Newton's iteration on positive numbers: it goes down until it would not.\<close>

function isqrt_loop :: "nat \<Rightarrow> nat \<Rightarrow> nat" where
  "isqrt_loop n x = (let y = (x + n div x) div 2 in if y \<ge> x then x else isqrt_loop n y)"
  by pat_completeness auto
termination
  by (relation "measure snd") auto

declare isqrt_loop.simps [simp del]

definition isqrt :: "int \<Rightarrow> int" where
  "isqrt n = (if n \<le> 0 then 0 else int (isqrt_loop (nat n) (2 ^ ((Len64 (nat n) + 1) div 2))))"

definition VoteWeightPPM :: "int \<Rightarrow> int \<Rightarrow> int \<Rightarrow> int \<Rightarrow> int" where
  "VoteWeightPPM cents v0PPM cRefCents floorCents =
     (if cents \<le> 0 \<or> cRefCents \<le> 0 \<or> cents < floorCents then 0
      else let frac = (if cents < cRefCents then MulDiv cents 1000000 cRefCents else 1000000);
               root = isqrt (frac * 1000000)
           in v0PPM + MulDiv (1000000 - v0PPM) root 1000000)"

definition VoteWeight :: "trust_Params \<Rightarrow> int \<Rightarrow> int" where
  "VoteWeight p cents = VoteWeightPPM cents (tp_V0PPM p) (tp_CRefCents p) (tp_VFloorCents p)"

definition FlooredVoteWeight :: "trust_Params \<Rightarrow> bool \<Rightarrow> int \<Rightarrow> int" where
  "FlooredVoteWeight p seasoned cents = (if seasoned then 1000000 else VoteWeight p cents)"

section \<open>Independence and the share passed on\<close>

definition PublicIndependent :: "string \<Rightarrow> string \<Rightarrow> (string \<Rightarrow> string) \<Rightarrow> (string \<times> string) list \<Rightarrow> bool" where
  "PublicIndependent a b rootOf funded \<longleftrightarrow> a \<noteq> b \<and> rootOf a \<noteq> rootOf b \<and> (a, b) \<notin> set funded"

record ScoreOut =
  so_Account :: string
  so_Root :: string
  so_PassedCents :: int

text \<open>The maps \<open>passed\<close> and \<open>mine\<close>: the last score of a root counts, and a root is mine if one of its accounts is.\<close>

definition passed_of :: "ScoreOut list \<Rightarrow> string \<Rightarrow> int" where
  "passed_of scores root = (case find (\<lambda>s. so_Root s = root) (rev scores) of Some s \<Rightarrow> so_PassedCents s | None \<Rightarrow> 0)"

definition PassedSharePPM :: "ScoreOut list \<Rightarrow> string list \<Rightarrow> int" where
  "PassedSharePPM scores accounts =
     (let roots = remdups (map so_Root scores);
          mine = map so_Root (filter (\<lambda>s. so_Account s \<in> set accounts) scores);
          tot = sum_list (map (passed_of scores) roots);
          part = sum_list (map (passed_of scores) (filter (\<lambda>r. r \<in> set mine) roots))
      in if tot = 0 then 0 else MulDiv part 1000000 tot)"

section \<open>Texts\<close>

definition groupThousands :: "int \<Rightarrow> string" where
  "groupThousands n =
     (let s = FormatInt n in
      concat (map (\<lambda>i. (if i > 0 \<and> (length s - i) mod 3 = 0 then '','' else []) @ [s ! i]) [0..<length s]))"

definition CentsText :: "int \<Rightarrow> string" where
  "CentsText cents = (if cents < 0 then ''-'' @ groupThousands (- cents) else groupThousands cents) @ [CHR 0xC2, CHR 0xA2]"

definition DollarText :: "int \<Rightarrow> string" where
  "DollarText cents =
     (let d = cents sdiv 100; c = cents smod 100; s = FormatInt c; s' = (if c < 10 then ''0'' @ s else s) in
      ''$'' @ groupThousands d @ ''.'' @ s')"

definition FakeCostText :: "int \<Rightarrow> string" where
  "FakeCostText cents = ''about '' @ DollarText cents @ '' to fake''"

section \<open>The square root\<close>

lemma four_times_le: "4 * (a * b) \<le> (a + b) ^ 2" for a b :: nat
proof -
  have "0 \<le> (int a - int b) ^ 2" by simp
  then have "int (4 * (a * b)) \<le> int ((a + b) ^ 2)" by (simp add: power2_eq_square algebra_simps)
  then show ?thesis by (simp only: of_nat_le_iff)
qed

lemma newton_step:
  fixes n x :: nat
  assumes "0 < x"
  shows "n < ((x + n div x) div 2 + 1) ^ 2"
proof -
  let ?q = "n div x" and ?y = "(x + n div x) div 2"
  have "x + ?q \<le> 2 * ?y + 1" by linarith
  then have le: "x + (?q + 1) \<le> 2 * (?y + 1)" by simp
  have "n < x * (?q + 1)" using dividend_less_times_div [OF assms, of n] by (simp add: algebra_simps)
  moreover have "4 * (x * (?q + 1)) \<le> (x + (?q + 1)) ^ 2" by (rule four_times_le)
  moreover have "(x + (?q + 1)) ^ 2 \<le> (2 * (?y + 1)) ^ 2" using le by (rule power_mono) simp
  moreover have "(2 * (?y + 1)) ^ 2 = 4 * (?y + 1) ^ 2" by (simp add: power2_eq_square)
  ultimately show ?thesis by linarith
qed

lemma isqrt_loop_floor:
  "0 < x \<Longrightarrow> 0 < n \<Longrightarrow> n < (x + 1) ^ 2 \<Longrightarrow> (isqrt_loop n x) ^ 2 \<le> n \<and> n < (isqrt_loop n x + 1) ^ 2"
proof (induction n x rule: isqrt_loop.induct)
  case (1 n x)
  let ?y = "(x + n div x) div 2"
  show ?case
  proof (cases "?y \<ge> x")
    case True
    then have "x \<le> n div x" by linarith
    then have "x * x \<le> n" using 1(2) by (simp add: less_eq_div_iff_mult_less_eq)
    then show ?thesis using True 1(4) by (subst (1 2) isqrt_loop.simps) (simp add: Let_def power2_eq_square)
  next
    case False
    have "0 < ?y"
    proof (rule ccontr)
      assume "\<not> 0 < ?y"
      then have "x + n div x \<le> 1" by simp
      then have "x = 1" "n div x = 0" using 1(2) by auto
      then show False using 1(3) by simp
    qed
    from 1(1) [OF refl False this 1(3) newton_step [OF 1(2)]] False show ?thesis
      by (subst (1 2) isqrt_loop.simps) (simp add: Let_def)
  qed
qed

lemma isqrt_floor: "0 \<le> n \<Longrightarrow> (isqrt n) ^ 2 \<le> n \<and> n < (isqrt n + 1) ^ 2 \<and> 0 \<le> isqrt n"
proof (cases "n = 0")
  case False
  assume "0 \<le> n"
  with False have n: "0 < nat n" "int (nat n) = n" by auto
  let ?L = "Len64 (nat n)" and ?k = "(Len64 (nat n) + 1) div 2"
  have "nat n < 2 ^ ?L" using Len64_bounds [OF n(1)] by simp
  also have "(2::nat) ^ ?L \<le> 2 ^ (?k * 2)" by (rule power_increasing) linarith+
  also have "\<dots> = (2 ^ ?k) ^ 2" by (simp add: power_mult)
  also have "\<dots> \<le> (2 ^ ?k + 1) ^ 2" by (rule power_mono) simp_all
  finally have "nat n < (2 ^ ?k + 1) ^ 2" .
  from isqrt_loop_floor [OF _ n(1) this]
  have r: "(isqrt_loop (nat n) (2 ^ ?k)) ^ 2 \<le> nat n" "nat n < (isqrt_loop (nat n) (2 ^ ?k) + 1) ^ 2" by simp_all
  have "int ((isqrt_loop (nat n) (2 ^ ?k)) ^ 2) \<le> int (nat n)" "int (nat n) < int ((isqrt_loop (nat n) (2 ^ ?k) + 1) ^ 2)"
    using r by (simp_all only: of_nat_le_iff of_nat_less_iff)
  then show ?thesis using n False \<open>0 \<le> n\<close> by (simp add: isqrt_def add.commute)
qed (simp add: isqrt_def)

lemma isqrt_le: "0 \<le> n \<Longrightarrow> 0 \<le> r \<Longrightarrow> n \<le> r ^ 2 \<Longrightarrow> isqrt n \<le> r"
  using isqrt_floor [of n] power2_le_imp_le [of "isqrt n" r] by linarith

lemma isqrt_mono: "0 \<le> m \<Longrightarrow> m \<le> n \<Longrightarrow> isqrt m \<le> isqrt n"
proof -
  assume "0 \<le> m" "m \<le> n"
  then have "isqrt m ^ 2 < (isqrt n + 1) ^ 2" "0 \<le> isqrt n" using isqrt_floor [of m] isqrt_floor [of n] by auto
  then show ?thesis using power2_less_imp_less [of "isqrt m" "isqrt n + 1"] by linarith
qed

section \<open>Vote weights are between nothing and a whole vote\<close>

definition frac_ppm :: "int \<Rightarrow> int \<Rightarrow> int" where
  "frac_ppm cents cRefCents = (if cents < cRefCents then MulDiv cents 1000000 cRefCents else 1000000)"

lemma frac_ppm_bounds: "0 < cents \<Longrightarrow> 0 < cRef \<Longrightarrow> 0 \<le> frac_ppm cents cRef \<and> frac_ppm cents cRef \<le> 1000000"
proof -
  assume "0 < cents" "0 < cRef"
  have "cents * 1000000 div cRef \<le> cRef * 1000000 div cRef" if "cents < cRef" using that \<open>0 < cRef\<close> by (intro zdiv_mono1) auto
  then show ?thesis using \<open>0 < cRef\<close> using mulDiv_nonneg [of cents 1000000 cRef] by (auto simp: frac_ppm_def MulDiv_mulDiv) (auto simp: mulDiv_eq min_def)
qed

lemma frac_ppm_mono: "0 < c \<Longrightarrow> 0 < cRef \<Longrightarrow> c \<le> c' \<Longrightarrow> frac_ppm c cRef \<le> frac_ppm c' cRef"
  using frac_ppm_bounds [of c cRef] by (auto simp: frac_ppm_def MulDiv_mulDiv mulDiv_mono)

lemma VoteWeightPPM_eq:
  "0 < cents \<Longrightarrow> 0 < cRef \<Longrightarrow> fl \<le> cents \<Longrightarrow> VoteWeightPPM cents v0 cRef fl = v0 + mulDiv (1000000 - v0) (isqrt (frac_ppm cents cRef * 1000000)) 1000000"
  by (simp add: VoteWeightPPM_def frac_ppm_def Let_def MulDiv_mulDiv)

lemma vote_root: "0 < cents \<Longrightarrow> 0 < cRef \<Longrightarrow> 0 \<le> isqrt (frac_ppm cents cRef * 1000000) \<and> isqrt (frac_ppm cents cRef * 1000000) \<le> 1000000"
  using frac_ppm_bounds [of cents cRef] isqrt_floor [of "frac_ppm cents cRef * 1000000"] isqrt_le [of "frac_ppm cents cRef * 1000000" 1000000]
  by simp

lemma VoteWeightPPM_bounds:
  assumes "0 \<le> v0" "v0 \<le> 1000000"
  shows "0 \<le> VoteWeightPPM cents v0 cRef fl \<and> VoteWeightPPM cents v0 cRef fl \<le> 1000000"
proof (cases "cents \<le> 0 \<or> cRef \<le> 0 \<or> cents < fl")
  case True
  then show ?thesis by (auto simp: VoteWeightPPM_def)
next
  case False
  then have "mulDiv (1000000 - v0) (isqrt (frac_ppm cents cRef * 1000000)) 1000000 \<le> 1000000 - v0" using assms vote_root [of cents cRef] by (intro mulDiv_le) auto
  moreover have "VoteWeightPPM cents v0 cRef fl = v0 + mulDiv (1000000 - v0) (isqrt (frac_ppm cents cRef * 1000000)) 1000000"
    using False by (intro VoteWeightPPM_eq) auto
  ultimately show ?thesis using assms by simp
qed

lemma VoteWeightPPM_mono:
  assumes "0 \<le> v0" "v0 \<le> 1000000" "c \<le> c'"
  shows "VoteWeightPPM c v0 cRef fl \<le> VoteWeightPPM c' v0 cRef fl"
proof (cases "c \<le> 0 \<or> cRef \<le> 0 \<or> c < fl")
  case True
  then show ?thesis using VoteWeightPPM_bounds [OF assms(1,2), of c' cRef fl] by (auto simp: VoteWeightPPM_def)
next
  case False
  with assms(3) have "0 < c" "0 < cRef" "fl \<le> c" "0 < c'" "fl \<le> c'" by auto
  moreover from this have "isqrt (frac_ppm c cRef * 1000000) \<le> isqrt (frac_ppm c' cRef * 1000000)"
    using frac_ppm_mono [of c cRef c'] frac_ppm_bounds [of c cRef] assms(3) by (intro isqrt_mono) auto
  ultimately show ?thesis using assms by (simp add: VoteWeightPPM_eq mulDiv_mono)
qed

section \<open>Bands and milestones\<close>

lemma Band_floor:
  assumes "tp_Theta2Cents p \<le> tp_NodeCapCents p" "b \<in> {BandProven, BandTrusted}"
  shows "b \<le> Band_of p cents \<longleftrightarrow> BandFloorCents p b \<le> cents"
  using assms by (auto simp: Band_of_def BandFloorCents_def band_defs)

lemma filter_commas:
  "\<forall>i\<in>set xs. f i \<noteq> z \<Longrightarrow> filter (\<lambda>c. c \<noteq> z) (concat (map (\<lambda>i. (if b i then [z] else []) @ [f i]) xs)) = map f xs"
  by (induction xs) auto

lemma groupThousands_digits: "filter (\<lambda>c. c \<noteq> CHR '','') (groupThousands n) = FormatInt n"
proof -
  have "c \<noteq> CHR '',''" if "c \<in> set (FormatInt n)" for c
  proof
    assume c: "c = CHR '',''"
    then have "byte c = 44" by (simp add: byte_def)
    moreover have "c \<in> set (format_nat 10 (nat (- n))) \<or> c \<in> set (format_nat 10 (nat n))" using that c by (auto simp: FormatInt_def split: if_splits)
    ultimately show False using format_nat_chars [of 10 c] by fastforce
  qed
  then show ?thesis unfolding groupThousands_def Let_def by (subst filter_commas) (auto simp: map_nth)
qed

lemma DollarText_negative: "DollarText (- 150) = ''$-1.0-50''"
proof -
  have one: "FormatInt (- 1) = ''-1''" by (simp add: FormatInt_def format_nat.simps [of 10 "Suc 0"] digit_char_def char_of_eq_iff)
  have fifty: "FormatInt (- 50) = ''-50''"
    by (simp add: FormatInt_def format_nat.simps [of 10 50] format_nat.simps [of 10 5] digit_char_def char_of_eq_iff)
  have "(- 150 :: int) sdiv 100 = - 1" "(- 150 :: int) smod 100 = - 50" by (simp_all add: signed_divide_int_def signed_modulo_int_def)
  then show ?thesis by (simp add: DollarText_def groupThousands_def one fifty upt_rec Let_def)
qed

end
