(* ===== verification/Trust_Graph.thy ===== *)
theory Trust_Graph
  imports Trust_Standing Maxflow "HOL-Library.List_Lexorder" "HOL-Library.Char_ord"
begin

text \<open>
  The flow graph of a trust run (\<open>internal/trust/graph.go\<close>): its nodes from the accounts and what they
  paid, its judgement edges, the pass shares, the levels of the progressive filling, the flow itself
  over \<open>Maxflow\<close> and a viewer's reading of it. Amounts are thousandths of a cent. Of a run
  (\<open>compute.go\<close>) the record has what the graph reads; the judgement set is its subjects in order with
  their owners and entries, \<open>member\<close> and \<open>liable\<close> are the active penalties by root.
\<close>

section \<open>Data\<close>

definition mc :: int where "mc = 1000"

definition day_seconds :: int where "day_seconds = 86400"

definition dayOf :: "int \<Rightarrow> int" where
  "dayOf t = (if t < 0 then - ((- t + day_seconds - 1) sdiv day_seconds) else t sdiv day_seconds)"

record recentEdge =
  re_author :: string
  re_dst :: nat
  re_cap :: int
  re_at :: int

record Graph =
  gr_Labels :: "string list"
  gr_RootOf :: "(string \<times> string) list"
  gr_World :: "int list"
  gr_Cap :: "int list"
  gr_Src :: "nat list"
  gr_Dst :: "nat list"
  gr_EdgeCap :: "int list"
  gr_Pass :: "int list option"
  gr_Levels :: "int list"
  gr_MaxWork :: int
  gr_Index :: "(string \<times> nat) list"
  gr_recent :: "recentEdge list"

record trust_run =
  rn_p :: trust_Params
  rn_asOf :: int
  rn_D :: int
  rn_accounts :: "string list"
  rn_rootOf :: "string \<Rightarrow> string"

record jEntry =
  en_j :: Judgement
  en_withdraw :: bool
  en_closeIdx :: int

record judgementSet =
  js_subjects :: "string list"
  js_bySubject :: "string \<Rightarrow> jEntry list"
  js_owners :: "string \<Rightarrow> string list"

section \<open>Levels\<close>

definition add_level :: "int list \<Rightarrow> int \<Rightarrow> int list" where
  "add_level out l = (if l > 0 \<and> (out = [] \<or> l > last out) then out @ [l] else out)"

definition flowLevels :: "int \<Rightarrow> int \<Rightarrow> int list" where
  "flowLevels U nodeCap = foldl (\<lambda>out l. add_level out (min l nodeCap)) [] [U sdiv 8, U sdiv 4, U sdiv 2, U, 2 * U, nodeCap]"

definition passFlowLevels :: "int \<Rightarrow> int \<Rightarrow> int list" where
  "passFlowLevels U nodeCap =
     (let out = foldl (\<lambda>out l. add_level out (min l nodeCap)) [] [U sdiv 64, U sdiv 32, U sdiv 16] in
      foldl (\<lambda>out l. if out = [] \<or> l > last out then out @ [l] else out) out (flowLevels U nodeCap))"

section \<open>Nodes\<close>

definition newGraph :: "trust_run \<Rightarrow> (string \<Rightarrow> int) \<Rightarrow> (string \<Rightarrow> bool) \<Rightarrow> (string \<Rightarrow> int option) \<Rightarrow> Graph" where
  "newGraph r worldMC member liable =
     (let p = rn_p r;
          roots = map (rn_rootOf r) (rn_accounts r);
          world = (\<lambda>root. sum_list (map worldMC (filter (\<lambda>a. rn_rootOf r a = root) (rn_accounts r))));
          labels = sort (remdups roots);
          nodeCap = tp_NodeCapCents p * mc;
          keep = (\<lambda>root x. if member root then 0 else case liable root of Some f \<Rightarrow> MulDiv x (1000000 - f) 1000000 | None \<Rightarrow> x)
      in \<lparr>gr_Labels = labels, gr_RootOf = zip (rn_accounts r) roots, gr_World = map (\<lambda>root. keep root (world root)) labels,
          gr_Cap = map (\<lambda>root. keep root nodeCap) labels, gr_Src = [], gr_Dst = [], gr_EdgeCap = [], gr_Pass = None,
          gr_Levels = (if tp_PassSharePPM p > 0 then passFlowLevels (tp_UnitCents p * mc) nodeCap else flowLevels (tp_UnitCents p * mc) nodeCap),
          gr_MaxWork = tp_MaxWork p, gr_Index = zip labels [0..<length labels], gr_recent = []\<rparr>)"

section \<open>Judgement edges\<close>

definition JudgementEvidencePPM :: "trust_Params \<Rightarrow> string \<Rightarrow> string \<Rightarrow> int" where
  "JudgementEvidencePPM p act cls =
     (let c = (if act \<noteq> ''review'' then (case map_of (tp_ActEvidence p) act of Some x \<Rightarrow> x | None \<Rightarrow> '''') else cls) in
      case map_of (tp_EvidenceWeightPPM p) c of Some w \<Rightarrow> w | None \<Rightarrow> 0)"

definition evidencePPM :: "trust_Params \<Rightarrow> Judgement \<Rightarrow> int" where
  "evidencePPM p j = JudgementEvidencePPM p (jd_Act j) (jd_Evidence j)"

definition sortedOwners :: "judgementSet \<Rightarrow> string \<Rightarrow> string list" where
  "sortedOwners js subject = sort (remdups (js_owners js subject))"

definition edge_targets :: "Graph \<Rightarrow> trust_run \<Rightarrow> judgementSet \<Rightarrow> (string \<Rightarrow> bool) \<Rightarrow> string \<Rightarrow> nat list" where
  "edge_targets g r js member s =
     sort (remdups (List.map_filter (\<lambda>w. let root = rn_rootOf r w in if member root then None else map_of (gr_Index g) root) (sortedOwners js s)))"

text \<open>What one entry of a subject adds: its source, its targets and each target's share.\<close>

definition entry_edges :: "Graph \<Rightarrow> trust_run \<Rightarrow> (string \<Rightarrow> int) \<Rightarrow> (string \<Rightarrow> bool) \<Rightarrow> nat list \<Rightarrow> jEntry \<Rightarrow> ((nat \<times> nat) \<times> int \<times> recentEdge) list" where
  "entry_edges g r acc member dsts e =
     (let p = rn_p r; U = tp_UnitCents p * mc; j = en_j e; strength = EdgePPM j (tp_CoarseX p); srcRoot = rn_rootOf r (jd_Author j) in
      if en_withdraw e \<or> en_closeIdx e \<ge> 0 then []
      else if strength \<le> 0 then []
      else case map_of (gr_Index g) srcRoot of
        None \<Rightarrow> []
      | Some src \<Rightarrow>
        if member srcRoot then []
        else let to = filter (\<lambda>d. d \<noteq> src) dsts in
          if to = [] then []
          else let c1 = MulDiv U strength 1000000;
                   c2 = MulDiv c1 (evidencePPM p j) 1000000;
                   c3 = MulDiv c2 (RelationshipPPM (jd_Relationship j)) 1000000;
                   c4 = MulDiv c3 (decay_ppm (tp_DayFactorPPM p) (rn_D r - dayOf (jd_At j))) 1000000;
                   c5 = MulDiv c4 (acc (jd_Author j)) 1000000;
                   share = c5 sdiv int (length to)
               in if share \<le> 0 then []
                  else map (\<lambda>d. ((src, d), share, \<lparr>re_author = jd_Author j, re_dst = d, re_cap = share, re_at = jd_At j\<rparr>)) to)"

definition all_edges :: "Graph \<Rightarrow> trust_run \<Rightarrow> judgementSet \<Rightarrow> (string \<Rightarrow> int) \<Rightarrow> (string \<Rightarrow> bool) \<Rightarrow> ((nat \<times> nat) \<times> int \<times> recentEdge) list" where
  "all_edges g r js acc member =
     concat (map (\<lambda>s. concat (map (entry_edges g r acc member (edge_targets g r js member s)) (js_bySubject js s))) (js_subjects js))"

definition setPass :: "int \<Rightarrow> Graph \<Rightarrow> Graph" where
  "setPass passPPM g =
     (if passPPM \<le> 0 then g\<lparr>gr_Pass := None\<rparr>
      else let n = length (gr_Labels g);
               out = foldl (\<lambda>out k. let s = gr_Src g ! k in out[s := min (out ! s + gr_EdgeCap g ! k) (2 ^ 60)]) (replicate n 0) [0..<length (gr_Src g)]
           in g\<lparr>gr_Pass := Some (map (\<lambda>i. let keep = min (gr_World g ! i) (gr_Cap g ! i); surplus = gr_World g ! i - keep in
                min (max 0 (MulDiv keep passPPM 1000000 - surplus)) (max 0 (out ! i - surplus))) [0..<n])\<rparr>)"

definition setEdges :: "trust_run \<Rightarrow> judgementSet \<Rightarrow> (string \<Rightarrow> int) \<Rightarrow> (string \<Rightarrow> bool) \<Rightarrow> (string \<Rightarrow> int option) \<Rightarrow> Graph \<Rightarrow> Graph" where
  "setEdges r js acc member liable g =
     (let p = rn_p r;
          from = rn_asOf r - pe_BackerEdgeDays (tp_Penalty p) * day_seconds;
          es = all_edges g r js acc member;
          keys = sort (remdups (map fst es));
          total_of = (\<lambda>k. sum_list (map (fst \<circ> snd) (filter (\<lambda>e. fst e = k) es)));
          cap_of = (\<lambda>k. case liable (gr_Labels g ! fst k) of Some f \<Rightarrow> MulDiv (total_of k) (1000000 - f) 1000000 | None \<Rightarrow> total_of k);
          kept = filter (\<lambda>k. cap_of k > 0) keys
      in setPass (tp_PassSharePPM p) (g\<lparr>gr_recent := filter (\<lambda>w. re_at w \<ge> from) (map (snd \<circ> snd) es),
           gr_Src := map fst kept, gr_Dst := map snd kept, gr_EdgeCap := map cap_of kept\<rparr>))"

section \<open>The flow\<close>

record flowResult =
  fr_Standing :: "int list"
  fr_Own :: "int list"
  fr_Passed :: "int list"
  fr_edge :: "int list"
  fr_work :: int

definition world_of :: "Graph \<Rightarrow> int list option \<Rightarrow> nat \<Rightarrow> int" where
  "world_of g extra i = gr_World g ! i + (case extra of Some xs \<Rightarrow> xs ! i | None \<Rightarrow> 0)"

definition own_of :: "Graph \<Rightarrow> int list option \<Rightarrow> nat \<Rightarrow> int" where
  "own_of g extra i = min (world_of g extra i) (gr_Cap g ! i) - (case gr_Pass g of Some ps \<Rightarrow> ps ! i | None \<Rightarrow> 0)"

text \<open>Source edges of the nodes with something to offer, the judgement edges, the sinks: each loop adds its edges and keeps their ids.\<close>

definition add_sources :: "Graph \<Rightarrow> int list option \<Rightarrow> network \<Rightarrow> nat option list \<times> network" where
  "add_sources g extra net = foldl (\<lambda>(ids, net) i. let rest = world_of g extra i - own_of g extra i in
     if rest > 0 then (case add_edge net (length (gr_Labels g)) i rest of (e, net') \<Rightarrow> (ids @ [Some e], net')) else (ids @ [None], net))
     ([], net) [0..<length (gr_Labels g)]"

definition add_judgements :: "Graph \<Rightarrow> network \<Rightarrow> nat list \<times> network" where
  "add_judgements g net = foldl (\<lambda>(ids, net) k. case add_edge net (gr_Src g ! k) (gr_Dst g ! k) (gr_EdgeCap g ! k) of (e, net') \<Rightarrow> (ids @ [e], net'))
     ([], net) [0..<length (gr_Src g)]"

definition add_sinks :: "Graph \<Rightarrow> network \<Rightarrow> nat list \<times> network" where
  "add_sinks g net = foldl (\<lambda>(ids, net) i. case add_edge net i (length (gr_Labels g) + 1) 0 of (e, net') \<Rightarrow> (ids @ [e], net'))
     ([], net) [0..<length (gr_Labels g)]"

text \<open>One level raises the sinks from what they were set to, then fills them.\<close>

definition want_of :: "Graph \<Rightarrow> int list option \<Rightarrow> int \<Rightarrow> nat \<Rightarrow> int" where
  "want_of g extra L i = max 0 (min L (gr_Cap g ! i) - own_of g extra i)"

definition raise_sinks :: "Graph \<Rightarrow> int list option \<Rightarrow> nat list \<Rightarrow> int \<Rightarrow> int list \<Rightarrow> network \<Rightarrow> network" where
  "raise_sinks g extra sinks L st net = foldl (\<lambda>net i.
     net\<lparr>nw_cap := (nw_cap net)[sinks ! i := nw_cap net ! (sinks ! i) + (want_of g extra L i - st ! i)]\<rparr>) net [0..<length (gr_Labels g)]"

fun fill_levels :: "(int \<Rightarrow> bool) \<Rightarrow> Graph \<Rightarrow> int list option \<Rightarrow> nat list \<Rightarrow> int list \<Rightarrow> int list \<Rightarrow> network \<Rightarrow> ((flow_err + unit) \<times> network) option" where
  "fill_levels ctx g extra sinks [] st net = Some (Inr (), net)"
| "fill_levels ctx g extra sinks (L # Ls) st net =
     (case maxflow ctx (length (gr_Labels g)) (length (gr_Labels g) + 1) (raise_sinks g extra sinks L st net) of
        None \<Rightarrow> None
      | Some (Inl e, net') \<Rightarrow> Some (Inl e, net')
      | Some (Inr _, net') \<Rightarrow> fill_levels ctx g extra sinks Ls (map (want_of g extra L) [0..<length (gr_Labels g)]) net')"

text \<open>What a node kept of its offer, and passed on.\<close>

definition passed_on :: "nat option list \<Rightarrow> network \<Rightarrow> nat \<Rightarrow> int" where
  "passed_on ins net i = (case ins ! i of Some e \<Rightarrow> flowOn net e | None \<Rightarrow> 0)"

definition kept_of :: "Graph \<Rightarrow> nat option list \<Rightarrow> nat list \<Rightarrow> network \<Rightarrow> nat \<Rightarrow> int" where
  "kept_of g ins sinks net i = (case gr_Pass g of
       Some ps \<Rightarrow> if ps ! i > 0 then min (min (passed_on ins net i) (flowOn net (sinks ! i))) (ps ! i) else 0
     | None \<Rightarrow> 0)"

definition flow :: "(int \<Rightarrow> bool) \<Rightarrow> Graph \<Rightarrow> int list option \<Rightarrow> int \<Rightarrow> int \<Rightarrow> (flowResult \<times> flow_err option) option" where
  "flow ctx g extra maxWork wrk =
     (let n = length (gr_Labels g);
          none = \<lparr>fr_Standing = replicate n 0, fr_Own = replicate n 0, fr_Passed = replicate n 0, fr_edge = replicate (length (gr_Src g)) 0, fr_work = wrk\<rparr>
      in if n = 0 then Some (none, None)
      else let (ins, net1) = add_sources g extra (newNetwork (n + 2) maxWork wrk);
               (ids, net2) = add_judgements g net1;
               (sinks, net3) = add_sinks g net2
           in case fill_levels ctx g extra sinks (gr_Levels g) (replicate n 0) net3 of
                None \<Rightarrow> None
              | Some (Inl e, net) \<Rightarrow> Some (none\<lparr>fr_Own := map (own_of g extra) [0..<n], fr_work := nw_work net\<rparr>, Some e)
              | Some (Inr _, net) \<Rightarrow> Some (\<lparr>fr_Standing = map (\<lambda>i. own_of g extra i + flowOn net (sinks ! i)) [0..<n],
                  fr_Own = map (\<lambda>i. own_of g extra i + kept_of g ins sinks net i) [0..<n],
                  fr_Passed = map (\<lambda>i. passed_on ins net i - kept_of g ins sinks net i) [0..<n],
                  fr_edge = map (flowOn net) ids, fr_work = nw_work net\<rparr>, None))"

section \<open>Readings\<close>

record nodeFlow =
  nf_other :: nat
  nf_cap :: int
  nf_flow :: int

definition edgeFlows :: "Graph \<Rightarrow> flowResult \<Rightarrow> nodeFlow list list \<times> nodeFlow list list" where
  "edgeFlows g res =
     (let n = length (gr_Labels g); ks = [0..<length (gr_Src g)] in
      (map (\<lambda>d. map (\<lambda>k. \<lparr>nf_other = gr_Src g ! k, nf_cap = gr_EdgeCap g ! k, nf_flow = fr_edge res ! k\<rparr>) (filter (\<lambda>k. gr_Dst g ! k = d) ks)) [0..<n],
       map (\<lambda>s. map (\<lambda>k. \<lparr>nf_other = gr_Dst g ! k, nf_cap = gr_EdgeCap g ! k, nf_flow = fr_edge res ! k\<rparr>) (filter (\<lambda>k. gr_Src g ! k = s) ks)) [0..<n]))"

definition FlowPartsMax :: nat where "FlowPartsMax = 20"

record FlowPart =
  fp_Root :: string
  fp_CapCents :: int
  fp_Cents :: int

definition topFlows :: "nodeFlow list \<Rightarrow> Graph \<Rightarrow> FlowPart list \<times> int" where
  "topFlows list g =
     (let srt = sort_key (\<lambda>f. (- nf_flow f, - nf_cap f, gr_Labels g ! nf_other f)) list in
      (map (\<lambda>f. \<lparr>fp_Root = gr_Labels g ! nf_other f, fp_CapCents = nf_cap f sdiv mc, fp_Cents = nf_flow f sdiv mc\<rparr>) (take FlowPartsMax srt), int (length list)))"

definition root_label :: "Graph \<Rightarrow> string \<Rightarrow> string" where
  "root_label g a = (case map_of (gr_RootOf g) a of Some r \<Rightarrow> r | None \<Rightarrow> '''')"

definition recentCapInto :: "Graph \<Rightarrow> string list \<Rightarrow> int \<Rightarrow> string \<Rightarrow> int option" where
  "recentCapInto g roots from a =
     (let es = filter (\<lambda>w. re_author w = a \<and> re_at w \<ge> from \<and> gr_Labels g ! re_dst w \<in> set roots \<and> root_label g (re_author w) \<notin> set roots) (gr_recent g) in
      if es = [] then None else Some (sum_list (map re_cap es)))"

record BackerAtRisk =
  bk_Root :: string
  bk_FractionPPM :: int
  bk_Cents :: int

record BurnPreview =
  bp_OwnCents :: int
  bp_ProofRoots :: "string list"
  bp_Backers :: "BackerAtRisk list"

definition burnPreview :: "Graph \<Rightarrow> nat \<Rightarrow> flowResult \<Rightarrow> trust_run \<Rightarrow> (string \<Rightarrow> string list) \<Rightarrow> int \<Rightarrow> BurnPreview" where
  "burnPreview g i res r proofRootsOf U =
     (let from = rn_asOf r - pe_BackerEdgeDays (tp_Penalty (rn_p r)) * day_seconds;
          roots = sort (remdups (concat (map proofRootsOf (filter (\<lambda>a. root_label g a = gr_Labels g ! i) (rn_accounts r)))));
          into = List.map_filter (\<lambda>w. if re_dst w = i \<and> re_at w \<ge> from then
                   (case map_of (gr_Index g) (root_label g (re_author w)) of Some j \<Rightarrow> if j \<noteq> i then Some (j, re_cap w) else None | None \<Rightarrow> None)
                 else None) (gr_recent g);
          cap_of = (\<lambda>j. sum_list (map snd (filter (\<lambda>e. fst e = j) into)));
          backers = map (\<lambda>j. let f = MulDiv (cap_of j) 1000000 (cap_of j + U) in
                   \<lparr>bk_Root = gr_Labels g ! j, bk_FractionPPM = f, bk_Cents = MulDiv (fr_Standing res ! j) f 1000000 sdiv mc\<rparr>) (remdups (map fst into))
      in \<lparr>bp_OwnCents = gr_World g ! i sdiv mc, bp_ProofRoots = roots,
          bp_Backers = take FlowPartsMax (sort_key (\<lambda>b. (- bk_Cents b, bk_Root b)) backers)\<rparr>)"

definition Reindex :: "Graph \<Rightarrow> Graph" where
  "Reindex g = g\<lparr>gr_Index := rev (zip (gr_Labels g) [0..<length (gr_Labels g)])\<rparr>"

text \<open>The viewer's own root emits its cap and its edges' capacity besides; \<open>None\<close> inside is a viewer without a root.\<close>

definition viewer_extra :: "Graph \<Rightarrow> nat \<Rightarrow> int list" where
  "viewer_extra g v = (replicate (length (gr_Labels g)) 0)[v := gr_Cap g ! v
     + sum_list (map (\<lambda>k. gr_EdgeCap g ! k) (filter (\<lambda>k. gr_Src g ! k = v) [0..<length (gr_Src g)]))]"

definition ViewerStanding :: "(int \<Rightarrow> bool) \<Rightarrow> Graph \<Rightarrow> string \<Rightarrow> (flow_err + (string \<times> int) list option) option" where
  "ViewerStanding ctx g viewer =
     (case map_of (gr_RootOf g) viewer of
        None \<Rightarrow> Some (Inr None)
      | Some root \<Rightarrow>
        let v = (case map_of (gr_Index g) root of Some i \<Rightarrow> i | None \<Rightarrow> 0) in
        case flow ctx g (Some (viewer_extra g v)) (gr_MaxWork g) 0 of
          None \<Rightarrow> None
        | Some (res, Some e) \<Rightarrow> Some (Inl e)
        | Some (res, None) \<Rightarrow> Some (Inr (Some (map (\<lambda>i. (gr_Labels g ! i, fr_Standing res ! i sdiv mc)) [0..<length (gr_Labels g)]))))"

end
