(* ===== verification/Trust_Graph_Spec.thy ===== *)
theory Trust_Graph_Spec
  imports Trust_Graph Maxflow_Spec
begin

text \<open>
  The flow of a trust graph. The network the three loops build is one list of edges, with the ids the
  code keeps as positions in it; raising the sinks is building the same network with larger sinks; and
  what reaches the sinks is what left the source.
\<close>

section \<open>Networks as lists of edges\<close>

lemma nw_to_build: "nw_to (build n mw w xs) = concat (map (\<lambda>(u, v, c). [v, u]) xs)"
  by (induction xs rule: rev_induct) (auto simp: newNetwork_def add_edge_def Let_def)

lemma nw_cap_build: "nw_cap (build n mw w xs) = concat (map (\<lambda>(u, v, c). [c, 0]) xs)"
  by (induction xs rule: rev_induct) (auto simp: newNetwork_def add_edge_def Let_def)

lemma length_pairs: "length (concat (map (\<lambda>(u, v, c). [f u v c, h u v c]) xs)) = 2 * length xs"
  by (induction xs) auto

lemma nth_pairs:
  "k < length xs \<Longrightarrow> concat (map (\<lambda>(u, v, c). [f u v c, h u v c]) xs) ! (2 * k) = (case xs ! k of (u, v, c) \<Rightarrow> f u v c)
     \<and> concat (map (\<lambda>(u, v, c). [f u v c, h u v c]) xs) ! (2 * k + 1) = (case xs ! k of (u, v, c) \<Rightarrow> h u v c)"
proof (induction xs arbitrary: k)
  case (Cons x xs)
  then show ?case by (cases k) (auto split: prod.splits)
qed simp

lemma build_length: "length (nw_to (build n mw w xs)) = 2 * length xs" "length (nw_cap (build n mw w xs)) = 2 * length xs"
  unfolding nw_to_build nw_cap_build by (rule length_pairs)+

lemma build_nth:
  assumes "k < length xs" "xs ! k = (u, v, c)"
  shows "nw_to (build n mw w xs) ! (2 * k) = v" "nw_to (build n mw w xs) ! (2 * k + 1) = u"
    "nw_cap (build n mw w xs) ! (2 * k) = c" "nw_cap (build n mw w xs) ! (2 * k + 1) = 0"
  using nth_pairs [OF assms(1), of "\<lambda>u v c. v" "\<lambda>u v c. u"] nth_pairs [OF assms(1), of "\<lambda>u v c. c" "\<lambda>u v c. 0"] assms(2)
  unfolding nw_to_build nw_cap_build by simp_all

lemma build_tail:
  assumes "k < length xs" "xs ! k = (u, v, c)"
  shows "tail (nw_to (build n mw w xs)) (2 * k) = u" "tail (nw_to (build n mw w xs)) (2 * k + 1) = v"
  using build_nth [OF assms] by (simp_all add: tail_def rev_edge_cases)

lemma add_build: "add_edge (build n mw w xs) u v c = (2 * length xs, build n mw w (xs @ [(u, v, c)]))"
  using build_length(1) [of n mw w xs] by (simp add: add_edge_def Let_def)

section \<open>The three loops\<close>

definition source_edges :: "Graph \<Rightarrow> int list option \<Rightarrow> nat list \<Rightarrow> (nat \<times> nat \<times> int) list" where
  "source_edges g extra is = map (\<lambda>i. (length (gr_Labels g), i, world_of g extra i - own_of g extra i)) (filter (\<lambda>i. world_of g extra i - own_of g extra i > 0) is)"

definition judgement_edges :: "Graph \<Rightarrow> (nat \<times> nat \<times> int) list" where
  "judgement_edges g = map (\<lambda>k. (gr_Src g ! k, gr_Dst g ! k, gr_EdgeCap g ! k)) [0..<length (gr_Src g)]"

definition sink_edges :: "Graph \<Rightarrow> int list \<Rightarrow> (nat \<times> nat \<times> int) list" where
  "sink_edges g st = map (\<lambda>i. (i, length (gr_Labels g) + 1, st ! i)) [0..<length (gr_Labels g)]"

lemma add_loop:
  "foldl (\<lambda>(ids, net) i. case add_edge net (u i) (v i) (c i) of (e, net') \<Rightarrow> (ids @ [e], net')) (ids0, build n mw w xs) is
    = (ids0 @ map (\<lambda>k. 2 * (length xs + k)) [0..<length is], build n mw w (xs @ map (\<lambda>i. (u i, v i, c i)) is))"
proof (induction "is" rule: rev_induct)
  case (snoc i "is")
  let ?ys = "xs @ map (\<lambda>i. (u i, v i, c i)) is"
  have "add_edge (build n mw w ?ys) (u i) (v i) (c i) = (2 * length ?ys, build n mw w (?ys @ [(u i, v i, c i)]))" by (rule add_build)
  with snoc show ?case by (simp del: build_simps)
qed simp

lemma add_judgements_build:
  "add_judgements g (build n mw w xs) = (map (\<lambda>k. 2 * (length xs + k)) [0..<length (gr_Src g)], build n mw w (xs @ judgement_edges g))"
  unfolding add_judgements_def judgement_edges_def by (subst add_loop) simp

lemma add_sinks_build:
  "add_sinks g (build n mw w xs) = (map (\<lambda>k. 2 * (length xs + k)) [0..<length (gr_Labels g)], build n mw w (xs @ sink_edges g (replicate (length (gr_Labels g)) 0)))"
proof -
  have "sink_edges g (replicate (length (gr_Labels g)) 0) = map (\<lambda>i. (i, length (gr_Labels g) + 1, 0)) [0..<length (gr_Labels g)]" by (simp add: sink_edges_def)
  then show ?thesis unfolding add_sinks_def by (subst add_loop) simp
qed

text \<open>The id kept for a node: the position of its source edge, if it has one.\<close>

definition source_id :: "Graph \<Rightarrow> int list option \<Rightarrow> (nat \<times> nat \<times> int) list \<Rightarrow> nat option \<Rightarrow> nat \<Rightarrow> bool" where
  "source_id g extra xs x i = (case x of None \<Rightarrow> \<not> world_of g extra i - own_of g extra i > 0
     | Some e \<Rightarrow> \<exists>k<length xs. e = 2 * k \<and> fst (snd (xs ! k)) = i)"

lemma source_id_append: "source_id g extra xs x i \<Longrightarrow> source_id g extra (xs @ ys) x i"
  by (fastforce simp: source_id_def nth_append split: option.splits)

lemma all_snoc: "(\<forall>m<length xs. Q (as ! m) (xs ! m)) \<Longrightarrow> length as = length xs \<Longrightarrow> Q a x \<Longrightarrow> \<forall>m<length (xs @ [x]). Q ((as @ [a]) ! m) ((xs @ [x]) ! m)"
  by (auto simp: nth_append less_Suc_eq)

lemma add_sources_build:
  "\<exists>ids. add_sources g extra (newNetwork n mw w) = (ids, build n mw w (source_edges g extra [0..<length (gr_Labels g)]))
     \<and> length ids = length (gr_Labels g) \<and> (\<forall>i<length (gr_Labels g). source_id g extra (source_edges g extra [0..<length (gr_Labels g)]) (ids ! i) i)"
proof -
  let ?f = "\<lambda>(ids, net) i. let rest = world_of g extra i - own_of g extra i in
     if rest > 0 then (case add_edge net (length (gr_Labels g)) i rest of (e, net') \<Rightarrow> (ids @ [Some e], net')) else (ids @ [None], net)"
  have "\<exists>ids. foldl ?f ([], newNetwork n mw w) is = (ids, build n mw w (source_edges g extra is)) \<and> length ids = length is
      \<and> (\<forall>m<length is. source_id g extra (source_edges g extra is) (ids ! m) (is ! m))" for "is"
  proof (induction "is" rule: rev_induct)
    case (snoc i "is")
    let ?xs = "source_edges g extra is"
    obtain ids where ih: "foldl ?f ([], newNetwork n mw w) is = (ids, build n mw w ?xs)" "length ids = length is"
      "\<forall>m<length is. source_id g extra ?xs (ids ! m) (is ! m)" using snoc by auto
    show ?case
    proof (cases "world_of g extra i - own_of g extra i > 0")
      case True
      let ?e = "(length (gr_Labels g), i, world_of g extra i - own_of g extra i)"
      have st: "source_edges g extra (is @ [i]) = ?xs @ [?e]" using True by (simp add: source_edges_def)
      have "foldl ?f ([], newNetwork n mw w) (is @ [i]) = (ids @ [Some (2 * length ?xs)], build n mw w (?xs @ [?e]))"
        using True ih(1) by (simp add: add_build del: build_simps)
      moreover have "source_id g extra (?xs @ [?e]) (Some (2 * length ?xs)) i" by (auto simp: source_id_def intro!: exI [of _ "length ?xs"])
      then have "\<forall>m<length (is @ [i]). source_id g extra (?xs @ [?e]) ((ids @ [Some (2 * length ?xs)]) ! m) ((is @ [i]) ! m)"
        using ih(2,3) source_id_append by (intro all_snoc) auto
      ultimately show ?thesis unfolding st using ih(2) by auto
    next
      case False
      then have st: "source_edges g extra (is @ [i]) = ?xs" by (simp add: source_edges_def)
      have "foldl ?f ([], newNetwork n mw w) (is @ [i]) = (ids @ [None], build n mw w ?xs)" using False ih(1) by simp
      moreover have "\<forall>m<length (is @ [i]). source_id g extra ?xs ((ids @ [None]) ! m) ((is @ [i]) ! m)"
        using ih(2,3) False by (intro all_snoc) (auto simp: source_id_def)
      ultimately show ?thesis unfolding st using ih(2) by auto
    qed
  qed (simp add: source_edges_def)
  from this [of "[0..<length (gr_Labels g)]"] show ?thesis unfolding add_sources_def by simp
qed

section \<open>Raising the sinks\<close>

definition graph_ok :: "Graph \<Rightarrow> bool" where
  "graph_ok g \<longleftrightarrow> (let n = length (gr_Labels g) in
     length (gr_World g) = n \<and> length (gr_Cap g) = n \<and> length (gr_Dst g) = length (gr_Src g) \<and> length (gr_EdgeCap g) = length (gr_Src g)
     \<and> (\<forall>i<n. 0 \<le> gr_World g ! i \<and> 0 \<le> gr_Cap g ! i)
     \<and> (\<forall>k<length (gr_Src g). gr_Src g ! k < n \<and> gr_Dst g ! k < n \<and> 0 < gr_EdgeCap g ! k)
     \<and> (\<forall>ps. gr_Pass g = Some ps \<longrightarrow> length ps = n \<and> (\<forall>i<n. 0 \<le> ps ! i \<and> ps ! i \<le> min (gr_World g ! i) (gr_Cap g ! i)))
     \<and> sorted_wrt (<) (0 # gr_Levels g))"

definition extra_ok :: "Graph \<Rightarrow> int list option \<Rightarrow> bool" where
  "extra_ok g extra \<longleftrightarrow> (\<forall>xs. extra = Some xs \<longrightarrow> length xs = length (gr_Labels g) \<and> (\<forall>i<length xs. 0 \<le> xs ! i))"

lemma own_bounds:
  assumes "graph_ok g" "extra_ok g extra" "i < length (gr_Labels g)"
  shows "0 \<le> own_of g extra i" "own_of g extra i \<le> gr_Cap g ! i" "own_of g extra i \<le> world_of g extra i"
proof -
  have x: "gr_World g ! i \<le> world_of g extra i" using assms(2,3) by (auto simp: world_of_def extra_ok_def split: option.splits)
  have w: "0 \<le> gr_World g ! i" "0 \<le> gr_Cap g ! i" using assms(1,3) by (simp_all add: graph_ok_def Let_def)
  define pass where "pass = (case gr_Pass g of Some ps \<Rightarrow> ps ! i | None \<Rightarrow> 0)"
  have p: "0 \<le> pass" "pass \<le> min (gr_World g ! i) (gr_Cap g ! i)"
    using assms(1,3) w by (cases "gr_Pass g"; simp add: pass_def graph_ok_def Let_def)+
  have "own_of g extra i = min (world_of g extra i) (gr_Cap g ! i) - pass" by (simp add: own_of_def pass_def)
  then show "0 \<le> own_of g extra i" "own_of g extra i \<le> gr_Cap g ! i" "own_of g extra i \<le> world_of g extra i"
    using x w p by linarith+
qed

text \<open>The network at a setting of the sinks.\<close>

definition fixed_edges :: "Graph \<Rightarrow> int list option \<Rightarrow> (nat \<times> nat \<times> int) list" where
  "fixed_edges g extra = source_edges g extra [0..<length (gr_Labels g)] @ judgement_edges g"

definition net_at :: "Graph \<Rightarrow> int list option \<Rightarrow> int \<Rightarrow> int \<Rightarrow> int list \<Rightarrow> network" where
  "net_at g extra mw w st = build (length (gr_Labels g) + 2) mw w (fixed_edges g extra @ sink_edges g st)"

lemma sink_edges_nth: "i < length (gr_Labels g) \<Longrightarrow> sink_edges g st ! i = (i, length (gr_Labels g) + 1, st ! i)" "length (sink_edges g st) = length (gr_Labels g)"
  by (simp_all add: sink_edges_def)

lemma built_net_at:
  assumes "graph_ok g" "extra_ok g extra" "\<forall>i<length (gr_Labels g). 0 \<le> st ! i"
  shows "built (length (gr_Labels g) + 2) (net_at g extra mw w st)"
proof -
  have "\<forall>k<length (gr_Src g). gr_Src g ! k < length (gr_Labels g) \<and> gr_Dst g ! k < length (gr_Labels g) \<and> 0 < gr_EdgeCap g ! k"
    using assms(1) by (simp add: graph_ok_def Let_def)
  then show ?thesis unfolding net_at_def using assms(3)
    by (intro built_build) (auto simp: fixed_edges_def source_edges_def judgement_edges_def sink_edges_def less_SucI)
qed

definition lifted :: "nat \<Rightarrow> nat \<Rightarrow> (nat \<Rightarrow> int) \<Rightarrow> nat \<Rightarrow> int" where
  "lifted base m d e = (if even e \<and> base \<le> e div 2 \<and> e div 2 < base + m then d (e div 2 - base) else 0)"

lemma lifted_cong: "\<forall>i<m. d i = d' i \<Longrightarrow> lifted base m d e = lifted base m d' e"
  by (auto simp: lifted_def)

lemma raise_nth:
  assumes "\<forall>i<m. sinks ! i = 2 * (base + i)" "2 * (base + m) \<le> length (nw_cap net)" "e < length (nw_cap net)"
  shows "let net' = foldl (\<lambda>net i. net\<lparr>nw_cap := (nw_cap net)[sinks ! i := nw_cap net ! (sinks ! i) + d i]\<rparr>) net [0..<m] in
    nw_cap net' ! e = nw_cap net ! e + lifted base m d e \<and> length (nw_cap net') = length (nw_cap net) \<and> net' = net\<lparr>nw_cap := nw_cap net'\<rparr>"
  using assms
proof (induction m)
  case (Suc m)
  let ?f = "\<lambda>net i. net\<lparr>nw_cap := (nw_cap net)[sinks ! i := nw_cap net ! (sinks ! i) + d i]\<rparr>"
  let ?n1 = "foldl ?f net [0..<m]"
  have ih: "nw_cap ?n1 ! e = nw_cap net ! e + lifted base m d e" "length (nw_cap ?n1) = length (nw_cap net)" "?n1 = net\<lparr>nw_cap := nw_cap ?n1\<rparr>"
    using Suc by (auto simp: Let_def)
  have st: "foldl ?f net [0..<Suc m] = ?f ?n1 m" by simp
  have pos: "sinks ! m = 2 * (base + m)" "2 * (base + m) < length (nw_cap net)" using Suc.prems(1,2) by auto
  have "nw_cap (?f ?n1 m) ! e = nw_cap net ! e + lifted base (Suc m) d e"
  proof (cases "e = 2 * (base + m)")
    case True
    then show ?thesis using ih(1,2) pos by (simp add: lifted_def)
  next
    case False
    then have "lifted base (Suc m) d e = lifted base m d e" unfolding lifted_def by (auto elim!: evenE simp: less_Suc_eq)
    then show ?thesis using False ih(1) pos by simp
  qed
  moreover have "?f ?n1 m = net\<lparr>nw_cap := nw_cap (?f ?n1 m)\<rparr>" by (subst (1) ih(3)) simp
  ultimately show ?case unfolding st Let_def using ih(2) by simp
qed (simp add: lifted_def)

lemma net_at_cap:
  assumes "e < length (nw_to (net_at g extra mw w st))"
  shows "nw_cap (net_at g extra mw w st') ! e = nw_cap (net_at g extra mw w st) ! e
    + lifted (length (fixed_edges g extra)) (length (gr_Labels g)) (\<lambda>i. st' ! i - st ! i) e"
proof -
  let ?b = "length (fixed_edges g extra)" and ?n = "length (gr_Labels g)"
  define k where "k = e div 2"
  have k: "k < ?b + ?n" using assms by (simp add: net_at_def build_length sink_edges_nth k_def)
  have nth: "(fixed_edges g extra @ sink_edges g s) ! k = (if k < ?b then fixed_edges g extra ! k else (k - ?b, ?n + 1, s ! (k - ?b)))" for s
    using k by (auto simp: nth_append sink_edges_nth)
  have len: "k < length (fixed_edges g extra @ sink_edges g s)" for s using k by (simp add: sink_edges_nth)
  obtain u v c where uvc: "fixed_edges g extra ! k = (u, v, c)" by (cases "fixed_edges g extra ! k")
  have cap: "nw_cap (net_at g extra mw w s) ! (2 * k) = (if k < ?b then c else s ! (k - ?b))" "nw_cap (net_at g extra mw w s) ! (2 * k + 1) = 0" for s
    using build_nth(3,4) [OF len [of s], where n = "?n + 2" and mw = mw and w = w] nth [of s] uvc by (auto simp: net_at_def split: if_splits)
  show ?thesis
  proof (cases "even e")
    case True
    then have "e = 2 * k" by (simp add: k_def)
    then show ?thesis using cap(1) k by (auto simp: lifted_def)
  next
    case False
    then have e: "e = 2 * k + 1" by (simp add: k_def)
    show ?thesis using False cap(2) by (simp add: lifted_def e)
  qed
qed

lemma is_flow_cong: "even (length es) \<Longrightarrow> \<forall>e<length es. f e = f' e \<Longrightarrow> is_flow es cs s t f = is_flow es cs s t f'"
proof -
  assume "even (length es)" and eq: "\<forall>e<length es. f e = f' e"
  moreover have "out_of es f v = out_of es f' v" for v unfolding out_of_def using eq by (intro sum.cong) auto
  ultimately show ?thesis unfolding is_flow_def by (auto simp: rev_edge_less)
qed

lemma is_flow_mono: "is_flow es cs s t f \<Longrightarrow> \<forall>e<length es. cs ! e \<le> cs' ! e \<Longrightarrow> is_flow es cs' s t f"
  unfolding is_flow_def by force

lemma raise_runs:
  assumes run: "runs_from N s t (net_at g extra mw w st) net"
    and sinks: "\<forall>i<length (gr_Labels g). sinks ! i = 2 * (length (fixed_edges g extra) + i)"
    and up: "\<forall>i<length (gr_Labels g). st ! i \<le> want_of g extra L i"
  shows "runs_from N s t (net_at g extra mw w (map (want_of g extra L) [0..<length (gr_Labels g)])) (raise_sinks g extra sinks L st net)"
proof -
  let ?n = "length (gr_Labels g)" and ?b = "length (fixed_edges g extra)" and ?d = "\<lambda>i. want_of g extra L i - st ! i"
  let ?st' = "map (want_of g extra L) [0..<length (gr_Labels g)]"
  let ?g0 = "net_at g extra mw w st" and ?g1 = "net_at g extra mw w ?st'" and ?net' = "raise_sinks g extra sinks L st net"
  have len: "length (nw_to ?g0) = 2 * (?b + ?n)" by (simp add: net_at_def build_length sink_edges_nth)
  have heads: "nw_to ?g1 = nw_to ?g0" by (simp add: net_at_def nw_to_build sink_edges_def comp_def)
  have to: "nw_to net = nw_to ?g0" "nw_to ?g1 = nw_to ?g0" "length (nw_cap net) = length (nw_to ?g0)" "length (nw_to ?g0) = 2 * (?b + ?n)" "even (length (nw_to ?g0))"
    using run len heads by (simp_all add: runs_from_def net_ok_def)
  have r: "nw_cap ?net' ! e = nw_cap net ! e + lifted ?b ?n ?d e" "length (nw_cap ?net') = length (nw_cap net)" "?net' = net\<lparr>nw_cap := nw_cap ?net'\<rparr>" if "e < length (nw_to ?g0)" for e
    using raise_nth [OF sinks, of net e ?d] that to by (auto simp: raise_sinks_def Let_def)
  have c: "nw_cap ?g1 ! e = nw_cap ?g0 ! e + lifted ?b ?n ?d e" if "e < length (nw_to ?g0)" for e
    using net_at_cap [OF that, of ?st'] lifted_cong [of ?n "\<lambda>i. ?st' ! i - st ! i" ?d ?b e] by simp
  have d: "0 \<le> lifted ?b ?n ?d e" for e using up by (auto simp: lifted_def)
  have same: "\<forall>e<length (nw_to ?g0). flow_of (nw_cap ?g1) (nw_cap ?net') e = flow_of (nw_cap ?g0) (nw_cap net) e"
    using c r(1) by (simp add: flow_of_def)
  have fl: "is_flow (nw_to ?g0) (nw_cap ?g0) s t (flow_of (nw_cap ?g0) (nw_cap net))" using run to(1) by (simp add: runs_from_def)
  have "is_flow (nw_to ?g0) (nw_cap ?g1) s t (flow_of (nw_cap ?g1) (nw_cap ?net'))"
    using is_flow_mono [OF fl, of "nw_cap ?g1"] c d is_flow_cong [OF to(5) same] by simp
  show ?thesis
  proof (cases "length (nw_to ?g0) = 0")
    case True
    then have "?n = 0" using to(4) by simp
    then have "?net' = net" "?st' = []" by (simp_all add: raise_sinks_def)
    then show ?thesis using run \<open>?n = 0\<close> by (simp add: net_at_def sink_edges_def)
  next
    case False
    then obtain cs' where net': "?net' = net\<lparr>nw_cap := cs'\<rparr>" "length cs' = length (nw_cap net)" using r(2,3) [of 0] by fastforce
    have "net_ok N net" using run by (simp add: runs_from_def)
    then have ok: "net_ok N ?net'" unfolding net'(1) using net'(2) by (simp add: net_ok_def)
    have "nw_to ?net' = nw_to ?g0" "nw_maxWork ?net' = nw_maxWork ?g1"
      unfolding net'(1) using run by (simp_all add: runs_from_def net_at_def build_fields)
    moreover have "\<forall>e<length (nw_to ?g0). 0 \<le> nw_cap ?net' ! e" using r(1) d run to(1) by (simp add: runs_from_def)
    ultimately show ?thesis using ok to(2) \<open>is_flow (nw_to ?g0) (nw_cap ?g1) s t _\<close> by (simp add: runs_from_def)
  qed
qed

section \<open>Filling the levels\<close>

definition setting_ok :: "Graph \<Rightarrow> int list option \<Rightarrow> int list \<Rightarrow> bool" where
  "setting_ok g extra st \<longleftrightarrow> (\<forall>i<length (gr_Labels g). 0 \<le> st ! i \<and> own_of g extra i + st ! i \<le> gr_Cap g ! i)"

lemma setting_want:
  assumes "graph_ok g" "extra_ok g extra"
  shows "setting_ok g extra (map (want_of g extra L) [0..<length (gr_Labels g)])"
  using own_bounds [OF assms] by (fastforce simp: setting_ok_def want_of_def)

lemma want_mono: "L \<le> L' \<Longrightarrow> want_of g extra L i \<le> want_of g extra L' i"
  by (auto simp: want_of_def)

lemma fill_levels_ends:
  assumes g: "graph_ok g" "extra_ok g extra" and ne: "gr_Labels g \<noteq> []"
    and sinks: "\<forall>i<length (gr_Labels g). sinks ! i = 2 * (length (fixed_edges g extra) + i)"
    and run: "runs_from (length (gr_Labels g) + 2) (length (gr_Labels g)) (length (gr_Labels g) + 1) (net_at g extra mw w st) net" "setting_ok g extra st"
    and up: "sorted_wrt (<) Ls" "\<forall>L\<in>set Ls. \<forall>i<length (gr_Labels g). st ! i \<le> want_of g extra L i"
  shows "\<exists>r net'. fill_levels ctx g extra sinks Ls st net = Some (r, net')
    \<and> (r = Inr () \<longrightarrow> (\<exists>st'. setting_ok g extra st' \<and> runs_from (length (gr_Labels g) + 2) (length (gr_Labels g)) (length (gr_Labels g) + 1) (net_at g extra mw w st') net'))
    \<and> (r \<noteq> Inr () \<longrightarrow> stopped ctx mw net')"
  using run up
proof (induction Ls arbitrary: st net)
  case (Cons L Ls)
  let ?n = "length (gr_Labels g)" and ?st = "map (want_of g extra L) [0..<length (gr_Labels g)]"
  have "runs_from (?n + 2) ?n (?n + 1) (net_at g extra mw w ?st) (raise_sinks g extra sinks L st net)"
    using Cons.prems by (intro raise_runs sinks) auto
  then obtain r1 net1 where m: "maxflow ctx ?n (?n + 1) (raise_sinks g extra sinks L st net) = Some (r1, net1)"
    "r1 = Inr () \<longrightarrow> runs_from (?n + 2) ?n (?n + 1) (net_at g extra mw w ?st) net1" "r1 \<noteq> Inr () \<longrightarrow> stopped ctx mw net1"
    using maxflow_ends [of "?n + 2" ?n "?n + 1" "net_at g extra mw w ?st" "raise_sinks g extra sinks L st net" ctx]
    by (auto simp: runs_from_def net_at_def build_fields)
  show ?case
  proof (cases r1)
    case (Inl e)
    then show ?thesis using m by simp
  next
    case (Inr u)
    have "\<forall>L'\<in>set Ls. \<forall>i<?n. ?st ! i \<le> want_of g extra L' i" using Cons.prems(3) want_mono by (fastforce intro: less_imp_le)
    with Cons.IH [of ?st net1] Cons.prems(3) m Inr setting_want [OF g] show ?thesis by simp
  qed
qed auto

section \<open>What reaches the sinks left the source\<close>

lemma out_of_total:
  assumes "is_flow es cs s t f" "even (length es)" "\<forall>e<length es. es ! e < N" "s < N" "t < N" "s \<noteq> t"
  shows "out_of es f s + out_of es f t = 0"
proof -
  have tails: "tail es e < N" if "e < length es" for e using assms(2,3) that by (simp add: tail_def rev_edge_less)
  have "(\<Sum>v<N. out_of es f v) = (\<Sum>e | e < length es. f e)"
    unfolding out_of_def by (subst sum.UNION_disjoint [symmetric]) (use tails in \<open>auto intro!: sum.cong\<close>)
  also have "\<dots> = 0" using sum_antisym [OF assms(2), of f "\<lambda>_. True"] assms(1) by (simp add: is_flow_def)
  finally have z: "(\<Sum>v<N. out_of es f v) = 0" .
  have "(\<Sum>v<N. out_of es f v) = (\<Sum>v\<in>{s, t}. out_of es f v)"
    using assms(1,4,5) by (intro sum.mono_neutral_right) (auto simp: is_flow_def)
  then show ?thesis using z assms(6) by simp
qed

text \<open>The edges out of a node, as pairs: its own edges forward, the others that end in it backward.\<close>

lemma out_of_build:
  assumes "is_flow (nw_to (build n mw w xs)) cs s t f"
  shows "out_of (nw_to (build n mw w xs)) f v
    = (\<Sum>k | k < length xs \<and> fst (xs ! k) = v. f (2 * k)) - (\<Sum>k | k < length xs \<and> fst (snd (xs ! k)) = v. f (2 * k))"
proof -
  let ?es = "nw_to (build n mw w xs)"
  have len: "length ?es = 2 * length xs" by (rule build_length)
  have t: "tail ?es (2 * k) = fst (xs ! k)" "tail ?es (2 * k + 1) = fst (snd (xs ! k))" if "k < length xs" for k
    using build_tail [OF that, of "fst (xs ! k)" "fst (snd (xs ! k))" "snd (snd (xs ! k))"] by simp_all
  let ?A = "{k. k < length xs \<and> fst (xs ! k) = v}" and ?B = "{k. k < length xs \<and> fst (snd (xs ! k)) = v}"
  have split: "{e. e < length ?es \<and> tail ?es e = v} = (\<lambda>k. 2 * k) ` ?A \<union> (\<lambda>k. 2 * k + 1) ` ?B"
  proof (intro set_eqI iffI)
    fix e assume e: "e \<in> {e. e < length ?es \<and> tail ?es e = v}"
    show "e \<in> (\<lambda>k. 2 * k) ` ?A \<union> (\<lambda>k. 2 * k + 1) ` ?B"
    proof (cases "even e")
      case True
      then obtain k where "e = 2 * k" by (elim evenE)
      then show ?thesis using e t(1) [of k] len by auto
    next
      case False
      then obtain k where "e = 2 * k + 1" by (elim oddE)
      then show ?thesis using e t(2) [of k] len by auto
    qed
  next
    fix e assume "e \<in> (\<lambda>k. 2 * k) ` ?A \<union> (\<lambda>k. 2 * k + 1) ` ?B"
    then show "e \<in> {e. e < length ?es \<and> tail ?es e = v}" using t len by auto
  qed
  have "out_of ?es f v = (\<Sum>e\<in>(\<lambda>k. 2 * k) ` ?A. f e) + (\<Sum>e\<in>(\<lambda>k. 2 * k + 1) ` ?B. f e)"
    unfolding out_of_def split by (rule sum.union_disjoint) (auto dest: arg_cong [where f = even])
  also have "(\<Sum>e\<in>(\<lambda>k. 2 * k) ` ?A. f e) = (\<Sum>k\<in>?A. f (2 * k))" by (subst sum.reindex) (auto simp: inj_on_def)
  also have "(\<Sum>e\<in>(\<lambda>k. 2 * k + 1) ` ?B. f e) = (\<Sum>k\<in>?B. f (2 * k + 1))" by (subst sum.reindex) (auto simp: inj_on_def)
  also have "\<dots> = (\<Sum>k\<in>?B. - f (2 * k))"
  proof (rule sum.cong)
    fix k assume "k \<in> ?B"
    then have "f (rev_edge (2 * k)) = - f (2 * k)" using assms len by (auto simp: is_flow_def)
    then show "f (2 * k + 1) = - f (2 * k)" by (simp add: rev_edge_cases)
  qed simp
  finally show ?thesis by (simp add: sum_negf)
qed

text \<open>Sums over the positions of a list of edges, part by part.\<close>

lemma sum_parts:
  "(\<Sum>k | k < length (xs @ ys) \<and> P ((xs @ ys) ! k). h k) = (\<Sum>k | k < length xs \<and> P (xs ! k). h k) + (\<Sum>k | k < length ys \<and> P (ys ! k). h (length xs + k))"
  for h :: "nat \<Rightarrow> int"
proof -
  have "{k. k < length (xs @ ys) \<and> P ((xs @ ys) ! k)} = {k. k < length xs \<and> P (xs ! k)} \<union> (\<lambda>k. length xs + k) ` {k. k < length ys \<and> P (ys ! k)}" (is "?A = ?B \<union> ?C")
  proof (intro set_eqI iffI)
    fix k assume k: "k \<in> ?A"
    show "k \<in> ?B \<union> ?C"
    proof (cases "k < length xs")
      case False
      then have "k = length xs + (k - length xs)" by simp
      then show ?thesis using k False by (intro UnI2 image_eqI [of k _ "k - length xs"]) (auto simp: nth_append)
    qed (use k in \<open>auto simp: nth_append\<close>)
  qed (auto simp: nth_append)
  moreover have "(\<Sum>k\<in>?B \<union> ?C. h k) = (\<Sum>k\<in>?B. h k) + (\<Sum>k\<in>?C. h k)" by (rule sum.union_disjoint) auto
  moreover have "(\<Sum>k\<in>?C. h k) = (\<Sum>k | k < length ys \<and> P (ys ! k). h (length xs + k))" by (subst sum.reindex) (auto simp: inj_on_def)
  ultimately show ?thesis by simp
qed

lemma sum_none: "(\<And>k. k < m \<Longrightarrow> \<not> Q k) \<Longrightarrow> (\<Sum>k | k < m \<and> Q k. h k) = (0::int)" for m :: nat
  by (rule sum.neutral) auto

lemma sum_all: "(\<And>k. k < m \<Longrightarrow> Q k) \<Longrightarrow> (\<Sum>k | k < m \<and> Q k. h k) = (\<Sum>k<m. h k)" for m :: nat and h :: "nat \<Rightarrow> int"
  by (rule sum.cong) auto

lemma sum_one: "i < m \<Longrightarrow> (\<And>k. k < m \<Longrightarrow> Q k \<longleftrightarrow> k = i) \<Longrightarrow> (\<Sum>k | k < m \<and> Q k. h k) = (h i :: int)" for m :: nat
proof -
  assume "i < m" "\<And>k. k < m \<Longrightarrow> Q k \<longleftrightarrow> k = i"
  then have "{k. k < m \<and> Q k} = {i}" by auto
  then show ?thesis by simp
qed

lemma source_edges_nth: "k < length (source_edges g extra is) \<Longrightarrow> fst (source_edges g extra is ! k) = length (gr_Labels g) \<and> fst (snd (source_edges g extra is ! k)) \<in> set is"
  by (metis (no_types, lifting) filter_is_subset fst_conv length_map nth_map nth_mem snd_conv source_edges_def subsetD)

lemma judgement_edges_nth: "k < length (gr_Src g) \<Longrightarrow> judgement_edges g ! k = (gr_Src g ! k, gr_Dst g ! k, gr_EdgeCap g ! k)" "length (judgement_edges g) = length (gr_Src g)"
  by (simp_all add: judgement_edges_def)

lemma out_of_parts:
  assumes fl: "is_flow (nw_to (net_at g extra mw w st)) cs (length (gr_Labels g)) (length (gr_Labels g) + 1) f"
  shows "out_of (nw_to (net_at g extra mw w st)) f v =
     (\<Sum>k | k < length (source_edges g extra [0..<length (gr_Labels g)]) \<and> fst (source_edges g extra [0..<length (gr_Labels g)] ! k) = v. f (2 * k))
     + (\<Sum>k | k < length (gr_Src g) \<and> fst (judgement_edges g ! k) = v. f (2 * (length (source_edges g extra [0..<length (gr_Labels g)]) + k)))
     + (\<Sum>k | k < length (gr_Labels g) \<and> fst (sink_edges g st ! k) = v. f (2 * (length (fixed_edges g extra) + k)))
     - (\<Sum>k | k < length (source_edges g extra [0..<length (gr_Labels g)]) \<and> fst (snd (source_edges g extra [0..<length (gr_Labels g)] ! k)) = v. f (2 * k))
     - (\<Sum>k | k < length (gr_Src g) \<and> fst (snd (judgement_edges g ! k)) = v. f (2 * (length (source_edges g extra [0..<length (gr_Labels g)]) + k)))
     - (\<Sum>k | k < length (gr_Labels g) \<and> fst (snd (sink_edges g st ! k)) = v. f (2 * (length (fixed_edges g extra) + k)))"
  unfolding net_at_def using fl [unfolded net_at_def]
  by (simp only: out_of_build sum_parts [where P = "\<lambda>x. fst x = v"] sum_parts [where P = "\<lambda>x. fst (snd x) = v"] fixed_edges_def judgement_edges_nth(2) sink_edges_nth(2))

lemma flow_balance:
  assumes ok: "graph_ok g" and net: "built (length (gr_Labels g) + 2) (net_at g extra mw w st)"
    and fl: "is_flow (nw_to (net_at g extra mw w st)) cs (length (gr_Labels g)) (length (gr_Labels g) + 1) f"
  defines "A \<equiv> source_edges g extra [0..<length (gr_Labels g)]" and "b \<equiv> length (fixed_edges g extra)" and "n \<equiv> length (gr_Labels g)"
  shows "(\<Sum>i<n. f (2 * (b + i))) = (\<Sum>k<length A. f (2 * k))"
    and "i < n \<Longrightarrow> f (2 * (b + i)) + (\<Sum>k | k < length (gr_Src g) \<and> gr_Src g ! k = i. f (2 * (length A + k)))
       = (\<Sum>k | k < length A \<and> fst (snd (A ! k)) = i. f (2 * k)) + (\<Sum>k | k < length (gr_Src g) \<and> gr_Dst g ! k = i. f (2 * (length A + k)))"
proof -
  let ?es = "nw_to (net_at g extra mw w st)"
  have sd: "\<forall>k<length (gr_Src g). gr_Src g ! k < n \<and> gr_Dst g ! k < n" using ok by (simp add: graph_ok_def Let_def n_def)
  have a: "fst (A ! k) = n" "fst (snd (A ! k)) < n" if "k < length A" for k using source_edges_nth that unfolding A_def n_def by fastforce+
  have j: "fst (judgement_edges g ! k) = gr_Src g ! k" "fst (snd (judgement_edges g ! k)) = gr_Dst g ! k" if "k < length (gr_Src g)" for k
    using judgement_edges_nth that by simp_all
  have c: "fst (sink_edges g st ! k) = k" "fst (snd (sink_edges g st ! k)) = n + 1" if "k < n" for k
    using sink_edges_nth(1) that by (simp_all add: n_def)
  note parts = out_of_parts [OF fl, folded A_def b_def n_def]
  have S: "out_of ?es f n = (\<Sum>k<length A. f (2 * k))"
    unfolding parts using sd by (simp add: sum_none a j c less_imp_neq lessThan_def cong: conj_cong)
  have late: "x \<noteq> Suc n" if "x < n" for x using that by simp
  have T: "out_of ?es f (n + 1) = - (\<Sum>i<n. f (2 * (b + i)))"
    unfolding parts using sd a(2) by (simp add: sum_none a(1) j c late lessThan_def cong: conj_cong)
  have "out_of ?es f n + out_of ?es f (n + 1) = 0"
    using net fl by (intro out_of_total [where N = "n + 2"]) (auto simp: built_def net_ok_def n_def)
  then show "(\<Sum>i<n. f (2 * (b + i))) = (\<Sum>k<length A. f (2 * k))" using S T by simp
  show "f (2 * (b + i)) + (\<Sum>k | k < length (gr_Src g) \<and> gr_Src g ! k = i. f (2 * (length A + k)))
       = (\<Sum>k | k < length A \<and> fst (snd (A ! k)) = i. f (2 * k)) + (\<Sum>k | k < length (gr_Src g) \<and> gr_Dst g ! k = i. f (2 * (length A + k)))" if i: "i < n"
  proof -
    have "out_of ?es f i = 0" using fl i by (simp add: is_flow_def n_def)
    moreover have "(\<Sum>k | k < n \<and> fst (sink_edges g st ! k) = i. f (2 * (b + k))) = f (2 * (b + i))" using i c by (intro sum_one) auto
    moreover have "(\<Sum>k | k < length A \<and> fst (A ! k) = i. f (2 * k)) = 0" "(\<Sum>k | k < n \<and> fst (snd (sink_edges g st ! k)) = i. f (2 * (b + k))) = 0"
      using i a c by (intro sum_none; force)+
    ultimately show ?thesis using parts [of i] by (simp add: j cong: conj_cong)
  qed
qed

section \<open>The result of a flow\<close>

definition flow_sound :: "Graph \<Rightarrow> int list option \<Rightarrow> flowResult \<Rightarrow> bool" where
  "flow_sound g extra res \<longleftrightarrow> (let n = length (gr_Labels g); m = length (gr_Src g) in
     length (fr_Standing res) = n \<and> length (fr_Own res) = n \<and> length (fr_Passed res) = n \<and> length (fr_edge res) = m
     \<and> (\<forall>i<n. 0 \<le> fr_Own res ! i \<and> fr_Own res ! i \<le> fr_Standing res ! i \<and> fr_Standing res ! i \<le> gr_Cap g ! i
          \<and> 0 \<le> fr_Passed res ! i \<and> fr_Own res ! i + fr_Passed res ! i \<le> world_of g extra i
          \<and> fr_Standing res ! i + (\<Sum>k | k < m \<and> gr_Src g ! k = i. fr_edge res ! k)
            = fr_Own res ! i + fr_Passed res ! i + (\<Sum>k | k < m \<and> gr_Dst g ! k = i. fr_edge res ! k))
     \<and> (\<forall>k<m. 0 \<le> fr_edge res ! k \<and> fr_edge res ! k \<le> gr_EdgeCap g ! k)
     \<and> (\<Sum>i<n. fr_Standing res ! i) \<le> (\<Sum>i<n. world_of g extra i))"

definition offered :: "Graph \<Rightarrow> int list option \<Rightarrow> nat list" where
  "offered g extra = filter (\<lambda>i. world_of g extra i - own_of g extra i > 0) [0..<length (gr_Labels g)]"

lemma sources_offered:
  "source_edges g extra [0..<length (gr_Labels g)] = map (\<lambda>i. (length (gr_Labels g), i, world_of g extra i - own_of g extra i)) (offered g extra)"
  by (simp add: source_edges_def offered_def)

lemma offered_distinct: "distinct (offered g extra)" "set (offered g extra) = {i. i < length (gr_Labels g) \<and> world_of g extra i - own_of g extra i > 0}"
  by (auto simp: offered_def)

lemma passed_on_sum:
  assumes "source_id g extra (source_edges g extra [0..<length (gr_Labels g)]) x i" "i < length (gr_Labels g)"
  shows "(\<Sum>k | k < length (source_edges g extra [0..<length (gr_Labels g)]) \<and> fst (snd (source_edges g extra [0..<length (gr_Labels g)] ! k)) = i. f (2 * k))
    = (case x of Some e \<Rightarrow> f e | None \<Rightarrow> (0::int))"
proof -
  let ?is = "offered g extra" and ?A = "source_edges g extra [0..<length (gr_Labels g)]"
  have A: "length ?A = length ?is" "k < length ?is \<Longrightarrow> fst (snd (?A ! k)) = ?is ! k" for k by (simp_all add: sources_offered)
  show ?thesis
  proof (cases x)
    case None
    then have "i \<notin> set ?is" using assms by (simp add: source_id_def offered_distinct)
    then show ?thesis using None A by (auto intro!: sum_none simp: in_set_conv_nth)
  next
    case (Some e)
    then obtain k where k: "k < length ?is" "e = 2 * k" "?is ! k = i" using assms(1) A by (auto simp: source_id_def)
    then have "(\<Sum>k | k < length ?A \<and> fst (snd (?A ! k)) = i. f (2 * k)) = f (2 * k)"
      using A offered_distinct(1) [of g extra] by (intro sum_one) (auto simp: nth_eq_iff_index_eq)
    then show ?thesis using Some k by simp
  qed
qed

lemma sum_offered:
  assumes "\<forall>i<length (gr_Labels g). own_of g extra i \<le> world_of g extra i" "\<forall>k<length (offered g extra). h k \<le> world_of g extra (offered g extra ! k) - own_of g extra (offered g extra ! k)"
  shows "(\<Sum>k<length (offered g extra). h k) \<le> (\<Sum>i<length (gr_Labels g). world_of g extra i - own_of g extra i)"
proof -
  let ?is = "offered g extra" and ?r = "\<lambda>i. world_of g extra i - own_of g extra i"
  have "(\<Sum>k<length ?is. h k) \<le> (\<Sum>k<length ?is. ?r (?is ! k))" using assms(2) by (intro sum_mono) simp
  also have "\<dots> = sum_list (map ?r ?is)" by (simp add: sum_list_sum_nth atLeast0LessThan)
  also have "\<dots> = (\<Sum>i\<in>set ?is. ?r i)" using offered_distinct(1) by (simp add: sum_list_distinct_conv_sum_set)
  also have "\<dots> \<le> (\<Sum>i<length (gr_Labels g). ?r i)" using assms(1) by (intro sum_mono2) (auto simp: offered_distinct)
  finally show ?thesis .
qed

lemma flow_sound_run:
  assumes ok: "graph_ok g" "extra_ok g extra" and st: "setting_ok g extra st"
    and run: "runs_from (length (gr_Labels g) + 2) (length (gr_Labels g)) (length (gr_Labels g) + 1) (net_at g extra mw w st) net"
    and ins: "length ins = length (gr_Labels g)" "\<forall>i<length (gr_Labels g). source_id g extra (source_edges g extra [0..<length (gr_Labels g)]) (ins ! i) i"
  defines "ids \<equiv> map (\<lambda>k. 2 * (length (source_edges g extra [0..<length (gr_Labels g)]) + k)) [0..<length (gr_Src g)]"
    and "sinks \<equiv> map (\<lambda>k. 2 * (length (fixed_edges g extra) + k)) [0..<length (gr_Labels g)]"
  shows "flow_sound g extra \<lparr>fr_Standing = map (\<lambda>i. own_of g extra i + flowOn net (sinks ! i)) [0..<length (gr_Labels g)],
                  fr_Own = map (\<lambda>i. own_of g extra i + kept_of g ins sinks net i) [0..<length (gr_Labels g)],
                  fr_Passed = map (\<lambda>i. passed_on ins net i - kept_of g ins sinks net i) [0..<length (gr_Labels g)],
                  fr_edge = map (flowOn net) ids, fr_work = wrk\<rparr>"
proof -
  let ?n = "length (gr_Labels g)" and ?A = "source_edges g extra [0..<length (gr_Labels g)]" and ?b = "length (fixed_edges g extra)"
  let ?xs = "fixed_edges g extra @ sink_edges g st" and ?g0 = "net_at g extra mw w st"
  let ?f = "flow_of (nw_cap ?g0) (nw_cap net)"
  have built: "built (?n + 2) ?g0" using built_net_at [OF ok] st by (simp add: setting_ok_def)
  have fl: "is_flow (nw_to ?g0) (nw_cap ?g0) ?n (?n + 1) ?f" and cap: "\<forall>e<length (nw_to ?g0). 0 \<le> nw_cap net ! e" and ev: "even (length (nw_to ?g0))"
    using run by (auto simp: runs_from_def net_ok_def)
  have len: "length (nw_to ?g0) = 2 * length ?xs" by (simp add: net_at_def build_length)
  have on: "flowOn net (2 * k) = ?f (2 * k)" "0 \<le> ?f (2 * k)" "?f (2 * k) \<le> snd (snd (?xs ! k))" if k: "k < length ?xs" for k
  proof -
    have e: "2 * k < length (nw_to ?g0)" using k len by simp
    show 1: "flowOn net (2 * k) = ?f (2 * k)" using flow_on [OF built fl e] by simp
    have "rev_edge (2 * k) < length (nw_to ?g0)" using e ev by (simp add: rev_edge_less)
    then have "0 \<le> flowOn net (2 * k)" using cap by (simp add: flowOn_def)
    then show "0 \<le> ?f (2 * k)" using 1 by simp
    have "?f (2 * k) \<le> nw_cap ?g0 ! (2 * k)" using fl e by (simp add: is_flow_def)
    also have "nw_cap ?g0 ! (2 * k) = snd (snd (?xs ! k))" using build_nth(3) [OF k, of "fst (?xs ! k)" "fst (snd (?xs ! k))" "snd (snd (?xs ! k))"] by (simp add: net_at_def)
    finally show "?f (2 * k) \<le> snd (snd (?xs ! k))" .
  qed
  have lens: "length ?xs = ?b + ?n" "?b = length ?A + length (gr_Src g)" by (simp_all add: fixed_edges_def sink_edges_nth judgement_edges_nth)
  have got: "flowOn net (sinks ! i) = ?f (2 * (?b + i))" "0 \<le> ?f (2 * (?b + i))" "own_of g extra i + ?f (2 * (?b + i)) \<le> gr_Cap g ! i" if i: "i < ?n" for i
    using on [of "?b + i"] i lens(1) st by (auto simp: sinks_def sink_edges_nth setting_ok_def)
  have edge: "fl' = ?f (2 * (length ?A + k)) \<Longrightarrow> flowOn net (ids ! k) = fl' \<and> 0 \<le> fl' \<and> fl' \<le> gr_EdgeCap g ! k" if k: "k < length (gr_Src g)" for k fl'
    using on [of "length ?A + k"] k lens by (auto simp: ids_def fixed_edges_def nth_append judgement_edges_nth)
  have src: "?f (2 * k) \<le> world_of g extra (offered g extra ! k) - own_of g extra (offered g extra ! k)" "0 \<le> ?f (2 * k)" if k: "k < length (offered g extra)" for k
    using on [of k] k lens by (auto simp: fixed_edges_def nth_append sources_offered)
  have pass: "passed_on ins net i = (\<Sum>k | k < length ?A \<and> fst (snd (?A ! k)) = i. ?f (2 * k))" if i: "i < ?n" for i
  proof -
    have "passed_on ins net i = (case ins ! i of Some e \<Rightarrow> ?f e | None \<Rightarrow> 0)"
      using ins(2) i on(1) lens by (fastforce simp: passed_on_def source_id_def split: option.splits)
    then show ?thesis using passed_on_sum [OF ins(2) [rule_format, OF i] i] by simp
  qed
  have pb: "0 \<le> passed_on ins net i \<and> passed_on ins net i \<le> world_of g extra i - own_of g extra i" if i: "i < ?n" for i
  proof (cases "ins ! i")
    case None
    then show ?thesis using own_bounds(3) [OF ok i] by (simp add: passed_on_def)
  next
    case (Some e)
    then obtain k where k: "k < length (offered g extra)" "e = 2 * k" "offered g extra ! k = i"
      using ins(2) [rule_format, OF i] by (auto simp: source_id_def sources_offered)
    then have "passed_on ins net i = ?f (2 * k)" using Some on(1) [of k] lens by (simp add: passed_on_def sources_offered)
    then show ?thesis using src [OF k(1)] k(3) by simp
  qed
  have kept: "0 \<le> kept_of g ins sinks net i" "kept_of g ins sinks net i \<le> passed_on ins net i" "kept_of g ins sinks net i \<le> ?f (2 * (?b + i))" if i: "i < ?n" for i
    using pb [OF i] got [OF i] by (auto simp: kept_of_def split: option.splits)
  have total: "(\<Sum>i<?n. own_of g extra i + ?f (2 * (?b + i))) \<le> (\<Sum>i<?n. world_of g extra i)"
  proof -
    have "(\<Sum>i<?n. ?f (2 * (?b + i))) = (\<Sum>k<length (offered g extra). ?f (2 * k))" using flow_balance(1) [OF ok(1) built fl] by (simp add: sources_offered)
    also have "\<dots> \<le> (\<Sum>i<?n. world_of g extra i - own_of g extra i)" using own_bounds(3) [OF ok] src(1) by (intro sum_offered) auto
    finally show ?thesis by (simp add: sum.distrib sum_subtractf)
  qed
  have edges: "(\<Sum>k | k < length (gr_Src g) \<and> P k. flowOn net (ids ! k)) = (\<Sum>k | k < length (gr_Src g) \<and> P k. ?f (2 * (length ?A + k)))" for P
    using edge by (intro sum.cong) auto
  have node: "own_of g extra i + flowOn net (sinks ! i) + (\<Sum>k | k < length (gr_Src g) \<and> gr_Src g ! k = i. flowOn net (ids ! k))
      = own_of g extra i + passed_on ins net i + (\<Sum>k | k < length (gr_Src g) \<and> gr_Dst g ! k = i. flowOn net (ids ! k))" if i: "i < ?n" for i
    using flow_balance(2) [OF ok(1) built fl i] pass [OF i] got(1) [OF i] by (simp add: edges)
  let ?res = "\<lparr>fr_Standing = map (\<lambda>i. own_of g extra i + flowOn net (sinks ! i)) [0..<?n],
                  fr_Own = map (\<lambda>i. own_of g extra i + kept_of g ins sinks net i) [0..<?n],
                  fr_Passed = map (\<lambda>i. passed_on ins net i - kept_of g ins sinks net i) [0..<?n],
                  fr_edge = map (flowOn net) ids, fr_work = wrk\<rparr>"
  have il: "length ids = length (gr_Src g)" by (simp add: ids_def)
  have at: "fr_Standing ?res ! i = own_of g extra i + ?f (2 * (?b + i))" "fr_Own ?res ! i = own_of g extra i + kept_of g ins sinks net i"
    "fr_Passed ?res ! i = passed_on ins net i - kept_of g ins sinks net i" if "i < ?n" for i using that got(1) by simp_all
  have ae: "fr_edge ?res ! k = flowOn net (ids ! k)" if "k < length (gr_Src g)" for k using that il by simp
  have sums: "(\<Sum>k | k < length (gr_Src g) \<and> P k. fr_edge ?res ! k) = (\<Sum>k | k < length (gr_Src g) \<and> P k. flowOn net (ids ! k))" for P
    using ae by (intro sum.cong) auto
  have "0 \<le> fr_Own ?res ! i \<and> fr_Own ?res ! i \<le> fr_Standing ?res ! i \<and> fr_Standing ?res ! i \<le> gr_Cap g ! i
      \<and> 0 \<le> fr_Passed ?res ! i \<and> fr_Own ?res ! i + fr_Passed ?res ! i \<le> world_of g extra i
      \<and> fr_Standing ?res ! i + (\<Sum>k | k < length (gr_Src g) \<and> gr_Src g ! k = i. fr_edge ?res ! k)
        = fr_Own ?res ! i + fr_Passed ?res ! i + (\<Sum>k | k < length (gr_Src g) \<and> gr_Dst g ! k = i. fr_edge ?res ! k)" if i: "i < ?n" for i
    unfolding at [OF i] sums using node [OF i] got [OF i] kept [OF i] pb [OF i] own_bounds(1) [OF ok i] by auto
  moreover have "0 \<le> fr_edge ?res ! k \<and> fr_edge ?res ! k \<le> gr_EdgeCap g ! k" if "k < length (gr_Src g)" for k using ae edge that by simp
  moreover have "(\<Sum>i<?n. fr_Standing ?res ! i) \<le> (\<Sum>i<?n. world_of g extra i)" using total at(1) by simp
  ultimately show ?thesis unfolding flow_sound_def Let_def using il by simp
qed

lemma flow_ends:
  assumes ok: "graph_ok g" "extra_ok g extra"
  shows "\<exists>res err. flow ctx g extra mw w = Some (res, err) \<and> (err = None \<longrightarrow> flow_sound g extra res) \<and> (err \<noteq> None \<longrightarrow> mw < fr_work res \<or> ctx (fr_work res))"
proof (cases "gr_Labels g = []")
  case True
  then have "gr_Src g = []" using ok(1) by (auto simp: graph_ok_def Let_def)
  then show ?thesis using True by (simp add: flow_def flow_sound_def Let_def)
next
  case False
  let ?n = "length (gr_Labels g)" and ?st = "replicate (length (gr_Labels g)) 0" and ?A = "source_edges g extra [0..<length (gr_Labels g)]"
  obtain ins where src: "add_sources g extra (newNetwork (?n + 2) mw w) = (ins, build (?n + 2) mw w ?A)" "length ins = ?n"
    "\<forall>i<?n. source_id g extra ?A (ins ! i) i" using add_sources_build [of g extra "?n + 2" mw w] by blast
  let ?ids = "map (\<lambda>k. 2 * (length ?A + k)) [0..<length (gr_Src g)]" and ?sinks = "map (\<lambda>k. 2 * (length (fixed_edges g extra) + k)) [0..<?n]"
  have jd: "add_judgements g (build (?n + 2) mw w ?A) = (?ids, build (?n + 2) mw w (fixed_edges g extra))"
    by (simp add: add_judgements_build fixed_edges_def)
  have sk: "add_sinks g (build (?n + 2) mw w (fixed_edges g extra)) = (?sinks, net_at g extra mw w ?st)"
    by (simp add: add_sinks_build net_at_def)
  have st0: "setting_ok g extra ?st" using own_bounds(2) [OF ok] by (simp add: setting_ok_def)
  have run0: "runs_from (?n + 2) ?n (?n + 1) (net_at g extra mw w ?st) (net_at g extra mw w ?st)"
    by (rule built_runs) (use built_net_at [OF ok] in simp)
  have lv: "sorted_wrt (<) (gr_Levels g)" using ok(1) by (simp add: graph_ok_def Let_def)
  obtain r net where f: "fill_levels ctx g extra ?sinks (gr_Levels g) ?st (net_at g extra mw w ?st) = Some (r, net)"
    "r = Inr () \<longrightarrow> (\<exists>st'. setting_ok g extra st' \<and> runs_from (?n + 2) ?n (?n + 1) (net_at g extra mw w st') net)"
    "r \<noteq> Inr () \<longrightarrow> stopped ctx mw net"
    using fill_levels_ends [OF ok False _ run0 st0 lv, of ?sinks ctx] by (auto simp: want_of_def)
  show ?thesis
  proof (cases r)
    case (Inl e)
    then have "mw < nw_work net \<or> ctx (nw_work net)" using f(3) by (simp add: stopped_def)
    then show ?thesis unfolding flow_def Let_def src(1) prod.case jd sk f(1) using Inl False by simp
  next
    case (Inr u)
    then obtain st' where "setting_ok g extra st'" "runs_from (?n + 2) ?n (?n + 1) (net_at g extra mw w st') net" using f(2) by auto
    from flow_sound_run [OF ok this src(2,3), of "nw_work net"] show ?thesis
      unfolding flow_def Let_def src(1) prod.case jd sk f(1) using Inr False by simp
  qed
qed

section \<open>Well-formed graphs\<close>

text \<open>
  The graphs a run makes are well formed: the levels ascend, the edges join nodes of the graph, nobody
  offers more than it keeps. The viewer's flow starts from such a graph too.
\<close>

section \<open>Levels\<close>

lemma add_level_sorted: "sorted_wrt (<) (0 # out) \<Longrightarrow> sorted_wrt (<) (0 # add_level out l)"
proof (cases out rule: rev_cases)
  case (snoc xs x)
  assume "sorted_wrt (<) (0 # out)"
  then show ?thesis by (force simp: add_level_def snoc sorted_wrt_append)
qed (simp add: add_level_def)

lemma add_levels_sorted: "sorted_wrt (<) (0 # out) \<Longrightarrow> sorted_wrt (<) (0 # foldl (\<lambda>out l. add_level out (min l c)) out ls)"
  by (induction ls arbitrary: out) (simp_all add: add_level_sorted del: sorted_wrt.simps)

lemma flowLevels_sorted: "sorted_wrt (<) (0 # flowLevels U c)"
  unfolding flowLevels_def by (rule add_levels_sorted) simp

lemma foldl_add_level:
  "\<forall>l\<in>set ls. 0 < l \<Longrightarrow> foldl (\<lambda>out l. if out = [] \<or> l > last out then out @ [l] else out) out ls = foldl add_level out ls"
  by (induction ls arbitrary: out) (simp_all add: add_level_def)

lemma passFlowLevels_sorted: "sorted_wrt (<) (0 # passFlowLevels U c)"
proof -
  let ?out = "foldl (\<lambda>out l. add_level out (min l c)) [] [U sdiv 64, U sdiv 32, U sdiv 16]"
  have pos: "\<forall>l\<in>set (flowLevels U c). 0 < l" using flowLevels_sorted [of U c] by simp
  have "sorted_wrt (<) (0 # ?out)" by (rule add_levels_sorted) simp
  moreover have "sorted_wrt (<) (0 # foldl add_level out ls)" if "sorted_wrt (<) (0 # out)" for out ls
    using that by (induction ls arbitrary: out) (simp_all add: add_level_sorted del: sorted_wrt.simps)
  ultimately show ?thesis unfolding passFlowLevels_def Let_def foldl_add_level [OF pos] by blast
qed

section \<open>Nodes, edges and pass shares\<close>

definition world_ok :: "(string \<Rightarrow> int) \<Rightarrow> trust_Params \<Rightarrow> bool" where
  "world_ok worldMC p \<longleftrightarrow> (\<forall>a. 0 \<le> worldMC a) \<and> 0 \<le> tp_NodeCapCents p \<and> tp_PassSharePPM p \<le> 1000000"

lemma sum_list_nonneg_map: "(\<And>a. 0 \<le> f a) \<Longrightarrow> 0 \<le> sum_list (map f xs)" for f :: "'a \<Rightarrow> int"
  by (induction xs) (simp_all add: add_nonneg_nonneg)

lemma index_less: "map_of (zip xs [0..<length xs]) x = Some i \<Longrightarrow> i < length xs"
  by (auto dest!: map_of_SomeD simp: set_zip)

lemma newGraph_ok:
  assumes "world_ok worldMC (rn_p r)"
  shows "graph_ok (newGraph r worldMC member liable)" "gr_Index (newGraph r worldMC member liable) = zip (gr_Labels (newGraph r worldMC member liable)) [0..<length (gr_Labels (newGraph r worldMC member liable))]"
proof -
  have w: "0 \<le> sum_list (map worldMC xs)" for xs using assms by (intro sum_list_nonneg_map) (simp add: world_ok_def)
  have c: "0 \<le> tp_NodeCapCents (rn_p r) * mc" using assms by (simp add: world_ok_def mc_def)
  show "graph_ok (newGraph r worldMC member liable)"
    using w c flowLevels_sorted passFlowLevels_sorted by (auto simp: newGraph_def graph_ok_def Let_def MulDiv_mulDiv split: option.splits)
  show "gr_Index (newGraph r worldMC member liable) = zip (gr_Labels (newGraph r worldMC member liable)) [0..<length (gr_Labels (newGraph r worldMC member liable))]"
    by (simp add: newGraph_def Let_def)
qed

lemma setPass_ok:
  assumes "graph_ok (g\<lparr>gr_Pass := None\<rparr>)" "passPPM \<le> 1000000"
  shows "graph_ok (setPass passPPM g)"
proof (cases "passPPM \<le> 0")
  case True
  then show ?thesis using assms by (simp add: setPass_def)
next
  case False
  let ?n = "length (gr_Labels g)"
  define out where "out = foldl (\<lambda>out k. let s = gr_Src g ! k in out[s := min (out ! s + gr_EdgeCap g ! k) (2 ^ 60)]) (replicate ?n 0) [0..<length (gr_Src g)]"
  define ps where "ps = map (\<lambda>i. let keep = min (gr_World g ! i) (gr_Cap g ! i); surplus = gr_World g ! i - keep in
     min (max 0 (MulDiv keep passPPM 1000000 - surplus)) (max 0 (out ! i - surplus))) [0..<?n]"
  have eq: "setPass passPPM g = g\<lparr>gr_Pass := Some ps\<rparr>" using False by (simp add: setPass_def out_def ps_def Let_def)
  have "0 \<le> ps ! i \<and> ps ! i \<le> min (gr_World g ! i) (gr_Cap g ! i)" if i: "i < ?n" for i
  proof -
    let ?keep = "min (gr_World g ! i) (gr_Cap g ! i)"
    have k: "0 \<le> ?keep" "?keep \<le> gr_World g ! i" using assms(1) i by (auto simp: graph_ok_def Let_def)
    have "mulDiv ?keep passPPM 1000000 \<le> ?keep" using k assms(2) by (intro mulDiv_le) auto
    moreover have "ps ! i = min (max 0 (mulDiv ?keep passPPM 1000000 - (gr_World g ! i - ?keep))) (max 0 (out ! i - (gr_World g ! i - ?keep)))"
      using i by (simp add: ps_def Let_def MulDiv_mulDiv)
    ultimately show ?thesis using k by linarith
  qed
  moreover have "length ps = ?n" by (simp add: ps_def)
  ultimately show ?thesis using assms(1) unfolding eq by (simp add: graph_ok_def Let_def)
qed

lemma index_ok: "gr_Index g = zip (gr_Labels g) [0..<length (gr_Labels g)] \<Longrightarrow> map_of (gr_Index g) R = Some i \<Longrightarrow> i < length (gr_Labels g)"
  using index_less by metis

lemma in_map_filter: "y \<in> set (List.map_filter f xs) \<longleftrightarrow> (\<exists>x\<in>set xs. f x = Some y)"
  by (force simp: List.map_filter_def)

lemma edge_targets_less:
  assumes "gr_Index g = zip (gr_Labels g) [0..<length (gr_Labels g)]" "d \<in> set (edge_targets g r js member s)"
  shows "d < length (gr_Labels g)"
  using assms(2) index_ok [OF assms(1)] by (auto simp: edge_targets_def in_map_filter Let_def split: if_splits)

lemma all_edges_nodes:
  assumes "gr_Index g = zip (gr_Labels g) [0..<length (gr_Labels g)]" "((u, v), share, w) \<in> set (all_edges g r js acc member)"
  shows "u < length (gr_Labels g)" "v < length (gr_Labels g)" "u \<noteq> v"
proof -
  obtain s e where "((u, v), share, w) \<in> set (entry_edges g r acc member (edge_targets g r js member s) e)"
    using assms(2) by (auto simp: all_edges_def)
  then show "u < length (gr_Labels g)" "v < length (gr_Labels g)" "u \<noteq> v"
    using edge_targets_less [OF assms(1)] index_ok [OF assms(1)]
    by (auto simp: entry_edges_def Let_def split: if_splits option.splits)
qed

lemma setEdges_ok:
  assumes "graph_ok g" "gr_Index g = zip (gr_Labels g) [0..<length (gr_Labels g)]" "tp_PassSharePPM (rn_p r) \<le> 1000000"
  shows "graph_ok (setEdges r js acc member liable g)"
proof -
  let ?es = "all_edges g r js acc member"
  let ?cap = "\<lambda>k. case liable (gr_Labels g ! fst k) of Some f \<Rightarrow> MulDiv (sum_list (map (fst \<circ> snd) (filter (\<lambda>e. fst e = k) ?es))) (1000000 - f) 1000000
     | None \<Rightarrow> sum_list (map (fst \<circ> snd) (filter (\<lambda>e. fst e = k) ?es))"
  let ?kept = "filter (\<lambda>k. ?cap k > 0) (sort (remdups (map fst ?es)))"
  have in_range: "fst k < length (gr_Labels g) \<and> snd k < length (gr_Labels g) \<and> 0 < ?cap k" if "k \<in> set ?kept" for k
  proof -
    from that obtain share w where "(k, share, w) \<in> set ?es" by auto
    then show ?thesis using all_edges_nodes [OF assms(2), of "fst k" "snd k" share w] that by simp
  qed
  have "setEdges r js acc member liable g = setPass (tp_PassSharePPM (rn_p r)) (g\<lparr>gr_recent := filter (\<lambda>w. re_at w \<ge> rn_asOf r - pe_BackerEdgeDays (tp_Penalty (rn_p r)) * day_seconds) (map (snd \<circ> snd) ?es),
      gr_Src := map fst ?kept, gr_Dst := map snd ?kept, gr_EdgeCap := map ?cap ?kept\<rparr>)"
    by (simp add: setEdges_def Let_def)
  moreover have "\<forall>k<length ?kept. fst (?kept ! k) < length (gr_Labels g) \<and> snd (?kept ! k) < length (gr_Labels g) \<and> 0 < ?cap (?kept ! k)"
    using in_range nth_mem by blast
  ultimately show ?thesis using assms(1,3) by (simp only:) (rule setPass_ok, simp add: graph_ok_def Let_def)
qed

section \<open>The viewer\<close>

lemma viewer_extra_ok: "graph_ok g \<Longrightarrow> v < length (gr_Labels g) \<Longrightarrow> extra_ok g (Some (viewer_extra g v))"
proof -
  assume g: "graph_ok g" and v: "v < length (gr_Labels g)"
  have "0 \<le> sum_list (map (\<lambda>k. gr_EdgeCap g ! k) (filter (\<lambda>k. gr_Src g ! k = v) [0..<length (gr_Src g)]))"
    using g by (intro sum_list_nonneg) (auto simp: graph_ok_def Let_def less_imp_le)
  then show ?thesis using g v by (auto simp: extra_ok_def viewer_extra_def nth_list_update graph_ok_def Let_def)
qed

end
