(* ===== verification/Trust_Roots.thy ===== *)
theory Trust_Roots
  imports Trust_Standing Params
begin

text \<open>
  What proofs are worth (\<open>internal/trust/roots.go\<close>): assessed roots under their pricing rows, accounts by
  age and activity, domains by age and rank, and the integer logarithm of a rank.
\<close>

definition AssessCapped :: string where "AssessCapped = ''capped''"

definition AssessSaturating :: string where "AssessSaturating = ''saturating''"

definition assessedMax :: int where "assessedMax = 10 ^ 15"

definition PowUnitBits :: int where "PowUnitBits = 20"

definition assessed_row :: "int \<Rightarrow> int \<Rightarrow> string \<Rightarrow> int \<Rightarrow> int \<Rightarrow> ProofPrice" where
  "assessed_row forge rent rule units fallback = \<lparr>pr_Forge = forge, pr_Rent = rent, pr_Curve = ''none'', pr_HalfLifeDays = 0, pr_DayFactorPPM = 0, pr_Assess = rule, pr_UnitsPerCent = units,
     pr_AgeCents = 0, pr_RankCents = 0, pr_FallbackCents = fallback\<rparr>"

definition assessedRows :: "(string \<times> ProofPrice) list" where
  "assessedRows = [(''wallet'', assessed_row 5000 600 AssessCapped 1 0), (''github'', assessed_row 2000 300 AssessCapped 1 0),
     (''pow'', assessed_row 50 50 AssessSaturating 2158000 0)]"

definition WalletFallbackCents :: int where "WalletFallbackCents = 50"

definition proofRowsV9 :: "(string \<times> ProofPrice) list" where
  "proofRowsV9 = (let row = (\<lambda>forge rent. assessed_row forge rent AssessCapped 1 0) in
     [(''google'', row 200 50), (''telegram'', row 200 50), (''discord'', row 500 100), (''x'', row 1500 150),
      (''reddit'', row 2000 200), (''huggingface'', row 1000 150), (''farcaster'', row 1000 200), (''ens'', row 500 200),
      (''npm'', row 1000 200), (''pypi'', row 1000 200), (''bond'', row 500 500), (''wallet'', assessed_row 5000 600 AssessCapped 1 WalletFallbackCents)])"

text \<open>
  \<open>DayFactor\<close> computes in \<open>float64\<close> with \<open>math.Pow\<close> and \<open>math.Round\<close>; the model is its expression over the real
  numbers, as \<open>RatePPM\<close> of the ledger. \<open>DayFactor_code\<close> makes it executable: a million less that rate.
\<close>

definition DayFactor :: "int \<Rightarrow> int" where
  "DayFactor halfLifeDays = (if halfLifeDays \<le> 0 then 0 else math_Round (10 ^ 6 * (2 powr (- 1 / real_of_int halfLifeDays))))"

definition AccountCents :: "int \<Rightarrow> int \<Rightarrow> int \<Rightarrow> int \<Rightarrow> int \<Rightarrow> int \<Rightarrow> int" where
  "AccountCents ageDays ageCents halfLifeDays n countCents half =
     (let c = (if ageCents > 0 \<and> halfLifeDays > 0 then ageCents * ramp (DayFactor halfLifeDays) (max 0 ageDays) sdiv 1000000 else 0);
          m = min (max 0 n) (10 ^ 12)
      in if countCents > 0 \<and> half > 0 \<and> m > 0 then c + MulDiv countCents m (m + half) else c)"

definition AssessedValue :: "ProofPrice \<Rightarrow> int \<Rightarrow> int" where
  "AssessedValue price assessed =
     (if pr_UnitsPerCent price \<le> 0 \<or> assessed \<le> 0 then 0
      else let ceiling = min (pr_Forge price) (pr_Rent price); a = min assessed assessedMax in
        if pr_Assess price = AssessCapped then min ceiling (a sdiv pr_UnitsPerCent price)
        else if pr_Assess price = AssessSaturating then MulDiv ceiling a (a + ceiling * pr_UnitsPerCent price)
        else 0)"

definition AssessedContribution :: "ProofPrice \<Rightarrow> int \<Rightarrow> int" where
  "AssessedContribution price assessed =
     (let v = AssessedValue price assessed in
      if pr_UnitsPerCent price > 0 \<and> pr_Assess price = AssessCapped
      then max v (min (min (pr_Forge price) (pr_Rent price)) (max 0 (pr_FallbackCents price))) else v)"

definition GitHubAgeCents :: int where "GitHubAgeCents = 200"

definition GitHubActivityCents :: int where "GitHubActivityCents = 100"

definition GitHubActivityHalf :: int where "GitHubActivityHalf = 20"

definition githubAgeHalfLife :: int where "githubAgeHalfLife = 365"

definition GitHubCents :: "int \<Rightarrow> int \<Rightarrow> int \<Rightarrow> int" where
  "GitHubCents ageDays repos followers =
     (let age = GitHubAgeCents * ramp (DayFactor githubAgeHalfLife) (max 0 ageDays) sdiv 1000000;
          s = min (max 0 repos) 1000000 + min (max 0 followers) 1000000
      in age + GitHubActivityCents * s sdiv (s + GitHubActivityHalf))"

definition PowUnits :: "int \<Rightarrow> int" where
  "PowUnits bits = (if bits < PowUnitBits \<or> bits > 62 then 0 else 2 ^ nat (bits - PowUnitBits))"

text \<open>
  One step of the logarithm: the square of a number in Q62, with its bit. The product of two values below
  \<open>2^63\<close> shifted by 62 fits a word, so the shifts of its two halves are a division.
\<close>

definition log_step :: "nat \<times> nat \<Rightarrow> nat \<times> nat" where
  "log_step = (\<lambda>(y, frac). let z = y * y div 2 ^ 62 in if z \<ge> 2 ^ 63 then (z div 2, 2 * frac + 1) else (z, 2 * frac))"

definition log2Ten :: int where "log2Ten = 3566893132"

definition Log10PPM :: "int \<Rightarrow> int" where
  "Log10PPM n =
     (if n \<le> 1 then 0
      else let k = Len64 (nat n) - 1; y = nat n * 2 ^ (62 - k); frac = snd (foldl (\<lambda>st _. log_step st) (y, 0) [0..<30]) in
        MulDiv (int (k * 2 ^ 30 + frac)) 1000000 log2Ten)"

definition DomainContribution :: "ProofPrice \<Rightarrow> int \<Rightarrow> int \<Rightarrow> int \<Rightarrow> int" where
  "DomainContribution price ageDays registered rank =
     (let cap = min (pr_Forge price) (pr_Rent price) in
      if registered \<le> 0 \<and> rank \<le> 0 then min (pr_FallbackCents price) cap
      else let c = (if registered > 0 then pr_AgeCents price * ramp (pr_DayFactorPPM price) (max 0 ageDays) sdiv 1000000 else 0);
               l = Log10PPM rank;
               c' = (if rank > 0 \<and> l < 6000000 then c + MulDiv (pr_RankCents price) (6000000 - l) 6000000 else c)
           in min c' cap)"

section \<open>Curves stay within a million\<close>

lemma decay_step_bounds: "0 \<le> (factor::int) \<Longrightarrow> factor \<le> 1000000 \<Longrightarrow> 0 \<le> ((\<lambda>v. v * factor sdiv 1000000) ^^ m) 1000000 \<and> ((\<lambda>v. v * factor sdiv 1000000) ^^ m) 1000000 \<le> 1000000"
proof (induction m)
  case (Suc m)
  let ?v = "((\<lambda>v. v * factor sdiv 1000000) ^^ m) 1000000"
  have v: "0 \<le> ?v" "?v \<le> 1000000" using Suc by auto
  then have "?v * factor \<le> 1000000 * 1000000" using Suc.prems by (intro mult_mono) auto
  then have "?v * factor div 1000000 \<le> 1000000" using zdiv_mono1 [of "?v * factor" "1000000 * 1000000" 1000000] by simp
  then show ?case using v Suc.prems by (simp add: sdiv_nonneg pos_imp_zdiv_nonneg_iff)
qed simp

lemma ramp_bounds: "0 \<le> factor \<Longrightarrow> factor \<le> 1000000 \<Longrightarrow> 0 \<le> ramp factor days \<and> ramp factor days \<le> 1000000"
  using decay_step_bounds [of factor] by (simp add: ramp_def decay_ppm_def)

lemma DayFactor_code [code]: "DayFactor h = (if h \<le> 0 then 0 else 1000000 - RatePPM h)"
proof (cases "h \<le> 0")
  case False
  then have h: "0 < h" by simp
  let ?z = "(1 - 2 powr (- 1 / real_of_int h)) * 10 ^ 6"
  have z: "0 \<le> ?z" "?z \<le> 10 ^ 6" using Exp2_day [OF h] by (simp_all add: Exp2_def)
  then have r: "RatePPM h = \<lfloor>?z + 1 / 2\<rfloor>" using h by (simp add: RatePPM_def math_Round_def Exp2_def)
  have "real_of_int (RatePPM h) \<noteq> ?z + 1 / 2" using rate_not_half [of "nat h" "RatePPM h"] h by simp
  then have "real_of_int (RatePPM h) < ?z + 1 / 2" "?z + 1 / 2 < real_of_int (RatePPM h) + 1"
    using of_int_floor_le [of "?z + 1 / 2"] real_of_int_floor_add_one_gt [of "?z + 1 / 2"] unfolding r by linarith+
  then have "\<lfloor>10 ^ 6 - ?z + 1 / 2\<rfloor> = 1000000 - RatePPM h" unfolding floor_eq_iff by simp
  moreover have "10 ^ 6 * 2 powr (- 1 / real_of_int h) = 10 ^ 6 - ?z" by (simp add: algebra_simps)
  ultimately show ?thesis using h z by (simp add: DayFactor_def math_Round_def mult.commute)
qed (simp add: DayFactor_def)

lemma DayFactor_bounds: "0 \<le> DayFactor h \<and> DayFactor h \<le> 1000000"
proof (cases "0 < h")
  case True
  let ?z = "10 ^ 6 * 2 powr (- 1 / real_of_int h)"
  have z: "0 \<le> ?z" "?z \<le> real_of_int 1000000" using Exp2_day [OF True] by (simp_all add: Exp2_def)
  have "math_Round (real_of_int 0) \<le> math_Round ?z" using z(1) by (intro math_Round_mono) simp_all
  moreover have "math_Round ?z \<le> math_Round (real_of_int 1000000)" by (rule math_Round_mono [OF z])
  ultimately show ?thesis using True by (simp only: math_Round_int) (simp add: DayFactor_def)
qed (simp add: DayFactor_def)

lemma part_bounds: "0 \<le> c \<Longrightarrow> 0 \<le> x \<Longrightarrow> x \<le> 1000000 \<Longrightarrow> 0 \<le> c * x sdiv 1000000 \<and> c * x sdiv 1000000 \<le> (c::int)"
proof -
  assume "0 \<le> c" "0 \<le> x" "x \<le> 1000000"
  moreover from this have "c * x div 1000000 \<le> c * 1000000 div 1000000" by (intro zdiv_mono1 mult_left_mono) auto
  ultimately show ?thesis by (simp add: sdiv_nonneg pos_imp_zdiv_nonneg_iff)
qed

section \<open>Prices stay within their rows\<close>

text \<open>The saturating share of a ceiling stays below it.\<close>

lemma share_below: "0 < c \<Longrightarrow> 0 < a \<Longrightarrow> 0 < u \<Longrightarrow> mulDiv c a (a + c * u) < c"
proof -
  assume p: "0 < c" "0 < a" "0 < u"
  then have d: "0 < c * u" by simp
  have "c * a < c * (a + c * u)" using p(1) d by (intro mult_strict_left_mono) simp_all
  then have "c * a div (a + c * u) < c" using p(2) d by (intro div_less_int) simp_all
  moreover have "mulDiv c a (a + c * u) \<le> c * a div (a + c * u)" using p add_pos_pos [OF p(2) d] by (simp add: mulDiv_eq)
  ultimately show ?thesis by (rule le_less_trans [rotated])
qed

lemma AssessedValue_cases:
  obtains "AssessedValue price assessed = 0"
  | a where "0 < a" "0 < pr_UnitsPerCent price" "AssessedValue price assessed = min (min (pr_Forge price) (pr_Rent price)) (a sdiv pr_UnitsPerCent price)" "pr_Assess price = AssessCapped"
  | a where "0 < a" "0 < pr_UnitsPerCent price" "pr_Assess price = AssessSaturating"
      "AssessedValue price assessed = mulDiv (min (pr_Forge price) (pr_Rent price)) a (a + min (pr_Forge price) (pr_Rent price) * pr_UnitsPerCent price)"
proof (cases "pr_UnitsPerCent price \<le> 0 \<or> assessed \<le> 0")
  case True
  then show ?thesis using that(1) by (simp add: AssessedValue_def)
next
  case False
  then have a: "0 < min assessed assessedMax" "0 < pr_UnitsPerCent price" by (simp_all add: assessedMax_def)
  have v: "AssessedValue price assessed =
      (if pr_Assess price = AssessCapped then min (min (pr_Forge price) (pr_Rent price)) (min assessed assessedMax sdiv pr_UnitsPerCent price)
       else if pr_Assess price = AssessSaturating then mulDiv (min (pr_Forge price) (pr_Rent price)) (min assessed assessedMax)
         (min assessed assessedMax + min (pr_Forge price) (pr_Rent price) * pr_UnitsPerCent price) else 0)"
    using False by (simp only: AssessedValue_def Let_def MulDiv_mulDiv if_False)
  consider "pr_Assess price = AssessCapped" | "pr_Assess price \<noteq> AssessCapped" "pr_Assess price = AssessSaturating"
    | "pr_Assess price \<noteq> AssessCapped" "pr_Assess price \<noteq> AssessSaturating" by blast
  then show ?thesis
  proof cases
    case 1
    show ?thesis by (rule that(2) [OF a _ 1]) (simp only: v 1 if_True simp_thms)
  next
    case 2
    show ?thesis by (rule that(3) [OF a 2(2)]) (use 2 in \<open>simp only: v if_False if_True simp_thms\<close>)
  next
    case 3
    show ?thesis by (rule that(1)) (use 3 in \<open>simp only: v if_False simp_thms\<close>)
  qed
qed

lemma AssessedValue_bounds:
  assumes "0 \<le> pr_Forge price" "0 \<le> pr_Rent price"
  shows "0 \<le> AssessedValue price assessed \<and> AssessedValue price assessed \<le> min (pr_Forge price) (pr_Rent price)"
proof -
  define c where "c = min (pr_Forge price) (pr_Rent price)"
  have c: "0 \<le> c" using assms by (simp add: c_def)
  show ?thesis unfolding c_def [symmetric]
  proof (cases price assessed rule: AssessedValue_cases)
    case (2 a)
    moreover have "0 \<le> a sdiv pr_UnitsPerCent price" using 2(1,2) by (simp add: sdiv_nonneg pos_imp_zdiv_nonneg_iff)
    ultimately show "0 \<le> AssessedValue price assessed \<and> AssessedValue price assessed \<le> c" using c by (simp add: c_def [symmetric])
  next
    case (3 a)
    have "0 \<le> c * pr_UnitsPerCent price" using c 3(2) by simp
    then have "mulDiv c a (a + c * pr_UnitsPerCent price) \<le> c" using c by (intro mulDiv_le) simp_all
    then show "0 \<le> AssessedValue price assessed \<and> AssessedValue price assessed \<le> c" using 3(4) by (simp add: c_def [symmetric])
  qed (use c in simp)
qed

lemma AssessedContribution_bounds:
  assumes "0 \<le> pr_Forge price" "0 \<le> pr_Rent price"
  shows "0 \<le> AssessedContribution price assessed \<and> AssessedContribution price assessed \<le> min (pr_Forge price) (pr_Rent price)"
  using AssessedValue_bounds [OF assms, of assessed] by (simp add: AssessedContribution_def Let_def le_max_iff_disj min.coboundedI1)

lemma AssessedSaturating_below:
  assumes "0 < pr_Forge price" "0 < pr_Rent price" "pr_Assess price = AssessSaturating"
  shows "AssessedContribution price assessed < min (pr_Forge price) (pr_Rent price)"
proof -
  have v: "AssessedContribution price assessed = AssessedValue price assessed"
    using assms(3) by (simp add: AssessedContribution_def Let_def AssessCapped_def AssessSaturating_def)
  have c: "0 < min (pr_Forge price) (pr_Rent price)" using assms by simp
  show ?thesis unfolding v
    by (cases price assessed rule: AssessedValue_cases) (use c assms(3) share_below [OF c] in \<open>auto simp: AssessCapped_def AssessSaturating_def\<close>)
qed

lemma if_le: "x \<le> c \<Longrightarrow> y \<le> c \<Longrightarrow> (if b then x else y) \<le> (c::int)"
  by simp

lemma DomainContribution_le: "DomainContribution price ageDays registered rank \<le> min (pr_Forge price) (pr_Rent price)"
  unfolding DomainContribution_def Let_def by (intro if_le min.cobounded2)

lemma AccountCents_bounds:
  assumes "0 \<le> ageCents" "0 \<le> countCents"
  shows "0 \<le> AccountCents ageDays ageCents h n countCents half \<and> AccountCents ageDays ageCents h n countCents half \<le> ageCents + countCents"
proof -
  define c where "c = (if ageCents > 0 \<and> h > 0 then ageCents * ramp (DayFactor h) (max 0 ageDays) sdiv 1000000 else 0)"
  define m where "m = min (max 0 n) (10 ^ 12)"
  have "0 \<le> ageCents * ramp (DayFactor h) (max 0 ageDays) sdiv 1000000 \<and> ageCents * ramp (DayFactor h) (max 0 ageDays) sdiv 1000000 \<le> ageCents"
    using assms ramp_bounds DayFactor_bounds by (intro part_bounds) auto
  then have "0 \<le> c" "c \<le> ageCents" using assms by (auto simp: c_def)
  moreover have "half > 0 \<Longrightarrow> mulDiv countCents m (m + half) \<le> countCents" using assms by (intro mulDiv_le) auto
  moreover have "AccountCents ageDays ageCents h n countCents half = (if countCents > 0 \<and> half > 0 \<and> m > 0 then c + mulDiv countCents m (m + half) else c)"
    by (simp only: AccountCents_def Let_def MulDiv_mulDiv c_def m_def)
  ultimately show ?thesis using assms by (auto simp: add_nonneg_nonneg)
qed

section \<open>The logarithm\<close>

lemma log_step_range: "2 ^ 62 \<le> y \<Longrightarrow> y < 2 ^ 63 \<Longrightarrow> log_step (y, fr) = (y', fr') \<Longrightarrow> 2 ^ 62 \<le> y' \<and> y' < 2 ^ 63 \<and> fr' \<le> 2 * fr + 1 \<and> y * y div 2 ^ 62 < 2 ^ 64"
proof -
  assume y: "2 ^ 62 \<le> y" "y < 2 ^ 63" and st: "log_step (y, fr) = (y', fr')"
  have "(2::nat) ^ 62 * 2 ^ 62 \<le> y * y" using y(1) by (intro mult_mono) auto
  then have lo: "2 ^ 62 \<le> y * y div 2 ^ 62" using div_le_mono [of "2 ^ 62 * 2 ^ 62" "y * y" "2 ^ 62"] by simp
  have "y * y < 2 ^ 63 * 2 ^ 63" using y(2) by (intro mult_strict_mono) auto
  also have "(2::nat) ^ 63 * 2 ^ 63 = 2 ^ 64 * 2 ^ 62" by (simp add: power_add [symmetric])
  finally have hi: "y * y div 2 ^ 62 < 2 ^ 64" by (simp add: less_mult_imp_div_less)
  have "z div 2 < 2 ^ 63" "2 ^ 62 \<le> z div 2" if "z < 2 ^ 64" "2 ^ 63 \<le> z" for z :: nat using that by (simp_all add: less_mult_imp_div_less)
  then show ?thesis using lo hi st by (auto simp: log_step_def Let_def split: if_splits)
qed

lemma thirty: "[0..<30] = [0, 1, 2, 3, 4, 5, 6, 7, 8, 9, 10, 11, 12, 13, 14, 15, 16, 17, 18, 19, 20, 21, 22, 23, 24, 25, 26, 27, 28, 29]"
  by (simp add: upt_rec)

lemma Log10PPM_ten: "Log10PPM 10 = 999999"
proof -
  have "Len64 10 = 4" by (simp add: Len64.simps)
  then show ?thesis unfolding Log10PPM_def thirty by (simp add: log_step_def MulDiv_mulDiv mulDiv_eq log2Ten_def maxInt64_def Let_def)
qed

end
