(* ===== verification/Trust_Params.thy ===== *)
theory Trust_Params
  imports Trust_Roots "HOL-Library.AList"
begin

text \<open>
  The parameters of a trust run (\<open>internal/trust/params.go\<close>): the versions, the compiled-in set and the
  older bodies it is derived from, the bounds every set is checked against, and the readings of a
  breaker and of an offer. A failed check is a value with its name; the code joins their texts.
\<close>

section \<open>Versions and the compiled-in set\<close>

definition UnifiedVersion :: int where "UnifiedVersion = 8"

definition ProofsVersion :: int where "ProofsVersion = 9"

definition PassVersion :: int where "PassVersion = 10"

definition DefaultPassSharePPM :: int where "DefaultPassSharePPM = 250000"

definition BreakerVersion :: int where "BreakerVersion = 11"

definition breakerReasons :: "string list" where
  "breakerReasons = [''agent.rotate'', ''dormant'', ''identity.link'', ''identity.unlink'', ''spike'']"

definition DefaultBreakerTrustDays :: "(string \<times> int) list" where
  "DefaultBreakerTrustDays = [(''agent.rotate'', 30), (''dormant'', 30), (''identity.link'', 7), (''identity.unlink'', 7), (''spike'', 0)]"

definition FloorOnceVersion :: int where "FloorOnceVersion = 12"

definition DomainFloorOnceVersion :: int where "DomainFloorOnceVersion = 13"

definition DefaultVersion :: int where "DefaultVersion = DomainFloorOnceVersion"

definition evidenceClasses :: "string list" where
  "evidenceClasses = [''free_use'', ''observed'', ''opinion'', ''paid_use'', ''work'']"

definition judgementActs :: "string list" where
  "judgementActs = [''vote'', ''vouch'', ''witness'', ''work_accept'']"

definition AssessDomain :: string where "AssessDomain = ''domain''"

definition assessedKinds :: "(string \<times> string) list" where
  "assessedKinds = [(''wallet'', AssessCapped), (''github'', AssessCapped), (''pow'', AssessSaturating), (''google'', AssessCapped),
     (''x'', AssessCapped), (''discord'', AssessCapped), (''telegram'', AssessCapped), (''reddit'', AssessCapped), (''huggingface'', AssessCapped),
     (''farcaster'', AssessCapped), (''ens'', AssessCapped), (''npm'', AssessCapped), (''pypi'', AssessCapped), (''bond'', AssessCapped)]"

text \<open>\<open>Derive\<close>: the values that follow from the unit.\<close>

definition Derive :: "trust_Params \<Rightarrow> trust_Params" where
  "Derive p = (let U = tp_UnitCents p in
     p\<lparr>tp_Theta2Cents := U, tp_VFloorCents := U sdiv 4, tp_CRefCents := U * 5 sdiv 2, tp_NodeCapCents := U * 15 sdiv 4\<rparr>)"

text \<open>Setting the rows of a map, one by one.\<close>

definition set_rows :: "(string \<times> 'v) list \<Rightarrow> (string \<times> 'v) list \<Rightarrow> (string \<times> 'v) list" where
  "set_rows rows m = foldl (\<lambda>m (k, v). AList.update k v m) m rows"

definition control_row :: ProofPrice where
  "control_row = \<lparr>pr_Forge = 0, pr_Rent = 0, pr_Curve = ''none'', pr_HalfLifeDays = 0, pr_DayFactorPPM = 0, pr_Assess = '''', pr_UnitsPerCent = 0,
     pr_AgeCents = 0, pr_RankCents = 0, pr_FallbackCents = 0\<rparr>"

definition domain_row :: ProofPrice where
  "domain_row = \<lparr>pr_Forge = 1200, pr_Rent = 600, pr_Curve = ''ramp'', pr_HalfLifeDays = 365, pr_DayFactorPPM = DayFactor 365, pr_Assess = AssessDomain,
     pr_UnitsPerCent = 0, pr_AgeCents = 200, pr_RankCents = 400, pr_FallbackCents = 400\<rparr>"

definition DefaultTrust :: trust_Params where
  "DefaultTrust = (let p = Derive \<lparr>tp_Version = DefaultVersion, tp_Schema = 2, tp_CollateralUnit = ''usd_cent'', tp_GraceDays = 120,
       tp_DormantHalfLifeDays = 180, tp_DormantDayFactorPPM = DayFactor 180, tp_HalfLifeDays = 180, tp_DayFactorPPM = 996157,
       tp_EvidenceWeightPPM = [(''paid_use'', 1000000), (''work'', 1000000), (''observed'', 400000), (''free_use'', 300000), (''opinion'', 200000)],
       tp_UnitCents = 200, tp_MinJudges = PriorWeight, tp_Theta2Cents = 0, tp_VFloorCents = 0, tp_CRefCents = 0, tp_NodeCapCents = 0, tp_V0PPM = 250000,
       tp_PassSharePPM = DefaultPassSharePPM, tp_BreakerTrustDays = DefaultBreakerTrustDays,
       tp_Proofs = [(''domain'', domain_row), (''ed25519'', control_row), (''board'', control_row), (''url'', control_row), (''nostr'', control_row)],
       tp_DomainSuffixes = [''ac.uk'', ''co.jp'', ''co.nz'', ''co.uk'', ''co.za'', ''com.au'', ''com.br'', ''com.cn'', ''github.io'', ''gov.uk'', ''net.au'', ''org.au'', ''org.uk'', ''pages.dev'', ''vercel.app''],
       tp_ProofFreshDays = 30, tp_DayPriceCents = 10, tp_TimeCapCents = 900, tp_CoarseX = 75,
       tp_ActEvidence = [(''vote'', ''opinion''), (''vouch'', ''opinion''), (''witness'', ''observed''), (''work_accept'', ''work'')],
       tp_Detectors = \<lparr>de_Version = 2, de_FunnelK = 5, de_FunnelDays = 7, de_FunnelSpendPPM = 100000, de_RingMin = 3, de_RingInsidePPM = 800000\<rparr>,
       tp_Penalty = \<lparr>pe_BaseDays = 30, pe_DurationFactor = 4, pe_BackerFactor = 2, pe_EscalationDays = 365, pe_BackerEdgeDays = 30, pe_MaxLevel = 8\<rparr>,
       tp_WindowDays = 180, tp_NMax = 20000, tp_MaxWork = 400000000, tp_MaxSeconds = 300\<rparr>
     in p\<lparr>tp_Proofs := set_rows proofRowsV9 (set_rows assessedRows (tp_Proofs p))\<rparr>)"

definition FloorOnceParams :: trust_Params where "FloorOnceParams = DefaultTrust\<lparr>tp_Version := FloorOnceVersion\<rparr>"

definition BreakerParams :: trust_Params where "BreakerParams = FloorOnceParams\<lparr>tp_Version := BreakerVersion\<rparr>"

definition PassParams :: trust_Params where "PassParams = BreakerParams\<lparr>tp_Version := PassVersion, tp_BreakerTrustDays := []\<rparr>"

definition ProofsParams :: trust_Params where "ProofsParams = PassParams\<lparr>tp_Version := ProofsVersion, tp_PassSharePPM := 0\<rparr>"

definition UnifiedParams :: trust_Params where
  "UnifiedParams = (let p = ProofsParams\<lparr>tp_Version := UnifiedVersion\<rparr>;
     rows = foldl (\<lambda>m kind. AList.delete kind m) (tp_Proofs p) (map fst proofRowsV9)
   in p\<lparr>tp_Proofs := set_rows assessedRows rows\<rparr>)"

definition OfferCents :: "trust_Params \<Rightarrow> int \<Rightarrow> int" where
  "OfferCents p world = (let keep = min (max 0 world) (tp_NodeCapCents p) in max (world - keep) (MulDiv keep (tp_PassSharePPM p) 1000000))"

section \<open>The bounds\<close>

datatype param_err = Must_be string | Out_of_range string int int int

definition check_param :: "bool \<Rightarrow> string \<Rightarrow> param_err list" where
  "check_param ok name = (if ok then [] else [Must_be name])"

definition bounded :: "string \<Rightarrow> int \<Rightarrow> int \<Rightarrow> int \<Rightarrow> param_err list" where
  "bounded name v lo hi = (if v \<ge> lo \<and> v \<le> hi then [] else [Out_of_range name lo hi v])"

definition near_factor :: "int \<Rightarrow> int \<Rightarrow> bool" where
  "near_factor factor h \<longleftrightarrow> factor \<ge> DayFactor h - 1 \<and> factor \<le> DayFactor h + 1"

definition check_curve :: "string \<Rightarrow> int \<Rightarrow> int \<Rightarrow> param_err list" where
  "check_curve name h factor = bounded (name @ ''half_life_days'') h 1 3650 @ check_param (near_factor factor h) (name @ ''day_factor_ppm'')"

definition control_kinds :: "string list" where
  "control_kinds = [''ed25519'', ''board'', ''url'', ''nostr'']"

definition check_row :: "string \<Rightarrow> ProofPrice \<Rightarrow> param_err list" where
  "check_row kind pr = (let name = ''proofs.'' @ kind @ ''.'' in
     bounded (name @ ''forge'') (pr_Forge pr) 0 (10 ^ 7) @ bounded (name @ ''rent'') (pr_Rent pr) 0 (10 ^ 7)
     @ (if kind = ''domain'' then
          check_param (pr_Assess pr = AssessDomain \<and> pr_Curve pr = ''ramp'') ''proofs.domain''
          @ check_curve name (pr_HalfLifeDays pr) (pr_DayFactorPPM pr)
          @ bounded (name @ ''age_cents'') (pr_AgeCents pr) 0 (10 ^ 7) @ bounded (name @ ''rank_cents'') (pr_RankCents pr) 0 (10 ^ 7)
          @ bounded (name @ ''fallback_cents'') (pr_FallbackCents pr) 0 (10 ^ 7)
        else case map_of assessedKinds kind of
          Some want \<Rightarrow>
            bounded (name @ ''units_per_cent'') (pr_UnitsPerCent pr) 1 (10 ^ 9)
            @ check_param (pr_Assess pr = want) (name @ ''assess'')
            @ check_param (pr_Curve pr = ''none'' \<and> pr_HalfLifeDays pr = 0 \<and> pr_DayFactorPPM pr = 0) (''proofs.'' @ kind)
        | None \<Rightarrow>
            if kind \<in> set control_kinds then
              check_param (pr_Curve pr = ''none'' \<and> pr_Assess pr = '''' \<and> pr_Forge pr = 0 \<and> pr_Rent pr = 0) (''proofs.'' @ kind)
            else check_param False (''proofs.'' @ kind))
     @ (if kind = ''wallet'' then
          check_param (pr_AgeCents pr = 0 \<and> pr_RankCents pr = 0) (name @ ''age_cents'') @ bounded (name @ ''fallback_cents'') (pr_FallbackCents pr) 0 (10 ^ 7)
        else if kind \<noteq> ''domain'' then
          check_param (pr_AgeCents pr = 0 \<and> pr_RankCents pr = 0 \<and> pr_FallbackCents pr = 0) (name @ ''age_cents'')
        else []))"

text \<open>\<open>strings.ToLower\<close>: letters of ASCII one by one; beyond ASCII the mapping is Unicode's, \<open>uni\<close>.\<close>

definition ToLower :: "(string \<Rightarrow> string) \<Rightarrow> string \<Rightarrow> string" where
  "ToLower uni s = (if list_all (\<lambda>c. byte c < 128) s then map (\<lambda>c. if 65 \<le> byte c \<and> byte c \<le> 90 then char_of (byte c + 32) else c) s else uni s)"

definition suffix_ok :: "(string \<Rightarrow> string) \<Rightarrow> string \<Rightarrow> bool" where
  "suffix_ok uni s \<longleftrightarrow> CHR ''.'' \<in> set s \<and> s = ToLower uni s \<and> \<not> (s \<noteq> [] \<and> hd s = CHR ''.'') \<and> \<not> (s \<noteq> [] \<and> last s = CHR ''.'')"

definition lookup_or :: "'v \<Rightarrow> (string \<times> 'v) list \<Rightarrow> string \<Rightarrow> 'v" where
  "lookup_or d m k = (case map_of m k of Some v \<Rightarrow> v | None \<Rightarrow> d)"

definition check_knobs :: "trust_Params \<Rightarrow> param_err list" where
  "check_knobs p =
     check_param (tp_Schema p = 2) ''schema'' @ check_param (tp_CollateralUnit p = ''usd_cent'') ''collateral_unit''
     @ bounded ''grace_days'' (tp_GraceDays p) 0 3650
     @ bounded ''dormant_half_life_days'' (tp_DormantHalfLifeDays p) 1 3650
     @ check_param (near_factor (tp_DormantDayFactorPPM p) (tp_DormantHalfLifeDays p)) ''dormant_day_factor_ppm''
     @ check_curve '''' (tp_HalfLifeDays p) (tp_DayFactorPPM p)
     @ check_param (length (tp_EvidenceWeightPPM p) = length evidenceClasses) ''evidence_weight_ppm''
     @ concat (map (\<lambda>c. check_param (map_of (tp_EvidenceWeightPPM p) c \<noteq> None) (''evidence_weight_ppm.'' @ c)
         @ bounded (''evidence_weight_ppm.'' @ c) (lookup_or 0 (tp_EvidenceWeightPPM p) c) 0 1000000) evidenceClasses)
     @ bounded ''unit_cents'' (tp_UnitCents p) 4 (10 ^ 7)
     @ bounded ''min_judges'' (tp_MinJudges p) 1 100
     @ (let d = Derive p in check_param (tp_Theta2Cents p = tp_Theta2Cents d \<and> tp_VFloorCents p = tp_VFloorCents d
          \<and> tp_CRefCents p = tp_CRefCents d \<and> tp_NodeCapCents p = tp_NodeCapCents d) ''node_cap_cents'')
     @ bounded ''v0_ppm'' (tp_V0PPM p) 0 1000000
     @ bounded ''pass_share_ppm'' (tp_PassSharePPM p) 0 1000000
     @ check_param (tp_Version p \<ge> PassVersion \<or> tp_PassSharePPM p = 0) ''pass_share_ppm''
     @ check_param (tp_Version p \<ge> BreakerVersion \<or> tp_BreakerTrustDays p = []) ''breaker_trust_days''
     @ concat (map (\<lambda>(reason, d). check_param (reason \<in> set breakerReasons) (''breaker_trust_days.'' @ reason)
         @ bounded (''breaker_trust_days.'' @ reason) d 0 365) (tp_BreakerTrustDays p))"

definition check_data :: "(string \<Rightarrow> string) \<Rightarrow> trust_Params \<Rightarrow> param_err list" where
  "check_data uni p =
     concat (map (\<lambda>kind. check_param (map_of (tp_Proofs p) kind \<noteq> None) (''proofs.'' @ kind)) (''domain'' # control_kinds))
     @ concat (map (\<lambda>(kind, pr). check_row kind pr) (tp_Proofs p))
     @ check_param (length (tp_DomainSuffixes p) \<le> 1024) ''domain_suffixes''
     @ concat (map (\<lambda>s. check_param (suffix_ok uni s) s) (tp_DomainSuffixes p))
     @ bounded ''proof_fresh_days'' (tp_ProofFreshDays p) 1 365
     @ bounded ''day_price_cents'' (tp_DayPriceCents p) 0 (10 ^ 5)
     @ bounded ''time_cap_cents'' (tp_TimeCapCents p) 0 (10 ^ 7)
     @ bounded ''coarse_x'' (tp_CoarseX p) (Neutral + 1) Max_x
     @ check_param (length (tp_ActEvidence p) = length judgementActs) ''act_evidence''
     @ concat (map (\<lambda>act. check_param (case map_of (tp_ActEvidence p) act of Some c \<Rightarrow> map_of (tp_EvidenceWeightPPM p) c \<noteq> None | None \<Rightarrow> False) (''act_evidence.'' @ act)) judgementActs)"

definition check_bounds :: "trust_Params \<Rightarrow> param_err list" where
  "check_bounds p = (let d = tp_Detectors p; e = tp_Penalty p in
     bounded ''detectors.version'' (de_Version d) 1 1000000
     @ bounded ''detectors.funnel_k'' (de_FunnelK d) 2 1000
     @ bounded ''detectors.funnel_days'' (de_FunnelDays d) 1 90
     @ bounded ''detectors.funnel_spend_ppm'' (de_FunnelSpendPPM d) 0 1000000
     @ bounded ''detectors.ring_min'' (de_RingMin d) 2 1000
     @ bounded ''detectors.ring_inside_ppm'' (de_RingInsidePPM d) 0 1000000
     @ bounded ''penalty.base_days'' (pe_BaseDays e) 1 365
     @ bounded ''penalty.duration_factor'' (pe_DurationFactor e) 1 16
     @ bounded ''penalty.backer_factor'' (pe_BackerFactor e) 1 16
     @ bounded ''penalty.escalation_days'' (pe_EscalationDays e) 1 3650
     @ bounded ''penalty.backer_edge_days'' (pe_BackerEdgeDays e) 1 365
     @ bounded ''penalty.max_level'' (pe_MaxLevel e) 1 10
     @ bounded ''window_days'' (tp_WindowDays p) 1 400
     @ bounded ''n_max'' (tp_NMax p) 1 100000
     @ bounded ''max_work'' (tp_MaxWork p) 1 (10 ^ 11)
     @ bounded ''max_seconds'' (tp_MaxSeconds p) 1 3600)"

definition Validate_trust :: "(string \<Rightarrow> string) \<Rightarrow> trust_Params \<Rightarrow> param_err list" where
  "Validate_trust uni p = check_knobs p @ check_data uni p @ check_bounds p"

lemma check_param_ok [simp]: "check_param b name = [] \<longleftrightarrow> b"
  by (simp add: check_param_def)

lemma bounded_ok [simp]: "bounded name v lo hi = [] \<longleftrightarrow> lo \<le> v \<and> v \<le> hi"
  by (auto simp: bounded_def)

lemma DefaultTrust_units [simp]: "tp_UnitCents DefaultTrust = 200" "tp_Theta2Cents DefaultTrust = 200" "tp_VFloorCents DefaultTrust = 50"
    "tp_CRefCents DefaultTrust = 500" "tp_NodeCapCents DefaultTrust = 750"
  by (simp_all add: DefaultTrust_def Derive_def Let_def sdiv_nonneg)

text \<open>What a set that passed its checks satisfies, as far as the flow graph relies on it.\<close>

lemma Validate_units:
  assumes "Validate_trust uni p = []"
  shows "0 < tp_UnitCents p" "0 \<le> tp_NodeCapCents p" "tp_NodeCapCents p = tp_UnitCents p * 15 div 4"
    "0 \<le> tp_PassSharePPM p" "tp_PassSharePPM p \<le> 1000000" "0 \<le> tp_V0PPM p" "tp_V0PPM p \<le> 1000000" "1 \<le> tp_MinJudges p"
  using assms by (auto simp: Validate_trust_def check_knobs_def Let_def Derive_def sdiv_nonneg)

end
