(* ===== verification/Trust_Props.thy ===== *)
theory Trust_Props
  imports Trust_Graph_Spec Trust_Params
begin

text \<open>What readers of a trust run rely on: its graph, its flow and the weight of a vote.\<close>

text \<open>
  C33: the graph of a run is well formed, whatever the judgements, accuracies and penalties: worlds and
  caps are not negative, every edge joins two nodes and has capacity, nobody offers more than it
  keeps, and the levels ascend from above zero.
\<close>

theorem run_graph_wellformed:
  assumes "world_ok worldMC (rn_p r)"
  shows "graph_ok (setEdges r js acc member liable (newGraph r worldMC member liable))"
  using newGraph_ok [OF assms, of member liable] assms by (intro setEdges_ok) (auto simp: world_ok_def)

definition demo_tp :: trust_Params where
  "demo_tp = DefaultTrust\<lparr>tp_PassSharePPM := 0, tp_CoarseX := 80\<rparr>"

definition demo_trust :: trust_run where
  "demo_trust = \<lparr>rn_p = demo_tp, rn_asOf = 864000, rn_D = 10, rn_accounts = [''a'', ''b''], rn_rootOf = (\<lambda>x. x)\<rparr>"

definition demo_vouch :: judgementSet where
  "demo_vouch = \<lparr>js_subjects = [''agent:b''], js_bySubject = (\<lambda>_. [\<lparr>en_j = \<lparr>jd_ID = ''1'', jd_Act = ''vouch'', jd_Author = ''a'', jd_Root = ''a'',
     jd_Subject = ''agent:b'', jd_X = 80, jd_Coarse = True, jd_Evidence = '''', jd_Relationship = '''', jd_At = 864000\<rparr>, en_withdraw = False, en_closeIdx = -1\<rparr>]),
     js_owners = (\<lambda>_. [''b''])\<rparr>"

definition demo_graph :: Graph where
  "demo_graph = setEdges demo_trust demo_vouch (\<lambda>_. 1000000) (\<lambda>_. False) (\<lambda>_. None) (newGraph demo_trust (\<lambda>a. if a = ''a'' then 900000 else 0) (\<lambda>_. False) (\<lambda>_. None))"

lemma demo_world: "world_ok (\<lambda>a. if a = ''a'' then 900000 else 0) (rn_p demo_trust)"
  by (simp add: world_ok_def demo_trust_def demo_tp_def)

theorem run_graph_wellformed_witness: "graph_ok demo_graph"
  unfolding demo_graph_def by (rule run_graph_wellformed [OF demo_world])

text \<open>
  C13: standing is never made, only moved. A flow over a well-formed graph returns, with an error only
  past its work bound or when its context is done. Without one, no root stands above its cap, every
  edge carries at most its capacity, at every root what it keeps, offers and receives equals what it
  stands for and passes on, and all standings together are at most what was paid from outside.
\<close>

theorem flow_conserves:
  assumes "graph_ok g" "extra_ok g extra"
  shows "(\<exists>res. flow ctx g extra mw w = Some (res, None) \<and> flow_sound g extra res)
    \<or> (\<exists>res e. flow ctx g extra mw w = Some (res, Some e) \<and> (mw < fr_work res \<or> ctx (fr_work res)))"
proof -
  obtain res err where f: "flow ctx g extra mw w = Some (res, err)" "err = None \<longrightarrow> flow_sound g extra res" "err \<noteq> None \<longrightarrow> mw < fr_work res \<or> ctx (fr_work res)"
    using flow_ends [OF assms] by blast
  then show ?thesis by (cases err) auto
qed

theorem flow_conserves_witness:
  "(\<exists>res. flow (\<lambda>_. False) demo_graph None 1000 0 = Some (res, None) \<and> flow_sound demo_graph None res)
    \<or> (\<exists>res e. flow (\<lambda>_. False) demo_graph None 1000 0 = Some (res, Some e) \<and> 1000 < fr_work res)"
proof -
  have "graph_ok demo_graph" unfolding demo_graph_def using newGraph_ok [OF demo_world] by (intro setEdges_ok) (simp_all add: demo_trust_def demo_tp_def)
  from flow_conserves [OF this, of None "\<lambda>_. False" 1000 0] show ?thesis by (simp add: extra_ok_def)
qed

text \<open>
  a vote weighs between nothing and one. It weighs nothing below the floor, more standing never
  weighs less, and the square root in it is exact: the largest integer whose square is within.
\<close>

theorem vote_weight_bounded:
  assumes "0 \<le> tp_V0PPM p" "tp_V0PPM p \<le> 1000000"
  shows "0 \<le> FlooredVoteWeight p seasoned cents \<and> FlooredVoteWeight p seasoned cents \<le> 1000000
    \<and> (cents < tp_VFloorCents p \<longrightarrow> VoteWeight p cents = 0) \<and> (cents \<le> cents' \<longrightarrow> VoteWeight p cents \<le> VoteWeight p cents')
    \<and> (isqrt n) ^ 2 \<le> max 0 n \<and> max 0 n < (isqrt n + 1) ^ 2"
proof -
  have "(isqrt n) ^ 2 \<le> max 0 n \<and> max 0 n < (isqrt n + 1) ^ 2"
    using isqrt_floor [of n] by (cases "0 \<le> n") (auto simp: isqrt_def)
  moreover have "0 \<le> FlooredVoteWeight p seasoned cents \<and> FlooredVoteWeight p seasoned cents \<le> 1000000"
    using VoteWeightPPM_bounds [OF assms] by (simp add: FlooredVoteWeight_def VoteWeight_def)
  ultimately show ?thesis using VoteWeightPPM_mono [OF assms] by (auto simp: VoteWeight_def VoteWeightPPM_def)
qed

text \<open>
  no proof is worth more than its row: an assessed root and a domain at most the lesser of what
  forging and renting it costs, a saturating one always less than that, and an account at most what
  its age and its activity may count.
\<close>

theorem proof_prices_capped:
  assumes "0 < pr_Forge price" "0 < pr_Rent price" "0 \<le> ageCents" "0 \<le> countCents"
  shows "0 \<le> AssessedContribution price assessed \<and> AssessedContribution price assessed \<le> min (pr_Forge price) (pr_Rent price)
    \<and> (pr_Assess price = AssessSaturating \<longrightarrow> AssessedContribution price assessed < min (pr_Forge price) (pr_Rent price))
    \<and> DomainContribution price ageDays registered rank \<le> min (pr_Forge price) (pr_Rent price)
    \<and> 0 \<le> AccountCents ageDays ageCents h n countCents half \<and> AccountCents ageDays ageCents h n countCents half \<le> ageCents + countCents"
  using AssessedContribution_bounds [of price assessed] AssessedSaturating_below [OF assms(1,2)] DomainContribution_le AccountCents_bounds [OF assms(3,4)] assms
  by (simp add: less_imp_le)

end
