(* ===== verification/Trust_Inputs.thy ===== *)
theory Trust_Inputs
  imports Trust_Params Trust_Graph "HOL-Library.Multiset"
begin

text \<open>
  What a trust run reads (\<open>internal/trust/inputs.go\<close>): records of one wide type, filed in a snapshot by
  their type, and their canonical order, by the text \<open>json.Marshal\<close> gives a record. The text is modelled
  with its escapes and its omitted empty members; of \<open>encoding/json\<close> only reading a parameter body and
  compacting a raw one are parameters of the model (\<open>run_env\<close>), with \<open>strings.ToLower\<close> beyond ASCII and SHA-256.
\<close>

record run_env =
  ev_lower :: "string \<Rightarrow> string"
  ev_compact :: "string \<Rightarrow> string option"
  ev_decode :: "string \<Rightarrow> trust_Params option"
  ev_sha256 :: "string \<Rightarrow> string"

definition sha256Hex :: "run_env \<Rightarrow> string \<Rightarrow> string" where
  "sha256Hex E b = hex_EncodeToString (ev_sha256 E b)"

section \<open>Records\<close>

record InputRecord =
  rc_Type :: string
  rc_Schema :: int
  rc_AsOf :: int
  rc_PauseNewKeysSince :: int
  rc_EventsSeq :: int
  rc_EndorsementsSeq :: int
  rc_LedgerSeq :: int
  rc_Version :: int
  rc_Body :: string
  rc_ID :: string
  rc_Kind :: string
  rc_Account :: string
  rc_CreatedAt :: int
  rc_Value :: int
  rc_State :: string
  rc_Target :: string
  rc_FirstSeen :: int
  rc_ReplyTo :: string
  rc_ReplyToAccount :: string
  rc_Seq :: int
  rc_Voter :: string
  rc_MessageID :: string
  rc_LinkValue :: string
  rc_CheckedAt :: int
  rc_LinkAccount :: string
  rc_RegisteredAt :: int
  rc_Root :: string
  rc_Assessed :: int
  rc_Rank :: int
  rc_StartedAt :: int
  rc_TrustUntil :: int
  rc_From :: string
  rc_To :: string
  rc_Amount :: int
  rc_Day :: int
  rc_Claimed :: int
  rc_Spent :: int
  rc_Evidence :: string
  rc_FractionPPM :: int
  rc_EndsAt :: int
  rc_Time :: int
  rc_LastActive :: int
  rc_Direct :: int
  rc_Standing :: int
  rc_Backed :: int

definition zero_Record :: InputRecord where
  "zero_Record = \<lparr>rc_Type = '''', rc_Schema = 0, rc_AsOf = 0, rc_PauseNewKeysSince = 0, rc_EventsSeq = 0, rc_EndorsementsSeq = 0, rc_LedgerSeq = 0,
     rc_Version = 0, rc_Body = '''', rc_ID = '''', rc_Kind = '''', rc_Account = '''', rc_CreatedAt = 0, rc_Value = 0, rc_State = '''', rc_Target = '''',
     rc_FirstSeen = 0, rc_ReplyTo = '''', rc_ReplyToAccount = '''', rc_Seq = 0, rc_Voter = '''', rc_MessageID = '''', rc_LinkValue = '''', rc_CheckedAt = 0,
     rc_LinkAccount = '''', rc_RegisteredAt = 0, rc_Root = '''', rc_Assessed = 0, rc_Rank = 0, rc_StartedAt = 0, rc_TrustUntil = 0, rc_From = '''', rc_To = '''',
     rc_Amount = 0, rc_Day = 0, rc_Claimed = 0, rc_Spent = 0, rc_Evidence = '''', rc_FractionPPM = 0, rc_EndsAt = 0, rc_Time = 0, rc_LastActive = 0,
     rc_Direct = 0, rc_Standing = 0, rc_Backed = 0\<rparr>"

record Meta =
  mt_Schema :: int
  mt_AsOf :: int
  mt_PauseNewKeysSince :: int
  mt_EventsSeq :: int
  mt_EndorsementsSeq :: int
  mt_LedgerSeq :: int

record Snapshot =
  sn_Meta :: Meta
  sn_Params :: trust_Params
  sn_Accounts :: "InputRecord list"
  sn_Posts :: "InputRecord list"
  sn_Endorsements :: "InputRecord list"
  sn_Proofs :: "InputRecord list"
  sn_Breakers :: "InputRecord list"
  sn_Transfers :: "InputRecord list"
  sn_Claims :: "InputRecord list"
  sn_Payments :: "InputRecord list"
  sn_Acts :: "InputRecord list"
  sn_Reviews :: "InputRecord list"
  sn_Owners :: "InputRecord list"
  sn_Penalties :: "InputRecord list"
  sn_Burns :: "InputRecord list"
  sn_Liabilities :: "InputRecord list"
  sn_Lifts :: "InputRecord list"
  sn_Carry :: "InputRecord list"

definition SnapshotSchema :: int where "SnapshotSchema = 2"

section \<open>The text of a record\<close>

text \<open>\<open>encoding/json\<close>'s strings: a byte of ASCII is escaped or kept, a byte that starts no rune becomes U+FFFD, the two line separators are escaped.\<close>

definition json_ascii :: "bool \<Rightarrow> char \<Rightarrow> string" where
  "json_ascii html c = (let b = byte c in
     if c = CHR 0x5C \<or> c = CHR 0x22 then [CHR 0x5C, c]
     else if b = 8 then [CHR 0x5C, CHR ''b''] else if b = 12 then [CHR 0x5C, CHR ''f''] else if b = 10 then [CHR 0x5C, CHR ''n'']
     else if b = 13 then [CHR 0x5C, CHR ''r''] else if b = 9 then [CHR 0x5C, CHR ''t'']
     else if b < 32 \<or> html \<and> (c = CHR ''<'' \<or> c = CHR ''>'' \<or> c = CHR ''&'') then [CHR 0x5C, CHR ''u'', CHR ''0'', CHR ''0'', digit_char (b div 16), digit_char (b mod 16)]
     else [c])"

function json_runes :: "bool \<Rightarrow> string \<Rightarrow> string" where
  "json_runes html s = (if s = [] then []
     else let (r, size) = decode_rune s in
       (if byte (hd s) < 128 then json_ascii html (hd s)
        else if r = RuneError \<and> size = 1 then [CHR 0x5C] @ ''ufffd''
        else if r = 8232 then [CHR 0x5C] @ ''u2028''
        else if r = 8233 then [CHR 0x5C] @ ''u2029''
        else take size s) @ json_runes html (drop size s))"
  by pat_completeness auto
termination
  by (relation "measure (\<lambda>(html, s). length s)") (auto dest!: decode_rune_size simp: prod_eq_iff)

declare json_runes.simps [simp del]

definition json_string :: "bool \<Rightarrow> string \<Rightarrow> string" where
  "json_string html s = [CHR 0x22] @ json_runes html s @ [CHR 0x22]"

definition string_member :: "string \<Rightarrow> string \<Rightarrow> string list" where
  "string_member name v = (if v = '''' then [] else [[CHR 0x22] @ name @ [CHR 0x22, CHR '':''] @ json_string True v])"

definition int_member :: "string \<Rightarrow> int \<Rightarrow> string list" where
  "int_member name v = (if v = 0 then [] else [[CHR 0x22] @ name @ [CHR 0x22, CHR '':''] @ FormatInt v])"

definition head_members :: "InputRecord \<Rightarrow> string list" where
  "head_members r = [[CHR 0x22] @ ''type'' @ [CHR 0x22, CHR '':''] @ json_string True (rc_Type r)]
     @ int_member ''schema'' (rc_Schema r) @ int_member ''as_of'' (rc_AsOf r) @ int_member ''pause_new_keys_since'' (rc_PauseNewKeysSince r)
     @ int_member ''events_seq'' (rc_EventsSeq r) @ int_member ''endorsements_seq'' (rc_EndorsementsSeq r) @ int_member ''ledger_seq'' (rc_LedgerSeq r)
     @ int_member ''version'' (rc_Version r)"

definition tail_members :: "InputRecord \<Rightarrow> string list" where
  "tail_members r = string_member ''id'' (rc_ID r) @ string_member ''kind'' (rc_Kind r) @ string_member ''account'' (rc_Account r)
     @ int_member ''created_at'' (rc_CreatedAt r) @ int_member ''value'' (rc_Value r) @ string_member ''state'' (rc_State r) @ string_member ''target'' (rc_Target r)
     @ int_member ''first_seen'' (rc_FirstSeen r) @ string_member ''reply_to'' (rc_ReplyTo r) @ string_member ''reply_to_account'' (rc_ReplyToAccount r)
     @ int_member ''seq'' (rc_Seq r) @ string_member ''voter'' (rc_Voter r) @ string_member ''message_id'' (rc_MessageID r)
     @ string_member ''link_value'' (rc_LinkValue r) @ int_member ''checked_at'' (rc_CheckedAt r) @ string_member ''link_account'' (rc_LinkAccount r)
     @ int_member ''registered_at'' (rc_RegisteredAt r) @ string_member ''root'' (rc_Root r) @ int_member ''assessed'' (rc_Assessed r) @ int_member ''rank'' (rc_Rank r)
     @ int_member ''started_at'' (rc_StartedAt r) @ int_member ''trust_until'' (rc_TrustUntil r)
     @ string_member ''from'' (rc_From r) @ string_member ''to'' (rc_To r) @ int_member ''amount'' (rc_Amount r)
     @ int_member ''day'' (rc_Day r) @ int_member ''claimed'' (rc_Claimed r) @ int_member ''spent'' (rc_Spent r)
     @ string_member ''evidence'' (rc_Evidence r) @ int_member ''fraction_ppm'' (rc_FractionPPM r) @ int_member ''ends_at'' (rc_EndsAt r)
     @ int_member ''time'' (rc_Time r) @ int_member ''last_active'' (rc_LastActive r) @ int_member ''direct'' (rc_Direct r)
     @ int_member ''standing'' (rc_Standing r) @ int_member ''backed'' (rc_Backed r)"

text \<open>A raw body that is not JSON makes \<open>json.Marshal\<close> fail, and the key is empty.\<close>

definition recordKey :: "run_env \<Rightarrow> InputRecord \<Rightarrow> string" where
  "recordKey E r =
     (case (if rc_Body r = '''' then Some [] else map_option (\<lambda>b. [[CHR 0x22] @ ''body'' @ [CHR 0x22, CHR '':''] @ b]) (ev_compact E (rc_Body r))) of
        None \<Rightarrow> ''''
      | Some body \<Rightarrow> ''{'' @ join (CHR '','') (head_members r @ body @ tail_members r) @ ''}'')"

definition sortRecords :: "run_env \<Rightarrow> InputRecord list \<Rightarrow> InputRecord list" where
  "sortRecords E list = sort_key (recordKey E) list"

section \<open>Snapshots\<close>

datatype trust_err = Bad_schema int | Retired_version int | Bad_params "param_err list" | Not_json | Unknown_type string
  | Penalty_needs_id | Members_disagree string | Unknown_trigger string string
  | Carry_range string | Carry_repeated string | Unknown_carry string | Carry_runs int | Carry_later int int
  | Flow_failed flow_err

definition ParseParams :: "run_env \<Rightarrow> int \<Rightarrow> string \<Rightarrow> trust_err + trust_Params" where
  "ParseParams E version body =
     (if version < UnifiedVersion then Inl (Retired_version version)
      else case ev_decode E body of
        None \<Rightarrow> Inl Not_json
      | Some p0 \<Rightarrow> let p = p0\<lparr>tp_Version := version\<rparr>; errs = Validate_trust (ev_lower E) p in
          if errs \<noteq> [] then Inl (Bad_params errs) else Inr p)"

definition Add :: "run_env \<Rightarrow> Snapshot \<Rightarrow> InputRecord \<Rightarrow> trust_err + Snapshot" where
  "Add E s r =
     (if rc_Type r = ''meta'' then
        (if rc_Schema r \<noteq> SnapshotSchema then Inl (Bad_schema (rc_Schema r))
         else Inr (s\<lparr>sn_Meta := \<lparr>mt_Schema = rc_Schema r, mt_AsOf = rc_AsOf r, mt_PauseNewKeysSince = rc_PauseNewKeysSince r,
           mt_EventsSeq = rc_EventsSeq r, mt_EndorsementsSeq = rc_EndorsementsSeq r, mt_LedgerSeq = rc_LedgerSeq r\<rparr>\<rparr>))
      else if rc_Type r = ''params'' then
        (case ParseParams E (rc_Version r) (rc_Body r) of Inl e \<Rightarrow> Inl e | Inr p \<Rightarrow> Inr (s\<lparr>sn_Params := p\<rparr>))
      else if rc_Type r = ''account'' then Inr (s\<lparr>sn_Accounts := sn_Accounts s @ [r]\<rparr>)
      else if rc_Type r = ''post'' then Inr (s\<lparr>sn_Posts := sn_Posts s @ [r]\<rparr>)
      else if rc_Type r = ''endorsement'' then Inr (s\<lparr>sn_Endorsements := sn_Endorsements s @ [r]\<rparr>)
      else if rc_Type r = ''proof'' then Inr (s\<lparr>sn_Proofs := sn_Proofs s @ [r]\<rparr>)
      else if rc_Type r = ''breaker'' then Inr (s\<lparr>sn_Breakers := sn_Breakers s @ [r]\<rparr>)
      else if rc_Type r = ''transfer'' then Inr (s\<lparr>sn_Transfers := sn_Transfers s @ [r]\<rparr>)
      else if rc_Type r = ''claim'' then Inr (s\<lparr>sn_Claims := sn_Claims s @ [r]\<rparr>)
      else if rc_Type r = ''payment'' then Inr (s\<lparr>sn_Payments := sn_Payments s @ [r]\<rparr>)
      else if rc_Type r = ''edge'' then Inr (s\<lparr>sn_Acts := sn_Acts s @ [r]\<rparr>)
      else if rc_Type r = ''review'' then Inr (s\<lparr>sn_Reviews := sn_Reviews s @ [r]\<rparr>)
      else if rc_Type r = ''owner'' then Inr (s\<lparr>sn_Owners := sn_Owners s @ [r]\<rparr>)
      else if rc_Type r = ''penalty'' then Inr (s\<lparr>sn_Penalties := sn_Penalties s @ [r]\<rparr>)
      else if rc_Type r = ''burn'' then Inr (s\<lparr>sn_Burns := sn_Burns s @ [r]\<rparr>)
      else if rc_Type r = ''liability'' then Inr (s\<lparr>sn_Liabilities := sn_Liabilities s @ [r]\<rparr>)
      else if rc_Type r = ''lift'' then Inr (s\<lparr>sn_Lifts := sn_Lifts s @ [r]\<rparr>)
      else if rc_Type r = ''carry'' then Inr (s\<lparr>sn_Carry := sn_Carry s @ [r]\<rparr>)
      else Inl (Unknown_type (rc_Type r)))"

text \<open>The snapshot as records; \<open>body\<close> is the text \<open>Params.Body\<close> publishes.\<close>

definition Records :: "run_env \<Rightarrow> (trust_Params \<Rightarrow> string) \<Rightarrow> Snapshot \<Rightarrow> InputRecord list" where
  "Records E body s = (let m = sn_Meta s in
     [zero_Record\<lparr>rc_Type := ''meta'', rc_Schema := SnapshotSchema, rc_AsOf := mt_AsOf m, rc_PauseNewKeysSince := mt_PauseNewKeysSince m,
        rc_EventsSeq := mt_EventsSeq m, rc_EndorsementsSeq := mt_EndorsementsSeq m, rc_LedgerSeq := mt_LedgerSeq m\<rparr>,
      zero_Record\<lparr>rc_Type := ''params'', rc_Version := tp_Version (sn_Params s), rc_Body := body (sn_Params s)\<rparr>]
     @ concat (map (sortRecords E) [sn_Accounts s, sn_Posts s, sn_Endorsements s, sn_Proofs s, sn_Breakers s, sn_Transfers s, sn_Claims s, sn_Payments s,
         sn_Acts s, sn_Reviews s, sn_Owners s, sn_Penalties s, sn_Burns s, sn_Liabilities s, sn_Lifts s, sn_Carry s]))"

section \<open>Sorting\<close>

text \<open>Records that differ have different texts unless a string is not UTF-8; then any order of the same records sorts the same.\<close>

lemma sortRecords_mset [simp]: "mset (sortRecords E list) = mset list"
  by (simp add: sortRecords_def)

lemma set_sortRecords [simp]: "set (sortRecords E list) = set list"
  by (simp add: sortRecords_def)

lemma sorted_key_unique:
  assumes "mset xs = mset ys" "sorted (map k xs)" "sorted (map k ys)" "inj_on k (set xs)"
  shows "xs = ys"
proof -
  have s: "set xs = set ys" using assms(1) by (metis set_mset_mset)
  have "map k xs = map k ys" using assms(1-3) by (metis mset_map properties_for_sort)
  then show ?thesis using assms(4) s by (metis map_inj_on sup.idem)
qed

lemma sortRecords_order:
  "mset xs = mset ys \<Longrightarrow> inj_on (recordKey E) (set xs) \<Longrightarrow> sortRecords E xs = sortRecords E ys"
  unfolding sortRecords_def by (rule sorted_key_unique [of _ _ "recordKey E"]) simp_all

end
