(* ===== verification/Trust_Unite.thy ===== *)
theory Trust_Unite
  imports Trust_Inputs
begin

text \<open>
  Roots (\<open>internal/trust/compute.go\<close>): a union-find over strings with path halving, the registrable domain
  of a name, the label of a root, and the two partitions of a run, by attached keys and domains and by
  live addresses too. A Go map is an association list; \<open>find\<close> returns the map it halved.
\<close>

section \<open>Union-find\<close>

type_synonym uf = "(string \<times> string) list"

definition halve :: "uf \<Rightarrow> string \<Rightarrow> string \<Rightarrow> uf" where
  "halve u x p = (case map_of u p of Some gp \<Rightarrow> if gp \<noteq> '''' \<and> gp \<noteq> p then AList.update x gp u else u | None \<Rightarrow> u)"

partial_function (option) uf_find :: "uf \<Rightarrow> string \<Rightarrow> (string \<times> uf) option" where
  "uf_find u x = (case map_of u x of
       None \<Rightarrow> Some (x, u)
     | Some p \<Rightarrow> if p = x then Some (x, u) else uf_find (halve u x p) p)"

definition uf_union :: "uf \<Rightarrow> string \<times> string \<Rightarrow> uf option" where
  "uf_union u = (\<lambda>(a, b).
     case uf_find u a of
       None \<Rightarrow> None
     | Some (ra, u1) \<Rightarrow> (case uf_find u1 b of
         None \<Rightarrow> None
       | Some (rb, u2) \<Rightarrow>
         if ra = rb then Some u2
         else let (lo, hi) = (if rb < ra then (rb, ra) else (ra, rb)) in
           Some (AList.update hi lo (AList.update lo lo u2))))"

fun unite_all :: "uf \<Rightarrow> (string \<times> string) list \<Rightarrow> uf option" where
  "unite_all u [] = Some u"
| "unite_all u (ab # ps) = (case uf_union u ab of None \<Rightarrow> None | Some u' \<Rightarrow> unite_all u' ps)"

section \<open>Labels\<close>

definition HasPrefix :: "string \<Rightarrow> string \<Rightarrow> bool" where
  "HasPrefix p s \<longleftrightarrow> take (length p) s = p"

definition label_rank :: "string \<Rightarrow> nat" where
  "label_rank x = (if HasPrefix ''domain:'' x then 0 else if CHR '':'' \<in> set x then 2 else 1)"

definition better_label :: "string \<Rightarrow> string \<Rightarrow> bool" where
  "better_label x cur \<longleftrightarrow> label_rank x < label_rank cur \<or> label_rank x = label_rank cur \<and> x < cur"

fun label_loop :: "string list \<Rightarrow> uf \<Rightarrow> (string \<times> string) list \<Rightarrow> ((string \<times> string) list \<times> uf) option" where
  "label_loop [] u label = Some (label, u)"
| "label_loop (x # xs) u label =
     (case uf_find u x of
        None \<Rightarrow> None
      | Some (rep, u') \<Rightarrow>
        label_loop xs u' (case map_of label rep of
            Some cur \<Rightarrow> if better_label x cur then AList.update rep x label else label
          | None \<Rightarrow> AList.update rep x label))"

definition labels :: "uf \<Rightarrow> ((string \<times> string) list \<times> uf) option" where
  "labels u = label_loop (sort (remdups (map fst u))) u []"

definition rootOf :: "uf \<Rightarrow> (string \<times> string) list \<Rightarrow> string \<Rightarrow> string" where
  "rootOf u label a = (case map_of u a of
       None \<Rightarrow> a
     | Some _ \<Rightarrow> (case uf_find u a of Some (r, _) \<Rightarrow> lookup_or '''' label r | None \<Rightarrow> ''''))"

section \<open>Domains\<close>

definition TrimSuffix :: "string \<Rightarrow> string \<Rightarrow> string" where
  "TrimSuffix s suf = (if length suf \<le> length s \<and> drop (length s - length suf) s = suf then take (length s - length suf) s else s)"

definition domainRoot :: "run_env \<Rightarrow> string list \<Rightarrow> string \<Rightarrow> string" where
  "domainRoot E suffixes domain =
     (let labels = Split (CHR ''.'') (ToLower (ev_lower E) (TrimSuffix domain ''.''));
          keep = (case find (\<lambda>i. join (CHR ''.'') (drop i labels) \<in> set suffixes) [1..<length labels - 1] of
                    Some i \<Rightarrow> length labels - i + 1 | None \<Rightarrow> 2);
          keep' = (if keep > length labels then length labels else keep)
      in ''domain:'' @ join (CHR ''.'') (drop (length labels - keep') labels))"

section \<open>The partitions of a run\<close>

definition price_of :: "trust_Params \<Rightarrow> string \<Rightarrow> ProofPrice" where
  "price_of p kind = lookup_or (control_row\<lparr>pr_Curve := ''''\<rparr>) (tp_Proofs p) kind"

text \<open>\<open>counts\<close>: whether a proof counts at \<open>asOf\<close>. An absent pricing row is the zero row.\<close>

definition proof_counts :: "trust_Params \<Rightarrow> int \<Rightarrow> InputRecord \<Rightarrow> bool" where
  "proof_counts p asOf x =
     (let fresh = asOf - tp_ProofFreshDays p * day_seconds in
      if rc_CreatedAt x > asOf then False
      else if rc_Kind x = ''domain'' \<or> pr_Assess (price_of p (rc_Kind x)) \<noteq> '''' then
        rc_State x = ''verified'' \<and> rc_CheckedAt x \<ge> fresh \<and> rc_CheckedAt x \<le> asOf
      else if rc_Kind x = ''ed25519'' then rc_State x = ''proof_attached'' \<or> rc_State x = ''verified''
      else rc_State x = ''verified'')"

definition base_link :: "run_env \<Rightarrow> trust_Params \<Rightarrow> int \<Rightarrow> InputRecord \<Rightarrow> (string \<times> string) list" where
  "base_link E p asOf x =
     (if \<not> proof_counts p asOf x then []
      else if rc_Kind x = ''domain'' then [(rc_Account x, domainRoot E (tp_DomainSuffixes p) (rc_LinkValue x))]
      else if rc_Kind x = ''ed25519'' then (if rc_LinkAccount x \<noteq> '''' then [(rc_Account x, rc_LinkAccount x)] else [])
      else [])"

definition full_link :: "run_env \<Rightarrow> trust_Params \<Rightarrow> int \<Rightarrow> string list \<Rightarrow> InputRecord \<Rightarrow> (string \<times> string) list" where
  "full_link E p asOf burned x =
     (if proof_counts p asOf x \<and> rc_Kind x = ''wallet'' then (if rc_Root x \<noteq> '''' \<and> rc_Root x \<notin> set burned then [(rc_Account x, rc_Root x)] else [])
      else base_link E p asOf x)"

definition payout_link :: "int \<Rightarrow> string list \<Rightarrow> InputRecord \<Rightarrow> (string \<times> string) list" where
  "payout_link asOf burned x =
     (if rc_To x \<noteq> '''' \<and> rc_LinkValue x \<noteq> '''' \<and> rc_LinkValue x \<notin> set burned \<and> rc_CreatedAt x < asOf then [(rc_To x, rc_LinkValue x)] else [])"

definition base_links :: "run_env \<Rightarrow> trust_Params \<Rightarrow> int \<Rightarrow> InputRecord list \<Rightarrow> (string \<times> string) list" where
  "base_links E p asOf proofs = concat (map (base_link E p asOf) proofs)"

definition full_links :: "run_env \<Rightarrow> trust_Params \<Rightarrow> int \<Rightarrow> string list \<Rightarrow> InputRecord list \<Rightarrow> InputRecord list \<Rightarrow> (string \<times> string) list" where
  "full_links E p asOf burned proofs payments = concat (map (full_link E p asOf burned) proofs) @ concat (map (payout_link asOf burned) payments)"

text \<open>The union-find over some links with its labels, as the run keeps it.\<close>

definition partition_of :: "(string \<times> string) list \<Rightarrow> (uf \<times> (string \<times> string) list) option" where
  "partition_of ps = (case unite_all [] ps of None \<Rightarrow> None | Some u \<Rightarrow> (case labels u of None \<Rightarrow> None | Some (label, u') \<Rightarrow> Some (u', label)))"

end
