(* ===== verification/Trust_Log.thy ===== *)
theory Trust_Log
  imports Trust_Unite
begin

text \<open>
  What a run reads of the runs before it (\<open>internal/trust/compute.go\<close>): the penalty log, assembled from its
  records, and the carry, each account's accumulated world edge, with the records a run writes of it.
  Maps are association lists.
\<close>

section \<open>The penalty log\<close>

record logEntry =
  le_id :: string
  le_trigger :: string
  le_evidence :: string
  le_members :: "string list"
  le_start :: int
  le_end :: int
  le_level :: int
  le_pending :: bool
  le_lifted :: bool
  le_burned :: "string list"
  le_liabilities :: "InputRecord list"

definition activeAt :: "logEntry \<Rightarrow> int \<Rightarrow> bool" where
  "activeAt e t \<longleftrightarrow> \<not> le_lifted e \<and> \<not> le_pending e \<and> le_start e \<le> t \<and> t < le_end e"

definition penalty_triggers :: "string list" where
  "penalty_triggers = [''ring'', ''funnel'', ''shared_wallet'', ''moderation'', ''override'']"

definition new_entry :: "InputRecord \<Rightarrow> logEntry" where
  "new_entry r = \<lparr>le_id = rc_ID r, le_trigger = rc_Kind r, le_evidence = rc_Evidence r, le_members = [], le_start = rc_CreatedAt r, le_end = rc_EndsAt r,
     le_level = rc_Value r, le_pending = (rc_State r = ''pending''), le_lifted = False, le_burned = [], le_liabilities = []\<rparr>"

definition entry_agrees :: "logEntry \<Rightarrow> InputRecord \<Rightarrow> bool" where
  "entry_agrees e r \<longleftrightarrow> \<not> (le_trigger e \<noteq> rc_Kind r \<or> le_start e \<noteq> rc_CreatedAt r \<or> le_end e \<noteq> rc_EndsAt r \<or> le_level e \<noteq> rc_Value r
     \<or> le_pending e \<noteq> (rc_State r = ''pending'') \<or> le_evidence e \<noteq> rc_Evidence r)"

fun read_penalties :: "(string \<times> logEntry) list \<Rightarrow> InputRecord list \<Rightarrow> trust_err + (string \<times> logEntry) list" where
  "read_penalties entries [] = Inr entries"
| "read_penalties entries (r # rs) =
     (if rc_ID r = '''' \<or> rc_Account r = '''' then Inl Penalty_needs_id
      else let e = (case map_of entries (rc_ID r) of Some e \<Rightarrow> e | None \<Rightarrow> new_entry r) in
        if \<not> entry_agrees e r then Inl (Members_disagree (rc_ID r))
        else if rc_Kind r \<notin> set penalty_triggers then Inl (Unknown_trigger (rc_ID r) (rc_Kind r))
        else read_penalties (AList.update (rc_ID r) (e\<lparr>le_members := le_members e @ [rc_Account r]\<rparr>) entries) rs)"

definition on_entry :: "string \<Rightarrow> (logEntry \<Rightarrow> logEntry) \<Rightarrow> (string \<times> logEntry) list \<Rightarrow> (string \<times> logEntry) list" where
  "on_entry i f entries = (case map_of entries i of Some e \<Rightarrow> AList.update i (f e) entries | None \<Rightarrow> entries)"

definition read_burn :: "(string \<times> logEntry) list \<Rightarrow> InputRecord \<Rightarrow> (string \<times> logEntry) list" where
  "read_burn entries r = (if rc_Root r \<noteq> '''' then on_entry (rc_ID r) (\<lambda>e. e\<lparr>le_burned := le_burned e @ [rc_Root r]\<rparr>) entries else entries)"

definition read_liability :: "(string \<times> logEntry) list \<Rightarrow> InputRecord \<Rightarrow> (string \<times> logEntry) list" where
  "read_liability entries r = (if rc_Account r \<noteq> '''' then on_entry (rc_ID r) (\<lambda>e. e\<lparr>le_liabilities := le_liabilities e @ [r]\<rparr>) entries else entries)"

definition read_lift :: "int \<Rightarrow> (string \<times> logEntry) list \<Rightarrow> InputRecord \<Rightarrow> (string \<times> logEntry) list" where
  "read_lift asOf entries r = (if rc_CreatedAt r \<le> asOf then on_entry (rc_ID r) (\<lambda>e. e\<lparr>le_lifted := True\<rparr>) entries else entries)"

text \<open>The entries by id, and the ids in order.\<close>

definition readLog :: "run_env \<Rightarrow> Snapshot \<Rightarrow> trust_err + ((string \<times> logEntry) list \<times> string list)" where
  "readLog E snap =
     (case read_penalties [] (sortRecords E (sn_Penalties snap)) of
        Inl e \<Rightarrow> Inl e
      | Inr log0 \<Rightarrow>
        let log1 = foldl read_burn log0 (sortRecords E (sn_Burns snap));
            log2 = foldl read_liability log1 (sortRecords E (sn_Liabilities snap));
            log3 = foldl (read_lift (mt_AsOf (sn_Meta snap))) log2 (sortRecords E (sn_Lifts snap))
        in Inr (log3, sort (map fst log3)))"

text \<open>The entries in the order of their ids, as every loop over the log reads them.\<close>

definition log_entries :: "(string \<times> logEntry) list \<times> string list \<Rightarrow> logEntry list" where
  "log_entries = (\<lambda>(entries, ids). List.map_filter (map_of entries) ids)"

section \<open>The carry\<close>

record CarryAccount =
  ca_Account :: string
  ca_Money :: int
  ca_Time :: int
  ca_FadePPM :: int
  ca_LastActive :: int
  ca_Direct :: int
  ca_Standing :: int
  ca_Backed :: int

record Carry =
  cy_AsOf :: int
  cy_Accounts :: "CarryAccount list"

record carryIn =
  ci_asOf :: int
  ci_accounts :: "(string \<times> CarryAccount) list"

definition carry_record :: "CarryAccount \<Rightarrow> InputRecord" where
  "carry_record a = zero_Record\<lparr>rc_Type := ''carry'', rc_Kind := ''world'', rc_Account := ca_Account a, rc_Amount := ca_Money a, rc_Time := ca_Time a,
     rc_FractionPPM := ca_FadePPM a, rc_LastActive := ca_LastActive a, rc_Direct := ca_Direct a, rc_Standing := ca_Standing a, rc_Backed := ca_Backed a\<rparr>"

definition carries_nothing :: "CarryAccount \<Rightarrow> bool" where
  "carries_nothing a \<longleftrightarrow> ca_Money a = 0 \<and> ca_Time a = 0 \<and> ca_FadePPM a = 1000000 \<and> ca_Direct a = 0 \<and> ca_Standing a = 0 \<and> ca_Backed a = 0"

definition Carry_Records :: "Carry \<Rightarrow> InputRecord list" where
  "Carry_Records c = zero_Record\<lparr>rc_Type := ''carry'', rc_Kind := ''run'', rc_AsOf := cy_AsOf c\<rparr>
     # map carry_record (filter (\<lambda>a. \<not> carries_nothing a) (cy_Accounts c))"

definition carry_account :: "InputRecord \<Rightarrow> CarryAccount" where
  "carry_account r = \<lparr>ca_Account = rc_Account r, ca_Money = rc_Amount r, ca_Time = rc_Time r, ca_FadePPM = rc_FractionPPM r, ca_LastActive = rc_LastActive r,
     ca_Direct = rc_Direct r, ca_Standing = rc_Standing r, ca_Backed = rc_Backed r\<rparr>"

fun read_carry :: "int \<Rightarrow> carryIn \<Rightarrow> InputRecord list \<Rightarrow> trust_err + carryIn" where
  "read_carry runs c [] = (if runs \<noteq> 1 then Inl (Carry_runs runs) else Inr c)"
| "read_carry runs c (r # rs) =
     (if rc_Kind r = ''run'' then read_carry (runs + 1) (c\<lparr>ci_asOf := rc_AsOf r\<rparr>) rs
      else if rc_Kind r = ''world'' then
        (if rc_Account r = '''' \<or> rc_Amount r < 0 \<or> rc_Time r < 0 \<or> rc_Backed r < 0 \<or> rc_Direct r < 0 \<or> rc_Standing r < 0
           \<or> rc_FractionPPM r < 0 \<or> rc_FractionPPM r > 1000000 then Inl (Carry_range (rc_Account r))
         else if map_of (ci_accounts c) (rc_Account r) \<noteq> None then Inl (Carry_repeated (rc_Account r))
         else if rc_Amount r > 2 ^ 50 \<or> rc_Time r > 2 ^ 50 \<or> rc_Backed r > 2 ^ 50 \<or> rc_Direct r > 2 ^ 40 \<or> rc_Standing r > 2 ^ 40 then Inl (Carry_range (rc_Account r))
         else read_carry runs (c\<lparr>ci_accounts := AList.update (rc_Account r) (carry_account r) (ci_accounts c)\<rparr>) rs)
      else Inl (Unknown_carry (rc_Kind r)))"

definition carryFromRecords :: "run_env \<Rightarrow> InputRecord list \<Rightarrow> trust_err + carryIn option" where
  "carryFromRecords E list =
     (if list = [] then Inr None
      else case read_carry 0 \<lparr>ci_asOf = 0, ci_accounts = []\<rparr> (sortRecords E list) of Inl e \<Rightarrow> Inl e | Inr c \<Rightarrow> Inr (Some c))"

section \<open>A carry is read as it was written\<close>

definition carry_ok :: "CarryAccount \<Rightarrow> bool" where
  "carry_ok a \<longleftrightarrow> ca_Account a \<noteq> '''' \<and> 0 \<le> ca_Money a \<and> ca_Money a \<le> 2 ^ 50 \<and> 0 \<le> ca_Time a \<and> ca_Time a \<le> 2 ^ 50 \<and> 0 \<le> ca_Backed a \<and> ca_Backed a \<le> 2 ^ 50
     \<and> 0 \<le> ca_Direct a \<and> ca_Direct a \<le> 2 ^ 40 \<and> 0 \<le> ca_Standing a \<and> ca_Standing a \<le> 2 ^ 40 \<and> 0 \<le> ca_FadePPM a \<and> ca_FadePPM a \<le> 1000000"

lemma carry_account_record [simp]: "carry_account (carry_record a) = a"
  by (simp add: carry_account_def carry_record_def)

lemma carry_record_sel [simp]: "rc_Kind (carry_record a) = ''world''" "rc_Account (carry_record a) = ca_Account a" "rc_Amount (carry_record a) = ca_Money a"
    "rc_Time (carry_record a) = ca_Time a" "rc_Backed (carry_record a) = ca_Backed a" "rc_Direct (carry_record a) = ca_Direct a"
    "rc_Standing (carry_record a) = ca_Standing a" "rc_FractionPPM (carry_record a) = ca_FadePPM a"
  by (simp_all add: carry_record_def)

definition run_record :: "int \<Rightarrow> InputRecord" where
  "run_record t = zero_Record\<lparr>rc_Type := ''carry'', rc_Kind := ''run'', rc_AsOf := t\<rparr>"

lemma run_record_sel [simp]: "rc_Kind (run_record t) = ''run''" "rc_AsOf (run_record t) = t"
  by (simp_all add: run_record_def)

lemma carry_not_run: "carry_record a \<noteq> run_record t"
proof
  assume "carry_record a = run_record t"
  then have "rc_Kind (carry_record a) = rc_Kind (run_record t)" by (rule arg_cong)
  then show False by simp
qed

text \<open>Accounts in any order, and the run's record anywhere among them.\<close>

definition world_rows :: "InputRecord list \<Rightarrow> (string \<times> CarryAccount) list" where
  "world_rows rs = map (\<lambda>r. (rc_Account r, carry_account r)) (filter (\<lambda>r. rc_Kind r = ''world'') rs)"

definition run_rows :: "InputRecord list \<Rightarrow> InputRecord list" where
  "run_rows rs = filter (\<lambda>r. rc_Kind r = ''run'') rs"

lemma read_carry_rows:
  assumes "\<forall>r\<in>set rs. r = run_record t \<or> (\<exists>a. carry_ok a \<and> r = carry_record a)"
    "distinct (map fst (world_rows rs))" "fst ` set (world_rows rs) \<inter> dom (map_of (ci_accounts c)) = {}"
    "runs + int (length (run_rows rs)) = 1"
  shows "\<exists>c'. read_carry runs c rs = Inr c' \<and> ci_asOf c' = (if run_rows rs = [] then ci_asOf c else t)
    \<and> map_of (ci_accounts c') = map_of (ci_accounts c) ++ map_of (world_rows rs)"
  using assms
proof (induction rs arbitrary: runs c)
  case (Cons r rs)
  show ?case
  proof (cases "r = run_record t")
    case True
    with Cons.prems have "\<exists>c'. read_carry (runs + 1) (c\<lparr>ci_asOf := t\<rparr>) rs = Inr c' \<and> ci_asOf c' = (if run_rows rs = [] then t else t)
      \<and> map_of (ci_accounts c') = map_of (ci_accounts c) ++ map_of (world_rows rs)"
      using Cons.IH [of "c\<lparr>ci_asOf := t\<rparr>" "runs + 1"] by (simp add: world_rows_def run_rows_def cong: if_cong)
    with True show ?thesis by (simp add: world_rows_def run_rows_def)
  next
    case False
    with Cons.prems(1) obtain a where a: "carry_ok a" "r = carry_record a" by auto
    have w: "world_rows (r # rs) = (ca_Account a, a) # world_rows rs" "run_rows (r # rs) = run_rows rs"
      using a by (simp_all add: world_rows_def run_rows_def)
    have new: "map_of (ci_accounts c) (ca_Account a) = None" using Cons.prems(3) w by auto
    let ?c = "c\<lparr>ci_accounts := AList.update (ca_Account a) a (ci_accounts c)\<rparr>"
    have "\<exists>c'. read_carry runs ?c rs = Inr c' \<and> ci_asOf c' = (if run_rows rs = [] then ci_asOf ?c else t)
      \<and> map_of (ci_accounts c') = map_of (ci_accounts ?c) ++ map_of (world_rows rs)" (is "\<exists>c'. ?P c'")
    proof (rule Cons.IH)
      show "fst ` set (world_rows rs) \<inter> dom (map_of (ci_accounts ?c)) = {}"
        using Cons.prems(2,3) w(1) by (simp add: update_conv' disjoint_iff)
    qed (use Cons.prems w in simp_all)
    then obtain c' where "?P c'" by blast
    moreover have "map_of (ci_accounts ?c) ++ map_of (world_rows rs) = map_of (ci_accounts c) ++ map_of (world_rows (r # rs))"
      using Cons.prems(2) w(1) map_add_upd_left [of "ca_Account a" "map_of (world_rows rs)"] by (simp add: update_conv' dom_map_of_conv_image_fst)
    moreover have "read_carry runs c (r # rs) = read_carry runs ?c rs"
      using a new by (simp add: carry_ok_def not_less)
    ultimately have "read_carry runs c (r # rs) = Inr c' \<and> ci_asOf c' = (if run_rows (r # rs) = [] then ci_asOf c else t)
      \<and> map_of (ci_accounts c') = map_of (ci_accounts c) ++ map_of (world_rows (r # rs))"
      unfolding w(2) by simp
    then show ?thesis by blast
  qed
qed (simp add: world_rows_def run_rows_def)

lemma carry_rows_of:
  "world_rows (map carry_record as) = map (\<lambda>a. (ca_Account a, a)) as" "run_rows (map carry_record as) = []"
  by (induction as) (auto simp: world_rows_def run_rows_def)

lemma map_of_accounts: "map_of (map (\<lambda>a. (ca_Account a, a)) as) k = find (\<lambda>x. ca_Account x = k) as"
  by (induction as) auto

lemma find_filter: "find P (filter Q xs) = find (\<lambda>x. P x \<and> Q x) xs"
  by (induction xs) auto

lemma Carry_Records_rows: "Carry_Records c = run_record (cy_AsOf c) # map carry_record (filter (\<lambda>a. \<not> carries_nothing a) (cy_Accounts c))"
  by (simp add: Carry_Records_def run_record_def)

lemma rows_distinct:
  assumes "distinct (map ca_Account (cy_Accounts c))" "mset rs = mset (Carry_Records c)"
  shows "distinct (map fst (world_rows rs))"
proof -
  let ?as = "filter (\<lambda>a. \<not> carries_nothing a) (cy_Accounts c)"
  have "world_rows (Carry_Records c) = map (\<lambda>a. (ca_Account a, a)) ?as"
    using carry_rows_of [of ?as] by (simp add: Carry_Records_rows world_rows_def)
  then have "distinct (map fst (world_rows (Carry_Records c)))" using distinct_map_filter [OF assms(1)] by (simp add: comp_def)
  moreover have "mset (map fst (world_rows rs)) = mset (map fst (world_rows (Carry_Records c)))"
    using assms(2) by (simp add: world_rows_def)
  ultimately show ?thesis using mset_eq_imp_distinct_iff by blast
qed

text \<open>A value outside the ranges is refused, whatever else the file holds and in whatever order it comes.\<close>

lemma read_carry_refuses:
  assumes "\<forall>r\<in>set rs. r = run_record t \<or> (\<exists>a. r = carry_record a)" "distinct (map fst (world_rows rs))"
    "fst ` set (world_rows rs) \<inter> dom (map_of (ci_accounts c)) = {}" "carry_record a \<in> set rs" "\<not> carry_ok a"
  shows "\<exists>b. carry_record b \<in> set rs \<and> \<not> carry_ok b \<and> read_carry runs c rs = Inl (Carry_range (ca_Account b))"
  using assms
proof (induction rs arbitrary: runs c)
  case (Cons r rs)
  show ?case
  proof (cases "r = run_record t")
    case True
    with Cons.prems carry_not_run have "carry_record a \<in> set rs" by auto
    with True Cons.prems have "\<exists>b. carry_record b \<in> set rs \<and> \<not> carry_ok b \<and> read_carry (runs + 1) (c\<lparr>ci_asOf := t\<rparr>) rs = Inl (Carry_range (ca_Account b))"
      by (intro Cons.IH) (simp_all add: world_rows_def)
    with True show ?thesis by auto
  next
    case False
    with Cons.prems(1) obtain b where b: "r = carry_record b" by auto
    have w: "world_rows (r # rs) = (ca_Account b, b) # world_rows rs" using b by (simp add: world_rows_def)
    have new: "map_of (ci_accounts c) (ca_Account b) = None" using Cons.prems(3) w by auto
    show ?thesis
    proof (cases "carry_ok b")
      case True
      let ?c = "c\<lparr>ci_accounts := AList.update (ca_Account b) b (ci_accounts c)\<rparr>"
      have "carry_record a \<in> set rs" using Cons.prems(4,5) b True by (metis carry_account_record set_ConsD)
      then have "\<exists>b. carry_record b \<in> set rs \<and> \<not> carry_ok b \<and> read_carry runs ?c rs = Inl (Carry_range (ca_Account b))"
      proof (intro Cons.IH)
        show "fst ` set (world_rows rs) \<inter> dom (map_of (ci_accounts ?c)) = {}" using Cons.prems(2,3) w by (simp add: update_conv' disjoint_iff)
      qed (use Cons.prems w in simp_all)
      then show ?thesis using b new True by (auto simp: carry_ok_def not_less)
    next
      case bad: False
      then have "read_carry runs c (r # rs) = Inl (Carry_range (ca_Account b))"
        using b new by (auto simp: carry_ok_def not_le)
      then show ?thesis using b bad by auto
    qed
  qed
qed simp

lemma carry_refused:
  assumes "distinct (map ca_Account (cy_Accounts c))" "mset rs = mset (Carry_Records c)" "a \<in> set (cy_Accounts c)" "\<not> carries_nothing a" "\<not> carry_ok a"
  shows "\<exists>b\<in>set (cy_Accounts c). \<not> carry_ok b \<and> carryFromRecords E rs = Inl (Carry_range (ca_Account b))"
proof -
  let ?rs = "sortRecords E rs"
  have m: "mset ?rs = mset (Carry_Records c)" using assms(2) by simp
  have s: "set ?rs = set (Carry_Records c)" using mset_eq_setD [OF m] .
  have "carry_record a \<in> set ?rs" using assms(3,4) unfolding s by (simp add: Carry_Records_rows)
  moreover have "\<forall>r\<in>set ?rs. r = run_record (cy_AsOf c) \<or> (\<exists>a. r = carry_record a)" unfolding s by (auto simp: Carry_Records_rows)
  ultimately obtain b where b: "carry_record b \<in> set ?rs" "\<not> carry_ok b" "read_carry 0 \<lparr>ci_asOf = 0, ci_accounts = []\<rparr> ?rs = Inl (Carry_range (ca_Account b))"
    using read_carry_refuses [of ?rs "cy_AsOf c" "\<lparr>ci_asOf = 0, ci_accounts = []\<rparr>" a 0] rows_distinct [OF assms(1) m] assms(5) by auto
  have "b \<in> set (cy_Accounts c)" using b(1) carry_not_run unfolding s by (auto simp: Carry_Records_rows dest: arg_cong [of _ _ carry_account])
  moreover have "rs \<noteq> []" using assms(2) by (auto simp: Carry_Records_rows)
  ultimately show ?thesis using b(2,3) by (auto simp: carryFromRecords_def)
qed

lemma carry_reads_back:
  assumes "distinct (map ca_Account (cy_Accounts c))" "\<forall>a\<in>set (cy_Accounts c). carries_nothing a \<or> carry_ok a" "mset rs = mset (Carry_Records c)"
  shows "\<exists>ci. carryFromRecords E rs = Inr (Some ci) \<and> ci_asOf ci = cy_AsOf c
    \<and> (\<forall>a. map_of (ci_accounts ci) a = find (\<lambda>x. ca_Account x = a \<and> \<not> carries_nothing x) (cy_Accounts c))"
proof -
  let ?as = "filter (\<lambda>a. \<not> carries_nothing a) (cy_Accounts c)" and ?rs = "sortRecords E rs"
  let ?c = "\<lparr>ci_asOf = 0, ci_accounts = []\<rparr>"
  note recs = Carry_Records_rows [of c]
  have perm: "mset (world_rows ?rs) = mset (world_rows (Carry_Records c))" "mset (run_rows ?rs) = mset (run_rows (Carry_Records c))"
    using assms(3) by (simp_all add: world_rows_def run_rows_def)
  have w: "world_rows (Carry_Records c) = map (\<lambda>a. (ca_Account a, a)) ?as" "run_rows (Carry_Records c) = [run_record (cy_AsOf c)]"
    using carry_rows_of [of ?as] by (simp_all add: recs world_rows_def run_rows_def)
  have dw: "distinct (map fst (world_rows (Carry_Records c)))" and dr: "distinct (map fst (world_rows ?rs))"
    using assms(3) by (simp_all add: rows_distinct [OF assms(1)])
  have len: "length (run_rows ?rs) = 1" using perm(2) w(2) by (metis One_nat_def length_Cons list.size(3) mset_eq_length)
  have "set ?rs = set (Carry_Records c)" using assms(3) by (metis mset_eq_setD set_sortRecords)
  then have "\<forall>r\<in>set ?rs. r = run_record (cy_AsOf c) \<or> (\<exists>a. carry_ok a \<and> r = carry_record a)"
    using assms(2) by (auto simp: recs)
  from read_carry_rows [of ?rs "cy_AsOf c" ?c 0, OF this dr] len
  obtain ci where ci: "read_carry 0 ?c ?rs = Inr ci" "ci_asOf ci = cy_AsOf c" "map_of (ci_accounts ci) = map_of (world_rows ?rs)"
    by (auto split: if_splits)
  have "set (world_rows ?rs) = set (world_rows (Carry_Records c))" using perm(1) by (metis set_mset_mset)
  then have "map_of (world_rows ?rs) = map_of (world_rows (Carry_Records c))" using map_of_inject_set [OF dr dw] by blast
  then have "\<forall>a. map_of (ci_accounts ci) a = find (\<lambda>x. ca_Account x = a \<and> \<not> carries_nothing x) (cy_Accounts c)"
    using ci(3) w(1) by (simp add: map_of_accounts find_filter)
  moreover have "rs \<noteq> []" using assms(3) by (auto simp: recs)
  then have "carryFromRecords E rs = Inr (Some ci)" using ci(1) by (simp add: carryFromRecords_def)
  ultimately show ?thesis using ci(2) by blast
qed


end
