(* ===== verification/Trust_Collect.thy ===== *)
theory Trust_Collect
  imports Trust_Log Judge_Spec "HOL-Library.Product_Lexorder"
begin

text \<open>
  The judgements of a run (\<open>internal/trust/judgements.go\<close>): endorsements, acts and reviews read as
  judgements, an author's own subjects dropped, each root's older judgement of a subject closed by its
  newer one; and the marking of every judgement against the later ones. A judgement set is the record of
  \<open>Trust_Graph\<close>; the owners of a subject are a list without repetition.
\<close>

section \<open>Collecting\<close>

text \<open>What \<open>add\<close> gets: the judgement without its root, whether it withdraws, and an owner of its subject.\<close>

type_synonym candidate = "Judgement \<times> bool \<times> string"

definition judgement :: "string \<Rightarrow> string \<Rightarrow> string \<Rightarrow> string \<Rightarrow> int \<Rightarrow> bool \<Rightarrow> string \<Rightarrow> string \<Rightarrow> int \<Rightarrow> Judgement" where
  "judgement i act author subject x coarse evid rel t = \<lparr>jd_ID = i, jd_Act = act, jd_Author = author, jd_Root = '''', jd_Subject = subject, jd_X = x,
     jd_Coarse = coarse, jd_Evidence = evid, jd_Relationship = rel, jd_At = t\<rparr>"

definition act_class :: "trust_Params \<Rightarrow> string \<Rightarrow> string" where
  "act_class p act = lookup_or '''' (tp_ActEvidence p) act"

definition endorsement_key :: "InputRecord \<Rightarrow> int \<times> int \<times> string \<times> string \<times> string \<times> string \<times> int" where
  "endorsement_key r = (rc_Seq r, rc_CreatedAt r, rc_Kind r, rc_Voter r, rc_Target r, rc_MessageID r, rc_Value r)"

definition from_endorsement :: "trust_Params \<Rightarrow> InputRecord \<Rightarrow> candidate list" where
  "from_endorsement p r =
     (let i = ''e'' @ FormatInt (rc_Seq r) in
      if rc_Target r = '''' then []
      else if rc_Kind r = ''vote'' then
        (if rc_MessageID r = '''' then []
         else let v = FromVote (rc_Value r) in
           [(judgement i ''vote'' (rc_Voter r) (PostSubject (rc_MessageID r)) (case v of Some x \<Rightarrow> x | None \<Rightarrow> 0) True (act_class p ''vote'') '''' (rc_CreatedAt r),
             v = None, rc_Target r)])
      else if rc_Kind r = ''vouch'' then
        (let v = FromVouch (rc_Value r) 0 in
         [(judgement i ''vouch'' (rc_Voter r) (AgentSubject (rc_Target r)) (case v of Some (x, _) \<Rightarrow> x | None \<Rightarrow> 0) (case v of Some (_, c) \<Rightarrow> c | None \<Rightarrow> False)
             (act_class p ''vouch'') '''' (rc_CreatedAt r), v = None, rc_Target r)])
      else [])"

definition from_act :: "trust_Params \<Rightarrow> InputRecord \<Rightarrow> candidate list" where
  "from_act p r =
     (if rc_Kind r = ''work_accept'' then
        (case FromWorkAccept (- 1) of (x, coarse) \<Rightarrow>
           [(judgement (''work:'' @ rc_ID r) ''work_accept'' (rc_From r) (AgentSubject (rc_To r)) x coarse (act_class p ''work_accept'') '''' (rc_CreatedAt r), False, rc_To r)])
      else if rc_Kind r = ''witness'' \<and> rc_ID r \<noteq> '''' \<and> rc_Value r \<noteq> 0 then
        [(judgement (''witness:'' @ rc_From r @ '':'' @ rc_ID r) ''witness'' (rc_From r) (ClaimSubject (rc_To r) (rc_ID r)) (FromWitness (rc_Value r > 0)) True
            (act_class p ''witness'') '''' (rc_CreatedAt r), False, rc_To r)]
      else [])"

definition from_review :: "InputRecord \<Rightarrow> candidate list" where
  "from_review r = [(judgement (''review:'' @ rc_ID r) ''review'' (rc_Account r) (rc_Target r) (min Max_x (max Min_x (rc_Value r))) False (rc_Kind r) (rc_LinkValue r)
     (rc_CreatedAt r), False, '''')]"

definition candidates :: "run_env \<Rightarrow> trust_Params \<Rightarrow> Snapshot \<Rightarrow> candidate list" where
  "candidates E p snap = concat (map (from_endorsement p) (sort_key endorsement_key (sn_Endorsements snap)))
     @ concat (map (from_act p) (sortRecords E (sn_Acts snap))) @ concat (map from_review (sortRecords E (sn_Reviews snap)))"

definition added :: "int \<Rightarrow> int \<Rightarrow> string list \<Rightarrow> candidate \<Rightarrow> bool" where
  "added asOf ws reset = (\<lambda>(j, _, _). \<not> (jd_Author j = '''' \<or> jd_Subject j = '''' \<or> jd_Author j \<in> set reset \<or> jd_At j < ws \<or> jd_At j \<ge> asOf))"

definition entry_of :: "(string \<Rightarrow> string) \<Rightarrow> candidate \<Rightarrow> jEntry" where
  "entry_of rt = (\<lambda>(j, withdraw, _). \<lparr>en_j = j\<lparr>jd_Root := rt (jd_Author j)\<rparr>, en_withdraw = withdraw, en_closeIdx = - 1\<rparr>)"

text \<open>The pairs \<open>own\<close> notes: the owner records, the owner of each entry, and the agent of an agent subject.\<close>

definition owner_pairs :: "run_env \<Rightarrow> Snapshot \<Rightarrow> candidate list \<Rightarrow> (string \<times> string) list" where
  "owner_pairs E snap cs = filter (\<lambda>(s, a). a \<noteq> '''')
     (map (\<lambda>r. (rc_Target r, rc_Account r)) (sortRecords E (sn_Owners snap))
      @ map (\<lambda>(j, _, w). (jd_Subject j, w)) cs
      @ List.map_filter (\<lambda>(j, _, _). map_option (\<lambda>a. (jd_Subject j, a)) (CutPrefix ''agent:'' (jd_Subject j))) cs)"

definition owners_of :: "(string \<times> string) list \<Rightarrow> string \<Rightarrow> string list" where
  "owners_of pairs s = remdups (map snd (filter (\<lambda>(t, _). t = s) pairs))"

definition entry_key :: "jEntry \<Rightarrow> int \<times> string \<times> string" where
  "entry_key e = (jd_At (en_j e), jd_ID (en_j e), jd_Author (en_j e))"

text \<open>The loop over a sorted list: \<open>last\<close> is the index of each root's latest entry so far, which the next one of the root closes.\<close>

definition close_step :: "jEntry list \<times> (string \<rightharpoonup> nat) \<Rightarrow> nat \<Rightarrow> jEntry list \<times> (string \<rightharpoonup> nat)" where
  "close_step = (\<lambda>(list, last) i. let root = jd_Root (en_j (list ! i)) in
     ((case last root of Some prev \<Rightarrow> list[prev := (list ! prev)\<lparr>en_closeIdx := int i\<rparr>] | None \<Rightarrow> list), last(root \<mapsto> i)))"

definition close_entries :: "jEntry list \<Rightarrow> jEntry list" where
  "close_entries list = fst (foldl close_step (list, Map.empty) [0..<length list])"

definition collectJudgements :: "run_env \<Rightarrow> trust_Params \<Rightarrow> Snapshot \<Rightarrow> int \<Rightarrow> int \<Rightarrow> string list \<Rightarrow> (string \<Rightarrow> string) \<Rightarrow> judgementSet" where
  "collectJudgements E p snap asOf ws reset rt =
     (let cs = filter (added asOf ws reset) (candidates E p snap);
          pairs = owner_pairs E snap cs;
          kept = filter (\<lambda>e. \<not> OwnSubject (jd_Author (en_j e)) (owners_of pairs (jd_Subject (en_j e))) rt) (map (entry_of rt) cs)
      in \<lparr>js_subjects = sort (remdups (map (\<lambda>e. jd_Subject (en_j e)) kept)),
          js_bySubject = (\<lambda>s. close_entries (sort_key entry_key (filter (\<lambda>e. jd_Subject (en_j e) = s) kept))),
          js_owners = owners_of pairs\<rparr>)"

section \<open>Marking\<close>

record accuracyInput =
  ai_p :: trust_Params
  ai_set :: judgementSet
  ai_asOf :: int
  ai_maxWork :: int
  ai_vOf :: "string \<Rightarrow> int"
  ai_penalty :: "string \<Rightarrow> bool"
  ai_indep :: "string \<Rightarrow> string \<Rightarrow> bool"
  ai_decayDay :: "int \<Rightarrow> int"

record accuracyOutput =
  ao_gain :: "string \<Rightarrow> int"
  ao_marked :: "string \<Rightarrow> int"
  ao_judged :: int
  ao_open :: int
  ao_truncated :: bool
  ao_work :: int

definition weightAt :: "accuracyInput \<Rightarrow> Judgement \<Rightarrow> int \<Rightarrow> int" where
  "weightAt ai j t = Weight (evidencePPM (ai_p ai) j) (ai_vOf ai (jd_Author j)) (RelationshipPPM (jd_Relationship j)) (ai_decayDay ai (dayOf t - dayOf (jd_At j)))"

definition subject_penalised :: "accuracyInput \<Rightarrow> string \<Rightarrow> bool" where
  "subject_penalised ai s = list_ex (ai_penalty ai) (js_owners (ai_set ai) s)"

text \<open>The newest entry of each root among \<open>list[from:to]\<close> that passes, as weighted points, and how many have weight.\<close>

definition latest :: "accuracyInput \<Rightarrow> jEntry list \<Rightarrow> nat \<Rightarrow> nat \<Rightarrow> int \<Rightarrow> (jEntry \<Rightarrow> bool) \<Rightarrow> Point list \<times> int" where
  "latest ai es from to t keep =
     (let is = filter (\<lambda>i. keep (es ! i)) [from..<to];
          roots = sort (remdups (map (\<lambda>i. jd_Root (en_j (es ! i))) is));
          newest = map (\<lambda>r. es ! last (filter (\<lambda>i. jd_Root (en_j (es ! i)) = r) is)) roots;
          pts = map (\<lambda>e. \<lparr>pt_X = MedianX (en_j e), pt_W = weightAt ai (en_j e) t\<rparr>) (filter (\<lambda>e. \<not> en_withdraw e) newest)
      in (pts, int (length (filter (\<lambda>q. pt_W q > 0) pts))))"

text \<open>The mark of the \<open>i\<close>-th entry of a subject, if its judgement is not still open.\<close>

definition mark_of :: "accuracyInput \<Rightarrow> bool \<Rightarrow> jEntry list \<Rightarrow> nat \<Rightarrow> int option" where
  "mark_of ai pen es i =
     (let e = es ! i; m = tp_MinJudges (ai_p ai);
          (T, to) = (if en_closeIdx e \<ge> 0 then (jd_At (en_j (es ! nat (en_closeIdx e))), nat (en_closeIdx e)) else (ai_asOf ai, length es));
          (before, _) = latest ai es 0 i (jd_At (en_j e)) (\<lambda>w. jd_Root (en_j w) \<noteq> jd_Root (en_j e));
          c0 = Consensus \<lparr>jp_PriorWeight = m, jp_ThinBelow = 0\<rparr> before;
          (after, k) = latest ai es (Suc i) to T (\<lambda>w. ai_indep ai (jd_Author (en_j e)) (jd_Author (en_j w)));
          cT = (if pen then Min_x else Outcome after)
      in if \<not> pen \<and> k < m then None else Some (Gain (jd_X (en_j e)) c0 cT (jd_Coarse (en_j e))))"

definition mark_entry :: "accuracyInput \<Rightarrow> bool \<Rightarrow> jEntry list \<Rightarrow> accuracyOutput \<Rightarrow> nat \<Rightarrow> accuracyOutput" where
  "mark_entry ai pen es ao i =
     (let e = es ! i; a = jd_Author (en_j e) in
      if en_withdraw e then ao
      else let ao1 = ao\<lparr>ao_judged := ao_judged ao + 1\<rparr> in
        if ao_truncated ao1 then ao1\<lparr>ao_open := ao_open ao1 + 1\<rparr>
        else let ao2 = ao1\<lparr>ao_work := ao_work ao1 + int (length es)\<rparr> in
          if ao_work ao2 > ai_maxWork ai then ao2\<lparr>ao_truncated := True, ao_open := ao_open ao2 + 1\<rparr>
          else case mark_of ai pen es i of
            None \<Rightarrow> ao2\<lparr>ao_open := ao_open ao2 + 1\<rparr>
          | Some g \<Rightarrow> ao2\<lparr>ao_gain := (ao_gain ao2)(a := ao_gain ao2 a + g), ao_marked := (ao_marked ao2)(a := ao_marked ao2 a + 1)\<rparr>)"

definition markAccuracy :: "accuracyInput \<Rightarrow> accuracyOutput" where
  "markAccuracy ai = foldl (\<lambda>ao s. let es = js_bySubject (ai_set ai) s in foldl (mark_entry ai (subject_penalised ai s) es) ao [0..<length es])
     \<lparr>ao_gain = (\<lambda>_. 0), ao_marked = (\<lambda>_. 0), ao_judged = 0, ao_open = 0, ao_truncated = False, ao_work = 0\<rparr> (js_subjects (ai_set ai))"

definition AccuracyPPM :: "int \<Rightarrow> int \<Rightarrow> int \<Rightarrow> int" where
  "AccuracyPPM gainPPM n m = (if n + m \<le> 0 then 1000000 else min 2000000 (max 500000 (1000000 + 2 * gainPPM sdiv (n + m))))"

section \<open>One current judgement of a root\<close>

lemma find_upt_Some: "find P [a..<b] = Some k \<Longrightarrow> a \<le> k \<and> k < b \<and> P k \<and> (\<forall>i. a \<le> i \<and> i < k \<longrightarrow> \<not> P i)"
proof (induction "b - a" arbitrary: a)
  case (Suc n)
  then have ab: "a < b" by simp
  then have u: "[a..<b] = a # [Suc a..<b]" by (simp add: upt_conv_Cons)
  show ?case
  proof (cases "P a")
    case True
    with Suc.prems u show ?thesis using ab by auto
  next
    case False
    have "n = b - Suc a" using Suc.hyps(2) by simp
    from Suc.hyps(1) [OF this] Suc.prems u False have "Suc a \<le> k \<and> k < b \<and> P k \<and> (\<forall>i. Suc a \<le> i \<and> i < k \<longrightarrow> \<not> P i)" by simp
    with False show ?thesis by (metis Suc_le_eq le_neq_implies_less less_imp_le)
  qed
qed simp

text \<open>
  What the loop leaves: after \<open>n\<close> rounds an entry is closed by the first entry of its root among those after
  it and before \<open>n\<close>, or is as it was; \<open>last\<close> has the latest index of each root.
\<close>

abbreviation root_at :: "jEntry list \<Rightarrow> nat \<Rightarrow> string" where
  "root_at es i \<equiv> jd_Root (en_j (es ! i))"

definition next_of_root :: "jEntry list \<Rightarrow> nat \<Rightarrow> nat \<Rightarrow> nat option" where
  "next_of_root es n i = find (\<lambda>k. root_at es k = root_at es i) [Suc i..<n]"

definition closed_by :: "jEntry list \<Rightarrow> nat \<Rightarrow> nat \<Rightarrow> jEntry" where
  "closed_by es n i = (case next_of_root es n i of Some k \<Rightarrow> (es ! i)\<lparr>en_closeIdx := int k\<rparr> | None \<Rightarrow> es ! i)"

definition close_inv :: "jEntry list \<Rightarrow> nat \<Rightarrow> jEntry list \<times> (string \<rightharpoonup> nat) \<Rightarrow> bool" where
  "close_inv es n = (\<lambda>(list, last). length list = length es \<and> (\<forall>i<length es. list ! i = closed_by es n i)
     \<and> (\<forall>root j. last root = Some j \<longleftrightarrow> j < n \<and> root_at es j = root \<and> next_of_root es n j = None))"

lemma closed_by_j [simp]: "en_j (closed_by es n i) = en_j (es ! i)" "en_withdraw (closed_by es n i) = en_withdraw (es ! i)"
  by (simp_all add: closed_by_def split: option.split)

lemma find_snoc: "find P (xs @ [y]) = (case find P xs of Some x \<Rightarrow> Some x | None \<Rightarrow> if P y then Some y else None)"
  by (induction xs) auto

lemma next_of_root_Suc:
  "next_of_root es (Suc n) i = (case next_of_root es n i of Some k \<Rightarrow> Some k | None \<Rightarrow> if i < n \<and> root_at es n = root_at es i then Some n else None)"
  by (cases "i < n") (simp_all add: next_of_root_def find_snoc)

lemma next_of_root_none: "next_of_root es n n = None"
  by (simp add: next_of_root_def)

lemma close_step_inv:
  assumes "close_inv es n (list, lt)" "n < length es"
  shows "close_inv es (Suc n) (close_step (list, lt) n)"
proof -
  let ?r = "root_at es n"
  have len: "length list = length es" and nth: "\<And>i. i < length es \<Longrightarrow> list ! i = closed_by es n i"
    and latest: "\<And>root j. lt root = Some j \<longleftrightarrow> j < n \<and> root_at es j = root \<and> next_of_root es n j = None"
    using assms(1) by (auto simp: close_inv_def)
  have r: "jd_Root (en_j (list ! n)) = ?r" using nth [OF assms(2)] by simp
  let ?l = "case lt ?r of Some prev \<Rightarrow> list[prev := (list ! prev)\<lparr>en_closeIdx := int n\<rparr>] | None \<Rightarrow> list"
  have entries: "?l ! i = closed_by es (Suc n) i" if "i < length es" for i
  proof (cases "lt ?r = Some i")
    case True
    then have "i < n" "root_at es i = ?r" "next_of_root es n i = None" using latest [of ?r i] by simp_all
    then show ?thesis using True nth [OF that] len that by (simp add: closed_by_def next_of_root_Suc)
  next
    case False
    then have "\<not> (i < n \<and> ?r = root_at es i \<and> next_of_root es n i = None)" using latest [of ?r i] by auto
    then have "closed_by es (Suc n) i = closed_by es n i" by (auto simp: closed_by_def next_of_root_Suc split: option.splits)
    moreover have "?l ! i = list ! i" using False by (auto split: option.splits)
    ultimately show ?thesis using nth [OF that] by simp
  qed
  have "(lt(?r \<mapsto> n)) root = Some j \<longleftrightarrow> j < Suc n \<and> root_at es j = root \<and> next_of_root es (Suc n) j = None" for root j
    using latest [of root j] next_of_root_none [of es n] by (cases "j < n") (auto simp: next_of_root_Suc less_Suc_eq split: option.splits if_splits)
  then show ?thesis using entries len r by (simp add: close_step_def Let_def close_inv_def split: option.split)
qed

lemma close_loop_inv: "n \<le> length es \<Longrightarrow> close_inv es n (foldl close_step (es, Map.empty) [0..<n])"
proof (induction n)
  case (Suc n)
  then have "close_inv es n (foldl close_step (es, Map.empty) [0..<n])" by simp
  then show ?case using close_step_inv [of es n "fst (foldl close_step (es, Map.empty) [0..<n])" "snd (foldl close_step (es, Map.empty) [0..<n])"] Suc.prems by simp
qed (simp add: close_inv_def closed_by_def next_of_root_def)

lemma close_entries_nth: "i < length es \<Longrightarrow> close_entries es ! i = closed_by es (length es) i"
  using close_loop_inv [of "length es" es] by (auto simp: close_entries_def close_inv_def split: prod.splits)

lemma length_close [simp]: "length (close_entries es) = length es"
  using close_loop_inv [of "length es" es] by (auto simp: close_entries_def close_inv_def split: prod.splits)

lemma close_entries_j [simp]: "i < length es \<Longrightarrow> en_j (close_entries es ! i) = en_j (es ! i)"
  by (simp add: close_entries_nth)

lemma next_of_root_closed:
  assumes "i < k" "k < n" "root_at es k = root_at es i"
  obtains m where "next_of_root es n i = Some m" "i < m" "m \<le> k" "root_at es m = root_at es i"
proof -
  have "next_of_root es n i \<noteq> None" using assms by (auto simp: next_of_root_def find_None_iff)
  then obtain m where m: "next_of_root es n i = Some m" by blast
  then have "Suc i \<le> m \<and> root_at es m = root_at es i \<and> (\<forall>j. Suc i \<le> j \<and> j < m \<longrightarrow> root_at es j \<noteq> root_at es i)"
    using find_upt_Some [of "\<lambda>k. root_at es k = root_at es i" "Suc i" n m] by (simp add: next_of_root_def)
  then show ?thesis using that [OF m] assms by (meson Suc_le_eq not_le_imp_less)
qed

text \<open>What a collected entry is: in time, by an account that may judge, of a subject its root does not own, with its author's root.\<close>

definition entry_ok :: "int \<Rightarrow> int \<Rightarrow> string list \<Rightarrow> (string \<Rightarrow> string) \<Rightarrow> (string \<Rightarrow> string list) \<Rightarrow> string \<Rightarrow> Judgement \<Rightarrow> bool" where
  "entry_ok asOf ws reset rt owners s j \<longleftrightarrow> jd_Subject j = s \<and> jd_Root j = rt (jd_Author j) \<and> ws \<le> jd_At j \<and> jd_At j < asOf \<and> jd_Author j \<notin> set reset
     \<and> (\<forall>w\<in>set (owners s). w \<noteq> jd_Author j \<and> rt w \<noteq> rt (jd_Author j))"

lemma set_close_entries: "e \<in> set (close_entries es) \<Longrightarrow> \<exists>e'\<in>set es. en_j e = en_j e' \<and> en_withdraw e = en_withdraw e'"
  by (auto simp: in_set_conv_nth [of e] close_entries_nth intro!: bexI [of _ "es ! _"])

lemma entry_of_ok:
  assumes "added asOf ws reset c" "e = entry_of rt c" "\<not> OwnSubject (jd_Author (en_j e)) (owners (jd_Subject (en_j e))) rt"
  shows "entry_ok asOf ws reset rt owners (jd_Subject (en_j e)) (en_j e)"
  using assms by (cases c) (auto simp: added_def entry_of_def entry_ok_def OwnSubject_def list_ex_iff)

lemma collected_entry_ok:
  assumes "e \<in> set (js_bySubject (collectJudgements E p snap asOf ws reset rt) s)"
  shows "entry_ok asOf ws reset rt (js_owners (collectJudgements E p snap asOf ws reset rt)) s (en_j e)"
proof -
  let ?cs = "filter (added asOf ws reset) (candidates E p snap)"
  let ?pairs = "owner_pairs E snap ?cs"
  let ?kept = "filter (\<lambda>e. \<not> OwnSubject (jd_Author (en_j e)) (owners_of ?pairs (jd_Subject (en_j e))) rt) (map (entry_of rt) ?cs)"
  have "e \<in> set (close_entries (sort_key entry_key (filter (\<lambda>e. jd_Subject (en_j e) = s) ?kept)))"
    using assms by (simp only: collectJudgements_def Let_def judgementSet.simps)
  from set_close_entries [OF this] obtain e' where e': "e' \<in> set (map (entry_of rt) ?cs)" "jd_Subject (en_j e') = s" "en_j e = en_j e'"
    "\<not> OwnSubject (jd_Author (en_j e')) (owners_of ?pairs (jd_Subject (en_j e'))) rt"
    by (simp only: set_sort set_filter mem_Collect_eq) blast
  then obtain c where c: "added asOf ws reset c" "e' = entry_of rt c" by auto
  from entry_of_ok [of asOf ws reset c e' rt "owners_of ?pairs", OF c e'(4)] show ?thesis using e'(2,3) by (simp add: collectJudgements_def Let_def)
qed

lemma collected_closed:
  assumes "es = js_bySubject (collectJudgements E p snap asOf ws reset rt) s" "i < k" "k < length es" "jd_Root (en_j (es ! i)) = jd_Root (en_j (es ! k))"
  shows "i < nat (en_closeIdx (es ! i)) \<and> nat (en_closeIdx (es ! i)) \<le> k \<and> jd_Root (en_j (es ! nat (en_closeIdx (es ! i)))) = jd_Root (en_j (es ! i))"
proof -
  obtain fs where fs: "es = close_entries fs" using assms(1) by (simp add: collectJudgements_def Let_def)
  have len: "i < length fs" "k < length fs" using assms(2,3) by (simp_all add: fs)
  with assms(4) fs have same: "root_at fs k = root_at fs i" by simp
  obtain m where m: "next_of_root fs (length fs) i = Some m" "i < m" "m \<le> k" "root_at fs m = root_at fs i"
    using next_of_root_closed [OF assms(2) len(2) same] .
  then have "en_closeIdx (es ! i) = int m" using len fs by (simp add: close_entries_nth closed_by_def)
  then show ?thesis using m len fs by simp
qed

lemma collected_sorted: "sorted (map entry_key (js_bySubject (collectJudgements E p snap asOf ws reset rt) s))"
proof -
  have key: "map entry_key (close_entries es) = map entry_key es" for es
    by (rule nth_equalityI) (auto simp: entry_key_def)
  show ?thesis by (simp add: collectJudgements_def Let_def key)
qed

text \<open>
  The judgements of a subject as a run reads them: each in order, in time and not of its author's own
  root, and of two by one root the older is closed, at the latest by the newer one.
\<close>

definition subject_ok :: "int \<Rightarrow> int \<Rightarrow> string list \<Rightarrow> (string \<Rightarrow> string) \<Rightarrow> judgementSet \<Rightarrow> string \<Rightarrow> bool" where
  "subject_ok asOf ws reset rt js s \<longleftrightarrow> (let es = js_bySubject js s in
     list_all (\<lambda>e. entry_ok asOf ws reset rt (js_owners js) s (en_j e)) es \<and> sorted (map entry_key es)
     \<and> (\<forall>i k. i < k \<and> k < length es \<and> jd_Root (en_j (es ! i)) = jd_Root (en_j (es ! k))
         \<longrightarrow> i < nat (en_closeIdx (es ! i)) \<and> nat (en_closeIdx (es ! i)) \<le> k \<and> jd_Root (en_j (es ! nat (en_closeIdx (es ! i)))) = jd_Root (en_j (es ! i))))"

lemma collected_subject_ok: "subject_ok asOf ws reset rt (collectJudgements E p snap asOf ws reset rt) s"
  unfolding subject_ok_def Let_def list_all_iff
proof (intro conjI ballI allI impI collected_sorted)
  fix e
  assume "e \<in> set (js_bySubject (collectJudgements E p snap asOf ws reset rt) s)"
  then show "entry_ok asOf ws reset rt (js_owners (collectJudgements E p snap asOf ws reset rt)) s (en_j e)" by (rule collected_entry_ok)
qed (use collected_closed [OF refl, of _ _ E p snap asOf ws reset rt s] in blast)+

section \<open>Marks are accounted for\<close>


text \<open>Every judgement that counts is marked or open, and a mark is at most a whole one.\<close>

definition marks_ok :: "string set \<Rightarrow> accuracyOutput \<Rightarrow> bool" where
  "marks_ok A ao \<longleftrightarrow> ao_judged ao = ao_open ao + sum (ao_marked ao) A \<and> (\<forall>a. \<bar>ao_gain ao a\<bar> \<le> 1000000 * ao_marked ao a) \<and> (\<forall>a. a \<notin> A \<longrightarrow> ao_marked ao a = 0)
     \<and> (\<forall>a. 0 \<le> ao_marked ao a) \<and> 0 \<le> ao_open ao"

lemma mark_entry_ok:
  assumes "marks_ok A ao" "finite A" "jd_Author (en_j (es ! i)) \<in> A"
  shows "marks_ok A (mark_entry ai pen es ao i)"
proof -
  have "\<bar>g\<bar> \<le> 1000000" if "mark_of ai pen es i = Some g" for g
    using that by (auto simp: mark_of_def Let_def Gain_range split: prod.splits if_splits)
  moreover have "sum ((ao_marked ao)(a := ao_marked ao a + 1)) A = sum (ao_marked ao) A + 1" if "a \<in> A" for a
    using that assms(2) by (simp add: sum.remove [of A a])
  moreover have "\<bar>ao_gain ao a + g\<bar> \<le> 1000000 * ao_marked ao a + 1000000" if "\<bar>g\<bar> \<le> 1000000" for a g
    using that assms(1) abs_triangle_ineq [of "ao_gain ao a" g] unfolding marks_ok_def by (meson add_mono order_trans)
  ultimately show ?thesis using assms by (auto simp: mark_entry_def marks_ok_def Let_def split: option.splits)
qed

lemma mark_entries_ok:
  "finite A \<Longrightarrow> (\<forall>i\<in>set is. jd_Author (en_j (es ! i)) \<in> A) \<Longrightarrow> marks_ok A ao \<Longrightarrow> marks_ok A (foldl (mark_entry ai pen es) ao is)"
  by (induction "is" arbitrary: ao) (simp_all add: mark_entry_ok)

definition authors_of :: "judgementSet \<Rightarrow> string set" where
  "authors_of js = (\<Union>s\<in>set (js_subjects js). (\<lambda>e. jd_Author (en_j e)) ` set (js_bySubject js s))"

lemma markAccuracy_ok: "marks_ok (authors_of (ai_set ai)) (markAccuracy ai)"
proof -
  let ?js = "ai_set ai" and ?A = "authors_of (ai_set ai)"
  let ?step = "\<lambda>ao s. let es = js_bySubject ?js s in foldl (mark_entry ai (subject_penalised ai s) es) ao [0..<length es]"
  have fin: "finite ?A" by (simp add: authors_of_def)
  have "marks_ok ?A ao \<Longrightarrow> set ss \<subseteq> set (js_subjects ?js) \<Longrightarrow> marks_ok ?A (foldl ?step ao ss)" for ao ss
  proof (induction ss arbitrary: ao)
    case (Cons s ss)
    then have "s \<in> set (js_subjects ?js)" by simp
    then have "\<forall>i\<in>set [0..<length (js_bySubject ?js s)]. jd_Author (en_j (js_bySubject ?js s ! i)) \<in> ?A"
      unfolding authors_of_def by (intro ballI UN_I [of s] imageI nth_mem) simp_all
    from mark_entries_ok [OF fin this Cons.prems(1)] Cons show ?case by (simp add: Let_def)
  qed simp
  moreover have "marks_ok ?A \<lparr>ao_gain = (\<lambda>_. 0), ao_marked = (\<lambda>_. 0), ao_judged = 0, ao_open = 0, ao_truncated = False, ao_work = 0\<rparr>"
    by (simp add: marks_ok_def)
  ultimately show ?thesis by (simp add: markAccuracy_def)
qed

lemma AccuracyPPM_range: "500000 \<le> AccuracyPPM g n m \<and> AccuracyPPM g n m \<le> 2000000"
  by (simp add: AccuracyPPM_def)

end
