(* ===== verification/Trust_Cost.thy ===== *)
theory Trust_Cost
  imports Trust_Collect
begin

text \<open>
  What an account has paid here, the first half of \<open>run.compute\<close> (\<open>internal/trust/compute.go\<close>): the accounts a
  snapshot names, who may not judge, the money graph, the active penalties, priced proofs, budgets,
  payments to others, activity and the day-by-day accumulators. \<open>run_ctx\<close> has what these steps share:
  the parameters, the snapshot, the carry and the log as read, and the roots. A Go map of numbers is a
  function with default 0; amounts are thousandths of a cent unless they are called cents.
\<close>

record run_ctx =
  cx_E :: run_env
  cx_p :: trust_Params
  cx_snap :: Snapshot
  cx_carry :: "carryIn option"
  cx_log :: "logEntry list"
  cx_rootOf :: "string \<Rightarrow> string"
  cx_baseRoot :: "string \<Rightarrow> string"

definition cx_asOf :: "run_ctx \<Rightarrow> int" where "cx_asOf x = mt_AsOf (sn_Meta (cx_snap x))"

definition cx_D :: "run_ctx \<Rightarrow> int" where "cx_D x = dayOf (cx_asOf x)"

definition cx_ws :: "run_ctx \<Rightarrow> int" where "cx_ws x = cx_asOf x - tp_WindowDays (cx_p x) * day_seconds"

definition cx_prevAsOf :: "run_ctx \<Rightarrow> int" where
  "cx_prevAsOf x = (case cx_carry x of Some c \<Rightarrow> max (ci_asOf c) (cx_asOf x - 3650 * day_seconds) | None \<Rightarrow> cx_ws x)"

definition cx_prevD :: "run_ctx \<Rightarrow> int" where "cx_prevD x = dayOf (cx_prevAsOf x)"

definition cx_proofs :: "run_ctx \<Rightarrow> InputRecord list" where "cx_proofs x = sortRecords (cx_E x) (sn_Proofs (cx_snap x))"

definition cx_payments :: "run_ctx \<Rightarrow> InputRecord list" where "cx_payments x = sortRecords (cx_E x) (sn_Payments (cx_snap x))"

text \<open>\<open>carry.accounts[a]\<close>, if the carry has the account.\<close>

definition carried :: "run_ctx \<Rightarrow> string \<Rightarrow> CarryAccount option" where
  "carried x a = (case cx_carry x of Some c \<Rightarrow> map_of (ci_accounts c) a | None \<Rightarrow> None)"

section \<open>Accounts\<close>

definition agent_of :: "string \<Rightarrow> string list" where
  "agent_of target = (case CutPrefix ''agent:'' target of Some a \<Rightarrow> [a] | None \<Rightarrow> [])"

definition seen_accounts :: "Snapshot \<Rightarrow> carryIn option \<Rightarrow> logEntry list \<Rightarrow> string list" where
  "seen_accounts snap carry entries = filter (\<lambda>a. a \<noteq> '''')
     (map rc_Account (sn_Accounts snap)
      @ concat (map (\<lambda>x. [rc_Account x, rc_ReplyToAccount x]) (sn_Posts snap))
      @ concat (map (\<lambda>x. [rc_Voter x, rc_Target x]) (sn_Endorsements snap))
      @ map rc_Account (sn_Proofs snap)
      @ concat (map (\<lambda>x. [rc_Account x, rc_To x]) (sn_Payments snap))
      @ concat (map (\<lambda>x. [rc_From x, rc_To x]) (sn_Acts snap))
      @ concat (map (\<lambda>x. [rc_From x, rc_To x]) (sn_Transfers snap))
      @ map rc_Account (sn_Claims snap)
      @ concat (map (\<lambda>x. rc_Account x # agent_of (rc_Target x)) (sn_Reviews snap))
      @ map rc_Account (sn_Owners snap)
      @ (case carry of Some c \<Rightarrow> map fst (ci_accounts c) | None \<Rightarrow> [])
      @ concat (map le_members entries))"

definition cx_accounts :: "run_ctx \<Rightarrow> string list" where
  "cx_accounts x = sort (remdups (seen_accounts (cx_snap x) (cx_carry x) (cx_log x)))"

definition firstSeen :: "Snapshot \<Rightarrow> string \<Rightarrow> int" where
  "firstSeen snap = foldl (\<lambda>f x. if rc_FirstSeen x > 0 \<and> (f (rc_Account x) = 0 \<or> rc_FirstSeen x < f (rc_Account x)) then f(rc_Account x := rc_FirstSeen x) else f)
     (\<lambda>_. 0) (sn_Accounts snap)"

definition BreakerUntil :: "trust_Params \<Rightarrow> InputRecord \<Rightarrow> int" where
  "BreakerUntil p r = (case map_of (tp_BreakerTrustDays p) (rc_Kind r) of
       Some d \<Rightarrow> min (rc_TrustUntil r) (rc_StartedAt r + d * day_seconds)
     | None \<Rightarrow> rc_TrustUntil r)"

text \<open>The accounts whose judgements make no edge: under a breaker, or first seen since new keys are paused.\<close>

definition reset_accounts :: "run_ctx \<Rightarrow> string list" where
  "reset_accounts x = (let snap = cx_snap x; since = mt_PauseNewKeysSince (sn_Meta snap) in
     map rc_Account (filter (\<lambda>b. rc_StartedAt b \<le> cx_asOf x \<and> BreakerUntil (cx_p x) b > cx_asOf x) (sn_Breakers snap))
     @ (if since > 0 then filter (\<lambda>a. firstSeen snap a > since) (map rc_Account (sn_Accounts snap)) else []))"

definition burned_roots :: "logEntry list \<Rightarrow> string list" where
  "burned_roots entries = concat (map le_burned (filter (\<lambda>e. \<not> le_lifted e) entries))"

section \<open>The money graph\<close>

definition fundedFrom :: "run_ctx \<Rightarrow> int" where
  "fundedFrom x = cx_asOf x - tp_HalfLifeDays (cx_p x) * day_seconds"

definition money_link :: "run_ctx \<Rightarrow> string \<Rightarrow> string \<Rightarrow> int \<Rightarrow> (string \<times> string) list" where
  "money_link x from to t = (if from = '''' \<or> to = '''' \<or> from = to \<or> t < fundedFrom x \<or> t \<ge> cx_asOf x then [] else [(from, to)])"

definition money_links :: "run_ctx \<Rightarrow> (string \<times> string) list" where
  "money_links x =
     concat (map (\<lambda>r. if rc_Amount r > 0 then money_link x (rc_From r) (rc_To r) (rc_CreatedAt r) else []) (sn_Transfers (cx_snap x)))
     @ concat (map (\<lambda>r. if rc_Amount r > 0 then money_link x (rc_Account r) (rc_To r) (rc_CreatedAt r) else []) (cx_payments x))"

definition funded :: "run_ctx \<Rightarrow> (string \<times> string) list" where
  "funded x = concat (map (\<lambda>(a, b). [(a, b), (b, a)]) (money_links x))"

definition moneyOut :: "(string \<times> string) list \<Rightarrow> string \<Rightarrow> string list" where
  "moneyOut links a = sort (map snd (filter (\<lambda>l. fst l = a) links))"

definition indep :: "run_ctx \<Rightarrow> string \<Rightarrow> string \<Rightarrow> bool" where
  "indep x a b = PublicIndependent a b (cx_rootOf x) (funded x)"

text \<open>The search \<open>reach\<close>: the marked accounts and the queue; the memo of its results is left out.\<close>

definition visit :: "string list \<times> string list \<Rightarrow> string \<Rightarrow> string list \<times> string list" where
  "visit = (\<lambda>(m, q) y. if y \<in> set m then (m, q) else (m @ [y], q @ [y]))"

lemma visit_foldl:
  "foldl visit (m, q) ys = (m', q') \<Longrightarrow> \<exists>news. m' = m @ news \<and> q' = q @ news \<and> distinct news \<and> set news = set ys - set m"
proof (induction ys arbitrary: m q)
  case (Cons y ys)
  show ?case
  proof (cases "y \<in> set m")
    case True
    with Cons show ?thesis by (auto simp: visit_def)
  next
    case False
    with Cons.prems have "foldl visit (m @ [y], q @ [y]) ys = (m', q')" by (simp add: visit_def)
    from Cons.IH [OF this] obtain news where "m' = m @ y # news" "q' = q @ y # news" "distinct news" "set news = set ys - set (m @ [y])" by auto
    with False show ?thesis by (intro exI [of _ "y # news"]) auto
  qed
qed simp

function reach_loop :: "(string \<times> string) list \<Rightarrow> string list \<Rightarrow> string list \<Rightarrow> string list" where
  "reach_loop links m [] = m"
| "reach_loop links m (a # queue) = (let (m', queue') = foldl visit (m, queue) (moneyOut links a) in reach_loop links m' queue')"
  by pat_completeness auto
termination
proof (relation "measure (\<lambda>(links, m, queue). length queue + card (snd ` set links - set m))", goal_cases)
  case (2 links m a queue s m' queue')
  then have "foldl visit (m, queue) (moneyOut links a) = (m', queue')" by simp
  from visit_foldl [OF this] obtain news where n: "m' = m @ news" "queue' = queue @ news" "distinct news" "set news = set (moneyOut links a) - set m" by blast
  let ?T = "snd ` set links"
  have "set news \<subseteq> ?T - set m" using n(4) by (auto simp: moneyOut_def)
  then have "card (?T - set m - set news) = card (?T - set m) - length news" "length news \<le> card (?T - set m)"
    using n(3) by (simp_all add: card_Diff_subset distinct_card [symmetric] card_mono)
  moreover have "?T - set m' = ?T - set m - set news" using n(1) by auto
  ultimately show ?case using n(2) by simp
qed simp

declare reach_loop.simps [simp del]

definition reach :: "run_ctx \<Rightarrow> string \<Rightarrow> string list" where
  "reach x from = reach_loop (money_links x) [from] [from]"

section \<open>Active penalties\<close>

record PenaltyState =
  ps_Entry :: string
  ps_Role :: string
  ps_FractionPPM :: int
  ps_Level :: int
  ps_EndsAt :: int

type_synonym penalty_map = "(string \<Rightarrow> logEntry option) \<times> (string \<Rightarrow> PenaltyState option)"

definition apply_member :: "(string \<Rightarrow> string) \<Rightarrow> logEntry \<Rightarrow> (string \<Rightarrow> logEntry option) \<Rightarrow> string \<Rightarrow> (string \<Rightarrow> logEntry option)" where
  "apply_member rt e member m =
     (case member (rt m) of
        None \<Rightarrow> member(rt m \<mapsto> e)
      | Some cur \<Rightarrow> if le_id e < le_id cur then member(rt m \<mapsto> e) else member)"

definition apply_liability :: "(string \<Rightarrow> string) \<Rightarrow> int \<Rightarrow> logEntry \<Rightarrow> (string \<Rightarrow> PenaltyState option) \<Rightarrow> InputRecord \<Rightarrow> (string \<Rightarrow> PenaltyState option)" where
  "apply_liability rt asOf e liable l =
     (if rc_CreatedAt l \<le> asOf \<and> asOf < rc_EndsAt l then
        (let root = rt (rc_Account l);
             new = \<lparr>ps_Entry = le_id e, ps_Role = ''backer'', ps_FractionPPM = min 1000000 (rc_FractionPPM l), ps_Level = rc_Value l, ps_EndsAt = rc_EndsAt l\<rparr>
         in case liable root of
              None \<Rightarrow> liable(root \<mapsto> new)
            | Some cur \<Rightarrow> if rc_FractionPPM l > ps_FractionPPM cur then liable(root \<mapsto> new) else liable)
      else liable)"

definition applyLog :: "(string \<Rightarrow> string) \<Rightarrow> int \<Rightarrow> penalty_map \<Rightarrow> logEntry \<Rightarrow> penalty_map" where
  "applyLog rt asOf = (\<lambda>(member, liable) e.
     (foldl (apply_member rt e) member (le_members e), foldl (apply_liability rt asOf e) liable (le_liabilities e)))"

definition active_penalties :: "run_ctx \<Rightarrow> penalty_map" where
  "active_penalties x = foldl (applyLog (cx_rootOf x) (cx_asOf x)) (\<lambda>_. None, \<lambda>_. None) (filter (\<lambda>e. activeAt e (cx_asOf x)) (cx_log x))"

definition penalised :: "run_ctx \<Rightarrow> penalty_map \<Rightarrow> string \<Rightarrow> bool" where
  "penalised x pm a \<longleftrightarrow> fst pm (cx_rootOf x a) \<noteq> None"

section \<open>Priced proofs\<close>

record WorldItem =
  wi_Kind :: string
  wi_Source :: string
  wi_Root :: string
  wi_State :: string
  wi_PriceCents :: int
  wi_Cents :: int
  wi_Note :: string

record proof_claim =
  pc_account :: string
  pc_item :: WorldItem
  pc_price :: int
  pc_value :: int

definition claim_root :: "run_ctx \<Rightarrow> InputRecord \<Rightarrow> string" where
  "claim_root x r = (if rc_Kind r = ''domain'' then domainRoot (cx_E x) (tp_DomainSuffixes (cx_p x)) (rc_LinkValue r)
     else if rc_Root r \<noteq> '''' then rc_Root r else rc_Kind r @ '':'' @ rc_LinkValue r)"

definition claim_of :: "run_ctx \<Rightarrow> InputRecord \<Rightarrow> proof_claim list" where
  "claim_of x r =
     (let p = cx_p x; price = price_of p (rc_Kind r); root = claim_root x r;
          it = \<lparr>wi_Kind = ''proof'', wi_Source = rc_Kind r, wi_Root = root, wi_State = rc_State r, wi_PriceCents = 0, wi_Cents = 0, wi_Note = ''''\<rparr>
      in if rc_Kind r \<noteq> ''domain'' \<and> pr_Assess price = '''' then []
         else if \<not> proof_counts p (cx_asOf x) r then
           [\<lparr>pc_account = rc_Account r, pc_item = it\<lparr>wi_Note := ''not counted: not verified within proof_fresh_days''\<rparr>, pc_price = 0, pc_value = 0\<rparr>]
         else if root \<in> set (burned_roots (cx_log x)) then
           [\<lparr>pc_account = rc_Account r, pc_item = it\<lparr>wi_State := ''burned'', wi_Note := ''burned by a penalty: prices 0 on any key''\<rparr>, pc_price = 0, pc_value = 0\<rparr>]
         else if rc_Kind r = ''domain'' then
           (let cents = DomainContribution price (cx_D x - dayOf (rc_RegisteredAt r)) (rc_RegisteredAt r) (rc_Rank r) in
            if rc_RegisteredAt r \<le> 0 \<and> rc_Rank r \<le> 0 then
              [\<lparr>pc_account = rc_Account r, pc_item = it\<lparr>wi_Note := ''registration age and rank not yet fetched: priced at the domain row's fallback'', wi_PriceCents := cents\<rparr>,
                pc_price = cents, pc_value = 0\<rparr>]
            else [\<lparr>pc_account = rc_Account r, pc_item = it\<lparr>wi_PriceCents := cents\<rparr>, pc_price = cents, pc_value = cents\<rparr>])
         else let cents = AssessedContribution price (rc_Assessed r) in
           [\<lparr>pc_account = rc_Account r, pc_item = it\<lparr>wi_PriceCents := cents\<rparr>, pc_price = cents, pc_value = AssessedValue price (rc_Assessed r)\<rparr>])"

definition raw_claims :: "run_ctx \<Rightarrow> proof_claim list" where
  "raw_claims x = concat (map (claim_of x) (cx_proofs x))"

text \<open>Of each kind and root, the claim that keeps the fallback floor.\<close>

definition floor_key :: "run_ctx \<Rightarrow> proof_claim \<Rightarrow> string \<times> string" where
  "floor_key x c = (wi_Source (pc_item c), cx_rootOf x (pc_account c))"

definition has_floor :: "run_ctx \<Rightarrow> proof_claim \<Rightarrow> bool" where
  "has_floor x c =
     (let p = cx_p x; row = price_of p (wi_Source (pc_item c));
          capped = (tp_Version p \<ge> FloorOnceVersion \<and> pr_Assess row = AssessCapped \<and> pr_FallbackCents row > 0);
          domain = (tp_Version p \<ge> DomainFloorOnceVersion \<and> wi_Source (pc_item c) = ''domain'' \<and> pc_value c < pc_price c)
      in \<not> (pc_price c \<le> 0 \<or> \<not> capped \<and> \<not> domain))"

definition floor_step :: "run_ctx \<Rightarrow> proof_claim list \<Rightarrow> (string \<times> string \<Rightarrow> nat option) \<Rightarrow> nat \<Rightarrow> (string \<times> string \<Rightarrow> nat option)" where
  "floor_step x cs floorOf i =
     (let c = cs ! i; k = floor_key x c in
      if \<not> has_floor x c then floorOf
      else case floorOf k of
        None \<Rightarrow> floorOf(k \<mapsto> i)
      | Some j \<Rightarrow> if pc_price c > pc_price (cs ! j) \<or> pc_price c = pc_price (cs ! j)
            \<and> (pc_value c > pc_value (cs ! j) \<or> pc_value c = pc_value (cs ! j) \<and> pc_account c < pc_account (cs ! j))
          then floorOf(k \<mapsto> i) else floorOf)"

definition floors :: "run_ctx \<Rightarrow> proof_claim list \<Rightarrow> (string \<times> string \<Rightarrow> nat option)" where
  "floors x cs = foldl (floor_step x cs) (\<lambda>_. None) [0..<length cs]"

definition floored :: "run_ctx \<Rightarrow> proof_claim list \<Rightarrow> nat \<Rightarrow> proof_claim" where
  "floored x cs i =
     (let c = cs ! i in
      case floors x cs (floor_key x c) of
        None \<Rightarrow> c
      | Some j \<Rightarrow> if j = i \<or> pc_value c \<ge> pc_price c then c
          else c\<lparr>pc_price := pc_value c, pc_item := (pc_item c)\<lparr>wi_PriceCents := pc_value c, wi_Note := ''fallback counted once per root: on '' @ pc_account (cs ! j)\<rparr>\<rparr>)"

definition claims :: "run_ctx \<Rightarrow> proof_claim list" where
  "claims x = (let cs = raw_claims x in map (floored x cs) [0..<length cs])"

text \<open>Of each proof root and node root, the best claim; of each proof root, the node roots that claim it.\<close>

definition best_key :: "run_ctx \<Rightarrow> proof_claim \<Rightarrow> string \<times> string" where
  "best_key x c = (wi_Root (pc_item c), cx_rootOf x (pc_account c))"

definition best_step :: "run_ctx \<Rightarrow> proof_claim list \<Rightarrow> (string \<times> string \<Rightarrow> nat option) \<Rightarrow> nat \<Rightarrow> (string \<times> string \<Rightarrow> nat option)" where
  "best_step x cs best i =
     (let c = cs ! i; k = best_key x c in
      if pc_price c \<le> 0 then best
      else case best k of
        None \<Rightarrow> best(k \<mapsto> i)
      | Some j \<Rightarrow> if pc_price c > pc_price (cs ! j) \<or> pc_price c = pc_price (cs ! j) \<and> pc_account c < pc_account (cs ! j) then best(k \<mapsto> i) else best)"

definition bestOf :: "run_ctx \<Rightarrow> proof_claim list \<Rightarrow> (string \<times> string \<Rightarrow> nat option)" where
  "bestOf x cs = foldl (best_step x cs) (\<lambda>_. None) [0..<length cs]"

definition claimants :: "run_ctx \<Rightarrow> proof_claim list \<Rightarrow> string \<Rightarrow> string list" where
  "claimants x cs rootID = remdups (map (\<lambda>c. cx_rootOf x (pc_account c)) (filter (\<lambda>c. pc_price c > 0 \<and> wi_Root (pc_item c) = rootID) cs))"

text \<open>What a claim counts for: its share if it is its root's best, nothing otherwise.\<close>

definition counted_share :: "run_ctx \<Rightarrow> proof_claim list \<Rightarrow> nat \<Rightarrow> int" where
  "counted_share x cs i =
     (let c = cs ! i in
      if pc_price c > 0 \<and> bestOf x cs (best_key x c) = Some i then pc_price c * mc sdiv int (length (claimants x cs (wi_Root (pc_item c)))) else 0)"

definition claim_item :: "run_ctx \<Rightarrow> proof_claim list \<Rightarrow> nat \<Rightarrow> WorldItem" where
  "claim_item x cs i =
     (let c = cs ! i; it = pc_item c; n = int (length (claimants x cs (wi_Root it))) in
      if \<not> pc_price c > 0 then it
      else case bestOf x cs (best_key x c) of
        Some j \<Rightarrow> if j = i then (let it' = it\<lparr>wi_Cents := counted_share x cs i sdiv mc\<rparr> in
            if n > 1 then it'\<lparr>wi_Note := ''shared with '' @ FormatInt (n - 1) @ '' other root(s): split''\<rparr> else it')
          else it\<lparr>wi_Note := ''saturated by '' @ wi_Source (pc_item (cs ! j)) @ '' on '' @ pc_account (cs ! j)\<rparr>
      | None \<Rightarrow> it)"

definition claims_on :: "proof_claim list \<Rightarrow> string \<Rightarrow> nat list" where
  "claims_on cs a = filter (\<lambda>i. pc_account (cs ! i) = a) [0..<length cs]"

definition proofMC :: "run_ctx \<Rightarrow> string \<Rightarrow> int" where
  "proofMC x a = (let cs = claims x in sum_list (map (counted_share x cs) (claims_on cs a)))"

definition world_items :: "run_ctx \<Rightarrow> string \<Rightarrow> WorldItem list" where
  "world_items x a = (let cs = claims x in map (claim_item x cs) (claims_on cs a))"

definition proofRootsOf :: "run_ctx \<Rightarrow> string \<Rightarrow> string list" where
  "proofRootsOf x a = (let cs = claims x in map (\<lambda>i. wi_Root (pc_item (cs ! i))) (filter (\<lambda>i. pc_price (cs ! i) > 0) (claims_on cs a)))"

section \<open>Prior costs and budgets\<close>

definition paid_here :: "run_ctx \<Rightarrow> InputRecord \<Rightarrow> bool" where
  "paid_here x r \<longleftrightarrow> rc_To r = '''' \<and> rc_Amount r > 0 \<and> rc_CreatedAt r < cx_asOf x \<and> (cx_carry x = None \<or> rc_CreatedAt r \<ge> cx_prevAsOf x)"

definition amountMC :: "InputRecord \<Rightarrow> int" where "amountMC r = min (rc_Amount r) (2 ^ 40) * mc"

definition moneyAll :: "run_ctx \<Rightarrow> string \<Rightarrow> int" where
  "moneyAll x a = sum_list (map amountMC (filter (\<lambda>r. paid_here x r \<and> rc_Account r = a) (cx_payments x)))"

definition ownDirect :: "run_ctx \<Rightarrow> string \<Rightarrow> int" where
  "ownDirect x a = (case carried x a of
       Some c \<Rightarrow> MulDiv (proofMC x a) (ca_FadePPM c) 1000000 + moneyAll x a
     | None \<Rightarrow> proofMC x a + moneyAll x a)"

definition priorDirect :: "run_ctx \<Rightarrow> string \<Rightarrow> int" where
  "priorDirect x a = (case cx_carry x of
       Some _ \<Rightarrow> max ((case carried x a of Some c \<Rightarrow> ca_Direct c | None \<Rightarrow> 0) * mc) (ownDirect x a)
     | None \<Rightarrow> ownDirect x a)"

definition backed_before :: "run_ctx \<Rightarrow> string \<Rightarrow> int" where
  "backed_before x a = (case carried x a of
       Some c \<Rightarrow> if ca_Backed c > 0 then MulDiv (ca_Backed c) (decay_ppm (tp_DayFactorPPM (cx_p x)) (max 0 (cx_D x - cx_prevD x))) 1000000 else 0
     | None \<Rightarrow> 0)"

definition settledFloor :: "run_ctx \<Rightarrow> int" where
  "settledFloor x = pr_FallbackCents (price_of (cx_p x) ''wallet'') * mc"

definition budget :: "run_ctx \<Rightarrow> (string \<Rightarrow> int) \<Rightarrow> string \<Rightarrow> int" where
  "budget x used b = max 0 (priorDirect x b - backed_before x b - used b)"

definition settledBudget :: "run_ctx \<Rightarrow> (string \<Rightarrow> int) \<Rightarrow> string \<Rightarrow> int" where
  "settledBudget x used b = max 0 (max (priorDirect x b) (settledFloor x) - backed_before x b - used b)"

section \<open>Payments to other accounts\<close>

definition SettledPaymentKind :: "string \<Rightarrow> bool" where
  "SettledPaymentKind kind \<longleftrightarrow> kind = ''work_usdc'' \<or> kind = ''offering''"

record paid_state =
  py_used :: "string \<Rightarrow> int"
  py_paid :: "string \<Rightarrow> int"
  py_paidN :: "string \<Rightarrow> int"
  py_paidOut :: "string \<Rightarrow> int"
  py_paidOutN :: "string \<Rightarrow> int"

definition payment_counts :: "run_ctx \<Rightarrow> penalty_map \<Rightarrow> InputRecord \<Rightarrow> bool" where
  "payment_counts x pm r = (let a = rc_Account r; b = rc_To r in
     \<not> (rc_To r = '''' \<or> rc_Amount r \<le> 0 \<or> rc_CreatedAt r < fundedFrom x \<or> rc_CreatedAt r \<ge> cx_asOf x)
     \<and> \<not> (a = b \<or> cx_rootOf x a = cx_rootOf x b \<or> penalised x pm a \<or> penalised x pm b \<or> a \<in> set (reach x b)))"

definition pay_step :: "run_ctx \<Rightarrow> penalty_map \<Rightarrow> paid_state \<Rightarrow> InputRecord \<Rightarrow> paid_state" where
  "pay_step x pm s r =
     (let a = rc_Account r; b = rc_To r; settled = SettledPaymentKind (rc_Kind r) in
      if \<not> payment_counts x pm r then s
      else let room = (if settled then settledBudget x (py_used s) b else budget x (py_used s) b);
               credit = min (amountMC r) room
           in if credit \<le> 0 then s
              else let s1 = s\<lparr>py_used := (py_used s)(b := py_used s b + credit)\<rparr> in
                if settled then s1\<lparr>py_paidOut := (py_paidOut s)(a := py_paidOut s a + credit), py_paidOutN := (py_paidOutN s)(a := py_paidOutN s a + 1)\<rparr>
                else s1\<lparr>py_paid := (py_paid s)(a := py_paid s a + credit), py_paidN := (py_paidN s)(a := py_paidN s a + 1)\<rparr>)"

definition no_payments :: paid_state where
  "no_payments = \<lparr>py_used = (\<lambda>_. 0), py_paid = (\<lambda>_. 0), py_paidN = (\<lambda>_. 0), py_paidOut = (\<lambda>_. 0), py_paidOutN = (\<lambda>_. 0)\<rparr>"

definition pay_all :: "run_ctx \<Rightarrow> penalty_map \<Rightarrow> paid_state" where
  "pay_all x pm = foldl (pay_step x pm) no_payments (cx_payments x)"

definition priorStanding :: "run_ctx \<Rightarrow> paid_state \<Rightarrow> string \<Rightarrow> int" where
  "priorStanding x s a = (let own = min (ownDirect x a + py_paidOut s a) (tp_NodeCapCents (cx_p x) * mc) sdiv mc in
     case cx_carry x of Some _ \<Rightarrow> max (case carried x a of Some c \<Rightarrow> ca_Standing c | None \<Rightarrow> 0) own | None \<Rightarrow> own)"

section \<open>Activity\<close>

record response =
  rs_to :: string
  rs_day :: int
  rs_by :: string

definition respond :: "run_ctx \<Rightarrow> penalty_map \<Rightarrow> paid_state \<Rightarrow> string \<Rightarrow> string \<Rightarrow> int \<Rightarrow> response list" where
  "respond x pm s by to t =
     (if by = '''' \<or> to = '''' \<or> t < cx_prevAsOf x \<or> t \<ge> cx_asOf x \<or> by \<in> set (reset_accounts x) \<or> penalised x pm by \<or> \<not> indep x by to
        \<or> priorStanding x s by < tp_VFloorCents (cx_p x) then []
      else [\<lparr>rs_to = to, rs_day = dayOf t, rs_by = by\<rparr>])"

definition review_owners :: "run_ctx \<Rightarrow> string \<Rightarrow> string list" where
  "review_owners x target = map rc_Account (filter (\<lambda>r. rc_Target r = target) (sortRecords (cx_E x) (sn_Owners (cx_snap x)))) @ agent_of target"

definition responses :: "run_ctx \<Rightarrow> penalty_map \<Rightarrow> paid_state \<Rightarrow> response list" where
  "responses x pm s = (let snap = cx_snap x in
     concat (map (\<lambda>r. if rc_ReplyToAccount r \<noteq> '''' then respond x pm s (rc_Account r) (rc_ReplyToAccount r) (rc_CreatedAt r) else []) (sn_Posts snap))
     @ concat (map (\<lambda>r. if rc_Kind r = ''vote'' \<and> rc_Value r \<noteq> 0 \<or> rc_Kind r = ''vouch'' \<and> rc_Value r = 1
         then respond x pm s (rc_Voter r) (rc_Target r) (rc_CreatedAt r) else []) (sn_Endorsements snap))
     @ concat (map (\<lambda>r. respond x pm s (rc_From r) (rc_To r) (rc_CreatedAt r)) (sn_Acts snap))
     @ concat (map (\<lambda>r. concat (map (\<lambda>w. respond x pm s (rc_Account r) w (rc_CreatedAt r)) (review_owners x (rc_Target r)))) (sn_Reviews snap)))"

definition activeOn :: "response list \<Rightarrow> int \<Rightarrow> string list" where
  "activeOn rs d = sort (remdups (map rs_to (filter (\<lambda>r. rs_day r = d) rs)))"

definition respondersOf :: "response list \<Rightarrow> string \<Rightarrow> int \<Rightarrow> string list" where
  "respondersOf rs a d = sort (remdups (map rs_by (filter (\<lambda>r. rs_to r = a \<and> rs_day r = d) rs)))"

section \<open>Day by day\<close>

record world =
  wd_money :: int
  wd_time :: int
  wd_fade :: int
  wd_last :: int
  wd_active :: int

definition moneyIn :: "run_ctx \<Rightarrow> string \<Rightarrow> int \<Rightarrow> int" where
  "moneyIn x a d = sum_list (map amountMC (filter (\<lambda>r. paid_here x r \<and> rc_Account r = a \<and> max (cx_prevD x) (dayOf (rc_CreatedAt r)) = d) (cx_payments x)))"

definition cost_step :: "run_ctx \<Rightarrow> (string \<Rightarrow> int) \<Rightarrow> InputRecord \<Rightarrow> (string \<Rightarrow> int)" where
  "cost_step x f r = (let a = rc_Account r; d = dayOf (rc_CreatedAt r) in if rc_CreatedAt r < cx_asOf x \<and> (f a = 0 \<or> d < f a) then f(a := d) else f)"

definition firstCost :: "run_ctx \<Rightarrow> string \<Rightarrow> int" where
  "firstCost x = foldl (cost_step x) (foldl (cost_step x) (\<lambda>_. 0) (filter (\<lambda>r. rc_To r = '''' \<and> rc_Amount r > 0) (cx_payments x)))
     (filter (\<lambda>r. pr_Assess (price_of (cx_p x) (rc_Kind r)) \<noteq> '''' \<and> proof_counts (cx_p x) (cx_asOf x) r) (cx_proofs x))"

definition start_world :: "run_ctx \<Rightarrow> string \<Rightarrow> world" where
  "start_world x a = (case carried x a of
       Some c \<Rightarrow> \<lparr>wd_money = ca_Money c, wd_time = ca_Time c, wd_fade = ca_FadePPM c, wd_last = ca_LastActive c, wd_active = 0\<rparr>
     | None \<Rightarrow> let last = max (cx_prevD x) (firstCost x a); fs = firstSeen (cx_snap x) a in
         \<lparr>wd_money = 0, wd_time = 0, wd_fade = 1000000, wd_last = (if fs > 0 then max last (dayOf fs) else last), wd_active = 0\<rparr>)"

definition fade_day :: "run_ctx \<Rightarrow> int \<Rightarrow> string \<Rightarrow> world \<Rightarrow> world" where
  "fade_day x d a w =
     (let f = tp_DormantDayFactorPPM (cx_p x);
          w1 = (if d - wd_last w > tp_GraceDays (cx_p x)
                then w\<lparr>wd_money := MulDiv (wd_money w) f 1000000, wd_time := MulDiv (wd_time w) f 1000000, wd_fade := MulDiv (wd_fade w) f 1000000\<rparr> else w)
      in w1\<lparr>wd_money := wd_money w1 + moneyIn x a d\<rparr>)"

record day_state =
  dy_world :: "string \<Rightarrow> world"
  dy_newBacked :: "string \<Rightarrow> int"

definition active_step :: "run_ctx \<Rightarrow> paid_state \<Rightarrow> response list \<Rightarrow> int \<Rightarrow> day_state \<Rightarrow> string \<Rightarrow> day_state" where
  "active_step x s rs d st a =
     (let dayPrice = tp_DayPriceCents (cx_p x) * mc; timeCap = tp_TimeCapCents (cx_p x) * mc;
          w = (dy_world st a)\<lparr>wd_last := d, wd_active := wd_active (dy_world st a) + 1\<rparr>;
          st1 = st\<lparr>dy_world := (dy_world st)(a := w)\<rparr>
      in if wd_time w + dayPrice > timeCap \<or> dayPrice \<le> 0 then st1
         else case find (\<lambda>by. budget x (py_used s) by + py_paidOut s by - dy_newBacked st by \<ge> dayPrice) (respondersOf rs a d) of
           None \<Rightarrow> st1
         | Some by \<Rightarrow> st1\<lparr>dy_world := (dy_world st1)(a := w\<lparr>wd_time := wd_time w + dayPrice\<rparr>), dy_newBacked := (dy_newBacked st)(by := dy_newBacked st by + dayPrice)\<rparr>)"

definition day_step :: "run_ctx \<Rightarrow> paid_state \<Rightarrow> response list \<Rightarrow> day_state \<Rightarrow> int \<Rightarrow> day_state" where
  "day_step x s rs st d =
     foldl (active_step x s rs d)
       (st\<lparr>dy_world := (\<lambda>a. if a \<in> set (cx_accounts x) then fade_day x d a (dy_world st a) else dy_world st a)\<rparr>) (activeOn rs d)"

definition run_days :: "run_ctx \<Rightarrow> int list" where
  "run_days x = map (\<lambda>k. cx_prevD x + int k) [0..<nat (cx_D x - cx_prevD x)]"

definition all_days :: "run_ctx \<Rightarrow> penalty_map \<Rightarrow> paid_state \<Rightarrow> day_state" where
  "all_days x pm s = foldl (day_step x s (responses x pm s)) \<lparr>dy_world = start_world x, dy_newBacked = (\<lambda>_. 0)\<rparr> (run_days x)"

text \<open>The world edges: a penalised account's money and time are destroyed and its edge is nothing.\<close>

definition destroy :: "run_ctx \<Rightarrow> penalty_map \<Rightarrow> (string \<Rightarrow> world) \<Rightarrow> string \<Rightarrow> world" where
  "destroy x pm ws a = (if penalised x pm a then (ws a)\<lparr>wd_money := 0, wd_time := 0\<rparr> else ws a)"

definition directMC :: "run_ctx \<Rightarrow> penalty_map \<Rightarrow> (string \<Rightarrow> world) \<Rightarrow> string \<Rightarrow> int" where
  "directMC x pm ws a = (if penalised x pm a then 0 else MulDiv (proofMC x a) (wd_fade (ws a)) 1000000 + wd_money (ws a))"

definition worldMC :: "run_ctx \<Rightarrow> penalty_map \<Rightarrow> paid_state \<Rightarrow> (string \<Rightarrow> world) \<Rightarrow> string \<Rightarrow> int" where
  "worldMC x pm s ws a = (if penalised x pm a then 0
     else MulDiv (proofMC x a) (wd_fade (ws a)) 1000000 + wd_money (ws a) + wd_time (ws a) + py_paid s a + py_paidOut s a)"

end
