(* ===== verification/Trust_Cost_Spec.thy ===== *)
theory Trust_Cost_Spec
  imports Trust_Cost
begin

text \<open>
  What the own costs are worth: the search of the money graph finds the accounts money reaches; all that is
  credited for one proof root is at most its best price; what an account backs of others' payments and
  time is at most what it has itself paid; and no world edge is negative.
\<close>

section \<open>Reachable accounts\<close>

lemma reach_loop_closed:
  assumes "set queue \<subseteq> set m" "\<forall>a\<in>set m - set queue. \<forall>b. (a, b) \<in> set links \<longrightarrow> b \<in> set m"
    "\<forall>a\<in>set m. (from, a) \<in> (set links)\<^sup>*"
  shows "set m \<subseteq> set (reach_loop links m queue) \<and> (\<forall>a\<in>set (reach_loop links m queue). (from, a) \<in> (set links)\<^sup>*
    \<and> (\<forall>b. (a, b) \<in> set links \<longrightarrow> b \<in> set (reach_loop links m queue)))"
  using assms
proof (induction links m queue rule: reach_loop.induct)
  case (2 links m a queue)
  obtain m' q' where v: "foldl visit (m, queue) (moneyOut links a) = (m', q')" by (cases "foldl visit (m, queue) (moneyOut links a)")
  from visit_foldl [OF v] obtain news where n: "m' = m @ news" "q' = queue @ news" "set news = set (moneyOut links a) - set m" by blast
  have out: "b \<in> set (moneyOut links a) \<longleftrightarrow> (a, b) \<in> set links" for b by (force simp: moneyOut_def)
  have "(from, b) \<in> (set links)\<^sup>*" if "b \<in> set news" for b
  proof -
    have "(from, a) \<in> (set links)\<^sup>*" using 2(2,4) by simp
    moreover have "(a, b) \<in> set links" using that n(3) out by simp
    ultimately show ?thesis by (rule rtrancl.rtrancl_into_rtrancl)
  qed
  then have "\<forall>b\<in>set m'. (from, b) \<in> (set links)\<^sup>*" using 2(4) n(1) by auto
  moreover have "\<forall>c\<in>set m' - set q'. \<forall>b. (c, b) \<in> set links \<longrightarrow> b \<in> set m'"
  proof (intro ballI allI impI)
    fix c b
    assume c: "c \<in> set m' - set q'" "(c, b) \<in> set links"
    then have "c \<in> set m" "c \<notin> set queue" using n(1,2) by auto
    then show "b \<in> set m'"
    proof (cases "c = a")
      case True
      then have "b \<in> set (moneyOut links a)" using c(2) out by blast
      then show ?thesis unfolding n(1) set_append n(3) by blast
    next
      case False
      with \<open>c \<in> set m\<close> \<open>c \<notin> set queue\<close> have "c \<in> set m - set (a # queue)" by simp
      with 2(3) c(2) have "b \<in> set m" by blast
      then show ?thesis unfolding n(1) by simp
    qed
  qed
  moreover have "set q' \<subseteq> set m'" using 2(2) n by auto
  ultimately have "set m' \<subseteq> set (reach_loop links m' q') \<and> (\<forall>c\<in>set (reach_loop links m' q'). (from, c) \<in> (set links)\<^sup>*
    \<and> (\<forall>b. (c, b) \<in> set links \<longrightarrow> b \<in> set (reach_loop links m' q')))" using 2(1) [OF v [symmetric] refl] by blast
  then show ?case using v n(1) by (simp add: reach_loop.simps)
qed (simp add: reach_loop.simps)

lemma reach_set: "set (reach x a) = {b. (a, b) \<in> (set (money_links x))\<^sup>*}"
proof -
  let ?R = "set (reach_loop (money_links x) [a] [a])"
  have "set [a] \<subseteq> ?R \<and> (\<forall>c\<in>?R. (a, c) \<in> (set (money_links x))\<^sup>* \<and> (\<forall>b. (c, b) \<in> set (money_links x) \<longrightarrow> b \<in> ?R))"
    by (rule reach_loop_closed) simp_all
  then have c: "a \<in> ?R" "\<forall>c\<in>?R. (a, c) \<in> (set (money_links x))\<^sup>* \<and> (\<forall>b. (c, b) \<in> set (money_links x) \<longrightarrow> b \<in> ?R)" by simp_all
  have "b \<in> ?R" if "(a, b) \<in> (set (money_links x))\<^sup>*" for b using that
  proof (induction rule: rtrancl_induct)
    case (step y z)
    then show ?case using c(2) by blast
  qed (rule c(1))
  then show ?thesis unfolding reach_def using c(2) by blast
qed

section \<open>A proof root counts once\<close>

lemma counted_share_nonneg: "0 \<le> counted_share x cs i"
  by (simp add: counted_share_def Let_def mc_def sdiv_nonneg pos_imp_zdiv_nonneg_iff div_int_pos_iff)

lemma proofMC_nonneg: "0 \<le> proofMC x a"
  unfolding proofMC_def Let_def by (rule sum_list_nonneg) (auto simp: counted_share_nonneg)

definition counting :: "run_ctx \<Rightarrow> proof_claim list \<Rightarrow> string \<Rightarrow> nat set" where
  "counting x cs R = {i. i < length cs \<and> wi_Root (pc_item (cs ! i)) = R \<and> pc_price (cs ! i) > 0 \<and> bestOf x cs (best_key x (cs ! i)) = Some i}"

lemma counting_card: "card (counting x cs R) \<le> length (claimants x cs R)"
proof -
  let ?f = "\<lambda>i. cx_rootOf x (pc_account (cs ! i))"
  have "inj_on ?f (counting x cs R)"
  proof (rule inj_onI)
    fix i j
    assume "i \<in> counting x cs R" "j \<in> counting x cs R" "?f i = ?f j"
    then have "wi_Root (pc_item (cs ! i)) = R" "wi_Root (pc_item (cs ! j)) = R" "bestOf x cs (best_key x (cs ! i)) = Some i" "bestOf x cs (best_key x (cs ! j)) = Some j"
      "cx_rootOf x (pc_account (cs ! i)) = cx_rootOf x (pc_account (cs ! j))" unfolding counting_def by blast+
    note c = this
    have "best_key x (cs ! i) = best_key x (cs ! j)" unfolding best_key_def c(1,2,5) ..
    then have "bestOf x cs (best_key x (cs ! j)) = Some i" using c(3) by (rule subst)
    with c(4) show "i = j" by simp
  qed
  moreover have "?f i \<in> set (claimants x cs R)" if "i \<in> counting x cs R" for i
  proof -
    have "cs ! i \<in> set (filter (\<lambda>c. pc_price c > 0 \<and> wi_Root (pc_item c) = R) cs)" using that by (simp add: counting_def)
    then show ?thesis unfolding claimants_def set_remdups set_map by (rule imageI)
  qed
  then have "?f ` counting x cs R \<subseteq> set (claimants x cs R)" by blast
  ultimately have "card (counting x cs R) \<le> card (set (claimants x cs R))" by (metis card_image card_mono List.finite_set)
  also have "\<dots> = length (claimants x cs R)" by (rule distinct_card) (simp add: claimants_def)
  finally show ?thesis .
qed

lemma div_int_mono: "a \<le> b \<Longrightarrow> a div int n \<le> b div int n"
  by (cases n) (auto intro: zdiv_mono1)

lemma share_le:
  assumes "pc_price (cs ! i) \<le> P" "i \<in> counting x cs R"
  shows "counted_share x cs i \<le> P * mc div int (length (claimants x cs R))"
  using assms by (auto simp: counting_def counted_share_def Let_def mc_def sdiv_nonneg intro!: div_int_mono)

lemma shares_sum:
  assumes "\<forall>c\<in>set cs. wi_Root (pc_item c) = R \<longrightarrow> pc_price c \<le> P" "0 \<le> P"
  shows "sum_list (map (counted_share x cs) (filter (\<lambda>i. wi_Root (pc_item (cs ! i)) = R) [0..<length cs])) \<le> P * mc"
proof -
  let ?n = "length (claimants x cs R)" and ?C = "counting x cs R" and ?I = "{i. i < length cs \<and> wi_Root (pc_item (cs ! i)) = R}"
  have fin: "finite ?I" by simp
  have "sum_list (map (counted_share x cs) (filter (\<lambda>i. wi_Root (pc_item (cs ! i)) = R) [0..<length cs])) = sum (counted_share x cs) ?I"
    by (subst sum_list_distinct_conv_sum_set) (auto intro: sum.cong)
  also have "\<dots> = sum (counted_share x cs) ?C"
    using fin by (intro sum.mono_neutral_right) (auto simp: counting_def counted_share_def Let_def)
  also have "\<dots> \<le> of_nat (card ?C) * (P * mc div int ?n)"
    by (rule sum_bounded_above, rule share_le) (use assms in \<open>auto simp: counting_def\<close>)
  also have "\<dots> \<le> int ?n * (P * mc div int ?n)"
    using counting_card [of x cs R] assms(2) by (intro mult_right_mono) (auto simp: mc_def pos_imp_zdiv_nonneg_iff div_int_pos_iff)
  also have "\<dots> \<le> P * mc"
  proof (cases "?n = 0")
    case False
    then show ?thesis using div_mult_le_int [of "int ?n" "P * mc"] by (simp add: mult.commute)
  qed (use assms(2) in \<open>simp add: mc_def\<close>)
  finally show ?thesis .
qed

text \<open>The best price anyone's claim of a proof root has.\<close>

definition best_price :: "run_ctx \<Rightarrow> string \<Rightarrow> int" where
  "best_price x R = foldl max 0 (map pc_price (filter (\<lambda>c. wi_Root (pc_item c) = R) (claims x)))"

lemma foldl_max: "m \<le> foldl max m xs \<and> (\<forall>y\<in>set xs. y \<le> foldl max m xs)" for m :: int
proof (induction xs arbitrary: m)
  case (Cons a xs)
  then have "max m a \<le> foldl max (max m a) xs" "\<forall>y\<in>set xs. y \<le> foldl max (max m a) xs" by blast+
  then show ?case by simp
qed simp

definition credited :: "run_ctx \<Rightarrow> string \<Rightarrow> int" where
  "credited x R = sum_list (map (counted_share x (claims x)) (filter (\<lambda>i. wi_Root (pc_item (claims x ! i)) = R) [0..<length (claims x)]))"

lemma credited_le: "credited x R \<le> best_price x R * mc"
  unfolding credited_def by (rule shares_sum) (use foldl_max [of 0 "map pc_price (filter (\<lambda>c. wi_Root (pc_item c) = R) (claims x))"] in \<open>auto simp: best_price_def\<close>)

text \<open>What the accounts are credited for their proofs is what their proof roots are credited for.\<close>

lemma sum_classes:
  assumes "finite B" "f ` set xs \<subseteq> B"
  shows "(\<Sum>b\<in>B. sum_list (map g (filter (\<lambda>i. f i = b) xs))) = (sum_list (map g xs) :: int)"
  using assms(2)
proof (induction xs)
  case (Cons i xs)
  have "(\<Sum>b\<in>B. sum_list (map g (filter (\<lambda>i. f i = b) (i # xs)))) = (\<Sum>b\<in>B. (if f i = b then g i else 0) + sum_list (map g (filter (\<lambda>i. f i = b) xs)))"
    by (rule sum.cong) auto
  then show ?case using Cons assms(1) by (simp add: sum.distrib)
qed simp

lemma proofs_credited:
  "sum (proofMC x) (pc_account ` set (claims x)) = sum (credited x) ((\<lambda>c. wi_Root (pc_item c)) ` set (claims x))"
proof -
  let ?cs = "claims x"
  have "sum (proofMC x) (pc_account ` set ?cs) = sum_list (map (counted_share x ?cs) [0..<length ?cs])"
    unfolding proofMC_def Let_def claims_on_def by (rule sum_classes) auto
  moreover have "sum (credited x) ((\<lambda>c. wi_Root (pc_item c)) ` set ?cs) = sum_list (map (counted_share x ?cs) [0..<length ?cs])"
    unfolding credited_def by (rule sum_classes) auto
  ultimately show ?thesis by simp
qed

section \<open>Budgets\<close>

text \<open>
  What an account can back in a run: its direct costs less what it still backs, where the floor of a settled
  payment stands in for the costs only if a settled payment to the account counts.
\<close>

definition payments_to :: "run_ctx \<Rightarrow> penalty_map \<Rightarrow> string \<Rightarrow> InputRecord list" where
  "payments_to x pm b = filter (\<lambda>r. rc_To r = b \<and> payment_counts x pm r) (cx_payments x)"

definition backing_room :: "run_ctx \<Rightarrow> bool \<Rightarrow> string \<Rightarrow> int" where
  "backing_room x settled b = max 0 ((if settled then max (priorDirect x b) (settledFloor x) else priorDirect x b) - backed_before x b)"

abbreviation settled_payee :: "run_ctx \<Rightarrow> penalty_map \<Rightarrow> string \<Rightarrow> bool" where
  "settled_payee x pm b \<equiv> list_ex (\<lambda>r. SettledPaymentKind (rc_Kind r)) (payments_to x pm b)"

definition paid_ok :: "run_ctx \<Rightarrow> penalty_map \<Rightarrow> string set \<Rightarrow> paid_state \<Rightarrow> bool" where
  "paid_ok x pm A s \<longleftrightarrow> (\<forall>b. 0 \<le> py_used s b \<and> py_used s b \<le> backing_room x (settled_payee x pm b) b) \<and> (\<forall>a. 0 \<le> py_paid s a \<and> 0 \<le> py_paidOut s a)
     \<and> sum (py_paid s) A + sum (py_paidOut s) A = sum (py_used s) A"

lemma sum_upd: "finite A \<Longrightarrow> a \<in> A \<Longrightarrow> (\<Sum>y\<in>A. if y = a then f a + (c::int) else f y) = sum f A + c"
  by (simp add: sum.remove [of A a])

lemma pay_step_cases:
  obtains "pay_step x pm s r = s"
  | credit where "0 < credit" "credit \<le> settledBudget x (py_used s) (rc_To r)" "SettledPaymentKind (rc_Kind r)" "payment_counts x pm r"
      "pay_step x pm s r = s\<lparr>py_used := (py_used s)(rc_To r := py_used s (rc_To r) + credit), py_paidOut := (py_paidOut s)(rc_Account r := py_paidOut s (rc_Account r) + credit),
         py_paidOutN := (py_paidOutN s)(rc_Account r := py_paidOutN s (rc_Account r) + 1)\<rparr>"
  | credit where "0 < credit" "credit \<le> budget x (py_used s) (rc_To r)" "\<not> SettledPaymentKind (rc_Kind r)" "payment_counts x pm r"
      "pay_step x pm s r = s\<lparr>py_used := (py_used s)(rc_To r := py_used s (rc_To r) + credit), py_paid := (py_paid s)(rc_Account r := py_paid s (rc_Account r) + credit),
         py_paidN := (py_paidN s)(rc_Account r := py_paidN s (rc_Account r) + 1)\<rparr>"
proof -
  let ?room = "if SettledPaymentKind (rc_Kind r) then settledBudget x (py_used s) (rc_To r) else budget x (py_used s) (rc_To r)"
  let ?c = "min (amountMC r) ?room"
  show ?thesis
  proof (cases "payment_counts x pm r \<and> 0 < ?c")
    case False
    then have "pay_step x pm s r = s" by (auto simp: pay_step_def Let_def not_less)
    then show ?thesis by (rule that(1))
  next
    case True
    show ?thesis
    proof (cases "SettledPaymentKind (rc_Kind r)")
      case S: True
      show ?thesis by (rule that(2) [of ?c]) (use True S in \<open>auto simp: pay_step_def Let_def\<close>)
    next
      case S: False
      show ?thesis by (rule that(3) [of ?c]) (use True S in \<open>auto simp: pay_step_def Let_def\<close>)
    qed
  qed
qed

lemma pay_step_ok:
  assumes "paid_ok x pm A s" "finite A" "rc_Account r \<in> A" "rc_To r \<in> A" "r \<in> set (cx_payments x)"
  shows "paid_ok x pm A (pay_step x pm s r)"
proof (cases rule: pay_step_cases [of x pm s r])
  case (2 credit)
  have "settled_payee x pm (rc_To r)" using 2(3,4) assms(5) by (auto simp: payments_to_def list_ex_iff)
  then have "py_used s (rc_To r) + credit \<le> backing_room x (settled_payee x pm (rc_To r)) (rc_To r)"
    using 2(1,2) by (auto simp: settledBudget_def backing_room_def)
  then show ?thesis unfolding 2(5) using assms 2(1) by (auto simp: paid_ok_def sum_upd)
next
  case (3 credit)
  have "py_used s (rc_To r) + credit \<le> backing_room x (settled_payee x pm (rc_To r)) (rc_To r)"
    using 3(1,2) by (auto simp: budget_def backing_room_def)
  then show ?thesis unfolding 3(5) using assms 3(1) by (auto simp: paid_ok_def sum_upd)
qed (use assms in simp)

definition payment_accounts :: "run_ctx \<Rightarrow> string set" where
  "payment_accounts x = rc_Account ` set (cx_payments x) \<union> rc_To ` set (cx_payments x)"

lemma pay_all_ok: "paid_ok x pm (payment_accounts x) (pay_all x pm)"
proof -
  let ?A = "payment_accounts x"
  have "paid_ok x pm ?A s \<Longrightarrow> set rs \<subseteq> set (cx_payments x) \<Longrightarrow> paid_ok x pm ?A (foldl (pay_step x pm) s rs)" for s rs
    by (induction rs arbitrary: s) (auto simp: payment_accounts_def intro!: pay_step_ok)
  moreover have "paid_ok x pm ?A no_payments" by (simp add: paid_ok_def no_payments_def backing_room_def)
  ultimately show ?thesis unfolding pay_all_def by blast
qed

lemma amountMC_pos: "0 < rc_Amount r \<Longrightarrow> 0 < amountMC r"
  by (simp add: amountMC_def mc_def)

text \<open>Payments of one sort fill the payee's room in order: what is used is their sum, up to the room.\<close>

lemma pay_step_used:
  assumes "rc_To r = b \<and> payment_counts x pm r \<longrightarrow> SettledPaymentKind (rc_Kind r) = k" "0 \<le> py_used s b" "py_used s b \<le> backing_room x k b"
  shows "py_used (pay_step x pm s r) b = (if rc_To r = b \<and> payment_counts x pm r then min (py_used s b + amountMC r) (backing_room x k b) else py_used s b)"
proof (cases "rc_To r = b \<and> payment_counts x pm r")
  case True
  then have "0 < amountMC r" by (auto simp: payment_counts_def Let_def intro!: amountMC_pos)
  moreover have "(if k then settledBudget x (py_used s) b else budget x (py_used s) b) = backing_room x k b - py_used s b"
    using assms(2,3) by (cases k) (simp_all add: settledBudget_def budget_def backing_room_def)
  ultimately show ?thesis using True assms by (auto simp: pay_step_def Let_def min_def)
qed (auto simp: pay_step_def Let_def)

lemma pay_all_used:
  assumes "list_all (\<lambda>r. SettledPaymentKind (rc_Kind r) = k) (payments_to x pm b)"
  shows "py_used (pay_all x pm) b = min (\<Sum>r\<leftarrow>payments_to x pm b. amountMC r) (backing_room x k b)"
proof -
  let ?P = "\<lambda>r. rc_To r = b \<and> payment_counts x pm r"
  have pos: "0 < amountMC r" if "?P r" for r using that by (auto simp: payment_counts_def Let_def intro!: amountMC_pos)
  have "0 \<le> py_used s b \<Longrightarrow> py_used s b \<le> backing_room x k b \<Longrightarrow> \<forall>r\<in>set rs. ?P r \<longrightarrow> SettledPaymentKind (rc_Kind r) = k \<Longrightarrow>
      py_used (foldl (pay_step x pm) s rs) b = min (py_used s b + (\<Sum>r\<leftarrow>filter ?P rs. amountMC r)) (backing_room x k b)" for s rs
  proof (induction rs arbitrary: s)
    case (Cons r rs)
    have st: "py_used (pay_step x pm s r) b = (if ?P r then min (py_used s b + amountMC r) (backing_room x k b) else py_used s b)"
      using Cons.prems by (intro pay_step_used) auto
    have "0 \<le> (\<Sum>r\<leftarrow>filter ?P rs. amountMC r)" by (rule sum_list_nonneg) (use pos in \<open>auto intro: less_imp_le\<close>)
    moreover have "?P r \<Longrightarrow> 0 < amountMC r" by (rule pos)
    ultimately show ?case using Cons.IH [of "pay_step x pm s r"] Cons.prems st by (auto simp: min_def)
  qed simp
  from this [of no_payments "cx_payments x"] assms show ?thesis
    by (auto simp: pay_all_def no_payments_def payments_to_def list_all_iff backing_room_def)
qed

section \<open>Days\<close>

lemma MulDiv_fade: "0 \<le> v \<Longrightarrow> 0 \<le> MulDiv v f 1000000 \<and> (f \<le> 1000000 \<longrightarrow> MulDiv v f 1000000 \<le> v)"
proof -
  assume v: "0 \<le> v"
  have "mulDiv v f 1000000 \<le> v" if "f \<le> 1000000"
  proof (cases "0 \<le> f")
    case True
    with v that show ?thesis by (intro mulDiv_le)
  qed (use v in \<open>simp add: mulDiv_def\<close>)
  then show ?thesis using v mulDiv_nonneg [of v f 1000000] by (simp add: MulDiv_mulDiv)
qed

definition world_good :: "run_ctx \<Rightarrow> string \<Rightarrow> world \<Rightarrow> bool" where
  "world_good x a w \<longleftrightarrow> 0 \<le> wd_money w \<and> 0 \<le> wd_time w \<and> wd_time w \<le> max (wd_time (start_world x a)) (tp_TimeCapCents (cx_p x) * mc)
     \<and> 0 \<le> wd_fade w \<and> wd_fade w \<le> max (wd_fade (start_world x a)) 1000000"

definition days_ok :: "run_ctx \<Rightarrow> paid_state \<Rightarrow> day_state \<Rightarrow> bool" where
  "days_ok x s st \<longleftrightarrow> (\<forall>a. world_good x a (dy_world st a)) \<and> (\<forall>b. 0 \<le> dy_newBacked st b \<and> dy_newBacked st b \<le> budget x (py_used s) b + py_paidOut s b)"

lemma moneyIn_nonneg: "0 \<le> moneyIn x a d"
  unfolding moneyIn_def by (rule sum_list_nonneg) (auto simp: paid_here_def less_imp_le amountMC_pos)

lemma moneyAll_nonneg: "0 \<le> moneyAll x a"
  unfolding moneyAll_def by (rule sum_list_nonneg) (auto simp: paid_here_def less_imp_le amountMC_pos)

lemma fade_day_good: "tp_DormantDayFactorPPM (cx_p x) \<le> 1000000 \<Longrightarrow> world_good x a w \<Longrightarrow> world_good x a (fade_day x d a w)"
  using MulDiv_fade [of "wd_money w" "tp_DormantDayFactorPPM (cx_p x)"] MulDiv_fade [of "wd_time w" "tp_DormantDayFactorPPM (cx_p x)"]
    MulDiv_fade [of "wd_fade w" "tp_DormantDayFactorPPM (cx_p x)"] moneyIn_nonneg [of x a d]
  by (auto simp: fade_day_def world_good_def Let_def)

lemma active_step_ok: "days_ok x s st \<Longrightarrow> days_ok x s (active_step x s rs d st a)"
proof -
  assume ok: "days_ok x s st"
  have "budget x (py_used s) b + py_paidOut s b - dy_newBacked st b \<ge> price" if "find (\<lambda>by. budget x (py_used s) by + py_paidOut s by - dy_newBacked st by \<ge> price) bs = Some b" for b bs price
    using find_SomeD [OF that] by simp
  then show ?thesis using ok by (force simp: active_step_def days_ok_def world_good_def Let_def not_less split: option.splits)
qed

lemma active_steps_ok: "days_ok x s st \<Longrightarrow> days_ok x s (foldl (active_step x s rs d) st as)"
  by (induction as arbitrary: st) (simp_all add: active_step_ok)

lemma day_step_ok: "tp_DormantDayFactorPPM (cx_p x) \<le> 1000000 \<Longrightarrow> days_ok x s st \<Longrightarrow> days_ok x s (day_step x s rs st d)"
  unfolding day_step_def by (rule active_steps_ok) (auto simp: days_ok_def fade_day_good)

definition carry_good :: "run_ctx \<Rightarrow> bool" where
  "carry_good x \<longleftrightarrow> (\<forall>a c. carried x a = Some c \<longrightarrow> 0 \<le> ca_Money c \<and> 0 \<le> ca_Time c \<and> 0 \<le> ca_FadePPM c \<and> ca_FadePPM c \<le> 1000000)"

lemma start_world_good: "carry_good x \<Longrightarrow> world_good x a (start_world x a)"
  by (auto simp: carry_good_def world_good_def start_world_def Let_def split: option.splits)

lemma all_days_ok:
  assumes "carry_good x" "tp_DormantDayFactorPPM (cx_p x) \<le> 1000000"
  shows "days_ok x (pay_all x pm) (all_days x pm (pay_all x pm))"
proof -
  let ?s = "pay_all x pm"
  have "days_ok x ?s st \<Longrightarrow> days_ok x ?s (foldl (day_step x ?s rs) st ds)" for st rs ds
    by (induction ds arbitrary: st) (simp_all add: day_step_ok assms)
  moreover have "days_ok x ?s \<lparr>dy_world = start_world x, dy_newBacked = (\<lambda>_. 0)\<rparr>"
    using start_world_good [OF assms(1)] pay_all_ok [of x pm] by (simp add: days_ok_def paid_ok_def budget_def add_nonneg_nonneg)
  ultimately show ?thesis unfolding all_days_def by blast
qed

lemma backing_le:
  assumes "carry_good x" "tp_DormantDayFactorPPM (cx_p x) \<le> 1000000"
  shows "py_used (pay_all x pm) b + dy_newBacked (all_days x pm (pay_all x pm)) b \<le> backing_room x (settled_payee x pm b) b + py_paidOut (pay_all x pm) b"
proof -
  let ?s = "pay_all x pm"
  have "dy_newBacked (all_days x pm ?s) b \<le> budget x (py_used ?s) b + py_paidOut ?s b" using all_days_ok [OF assms] unfolding days_ok_def by blast
  moreover have "0 \<le> py_used ?s b \<and> py_used ?s b \<le> backing_room x (settled_payee x pm b) b" using pay_all_ok [of x pm] unfolding paid_ok_def by blast
  ultimately show ?thesis by (auto simp: budget_def backing_room_def)
qed

lemma worldMC_nonneg:
  assumes "carry_good x" "tp_DormantDayFactorPPM (cx_p x) \<le> 1000000"
  shows "0 \<le> worldMC x pm' (pay_all x pm) (dy_world (all_days x pm (pay_all x pm))) a"
proof -
  have "world_good x a (dy_world (all_days x pm (pay_all x pm)) a)" using all_days_ok [OF assms] unfolding days_ok_def by blast
  then show ?thesis using pay_all_ok [of x pm] proofMC_nonneg [of x a] MulDiv_fade [OF proofMC_nonneg]
    by (auto simp: worldMC_def world_good_def paid_ok_def intro!: add_nonneg_nonneg)
qed

end
