(* ===== verification/Trust_Unite_Spec.thy ===== *)
theory Trust_Unite_Spec
  imports Trust_Unite
begin

text \<open>
  The union-find against the relation it stands for. Parents are never larger than their children, so
  following them ends, at the least member of the class; halving a path changes no root and a union
  joins two classes. After any unions, two strings have one root exactly when the united pairs connect them.
\<close>

section \<open>Parents and roots\<close>

definition par :: "uf \<Rightarrow> string \<Rightarrow> string" where
  "par u x = (case map_of u x of Some p \<Rightarrow> p | None \<Rightarrow> x)"

definition uf_ok :: "uf \<Rightarrow> bool" where
  "uf_ok u \<longleftrightarrow> distinct (map fst u) \<and> (\<forall>x p. map_of u x = Some p \<longrightarrow> p \<le> x \<and> map_of u p \<noteq> None)"

lemma uf_okD: "uf_ok u \<Longrightarrow> map_of u x = Some p \<Longrightarrow> p \<le> x" "uf_ok u \<Longrightarrow> map_of u x = Some p \<Longrightarrow> map_of u p \<noteq> None"
  unfolding uf_ok_def by blast+

inductive rooted :: "uf \<Rightarrow> string \<Rightarrow> string \<Rightarrow> bool" for u where
  root: "par u x = x \<Longrightarrow> rooted u x x"
| step: "par u x \<noteq> x \<Longrightarrow> rooted u (par u x) r \<Longrightarrow> rooted u x r"

lemma rooted_root: "par u x = x \<Longrightarrow> rooted u x r \<longleftrightarrow> r = x"
  by (metis rooted.simps)

lemma rooted_par: "par u x \<noteq> x \<Longrightarrow> rooted u x r \<longleftrightarrow> rooted u (par u x) r"
  by (metis rooted.simps)

lemma rooted_unique: "rooted u x r \<Longrightarrow> rooted u x r' \<Longrightarrow> r = r'"
  by (induction arbitrary: r' rule: rooted.induct) (simp_all add: rooted_root rooted_par)

lemma rooted_fix: "rooted u x r \<Longrightarrow> par u r = r"
  by (induction rule: rooted.induct)

lemma par_le: "uf_ok u \<Longrightarrow> par u x \<le> x"
  by (auto simp: uf_ok_def par_def split: option.splits)

lemma rooted_le: "rooted u x r \<Longrightarrow> uf_ok u \<Longrightarrow> r \<le> x"
  by (induction rule: rooted.induct) (auto intro: order_trans par_le)

lemma par_dom: "uf_ok u \<Longrightarrow> par u x \<noteq> x \<Longrightarrow> x \<in> dom (map_of u) \<and> par u x \<in> dom (map_of u) \<and> par u x < x"
proof -
  assume ok: "uf_ok u" "par u x \<noteq> x"
  then obtain p where p: "map_of u x = Some p" "par u x = p" by (cases "map_of u x") (auto simp: par_def)
  then have "map_of u p \<noteq> None" using ok(1) unfolding uf_ok_def by blast
  then show ?thesis using p ok par_le [OF ok(1), of x] by auto
qed

definition below :: "uf \<Rightarrow> string \<Rightarrow> nat" where
  "below u x = card {y \<in> dom (map_of u). y < x}"

lemma below_par: "uf_ok u \<Longrightarrow> par u x \<noteq> x \<Longrightarrow> below u (par u x) < below u x"
  unfolding below_def by (rule psubset_card_mono) (use par_dom [of u x] in \<open>auto simp: finite_dom_map_of\<close>)

lemma rooted_ex: "uf_ok u \<Longrightarrow> \<exists>r. rooted u x r"
proof (induction "below u x" arbitrary: x rule: less_induct)
  case less
  then show ?case using below_par [OF less(2), of x] by (cases "par u x = x") (auto intro: rooted.intros)
qed

section \<open>Halving\<close>

lemma uf_ok_update:
  assumes "uf_ok u" "p \<le> x" "map_of u p \<noteq> None \<or> p = x"
  shows "uf_ok (AList.update x p u)"
  using assms by (auto simp: uf_ok_def update_conv' distinct_update)

lemma par_update: "par (AList.update x p u) y = (if y = x then p else par u y)"
  by (simp add: par_def update_conv')

lemma halve_cases:
  obtains "halve u x p = u" | gp where "halve u x p = AList.update x gp u" "map_of u p = Some gp" "gp \<noteq> p"
proof (cases "\<exists>gp. map_of u p = Some gp \<and> gp \<noteq> '''' \<and> gp \<noteq> p")
  case True
  then obtain gp where gp: "map_of u p = Some gp" "gp \<noteq> ''''" "gp \<noteq> p" by blast
  then have "halve u x p = AList.update x gp u" by (simp add: halve_def)
  then show ?thesis by (rule that(2)) (rule gp)+
next
  case False
  then show ?thesis by (intro that(1)) (auto simp: halve_def split: option.splits)
qed

lemma halve_ok: "uf_ok u \<Longrightarrow> map_of u x = Some p \<Longrightarrow> uf_ok (halve u x p) \<and> dom (map_of (halve u x p)) = dom (map_of u)"
proof (cases rule: halve_cases [of u x p])
  case (2 gp)
  assume ok: "uf_ok u" "map_of u x = Some p"
  with 2 have "gp \<le> x" "map_of u gp \<noteq> None" using uf_okD by (blast intro: order_trans)+
  then show ?thesis using 2 ok by (auto simp: update_conv' intro!: uf_ok_update)
qed simp

lemma rooted_halve: "rooted u y r \<Longrightarrow> uf_ok u \<Longrightarrow> map_of u x = Some p \<Longrightarrow> p \<noteq> x \<Longrightarrow> rooted (halve u x p) y r"
proof (cases rule: halve_cases [of u x p])
  case (2 gp)
  assume ok: "uf_ok u" "map_of u x = Some p" "p \<noteq> x" and r: "rooted u y r"
  have "gp \<le> p" "p \<le> x" using ok 2 uf_okD by blast+
  then have gp: "par u p = gp" "gp < x" "par u x = p" using ok 2 by (simp_all add: par_def)
  let ?v = "AList.update x gp u"
  have "rooted ?v y r" using r
  proof (induction rule: rooted.induct)
    case (root y)
    then show ?case using gp ok(3) by (intro rooted.root) (auto simp: par_update)
  next
    case (step y r)
    show ?case
    proof (cases "y = x")
      case True
      have "par ?v p = gp" using ok(3) gp by (simp add: par_update)
      with step(3) True gp 2(3) have "rooted ?v gp r" by (simp add: rooted_par [of ?v p])
      then show ?thesis using True gp by (subst rooted_par) (auto simp: par_update)
    next
      case False
      with step show ?thesis by (subst rooted_par) (auto simp: par_update)
    qed
  qed
  then show ?thesis using 2 by simp
qed simp

section \<open>Find returns\<close>

definition same_roots :: "uf \<Rightarrow> uf \<Rightarrow> bool" where
  "same_roots u v \<longleftrightarrow> uf_ok v \<and> dom (map_of v) = dom (map_of u) \<and> (\<forall>y r. rooted v y r \<longleftrightarrow> rooted u y r)"

lemma same_rootsI: "uf_ok u \<Longrightarrow> uf_ok v \<Longrightarrow> dom (map_of v) = dom (map_of u) \<Longrightarrow> (\<And>y r. rooted u y r \<Longrightarrow> rooted v y r) \<Longrightarrow> same_roots u v"
  unfolding same_roots_def by (metis rooted_ex rooted_unique)

lemma same_roots_halve: "uf_ok u \<Longrightarrow> map_of u x = Some p \<Longrightarrow> p \<noteq> x \<Longrightarrow> same_roots u (halve u x p)"
  using halve_ok [of u x p] by (intro same_rootsI rooted_halve) auto

lemma same_roots_trans: "same_roots u v \<Longrightarrow> same_roots v w \<Longrightarrow> same_roots u w"
  by (simp add: same_roots_def)

lemma uf_find_root: "uf_ok u \<Longrightarrow> rooted u x r \<Longrightarrow> \<exists>u'. uf_find u x = Some (r, u') \<and> same_roots u u'"
proof (induction "below u x" arbitrary: u x rule: less_induct)
  case less
  show ?case
  proof (cases "par u x = x")
    case True
    with less(3) have "r = x" by (simp add: rooted_root)
    then show ?thesis using True less(2) by (subst uf_find.simps) (auto simp: par_def same_roots_def split: option.splits)
  next
    case False
    then obtain p where p: "map_of u x = Some p" "p \<noteq> x" "par u x = p" by (auto simp: par_def split: option.splits)
    let ?v = "halve u x p"
    have v: "same_roots u ?v" using less(2) p by (intro same_roots_halve)
    have "rooted u p r" using less(3) False p by (simp add: rooted_par)
    with v have "rooted ?v p r" "uf_ok ?v" by (simp_all add: same_roots_def)
    moreover have "below ?v p < below u x" using below_par [OF less(2) False] v p by (simp add: below_def same_roots_def)
    ultimately obtain u' where "uf_find ?v p = Some (r, u')" "same_roots ?v u'" using less(1) by blast
    moreover from this(1) have "uf_find u x = Some (r, u')" using p by (subst uf_find.simps) simp
    ultimately show ?thesis using same_roots_trans [OF v] by blast
  qed
qed

section \<open>Unions\<close>

definition joined :: "uf \<Rightarrow> string \<Rightarrow> string \<Rightarrow> bool" where
  "joined u a b \<longleftrightarrow> (\<exists>r. rooted u a r \<and> rooted u b r)"

lemma rooted_link:
  assumes "uf_ok u" "par u lo = lo" "par u hi = hi" "lo < hi" "rooted u y r"
  shows "rooted (AList.update hi lo (AList.update lo lo u)) y (if r = hi then lo else r)"
  using assms(5)
proof (induction rule: rooted.induct)
  case (root y)
  have lo: "rooted (AList.update hi lo (AList.update lo lo u)) lo lo" using assms by (intro rooted.root) (auto simp: par_update)
  show ?case
  proof (cases "y = hi")
    case True
    then show ?thesis using lo assms(4) by (simp add: rooted.step par_update)
  next
    case False
    moreover have "rooted (AList.update hi lo (AList.update lo lo u)) y y" using False root by (intro rooted.root) (simp add: par_update)
    ultimately show ?thesis by simp
  qed
next
  case (step y r)
  with assms have "y \<noteq> hi" "y \<noteq> lo" by auto
  with step show ?case by (subst rooted_par) (auto simp: par_update)
qed

lemma link_ok: "uf_ok u \<Longrightarrow> lo < hi \<Longrightarrow> uf_ok (AList.update hi lo (AList.update lo lo u))"
  by (rule uf_ok_update, rule uf_ok_update) (simp_all add: update_conv')

lemma joined_iff: "rooted u x r \<Longrightarrow> rooted u y r' \<Longrightarrow> joined u x y \<longleftrightarrow> r = r'"
  unfolding joined_def using rooted_unique by blast

lemma joined_root: "uf_ok u \<Longrightarrow> rooted u a r \<Longrightarrow> joined u a b \<longleftrightarrow> rooted u b r"
  unfolding joined_def using rooted_unique by blast

text \<open>A union joins the classes of its two members and no others.\<close>

lemma uf_union_joins:
  assumes "uf_ok u"
  shows "\<exists>u'. uf_union u (a, b) = Some u' \<and> uf_ok u'
    \<and> (\<forall>x y. joined u' x y \<longleftrightarrow> joined u x y \<or> joined u x a \<and> joined u b y \<or> joined u x b \<and> joined u a y)"
proof -
  obtain ra where ra: "rooted u a ra" using rooted_ex [OF assms] by blast
  then obtain u1 where u1: "uf_find u a = Some (ra, u1)" "same_roots u u1" using uf_find_root [OF assms] by blast
  obtain rb where rb: "rooted u b rb" using rooted_ex [OF assms] by blast
  then obtain u2 where u2: "uf_find u1 b = Some (rb, u2)" "same_roots u1 u2" using uf_find_root [of u1 b rb] u1(2) by (auto simp: same_roots_def)
  have s: "same_roots u u2" using same_roots_trans [OF u1(2) u2(2)] .
  then have j: "joined u2 x y \<longleftrightarrow> joined u x y" for x y by (simp add: joined_def same_roots_def)
  show ?thesis
  proof (cases "ra = rb")
    case True
    then have "joined u a b" using ra rb unfolding joined_def by blast
    moreover have "uf_union u (a, b) = Some u2" using True u1(1) u2(1) by (simp add: uf_union_def)
    ultimately show ?thesis using s j ra rb True rooted_unique unfolding joined_def same_roots_def by blast
  next
    case False
    define lo hi where "lo = min ra rb" and "hi = max ra rb"
    let ?u = "AList.update hi lo (AList.update lo lo u2)"
    have lt: "lo < hi" using False by (cases "ra < rb") (auto simp: lo_def hi_def min_def max_def)
    have res: "uf_union u (a, b) = Some ?u" using False u1(1) u2(1) by (auto simp: uf_union_def lo_def hi_def min_def max_def)
    have ok2: "uf_ok u2" using s by (simp add: same_roots_def)
    have ok: "uf_ok ?u" using link_ok [OF ok2 lt] .
    have "par u2 ra = ra" "par u2 rb = rb" using ra rb s by (auto simp: same_roots_def intro!: rooted_fix)
    then have "par u2 lo = lo" "par u2 hi = hi" by (auto simp: lo_def hi_def min_def max_def)
    note link = rooted_link [OF ok2 this lt]
    have root: "rooted ?u x (if r = hi then lo else r)" if "rooted u x r" for x r using link that s by (simp add: same_roots_def)
    have "joined ?u x y \<longleftrightarrow> joined u x y \<or> joined u x a \<and> joined u b y \<or> joined u x b \<and> joined u a y" for x y
    proof -
      obtain r r' where r: "rooted u x r" "rooted u y r'" using rooted_ex [OF assms] by blast
      have "joined ?u x y \<longleftrightarrow> (if r = hi then lo else r) = (if r' = hi then lo else r')"
        by (rule joined_iff [OF root [OF r(1)] root [OF r(2)]])
      moreover have "joined u x y \<longleftrightarrow> r = r'" "joined u x a \<longleftrightarrow> r = ra" "joined u b y \<longleftrightarrow> rb = r'" "joined u x b \<longleftrightarrow> r = rb" "joined u a y \<longleftrightarrow> ra = r'"
        using r ra rb by (simp_all add: joined_iff)
      ultimately show ?thesis by (auto simp: lo_def hi_def min_def max_def)
    qed
    then show ?thesis using res ok by blast
  qed
qed

section \<open>The classes of a list of links\<close>

definition linked :: "(string \<times> string) list \<Rightarrow> string \<Rightarrow> string \<Rightarrow> bool" where
  "linked ps = (\<lambda>a b. (a, b) \<in> (set ps \<union> (set ps)\<inverse>)\<^sup>*)"

lemma linked_refl [simp]: "linked ps a a"
  by (simp add: linked_def)

lemma linked_sym: "linked ps a b \<Longrightarrow> linked ps b a"
  unfolding linked_def by (metis converse_Un converse_converse rtrancl_converseD sup_commute)

lemma linked_trans: "linked ps a b \<Longrightarrow> linked ps b c \<Longrightarrow> linked ps a c"
  unfolding linked_def by (rule rtrancl_trans)

lemma linked_mono: "linked ps x y \<Longrightarrow> linked (ps @ qs) x y"
  unfolding linked_def by (rule rtrancl_mono [THEN subsetD]) auto

lemma linked_edge: "(a, b) \<in> set ps \<Longrightarrow> linked ps a b"
  unfolding linked_def by blast

lemma linked_snoc:
  "linked (ps @ [(a, b)]) x y \<longleftrightarrow> linked ps x y \<or> linked ps x a \<and> linked ps b y \<or> linked ps x b \<and> linked ps a y" (is "?L x y \<longleftrightarrow> ?R x y")
proof
  assume "?L x y"
  then show "?R x y" unfolding linked_def
  proof (induction rule: rtrancl_induct)
    case (step y z)
    let ?S = "set ps \<union> (set ps)\<inverse>"
    have *: "\<And>u v. (u, v) \<in> ?S\<^sup>* \<Longrightarrow> (v, u) \<in> ?S\<^sup>*" using linked_sym [unfolded linked_def] .
    from step(2) consider "(y, z) \<in> ?S" | "y = a" "z = b" | "y = b" "z = a" by auto
    then show ?case
    proof cases
      case 1
      then show ?thesis using step(3) by (meson rtrancl.rtrancl_into_rtrancl)
    qed (use step(3) * in \<open>blast intro: rtrancl_trans\<close>)+
  qed simp
next
  have "linked (ps @ [(a, b)]) a b" by (simp add: linked_edge)
  moreover from this have "linked (ps @ [(a, b)]) b a" by (rule linked_sym)
  ultimately show "?R x y \<Longrightarrow> ?L x y" by (metis linked_mono linked_trans)
qed

lemma unite_all_joins:
  "uf_ok u \<Longrightarrow> (\<forall>x y. joined u x y \<longleftrightarrow> linked qs x y) \<Longrightarrow> \<exists>u'. unite_all u ps = Some u' \<and> uf_ok u' \<and> (\<forall>x y. joined u' x y \<longleftrightarrow> linked (qs @ ps) x y)"
proof (induction ps arbitrary: u qs)
  case (Cons ab ps)
  obtain a b where ab: "ab = (a, b)" by (cases ab)
  obtain u1 where u1: "uf_union u (a, b) = Some u1" "uf_ok u1"
    "\<forall>x y. joined u1 x y \<longleftrightarrow> joined u x y \<or> joined u x a \<and> joined u b y \<or> joined u x b \<and> joined u a y"
    using uf_union_joins [OF Cons(2)] by blast
  have "\<forall>x y. joined u1 x y \<longleftrightarrow> linked (qs @ [(a, b)]) x y" using u1(3) Cons(3) by (simp add: linked_snoc)
  from Cons(1) [OF u1(2) this] show ?case using u1(1) ab by simp
qed simp

lemma linked_Nil: "linked [] x y \<longleftrightarrow> x = y"
  by (simp add: linked_def)

lemma unite_all_linked: "\<exists>u. unite_all [] ps = Some u \<and> uf_ok u \<and> (\<forall>x y. joined u x y \<longleftrightarrow> linked ps x y)"
proof -
  have "uf_ok []" by (simp add: uf_ok_def)
  moreover have "joined [] x y \<longleftrightarrow> x = y" for x y by (simp add: joined_def rooted_root par_def)
  ultimately show ?thesis using unite_all_joins [of "[]" "[]" ps] by (simp add: linked_Nil)
qed

section \<open>Labels\<close>

lemma better_trans: "better_label x y \<Longrightarrow> \<not> better_label z y \<Longrightarrow> \<not> better_label z x"
  by (auto simp: better_label_def)

lemma better_irrefl [simp]: "\<not> better_label x x"
  by (simp add: better_label_def)

lemma better_total: "better_label x y \<or> x = y \<or> better_label y x"
  by (auto simp: better_label_def)

definition best_in :: "(string \<Rightarrow> bool) \<Rightarrow> string \<Rightarrow> bool" where
  "best_in P l \<longleftrightarrow> P l \<and> (\<forall>x. P x \<longrightarrow> \<not> better_label x l)"

lemma best_unique: "best_in P l \<Longrightarrow> best_in P l' \<Longrightarrow> l = l'"
  using better_total [of l l'] by (auto simp: best_in_def)

text \<open>What the labels say after the keys \<open>xs\<close>: each root that has one is named by the best of its keys.\<close>

definition names :: "uf \<Rightarrow> string set \<Rightarrow> (string \<times> string) list \<Rightarrow> bool" where
  "names u X label \<longleftrightarrow> (\<forall>r. case map_of label r of
       None \<Rightarrow> \<forall>x\<in>X. \<not> rooted u x r
     | Some l \<Rightarrow> best_in (\<lambda>x. x \<in> X \<and> rooted u x r) l)"

lemma names_step:
  assumes "names u X label" "rooted u x r"
  shows "names u (insert x X) (case map_of label r of
            Some cur \<Rightarrow> if better_label x cur then AList.update r x label else label
          | None \<Rightarrow> AList.update r x label)" (is "names u _ ?label")
  unfolding names_def
proof
  fix r'
  have n: "case map_of label r' of None \<Rightarrow> \<forall>x\<in>X. \<not> rooted u x r' | Some l \<Rightarrow> best_in (\<lambda>x. x \<in> X \<and> rooted u x r') l"
    using assms(1) unfolding names_def by blast
  show "case map_of ?label r' of None \<Rightarrow> \<forall>y\<in>insert x X. \<not> rooted u y r' | Some l \<Rightarrow> best_in (\<lambda>y. y \<in> insert x X \<and> rooted u y r') l"
  proof (cases "r' = r")
    case True
    show ?thesis
    proof (cases "map_of label r")
      case None
      with n True assms(2) show ?thesis by (auto simp: update_conv' best_in_def)
    next
      case (Some cur)
      with n True have cur: "best_in (\<lambda>y. y \<in> X \<and> rooted u y r) cur" by simp
      show ?thesis
      proof (cases "better_label x cur")
        case True
        then have "best_in (\<lambda>y. y \<in> insert x X \<and> rooted u y r) x" using cur assms(2) better_trans [OF True] by (auto simp: best_in_def)
        then show ?thesis using Some True \<open>r' = r\<close> by (simp add: update_conv')
      next
        case False
        then have "best_in (\<lambda>y. y \<in> insert x X \<and> rooted u y r) cur" using cur by (auto simp: best_in_def)
        then show ?thesis using Some False \<open>r' = r\<close> by simp
      qed
    qed
  next
    case False
    then have "map_of ?label r' = map_of label r'" by (auto simp: update_conv' split: option.splits)
    moreover have "\<not> rooted u x r'" using assms(2) False rooted_unique by blast
    then have "(y \<in> insert x X \<and> rooted u y r') = (y \<in> X \<and> rooted u y r')" for y by auto
    ultimately show ?thesis using n by (auto split: option.splits)
  qed
qed

lemma label_loop_names:
  "uf_ok u \<Longrightarrow> same_roots u v \<Longrightarrow> names u X label
   \<Longrightarrow> \<exists>label' w. label_loop xs v label = Some (label', w) \<and> same_roots u w \<and> names u (X \<union> set xs) label'"
proof (induction xs arbitrary: v X label)
  case (Cons x xs)
  obtain r where r: "rooted u x r" using rooted_ex [OF Cons(2)] by blast
  with Cons(3) have "uf_ok v" "rooted v x r" by (simp_all add: same_roots_def)
  then obtain v' where v': "uf_find v x = Some (r, v')" "same_roots v v'" using uf_find_root by blast
  from Cons(1) [OF Cons(2) same_roots_trans [OF Cons(3) v'(2)] names_step [OF Cons(4) r]] show ?case
    using v'(1) by simp
qed simp

lemma labels_names:
  assumes "uf_ok u"
  obtains label w where "labels u = Some (label, w)" "same_roots u w" "names u (dom (map_of u)) label"
proof -
  have "names u {} []" by (simp add: names_def)
  moreover have "same_roots u u" using assms by (simp add: same_roots_def)
  moreover have "set (sort (remdups (map fst u))) = dom (map_of u)" by (simp add: dom_map_of_conv_image_fst)
  ultimately show ?thesis using label_loop_names [OF assms, of u "{}" "[]" "sort (remdups (map fst u))"] that by (auto simp: labels_def)
qed

section \<open>The partition\<close>

lemma joined_dom: "uf_ok u \<Longrightarrow> joined u a b \<Longrightarrow> a \<noteq> b \<Longrightarrow> a \<in> dom (map_of u) \<and> b \<in> dom (map_of u)"
proof -
  assume ok: "uf_ok u" and j: "joined u a b" "a \<noteq> b"
  have root_dom: "x \<in> dom (map_of u) \<and> r \<in> dom (map_of u)" if "rooted u x r" "x \<noteq> r" for x r
    using that
  proof (induction rule: rooted.induct)
    case (step x r)
    then show ?case using par_dom [OF ok step(1)] by auto
  qed simp
  from j obtain r where "rooted u a r" "rooted u b r" unfolding joined_def by blast
  then show ?thesis using root_dom [of a r] root_dom [of b r] j(2) by auto
qed

lemma rootOf_names:
  assumes "uf_ok u" "same_roots u w" "names u (dom (map_of u)) label"
  shows "best_in (joined u a) (rootOf w label a)"
proof (cases "a \<in> dom (map_of u)")
  case True
  obtain r where r: "rooted u a r" using rooted_ex [OF assms(1)] by blast
  with assms(2) obtain w' where "uf_find w a = Some (r, w')" using uf_find_root [of w a r] by (auto simp: same_roots_def)
  moreover have "a \<in> dom (map_of w)" using True assms(2) by (simp add: same_roots_def)
  ultimately have eq: "rootOf w label a = lookup_or '''' label r" by (auto simp: rootOf_def)
  have n: "case map_of label r of None \<Rightarrow> \<forall>x\<in>dom (map_of u). \<not> rooted u x r | Some l \<Rightarrow> best_in (\<lambda>x. x \<in> dom (map_of u) \<and> rooted u x r) l"
    using assms(3) unfolding names_def by blast
  then obtain l where l: "map_of label r = Some l" "best_in (\<lambda>x. x \<in> dom (map_of u) \<and> rooted u x r) l"
    using True r by (cases "map_of label r") auto
  have "(x \<in> dom (map_of u) \<and> rooted u x r) = joined u a x" for x
    using joined_root [OF assms(1) r] joined_dom [OF assms(1), of a x] True by (cases "a = x") auto
  then show ?thesis using l eq by (simp add: lookup_or_def best_in_def)
next
  case False
  then have "map_of w a = None" using assms(2) by (auto simp: same_roots_def)
  then have "rootOf w label a = a" by (simp add: rootOf_def)
  moreover have "joined u a x \<longleftrightarrow> x = a" for x
    using False joined_dom [OF assms(1), of a x] rooted_ex [OF assms(1), of a] by (auto simp: joined_def)
  ultimately show ?thesis by (simp add: best_in_def)
qed

lemma partition_spec:
  "\<exists>u label. partition_of ps = Some (u, label) \<and> (\<forall>a. best_in (linked ps a) (rootOf u label a))"
proof -
  obtain u where u: "unite_all [] ps = Some u" "uf_ok u" "\<forall>x y. joined u x y \<longleftrightarrow> linked ps x y" using unite_all_linked by blast
  obtain label w where w: "labels u = Some (label, w)" "same_roots u w" "names u (dom (map_of u)) label" using labels_names [OF u(2)] .
  have "joined u a = linked ps a" for a using u(3) by auto
  then have "\<forall>a. best_in (linked ps a) (rootOf w label a)" using rootOf_names [OF u(2) w(2,3)] by simp
  then show ?thesis using u(1) w(1) by (simp add: partition_of_def)
qed

end
