(* ===== verification/Trust_Run_Props.thy ===== *)
theory Trust_Run_Props
  imports Trust_Cost_Spec Trust_Unite_Spec
begin

text \<open>
  What a trust run relies on before its graph: who is one root, what is carried from run to run, whose
  judgements count and how they are marked, and that a cost counts once and backs no more than itself.
\<close>

text \<open>
  C14: the union-find of a run returns, and two accounts have one root exactly when a chain of counting
  proofs and payout addresses joins them: attached keys, verified domains, live wallets. The root is
  named by its smallest domain, or without one by its smallest account.
\<close>

theorem roots_partition:
  "\<exists>u label. partition_of (full_links E p asOf burned proofs payments) = Some (u, label)
    \<and> (\<forall>a b. rootOf u label a = rootOf u label b \<longleftrightarrow> linked (full_links E p asOf burned proofs payments) a b)
    \<and> (\<forall>a. best_in (linked (full_links E p asOf burned proofs payments) a) (rootOf u label a))"
proof -
  let ?L = "linked (full_links E p asOf burned proofs payments)"
  obtain u label where u: "partition_of (full_links E p asOf burned proofs payments) = Some (u, label)" "\<forall>a. best_in (?L a) (rootOf u label a)"
    using partition_spec by blast
  have "rootOf u label a = rootOf u label b \<longleftrightarrow> ?L a b" for a b
  proof
    assume "rootOf u label a = rootOf u label b"
    with u(2) have "?L a (rootOf u label a)" "?L b (rootOf u label a)" unfolding best_in_def by (metis, metis)
    then show "?L a b" using linked_sym linked_trans by blast
  next
    assume "?L a b"
    then have "?L a = ?L b" using linked_sym linked_trans by blast
    then show "rootOf u label a = rootOf u label b" using u(2) best_unique by metis
  qed
  then show ?thesis using u by blast
qed

text \<open>
  C35: the next run reads the records of a carry in any order. If every account that carries something is
  within the reader's ranges (\<open>carry_ok\<close>: a name, no negative value, money, time and backing up to \<open>2 ^ 50\<close>,
  direct and standing up to \<open>2 ^ 40\<close>, a fade of at most one), it reads the carry as it was written: its
  time, and for each account exactly the accumulators, accounts with nothing to carry left out. Otherwise
  it refuses the file, and names an account out of range: a run writes its values without clamping them.
\<close>

theorem carry_round_trip:
  assumes "distinct (map ca_Account (cy_Accounts c))" "mset rs = mset (Carry_Records c)"
  shows "if \<forall>a\<in>set (cy_Accounts c). carries_nothing a \<or> carry_ok a
    then \<exists>ci. carryFromRecords E rs = Inr (Some ci) \<and> ci_asOf ci = cy_AsOf c
      \<and> (\<forall>a. map_of (ci_accounts ci) a = find (\<lambda>x. ca_Account x = a \<and> \<not> carries_nothing x) (cy_Accounts c))
    else \<exists>a\<in>set (cy_Accounts c). \<not> carry_ok a \<and> carryFromRecords E rs = Inl (Carry_range (ca_Account a))"
  using carry_reads_back [OF assms(1) _ assms(2)] carry_refused [OF assms] by auto

definition plain_env :: run_env where
  "plain_env = \<lparr>ev_lower = (\<lambda>s. s), ev_compact = Some, ev_decode = (\<lambda>_. None), ev_sha256 = (\<lambda>s. s)\<rparr>"

definition demo_account :: CarryAccount where
  "demo_account = \<lparr>ca_Account = ''a'', ca_Money = 500000, ca_Time = 10000, ca_FadePPM = 1000000, ca_LastActive = 9, ca_Direct = 500, ca_Standing = 510, ca_Backed = 0\<rparr>"

definition demo_carry :: Carry where
  "demo_carry = \<lparr>cy_AsOf = 864000, cy_Accounts = [demo_account, demo_account\<lparr>ca_Account := ''b'', ca_Money := 0, ca_Time := 0, ca_Direct := 0, ca_Standing := 0\<rparr>]\<rparr>"

theorem carry_round_trip_witness:
  "\<exists>ci. carryFromRecords plain_env (rev (Carry_Records demo_carry)) = Inr (Some ci) \<and> ci_asOf ci = 864000
    \<and> map_of (ci_accounts ci) ''a'' = Some demo_account \<and> map_of (ci_accounts ci) ''b'' = None"
proof -
  have d: "distinct (map ca_Account (cy_Accounts demo_carry))" "\<forall>a\<in>set (cy_Accounts demo_carry). carries_nothing a \<or> carry_ok a"
    by (simp_all add: demo_carry_def demo_account_def carry_ok_def)
  from carry_round_trip [OF d(1) mset_rev, of plain_env] d(2)
  obtain ci where ci: "carryFromRecords plain_env (rev (Carry_Records demo_carry)) = Inr (Some ci)" "ci_asOf ci = cy_AsOf demo_carry"
    "\<forall>a. map_of (ci_accounts ci) a = find (\<lambda>x. ca_Account x = a \<and> \<not> carries_nothing x) (cy_Accounts demo_carry)" by auto
  moreover have "find (\<lambda>x. ca_Account x = ''a'' \<and> \<not> carries_nothing x) (cy_Accounts demo_carry) = Some demo_account"
    "find (\<lambda>x. ca_Account x = ''b'' \<and> \<not> carries_nothing x) (cy_Accounts demo_carry) = None" "cy_AsOf demo_carry = 864000"
    by (simp_all add: demo_carry_def demo_account_def carries_nothing_def)
  ultimately show ?thesis by auto
qed

text \<open>
  C34: the judgements a run collects of any subject are in order and within its window, none is by an account
  under a breaker, by an owner of the subject or by one that shares a root with an owner, and of two by
  one root the older is closed, so each root has at most one current judgement of a subject.
\<close>

theorem one_current_judgement:
  "subject_ok asOf ws reset rt (collectJudgements E p snap asOf ws reset rt) s"
  by (rule collected_subject_ok)

text \<open>
  C36: every judgement counted by the marking is marked or still open, no author gains or loses more than one
  mark a judgement, and the accuracy that follows stays between a half and two.
\<close>

theorem marks_accounted:
  "marks_ok (authors_of (ai_set ai)) (markAccuracy ai)
    \<and> 500000 \<le> AccuracyPPM (ao_gain (markAccuracy ai) a) (ao_marked (markAccuracy ai) a) m
    \<and> AccuracyPPM (ao_gain (markAccuracy ai) a) (ao_marked (markAccuracy ai) a) m \<le> 2000000"
  using markAccuracy_ok AccuracyPPM_range by blast

text \<open>
  C15: a proof root counts once, however many accounts and keys claim it: all that is credited for it is at
  most its best price, and what the accounts are credited for their proofs is what the roots are.
\<close>

theorem proof_counted_once:
  "credited x R \<le> best_price x R * mc
    \<and> sum (proofMC x) (pc_account ` set (claims x)) = sum (credited x) ((\<lambda>c. wi_Root (pc_item c)) ` set (claims x))"
  using credited_le proofs_credited by blast

text \<open>
  C16: nobody backs more than it has paid: the payments and the time present an account backs in a run are
  at most its direct costs less what it still backs, and the settled money it paid out itself. Only if a
  settled payment to the account counts does the floor of settled payments stand in for smaller direct
  costs. Payments of one sort are credited in full until that room is used up, every credit is in some
  payer's total, time present stays within the larger of its cap and what was carried, and no world edge
  is negative.
\<close>

theorem backing_bounded:
  assumes "carry_good x" "tp_DormantDayFactorPPM (cx_p x) \<le> 1000000" "s = pay_all x pm" "st = all_days x pm s"
  shows "py_used s b + dy_newBacked st b
      \<le> max 0 ((if list_ex (\<lambda>r. SettledPaymentKind (rc_Kind r)) (payments_to x pm b) then max (priorDirect x b) (settledFloor x) else priorDirect x b) - backed_before x b)
        + py_paidOut s b
    \<and> (list_all (\<lambda>r. SettledPaymentKind (rc_Kind r) = k) (payments_to x pm b) \<longrightarrow>
         py_used s b = min (\<Sum>r\<leftarrow>payments_to x pm b. amountMC r) (max 0 ((if k then max (priorDirect x b) (settledFloor x) else priorDirect x b) - backed_before x b)))
    \<and> sum (py_paid s) (payment_accounts x) + sum (py_paidOut s) (payment_accounts x) = sum (py_used s) (payment_accounts x)
    \<and> wd_time (dy_world st a) \<le> max (wd_time (start_world x a)) (tp_TimeCapCents (cx_p x) * mc)
    \<and> 0 \<le> worldMC x pm' s (dy_world st) a"
proof -
  have "world_good x a (dy_world st a)" using all_days_ok [OF assms(1,2)] assms(3,4) unfolding days_ok_def by blast
  then show ?thesis
    using backing_le [OF assms(1,2), of pm b] pay_all_used [of k x pm b] pay_all_ok [of x pm] worldMC_nonneg [OF assms(1,2)] assms(3,4)
    by (simp add: backing_room_def paid_ok_def world_good_def)
qed

definition demo_snapshot :: Snapshot where
  "demo_snapshot = \<lparr>sn_Meta = \<lparr>mt_Schema = 2, mt_AsOf = 864000, mt_PauseNewKeysSince = 0, mt_EventsSeq = 0, mt_EndorsementsSeq = 0, mt_LedgerSeq = 0\<rparr>,
     sn_Params = DefaultTrust, sn_Accounts = [], sn_Posts = [], sn_Endorsements = [], sn_Proofs = [], sn_Breakers = [], sn_Transfers = [], sn_Claims = [],
     sn_Payments = [zero_Record\<lparr>rc_Type := ''payment'', rc_Account := ''a'', rc_Amount := 500, rc_CreatedAt := 86400\<rparr>,
       zero_Record\<lparr>rc_Type := ''payment'', rc_Kind := ''work_usdc'', rc_Account := ''b'', rc_To := ''a'', rc_Amount := 100, rc_CreatedAt := 172800\<rparr>],
     sn_Acts = [], sn_Reviews = [], sn_Owners = [], sn_Penalties = [], sn_Burns = [], sn_Liabilities = [], sn_Lifts = [], sn_Carry = []\<rparr>"

definition demo_ctx :: run_ctx where
  "demo_ctx = \<lparr>cx_E = plain_env, cx_p = DefaultTrust, cx_snap = demo_snapshot, cx_carry = None, cx_log = [], cx_rootOf = (\<lambda>a. a), cx_baseRoot = (\<lambda>a. a)\<rparr>"

theorem backing_bounded_witness:
  "py_used (pay_all demo_ctx (\<lambda>_. None, \<lambda>_. None)) ''a''
    = min (\<Sum>r\<leftarrow>payments_to demo_ctx (\<lambda>_. None, \<lambda>_. None) ''a''. amountMC r) (max 0 (max (priorDirect demo_ctx ''a'') (settledFloor demo_ctx) - backed_before demo_ctx ''a''))"
proof -
  have "list_all (\<lambda>r. SettledPaymentKind (rc_Kind r) = True) (payments_to demo_ctx (\<lambda>_. None, \<lambda>_. None) ''a'')"
    by (auto simp: list_all_iff payments_to_def cx_payments_def demo_ctx_def demo_snapshot_def SettledPaymentKind_def zero_Record_def)
  moreover
  have "carry_good demo_ctx" by (simp add: carry_good_def carried_def demo_ctx_def)
  moreover have "tp_DormantDayFactorPPM (cx_p demo_ctx) \<le> 1000000" using DayFactor_bounds [of 180] by (simp add: demo_ctx_def DefaultTrust_def Derive_def Let_def)
  ultimately show ?thesis using backing_bounded [OF _ _ refl refl, of demo_ctx "(\<lambda>_. None, \<lambda>_. None)" "''a''" True] by simp
qed

end
