(* ===== verification/Ots.thy ===== *)
theory Ots
  imports Log "HOL-Library.List_Lexorder" "HOL-Library.Char_ord" "HOL-Library.Product_Lexorder"
begin

unbundle bit_operations_syntax

text \<open>
  OpenTimestamps proofs (\<open>internal/ots/ots.go\<close>), with which the log anchors its checkpoints: operations,
  attestations, the tree of timestamps, its binary form and the bounded parser. Messages are byte strings
  as in \<open>B64\<close>; SHA-256 and SHA-1 are parameters. The order \<open>slices.SortFunc\<close> leaves equal
  operations in is a parameter too: it sees the operations only, and answers with positions.
\<close>

datatype ots_err = Truncated | Varuint_too_long | Varbytes_too_long | Too_deep | Malformed_pending | Empty_argument
  | Unsupported_operation | Result_too_long | Timestamp_too_large | Different_messages | Trailing_bytes
  | File_too_large | Not_a_proof | Unsupported_version | Not_SHA256

record Hashes =
  hs_sha256 :: "string \<Rightarrow> string"
  hs_sha1 :: "string \<Rightarrow> string"

section \<open>Bounds, tags and operations\<close>

definition Magic :: string where
  "Magic = CHR 0x00 # ''OpenTimestamps'' @ [CHR 0x00, CHR 0x00] @ ''Proof'' @
     [CHR 0x00, CHR 0xBF, CHR 0x89, CHR 0xE2, CHR 0xE8, CHR 0x84, CHR 0xE8, CHR 0x92, CHR 0x94]"

definition MaxFileBytes :: nat where "MaxFileBytes = 64 * 1024"

definition MaxDepth :: nat where "MaxDepth = 256"

definition maxOpBytes :: nat where "maxOpBytes = 4096"

definition maxURIBytes :: nat where "maxURIBytes = 1000"

definition msgBudget :: nat where "msgBudget = 4 * 1024 * 1024"

definition opSHA1 :: char where "opSHA1 = CHR 0x02"

definition opSHA256 :: char where "opSHA256 = CHR 0x08"

definition opAppend :: char where "opAppend = CHR 0xF0"

definition opPrepend :: char where "opPrepend = CHR 0xF1"

definition opReverse :: char where "opReverse = CHR 0xF2"

definition opHexlify :: char where "opHexlify = CHR 0xF3"

lemmas op_tags = opSHA1_def opSHA256_def opAppend_def opPrepend_def opReverse_def opHexlify_def

definition TagPending :: string where
  "TagPending = [CHR 0x83, CHR 0xDF, CHR 0xE3, CHR 0x0D, CHR 0x2E, CHR 0xF9, CHR 0x0C, CHR 0x8E]"

definition TagBitcoin :: string where
  "TagBitcoin = [CHR 0x05, CHR 0x88, CHR 0x96, CHR 0x0D, CHR 0x73, CHR 0xD7, CHR 0x19, CHR 0x01]"

record Op =
  op_Tag :: char
  op_Arg :: string

definition Apply :: "Hashes \<Rightarrow> Op \<Rightarrow> string \<Rightarrow> ots_err + string" where
  "Apply H o' msg =
     (let out = (if op_Tag o' = opSHA256 then Some (hs_sha256 H msg)
                 else if op_Tag o' = opSHA1 then Some (hs_sha1 H msg)
                 else if op_Tag o' = opAppend then Some (msg @ op_Arg o')
                 else if op_Tag o' = opPrepend then Some (op_Arg o' @ msg)
                 else if op_Tag o' = opReverse then Some (rev msg)
                 else if op_Tag o' = opHexlify then Some (hex_EncodeToString msg)
                 else None) in
      case out of
        None \<Rightarrow> Inl Unsupported_operation
      | Some m \<Rightarrow> if length m > maxOpBytes then Inl Result_too_long else Inr m)"

definition Op_less :: "Op \<Rightarrow> Op \<Rightarrow> bool" where
  "Op_less o' p = (if op_Tag o' \<noteq> op_Tag p then op_Tag o' < op_Tag p else op_Arg o' < op_Arg p)"

record Attestation =
  at_Tag :: string
  at_Payload :: string

section \<open>The reader\<close>

record reader =
  rd_b :: string
  rd_budget :: nat

definition rd_byte :: "reader \<Rightarrow> ots_err + (char \<times> reader)" where
  "rd_byte r = (case rd_b r of [] \<Rightarrow> Inl Truncated | c # b \<Rightarrow> Inr (c, r\<lparr>rd_b := b\<rparr>))"

definition rd_take :: "nat \<Rightarrow> reader \<Rightarrow> ots_err + (string \<times> reader)" where
  "rd_take n r = (if length (rd_b r) < n then Inl Truncated else Inr (take n (rd_b r), r\<lparr>rd_b := drop n (rd_b r)\<rparr>))"

function varuint_loop :: "nat \<Rightarrow> 64 word \<Rightarrow> reader \<Rightarrow> ots_err + (64 word \<times> reader)" where
  "varuint_loop shift v r =
     (if shift < 64 then
        (case rd_byte r of
           Inl e \<Rightarrow> Inl e
         | Inr (c, r') \<Rightarrow>
           let v' = v OR push_bit shift (word_of_nat (byte c) AND 0x7F) in
           if word_of_nat (byte c) AND 0x80 = (0 :: 64 word) then Inr (v', r') else varuint_loop (shift + 7) v' r')
      else Inl Varuint_too_long)"
  by pat_completeness auto
termination
  by (relation "measure (\<lambda>(shift, v, r). 64 - shift)") auto

declare varuint_loop.simps [simp del]

definition varuint :: "reader \<Rightarrow> ots_err + (64 word \<times> reader)" where
  "varuint = varuint_loop 0 0"

definition varbytes :: "nat \<Rightarrow> reader \<Rightarrow> ots_err + (string \<times> reader)" where
  "varbytes mx r = (case varuint r of
       Inl e \<Rightarrow> Inl e
     | Inr (n, r') \<Rightarrow> if n > word_of_nat mx then Inl Varbytes_too_long else rd_take (unat n) r')"

definition PendingURI :: "Attestation \<Rightarrow> string" where
  "PendingURI a =
     (if at_Tag a \<noteq> TagPending then []
      else case varbytes maxURIBytes \<lparr>rd_b = at_Payload a, rd_budget = 0\<rparr> of
        Inl _ \<Rightarrow> []
      | Inr (uri, r) \<Rightarrow> if rd_b r \<noteq> [] then [] else uri)"

definition BitcoinHeight :: "Attestation \<Rightarrow> 64 word" where
  "BitcoinHeight a =
     (if at_Tag a \<noteq> TagBitcoin then 0
      else case varuint \<lparr>rd_b = at_Payload a, rd_budget = 0\<rparr> of Inl _ \<Rightarrow> 0 | Inr (h, _) \<Rightarrow> h)"

text \<open>The rule is per rune; a byte that is not ASCII is or starts a rune outside the list.\<close>

definition uri_rune :: "nat \<Rightarrow> bool" where
  "uri_rune c \<longleftrightarrow> 97 \<le> c \<and> c \<le> 122 \<or> 65 \<le> c \<and> c \<le> 90 \<or> 48 \<le> c \<and> c \<le> 57 \<or> c \<in> set (map byte ''._/:-'')"

definition validURI :: "string \<Rightarrow> bool" where
  "validURI uri \<longleftrightarrow> all_runes (\<lambda>c _. uri_rune c) uri \<and> uri \<noteq> []"

section \<open>Timestamps\<close>

datatype Timestamp = Timestamp (ts_Msg: string) (ts_Attestations: "Attestation list") (ts_Branches: "(Op \<times> Timestamp) list")

text \<open>
  \<open>Merge\<close> changes \<open>t\<close> as it goes, so the result carries \<open>t\<close> beside the error. The other tree is a fresh
  parse, never shared with \<open>t\<close>.
\<close>

definition merge_attestations :: "Attestation list \<Rightarrow> Attestation list \<Rightarrow> Attestation list" where
  "merge_attestations = foldl (\<lambda>as a. if a \<in> set as then as else as @ [a])"

fun Merge :: "Timestamp \<Rightarrow> Timestamp \<Rightarrow> Timestamp \<times> ots_err option"
  and merge_branches :: "(Op \<times> Timestamp) list \<Rightarrow> (Op \<times> Timestamp) list \<Rightarrow> (Op \<times> Timestamp) list \<times> ots_err option" where
  "Merge (Timestamp m as bs) (Timestamp m' as' bs') =
     (if m \<noteq> m' then (Timestamp m as bs, Some Different_messages)
      else case merge_branches bs bs' of (bs2, e) \<Rightarrow> (Timestamp m (merge_attestations as as') bs2, e))"
| "merge_branches bs [] = (bs, None)"
| "merge_branches bs ((o', s) # rest) =
     (case index_of o' (map fst bs) of
        None \<Rightarrow> merge_branches (bs @ [(o', s)]) rest
      | Some i \<Rightarrow> (case Merge (snd (bs ! i)) s of
          (s2, Some e) \<Rightarrow> (bs[i := (fst (bs ! i), s2)], Some e)
        | (s2, None) \<Rightarrow> merge_branches (bs[i := (fst (bs ! i), s2)]) rest))"

text \<open>The timestamps \<open>Walk\<close> visits, in its order.\<close>

primrec Walk :: "Timestamp \<Rightarrow> Timestamp list" where
  "Walk (Timestamp m as bs) = Timestamp m as bs # concat (map snd (map (map_prod id Walk) bs))"

definition Status_step :: "string list \<times> 64 word \<Rightarrow> Attestation \<Rightarrow> string list \<times> 64 word" where
  "Status_step st a = (case st of (pending, height) \<Rightarrow>
     (if PendingURI a \<noteq> [] then pending @ [PendingURI a] else pending,
      if BitcoinHeight a > 0 \<and> (height = 0 \<or> BitcoinHeight a < height) then BitcoinHeight a else height))"

definition Status :: "Timestamp \<Rightarrow> string list \<times> 64 word" where
  "Status t = foldl (foldl Status_step) ([], 0) (map ts_Attestations (Walk t))"

definition BitcoinRoot :: "64 word \<Rightarrow> Timestamp \<Rightarrow> string option" where
  "BitcoinRoot height t = foldl (\<lambda>root s. foldl (\<lambda>root a.
       if root = None \<and> height > 0 \<and> BitcoinHeight a = height then Some (ts_Msg s) else root) root (ts_Attestations s)) None (Walk t)"

section \<open>Writing\<close>

function put_varuint :: "nat \<Rightarrow> string" where
  "put_varuint n = (if 0x80 \<le> n then char_of (n mod 256 OR 0x80) # put_varuint (drop_bit 7 n) else [char_of n])"
  by pat_completeness auto
termination
  by (relation "measure id") (auto simp: drop_bit_eq_div)

declare put_varuint.simps [simp del]

definition writeVarbytes :: "string \<Rightarrow> string" where
  "writeVarbytes b = put_varuint (length b) @ b"

definition write_attestation :: "Attestation \<Rightarrow> string" where
  "write_attestation a = CHR 0x00 # at_Tag a @ writeVarbytes (at_Payload a)"

definition write_op :: "Op \<Rightarrow> string" where
  "write_op o' = op_Tag o' # (if op_Tag o' = opAppend \<or> op_Tag o' = opPrepend then writeVarbytes (op_Arg o') else [])"

text \<open>Every item but the last is prefixed \<open>0xff\<close>.\<close>

fun write_items :: "string list \<Rightarrow> string" where
  "write_items [] = []"
| "write_items [x] = x"
| "write_items (x # y # xs) = CHR 0xFF # x @ write_items (y # xs)"

definition sort_attestations :: "Attestation list \<Rightarrow> Attestation list" where
  "sort_attestations = sort_key (\<lambda>a. (at_Tag a, at_Payload a))"

text \<open>What \<open>slices.SortFunc\<close> is asked for: a permutation of the positions in which no operation precedes a smaller one.\<close>

definition sorts :: "(Op list \<Rightarrow> nat list) \<Rightarrow> bool" where
  "sorts ord \<longleftrightarrow> (\<forall>ops. distinct (ord ops) \<and> set (ord ops) = {..<length ops} \<and> sorted_wrt (\<lambda>i j. \<not> Op_less (ops ! j) (ops ! i)) (ord ops))"

definition pick :: "nat list \<Rightarrow> 'a list \<Rightarrow> 'a list" where
  "pick is xs = map ((!) xs) is"

primrec Serialize :: "(Op list \<Rightarrow> nat list) \<Rightarrow> Timestamp \<Rightarrow> string" where
  "Serialize ord (Timestamp m as bs) =
     write_items (map write_attestation (sort_attestations as)
       @ pick (ord (map fst bs)) (map (\<lambda>(o', s). write_op o' @ s) (map (map_prod id (Serialize ord)) bs)))"

section \<open>Parsing\<close>

definition read_attestation :: "reader \<Rightarrow> ots_err + (Attestation \<times> reader)" where
  "read_attestation r = (case rd_take 8 r of
       Inl e \<Rightarrow> Inl e
     | Inr (atag, r1) \<Rightarrow> (case varbytes 8192 r1 of
         Inl e \<Rightarrow> Inl e
       | Inr (payload, r2) \<Rightarrow>
         let a = \<lparr>at_Tag = atag, at_Payload = payload\<rparr> in
         if at_Tag a = TagPending \<and> (PendingURI a = [] \<or> \<not> validURI (PendingURI a)) then Inl Malformed_pending
         else Inr (a, r2)))"

definition read_arg :: "char \<Rightarrow> reader \<Rightarrow> ots_err + (string \<times> reader)" where
  "read_arg tag r =
     (if tag = opAppend \<or> tag = opPrepend then
        (case varbytes maxOpBytes r of
           Inl e \<Rightarrow> Inl e
         | Inr (arg, r') \<Rightarrow> if length arg = 0 then Inl Empty_argument else Inr (arg, r'))
      else Inr ([], r))"

text \<open>An operation, its result and the reader charged for it.\<close>

definition read_op :: "Hashes \<Rightarrow> string \<Rightarrow> char \<Rightarrow> reader \<Rightarrow> ots_err + (Op \<times> string \<times> reader)" where
  "read_op H msg tag r = (case read_arg tag r of
       Inl e \<Rightarrow> Inl e
     | Inr (arg, r1) \<Rightarrow>
       let o' = \<lparr>op_Tag = tag, op_Arg = arg\<rparr> in
       (case Apply H o' msg of
          Inl e \<Rightarrow> Inl e
        | Inr nxt \<Rightarrow>
          let r2 = r1\<lparr>rd_budget := rd_budget r1 + length nxt\<rparr> in
          if rd_budget r2 > msgBudget then Inl Timestamp_too_large else Inr (o', nxt, r2)))"

text \<open>
  The loop of \<open>timestamp\<close> with its closure \<open>item\<close>: one turn reads an item, preceded by \<open>0xff\<close> when
  another follows. The recursive call is entered at \<open>depth + 1\<close>.
\<close>

lemma rd_byte_less: "rd_byte r = Inr (c, r') \<Longrightarrow> length (rd_b r) = Suc (length (rd_b r'))"
  by (auto simp: rd_byte_def split: list.splits)

lemma rd_take_le: "rd_take n r = Inr (b, r') \<Longrightarrow> length (rd_b r) = length b + length (rd_b r') \<and> length b = n"
  by (auto simp: rd_take_def split: if_splits)

lemma varuint_loop_le: "varuint_loop shift v r = Inr (n, r') \<Longrightarrow> length (rd_b r') \<le> length (rd_b r)"
proof (induction shift v r rule: varuint_loop.induct)
  case (1 shift v r)
  from 1(2) show ?case
    by (subst (asm) varuint_loop.simps)
       (force simp: Let_def split: if_splits sum.splits prod.splits dest: rd_byte_less 1(1))
qed

lemma varbytes_le: "varbytes mx r = Inr (b, r') \<Longrightarrow> length (rd_b r') \<le> length (rd_b r)"
  by (auto simp: varbytes_def varuint_def split: sum.splits prod.splits if_splits dest!: varuint_loop_le rd_take_le)

lemma read_attestation_le: "read_attestation r = Inr (a, r') \<Longrightarrow> length (rd_b r') \<le> length (rd_b r)"
  by (auto simp: read_attestation_def Let_def split: sum.splits prod.splits if_splits dest!: varbytes_le rd_take_le)

lemma read_op_le: "read_op H msg tag r = Inr (o', nxt, r') \<Longrightarrow> length (rd_b r') \<le> length (rd_b r)"
  by (auto simp: read_op_def read_arg_def Let_def split: sum.splits prod.splits if_splits dest!: varbytes_le)

text \<open>The tag of the next item, and whether another one follows it.\<close>

definition read_tag :: "reader \<Rightarrow> ots_err + (bool \<times> char \<times> reader)" where
  "read_tag r = (case rd_byte r of
       Inl e \<Rightarrow> Inl e
     | Inr (tag0, r0) \<Rightarrow>
       if tag0 = CHR 0xFF then (case rd_byte r0 of Inl e \<Rightarrow> Inl e | Inr (tag, r1) \<Rightarrow> Inr (True, tag, r1))
       else Inr (False, tag0, r0))"

lemma read_tag_less: "read_tag r = Inr (follows, tag, r') \<Longrightarrow> length (rd_b r') < length (rd_b r)"
  by (auto simp: read_tag_def split: sum.splits prod.splits if_splits dest!: rd_byte_less)

function stamp_items :: "Hashes \<Rightarrow> nat \<Rightarrow> string \<Rightarrow> Attestation list \<Rightarrow> (Op \<times> Timestamp) list \<Rightarrow> reader \<Rightarrow> ots_err + (Timestamp \<times> reader)" where
  "stamp_items H depth msg as bs r =
     (case read_tag r of
        Inl e \<Rightarrow> Inl e
      | Inr (follows, tag, r1) \<Rightarrow>
        if tag = CHR 0x00 then
          (case read_attestation r1 of
             Inl e \<Rightarrow> Inl e
           | Inr (a, r2) \<Rightarrow> if follows then stamp_items H depth msg (as @ [a]) bs r2 else Inr (Timestamp msg (as @ [a]) bs, r2))
        else
          (case read_op H msg tag r1 of
             Inl e \<Rightarrow> Inl e
           | Inr (o', nxt, r2) \<Rightarrow>
             if depth + 1 > MaxDepth then Inl Too_deep
             else (case stamp_items H (depth + 1) nxt [] [] r2 of
                 Inl e \<Rightarrow> Inl e
               | Inr (st, r3) \<Rightarrow>
                 if follows then stamp_items H depth msg as (bs @ [(o', st)]) r3 else Inr (Timestamp msg as (bs @ [(o', st)]), r3))))"
  by pat_completeness auto

lemma stamp_items_partial_le:
  "stamp_items_dom (H, depth, msg, as, bs, r) \<Longrightarrow> stamp_items H depth msg as bs r = Inr (t, r') \<Longrightarrow> length (rd_b r') < length (rd_b r)"
proof (induction arbitrary: t r' rule: stamp_items.pinduct)
  case (1 H depth msg as bs r)
  from 1(5) obtain follows tag r1 where rt: "read_tag r = Inr (follows, tag, r1)"
    unfolding stamp_items.psimps [OF 1(1)] by (auto split: sum.splits)
  note less = read_tag_less [OF rt]
  note body = 1(5) [unfolded stamp_items.psimps [OF 1(1)] rt, simplified]
  show ?case
  proof (cases "tag = CHR 0x00")
    case True
    with body obtain a r2 where ra: "read_attestation r1 = Inr (a, r2)" by (auto split: sum.splits)
    then show ?thesis
      using body True less read_attestation_le [OF ra] 1(2) [OF rt _ _ _ ra] by (fastforce split: if_splits)
  next
    case False
    with body obtain o' nxt r2 where ro: "read_op H msg tag r1 = Inr (o', nxt, r2)" by (auto split: sum.splits)
    with body False have d: "\<not> MaxDepth < depth + 1" by (auto split: if_splits)
    with body False ro obtain st r3 where st: "stamp_items H (depth + 1) nxt [] [] r2 = Inr (st, r3)" by (auto split: sum.splits)
    then show ?thesis
      using body False ro d less read_op_le [OF ro] 1(3) [OF rt _ _ _ ro _ _ d] 1(4) [OF rt _ _ _ ro _ _ d st]
      by (fastforce split: if_splits)
  qed
qed

termination stamp_items
proof (relation "measure (\<lambda>(H, depth, msg, as, bs, r). length (rd_b r))", goal_cases)
  case (4 H depth msg as bs r)
  then show ?case
    by (auto dest!: read_tag_less read_op_le stamp_items_partial_le)
qed (auto dest!: read_tag_less read_op_le read_attestation_le)

declare stamp_items.simps [simp del]

definition timestamp :: "Hashes \<Rightarrow> string \<Rightarrow> nat \<Rightarrow> reader \<Rightarrow> ots_err + (Timestamp \<times> reader)" where
  "timestamp H msg depth r = (if depth > MaxDepth then Inl Too_deep else stamp_items H depth msg [] [] r)"

definition ParseTimestamp :: "Hashes \<Rightarrow> string \<Rightarrow> string \<Rightarrow> ots_err + Timestamp" where
  "ParseTimestamp H data msg =
     (if length data > MaxFileBytes then Inl Timestamp_too_large
      else case timestamp H msg 0 \<lparr>rd_b = data, rd_budget = 0\<rparr> of
        Inl e \<Rightarrow> Inl e
      | Inr (t, r) \<Rightarrow> if length (rd_b r) \<noteq> 0 then Inl Trailing_bytes else Inr t)"

record File =
  fl_Digest :: string
  fl_Stamp :: Timestamp

definition File_Bytes :: "(Op list \<Rightarrow> nat list) \<Rightarrow> File \<Rightarrow> string" where
  "File_Bytes ord f = Magic @ [CHR 0x01, opSHA256] @ fl_Digest f @ Serialize ord (fl_Stamp f)"

definition ParseFile :: "Hashes \<Rightarrow> string \<Rightarrow> ots_err + File" where
  "ParseFile H data =
     (if length data > MaxFileBytes then Inl File_too_large
      else if take (length Magic) data \<noteq> Magic then Inl Not_a_proof
      else case varuint \<lparr>rd_b = drop (length Magic) data, rd_budget = 0\<rparr> of
        Inl _ \<Rightarrow> Inl Unsupported_version
      | Inr (v, r1) \<Rightarrow>
        if v \<noteq> 1 then Inl Unsupported_version
        else case rd_byte r1 of
          Inl _ \<Rightarrow> Inl Not_SHA256
        | Inr (tag, r2) \<Rightarrow>
          if tag \<noteq> opSHA256 then Inl Not_SHA256
          else case rd_take 32 r2 of
            Inl e \<Rightarrow> Inl e
          | Inr (digest, r3) \<Rightarrow> (case timestamp H digest 0 r3 of
              Inl e \<Rightarrow> Inl e
            | Inr (t, r4) \<Rightarrow> if length (rd_b r4) \<noteq> 0 then Inl Trailing_bytes else Inr \<lparr>fl_Digest = digest, fl_Stamp = t\<rparr>))"

end
