(* ===== verification/Ots_Client.thy ===== *)
theory Ots_Client
  imports Ots
begin

text \<open>
  The calendar client (\<open>internal/ots/client.go\<close>): submitting a digest, upgrading pending attestations
  and reading a block's time. The network is a parameter: \<open>net n q\<close> is what comes back for the request \<open>q\<close>
  when \<open>n\<close> requests were made before it, \<open>None\<close> when the transport fails. The scheme and host of a URL
  (\<open>net/url\<close>) are a parameter too.
\<close>

datatype request = Post string string | Get string

type_synonym network_io = "nat \<Rightarrow> request \<Rightarrow> (string \<times> nat) option"

datatype client_err = Digest_size | Transport | Answer_too_large | Bad_status nat | Ots_error ots_err | No_calendars
  | Upgraded_too_large | No_explorer | Unexpected_answer | Block_hash_hex | Block_header_hex | Header_hash | Header_root

record Client =
  cl_Calendars :: "string list"
  cl_Explorer :: string
  cl_origin :: "string \<Rightarrow> (string \<times> string) option"

definition MaxResponseBytes :: nat where "MaxResponseBytes = 16 * 1024"

definition client_do :: "network_io \<Rightarrow> nat \<Rightarrow> request \<Rightarrow> client_err + (string \<times> nat)" where
  "client_do net n q = (case net n q of
       None \<Rightarrow> Inl Transport
     | Some (data, status) \<Rightarrow> if length data > MaxResponseBytes then Inl Answer_too_large else Inr (data, status))"

text \<open>\<open>strings.TrimSuffix(s, "/")\<close>\<close>

definition trim_slash :: "string \<Rightarrow> string" where
  "trim_slash s = (if s \<noteq> [] \<and> last s = CHR ''/'' then butlast s else s)"

definition StatusOK :: nat where "StatusOK = 200"

definition StatusNotFound :: nat where "StatusNotFound = 404"

section \<open>Submitting\<close>

text \<open>What one calendar's answer does to the root: the answer is parsed as a timestamp of the digest and merged.\<close>

definition stamp_answer :: "Hashes \<Rightarrow> string \<Rightarrow> client_err + (string \<times> nat) \<Rightarrow> Timestamp \<Rightarrow> Timestamp \<times> client_err option" where
  "stamp_answer H digest ans root = (case ans of
       Inl e \<Rightarrow> (root, Some e)
     | Inr (body, status) \<Rightarrow>
       if status \<noteq> StatusOK then (root, Some (Bad_status status))
       else (case ParseTimestamp H body digest of
           Inl e \<Rightarrow> (root, Some (Ots_error e))
         | Inr t \<Rightarrow> (case Merge root t of (root', e) \<Rightarrow> (root', map_option Ots_error e))))"

fun stamp_calendars :: "Hashes \<Rightarrow> network_io \<Rightarrow> string \<Rightarrow> nat \<Rightarrow> string list \<Rightarrow> Timestamp \<Rightarrow> (string \<times> client_err) list \<Rightarrow> Timestamp \<times> (string \<times> client_err) list" where
  "stamp_calendars H net digest n [] root errs = (root, errs)"
| "stamp_calendars H net digest n (cal # cals) root errs =
     (case stamp_answer H digest (client_do net n (Post (trim_slash cal @ ''/digest'') digest)) root of
        (root', e) \<Rightarrow> stamp_calendars H net digest (Suc n) cals root' (case e of None \<Rightarrow> errs | Some x \<Rightarrow> errs @ [(cal, x)]))"

definition Stamp :: "Hashes \<Rightarrow> network_io \<Rightarrow> Client \<Rightarrow> string \<Rightarrow> File option \<times> (string \<times> client_err) list" where
  "Stamp H net c digest =
     (if length digest \<noteq> 32 then (None, [([], Digest_size)])
      else case stamp_calendars H net digest 0 (cl_Calendars c) (Timestamp digest [] []) [] of
        (root, errs) \<Rightarrow>
        if ts_Attestations root = [] \<and> ts_Branches root = [] then (None, if errs = [] then [([], No_calendars)] else errs)
        else (Some \<lparr>fl_Digest = digest, fl_Stamp = root\<rparr>, errs))"

section \<open>Upgrading\<close>

text \<open>
  The pointers to the timestamps of a tree are positions in it, as branch indices from the root: merging
  below a timestamp adds branches at the end and moves none.
\<close>

primrec Walk_at :: "Timestamp \<Rightarrow> (nat list \<times> Timestamp) list" where
  "Walk_at (Timestamp m as bs) = ([], Timestamp m as bs)
     # concat (map (\<lambda>(i, ws). map (map_prod ((#) i) id) ws) (enumerate 0 (map snd (map (map_prod id Walk_at) bs))))"

fun stamp_at :: "nat list \<Rightarrow> Timestamp \<Rightarrow> Timestamp" where
  "stamp_at [] t = t"
| "stamp_at (i # is) t = (if i < length (ts_Branches t) then stamp_at is (snd (ts_Branches t ! i)) else t)"

fun put_at :: "nat list \<Rightarrow> Timestamp \<Rightarrow> Timestamp \<Rightarrow> Timestamp" where
  "put_at [] s t = s"
| "put_at (i # is) s t =
     (if i < length (ts_Branches t)
      then Timestamp (ts_Msg t) (ts_Attestations t)
             ((ts_Branches t)[i := (fst (ts_Branches t ! i), put_at is s (snd (ts_Branches t ! i)))])
      else t)"

definition pending_at :: "Timestamp \<Rightarrow> nat list list" where
  "pending_at t = map fst (filter (\<lambda>(is, s). list_ex (\<lambda>a. PendingURI a \<noteq> []) (ts_Attestations s)) (Walk_at t))"

definition allowed :: "Client \<Rightarrow> string \<Rightarrow> bool" where
  "allowed c uri = (case cl_origin c uri of None \<Rightarrow> False | Some u \<Rightarrow> list_ex (\<lambda>cal. cl_origin c cal = Some u) (cl_Calendars c))"

record upgrade_state =
  up_requests :: nat
  up_file :: File
  up_changed :: bool
  up_errs :: "(string \<times> client_err) list"

definition upgrade_fail :: "string \<Rightarrow> client_err \<Rightarrow> upgrade_state \<Rightarrow> upgrade_state" where
  "upgrade_fail uri e st = st\<lparr>up_errs := up_errs st @ [(uri, e)]\<rparr>"

text \<open>An answer merged at a position of the tree.\<close>

definition upgrade_merge :: "(Op list \<Rightarrow> nat list) \<Rightarrow> string \<Rightarrow> nat list \<Rightarrow> Timestamp \<Rightarrow> upgrade_state \<Rightarrow> upgrade_state" where
  "upgrade_merge ord uri is up st =
     (let f = up_file st; before = length (File_Bytes ord f) in
      case Merge (stamp_at is (fl_Stamp f)) up of (s, e) \<Rightarrow>
        let f' = f\<lparr>fl_Stamp := put_at is s (fl_Stamp f)\<rparr>; st' = st\<lparr>up_file := f'\<rparr> in
        (case e of
           Some x \<Rightarrow> upgrade_fail uri (Ots_error x) st'
         | None \<Rightarrow> if length (File_Bytes ord f') \<noteq> before then st'\<lparr>up_changed := True\<rparr> else st'))"

definition upgrade_attestation :: "Hashes \<Rightarrow> (Op list \<Rightarrow> nat list) \<Rightarrow> network_io \<Rightarrow> Client \<Rightarrow> nat list \<Rightarrow> upgrade_state \<Rightarrow> Attestation \<Rightarrow> upgrade_state" where
  "upgrade_attestation H ord net c is st a =
     (let uri = PendingURI a; msg = ts_Msg (stamp_at is (fl_Stamp (up_file st))) in
      if uri = [] \<or> \<not> allowed c uri then st
      else let st1 = st\<lparr>up_requests := Suc (up_requests st)\<rparr> in
        case client_do net (up_requests st) (Get (trim_slash uri @ ''/timestamp/'' @ hex_EncodeToString msg)) of
          Inl e \<Rightarrow> upgrade_fail uri e st1
        | Inr (body, status) \<Rightarrow>
          if status = StatusNotFound then st1
          else if status \<noteq> StatusOK then upgrade_fail uri (Bad_status status) st1
          else case ParseTimestamp H body msg of
            Inl e \<Rightarrow> upgrade_fail uri (Ots_error e) st1
          | Inr up \<Rightarrow> upgrade_merge ord uri is up st1)"

definition upgrade_stamp :: "Hashes \<Rightarrow> (Op list \<Rightarrow> nat list) \<Rightarrow> network_io \<Rightarrow> Client \<Rightarrow> upgrade_state \<Rightarrow> nat list \<Rightarrow> upgrade_state" where
  "upgrade_stamp H ord net c st is = foldl (upgrade_attestation H ord net c is) st (ts_Attestations (stamp_at is (fl_Stamp (up_file st))))"

definition Upgrade :: "Hashes \<Rightarrow> (Op list \<Rightarrow> nat list) \<Rightarrow> network_io \<Rightarrow> Client \<Rightarrow> File \<Rightarrow> File \<times> bool \<times> (string \<times> client_err) list" where
  "Upgrade H ord net c f =
     (let st = foldl (upgrade_stamp H ord net c) \<lparr>up_requests = 0, up_file = f, up_changed = False, up_errs = []\<rparr> (pending_at (fl_Stamp f)) in
      if length (File_Bytes ord (up_file st)) > MaxFileBytes then (up_file st, False, [([], Upgraded_too_large)])
      else (up_file st, up_changed st, up_errs st))"

section \<open>A block's time\<close>

text \<open>\<open>utf8.DecodeLastRune\<close> and \<open>bytes.TrimSpace\<close>.\<close>

definition RuneStart :: "char \<Rightarrow> bool" where
  "RuneStart b \<longleftrightarrow> \<not> (128 \<le> byte b \<and> byte b < 192)"

definition decode_last_rune :: "string \<Rightarrow> nat \<times> nat" where
  "decode_last_rune p =
     (let e = length p in
      if e = 0 then (RuneError, 0)
      else if byte (last p) < 128 then (byte (last p), 1)
      else let lim = e - 4;
               start = (case find (\<lambda>i. RuneStart (p ! i)) (rev [lim..<e - 1]) of Some i \<Rightarrow> i | None \<Rightarrow> lim - 1);
               (r, size) = decode_rune (drop start p) in
        if start + size \<noteq> e then (RuneError, 1) else (r, size))"

function trim_left :: "string \<Rightarrow> string" where
  "trim_left s = (if s = [] then [] else let (r, size) = decode_rune s in if IsSpace r then trim_left (drop size s) else s)"
  by pat_completeness auto
termination
  by (relation "measure length") (auto dest!: decode_rune_size simp: prod_eq_iff)

lemma decode_last_pos: "s \<noteq> [] \<Longrightarrow> 0 < snd (decode_last_rune s)"
proof -
  assume s: "s \<noteq> []"
  have dr: "0 < snd (decode_rune (drop n s))" if "n < length s" for n
    using decode_rune_size [of "drop n s"] that by simp
  have st: "(case find (\<lambda>i. RuneStart (s ! i)) (rev [length s - 4..<length s - 1]) of Some i \<Rightarrow> i | None \<Rightarrow> length s - 4 - 1) < length s"
    using s by (auto split: option.splits dest!: find_SomeD)
  show ?thesis using s dr [OF st] by (auto simp: decode_last_rune_def Let_def prod_eq_iff split: prod.splits)
qed

function trim_right :: "string \<Rightarrow> string" where
  "trim_right s = (if s = [] then [] else let (r, size) = decode_last_rune s in if IsSpace r then trim_right (take (length s - size) s) else s)"
  by pat_completeness auto
termination
  by (relation "measure length") (auto intro!: diff_less decode_last_pos simp: prod_eq_iff)

declare trim_left.simps [simp del] trim_right.simps [simp del]

definition TrimSpace :: "string \<Rightarrow> string" where
  "TrimSpace s = trim_right (trim_left s)"

definition explorer_get :: "network_io \<Rightarrow> nat \<Rightarrow> string \<Rightarrow> string \<Rightarrow> nat \<Rightarrow> client_err + string" where
  "explorer_get net n base path len = (case client_do net n (Get (base @ path)) of
       Inl e \<Rightarrow> Inl e
     | Inr (body, status) \<Rightarrow>
       if status \<noteq> StatusOK then Inl (Bad_status status)
       else if length (TrimSpace body) \<noteq> len then Inl Unexpected_answer
       else Inr (TrimSpace body))"

definition le_Uint32 :: "string \<Rightarrow> nat" where
  "le_Uint32 s = byte (s ! 0) + 256 * (byte (s ! 1) + 256 * (byte (s ! 2) + 256 * byte (s ! 3)))"

text \<open>\<open>strings.ToLower\<close> on hexadecimal digits, which \<open>hex.DecodeString\<close> has accepted.\<close>

definition lower_hex :: "string \<Rightarrow> string" where
  "lower_hex s = map (\<lambda>c. if 65 \<le> byte c \<and> byte c \<le> 90 then char_of (byte c + 32) else c) s"

definition BlockTime :: "Hashes \<Rightarrow> network_io \<Rightarrow> Client \<Rightarrow> 64 word \<Rightarrow> string \<Rightarrow> client_err + int" where
  "BlockTime H net c height merkleRoot =
     (if cl_Explorer c = [] then Inl No_explorer
      else let base = trim_slash (cl_Explorer c) in
        case explorer_get net 0 base (''/block-height/'' @ FormatInt (uint height)) 64 of
          Inl e \<Rightarrow> Inl e
        | Inr hash \<Rightarrow> (case hex_DecodeString hash of
            None \<Rightarrow> Inl Block_hash_hex
          | Some _ \<Rightarrow> (case explorer_get net 1 base (''/block/'' @ hash @ ''/header'') 160 of
              Inl e \<Rightarrow> Inl e
            | Inr raw \<Rightarrow> (case hex_DecodeString raw of
                None \<Rightarrow> Inl Block_header_hex
              | Some header \<Rightarrow>
                if hex_EncodeToString (rev (hs_sha256 H (hs_sha256 H header))) \<noteq> lower_hex hash then Inl Header_hash
                else if take 32 (drop 36 header) \<noteq> merkleRoot then Inl Header_root
                else Inr (int (le_Uint32 (take 4 (drop 68 header))))))))"

end
