(* ===== verification/Anchors.thy ===== *)
theory Anchors
  imports Ots_Client
begin

text \<open>
  Anchoring checkpoints (\<open>internal/board/transparency.go\<close>, from \<open>LogAnchor\<close> to \<open>UpgradeAnchors\<close>): each
  signed checkpoint's note is submitted to the calendars, pending proofs are upgraded on a schedule, and the
  times of the blocks that confirm them are kept. Each call to the client gets its own network, and each
  row its own clock reading; the statements of one call are separate transactions, none of which fails.
\<close>

datatype anchor_state = Pending | Confirmed | Stale

record anchorRow =
  an_size :: int
  an_digest :: string
  an_ots :: string
  an_state :: anchor_state
  an_bitcoin_height :: int
  an_calendars :: string
  an_submitted_at :: int
  an_checked_at :: int

record anchor_db =
  ad_log :: log_db
  tlog_anchors :: "anchorRow list"
  meta :: "(string \<times> string) list"

section \<open>Submitting checkpoints\<close>

definition anchorDigest :: "Hashes \<Rightarrow> string \<Rightarrow> string" where
  "anchorDigest H sn = hs_sha256 H sn"

text \<open>\<open>strings.Join(pending, " ")\<close>\<close>

fun join_space :: "string list \<Rightarrow> string" where
  "join_space [] = []"
| "join_space [x] = x"
| "join_space (x # y # xs) = x @ '' '' @ join_space (y # xs)"

text \<open>\<open>INSERT OR IGNORE\<close>: a row with that size stays.\<close>

definition insert_anchor :: "anchorRow \<Rightarrow> anchorRow list \<Rightarrow> anchorRow list" where
  "insert_anchor row rows = (if list_ex (\<lambda>w. an_size w = an_size row) rows then rows else rows @ [row])"

definition unanchored :: "anchor_db \<Rightarrow> nat \<Rightarrow> checkpointRow list" where
  "unanchored db limit = take limit (sort_key (\<lambda>w. - ck_size w)
     (filter (\<lambda>w. \<not> list_ex (\<lambda>a. an_size a = ck_size w) (tlog_anchors db)) (tlog_checkpoints (ad_log db))))"

definition anchor_checkpoint :: "Hashes \<Rightarrow> (Op list \<Rightarrow> nat list) \<Rightarrow> network_io \<Rightarrow> Client \<Rightarrow> int \<Rightarrow> checkpointRow \<Rightarrow> anchorRow list \<Rightarrow> anchorRow list \<times> (string \<times> client_err) list" where
  "anchor_checkpoint H ord net c now w rows =
     (let digest = anchorDigest H (ck_note w) in
      case Stamp H net c digest of (file, failures) \<Rightarrow>
      (case file of
         None \<Rightarrow> rows
       | Some f \<Rightarrow> insert_anchor \<lparr>an_size = ck_size w, an_digest = hex_EncodeToString digest, an_ots = File_Bytes ord f, an_state = Pending,
           an_bitcoin_height = 0, an_calendars = join_space (fst (Status (fl_Stamp f))), an_submitted_at = now, an_checked_at = 0\<rparr> rows,
       failures))"

fun anchor_loop :: "Hashes \<Rightarrow> (Op list \<Rightarrow> nat list) \<Rightarrow> (nat \<Rightarrow> network_io) \<Rightarrow> Client \<Rightarrow> (nat \<Rightarrow> int) \<Rightarrow> nat \<Rightarrow> checkpointRow list \<Rightarrow> anchorRow list \<Rightarrow> (string \<times> client_err) list \<Rightarrow> anchorRow list \<times> (string \<times> client_err) list" where
  "anchor_loop H ord nets c clock n [] rows errs = (rows, errs)"
| "anchor_loop H ord nets c clock n (w # ws) rows errs =
     (case anchor_checkpoint H ord (nets n) c (clock n) w rows of (rows', failures) \<Rightarrow> anchor_loop H ord nets c clock (Suc n) ws rows' (errs @ failures))"

definition AnchorCheckpoints :: "Hashes \<Rightarrow> (Op list \<Rightarrow> nat list) \<Rightarrow> (nat \<Rightarrow> network_io) \<Rightarrow> Client \<Rightarrow> (nat \<Rightarrow> int) \<Rightarrow> nat \<Rightarrow> anchor_db \<Rightarrow> anchor_db \<times> (string \<times> client_err) list" where
  "AnchorCheckpoints H ord nets c clock limit db =
     (case anchor_loop H ord nets c clock 0 (unanchored db limit) (tlog_anchors db) [] of (rows, errs) \<Rightarrow> (db\<lparr>tlog_anchors := rows\<rparr>, errs))"

section \<open>The schedule\<close>

definition anchorFirstCheck :: int where "anchorFirstCheck = 30 * 60"

definition anchorFastUntil :: int where "anchorFastUntil = 3 * 3600"

definition anchorFastEvery :: int where "anchorFastEvery = 10 * 60"

definition anchorSlowUntil :: int where "anchorSlowUntil = 24 * 3600"

definition anchorSlowEvery :: int where "anchorSlowEvery = 30 * 60"

definition anchorIdleEvery :: int where "anchorIdleEvery = 2 * 3600"

definition anchorCheckEarly :: int where "anchorCheckEarly = 60"

definition anchorStaleAfter :: int where "anchorStaleAfter = 14 * 24 * 3600"

definition anchorPendingMax :: nat where "anchorPendingMax = 4096"

lemmas anchor_times = anchorFirstCheck_def anchorFastUntil_def anchorFastEvery_def anchorSlowUntil_def anchorSlowEvery_def
  anchorIdleEvery_def anchorCheckEarly_def anchorStaleAfter_def

definition anchorNextCheck :: "int \<Rightarrow> int \<Rightarrow> int" where
  "anchorNextCheck submitted checked =
     (let nxt = submitted + anchorFirstCheck in
      if checked < submitted then nxt
      else let age = checked - submitted;
               every = (if age < anchorFastUntil then anchorFastEvery else if age < anchorSlowUntil then anchorSlowEvery else anchorIdleEvery) in
        max nxt (checked + every))"

section \<open>Upgrading proofs\<close>

definition mark_stale :: "int \<Rightarrow> anchorRow list \<Rightarrow> anchorRow list" where
  "mark_stale now = upd (\<lambda>a. an_state a = Pending \<and> an_submitted_at a < now - anchorStaleAfter) (an_state_update (\<lambda>_. Stale))"

text \<open>The sizes of the anchors that are due, longest unchecked first.\<close>

definition due_anchors :: "int \<Rightarrow> nat \<Rightarrow> anchorRow list \<Rightarrow> int list" where
  "due_anchors now limit rows =
     take limit (map an_size (filter (\<lambda>a. now \<ge> anchorNextCheck (an_submitted_at a) (an_checked_at a) - anchorCheckEarly)
       (take anchorPendingMax (sort_key (\<lambda>a. (an_checked_at a, an_size a))
         (filter (\<lambda>a. an_state a = Pending \<and> an_submitted_at a \<le> now - anchorFirstCheck + anchorCheckEarly) rows)))))"

definition upgrade_row :: "Hashes \<Rightarrow> (Op list \<Rightarrow> nat list) \<Rightarrow> network_io \<Rightarrow> Client \<Rightarrow> int \<Rightarrow> anchorRow \<Rightarrow> anchorRow \<times> (string \<times> client_err) list" where
  "upgrade_row H ord net c now row = (case ParseFile H (an_ots row) of
       Inl e \<Rightarrow> (row, [([], Ots_error e)])
     | Inr f \<Rightarrow> (case Upgrade H ord net c f of (f', changed, errs) \<Rightarrow>
         let h = snd (Status (fl_Stamp f')) in
         (row\<lparr>an_ots := if changed then File_Bytes ord f' else an_ots row, an_state := if h > 0 then Confirmed else Pending,
              an_bitcoin_height := if h > 0 then sint h else 0, an_checked_at := now\<rparr>, errs)))"

fun upgrade_loop :: "Hashes \<Rightarrow> (Op list \<Rightarrow> nat list) \<Rightarrow> (nat \<Rightarrow> network_io) \<Rightarrow> Client \<Rightarrow> (nat \<Rightarrow> int) \<Rightarrow> nat \<Rightarrow> int list \<Rightarrow> anchorRow list \<Rightarrow> (string \<times> client_err) list \<Rightarrow> anchorRow list \<times> (string \<times> client_err) list" where
  "upgrade_loop H ord nets c clock n [] rows errs = (rows, errs)"
| "upgrade_loop H ord nets c clock n (sz # szs) rows errs =
     (case find (\<lambda>a. an_size a = sz) rows of
        None \<Rightarrow> (rows, errs)
      | Some row \<Rightarrow> (case upgrade_row H ord (nets n) c (clock n) row of (row', e) \<Rightarrow>
          upgrade_loop H ord nets c clock (Suc n) szs (upd (\<lambda>a. an_size a = sz) (\<lambda>_. row') rows) (errs @ e)))"

definition UpgradeAnchors :: "Hashes \<Rightarrow> (Op list \<Rightarrow> nat list) \<Rightarrow> (nat \<Rightarrow> network_io) \<Rightarrow> Client \<Rightarrow> int \<Rightarrow> (nat \<Rightarrow> int) \<Rightarrow> nat \<Rightarrow> anchor_db \<Rightarrow> anchor_db \<times> (string \<times> client_err) list" where
  "UpgradeAnchors H ord nets c now clock limit db =
     (let rows = mark_stale now (tlog_anchors db) in
      case upgrade_loop H ord nets c clock 0 (due_anchors now limit rows) rows [] of (rows', errs) \<Rightarrow> (db\<lparr>tlog_anchors := rows'\<rparr>, errs))"

section \<open>Block times\<close>

definition blockTimeKey :: string where "blockTimeKey = ''btc_block_time:''"

definition block_key :: "int \<Rightarrow> string" where
  "block_key height = blockTimeKey @ FormatInt height"

text \<open>The heights with no time yet, each with its smallest anchor, highest first.\<close>

definition untimed :: "anchor_db \<Rightarrow> nat \<Rightarrow> (int \<times> int) list" where
  "untimed db limit =
     (let as = filter (\<lambda>a. an_state a = Confirmed \<and> an_bitcoin_height a > 0 \<and> map_of (meta db) (block_key (an_bitcoin_height a)) = None) (tlog_anchors db);
          hs = rev (sort (remdups (map an_bitcoin_height as))) in
      take limit (map (\<lambda>h. (h, Min (set (map an_size (filter (\<lambda>a. an_bitcoin_height a = h) as))))) hs))"

datatype fill_err = Fill_ots ots_err | No_attestation | Fill_client client_err

definition block_time_of :: "Hashes \<Rightarrow> network_io \<Rightarrow> Client \<Rightarrow> int \<Rightarrow> string \<Rightarrow> fill_err + int" where
  "block_time_of H net c height raw = (case ParseFile H raw of
       Inl e \<Rightarrow> Inl (Fill_ots e)
     | Inr f \<Rightarrow> (case BitcoinRoot (word_of_int height) (fl_Stamp f) of
         None \<Rightarrow> Inl No_attestation
       | Some root \<Rightarrow> (case BlockTime H net c (word_of_int height) root of Inl e \<Rightarrow> Inl (Fill_client e) | Inr at \<Rightarrow> Inr at)))"

fun fill_loop :: "Hashes \<Rightarrow> (nat \<Rightarrow> network_io) \<Rightarrow> Client \<Rightarrow> anchorRow list \<Rightarrow> nat \<Rightarrow> (int \<times> int) list \<Rightarrow> (string \<times> string) list \<Rightarrow> fill_err list \<Rightarrow> (string \<times> string) list \<times> fill_err list" where
  "fill_loop H nets c rows n [] mt errs = (mt, errs)"
| "fill_loop H nets c rows n ((h, sz) # todo) mt errs =
     (case find (\<lambda>a. an_size a = sz) rows of
        None \<Rightarrow> (mt, errs)
      | Some row \<Rightarrow> (case block_time_of H (nets n) c h (an_ots row) of
          Inl e \<Rightarrow> fill_loop H nets c rows (Suc n) todo mt (errs @ [e])
        | Inr at \<Rightarrow> fill_loop H nets c rows (Suc n) todo (if map_of mt (block_key h) = None then mt @ [(block_key h, FormatInt at)] else mt) errs))"

definition FillBlockTimes :: "Hashes \<Rightarrow> (nat \<Rightarrow> network_io) \<Rightarrow> Client \<Rightarrow> nat \<Rightarrow> anchor_db \<Rightarrow> anchor_db \<times> fill_err list" where
  "FillBlockTimes H nets c limit db =
     (if cl_Explorer c = [] then (db, [])
      else case fill_loop H nets c (tlog_anchors db) 0 (untimed db limit) (meta db) [] of (mt, errs) \<Rightarrow> (db\<lparr>meta := mt\<rparr>, errs))"

section \<open>Reading anchors\<close>

record LogAnchor =
  la_Size :: int
  la_Digest :: string
  la_State :: anchor_state
  la_BitcoinHeight :: int
  la_Calendars :: "string list"
  la_CheckpointAt :: int
  la_SubmittedAt :: int
  la_CheckedAt :: int
  la_ConfirmedAt :: int
  la_BlockTime :: int
  la_Explorer :: string
  la_NextCheckAt :: int
  la_OTS :: string
  la_Note :: string

text \<open>\<open>strings.Fields\<close>\<close>

function fields_loop :: "string \<Rightarrow> string \<Rightarrow> string list" where
  "fields_loop cur s =
     (if s = [] then (if cur = [] then [] else [cur])
      else let (r, size) = decode_rune s in
        if IsSpace r then (if cur = [] then [] else [cur]) @ fields_loop [] (drop size s)
        else fields_loop (cur @ take size s) (drop size s))"
  by pat_completeness auto
termination
  by (relation "measure (\<lambda>(cur, s). length s)") (auto dest!: decode_rune_size simp: prod_eq_iff)

declare fields_loop.simps [simp del]

definition ExplorerBlockURL :: string where "ExplorerBlockURL = ''https://mempool.space/block/''"

text \<open>\<open>anchorColumns\<close> and \<open>scanAnchor\<close>; the values of \<open>meta\<close> are decimals the code wrote.\<close>

definition scanAnchor :: "anchor_db \<Rightarrow> anchorRow \<Rightarrow> LogAnchor" where
  "scanAnchor db a =
     \<lparr>la_Size = an_size a, la_Digest = an_digest a, la_State = an_state a, la_BitcoinHeight = an_bitcoin_height a,
      la_Calendars = fields_loop [] (an_calendars a),
      la_CheckpointAt = (case find (\<lambda>w. ck_size w = an_size a) (tlog_checkpoints (ad_log db)) of None \<Rightarrow> 0 | Some w \<Rightarrow> ck_created_at w),
      la_SubmittedAt = an_submitted_at a, la_CheckedAt = an_checked_at a,
      la_ConfirmedAt = (if an_state a = Confirmed then an_checked_at a else 0),
      la_BlockTime = (case map_of (meta db) (block_key (an_bitcoin_height a)) of None \<Rightarrow> 0 | Some v \<Rightarrow> (case ParseInt v of None \<Rightarrow> 0 | Some t \<Rightarrow> t)),
      la_Explorer = (if an_state a = Confirmed \<and> an_bitcoin_height a > 0 then ExplorerBlockURL @ FormatInt (an_bitcoin_height a) else []),
      la_NextCheckAt = (if an_state a = Pending then anchorNextCheck (an_submitted_at a) (an_checked_at a) else 0),
      la_OTS = ''/api/log/anchors/'' @ FormatInt (an_size a) @ ''.ots'',
      la_Note = ''/api/log/checkpoint/note?size='' @ FormatInt (an_size a)\<rparr>"

definition ReadLogAnchors :: "int \<Rightarrow> int \<Rightarrow> anchor_db \<Rightarrow> LogAnchor list" where
  "ReadLogAnchors before limit db =
     (let before' = (if before \<le> 0 then 2 ^ 62 else before); limit' = (if limit \<le> 0 \<or> limit > LogPageMax then 100 else limit) in
      map (scanAnchor db) (take (nat limit') (sort_key (\<lambda>a. - an_size a) (filter (\<lambda>a. an_size a < before') (tlog_anchors db)))))"

definition leafAnchor :: "int \<Rightarrow> anchor_db \<Rightarrow> LogAnchor option" where
  "leafAnchor index db = (case sort_key an_size (filter (\<lambda>a. an_size a > index \<and> an_state a \<noteq> Stale) (tlog_anchors db)) of
       [] \<Rightarrow> None | a # _ \<Rightarrow> Some (scanAnchor db a))"

definition ReadLogAnchorFile :: "int \<Rightarrow> anchor_db \<Rightarrow> logerr + string" where
  "ReadLogAnchorFile sz db = (case find (\<lambda>a. an_size a = sz) (tlog_anchors db) of
       None \<Rightarrow> Inl (Problem 404 ''not_found'') | Some a \<Rightarrow> Inr (an_ots a))"

section \<open>One tick\<close>

definition anchorTick :: "Hashes \<Rightarrow> (Op list \<Rightarrow> nat list) \<Rightarrow> (nat \<Rightarrow> nat \<Rightarrow> network_io) \<Rightarrow> Client \<Rightarrow> int \<Rightarrow> (nat \<Rightarrow> nat \<Rightarrow> int) \<Rightarrow> nat \<Rightarrow> anchor_db \<Rightarrow> anchor_db" where
  "anchorTick H ord nets c now clock submit db =
     (let db1 = fst (AnchorCheckpoints H ord (nets 0) c (clock 0) submit db);
          db2 = fst (UpgradeAnchors H ord (nets 1) c now (clock 1) 12 db1) in
      fst (FillBlockTimes H (nets 2) c 4 db2))"

end
