(* ===== verification/Ots_Spec.thy ===== *)
theory Ots_Spec
  imports Ots "HOL-Library.Multiset"
begin

unbundle bit_operations_syntax

text \<open>
  What the parser of \<open>Ots\<close> accepts and the writer writes. A genuine timestamp is one the parser can
  return: every branch's message is its operation's result. Parsing returns genuine trees within the
  bounds; writing one and parsing it again gives the same tree with its items in the writer's order.
\<close>

section \<open>Variable-length numbers\<close>

lemma unat_byte [simp]: "unat (word_of_nat (byte c) :: 64 word) = byte c"
proof -
  have "byte c < 2 ^ 64" by (rule order_less_trans [OF byte_less]) simp
  then show ?thesis by (simp only: unat_of_nat len_of_numeral_defs mod_less) simp
qed

lemma word_of_nat_unat: "word_of_nat (unat w) = (w :: 64 word)"
  by simp

lemma and_7F: "(word_of_nat (byte c) :: 64 word) AND 0x7F = word_of_nat (byte c mod 128)"
proof -
  have "byte c AND 0x7F = byte c mod 128"
    by (simp add: take_bit_eq_mod [of 7, symmetric, simplified] take_bit_eq_mask mask_eq_exp_minus_1)
  moreover have "unat (word_of_nat (byte c mod 128) :: 64 word) = byte c mod 128"
    by (subst unat_of_nat) (simp add: mod_mod_cancel)
  ultimately show ?thesis
    by (simp add: word_unat_eq_iff unsigned_and_eq)
qed

lemma and_80: "(word_of_nat (byte c) :: 64 word) AND 0x80 = 0 \<longleftrightarrow> byte c < 128"
proof -
  have "byte c AND 2 ^ 7 = 0 \<longleftrightarrow> \<not> bit (byte c) 7"
    by (simp only: bit_iff_and_push_bit_not_eq_0 push_bit_eq_mult mult_1 not_not)
  also have "\<dots> \<longleftrightarrow> byte c < 128"
  proof
    assume "\<not> bit (byte c) 7"
    then have "even (byte c div 128)" by (simp add: bit_iff_odd)
    moreover have "byte c div 128 < 2" using byte_less [of c] by (simp add: less_mult_imp_div_less)
    ultimately have "byte c div 128 = 0" by (cases "byte c div 128") (auto simp: less_Suc_eq)
    then show "byte c < 128" by simp
  qed (simp add: bit_iff_odd)
  finally show ?thesis
    by (simp add: word_unat_eq_iff unsigned_and_eq)
qed

lemma or_push:
  fixes v :: "64 word"
  assumes "unat v < 2 ^ shift" "m < 128" "m * 2 ^ shift + unat v < 2 ^ 64"
  shows "unat (v OR push_bit shift (word_of_nat m)) = m * 2 ^ shift + unat v"
proof -
  have "unat v = take_bit shift (unat v)" using assms(1) by (simp add: take_bit_nat_eq_self)
  then have d: "unat v AND push_bit shift m = 0"
    by (metis (no_types, opaque_lifting) bit_and_iff bit_eq_iff bit_push_bit_iff_nat bit_take_bit_iff bit_0_eq bot_apply bot_bool_def not_le)
  have p: "unat (push_bit shift (word_of_nat m) :: 64 word) = push_bit shift m"
  proof -
    have "push_bit shift (word_of_nat m) = (word_of_nat (m * 2 ^ shift) :: 64 word)" by (simp add: push_bit_eq_mult)
    then show ?thesis using assms(3) by (simp only: unat_of_nat push_bit_eq_mult) simp
  qed
  have "unat (v OR push_bit shift (word_of_nat m)) = unat v OR push_bit shift m"
    by (simp add: unsigned_or_eq p)
  also have "\<dots> = unat v + push_bit shift m"
    using d by (simp add: disjunctive_add_eq_or)
  finally show ?thesis by (simp add: push_bit_eq_mult)
qed

text \<open>A written number reads back, and no reading takes fewer bytes than writing its value does.\<close>

lemma put_varuint_or: "n mod 256 OR 0x80 = n mod 128 + (128::nat)"
proof -
  have "n mod 256 OR 0x80 = n mod 128 OR 0x80"
  proof (rule bit_eqI)
    fix i
    have *: "(256::nat) = 2 ^ 8" "(128::nat) = 2 ^ 7" by simp_all
    show "bit (n mod 256 OR 0x80) i = bit (n mod 128 OR (0x80::nat)) i"
      unfolding * by (simp only: bit_or_iff bit_take_bit_iff take_bit_eq_mod [symmetric] bit_exp_iff) auto
  qed
  also have "\<dots> = n mod 128 + 128"
  proof -
    have "n mod 128 AND (128::nat) = 0"
    proof (rule bit_eqI)
      fix i
      have *: "(128::nat) = 2 ^ 7" by simp
      show "bit (n mod 128 AND (128::nat)) i = bit (0::nat) i"
        unfolding * by (simp only: bit_and_iff bit_take_bit_iff take_bit_eq_mod [symmetric] bit_exp_iff) auto
    qed
    then show ?thesis by (simp add: disjunctive_add_eq_or)
  qed
  finally show ?thesis .
qed

lemma put_varuint_small: "n < 128 \<Longrightarrow> put_varuint n = [char_of n]"
  by (simp add: put_varuint.simps)

lemma put_varuint_big: "128 \<le> n \<Longrightarrow> put_varuint n = char_of (n mod 128 + 128) # put_varuint (n div 128)"
  by (subst put_varuint.simps) (simp add: put_varuint_or drop_bit_eq_div)

lemma varuint_loop_byte:
  "shift < 64 \<Longrightarrow> rd_b r = c # b \<Longrightarrow> varuint_loop shift v r =
     (let v' = v OR push_bit shift (word_of_nat (byte c mod 128)) in
      if byte c < 128 then Inr (v', r\<lparr>rd_b := b\<rparr>) else varuint_loop (shift + 7) v' (r\<lparr>rd_b := b\<rparr>))"
  by (subst varuint_loop.simps) (simp add: rd_byte_def and_7F and_80)

lemma varuint_loop_put:
  "unat v < 2 ^ shift \<Longrightarrow> n * 2 ^ shift + unat v < 2 ^ 64 \<Longrightarrow> shift < 64 \<Longrightarrow> rd_b r = put_varuint n @ b \<Longrightarrow>
   varuint_loop shift v r = Inr (word_of_nat (n * 2 ^ shift + unat v), r\<lparr>rd_b := b\<rparr>)"
proof (induction n arbitrary: shift v r rule: less_induct)
  case (less n)
  show ?case
  proof (cases "n < 128")
    case True
    then have "unat (v OR push_bit shift (word_of_nat n)) = n * 2 ^ shift + unat v"
      using less.prems by (intro or_push) auto
    then have "v OR push_bit shift (word_of_nat n) = word_of_nat (n * 2 ^ shift + unat v)"
      by (metis word_of_nat_unat)
    with True show ?thesis
      using varuint_loop_byte [OF less.prems(3), of r "char_of n" b v] less.prems(4)
      by (simp add: put_varuint_small byte_char_of)
  next
    case False
    let ?m = "n mod 128" and ?q = "n div 128"
    have n: "n = ?q * 128 + ?m" by simp
    have m: "?m * 2 ^ shift + unat v < 2 ^ 64"
      using less.prems(2) by (rule order_le_less_trans [rotated]) (simp add: mult_le_mono1)
    have vv: "unat (v OR push_bit shift (word_of_nat ?m)) = ?m * 2 ^ shift + unat v"
      using less.prems(1) m by (intro or_push) auto
    have lt: "unat (v OR push_bit shift (word_of_nat ?m)) < 2 ^ (shift + 7)"
    proof -
      have "?m * 2 ^ shift + unat v < (?m + 1) * 2 ^ shift" using less.prems(1) by simp
      also have "\<dots> \<le> 128 * 2 ^ shift"
        by (rule mult_le_mono1) (metis Suc_eq_plus1 Suc_leI mod_less_divisor zero_less_numeral)
      finally show ?thesis by (simp add: vv power_add)
    qed
    have eq: "?q * 2 ^ (shift + 7) + (?m * 2 ^ shift + unat v) = n * 2 ^ shift + unat v"
    proof -
      have "n * 2 ^ shift = (?q * 128 + ?m) * 2 ^ shift" using n by (rule arg_cong)
      also have "\<dots> = ?q * 2 ^ (shift + 7) + ?m * 2 ^ shift" by (simp only: power_add distrib_right) simp
      finally show ?thesis by (simp only: add.assoc)
    qed
    have sh: "shift + 7 < 64"
    proof (rule ccontr)
      assume "\<not> ?thesis"
      then have "(2::nat) ^ 57 \<le> 2 ^ shift" by (intro power_increasing) auto
      then have "128 * 2 ^ 57 \<le> n * 2 ^ shift" using False by (intro mult_le_mono) auto
      then show False using less.prems(2) by simp
    qed
    have "varuint_loop shift v r = varuint_loop (shift + 7) (v OR push_bit shift (word_of_nat ?m)) (r\<lparr>rd_b := put_varuint ?q @ b\<rparr>)"
      using varuint_loop_byte [OF less.prems(3), of r "char_of (?m + 128)" "put_varuint ?q @ b" v] less.prems(4) False
      by (simp add: put_varuint_big byte_char_of)
    also have "\<dots> = Inr (word_of_nat (n * 2 ^ shift + unat v), r\<lparr>rd_b := b\<rparr>)"
      using less.IH [of ?q "v OR push_bit shift (word_of_nat ?m)" "shift + 7" "r\<lparr>rd_b := put_varuint ?q @ b\<rparr>"] False lt sh less.prems(2)
      by (simp only: vv eq) simp
    finally show ?thesis .
  qed
qed

lemma varuint_put: "n < 2 ^ 64 \<Longrightarrow> varuint \<lparr>rd_b = put_varuint n @ b, rd_budget = k\<rparr> = Inr (word_of_nat n, \<lparr>rd_b = b, rd_budget = k\<rparr>)"
  using varuint_loop_put [of 0 0 n "\<lparr>rd_b = put_varuint n @ b, rd_budget = k\<rparr>" b] by (simp add: varuint_def)

lemma or_push_less:
  fixes v :: "64 word"
  assumes "unat v < 2 ^ shift" "m < 128"
  shows "unat (v OR push_bit shift (word_of_nat m)) < 2 ^ (shift + 7)"
proof (cases "shift + 7 \<le> 64")
  case True
  have lt: "m * 2 ^ shift + unat v < 2 ^ (shift + 7)"
  proof -
    have "m * 2 ^ shift + unat v < (m + 1) * 2 ^ shift" using assms(1) by simp
    also have "\<dots> \<le> 128 * 2 ^ shift" using assms(2) by (intro mult_le_mono1) simp
    finally show ?thesis by (simp add: power_add)
  qed
  also have "(2::nat) ^ (shift + 7) \<le> 2 ^ 64" using True by (intro power_increasing) auto
  finally show ?thesis using or_push [OF assms] lt by simp
next
  case False
  have "unat (v OR push_bit shift (word_of_nat m)) < 2 ^ 64" using unsigned_less [where 'b = 64 and 'a = nat] by simp
  also have "(2::nat) ^ 64 \<le> 2 ^ (shift + 7)" using False by (intro power_increasing) auto
  finally show ?thesis .
qed

lemma varuint_loop_read:
  "varuint_loop shift v r = Inr (n, r') \<Longrightarrow> unat v < 2 ^ shift \<Longrightarrow>
   \<exists>k\<ge>1. length (rd_b r) = length (rd_b r') + k \<and> unat n < 2 ^ (shift + 7 * k) \<and> rd_budget r' = rd_budget r"
proof (induction shift v r rule: varuint_loop.induct)
  case (1 shift v r)
  have sh: "shift < 64" and "rd_b r \<noteq> []"
    using 1(2) by (auto simp: varuint_loop.simps [of shift v r] rd_byte_def split: if_splits list.splits)
  then obtain c b where b: "rd_b r = c # b" by (cases "rd_b r") auto
  let ?v = "v OR push_bit shift (word_of_nat (byte c mod 128))"
  have small: "unat ?v < 2 ^ (shift + 7)" using 1(3) by (rule or_push_less) simp
  show ?case
  proof (cases "byte c < 128")
    case True
    then show ?thesis using 1(2) small b by (intro exI [of _ 1]) (auto simp: varuint_loop_byte [OF sh b])
  next
    case False
    then have "varuint_loop (shift + 7) ?v (r\<lparr>rd_b := b\<rparr>) = Inr (n, r')" using 1(2) by (simp add: varuint_loop_byte [OF sh b] Let_def)
    moreover have "rd_byte r = Inr (c, r\<lparr>rd_b := b\<rparr>)" by (simp add: rd_byte_def b)
    ultimately obtain k where "k \<ge> 1" "length b = length (rd_b r') + k" "unat n < 2 ^ (shift + 7 + 7 * k)" "rd_budget r' = rd_budget r"
      using 1(1) [OF sh _ refl refl] False small by (auto simp: and_7F and_80)
    then show ?thesis using b by (intro exI [of _ "Suc k"]) (auto simp: algebra_simps)
  qed
qed

lemma length_put_varuint: "n < 2 ^ (7 * k) \<Longrightarrow> 1 \<le> k \<Longrightarrow> length (put_varuint n) \<le> k"
proof (induction k arbitrary: n)
  case (Suc k)
  show ?case
  proof (cases "n < 128")
    case False
    then have "k \<noteq> 0" using Suc.prems by (cases k) auto
    moreover have "n div 128 < 2 ^ (7 * k)" using Suc.prems by (simp add: power_add less_mult_imp_div_less mult.commute)
    ultimately show ?thesis using Suc.IH [of "n div 128"] False by (simp add: put_varuint_big)
  qed (simp add: put_varuint_small)
qed simp

lemma varbytes_write:
  "length x \<le> mx \<Longrightarrow> mx < 2 ^ 63 \<Longrightarrow>
   varbytes mx \<lparr>rd_b = writeVarbytes x @ b, rd_budget = k\<rparr> = Inr (x, \<lparr>rd_b = b, rd_budget = k\<rparr>)"
  by (auto simp: varbytes_def writeVarbytes_def varuint_put rd_take_def word_less_nat_alt unat_of_nat)

lemma varbytes_read:
  assumes "varbytes mx r = Inr (x, r')" "mx < 2 ^ 63"
  shows "length x \<le> mx \<and> length (rd_b r') + length (writeVarbytes x) \<le> length (rd_b r) \<and> rd_budget r' = rd_budget r"
proof -
  from assms(1) obtain n r1 where r1: "varuint r = Inr (n, r1)" "\<not> n > word_of_nat mx" "rd_take (unat n) r1 = Inr (x, r')"
    by (auto simp: varbytes_def split: sum.splits if_splits)
  from r1(1) obtain k where k: "k \<ge> 1" "length (rd_b r) = length (rd_b r1) + k" "unat n < 2 ^ (7 * k)" "rd_budget r1 = rd_budget r"
    using varuint_loop_read [of 0 0 r n r1] by (auto simp: varuint_def)
  from r1(3) have t: "length (rd_b r1) = length x + length (rd_b r')" "length x = unat n" "rd_budget r' = rd_budget r1"
    by (auto simp: rd_take_def split: if_splits)
  have "length (put_varuint (length x)) \<le> k" using k t by (intro length_put_varuint) simp_all
  moreover have "unat n \<le> mx" using r1(2) assms(2) by (simp add: not_less word_le_nat_alt unat_of_nat)
  ultimately show ?thesis using k t by (simp add: writeVarbytes_def)
qed

section \<open>Genuine timestamps\<close>

definition good_attestation :: "Attestation \<Rightarrow> bool" where
  "good_attestation a \<longleftrightarrow> length (at_Tag a) = 8 \<and> length (at_Payload a) \<le> 8192
     \<and> (at_Tag a = TagPending \<longrightarrow> PendingURI a \<noteq> [] \<and> validURI (PendingURI a))"

definition good_op :: "Op \<Rightarrow> bool" where
  "good_op o' \<longleftrightarrow> (if op_Tag o' = opAppend \<or> op_Tag o' = opPrepend then op_Arg o' \<noteq> [] \<and> length (op_Arg o') \<le> maxOpBytes else op_Arg o' = [])"

lemma stamp_induct [case_names Timestamp]:
  assumes "\<And>m as bs. (\<And>o' s. (o', s) \<in> set bs \<Longrightarrow> P s) \<Longrightarrow> P (Timestamp m as bs)"
  shows "P t"
  by (induction t) (force intro: assms)

text \<open>The operations and attestations are ones the parser reads, and each branch's message is its operation's result.\<close>

primrec genuine :: "Hashes \<Rightarrow> Timestamp \<Rightarrow> bool" where
  "genuine H (Timestamp m as bs) \<longleftrightarrow> (as \<noteq> [] \<or> bs \<noteq> []) \<and> (\<forall>a\<in>set as. good_attestation a)
     \<and> (\<forall>(o', s)\<in>set bs. good_op o' \<and> Apply H o' m = Inr (ts_Msg s)) \<and> (\<forall>g\<in>set (map snd (map (map_prod id (genuine H)) bs)). g)"

lemma genuine_iff: "genuine H (Timestamp m as bs) \<longleftrightarrow> (as \<noteq> [] \<or> bs \<noteq> []) \<and> (\<forall>a\<in>set as. good_attestation a)
     \<and> (\<forall>(o', s)\<in>set bs. good_op o' \<and> Apply H o' m = Inr (ts_Msg s) \<and> genuine H s)"
  by (force simp: case_prod_beta)

text \<open>How many operations deep it goes, the bytes of its computed messages, and one more than its written length.\<close>

primrec depth_of :: "Timestamp \<Rightarrow> nat" where
  "depth_of (Timestamp m as bs) = foldr max (map (Suc o snd) (map (map_prod id depth_of) bs)) 0"

primrec weight :: "Timestamp \<Rightarrow> nat" where
  "weight (Timestamp m as bs) = sum_list (map (\<lambda>(o', s). length (ts_Msg s)) bs) + sum_list (map snd (map (map_prod id weight) bs))"

primrec span :: "Timestamp \<Rightarrow> nat" where
  "span (Timestamp m as bs) = sum_list (map (\<lambda>a. Suc (length (write_attestation a))) as)
     + sum_list (map (\<lambda>(o', n). length (write_op o') + n) (map (map_prod id span) bs))"

lemma foldr_max_le: "foldr max xs (0::nat) \<le> n \<longleftrightarrow> (\<forall>x\<in>set xs. x \<le> n)"
  by (induction xs) auto

lemma depth_of_le: "depth_of (Timestamp m as bs) \<le> n \<longleftrightarrow> (\<forall>(o', s)\<in>set bs. Suc (depth_of s) \<le> n)"
  by (force simp: foldr_max_le)

abbreviation branch_weight :: "Op \<times> Timestamp \<Rightarrow> nat" where
  "branch_weight b \<equiv> length (ts_Msg (snd b)) + weight (snd b)"

abbreviation branch_span :: "Op \<times> Timestamp \<Rightarrow> nat" where
  "branch_span b \<equiv> length (write_op (fst b)) + span (snd b)"

lemma weight_sum: "weight (Timestamp m as bs) = sum_list (map branch_weight bs)"
  by (induction bs) (auto simp: case_prod_beta)

lemma span_sum: "span (Timestamp m as bs) = sum_list (map (\<lambda>a. Suc (length (write_attestation a))) as) + sum_list (map branch_span bs)"
  by (induction bs) (auto simp: case_prod_beta)

declare genuine.simps [simp del] depth_of.simps [simp del] weight.simps [simp del] span.simps [simp del]

section \<open>Parsing is sound\<close>

lemma rd_take_budget: "rd_take n r = Inr (b, r') \<Longrightarrow> rd_budget r' = rd_budget r"
  by (auto simp: rd_take_def split: if_splits)

lemma read_attestation_sound:
  assumes "read_attestation r = Inr (a, r')"
  shows "good_attestation a \<and> length (rd_b r') + length (write_attestation a) \<le> Suc (length (rd_b r)) \<and> rd_budget r' = rd_budget r"
proof -
  from assms obtain r1 where r1: "rd_take 8 r = Inr (at_Tag a, r1)" "varbytes 8192 r1 = Inr (at_Payload a, r')"
    and p: "\<not> (at_Tag a = TagPending \<and> (PendingURI a = [] \<or> \<not> validURI (PendingURI a)))"
    by (auto simp: read_attestation_def Let_def split: sum.splits if_splits)
  then show ?thesis
    using varbytes_read [OF r1(2)] rd_take_le [OF r1(1)] rd_take_budget [OF r1(1)]
    by (auto simp: good_attestation_def write_attestation_def)
qed

lemma read_op_sound:
  assumes "read_op H msg tag r = Inr (o', nxt, r')" "tag \<noteq> CHR 0x00"
  shows "good_op o' \<and> Apply H o' msg = Inr nxt \<and> length (rd_b r') + length (write_op o') \<le> Suc (length (rd_b r))
     \<and> rd_budget r' = rd_budget r + length nxt \<and> rd_budget r' \<le> msgBudget"
proof -
  from assms obtain r1 where r1: "read_arg tag r = Inr (op_Arg o', r1)" "op_Tag o' = tag" "Apply H o' msg = Inr nxt"
    "r' = r1\<lparr>rd_budget := rd_budget r1 + length nxt\<rparr>" "rd_budget r' \<le> msgBudget"
    by (auto simp: read_op_def Let_def split: sum.splits if_splits)
  then show ?thesis
    by (auto simp: read_arg_def good_op_def write_op_def maxOpBytes_def split: sum.splits if_splits dest!: varbytes_read)
qed

text \<open>What one call of the loop adds to the items it has.\<close>

definition parsed :: "Hashes \<Rightarrow> nat \<Rightarrow> string \<Rightarrow> Attestation list \<Rightarrow> (Op \<times> Timestamp) list \<Rightarrow> reader \<Rightarrow> reader \<Rightarrow> bool" where
  "parsed H depth msg as bs r r' \<longleftrightarrow> genuine H (Timestamp msg as bs) \<and> depth + depth_of (Timestamp msg as bs) \<le> MaxDepth
     \<and> rd_budget r' = rd_budget r + weight (Timestamp msg as bs) \<and> (rd_budget r \<le> msgBudget \<longrightarrow> rd_budget r' \<le> msgBudget)
     \<and> length (rd_b r') + span (Timestamp msg as bs) \<le> Suc (length (rd_b r))"

lemma read_tag_sound: "read_tag r = Inr (follows, tag, r1) \<Longrightarrow> rd_budget r1 = rd_budget r \<and> Suc (length (rd_b r1) + of_bool follows) = length (rd_b r)"
  by (auto simp: read_tag_def rd_byte_def split: list.splits sum.splits if_splits)

lemma parsed_attestation_Cons:
  "good_attestation a \<Longrightarrow> length (rd_b r2) + length (write_attestation a) \<le> Suc (length (rd_b r1)) \<Longrightarrow> rd_budget r2 = rd_budget r \<Longrightarrow>
   Suc (Suc (length (rd_b r1))) \<le> length (rd_b r) \<Longrightarrow> parsed H depth msg as bs r2 r' \<Longrightarrow> parsed H depth msg (a # as) bs r r'"
  by (auto simp: parsed_def genuine_iff weight_sum span_sum depth_of.simps)

lemma parsed_attestation_last:
  "good_attestation a \<Longrightarrow> length (rd_b r') + length (write_attestation a) \<le> Suc (length (rd_b r1)) \<Longrightarrow> rd_budget r' = rd_budget r \<Longrightarrow>
   Suc (length (rd_b r1)) \<le> length (rd_b r) \<Longrightarrow> depth \<le> MaxDepth \<Longrightarrow> parsed H depth msg [a] [] r r'"
  by (auto simp: parsed_def genuine_iff weight_sum span_sum depth_of.simps)

lemma parsed_branch:
  assumes "good_op o'" "Apply H o' msg = Inr nxt" "length (rd_b r2) + length (write_op o') \<le> Suc (length (rd_b r1))"
    "rd_budget r2 = rd_budget r + length nxt" "rd_budget r2 \<le> msgBudget" "parsed H (depth + 1) nxt as' bs' r2 r3"
  shows "Suc (length (rd_b r1)) \<le> length (rd_b r) \<Longrightarrow> parsed H depth msg [] [(o', Timestamp nxt as' bs')] r r3"
    and "Suc (Suc (length (rd_b r1))) \<le> length (rd_b r) \<Longrightarrow> parsed H depth msg as bs r3 r' \<Longrightarrow>
      parsed H depth msg as ((o', Timestamp nxt as' bs') # bs) r r'"
  using assms by (auto simp: parsed_def genuine_iff [of H msg] weight_sum [of msg] span_sum [of msg] depth_of.simps [of msg])

lemma stamp_items_sound:
  "stamp_items H depth msg as bs r = Inr (t, r') \<Longrightarrow> depth \<le> MaxDepth \<Longrightarrow>
   \<exists>as' bs'. t = Timestamp msg (as @ as') (bs @ bs') \<and> parsed H depth msg as' bs' r r'"
proof (induction H depth msg as bs r arbitrary: t r' rule: stamp_items.induct)
  case (1 H depth msg as bs r)
  from 1(4) obtain follows tag r1 where rt: "read_tag r = Inr (follows, tag, r1)"
    unfolding stamp_items.simps [of H depth msg as bs r] by (auto split: sum.splits)
  note tag = read_tag_sound [OF rt]
  note body = 1(4) [unfolded stamp_items.simps [of H depth msg as bs r] rt, simplified]
  show ?case
  proof (cases "tag = CHR 0x00")
    case True
    with body obtain a r2 where ra: "read_attestation r1 = Inr (a, r2)" by (auto split: sum.splits)
    note a = read_attestation_sound [OF ra]
    show ?thesis
    proof (cases follows)
      case True
      then obtain as' bs' where "t = Timestamp msg ((as @ [a]) @ as') (bs @ bs')" "parsed H depth msg as' bs' r2 r'"
        using body \<open>tag = _\<close> ra 1(1) [OF rt refl refl \<open>tag = _\<close> ra refl] 1(5) by auto
      then show ?thesis
        using a tag True by (intro exI [of _ "a # as'"] exI [of _ bs']) (auto intro!: parsed_attestation_Cons [of _ _ r1])
    next
      case False
      then show ?thesis
        using body \<open>tag = _\<close> ra a tag 1(5) by (intro exI [of _ "[a]"] exI [of _ "[]"]) (auto intro!: parsed_attestation_last [of _ _ r1])
    qed
  next
    case False
    with body obtain o' nxt r2 where ro: "read_op H msg tag r1 = Inr (o', nxt, r2)" by (auto split: sum.splits)
    with body False have d: "\<not> MaxDepth < depth + 1" by (auto split: if_splits)
    with body False ro obtain st r3 where st: "stamp_items H (depth + 1) nxt [] [] r2 = Inr (st, r3)" by (auto split: sum.splits)
    note o' = read_op_sound [OF ro False]
    from 1(2) [OF rt refl refl False ro refl refl d st] d obtain as1 bs1
      where sub: "st = Timestamp nxt as1 bs1" "parsed H (depth + 1) nxt as1 bs1 r2 r3" by auto
    show ?thesis
    proof (cases follows)
      case True
      then obtain as' bs' where "t = Timestamp msg (as @ as') ((bs @ [(o', st)]) @ bs')" "parsed H depth msg as' bs' r3 r'"
        using body False ro d st 1(3) [OF rt refl refl False ro refl refl d st refl] 1(5) by auto
      then show ?thesis
        using o' tag True sub by (intro exI [of _ as'] exI [of _ "(o', st) # bs'"]) (auto intro!: parsed_branch(2) [of o' H msg nxt r2 r1])
    next
      case False
      then show ?thesis
        using body \<open>tag \<noteq> _\<close> ro d st o' tag sub by (intro exI [of _ "[]"] exI [of _ "[(o', st)]"]) (auto intro!: parsed_branch(1) [of o' H msg nxt r2 r1])
    qed
  qed
qed

section \<open>What is written parses\<close>

primrec reorder :: "(Op list \<Rightarrow> nat list) \<Rightarrow> Timestamp \<Rightarrow> Timestamp" where
  "reorder ord (Timestamp m as bs) =
     Timestamp m (sort_attestations as) (pick (ord (map fst bs)) (map (map_prod id (reorder ord)) bs))"

lemma ts_Msg_reorder [simp]: "ts_Msg (reorder ord t) = ts_Msg t"
  by (cases t) simp

lemma mset_pick: "distinct is \<Longrightarrow> set is = {..<length xs} \<Longrightarrow> mset (pick is xs) = mset xs"
proof -
  assume "distinct is" "set is = {..<length xs}"
  then have "mset is = mset [0..<length xs]" by (metis mset_set_set mset_upt lessThan_atLeast0)
  then have "mset (map ((!) xs) is) = mset (map ((!) xs) [0..<length xs])" by simp
  then show ?thesis by (simp add: pick_def map_nth)
qed

lemma sortsD: "sorts ord \<Longrightarrow> length xs = length ops \<Longrightarrow> mset (pick (ord ops) xs) = mset xs"
  by (intro mset_pick) (auto simp: sorts_def)

lemma pick_map: "set is \<subseteq> {..<length xs} \<Longrightarrow> pick is (map f xs) = map f (pick is xs)"
  by (auto simp: pick_def)

lemma sorts_pick_map: "sorts ord \<Longrightarrow> length xs = length ops \<Longrightarrow> pick (ord ops) (map f xs) = map f (pick (ord ops) xs)"
  by (intro pick_map) (auto simp: sorts_def)

text \<open>An item as it is written and as it is read.\<close>

datatype item = Att Attestation | Branch Op string Timestamp

fun item_text :: "item \<Rightarrow> string" where
  "item_text (Att a) = write_attestation a"
| "item_text (Branch o' txt s) = write_op o' @ txt"

fun item_weight :: "item \<Rightarrow> nat" where
  "item_weight (Att a) = 0"
| "item_weight (Branch o' txt s) = length (ts_Msg s) + weight s"

fun readable :: "Hashes \<Rightarrow> nat \<Rightarrow> string \<Rightarrow> item \<Rightarrow> bool" where
  "readable H depth msg (Att a) \<longleftrightarrow> good_attestation a"
| "readable H depth msg (Branch o' txt s) \<longleftrightarrow> good_op o' \<and> Apply H o' msg = Inr (ts_Msg s) \<and> depth + 1 \<le> MaxDepth \<and>
     (\<forall>b k. k + weight s \<le> msgBudget \<longrightarrow>
        stamp_items H (depth + 1) (ts_Msg s) [] [] \<lparr>rd_b = txt @ b, rd_budget = k\<rparr> = Inr (s, \<lparr>rd_b = b, rd_budget = k + weight s\<rparr>))"

definition atts_of :: "item list \<Rightarrow> Attestation list" where
  "atts_of its = concat (map (\<lambda>i. case i of Att a \<Rightarrow> [a] | _ \<Rightarrow> []) its)"

definition branches_of :: "item list \<Rightarrow> (Op \<times> Timestamp) list" where
  "branches_of its = concat (map (\<lambda>i. case i of Branch o' txt s \<Rightarrow> [(o', s)] | _ \<Rightarrow> []) its)"

lemma read_attestation_write:
  "good_attestation a \<Longrightarrow> read_attestation \<lparr>rd_b = at_Tag a @ writeVarbytes (at_Payload a) @ b, rd_budget = k\<rparr> = Inr (a, \<lparr>rd_b = b, rd_budget = k\<rparr>)"
  by (cases a) (auto simp: read_attestation_def Let_def rd_take_def varbytes_write good_attestation_def)

lemma Apply_tag: "Apply H o' msg = Inr nxt \<Longrightarrow> op_Tag o' \<noteq> CHR 0x00 \<and> op_Tag o' \<noteq> CHR 0xFF"
  by (auto simp: Apply_def op_tags Let_def split: if_splits)

lemma read_op_write:
  "good_op o' \<Longrightarrow> Apply H o' msg = Inr nxt \<Longrightarrow> k + length nxt \<le> msgBudget \<Longrightarrow>
   read_op H msg (op_Tag o') \<lparr>rd_b = tl (write_op o') @ b, rd_budget = k\<rparr> = Inr (o', nxt, \<lparr>rd_b = b, rd_budget = k + length nxt\<rparr>)"
  by (cases o') (auto simp: read_op_def Let_def read_arg_def write_op_def good_op_def varbytes_write maxOpBytes_def split: if_splits)

lemma read_tag_write:
  "c \<noteq> CHR 0xFF \<Longrightarrow> read_tag \<lparr>rd_b = c # b, rd_budget = k\<rparr> = Inr (False, c, \<lparr>rd_b = b, rd_budget = k\<rparr>)"
  "read_tag \<lparr>rd_b = CHR 0xFF # c # b, rd_budget = k\<rparr> = Inr (True, c, \<lparr>rd_b = b, rd_budget = k\<rparr>)"
  by (auto simp: read_tag_def rd_byte_def)

lemma write_op_Cons: "write_op o' = op_Tag o' # tl (write_op o')"
  by (simp add: write_op_def)

lemma item_last:
  assumes "readable H depth msg i" "k + item_weight i \<le> msgBudget"
  shows "stamp_items H depth msg as bs \<lparr>rd_b = item_text i @ b, rd_budget = k\<rparr> =
     Inr (Timestamp msg (as @ atts_of [i]) (bs @ branches_of [i]), \<lparr>rd_b = b, rd_budget = k + item_weight i\<rparr>)"
proof (cases i)
  case (Att a)
  then show ?thesis using assms
    by (subst stamp_items.simps) (simp add: write_attestation_def read_tag_write read_attestation_write atts_of_def branches_of_def)
next
  case (Branch o' w s)
  then have o': "good_op o'" "Apply H o' msg = Inr (ts_Msg s)" "\<not> MaxDepth < depth + 1" using assms by auto
  have eq: "item_text i @ b = op_Tag o' # tl (write_op o') @ w @ b" using Branch by (simp add: write_op_def)
  show ?thesis using assms Branch o' Apply_tag [OF o'(2)] unfolding eq
    by (subst stamp_items.simps) (simp add: read_tag_write read_op_write atts_of_def branches_of_def add.assoc)
qed

lemma item_next:
  assumes "readable H depth msg i" "k + item_weight i \<le> msgBudget"
  shows "stamp_items H depth msg as bs \<lparr>rd_b = CHR 0xFF # item_text i @ b, rd_budget = k\<rparr> =
     stamp_items H depth msg (as @ atts_of [i]) (bs @ branches_of [i]) \<lparr>rd_b = b, rd_budget = k + item_weight i\<rparr>"
proof (cases i)
  case (Att a)
  then show ?thesis using assms
    by (subst stamp_items.simps) (simp add: write_attestation_def read_tag_write read_attestation_write atts_of_def branches_of_def)
next
  case (Branch o' w s)
  then have o': "good_op o'" "Apply H o' msg = Inr (ts_Msg s)" "\<not> MaxDepth < depth + 1" using assms by auto
  have eq: "item_text i @ b = op_Tag o' # tl (write_op o') @ w @ b" using Branch by (simp add: write_op_def)
  show ?thesis using assms Branch o' Apply_tag [OF o'(2)] unfolding eq
    by (subst stamp_items.simps) (simp add: read_tag_write read_op_write atts_of_def branches_of_def add.assoc)
qed

lemma items_of_Cons:
  "atts_of (i # its) = atts_of [i] @ atts_of its" "branches_of (i # its) = branches_of [i] @ branches_of its"
  by (simp_all add: atts_of_def branches_of_def)

lemma stamp_items_write:
  "its \<noteq> [] \<Longrightarrow> \<forall>i\<in>set its. readable H depth msg i \<Longrightarrow> k + sum_list (map item_weight its) \<le> msgBudget \<Longrightarrow>
   stamp_items H depth msg as bs \<lparr>rd_b = write_items (map item_text its) @ b, rd_budget = k\<rparr> =
     Inr (Timestamp msg (as @ atts_of its) (bs @ branches_of its), \<lparr>rd_b = b, rd_budget = k + sum_list (map item_weight its)\<rparr>)"
proof (induction its arbitrary: as bs k rule: induct_list012 [case_names Nil One More])
  case (One i)
  then show ?case using item_last [of H depth msg i k as bs b] by simp
next
  case (More i j its)
  have "stamp_items H depth msg as bs \<lparr>rd_b = write_items (map item_text (i # j # its)) @ b, rd_budget = k\<rparr>
      = stamp_items H depth msg (as @ atts_of [i]) (bs @ branches_of [i])
          \<lparr>rd_b = write_items (map item_text (j # its)) @ b, rd_budget = k + item_weight i\<rparr>"
    using More.prems item_next [of H depth msg i k as bs "write_items (map item_text (j # its)) @ b"] by simp
  also have "\<dots> = Inr (Timestamp msg ((as @ atts_of [i]) @ atts_of (j # its)) ((bs @ branches_of [i]) @ branches_of (j # its)),
      \<lparr>rd_b = b, rd_budget = k + item_weight i + sum_list (map item_weight (j # its))\<rparr>)"
    using More.prems by (intro More.IH(2)) auto
  finally show ?case by (simp add: items_of_Cons [of i "j # its"] add.assoc)
qed simp

lemma write_items_length: "xs \<noteq> [] \<Longrightarrow> Suc (length (write_items xs)) = sum_list (map (Suc o length) xs)"
  by (induction xs rule: induct_list012) auto

lemma sum_list_mset: "mset xs = mset ys \<Longrightarrow> sum_list xs = (sum_list ys :: nat)"
  by (metis sum_mset_sum_list)

lemma sum_map_mset: "mset xs = mset ys \<Longrightarrow> sum_list (map f xs) = (sum_list (map f ys) :: nat)"
  by (rule sum_list_mset) (metis mset_map)

lemma concat_map_Nil: "concat (map (\<lambda>x. []) xs) = []"
  by (induction xs) auto

lemma Serialize_items:
  "sorts ord \<Longrightarrow> Serialize ord (Timestamp m as bs) =
     write_items (map item_text (map Att (sort_attestations as)
       @ map (\<lambda>b. Branch (fst b) (Serialize ord (snd b)) (reorder ord (snd b))) (pick (ord (map fst bs)) bs)))"
  by (simp add: sorts_pick_map o_def case_prod_beta map_prod_def)

lemma mset_sort_attestations [simp]: "mset (sort_attestations as) = mset as" "set (sort_attestations as) = set as"
  by (simp_all add: sort_attestations_def)

lemma Serialize_length: "sorts ord \<Longrightarrow> genuine H t \<Longrightarrow> Suc (length (Serialize ord t)) = span t"
proof (induction t rule: stamp_induct)
  case (Timestamp m as bs)
  let ?p = "pick (ord (map fst bs)) bs"
  have ms: "mset ?p = mset bs" using Timestamp.prems by (intro sortsD) auto
  then have st: "set ?p = set bs" by (rule mset_eq_setD)
  have len: "Suc (length (item_text (Branch (fst b) (Serialize ord (snd b)) (reorder ord (snd b))))) = branch_span b" if "b \<in> set ?p" for b
    using that st Timestamp.IH [of "fst b" "snd b"] Timestamp.prems by (auto simp: genuine_iff case_prod_beta)
  have ne: "sort_attestations as \<noteq> [] \<or> ?p \<noteq> []"
    using Timestamp.prems ms by (auto simp: genuine_iff simp flip: set_empty)
  have "Suc (length (Serialize ord (Timestamp m as bs)))
      = sum_list (map (\<lambda>a. Suc (length (write_attestation a))) (sort_attestations as)) + sum_list (map branch_span ?p)"
  proof -
    have "map (\<lambda>b. Suc (length (item_text (Branch (fst b) (Serialize ord (snd b)) (reorder ord (snd b)))))) ?p = map branch_span ?p"
      using len by (rule map_cong [OF refl])
    then show ?thesis
      using ne by (simp only: Serialize_items [OF Timestamp.prems(1)]) (simp add: write_items_length o_def del: map_eq_conv)
  qed
  also have "\<dots> = span (Timestamp m as bs)"
    by (simp add: span_sum sum_map_mset [OF ms] sum_map_mset [OF mset_sort_attestations(1)])
  finally show ?case .
qed

lemma pick_reorder:
  "sorts ord \<Longrightarrow> reorder ord (Timestamp m as bs) = Timestamp m (sort_attestations as) (map (map_prod id (reorder ord)) (pick (ord (map fst bs)) bs))"
  by (simp add: sorts_pick_map)

lemma weight_reorder: "sorts ord \<Longrightarrow> weight (reorder ord t) = weight t"
proof (induction t rule: stamp_induct)
  case (Timestamp m as bs)
  let ?p = "pick (ord (map fst bs)) bs"
  have ms: "mset ?p = mset bs" using Timestamp.prems by (intro sortsD) auto
  have "sum_list (map branch_weight (map (map_prod id (reorder ord)) ?p)) = sum_list (map branch_weight ?p)"
    using Timestamp mset_eq_setD [OF ms] by (intro arg_cong [of _ _ sum_list]) (force simp: o_def)
  then show ?case
    by (simp only: pick_reorder [OF Timestamp.prems] weight_sum sum_map_mset [OF ms])
qed

lemma write_items_parses:
  "sorts ord \<Longrightarrow> genuine H t \<Longrightarrow> depth + depth_of t \<le> MaxDepth \<Longrightarrow> k + weight t \<le> msgBudget \<Longrightarrow>
   stamp_items H depth (ts_Msg t) [] [] \<lparr>rd_b = Serialize ord t @ b, rd_budget = k\<rparr> = Inr (reorder ord t, \<lparr>rd_b = b, rd_budget = k + weight t\<rparr>)"
proof (induction t arbitrary: depth k b rule: stamp_induct)
  case (Timestamp m as bs)
  let ?p = "pick (ord (map fst bs)) bs"
  let ?item = "\<lambda>b. Branch (fst b) (Serialize ord (snd b)) (reorder ord (snd b))"
  let ?its = "map Att (sort_attestations as) @ map ?item ?p"
  have ms: "mset ?p = mset bs" using Timestamp.prems by (intro sortsD) auto
  then have st: "set ?p = set bs" by (rule mset_eq_setD)
  have "depth_of (Timestamp m as bs) \<le> MaxDepth - depth" using Timestamp.prems by simp
  then have deep: "Suc (depth + depth_of s) \<le> MaxDepth" if "(o', s) \<in> set bs" for o' s
    using that Timestamp.prems by (auto simp: depth_of_le)
  have "readable H depth m (?item b)" if "b \<in> set bs" for b
    using that Timestamp.IH [of "fst b" "snd b" "depth + 1"] Timestamp.prems deep [of "fst b" "snd b"]
    by (auto simp: genuine_iff case_prod_beta weight_reorder)
  then have "\<forall>i\<in>set ?its. readable H depth m i" using st Timestamp.prems by (auto simp: genuine_iff)
  moreover have w: "sum_list (map item_weight ?its) = weight (Timestamp m as bs)"
    using Timestamp.prems by (simp add: o_def weight_reorder weight_sum sum_map_mset [OF ms, symmetric])
  moreover have "?its \<noteq> []"
    using Timestamp.prems ms by (auto simp: genuine_iff simp flip: set_empty)
  moreover have "atts_of ?its = sort_attestations as" "branches_of ?its = map (map_prod id (reorder ord)) ?p"
    by (simp_all add: atts_of_def branches_of_def o_def map_prod_def case_prod_beta concat_map_Nil concat_map_singleton)
  ultimately show ?case
    using stamp_items_write [of ?its H depth m k "[]" "[]" b] Timestamp.prems
    by (simp add: Serialize_items pick_reorder del: Serialize.simps reorder.simps)
qed

section \<open>What a proof says\<close>

text \<open>Every attestation with the operations that lead to it, and what those operations make of a message.\<close>

primrec paths :: "Timestamp \<Rightarrow> (Op list \<times> Attestation) list" where
  "paths (Timestamp m as bs) = map (Pair []) as @ concat (map (\<lambda>(o', ps). map (map_prod ((#) o') id) ps) (map (map_prod id paths) bs))"

fun run_ops :: "Hashes \<Rightarrow> Op list \<Rightarrow> string \<Rightarrow> ots_err + string" where
  "run_ops H [] msg = Inr msg"
| "run_ops H (o' # os) msg = (case Apply H o' msg of Inl e \<Rightarrow> Inl e | Inr nxt \<Rightarrow> run_ops H os nxt)"

abbreviation branch_paths :: "Op \<times> Timestamp \<Rightarrow> (Op list \<times> Attestation) list" where
  "branch_paths b \<equiv> map (map_prod ((#) (fst b)) id) (paths (snd b))"

lemma paths_concat: "paths (Timestamp m as bs) = map (Pair []) as @ concat (map branch_paths bs)"
  by (simp add: o_def case_prod_beta)

declare paths.simps [simp del]

lemma mset_concat_map: "mset xs = mset ys \<Longrightarrow> mset (concat (map f xs)) = mset (concat (map f ys))"
  by (metis mset_concat mset_map sum_mset_sum_list)

lemma paths_reorder: "sorts ord \<Longrightarrow> mset (paths (reorder ord t)) = mset (paths t)"
proof (induction t rule: stamp_induct)
  case (Timestamp m as bs)
  let ?p = "pick (ord (map fst bs)) bs"
  have ms: "mset ?p = mset bs" using Timestamp.prems by (intro sortsD) auto
  have "mset (branch_paths (map_prod id (reorder ord) b)) = mset (branch_paths b)" if "b \<in> set ?p" for b
    using that Timestamp.IH [of "fst b" "snd b"] Timestamp.prems mset_eq_setD [OF ms] by simp
  then have "mset (concat (map branch_paths (map (map_prod id (reorder ord)) ?p))) = mset (concat (map branch_paths ?p))"
    by (simp add: mset_concat o_def cong: map_cong)
  also have "\<dots> = mset (concat (map branch_paths bs))" by (rule mset_concat_map [OF ms])
  finally show ?case
    by (simp only: pick_reorder [OF Timestamp.prems] paths_concat mset_append mset_map mset_sort_attestations)
qed

lemma paths_run: "genuine H t \<Longrightarrow> (os, a) \<in> set (paths t) \<Longrightarrow> \<exists>m. run_ops H os (ts_Msg t) = Inr m"
proof (induction t arbitrary: os rule: stamp_induct)
  case (Timestamp m as bs)
  then show ?case by (fastforce simp: paths_concat genuine_iff)
qed

text \<open>A walk sees each attestation with the message its operations lead to.\<close>

lemma Walk_concat: "Walk (Timestamp m as bs) = Timestamp m as bs # concat (map (Walk o snd) bs)"
  by (simp add: o_def)

declare Walk.simps [simp del]

lemma Walk_path:
  "genuine H t \<Longrightarrow> s \<in> set (Walk t) \<Longrightarrow> a \<in> set (ts_Attestations s) \<Longrightarrow>
   \<exists>os. (os, a) \<in> set (paths t) \<and> run_ops H os (ts_Msg t) = Inr (ts_Msg s)"
proof (induction t rule: stamp_induct)
  case (Timestamp m as bs)
  show ?case
  proof (cases "s = Timestamp m as bs")
    case True
    then show ?thesis using Timestamp.prems by (intro exI [of _ "[]"]) (auto simp: paths_concat)
  next
    case False
    then obtain o' s' where b: "(o', s') \<in> set bs" "s \<in> set (Walk s')" using Timestamp.prems by (auto simp: Walk_concat)
    then have g: "genuine H s'" "Apply H o' m = Inr (ts_Msg s')" using Timestamp.prems by (auto simp: genuine_iff)
    with Timestamp.IH [OF b(1) g(1) b(2) Timestamp.prems(3)] obtain os
      where "(os, a) \<in> set (paths s')" "run_ops H os (ts_Msg s') = Inr (ts_Msg s)" by auto
    then show ?thesis using b g by (intro exI [of _ "o' # os"]) (force simp: paths_concat)
  qed
qed

text \<open>The height of \<open>Status\<close> is the lowest a walk sees, and \<open>BitcoinRoot\<close> finds one for it.\<close>

lemma Status_height:
  "let h = snd (foldl Status_step (p, h0) as) in
     (h = h0 \<or> (\<exists>a\<in>set as. BitcoinHeight a = h)) \<and> (h0 \<noteq> 0 \<longrightarrow> h \<noteq> 0 \<and> h \<le> h0) \<and> (\<forall>a\<in>set as. BitcoinHeight a \<noteq> 0 \<longrightarrow> h \<noteq> 0 \<and> h \<le> BitcoinHeight a)"
proof (induction as arbitrary: p h0)
  case (Cons a as)
  define h1 where "h1 = snd (Status_step (p, h0) a)"
  have h1: "h1 = h0 \<or> h1 = BitcoinHeight a" "h0 \<noteq> 0 \<longrightarrow> h1 \<noteq> 0 \<and> h1 \<le> h0" "BitcoinHeight a \<noteq> 0 \<longrightarrow> h1 \<noteq> 0 \<and> h1 \<le> BitcoinHeight a"
    by (auto simp: h1_def Status_step_def word_gt_0)
  have "foldl Status_step (p, h0) (a # as) = foldl Status_step (fst (Status_step (p, h0) a), h1) as" by (simp add: h1_def)
  with Cons.IH [of "fst (Status_step (p, h0) a)" h1] h1 show ?case
    by (auto simp: Let_def intro: order_trans)
qed simp

lemma foldl_concat: "foldl (foldl f) z xss = foldl f z (concat xss)"
  by (induction xss arbitrary: z) auto

lemma Status_lowest:
  assumes "snd (Status t) = h"
  shows "(h \<noteq> 0 \<longrightarrow> (\<exists>s\<in>set (Walk t). \<exists>a\<in>set (ts_Attestations s). BitcoinHeight a = h))
    \<and> (\<forall>s\<in>set (Walk t). \<forall>a\<in>set (ts_Attestations s). BitcoinHeight a \<noteq> 0 \<longrightarrow> h \<noteq> 0 \<and> h \<le> BitcoinHeight a)"
  using assms Status_height [of "[]" 0 "concat (map ts_Attestations (Walk t))"]
  by (force simp: Status_def foldl_concat Let_def)

lemma BitcoinRoot_inner:
  "foldl (\<lambda>root a. if root = None \<and> height > 0 \<and> BitcoinHeight a = height then Some m else root) root as =
     (if root = None \<and> height > 0 \<and> (\<exists>a\<in>set as. BitcoinHeight a = height) then Some m else root)"
  by (induction as arbitrary: root) auto

lemma BitcoinRoot_find:
  "BitcoinRoot h t = (if h > 0 then map_option ts_Msg (find (\<lambda>s. \<exists>a\<in>set (ts_Attestations s). BitcoinHeight a = h) (Walk t)) else None)"
proof -
  let ?f = "\<lambda>root s. if root = None \<and> h > 0 \<and> (\<exists>a\<in>set (ts_Attestations s). BitcoinHeight a = h) then Some (ts_Msg s) else root"
  have "foldl ?f (Some r) ss = Some r" for r ss by (induction ss) auto
  then have "foldl ?f None ss = (if h > 0 then map_option ts_Msg (find (\<lambda>s. \<exists>a\<in>set (ts_Attestations s). BitcoinHeight a = h) ss) else None)" for ss
    by (induction ss) auto
  then show ?thesis by (simp add: BitcoinRoot_def BitcoinRoot_inner)
qed

lemma BitcoinRoot_path:
  assumes "genuine H t" "BitcoinRoot h t = Some root"
  shows "h > 0 \<and> (\<exists>os a. (os, a) \<in> set (paths t) \<and> BitcoinHeight a = h \<and> run_ops H os (ts_Msg t) = Inr root)"
  using assms Walk_path [OF assms(1)] by (fastforce simp: BitcoinRoot_find find_Some_iff in_set_conv_nth split: if_splits)

lemma paths_Walk: "(os, a) \<in> set (paths t) \<Longrightarrow> \<exists>s\<in>set (Walk t). a \<in> set (ts_Attestations s)"
proof (induction t arbitrary: os rule: stamp_induct)
  case (Timestamp m as bs)
  then show ?case by (fastforce simp: paths_concat Walk_concat)
qed

section \<open>Files\<close>

lemma ParseFile_sound:
  assumes "ParseFile H data = Inr f"
  shows "length (fl_Digest f) = 32 \<and> ts_Msg (fl_Stamp f) = fl_Digest f \<and> genuine H (fl_Stamp f)
    \<and> depth_of (fl_Stamp f) \<le> MaxDepth \<and> weight (fl_Stamp f) \<le> msgBudget
    \<and> length Magic + 34 + span (fl_Stamp f) \<le> Suc (length data) \<and> length data \<le> MaxFileBytes"
proof -
  from assms obtain v r1 tag r2 r3 r4 where p: "length data \<le> MaxFileBytes" "take (length Magic) data = Magic"
    "varuint \<lparr>rd_b = drop (length Magic) data, rd_budget = 0\<rparr> = Inr (v, r1)" "rd_byte r1 = Inr (tag, r2)"
    "rd_take 32 r2 = Inr (fl_Digest f, r3)" "stamp_items H 0 (fl_Digest f) [] [] r3 = Inr (fl_Stamp f, r4)" "rd_b r4 = []"
    by (auto simp: ParseFile_def timestamp_def split: if_splits sum.splits)
  have v: "length data - length Magic > length (rd_b r1) \<and> rd_budget r1 = 0"
    using varuint_loop_read [of 0 0 "\<lparr>rd_b = drop (length Magic) data, rd_budget = 0\<rparr>" v r1] p(3) by (auto simp: varuint_def)
  have b: "length (rd_b r1) = Suc (length (rd_b r2)) \<and> rd_budget r2 = rd_budget r1"
    using p(4) by (auto simp: rd_byte_def split: list.splits)
  note t = rd_take_le [OF p(5)] rd_take_budget [OF p(5)]
  from stamp_items_sound [OF p(6)] obtain as bs where s: "fl_Stamp f = Timestamp (fl_Digest f) as bs" "parsed H 0 (fl_Digest f) as bs r3 r4"
    by auto
  then show ?thesis using v b t p(1,7) by (auto simp: parsed_def)
qed

lemma ParseFile_write:
  assumes "sorts ord" "genuine H (fl_Stamp f)" "ts_Msg (fl_Stamp f) = fl_Digest f" "length (fl_Digest f) = 32"
    "depth_of (fl_Stamp f) \<le> MaxDepth" "weight (fl_Stamp f) \<le> msgBudget" "length (File_Bytes ord f) \<le> MaxFileBytes"
  shows "ParseFile H (File_Bytes ord f) = Inr (f\<lparr>fl_Stamp := reorder ord (fl_Stamp f)\<rparr>)"
proof -
  have "varuint \<lparr>rd_b = CHR 0x01 # b, rd_budget = 0\<rparr> = Inr (1, \<lparr>rd_b = b, rd_budget = 0\<rparr>)" for b
    using varuint_put [of 1 b 0] by (simp add: put_varuint_small char_of_def bit_0 bit_Suc)
  moreover have "rd_take 32 \<lparr>rd_b = fl_Digest f @ b, rd_budget = 0\<rparr> = Inr (fl_Digest f, \<lparr>rd_b = b, rd_budget = 0\<rparr>)" for b
    using assms(4) by (simp add: rd_take_def)
  moreover have "timestamp H (fl_Digest f) 0 \<lparr>rd_b = Serialize ord (fl_Stamp f), rd_budget = 0\<rparr> =
      Inr (reorder ord (fl_Stamp f), \<lparr>rd_b = [], rd_budget = weight (fl_Stamp f)\<rparr>)"
    using write_items_parses [of ord H "fl_Stamp f" 0 0 "[]"] assms by (simp add: timestamp_def)
  ultimately show ?thesis
    using assms(7) by (simp add: ParseFile_def File_Bytes_def rd_byte_def)
qed

lemma File_Bytes_length:
  "sorts ord \<Longrightarrow> genuine H (fl_Stamp f) \<Longrightarrow> length (fl_Digest f) = 32 \<Longrightarrow>
   Suc (length (File_Bytes ord f)) = length Magic + 34 + span (fl_Stamp f)"
  using Serialize_length [of ord H "fl_Stamp f"] by (simp add: File_Bytes_def)

section \<open>Merging\<close>

text \<open>
  Merging two timestamps of one message: no branch is ever found under a different message, so it
  cannot fail half way, and the result says exactly what the two said.
\<close>

text \<open>The branches a timestamp of message \<open>m\<close> may have.\<close>

definition branch_ok :: "Hashes \<Rightarrow> string \<Rightarrow> Op \<times> Timestamp \<Rightarrow> bool" where
  "branch_ok H m b \<longleftrightarrow> good_op (fst b) \<and> Apply H (fst b) m = Inr (ts_Msg (snd b)) \<and> genuine H (snd b)"

lemma genuine_branches: "genuine H (Timestamp m as bs) \<longleftrightarrow> (as \<noteq> [] \<or> bs \<noteq> []) \<and> list_all good_attestation as \<and> list_all (branch_ok H m) bs"
  by (auto simp: genuine_iff branch_ok_def list_all_iff case_prod_beta)

lemma index_of_Some: "index_of x xs = Some i \<Longrightarrow> i < length xs \<and> xs ! i = x"
  by (induction xs arbitrary: i) (auto split: if_splits)

lemma merge_attestations_step: "merge_attestations as (a # as') = merge_attestations (if a \<in> set as then as else as @ [a]) as'"
  by (simp add: merge_attestations_def)

lemma merge_attestations_Nil [simp]: "merge_attestations as [] = as"
  by (simp add: merge_attestations_def)

lemma set_merge_attestations: "set (merge_attestations as as') = set as \<union> set as'"
  by (induction as' arbitrary: as) (auto simp: merge_attestations_step)

text \<open>The paths of a list of branches, as a set.\<close>

definition said :: "(Op \<times> Timestamp) list \<Rightarrow> (Op list \<times> Attestation) set" where
  "said bs = set (concat (map branch_paths bs))"

lemma said_simps [simp]: "said [] = {}" "said (b # bs) = set (branch_paths b) \<union> said bs" "said (bs @ bs') = said bs \<union> said bs'"
  by (simp_all add: said_def)

lemma paths_said: "set (paths (Timestamp m as bs)) = Pair [] ` set as \<union> said bs"
  by (simp add: paths_concat said_def)

lemma said_update: "i < length bs \<Longrightarrow> bs ! i = (o', s) \<Longrightarrow> set (paths s2) = set (paths s) \<union> set (paths s') \<Longrightarrow>
   said (bs[i := (o', s2)]) = said bs \<union> set (branch_paths (o', s'))"
proof (induction bs arbitrary: i)
  case (Cons b bs)
  then show ?case by (cases i) (simp_all add: image_Un Un_ac id_def)
qed simp

lemma list_all_update: "list_all P xs \<Longrightarrow> P x \<Longrightarrow> list_all P (xs[i := x])"
  by (auto simp: list_all_iff dest!: set_update_subset_insert [THEN subsetD])

lemma Merge_all:
  "genuine H t \<Longrightarrow> genuine H u \<Longrightarrow> ts_Msg t = ts_Msg u \<Longrightarrow>
     \<exists>t'. Merge t u = (t', None) \<and> genuine H t' \<and> ts_Msg t' = ts_Msg t \<and> set (paths t') = set (paths t) \<union> set (paths u)"
  "list_all (branch_ok H m) bs \<Longrightarrow> list_all (branch_ok H m) bs' \<Longrightarrow>
     \<exists>bs2. merge_branches bs bs' = (bs2, None) \<and> list_all (branch_ok H m) bs2 \<and> (bs2 = [] \<longleftrightarrow> bs = [] \<and> bs' = []) \<and> said bs2 = said bs \<union> said bs'"
proof (induction t u and bs bs' arbitrary: and m rule: Merge_merge_branches.induct)
  case (1 m as bs m' as' bs')
  then obtain bs2 where "merge_branches bs bs' = (bs2, None)" "list_all (branch_ok H m) bs2" "bs2 = [] \<longleftrightarrow> bs = [] \<and> bs' = []" "said bs2 = said bs \<union> said bs'"
    by (auto simp: genuine_branches)
  moreover have "list_all good_attestation (merge_attestations as as')" "merge_attestations as as' = [] \<longleftrightarrow> as = [] \<and> as' = []"
    using 1 set_merge_attestations [of as as'] by (auto simp: genuine_branches list_all_iff simp flip: set_empty)
  ultimately show ?case
    using 1(2,3,4) by (simp add: genuine_branches paths_said set_merge_attestations image_Un Un_ac)
next
  case (3 bs o' s rest)
  show ?case
  proof (cases "index_of o' (map fst bs)")
    case None
    then show ?thesis using 3 by (auto simp: Un_assoc)
  next
    case (Some i)
    then obtain s1 where i: "i < length bs" "bs ! i = (o', s1)" using index_of_Some [OF Some] by (cases "bs ! i") auto
    then have "branch_ok H m (o', s1)" "branch_ok H m (o', s)" using 3 by (auto simp: list_all_length)
    then obtain s2 where s2: "Merge s1 s = (s2, None)" "genuine H s2" "ts_Msg s2 = ts_Msg s1" "set (paths s2) = set (paths s1) \<union> set (paths s)"
      using 3(2) [OF Some] i by (auto simp: branch_ok_def)
    then have "list_all (branch_ok H m) (bs[i := (o', s2)])"
      using 3(4) \<open>branch_ok H m (o', s1)\<close> s2 by (auto intro!: list_all_update simp: branch_ok_def [of _ _ "(o', _)"])
    then obtain bs2 where "merge_branches (bs[i := (o', s2)]) rest = (bs2, None)" "list_all (branch_ok H m) bs2"
      "bs2 = [] \<longleftrightarrow> bs[i := (o', s2)] = [] \<and> rest = []" "said bs2 = said (bs[i := (o', s2)]) \<union> said rest"
      using 3(3) [OF Some _ , of s2 None m] s2 i 3(5) by auto
    then show ?thesis using Some i s2 said_update [OF i s2(4)] by (auto simp: Un_assoc)
  qed
qed simp_all

end
