(* ===== verification/Anchors_Inv.thy ===== *)
theory Anchors_Inv
  imports Anchors Ots_Spec
begin

text \<open>
  Upgrading keeps a proof genuine and only adds to it, at any position; a file that did not grow is the
  same file. So a row that a poll confirms has a proof of its block, as long as the file fits the
  parser's bounds.
\<close>

section \<open>Merging grows\<close>

definition grows :: "Timestamp \<Rightarrow> Timestamp \<Rightarrow> bool" where
  "grows t t' \<longleftrightarrow> t' = t \<or> span t < span t'"

lemma span_pos: "0 < length (write_op o')"
  by (simp add: write_op_def)

abbreviation att_spans :: "Attestation list \<Rightarrow> nat" where
  "att_spans as \<equiv> sum_list (map (\<lambda>a. Suc (length (write_attestation a))) as)"

abbreviation branch_spans :: "(Op \<times> Timestamp) list \<Rightarrow> nat" where
  "branch_spans bs \<equiv> sum_list (map branch_span bs)"

lemma merge_attestations_grow: "merge_attestations as as' = as \<or> att_spans as < att_spans (merge_attestations as as')"
proof (induction as' arbitrary: as)
  case (Cons a as')
  show ?case
  proof (cases "a \<in> set as")
    case False
    then show ?thesis using Cons.IH [of "as @ [a]"] by (auto simp: merge_attestations_step)
  qed (use Cons.IH [of as] in \<open>simp add: merge_attestations_step\<close>)
qed simp

lemma branch_spans_update:
  "i < length bs \<Longrightarrow> branch_spans (bs[i := (fst (bs ! i), s)]) + span (snd (bs ! i)) = branch_spans bs + span s"
  by (induction bs arbitrary: i) (auto split: nat.splits)

lemma Merge_grows:
  "grows t (fst (Merge t u))"
  "fst (merge_branches bs bs') = bs \<or> branch_spans bs < branch_spans (fst (merge_branches bs bs'))"
proof (induction t u and bs bs' rule: Merge_merge_branches.induct)
  case (1 m as bs m' as' bs')
  then show ?case
    using merge_attestations_grow [of as as'] by (auto simp: grows_def span_sum split: prod.splits)
next
  case (3 bs o' s rest)
  show ?case
  proof (cases "index_of o' (map fst bs)")
    case None
    then show ?thesis using 3(1) [OF None] span_pos [of o'] by auto
  next
    case (Some i)
    then have i: "i < length bs" using index_of_Some [OF Some] by simp
    obtain s2 e where m: "Merge (snd (bs ! i)) s = (s2, e)" by force
    have g: "s2 = snd (bs ! i) \<or> span (snd (bs ! i)) < span s2" using 3(2) [OF Some] m by (simp add: grows_def)
    have u: "bs[i := (fst (bs ! i), s2)] = bs \<or> branch_spans bs < branch_spans (bs[i := (fst (bs ! i), s2)])"
      using g branch_spans_update [OF i, of s2] by auto
    show ?thesis
    proof (cases e)
      case None
      then show ?thesis using 3(3) [OF Some m [unfolded None, symmetric] refl] u Some m by auto
    qed (use Some m u in auto)
  qed
qed simp_all

section \<open>At a position\<close>

lemma genuine_Timestamp: "genuine H t \<longleftrightarrow> genuine H (Timestamp (ts_Msg t) (ts_Attestations t) (ts_Branches t))"
  by simp

lemma genuine_branch: "genuine H t \<Longrightarrow> b \<in> set (ts_Branches t) \<Longrightarrow> branch_ok H (ts_Msg t) b"
  by (cases t) (auto simp: genuine_branches list_all_iff)

lemma genuine_stamp_at: "genuine H t \<Longrightarrow> genuine H (stamp_at is t)"
  by (induction "is" t rule: stamp_at.induct) (auto dest: genuine_branch [OF _ nth_mem] simp: branch_ok_def)

lemma put_at_Msg: "ts_Msg s = ts_Msg (stamp_at is t) \<Longrightarrow> ts_Msg (put_at is s t) = ts_Msg t"
  by (cases "is") auto

lemma put_at_genuine:
  "genuine H t \<Longrightarrow> genuine H s \<Longrightarrow> ts_Msg s = ts_Msg (stamp_at is t) \<Longrightarrow> genuine H (put_at is s t)"
proof (induction "is" s t rule: put_at.induct)
  case (2 i "is" s t)
  show ?case
  proof (cases "i < length (ts_Branches t)")
    case True
    let ?b = "ts_Branches t ! i"
    have b: "branch_ok H (ts_Msg t) ?b" using 2(2) True by (auto intro: genuine_branch)
    have "branch_ok H (ts_Msg t) (fst ?b, put_at is s (snd ?b))"
      using b 2 True put_at_Msg [of s "is" "snd ?b"] by (auto simp: branch_ok_def)
    then have "list_all (branch_ok H (ts_Msg t)) ((ts_Branches t)[i := (fst ?b, put_at is s (snd ?b))])"
      using 2(2) by (intro list_all_update) (auto simp: list_all_iff intro: genuine_branch)
    then show ?thesis using True 2(2) by (cases t) (auto simp: genuine_branches)
  qed (use 2 in simp)
qed simp

lemma put_at_grows: "grows (stamp_at is t) s \<Longrightarrow> grows t (put_at is s t)"
proof (induction "is" s t rule: put_at.induct)
  case (2 i "is" s t)
  show ?case
  proof (cases "i < length (ts_Branches t)")
    case True
    then have "grows (snd (ts_Branches t ! i)) (put_at is s (snd (ts_Branches t ! i)))" using 2 by simp
    then show ?thesis
      using True branch_spans_update [OF True, of "put_at is s (snd (ts_Branches t ! i))"]
      by (cases t) (auto simp: grows_def span_sum)
  qed (simp add: grows_def)
qed simp

lemma put_at_paths:
  "set (paths (stamp_at is t)) \<subseteq> set (paths s) \<Longrightarrow> set (paths t) \<subseteq> set (paths (put_at is s t))"
proof (induction "is" s t rule: put_at.induct)
  case (2 i "is" s t)
  show ?case
  proof (cases "i < length (ts_Branches t)")
    case True
    let ?b = "ts_Branches t ! i" and ?s = "put_at is s (snd (ts_Branches t ! i))"
    have "set (paths (snd ?b)) \<subseteq> set (paths ?s)" using 2 True by simp
    then have "set (paths ?s) = set (paths (snd ?b)) \<union> set (paths ?s)" by auto
    then have "said (ts_Branches t) \<subseteq> said ((ts_Branches t)[i := (fst ?b, ?s)])"
      using said_update [OF True, of "fst ?b" "snd ?b" ?s ?s] by simp
    then show ?thesis using True by (cases t) (auto simp: paths_said)
  qed simp
qed simp

section \<open>An upgrade\<close>

lemma ParseTimestamp_sound:
  assumes "ParseTimestamp H data msg = Inr t"
  shows "genuine H t \<and> ts_Msg t = msg"
proof -
  from assms obtain r where "stamp_items H 0 msg [] [] \<lparr>rd_b = data, rd_budget = 0\<rparr> = Inr (t, r)"
    by (auto simp: ParseTimestamp_def timestamp_def split: if_splits sum.splits)
  from stamp_items_sound [OF this] show ?thesis by (auto simp: parsed_def)
qed

definition upgraded :: "Hashes \<Rightarrow> File \<Rightarrow> upgrade_state \<Rightarrow> bool" where
  "upgraded H f st \<longleftrightarrow> genuine H (fl_Stamp (up_file st)) \<and> fl_Digest (up_file st) = fl_Digest f
     \<and> ts_Msg (fl_Stamp (up_file st)) = ts_Msg (fl_Stamp f) \<and> set (paths (fl_Stamp f)) \<subseteq> set (paths (fl_Stamp (up_file st)))
     \<and> (up_changed st \<or> up_file st = f)"

lemma foldl_keeps: "P z \<Longrightarrow> (\<And>z x. P z \<Longrightarrow> P (f z x)) \<Longrightarrow> P (foldl f z xs)"
  by (induction xs arbitrary: z) auto

lemma upgraded_counts [simp]:
  "upgraded H f (st\<lparr>up_requests := n\<rparr>) = upgraded H f st" "upgraded H f (upgrade_fail uri e st) = upgraded H f st"
  by (simp_all add: upgraded_def upgrade_fail_def)

lemma upgrade_merge_ok:
  assumes st: "upgraded H f st" and ord: "sorts ord" and dig: "length (fl_Digest f) = 32"
    and up: "genuine H up" "ts_Msg up = ts_Msg (stamp_at is (fl_Stamp (up_file st)))"
  shows "upgraded H f (upgrade_merge ord uri is up st)"
proof -
  let ?t = "fl_Stamp (up_file st)"
  have g: "genuine H ?t" using st by (simp add: upgraded_def)
  obtain s where s: "Merge (stamp_at is ?t) up = (s, None)" "genuine H s" "ts_Msg s = ts_Msg (stamp_at is ?t)"
    "set (paths s) = set (paths (stamp_at is ?t)) \<union> set (paths up)"
    using Merge_all(1) [OF genuine_stamp_at [OF g, of "is"] up(1)] up(2) by auto
  let ?t' = "put_at is s ?t"
  let ?f' = "(up_file st)\<lparr>fl_Stamp := ?t'\<rparr>"
  have g': "genuine H ?t'" "ts_Msg ?t' = ts_Msg ?t" "set (paths ?t) \<subseteq> set (paths ?t')"
    using s g by (auto intro: put_at_genuine put_at_Msg put_at_paths [THEN subsetD])
  have "grows ?t ?t'" using Merge_grows(1) [of "stamp_at is ?t" up] s by (intro put_at_grows) simp
  then have "?t' = ?t \<or> length (File_Bytes ord ?f') \<noteq> length (File_Bytes ord (up_file st))"
    using File_Bytes_length [OF ord, of H ?f'] File_Bytes_length [OF ord g] g'(1) dig st by (auto simp: grows_def upgraded_def)
  then show ?thesis
    using s g' st by (auto simp: upgrade_merge_def upgraded_def Let_def)
qed

lemma upgrade_attestation_ok:
  assumes "upgraded H f st" "sorts ord" "length (fl_Digest f) = 32"
  shows "upgraded H f (upgrade_attestation H ord net c is st a)"
  using assms
  by (auto simp: upgrade_attestation_def Let_def split: sum.splits intro!: upgrade_merge_ok dest!: ParseTimestamp_sound)

lemma upgrade_stamp_ok:
  "upgraded H f st \<Longrightarrow> sorts ord \<Longrightarrow> length (fl_Digest f) = 32 \<Longrightarrow> upgraded H f (upgrade_stamp H ord net c st is)"
  unfolding upgrade_stamp_def
  by (rule foldl_keeps [where P = "upgraded H f"]) (auto intro: upgrade_attestation_ok)

lemma Upgrade_ok:
  assumes "Upgrade H ord net c f = (f', changed, errs)" "genuine H (fl_Stamp f)" "sorts ord" "length (fl_Digest f) = 32"
  shows "genuine H (fl_Stamp f') \<and> fl_Digest f' = fl_Digest f \<and> ts_Msg (fl_Stamp f') = ts_Msg (fl_Stamp f)
    \<and> set (paths (fl_Stamp f)) \<subseteq> set (paths (fl_Stamp f')) \<and> (changed \<or> f' = f \<or> length (File_Bytes ord f') > MaxFileBytes)"
proof -
  have "upgraded H f (foldl (upgrade_stamp H ord net c) \<lparr>up_requests = 0, up_file = f, up_changed = False, up_errs = []\<rparr> (pending_at (fl_Stamp f)))"
    using upgrade_stamp_ok [OF _ assms(3,4)] assms(2) by (intro foldl_keeps [where P = "upgraded H f"]) (simp_all add: upgraded_def [of H f "\<lparr>up_requests = _, up_file = _, up_changed = _, up_errs = _\<rparr>"])
  then show ?thesis using assms(1) by (auto simp: Upgrade_def Let_def upgraded_def split: if_splits)
qed

text \<open>The lowest height does not depend on the order of the items.\<close>

lemma Walk_paths: "s \<in> set (Walk t) \<Longrightarrow> a \<in> set (ts_Attestations s) \<Longrightarrow> \<exists>os. (os, a) \<in> set (paths t)"
proof (induction t rule: stamp_induct)
  case (Timestamp m as bs)
  show ?case
  proof (cases "s = Timestamp m as bs")
    case False
    then obtain o' s' where "(o', s') \<in> set bs" "s \<in> set (Walk s')" using Timestamp.prems by (auto simp: Walk_concat)
    with Timestamp.IH [OF this(1)] Timestamp.prems(2) obtain os where "(os, a) \<in> set (paths s')" by auto
    then show ?thesis using \<open>(o', s') \<in> set bs\<close> by (intro exI [of _ "o' # os"]) (force simp: paths_concat)
  qed (use Timestamp.prems in \<open>auto simp: paths_concat\<close>)
qed

lemma heights_paths: "(\<exists>s\<in>set (Walk t). a \<in> set (ts_Attestations s)) \<longleftrightarrow> a \<in> snd ` set (paths t)"
  using Walk_paths paths_Walk by (force simp: image_iff)

lemma Status_paths:
  assumes "snd ` set (paths t) = snd ` set (paths u)"
  shows "snd (Status t) = snd (Status u)"
proof -
  have eq: "(\<exists>s\<in>set (Walk t). a \<in> set (ts_Attestations s)) \<longleftrightarrow> (\<exists>s\<in>set (Walk u). a \<in> set (ts_Attestations s))" for a
    by (simp only: heights_paths assms)
  show ?thesis
    using Status_lowest [of t, OF refl] Status_lowest [of u, OF refl] eq by (metis order_antisym)
qed

text \<open>A file the parser takes back: within the bytes, the depth and the budget.\<close>

definition fits :: "(Op list \<Rightarrow> nat list) \<Rightarrow> File \<Rightarrow> bool" where
  "fits ord f \<longleftrightarrow> length (File_Bytes ord f) \<le> MaxFileBytes \<and> depth_of (fl_Stamp f) \<le> MaxDepth \<and> weight (fl_Stamp f) \<le> msgBudget"

lemma upgrade_row_proof:
  assumes row: "ParseFile H (an_ots row) = Inr f" and up: "Upgrade H ord net c f = (f', changed, errs)"
    and ord: "sorts ord" and fit: "fits ord f'"
  shows "\<exists>g. ParseFile H (an_ots (fst (upgrade_row H ord net c now row))) = Inr g \<and> fl_Digest g = fl_Digest f
    \<and> set (paths (fl_Stamp g)) = set (paths (fl_Stamp f')) \<and> set (paths (fl_Stamp f)) \<subseteq> set (paths (fl_Stamp f'))"
proof -
  note f = ParseFile_sound [OF row]
  have f': "genuine H (fl_Stamp f') \<and> fl_Digest f' = fl_Digest f \<and> ts_Msg (fl_Stamp f') = ts_Msg (fl_Stamp f)
    \<and> set (paths (fl_Stamp f)) \<subseteq> set (paths (fl_Stamp f')) \<and> (changed \<or> f' = f)"
    using Upgrade_ok [OF up _ ord] f fit by (auto simp: fits_def)
  show ?thesis
  proof (cases changed)
    case True
    then have "an_ots (fst (upgrade_row H ord net c now row)) = File_Bytes ord f'"
      using row up by (simp add: upgrade_row_def Let_def)
    moreover have "ParseFile H (File_Bytes ord f') = Inr (f'\<lparr>fl_Stamp := reorder ord (fl_Stamp f')\<rparr>)"
      using f f' fit ord by (intro ParseFile_write) (auto simp: fits_def)
    ultimately show ?thesis
      using f' mset_eq_setD [OF paths_reorder [OF ord, of "fl_Stamp f'"]] by simp
  next
    case False
    then show ?thesis using row up f' by (auto simp: upgrade_row_def Let_def)
  qed
qed

section \<open>The table\<close>

text \<open>Every anchor is of a checkpoint, by the digest of its note; one row per size; a height only once confirmed.\<close>

definition anchor_ok :: "Hashes \<Rightarrow> log_db \<Rightarrow> anchorRow \<Rightarrow> bool" where
  "anchor_ok H lg a \<longleftrightarrow> (\<exists>w\<in>set (tlog_checkpoints lg). ck_size w = an_size a \<and> an_digest a = hex_EncodeToString (anchorDigest H (ck_note w)))
     \<and> (an_state a = Confirmed \<longleftrightarrow> an_bitcoin_height a \<noteq> 0)"

definition anchors_ok :: "Hashes \<Rightarrow> anchor_db \<Rightarrow> bool" where
  "anchors_ok H db \<longleftrightarrow> distinct (map an_size (tlog_anchors db)) \<and> list_all (anchor_ok H (ad_log db)) (tlog_anchors db)"

lemma upgrade_row_keeps:
  "an_size (fst (upgrade_row H ord net c now row)) = an_size row" "an_digest (fst (upgrade_row H ord net c now row)) = an_digest row"
  by (auto simp: upgrade_row_def Let_def split: sum.splits prod.splits)

lemma sint_eq_0: "sint (w :: 64 word) = 0 \<longleftrightarrow> w = 0"
  by (metis signed_0 signed_word_eqI)

lemma upgrade_row_ok: "anchor_ok H lg row \<Longrightarrow> anchor_ok H lg (fst (upgrade_row H ord net c now row))"
  by (auto simp: upgrade_row_def anchor_ok_def Let_def sint_eq_0 word_gt_0 split: sum.splits prod.splits)

lemma insert_anchor_ok:
  "distinct (map an_size rows) \<Longrightarrow> list_all P rows \<Longrightarrow> P row \<Longrightarrow> distinct (map an_size (insert_anchor row rows)) \<and> list_all P (insert_anchor row rows)"
  by (auto simp: insert_anchor_def list_ex_iff)

lemma new_anchor_ok:
  "w \<in> set (tlog_checkpoints lg) \<Longrightarrow>
   anchor_ok H lg \<lparr>an_size = ck_size w, an_digest = hex_EncodeToString (anchorDigest H (ck_note w)), an_ots = b, an_state = Pending,
     an_bitcoin_height = 0, an_calendars = cals, an_submitted_at = t, an_checked_at = t'\<rparr>"
  by (auto simp: anchor_ok_def)

lemma anchor_loop_ok:
  "distinct (map an_size rows) \<Longrightarrow> list_all (anchor_ok H lg) rows \<Longrightarrow> set ws \<subseteq> set (tlog_checkpoints lg) \<Longrightarrow>
   distinct (map an_size (fst (anchor_loop H ord nets c clock n ws rows errs))) \<and> list_all (anchor_ok H lg) (fst (anchor_loop H ord nets c clock n ws rows errs))"
proof (induction ws arbitrary: n rows errs)
  case (Cons w ws)
  obtain rows' e where a: "anchor_checkpoint H ord (nets n) c (clock n) w rows = (rows', e)" by force
  then have "distinct (map an_size rows') \<and> list_all (anchor_ok H lg) rows'"
    using Cons.prems new_anchor_ok [of w lg H] insert_anchor_ok [of rows "anchor_ok H lg"]
    by (auto simp: anchor_checkpoint_def Let_def split: prod.splits option.splits)
  then show ?case using Cons.IH [of rows'] Cons.prems a by simp
qed simp

lemma upgrade_loop_ok:
  "distinct (map an_size rows) \<Longrightarrow> list_all (anchor_ok H lg) rows \<Longrightarrow>
   distinct (map an_size (fst (upgrade_loop H ord nets c clock n szs rows errs))) \<and> list_all (anchor_ok H lg) (fst (upgrade_loop H ord nets c clock n szs rows errs))"
proof (induction szs arbitrary: n rows errs)
  case (Cons sz szs)
  show ?case
  proof (cases "find (\<lambda>a. an_size a = sz) rows")
    case (Some row)
    let ?r = "upgrade_row H ord (nets n) c (clock n) row"
    have "row \<in> set rows" "an_size row = sz" using find_SomeD [OF Some] by auto
    have "map an_size (upd (\<lambda>a. an_size a = sz) (\<lambda>_. fst ?r) rows) = map an_size rows"
      using \<open>an_size row = sz\<close> by (intro map_upd) (simp add: upgrade_row_keeps)
    moreover have "list_all (anchor_ok H lg) (upd (\<lambda>a. an_size a = sz) (\<lambda>_. fst ?r) rows)"
      using Cons.prems \<open>row \<in> set rows\<close> upgrade_row_ok [of H lg row] by (auto simp: list_all_iff in_upd)
    ultimately show ?thesis using Cons.IH Cons.prems Some by (simp add: case_prod_beta)
  qed (use Cons in simp)
qed simp

text \<open>What happens to the anchors: the three parts of a tick, with any answers and clocks, and checkpoints signed in between.\<close>

inductive anchor_step :: "Hashes \<Rightarrow> (Op list \<Rightarrow> nat list) \<Rightarrow> anchor_db \<Rightarrow> anchor_db \<Rightarrow> bool" for H ord where
  submit: "anchor_step H ord db (fst (AnchorCheckpoints H ord nets c clock limit db))"
| upgrade: "anchor_step H ord db (fst (UpgradeAnchors H ord nets c now clock limit db))"
| fill: "anchor_step H ord db (fst (FillBlockTimes H nets c limit db))"
| sign: "set (tlog_checkpoints (ad_log db)) \<subseteq> set (tlog_checkpoints lg) \<Longrightarrow> anchor_step H ord db (db\<lparr>ad_log := lg\<rparr>)"

lemma mark_stale_ok:
  "distinct (map an_size rows) \<Longrightarrow> list_all (anchor_ok H lg) rows \<Longrightarrow>
   distinct (map an_size (mark_stale now rows)) \<and> list_all (anchor_ok H lg) (mark_stale now rows)"
proof -
  assume rows: "distinct (map an_size rows)" "list_all (anchor_ok H lg) rows"
  have "map an_size (mark_stale now rows) = map an_size rows" unfolding mark_stale_def by (rule map_upd) simp
  moreover have "anchor_ok H lg (a\<lparr>an_state := Stale\<rparr>)" if "anchor_ok H lg a" "an_state a = Pending" for a
    using that by (simp add: anchor_ok_def)
  ultimately show ?thesis using rows by (auto simp: mark_stale_def list_all_iff in_upd)
qed

lemma FillBlockTimes_tables:
  "tlog_anchors (fst (FillBlockTimes H nets c limit db)) = tlog_anchors db" "ad_log (fst (FillBlockTimes H nets c limit db)) = ad_log db"
  by (simp_all add: FillBlockTimes_def split: prod.splits)

lemma anchor_step_ok: "anchor_step H ord db db' \<Longrightarrow> anchors_ok H db \<Longrightarrow> anchors_ok H db'"
proof (induction rule: anchor_step.induct)
  case (submit db nets c clock limit)
  have "set (unanchored db limit) \<subseteq> set (tlog_checkpoints (ad_log db))" by (auto simp: unanchored_def dest!: in_set_takeD)
  then show ?case
    using submit anchor_loop_ok [of "tlog_anchors db" H "ad_log db" "unanchored db limit" ord nets c clock 0 "[]"]
    by (simp add: AnchorCheckpoints_def anchors_ok_def case_prod_beta)
next
  case (upgrade db nets c now clock limit)
  then show ?case
    using mark_stale_ok [of "tlog_anchors db" H "ad_log db" now] upgrade_loop_ok [of "mark_stale now (tlog_anchors db)" H "ad_log db" ord nets c clock 0 _ "[]"]
    by (simp add: UpgradeAnchors_def anchors_ok_def case_prod_beta Let_def)
next
  case (sign db lg)
  then show ?case by (force simp: anchors_ok_def anchor_ok_def list_all_iff)
qed (simp add: anchors_ok_def FillBlockTimes_tables)

lemma upgrade_loop_other: "a \<in> set rows \<Longrightarrow> an_size a \<notin> set szs \<Longrightarrow> a \<in> set (fst (upgrade_loop H ord nets c clock n szs rows errs))"
proof (induction szs arbitrary: n rows errs)
  case (Cons sz szs)
  then show ?case by (auto simp: case_prod_beta split: option.splits intro!: Cons.IH in_upd_other)
qed simp

lemma anchor_loop_other: "a \<in> set rows \<Longrightarrow> a \<in> set (fst (anchor_loop H ord nets c clock n ws rows errs))"
  by (induction ws arbitrary: n rows errs)
     (auto simp: case_prod_beta anchor_checkpoint_def Let_def insert_anchor_def split: option.splits)

lemma due_pending: "sz \<in> set (due_anchors now limit rows) \<Longrightarrow> \<exists>a\<in>set rows. an_size a = sz \<and> an_state a = Pending"
  by (auto simp: due_anchors_def dest!: in_set_takeD) blast

lemma confirmed_step:
  assumes "anchor_step H ord db db'" "anchors_ok H db" "a \<in> set (tlog_anchors db)" "an_state a = Confirmed"
  shows "a \<in> set (tlog_anchors db')"
  using assms(1)
proof cases
  case (upgrade nets c now clock limit)
  let ?rows = "mark_stale now (tlog_anchors db)"
  have a: "a \<in> set ?rows" using assms(3,4) by (force simp: mark_stale_def in_upd)
  have "distinct (map an_size ?rows)" using mark_stale_ok assms(2) by (auto simp: anchors_ok_def)
  then have inj: "inj_on an_size (set ?rows)" by (simp add: distinct_map)
  have "an_size a \<notin> set (due_anchors now limit ?rows)"
  proof
    assume "an_size a \<in> set (due_anchors now limit ?rows)"
    then obtain b where "b \<in> set ?rows" "an_size b = an_size a" "an_state b = Pending" using due_pending by blast
    then show False using inj_onD [OF inj _ _ a] assms(4) by force
  qed
  then show ?thesis using upgrade_loop_other [OF a] upgrade by (simp add: UpgradeAnchors_def case_prod_beta Let_def)
next
  case (submit nets c clock limit)
  then show ?thesis using assms(3) anchor_loop_other by (simp add: AnchorCheckpoints_def case_prod_beta)
qed (use assms(3) in \<open>simp_all add: FillBlockTimes_tables\<close>)

lemma anchors_run: "(anchor_step H ord)\<^sup>*\<^sup>* db db' \<Longrightarrow> anchors_ok H db \<Longrightarrow> anchors_ok H db' \<and> (\<forall>a\<in>set (tlog_anchors db). an_state a = Confirmed \<longrightarrow> a \<in> set (tlog_anchors db'))"
  by (induction rule: rtranclp_induct) (auto intro: anchor_step_ok confirmed_step)

end
