(* ===== verification/Ots_Props.thy ===== *)
theory Ots_Props
  imports Anchors_Inv
begin

text \<open>
  What the anchors promise: proofs survive being written, merging adds exactly what was answered, a
  confirmed anchor has its proof, and a block's time comes from a header that carries the proof's root.
  The instances use a constant digest of the right size and a proof with one attestation.
\<close>

definition const_hashes :: Hashes where
  "const_hashes = \<lparr>hs_sha256 = (\<lambda>_. replicate 32 CHR 0x07), hs_sha1 = (\<lambda>_. replicate 20 CHR 0x07)\<rparr>"

text \<open>A stable sort of the operations.\<close>

definition stable_order :: "Op list \<Rightarrow> nat list" where
  "stable_order ops = map snd (sort_key fst (zip (map (\<lambda>o'. (op_Tag o', op_Arg o')) ops) [0..<length ops]))"

lemma Op_less_keys: "(op_Tag p, op_Arg p) \<le> (op_Tag q, op_Arg q) \<Longrightarrow> \<not> Op_less q p"
  by (auto simp: Op_less_def)

lemma sorts_stable: "sorts stable_order"
  unfolding sorts_def
proof (intro allI conjI)
  fix ops :: "Op list"
  let ?keys = "map (\<lambda>o'. (op_Tag o', op_Arg o')) ops"
  let ?zs = "sort_key fst (zip ?keys [0..<length ops])"
  have "mset (stable_order ops) = mset [0..<length ops]"
  proof -
    have "mset (map snd ?zs) = mset (map snd (zip ?keys [0..<length ops]))" by (simp only: mset_map mset_sort)
    then show ?thesis by (simp add: stable_order_def)
  qed
  then show "distinct (stable_order ops)" "set (stable_order ops) = {..<length ops}"
    by (metis distinct_upt mset_eq_imp_distinct_iff) (metis \<open>mset _ = _\<close> atLeast0LessThan mset_eq_setD set_upt)
  have key: "z \<in> set ?zs \<Longrightarrow> snd z < length ops \<and> fst z = (op_Tag (ops ! snd z), op_Arg (ops ! snd z))" for z
    by (auto simp: set_zip)
  have "sorted_wrt (\<lambda>z z'. fst z \<le> fst z') ?zs"
    using sorted_sort_key [of fst "zip ?keys [0..<length ops]"] by (simp add: sorted_map)
  then have "sorted_wrt (\<lambda>z z'. \<not> Op_less (ops ! snd z') (ops ! snd z)) ?zs"
  proof (rule sorted_wrt_mono_rel [rotated])
    fix z z' assume "z \<in> set ?zs" "z' \<in> set ?zs" "fst z \<le> fst z'"
    then show "\<not> Op_less (ops ! snd z') (ops ! snd z)" using key [of z] key [of z'] by (intro Op_less_keys) simp
  qed
  then show "sorted_wrt (\<lambda>i j. \<not> Op_less (ops ! j) (ops ! i)) (stable_order ops)"
    by (simp add: stable_order_def sorted_wrt_map)
qed

definition block5 :: Attestation where
  "block5 = \<lparr>at_Tag = TagBitcoin, at_Payload = [CHR 0x05]\<rparr>"

definition one_file :: File where
  "one_file = \<lparr>fl_Digest = replicate 32 CHR 0x07, fl_Stamp = Timestamp (replicate 32 CHR 0x07) [block5] []\<rparr>"

lemma one_file_genuine: "genuine const_hashes (fl_Stamp one_file)"
  by (simp add: one_file_def genuine_iff good_attestation_def block5_def TagBitcoin_def TagPending_def)

lemma one_file_parses: "ParseFile const_hashes (File_Bytes stable_order one_file) = Inr one_file"
proof -
  have "Suc (length (File_Bytes stable_order one_file)) = length Magic + 34 + span (fl_Stamp one_file)"
    by (rule File_Bytes_length [OF sorts_stable one_file_genuine]) (simp add: one_file_def)
  then have "length (File_Bytes stable_order one_file) \<le> MaxFileBytes"
    by (simp add: one_file_def span_sum write_attestation_def writeVarbytes_def block5_def TagBitcoin_def put_varuint_small Magic_def MaxFileBytes_def)
  then have "ParseFile const_hashes (File_Bytes stable_order one_file) = Inr (one_file\<lparr>fl_Stamp := reorder stable_order (fl_Stamp one_file)\<rparr>)"
    by (intro ParseFile_write [OF sorts_stable one_file_genuine])
       (simp_all add: one_file_def depth_of.simps weight_sum)
  then show ?thesis
    by (simp add: one_file_def sort_attestations_def stable_order_def pick_def)
qed

text \<open>
  C11: A proof file that parses can be written and parsed again: the written file is no longer than the one
  read, so it passes the size bound, and it parses to the same digest with every attestation reached by the same operations.
\<close>
theorem ots_reparse:
  assumes "sorts ord" "ParseFile H data = Inr f"
  shows "length (File_Bytes ord f) \<le> length data
    \<and> (\<exists>g. ParseFile H (File_Bytes ord f) = Inr g \<and> fl_Digest g = fl_Digest f \<and> mset (paths (fl_Stamp g)) = mset (paths (fl_Stamp f)))"
proof -
  note f = ParseFile_sound [OF assms(2)]
  have "length (File_Bytes ord f) \<le> length data" using File_Bytes_length [OF assms(1), of H f] f by simp
  moreover from this have "ParseFile H (File_Bytes ord f) = Inr (f\<lparr>fl_Stamp := reorder ord (fl_Stamp f)\<rparr>)"
    using f by (intro ParseFile_write [OF assms(1)]) auto
  ultimately show ?thesis using paths_reorder [OF assms(1)] by simp
qed

theorem ots_reparse_witness:
  "sorts stable_order \<and> ParseFile const_hashes (File_Bytes stable_order one_file) = Inr one_file
    \<and> (\<exists>g. ParseFile const_hashes (File_Bytes stable_order one_file) = Inr g \<and> mset (paths (fl_Stamp g)) = {#([], block5)#})"
proof -
  have "mset (paths (fl_Stamp one_file)) = {#([], block5)#}" by (simp add: one_file_def paths_concat)
  then show ?thesis using sorts_stable one_file_parses ots_reparse [OF sorts_stable one_file_parses] by auto
qed

text \<open>
  Merging two parsed timestamps of one message never fails, stays a genuine timestamp of that message, and
  has exactly the attestations of the two, each reached by the same operations.
\<close>
theorem merge_exact:
  assumes "ParseTimestamp H d1 msg = Inr t" "ParseTimestamp H d2 msg = Inr u"
  shows "\<exists>t'. Merge t u = (t', None) \<and> genuine H t' \<and> ts_Msg t' = msg \<and> set (paths t') = set (paths t) \<union> set (paths u)"
  using Merge_all(1) [of H t u] ParseTimestamp_sound [OF assms(1)] ParseTimestamp_sound [OF assms(2)] by auto

lemma one_stamp_parses:
  "ParseTimestamp const_hashes (Serialize stable_order (fl_Stamp one_file)) (fl_Digest one_file) = Inr (fl_Stamp one_file)"
proof -
  have "Suc (length (Serialize stable_order (fl_Stamp one_file))) = span (fl_Stamp one_file)"
    by (rule Serialize_length [OF sorts_stable one_file_genuine])
  then have "length (Serialize stable_order (fl_Stamp one_file)) \<le> MaxFileBytes"
    by (simp add: one_file_def span_sum write_attestation_def writeVarbytes_def block5_def TagBitcoin_def put_varuint_small MaxFileBytes_def)
  moreover have "reorder stable_order (fl_Stamp one_file) = fl_Stamp one_file"
    by (simp add: one_file_def sort_attestations_def stable_order_def pick_def)
  moreover have "stamp_items const_hashes 0 (ts_Msg (fl_Stamp one_file)) [] [] \<lparr>rd_b = Serialize stable_order (fl_Stamp one_file) @ [], rd_budget = 0\<rparr>
      = Inr (reorder stable_order (fl_Stamp one_file), \<lparr>rd_b = [], rd_budget = 0 + weight (fl_Stamp one_file)\<rparr>)"
    by (rule write_items_parses [OF sorts_stable one_file_genuine]) (simp_all add: one_file_def depth_of.simps weight_sum)
  ultimately show ?thesis by (simp add: ParseTimestamp_def timestamp_def one_file_def)
qed

text \<open>
  C20: When a poll confirms an anchor and the upgraded file is within the parser's bounds, the stored file parses, is of
  the same digest, and proves what the row says: the height is the lowest its attestations name, and operations of
  the file turn the digest into the root attested in that block.
\<close>
theorem confirmed_proof:
  assumes "sorts ord" "ParseFile H (an_ots row) = Inr f" "Upgrade H ord net c f = (f', changed, errs)" "fits ord f'"
    "an_state (fst (upgrade_row H ord net c now row)) = Confirmed"
  shows "\<exists>g root os a. ParseFile H (an_ots (fst (upgrade_row H ord net c now row))) = Inr g \<and> fl_Digest g = fl_Digest f
    \<and> an_bitcoin_height (fst (upgrade_row H ord net c now row)) = sint (BitcoinHeight a)
    \<and> snd (Status (fl_Stamp g)) = BitcoinHeight a \<and> BitcoinRoot (BitcoinHeight a) (fl_Stamp g) = Some root
    \<and> (os, a) \<in> set (paths (fl_Stamp g)) \<and> run_ops H os (fl_Digest g) = Inr root"
proof -
  obtain g where g: "ParseFile H (an_ots (fst (upgrade_row H ord net c now row))) = Inr g" "fl_Digest g = fl_Digest f"
    "set (paths (fl_Stamp g)) = set (paths (fl_Stamp f'))"
    using upgrade_row_proof [OF assms(2,3,1,4), of now] by auto
  note s = ParseFile_sound [OF g(1)]
  have st: "snd (Status (fl_Stamp g)) = snd (Status (fl_Stamp f'))" using g(3) by (intro Status_paths) simp
  let ?h = "snd (Status (fl_Stamp g))"
  have h: "?h > 0" "an_bitcoin_height (fst (upgrade_row H ord net c now row)) = sint ?h"
    using assms(2,3,5) st by (auto simp: upgrade_row_def Let_def split: if_splits)
  have "\<exists>s\<in>set (Walk (fl_Stamp g)). \<exists>a\<in>set (ts_Attestations s). BitcoinHeight a = ?h"
    using Status_lowest [OF refl] h(1) by (auto simp: word_gt_0)
  then have "find (\<lambda>s. \<exists>a\<in>set (ts_Attestations s). BitcoinHeight a = ?h) (Walk (fl_Stamp g)) \<noteq> None"
    by (auto simp: find_None_iff)
  then obtain root where r: "BitcoinRoot ?h (fl_Stamp g) = Some root"
    using h(1) by (auto simp: BitcoinRoot_find)
  from BitcoinRoot_path [OF _ r, of H] s obtain os a
    where "(os, a) \<in> set (paths (fl_Stamp g))" "BitcoinHeight a = ?h" "run_ops H os (fl_Digest g) = Inr root" by auto
  then show ?thesis using g h r by metis
qed

text \<open>The anchor of the example, asked of a network that never answers.\<close>

definition one_row :: anchorRow where
  "one_row = \<lparr>an_size = 1, an_digest = [], an_ots = File_Bytes stable_order one_file, an_state = Pending, an_bitcoin_height = 0,
     an_calendars = [], an_submitted_at = 0, an_checked_at = 0\<rparr>"

definition no_client :: Client where
  "no_client = \<lparr>cl_Calendars = [], cl_Explorer = [], cl_origin = (\<lambda>_. None)\<rparr>"

lemma block5_height: "BitcoinHeight block5 = 5"
proof -
  have "put_varuint 5 = [CHR 0x05]" by (simp add: put_varuint_small char_of_def bit_0 bit_Suc)
  then show ?thesis using varuint_put [of 5 "[]" 0] by (simp add: BitcoinHeight_def block5_def)
qed

lemma block5_uri: "PendingURI block5 = []"
  by (simp add: PendingURI_def block5_def TagBitcoin_def TagPending_def)

lemma one_file_upgrade: "Upgrade const_hashes stable_order (\<lambda>_ _. None) no_client one_file = (one_file, False, [])"
  and one_file_fits: "fits stable_order one_file"
proof -
  have "length (File_Bytes stable_order one_file) \<le> MaxFileBytes"
    using ParseFile_sound [OF one_file_parses] by simp
  then show "Upgrade const_hashes stable_order (\<lambda>_ _. None) no_client one_file = (one_file, False, [])" "fits stable_order one_file"
    by (auto simp: block5_uri Upgrade_def pending_at_def one_file_def Let_def fits_def depth_of.simps weight_sum)
qed

theorem confirmed_proof_witness:
  "\<exists>g root os a. ParseFile const_hashes (an_ots (fst (upgrade_row const_hashes stable_order (\<lambda>_ _. None) no_client 7 one_row))) = Inr g
    \<and> an_bitcoin_height (fst (upgrade_row const_hashes stable_order (\<lambda>_ _. None) no_client 7 one_row)) = sint (BitcoinHeight a)
    \<and> (os, a) \<in> set (paths (fl_Stamp g)) \<and> run_ops const_hashes os (fl_Digest g) = Inr root"
proof -
  have "snd (Status (fl_Stamp one_file)) = 5" by (simp add: Status_def Status_step_def one_file_def Walk_concat block5_height)
  then have "an_state (fst (upgrade_row const_hashes stable_order (\<lambda>_ _. None) no_client 7 one_row)) = Confirmed"
    by (simp add: upgrade_row_def one_row_def one_file_parses one_file_upgrade Let_def)
  moreover have "ParseFile const_hashes (an_ots one_row) = Inr one_file" by (simp add: one_row_def one_file_parses)
  ultimately show ?thesis
    using confirmed_proof [OF sorts_stable _ one_file_upgrade one_file_fits, of one_row 7] by blast
qed

text \<open>
  C12: From an empty table, whatever the calendars answer and whenever the polls run, every anchor is of a signed
  checkpoint, by the digest of its note, there is one per checkpoint, it has a block height exactly when it is
  confirmed, and a confirmed anchor never changes or goes away.
\<close>
theorem anchors_kept:
  assumes "tlog_anchors db0 = []" "(anchor_step H ord)\<^sup>*\<^sup>* db0 db" "(anchor_step H ord)\<^sup>*\<^sup>* db db'"
  shows "anchors_ok H db' \<and> (\<forall>a. a \<in> set (tlog_anchors db) \<and> an_state a = Confirmed \<longrightarrow> a \<in> set (tlog_anchors db'))"
proof -
  have "anchors_ok H db0" using assms(1) by (simp add: anchors_ok_def)
  with assms(2) have "anchors_ok H db" by (rule anchors_run [THEN conjunct1])
  with assms(3) show ?thesis using anchors_run by blast
qed

text \<open>The example's checkpoint, anchored by one calendar whose answer already has the block, and confirmed half an hour later.\<close>

definition one_calendar :: Client where
  "one_calendar = \<lparr>cl_Calendars = [''c''], cl_Explorer = [], cl_origin = (\<lambda>_. None)\<rparr>"

definition one_answer :: network_io where
  "one_answer = (\<lambda>_ _. Some (Serialize stable_order (fl_Stamp one_file), 200))"

definition one_checkpoint :: anchor_db where
  "one_checkpoint = \<lparr>ad_log = \<lparr>tlog_leaves = [], tlog_hashes = [], tlog_checkpoints = [\<lparr>ck_size = 1, ck_root = [], ck_note = ''n'', ck_created_at = 0\<rparr>]\<rparr>,
     tlog_anchors = [], meta = []\<rparr>"

definition submitted :: anchor_db where
  "submitted = fst (AnchorCheckpoints const_hashes stable_order (\<lambda>_. one_answer) one_calendar (\<lambda>_. 0) 3 one_checkpoint)"

definition polled :: anchor_db where
  "polled = fst (UpgradeAnchors const_hashes stable_order (\<lambda>_. one_answer) one_calendar 1800 (\<lambda>_. 1800) 12 submitted)"

lemma one_file_Status: "Status (fl_Stamp one_file) = ([], 5)"
  by (simp add: Status_def Status_step_def one_file_def Walk_concat block5_height block5_uri)

lemma one_file_Stamp: "Stamp const_hashes one_answer one_calendar (fl_Digest one_file) = (Some one_file, [])"
proof -
  have "length (Serialize stable_order (fl_Stamp one_file)) \<le> MaxResponseBytes"
    using Serialize_length [OF sorts_stable one_file_genuine]
    by (simp add: one_file_def span_sum write_attestation_def writeVarbytes_def block5_def TagBitcoin_def put_varuint_small MaxResponseBytes_def)
  moreover have "Merge (Timestamp (fl_Digest one_file) [] []) (fl_Stamp one_file) = (fl_Stamp one_file, None)"
    by (simp add: one_file_def merge_attestations_def)
  moreover have "length (fl_Digest one_file) = 32" "ts_Attestations (fl_Stamp one_file) \<noteq> []" by (simp_all add: one_file_def)
  moreover have "\<lparr>fl_Digest = fl_Digest one_file, fl_Stamp = fl_Stamp one_file\<rparr> = one_file" by simp
  ultimately show ?thesis
    using one_stamp_parses by (simp add: Stamp_def one_calendar_def one_answer_def client_do_def stamp_answer_def StatusOK_def)
qed

lemma submitted_rows: "tlog_anchors submitted = [one_row\<lparr>an_digest := hex_EncodeToString (fl_Digest one_file)\<rparr>]"
  using one_file_Stamp one_file_Status
  by (simp add: submitted_def AnchorCheckpoints_def unanchored_def one_checkpoint_def anchor_checkpoint_def anchorDigest_def const_hashes_def
      insert_anchor_def one_row_def one_file_def Let_def)

lemma polled_rows:
  "tlog_anchors polled = [one_row\<lparr>an_digest := hex_EncodeToString (fl_Digest one_file), an_state := Confirmed, an_bitcoin_height := 5, an_checked_at := 1800\<rparr>]"
proof -
  have "pending_at (fl_Stamp one_file) = []"
    by (simp add: pending_at_def one_file_def block5_uri)
  then have "Upgrade const_hashes stable_order one_answer one_calendar one_file = (one_file, False, [])"
    using one_file_fits by (simp add: Upgrade_def fits_def)
  then show ?thesis
    using one_file_parses one_file_Status
    by (simp add: polled_def UpgradeAnchors_def Let_def submitted_rows mark_stale_def due_anchors_def one_row_def anchorNextCheck_def anchor_times
        anchorPendingMax_def upgrade_row_def)
qed

theorem anchors_kept_witness:
  "anchors_ok const_hashes polled \<and> an_state (hd (tlog_anchors polled)) = Confirmed \<and> an_bitcoin_height (hd (tlog_anchors polled)) = 5
    \<and> hd (tlog_anchors polled) \<in> set (tlog_anchors polled)"
proof -
  have "anchor_step const_hashes stable_order one_checkpoint submitted" "anchor_step const_hashes stable_order submitted polled"
    unfolding submitted_def polled_def by (rule anchor_step.intros)+
  then have run: "(anchor_step const_hashes stable_order)\<^sup>*\<^sup>* one_checkpoint polled" by (meson rtranclp.simps)
  have "tlog_anchors one_checkpoint = []" by (simp add: one_checkpoint_def)
  from anchors_kept [OF this run rtranclp.rtrancl_refl] show ?thesis by (simp add: polled_rows)
qed

lemma hex_DecodeString_length: "hex_DecodeString s = Some b \<Longrightarrow> length s = 2 * length b"
  by (induction s arbitrary: b rule: hex_DecodeString.induct) (auto split: option.splits if_splits)

lemma explorer_get_answer:
  "explorer_get net n base path len = Inr s \<Longrightarrow> \<exists>body. net n (Get (base @ path)) = Some (body, 200) \<and> s = TrimSpace body \<and> length s = len"
  by (auto simp: explorer_get_def client_do_def StatusOK_def split: option.splits sum.splits if_splits)

text \<open>
  A block time kept for an anchor comes from an 80-byte header that hashes, twice, to the hash the explorer
  gives for the height, and whose Merkle root is what operations of the stored proof make of its digest.
\<close>
theorem block_time_genuine:
  assumes "block_time_of H net c h raw = Inr at"
  shows "\<exists>f os a header body. ParseFile H raw = Inr f \<and> (os, a) \<in> set (paths (fl_Stamp f)) \<and> BitcoinHeight a = word_of_int h
    \<and> run_ops H os (fl_Digest f) = Inr (take 32 (drop 36 header)) \<and> length header = 80
    \<and> at = int (le_Uint32 (take 4 (drop 68 header)))
    \<and> net 0 (Get (trim_slash (cl_Explorer c) @ ''/block-height/'' @ FormatInt (uint (BitcoinHeight a)))) = Some (body, 200)
    \<and> hex_EncodeToString (rev (hs_sha256 H (hs_sha256 H header))) = lower_hex (TrimSpace body)"
proof -
  from assms obtain f root where f: "ParseFile H raw = Inr f" "BitcoinRoot (word_of_int h) (fl_Stamp f) = Some root"
    "BlockTime H net c (word_of_int h) root = Inr at"
    by (auto simp: block_time_of_def split: sum.splits option.splits)
  from f(3) obtain hash raw' header
    where b: "explorer_get net 0 (trim_slash (cl_Explorer c)) (''/block-height/'' @ FormatInt (uint (word_of_int h :: 64 word))) 64 = Inr hash"
      "explorer_get net 1 (trim_slash (cl_Explorer c)) (''/block/'' @ hash @ ''/header'') 160 = Inr raw'" "hex_DecodeString raw' = Some header"
      "hex_EncodeToString (rev (hs_sha256 H (hs_sha256 H header))) = lower_hex hash" "take 32 (drop 36 header) = root"
      "at = int (le_Uint32 (take 4 (drop 68 header)))"
    by (auto simp: BlockTime_def Let_def split: if_splits sum.splits option.splits)
  have "length header = 80" using hex_DecodeString_length [OF b(3)] explorer_get_answer [OF b(2)] by auto
  moreover from BitcoinRoot_path [OF _ f(2), of H] ParseFile_sound [OF f(1)] obtain os a
    where "(os, a) \<in> set (paths (fl_Stamp f))" "BitcoinHeight a = word_of_int h" "run_ops H os (fl_Digest f) = Inr root" by auto
  ultimately show ?thesis using f(1) b(4,5,6) explorer_get_answer [OF b(1)] by metis
qed

definition explorer_client :: Client where
  "explorer_client = \<lparr>cl_Calendars = [], cl_Explorer = ''e'', cl_origin = (\<lambda>_. None)\<rparr>"

definition explorer_answers :: network_io where
  "explorer_answers n q = Some (concat (replicate (if n = 0 then 32 else 80) ''07''), 200)"

lemma hex_07:
  "hex_DecodeString (concat (replicate n ''07'')) = Some (replicate n CHR 0x07)"
  "hex_EncodeToString (replicate n CHR 0x07) = concat (replicate n ''07'')"
  "lower_hex (concat (replicate n ''07'')) = concat (replicate n ''07'')"
  by (induction n) (simp_all add: hex_EncodeToString_def lower_hex_def digit_val_def digit_char_def byte_def Let_def char_of_def bit_Suc bit_0)

lemma trim_07: "0 < n \<Longrightarrow> TrimSpace (concat (replicate n ''07'')) = concat (replicate n ''07'')"
proof -
  assume "0 < n"
  then obtain m where n: "n = Suc m" by (cases n) auto
  have "concat (replicate n ''07'') = concat (replicate m ''07'') @ ''07''"
    unfolding n by (simp only: replicate_Suc replicate_append_same [symmetric] concat_append) simp
  then have "last (concat (replicate n ''07'')) = CHR ''7''" by simp
  then show ?thesis
    using n by (simp add: TrimSpace_def trim_left.simps trim_right.simps decode_last_rune_def byte_def IsSpace_def)
qed

end
