(* ===== verification/Gate.thy ===== *)
theory Gate
  imports Prelude Go_Text "HOL-Library.AList"
begin

text \<open>
  The bot check (\<open>internal/gate/gate.go\<close>, and \<open>LeadingZeroBits\<close> of \<open>internal/proofs/existing.go\<close>): pending
  challenges, their counts per network, the proof of work and the agent task. Times are nanoseconds.
  JSON decoding, \<open>net.ParseIP\<close> (the keys of a source), the random bytes and SHA-256 are arguments.
\<close>

datatype gate_err = ErrRequest | ErrOrigin | ErrUnknown | ErrRate | ErrWork | ErrAnswer | ErrLate | ErrMode | ErrWallet
  | ErrNoProof | ErrIdentity | ErrNoStanding | ErrRandom

section \<open>Bounds\<close>

definition second :: int where "second = 1000000000"

definition ChallengeTTL :: int where "ChallengeTTL = 300 * second"

definition TokenTTL :: int where "TokenTTL = 300 * second"

definition BitsDefault :: int where "BitsDefault = 20"

definition BitsMin :: int where "BitsMin = BitsDefault"

definition BitsMax :: int where "BitsMax = 28"

definition EscalateAfter :: nat where "EscalateAfter = 8"

definition EscalateWindow :: int where "EscalateWindow = 10 * 60 * second"

definition NetworkChallengesMax :: nat where "NetworkChallengesMax = 600"

definition WideFactor :: nat where "WideFactor = 8"

definition PendingMax :: nat where "PendingMax = 100000"

definition AgentDeadlineMillis :: int where "AgentDeadlineMillis = 3000"

definition AgentRecords :: nat where "AgentRecords = 120"

definition MinCentsMax :: int where "MinCentsMax = 1000000"

section \<open>Requests\<close>

datatype gate_mode = ModePow | ModeAgent

text \<open>A request as it was decoded; \<open>None\<close> where the mode is missing.\<close>

record ChallengeRequest =
  cr_Schema :: int
  cr_Origin :: string
  cr_Min :: int
  cr_Nonce :: string
  cr_Mode :: string
  cr_Bits :: int

record VerifyRequest =
  vr_Schema :: int
  vr_Challenge :: string
  vr_Solution :: string
  vr_Answer :: string
  vr_Wallet :: string
  vr_Signature :: string

definition is_digit :: "char \<Rightarrow> bool" where
  "is_digit c \<longleftrightarrow> 48 \<le> byte c \<and> byte c \<le> 57"

definition is_lower :: "char \<Rightarrow> bool" where
  "is_lower c \<longleftrightarrow> 97 \<le> byte c \<and> byte c \<le> 122"

definition is_upper :: "char \<Rightarrow> bool" where
  "is_upper c \<longleftrightarrow> 65 \<le> byte c \<and> byte c \<le> 90"

definition idRE :: "string \<Rightarrow> bool" where
  "idRE s \<longleftrightarrow> length s = 32 \<and> list_all (\<lambda>c. is_digit c \<or> 97 \<le> byte c \<and> byte c \<le> 102) s"

definition siteNonce :: "string \<Rightarrow> bool" where
  "siteNonce s \<longleftrightarrow> 8 \<le> length s \<and> length s \<le> 64 \<and> list_all (\<lambda>c. is_digit c \<or> is_lower c \<or> is_upper c \<or> c = CHR ''_'' \<or> c = CHR ''-'') s"

definition solutionRE :: "string \<Rightarrow> bool" where
  "solutionRE s \<longleftrightarrow> 1 \<le> length s \<and> length s \<le> 64 \<and> list_all (\<lambda>c. is_digit c \<or> is_lower c \<or> is_upper c) s"

definition answerRE :: "string \<Rightarrow> bool" where
  "answerRE s \<longleftrightarrow> (let d = (case s of c # cs \<Rightarrow> if c = CHR ''-'' then cs else s | [] \<Rightarrow> s) in
     1 \<le> length d \<and> length d \<le> 30 \<and> list_all is_digit d)"

definition walletRE :: "string \<Rightarrow> bool" where
  "walletRE s \<longleftrightarrow> length s = 42 \<and> take 2 s = ''0x'' \<and> list_all (\<lambda>c. is_digit c \<or> 97 \<le> byte c \<and> byte c \<le> 102 \<or> 65 \<le> byte c \<and> byte c \<le> 70) (drop 2 s)"

text \<open>The mode of a checked request is \<open>pow\<close> or \<open>agent\<close>.\<close>

definition ParseChallengeRequest :: "ChallengeRequest option \<Rightarrow> (string \<Rightarrow> bool) \<Rightarrow> gate_err + (ChallengeRequest \<times> gate_mode)" where
  "ParseChallengeRequest decoded validOrigin = (case decoded of
       None \<Rightarrow> Inl ErrRequest
     | Some r \<Rightarrow>
       let checks =
         (if cr_Schema r \<noteq> 1 then Some ErrRequest
          else if cr_Origin r = [] \<and> cr_Mode r = ''agent'' then None
          else if \<not> validOrigin (cr_Origin r) then Some ErrOrigin
          else if cr_Min r < 0 \<or> cr_Min r > MinCentsMax then Some ErrRequest
          else if cr_Nonce r \<noteq> [] \<and> \<not> siteNonce (cr_Nonce r) then Some ErrRequest
          else if cr_Bits r \<noteq> 0 \<and> (cr_Bits r < BitsMin \<or> cr_Bits r > BitsMax) then Some ErrRequest
          else None) in
       case checks of
         Some e \<Rightarrow> Inl e
       | None \<Rightarrow>
         if cr_Mode r = [] \<or> cr_Mode r = ''pow'' then Inr (r, ModePow)
         else if cr_Mode r = ''agent'' then (if cr_Min r > 0 then Inl ErrRequest else Inr (r, ModeAgent))
         else Inl ErrRequest)"

definition ParseVerifyRequest :: "VerifyRequest option \<Rightarrow> bool \<Rightarrow> gate_err + VerifyRequest" where
  "ParseVerifyRequest decoded signed = (case decoded of
       None \<Rightarrow> Inl ErrRequest
     | Some r \<Rightarrow>
       let n = (if vr_Solution r \<noteq> [] then 1 else 0) + (if vr_Answer r \<noteq> [] then 1 else (0::nat));
           wallet = (vr_Wallet r \<noteq> [] \<or> vr_Signature r \<noteq> []) in
       if vr_Schema r \<noteq> 1 \<or> \<not> idRE (vr_Challenge r) then Inl ErrRequest
       else if vr_Solution r \<noteq> [] \<and> \<not> solutionRE (vr_Solution r) then Inl ErrRequest
       else if vr_Answer r \<noteq> [] \<and> \<not> answerRE (vr_Answer r) then Inl ErrRequest
       else if wallet \<and> (\<not> walletRE (vr_Wallet r) \<or> length (vr_Signature r) \<noteq> 132 \<or> take 2 (vr_Signature r) \<noteq> ''0x'') then Inl ErrRequest
       else if n > 1 \<or> wallet \<and> vr_Solution r = [] then Inl ErrRequest
       else if signed \<and> vr_Wallet r \<noteq> [] then Inl ErrRequest
       else if n = 0 \<and> \<not> signed then Inl ErrNoProof
       else Inr r)"

section \<open>The agent task\<close>

record Record =
  rc_ID :: nat
  rc_Tag :: string
  rc_Value :: int

definition taskTags :: "string list" where
  "taskTags = [''amber'', ''basalt'', ''cobalt'', ''dune'', ''ember'', ''fjord'']"

text \<open>
  The draws of the seeded generator are an argument: the tag asked for, then a tag (below six) and a value
  (below 999) for each record.
\<close>

record Draws =
  dr_where :: nat
  dr_records :: "(nat \<times> nat) list"

definition draws_ok :: "Draws \<Rightarrow> bool" where
  "draws_ok d \<longleftrightarrow> dr_where d < 6 \<and> length (dr_records d) = AgentRecords \<and> list_all (\<lambda>(t, v). t < 6 \<and> v < 999) (dr_records d)"

definition task_records :: "Draws \<Rightarrow> Record list" where
  "task_records d = map (\<lambda>(i, t, v). \<lparr>rc_ID = i + 1, rc_Tag = taskTags ! t, rc_Value = 1 + int v\<rparr>) (enumerate 0 (dr_records d))"

definition task_where :: "Draws \<Rightarrow> string" where
  "task_where d = taskTags ! dr_where d"

fun task_sum :: "string \<Rightarrow> int \<Rightarrow> Record list \<Rightarrow> int" where
  "task_sum tag s [] = s"
| "task_sum tag s (r # rs) = task_sum tag (if rc_Tag r = tag then s + rc_Value r else s) rs"

definition newTask :: "Draws \<Rightarrow> (string \<times> Record list) \<times> string" where
  "newTask d = ((task_where d, task_records d), FormatInt (task_sum (task_where d) 0 (task_records d)))"

section \<open>Challenges and networks\<close>

record Challenge =
  ch_ID :: string
  ch_Origin :: string
  ch_Nonce :: string
  ch_Min :: int
  ch_Mode :: gate_mode
  ch_Bits :: int
  ch_IssuedAt :: int
  ch_draws :: Draws

definition ExpiresAt :: "Challenge \<Rightarrow> int" where
  "ExpiresAt c = ch_IssuedAt c + ChallengeTTL"

definition Statement :: "string \<Rightarrow> string \<Rightarrow> string \<Rightarrow> string" where
  "Statement serviceID origin i = ''swarmmemo-gate:1:'' @ serviceID @ '':'' @ origin @ '':'' @ i"

record window =
  w_start :: int
  w_n :: nat

record Gate =
  g_pending :: "(string \<times> Challenge) list"
  g_order :: "string list"
  g_head :: nat
  g_nets :: "(string \<times> window) list"

definition New :: Gate where
  "New = \<lparr>g_pending = [], g_order = [], g_head = 0, g_nets = []\<rparr>"

text \<open>\<open>bits.Len\<close>\<close>

fun bits_Len :: "nat \<Rightarrow> nat" where
  "bits_Len n = (if n = 0 then 0 else Suc (bits_Len (n div 2)))"

declare bits_Len.simps [simp del]

definition Escalation :: "nat \<Rightarrow> int" where
  "Escalation count = (if count \<le> EscalateAfter then 0 else int (bits_Len (count - 1)) - int (bits_Len (EscalateAfter - 1)))"

text \<open>\<open>count\<close> returns a pointer into \<open>nets\<close>: it is the key here, and its count is read from the table.\<close>

definition net_count :: "string \<Rightarrow> int \<Rightarrow> Gate \<Rightarrow> Gate" where
  "net_count network now g = (case map_of (g_nets g) network of
       Some w \<Rightarrow> if now - w_start w \<ge> EscalateWindow then g\<lparr>g_nets := AList.update network \<lparr>w_start = now, w_n = 0\<rparr> (g_nets g)\<rparr> else g
     | None \<Rightarrow> g\<lparr>g_nets := AList.update network \<lparr>w_start = now, w_n = 0\<rparr> (g_nets g)\<rparr>)"

definition net_n :: "string \<Rightarrow> Gate \<Rightarrow> nat" where
  "net_n network g = (case map_of (g_nets g) network of Some w \<Rightarrow> w_n w | None \<Rightarrow> 0)"

definition net_add :: "string \<Rightarrow> Gate \<Rightarrow> Gate" where
  "net_add network g = g\<lparr>g_nets := AList.map_entry network (\<lambda>w. w\<lparr>w_n := w_n w + 1\<rparr>) (g_nets g)\<rparr>"

section \<open>Dropping challenges\<close>

definition is_pending :: "string \<Rightarrow> Gate \<Rightarrow> bool" where
  "is_pending i g \<longleftrightarrow> map_of (g_pending g) i \<noteq> None"

definition pop_head :: "Gate \<Rightarrow> Gate" where
  "pop_head g = g\<lparr>g_order := (g_order g)[g_head g := []], g_head := g_head g + 1\<rparr>"

definition unpend :: "string \<Rightarrow> Gate \<Rightarrow> Gate" where
  "unpend i g = g\<lparr>g_pending := AList.delete i (g_pending g)\<rparr>"

lemma pop_head_simps [simp]:
  "g_head (pop_head g) = Suc (g_head g)" "length (g_order (pop_head g)) = length (g_order g)" "g_pending (pop_head g) = g_pending g"
  "g_nets (pop_head g) = g_nets g"
  by (simp_all add: pop_head_def)

lemma unpend_simps [simp]:
  "g_head (unpend i g) = g_head g" "g_order (unpend i g) = g_order g" "g_nets (unpend i g) = g_nets g"
  "g_pending (unpend i g) = AList.delete i (g_pending g)"
  by (simp_all add: unpend_def)

function dropOldest :: "Gate \<Rightarrow> Gate" where
  "dropOldest g =
     (if g_head g < length (g_order g) then
        let i = g_order g ! g_head g; g' = pop_head g in
        if is_pending i g' then unpend i g' else dropOldest g'
      else g)"
  by pat_completeness auto
termination
  by (relation "measure (\<lambda>g. length (g_order g) - g_head g)") auto

declare dropOldest.simps [simp del]

text \<open>The loop that makes room: it ends because something is always there to drop, which is proved.\<close>

partial_function (option) make_room :: "Gate \<Rightarrow> Gate option" where
  "make_room g = (if length (g_pending g) \<ge> PendingMax then make_room (dropOldest g) else Some g)"

function sweep_order :: "int \<Rightarrow> Gate \<Rightarrow> Gate" where
  "sweep_order now g =
     (if g_head g < length (g_order g) then
        let i = g_order g ! g_head g in
        (case map_of (g_pending g) i of
           Some c \<Rightarrow> if now < ExpiresAt c then g else sweep_order now (pop_head (unpend i g))
         | None \<Rightarrow> sweep_order now (pop_head g))
      else g)"
  by pat_completeness auto
termination
  by (relation "measure (\<lambda>(now, g). length (g_order g) - g_head g)") auto

declare sweep_order.simps [simp del]

definition sweep_compact :: "Gate \<Rightarrow> Gate" where
  "sweep_compact g =
     (let live = length (g_order g) - g_head g in
      if g_head g > 1024 \<and> g_head g > live \<or> live > 2 * PendingMax
      then g\<lparr>g_order := filter (\<lambda>i. is_pending i g) (drop (g_head g) (g_order g)), g_head := 0\<rparr> else g)"

definition sweep_nets :: "int \<Rightarrow> Gate \<Rightarrow> Gate" where
  "sweep_nets now g =
     (if length (g_nets g) \<ge> 10000 then g\<lparr>g_nets := filter (\<lambda>(k, w). now - w_start w < EscalateWindow) (g_nets g)\<rparr> else g)"

definition sweep :: "int \<Rightarrow> Gate \<Rightarrow> Gate" where
  "sweep now g = sweep_nets now (sweep_compact (sweep_order now g))"

section \<open>Issuing and taking\<close>

text \<open>\<open>NetworkKey\<close> and \<open>WideKey\<close> of the source are \<open>network\<close> and \<open>wide\<close>, the latter empty for IPv4.\<close>

record Issue_args =
  ia_req :: ChallengeRequest
  ia_mode :: gate_mode
  ia_network :: string
  ia_wide :: string
  ia_raw :: "string option"
  ia_draws :: "Draws option"

text \<open>The bits asked for: the request's base, raised by the counts of the two networks.\<close>

definition work_bits :: "int \<Rightarrow> nat \<Rightarrow> nat \<Rightarrow> int" where
  "work_bits base n wide_n = min ((if base = 0 then BitsDefault else base) + max (Escalation n) (Escalation (wide_n div WideFactor))) BitsMax"

definition wide_n :: "string \<Rightarrow> Gate \<Rightarrow> nat" where
  "wide_n wide g = (if wide = [] then 0 else net_n wide g)"

definition count_nets :: "int \<Rightarrow> Issue_args \<Rightarrow> Gate \<Rightarrow> Gate" where
  "count_nets now a g = (let g1 = net_count (ia_network a) now g in if ia_wide a = [] then g1 else net_count (ia_wide a) now g1)"

definition add_nets :: "Issue_args \<Rightarrow> Gate \<Rightarrow> Gate" where
  "add_nets a g = (let g1 = net_add (ia_network a) g in if ia_wide a = [] then g1 else net_add (ia_wide a) g1)"

definition new_challenge :: "int \<Rightarrow> Issue_args \<Rightarrow> string \<Rightarrow> Draws \<Rightarrow> Gate \<Rightarrow> Challenge" where
  "new_challenge now a i d g =
     \<lparr>ch_ID = i, ch_Origin = cr_Origin (ia_req a), ch_Nonce = (if cr_Nonce (ia_req a) = [] then i else cr_Nonce (ia_req a)),
      ch_Min = cr_Min (ia_req a), ch_Mode = ia_mode a,
      ch_Bits = work_bits (cr_Bits (ia_req a)) (net_n (ia_network a) g) (if ia_wide a = [] then 1 else net_n (ia_wide a) g),
      ch_IssuedAt = now, ch_draws = d\<rparr>"

definition Issue :: "int \<Rightarrow> Issue_args \<Rightarrow> Gate \<Rightarrow> ((gate_err + Challenge) \<times> Gate) option" where
  "Issue now a g =
     (let g1 = count_nets now a (sweep now g) in
      if net_n (ia_network a) g1 \<ge> NetworkChallengesMax \<or> wide_n (ia_wide a) g1 \<ge> NetworkChallengesMax * WideFactor
      then Some (Inl ErrRate, g1)
      else case make_room (add_nets a g1) of
        None \<Rightarrow> None
      | Some g2 \<Rightarrow> Some (case ia_raw a of
          None \<Rightarrow> (Inl ErrRandom, g2)
        | Some raw \<Rightarrow> (case ia_draws a of
            None \<Rightarrow> (Inl ErrRandom, g2)
          | Some d \<Rightarrow>
            let c = new_challenge now a (hex_EncodeToString raw) d g2 in
            (Inr c, g2\<lparr>g_pending := AList.update (ch_ID c) c (g_pending g2), g_order := g_order g2 @ [ch_ID c]\<rparr>))))"

definition Take :: "int \<Rightarrow> string \<Rightarrow> Gate \<Rightarrow> (gate_err + Challenge) \<times> Gate" where
  "Take now i g = (case map_of (g_pending g) i of
       None \<Rightarrow> (Inl ErrUnknown, g)
     | Some c \<Rightarrow> let g' = unpend i g in if \<not> now < ExpiresAt c then (Inl ErrUnknown, g') else (Inr c, g'))"

definition gate_Pending :: "Gate \<Rightarrow> nat" where
  "gate_Pending g = length (g_pending g)"

definition Elapsed :: "int \<Rightarrow> Challenge \<Rightarrow> int" where
  "Elapsed now c = (now - ch_IssuedAt c) sdiv 1000000"

section \<open>Proof of work\<close>

fun LeadingZeroBits :: "string \<Rightarrow> int \<Rightarrow> int" where
  "LeadingZeroBits [] n = n"
| "LeadingZeroBits (b # h) n = (if byte b \<noteq> 0 then n + (8 - int (bits_Len (byte b))) else LeadingZeroBits h (n + 8))"

definition CheckWork :: "(string \<Rightarrow> string) \<Rightarrow> string \<Rightarrow> string \<Rightarrow> int \<Rightarrow> bool" where
  "CheckWork sha256 prefix solution bs \<longleftrightarrow> LeadingZeroBits (sha256 (prefix @ solution)) 0 \<ge> bs"

function solve_from :: "(string \<Rightarrow> string) \<Rightarrow> string \<Rightarrow> int \<Rightarrow> nat \<Rightarrow> nat \<Rightarrow> string option" where
  "solve_from sha256 prefix bs limit n =
     (if n < limit then let s = format_nat 36 n in if CheckWork sha256 prefix s bs then Some s else solve_from sha256 prefix bs limit (n + 1)
      else None)"
  by pat_completeness auto
termination
  by (relation "measure (\<lambda>(sha256, prefix, bs, limit, n). limit - n)") auto

declare solve_from.simps [simp del]

definition Solve :: "(string \<Rightarrow> string) \<Rightarrow> string \<Rightarrow> int \<Rightarrow> nat \<Rightarrow> string option" where
  "Solve sha256 prefix bs limit = solve_from sha256 prefix bs limit 0"

end
