(* ===== verification/Gate_Inv.thy ===== *)
theory Gate_Inv
  imports Gate
begin

text \<open>
  The gate as a state machine: every order of issuing and taking, at any times. Its invariant keeps the
  issue order complete, so making room always ends; challenges are taken at most as often as they are
  issued; and one that is neither taken nor expired stays until enough later ones push it out.
\<close>

section \<open>The invariant\<close>

definition queue :: "Gate \<Rightarrow> string list" where
  "queue g = drop (g_head g) (g_order g)"

definition gate_ok :: "Gate \<Rightarrow> bool" where
  "gate_ok g \<longleftrightarrow> g_head g \<le> length (g_order g) \<and> distinct (map fst (g_pending g)) \<and> fst ` set (g_pending g) \<subseteq> set (queue g)
     \<and> (\<forall>(i, c)\<in>set (g_pending g). ch_ID c = i) \<and> length (g_pending g) \<le> PendingMax"

lemma is_pending_iff: "is_pending i g \<longleftrightarrow> i \<in> fst ` set (g_pending g)"
  by (simp add: is_pending_def map_of_eq_None_iff)

lemma queue_unpend [simp]: "queue (unpend i g) = queue g"
  by (simp add: queue_def)

lemma queue_Nil: "g_head g \<le> length (g_order g) \<Longrightarrow> queue g = [] \<longleftrightarrow> \<not> g_head g < length (g_order g)"
  by (auto simp: queue_def)

lemma queue_Cons: "g_head g < length (g_order g) \<Longrightarrow> queue g = (g_order g ! g_head g) # queue (pop_head g)"
  by (simp add: queue_def pop_head_def Cons_nth_drop_Suc [symmetric])

text \<open>Dropping challenges: what stays is what was, and the order stays complete.\<close>

definition drops :: "Gate \<Rightarrow> Gate \<Rightarrow> bool" where
  "drops g g' \<longleftrightarrow> map_of (g_pending g') \<subseteq>\<^sub>m map_of (g_pending g) \<and> g_nets g' = g_nets g"

lemma drops_refl: "drops g g"
  by (simp add: drops_def)

lemma drops_trans: "drops g g' \<Longrightarrow> drops g' g'' \<Longrightarrow> drops g g''"
  by (auto simp: drops_def intro: map_le_trans)

lemma drops_pop: "drops g (pop_head g)"
  by (simp add: drops_def)

lemma drops_unpend: "drops g (unpend i g)"
  by (auto simp: drops_def map_le_def delete_conv')

lemma pop_ok: "gate_ok g \<Longrightarrow> g_head g < length (g_order g) \<Longrightarrow> \<not> is_pending (g_order g ! g_head g) g \<Longrightarrow> gate_ok (pop_head g)"
  using queue_Cons [of g] by (simp add: gate_ok_def is_pending_iff subset_insert)

lemma pop_unpend_ok:
  assumes "gate_ok g" "g_head g < length (g_order g)" "i = g_order g ! g_head g"
  shows "gate_ok (unpend i (pop_head g))"
proof -
  have "fst ` set (AList.delete i (g_pending g)) = fst ` set (g_pending g) - {i}"
    by (auto simp: AList.delete_eq image_iff)
  moreover have "set (AList.delete i (g_pending g)) \<subseteq> set (g_pending g)" by (auto simp: AList.delete_eq)
  moreover have "distinct (map fst (AList.delete i (g_pending g)))" using assms(1) by (simp add: gate_ok_def AList.distinct_delete)
  ultimately show ?thesis
    using assms queue_Cons [OF assms(2)] length_delete_le [of i "g_pending g"] by (auto simp: gate_ok_def)
qed

lemma pop_unpend_commute: "pop_head (unpend i g) = unpend i (pop_head g)"
  by (simp add: pop_head_def unpend_def)

lemma is_pending_pop [simp]: "is_pending i (pop_head g) = is_pending i g"
  by (simp add: is_pending_def)

lemma length_delete_less: "k \<in> fst ` set xs \<Longrightarrow> length (AList.delete k xs) < length xs"
proof -
  assume "k \<in> fst ` set xs"
  then obtain v where "(k, v) \<in> set xs" by auto
  then show ?thesis unfolding AList.delete_eq by (intro length_filter_less [of "(k, v)"]) auto
qed

lemma dropOldest_ok: "gate_ok g \<Longrightarrow> gate_ok (dropOldest g) \<and> drops g (dropOldest g) \<and> (g_pending g \<noteq> [] \<longrightarrow> length (g_pending (dropOldest g)) < length (g_pending g))"
proof (induction g rule: dropOldest.induct)
  case (1 g)
  show ?case
  proof (cases "g_head g < length (g_order g)")
    case True
    let ?i = "g_order g ! g_head g"
    show ?thesis
    proof (cases "is_pending ?i g")
      case p: True
      then have "dropOldest g = unpend ?i (pop_head g)" using True by (simp add: dropOldest.simps [of g] Let_def)
      then show ?thesis
        using pop_unpend_ok [OF 1(2) True refl] p length_delete_less [of ?i "g_pending g"] drops_trans [OF drops_pop drops_unpend]
        by (simp add: is_pending_iff)
    next
      case False
      then have "dropOldest g = dropOldest (pop_head g)" using True by (simp add: dropOldest.simps [of g] Let_def)
      then show ?thesis
        using 1(1) [OF True refl refl] False pop_ok [OF 1(2) True False] drops_trans [OF drops_pop] by simp
    qed
  next
    case False
    then have "g_pending g = []" using 1(2) by (auto simp: gate_ok_def queue_def)
    then show ?thesis using False 1(2) by (simp add: dropOldest.simps [of g] drops_refl)
  qed
qed

lemma make_room_ok: "gate_ok g \<Longrightarrow> \<exists>g'. make_room g = Some g' \<and> gate_ok g' \<and> drops g g' \<and> length (g_pending g') < PendingMax"
proof (induction "length (g_pending g)" arbitrary: g rule: less_induct)
  case less
  show ?case
  proof (cases "length (g_pending g) \<ge> PendingMax")
    case True
    then have "g_pending g \<noteq> []" by (auto simp: PendingMax_def)
    then have d: "gate_ok (dropOldest g)" "drops g (dropOldest g)" "length (g_pending (dropOldest g)) < length (g_pending g)"
      using dropOldest_ok [OF less.prems] by auto
    with less.hyps [OF d(3,1)] True show ?thesis by (auto simp: make_room.simps [of g] intro: drops_trans)
  qed (use less.prems in \<open>simp add: make_room.simps [of g] drops_refl\<close>)
qed

lemma sweep_order_ok:
  "gate_ok g \<Longrightarrow> gate_ok (sweep_order now g) \<and> drops g (sweep_order now g)
     \<and> (\<forall>i c. map_of (g_pending g) i = Some c \<and> now < ExpiresAt c \<longrightarrow> map_of (g_pending (sweep_order now g)) i = Some c)"
proof (induction now g rule: sweep_order.induct)
  case (1 now g)
  show ?case
  proof (cases "g_head g < length (g_order g)")
    case True
    let ?i = "g_order g ! g_head g"
    show ?thesis
    proof (cases "map_of (g_pending g) ?i")
      case None
      then have np: "\<not> is_pending ?i g" by (simp add: is_pending_def)
      have "sweep_order now g = sweep_order now (pop_head g)" using True None by (simp add: sweep_order.simps [of now g] Let_def)
      then show ?thesis using 1(1) [OF True refl None pop_ok [OF 1(3) True np]] drops_trans [OF drops_pop] by simp
    next
      case (Some c)
      show ?thesis
      proof (cases "now < ExpiresAt c")
        case t: True
        then show ?thesis using True Some 1(3) by (simp add: sweep_order.simps [of now g] Let_def drops_refl)
      next
        case False
        have eq: "sweep_order now g = sweep_order now (unpend ?i (pop_head g))"
          using True Some False by (simp add: sweep_order.simps [of now g] Let_def pop_unpend_commute)
        have "gate_ok (pop_head (unpend ?i g))" using pop_unpend_ok [OF 1(3) True refl] by (simp add: pop_unpend_commute)
        note ih = 1(2) [OF True refl Some False this, unfolded pop_unpend_commute]
        have "i \<noteq> ?i" if "map_of (g_pending g) i = Some ca" "now < ExpiresAt ca" for i ca using that Some False by auto
        with ih show ?thesis
          using drops_trans [OF drops_trans [OF drops_pop drops_unpend], of ?i g "sweep_order now (unpend ?i (pop_head g))"]
          unfolding eq by (simp add: delete_conv')
      qed
    qed
  qed (use 1(3) in \<open>simp add: sweep_order.simps [of now g] drops_refl\<close>)
qed

lemma sweep_compact_queue: "g_head g \<le> length (g_order g) \<Longrightarrow> queue (sweep_compact g) = queue g \<or> queue (sweep_compact g) = filter (\<lambda>i. is_pending i g) (queue g)"
  by (auto simp: sweep_compact_def queue_def Let_def)

lemma sweep_compact_pending [simp]: "g_pending (sweep_compact g) = g_pending g" "g_nets (sweep_compact g) = g_nets g"
  by (simp_all add: sweep_compact_def Let_def)

lemma sweep_compact_ok: "gate_ok g \<Longrightarrow> gate_ok (sweep_compact g)"
  using sweep_compact_queue [of g]
  by (auto simp: gate_ok_def sweep_compact_def Let_def queue_def is_pending_iff)

lemma sweep_nets_simps [simp]:
  "g_pending (sweep_nets now g) = g_pending g" "g_order (sweep_nets now g) = g_order g" "g_head (sweep_nets now g) = g_head g" "queue (sweep_nets now g) = queue g"
  by (simp_all add: sweep_nets_def queue_def)

lemma gate_ok_cong: "g_pending g' = g_pending g \<Longrightarrow> g_order g' = g_order g \<Longrightarrow> g_head g' = g_head g \<Longrightarrow> gate_ok g' = gate_ok g"
  by (simp add: gate_ok_def queue_def)

lemma sweep_nets_ok [simp]: "gate_ok (sweep_nets now g) = gate_ok g"
  by (rule gate_ok_cong) simp_all

lemma sweep_ok: "gate_ok g \<Longrightarrow> gate_ok (sweep now g) \<and> map_of (g_pending (sweep now g)) \<subseteq>\<^sub>m map_of (g_pending g)"
  using sweep_order_ok [of g now] sweep_compact_ok [of "sweep_order now g"]
  by (simp add: sweep_def drops_def)

lemma count_nets_simps [simp]:
  "g_pending (count_nets now a g) = g_pending g" "g_order (count_nets now a g) = g_order g" "g_head (count_nets now a g) = g_head g"
  by (simp_all add: count_nets_def net_count_def Let_def split: option.splits)

lemma add_nets_simps [simp]:
  "g_pending (add_nets a g) = g_pending g" "g_order (add_nets a g) = g_order g" "g_head (add_nets a g) = g_head g"
  by (simp_all add: add_nets_def net_add_def Let_def)

lemma nets_ok [simp]: "gate_ok (count_nets now a g) = gate_ok g" "gate_ok (add_nets a g) = gate_ok g"
  by (rule gate_ok_cong; simp)+

text \<open>Issuing returns, and what is pending after it is the new challenge and some of what was.\<close>

lemma update_keys: "fst ` set (AList.update k v xs) = insert k (fst ` set xs)"
  by (induction xs) auto

lemma update_set: "set (AList.update k v xs) \<subseteq> insert (k, v) (set xs)"
  by (induction xs) auto

lemma length_update: "length (AList.update k v xs) \<le> Suc (length xs)"
  by (induction xs) auto

lemma add_challenge_ok:
  assumes "gate_ok g" "length (g_pending g) < PendingMax"
  shows "gate_ok (g\<lparr>g_pending := AList.update (ch_ID c) c (g_pending g), g_order := g_order g @ [ch_ID c]\<rparr>)"
  using assms update_set [of "ch_ID c" c "g_pending g"] length_update [of "ch_ID c" c "g_pending g"]
  by (auto simp: gate_ok_def queue_def update_keys distinct_update)

lemma Issue_cases:
  assumes "gate_ok g"
  obtains (rate) "Issue now a g = Some (Inl ErrRate, count_nets now a (sweep now g))"
  | (room) g2 where "make_room (add_nets a (count_nets now a (sweep now g))) = Some g2" "gate_ok g2"
      "drops (add_nets a (count_nets now a (sweep now g))) g2" "length (g_pending g2) < PendingMax"
      "net_n (ia_network a) (count_nets now a (sweep now g)) < NetworkChallengesMax"
      "Issue now a g = Some (Inl ErrRandom, g2) \<or>
        (\<exists>raw d. Issue now a g = Some (Inr (new_challenge now a (hex_EncodeToString raw) d g2),
           g2\<lparr>g_pending := AList.update (hex_EncodeToString raw) (new_challenge now a (hex_EncodeToString raw) d g2) (g_pending g2),
              g_order := g_order g2 @ [hex_EncodeToString raw]\<rparr>))"
proof (cases "net_n (ia_network a) (count_nets now a (sweep now g)) \<ge> NetworkChallengesMax
    \<or> wide_n (ia_wide a) (count_nets now a (sweep now g)) \<ge> NetworkChallengesMax * WideFactor")
  case True
  then show ?thesis using rate by (simp add: Issue_def Let_def)
next
  case False
  obtain g2 where g2: "make_room (add_nets a (count_nets now a (sweep now g))) = Some g2" "gate_ok g2"
      "drops (add_nets a (count_nets now a (sweep now g))) g2" "length (g_pending g2) < PendingMax"
    using make_room_ok [of "add_nets a (count_nets now a (sweep now g))"] sweep_ok [OF assms] by auto
  then show ?thesis using False
    by (intro room [OF g2]) (auto simp: Issue_def Let_def new_challenge_def split: option.splits)
qed

lemma ch_ID_new [simp]: "ch_ID (new_challenge now a i d g) = i" "ch_IssuedAt (new_challenge now a i d g) = now"
  by (simp_all add: new_challenge_def)

lemma Issue_ok:
  assumes "gate_ok g"
  shows "\<exists>r g'. Issue now a g = Some (r, g') \<and> gate_ok g'
     \<and> (case r of Inl e \<Rightarrow> map_of (g_pending g') \<subseteq>\<^sub>m map_of (g_pending g)
        | Inr c \<Rightarrow> map_of (g_pending g') \<subseteq>\<^sub>m (map_of (g_pending g))(ch_ID c \<mapsto> c) \<and> map_of (g_pending g') (ch_ID c) = Some c \<and> ch_IssuedAt c = now)"
proof (cases rule: Issue_cases [OF assms, of now a, case_names rate room])
  case rate
  then show ?thesis using sweep_ok [OF assms] by auto
next
  case (room g2)
  have le: "map_of (g_pending g2) \<subseteq>\<^sub>m map_of (g_pending g)"
    using room(3) sweep_ok [OF assms] by (auto simp: drops_def intro: map_le_trans)
  from room(6) show ?thesis
  proof (elim disjE exE)
    assume "Issue now a g = Some (Inl ErrRandom, g2)"
    then show ?thesis using room le by auto
  next
    fix raw d
    let ?c = "new_challenge now a (hex_EncodeToString raw) d g2"
    assume i: "Issue now a g = Some (Inr ?c, g2\<lparr>g_pending := AList.update (hex_EncodeToString raw) ?c (g_pending g2), g_order := g_order g2 @ [hex_EncodeToString raw]\<rparr>)"
    have "(map_of (g_pending g2))(ch_ID ?c \<mapsto> ?c) \<subseteq>\<^sub>m (map_of (g_pending g))(ch_ID ?c \<mapsto> ?c)"
      using le by (rule map_le_upd)
    then show ?thesis using i add_challenge_ok [OF room(2,4), of ?c] by (auto simp: update_conv')
  qed
qed

lemma Take_ok: "gate_ok g \<Longrightarrow> gate_ok (snd (Take now i g))"
proof -
  assume g: "gate_ok g"
  have "set (AList.delete i (g_pending g)) \<subseteq> set (g_pending g)" by (auto simp: AList.delete_eq)
  moreover have "distinct (map fst (AList.delete i (g_pending g)))" using g by (simp add: gate_ok_def AList.distinct_delete)
  ultimately have "gate_ok (unpend i g)"
    using g length_delete_le [of i "g_pending g"] by (auto simp: gate_ok_def)
  then show ?thesis using g by (simp add: Take_def Let_def split: option.splits)
qed

section \<open>Runs\<close>

datatype gate_event = Issued int string Challenge | Refused int gate_err | Taken int Challenge | Missed int string

inductive gate_step :: "Gate \<Rightarrow> gate_event \<Rightarrow> Gate \<Rightarrow> bool" where
  issued: "Issue now a g = Some (Inr c, g') \<Longrightarrow> gate_step g (Issued now (ia_network a) c) g'"
| refused: "Issue now a g = Some (Inl e, g') \<Longrightarrow> gate_step g (Refused now e) g'"
| taken: "Take now i g = (Inr c, g') \<Longrightarrow> gate_step g (Taken now c) g'"
| missed: "Take now i g = (Inl e, g') \<Longrightarrow> gate_step g (Missed now i) g'"

inductive gate_run :: "Gate \<Rightarrow> gate_event list \<Rightarrow> Gate \<Rightarrow> bool" where
  stop: "gate_run g [] g"
| step: "gate_step g e g' \<Longrightarrow> gate_run g' es g'' \<Longrightarrow> gate_run g (e # es) g''"

inductive_cases gate_runE: "gate_run g (e # es) g''"

definition issues :: "Challenge \<Rightarrow> gate_event list \<Rightarrow> nat" where
  "issues c es = length (filter (\<lambda>e. \<exists>now k. e = Issued now k c) es)"

definition takes :: "Challenge \<Rightarrow> gate_event list \<Rightarrow> nat" where
  "takes c es = length (filter (\<lambda>e. \<exists>now. e = Taken now c) es)"

lemma New_ok: "gate_ok New"
  by (simp add: gate_ok_def New_def queue_def)

lemma gate_step_ok: "gate_step g e g' \<Longrightarrow> gate_ok g \<Longrightarrow> gate_ok g'"
proof (induction rule: gate_step.induct)
  case (issued now a g c g')
  then show ?case using Issue_ok [of g now a] by auto
next
  case (refused now a g e g')
  then show ?case using Issue_ok [of g now a] by auto
qed (use Take_ok in \<open>metis snd_conv\<close>)+

lemma gate_run_ok: "gate_run g es g' \<Longrightarrow> gate_ok g \<Longrightarrow> gate_ok g'"
  by (induction rule: gate_run.induct) (auto intro: gate_step_ok)

text \<open>How often a challenge can still be taken: once while it is pending.\<close>

definition held :: "Challenge \<Rightarrow> Gate \<Rightarrow> nat" where
  "held c g = (if map_of (g_pending g) (ch_ID c) = Some c then 1 else 0)"

lemma Take_result:
  "gate_ok g \<Longrightarrow> Take now i g = (Inr c, g') \<Longrightarrow> ch_ID c = i \<and> map_of (g_pending g) i = Some c \<and> now < ExpiresAt c \<and> g' = unpend i g"
  by (auto simp: Take_def Let_def gate_ok_def split: option.splits if_splits dest!: map_of_SomeD)

lemma Take_miss: "Take now i g = (Inl e, g') \<Longrightarrow> map_of (g_pending g') \<subseteq>\<^sub>m map_of (g_pending g)"
  by (auto simp: Take_def Let_def map_le_def delete_conv' split: option.splits if_splits)

lemma held_mono: "map_of (g_pending g') \<subseteq>\<^sub>m map_of (g_pending g) \<Longrightarrow> held c g' \<le> held c g"
  by (auto simp: held_def map_le_def dom_def)

lemma gate_step_held: "gate_step g e g' \<Longrightarrow> gate_ok g \<Longrightarrow> takes c [e] + held c g' \<le> held c g + issues c [e]"
proof (induction rule: gate_step.induct)
  case (issued now a g c' g')
  then have "map_of (g_pending g') \<subseteq>\<^sub>m (map_of (g_pending g))(ch_ID c' \<mapsto> c')" using Issue_ok [of g now a] by auto
  then have "((map_of (g_pending g))(ch_ID c' \<mapsto> c')) (ch_ID c) = Some c" if "map_of (g_pending g') (ch_ID c) = Some c"
    using that by (metis domI map_le_def)
  then show ?case by (auto simp: held_def takes_def issues_def split: if_splits)
next
  case (refused now a g e g')
  then have "map_of (g_pending g') \<subseteq>\<^sub>m map_of (g_pending g)" using Issue_ok [of g now a] by auto
  then show ?case using held_mono by (simp add: takes_def issues_def)
next
  case (taken now i g c' g')
  then show ?case using Take_result [OF taken(2,1)] by (auto simp: held_def takes_def issues_def delete_conv')
next
  case (missed now i g e g')
  then show ?case using held_mono [OF Take_miss] by (simp add: takes_def issues_def)
qed

lemma takes_Cons: "takes c (e # es) = takes c [e] + takes c es" "issues c (e # es) = issues c [e] + issues c es"
  by (simp_all add: takes_def issues_def)

lemma gate_run_held: "gate_run g es g' \<Longrightarrow> gate_ok g \<Longrightarrow> takes c es + held c g' \<le> held c g + issues c es"
proof (induction rule: gate_run.induct)
  case (step g e g' es g'')
  then show ?case
    using gate_step_held [OF step(1,4), of c] gate_step_ok [OF step(1,4)] by (simp add: takes_Cons [of c e es])
qed (simp add: takes_def issues_def)

section \<open>Waiting challenges\<close>

text \<open>A place in the queue with at most \<open>n\<close> challenges issued after it.\<close>

definition slot :: "Challenge \<Rightarrow> nat \<Rightarrow> Gate \<Rightarrow> bool" where
  "slot c n g \<longleftrightarrow> map_of (g_pending g) (ch_ID c) = Some c \<and> (\<exists>A B. queue g = A @ ch_ID c # B \<and> ch_ID c \<notin> set A \<and> length B \<le> n)"

lemma slot_cong: "slot c n g \<Longrightarrow> map_of (g_pending g') (ch_ID c) = map_of (g_pending g) (ch_ID c) \<Longrightarrow> queue g' = queue g \<Longrightarrow> slot c n g'"
  by (simp add: slot_def)

lemma slot_pop:
  assumes "slot c n g" "g_head g < length (g_order g)" "g_order g ! g_head g \<noteq> ch_ID c" "map_of (g_pending g') (ch_ID c) = Some c" "queue g' = queue (pop_head g)"
  shows "slot c n g'"
proof -
  obtain A B where q: "queue g = A @ ch_ID c # B" "ch_ID c \<notin> set A" "length B \<le> n" using assms(1) by (auto simp: slot_def)
  with queue_Cons [OF assms(2)] assms(3) obtain A' where "A = g_order g ! g_head g # A'" by (cases A) auto
  then show ?thesis using q queue_Cons [OF assms(2)] assms(4,5) by (auto simp: slot_def)
qed

lemma slot_first:
  assumes "slot c n g" "gate_ok g" "g_head g < length (g_order g)" "g_order g ! g_head g = ch_ID c"
  shows "length (g_pending g) \<le> Suc n"
proof -
  obtain A B where q: "queue g = A @ ch_ID c # B" "ch_ID c \<notin> set A" "length B \<le> n" using assms(1) by (auto simp: slot_def)
  with queue_Cons [OF assms(3)] assms(4) have "A = []" by (cases A) auto
  then have "set (map fst (g_pending g)) \<subseteq> set (ch_ID c # B)" using q assms(2) by (auto simp: gate_ok_def)
  then have "card (set (map fst (g_pending g))) \<le> card (set (ch_ID c # B))" by (intro card_mono) auto
  also have "\<dots> \<le> Suc n" using card_length [of "ch_ID c # B"] q(3) by simp
  finally show ?thesis using assms(2) by (simp add: gate_ok_def distinct_card [of "map fst (g_pending g)", simplified])
qed

lemma dropOldest_slot: "gate_ok g \<Longrightarrow> slot c n g \<Longrightarrow> length (g_pending g) > Suc n \<Longrightarrow> slot c n (dropOldest g)"
proof (induction g rule: dropOldest.induct)
  case (1 g)
  show ?case
  proof (cases "g_head g < length (g_order g)")
    case True
    let ?i = "g_order g ! g_head g"
    have ne: "?i \<noteq> ch_ID c" using slot_first [OF 1(3,2) True] 1(4) by auto
    have c: "map_of (g_pending g) (ch_ID c) = Some c" using 1(3) by (simp add: slot_def)
    show ?thesis
    proof (cases "is_pending ?i g")
      case p: True
      then have "dropOldest g = unpend ?i (pop_head g)" using True by (simp add: dropOldest.simps [of g] Let_def)
      then show ?thesis using slot_pop [OF 1(3) True ne] c ne by simp
    next
      case False
      then have "dropOldest g = dropOldest (pop_head g)" using True by (simp add: dropOldest.simps [of g] Let_def)
      then show ?thesis using 1(1) [OF True refl refl] False pop_ok [OF 1(2) True False] slot_pop [OF 1(3) True ne] c 1(4) by simp
    qed
  qed (use 1(3) in \<open>simp add: dropOldest.simps [of g]\<close>)
qed

lemma make_room_slot: "gate_ok g \<Longrightarrow> slot c n g \<Longrightarrow> Suc n < PendingMax \<Longrightarrow> make_room g = Some g' \<Longrightarrow> slot c n g'"
proof (induction "length (g_pending g)" arbitrary: g rule: less_induct)
  case less
  show ?case
  proof (cases "length (g_pending g) \<ge> PendingMax")
    case True
    then have "g_pending g \<noteq> []" by (auto simp: PendingMax_def)
    then show ?thesis
      using less.hyps [of "dropOldest g"] dropOldest_ok [OF less.prems(1)] dropOldest_slot [OF less.prems(1,2)] less.prems True
      by (simp add: make_room.simps [of g])
  qed (use less.prems in \<open>simp add: make_room.simps [of g]\<close>)
qed

lemma sweep_order_slot: "gate_ok g \<Longrightarrow> slot c n g \<Longrightarrow> now < ExpiresAt c \<Longrightarrow> slot c n (sweep_order now g)"
proof (induction now g rule: sweep_order.induct)
  case (1 now g)
  show ?case
  proof (cases "g_head g < length (g_order g)")
    case True
    let ?i = "g_order g ! g_head g"
    have c: "map_of (g_pending g) (ch_ID c) = Some c" using 1(4) by (simp add: slot_def)
    show ?thesis
    proof (cases "map_of (g_pending g) ?i")
      case None
      then have np: "\<not> is_pending ?i g" by (simp add: is_pending_def)
      have ne: "?i \<noteq> ch_ID c" using None c by auto
      have "sweep_order now g = sweep_order now (pop_head g)" using True None by (simp add: sweep_order.simps [of now g] Let_def)
      then show ?thesis using 1(1) [OF True refl None pop_ok [OF 1(3) True np]] slot_pop [OF 1(4) True ne] c 1(5) by simp
    next
      case (Some c')
      show ?thesis
      proof (cases "now < ExpiresAt c'")
        case t: True
        then show ?thesis using True Some 1(4) by (simp add: sweep_order.simps [of now g] Let_def)
      next
        case False
        then have ne: "?i \<noteq> ch_ID c" using Some c 1(5) by auto
        have "gate_ok (pop_head (unpend ?i g))" using pop_unpend_ok [OF 1(3) True refl] by (simp add: pop_unpend_commute)
        then show ?thesis
          using 1(2) [OF True refl Some False] slot_pop [OF 1(4) True ne, of "pop_head (unpend ?i g)"] c ne 1(5) True Some False
          by (simp add: sweep_order.simps [of now g] Let_def) (simp add: pop_unpend_commute)
      qed
    qed
  qed (use 1(4) in \<open>simp add: sweep_order.simps [of now g]\<close>)
qed

lemma sweep_slot: "gate_ok g \<Longrightarrow> slot c n g \<Longrightarrow> now < ExpiresAt c \<Longrightarrow> slot c n (sweep now g)"
proof -
  assume g: "gate_ok g" "slot c n g" "now < ExpiresAt c"
  let ?g = "sweep_order now g"
  have s: "slot c n ?g" by (rule sweep_order_slot [OF g])
  then obtain A B where q: "queue ?g = A @ ch_ID c # B" "ch_ID c \<notin> set A" "length B \<le> n" by (auto simp: slot_def)
  have "is_pending (ch_ID c) ?g" using s by (simp add: slot_def is_pending_def)
  then have "filter (\<lambda>i. is_pending i ?g) (queue ?g) = filter (\<lambda>i. is_pending i ?g) A @ ch_ID c # filter (\<lambda>i. is_pending i ?g) B"
    using q by simp
  moreover have "length (filter (\<lambda>i. is_pending i ?g) B) \<le> n" using q(3) length_filter_le [of _ B] by (rule order_trans [rotated])
  moreover have "g_head ?g \<le> length (g_order ?g)" using sweep_order_ok [OF g(1), of now] by (simp add: gate_ok_def)
  moreover have "ch_ID c \<notin> set (filter (\<lambda>i. is_pending i ?g) A)" using q(2) by simp
  ultimately have "slot c n (sweep_compact ?g)"
    using s sweep_compact_queue [of ?g] unfolding slot_def by (metis sweep_compact_pending(1))
  then show ?thesis by (auto simp: sweep_def intro: slot_cong)
qed

primrec event_time :: "gate_event \<Rightarrow> int" where
  "event_time (Issued now k c) = now"
| "event_time (Refused now e) = now"
| "event_time (Taken now c) = now"
| "event_time (Missed now i) = now"

primrec issued_id :: "gate_event \<Rightarrow> string option" where
  "issued_id (Issued now k c) = Some (ch_ID c)"
| "issued_id (Refused now e) = None"
| "issued_id (Taken now c) = None"
| "issued_id (Missed now i) = None"

text \<open>The challenge is neither taken nor expired at the event, and its ID is not drawn again.\<close>

definition leaves :: "Challenge \<Rightarrow> gate_event \<Rightarrow> bool" where
  "leaves c e \<longleftrightarrow> event_time e < ExpiresAt c \<and> issued_id e \<noteq> Some (ch_ID c) \<and> (\<forall>now. e \<noteq> Taken now c)"

definition issued_count :: "gate_event list \<Rightarrow> nat" where
  "issued_count es = length (filter (\<lambda>e. issued_id e \<noteq> None) es)"

lemma slot_mono: "slot c n g \<Longrightarrow> n \<le> m \<Longrightarrow> slot c m g"
  by (force simp: slot_def)

lemma slot_nets [simp]: "slot c n (count_nets now a g) = slot c n g" "slot c n (add_nets a g) = slot c n g"
  by (simp_all add: slot_def queue_def)

lemma queue_add: "g_head g \<le> length (g_order g) \<Longrightarrow> queue (g\<lparr>g_pending := p, g_order := g_order g @ [i]\<rparr>) = queue g @ [i]"
  by (simp add: queue_def)

lemma slot_issue:
  assumes "gate_ok g" "slot c n g" "now < ExpiresAt c" "Suc n < PendingMax" "Issue now a g = Some (r, g')"
    "\<And>c'. r = Inr c' \<Longrightarrow> ch_ID c' \<noteq> ch_ID c"
  shows "slot c (n + (case r of Inl _ \<Rightarrow> 0 | Inr _ \<Rightarrow> 1)) g'"
proof (cases rule: Issue_cases [OF assms(1), of now a, case_names rate room])
  case rate
  then show ?thesis using sweep_slot [OF assms(1-3)] assms(5) by auto
next
  case (room g2)
  have s: "slot c n g2"
    using make_room_slot [OF _ _ assms(4) room(1)] sweep_slot [OF assms(1-3)] sweep_ok [OF assms(1), of now] by simp
  from room(6) show ?thesis
  proof (elim disjE exE)
    fix raw d
    let ?c = "new_challenge now a (hex_EncodeToString raw) d g2"
    assume i: "Issue now a g = Some (Inr ?c, g2\<lparr>g_pending := AList.update (hex_EncodeToString raw) ?c (g_pending g2), g_order := g_order g2 @ [hex_EncodeToString raw]\<rparr>)"
    then have "hex_EncodeToString raw \<noteq> ch_ID c" using assms(5,6) by force
    moreover obtain A B where "queue g2 = A @ ch_ID c # B" "ch_ID c \<notin> set A" "length B \<le> n" using s by (auto simp: slot_def)
    moreover have "g_head g2 \<le> length (g_order g2)" using room(2) by (simp add: gate_ok_def)
    moreover have "map_of (g_pending g2) (ch_ID c) = Some c" using s by (simp add: slot_def)
    ultimately have "slot c (n + 1) g'"
      using i assms(5) unfolding slot_def
      by (intro conjI exI [of _ A] exI [of _ "B @ [hex_EncodeToString raw]"]) (auto simp: queue_add update_conv')
    then show ?thesis using i assms(5) by auto
  qed (use s assms(5) in auto)
qed

lemma gate_step_slot:
  assumes "gate_step g e g'" "gate_ok g" "slot c n g" "leaves c e" "Suc n < PendingMax"
  shows "slot c (n + (case issued_id e of None \<Rightarrow> 0 | Some _ \<Rightarrow> 1)) g'"
  using assms(1)
proof cases
  case (issued now a c')
  then show ?thesis using slot_issue [OF assms(2,3) _ assms(5) issued(2)] assms(4) by (auto simp: leaves_def)
next
  case (refused now a err)
  then show ?thesis using slot_issue [OF assms(2,3) _ assms(5) refused(2)] assms(4) by (auto simp: leaves_def)
next
  case (taken now i c')
  then have "ch_ID c' = i" "map_of (g_pending g) i = Some c'" "g' = unpend i g" using Take_result [OF assms(2)] by auto
  moreover have "c' \<noteq> c" using assms(4) taken by (auto simp: leaves_def)
  ultimately show ?thesis using assms(3) taken by (auto simp: slot_def delete_conv')
next
  case (missed now i err)
  then have "i \<noteq> ch_ID c" using assms(3,4) by (auto simp: slot_def leaves_def Take_def Let_def)
  then have "map_of (g_pending g') (ch_ID c) = map_of (g_pending g) (ch_ID c)" "queue g' = queue g"
    using missed by (auto simp: Take_def Let_def delete_conv' split: option.splits if_splits)
  then show ?thesis using slot_cong [OF assms(3)] missed by simp
qed

lemma gate_run_slot:
  "gate_run g es g' \<Longrightarrow> gate_ok g \<Longrightarrow> slot c n g \<Longrightarrow> \<forall>e\<in>set es. leaves c e \<Longrightarrow> Suc (n + issued_count es) < PendingMax \<Longrightarrow>
   slot c (n + issued_count es) g'"
proof (induction arbitrary: n rule: gate_run.induct)
  case (step g e g' es g'')
  let ?k = "case issued_id e of None \<Rightarrow> 0 | Some _ \<Rightarrow> (1::nat)"
  have n: "n + issued_count (e # es) = (n + ?k) + issued_count es" by (simp add: issued_count_def split: option.splits)
  have "slot c (n + ?k) g'" using gate_step_slot [OF step(1,4,5)] step(6,7) by simp
  then show ?case using step(3) [of "n + ?k"] gate_step_ok [OF step(1,4)] step(6,7) unfolding n by simp
qed (simp add: issued_count_def)

text \<open>Only drawn IDs wait in the queue.\<close>

lemma dropOldest_queue: "gate_ok g \<Longrightarrow> set (queue (dropOldest g)) \<subseteq> set (queue g)"
proof (induction g rule: dropOldest.induct)
  case (1 g)
  show ?case
  proof (cases "g_head g < length (g_order g) \<and> \<not> is_pending (g_order g ! g_head g) g")
    case True
    then have "dropOldest g = dropOldest (pop_head g)" by (simp add: dropOldest.simps [of g] Let_def)
    then show ?thesis using 1(1) [of "g_order g ! g_head g" "pop_head g"] True pop_ok [OF 1(2)] queue_Cons [of g] by auto
  next
    case False
    then show ?thesis using queue_Cons [of g] by (auto simp: dropOldest.simps [of g] Let_def)
  qed
qed

lemma make_room_queue: "gate_ok g \<Longrightarrow> make_room g = Some g' \<Longrightarrow> set (queue g') \<subseteq> set (queue g)"
proof (induction "length (g_pending g)" arbitrary: g rule: less_induct)
  case less
  show ?case
  proof (cases "length (g_pending g) \<ge> PendingMax")
    case True
    then have "g_pending g \<noteq> []" by (auto simp: PendingMax_def)
    then show ?thesis
      using less.hyps [of "dropOldest g"] dropOldest_ok [OF less.prems(1)] dropOldest_queue [OF less.prems(1)] less.prems True
      by (simp add: make_room.simps [of g])
  qed (use less.prems in \<open>simp add: make_room.simps [of g]\<close>)
qed

lemma sweep_order_queue: "gate_ok g \<Longrightarrow> set (queue (sweep_order now g)) \<subseteq> set (queue g)"
proof (induction now g rule: sweep_order.induct)
  case (1 now g)
  show ?case
  proof (cases "g_head g < length (g_order g)")
    case True
    let ?i = "g_order g ! g_head g"
    show ?thesis
    proof (cases "map_of (g_pending g) ?i")
      case None
      then have np: "\<not> is_pending ?i g" by (simp add: is_pending_def)
      then show ?thesis
        using 1(1) [OF True refl None pop_ok [OF 1(3) True np]] queue_Cons [OF True] True None by (auto simp: sweep_order.simps [of now g] Let_def)
    next
      case (Some c')
      have "gate_ok (pop_head (unpend ?i g))" using pop_unpend_ok [OF 1(3) True refl] by (simp add: pop_unpend_commute)
      then show ?thesis
        using 1(2) [OF True refl Some] queue_Cons [OF True] True Some
        by (auto simp: sweep_order.simps [of now g] Let_def pop_unpend_commute)
    qed
  qed (simp add: sweep_order.simps [of now g])
qed

lemma sweep_queue: "gate_ok g \<Longrightarrow> set (queue (sweep now g)) \<subseteq> set (queue g)"
proof -
  assume g: "gate_ok g"
  have "g_head (sweep_order now g) \<le> length (g_order (sweep_order now g))" using sweep_order_ok [OF g, of now] by (simp add: gate_ok_def)
  then show ?thesis
    using sweep_compact_queue [of "sweep_order now g"] sweep_order_queue [OF g, of now] by (auto simp: sweep_def)
qed

lemma Issue_queue:
  assumes "gate_ok g" "Issue now a g = Some (r, g')"
  shows "case r of Inl _ \<Rightarrow> set (queue g') \<subseteq> set (queue g)
    | Inr c \<Rightarrow> \<exists>q. queue g' = q @ [ch_ID c] \<and> set q \<subseteq> set (queue g) \<and> map_of (g_pending g') (ch_ID c) = Some c"
proof (cases rule: Issue_cases [OF assms(1), of now a, case_names rate room])
  case rate
  then show ?thesis using assms(2) sweep_queue [OF assms(1), of now] by (auto simp: queue_def)
next
  case (room g2)
  have sub: "set (queue g2) \<subseteq> set (queue g)"
    using make_room_queue [OF _ room(1)] sweep_ok [OF assms(1), of now] sweep_queue [OF assms(1), of now] by (auto simp: queue_def)
  have "g_head g2 \<le> length (g_order g2)" using room(2) by (simp add: gate_ok_def)
  then show ?thesis using room(6) assms(2) sub by (auto simp: queue_add update_conv')
qed

lemma fresh_slot: "gate_ok g \<Longrightarrow> Issue now a g = Some (Inr c, g') \<Longrightarrow> ch_ID c \<notin> set (queue g) \<Longrightarrow> slot c 0 g'"
  using Issue_queue [of g now a "Inr c" g'] by (auto simp: slot_def)

definition drawn :: "gate_event list \<Rightarrow> string set" where
  "drawn es = {i. \<exists>e\<in>set es. issued_id e = Some i}"

lemma gate_step_queue: "gate_step g e g' \<Longrightarrow> gate_ok g \<Longrightarrow> set (queue g') \<subseteq> set (queue g) \<union> drawn [e]"
proof (induction rule: gate_step.induct)
  case (issued now a g c g')
  then show ?case using Issue_queue [OF issued(2,1)] by (auto simp: drawn_def)
next
  case (refused now a g e g')
  then show ?case using Issue_queue [OF refused(2,1)] by (auto simp: drawn_def)
qed (auto simp: Take_def Let_def drawn_def split: option.splits if_splits)

lemma gate_run_queue: "gate_run g es g' \<Longrightarrow> gate_ok g \<Longrightarrow> set (queue g') \<subseteq> set (queue g) \<union> drawn es"
proof (induction rule: gate_run.induct)
  case (step g e g' es g'')
  have "drawn (e # es) = drawn [e] \<union> drawn es" by (auto simp: drawn_def)
  then show ?case using gate_step_queue [OF step(1,4)] step(3) gate_step_ok [OF step(1,4)] by auto
qed (simp add: drawn_def)

lemma gate_run_append: "gate_run g (es1 @ es2) g'' \<Longrightarrow> \<exists>g'. gate_run g es1 g' \<and> gate_run g' es2 g''"
proof (induction es1 arbitrary: g)
  case (Cons e es1)
  then show ?case by (metis append_Cons gate_runE gate_run.step)
qed (auto intro: gate_run.stop)

section \<open>Counts per network\<close>

text \<open>A window that has not ended keeps its start, only counts up, and counts every challenge issued.\<close>

lemma map_of_filter_Some: "map_of xs k = Some v \<Longrightarrow> P (k, v) \<Longrightarrow> distinct (map fst xs) \<Longrightarrow> map_of (filter P xs) k = Some v"
  by (induction xs) (auto simp: image_iff)

definition nets_distinct :: "Gate \<Rightarrow> bool" where
  "nets_distinct g \<longleftrightarrow> distinct (map fst (g_nets g))"

definition window_at :: "string \<Rightarrow> int \<Rightarrow> nat \<Rightarrow> Gate \<Rightarrow> bool" where
  "window_at k s n g \<longleftrightarrow> nets_distinct g \<and> (\<exists>w. map_of (g_nets g) k = Some w \<and> w_start w = s \<and> n \<le> w_n w)"

lemma sweep_window:
  assumes "window_at k s n g" "gate_ok g" "now - s < EscalateWindow"
  shows "window_at k s n (sweep now g)"
proof -
  have "g_nets (sweep_compact (sweep_order now g)) = g_nets g" using sweep_order_ok [OF assms(2), of now] by (simp add: drops_def)
  then show ?thesis
    using assms(1,3) by (auto simp: window_at_def nets_distinct_def sweep_def sweep_nets_def distinct_map_filter intro!: map_of_filter_Some)
qed

lemma net_count_window:
  "window_at k s n g \<Longrightarrow> now - s < EscalateWindow \<Longrightarrow> window_at k s n (net_count k' now g)"
  by (cases "k = k'") (auto simp: window_at_def nets_distinct_def net_count_def distinct_update update_conv' simp del: map_of_eq_Some_iff split: option.splits)

lemma net_add_window: "window_at k s n g \<Longrightarrow> window_at k s (n + (if k = k' then 1 else 0)) (net_add k' g)"
  by (cases "k = k'") (auto simp: window_at_def nets_distinct_def net_add_def distinct_map_entry map_of_map_entry)

lemma window_mono: "window_at k s n g \<Longrightarrow> m \<le> n \<Longrightarrow> window_at k s m g"
  by (auto simp: window_at_def)

lemma window_nets: "g_nets g' = g_nets g \<Longrightarrow> window_at k s n g' = window_at k s n g"
  by (simp add: window_at_def nets_distinct_def)

lemma Issue_window:
  assumes "gate_ok g" "window_at k s n g" "now - s < EscalateWindow" "Issue now a g = Some (r, g')"
  shows "window_at k s (n + (case r of Inl _ \<Rightarrow> 0 | Inr _ \<Rightarrow> if ia_network a = k then 1 else 0)) g'
    \<and> (\<forall>c. r = Inr c \<longrightarrow> ia_network a = k \<longrightarrow> n < NetworkChallengesMax)"
proof -
  let ?g1 = "count_nets now a (sweep now g)"
  have w1: "window_at k s n ?g1"
    using net_count_window [OF net_count_window [OF sweep_window [OF assms(2,1,3)] assms(3)] assms(3)]
      net_count_window [OF sweep_window [OF assms(2,1,3)] assms(3)] by (simp add: count_nets_def Let_def)
  have w2: "window_at k s (n + (if ia_network a = k then 1 else 0)) (add_nets a ?g1)"
    using net_add_window [OF w1, of "ia_network a"] window_mono [OF net_add_window [OF net_add_window [OF w1, of "ia_network a"], of "ia_wide a"]]
    by (auto simp: add_nets_def Let_def split: if_splits)
  show ?thesis
  proof (cases rule: Issue_cases [OF assms(1), of now a, case_names rate room])
    case rate
    then show ?thesis using w1 assms(4) by auto
  next
    case (room g2)
    have "g_nets g2 = g_nets (add_nets a ?g1)" using room(3) by (simp add: drops_def)
    note w3 = w2 [folded window_nets [OF this]]
    have "n < NetworkChallengesMax" if "ia_network a = k" using room(5) w1 that by (auto simp: window_at_def net_n_def)
    moreover have "window_at k s (n + (if ia_network a = k then 1 else 0)) (g2\<lparr>g_pending := p, g_order := q\<rparr>)" for p q
      using w3 by (subst window_nets [of _ g2]) simp_all
    moreover have "window_at k s n g2" using w3 by (rule window_mono) simp
    ultimately show ?thesis using room(6) assms(4) by (elim disjE exE) (auto split: if_splits)
  qed
qed

definition issued_for :: "string \<Rightarrow> gate_event list \<Rightarrow> nat" where
  "issued_for k es = length (filter (\<lambda>e. \<exists>now c. e = Issued now k c) es)"

lemma gate_step_window:
  assumes "gate_step g e g'" "gate_ok g" "window_at k s n g" "event_time e - s < EscalateWindow"
  shows "window_at k s (n + issued_for k [e]) g' \<and> (0 < issued_for k [e] \<longrightarrow> n < NetworkChallengesMax)"
  using assms(1)
proof cases
  case (issued now a c)
  then show ?thesis using Issue_window [OF assms(2,3) _ issued(2)] assms(4) by (auto simp: issued_for_def split: if_splits)
next
  case (refused now a err)
  then show ?thesis using Issue_window [OF assms(2,3) _ refused(2)] assms(4) by (simp add: issued_for_def)
next
  case (taken now i c)
  then have "g_nets g' = g_nets g" by (auto simp: Take_def Let_def split: option.splits if_splits)
  from assms(3) [folded window_nets [OF this]] show ?thesis using taken by (simp add: issued_for_def)
next
  case (missed now i err)
  then have "g_nets g' = g_nets g" by (auto simp: Take_def Let_def split: option.splits if_splits)
  from assms(3) [folded window_nets [OF this]] show ?thesis using missed by (simp add: issued_for_def)
qed

lemma gate_run_window:
  "gate_run g es g' \<Longrightarrow> gate_ok g \<Longrightarrow> window_at k s n g \<Longrightarrow> \<forall>e\<in>set es. event_time e - s < EscalateWindow \<Longrightarrow>
   issued_for k es \<le> NetworkChallengesMax - n"
proof (induction arbitrary: n rule: gate_run.induct)
  case (step g e g' es g'')
  have "issued_for k (e # es) = issued_for k [e] + issued_for k es" "issued_for k [e] \<le> 1" by (simp_all add: issued_for_def)
  moreover have w: "window_at k s (n + issued_for k [e]) g'" "0 < issued_for k [e] \<longrightarrow> n < NetworkChallengesMax"
    using gate_step_window [OF step(1,4,5)] step(6) by auto
  moreover have "issued_for k es \<le> NetworkChallengesMax - (n + issued_for k [e])"
    using step(3) [OF gate_step_ok [OF step(1,4)] w(1)] step(6) by simp
  ultimately show ?case by linarith
qed (simp add: issued_for_def)

end
