(* ===== verification/Gate_Board.thy ===== *)
theory Gate_Board
  imports Gate_Inv Trust_Standing
begin

text \<open>
  The gate's two operations (\<open>internal/board/gate.go\<close>): \<open>gate.challenge\<close> and \<open>gate.verify\<close>, up to the
  payload the token signs. The notary's signature, the recovery of a wallet's signature, the origin rule
  and the three reads of the database (the parameters in force, a score of the latest run, the kinds of an
  account's verified links) are arguments; the signature is made over the payload returned here.
\<close>

datatype verify_err = Gate_error gate_err | Unavailable | Agent_origin | Store_error

record actor =
  ac_signed :: bool
  ac_id :: string
  ac_account :: string

text \<open>\<open>services.GatePayload\<close>, less what signing adds.\<close>

record GatePayload =
  gp_Origin :: string
  gp_Nonce :: string
  gp_Challenge :: string
  gp_MinCents :: int
  gp_Band :: string
  gp_Proofs :: "string list"
  gp_Bits :: int
  gp_Millis :: int
  gp_Subject :: string
  gp_StandingCents :: int
  gp_Passed :: bool
  gp_IssuedAt :: int
  gp_ExpiresAt :: int

text \<open>
  What the store answers with. The reads fail with \<open>None\<close>: \<open>ge_params\<close> is \<open>trustParamsAt\<close>, \<open>ge_score\<close> the cents
  of \<open>trust.Current\<close> (\<open>Some None\<close> where the account has no row), \<open>ge_kinds\<close> the query on \<open>identity_links\<close>.
\<close>

record gate_env =
  ge_ServiceID :: string
  ge_publicURL :: string
  ge_ready :: bool
  ge_sha256 :: "string \<Rightarrow> string"
  ge_recover :: "string \<Rightarrow> string \<Rightarrow> string option"
  ge_TrustOff :: bool
  ge_params :: "int \<Rightarrow> trust_Params option"
  ge_score :: "string \<Rightarrow> int option option"
  ge_kinds :: "string \<Rightarrow> string list option"

definition lower_text :: "string \<Rightarrow> string" where
  "lower_text s = map (\<lambda>c. if 65 \<le> byte c \<and> byte c \<le> 90 then char_of (byte c + 32) else c) s"

section \<open>gate.challenge\<close>

definition gateChallenge :: "gate_env \<Rightarrow> (string \<Rightarrow> bool) \<Rightarrow> int \<Rightarrow> ChallengeRequest option \<Rightarrow> Issue_args \<Rightarrow> Gate \<Rightarrow> ((verify_err + Challenge) \<times> Gate) option" where
  "gateChallenge env validOrigin now decoded a g =
     (if \<not> ge_ready env then Some (Inl Unavailable, g)
      else case ParseChallengeRequest decoded validOrigin of
        Inl e \<Rightarrow> Some (Inl (Gate_error e), g)
      | Inr (r, m) \<Rightarrow>
        let r' = (if m = ModeAgent \<and> cr_Origin r = [] then r\<lparr>cr_Origin := ge_publicURL env\<rparr> else r) in
        if m = ModeAgent \<and> cr_Origin r' \<noteq> ge_publicURL env then Some (Inl Agent_origin, g)
        else case Issue now (a\<lparr>ia_req := r', ia_mode := m\<rparr>) g of
          None \<Rightarrow> None
        | Some (Inl e, g') \<Rightarrow> Some (Inl (Gate_error e), g')
        | Some (Inr c, g') \<Rightarrow> Some (Inr c, g'))"

section \<open>gate.verify\<close>

definition first_payload :: "Challenge \<Rightarrow> GatePayload" where
  "first_payload ch =
     \<lparr>gp_Origin = ch_Origin ch, gp_Nonce = ch_Nonce ch, gp_Challenge = ch_ID ch, gp_MinCents = ch_Min ch, gp_Band = Band_Name BandAnonymous,
      gp_Proofs = [], gp_Bits = 0, gp_Millis = 0, gp_Subject = [], gp_StandingCents = 0, gp_Passed = False, gp_IssuedAt = 0, gp_ExpiresAt = 0\<rparr>"

text \<open>The switch on what the request brings.\<close>

definition check_proof :: "gate_env \<Rightarrow> bool \<Rightarrow> int \<Rightarrow> VerifyRequest \<Rightarrow> Challenge \<Rightarrow> gate_err + GatePayload" where
  "check_proof env bykey now req ch =
     (let p = first_payload ch in
      if ch_Mode ch = ModeAgent then
        (if vr_Answer req = [] then Inl ErrMode
         else if vr_Answer req \<noteq> snd (newTask (ch_draws ch)) then Inl ErrAnswer
         else if Elapsed now ch > AgentDeadlineMillis then Inl ErrLate
         else Inr (p\<lparr>gp_Millis := Elapsed now ch, gp_Proofs := [''agent_task'']\<rparr>))
      else if vr_Answer req \<noteq> [] then Inl ErrMode
      else if \<not> bykey \<and> ch_Min ch > 0 then Inl ErrIdentity
      else if vr_Solution req \<noteq> [] then
        (if \<not> CheckWork (ge_sha256 env) (ch_ID ch) (vr_Solution req) (ch_Bits ch) then Inl ErrWork
         else let p1 = p\<lparr>gp_Proofs := [''pow''], gp_Bits := ch_Bits ch\<rparr> in
           if vr_Wallet req = [] then Inr p1
           else case ge_recover env (Statement (ge_ServiceID env) (ch_Origin ch) (ch_ID ch)) (vr_Signature req) of
             None \<Rightarrow> Inl ErrWallet
           | Some signer \<Rightarrow>
             if lower_text signer \<noteq> lower_text (vr_Wallet req) then Inl ErrWallet
             else Inr (p1\<lparr>gp_Proofs := gp_Proofs p1 @ [''wallet''], gp_Subject := ''wallet:eip155:1:'' @ lower_text (vr_Wallet req)\<rparr>))
      else Inr p)"

definition gateIdentity :: "gate_env \<Rightarrow> actor \<Rightarrow> int \<Rightarrow> GatePayload \<Rightarrow> GatePayload option" where
  "gateIdentity env a now p =
     (let p1 = p\<lparr>gp_Subject := ac_id a, gp_Proofs := gp_Proofs p @ [''identity''], gp_Band := Band_Name BandSigned\<rparr>;
          p2 = (if ge_TrustOff env then Some p1
                else case ge_params env now of
                  None \<Rightarrow> None
                | Some params \<Rightarrow> (case ge_score env (ac_account a) of
                    None \<Rightarrow> None
                  | Some score \<Rightarrow>
                    let p' = (case score of Some cents \<Rightarrow> p1\<lparr>gp_StandingCents := cents\<rparr> | None \<Rightarrow> p1) in
                    Some (p'\<lparr>gp_Band := Band_Name (Band_of params (gp_StandingCents p'))\<rparr>))) in
      case p2 of
        None \<Rightarrow> None
      | Some p' \<Rightarrow> (case ge_kinds env (ac_account a) of
          None \<Rightarrow> None
        | Some kinds \<Rightarrow> Some (p'\<lparr>gp_Proofs := gp_Proofs p' @ kinds\<rparr>)))"

definition check_identity :: "gate_env \<Rightarrow> actor \<Rightarrow> int \<Rightarrow> Challenge \<Rightarrow> GatePayload \<Rightarrow> verify_err + GatePayload" where
  "check_identity env a now ch p =
     (if \<not> ac_signed a then Inr p
      else let worked = (length (gp_Proofs p) > 0) in
        case gateIdentity env a now p of
          None \<Rightarrow> Inl Store_error
        | Some p' \<Rightarrow> if gp_StandingCents p' = 0 \<and> ch_Min ch = 0 \<and> \<not> worked then Inl (Gate_error ErrNoStanding) else Inr p')"

text \<open>\<open>now\<close> and \<open>later\<close> are two readings of the gate's clock in nanoseconds, \<open>unix\<close> the operation's in seconds.\<close>

definition gateVerify :: "gate_env \<Rightarrow> int \<Rightarrow> int \<Rightarrow> int \<Rightarrow> actor \<Rightarrow> VerifyRequest option \<Rightarrow> Gate \<Rightarrow> (verify_err + GatePayload) \<times> Gate" where
  "gateVerify env now later unix a decoded g =
     (if \<not> ge_ready env then (Inl Unavailable, g)
      else case ParseVerifyRequest decoded (ac_signed a) of
        Inl e \<Rightarrow> (Inl (Gate_error e), g)
      | Inr req \<Rightarrow> (case Take now (vr_Challenge req) g of
          (Inl e, g') \<Rightarrow> (Inl (Gate_error e), g')
        | (Inr ch, g') \<Rightarrow> (case check_proof env (ac_signed a) later req ch of
            Inl e \<Rightarrow> (Inl (Gate_error e), g')
          | Inr p \<Rightarrow> (case check_identity env a unix ch p of
              Inl e \<Rightarrow> (Inl e, g')
            | Inr p' \<Rightarrow>
              (Inr (p'\<lparr>gp_Passed := gp_StandingCents p' \<ge> ch_Min ch, gp_IssuedAt := unix, gp_ExpiresAt := unix + TokenTTL sdiv second\<rparr>), g')))))"

end
