(* ===== verification/Gate_Props.thy ===== *)
theory Gate_Props
  imports Gate_Board
begin

text \<open>
  What a site relies on of the gate: a challenge passes once, in time, for the origin it was made for and with a proof;
  the gate stays within its bounds and keeps what it issued.
\<close>

section \<open>The bounds of a challenge\<close>

lemma bits_Len_0 [simp]: "bits_Len 0 = 0"
  by (simp add: bits_Len.simps)

lemma bits_Len_mono: "m \<le> n \<Longrightarrow> bits_Len m \<le> bits_Len n"
proof (induction n arbitrary: m rule: bits_Len.induct)
  case (1 n)
  then show ?case by (cases "m = 0") (auto simp: bits_Len.simps [of n] bits_Len.simps [of m] intro!: 1(1) div_le_mono)
qed

lemma Escalation_nonneg: "0 \<le> Escalation n"
  using bits_Len_mono [of "EscalateAfter - 1" "n - 1"] by (simp add: Escalation_def)

lemma work_bits_bounds: "base = 0 \<or> BitsMin \<le> base \<Longrightarrow> BitsMin \<le> work_bits base n m \<and> work_bits base n m \<le> BitsMax"
  using Escalation_nonneg [of n] by (auto simp: work_bits_def BitsMin_def BitsDefault_def BitsMax_def)

text \<open>
  A challenge that asks for work is for an origin the rule accepts, asks for 20 to 28 bits however often the network
  has asked, and for a standing of 0 to 1,000,000 cents; one for the agent task is for the service itself.
\<close>
theorem challenge_bounds:
  assumes "gate_ok g" "gateChallenge env validOrigin now decoded a g = Some (Inr c, g')"
  shows "if ch_Mode c = ModePow then validOrigin (ch_Origin c) \<and> BitsMin \<le> ch_Bits c \<and> ch_Bits c \<le> BitsMax \<and> 0 \<le> ch_Min c \<and> ch_Min c \<le> MinCentsMax
    else ch_Origin c = ge_publicURL env"
proof -
  from assms(2) obtain r m r' where r: "ParseChallengeRequest decoded validOrigin = Inr (r, m)"
    "r' = (if m = ModeAgent \<and> cr_Origin r = [] then r\<lparr>cr_Origin := ge_publicURL env\<rparr> else r)"
    "\<not> (m = ModeAgent \<and> cr_Origin r' \<noteq> ge_publicURL env)" "Issue now (a\<lparr>ia_req := r', ia_mode := m\<rparr>) g = Some (Inr c, g')"
    by (auto simp: gateChallenge_def Let_def split: if_splits sum.splits option.splits prod.splits)
  let ?a = "a\<lparr>ia_req := r', ia_mode := m\<rparr>"
  obtain i d g2 where "c = new_challenge now ?a i d g2"
    using Issue_cases [OF assms(1), of now ?a] r(4) by (metis Inl_Inr_False Pair_inject option.inject sum.inject(2))
  then have c: "ch_Mode c = m" "ch_Origin c = cr_Origin r'" "ch_Min c = cr_Min r'" "\<exists>x y. ch_Bits c = work_bits (cr_Bits r') x y"
    by (auto simp: new_challenge_def)
  show ?thesis
  proof (cases m)
    case ModePow
    then have "r' = r" "validOrigin (cr_Origin r)" "0 \<le> cr_Min r" "cr_Min r \<le> MinCentsMax" "cr_Bits r = 0 \<or> BitsMin \<le> cr_Bits r"
      using r(1,2) by (auto simp: ParseChallengeRequest_def Let_def split: option.splits if_splits)
    then show ?thesis using c ModePow work_bits_bounds [of "cr_Bits r"] by auto
  qed (use c r(3) in simp)
qed

text \<open>A site's challenge, the first one of a gate, with a digest of zeros.\<close>

definition site_env :: gate_env where
  "site_env = \<lparr>ge_ServiceID = ''s'', ge_publicURL = ''https://s'', ge_ready = True, ge_sha256 = (\<lambda>_. replicate 32 CHR 0x00),
     ge_recover = (\<lambda>_ _. None), ge_TrustOff = True, ge_params = (\<lambda>_. None), ge_score = (\<lambda>_. Some None), ge_kinds = (\<lambda>_. Some [])\<rparr>"

definition site_request :: ChallengeRequest where
  "site_request = \<lparr>cr_Schema = 1, cr_Origin = ''https://a'', cr_Min = 0, cr_Nonce = [], cr_Mode = [], cr_Bits = 0\<rparr>"

definition site_args :: Issue_args where
  "site_args = \<lparr>ia_req = site_request, ia_mode = ModePow, ia_network = ''n'', ia_wide = [], ia_raw = Some (replicate 16 CHR 0x00),
     ia_draws = Some \<lparr>dr_where = 0, dr_records = []\<rparr>\<rparr>"

definition site_challenge :: Challenge where
  "site_challenge = \<lparr>ch_ID = replicate 32 CHR ''0'', ch_Origin = ''https://a'', ch_Nonce = replicate 32 CHR ''0'', ch_Min = 0, ch_Mode = ModePow,
     ch_Bits = 20, ch_IssuedAt = 0, ch_draws = \<lparr>dr_where = 0, dr_records = []\<rparr>\<rparr>"

definition site_gate :: Gate where
  "site_gate = \<lparr>g_pending = [(replicate 32 CHR ''0'', site_challenge)], g_order = [replicate 32 CHR ''0''], g_head = 0,
     g_nets = [(''n'', \<lparr>w_start = 0, w_n = 1\<rparr>)]\<rparr>"

lemma hex_zeros: "hex_EncodeToString (replicate n CHR 0x00) = replicate (2 * n) CHR ''0''"
  by (induction n) (simp_all add: hex_EncodeToString_def byte_def digit_char_def char_of_def bit_Suc bit_0)

lemma zero_bits: "LeadingZeroBits (replicate n CHR 0x00) k = k + 8 * int n"
  by (induction n arbitrary: k) (simp_all add: byte_def)

lemma site_Issue: "Issue 0 site_args New = Some (Inr site_challenge, site_gate)"
proof -
  have h: "hex_EncodeToString (replicate 16 CHR 0x00) = replicate 32 CHR ''0''"
    using hex_zeros [of 16] by simp
  have s: "sweep 0 New = New"
    by (simp add: sweep_def sweep_order.simps sweep_compact_def sweep_nets_def New_def)
  have c: "count_nets 0 site_args New = New\<lparr>g_nets := [(''n'', \<lparr>w_start = 0, w_n = 0\<rparr>)]\<rparr>"
    by (simp add: count_nets_def net_count_def site_args_def New_def)
  show ?thesis
    unfolding Issue_def s c Let_def
    by (simp add: site_args_def New_def net_n_def wide_n_def NetworkChallengesMax_def WideFactor_def add_nets_def net_add_def make_room.simps
        PendingMax_def h new_challenge_def site_request_def site_challenge_def site_gate_def work_bits_def Escalation_def EscalateAfter_def
        BitsDefault_def BitsMax_def)
qed

lemma site_run: "gate_run New [Issued 0 ''n'' site_challenge] site_gate"
  using gate_step.issued [OF site_Issue] by (auto simp: site_args_def intro: gate_run.intros)

section \<open>Single use\<close>

text \<open>
  C10: In any run of the gate from its start, a challenge is handed out by \<open>Take\<close> at most as often as it was issued,
  each time before it expires, and nothing that was not issued is.
\<close>
theorem gate_single_use:
  assumes "gate_run New es g"
  shows "takes c es \<le> issues c es \<and> (\<forall>now. Taken now c \<in> set es \<longrightarrow> now < ExpiresAt c)"
proof -
  have "takes c es \<le> issues c es"
    using gate_run_held [OF assms New_ok, of c] by (simp add: held_def New_def)
  moreover have "gate_run g0 fs g1 \<Longrightarrow> gate_ok g0 \<Longrightarrow> Taken now c \<in> set fs \<Longrightarrow> now < ExpiresAt c" for g0 fs g1 now
  proof (induction rule: gate_run.induct)
    case (step g e g' es g'')
    have "now < ExpiresAt c" if "e = Taken now c"
      using step(1) that by cases (use Take_result [OF step(4)] in auto)
    then show ?case using step gate_step_ok [OF step(1,4)] by auto
  qed simp
  ultimately show ?thesis using assms New_ok by blast
qed

lemma site_take: "gate_run New [Issued 0 ''n'' site_challenge, Taken 1 site_challenge] (unpend (replicate 32 CHR ''0'') site_gate)"
proof -
  have "Take 1 (replicate 32 CHR ''0'') site_gate = (Inr site_challenge, unpend (replicate 32 CHR ''0'') site_gate)"
    by (simp add: Take_def site_gate_def site_challenge_def ExpiresAt_def ChallengeTTL_def second_def)
  then have "gate_step site_gate (Taken 1 site_challenge) (unpend (replicate 32 CHR ''0'') site_gate)" by (rule gate_step.taken)
  moreover have "gate_step New (Issued 0 ''n'' site_challenge) site_gate"
    using gate_step.issued [OF site_Issue] by (simp add: site_args_def)
  ultimately show ?thesis by (blast intro: gate_run.step gate_run.stop)
qed

theorem gate_single_use_witness:
  "gate_run New [Issued 0 ''n'' site_challenge, Taken 1 site_challenge] (unpend (replicate 32 CHR ''0'') site_gate)
    \<and> takes site_challenge [Issued 0 ''n'' site_challenge, Taken 1 site_challenge] = 1 \<and> (1::int) < ExpiresAt site_challenge"
  using site_take gate_single_use [OF site_take, of site_challenge] by (simp add: takes_def)

text \<open>
  C22: In every reachable state of the gate at most 100,000 challenges are pending, and issuing another returns: making
  room never runs out of challenges to drop.
\<close>
theorem gate_returns:
  assumes "gate_run New es g"
  shows "gate_Pending g \<le> PendingMax \<and> (\<exists>r g'. Issue now a g = Some (r, g'))"
  using gate_run_ok [OF assms New_ok] Issue_ok [of g now a] by (auto simp: gate_ok_def gate_Pending_def)

theorem gate_returns_witness: "gate_Pending site_gate = 1 \<and> (\<exists>r g'. Issue 7 site_args site_gate = Some (r, g'))"
  using gate_returns [OF site_run, of 7 site_args] by (simp add: gate_Pending_def site_gate_def)

text \<open>
  C21: A challenge whose ID is drawn once stays good until it expires or is taken, whatever else is asked of the
  gate, as long as fewer than about 100,000 challenges are issued after it.
\<close>
theorem gate_waits:
  assumes "gate_run New (es @ Issued now k c # fs) g" "ch_ID c \<notin> drawn es" "list_all (leaves c) fs" "issued_count fs + 1 < PendingMax" "t < ExpiresAt c"
  shows "fst (Take t (ch_ID c) g) = Inr c"
proof -
  from gate_run_append [OF assms(1)] obtain g0 where r0: "gate_run New es g0" "gate_run g0 (Issued now k c # fs) g" by auto
  then obtain g1 where r1: "gate_step g0 (Issued now k c) g1" "gate_run g1 fs g" by (auto elim: gate_runE)
  have ok: "gate_ok g0" using gate_run_ok [OF r0(1) New_ok] .
  have fresh: "ch_ID c \<notin> set (queue g0)" using gate_run_queue [OF r0(1) New_ok] assms(2) by (auto simp: New_def queue_def)
  from r1(1) have "slot c 0 g1" by cases (auto intro: fresh_slot [OF ok _ fresh])
  from gate_run_slot [OF r1(2) gate_step_ok [OF r1(1) ok] this] assms(3,4) have "slot c (issued_count fs) g" by (simp add: list_all_iff)
  then show ?thesis using assms(5) by (simp add: slot_def Take_def Let_def)
qed

theorem gate_waits_witness: "fst (Take 5 (ch_ID site_challenge) site_gate) = Inr site_challenge"
proof -
  have r: "gate_run New ([] @ Issued 0 ''n'' site_challenge # []) site_gate" using site_run by simp
  show ?thesis
    by (rule gate_waits [OF r]) (simp_all add: drawn_def issued_count_def PendingMax_def ExpiresAt_def ChallengeTTL_def second_def site_challenge_def)
qed

text \<open>
  While a network's ten-minute window runs, at most 600 challenges are issued to it, less what the window already counts.
\<close>
theorem gate_rate:
  assumes "gate_run New es g" "window_at k s n g" "gate_run g fs g'" "list_all (\<lambda>e. event_time e - s < EscalateWindow) fs"
  shows "issued_for k fs \<le> NetworkChallengesMax - n"
  using gate_run_window [OF assms(3) gate_run_ok [OF assms(1) New_ok] assms(2)] assms(4) by (simp add: list_all_iff)

section \<open>Tokens\<close>

lemma task_sum_filter: "task_sum tag s rs = s + (\<Sum>r\<leftarrow>filter (\<lambda>r. rc_Tag r = tag) rs. rc_Value r)"
  by (induction tag s rs rule: task_sum.induct) auto

lemma check_proof_cases:
  assumes "check_proof env bykey now req ch = Inr p"
  shows "ch_Mode ch = ModeAgent \<and> vr_Answer req = snd (newTask (ch_draws ch)) \<and> gp_Millis p = Elapsed now ch \<and> Elapsed now ch \<le> AgentDeadlineMillis
    \<or> ch_Mode ch = ModePow \<and> vr_Answer req = [] \<and> vr_Solution req \<noteq> [] \<and> CheckWork (ge_sha256 env) (ch_ID ch) (vr_Solution req) (ch_Bits ch) \<and> gp_Bits p = ch_Bits ch
      \<and> (vr_Wallet req = [] \<or> (\<exists>signer. ge_recover env (Statement (ge_ServiceID env) (ch_Origin ch) (ch_ID ch)) (vr_Signature req) = Some signer
            \<and> lower_text signer = lower_text (vr_Wallet req)))
    \<or> ch_Mode ch = ModePow \<and> vr_Answer req = [] \<and> vr_Solution req = [] \<and> gp_Proofs p = []"
  using assms by (cases "ch_Mode ch") (auto simp: check_proof_def first_payload_def Let_def split: if_splits option.splits)

lemma gateIdentity_keeps:
  "gateIdentity env a now p = Some q \<Longrightarrow> gp_Challenge q = gp_Challenge p \<and> gp_Origin q = gp_Origin p \<and> gp_Nonce q = gp_Nonce p
    \<and> gp_MinCents q = gp_MinCents p \<and> gp_Millis q = gp_Millis p \<and> gp_Bits q = gp_Bits p
    \<and> (gp_StandingCents q = gp_StandingCents p \<or> \<not> ge_TrustOff env \<and> ge_score env (ac_account a) = Some (Some (gp_StandingCents q)))"
  by (auto simp: gateIdentity_def Let_def split: if_splits option.splits)

lemma check_identity_keeps:
  "check_identity env a now ch p = Inr q \<Longrightarrow> gp_Challenge q = gp_Challenge p \<and> gp_Origin q = gp_Origin p \<and> gp_Nonce q = gp_Nonce p
    \<and> gp_MinCents q = gp_MinCents p \<and> gp_Millis q = gp_Millis p \<and> gp_Bits q = gp_Bits p
    \<and> (gp_StandingCents q = gp_StandingCents p \<or> ac_signed a \<and> \<not> ge_TrustOff env \<and> ge_score env (ac_account a) = Some (Some (gp_StandingCents q)))"
  using gateIdentity_keeps [of env a now p] by (auto simp: check_identity_def Let_def split: if_splits option.splits)

lemma check_identity_alone:
  "check_identity env a now ch p = Inr q \<Longrightarrow> ac_signed a \<Longrightarrow> gp_Proofs p = [] \<Longrightarrow> gp_StandingCents q = 0 \<Longrightarrow> ch_Min ch \<noteq> 0"
  by (auto simp: check_identity_def Let_def split: if_splits option.splits)

text \<open>
  C9: A token that says passed is for the origin and nonce of the challenge the request names, which was pending and unexpired and
  is spent now, and stands on a proof: the request's answer to the agent task is the sum the task asks for and came in time; or the
  solution the request brings is work of the challenge's bits for this challenge, and a wallet beside it recovers from the
  signature of the gate's statement; or the request is signed and the account's score in the latest run is above zero. The standing
  the token states is at least the site's minimum, and is zero or that score.
\<close>
theorem pass_needs_proof:
  assumes "gate_ok g" "gateVerify env now later unix a decoded g = (Inr p, g')" "gp_Passed p" "0 \<le> gp_MinCents p"
  shows "\<exists>req ch. decoded = Some req \<and> gp_Challenge p = vr_Challenge req
    \<and> map_of (g_pending g) (gp_Challenge p) = Some ch \<and> now < ExpiresAt ch \<and> map_of (g_pending g') (gp_Challenge p) = None
    \<and> gp_Origin p = ch_Origin ch \<and> gp_Nonce p = ch_Nonce ch \<and> gp_StandingCents p \<ge> ch_Min ch
    \<and> (gp_StandingCents p = 0 \<or> ac_signed a \<and> \<not> ge_TrustOff env \<and> ge_score env (ac_account a) = Some (Some (gp_StandingCents p)))
    \<and> (ch_Mode ch = ModeAgent \<and> gp_Millis p = Elapsed later ch \<and> Elapsed later ch \<le> AgentDeadlineMillis
         \<and> vr_Answer req = FormatInt (\<Sum>r\<leftarrow>filter (\<lambda>r. rc_Tag r = task_where (ch_draws ch)) (task_records (ch_draws ch)). rc_Value r)
       \<or> ch_Mode ch = ModePow \<and> vr_Solution req \<noteq> [] \<and> CheckWork (ge_sha256 env) (ch_ID ch) (vr_Solution req) (ch_Bits ch) \<and> gp_Bits p = ch_Bits ch
         \<and> (vr_Wallet req = [] \<or> (\<exists>signer. ge_recover env (Statement (ge_ServiceID env) (ch_Origin ch) (ch_ID ch)) (vr_Signature req) = Some signer
               \<and> lower_text signer = lower_text (vr_Wallet req)))
       \<or> ch_Mode ch = ModePow \<and> ac_signed a \<and> ge_score env (ac_account a) = Some (Some (gp_StandingCents p)) \<and> 0 < gp_StandingCents p)"
proof -
  from assms(2) obtain req ch p1 p2
    where req: "ParseVerifyRequest decoded (ac_signed a) = Inr req" and tk: "Take now (vr_Challenge req) g = (Inr ch, g')"
      and p1: "check_proof env (ac_signed a) later req ch = Inr p1" and p2: "check_identity env a unix ch p1 = Inr p2"
      and p: "p = p2\<lparr>gp_Passed := gp_StandingCents p2 \<ge> ch_Min ch, gp_IssuedAt := unix, gp_ExpiresAt := unix + TokenTTL sdiv second\<rparr>"
    by (auto simp: gateVerify_def split: if_splits sum.splits prod.splits)
  have t: "ch_ID ch = vr_Challenge req" "map_of (g_pending g) (vr_Challenge req) = Some ch" "now < ExpiresAt ch" "g' = unpend (vr_Challenge req) g"
    using Take_result [OF assms(1) tk] by auto
  have f: "gp_Challenge p1 = ch_ID ch \<and> gp_Origin p1 = ch_Origin ch \<and> gp_Nonce p1 = ch_Nonce ch \<and> gp_MinCents p1 = ch_Min ch \<and> gp_StandingCents p1 = 0"
    using p1 by (auto simp: check_proof_def first_payload_def Let_def split: if_splits option.splits)
  have k: "gp_Challenge p = ch_ID ch \<and> gp_Origin p = ch_Origin ch \<and> gp_Nonce p = ch_Nonce ch \<and> gp_MinCents p = ch_Min ch
      \<and> gp_Millis p = gp_Millis p1 \<and> gp_Bits p = gp_Bits p1 \<and> gp_StandingCents p = gp_StandingCents p2"
    using check_identity_keeps [OF p2] f p by simp
  have score: "gp_StandingCents p = 0 \<or> ac_signed a \<and> \<not> ge_TrustOff env \<and> ge_score env (ac_account a) = Some (Some (gp_StandingCents p))"
    using check_identity_keeps [OF p2] f p by simp
  have std: "gp_StandingCents p \<ge> ch_Min ch" using assms(3) p by simp
  have alone: "ac_signed a \<and> 0 < gp_StandingCents p" if "gp_Proofs p1 = []" "vr_Solution req = []" "vr_Answer req = []"
  proof -
    have s: "ac_signed a" using req that by (auto simp: ParseVerifyRequest_def Let_def split: option.splits if_splits)
    then show ?thesis using check_identity_alone [OF p2 s that(1)] k std assms(4) by force
  qed
  have d: "decoded = Some req" using req by (auto simp: ParseVerifyRequest_def Let_def split: option.splits if_splits)
  have "map_of (g_pending g') (gp_Challenge p) = None" using t k by (simp add: delete_conv')
  moreover have "snd (newTask (ch_draws ch)) = FormatInt (\<Sum>r\<leftarrow>filter (\<lambda>r. rc_Tag r = task_where (ch_draws ch)) (task_records (ch_draws ch)). rc_Value r)"
    by (simp add: newTask_def task_sum_filter)
  ultimately show ?thesis
    using check_proof_cases [OF p1] t k std score alone d by (intro exI [of _ req] exI [of _ ch]) (elim disjE; simp)
qed

definition site_verify :: VerifyRequest where
  "site_verify = \<lparr>vr_Schema = 1, vr_Challenge = replicate 32 CHR ''0'', vr_Solution = ''1'', vr_Answer = [], vr_Wallet = [], vr_Signature = []\<rparr>"

definition visitor :: actor where
  "visitor = \<lparr>ac_signed = False, ac_id = [], ac_account = []\<rparr>"

theorem pass_needs_proof_witness:
  "\<exists>p g'. gateVerify site_env 1 2 9 visitor (Some site_verify) site_gate = (Inr p, g') \<and> gp_Passed p \<and> gp_Origin p = ''https://a''
    \<and> map_of (g_pending g') (gp_Challenge p) = None \<and> CheckWork (ge_sha256 site_env) (gp_Challenge p) ''1'' (gp_Bits p)"
proof -
  have "LeadingZeroBits (replicate 32 CHR 0x00) 0 = 256" by (simp add: zero_bits)
  then obtain p g' where v: "gateVerify site_env 1 2 9 visitor (Some site_verify) site_gate = (Inr p, g')" "gp_Passed p" "gp_MinCents p = 0"
      "gp_Origin p = ''https://a''" "gp_Bits p = 20"
    by (simp add: gateVerify_def site_env_def visitor_def ParseVerifyRequest_def site_verify_def idRE_def solutionRE_def is_digit_def byte_def
        Take_def site_gate_def site_challenge_def ExpiresAt_def ChallengeTTL_def second_def check_proof_def first_payload_def Let_def CheckWork_def
        check_identity_def list_all_iff)
  have "gate_ok site_gate" by (rule gate_run_ok [OF site_run New_ok])
  from pass_needs_proof [OF this v(1,2)] v obtain ch where "map_of (g_pending g') (gp_Challenge p) = None"
      "map_of (g_pending site_gate) (gp_Challenge p) = Some ch" "ch_Mode ch = ModePow \<longrightarrow> CheckWork (ge_sha256 site_env) (ch_ID ch) ''1'' (ch_Bits ch) \<and> gp_Bits p = ch_Bits ch"
    by (auto simp: visitor_def site_verify_def)
  then show ?thesis using v by (auto simp: site_gate_def site_challenge_def split: if_splits)
qed

end
