(* ===== verification/Spec2Isabelle.thy ===== *)
theory Spec2Isabelle
  imports Basic_Props Day_Props Ledger_Props Call_Props Flow_Props Log_Props Maxflow_Spec Judge_Props Trust_Props Trust_Run_Props Ots_Props Gate_Props
begin

text \<open>
  A model of the core of the SwarmMemo server (the Go packages under \<open>internal/\<close>) and the theorems that
  make it correct: the allowance ledger, the transparency log with its signed notes and its Bitcoin
  anchors, the trust run's judgements and max-flow, and the bot check for other sites.

  \<^bold>\<open>The program.\<close> Accounts of a message board have allowances: units of a resource, cut from a daily
  pool, bought, earned or received. The ledger keeps them in SQLite tables; the board and the paid
  services call it inside their own transactions. What the board publishes is appended to a Merkle log
  whose heads the server signs and anchors through OpenTimestamps. What accounts are trusted with comes
  from a run that turns judgements and proofs into a flow graph and takes a maximum flow; the standing it
  gives is what the ledger's share rule, the board's votes and the gate's answers read.

  \<^bold>\<open>Conventions.\<close> \<open>Prelude\<close> has the state-and-error monad: a Go method that takes a transaction and
  returns \<open>(value, error)\<close> is a function from a state to a result and a state. A method that fails half
  way leaves the writes it made, as the code does; the contract that the caller then rolls back
  (\<open>internal/ledger/spend.go\<close>, the comment of \<open>Spend\<close>) is \<open>transact\<close>, with an \<open>undo\<close> that restores the tables
  and keeps what lives in memory, the refusal counters. Amounts are \<open>int64\<close> in the code; they are \<open>int\<close> in
  the model with the code's bounds checks kept, and \<open>mulDiv\<close>, the one place with 128-bit intermediate
  values, is proved equal to its two-word form. Hashes, bit masks and the parser's opcodes are words.
  A table is a list of row records in insertion order, and a query is a filter, a sort and a fold over
  it; \<open>CHECK\<close> and \<open>UNIQUE\<close> constraints are error branches of the primitives that write.

  \<^bold>\<open>The ledger\<close> (\<open>internal/allowance\<close>, \<open>internal/ledger\<close>).
  \<^item> \<open>Allowance\<close>, \<open>Ledger_Arith\<close>: the shared types and the integer helpers of \<open>ledger.go\<close>.
  \<^item> \<open>Params\<close>, \<open>Params_Store\<close>, \<open>Rate\<close>: \<open>params.go\<close>, its validation, the versioned store with its advance
    notice, and the demurrage rate. \<open>RatePPM\<close>, and \<open>DayFactor\<close> of the trust parameters, compute in \<open>float64\<close>
    with \<open>math.Exp2\<close> or \<open>math.Pow\<close> and \<open>math.Round\<close>; their models are the same expressions over the real numbers,
    without the rounding of single \<open>float64\<close> operations. An equation in integers makes them executable.
  \<^item> \<open>Pools\<close>: the pure share rule of \<open>pools.go\<close>: a day's slices, draws, returns, lending between slices,
    what a subject is entitled to. \<open>Days\<close>: the same day read, adjusted and saved in the database.
  \<^item> \<open>Store\<close>: the record of all tables (\<open>schema.go\<close>), with their constraints.
  \<^item> \<open>Lots\<close>, \<open>Spend_Limits\<close>, \<open>Spend\<close>, \<open>Holds\<close>, \<open>Transfers\<close>, \<open>Escrow\<close>, \<open>Sweep\<close>, \<open>Journal\<close>: one theory
    per file (\<open>spend.go\<close>, \<open>limits.go\<close>, \<open>transfers.go\<close>, \<open>holds.go\<close>, \<open>escrow.go\<close>, \<open>escrow_split.go\<close>, \<open>sweep.go\<close>,
    \<open>journal.go\<close>, with \<open>refusals.go\<close> in \<open>Spend\<close> and the breakers of \<open>transfers.go\<close> in \<open>Spend_Limits\<close>), a
    definition per method.
  \<^item> \<open>Lot_Inv\<close>, \<open>Ledger_Inv\<close> state the invariant: what the journal credits to a lot is what was issued, what
    it debits is what is gone, what is held is the sum of open hold parts; each open hold is covered by its
    parts; each pending transfer has its own hold, of its amount unless it pays an escrow out; days are well formed. \<open>Days_Inv\<close>, \<open>Spend_Inv\<close>,
    \<open>Settle_Inv\<close>, \<open>Holds_Inv\<close>, \<open>Transfers_Inv\<close>, \<open>Escrow_Inv\<close> and \<open>Sweep_Inv\<close> show that every method keeps it and
    violates no \<open>CHECK\<close>.
  \<^item> \<open>Ledger_Run\<close> is the system: any sequence of method calls, each in its transaction, with any
    parameters, levers and classifier at each call. \<open>Frames\<close> has what the methods leave alone, \<open>Retries\<close>
    what a request key finds when it is sent again, \<open>Spend_Spec\<close>, \<open>Settle_Spec\<close> and \<open>Flow_Spec\<close> what single
    methods do. \<open>Scenario\<close> executes one account's history; the instances of the theorems are there.
  \<^item> \<open>Basic_Props\<close>, \<open>Day_Props\<close>, \<open>Ledger_Props\<close>, \<open>Call_Props\<close>, \<open>Flow_Props\<close>: the properties.

  \<^bold>\<open>The transparency log\<close> (\<open>internal/tlog\<close>, \<open>internal/b64\<close>, \<open>internal/board/transparency.go\<close>).
  \<^item> \<open>Merkle\<close> is RFC 6962 by the RFC's recursion, the specification. \<open>Tlog\<close> is the code's arithmetic on
    stored subtree hashes and its verifiers (\<open>tlog.go\<close>); \<open>Tlog_Store\<close> and \<open>Tlog_Verify\<close> show that they compute and
    accept exactly what the specification says. Soundness is stated for a digest without a collision among
    the values in question.
  \<^item> \<open>B64\<close>, \<open>Go_Text\<close>, \<open>Note\<close>: the canonical base64 of \<open>b64.go\<close>, what \<open>note.go\<close> uses of Go's text packages, and
    signed notes, checkpoints and inclusion promises. \<open>Note_Spec\<close>: printing and parsing are inverse, and a
    note that opens was signed.
  \<^item> \<open>Log\<close>, \<open>Log_Inv\<close>, \<open>Log_Spec\<close>: the board's three log tables, appending and signing, as a transactional
    system of their own; the stored hashes are those of the complete subtrees and each checkpoint is the
    head of its leaves.
  \<^item> \<open>Log_Props\<close>: the properties, of the log and of its texts.

  \<^bold>\<open>Anchors\<close> (\<open>internal/ots\<close>, and the anchors of \<open>transparency.go\<close>).
  \<^item> \<open>Ots\<close> is the proof format of \<open>ots.go\<close>: operations, attestations, the parser with its bounds on depth,
    size and count, the writer, merging, shrinking. \<open>Ots_Spec\<close>: what is parsed is written back
    and read again; a merge says exactly what its two arguments said.
  \<^item> \<open>Ots_Client\<close> is \<open>client.go\<close>: submitting to calendars, polling pending attestations, checking a block
    header. \<open>Anchors\<close>, \<open>Anchors_Inv\<close>: the anchor table and its two loops; a row keeps its checkpoint and only
    gains attestations. \<open>Ots_Props\<close>: the properties.

  \<^bold>\<open>The gate\<close> (\<open>internal/gate\<close>, \<open>internal/board/gate.go\<close>). \<open>Gate\<close> is the store of pending challenges with
  its bounds, expiry, proof-of-work check and rate counters. \<open>Gate_Inv\<close> makes it a state machine over any
  order of issuing and taking. \<open>Gate_Board\<close> is the pair of operations the API calls. \<open>Gate_Props\<close>: a challenge
  passes once, in time, for its origin and with the proof the request brings: the task's answer, the work, or a
  score; the store is bounded; a challenge waits unless enough later ones push it out.

  \<^bold>\<open>Trust\<close> (\<open>internal/judge\<close>, \<open>internal/trust\<close>).
  \<^item> \<open>Judge\<close>, \<open>Judge_Spec\<close>, \<open>Judge_Props\<close>: the weighted median of \<open>judge.go\<close>, its prior and its gains.
  \<^item> \<open>Maxflow\<close>, \<open>Maxflow_Spec\<close>: Dinic's algorithm of \<open>flow.go\<close> on its edge arrays; it returns, and
    its value is a maximum, by the cut of its last level search.
  \<^item> \<open>Trust_Standing\<close>, \<open>Trust_Roots\<close>, \<open>Trust_Graph\<close>, \<open>Trust_Graph_Spec\<close>, \<open>Trust_Props\<close>: the readings
    of a standing (\<open>standing.go\<close>), proof prices (\<open>roots.go\<close>), the graph and its flow (\<open>graph.go\<close>);
    every graph of a run is well formed, and the flow over it is conserved.

  \<^item> \<open>Trust_Params\<close>: the parameter versions and every bound a set is checked against (\<open>params.go\<close>).
    \<open>Trust_Inputs\<close>: records, snapshots and the canonical order (\<open>inputs.go\<close>): lists of the
    same records sort the same unless two different records have one text.
  \<^item> \<open>Trust_Unite\<close>, \<open>Trust_Unite_Spec\<close>: the union-find of \<open>compute.go\<close> and the roots it names, against the
    equivalence its links generate. \<open>Trust_Log\<close>: the penalty log and the carry.
  \<^item> \<open>Trust_Collect\<close>: collecting and marking judgements (\<open>judgements.go\<close>), with the loop that closes the older
    judgement of a root against its specification.
  \<^item> \<open>Trust_Cost\<close>, \<open>Trust_Cost_Spec\<close>: the first half of \<open>run.compute\<close>, what each account has paid here, as one
    definition per loop: priced proofs, budgets, payments, activity, the accumulators of each day, the world
    edges that \<open>newGraph\<close> starts from. \<open>Trust_Run_Props\<close>: the properties.

  \<^bold>\<open>Interfaces.\<close> \<open>transactional\<close> (\<open>Prelude\<close>) is a system of calls, each rolled back on failure, that keep an
  invariant; its instances are \<open>ledger_sys\<close> and \<open>log_tx\<close>. \<open>step_rel\<close> and the locales that extend it
  (\<open>spend_frame\<close>, \<open>limit_frame\<close>, \<open>debit_frame\<close>, \<open>parts_frame\<close>, \<open>ledger_frame\<close>) say which tables a relation between
  two states ignores; the instances give the frame facts. \<open>keyed_table\<close> is a table read and updated by key.

  \<^bold>\<open>Termination.\<close> No definition takes fuel. Loops are structural or have a measure; the parser of
  OpenTimestamps proofs recurses on what its own earlier calls leave of the input, and its termination
  proof shows that each call leaves no more than it got. The phases of the max-flow, the gate's loop
  that makes room and the union-find's walk to a root are \<open>partial_function (option)\<close>, with theorems that
  they return.

  \<^bold>\<open>Parameters.\<close> SHA-256 and SHA-1, Ed25519, the content classifier, the levers of a call, the
  request context, judgement sets and penalties of a run, the network as the answer to the n-th request,
  the origin of a URL, the order a sort leaves equal keys in, random bytes, the key of an IP address,
  wallet recovery, the gate's reads of parameters, scores and links, and JSON decoding are arguments of
  the definitions that use them. What a theorem needs of one (a digest's size, a signature that verifies what it signed) is a
  named hypothesis, and its instance gives a concrete function that has it.

  \<^bold>\<open>Not modelled.\<close> JSON decoding of parameters and requests; mutexes, caches and indexes, which do not
  change what a call returns; timers and the goroutines that call the loops; the key file
  (\<open>tlog/keyfile.go\<close>) and the token that \<open>gate.verify\<close> signs; the log's catch-up queries over the board's
  tables; \<open>StandingScore\<close>, a float for display; the detectors, the penalties a run opens and its published
  output (\<open>detect.go\<close>, the second half of \<open>run.compute\<close>); the storage and history of trust runs
  (\<open>trust.go\<close>, \<open>history.go\<close>, \<open>penaltylog.go\<close>), which are tables of the board. The board's posts, rooms, reviews
  and work, the HTTP API, the web pages, the paid services, moderation, markdown, transports, payments
  and the other proofs are services around this core and are not modelled.
\<close>

end
